(* ===== verification/GowmPrelude.thy ===== *)
theory GowmPrelude
  imports Complex_Main "HOL-Library.Multiset" "HOL-Library.List_Lexorder" "HOL-Library.Word"
begin

text \<open>
  What every component shares: results that may be an exception, JavaScript strings and
  their two orderings, comparator-driven stable sorting, safe integers, and generic facts
  on lists.  The locales at the end are the contract of a comparator handed to
  \<open>Array.prototype.sort\<close>; every comparator of the code is an interpretation of one.
\<close>

named_theorems res_simps \<open>evaluation and inversion of the result combinators\<close>
named_theorems order_intros \<open>a comparator is a total preorder\<close>

section \<open>Results: a value or a thrown error\<close>

text \<open>A computation that may throw is a sum: \<open>Inl\<close> is the exception, \<open>Inr\<close> the value.\<close>

definition bindR :: "'e + 'a \<Rightarrow> ('a \<Rightarrow> 'e + 'b) \<Rightarrow> 'e + 'b" where
  "bindR m f = (case m of Inl e \<Rightarrow> Inl e | Inr x \<Rightarrow> f x)"

definition ensureR :: "bool \<Rightarrow> 'e \<Rightarrow> 'e + unit" where
  "ensureR c e = (if c then Inr () else Inl e)"

text \<open>\<open>for (const x of xs)\<close> with a loop-carried state, left to right, the first throw wins.\<close>

fun foldR :: "('s \<Rightarrow> 'a \<Rightarrow> 'e + 's) \<Rightarrow> 's \<Rightarrow> 'a list \<Rightarrow> 'e + 's" where
  "foldR f s [] = Inr s"
| "foldR f s (x # xs) = bindR (f s x) (\<lambda>s'. foldR f s' xs)"

fun mapR :: "('a \<Rightarrow> 'e + 'b) \<Rightarrow> 'a list \<Rightarrow> 'e + 'b list" where
  "mapR f [] = Inr []"
| "mapR f (x # xs) = bindR (f x) (\<lambda>y. bindR (mapR f xs) (\<lambda>ys. Inr (y # ys)))"

fun isOk :: "'e + 'a \<Rightarrow> bool" where
  "isOk (Inl e) = False"
| "isOk (Inr x) = True"

lemma bindR_Inl [simp, res_simps]: "bindR (Inl e) f = Inl e"
  by (simp add: bindR_def)

lemma bindR_Inr [simp, res_simps]: "bindR (Inr x) f = f x"
  by (simp add: bindR_def)

lemma bindR_eq_Inr [res_simps]: "bindR m f = Inr y \<longleftrightarrow> (\<exists>x. m = Inr x \<and> f x = Inr y)"
  by (cases m) auto

lemma bindR_eq_Inl [res_simps]:
  "bindR m f = Inl e \<longleftrightarrow> m = Inl e \<or> (\<exists>x. m = Inr x \<and> f x = Inl e)"
  by (cases m) auto

lemma bindR_cong [fundef_cong]:
  "m = m' \<Longrightarrow> (\<And>x. m' = Inr x \<Longrightarrow> f x = g x) \<Longrightarrow> bindR m f = bindR m' g"
  by (cases m') auto

lemma ensureR_Inr [simp, res_simps]: "ensureR c e = Inr u \<longleftrightarrow> c"
  by (simp add: ensureR_def)

lemma ensureR_Inl [simp, res_simps]: "ensureR c e = Inl e' \<longleftrightarrow> \<not> c \<and> e' = e"
  by (auto simp: ensureR_def)

lemma ensureR_True [simp]: "ensureR True e = Inr ()"
  by (simp add: ensureR_def)

lemma ensureR_False [simp]: "ensureR False e = Inl e"
  by (simp add: ensureR_def)

lemma isOk_iff: "isOk m \<longleftrightarrow> (\<exists>x. m = Inr x)"
  by (cases m) auto

lemma foldR_append:
  "foldR f s (xs @ ys) = bindR (foldR f s xs) (\<lambda>s'. foldR f s' ys)"
proof (induction xs arbitrary: s)
  case (Cons x xs)
  then show ?case by (cases "f s x") simp_all
qed simp

text \<open>A loop invariant: what every completed iteration keeps holds after the loop.\<close>

lemma foldR_invariant:
  assumes "foldR f s xs = Inr t" and "P s"
    and "\<And>u x v. x \<in> set xs \<Longrightarrow> P u \<Longrightarrow> f u x = Inr v \<Longrightarrow> P v"
  shows "P t"
  using assms
proof (induction xs arbitrary: s)
  case (Cons x xs)
  then obtain u where u: "f s x = Inr u" "foldR f u xs = Inr t"
    by (auto simp: bindR_eq_Inr)
  have "P u" using Cons.prems(2,3) u(1) by auto
  then show ?case using Cons.prems(3) by (intro Cons.IH [OF u(2)]) auto
qed simp

lemma foldR_total:
  assumes "P s"
    and "\<And>u x. x \<in> set xs \<Longrightarrow> P u \<Longrightarrow> \<exists>v. f u x = Inr v \<and> P v"
  shows "\<exists>t. foldR f s xs = Inr t \<and> P t"
  using assms
proof (induction xs arbitrary: s)
  case (Cons x xs)
  obtain u where "f s x = Inr u" "P u" using Cons.prems by auto
  moreover have "\<exists>t. foldR f u xs = Inr t \<and> P t"
    using \<open>P u\<close> Cons.prems(2) by (intro Cons.IH) auto
  ultimately show ?case by simp
qed simp

lemma mapR_Inr_iff:
  "mapR f xs = Inr ys \<longleftrightarrow> list_all2 (\<lambda>x y. f x = Inr y) xs ys"
proof (induction xs arbitrary: ys)
  case Nil
  then show ?case by (cases ys) auto
next
  case (Cons x xs)
  then show ?case
    by (cases ys) (auto simp: bindR_eq_Inr list_all2_Cons1)
qed

lemma mapR_length: "mapR f xs = Inr ys \<Longrightarrow> length ys = length xs"
  by (auto simp: mapR_Inr_iff dest: list_all2_lengthD)

lemma mapR_total:
  "(\<And>x. x \<in> set xs \<Longrightarrow> f x = Inr (g x)) \<Longrightarrow> mapR f xs = Inr (map g xs)"
  by (induction xs) auto

lemma mapR_Inl: "mapR f xs = Inl e \<Longrightarrow> \<exists>x \<in> set xs. f x = Inl e"
  by (induction xs) (auto simp: bindR_eq_Inl)

section \<open>JavaScript strings\<close>

text \<open>
  A JavaScript string is its list of UTF-16 code units; \<open>===\<close> is equality of the lists and
  \<open><\<close> is lexicographic on code units, which is the library's order on lists.
\<close>

type_synonym js_string = "16 word list"

definition js :: "string \<Rightarrow> js_string" where
  "js s = map of_char s"

definition compareText :: "js_string \<Rightarrow> js_string \<Rightarrow> int" where
  "compareText l r = (if l < r then -1 else if l > r then 1 else 0)"

text \<open>String iteration: a high surrogate followed by a low one is one code point.\<close>

fun codePoints :: "js_string \<Rightarrow> nat list" where
  "codePoints [] = []"
| "codePoints [u] = [unat u]"
| "codePoints (u # v # us) =
     (if 55296 \<le> unat u \<and> unat u < 56320 \<and> 56320 \<le> unat v \<and> unat v < 57344
      then (65536 + (unat u - 55296) * 1024 + (unat v - 56320)) # codePoints us
      else unat u # codePoints (v # us))"

text \<open>The same with binary integers, for evaluation.\<close>

lemma codePoints_code [code]:
  "codePoints [] = []"
  "codePoints [u] = [unat u]"
  "codePoints (u # v # us) =
     (if 55296 \<le> uint u \<and> uint u < 56320 \<and> 56320 \<le> uint v \<and> uint v < 57344
      then (65536 + (unat u - 55296) * 1024 + (unat v - 56320)) # codePoints us
      else unat u # codePoints (v # us))"
  by (simp_all only: codePoints.simps uint_nat of_nat_numeral [where 'a = int, symmetric] of_nat_le_iff of_nat_less_iff)

fun comparePoints :: "nat list \<Rightarrow> nat list \<Rightarrow> int" where
  "comparePoints [] [] = 0"
| "comparePoints [] (q # qs) = -1"
| "comparePoints (p # ps) [] = 1"
| "comparePoints (p # ps) (q # qs) =
     (if int p - int q \<noteq> 0 then (if int p - int q < 0 then -1 else 1)
      else comparePoints ps qs)"

definition compareUnicodeCodePoints :: "js_string \<Rightarrow> js_string \<Rightarrow> int" where
  "compareUnicodeCodePoints l r = comparePoints (codePoints l) (codePoints r)"

section \<open>Safe integers\<close>

definition maxSafeInteger :: int where
  "maxSafeInteger = 9007199254740991"

definition isSafeInteger :: "int \<Rightarrow> bool" where
  "isSafeInteger n \<longleftrightarrow> - maxSafeInteger \<le> n \<and> n \<le> maxSafeInteger"

section \<open>Stable sorting by a comparator\<close>

text \<open>JavaScript's \<open>a || b\<close> on comparator results: the next criterion decides a tie.\<close>

definition orElse :: "int \<Rightarrow> int \<Rightarrow> int" where
  "orElse a b = (if a \<noteq> 0 then a else b)"

fun insert_by :: "('a \<Rightarrow> 'a \<Rightarrow> int) \<Rightarrow> 'a \<Rightarrow> 'a list \<Rightarrow> 'a list" where
  "insert_by c x [] = [x]"
| "insert_by c x (y # ys) = (if c x y \<le> 0 then x # y # ys else y # insert_by c x ys)"

text \<open>
  \<open>[...xs].sort(c)\<close>: the specification fixes the result of a stable sort by a consistent
  comparator, which this insertion sort computes.
\<close>

definition sort_by :: "('a \<Rightarrow> 'a \<Rightarrow> int) \<Rightarrow> 'a list \<Rightarrow> 'a list" where
  "sort_by c xs = foldr (insert_by c) xs []"

definition sorted_by :: "('a \<Rightarrow> 'a \<Rightarrow> int) \<Rightarrow> 'a list \<Rightarrow> bool" where
  "sorted_by c xs \<longleftrightarrow> sorted_wrt (\<lambda>x y. c x y \<le> 0) xs"

lemma sort_by_Nil [simp]: "sort_by c [] = []"
  by (simp add: sort_by_def)

lemma sort_by_Cons [simp]: "sort_by c (x # xs) = insert_by c x (sort_by c xs)"
  by (simp add: sort_by_def)

lemma mset_insert_by [simp]: "mset (insert_by c x xs) = add_mset x (mset xs)"
  by (induction xs) auto

lemma mset_sort_by [simp]: "mset (sort_by c xs) = mset xs"
  by (induction xs) auto

lemma set_sort_by [simp]: "set (sort_by c xs) = set xs"
  by (metis mset_sort_by set_mset_mset)

lemma length_sort_by [simp]: "length (sort_by c xs) = length xs"
  by (metis mset_sort_by size_mset)

lemma distinct_sort_by [simp]: "distinct (sort_by c xs) = distinct xs"
  by (metis mset_sort_by mset_eq_imp_distinct_iff)

lemma distinct_map_perm: "mset xs = mset ys \<Longrightarrow> distinct (map f xs) \<longleftrightarrow> distinct (map f ys)"
  by (metis mset_eq_imp_distinct_iff mset_map)

lemma sort_by_eq_Nil [simp]: "sort_by c xs = [] \<longleftrightarrow> xs = []"
  by (metis length_0_conv length_sort_by)

lemma insert_by_map:
  "insert_by c (f x) (map f xs) = map f (insert_by (\<lambda>x y. c (f x) (f y)) x xs)"
  by (induction xs) auto

lemma sort_by_map: "sort_by c (map f xs) = map f (sort_by (\<lambda>x y. c (f x) (f y)) xs)"
  by (induction xs) (auto simp: insert_by_map)

lemma insert_by_cong:
  "(\<And>y. y \<in> set ys \<Longrightarrow> c x y = d x y) \<Longrightarrow> insert_by c x ys = insert_by d x ys"
  by (induction ys) auto

lemma sort_by_cong:
  "(\<And>x y. x \<in> set xs \<Longrightarrow> y \<in> set xs \<Longrightarrow> c x y = d x y) \<Longrightarrow> sort_by c xs = sort_by d xs"
  by (induction xs) (auto intro: insert_by_cong)

text \<open>The contract of a comparator: a total preorder given by the sign of a difference.\<close>

locale js_order =
  fixes cmp :: "'a \<Rightarrow> 'a \<Rightarrow> int"
  assumes cmp_swap: "sgn (cmp y x) = - sgn (cmp x y)"
    and cmp_trans: "cmp x y \<le> 0 \<Longrightarrow> cmp y z \<le> 0 \<Longrightarrow> cmp x z \<le> 0"
begin

lemma cmp_flip_le: "cmp y x \<le> 0 \<longleftrightarrow> 0 \<le> cmp x y"
  using cmp_swap [of x y] by (auto simp: sgn_if split: if_splits)

lemma cmp_flip_less: "cmp y x < 0 \<longleftrightarrow> 0 < cmp x y"
  using cmp_swap [of x y] by (auto simp: sgn_if split: if_splits)

lemma cmp_flip_zero: "cmp y x = 0 \<longleftrightarrow> cmp x y = 0"
  using cmp_swap [of x y] by (auto simp: sgn_if split: if_splits)

lemma cmp_refl: "cmp x x = 0"
  using cmp_swap [of x x] by (auto simp: sgn_if split: if_splits)

lemma cmp_total: "cmp x y \<le> 0 \<or> cmp y x \<le> 0"
  using cmp_flip_le [of x y] by linarith

lemma cmp_less_le_trans: "cmp x y < 0 \<Longrightarrow> cmp y z \<le> 0 \<Longrightarrow> cmp x z < 0"
  by (metis cmp_flip_less cmp_trans linorder_not_less cmp_flip_le)

lemma cmp_le_less_trans: "cmp x y \<le> 0 \<Longrightarrow> cmp y z < 0 \<Longrightarrow> cmp x z < 0"
  by (metis cmp_flip_less cmp_trans linorder_not_less cmp_flip_le)

lemma cmp_zero_left: "cmp x y = 0 \<Longrightarrow> cmp x z \<le> 0 \<longleftrightarrow> cmp y z \<le> 0"
  by (metis cmp_flip_zero cmp_trans order_refl)

lemma sorted_insert_by: "sorted_by cmp xs \<Longrightarrow> sorted_by cmp (insert_by cmp x xs)"
proof (induction xs)
  case (Cons y ys)
  have set_eq: "set (insert_by cmp x ys) = insert x (set ys)"
    by (metis mset_insert_by set_mset_add_mset_insert set_mset_mset)
  show ?case
  proof (cases "cmp x y \<le> 0")
    case True
    then show ?thesis using Cons.prems by (auto simp: sorted_by_def intro: cmp_trans)
  next
    case False
    then have "cmp y x \<le> 0" by (simp add: cmp_flip_le [of x y])
    then show ?thesis using Cons False by (auto simp: sorted_by_def set_eq)
  qed
qed (simp add: sorted_by_def)

lemma sorted_sort_by: "sorted_by cmp (sort_by cmp xs)"
  by (induction xs) (auto simp: sorted_insert_by sorted_by_def [of _ "[]"])

lemma sort_by_sorted: "sorted_by cmp xs \<Longrightarrow> sort_by cmp xs = xs"
proof (induction xs)
  case (Cons x xs)
  then have "sort_by cmp xs = xs" by (simp add: sorted_by_def)
  then show ?case using Cons.prems by (cases xs) (auto simp: sorted_by_def)
qed simp

lemma sort_by_idem: "sort_by cmp (sort_by cmp xs) = sort_by cmp xs"
  by (rule sort_by_sorted [OF sorted_sort_by])

text \<open>Sorting is stable: elements the comparator does not separate keep their order.\<close>

lemma filter_insert_by_tie:
  "filter (\<lambda>y. cmp z y = 0) (insert_by cmp x xs) = filter (\<lambda>y. cmp z y = 0) (x # xs)"
proof (induction xs)
  case (Cons y ys)
  have "\<not> (cmp z x = 0 \<and> cmp z y = 0)" if "\<not> cmp x y \<le> 0"
    using that by (metis cmp_flip_zero cmp_zero_left order_refl)
  then show ?case using Cons by auto
qed simp

lemma sort_by_stable: "filter (\<lambda>y. cmp z y = 0) (sort_by cmp xs) = filter (\<lambda>y. cmp z y = 0) xs"
  by (induction xs) (simp_all add: filter_insert_by_tie)

text \<open>Where ties are equalities the result depends on the elements only, not their order.\<close>

lemma sorted_by_unique:
  assumes "mset xs = mset ys" and "sorted_by cmp xs" and "sorted_by cmp ys"
    and "\<And>x y. x \<in> set xs \<Longrightarrow> y \<in> set xs \<Longrightarrow> cmp x y = 0 \<Longrightarrow> x = y"
  shows "xs = ys"
  using assms
proof (induction xs arbitrary: ys)
  case (Cons x xs)
  from Cons.prems(1) obtain y ys' where ys: "ys = y # ys'"
    by (cases ys) auto
  have sets: "set ys = set (x # xs)" using Cons.prems(1) by (metis set_mset_mset)
  have "cmp x y \<le> 0" using Cons.prems(2) sets ys cmp_refl
    by (auto simp: sorted_by_def) (metis cmp_refl insertI1 insertE order_refl)
  moreover have "cmp y x \<le> 0" using Cons.prems(3) sets ys cmp_refl
    by (auto simp: sorted_by_def) (metis cmp_refl insertI1 insertE order_refl)
  ultimately have "cmp x y = 0" using cmp_flip_le by (metis antisym)
  moreover have "y \<in> set (x # xs)" using sets ys by auto
  ultimately have "x = y" using Cons.prems(4) by auto
  moreover have "xs = ys'"
    using Cons.prems ys \<open>x = y\<close> by (intro Cons.IH) (auto simp: sorted_by_def)
  ultimately show ?case using ys by simp
qed simp

lemma sort_by_perm:
  assumes "mset xs = mset ys"
    and "\<And>x y. x \<in> set xs \<Longrightarrow> y \<in> set xs \<Longrightarrow> cmp x y = 0 \<Longrightarrow> x = y"
  shows "sort_by cmp xs = sort_by cmp ys"
  using assms by (intro sorted_by_unique) (auto simp: sorted_sort_by)

end

text \<open>A comparator that separates every two distinct values: sorting is a canonical form.\<close>

locale js_linear_order = js_order +
  assumes cmp_eq: "cmp x y = 0 \<Longrightarrow> x = y"
begin

lemma cmp_zero_iff: "cmp x y = 0 \<longleftrightarrow> x = y"
  using cmp_eq cmp_refl by auto

lemma sort_by_canonical: "sort_by cmp xs = sort_by cmp ys \<longleftrightarrow> mset xs = mset ys"
  by (metis cmp_eq mset_sort_by sort_by_perm)

end

section \<open>The comparators of the code base\<close>

lemma js_order_key: "js_order c \<Longrightarrow> js_order (\<lambda>x y. c (f x) (f y))"
  unfolding js_order_def by blast

lemma js_order_diff [order_intros]: "js_order (\<lambda>x y. f x - (f y :: int))"
  by unfold_locales (auto simp: sgn_if)

lemma js_order_orElse [order_intros]:
  assumes "js_order c" and "js_order d"
  shows "js_order (\<lambda>x y. orElse (c x y) (d x y))"
proof (unfold_locales)
  fix x y z
  show "sgn (orElse (c y x) (d y x)) = - sgn (orElse (c x y) (d x y))"
    using js_order.cmp_swap [OF assms(1), of y x] js_order.cmp_swap [OF assms(2), of y x]
      js_order.cmp_flip_zero [OF assms(1), of x y]
    by (auto simp: orElse_def)
  assume le: "orElse (c x y) (d x y) \<le> 0" "orElse (c y z) (d y z) \<le> 0"
  have c_le: "c x y \<le> 0" "c y z \<le> 0" using le by (auto simp: orElse_def split: if_splits)
  show "orElse (c x z) (d x z) \<le> 0"
  proof (cases "c x y = 0 \<and> c y z = 0")
    case True
    then have "d x z \<le> 0" using le js_order.cmp_trans [OF assms(2)] by (auto simp: orElse_def)
    moreover have "c x z \<le> 0" using c_le by (rule js_order.cmp_trans [OF assms(1)])
    ultimately show ?thesis by (simp add: orElse_def)
  next
    case False
    then have "c x z < 0"
      using c_le js_order.cmp_less_le_trans [OF assms(1)] js_order.cmp_le_less_trans [OF assms(1)]
      by (metis order_le_less)
    then show ?thesis by (simp add: orElse_def)
  qed
qed

lemma orElse_zero: "orElse a b = 0 \<longleftrightarrow> a = 0 \<and> b = 0"
  by (simp add: orElse_def)

interpretation text_order: js_linear_order compareText
  by unfold_locales (auto simp: compareText_def split: if_splits)

lemma comparePoints_eq: "comparePoints ps qs = (if ps < qs then -1 else if ps > qs then 1 else 0)"
  by (induction ps qs rule: comparePoints.induct) auto

text \<open>
  Decoding loses nothing: UTF-16 encoding is its inverse, since a code point above the
  basic plane arises from a surrogate pair only and a pair never decodes to two points.
\<close>

definition encodePoint :: "nat \<Rightarrow> js_string" where
  "encodePoint p = (if p < 65536 then [of_nat p]
     else [of_nat (55296 + (p - 65536) div 1024), of_nat (56320 + (p - 65536) mod 1024)])"

lemma unat16_bound: "unat (u :: 16 word) < 65536"
  using unsigned_less [of u] by simp

lemma encodePoint_unit: "encodePoint (unat u) = [u]"
  using unat16_bound [of u] by (simp add: encodePoint_def)

lemma encode_codePoints: "concat (map encodePoint (codePoints us)) = us"
proof (induction us rule: codePoints.induct)
  case (3 u v us)
  show ?case
  proof (cases "55296 \<le> unat u \<and> unat u < 56320 \<and> 56320 \<le> unat v \<and> unat v < 57344")
    case True
    let ?a = "unat u - 55296" and ?b = "unat v - 56320"
    have b: "?b < 1024" using True by arith
    then have "(?a * 1024 + ?b) div 1024 = ?a" "(?a * 1024 + ?b) mod 1024 = ?b"
      by simp_all
    moreover have "55296 + ?a = unat u" "56320 + ?b = unat v" using True by arith+
    ultimately have "encodePoint (65536 + ?a * 1024 + ?b) = [u, v]"
      by (simp add: encodePoint_def add.assoc)
    then show ?thesis using 3 True by simp
  next
    case False
    then have "codePoints (u # v # us) = unat u # codePoints (v # us)"
      by (simp only: codePoints.simps if_False)
    moreover have "concat (map encodePoint (codePoints (v # us))) = v # us"
      using False by (rule 3)
    ultimately show ?thesis by (simp add: encodePoint_unit)
  qed
qed (simp_all add: encodePoint_unit)

lemma codePoints_inject: "codePoints us = codePoints vs \<longleftrightarrow> us = vs"
  by (metis encode_codePoints)

lemma js_order_points: "js_order comparePoints"
  by unfold_locales (auto simp: comparePoints_eq split: if_splits)

interpretation code_point_order: js_linear_order compareUnicodeCodePoints
proof (unfold_locales)
  have ord: "js_order compareUnicodeCodePoints"
    unfolding compareUnicodeCodePoints_def by (rule js_order_key [OF js_order_points])
  fix x y z
  show "sgn (compareUnicodeCodePoints y x) = - sgn (compareUnicodeCodePoints x y)"
    by (rule js_order.cmp_swap [OF ord])
  show "compareUnicodeCodePoints x y \<le> 0 \<Longrightarrow> compareUnicodeCodePoints y z \<le> 0 \<Longrightarrow>
      compareUnicodeCodePoints x z \<le> 0"
    by (rule js_order.cmp_trans [OF ord])
  show "compareUnicodeCodePoints x y = 0 \<Longrightarrow> x = y"
    by (auto simp: compareUnicodeCodePoints_def comparePoints_eq codePoints_inject split: if_splits)
qed

lemma js_order_text [order_intros]: "js_order (\<lambda>x y. compareText (f x) (f y))"
  by (rule js_order_key [OF text_order.js_order_axioms])

lemma js_order_code_points [order_intros]: "js_order (\<lambda>x y. compareUnicodeCodePoints (f x) (f y))"
  by (rule js_order_key [OF code_point_order.js_order_axioms])

text \<open>Two texts joined by a separator that neither first part contains are read back.\<close>

lemma separated: "x \<notin> set s \<Longrightarrow> x \<notin> set t \<Longrightarrow> s @ x # u = t @ x # v \<longleftrightarrow> s = t \<and> u = v"
proof (induction s arbitrary: t)
  case Nil
  then show ?case by (cases t) auto
next
  case (Cons c s)
  then show ?case by (cases t) auto
qed

end
