(* ===== verification/TraceModel.thy ===== *)
theory TraceModel
  imports GowmPrelude
begin

text \<open>
  The data of \<open>packages/historical-trace-model/src\<close>: task-interval events, phases, drafts and
  revisions (\<open>interval.ts\<close>), the outcome vocabulary (\<open>outcome.ts\<close>), and periods, gaps,
  segments and candidates (\<open>trajectory.ts\<close>).

  A timestamp text is represented by what \<open>Date.parse\<close> reads from it, which is all the code
  ever asks of it: \<open>BadStamp\<close> is a text that parses to \<open>NaN\<close>, \<open>At m\<close> one that denotes
  \<open>m\<close> milliseconds; \<open>new Date(m).toISOString()\<close> is therefore \<open>At m\<close>.  Confidences are
  finite numbers and are kept as rationals.
\<close>

section \<open>Timestamps and thrown errors\<close>

datatype stamp = BadStamp | At int

datatype trace_error =
    InvalidTimestamp
  | EmptyTimePeriod
  | InvalidSourceSegmentNo
  | InvalidSampleCount
  | InvalidSequenceCount
  | InvalidVersionNo
  | InvalidSourceRevisionNo js_string
  | InvalidEventContentHash js_string
  | InvalidConfidence js_string
  | DuplicateEventId js_string
  | LostCurrentExecution
  | MissingAnchor

fun millis :: "stamp \<Rightarrow> trace_error + int" where
  "millis BadStamp = Inl InvalidTimestamp"
| "millis (At m) = Inr m"

text \<open>The parsed value of a timestamp already known to parse.\<close>

fun stampMs :: "stamp \<Rightarrow> int" where
  "stampMs BadStamp = 0"
| "stampMs (At m) = m"

lemma millis_Inr [simp, res_simps]: "millis s = Inr m \<longleftrightarrow> s = At m"
  by (cases s) auto

lemma millis_Inl [simp, res_simps]: "millis s = Inl e \<longleftrightarrow> s = BadStamp \<and> e = InvalidTimestamp"
  by (cases s) auto

section \<open>Task intervals (interval.ts)\<close>

datatype event_type =
    EXECUTION_STARTED_OBSERVED
  | EXECUTION_PROGRESS_OBSERVED
  | EXECUTION_PAUSED_OBSERVED
  | EXECUTION_RESUMED_OBSERVED
  | EXECUTION_STOPPED_OBSERVED
  | EXECUTION_FAILED_OBSERVED
  | EXECUTION_CANCELLED_OBSERVED
  | CONTROL_COMPLETED_REPORTED
  | OTHER_EVENT js_string

datatype lifecycle_state = OPEN | CLOSED | LIFECYCLE_CONFLICTED
datatype derivation_kind = OBSERVED | INFERRED | MIXED
datatype stability_state = PROVISIONAL | SEALED | STABILITY_CONFLICTED
datatype phase_kind = RUNNING | PAUSED | UNKNOWN_PHASE
datatype fsm_state = FSM_NONE | FSM_RUNNING | FSM_PAUSED | FSM_TERMINAL | FSM_CONFLICTED

datatype reason_code =
    INTERVALS_AVAILABLE
  | TASK_NOT_FOUND
  | NO_EXECUTION_EVENTS
  | EXECUTION_BOUNDARY_MISSING
  | EVENT_SEQUENCE_CONFLICT
  | SAME_TIME_CONFLICT
  | DUPLICATE_START
  | DUPLICATE_RESUME
  | LEGACY_START_INTERPRETED_AS_RESUME
  | CONTROL_COMPLETION_USED_AS_TERMINAL
  | OPEN_EXECUTION
  | PROJECTION_PENDING

text \<open>The literal a reason code is; \<open>[...reasonCodes].sort()\<close> orders by these texts.\<close>

fun reasonText :: "reason_code \<Rightarrow> js_string" where
  "reasonText INTERVALS_AVAILABLE = js ''INTERVALS_AVAILABLE''"
| "reasonText TASK_NOT_FOUND = js ''TASK_NOT_FOUND''"
| "reasonText NO_EXECUTION_EVENTS = js ''NO_EXECUTION_EVENTS''"
| "reasonText EXECUTION_BOUNDARY_MISSING = js ''EXECUTION_BOUNDARY_MISSING''"
| "reasonText EVENT_SEQUENCE_CONFLICT = js ''EVENT_SEQUENCE_CONFLICT''"
| "reasonText SAME_TIME_CONFLICT = js ''SAME_TIME_CONFLICT''"
| "reasonText DUPLICATE_START = js ''DUPLICATE_START''"
| "reasonText DUPLICATE_RESUME = js ''DUPLICATE_RESUME''"
| "reasonText LEGACY_START_INTERPRETED_AS_RESUME = js ''LEGACY_START_INTERPRETED_AS_RESUME''"
| "reasonText CONTROL_COMPLETION_USED_AS_TERMINAL = js ''CONTROL_COMPLETION_USED_AS_TERMINAL''"
| "reasonText OPEN_EXECUTION = js ''OPEN_EXECUTION''"
| "reasonText PROJECTION_PENDING = js ''PROJECTION_PENDING''"

record interval_event =
  eventId :: js_string
  eventType :: event_type
  eventTime :: stamp
  receivedTime :: stamp
  sourceAuthority :: js_string
  sourceEventKey :: js_string
  sourceRevisionNo :: int
  eventContentHash :: js_string
  eventConfidence :: "rat option"

record method_profile =
  profileKey :: js_string
  profileVersion :: int
  profileHash :: js_string
  legacyResumeFromStarted :: bool
  allowControlCompletionAsTerminal :: bool

definition DEFAULT_TASK_INTERVAL_METHOD_PROFILE :: method_profile where
  "DEFAULT_TASK_INTERVAL_METHOD_PROFILE =
     \<lparr>profileKey = js ''task-interval-observed-v1'', profileVersion = 1,
      profileHash = js ''sha256:'' @ replicate 64 48,
      legacyResumeFromStarted = False, allowControlCompletionAsTerminal = False\<rparr>"

record execution_phase =
  phaseNo :: nat
  phaseKind :: phase_kind
  phaseStart :: "stamp option"
  phaseEnd :: "stamp option"
  phaseStartEventId :: "js_string option"
  phaseEndEventId :: "js_string option"
  phaseConfidence :: "rat option"
  phaseReasonCodes :: "reason_code list"

record interval_draft =
  executionNo :: nat
  lifecycleState :: lifecycle_state
  derivationKind :: derivation_kind
  stabilityState :: stability_state
  draftStart :: "stamp option"
  draftEnd :: "stamp option"
  startEventId :: "js_string option"
  terminalEventId :: "js_string option"
  draftPhases :: "execution_phase list"
  draftConfidence :: "rat option"
  draftReasonCodes :: "reason_code list"
  inputEvents :: "interval_event list"

record machine_result =
  finalState :: fsm_state
  executions :: "interval_draft list"
  orphanEvents :: "interval_event list"

record reconstructed_interval =
  reconDraft :: interval_draft
  inputEventSetHash :: js_string
  contentHash :: js_string

record reconstruction_result =
  orderedEvents :: "interval_event list"
  reconExecutions :: "reconstructed_interval list"
  reconOrphans :: "interval_event list"
  reconInputSetHash :: js_string

record existing_revision =
  intervalRevisionId :: js_string
  revExecutionNo :: nat
  revRevisionNo :: int
  revContentHash :: js_string

datatype revision_plan =
    REUSE nat int js_string reconstructed_interval
  | APPEND nat int "js_string option" reconstructed_interval

section \<open>Outcomes (outcome.ts)\<close>

datatype outcome_status = COMPLETED | PARTIAL | NO_DATA | INDETERMINATE

datatype outcome_reason =
    COMPLETE
  | PARTIAL_COVERAGE
  | UNKNOWN_GAPS
  | NO_TRAJECTORY_POINTS
  | INVALID_REQUEST_DURATION
  | SOURCE_CONFLICT
  | INTERVAL_CONFLICT
  | NO_SOURCE_CANDIDATE
  | MULTIPLE_SOURCE_CANDIDATES
  | MULTIPLE_TRACKER_SESSIONS
  | MULTIPLE_TRACKLET_VERSIONS
  | ENTITY_BINDING_CONFLICT
  | ANALYSIS_SPACE_CONFLICT

section \<open>Trajectories (trajectory.ts)\<close>

datatype phase_scope = EXECUTION_ENVELOPE | ACTIVE_PHASES_ONLY
datatype gap_reason = UNKNOWN_INPUT_GAP | SOURCE_COVERAGE_GAP | TRACKLET_BOUNDARY_GAP
datatype exclusion_reason = EXCLUDED_PAUSED_PHASE

text \<open>A half-open period \<open>[start, end)\<close>; the \<open>bounds\<close> field has that one value.\<close>

record time_period =
  periodStart :: stamp
  periodEnd :: stamp

record historical_gap =
  gapReason :: gap_reason
  gapRange :: time_period
  gapDetails :: "js_string option"
  leftMeasurementId :: "js_string option"
  rightMeasurementId :: "js_string option"
  sourceTrackletGapId :: "js_string option"

record excluded_period =
  excludedReason :: exclusion_reason
  excludedRange :: time_period

record source_segment =
  segVersionId :: js_string
  segNo :: int
  segPeriod :: time_period
  segSampleCount :: int

record segment_slice =
  sliceVersionId :: js_string
  sliceSegmentNo :: int
  sliceSampleCount :: int
  slicePeriod :: time_period
  sequenceNo :: nat
  requestedPeriodNo :: nat

record slice_plan =
  planSegments :: "segment_slice list"
  planGaps :: "historical_gap list"

record completeness =
  temporalCoverageRatio :: rat
  prefixComplete :: bool
  suffixComplete :: bool
  compSampleCount :: int
  compSequenceCount :: int
  gapCount :: nat

record completeness_result =
  resStatus :: outcome_status
  resReason :: outcome_reason
  resCompleteness :: completeness
  resRequested :: "time_period list"
  resDefined :: "time_period list"

record request_domain =
  requestedPeriods :: "time_period list"
  excludedPeriods :: "excluded_period list"
  openExecution :: bool
  conflicted :: bool

datatype source_selection =
    EXPLICIT_SOURCE js_string "js_string option"
  | ONLY_CANDIDATE

datatype binding_state = VALID | CONFLICTED

record tracklet_candidate =
  sourceKey :: js_string
  trackerSessionKey :: js_string
  trackletId :: js_string
  trackletVersionId :: js_string
  versionNo :: int
  createdAt :: stamp
  subjectReferenceIdentity :: js_string
  analysisSpaceIdentity :: js_string
  candidatePeriods :: "time_period list"
  bindingState :: "binding_state option"

record selection_request =
  selection :: source_selection
  capturedAt :: stamp
  requestSubject :: js_string
  requestSpace :: "js_string option"
  requestPeriods :: "time_period list"

datatype selection_result =
    SELECTED js_string js_string js_string "tracklet_candidate list"
  | NO_DATA_SELECTION outcome_reason "tracklet_candidate list"
  | INDETERMINATE_SELECTION outcome_reason "tracklet_candidate list"

end
