(* ===== verification/IntervalMachine.thy ===== *)
theory IntervalMachine
  imports TraceModel
begin

text \<open>
  \<open>packages/historical-trace-core/src/interval-state-machine.ts\<close>: the task-interval state
  machine that folds ordered events into executions.  The closure variables of
  \<open>runTaskIntervalStateMachine\<close> are the fields of \<open>machine\<close>; every handler of the inner loop is
  one definition.  The invariant at the end is what the handlers keep: numbering, chained
  phases, conservation of events, and the agreement of the nominal state with the execution
  under construction.
\<close>

section \<open>Executions under construction\<close>

datatype nominal_state = N_NONE | N_RUNNING | N_PAUSED | N_TERMINAL

record mutable_phase =
  mpKind :: phase_kind
  mpStart :: "stamp option"
  mpEnd :: "stamp option"
  mpStartEventId :: "js_string option"
  mpEndEventId :: "js_string option"
  mpConfidences :: "rat list"
  mpReasons :: "reason_code list"

record mutable_execution =
  meExecutionNo :: nat
  meStart :: "stamp option"
  meEnd :: "stamp option"
  meStartEventId :: "js_string option"
  meTerminalEventId :: "js_string option"
  mePhases :: "mutable_phase list"
  meReasons :: "reason_code list"
  meInputEvents :: "interval_event list"
  meConfidences :: "rat list"
  meConflicted :: bool
  meUsedControlCompletion :: bool

definition TERMINAL_EVENTS :: "event_type list" where
  "TERMINAL_EVENTS =
     [EXECUTION_STOPPED_OBSERVED, EXECUTION_FAILED_OBSERVED, EXECUTION_CANCELLED_OBSERVED]"

definition BOUNDARY_EVENTS :: "event_type list" where
  "BOUNDARY_EVENTS =
     [EXECUTION_STARTED_OBSERVED, EXECUTION_PAUSED_OBSERVED, EXECUTION_RESUMED_OBSERVED]
       @ TERMINAL_EVENTS"

definition timestamp :: "stamp \<Rightarrow> trace_error + stamp" where
  "timestamp v = bindR (millis v) (\<lambda>m. Inr (At m))"

fun confidence :: "rat list \<Rightarrow> rat option" where
  "confidence [] = None"
| "confidence (x # xs) = Some (fold min xs x)"

definition pushConfidence :: "interval_event \<Rightarrow> rat list \<Rightarrow> rat list" where
  "pushConfidence event cs = cs @ (case eventConfidence event of None \<Rightarrow> [] | Some c \<Rightarrow> [c])"

text \<open>\<open>Set.add\<close> on a set listed in insertion order.\<close>

definition setAdd :: "'a \<Rightarrow> 'a list \<Rightarrow> 'a list" where
  "setAdd x xs = (if x \<in> set xs then xs else xs @ [x])"

definition startPhase :: "phase_kind \<Rightarrow> interval_event \<Rightarrow> stamp option \<Rightarrow> mutable_phase" where
  "startPhase kind event start =
     \<lparr>mpKind = kind, mpStart = start, mpEnd = None, mpStartEventId = Some (eventId event),
      mpEndEventId = None, mpConfidences = pushConfidence event [], mpReasons = []\<rparr>"

definition closePhase :: "mutable_execution \<Rightarrow> interval_event \<Rightarrow> trace_error + mutable_execution" where
  "closePhase execution event =
     (if mePhases execution = [] \<or> mpEnd (last (mePhases execution)) \<noteq> None then Inr execution
      else bindR (timestamp (eventTime event)) (\<lambda>t.
        let phase = last (mePhases execution) in
        Inr (execution\<lparr>mePhases := butlast (mePhases execution) @
          [phase\<lparr>mpEnd := Some t, mpEndEventId := Some (eventId event),
                 mpConfidences := pushConfidence event (mpConfidences phase)\<rparr>]\<rparr>)))"

definition attach :: "mutable_execution \<Rightarrow> interval_event \<Rightarrow> mutable_execution" where
  "attach execution event =
     execution\<lparr>meInputEvents := meInputEvents execution @ [event],
               meConfidences := pushConfidence event (meConfidences execution)\<rparr>"

definition addReason :: "mutable_execution \<Rightarrow> reason_code \<Rightarrow> mutable_execution" where
  "addReason execution reason = execution\<lparr>meReasons := setAdd reason (meReasons execution)\<rparr>"

definition markConflict :: "mutable_execution \<Rightarrow> reason_code \<Rightarrow> mutable_execution" where
  "markConflict execution reason =
     execution\<lparr>meConflicted := True, meReasons := setAdd reason (meReasons execution)\<rparr>"

definition pushPhase :: "mutable_execution \<Rightarrow> mutable_phase \<Rightarrow> mutable_execution" where
  "pushPhase execution phase = execution\<lparr>mePhases := mePhases execution @ [phase]\<rparr>"

definition sortReasons :: "reason_code list \<Rightarrow> reason_code list" where
  "sortReasons rs = sort_by (\<lambda>l r. compareText (reasonText l) (reasonText r)) rs"

definition finishPhase :: "nat \<Rightarrow> mutable_phase \<Rightarrow> execution_phase" where
  "finishPhase index phase =
     \<lparr>phaseNo = index + 1, phaseKind = mpKind phase, phaseStart = mpStart phase,
      phaseEnd = mpEnd phase, phaseStartEventId = mpStartEventId phase,
      phaseEndEventId = mpEndEventId phase, phaseConfidence = confidence (mpConfidences phase),
      phaseReasonCodes = sortReasons (mpReasons phase)\<rparr>"

text \<open>The two corrections \<open>finish\<close> makes to the execution before it builds the draft.\<close>

definition settle :: "mutable_execution \<Rightarrow> mutable_execution" where
  "settle e0 =
     (let e1 = (if meEnd e0 = None \<and> \<not> meConflicted e0 then addReason e0 OPEN_EXECUTION else e0)
      in if meStart e1 = None
         then addReason (markConflict e1 EXECUTION_BOUNDARY_MISSING) EVENT_SEQUENCE_CONFLICT
         else e1)"

definition finish :: "mutable_execution \<Rightarrow> interval_draft" where
  "finish execution =
     (let e = settle execution in
      \<lparr>executionNo = meExecutionNo e,
       lifecycleState = (if meConflicted e then LIFECYCLE_CONFLICTED
                         else if meEnd e = None then OPEN else CLOSED),
       derivationKind = (if meUsedControlCompletion e then MIXED else OBSERVED),
       stabilityState = (if meConflicted e then STABILITY_CONFLICTED else PROVISIONAL),
       draftStart = meStart e, draftEnd = meEnd e,
       startEventId = meStartEventId e, terminalEventId = meTerminalEventId e,
       draftPhases = map (\<lambda>(i, p). finishPhase i p) (enumerate 0 (mePhases e)),
       draftConfidence = confidence (meConfidences e),
       draftReasonCodes = sortReasons (meReasons e),
       inputEvents = meInputEvents e\<rparr>)"

section \<open>Classifying events\<close>

definition isTerminal :: "interval_event \<Rightarrow> method_profile \<Rightarrow> bool" where
  "isTerminal event profile \<longleftrightarrow> eventType event \<in> set TERMINAL_EVENTS
     \<or> (eventType event = CONTROL_COMPLETED_REPORTED \<and> allowControlCompletionAsTerminal profile)"

definition boundaryKind :: "interval_event \<Rightarrow> method_profile \<Rightarrow> event_type option" where
  "boundaryKind event profile =
     (if eventType event \<in> set BOUNDARY_EVENTS then Some (eventType event)
      else if eventType event = CONTROL_COMPLETED_REPORTED \<and> allowControlCompletionAsTerminal profile
      then Some (eventType event) else None)"

definition hasSameTimeConflict :: "interval_event list \<Rightarrow> method_profile \<Rightarrow> bool" where
  "hasSameTimeConflict events profile \<longleftrightarrow>
     length (remdups (filter (\<lambda>k. k \<noteq> None) (map (\<lambda>e. boundaryKind e profile) events))) > 1"

text \<open>\<open>Date.parse(a) === Date.parse(b)\<close>; \<open>NaN\<close> equals nothing.\<close>

fun sameInstant :: "stamp \<Rightarrow> stamp \<Rightarrow> bool" where
  "sameInstant (At a) (At b) = (a = b)"
| "sameInstant _ _ = False"

definition groupStep :: "interval_event list list \<Rightarrow> interval_event \<Rightarrow> interval_event list list" where
  "groupStep groups event =
     (if groups \<noteq> [] \<and> sameInstant (eventTime (hd (last groups))) (eventTime event)
      then butlast groups @ [last groups @ [event]]
      else groups @ [[event]])"

definition groupByEventTime :: "interval_event list \<Rightarrow> interval_event list list" where
  "groupByEventTime events = foldl groupStep [] events"

definition newExecution ::
  "nat \<Rightarrow> interval_event \<Rightarrow> bool \<Rightarrow> trace_error + mutable_execution" where
  "newExecution no event missingStart =
     bindR (timestamp (eventTime event)) (\<lambda>t.
       Inr (attach
         \<lparr>meExecutionNo = no,
          meStart = (if missingStart then None else Some t), meEnd = None,
          meStartEventId = (if missingStart then None else Some (eventId event)),
          meTerminalEventId = None, mePhases = [],
          meReasons = (if missingStart then [EXECUTION_BOUNDARY_MISSING, EVENT_SEQUENCE_CONFLICT] else []),
          meInputEvents = [], meConfidences = [], meConflicted = missingStart,
          meUsedControlCompletion = False\<rparr> event))"

section \<open>The machine\<close>

record machine =
  mcExecutions :: "mutable_execution list"
  mcOrphans :: "interval_event list"
  mcCurrent :: "mutable_execution option"
  mcState :: nominal_state
  mcExecutionNo :: nat

definition initMachine :: machine where
  "initMachine = \<lparr>mcExecutions = [], mcOrphans = [], mcCurrent = None, mcState = N_NONE,
     mcExecutionNo = 0\<rparr>"

definition finalizeCurrent :: "machine \<Rightarrow> machine" where
  "finalizeCurrent m =
     (case mcCurrent m of None \<Rightarrow> m
      | Some c \<Rightarrow> m\<lparr>mcExecutions := mcExecutions m @ [c], mcCurrent := None\<rparr>)"

definition noteControlCompletion :: "mutable_execution \<Rightarrow> interval_event \<Rightarrow> mutable_execution" where
  "noteControlCompletion e event =
     (if eventType event = CONTROL_COMPLETED_REPORTED
      then addReason (e\<lparr>meUsedControlCompletion := True\<rparr>) CONTROL_COMPLETION_USED_AS_TERMINAL
      else e)"

text \<open>The terminal branch of a running or paused execution.\<close>

definition terminate :: "machine \<Rightarrow> mutable_execution \<Rightarrow> interval_event \<Rightarrow> stamp \<Rightarrow> trace_error + machine" where
  "terminate m cur event t =
     bindR (closePhase cur event) (\<lambda>c.
       Inr ((finalizeCurrent (m\<lparr>mcCurrent := Some (noteControlCompletion
         (c\<lparr>meEnd := Some t, meTerminalEventId := Some (eventId event)\<rparr>) event)\<rparr>))
         \<lparr>mcState := N_TERMINAL\<rparr>))"

definition beginExecution :: "machine \<Rightarrow> interval_event \<Rightarrow> stamp \<Rightarrow> trace_error + machine" where
  "beginExecution m event t =
     bindR (newExecution (mcExecutionNo m + 1) event False) (\<lambda>e.
       Inr (m\<lparr>mcExecutionNo := mcExecutionNo m + 1,
              mcCurrent := Some (pushPhase e (startPhase RUNNING event (Some t))),
              mcState := N_RUNNING\<rparr>))"

definition pushOrphan :: "machine \<Rightarrow> interval_event \<Rightarrow> machine" where
  "pushOrphan m event = m\<lparr>mcOrphans := mcOrphans m @ [event]\<rparr>"

definition stepNone ::
  "method_profile \<Rightarrow> machine \<Rightarrow> interval_event \<Rightarrow> stamp \<Rightarrow> trace_error + machine" where
  "stepNone profile m event t =
     (if eventType event = EXECUTION_STARTED_OBSERVED then beginExecution m event t
      else if eventType event = EXECUTION_RESUMED_OBSERVED
        \<or> eventType event = EXECUTION_PAUSED_OBSERVED \<or> isTerminal event profile
      then bindR (newExecution (mcExecutionNo m + 1) event True) (\<lambda>e.
        if isTerminal event profile
        then bindR (closePhase (pushPhase
               (e\<lparr>meEnd := Some t, meTerminalEventId := Some (eventId event)\<rparr>)
               (startPhase UNKNOWN_PHASE event None)) event) (\<lambda>c.
          Inr ((finalizeCurrent (m\<lparr>mcExecutionNo := mcExecutionNo m + 1,
                 mcCurrent := Some (noteControlCompletion c event)\<rparr>))\<lparr>mcState := N_TERMINAL\<rparr>))
        else let paused = (eventType event = EXECUTION_PAUSED_OBSERVED) in
          Inr (m\<lparr>mcExecutionNo := mcExecutionNo m + 1,
                 mcCurrent := Some (pushPhase e
                   (startPhase (if paused then PAUSED else RUNNING) event None)),
                 mcState := (if paused then N_PAUSED else N_RUNNING)\<rparr>))
      else Inr (pushOrphan m event))"

definition stepTerminal :: "machine \<Rightarrow> interval_event \<Rightarrow> stamp \<Rightarrow> trace_error + machine" where
  "stepTerminal m event t =
     (if eventType event = EXECUTION_STARTED_OBSERVED then beginExecution m event t
      else Inr (pushOrphan m event))"

text \<open>The next phase begins where the open one is closed.\<close>

definition switchPhase ::
  "mutable_execution \<Rightarrow> interval_event \<Rightarrow> stamp \<Rightarrow> phase_kind \<Rightarrow> trace_error + mutable_execution" where
  "switchPhase cur event t kind =
     bindR (closePhase cur event) (\<lambda>c. Inr (pushPhase c (startPhase kind event (Some t))))"

definition stepRunning ::
  "method_profile \<Rightarrow> machine \<Rightarrow> mutable_execution \<Rightarrow> interval_event \<Rightarrow> stamp \<Rightarrow> trace_error + machine" where
  "stepRunning profile m cur event t =
     (if eventType event = EXECUTION_PROGRESS_OBSERVED then Inr (m\<lparr>mcCurrent := Some cur\<rparr>)
      else if eventType event = EXECUTION_PAUSED_OBSERVED
      then bindR (switchPhase cur event t PAUSED) (\<lambda>c.
        Inr (m\<lparr>mcCurrent := Some c, mcState := N_PAUSED\<rparr>))
      else if eventType event = EXECUTION_STARTED_OBSERVED
      then Inr (m\<lparr>mcCurrent := Some (addReason cur DUPLICATE_START)\<rparr>)
      else if eventType event = EXECUTION_RESUMED_OBSERVED
      then Inr (m\<lparr>mcCurrent := Some (addReason cur DUPLICATE_RESUME)\<rparr>)
      else if isTerminal event profile then terminate m cur event t
      else Inr (m\<lparr>mcCurrent := Some cur\<rparr>))"

definition stepPaused ::
  "method_profile \<Rightarrow> machine \<Rightarrow> mutable_execution \<Rightarrow> interval_event \<Rightarrow> stamp \<Rightarrow> trace_error + machine" where
  "stepPaused profile m cur event t =
     (if eventType event = EXECUTION_PROGRESS_OBSERVED then Inr (m\<lparr>mcCurrent := Some cur\<rparr>)
      else if eventType event = EXECUTION_RESUMED_OBSERVED
      then bindR (switchPhase cur event t RUNNING) (\<lambda>c.
        Inr (m\<lparr>mcCurrent := Some c, mcState := N_RUNNING\<rparr>))
      else if eventType event = EXECUTION_STARTED_OBSERVED
      then (if legacyResumeFromStarted profile
            then bindR (switchPhase cur event t RUNNING) (\<lambda>c.
              Inr (m\<lparr>mcCurrent := Some (addReason c LEGACY_START_INTERPRETED_AS_RESUME),
                     mcState := N_RUNNING\<rparr>))
            else Inr (m\<lparr>mcCurrent := Some (markConflict cur EVENT_SEQUENCE_CONFLICT)\<rparr>))
      else if eventType event = EXECUTION_PAUSED_OBSERVED
      then Inr (m\<lparr>mcCurrent := Some (markConflict cur EVENT_SEQUENCE_CONFLICT)\<rparr>)
      else if isTerminal event profile then terminate m cur event t
      else Inr (m\<lparr>mcCurrent := Some cur\<rparr>))"

text \<open>One round of \<open>for (const event of group)\<close>.\<close>

definition stepEvent :: "method_profile \<Rightarrow> machine \<Rightarrow> interval_event \<Rightarrow> trace_error + machine" where
  "stepEvent profile m event =
     bindR (timestamp (eventTime event)) (\<lambda>t.
       case mcState m of
         N_NONE \<Rightarrow> stepNone profile m event t
       | N_TERMINAL \<Rightarrow> stepTerminal m event t
       | N_RUNNING \<Rightarrow>
           (case mcCurrent m of None \<Rightarrow> Inl LostCurrentExecution
            | Some cur \<Rightarrow> stepRunning profile m (attach cur event) event t)
       | N_PAUSED \<Rightarrow>
           (case mcCurrent m of None \<Rightarrow> Inl LostCurrentExecution
            | Some cur \<Rightarrow> stepPaused profile m (attach cur event) event t))"

definition firstStarted :: "interval_event list \<Rightarrow> interval_event option" where
  "firstStarted g = find (\<lambda>e. eventType e = EXECUTION_STARTED_OBSERVED) g"

definition conflictAnchor :: "method_profile \<Rightarrow> interval_event list \<Rightarrow> interval_event option" where
  "conflictAnchor profile g =
     (case firstStarted g of Some s \<Rightarrow> Some s | None \<Rightarrow> find (\<lambda>e. boundaryKind e profile \<noteq> None) g)"

text \<open>A contradictory group with no active execution becomes one conflicted execution.\<close>

definition conflictGroup ::
  "method_profile \<Rightarrow> machine \<Rightarrow> interval_event list \<Rightarrow> trace_error + machine" where
  "conflictGroup profile m g =
     (case conflictAnchor profile g of None \<Rightarrow> Inl MissingAnchor
      | Some anchor \<Rightarrow>
        bindR (newExecution (mcExecutionNo m + 1) anchor (firstStarted g = None)) (\<lambda>e.
        let e = foldl attach e (filter (\<lambda>x. eventId x \<noteq> eventId anchor) g) in
        bindR (case firstStarted g of None \<Rightarrow> Inr None
               | Some s \<Rightarrow> bindR (timestamp (eventTime s)) (\<lambda>t. Inr (Some t))) (\<lambda>st.
        let e = addReason (markConflict (pushPhase e (startPhase UNKNOWN_PHASE anchor st))
                  SAME_TIME_CONFLICT) EVENT_SEQUENCE_CONFLICT in
        case find (\<lambda>x. isTerminal x profile) g of
          Some terminal \<Rightarrow>
            bindR (closePhase e terminal) (\<lambda>c.
            bindR (timestamp (eventTime terminal)) (\<lambda>t.
              Inr ((finalizeCurrent (m\<lparr>mcExecutionNo := mcExecutionNo m + 1,
                mcCurrent := Some (noteControlCompletion
                  (c\<lparr>meEnd := Some t, meTerminalEventId := Some (eventId terminal)\<rparr>) terminal)\<rparr>))
                \<lparr>mcState := N_TERMINAL\<rparr>)))
        | None \<Rightarrow>
            Inr (m\<lparr>mcExecutionNo := mcExecutionNo m + 1, mcCurrent := Some e,
              mcState := (if (\<exists>x \<in> set g. eventType x = EXECUTION_PAUSED_OBSERVED) \<and>
                  \<not> (\<exists>x \<in> set g. eventType x = EXECUTION_RESUMED_OBSERVED
                        \<or> eventType x = EXECUTION_STARTED_OBSERVED)
                then N_PAUSED else N_RUNNING)\<rparr>))))"

definition markIfTouched :: "js_string list \<Rightarrow> mutable_execution \<Rightarrow> mutable_execution" where
  "markIfTouched ids e =
     (if \<exists>x \<in> set (meInputEvents e). eventId x \<in> set ids then markConflict e SAME_TIME_CONFLICT else e)"

definition markGroupConflict :: "interval_event list \<Rightarrow> machine \<Rightarrow> machine" where
  "markGroupConflict g m =
     m\<lparr>mcCurrent := map_option (markIfTouched (map eventId g)) (mcCurrent m),
       mcExecutions := map (markIfTouched (map eventId g)) (mcExecutions m)\<rparr>"

definition stepGroup ::
  "method_profile \<Rightarrow> machine \<Rightarrow> interval_event list \<Rightarrow> trace_error + machine" where
  "stepGroup profile m g =
     (if hasSameTimeConflict g profile \<and>
         (mcState m = N_NONE \<or> (mcState m = N_TERMINAL \<and> firstStarted g \<noteq> None))
      then conflictGroup profile m g
      else bindR (foldR (stepEvent profile) m g) (\<lambda>m'.
        Inr (if hasSameTimeConflict g profile then markGroupConflict g m' else m')))"

fun nominalToFsm :: "nominal_state \<Rightarrow> fsm_state" where
  "nominalToFsm N_NONE = FSM_NONE"
| "nominalToFsm N_RUNNING = FSM_RUNNING"
| "nominalToFsm N_PAUSED = FSM_PAUSED"
| "nominalToFsm N_TERMINAL = FSM_TERMINAL"

definition runTaskIntervalStateMachine ::
  "interval_event list \<Rightarrow> method_profile \<Rightarrow> trace_error + machine_result" where
  "runTaskIntervalStateMachine ordered profile =
     bindR (foldR (stepGroup profile) initMachine (groupByEventTime ordered)) (\<lambda>m.
       let materialized = map finish (mcExecutions (finalizeCurrent m)) in
       Inr \<lparr>finalState =
              (if materialized \<noteq> [] \<and> lifecycleState (last materialized) = LIFECYCLE_CONFLICTED
               then FSM_CONFLICTED else nominalToFsm (mcState m)),
            executions = materialized, orphanEvents = mcOrphans m\<rparr>)"

section \<open>The invariant of an execution\<close>

text \<open>
  The phases of an execution form a chain from its start to its end: each begins where the one
  before it ended, and only the last may be open.
\<close>

fun chained :: "stamp option \<Rightarrow> mutable_phase list \<Rightarrow> stamp option \<Rightarrow> bool" where
  "chained s [] e = False"
| "chained s [p] e = (mpStart p = s \<and> mpEnd p = e)"
| "chained s (p # q # ps) e = (mpStart p = s \<and> mpEnd p \<noteq> None \<and> chained (mpEnd p) (q # ps) e)"

definition otherKind :: "phase_kind \<Rightarrow> phase_kind" where
  "otherKind k = (if k = RUNNING then PAUSED else RUNNING)"

fun alternates :: "phase_kind \<Rightarrow> phase_kind list \<Rightarrow> bool" where
  "alternates k [] = True"
| "alternates k (x # xs) = (x = k \<and> alternates (otherKind k) xs)"

definition phaseUpTo :: "int \<Rightarrow> mutable_phase \<Rightarrow> bool" where
  "phaseUpTo T p \<longleftrightarrow>
     (case mpStart p of None \<Rightarrow> True | Some a \<Rightarrow> a \<noteq> BadStamp \<and> stampMs a \<le> T) \<and>
     (case mpEnd p of None \<Rightarrow> True | Some b \<Rightarrow> b \<noteq> BadStamp \<and> stampMs b \<le> T \<and>
        (case mpStart p of None \<Rightarrow> True | Some a \<Rightarrow> stampMs a \<le> stampMs b))"

text \<open>What every execution satisfies, all of its stamps being at most \<open>T\<close>.\<close>

definition execInv :: "method_profile \<Rightarrow> int \<Rightarrow> mutable_execution \<Rightarrow> bool" where
  "execInv profile T e \<longleftrightarrow>
     chained (meStart e) (mePhases e) (meEnd e) \<and>
     (\<forall>p \<in> set (mePhases e). phaseUpTo T p) \<and>
     (meConflicted e \<longleftrightarrow> EVENT_SEQUENCE_CONFLICT \<in> set (meReasons e) \<or> SAME_TIME_CONFLICT \<in> set (meReasons e)) \<and>
     (meUsedControlCompletion e \<longleftrightarrow> CONTROL_COMPLETION_USED_AS_TERMINAL \<in> set (meReasons e)) \<and>
     (meUsedControlCompletion e \<longrightarrow> allowControlCompletionAsTerminal profile) \<and>
     OPEN_EXECUTION \<notin> set (meReasons e) \<and>
     (\<not> meConflicted e \<longrightarrow> meStart e \<noteq> None \<and> alternates RUNNING (map mpKind (mePhases e)))"

fun stateKind :: "nominal_state \<Rightarrow> phase_kind" where
  "stateKind N_PAUSED = PAUSED"
| "stateKind _ = RUNNING"

definition currentInv :: "method_profile \<Rightarrow> int \<Rightarrow> nominal_state \<Rightarrow> mutable_execution \<Rightarrow> bool" where
  "currentInv profile T st e \<longleftrightarrow> execInv profile T e \<and> meEnd e = None \<and>
     (\<not> meConflicted e \<longrightarrow> mpKind (last (mePhases e)) = stateKind st)"

definition allExecutions :: "machine \<Rightarrow> mutable_execution list" where
  "allExecutions m = mcExecutions m @ (case mcCurrent m of None \<Rightarrow> [] | Some c \<Rightarrow> [c])"

definition recordedEvents :: "machine \<Rightarrow> interval_event multiset" where
  "recordedEvents m = mset (concat (map meInputEvents (allExecutions m))) + mset (mcOrphans m)"

definition machineInv :: "method_profile \<Rightarrow> int \<Rightarrow> machine \<Rightarrow> bool" where
  "machineInv profile T m \<longleftrightarrow>
     (case mcCurrent m of
        None \<Rightarrow> mcState m = N_NONE \<or> mcState m = N_TERMINAL
      | Some c \<Rightarrow> (mcState m = N_RUNNING \<or> mcState m = N_PAUSED) \<and> currentInv profile T (mcState m) c) \<and>
     (\<forall>e \<in> set (mcExecutions m). execInv profile T e \<and> meEnd e \<noteq> None) \<and>
     map meExecutionNo (allExecutions m) = [1 ..< length (allExecutions m) + 1] \<and>
     mcExecutionNo m = length (allExecutions m)"

lemma chained_nonempty: "chained s ps e \<Longrightarrow> ps \<noteq> []"
  by auto

lemma chained_snoc:
  "chained s (ps @ [p]) e \<longleftrightarrow> mpEnd p = e \<and>
     (if ps = [] then mpStart p = s else mpStart p \<noteq> None \<and> chained s ps (mpStart p))"
proof (induction s ps e rule: chained.induct)
  case (3 s p q ps e)
  then show ?case by (cases ps) auto
qed auto

lemma alternates_snoc:
  "k = RUNNING \<or> k = PAUSED \<Longrightarrow> alternates k (xs @ [x]) \<longleftrightarrow>
     alternates k xs \<and> x = (if xs = [] then k else otherKind (last xs))"
  by (induction xs arbitrary: k) (auto simp: otherKind_def)

lemma phaseUpTo_mono: "phaseUpTo T p \<Longrightarrow> T \<le> t \<Longrightarrow> phaseUpTo t p"
  by (auto simp: phaseUpTo_def split: option.splits)

lemma execInv_mono: "execInv profile T e \<Longrightarrow> T \<le> t \<Longrightarrow> execInv profile t e"
  by (auto simp: execInv_def intro: phaseUpTo_mono)

lemma currentInv_mono: "currentInv profile T st e \<Longrightarrow> T \<le> t \<Longrightarrow> currentInv profile t st e"
  by (auto simp: currentInv_def intro: execInv_mono)

lemma set_setAdd [simp]: "set (setAdd x xs) = insert x (set xs)"
  by (auto simp: setAdd_def)

lemma timestamp_At [simp]: "timestamp (At t) = Inr (At t)"
  by (simp add: timestamp_def)

lemma attach_fields [simp]:
  "meInputEvents (attach e ev) = meInputEvents e @ [ev]" "meExecutionNo (attach e ev) = meExecutionNo e"
  "meStart (attach e ev) = meStart e" "meEnd (attach e ev) = meEnd e"
  "mePhases (attach e ev) = mePhases e" "meReasons (attach e ev) = meReasons e"
  "meConflicted (attach e ev) = meConflicted e"
  "meUsedControlCompletion (attach e ev) = meUsedControlCompletion e"
  by (simp_all add: attach_def)

lemma attach_execInv [simp]: "execInv profile T (attach e ev) = execInv profile T e"
  by (simp add: execInv_def)

lemma attach_currentInv [simp]: "currentInv profile T st (attach e ev) = currentInv profile T st e"
  by (simp add: currentInv_def)

lemma addReason_currentInv:
  "currentInv profile T st e \<Longrightarrow> r \<notin> {EVENT_SEQUENCE_CONFLICT, SAME_TIME_CONFLICT,
     CONTROL_COMPLETION_USED_AS_TERMINAL, OPEN_EXECUTION} \<Longrightarrow> currentInv profile T st (addReason e r)"
  by (auto simp: currentInv_def execInv_def addReason_def)

lemma markConflict_execInv:
  "execInv profile T e \<Longrightarrow> r \<in> {EVENT_SEQUENCE_CONFLICT, SAME_TIME_CONFLICT} \<Longrightarrow>
     execInv profile T (markConflict e r)"
  by (auto simp: execInv_def markConflict_def)

lemma markConflict_currentInv:
  "currentInv profile T st e \<Longrightarrow> r \<in> {EVENT_SEQUENCE_CONFLICT, SAME_TIME_CONFLICT} \<Longrightarrow>
     currentInv profile T st (markConflict e r)"
  using markConflict_execInv by (auto simp: currentInv_def) (auto simp: markConflict_def)

lemma reason_frame [simp]:
  "meInputEvents (addReason e r) = meInputEvents e" "meExecutionNo (addReason e r) = meExecutionNo e"
  "meInputEvents (markConflict e r) = meInputEvents e" "meExecutionNo (markConflict e r) = meExecutionNo e"
  "meEnd (addReason e r) = meEnd e" "meEnd (markConflict e r) = meEnd e"
  by (simp_all add: addReason_def markConflict_def)

text \<open>Closing the open last phase of an execution.\<close>

definition closedWith :: "mutable_execution \<Rightarrow> interval_event \<Rightarrow> stamp \<Rightarrow> mutable_execution" where
  "closedWith e ev t = e\<lparr>mePhases := butlast (mePhases e) @
     [(last (mePhases e))\<lparr>mpEnd := Some t, mpEndEventId := Some (eventId ev),
       mpConfidences := pushConfidence ev (mpConfidences (last (mePhases e)))\<rparr>]\<rparr>"

lemma closedWith_frame [simp]:
  "meInputEvents (closedWith e ev t) = meInputEvents e" "meExecutionNo (closedWith e ev t) = meExecutionNo e"
  "meStart (closedWith e ev t) = meStart e" "meEnd (closedWith e ev t) = meEnd e"
  "meReasons (closedWith e ev t) = meReasons e" "meConflicted (closedWith e ev t) = meConflicted e"
  "meUsedControlCompletion (closedWith e ev t) = meUsedControlCompletion e"
  by (simp_all add: closedWith_def)

lemma closePhase_open:
  assumes "chained s (mePhases e) None" and "eventTime ev = At t"
  shows "closePhase e ev = Inr (closedWith e ev (At t))"
proof -
  obtain ps p where "mePhases e = ps @ [p]" using chained_nonempty [OF assms(1)] by (metis rev_exhaust)
  then show ?thesis using assms by (simp add: closePhase_def closedWith_def chained_snoc Let_def)
qed

lemma closedWith_phases:
  assumes "chained (meStart e) (mePhases e) None" and "\<forall>p \<in> set (mePhases e). phaseUpTo T p" and "T \<le> t"
  shows "chained (meStart e) (mePhases (closedWith e ev (At t))) (Some (At t))"
    and "\<forall>p \<in> set (mePhases (closedWith e ev (At t))). phaseUpTo t p"
    and "map mpKind (mePhases (closedWith e ev (At t))) = map mpKind (mePhases e)"
    and "mePhases (closedWith e ev (At t)) \<noteq> []"
proof -
  obtain ps p where ps: "mePhases e = ps @ [p]" using chained_nonempty [OF assms(1)] by (metis rev_exhaust)
  show "chained (meStart e) (mePhases (closedWith e ev (At t))) (Some (At t))"
    using assms(1) ps by (simp add: closedWith_def chained_snoc)
  have "phaseUpTo t (p\<lparr>mpEnd := Some (At t), mpEndEventId := x, mpConfidences := y\<rparr>)" for x y
    using assms(2,3) ps by (auto simp: phaseUpTo_def split: option.splits)
  then show "\<forall>p \<in> set (mePhases (closedWith e ev (At t))). phaseUpTo t p"
    using assms(2,3) ps by (auto simp: closedWith_def intro: phaseUpTo_mono)
  show "map mpKind (mePhases (closedWith e ev (At t))) = map mpKind (mePhases e)"
    using ps by (simp add: closedWith_def)
  show "mePhases (closedWith e ev (At t)) \<noteq> []" by (simp add: closedWith_def)
qed

lemma switchPhase_currentInv:
  assumes "currentInv profile T st e" and "eventTime ev = At t" and "T \<le> t"
    and "k = otherKind (stateKind st)" and "k = stateKind st'"
  shows "\<exists>c. switchPhase e ev (At t) k = Inr c \<and> currentInv profile t st' c \<and>
     meInputEvents c = meInputEvents e \<and> meExecutionNo c = meExecutionNo e"
proof -
  have e: "execInv profile T e" "meEnd e = None"
    "\<not> meConflicted e \<longrightarrow> mpKind (last (mePhases e)) = stateKind st"
    using assms(1) by (auto simp: currentInv_def)
  then have ch: "chained (meStart e) (mePhases e) None" and up: "\<forall>p \<in> set (mePhases e). phaseUpTo T p"
    by (auto simp: execInv_def)
  let ?c = "closedWith e ev (At t)" and ?p = "startPhase k ev (Some (At t))"
  note closed = closedWith_phases [OF ch up assms(3), of ev]
  have kind: "\<not> meConflicted e \<longrightarrow> last (map mpKind (mePhases ?c)) = stateKind st"
    using e(3) closed(3) ch by (cases "mePhases e" rule: rev_cases) auto
  have phases: "mePhases (pushPhase ?c ?p) = mePhases ?c @ [?p]" by (simp add: pushPhase_def)
  have p: "mpKind ?p = k" "mpStart ?p = Some (At t)" "mpEnd ?p = None" "phaseUpTo t ?p"
    by (simp_all add: startPhase_def phaseUpTo_def)
  have 1: "chained (meStart e) (mePhases ?c @ [?p]) None"
    using closed(1,4) p by (simp add: chained_snoc)
  have 2: "\<forall>q \<in> set (mePhases ?c @ [?p]). phaseUpTo t q" using closed(2) p by simp
  have 3: "alternates RUNNING (map mpKind (mePhases ?c @ [?p]))" if "\<not> meConflicted e"
    using e(1) that kind closed(3,4) p assms(4) chained_nonempty [OF ch]
    by (simp add: alternates_snoc execInv_def)
  have "currentInv profile t st' (pushPhase ?c ?p)"
    unfolding currentInv_def execInv_def phases
    using 1 2 3 e(1,2) p(1) assms(5) by (simp add: pushPhase_def execInv_def)
  then show ?thesis using closePhase_open [OF ch assms(2)]
    by (simp add: switchPhase_def pushPhase_def)
qed


text \<open>The terminal branch closes the last phase and the execution at the event's time.\<close>

definition terminated :: "mutable_execution \<Rightarrow> interval_event \<Rightarrow> stamp \<Rightarrow> mutable_execution" where
  "terminated e ev t = noteControlCompletion
     ((closedWith e ev t)\<lparr>meEnd := Some t, meTerminalEventId := Some (eventId ev)\<rparr>) ev"

lemma terminated_frame [simp]:
  "meInputEvents (terminated e ev t) = meInputEvents e" "meExecutionNo (terminated e ev t) = meExecutionNo e"
  "meEnd (terminated e ev t) = Some t"
  by (simp_all add: terminated_def noteControlCompletion_def)

lemma terminated_execInv:
  assumes "execInv profile T e" and "meEnd e = None" and "isTerminal ev profile" and "T \<le> t"
  shows "execInv profile t (terminated e ev (At t))"
proof -
  have ch: "chained (meStart e) (mePhases e) None" and up: "\<forall>p \<in> set (mePhases e). phaseUpTo T p"
    using assms(1,2) by (auto simp: execInv_def)
  note closed = closedWith_phases [OF ch up assms(4), of ev]
  have allow: "eventType ev = CONTROL_COMPLETED_REPORTED \<Longrightarrow> allowControlCompletionAsTerminal profile"
    using assms(3) by (auto simp: isTerminal_def TERMINAL_EVENTS_def)
  have phases: "mePhases (terminated e ev (At t)) = mePhases (closedWith e ev (At t))"
    by (simp add: terminated_def noteControlCompletion_def addReason_def)
  show ?thesis unfolding execInv_def phases
    using closed assms(1) allow
    by (simp add: terminated_def noteControlCompletion_def addReason_def execInv_def)
qed

lemma terminate_machine:
  assumes "currentInv profile T st e" and "isTerminal ev profile" and "eventTime ev = At t"
  shows "terminate m e ev (At t) = Inr (m\<lparr>mcExecutions := mcExecutions m @ [terminated e ev (At t)],
     mcCurrent := None, mcState := N_TERMINAL\<rparr>)"
proof -
  have "chained (meStart e) (mePhases e) None" using assms(1) by (auto simp: currentInv_def execInv_def)
  from closePhase_open [OF this assms(3)] show ?thesis
    by (simp add: terminate_def finalizeCurrent_def terminated_def)
qed

section \<open>The invariant of the machine\<close>

lemma machineInv_current_replaced:
  assumes "machineInv profile T m" and "mcCurrent m = Some c" and "T \<le> t"
    and "st = N_RUNNING \<or> st = N_PAUSED" and "currentInv profile t st c'"
    and "meExecutionNo c' = meExecutionNo c" and "meInputEvents c' = meInputEvents c @ [ev]"
  shows "machineInv profile t (m\<lparr>mcCurrent := Some c', mcState := st\<rparr>) \<and>
    recordedEvents (m\<lparr>mcCurrent := Some c', mcState := st\<rparr>) = add_mset ev (recordedEvents m)"
  using assms
  by (auto simp: machineInv_def allExecutions_def recordedEvents_def intro: execInv_mono)

lemma machineInv_terminated:
  assumes "machineInv profile T m" and "mcCurrent m = Some c" and "T \<le> t"
    and "execInv profile t d" and "meEnd d \<noteq> None"
    and "meExecutionNo d = meExecutionNo c" and "meInputEvents d = meInputEvents c @ [ev]"
  shows "machineInv profile t (m\<lparr>mcExecutions := mcExecutions m @ [d], mcCurrent := None, mcState := N_TERMINAL\<rparr>) \<and>
    recordedEvents (m\<lparr>mcExecutions := mcExecutions m @ [d], mcCurrent := None, mcState := N_TERMINAL\<rparr>) =
      add_mset ev (recordedEvents m)"
  using assms
  by (auto simp: machineInv_def allExecutions_def recordedEvents_def intro: execInv_mono)

lemma machineInv_orphan:
  assumes "machineInv profile T m" and "mcCurrent m = None" and "T \<le> t"
  shows "machineInv profile t (pushOrphan m ev) \<and>
    recordedEvents (pushOrphan m ev) = add_mset ev (recordedEvents m)"
  using assms
  by (auto simp: machineInv_def allExecutions_def recordedEvents_def pushOrphan_def intro: execInv_mono)

text \<open>A new execution, still open or already closed, when none is active.\<close>

lemma machineInv_opened:
  assumes "machineInv profile T m" and "mcCurrent m = None" and "T \<le> t"
    and "st = N_RUNNING \<or> st = N_PAUSED" and "currentInv profile t st c"
    and "meExecutionNo c = mcExecutionNo m + 1" and "mset (meInputEvents c) = M"
  shows "machineInv profile t (m\<lparr>mcExecutionNo := mcExecutionNo m + 1, mcCurrent := Some c, mcState := st\<rparr>) \<and>
    recordedEvents (m\<lparr>mcExecutionNo := mcExecutionNo m + 1, mcCurrent := Some c, mcState := st\<rparr>) =
      M + recordedEvents m"
  using assms
  by (auto simp: machineInv_def allExecutions_def recordedEvents_def intro: execInv_mono)

lemma machineInv_opened_closed:
  assumes "machineInv profile T m" and "mcCurrent m = None" and "T \<le> t"
    and "execInv profile t c" and "meEnd c \<noteq> None"
    and "meExecutionNo c = mcExecutionNo m + 1" and "mset (meInputEvents c) = M"
  shows "machineInv profile t (m\<lparr>mcExecutionNo := mcExecutionNo m + 1,
        mcExecutions := mcExecutions m @ [c], mcCurrent := None, mcState := N_TERMINAL\<rparr>) \<and>
    recordedEvents (m\<lparr>mcExecutionNo := mcExecutionNo m + 1,
        mcExecutions := mcExecutions m @ [c], mcCurrent := None, mcState := N_TERMINAL\<rparr>) =
      M + recordedEvents m"
  using assms
  by (auto simp: machineInv_def allExecutions_def recordedEvents_def intro: execInv_mono)

section \<open>Every handler keeps the invariant\<close>

text \<open>The invariant holds at \<open>t\<close> after a step that recorded exactly the event \<open>ev\<close>.\<close>

definition stepOk :: "method_profile \<Rightarrow> int \<Rightarrow> interval_event multiset \<Rightarrow> machine \<Rightarrow> trace_error + machine \<Rightarrow> bool" where
  "stepOk profile t M m r \<longleftrightarrow> (\<exists>m'. r = Inr m' \<and> machineInv profile t m' \<and>
     recordedEvents m' = M + recordedEvents m)"

lemma newExecution_At:
  "eventTime ev = At t \<Longrightarrow> newExecution no ev miss = Inr (attach
     \<lparr>meExecutionNo = no, meStart = (if miss then None else Some (At t)), meEnd = None,
      meStartEventId = (if miss then None else Some (eventId ev)), meTerminalEventId = None,
      mePhases = [],
      meReasons = (if miss then [EXECUTION_BOUNDARY_MISSING, EVENT_SEQUENCE_CONFLICT] else []),
      meInputEvents = [], meConfidences = [], meConflicted = miss,
      meUsedControlCompletion = False\<rparr> ev)"
  by (simp add: newExecution_def)

lemma beginExecution_ok:
  assumes "machineInv profile T m" and "mcCurrent m = None" and "T \<le> t" and "eventTime ev = At t"
  shows "stepOk profile t {#ev#} m (beginExecution m ev (At t))"
proof -
  obtain e where e: "newExecution (mcExecutionNo m + 1) ev False = Inr e"
    and fields: "meStart e = Some (At t)" "meEnd e = None" "mePhases e = []" "meReasons e = []"
      "\<not> meConflicted e" "\<not> meUsedControlCompletion e" "meInputEvents e = [ev]"
      "meExecutionNo e = mcExecutionNo m + 1"
    using newExecution_At [OF assms(4), of "mcExecutionNo m + 1" False] by simp
  let ?c = "pushPhase e (startPhase RUNNING ev (Some (At t)))"
  have "currentInv profile t N_RUNNING ?c"
    using fields by (simp add: currentInv_def execInv_def pushPhase_def startPhase_def phaseUpTo_def)
  from machineInv_opened [OF assms(1-3) _ this, of "{#ev#}"] fields show ?thesis
    by (simp add: stepOk_def beginExecution_def e [simplified] pushPhase_def)
qed

lemma stepNone_ok:
  assumes "machineInv profile T m" and "mcCurrent m = None" and "T \<le> t" and "eventTime ev = At t"
  shows "stepOk profile t {#ev#} m (stepNone profile m ev (At t))"
proof -
  obtain e where e: "newExecution (mcExecutionNo m + 1) ev True = Inr e"
    and fields: "meStart e = None" "meEnd e = None" "mePhases e = []"
      "meReasons e = [EXECUTION_BOUNDARY_MISSING, EVENT_SEQUENCE_CONFLICT]"
      "meConflicted e" "\<not> meUsedControlCompletion e" "meInputEvents e = [ev]"
      "meExecutionNo e = mcExecutionNo m + 1"
    using newExecution_At [OF assms(4), of "mcExecutionNo m + 1" True] by simp
  consider (start) "eventType ev = EXECUTION_STARTED_OBSERVED"
    | (terminal) "eventType ev \<noteq> EXECUTION_STARTED_OBSERVED" "isTerminal ev profile"
    | (other) "eventType ev = EXECUTION_RESUMED_OBSERVED \<or> eventType ev = EXECUTION_PAUSED_OBSERVED"
        "\<not> isTerminal ev profile"
    | (orphan) "eventType ev \<notin> {EXECUTION_STARTED_OBSERVED, EXECUTION_RESUMED_OBSERVED, EXECUTION_PAUSED_OBSERVED}"
        "\<not> isTerminal ev profile"
    by (auto simp: isTerminal_def TERMINAL_EVENTS_def)
  then show ?thesis
  proof cases
    case start
    then show ?thesis using beginExecution_ok [OF assms] by (simp add: stepNone_def)
  next
    case terminal
    let ?u = "pushPhase e (startPhase UNKNOWN_PHASE ev None)"
    have u: "execInv profile t ?u" "meEnd ?u = None"
      using fields by (simp_all add: execInv_def pushPhase_def startPhase_def phaseUpTo_def)
    let ?d = "terminated ?u ev (At t)"
    have close: "closePhase (pushPhase (e\<lparr>meEnd := Some (At t), meTerminalEventId := Some (eventId ev)\<rparr>)
        (startPhase UNKNOWN_PHASE ev None)) ev =
        Inr ((closedWith ?u ev (At t))\<lparr>meEnd := Some (At t), meTerminalEventId := Some (eventId ev)\<rparr>)"
      using fields assms(4)
      by (simp add: closePhase_def closedWith_def pushPhase_def startPhase_def Let_def)
    have "stepNone profile m ev (At t) = Inr (m\<lparr>mcExecutionNo := mcExecutionNo m + 1,
        mcExecutions := mcExecutions m @ [?d], mcCurrent := None, mcState := N_TERMINAL\<rparr>)"
      using terminal by (simp add: stepNone_def e [simplified] close finalizeCurrent_def terminated_def)
    moreover have "execInv profile t ?d" using terminated_execInv [OF u terminal(2)] by simp
    ultimately show ?thesis
      using machineInv_opened_closed [OF assms(1-3), of ?d "{#ev#}"] fields
      by (simp add: stepOk_def pushPhase_def)
  next
    case other
    let ?paused = "eventType ev = EXECUTION_PAUSED_OBSERVED"
    let ?st = "if ?paused then N_PAUSED else N_RUNNING"
    let ?c = "pushPhase e (startPhase (if ?paused then PAUSED else RUNNING) ev None)"
    have "currentInv profile t ?st ?c"
      using fields by (simp add: currentInv_def execInv_def pushPhase_def startPhase_def phaseUpTo_def)
    from machineInv_opened [OF assms(1-3) _ this, of "{#ev#}"] fields other show ?thesis
      by (auto simp: stepOk_def stepNone_def e [simplified] pushPhase_def)
  next
    case orphan
    then have "stepNone profile m ev (At t) = Inr (pushOrphan m ev)" by (simp add: stepNone_def)
    then show ?thesis using machineInv_orphan [OF assms(1-3), of ev] by (simp add: stepOk_def)
  qed
qed

lemma stepTerminal_ok:
  assumes "machineInv profile T m" and "mcCurrent m = None" and "T \<le> t" and "eventTime ev = At t"
  shows "stepOk profile t {#ev#} m (stepTerminal m ev (At t))"
  using beginExecution_ok [OF assms] machineInv_orphan [OF assms(1-3), of ev]
  by (auto simp: stepTerminal_def stepOk_def)

text \<open>Shared by the running and the paused handler: keep, switch or terminate.\<close>

lemma current_kept:
  assumes "machineInv profile T m" and "mcCurrent m = Some c" and "T \<le> t"
    and "currentInv profile t (mcState m) c'"
    and "meExecutionNo c' = meExecutionNo c" and "meInputEvents c' = meInputEvents c @ [ev]"
  shows "stepOk profile t {#ev#} m (Inr (m\<lparr>mcCurrent := Some c'\<rparr>))"
proof -
  have "mcState m = N_RUNNING \<or> mcState m = N_PAUSED" using assms(1,2) by (simp add: machineInv_def)
  from machineInv_current_replaced [OF assms(1-3) this assms(4-6)] show ?thesis
    by (simp add: stepOk_def)
qed

lemma current_switched:
  assumes "machineInv profile T m" and "mcCurrent m = Some c" and "T \<le> t" and "eventTime ev = At t"
    and "k = otherKind (stateKind (mcState m))" and "k = stateKind st" and "st = N_RUNNING \<or> st = N_PAUSED"
    and "f = id \<or> f = (\<lambda>c. addReason c LEGACY_START_INTERPRETED_AS_RESUME)"
  shows "stepOk profile t {#ev#} m (bindR (switchPhase (attach c ev) ev (At t) k)
      (\<lambda>c. Inr (m\<lparr>mcCurrent := Some (f c), mcState := st\<rparr>)))"
proof -
  have "currentInv profile T (mcState m) (attach c ev)" using assms(1,2) by (simp add: machineInv_def)
  from switchPhase_currentInv [OF this assms(4,3,5,6)] obtain c' where c':
    "switchPhase (attach c ev) ev (At t) k = Inr c'" "currentInv profile t st c'"
    "meInputEvents c' = meInputEvents c @ [ev]" "meExecutionNo c' = meExecutionNo c" by auto
  then have "currentInv profile t st (f c')" "meInputEvents (f c') = meInputEvents c @ [ev]"
    "meExecutionNo (f c') = meExecutionNo c"
    using assms(8) addReason_currentInv [OF c'(2)] by auto
  from machineInv_current_replaced [OF assms(1-3,7) this(1,3,2)] show ?thesis
    using c'(1) by (simp add: stepOk_def)
qed

lemma current_terminated:
  assumes "machineInv profile T m" and "mcCurrent m = Some c" and "T \<le> t" and "eventTime ev = At t"
    and "isTerminal ev profile"
  shows "stepOk profile t {#ev#} m (terminate m (attach c ev) ev (At t))"
proof -
  have cur: "currentInv profile T (mcState m) (attach c ev)" using assms(1,2) by (simp add: machineInv_def)
  have "execInv profile t (terminated (attach c ev) ev (At t))"
    using cur terminated_execInv [OF _ _ assms(5,3)] unfolding currentInv_def by blast
  from machineInv_terminated [OF assms(1-3) this] show ?thesis
    unfolding terminate_machine [OF cur assms(5,4)] by (simp add: stepOk_def)
qed

lemma attached_current:
  assumes "machineInv profile T m" and "mcCurrent m = Some c" and "T \<le> t"
  shows "currentInv profile t (mcState m) (attach c ev)"
  using assms by (auto simp: machineInv_def intro: currentInv_mono)

lemma stepRunning_ok:
  assumes "machineInv profile T m" and "mcCurrent m = Some c" and "T \<le> t" and "eventTime ev = At t"
    and "mcState m = N_RUNNING"
  shows "stepOk profile t {#ev#} m (stepRunning profile m (attach c ev) ev (At t))"
proof -
  note att = attached_current [OF assms(1-3), of ev]
  note keep = current_kept [OF assms(1-3)]
  have "stepOk profile t {#ev#} m (Inr (m\<lparr>mcCurrent := Some (attach c ev)\<rparr>))"
    using att by (intro keep) auto
  moreover have "stepOk profile t {#ev#} m (Inr (m\<lparr>mcCurrent := Some (addReason (attach c ev) r)\<rparr>))"
    if "r = DUPLICATE_START \<or> r = DUPLICATE_RESUME" for r
    using addReason_currentInv [OF att] that by (intro keep) auto
  moreover have "stepOk profile t {#ev#} m (bindR (switchPhase (attach c ev) ev (At t) PAUSED)
      (\<lambda>c. Inr (m\<lparr>mcCurrent := Some c, mcState := N_PAUSED\<rparr>)))"
    using current_switched [OF assms(1-4), of PAUSED N_PAUSED id] assms(5)
    by (simp add: otherKind_def)
  moreover note current_terminated [OF assms(1-4)]
  ultimately show ?thesis by (simp add: stepRunning_def)
qed

lemma stepPaused_ok:
  assumes "machineInv profile T m" and "mcCurrent m = Some c" and "T \<le> t" and "eventTime ev = At t"
    and "mcState m = N_PAUSED"
  shows "stepOk profile t {#ev#} m (stepPaused profile m (attach c ev) ev (At t))"
proof -
  note att = attached_current [OF assms(1-3), of ev]
  note keep = current_kept [OF assms(1-3)]
  have "stepOk profile t {#ev#} m (Inr (m\<lparr>mcCurrent := Some (attach c ev)\<rparr>))"
    using att by (intro keep) auto
  moreover have "stepOk profile t {#ev#} m (Inr (m\<lparr>mcCurrent := Some (markConflict (attach c ev) EVENT_SEQUENCE_CONFLICT)\<rparr>))"
    using markConflict_currentInv [OF att] by (intro keep) auto
  moreover have "stepOk profile t {#ev#} m (bindR (switchPhase (attach c ev) ev (At t) RUNNING)
      (\<lambda>c. Inr (m\<lparr>mcCurrent := Some (f c), mcState := N_RUNNING\<rparr>)))"
    if "f = id \<or> f = (\<lambda>c. addReason c LEGACY_START_INTERPRETED_AS_RESUME)" for f
    using current_switched [OF assms(1-4) _ _ _ that, of RUNNING N_RUNNING] assms(5)
    by (simp add: otherKind_def)
  note this [of id] this [of "\<lambda>c. addReason c LEGACY_START_INTERPRETED_AS_RESUME"]
  moreover note current_terminated [OF assms(1-4)]
  ultimately show ?thesis by (simp add: stepPaused_def)
qed

lemma stepEvent_ok:
  assumes "machineInv profile T m" and "T \<le> t" and "eventTime ev = At t"
  shows "stepOk profile t {#ev#} m (stepEvent profile m ev)"
proof (cases "mcCurrent m")
  case None
  then have "mcState m = N_NONE \<or> mcState m = N_TERMINAL" using assms(1) by (simp add: machineInv_def)
  then show ?thesis
    using stepNone_ok [OF assms(1) None assms(2,3)] stepTerminal_ok [OF assms(1) None assms(2,3)] assms(3)
    by (auto simp: stepEvent_def)
next
  case (Some c)
  then have "mcState m = N_RUNNING \<or> mcState m = N_PAUSED" using assms(1) by (simp add: machineInv_def)
  then show ?thesis
    using stepRunning_ok [OF assms(1) Some assms(2,3)] stepPaused_ok [OF assms(1) Some assms(2,3)] assms(3) Some
    by (auto simp: stepEvent_def)
qed

text \<open>A contradictory group opens one conflicted execution that holds all of its events.\<close>

lemma foldl_attach_fields [simp]:
  "meInputEvents (foldl attach e es) = meInputEvents e @ es"
  "meExecutionNo (foldl attach e es) = meExecutionNo e"
  "meStart (foldl attach e es) = meStart e" "meEnd (foldl attach e es) = meEnd e"
  "mePhases (foldl attach e es) = mePhases e" "meReasons (foldl attach e es) = meReasons e"
  "meConflicted (foldl attach e es) = meConflicted e"
  "meUsedControlCompletion (foldl attach e es) = meUsedControlCompletion e"
  by (induction es arbitrary: e) simp_all

lemma find_in_set: "find P xs = Some x \<Longrightarrow> x \<in> set xs \<and> P x"
  by (auto simp: find_Some_iff)

lemma find_None_filter: "find P xs = None \<Longrightarrow> filter P xs = []"
  by (induction xs) (auto split: if_splits)

lemma conflictAnchor_exists:
  assumes "hasSameTimeConflict g profile"
  shows "\<exists>a. conflictAnchor profile g = Some a \<and> a \<in> set g"
proof -
  have "remdups (filter (\<lambda>k. k \<noteq> None) (map (\<lambda>e. boundaryKind e profile) g)) \<noteq> []"
    using assms unfolding hasSameTimeConflict_def by (metis list.size(3) not_one_less_zero)
  then have "filter (\<lambda>e. boundaryKind e profile \<noteq> None) g \<noteq> []"
    by (simp add: filter_map comp_def)
  then have "find (\<lambda>e. boundaryKind e profile \<noteq> None) g \<noteq> None"
    by (rule contrapos_nn) (rule find_None_filter)
  then obtain y where "find (\<lambda>e. boundaryKind e profile \<noteq> None) g = Some y" by blast
  then show ?thesis
    using find_in_set [of _ g] unfolding conflictAnchor_def firstStarted_def
    by (cases "find (\<lambda>e. eventType e = EXECUTION_STARTED_OBSERVED) g") simp_all
qed

lemma mset_anchor_first:
  assumes "distinct (map eventId g)" and "a \<in> set g"
  shows "mset (a # filter (\<lambda>x. eventId x \<noteq> eventId a) g) = mset g"
  using assms
proof (induction g)
  case (Cons b g)
  show ?case
  proof (cases "b = a")
    case True
    then have "eventId x \<noteq> eventId a" if "x \<in> set g" for x
      using Cons.prems(1) imageI [OF that, of eventId] by (metis distinct.simps(2) list.map(2) list.set_map)
    then have "filter (\<lambda>x. eventId x \<noteq> eventId a) g = g" by (intro filter_True) simp
    then show ?thesis using True by simp
  next
    case False
    then have "a \<in> set g" "eventId b \<noteq> eventId a" using Cons.prems by auto
    then show ?thesis using Cons False by (simp add: add_mset_commute)
  qed
qed simp

text \<open>The execution \<open>conflictGroup\<close> opens, before its terminal event closes it.\<close>

lemma conflictExecution:
  assumes "newExecution no a miss = Inr e0" and "eventTime a = At t"
    and "st = (if miss then None else Some (At t))"
    and "e = addReason (markConflict (pushPhase (foldl attach e0 es) (startPhase UNKNOWN_PHASE a st))
           SAME_TIME_CONFLICT) EVENT_SEQUENCE_CONFLICT"
  shows "execInv profile t e" and "meEnd e = None" and "meConflicted e" and "meExecutionNo e = no"
    and "meInputEvents e = a # es" and "chained (meStart e) (mePhases e) None"
proof -
  note f = assms(1) [unfolded newExecution_At [OF assms(2)], simplified] assms(3,4)
  have c: "meStart e = st" "mePhases e = [startPhase UNKNOWN_PHASE a st]" "meEnd e = None"
    "meConflicted e" "meExecutionNo e = no" "meInputEvents e = a # es" "\<not> meUsedControlCompletion e"
    "set (meReasons e) \<subseteq> {SAME_TIME_CONFLICT, EVENT_SEQUENCE_CONFLICT, EXECUTION_BOUNDARY_MISSING}"
    "SAME_TIME_CONFLICT \<in> set (meReasons e)"
    using f by (auto simp: addReason_def markConflict_def pushPhase_def)
  show "meEnd e = None" "meConflicted e" "meExecutionNo e = no" "meInputEvents e = a # es" by fact+
  show "chained (meStart e) (mePhases e) None" using c(1,2) by (simp add: startPhase_def)
  show "execInv profile t e" unfolding execInv_def c(1-3)
    using c(4-9) assms(3) by (auto simp: startPhase_def phaseUpTo_def)
qed

lemma conflictGroup_ok:
  assumes "machineInv profile T m" and "mcCurrent m = None" and "T \<le> t"
    and "\<forall>x \<in> set g. eventTime x = At t" and "distinct (map eventId g)"
    and "hasSameTimeConflict g profile"
  shows "stepOk profile t (mset g) m (conflictGroup profile m g)"
proof -
  obtain a where a: "conflictAnchor profile g = Some a" "a \<in> set g"
    using conflictAnchor_exists [OF assms(6)] by blast
  have ta: "eventTime a = At t" using a(2) assms(4) by simp
  let ?miss = "firstStarted g = None"
  let ?es = "filter (\<lambda>x. eventId x \<noteq> eventId a) g"
  define st where "st = (if ?miss then None else Some (At t))"
  have st: "(case firstStarted g of None \<Rightarrow> Inr None
      | Some s \<Rightarrow> bindR (timestamp (eventTime s)) (\<lambda>t. Inr (Some t))) = (Inr st :: trace_error + stamp option)"
    using assms(4) by (auto simp: st_def firstStarted_def dest!: find_in_set split: option.splits)
  obtain e0 where e0: "newExecution (mcExecutionNo m + 1) a ?miss = Inr e0"
    using newExecution_At [OF ta] by simp
  define e where "e = addReason (markConflict (pushPhase (foldl attach e0 ?es)
      (startPhase UNKNOWN_PHASE a st)) SAME_TIME_CONFLICT) EVENT_SEQUENCE_CONFLICT"
  note ce = conflictExecution [OF e0 ta st_def e_def]
  have events: "mset (meInputEvents e) = mset g"
    using mset_anchor_first [OF assms(5) a(2)] ce(5) by simp
  let ?paused = "(\<exists>x \<in> set g. eventType x = EXECUTION_PAUSED_OBSERVED) \<and>
    \<not> (\<exists>x \<in> set g. eventType x = EXECUTION_RESUMED_OBSERVED \<or> eventType x = EXECUTION_STARTED_OBSERVED)"
  let ?st = "if ?paused then N_PAUSED else N_RUNNING"
  show ?thesis
  proof (cases "find (\<lambda>x. isTerminal x profile) g")
    case None
    have "conflictGroup profile m g = Inr (m\<lparr>mcExecutionNo := mcExecutionNo m + 1,
        mcCurrent := Some e, mcState := ?st\<rparr>)"
      unfolding conflictGroup_def a(1) using e0 st None by (simp add: e_def Let_def)
    moreover have "currentInv profile t ?st e" using ce by (simp add: currentInv_def)
    ultimately show ?thesis
      using machineInv_opened [OF assms(1-3) _ _ ce(4) events, of ?st] by (simp add: stepOk_def)
  next
    case (Some tev)
    then have tm: "eventTime tev = At t" "isTerminal tev profile"
      using assms(4) by (auto dest: find_in_set)
    have "conflictGroup profile m g = Inr (m\<lparr>mcExecutionNo := mcExecutionNo m + 1,
        mcExecutions := mcExecutions m @ [terminated e tev (At t)], mcCurrent := None, mcState := N_TERMINAL\<rparr>)"
      unfolding conflictGroup_def a(1)
      using e0 st Some closePhase_open [OF ce(6) tm(1)] tm(1)
      by (simp add: e_def [symmetric] Let_def finalizeCurrent_def terminated_def)
    moreover have "execInv profile t (terminated e tev (At t))"
      using terminated_execInv [OF ce(1,2) tm(2)] by simp
    ultimately show ?thesis
      using machineInv_opened_closed [OF assms(1-3), of "terminated e tev (At t)" "mset g"] ce(4) events
      by (simp add: stepOk_def)
  qed
qed

text \<open>Marking the executions a contradictory group touched.\<close>

lemma markIfTouched_frame [simp]:
  "meInputEvents (markIfTouched ids e) = meInputEvents e"
  "meExecutionNo (markIfTouched ids e) = meExecutionNo e" "meEnd (markIfTouched ids e) = meEnd e"
  by (simp_all add: markIfTouched_def)

lemma markIfTouched_execInv: "execInv profile T e \<Longrightarrow> execInv profile T (markIfTouched ids e)"
  by (simp add: markIfTouched_def markConflict_execInv)

lemma markIfTouched_currentInv: "currentInv profile T st e \<Longrightarrow> currentInv profile T st (markIfTouched ids e)"
  by (simp add: markIfTouched_def markConflict_currentInv)

lemma map_markIfTouched [simp]:
  "map meInputEvents (map (markIfTouched ids) es) = map meInputEvents es"
  "map meExecutionNo (map (markIfTouched ids) es) = map meExecutionNo es"
  by simp_all

lemma markGroupConflict_keeps:
  assumes "machineInv profile T m"
  shows "machineInv profile T (markGroupConflict g m) \<and>
    recordedEvents (markGroupConflict g m) = recordedEvents m"
proof (cases "mcCurrent m")
  case None
  then show ?thesis using assms
    by (auto simp: machineInv_def allExecutions_def recordedEvents_def markGroupConflict_def comp_def
        intro: markIfTouched_execInv)
next
  case (Some c)
  then show ?thesis using assms
    by (auto simp: machineInv_def allExecutions_def recordedEvents_def markGroupConflict_def comp_def
        intro: markIfTouched_execInv markIfTouched_currentInv)
qed

lemma foldEvents_ok:
  assumes "machineInv profile T m" and "T \<le> t" and "\<forall>x \<in> set g. eventTime x = At t"
  shows "stepOk profile t (mset g) m (foldR (stepEvent profile) m g)"
  using assms
proof (induction g arbitrary: m T)
  case Nil
  then show ?case
    by (auto simp: stepOk_def machineInv_def intro: execInv_mono currentInv_mono split: option.splits)
next
  case (Cons x g)
  have "stepOk profile t {#x#} m (stepEvent profile m x)"
    using stepEvent_ok [OF Cons.prems(1,2)] Cons.prems(3) by simp
  then obtain u where u: "stepEvent profile m x = Inr u" "machineInv profile t u"
    "recordedEvents u = add_mset x (recordedEvents m)" by (auto simp: stepOk_def)
  have "stepOk profile t (mset g) u (foldR (stepEvent profile) u g)"
    using Cons.IH [OF u(2) order_refl] Cons.prems(3) by simp
  then show ?case using u by (auto simp: stepOk_def)
qed

lemma stepGroup_ok:
  assumes "machineInv profile T m" and "T \<le> t" and "\<forall>x \<in> set g. eventTime x = At t"
    and "distinct (map eventId g)"
  shows "stepOk profile t (mset g) m (stepGroup profile m g)"
proof (cases "hasSameTimeConflict g profile \<and>
    (mcState m = N_NONE \<or> (mcState m = N_TERMINAL \<and> firstStarted g \<noteq> None))")
  case True
  then have "mcCurrent m = None" using assms(1) by (auto simp: machineInv_def split: option.splits)
  from conflictGroup_ok [OF assms(1) this assms(2-4)] True show ?thesis by (simp add: stepGroup_def)
next
  case False
  then have *: "stepGroup profile m g = bindR (foldR (stepEvent profile) m g) (\<lambda>m'.
      Inr (if hasSameTimeConflict g profile then markGroupConflict g m' else m'))"
    unfolding stepGroup_def by (rule if_not_P)
  obtain u where u: "foldR (stepEvent profile) m g = Inr u" "machineInv profile t u"
      "recordedEvents u = mset g + recordedEvents m"
    using foldEvents_ok [OF assms(1-3)] by (auto simp: stepOk_def)
  show ?thesis unfolding * u(1) using u(2,3) markGroupConflict_keeps [OF u(2), of g]
    by (simp add: stepOk_def)
qed

section \<open>Whole runs\<close>

text \<open>The events are as \<open>orderTaskIntervalEvents\<close> hands them over.\<close>

definition timeOf :: "interval_event \<Rightarrow> int" where
  "timeOf e = stampMs (eventTime e)"

definition orderedInput :: "interval_event list \<Rightarrow> bool" where
  "orderedInput events \<longleftrightarrow> (\<forall>e \<in> set events. eventTime e \<noteq> BadStamp) \<and>
     sorted (map timeOf events) \<and> distinct (map eventId events)"

lemma At_timeOf: "eventTime e \<noteq> BadStamp \<Longrightarrow> eventTime e = At (timeOf e)"
  by (cases "eventTime e") (simp_all add: timeOf_def)

definition groupTime :: "interval_event list \<Rightarrow> int" where
  "groupTime g = timeOf (hd g)"

definition goodGroups :: "interval_event list list \<Rightarrow> bool" where
  "goodGroups gs \<longleftrightarrow> (\<forall>g \<in> set gs. g \<noteq> [] \<and> (\<forall>x \<in> set g. eventTime x = At (groupTime g))) \<and>
     sorted_wrt (<) (map groupTime gs)"

lemma groupByEventTime_snoc: "groupByEventTime (es @ [e]) = groupStep (groupByEventTime es) e"
  by (simp add: groupByEventTime_def)

lemma groupByEventTime_concat: "concat (groupByEventTime es) = es"
proof (induction es rule: rev_induct)
  case (snoc e es)
  have "concat (groupStep gs e) = concat gs @ [e]" for gs
    by (cases gs rule: rev_cases) (auto simp: groupStep_def)
  then show ?case using snoc by (simp add: groupByEventTime_snoc)
qed (simp add: groupByEventTime_def)

lemma groupStep_good:
  assumes "goodGroups gs" and "eventTime e = At t" and "\<forall>x \<in> set (concat gs). timeOf x \<le> t"
  shows "goodGroups (groupStep gs e)"
proof (cases gs rule: rev_cases)
  case Nil
  then show ?thesis using assms(2) by (simp add: groupStep_def goodGroups_def groupTime_def timeOf_def)
next
  case (snoc hs g)
  have g: "g \<noteq> []" "\<forall>x \<in> set g. eventTime x = At (groupTime g)"
    and hs: "goodGroups hs" "\<forall>h \<in> set hs. groupTime h < groupTime g"
    using assms(1) snoc by (auto simp: goodGroups_def sorted_wrt_append)
  have head: "eventTime (hd g) = At (groupTime g)" using g by simp
  have le: "groupTime g \<le> t" using assms(3) snoc g(1) by (auto simp: groupTime_def)
  show ?thesis
  proof (cases "groupTime g = t")
    case True
    have "groupTime (g @ [e]) = t" using True g(1) by (simp add: groupTime_def)
    then show ?thesis using snoc g hs head True assms(2)
      by (simp add: groupStep_def goodGroups_def sorted_wrt_append)
  next
    case False
    have single: "groupTime [e] = t" using assms(2) by (simp add: groupTime_def timeOf_def)
    have "\<forall>h \<in> set (hs @ [g]). groupTime h < t" using hs(2) le False by auto
    then show ?thesis using snoc g hs head False assms(2) single
      by (simp add: groupStep_def goodGroups_def sorted_wrt_append)
  qed
qed

lemma groupByEventTime_good:
  "\<forall>e \<in> set es. eventTime e \<noteq> BadStamp \<Longrightarrow> sorted (map timeOf es) \<Longrightarrow> goodGroups (groupByEventTime es)"
proof (induction es rule: rev_induct)
  case (snoc e es)
  then have "goodGroups (groupByEventTime es)" by (simp add: sorted_append)
  moreover have "eventTime e = At (timeOf e)" using snoc.prems(1) by (intro At_timeOf) simp
  moreover have "\<forall>x \<in> set (concat (groupByEventTime es)). timeOf x \<le> timeOf e"
    using snoc.prems(2) by (simp add: groupByEventTime_concat sorted_append)
  ultimately show ?case unfolding groupByEventTime_snoc by (rule groupStep_good)
qed (simp add: groupByEventTime_def goodGroups_def)

lemma foldGroups_ok:
  assumes "machineInv profile T m" and "goodGroups gs" and "\<forall>g \<in> set gs. T \<le> groupTime g"
    and "distinct (map eventId (concat gs))"
  shows "\<exists>m' T'. foldR (stepGroup profile) m gs = Inr m' \<and> machineInv profile T' m' \<and>
    recordedEvents m' = mset (concat gs) + recordedEvents m"
  using assms
proof (induction gs arbitrary: m T)
  case (Cons g gs)
  have g: "\<forall>x \<in> set g. eventTime x = At (groupTime g)" "goodGroups gs" "T \<le> groupTime g"
      "\<forall>h \<in> set gs. groupTime g \<le> groupTime h" "distinct (map eventId g)"
      "distinct (map eventId (concat gs))"
    using Cons.prems(2-4) by (auto simp: goodGroups_def)
  obtain u where u: "stepGroup profile m g = Inr u" "machineInv profile (groupTime g) u"
    "recordedEvents u = mset g + recordedEvents m"
    using stepGroup_ok [OF Cons.prems(1) g(3,1,5)] by (auto simp: stepOk_def)
  from Cons.IH [OF u(2) g(2,4,6)] u show ?case by (auto simp: ac_simps)
qed auto

lemma init_inv: "machineInv profile T initMachine"
  by (simp add: machineInv_def initMachine_def allExecutions_def)

definition finalExecutions :: "machine \<Rightarrow> mutable_execution list" where
  "finalExecutions m = mcExecutions (finalizeCurrent m)"

lemma finalExecutions_all: "finalExecutions m = allExecutions m"
  by (simp add: finalExecutions_def allExecutions_def finalizeCurrent_def split: option.splits)

text \<open>A run on ordered input succeeds, and its result is read off a machine with the invariant.\<close>

definition resultOf :: "machine \<Rightarrow> machine_result" where
  "resultOf m = \<lparr>finalState = (if allExecutions m \<noteq> [] \<and>
       lifecycleState (last (map finish (allExecutions m))) = LIFECYCLE_CONFLICTED
     then FSM_CONFLICTED else nominalToFsm (mcState m)),
   executions = map finish (allExecutions m), orphanEvents = mcOrphans m\<rparr>"

lemma resultOf_fields [simp]:
  "executions (resultOf m) = map finish (allExecutions m)" "orphanEvents (resultOf m) = mcOrphans m"
  by (simp_all add: resultOf_def)

lemma run_machine:
  assumes "orderedInput events"
  shows "\<exists>m T. machineInv profile T m \<and> recordedEvents m = mset events \<and>
    runTaskIntervalStateMachine events profile = Inr (resultOf m)"
proof -
  let ?gs = "groupByEventTime events"
  have good: "goodGroups ?gs" using assms by (auto simp: orderedInput_def intro: groupByEventTime_good)
  obtain T where T: "\<forall>g \<in> set ?gs. T \<le> groupTime g"
  proof (cases "?gs")
    case Nil
    then show ?thesis using that by simp
  next
    case (Cons g gs)
    then show ?thesis using that [of "groupTime g"] good by (fastforce simp: goodGroups_def)
  qed
  obtain m T' where m: "foldR (stepGroup profile) initMachine ?gs = Inr m" "machineInv profile T' m"
    "recordedEvents m = mset events + recordedEvents initMachine"
    using foldGroups_ok [OF init_inv [of profile] good T] assms
    unfolding groupByEventTime_concat orderedInput_def by blast
  have "recordedEvents initMachine = {#}" by (simp add: recordedEvents_def allExecutions_def initMachine_def)
  with m have "recordedEvents m = mset events" by simp
  moreover have "runTaskIntervalStateMachine events profile = Inr (resultOf m)"
    unfolding runTaskIntervalStateMachine_def m(1) resultOf_def
    by (simp add: finalExecutions_all [unfolded finalExecutions_def] Let_def)
  ultimately show ?thesis using m(2) by blast
qed

section \<open>What a finished execution looks like\<close>

definition phaseSpans :: "interval_draft \<Rightarrow> (stamp option \<times> stamp option) list" where
  "phaseSpans d = map (\<lambda>p. (phaseStart p, phaseEnd p)) (draftPhases d)"

fun chainedSpans :: "stamp option \<Rightarrow> (stamp option \<times> stamp option) list \<Rightarrow> stamp option \<Rightarrow> bool" where
  "chainedSpans s [] e = False"
| "chainedSpans s [(a, b)] e = (a = s \<and> b = e)"
| "chainedSpans s ((a, b) # q # ps) e = (a = s \<and> b \<noteq> None \<and> chainedSpans b (q # ps) e)"

fun forwardSpan :: "stamp option \<times> stamp option \<Rightarrow> bool" where
  "forwardSpan (Some a, Some b) = (a \<noteq> BadStamp \<and> b \<noteq> BadStamp \<and> stampMs a \<le> stampMs b)"
| "forwardSpan (a, b) = True"

lemma map_enumerate_snd: "(\<And>i x. h (f i x) = k x) \<Longrightarrow>
    map h (map (\<lambda>(i, x). f i x) (enumerate n xs)) = map k xs"
  by (induction xs arbitrary: n) auto

lemma map_enumerate_fst: "(\<And>i x. h (f i x) = Suc i) \<Longrightarrow>
    map h (map (\<lambda>(i, x). f i x) (enumerate n xs)) = [Suc n ..< Suc n + length xs]"
  by (induction xs arbitrary: n) (auto simp: upt_conv_Cons simp del: upt_Suc)

lemma chained_spans: "chained s ps e = chainedSpans s (map (\<lambda>p. (mpStart p, mpEnd p)) ps) e"
  by (induction s ps e rule: chained.induct) auto

lemma settle_phases [simp]: "mePhases (settle e) = mePhases e" "meStart (settle e) = meStart e"
  "meEnd (settle e) = meEnd e" "meExecutionNo (settle e) = meExecutionNo e"
  "meInputEvents (settle e) = meInputEvents e"
  "meUsedControlCompletion (settle e) = meUsedControlCompletion e"
  by (simp_all add: settle_def addReason_def markConflict_def Let_def)

lemma finish_fields [simp]:
  "executionNo (finish e) = meExecutionNo e" "inputEvents (finish e) = meInputEvents e"
  "draftStart (finish e) = meStart e" "draftEnd (finish e) = meEnd e"
  "set (draftReasonCodes (finish e)) = set (meReasons (settle e))"
  by (simp_all add: finish_def Let_def sortReasons_def)

lemma finish_phases:
  "phaseSpans (finish e) = map (\<lambda>p. (mpStart p, mpEnd p)) (mePhases e)"
  "map phaseKind (draftPhases (finish e)) = map mpKind (mePhases e)"
  "map phaseNo (draftPhases (finish e)) = [1 ..< length (mePhases e) + 1]"
proof -
  have d: "draftPhases (finish e) = map (\<lambda>(i, p). finishPhase i p) (enumerate 0 (mePhases e))"
    by (simp add: finish_def Let_def)
  show "phaseSpans (finish e) = map (\<lambda>p. (mpStart p, mpEnd p)) (mePhases e)"
    unfolding phaseSpans_def d by (rule map_enumerate_snd) (simp add: finishPhase_def)
  show "map phaseKind (draftPhases (finish e)) = map mpKind (mePhases e)"
    unfolding d by (rule map_enumerate_snd) (simp add: finishPhase_def)
  show "map phaseNo (draftPhases (finish e)) = [1 ..< length (mePhases e) + 1]"
    unfolding d by (subst map_enumerate_fst) (simp_all add: finishPhase_def)
qed

text \<open>What the status fields and the reason codes of a draft say about each other.\<close>

definition statusesAgree :: "method_profile \<Rightarrow> interval_draft \<Rightarrow> bool" where
  "statusesAgree profile d \<longleftrightarrow>
     (lifecycleState d = LIFECYCLE_CONFLICTED \<longleftrightarrow> stabilityState d = STABILITY_CONFLICTED) \<and>
     (lifecycleState d = LIFECYCLE_CONFLICTED \<longleftrightarrow>
        EVENT_SEQUENCE_CONFLICT \<in> set (draftReasonCodes d) \<or> SAME_TIME_CONFLICT \<in> set (draftReasonCodes d)) \<and>
     (lifecycleState d = OPEN \<longleftrightarrow> OPEN_EXECUTION \<in> set (draftReasonCodes d)) \<and>
     (lifecycleState d = CLOSED \<longrightarrow> draftStart d \<noteq> None \<and> draftEnd d \<noteq> None) \<and>
     (derivationKind d = MIXED \<longleftrightarrow> CONTROL_COMPLETION_USED_AS_TERMINAL \<in> set (draftReasonCodes d)) \<and>
     (derivationKind d = MIXED \<longrightarrow> allowControlCompletionAsTerminal profile)"

definition timelineOk :: "interval_draft \<Rightarrow> bool" where
  "timelineOk d \<longleftrightarrow>
     map phaseNo (draftPhases d) = [1 ..< length (draftPhases d) + 1] \<and>
     chainedSpans (draftStart d) (phaseSpans d) (draftEnd d) \<and>
     (\<forall>s \<in> set (phaseSpans d). forwardSpan s) \<and>
     (lifecycleState d \<noteq> LIFECYCLE_CONFLICTED \<longrightarrow>
        draftStart d \<noteq> None \<and> alternates RUNNING (map phaseKind (draftPhases d)))"

lemma phaseUpTo_forward: "phaseUpTo T p \<Longrightarrow> forwardSpan (mpStart p, mpEnd p)"
  by (auto simp: phaseUpTo_def split: option.splits)

lemma finish_status:
  assumes "execInv profile T e"
  shows "statusesAgree profile (finish e)" and "timelineOk (finish e)"
proof -
  have settled: "meConflicted (settle e) = meConflicted e"
    "set (meReasons (settle e)) = set (meReasons e) \<union>
       (if meEnd e = None \<and> \<not> meConflicted e then {OPEN_EXECUTION} else {}) \<union>
       (if meStart e = None then {EXECUTION_BOUNDARY_MISSING, EVENT_SEQUENCE_CONFLICT} else {})"
    using assms by (auto simp: execInv_def settle_def addReason_def markConflict_def Let_def)
  have f: "lifecycleState (finish e) = (if meConflicted e then LIFECYCLE_CONFLICTED
        else if meEnd e = None then OPEN else CLOSED)"
    "stabilityState (finish e) = (if meConflicted e then STABILITY_CONFLICTED else PROVISIONAL)"
    "derivationKind (finish e) = (if meUsedControlCompletion e then MIXED else OBSERVED)"
    using settled(1) by (simp_all add: finish_def Let_def)
  show "statusesAgree profile (finish e)"
    using assms f settled by (auto simp: statusesAgree_def execInv_def)
  have len: "length (draftPhases (finish e)) = length (mePhases e)"
    by (metis finish_phases(2) length_map)
  have fwd: "\<forall>s \<in> set (phaseSpans (finish e)). forwardSpan s"
    unfolding finish_phases set_map ball_simps
    using assms phaseUpTo_forward unfolding execInv_def by blast
  show "timelineOk (finish e)"
    unfolding timelineOk_def len
    using fwd assms f by (simp add: finish_phases execInv_def chained_spans)
qed

lemma machineInv_execs:
  "machineInv profile T m \<Longrightarrow> e \<in> set (allExecutions m) \<Longrightarrow> execInv profile T e"
  by (auto simp: machineInv_def allExecutions_def currentInv_def split: option.splits)

section \<open>Properties\<close>

text \<open>
  C21. A run over ordered, parsable, distinctly identified events always returns (the
  \<open>lost the current execution\<close> throw and the missing conflict anchor are unreachable),
  numbers its executions 1, 2, ... and loses or duplicates no event: every input event is
  evidence of exactly one execution or is reported as an orphan.
\<close>

theorem run_conserves_events:
  assumes "orderedInput events"
  shows "\<exists>r. runTaskIntervalStateMachine events profile = Inr r \<and>
    mset (concat (map inputEvents (executions r))) + mset (orphanEvents r) = mset events \<and>
    map executionNo (executions r) = [1 ..< length (executions r) + 1]"
proof -
  obtain m T where m: "machineInv profile T m" "recordedEvents m = mset events"
    and run: "runTaskIntervalStateMachine events profile = Inr (resultOf m)"
    using run_machine [OF assms] by blast
  have "map meExecutionNo (allExecutions m) = [1 ..< length (allExecutions m) + 1]"
    using m(1) by (simp add: machineInv_def)
  then show ?thesis unfolding run using m(2) by (simp add: recordedEvents_def comp_def)
qed

text \<open>
  A concrete history: a start, a pause, a resume and a stop, then a pause and a stop that
  fall on one instant.
\<close>

definition sampleEvent :: "string \<Rightarrow> event_type \<Rightarrow> int \<Rightarrow> interval_event" where
  "sampleEvent n ty t = \<lparr>eventId = js n, eventType = ty, eventTime = At t, receivedTime = At t,
     sourceAuthority = js ''ugv'', sourceEventKey = js n, sourceRevisionNo = 1,
     eventContentHash = js ''sha256:'' @ replicate 64 48, eventConfidence = None\<rparr>"

definition sampleEvents :: "interval_event list" where
  "sampleEvents =
     [sampleEvent ''a'' EXECUTION_PROGRESS_OBSERVED 5, sampleEvent ''b'' EXECUTION_STARTED_OBSERVED 10,
      sampleEvent ''c'' EXECUTION_PAUSED_OBSERVED 20, sampleEvent ''d'' EXECUTION_RESUMED_OBSERVED 30,
      sampleEvent ''e'' EXECUTION_STOPPED_OBSERVED 40, sampleEvent ''f'' EXECUTION_STARTED_OBSERVED 50,
      sampleEvent ''g'' EXECUTION_PAUSED_OBSERVED 60, sampleEvent ''h'' EXECUTION_STOPPED_OBSERVED 60]"

lemma sampleEvents_ordered: "orderedInput sampleEvents"
  by (simp add: orderedInput_def sampleEvents_def sampleEvent_def timeOf_def js_def)

lemma run_conserves_events_witness:
  "\<exists>r. runTaskIntervalStateMachine sampleEvents DEFAULT_TASK_INTERVAL_METHOD_PROFILE = Inr r \<and>
    mset (concat (map inputEvents (executions r))) + mset (orphanEvents r) = mset sampleEvents \<and>
    map executionNo (executions r) = [1 ..< length (executions r) + 1]"
  by (rule run_conserves_events [OF sampleEvents_ordered])

text \<open>
  C32. Only the last execution of a run can be without an end: a second execution never
  begins while one is under way; and the final state of such a run is CONFLICTED exactly when
  that execution is conflicted, and RUNNING or PAUSED otherwise.  Assumed: the events are ordered, readable
  and distinctly identified.
\<close>

theorem only_last_execution_open:
  assumes "orderedInput events" and "runTaskIntervalStateMachine events profile = Inr r"
    and "i < length (executions r)" and "draftEnd (executions r ! i) = None"
  shows "i = length (executions r) - 1 \<and>
    (if lifecycleState (executions r ! i) = LIFECYCLE_CONFLICTED then finalState r = FSM_CONFLICTED
     else finalState r = FSM_RUNNING \<or> finalState r = FSM_PAUSED)"
proof -
  obtain m T where m: "machineInv profile T m" and r: "r = resultOf m"
    using run_machine [OF assms(1), of profile] assms(2) by auto
  have i: "i < length (allExecutions m)" "meEnd (allExecutions m ! i) = None"
    using assms(3,4) r by auto
  have closed: "\<forall>e \<in> set (mcExecutions m). meEnd e \<noteq> None" using m by (simp add: machineInv_def)
  have "\<not> i < length (mcExecutions m)"
  proof
    assume "i < length (mcExecutions m)"
    then have "meEnd (mcExecutions m ! i) = None" using i(2) by (simp add: allExecutions_def nth_append)
    then show False using closed nth_mem [OF \<open>i < length (mcExecutions m)\<close>] by blast
  qed
  then obtain c where c: "mcCurrent m = Some c" "i = length (mcExecutions m)"
    using i(1) by (auto simp: allExecutions_def split: option.splits)
  then have "mcState m = N_RUNNING \<or> mcState m = N_PAUSED" using m by (simp add: machineInv_def)
  moreover have "last (map finish (allExecutions m)) = executions r ! i" "allExecutions m \<noteq> []"
    using c by (auto simp: r allExecutions_def nth_append)
  ultimately show ?thesis using c by (auto simp: r resultOf_def allExecutions_def)
qed

lemma only_last_execution_open_witness:
  "\<exists>r. runTaskIntervalStateMachine (take 6 sampleEvents) DEFAULT_TASK_INTERVAL_METHOD_PROFILE = Inr r \<and>
     1 = length (executions r) - 1 \<and> lifecycleState (executions r ! 1) \<noteq> LIFECYCLE_CONFLICTED \<and>
     (finalState r = FSM_RUNNING \<or> finalState r = FSM_PAUSED)"
proof -
  let ?run = "runTaskIntervalStateMachine (take 6 sampleEvents) DEFAULT_TASK_INTERVAL_METHOD_PROFILE"
  have ord: "orderedInput (take 6 sampleEvents)"
    by (simp add: orderedInput_def sampleEvents_def sampleEvent_def timeOf_def js_def)
  have "case ?run of Inl e \<Rightarrow> False | Inr r \<Rightarrow> 1 < length (executions r) \<and> draftEnd (executions r ! 1) = None \<and>
      lifecycleState (executions r ! 1) \<noteq> LIFECYCLE_CONFLICTED"
    by code_simp
  then obtain r where r: "?run = Inr r" "1 < length (executions r)" "draftEnd (executions r ! 1) = None"
      "lifecycleState (executions r ! 1) \<noteq> LIFECYCLE_CONFLICTED"
    by (cases ?run) auto
  show ?thesis using only_last_execution_open [OF ord r(1-3)] r(1,4) by simp
qed

text \<open>
  C26. Every reconstructed execution has a sound timeline: its phases are numbered in order,
  begin at the execution's start, follow each other without gap or overlap, end at the
  execution's end and never run backwards in time; unless the execution is conflicted they
  alternate RUNNING, PAUSED, RUNNING, ... from a known start.
\<close>

theorem execution_timelines:
  assumes "orderedInput events" and "runTaskIntervalStateMachine events profile = Inr r"
    and "d \<in> set (executions r)"
  shows "timelineOk d"
proof -
  obtain m T where m: "machineInv profile T m" and r: "r = resultOf m"
    using run_machine [OF assms(1), of profile] assms(2) by auto
  obtain e where "e \<in> set (allExecutions m)" "d = finish e" using assms(3) r by auto
  then show ?thesis using finish_status(2) machineInv_execs [OF m] by blast
qed

lemma execution_timelines_witness:
  "\<exists>r. runTaskIntervalStateMachine sampleEvents DEFAULT_TASK_INTERVAL_METHOD_PROFILE = Inr r \<and>
     executions r \<noteq> [] \<and> timelineOk (hd (executions r))"
proof -
  let ?run = "runTaskIntervalStateMachine sampleEvents DEFAULT_TASK_INTERVAL_METHOD_PROFILE"
  have "case ?run of Inl e \<Rightarrow> False | Inr r \<Rightarrow> executions r \<noteq> []" by code_simp
  then obtain r where r: "?run = Inr r" "executions r \<noteq> []" by (cases ?run) auto
  then show ?thesis using execution_timelines [OF sampleEvents_ordered r(1), where d = "hd (executions r)"] by simp
qed

text \<open>
  C36. The status fields of a draft agree with its reason codes: CONFLICTED exactly when a
  sequence or same-time conflict is recorded, OPEN exactly when OPEN_EXECUTION is, CLOSED
  only with both boundaries known, and MIXED exactly when a control completion was taken
  as terminal, which the profile must allow.
\<close>

theorem statuses_explained:
  assumes "orderedInput events" and "runTaskIntervalStateMachine events profile = Inr r"
    and "d \<in> set (executions r)"
  shows "statusesAgree profile d"
proof -
  obtain m T where m: "machineInv profile T m" and r: "r = resultOf m"
    using run_machine [OF assms(1), of profile] assms(2) by auto
  obtain e where "e \<in> set (allExecutions m)" "d = finish e" using assms(3) r by auto
  then show ?thesis using finish_status(1) machineInv_execs [OF m] by blast
qed

lemma statuses_explained_witness:
  "\<exists>r. runTaskIntervalStateMachine sampleEvents DEFAULT_TASK_INTERVAL_METHOD_PROFILE = Inr r \<and>
     executions r \<noteq> [] \<and> statusesAgree DEFAULT_TASK_INTERVAL_METHOD_PROFILE (last (executions r))"
proof -
  let ?run = "runTaskIntervalStateMachine sampleEvents DEFAULT_TASK_INTERVAL_METHOD_PROFILE"
  have "case ?run of Inl e \<Rightarrow> False | Inr r \<Rightarrow> executions r \<noteq> []" by code_simp
  then obtain r where r: "?run = Inr r" "executions r \<noteq> []" by (cases ?run) auto
  then show ?thesis using statuses_explained [OF sampleEvents_ordered r(1), where d = "last (executions r)"] by simp
qed

end
