(* ===== verification/CanonicalJson.thy ===== *)
theory CanonicalJson
  imports TraceModel
begin

text \<open>
  \<open>packages/historical-trace-core/src/canonical-hash.ts\<close>: canonical JSON, the digests built
  on it, and the logical identity of a historical request.

  A JSON value is a finite tree; an object is the association list of its own enumerable
  properties.  \<open>JSON.stringify\<close> of a finite number is the parameter \<open>numText\<close> and the SHA-256
  hex digest of a text's UTF-8 bytes (\<open>node:crypto\<close>) the parameter \<open>sha\<close>.  Values that the
  encoder rejects are leaves: \<open>JNonFinite\<close> (\<open>NaN\<close>, the infinities) and \<open>JUnsupported\<close>
  (\<open>undefined\<close>, functions, symbols, bigints).  Cyclic values and sparse arrays, which it also
  rejects, are not trees and have no counterpart here.
\<close>

datatype 'n json =
    JNull
  | JBool bool
  | JStr js_string
  | JNum 'n
  | JNonFinite
  | JUnsupported
  | JArr "'n json list"
  | JObj "(js_string \<times> 'n json) list"

datatype json_error = NonFiniteNumber | UnsupportedValue

section \<open>Quoting\<close>

definition hexDigit :: "nat \<Rightarrow> 16 word" where
  "hexDigit d = of_nat (if d < 10 then 48 + d else 87 + d)"

definition unicodeEscape :: "16 word \<Rightarrow> js_string" where
  "unicodeEscape u = [92, 117, hexDigit (unat u div 4096 mod 16), hexDigit (unat u div 256 mod 16),
     hexDigit (unat u div 16 mod 16), hexDigit (unat u mod 16)]"

text \<open>\<open>QuoteJSONString\<close> on one code unit that is not part of a surrogate pair.\<close>

definition quoteUnit :: "16 word \<Rightarrow> js_string" where
  "quoteUnit u =
     (if u = 8 then [92, 98] else if u = 9 then [92, 116] else if u = 10 then [92, 110]
      else if u = 12 then [92, 102] else if u = 13 then [92, 114]
      else if u = 34 then [92, 34] else if u = 92 then [92, 92]
      else if unat u < 32 \<or> (55296 \<le> unat u \<and> unat u < 57344) then unicodeEscape u
      else [u])"

fun quoteUnits :: "js_string \<Rightarrow> js_string" where
  "quoteUnits [] = []"
| "quoteUnits [u] = quoteUnit u"
| "quoteUnits (u # v # us) =
     (if 55296 \<le> unat u \<and> unat u < 56320 \<and> 56320 \<le> unat v \<and> unat v < 57344
      then u # v # quoteUnits us
      else quoteUnit u @ quoteUnits (v # us))"

text \<open>The same with binary integers, for evaluation.\<close>

lemma quoteUnit_code [code]:
  "quoteUnit u =
     (if u = 8 then [92, 98] else if u = 9 then [92, 116] else if u = 10 then [92, 110]
      else if u = 12 then [92, 102] else if u = 13 then [92, 114]
      else if u = 34 then [92, 34] else if u = 92 then [92, 92]
      else if uint u < 32 \<or> (55296 \<le> uint u \<and> uint u < 57344) then unicodeEscape u
      else [u])"
  by (simp only: quoteUnit_def uint_nat of_nat_numeral [where 'a = int, symmetric] of_nat_le_iff of_nat_less_iff)

lemma quoteUnits_code [code]:
  "quoteUnits [] = []"
  "quoteUnits [u] = quoteUnit u"
  "quoteUnits (u # v # us) =
     (if 55296 \<le> uint u \<and> uint u < 56320 \<and> 56320 \<le> uint v \<and> uint v < 57344
      then u # v # quoteUnits us
      else quoteUnit u @ quoteUnits (v # us))"
  by (simp_all only: quoteUnits.simps uint_nat of_nat_numeral [where 'a = int, symmetric] of_nat_le_iff of_nat_less_iff)

definition stringifyText :: "js_string \<Rightarrow> js_string" where
  "stringifyText s = [34] @ quoteUnits s @ [34]"

section \<open>Canonical JSON\<close>

text \<open>\<open>join(",")\<close>\<close>

fun joinComma :: "js_string list \<Rightarrow> js_string" where
  "joinComma [] = []"
| "joinComma [s] = s"
| "joinComma (s # t # ss) = s @ [44] @ joinComma (t # ss)"

lemma mapR_cong [fundef_cong]:
  "xs = ys \<Longrightarrow> (\<And>x. x \<in> set ys \<Longrightarrow> f x = g x) \<Longrightarrow> mapR f xs = mapR g ys"
  by (induction ys arbitrary: xs) auto

definition sortEntries :: "(js_string \<times> 'v) list \<Rightarrow> (js_string \<times> 'v) list" where
  "sortEntries es = sort_by (\<lambda>l r. compareText (fst l) (fst r)) es"

lemma set_sortEntries [simp]: "set (sortEntries es) = set es"
  by (simp add: sortEntries_def)

lemma size_entry: "(k, v) \<in> set es \<Longrightarrow> size v \<le> size_list (size_prod (\<lambda>x. 0) size) es"
  by (induction es) auto

function (sequential) encode :: "('n \<Rightarrow> js_string) \<Rightarrow> 'n json \<Rightarrow> json_error + js_string" where
  "encode numText JNull = Inr (js ''null'')"
| "encode numText (JBool b) = Inr (if b then js ''true'' else js ''false'')"
| "encode numText (JStr s) = Inr (stringifyText s)"
| "encode numText (JNum n) = Inr (numText n)"
| "encode numText JNonFinite = Inl NonFiniteNumber"
| "encode numText JUnsupported = Inl UnsupportedValue"
| "encode numText (JArr vs) =
     bindR (mapR (\<lambda>v. encode numText v) vs) (\<lambda>ts. Inr ([91] @ joinComma ts @ [93]))"
| "encode numText (JObj es) =
     bindR (mapR (\<lambda>(k, v). bindR (encode numText v) (\<lambda>t. Inr (stringifyText k @ [58] @ t)))
       (sortEntries es)) (\<lambda>ts. Inr ([123] @ joinComma ts @ [125]))"
  by pat_completeness auto

termination
  by (relation "measure (\<lambda>(f, v). size v)")
    (auto simp: size_entry less_Suc_eq_le intro: size_list_estimation' [OF _ order_refl])

definition canonicalJson :: "('n \<Rightarrow> js_string) \<Rightarrow> 'n json \<Rightarrow> json_error + js_string" where
  "canonicalJson numText v = encode numText v"

definition canonicalSha256 ::
  "(js_string \<Rightarrow> js_string) \<Rightarrow> ('n \<Rightarrow> js_string) \<Rightarrow> 'n json \<Rightarrow> json_error + js_string" where
  "canonicalSha256 sha numText v =
     bindR (canonicalJson numText v) (\<lambda>t. Inr (js ''sha256:'' @ sha t))"

definition canonicalInputSetHash ::
  "(js_string \<Rightarrow> js_string) \<Rightarrow> ('n \<Rightarrow> js_string) \<Rightarrow> 'n json list \<Rightarrow> json_error + js_string" where
  "canonicalInputSetHash sha numText inputs =
     bindR (mapR (canonicalJson numText) inputs) (\<lambda>members.
       canonicalSha256 sha numText (JArr (map JStr (sort_by compareText members))))"


text \<open>\<open>...(x === undefined ? {} : { key: x })\<close>\<close>

definition optionalEntry :: "string \<Rightarrow> 'n json option \<Rightarrow> (js_string \<times> 'n json) list" where
  "optionalEntry key v = (case v of None \<Rightarrow> [] | Some x \<Rightarrow> [(js key, x)])"

section \<open>The logical identity of a request\<close>

record versioned_reference =
  refNamespace :: js_string
  refKind :: js_string
  refId :: js_string
  refVersion :: js_string

record logical_reference =
  logNamespace :: js_string
  logKind :: js_string
  logId :: js_string

definition logicalReferenceKey :: "versioned_reference \<Rightarrow> logical_reference" where
  "logicalReferenceKey k = \<lparr>logNamespace = refNamespace k, logKind = refKind k, logId = refId k\<rparr>"

definition referenceIdentity :: "logical_reference \<Rightarrow> js_string" where
  "referenceIdentity k = logNamespace k @ js '':'' @ logKind k @ js '':'' @ logId k"

definition versionedReferenceIdentity :: "versioned_reference \<Rightarrow> js_string" where
  "versionedReferenceIdentity k =
     referenceIdentity (logicalReferenceKey k) @ js ''@'' @ refVersion k"

record semantic_request =
  subjectReferenceKey :: versioned_reference
  executionIntervalReferenceKey :: versioned_reference
  requestPhaseScope :: phase_scope
  requestSourceSelection :: source_selection
  sourceSelectionProfileReferenceKey :: versioned_reference
  analysisSpaceReferenceKey :: "versioned_reference option"
  maximumInlinePoints :: "int option"

definition referenceJson :: "logical_reference \<Rightarrow> 'n json" where
  "referenceJson k = JObj [(js ''namespace'', JStr (logNamespace k)), (js ''kind'', JStr (logKind k)),
     (js ''id'', JStr (logId k))]"

definition versionedReferenceJson :: "versioned_reference \<Rightarrow> 'n json" where
  "versionedReferenceJson k = JObj [(js ''namespace'', JStr (refNamespace k)),
     (js ''kind'', JStr (refKind k)), (js ''id'', JStr (refId k)), (js ''version'', JStr (refVersion k))]"

fun canonicalSourceSelection :: "source_selection \<Rightarrow> 'n json" where
  "canonicalSourceSelection ONLY_CANDIDATE = JObj [(js ''mode'', JStr (js ''ONLY_CANDIDATE''))]"
| "canonicalSourceSelection (EXPLICIT_SOURCE key session) =
     JObj ([(js ''mode'', JStr (js ''EXPLICIT_SOURCE'')), (js ''sourceKey'', JStr key)] @
       (case session of None \<Rightarrow> [] | Some s \<Rightarrow> [(js ''trackerSessionKey'', JStr s)]))"

fun scopeText :: "phase_scope \<Rightarrow> js_string" where
  "scopeText EXECUTION_ENVELOPE = js ''EXECUTION_ENVELOPE''"
| "scopeText ACTIVE_PHASES_ONLY = js ''ACTIVE_PHASES_ONLY''"

definition historicalSemanticRequestIdentity :: "semantic_request \<Rightarrow> 'n json" where
  "historicalSemanticRequestIdentity r = JObj
     ([(js ''subjectReferenceKey'', referenceJson (logicalReferenceKey (subjectReferenceKey r))),
       (js ''executionIntervalReferenceKey'',
          referenceJson (logicalReferenceKey (executionIntervalReferenceKey r))),
       (js ''phaseScope'', JStr (scopeText (requestPhaseScope r))),
       (js ''sourceSelection'', canonicalSourceSelection (requestSourceSelection r)),
       (js ''sourceSelectionProfileReferenceKey'',
          versionedReferenceJson (sourceSelectionProfileReferenceKey r))] @
      (case analysisSpaceReferenceKey r of None \<Rightarrow> []
       | Some k \<Rightarrow> [(js ''analysisSpaceReferenceKey'', referenceJson (logicalReferenceKey k))]))"

definition historicalSemanticRequestHash ::
  "(js_string \<Rightarrow> js_string) \<Rightarrow> ('n \<Rightarrow> js_string) \<Rightarrow> semantic_request \<Rightarrow> json_error + js_string" where
  "historicalSemanticRequestHash sha numText r =
     canonicalSha256 sha numText (historicalSemanticRequestIdentity r)"

section \<open>Reading a quoted text back\<close>

definition hexValue :: "16 word \<Rightarrow> nat" where
  "hexValue w = (if unat w < 58 then unat w - 48 else unat w - 87)"

fun unquote :: "js_string \<Rightarrow> (js_string \<times> js_string) option" where
  "unquote (c # d # a1 # a2 # a3 # a4 # us) =
     (if c = 34 then Some ([], d # a1 # a2 # a3 # a4 # us)
      else if c = 92 \<and> d = 117 then map_option (apfst (Cons (of_nat
        (hexValue a1 * 4096 + hexValue a2 * 256 + hexValue a3 * 16 + hexValue a4)))) (unquote us)
      else if c = 92 then map_option (apfst (Cons
        (if d = 98 then 8 else if d = 116 then 9 else if d = 110 then 10 else if d = 102 then 12
         else if d = 114 then 13 else d))) (unquote (a1 # a2 # a3 # a4 # us))
      else map_option (apfst (Cons c)) (unquote (d # a1 # a2 # a3 # a4 # us)))"
| "unquote (c # d # us) =
     (if c = 34 then Some ([], d # us)
      else if c = 92 then map_option (apfst (Cons
        (if d = 98 then 8 else if d = 116 then 9 else if d = 110 then 10 else if d = 102 then 12
         else if d = 114 then 13 else d))) (unquote us)
      else map_option (apfst (Cons c)) (unquote (d # us)))"
| "unquote [c] = (if c = 34 then Some ([], []) else None)"
| "unquote [] = None"

lemma hexValue_hexDigit: "d < 16 \<Longrightarrow> hexValue (hexDigit d) = d"
  by (simp add: hexValue_def hexDigit_def unat_of_nat take_bit_nat_def unsigned_of_nat)

lemma hex_digits:
  assumes "n < (65536 :: nat)"
  shows "n div 4096 mod 16 * 4096 + n div 256 mod 16 * 256 + n div 16 mod 16 * 16 + n mod 16 = n"
proof -
  define a b c where "a = n div 16" and "b = a div 16" and "c = b div 16"
  have d: "n div 256 = b" "n div 4096 = c"
    using div_mult2_eq [of n 16 16] div_mult2_eq [of n 256 16] by (simp_all add: a_def b_def c_def)
  have "c < 16" using assms d(2) by linarith
  moreover have "n = 16 * a + n mod 16" "a = 16 * b + a mod 16" "b = 16 * c + b mod 16"
    by (simp_all add: a_def b_def c_def)
  ultimately show ?thesis unfolding d a_def [symmetric] by simp
qed

lemma unquote_unicodeEscape:
  "unquote (unicodeEscape u @ us) = map_option (apfst (Cons u)) (unquote us)"
  by (simp add: unicodeEscape_def hexValue_hexDigit hex_digits [OF unat16_bound]
      del: of_nat_add of_nat_mult)

lemma unquote_plain:
  "c \<noteq> 34 \<Longrightarrow> c \<noteq> 92 \<Longrightarrow> unquote (c # us) = map_option (apfst (Cons c)) (unquote us)"
  by (cases us rule: unquote.cases) auto

lemma unquote_escape:
  "d \<noteq> 117 \<Longrightarrow> unquote (92 # d # us) = map_option (apfst (Cons
     (if d = 98 then 8 else if d = 116 then 9 else if d = 110 then 10 else if d = 102 then 12
      else if d = 114 then 13 else d))) (unquote us)"
  by (cases us rule: unquote.cases) auto

lemma unquote_quoteUnit: "unquote (quoteUnit u @ us) = map_option (apfst (Cons u)) (unquote us)"
  by (simp add: quoteUnit_def unquote_unicodeEscape unquote_escape unquote_plain)

lemma unquote_quoteUnits: "unquote (quoteUnits s @ 34 # us) = Some (s, us)"
proof (induction s rule: quoteUnits.induct)
  case 1
  show ?case by (cases us rule: unquote.cases) auto
next
  case (2 u)
  have "unquote (34 # us) = Some ([], us)" by (cases us rule: unquote.cases) auto
  then show ?case by (simp add: unquote_quoteUnit)
next
  case (3 u v s)
  show ?case
  proof (cases "55296 \<le> unat u \<and> unat u < 56320 \<and> 56320 \<le> unat v \<and> unat v < 57344")
    case True
    then have "u \<noteq> 34" "u \<noteq> 92" "v \<noteq> 34" "v \<noteq> 92" by auto
    then show ?thesis using 3(1) True by (simp add: unquote_plain)
  next
    case False
    then have "quoteUnits (u # v # s) = quoteUnit u @ quoteUnits (v # s)"
      by (simp only: quoteUnits.simps if_False)
    then show ?thesis using 3(2) [OF False] by (simp add: unquote_quoteUnit)
  qed
qed

lemma stringifyText_cancel:
  assumes "stringifyText s @ r = stringifyText s' @ r'"
  shows "s = s' \<and> r = r'"
proof -
  have "quoteUnits s @ 34 # r = quoteUnits s' @ 34 # r'" using assms by (simp add: stringifyText_def)
  then have "unquote (quoteUnits s @ 34 # r) = unquote (quoteUnits s' @ 34 # r')" by simp
  then show ?thesis by (simp add: unquote_quoteUnits)
qed

section \<open>Canonical JSON identifies a value up to the order of keys\<close>

text \<open>What a number's text must be for the encoding to be readable.\<close>

definition delimiters :: "js_string" where
  "delimiters = [44, 93, 125]"

locale number_format =
  fixes numText :: "'n \<Rightarrow> js_string"
  assumes num_inject: "numText m = numText n \<Longrightarrow> m = n"
    and num_head: "numText n \<noteq> [] \<and> hd (numText n) \<in> set [45, 48, 49, 50, 51, 52, 53, 54, 55, 56, 57]"
    and num_body: "c \<in> set (numText n) \<Longrightarrow> c \<notin> set delimiters"

text \<open>The value with the entries of every object sorted by key.\<close>

fun normal :: "'n json \<Rightarrow> 'n json" where
  "normal (JArr vs) = JArr (map normal vs)"
| "normal (JObj es) = JObj (sortEntries (map (\<lambda>(k, v). (k, normal v)) es))"
| "normal v = v"

definition delimited :: "js_string \<Rightarrow> bool" where
  "delimited r \<longleftrightarrow> r = [] \<or> hd r \<in> set delimiters"

definition headOk :: "js_string \<Rightarrow> bool" where
  "headOk t \<longleftrightarrow> t \<noteq> [] \<and> hd t \<notin> set delimiters"

lemma joinComma_Cons: "joinComma (t # ts) = t @ (if ts = [] then [] else 44 # joinComma ts)"
  by (cases ts) auto

lemma undelimited_cancel:
  assumes "a @ r = b @ s" and "\<forall>c \<in> set a. c \<notin> set delimiters" and "\<forall>c \<in> set b. c \<notin> set delimiters"
    and "delimited r" and "delimited s"
  shows "a = b \<and> r = s"
  using assms(1-3)
proof (induction a arbitrary: b)
  case Nil
  then show ?case using assms(4) by (cases b) (auto simp: delimited_def)
next
  case (Cons c a)
  then show ?case using assms(5) by (cases b) (auto simp: delimited_def)
qed

text \<open>
  A comma-separated list is read back element by element, when elements can be:
  \<open>E v t\<close> says that \<open>t\<close> is the text of \<open>v\<close>, \<open>N v\<close> is what reading recovers.
\<close>

lemma joinComma_cancel:
  assumes "list_all2 E vs ts" and "list_all2 E' ws us"
    and "joinComma ts @ c # r = joinComma us @ c # s" and "c \<in> {93, 125}"
    and cancel: "\<And>v w t u p q. v \<in> set vs \<Longrightarrow> E v t \<Longrightarrow> E' w u \<Longrightarrow> t @ p = u @ q \<Longrightarrow>
      delimited p \<Longrightarrow> delimited q \<Longrightarrow> N v = N' w \<and> p = q"
    and head: "\<And>v t. E v t \<Longrightarrow> headOk t" "\<And>w u. E' w u \<Longrightarrow> headOk u"
  shows "map N vs = map N' ws \<and> r = s"
  using assms(1-3) cancel
proof (induction vs arbitrary: ts ws us)
  case Nil
  then have ts: "ts = []" by simp
  show ?case
  proof (cases ws)
    case Nil
    then show ?thesis using Nil.prems ts by simp
  next
    case (Cons w ws')
    then obtain u us' where us: "us = u # us'" "E' w u" using Nil.prems(2) by (auto simp: list_all2_Cons1)
    then have "hd u = c" "u \<noteq> []" using Nil.prems(3) ts head(2) [OF us(2)]
      by (auto simp: joinComma_Cons headOk_def neq_Nil_conv)
    then show ?thesis using head(2) [OF us(2)] assms(4) by (auto simp: headOk_def delimiters_def)
  qed
next
  case (Cons v vs)
  from Cons.prems(1) obtain t ts' where ts: "ts = t # ts'" "E v t" "list_all2 E vs ts'"
    by (auto simp: list_all2_Cons1)
  show ?case
  proof (cases ws)
    case Nil
    then have "t \<noteq> []" "hd t = c" using Cons.prems(2,3) ts head(1) [OF ts(2)]
      by (auto simp: joinComma_Cons headOk_def neq_Nil_conv)
    then show ?thesis using head(1) [OF ts(2)] assms(4) by (auto simp: headOk_def delimiters_def)
  next
    case (Cons w ws')
    then obtain u us' where us: "us = u # us'" "E' w u" "list_all2 E' ws' us'"
      using Cons.prems(2) by (auto simp: list_all2_Cons1)
    let ?p = "(if ts' = [] then [] else 44 # joinComma ts') @ c # r"
    let ?q = "(if us' = [] then [] else 44 # joinComma us') @ c # s"
    have "t @ ?p = u @ ?q" using Cons.prems(3) ts us by (simp add: joinComma_Cons)
    moreover have "delimited ?p" "delimited ?q" using assms(4) by (auto simp: delimited_def delimiters_def)
    ultimately have head_eq: "N v = N' w" and tail: "?p = ?q"
      using Cons.prems(4) [of v t w u ?p ?q] ts(2) us(2) by auto
    have "joinComma ts' @ c # r = joinComma us' @ c # s"
      using tail assms(4) by (auto split: if_splits)
    from Cons.IH [OF ts(3) us(3) this Cons.prems(4)] head_eq Cons show ?thesis by auto
  qed
qed

text \<open>The first unit of an encoding tells the kind of value.\<close>

lemma literal_texts:
  "js ''null'' = [110, 117, 108, 108]" "js ''true'' = [116, 114, 117, 101]"
  "js ''false'' = [102, 97, 108, 115, 101]"
  by (simp_all add: js_def)

fun heads :: "'n json \<Rightarrow> 16 word set" where
  "heads JNull = {110}"
| "heads (JBool b) = (if b then {116} else {102})"
| "heads (JStr s) = {34}"
| "heads (JNum n) = set [45, 48, 49, 50, 51, 52, 53, 54, 55, 56, 57]"
| "heads (JArr vs) = {91}"
| "heads (JObj es) = {123}"
| "heads v = {}"

definition entryText :: "('n \<Rightarrow> js_string) \<Rightarrow> js_string \<times> 'n json \<Rightarrow> json_error + js_string" where
  "entryText numText = (\<lambda>(k, v). bindR (encode numText v) (\<lambda>t. Inr (stringifyText k @ [58] @ t)))"

lemma encode_JObj: "encode numText (JObj es) =
    bindR (mapR (entryText numText) (sortEntries es)) (\<lambda>ts. Inr ([123] @ joinComma ts @ [125]))"
  by (simp add: entryText_def)

declare encode.simps(8) [simp del]

context number_format
begin

lemma encode_heads: "encode numText v = Inr t \<Longrightarrow> t \<noteq> [] \<and> hd t \<in> heads v"
  by (cases v) (auto simp: literal_texts stringifyText_def bindR_eq_Inr encode_JObj num_head
      simp del: set_simps)

lemma encode_headOk: "encode numText v = Inr t \<Longrightarrow> headOk t"
  using encode_heads [of v t] by (cases v) (auto simp: headOk_def delimiters_def split: if_splits)

lemma entryText_headOk: "entryText numText e = Inr t \<Longrightarrow> headOk t"
  by (cases e) (auto simp: entryText_def bindR_eq_Inr headOk_def stringifyText_def delimiters_def)

lemma same_head: "encode numText v = Inr a \<Longrightarrow> encode numText w = Inr b \<Longrightarrow> a @ r = b @ s \<Longrightarrow>
    heads v \<inter> heads w \<noteq> {}"
  using encode_heads [of v a] encode_heads [of w b] by (metis disjoint_iff hd_append2)

lemma sortEntries_map_snd:
  "sortEntries (map (\<lambda>(k, v). (k, f v)) es) = map (\<lambda>(k, v). (k, f v)) (sortEntries es)"
  unfolding sortEntries_def by (subst sort_by_map) (simp add: split_def)

lemma encode_cancel:
  assumes "encode numText v = Inr a" and "encode numText w = Inr b" and "a @ r = b @ s"
    and "delimited r" and "delimited s"
  shows "normal v = normal w \<and> r = s"
  using assms
proof (induction v arbitrary: w a b r s)
  case JNull
  then show ?case using same_head [OF JNull(1-3)] by (cases w) (auto split: if_splits)
next
  case (JBool x)
  then show ?case using same_head [OF JBool(1-3)] by (cases w) (auto split: if_splits)
next
  case (JStr x)
  then obtain y where w: "w = JStr y" using same_head [OF JStr(1-3)]
    by (cases w) (auto split: if_splits)
  have "x = y \<and> r = s" using JStr w by (intro stringifyText_cancel) simp
  then show ?case using w by simp
next
  case (JNum n)
  then obtain m where w: "w = JNum m" using same_head [OF JNum(1-3)]
    by (cases w) (auto split: if_splits)
  have "numText n = numText m \<and> r = s"
    using JNum w num_body by (intro undelimited_cancel) auto
  then show ?case using w num_inject by auto
next
  case JNonFinite
  then show ?case by simp
next
  case JUnsupported
  then show ?case by simp
next
  case (JArr vs)
  then obtain ws where w: "w = JArr ws" using same_head [OF JArr.prems(1-3)]
    by (cases w) (auto split: if_splits)
  obtain ts us where ts: "list_all2 (\<lambda>v t. encode numText v = Inr t) vs ts" "a = 91 # joinComma ts @ [93]"
    and us: "list_all2 (\<lambda>v t. encode numText v = Inr t) ws us" "b = 91 # joinComma us @ [93]"
    using JArr.prems(1,2) w by (auto simp: bindR_eq_Inr mapR_Inr_iff)
  have "joinComma ts @ 93 # r = joinComma us @ 93 # s" using JArr.prems(3) ts us by simp
  moreover have "(93 :: 16 word) \<in> {93, 125}" by simp
  ultimately have "map normal vs = map normal ws \<and> r = s"
    using joinComma_cancel [OF ts(1) us(1), of 93 r s normal normal] JArr.IH encode_headOk by blast
  then show ?case using w by simp
next
  case (JObj es)
  then obtain fs where w: "w = JObj fs" using same_head [OF JObj.prems(1-3)]
    by (cases w) (auto split: if_splits)
  let ?E = "\<lambda>e t. entryText numText e = Inr t" and ?N = "\<lambda>(k, v). (k, normal v)"
  obtain ts us where ts: "list_all2 ?E (sortEntries es) ts" "a = 123 # joinComma ts @ [125]"
    and us: "list_all2 ?E (sortEntries fs) us" "b = 123 # joinComma us @ [125]"
    using JObj.prems(1,2) w by (auto simp: bindR_eq_Inr mapR_Inr_iff encode_JObj)
  have "joinComma ts @ 125 # r = joinComma us @ 125 # s" using JObj.prems(3) ts us by simp
  moreover have "?N e = ?N f \<and> p = q"
    if e: "e \<in> set (sortEntries es)" "?E e t" "?E f u" "t @ p = u @ q" "delimited p" "delimited q" for e f t u p q
  proof -
    obtain k x l y where kx: "e = (k, x)" "f = (l, y)" by (cases e, cases f)
    obtain t' u' where t': "encode numText x = Inr t'" "t = stringifyText k @ [58] @ t'"
      and u': "encode numText y = Inr u'" "u = stringifyText l @ [58] @ u'"
      using e(2,3) kx by (auto simp: entryText_def bindR_eq_Inr)
    have "k = l \<and> [58] @ t' @ p = [58] @ u' @ q"
      using e(4) t'(2) u'(2) by (intro stringifyText_cancel) simp
    moreover have "normal x = normal y \<and> p = q"
      using JObj.IH [OF _ _ t'(1) u'(1) _ e(5,6), of "(k, x)"] e(1) kx calculation by simp
    ultimately show ?thesis using kx by simp
  qed
  ultimately have "map ?N (sortEntries es) = map ?N (sortEntries fs) \<and> r = s"
    using joinComma_cancel [OF ts(1) us(1), of 125 r s ?N ?N] entryText_headOk by blast
  then show ?case using w by (simp add: sortEntries_map_snd)
qed

lemma encode_normal: "encode numText (normal v) = encode numText v"
proof (induction v)
  case (JArr vs)
  then have "mapR (encode numText) (map normal vs) = mapR (encode numText) vs"
    by (induction vs) auto
  then show ?case by simp
next
  case (JObj es)
  let ?N = "\<lambda>(k, v). (k, normal v)"
  have "mapR (entryText numText) (map ?N xs) = mapR (entryText numText) xs" if "set xs \<subseteq> set es" for xs
    using that JObj by (induction xs) (auto simp: entryText_def)
  then have "mapR (entryText numText) (map ?N (sortEntries es)) = mapR (entryText numText) (sortEntries es)"
    by simp
  moreover have "sortEntries (sortEntries (map ?N es)) = map ?N (sortEntries es)"
    unfolding sortEntries_map_snd [symmetric]
    unfolding sortEntries_def by (rule js_order.sort_by_idem) (rule order_intros)
  ultimately show ?case by (simp add: encode_JObj)
qed auto

lemma canonicalJson_normal:
  "canonicalJson numText v = Inr t \<Longrightarrow> canonicalJson numText w = Inr u \<Longrightarrow> t = u \<longleftrightarrow> normal v = normal w"
  using encode_cancel [of v t w u "[]" "[]"] encode_normal [of v] encode_normal [of w]
  by (auto simp: canonicalJson_def delimited_def)

end

section \<open>Integers as they are printed\<close>

fun decimals :: "nat \<Rightarrow> js_string" where
  "decimals n = (if n < 10 then [of_nat (48 + n)] else decimals (n div 10) @ [of_nat (48 + n mod 10)])"

declare decimals.simps [simp del]

text \<open>\<open>JSON.stringify\<close> of a safe integer.\<close>

definition intText :: "int \<Rightarrow> js_string" where
  "intText n = (if n < 0 then 45 # decimals (nat (- n)) else decimals (nat n))"

definition digitUnits :: "16 word set" where
  "digitUnits = {48, 49, 50, 51, 52, 53, 54, 55, 56, 57}"

lemma digit_unit: "d < 10 \<Longrightarrow> (of_nat (48 + d) :: 16 word) \<in> digitUnits"
proof -
  assume "d < 10"
  then have "d = 0 \<or> d = 1 \<or> d = 2 \<or> d = 3 \<or> d = 4 \<or> d = 5 \<or> d = 6 \<or> d = 7 \<or> d = 8 \<or> d = 9"
    by arith
  then show ?thesis by (elim disjE) (simp_all add: digitUnits_def)
qed

lemma digit_inject:
  assumes "d < 10" and "e < 10" and "(of_nat (48 + d) :: 16 word) = of_nat (48 + e)"
  shows "d = e"
proof -
  have "unat (of_nat (48 + d) :: 16 word) = unat (of_nat (48 + e) :: 16 word)" using assms(3) by simp
  then show ?thesis using assms(1,2) by (simp add: unat_of_nat del: of_nat_add)
qed

lemma decimals_units: "set (decimals n) \<subseteq> digitUnits \<and> decimals n \<noteq> []"
proof (induction n rule: decimals.induct)
  case (1 n)
  then show ?case using digit_unit [of n] digit_unit [of "n mod 10"]
    by (subst decimals.simps, subst (2) decimals.simps) auto
qed

lemma decimals_inject: "decimals m = decimals n \<Longrightarrow> m = n"
proof (induction m arbitrary: n rule: decimals.induct)
  case (1 m)
  have small: "n < 10 \<longleftrightarrow> length (decimals n) = 1" for n
    using decimals_units [of "n div 10"] by (subst decimals.simps) (auto simp: length_0_conv)
  have same: "m < 10 \<longleftrightarrow> n < 10" using 1(2) by (simp add: small)
  show ?case
  proof (cases "m < 10")
    case True
    then show ?thesis using 1(2) same digit_inject [of m n]
      by (simp add: decimals.simps [of m] decimals.simps [of n] del: of_nat_add)
  next
    case False
    then have "decimals (m div 10) = decimals (n div 10)"
      "(of_nat (48 + m mod 10) :: 16 word) = of_nat (48 + n mod 10)"
      using 1(2) same by (simp_all add: decimals.simps [of m] decimals.simps [of n] del: of_nat_add)
    then have "m div 10 = n div 10" "m mod 10 = n mod 10"
      using 1(1) [OF False] digit_inject [of "m mod 10" "n mod 10"] by simp_all
    then show ?thesis by (metis div_mult_mod_eq)
  qed
qed

text \<open>Decimals by binary integers, for evaluation.\<close>

function decimalsOf :: "int \<Rightarrow> js_string" where
  "decimalsOf n = (if n < 10 then [of_int (48 + n)] else decimalsOf (n div 10) @ [of_int (48 + n mod 10)])"
  by pat_completeness auto

termination
  by (relation "measure nat") auto

declare decimalsOf.simps [simp del]

lemma decimalsOf_decimals: "decimalsOf (int n) = decimals n"
proof (induction n rule: decimals.induct)
  case (1 n)
  have unit: "(of_int (48 + int n mod 10) :: 16 word) = of_nat (48 + n mod 10)" "(of_int (48 + int n) :: 16 word) = of_nat (48 + n)"
    by (metis of_int_of_nat_eq of_nat_add of_nat_mod of_nat_numeral)+
  show ?case
  proof (cases "n < 10")
    case True
    then show ?thesis using unit by (simp add: decimals.simps [of n] decimalsOf.simps [of "int n"] del: of_nat_add of_int_add)
  next
    case False
    then have "decimalsOf (int n div 10) = decimals (n div 10)" using 1 by (simp add: of_nat_div)
    then show ?thesis using False unit by (simp add: decimals.simps [of n] decimalsOf.simps [of "int n"] del: of_nat_add of_int_add)
  qed
qed

lemma intText_code [code]: "intText n = (if n < 0 then 45 # decimalsOf (- n) else decimalsOf n)"
  using decimalsOf_decimals [of "nat n"] decimalsOf_decimals [of "nat (- n)"] by (auto simp: intText_def)

interpretation integer_format: number_format intText
proof (unfold_locales)
  fix m n :: int and c
  have minus: "45 \<notin> digitUnits" by (simp add: digitUnits_def)
  have no_minus: "decimals a \<noteq> 45 # bs" for a bs using decimals_units [of a] minus by auto
  show "intText m = intText n \<Longrightarrow> m = n"
    by (auto simp: intText_def no_minus no_minus [symmetric] split: if_splits dest!: decimals_inject)
  show "intText n \<noteq> [] \<and> hd (intText n) \<in> set [45, 48, 49, 50, 51, 52, 53, 54, 55, 56, 57]"
  proof -
    have "hd (decimals (nat n)) \<in> digitUnits"
      using decimals_units [of "nat n"] hd_in_set [of "decimals (nat n)"] by blast
    then show ?thesis using decimals_units [of "nat n"] by (simp add: intText_def digitUnits_def)
  qed
  have "digitUnits \<inter> set delimiters = {}" by (simp add: digitUnits_def delimiters_def)
  then show "c \<in> set (intText n) \<Longrightarrow> c \<notin> set delimiters"
    using decimals_units [of "nat n"] decimals_units [of "nat (- n)"]
    by (auto simp: intText_def delimiters_def split: if_splits)
qed

section \<open>Values the encoder accepts\<close>

fun supported :: "'n json \<Rightarrow> bool" where
  "supported JNonFinite = False"
| "supported JUnsupported = False"
| "supported (JArr vs) = (\<forall>v \<in> set vs. supported v)"
| "supported (JObj es) = (\<forall>(k, v) \<in> set es. supported v)"
| "supported v = True"

lemma supported_append:
  "supported (JObj (es @ fs)) \<longleftrightarrow> supported (JObj es) \<and> supported (JObj fs)"
  by auto

lemma supported_optional [simp]:
  "(\<forall>(k, y) \<in> set (optionalEntry k v). supported y) \<longleftrightarrow> (case v of None \<Rightarrow> True | Some x \<Rightarrow> supported x)"
  by (auto simp: optionalEntry_def split: option.splits)

lemma mapR_ok: "(\<And>x. x \<in> set xs \<Longrightarrow> \<exists>y. f x = Inr y) \<Longrightarrow> \<exists>ys. mapR f xs = Inr ys"
proof (induction xs)
  case (Cons x xs)
  obtain y where "f x = Inr y" using Cons.prems by auto
  moreover obtain ys where "mapR f xs = Inr ys" using Cons by auto
  ultimately show ?case by simp
qed simp

lemma encode_ok: "supported v \<Longrightarrow> \<exists>t. encode numText v = Inr t"
proof (induction v)
  case (JArr vs)
  then obtain ts where "mapR (encode numText) vs = Inr ts" using mapR_ok [of vs "encode numText"] by auto
  then show ?case by simp
next
  case (JObj es)
  have "\<exists>t. entryText numText e = Inr t" if "e \<in> set (sortEntries es)" for e
  proof -
    obtain k v where e: "e = (k, v)" by (cases e)
    then have "(k, v) \<in> set es" using that by simp
    then have "supported v" using JObj.prems by auto
    then obtain t where "encode numText v = Inr t" using JObj.IH [of "(k, v)" v] \<open>(k, v) \<in> set es\<close> by auto
    then show ?thesis by (simp add: e entryText_def)
  qed
  then obtain ts where "mapR (entryText numText) (sortEntries es) = Inr ts" using mapR_ok by blast
  then show ?case by (simp add: encode_JObj)
qed auto

lemma canonicalJson_ok: "supported v \<Longrightarrow> \<exists>t. canonicalJson numText v = Inr t"
  by (simp add: canonicalJson_def encode_ok)

lemma mapR_canonicalJson_ok:
  "(\<And>v. v \<in> set vs \<Longrightarrow> supported v) \<Longrightarrow> \<exists>ts. mapR (canonicalJson numText) vs = Inr ts"
  by (rule mapR_ok) (simp add: canonicalJson_ok)

context number_format
begin

text \<open>Texts and normalized values carry the same multiset information.\<close>

lemma mset_texts:
  assumes "mapR (canonicalJson numText) xs = Inr ts" and "mapR (canonicalJson numText) ys = Inr us"
  shows "mset ts = mset us \<longleftrightarrow> mset (map normal xs) = mset (map normal ys)"
proof -
  define tx where "tx v = (case canonicalJson numText v of Inr t \<Rightarrow> t | Inl e \<Rightarrow> [])" for v
  have ok: "canonicalJson numText v = Inr (tx v)" if "v \<in> set xs \<union> set ys" for v
    using that assms unfolding mapR_Inr_iff tx_def by (auto simp: in_set_conv_nth dest: list_all2_nthD)
  have "ts = map tx xs" "us = map tx ys"
    using assms unfolding mapR_Inr_iff tx_def by (auto simp: list_all2_conv_all_nth intro: nth_equalityI)
  moreover have tx_normal: "tx (normal v) = tx v" for v
    by (simp add: tx_def canonicalJson_def encode_normal)
  have inj: "normal v = normal w" if "v \<in> set xs" "w \<in> set ys" "tx (normal v) = tx (normal w)" for v w
    using canonicalJson_normal [OF ok ok, of v w] that tx_normal by auto
  have "image_mset tx (mset (map normal xs)) = image_mset tx (mset (map normal ys)) \<longleftrightarrow>
      mset (map normal xs) = mset (map normal ys)"
  proof
    assume "image_mset tx (mset (map normal xs)) = image_mset tx (mset (map normal ys))"
    then show "mset (map normal xs) = mset (map normal ys)"
      by (rule multiset.inj_map_strong [rotated]) (use inj in auto)
  qed simp
  then have "mset (map tx (map normal xs)) = mset (map tx (map normal ys)) \<longleftrightarrow>
      mset (map normal xs) = mset (map normal ys)"
    unfolding mset_map [symmetric] .
  moreover have "map tx (map normal vs) = map tx vs" for vs by (simp add: tx_normal)
  ultimately show ?thesis by (simp only:)
qed

end

section \<open>Properties\<close>

text \<open>
  C28. Canonical JSON is a canonical form: two values are written alike exactly when they are
  equal up to the order of object keys.  Quoting, separators and nesting never confuse two
  different values.
\<close>

theorem canonicalJson_identifies:
  assumes "number_format numText"
    and "canonicalJson numText v = Inr t" and "canonicalJson numText w = Inr u"
  shows "t = u \<longleftrightarrow> normal v = normal w"
  using number_format.canonicalJson_normal [OF assms] .

lemma canonicalJson_identifies_witness:
  "\<exists>t u. canonicalJson intText (JObj [(js ''a'', JNum 1), (js ''b'', JStr (js ''x''))]) = Inr t \<and>
     canonicalJson intText (JObj [(js ''b'', JStr (js ''x'')), (js ''a'', JNum 1)]) = Inr u \<and> t = u"
proof -
  let ?v = "JObj [(js ''a'', JNum (1 :: int)), (js ''b'', JStr (js ''x''))]"
  let ?w = "JObj [(js ''b'', JStr (js ''x'')), (js ''a'', JNum (1 :: int))]"
  obtain t u where tu: "canonicalJson intText ?v = Inr t" "canonicalJson intText ?w = Inr u"
    using canonicalJson_ok [of ?v intText] canonicalJson_ok [of ?w intText] by auto
  have "normal ?v = normal ?w" by code_simp
  then show ?thesis using canonicalJson_identifies [OF integer_format.number_format_axioms tu] tu by blast
qed

text \<open>
  The digest of an input set depends on exactly the multiset of its members: whatever
  digest function is used, two lists hash alike if their members are the same up to order
  and key order, and the texts that are digested differ otherwise.
\<close>

theorem canonicalInputSetHash_multiset:
  assumes "number_format numText" and "\<forall>v \<in> set xs \<union> set ys. supported v"
  shows "(\<forall>sha. canonicalInputSetHash sha numText xs = canonicalInputSetHash sha numText ys) \<longleftrightarrow>
    mset (map normal xs) = mset (map normal ys)"
proof -
  obtain ts us where ts: "mapR (canonicalJson numText) xs = Inr ts" "mapR (canonicalJson numText) ys = Inr us"
    using mapR_canonicalJson_ok assms(2) by (metis UnCI)
  let ?v = "\<lambda>ts. JArr (map JStr (sort_by compareText ts)) :: 'a json"
  have hash: "canonicalInputSetHash sha numText xs = canonicalSha256 sha numText (?v ts)"
    "canonicalInputSetHash sha numText ys = canonicalSha256 sha numText (?v us)" for sha
    using ts by (simp_all add: canonicalInputSetHash_def)
  obtain a b where ab: "canonicalJson numText (?v ts) = Inr a" "canonicalJson numText (?v us) = Inr b"
    using canonicalJson_ok [of "?v ts" numText] canonicalJson_ok [of "?v us" numText] by auto
  have norm: "normal (?v ts) = ?v ts" for ts by (simp add: comp_def)
  have "(\<forall>sha. canonicalInputSetHash sha numText xs = canonicalInputSetHash sha numText ys) \<longleftrightarrow> a = b"
    using ab by (auto simp: hash canonicalSha256_def dest: spec [of _ "\<lambda>x. x"])
  also have "\<dots> \<longleftrightarrow> ?v ts = ?v us"
    using number_format.canonicalJson_normal [OF assms(1) ab] unfolding norm .
  also have "\<dots> \<longleftrightarrow> mset ts = mset us"
    using text_order.sort_by_canonical [of ts us] by (simp add: inj_map_eq_map inj_def)
  also have "\<dots> \<longleftrightarrow> mset (map normal xs) = mset (map normal ys)"
    by (rule number_format.mset_texts [OF assms(1) ts])
  finally show ?thesis .
qed

lemma canonicalInputSetHash_multiset_witness:
  "\<forall>sha. canonicalInputSetHash sha intText [JNum 1, JStr (js ''x'')] =
   canonicalInputSetHash sha intText [JStr (js ''x''), JNum 1]"
  using canonicalInputSetHash_multiset [OF integer_format.number_format_axioms,
    of "[JNum 1, JStr (js ''x'')]" "[JStr (js ''x''), JNum 1]"] by (simp add: add_mset_commute)

text \<open>Objects with one normal form agree on every key.\<close>

definition valuesAt :: "js_string \<Rightarrow> (js_string \<times> 'n json) list \<Rightarrow> 'n json list" where
  "valuesAt k es = map (\<lambda>e. normal (snd e)) (filter (\<lambda>e. fst e = k) es)"

lemma valuesAt_simps [simp]:
  "valuesAt k [] = []"
  "valuesAt k ((l, v) # es) = (if l = k then normal v # valuesAt k es else valuesAt k es)"
  by (simp_all add: valuesAt_def)

lemma valuesAt_append [simp]: "valuesAt k (es @ fs) = valuesAt k es @ valuesAt k fs"
  by (simp add: valuesAt_def)

lemma normal_valuesAt:
  assumes "normal (JObj es) = normal (JObj fs)"
  shows "valuesAt k es = valuesAt k fs"
proof -
  let ?N = "\<lambda>(k, v). (k, normal v)"
  have stable: "filter (\<lambda>e. fst e = k) (sortEntries xs) = filter (\<lambda>e. fst e = k) xs" for xs :: "(js_string \<times> 'a json) list"
  proof -
    have "js_order (\<lambda>(l :: js_string \<times> 'a json) r. compareText (fst l) (fst r))" by (rule order_intros)
    note st = js_order.sort_by_stable [OF this, of "(k, JNull)" xs]
    have "(\<lambda>y. compareText (fst (k, JNull)) (fst y) = 0) = (\<lambda>e :: js_string \<times> 'a json. fst e = k)"
      by (auto simp: text_order.cmp_zero_iff)
    with st show ?thesis by (simp add: sortEntries_def)
  qed
  have at_key: "valuesAt k xs = map snd (filter (\<lambda>e. fst e = k) (map ?N xs))" for xs
    by (induction xs) auto
  have "sortEntries (map ?N es) = sortEntries (map ?N fs)" using assms by simp
  then show ?thesis unfolding at_key using stable [of "map ?N es"] stable [of "map ?N fs"] by simp
qed

text \<open>What of a request counts: versions of the subject, interval and space do not.\<close>

definition semanticFields :: "semantic_request \<Rightarrow> (logical_reference \<times> logical_reference \<times> phase_scope \<times>
    source_selection \<times> versioned_reference \<times> logical_reference option)" where
  "semanticFields r = (logicalReferenceKey (subjectReferenceKey r),
     logicalReferenceKey (executionIntervalReferenceKey r), requestPhaseScope r,
     requestSourceSelection r, sourceSelectionProfileReferenceKey r,
     map_option logicalReferenceKey (analysisSpaceReferenceKey r))"

lemma referenceJson_inject:
  assumes "normal (referenceJson k) = normal (referenceJson l)"
  shows "k = l"
  using assms [unfolded referenceJson_def, THEN normal_valuesAt, of "js ''namespace''"]
    assms [unfolded referenceJson_def, THEN normal_valuesAt, of "js ''kind''"]
    assms [unfolded referenceJson_def, THEN normal_valuesAt, of "js ''id''"]
  by (simp add: js_def)

lemma versionedReferenceJson_inject:
  assumes "normal (versionedReferenceJson k) = normal (versionedReferenceJson l)"
  shows "k = l"
  using assms [unfolded versionedReferenceJson_def, THEN normal_valuesAt, of "js ''namespace''"]
    assms [unfolded versionedReferenceJson_def, THEN normal_valuesAt, of "js ''kind''"]
    assms [unfolded versionedReferenceJson_def, THEN normal_valuesAt, of "js ''id''"]
    assms [unfolded versionedReferenceJson_def, THEN normal_valuesAt, of "js ''version''"]
  by (simp add: js_def)

lemma canonicalSourceSelection_obj:
  "canonicalSourceSelection s = JObj (case s of
     ONLY_CANDIDATE \<Rightarrow> [(js ''mode'', JStr (js ''ONLY_CANDIDATE''))]
   | EXPLICIT_SOURCE key session \<Rightarrow> [(js ''mode'', JStr (js ''EXPLICIT_SOURCE'')), (js ''sourceKey'', JStr key)] @
       (case session of None \<Rightarrow> [] | Some s \<Rightarrow> [(js ''trackerSessionKey'', JStr s)]))"
  by (cases s) simp_all

lemma canonicalSourceSelection_inject:
  assumes "normal (canonicalSourceSelection s) = normal (canonicalSourceSelection s')"
  shows "s = s'"
  using assms [unfolded canonicalSourceSelection_obj, THEN normal_valuesAt, of "js ''sourceKey''"]
    assms [unfolded canonicalSourceSelection_obj, THEN normal_valuesAt, of "js ''trackerSessionKey''"]
  by (cases s; cases s') (simp_all add: js_def split: option.splits)

lemma scopeText_inject: "scopeText s = scopeText s' \<Longrightarrow> s = s'"
  by (cases s; cases s') (simp_all add: js_def)

lemma identity_inject:
  assumes "normal (historicalSemanticRequestIdentity r) = normal (historicalSemanticRequestIdentity r')"
  shows "semanticFields r = semanticFields r'"
proof -
  note at = assms [unfolded historicalSemanticRequestIdentity_def, THEN normal_valuesAt]
  have 1: "subjectReferenceKey r = k \<Longrightarrow> logicalReferenceKey k = logicalReferenceKey (subjectReferenceKey r')" for k
    using at [of "js ''subjectReferenceKey''"]
    by (cases "analysisSpaceReferenceKey r"; cases "analysisSpaceReferenceKey r'")
      (simp_all add: js_def referenceJson_inject)
  have 2: "logicalReferenceKey (executionIntervalReferenceKey r) = logicalReferenceKey (executionIntervalReferenceKey r')"
    using at [of "js ''executionIntervalReferenceKey''"]
    by (cases "analysisSpaceReferenceKey r"; cases "analysisSpaceReferenceKey r'")
      (simp_all add: js_def referenceJson_inject)
  have 3: "requestPhaseScope r = requestPhaseScope r'"
    using at [of "js ''phaseScope''"]
    by (cases "analysisSpaceReferenceKey r"; cases "analysisSpaceReferenceKey r'")
      (simp_all add: js_def scopeText_inject)
  have 4: "requestSourceSelection r = requestSourceSelection r'"
    using at [of "js ''sourceSelection''"]
    by (cases "analysisSpaceReferenceKey r"; cases "analysisSpaceReferenceKey r'")
      (simp_all add: js_def canonicalSourceSelection_inject)
  have 5: "sourceSelectionProfileReferenceKey r = sourceSelectionProfileReferenceKey r'"
    using at [of "js ''sourceSelectionProfileReferenceKey''"]
    by (cases "analysisSpaceReferenceKey r"; cases "analysisSpaceReferenceKey r'")
      (simp_all add: js_def versionedReferenceJson_inject)
  have 6: "map_option logicalReferenceKey (analysisSpaceReferenceKey r) =
      map_option logicalReferenceKey (analysisSpaceReferenceKey r')"
    using at [of "js ''analysisSpaceReferenceKey''"]
    by (cases "analysisSpaceReferenceKey r"; cases "analysisSpaceReferenceKey r'")
      (simp_all add: js_def referenceJson_inject)
  show ?thesis using 1 2 3 4 5 6 by (simp add: semanticFields_def)
qed

text \<open>
  C34. The hash of a historical request is the hash of its logical identity: two requests
  hash alike, whatever the digest function, exactly when they agree on the logical subject,
  interval and analysis space, the phase scope, the source selection and the pinned method
  profile.  The version pins of subject, interval and space and the presentation limit never
  matter, and nothing else is dropped.
\<close>

theorem request_hash_is_logical_identity:
  assumes "number_format (numText :: 'n \<Rightarrow> js_string)"
  shows "(\<forall>sha. historicalSemanticRequestHash sha numText r = historicalSemanticRequestHash sha numText r') \<longleftrightarrow>
    semanticFields r = semanticFields r'"
proof
  let ?i = "\<lambda>r. historicalSemanticRequestIdentity r :: 'n json"
  have ok: "supported (?i r)" for r
    by (auto simp: historicalSemanticRequestIdentity_def referenceJson_def versionedReferenceJson_def
        canonicalSourceSelection_obj split: option.splits source_selection.splits)
  obtain t u where tu: "canonicalJson numText (?i r) = Inr t" "canonicalJson numText (?i r') = Inr u"
    using canonicalJson_ok [OF ok, of numText] by metis
  assume "\<forall>sha. historicalSemanticRequestHash sha numText r = historicalSemanticRequestHash sha numText r'"
  then have "t = u" using tu
    by (auto simp: historicalSemanticRequestHash_def canonicalSha256_def dest: spec [of _ "\<lambda>x. x"])
  then show "semanticFields r = semanticFields r'"
    using number_format.canonicalJson_normal [OF assms tu] by (intro identity_inject) simp
next
  assume "semanticFields r = semanticFields r'"
  then have "historicalSemanticRequestIdentity r = (historicalSemanticRequestIdentity r' :: 'n json)"
    by (cases "analysisSpaceReferenceKey r"; cases "analysisSpaceReferenceKey r'")
      (auto simp: semanticFields_def historicalSemanticRequestIdentity_def)
  then show "\<forall>sha. historicalSemanticRequestHash sha numText r = historicalSemanticRequestHash sha numText r'"
    by (simp add: historicalSemanticRequestHash_def)
qed

definition sampleReference :: "string \<Rightarrow> string \<Rightarrow> versioned_reference" where
  "sampleReference i v = \<lparr>refNamespace = js ''gowm'', refKind = js ''TASK_EXECUTION_INTERVAL'',
     refId = js i, refVersion = js v\<rparr>"

definition sampleRequest :: "string \<Rightarrow> int option \<Rightarrow> semantic_request" where
  "sampleRequest v points = \<lparr>subjectReferenceKey = sampleReference ''s'' v,
     executionIntervalReferenceKey = sampleReference ''i'' v, requestPhaseScope = EXECUTION_ENVELOPE,
     requestSourceSelection = ONLY_CANDIDATE,
     sourceSelectionProfileReferenceKey = sampleReference ''p'' ''1'',
     analysisSpaceReferenceKey = Some (sampleReference ''a'' v), maximumInlinePoints = points\<rparr>"

lemma request_hash_is_logical_identity_witness:
  "\<forall>sha. historicalSemanticRequestHash sha intText (sampleRequest ''1'' None) =
     historicalSemanticRequestHash sha intText (sampleRequest ''2'' (Some 100))"
  using request_hash_is_logical_identity [OF integer_format.number_format_axioms]
  by (simp add: semanticFields_def sampleRequest_def sampleReference_def logicalReferenceKey_def)

end
