(* ===== verification/IntervalReconstruct.thy ===== *)
theory IntervalReconstruct
  imports IntervalMachine CanonicalJson
begin

text \<open>
  \<open>packages/historical-trace-core/src/interval-reconstruction.ts\<close>: validation and the mandated
  order of events, reconstruction of executions with their digests, and the append/reuse plan
  against the revisions already stored.

  The digest of a text (\<open>sha\<close>), the text of a number (\<open>numText\<close>) and
  \<open>Date.prototype.toISOString\<close> (\<open>isoOf\<close>) are parameters.
\<close>

section \<open>Validation and order\<close>

definition isSha256Digest :: "js_string \<Rightarrow> bool" where
  "isSha256Digest s \<longleftrightarrow> length s = 71 \<and> take 7 s = js ''sha256:'' \<and>
     list_all (\<lambda>u. (48 \<le> u \<and> u \<le> 57) \<or> (97 \<le> u \<and> u \<le> 102)) (drop 7 s)"

definition validateEvent :: "interval_event \<Rightarrow> trace_error + unit" where
  "validateEvent event =
     bindR (millis (eventTime event)) (\<lambda>_.
     bindR (millis (receivedTime event)) (\<lambda>_.
     bindR (ensureR (isSafeInteger (sourceRevisionNo event) \<and> 1 \<le> sourceRevisionNo event)
              (InvalidSourceRevisionNo (eventId event))) (\<lambda>_.
     bindR (ensureR (isSha256Digest (eventContentHash event))
              (InvalidEventContentHash (eventId event))) (\<lambda>_.
     ensureR (case eventConfidence event of None \<Rightarrow> True | Some c \<Rightarrow> 0 \<le> c \<and> c \<le> 1)
       (InvalidConfidence (eventId event))))))"

definition compareTaskIntervalEvents :: "interval_event \<Rightarrow> interval_event \<Rightarrow> trace_error + int" where
  "compareTaskIntervalEvents left right =
     bindR (millis (eventTime left)) (\<lambda>le. bindR (millis (eventTime right)) (\<lambda>re.
     if le - re \<noteq> 0 then Inr (le - re) else
     bindR (millis (receivedTime left)) (\<lambda>lr. bindR (millis (receivedTime right)) (\<lambda>rr.
     Inr (orElse (lr - rr)
         (orElse (compareText (sourceAuthority left) (sourceAuthority right))
         (orElse (compareText (sourceEventKey left) (sourceEventKey right))
         (orElse (sourceRevisionNo left - sourceRevisionNo right)
           (compareText (eventId left) (eventId right))))))))))"

text \<open>The comparator on validated events, which have both timestamps.\<close>

definition eventOrder :: "interval_event \<Rightarrow> interval_event \<Rightarrow> int" where
  "eventOrder left right =
     orElse (stampMs (eventTime left) - stampMs (eventTime right))
    (orElse (stampMs (receivedTime left) - stampMs (receivedTime right))
    (orElse (compareText (sourceAuthority left) (sourceAuthority right))
    (orElse (compareText (sourceEventKey left) (sourceEventKey right))
    (orElse (sourceRevisionNo left - sourceRevisionNo right)
      (compareText (eventId left) (eventId right))))))"

definition noteEventId :: "js_string list \<Rightarrow> interval_event \<Rightarrow> trace_error + js_string list" where
  "noteEventId seen event =
     bindR (ensureR (eventId event \<notin> set seen) (DuplicateEventId (eventId event))) (\<lambda>_.
       Inr (eventId event # seen))"

definition orderTaskIntervalEvents :: "interval_event list \<Rightarrow> trace_error + interval_event list" where
  "orderTaskIntervalEvents events =
     bindR (foldR (\<lambda>_ event. validateEvent event) () events) (\<lambda>_.
     bindR (foldR noteEventId [] events) (\<lambda>_.
     Inr (sort_by eventOrder events)))"

section \<open>Reconstruction\<close>

datatype reconstruction_error = TraceError trace_error | JsonError json_error

definition eventInput :: "interval_event \<Rightarrow> 'n json" where
  "eventInput event = JObj [(js ''eventId'', JStr (eventId event)),
     (js ''eventContentHash'', JStr (eventContentHash event))]"

fun lifecycleText :: "lifecycle_state \<Rightarrow> js_string" where
  "lifecycleText OPEN = js ''OPEN''"
| "lifecycleText CLOSED = js ''CLOSED''"
| "lifecycleText LIFECYCLE_CONFLICTED = js ''CONFLICTED''"

fun derivationText :: "derivation_kind \<Rightarrow> js_string" where
  "derivationText OBSERVED = js ''OBSERVED''"
| "derivationText INFERRED = js ''INFERRED''"
| "derivationText MIXED = js ''MIXED''"

fun stabilityText :: "stability_state \<Rightarrow> js_string" where
  "stabilityText PROVISIONAL = js ''PROVISIONAL''"
| "stabilityText SEALED = js ''SEALED''"
| "stabilityText STABILITY_CONFLICTED = js ''CONFLICTED''"

fun phaseKindText :: "phase_kind \<Rightarrow> js_string" where
  "phaseKindText RUNNING = js ''RUNNING''"
| "phaseKindText PAUSED = js ''PAUSED''"
| "phaseKindText UNKNOWN_PHASE = js ''UNKNOWN''"

definition stampJson :: "(int \<Rightarrow> js_string) \<Rightarrow> stamp \<Rightarrow> 'n json" where
  "stampJson isoOf s = JStr (isoOf (stampMs s))"

definition reasonsJson :: "reason_code list \<Rightarrow> 'n json" where
  "reasonsJson rs = JArr (map (\<lambda>r. JStr (reasonText r)) rs)"

definition phaseJson :: "(int \<Rightarrow> js_string) \<Rightarrow> execution_phase \<Rightarrow> rat json" where
  "phaseJson isoOf p = JObj
     ([(js ''phaseNo'', JNum (of_nat (phaseNo p))), (js ''phaseKind'', JStr (phaseKindText (phaseKind p))),
       (js ''reasonCodes'', reasonsJson (phaseReasonCodes p))] @
      optionalEntry ''start'' (map_option (stampJson isoOf) (phaseStart p)) @
      optionalEntry ''end'' (map_option (stampJson isoOf) (phaseEnd p)) @
      optionalEntry ''startEventId'' (map_option JStr (phaseStartEventId p)) @
      optionalEntry ''endEventId'' (map_option JStr (phaseEndEventId p)) @
      optionalEntry ''confidence'' (map_option JNum (phaseConfidence p)))"

definition executionJson ::
  "(int \<Rightarrow> js_string) \<Rightarrow> method_profile \<Rightarrow> interval_draft \<Rightarrow> js_string \<Rightarrow> rat json" where
  "executionJson isoOf profile d setHash = JObj
     ([(js ''executionNo'', JNum (of_nat (executionNo d))),
       (js ''lifecycleState'', JStr (lifecycleText (lifecycleState d))),
       (js ''derivationKind'', JStr (derivationText (derivationKind d))),
       (js ''stabilityState'', JStr (stabilityText (stabilityState d)))] @
      optionalEntry ''start'' (map_option (stampJson isoOf) (draftStart d)) @
      optionalEntry ''end'' (map_option (stampJson isoOf) (draftEnd d)) @
      optionalEntry ''startEventId'' (map_option JStr (startEventId d)) @
      optionalEntry ''terminalEventId'' (map_option JStr (terminalEventId d)) @
      [(js ''phases'', JArr (map (phaseJson isoOf) (draftPhases d)))] @
      optionalEntry ''confidence'' (map_option JNum (draftConfidence d)) @
      [(js ''reasonCodes'', reasonsJson (draftReasonCodes d)),
       (js ''inputEventSetHash'', JStr setHash),
       (js ''profile'', JObj [(js ''key'', JStr (profileKey profile)),
          (js ''version'', JNum (of_int (profileVersion profile))),
          (js ''hash'', JStr (profileHash profile))])])"

definition hashExecution ::
  "(js_string \<Rightarrow> js_string) \<Rightarrow> (rat \<Rightarrow> js_string) \<Rightarrow> (int \<Rightarrow> js_string) \<Rightarrow> method_profile \<Rightarrow>
     interval_draft \<Rightarrow> json_error + reconstructed_interval" where
  "hashExecution sha numText isoOf profile draft =
     bindR (canonicalInputSetHash sha numText (map eventInput (inputEvents draft))) (\<lambda>setHash.
     bindR (canonicalSha256 sha numText (executionJson isoOf profile draft setHash)) (\<lambda>hash.
     Inr \<lparr>reconDraft = draft, inputEventSetHash = setHash, contentHash = hash\<rparr>))"

definition reconstructTaskExecutionIntervals ::
  "(js_string \<Rightarrow> js_string) \<Rightarrow> (rat \<Rightarrow> js_string) \<Rightarrow> (int \<Rightarrow> js_string) \<Rightarrow> interval_event list \<Rightarrow>
     method_profile \<Rightarrow> reconstruction_error + reconstruction_result" where
  "reconstructTaskExecutionIntervals sha numText isoOf events profile =
     bindR (map_sum TraceError id (orderTaskIntervalEvents events)) (\<lambda>ordered.
     bindR (map_sum TraceError id (runTaskIntervalStateMachine ordered profile)) (\<lambda>machine.
     bindR (map_sum JsonError id (mapR (hashExecution sha numText isoOf profile) (executions machine))) (\<lambda>execs.
     bindR (map_sum JsonError id (canonicalInputSetHash sha numText (map eventInput ordered))) (\<lambda>setHash.
     Inr \<lparr>orderedEvents = ordered, reconExecutions = execs,
          reconOrphans = orphanEvents machine, reconInputSetHash = setHash\<rparr>))))"

section \<open>The revision plan\<close>

definition keepLatest ::
  "(nat \<rightharpoonup> existing_revision) \<Rightarrow> existing_revision \<Rightarrow> (nat \<rightharpoonup> existing_revision)" where
  "keepLatest m revision =
     (case m (revExecutionNo revision) of
        None \<Rightarrow> m(revExecutionNo revision \<mapsto> revision)
      | Some prior \<Rightarrow> if revRevisionNo revision > revRevisionNo prior
          then m(revExecutionNo revision \<mapsto> revision) else m)"

definition existingByExecution :: "existing_revision list \<Rightarrow> (nat \<rightharpoonup> existing_revision)" where
  "existingByExecution existing = foldl keepLatest Map.empty existing"

definition planInterval :: "(nat \<rightharpoonup> existing_revision) \<Rightarrow> reconstructed_interval \<Rightarrow> revision_plan" where
  "planInterval prior interval =
     (case prior (executionNo (reconDraft interval)) of
        Some p \<Rightarrow> if revContentHash p = contentHash interval
          then REUSE (executionNo (reconDraft interval)) (revRevisionNo p) (intervalRevisionId p) interval
          else APPEND (executionNo (reconDraft interval)) (revRevisionNo p + 1)
                 (Some (intervalRevisionId p)) interval
      | None \<Rightarrow> APPEND (executionNo (reconDraft interval)) 1 None interval)"

definition planTaskIntervalRevisions ::
  "reconstructed_interval list \<Rightarrow> existing_revision list \<Rightarrow> revision_plan list" where
  "planTaskIntervalRevisions reconstructed existing =
     map (planInterval (existingByExecution existing)) reconstructed"

section \<open>The order is total and separates events\<close>

lemma eventOrder_order: "js_order eventOrder"
  unfolding eventOrder_def by (intro order_intros)

interpretation event_order: js_order eventOrder
  by (rule eventOrder_order)

lemma eventOrder_zero: "eventOrder x y = 0 \<Longrightarrow> eventId x = eventId y"
  by (simp add: eventOrder_def orElse_zero text_order.cmp_zero_iff)

definition validEvent :: "interval_event \<Rightarrow> bool" where
  "validEvent e \<longleftrightarrow> eventTime e \<noteq> BadStamp \<and> receivedTime e \<noteq> BadStamp \<and>
     isSafeInteger (sourceRevisionNo e) \<and> 1 \<le> sourceRevisionNo e \<and> isSha256Digest (eventContentHash e) \<and>
     (case eventConfidence e of None \<Rightarrow> True | Some c \<Rightarrow> 0 \<le> c \<and> c \<le> 1)"

lemma not_BadStamp: "s \<noteq> BadStamp \<longleftrightarrow> (\<exists>m. s = At m)"
  by (cases s) auto

lemma validateEvent_ok: "validateEvent e = Inr () \<longleftrightarrow> validEvent e"
  by (auto simp: validateEvent_def validEvent_def bindR_eq_Inr not_BadStamp)

lemma compareTaskIntervalEvents_valid:
  "validEvent x \<Longrightarrow> validEvent y \<Longrightarrow> compareTaskIntervalEvents x y = Inr (eventOrder x y)"
  by (auto simp: validEvent_def not_BadStamp compareTaskIntervalEvents_def eventOrder_def orElse_def)

lemma validate_all: "foldR (\<lambda>_ e. validateEvent e) () es = Inr () \<longleftrightarrow> (\<forall>e \<in> set es. validEvent e)"
  by (induction es) (auto simp: bindR_eq_Inr validateEvent_ok)

lemma note_all: "(\<exists>s. foldR noteEventId seen es = Inr s) \<longleftrightarrow>
    distinct (map eventId es) \<and> set (map eventId es) \<inter> set seen = {}"
proof (induction es arbitrary: seen)
  case (Cons e es)
  show ?case
  proof (cases "eventId e \<in> set seen")
    case True
    then show ?thesis by (simp add: noteEventId_def)
  next
    case False
    then have "foldR noteEventId seen (e # es) = foldR noteEventId (eventId e # seen) es"
      by (simp add: noteEventId_def)
    then show ?thesis using False Cons [of "eventId e # seen"] by auto
  qed
qed simp

definition acceptable :: "interval_event list \<Rightarrow> bool" where
  "acceptable events \<longleftrightarrow> (\<forall>e \<in> set events. validEvent e) \<and> distinct (map eventId events)"

lemma orderTaskIntervalEvents_iff:
  "orderTaskIntervalEvents events = Inr es \<longleftrightarrow> acceptable events \<and> es = sort_by eventOrder events"
  using validate_all [of events] note_all [of "[]" events]
  by (auto simp: orderTaskIntervalEvents_def bindR_eq_Inr acceptable_def)

lemma acceptable_perm: "mset xs = mset ys \<Longrightarrow> acceptable xs \<longleftrightarrow> acceptable ys"
  using distinct_map_perm [of xs ys eventId] mset_eq_setD [of xs ys] by (simp add: acceptable_def)

lemma acceptable_sorted:
  assumes "acceptable events"
  shows "orderedInput (sort_by eventOrder events)"
proof -
  let ?es = "sort_by eventOrder events"
  have sw: "sorted_wrt (\<lambda>x y. eventOrder x y \<le> 0) ?es"
    using event_order.sorted_sort_by [of events] by (simp add: sorted_by_def)
  have time: "eventOrder x y \<le> 0 \<Longrightarrow> timeOf x \<le> timeOf y" for x y
    by (auto simp: eventOrder_def timeOf_def orElse_def split: if_splits)
  have "sorted (map timeOf ?es)"
    using sorted_wrt_mono_rel [OF _ sw, of "\<lambda>x y. timeOf x \<le> timeOf y"] time by (simp add: sorted_map)
  moreover have "distinct (map eventId ?es)"
    using assms distinct_map_perm [of ?es events eventId] by (simp add: acceptable_def)
  ultimately show ?thesis using assms by (simp add: orderedInput_def acceptable_def validEvent_def)
qed

lemma order_perm:
  assumes "mset xs = mset ys" and "acceptable xs"
  shows "sort_by eventOrder xs = sort_by eventOrder ys"
proof (rule event_order.sort_by_perm [OF assms(1)])
  fix x y assume xy: "x \<in> set xs" "y \<in> set xs" "eventOrder x y = 0"
  have "inj_on eventId (set xs)" using assms(2) by (simp add: acceptable_def distinct_map)
  then show "x = y" using xy eventOrder_zero [of x y] by (auto dest: inj_onD)
qed

text \<open>
  Events are accepted exactly when each is well formed (timestamps, revision number,
  content digest, confidence) and no event id repeats; the result is then the mandated order
  of the same events: a permutation, sorted by the comparator, which the comparator's tie
  breaks make unique, so the order of arrival never matters.
\<close>

theorem orderTaskIntervalEvents_exact:
  "(orderTaskIntervalEvents events = Inr es) \<longleftrightarrow>
     acceptable events \<and> mset es = mset events \<and> sorted_by eventOrder es"
proof -
  have "es = sort_by eventOrder events" if "acceptable events" "mset es = mset events" "sorted_by eventOrder es"
    using event_order.sort_by_sorted [OF that(3)] order_perm [OF that(2) [symmetric] that(1)] by simp
  then show ?thesis unfolding orderTaskIntervalEvents_iff
    using event_order.sorted_sort_by [of events] by auto
qed

lemma executionJson_supported: "supported (executionJson isoOf profile d h)"
proof -
  have "supported (phaseJson isoOf p)" for p
    unfolding phaseJson_def supported_append
    by (simp add: stampJson_def reasonsJson_def split: option.splits)
  then show ?thesis unfolding executionJson_def supported_append
    by (simp add: stampJson_def reasonsJson_def split: option.splits)
qed

lemma inputSetHash_ok:
  assumes "\<forall>v \<in> set vs. supported v"
  shows "\<exists>h. canonicalInputSetHash sha numText vs = Inr h"
proof -
  obtain ts where "mapR (canonicalJson numText) vs = Inr ts" using mapR_canonicalJson_ok assms by blast
  moreover have "\<exists>t. canonicalJson numText (JArr (map JStr (sort_by compareText ts)) :: 'a json) = Inr t"
    by (rule canonicalJson_ok) simp
  ultimately show ?thesis by (auto simp: canonicalInputSetHash_def canonicalSha256_def)
qed

lemma hashExecution_ok: "\<exists>r. hashExecution sha numText isoOf profile d = Inr r \<and> reconDraft r = d"
proof -
  obtain h where h: "canonicalInputSetHash sha numText (map eventInput (inputEvents d)) = Inr h"
    using inputSetHash_ok [of "map eventInput (inputEvents d)"] by (auto simp: eventInput_def)
  obtain t where "canonicalJson numText (executionJson isoOf profile d h) = Inr t"
    using canonicalJson_ok [OF executionJson_supported] by blast
  then show ?thesis using h by (simp add: hashExecution_def canonicalSha256_def)
qed

lemma hashExecutions_ok:
  "\<exists>rs. mapR (hashExecution sha numText isoOf profile) ds = Inr rs \<and> map reconDraft rs = ds"
proof (induction ds)
  case (Cons d ds)
  then show ?case using hashExecution_ok [of sha numText isoOf profile d] by auto
qed simp

text \<open>
  C27. Reconstruction succeeds on every acceptable history, however its events arrive, and
  returns for all arrival orders one and the same result: the same executions with the same
  input-set and content digests, whose drafts conserve the events.
\<close>

theorem reconstruction_is_order_independent:
  assumes "acceptable events"
  shows "\<exists>r. (\<forall>arrival. mset arrival = mset events \<longrightarrow>
        reconstructTaskExecutionIntervals sha numText isoOf arrival profile = Inr r) \<and>
     mset (orderedEvents r) = mset events \<and>
     mset (concat (map (\<lambda>x. inputEvents (reconDraft x)) (reconExecutions r))) + mset (reconOrphans r) = mset events"
proof -
  let ?es = "sort_by eventOrder events"
  obtain m where m: "runTaskIntervalStateMachine ?es profile = Inr m"
      "mset (concat (map inputEvents (executions m))) + mset (orphanEvents m) = mset events"
    using run_machine [OF acceptable_sorted [OF assms], of profile]
    by (auto simp: recordedEvents_def comp_def)
  obtain rs where rs: "mapR (hashExecution sha numText isoOf profile) (executions m) = Inr rs"
      "map reconDraft rs = executions m" using hashExecutions_ok by blast
  obtain h where h: "canonicalInputSetHash sha numText (map eventInput ?es) = Inr h"
    using inputSetHash_ok [of "map eventInput ?es"] by (auto simp: eventInput_def)
  let ?r = "\<lparr>orderedEvents = ?es, reconExecutions = rs, reconOrphans = orphanEvents m, reconInputSetHash = h\<rparr>"
  have "reconstructTaskExecutionIntervals sha numText isoOf arrival profile = Inr ?r"
    if eq: "mset arrival = mset events" for arrival
  proof -
    have acc: "acceptable arrival" using assms acceptable_perm [OF eq] by simp
    have "orderTaskIntervalEvents arrival = Inr ?es"
      using order_perm [OF eq acc] acc by (simp add: orderTaskIntervalEvents_iff)
    then show ?thesis unfolding reconstructTaskExecutionIntervals_def by (simp add: m rs h)
  qed
  moreover have "map (\<lambda>x. inputEvents (reconDraft x)) rs = map inputEvents (executions m)"
    unfolding rs(2) [symmetric] by simp
  ultimately show ?thesis using m(2) by (intro exI [of _ ?r]) simp
qed

lemma sampleEvents_acceptable: "acceptable sampleEvents"
proof -
  have "isSha256Digest (js ''sha256:'' @ replicate 64 48)"
    by code_simp
  moreover have "isSafeInteger 1" by (simp add: isSafeInteger_def maxSafeInteger_def)
  ultimately have "validEvent (sampleEvent n ty t)" for n ty t
    by (simp add: validEvent_def sampleEvent_def)
  then show ?thesis using sampleEvents_ordered by (simp add: acceptable_def orderedInput_def sampleEvents_def)
qed

lemma reconstruction_is_order_independent_witness:
  "\<exists>r. reconstructTaskExecutionIntervals (\<lambda>t. t) (\<lambda>q. intText (floor q)) intText (rev sampleEvents)
       DEFAULT_TASK_INTERVAL_METHOD_PROFILE = Inr r \<and> mset (orderedEvents r) = mset sampleEvents"
  using reconstruction_is_order_independent [OF sampleEvents_acceptable, of "\<lambda>t. t"
      "\<lambda>q. intText (floor q)" intText DEFAULT_TASK_INTERVAL_METHOD_PROFILE] by (metis mset_rev)

section \<open>The stored revisions\<close>

text \<open>The latest revision of an execution: the largest revision number, the first stored on ties.\<close>

lemma existingByExecution_snoc:
  "existingByExecution (rs @ [r]) = keepLatest (existingByExecution rs) r"
  by (simp add: existingByExecution_def)

lemma existingByExecution_latest:
  "existingByExecution rs n = None \<longleftrightarrow> n \<notin> revExecutionNo ` set rs"
  "existingByExecution rs n = Some p \<Longrightarrow> p \<in> set rs \<and> revExecutionNo p = n \<and>
     (\<forall>r \<in> set rs. revExecutionNo r = n \<longrightarrow> revRevisionNo r \<le> revRevisionNo p)"
proof (induction rs arbitrary: p rule: rev_induct)
  case Nil
  { case 1 show ?case by (simp add: existingByExecution_def) }
  { case 2 then show ?case by (simp add: existingByExecution_def) }
next
  case (snoc r rs)
  { case 1 show ?case using snoc(1)
      by (auto simp: existingByExecution_snoc keepLatest_def split: option.splits) }
  { case 2
    show ?case
    proof (cases "n = revExecutionNo r")
      case True
      have upd: "existingByExecution (rs @ [r]) n = (case existingByExecution rs n of None \<Rightarrow> Some r
          | Some q \<Rightarrow> if revRevisionNo r > revRevisionNo q then Some r else Some q)"
        using True by (simp add: existingByExecution_snoc keepLatest_def split: option.splits)
      show ?thesis
      proof (cases "existingByExecution rs n")
        case None
        then have "revExecutionNo q \<noteq> n" if "q \<in> set rs" for q using that snoc(1) by blast
        then show ?thesis using 2 None True upd by auto
      next
        case (Some q)
        then show ?thesis using 2 snoc(2) [OF Some] True upd by (auto split: if_splits)
      qed
    next
      case False
      then have "existingByExecution rs n = Some p"
        using 2 by (auto simp: existingByExecution_snoc keepLatest_def split: option.splits if_splits)
      then show ?thesis using snoc(2) False by auto
    qed }
qed

text \<open>What storing a plan adds: an APPEND becomes a revision with a fresh id, a REUSE nothing.\<close>

fun storedBy :: "(revision_plan \<Rightarrow> js_string) \<Rightarrow> revision_plan \<Rightarrow> existing_revision list" where
  "storedBy newId (REUSE n k i x) = []"
| "storedBy newId (APPEND n k s x) =
     [\<lparr>intervalRevisionId = newId (APPEND n k s x), revExecutionNo = n, revRevisionNo = k,
       revContentHash = contentHash x\<rparr>]"

definition isReuse :: "revision_plan \<Rightarrow> bool" where
  "isReuse p = (case p of REUSE n k i x \<Rightarrow> True | APPEND n k s x \<Rightarrow> False)"

definition execNo :: "reconstructed_interval \<Rightarrow> nat" where
  "execNo x = executionNo (reconDraft x)"

text \<open>
  C35. The plan for an interval compares it with the latest stored revision of its execution:
  it is reused exactly when the content digests agree, and otherwise the next revision
  number is appended, superseding that latest revision; an execution with no stored revision
  starts at 1.
\<close>

theorem plan_follows_latest:
  "(case existingByExecution existing (execNo x) of
      None \<Rightarrow> execNo x \<notin> revExecutionNo ` set existing \<and>
        planTaskIntervalRevisions [x] existing = [APPEND (execNo x) 1 None x]
    | Some p \<Rightarrow> p \<in> set existing \<and> revExecutionNo p = execNo x \<and>
        revRevisionNo p = Max {revRevisionNo r | r. r \<in> set existing \<and> revExecutionNo r = execNo x} \<and>
        planTaskIntervalRevisions [x] existing =
          (if revContentHash p = contentHash x
           then [REUSE (execNo x) (revRevisionNo p) (intervalRevisionId p) x]
           else [APPEND (execNo x) (revRevisionNo p + 1) (Some (intervalRevisionId p)) x]))"
proof (cases "existingByExecution existing (execNo x)")
  case None
  then show ?thesis using existingByExecution_latest(1) [of existing "execNo x"]
    by (simp add: planTaskIntervalRevisions_def planInterval_def execNo_def)
next
  case (Some p)
  note latest = existingByExecution_latest(2) [OF Some]
  have "finite {revRevisionNo r | r. r \<in> set existing \<and> revExecutionNo r = execNo x}" by simp
  then have "revRevisionNo p = Max {revRevisionNo r | r. r \<in> set existing \<and> revExecutionNo r = execNo x}"
    using latest by (intro Max_eqI [symmetric]) blast+
  then show ?thesis using Some latest
    by (simp add: planTaskIntervalRevisions_def planInterval_def execNo_def)
qed

lemma existing_other:
  "n \<notin> revExecutionNo ` set ss \<Longrightarrow> existingByExecution (rs @ ss) n = existingByExecution rs n"
proof (induction ss rule: rev_induct)
  case (snoc s ss)
  then have "existingByExecution (rs @ ss @ [s]) n = existingByExecution (rs @ ss) n"
    by (auto simp: existingByExecution_snoc [of "rs @ ss", simplified] keepLatest_def split: option.splits)
  then show ?case using snoc by simp
qed simp

lemma existing_newer:
  "revExecutionNo r = n \<Longrightarrow>
     (\<forall>p. existingByExecution rs n = Some p \<longrightarrow> revRevisionNo p < revRevisionNo r) \<Longrightarrow>
     existingByExecution (rs @ [r]) n = Some r"
  by (auto simp: existingByExecution_snoc keepLatest_def split: option.splits)

lemma stored_execNo:
  "r \<in> set (storedBy newId (planInterval m x)) \<Longrightarrow> revExecutionNo r = execNo x"
  by (auto simp: planInterval_def execNo_def split: option.splits if_splits)

text \<open>
  C38. Planning is idempotent: once the appended revisions are stored, planning the same
  reconstruction again reuses every one of them.
\<close>

theorem replanning_reuses:
  assumes "distinct (map execNo xs)"
    and "stored = concat (map (storedBy newId) (planTaskIntervalRevisions xs existing))"
  shows "list_all isReuse (planTaskIntervalRevisions xs (existing @ stored))"
  unfolding list_all_iff
proof
  fix p assume "p \<in> set (planTaskIntervalRevisions xs (existing @ stored))"
  then obtain x where x: "x \<in> set xs" "p = planInterval (existingByExecution (existing @ stored)) x"
    by (auto simp: planTaskIntervalRevisions_def)
  let ?m = "existingByExecution existing"
  let ?s = "\<lambda>ys. concat (map (\<lambda>y. storedBy newId (planInterval ?m y)) ys)"
  obtain us vs where xs: "xs = us @ x # vs" using x(1) by (metis split_list)
  have others: "execNo x \<notin> revExecutionNo ` set (?s us)" "execNo x \<notin> revExecutionNo ` set (?s vs)"
    using assms(1) stored_execNo unfolding xs by fastforce+
  have "stored = ?s us @ storedBy newId (planInterval ?m x) @ ?s vs"
    using assms(2) xs by (simp add: planTaskIntervalRevisions_def comp_def)
  then have late: "existingByExecution (existing @ stored) (execNo x) =
      existingByExecution ((existing @ ?s us) @ storedBy newId (planInterval ?m x)) (execNo x)"
    using existing_other [OF others(2), of "(existing @ ?s us) @ storedBy newId (planInterval ?m x)"] by simp
  have early: "existingByExecution (existing @ ?s us) (execNo x) = ?m (execNo x)"
    by (rule existing_other [OF others(1)])
  show "isReuse p"
  proof (cases "\<exists>q. ?m (execNo x) = Some q \<and> revContentHash q = contentHash x")
    case True
    then obtain q where q: "?m (execNo x) = Some q" "revContentHash q = contentHash x" by blast
    then have "storedBy newId (planInterval ?m x) = []" by (simp add: planInterval_def execNo_def)
    then show ?thesis using late early q x(2) by (simp add: planInterval_def execNo_def isReuse_def)
  next
    case False
    then obtain k s where a: "planInterval ?m x = APPEND (execNo x) k s x"
      "\<forall>q. ?m (execNo x) = Some q \<longrightarrow> revRevisionNo q < k"
      by (cases "?m (execNo x)") (auto simp: planInterval_def execNo_def)
    let ?r = "\<lparr>intervalRevisionId = newId (APPEND (execNo x) k s x), revExecutionNo = execNo x,
      revRevisionNo = k, revContentHash = contentHash x\<rparr>"
    have "existingByExecution (existing @ stored) (execNo x) = Some ?r"
      unfolding late a storedBy.simps using a(2) early by (intro existing_newer) auto
    then show ?thesis using x(2) by (simp add: planInterval_def execNo_def isReuse_def)
  qed
qed

definition sampleInterval :: "nat \<Rightarrow> string \<Rightarrow> reconstructed_interval" where
  "sampleInterval n h = \<lparr>reconDraft = \<lparr>executionNo = n, lifecycleState = CLOSED, derivationKind = OBSERVED,
     stabilityState = PROVISIONAL, draftStart = Some (At 0), draftEnd = Some (At 1), startEventId = None,
     terminalEventId = None, draftPhases = [], draftConfidence = None, draftReasonCodes = [],
     inputEvents = []\<rparr>, inputEventSetHash = js ''s'', contentHash = js h\<rparr>"

definition sampleRevisions :: "existing_revision list" where
  "sampleRevisions = [\<lparr>intervalRevisionId = js ''r1'', revExecutionNo = 1, revRevisionNo = 1, revContentHash = js ''old''\<rparr>]"

lemma replanning_reuses_witness:
  "list_all isReuse (planTaskIntervalRevisions [sampleInterval 1 ''new'', sampleInterval 2 ''x'']
     (sampleRevisions @ concat (map (storedBy (\<lambda>_. js ''fresh''))
       (planTaskIntervalRevisions [sampleInterval 1 ''new'', sampleInterval 2 ''x''] sampleRevisions))))"
  by (rule replanning_reuses [OF _ refl]) (simp add: execNo_def sampleInterval_def)

end
