(* ===== verification/TimePeriods.thy ===== *)
theory TimePeriods
  imports TraceModel
begin

text \<open>
  \<open>packages/historical-trace-core/src/trajectory-completeness.ts\<close>: normalisation and
  intersection of half-open periods, the request domain of an execution interval, the
  gap-preserving slice plan and the completeness verdict.  The abstract counterpart of a list
  of periods is the set of the milliseconds it covers; the lemmas show every operation to be
  the set operation it stands for.
\<close>

section \<open>Periods in milliseconds\<close>

record millis_period =
  msStart :: int
  msEnd :: int

definition asMillis :: "time_period \<Rightarrow> trace_error + millis_period" where
  "asMillis period =
     bindR (millis (periodStart period)) (\<lambda>s.
     bindR (millis (periodEnd period)) (\<lambda>e.
       if e \<le> s then Inl EmptyTimePeriod else Inr \<lparr>msStart = s, msEnd = e\<rparr>))"

definition fromMillis :: "millis_period \<Rightarrow> time_period" where
  "fromMillis period = \<lparr>periodStart = At (msStart period), periodEnd = At (msEnd period)\<rparr>"

definition comparePeriods :: "millis_period \<Rightarrow> millis_period \<Rightarrow> int" where
  "comparePeriods l r = orElse (msStart l - msStart r) (msEnd l - msEnd r)"

text \<open>One round of the merging loop: \<open>normalized.at(-1)\<close> is extended or a period pushed.\<close>

definition mergeStep :: "millis_period list \<Rightarrow> millis_period \<Rightarrow> millis_period list" where
  "mergeStep normalized period =
     (if normalized = [] \<or> msStart period > msEnd (last normalized)
      then normalized @ [period]
      else butlast normalized @
        [(last normalized)\<lparr>msEnd := max (msEnd (last normalized)) (msEnd period)\<rparr>])"

definition normalizeTimePeriods :: "time_period list \<Rightarrow> trace_error + time_period list" where
  "normalizeTimePeriods periods =
     bindR (mapR asMillis periods) (\<lambda>ms.
       Inr (map fromMillis (foldl mergeStep [] (sort_by comparePeriods ms))))"

definition intersectTimePeriods ::
  "time_period \<Rightarrow> time_period \<Rightarrow> trace_error + time_period option" where
  "intersectTimePeriods left right =
     bindR (asMillis left) (\<lambda>l. bindR (asMillis right) (\<lambda>r.
       let s = max (msStart l) (msStart r); e = min (msEnd l) (msEnd r)
       in Inr (if e \<le> s then None else Some (fromMillis \<lparr>msStart = s, msEnd = e\<rparr>))))"

definition intersectPeriodSets ::
  "time_period list \<Rightarrow> time_period list \<Rightarrow> trace_error + time_period list" where
  "intersectPeriodSets left right =
     bindR (normalizeTimePeriods left) (\<lambda>ls.
     bindR (foldR (\<lambda>acc l.
         bindR (normalizeTimePeriods right) (\<lambda>rs.
           foldR (\<lambda>acc r. bindR (intersectTimePeriods l r) (\<lambda>i.
             Inr (case i of None \<Rightarrow> acc | Some p \<Rightarrow> acc @ [p]))) acc rs)) [] ls)
       normalizeTimePeriods)"

definition timePeriodDurationMs :: "time_period list \<Rightarrow> trace_error + int" where
  "timePeriodDurationMs periods =
     bindR (normalizeTimePeriods periods) (\<lambda>ps.
     bindR (mapR asMillis ps) (\<lambda>ms.
       Inr (foldl (\<lambda>total p. total + msEnd p - msStart p) 0 ms)))"

section \<open>The request domain of an execution interval\<close>

definition makePeriod ::
  "stamp option \<Rightarrow> stamp option \<Rightarrow> trace_error + time_period option" where
  "makePeriod start end =
     (case (start, end) of
        (Some s, Some e) \<Rightarrow>
          bindR (millis e) (\<lambda>em. bindR (millis s) (\<lambda>sm.
            Inr (if em \<le> sm then None else Some (fromMillis \<lparr>msStart = sm, msEnd = em\<rparr>))))
      | _ \<Rightarrow> Inr None)"

text \<open>One iteration over \<open>interval.phases\<close>; the state is the pair of output arrays.\<close>

definition domainPhaseStep ::
  "stamp \<Rightarrow> time_period \<Rightarrow> time_period list \<times> excluded_period list \<Rightarrow> execution_phase \<Rightarrow>
   trace_error + time_period list \<times> excluded_period list" where
  "domainPhaseStep effectiveEnd envelope acc phase =
     bindR (makePeriod (phaseStart phase)
         (Some (case phaseEnd phase of None \<Rightarrow> effectiveEnd | Some e \<Rightarrow> e))) (\<lambda>pp.
       case pp of None \<Rightarrow> Inr acc
       | Some phasePeriod \<Rightarrow>
           bindR (intersectTimePeriods phasePeriod envelope) (\<lambda>c.
             case c of None \<Rightarrow> Inr acc
             | Some clipped \<Rightarrow>
                 Inr (if phaseKind phase = RUNNING then (fst acc @ [clipped], snd acc)
                      else if phaseKind phase = PAUSED
                      then (fst acc, snd acc @ [\<lparr>excludedReason = EXCLUDED_PAUSED_PHASE,
                                                excludedRange = clipped\<rparr>])
                      else acc)))"

text \<open>The rest of the function once the envelope is known to be a period.\<close>

definition domainWithin ::
  "interval_draft \<Rightarrow> phase_scope \<Rightarrow> stamp \<Rightarrow> time_period \<Rightarrow> trace_error + request_domain" where
  "domainWithin interval phaseScope effectiveEnd envelope =
     (if phaseScope = EXECUTION_ENVELOPE
      then Inr \<lparr>requestedPeriods = [envelope], excludedPeriods = [],
                openExecution = (draftEnd interval = None),
                conflicted = (lifecycleState interval = LIFECYCLE_CONFLICTED)\<rparr>
      else
        bindR (foldR (domainPhaseStep effectiveEnd envelope) ([], []) (draftPhases interval)) (\<lambda>acc.
        bindR (normalizeTimePeriods (fst acc)) (\<lambda>running.
          Inr \<lparr>requestedPeriods = running,
               excludedPeriods = sort_by (\<lambda>l r.
                 stampMs (periodStart (excludedRange l)) -
                 stampMs (periodStart (excludedRange r))) (snd acc),
               openExecution = (draftEnd interval = None),
               conflicted = (lifecycleState interval = LIFECYCLE_CONFLICTED)\<rparr>)))"

definition deriveHistoricalRequestDomain ::
  "interval_draft \<Rightarrow> phase_scope \<Rightarrow> stamp \<Rightarrow> trace_error + request_domain" where
  "deriveHistoricalRequestDomain interval phaseScope effectiveCapturedAt =
     bindR (case draftEnd interval of
              Some e \<Rightarrow> Inr e
            | None \<Rightarrow> bindR (millis effectiveCapturedAt) (\<lambda>m. Inr (At m))) (\<lambda>effectiveEnd.
     bindR (makePeriod (draftStart interval) (Some effectiveEnd)) (\<lambda>env.
       case env of
         None \<Rightarrow> Inr \<lparr>requestedPeriods = [], excludedPeriods = [],
                     openExecution = (draftEnd interval = None), conflicted = True\<rparr>
       | Some envelope \<Rightarrow> domainWithin interval phaseScope effectiveEnd envelope))"

section \<open>The slice plan\<close>

definition copyGapWithRange :: "historical_gap \<Rightarrow> time_period \<Rightarrow> historical_gap" where
  "copyGapWithRange gap rng =
     \<lparr>gapReason = gapReason gap, gapRange = rng, gapDetails = gapDetails gap,
      leftMeasurementId = leftMeasurementId gap, rightMeasurementId = rightMeasurementId gap,
      sourceTrackletGapId = sourceTrackletGapId gap\<rparr>"

definition compareSlices :: "segment_slice \<Rightarrow> segment_slice \<Rightarrow> int" where
  "compareSlices l r =
     orElse (stampMs (periodStart (slicePeriod l)) - stampMs (periodStart (slicePeriod r)))
    (orElse (stampMs (periodEnd (slicePeriod l)) - stampMs (periodEnd (slicePeriod r)))
    (orElse (compareText (sliceVersionId l) (sliceVersionId r))
    (orElse (sliceSegmentNo l - sliceSegmentNo r)
            (int (requestedPeriodNo l) - int (requestedPeriodNo r)))))"

text \<open>The slices of one source segment, in the order of the requested periods.\<close>

definition pushSlice ::
  "source_segment \<Rightarrow> segment_slice list \<Rightarrow> nat \<times> time_period \<Rightarrow> trace_error + segment_slice list" where
  "pushSlice segment acc entry =
     bindR (intersectTimePeriods (segPeriod segment) (snd entry)) (\<lambda>p.
       Inr (case p of None \<Rightarrow> acc
            | Some period \<Rightarrow> acc @
                [\<lparr>sliceVersionId = segVersionId segment, sliceSegmentNo = segNo segment,
                  sliceSampleCount = segSampleCount segment, slicePeriod = period,
                  sequenceNo = 0, requestedPeriodNo = fst entry + 1\<rparr>]))"

definition sliceSegment ::
  "time_period list \<Rightarrow> segment_slice list \<Rightarrow> source_segment \<Rightarrow> trace_error + segment_slice list" where
  "sliceSegment requested acc segment =
     bindR (ensureR (isSafeInteger (segNo segment) \<and> segNo segment \<ge> 1) InvalidSourceSegmentNo) (\<lambda>_.
     bindR (ensureR (isSafeInteger (segSampleCount segment) \<and> segSampleCount segment \<ge> 0)
       InvalidSampleCount) (\<lambda>_.
       foldR (pushSlice segment) acc (enumerate 0 requested)))"

definition clipGap ::
  "time_period list \<Rightarrow> historical_gap list \<Rightarrow> historical_gap \<Rightarrow> trace_error + historical_gap list" where
  "clipGap requested acc gap =
     foldR (\<lambda>acc requestedPeriod.
       bindR (intersectTimePeriods (gapRange gap) requestedPeriod) (\<lambda>r.
         Inr (case r of None \<Rightarrow> acc | Some rng \<Rightarrow> acc @ [copyGapWithRange gap rng])))
       acc requested"

definition compareGaps :: "historical_gap \<Rightarrow> historical_gap \<Rightarrow> int" where
  "compareGaps l r =
     orElse (stampMs (periodStart (gapRange l)) - stampMs (periodStart (gapRange r)))
            (stampMs (periodEnd (gapRange l)) - stampMs (periodEnd (gapRange r)))"

definition buildGapPreservingSlicePlan ::
  "source_segment list \<Rightarrow> historical_gap list \<Rightarrow> time_period list \<Rightarrow> trace_error + slice_plan" where
  "buildGapPreservingSlicePlan sourceSegments sourceGaps requestedPs =
     bindR (normalizeTimePeriods requestedPs) (\<lambda>requested.
     bindR (foldR (sliceSegment requested) [] sourceSegments) (\<lambda>unordered.
     bindR (foldR (clipGap requested) [] sourceGaps) (\<lambda>gaps.
       Inr \<lparr>planSegments = map (\<lambda>(index, slice). slice\<lparr>sequenceNo := index + 1\<rparr>)
              (enumerate 0 (sort_by compareSlices unordered)),
            planGaps = sort_by compareGaps gaps\<rparr>)))"

section \<open>Completeness\<close>

fun someR :: "('a \<Rightarrow> 'e + bool) \<Rightarrow> 'a list \<Rightarrow> 'e + bool" where
  "someR p [] = Inr False"
| "someR p (x # xs) = bindR (p x) (\<lambda>b. if b then Inr True else someR p xs)"

fun filterR :: "('a \<Rightarrow> 'e + bool) \<Rightarrow> 'a list \<Rightarrow> 'e + 'a list" where
  "filterR p [] = Inr []"
| "filterR p (x # xs) =
     bindR (p x) (\<lambda>b. bindR (filterR p xs) (\<lambda>ys. Inr (if b then x # ys else ys)))"

definition definedAtStart :: "time_period list \<Rightarrow> int \<Rightarrow> trace_error + bool" where
  "definedAtStart periods start =
     someR (\<lambda>p. bindR (asMillis p) (\<lambda>v. Inr (msStart v \<le> start \<and> msEnd v > start))) periods"

definition definedThroughEnd :: "time_period list \<Rightarrow> int \<Rightarrow> trace_error + bool" where
  "definedThroughEnd periods end =
     someR (\<lambda>p. bindR (asMillis p) (\<lambda>v. Inr (msStart v < end \<and> msEnd v \<ge> end))) periods"

definition gapAtStart :: "historical_gap list \<Rightarrow> int \<Rightarrow> trace_error + bool" where
  "gapAtStart gaps start =
     someR (\<lambda>g. bindR (asMillis (gapRange g)) (\<lambda>v. Inr (msStart v \<le> start \<and> msEnd v > start))) gaps"

definition gapAtEnd :: "historical_gap list \<Rightarrow> int \<Rightarrow> trace_error + bool" where
  "gapAtEnd gaps end =
     someR (\<lambda>g. bindR (asMillis (gapRange g)) (\<lambda>v. Inr (msStart v < end \<and> msEnd v \<ge> end))) gaps"

record completeness_input =
  inRequested :: "time_period list"
  inDefined :: "time_period list"
  inGaps :: "historical_gap list"
  inSampleCount :: int
  inSequenceCount :: int
  inOpenExecution :: "bool option"
  inAsOfComplete :: "bool option"
  inSourceConflict :: "bool option"
  inIntervalConflict :: "bool option"

text \<open>\<open>a !== undefined && p && !q\<close> where \<open>p\<close> and \<open>q\<close> may throw and are evaluated in turn.\<close>

definition endpointComplete ::
  "(int \<Rightarrow> trace_error + bool) \<Rightarrow> (int \<Rightarrow> trace_error + bool) \<Rightarrow> stamp option \<Rightarrow>
   trace_error + bool" where
  "endpointComplete isDefined isGap bound =
     (case bound of None \<Rightarrow> Inr False
      | Some b \<Rightarrow>
          bindR (millis b) (\<lambda>m. bindR (isDefined m) (\<lambda>d.
            if d then bindR (isGap m) (\<lambda>g. Inr (\<not> g)) else Inr False)))"

definition overlapsAny :: "time_period list \<Rightarrow> historical_gap \<Rightarrow> trace_error + bool" where
  "overlapsAny requested gap =
     someR (\<lambda>period. bindR (intersectTimePeriods (gapRange gap) period) (\<lambda>i. Inr (i \<noteq> None)))
       requested"

text \<open>The verdict, once the figures are known: the early returns of the code, in order.\<close>

definition completenessVerdict ::
  "completeness_input \<Rightarrow> int \<Rightarrow> rat \<Rightarrow> nat \<Rightarrow> outcome_status \<times> outcome_reason" where
  "completenessVerdict input requestedDuration ratio gaps =
     (if inSourceConflict input = Some True \<or> inIntervalConflict input = Some True
      then (INDETERMINATE,
            if inSourceConflict input = Some True then SOURCE_CONFLICT else INTERVAL_CONFLICT)
      else if requestedDuration \<le> 0 then (INDETERMINATE, INVALID_REQUEST_DURATION)
      else if inSampleCount input = 0 then (NO_DATA, NO_TRAJECTORY_POINTS)
      else if ratio < 1 \<or> gaps > 0
      then (PARTIAL, if gaps > 0 then UNKNOWN_GAPS else PARTIAL_COVERAGE)
      else (COMPLETED, COMPLETE))"

definition calculateHistoricalCompleteness ::
  "completeness_input \<Rightarrow> trace_error + completeness_result" where
  "calculateHistoricalCompleteness input =
     bindR (ensureR (isSafeInteger (inSampleCount input) \<and> inSampleCount input \<ge> 0)
       InvalidSampleCount) (\<lambda>_.
     bindR (ensureR (isSafeInteger (inSequenceCount input) \<and> inSequenceCount input \<ge> 0)
       InvalidSequenceCount) (\<lambda>_.
     bindR (normalizeTimePeriods (inRequested input)) (\<lambda>requested.
     bindR (intersectPeriodSets (inDefined input) requested) (\<lambda>definedPs.
     bindR (filterR (overlapsAny requested) (inGaps input)) (\<lambda>relevantGaps.
     bindR (timePeriodDurationMs requested) (\<lambda>requestedDuration.
     bindR (timePeriodDurationMs definedPs) (\<lambda>definedDuration.
     let ratio = (if requestedDuration = 0 then 0
                  else min 1 (of_int definedDuration / of_int requestedDuration)) in
     bindR (endpointComplete (definedAtStart definedPs) (gapAtStart relevantGaps)
       (if requested = [] then None else Some (periodStart (hd requested)))) (\<lambda>prefixOk.
     bindR (endpointComplete (definedThroughEnd definedPs) (gapAtEnd relevantGaps)
       (if requested = [] then None else Some (periodEnd (last requested)))) (\<lambda>suffixOk.
     let suffixOk' = (if inOpenExecution input = Some True \<and> inAsOfComplete input \<noteq> Some True
                      then False else suffixOk);
         verdict = completenessVerdict input requestedDuration ratio (length relevantGaps)
     in Inr \<lparr>resStatus = fst verdict, resReason = snd verdict,
             resCompleteness = \<lparr>temporalCoverageRatio = ratio, prefixComplete = prefixOk,
               suffixComplete = suffixOk', compSampleCount = inSampleCount input,
               compSequenceCount = inSequenceCount input, gapCount = length relevantGaps\<rparr>,
             resRequested = requested, resDefined = definedPs\<rparr>)))))))))"

section \<open>Abstraction: the milliseconds covered\<close>

definition validPeriod :: "time_period \<Rightarrow> bool" where
  "validPeriod p \<longleftrightarrow> periodStart p \<noteq> BadStamp \<and> periodEnd p \<noteq> BadStamp \<and>
     stampMs (periodStart p) < stampMs (periodEnd p)"

definition instants :: "time_period \<Rightarrow> int set" where
  "instants p = {stampMs (periodStart p) ..< stampMs (periodEnd p)}"

definition covered :: "time_period list \<Rightarrow> int set" where
  "covered ps = (\<Union>p \<in> set ps. instants p)"

text \<open>The canonical form: valid periods in order, with a gap between any two.\<close>

definition canonical :: "time_period list \<Rightarrow> bool" where
  "canonical ps \<longleftrightarrow> (\<forall>p \<in> set ps. validPeriod p) \<and>
     sorted_wrt (\<lambda>p q. stampMs (periodEnd p) < stampMs (periodStart q)) ps"

definition toMs :: "time_period \<Rightarrow> millis_period" where
  "toMs p = \<lparr>msStart = stampMs (periodStart p), msEnd = stampMs (periodEnd p)\<rparr>"

definition msSpan :: "millis_period \<Rightarrow> int set" where
  "msSpan v = {msStart v ..< msEnd v}"

definition msCanonical :: "millis_period list \<Rightarrow> bool" where
  "msCanonical vs \<longleftrightarrow> (\<forall>v \<in> set vs. msStart v < msEnd v) \<and>
     sorted_wrt (\<lambda>v w. msEnd v < msStart w) vs"

lemma stamp_cases_At: "s \<noteq> BadStamp \<longleftrightarrow> s = At (stampMs s)"
  by (cases s) auto

lemma asMillis_Inr [res_simps]: "asMillis p = Inr v \<longleftrightarrow> validPeriod p \<and> v = toMs p"
  by (cases "periodStart p"; cases "periodEnd p")
    (auto simp: asMillis_def validPeriod_def toMs_def)

lemma asMillis_valid [simp]: "validPeriod p \<Longrightarrow> asMillis p = Inr (toMs p)"
  by (simp add: asMillis_Inr)

lemma mapR_asMillis: "mapR asMillis ps = Inr vs \<longleftrightarrow> (\<forall>p \<in> set ps. validPeriod p) \<and> vs = map toMs ps"
  by (induction ps arbitrary: vs) (auto simp: res_simps)

lemma fromMillis_toMs [simp]: "validPeriod p \<Longrightarrow> fromMillis (toMs p) = p"
  by (cases p; cases "periodStart p"; cases "periodEnd p")
    (auto simp: fromMillis_def toMs_def validPeriod_def)

lemma toMs_fromMillis [simp]: "toMs (fromMillis v) = v"
  by (simp add: fromMillis_def toMs_def)

lemma valid_fromMillis [simp]: "validPeriod (fromMillis v) \<longleftrightarrow> msStart v < msEnd v"
  by (simp add: fromMillis_def validPeriod_def)

lemma instants_fromMillis [simp]: "instants (fromMillis v) = msSpan v"
  by (simp add: fromMillis_def instants_def msSpan_def)

lemma msSpan_toMs [simp]: "msSpan (toMs p) = instants p"
  by (simp add: toMs_def instants_def msSpan_def)

lemma toMs_ordered: "validPeriod p \<Longrightarrow> msStart (toMs p) < msEnd (toMs p)"
  by (simp add: toMs_def validPeriod_def)

lemma stamps_fromMillis [simp]:
  "periodStart (fromMillis v) = At (msStart v)" "periodEnd (fromMillis v) = At (msEnd v)"
  by (simp_all add: fromMillis_def)

lemma covered_Nil [simp]: "covered [] = {}"
  and covered_Cons [simp]: "covered (p # ps) = instants p \<union> covered ps"
  and covered_append [simp]: "covered (ps @ qs) = covered ps \<union> covered qs"
  by (auto simp: covered_def)

lemma canonical_fromMillis:
  assumes "msCanonical vs"
  shows "canonical (map fromMillis vs)"
proof -
  have "\<forall>p \<in> set (map fromMillis vs). validPeriod p"
    using assms by (simp add: msCanonical_def)
  moreover have "sorted_wrt (\<lambda>p q. stampMs (periodEnd p) < stampMs (periodStart q)) (map fromMillis vs)"
    using assms by (simp add: msCanonical_def sorted_wrt_map)
  ultimately show ?thesis by (simp only: canonical_def)
qed

lemma covered_fromMillis: "covered (map fromMillis vs) = (\<Union>v \<in> set vs. msSpan v)"
  by (simp add: covered_def)

section \<open>Normalisation\<close>

lemma js_order_comparePeriods: "js_order comparePeriods"
  unfolding comparePeriods_def by (intro order_intros)

lemma msCanonical_append_last:
  "msCanonical (vs @ [v]) \<longleftrightarrow> msCanonical vs \<and> msStart v < msEnd v \<and> (\<forall>u \<in> set vs. msEnd u < msStart v)"
  by (auto simp: msCanonical_def sorted_wrt_append)

lemma msCanonical_end_le_last: "msCanonical vs \<Longrightarrow> v \<in> set vs \<Longrightarrow> msEnd v \<le> msEnd (last vs)"
proof (induction vs rule: rev_induct)
  case (snoc w vs)
  then show ?case by (fastforce simp: msCanonical_append_last)
qed simp

lemma mergeStep_canonical:
  assumes "msCanonical acc" and "msStart p < msEnd p"
    and "\<forall>v \<in> set acc. msStart v \<le> msStart p"
  shows "msCanonical (mergeStep acc p)"
    and "(\<Union>v \<in> set (mergeStep acc p). msSpan v) = (\<Union>v \<in> set acc. msSpan v) \<union> msSpan p"
    and "\<forall>v \<in> set (mergeStep acc p). msStart v \<le> msStart p"
proof -
  have "msCanonical (mergeStep acc p) \<and>
    (\<Union>v \<in> set (mergeStep acc p). msSpan v) = (\<Union>v \<in> set acc. msSpan v) \<union> msSpan p \<and>
    (\<forall>v \<in> set (mergeStep acc p). msStart v \<le> msStart p)"
  proof (cases "acc = [] \<or> msStart p > msEnd (last acc)")
    case True
    then have "\<forall>v \<in> set acc. msEnd v < msStart p"
      using msCanonical_end_le_last [OF assms(1)] by fastforce
    then show ?thesis using True assms
      by (auto simp: mergeStep_def msCanonical_append_last)
  next
    case False
    then obtain vs l where acc: "acc = vs @ [l]" by (metis rev_exhaust)
    have "msSpan (l\<lparr>msEnd := max (msEnd l) (msEnd p)\<rparr>) = msSpan l \<union> msSpan p"
      using False acc assms by (auto simp: msSpan_def)
    then show ?thesis using False acc assms
      by (auto simp: mergeStep_def msCanonical_append_last)
  qed
  then show "msCanonical (mergeStep acc p)"
    and "(\<Union>v \<in> set (mergeStep acc p). msSpan v) = (\<Union>v \<in> set acc. msSpan v) \<union> msSpan p"
    and "\<forall>v \<in> set (mergeStep acc p). msStart v \<le> msStart p"
    by blast+
qed

lemma foldl_mergeStep:
  assumes "sorted_wrt (\<lambda>v w. msStart v \<le> msStart w) vs" and "\<forall>v \<in> set vs. msStart v < msEnd v"
    and "msCanonical acc" and "\<forall>u \<in> set acc. \<forall>v \<in> set vs. msStart u \<le> msStart v"
  shows "msCanonical (foldl mergeStep acc vs) \<and>
    (\<Union>v \<in> set (foldl mergeStep acc vs). msSpan v) = (\<Union>v \<in> set acc \<union> set vs. msSpan v)"
  using assms
proof (induction vs arbitrary: acc)
  case (Cons v vs)
  have v: "msStart v < msEnd v" "\<forall>u \<in> set acc. msStart u \<le> msStart v" using Cons.prems by auto
  note step = mergeStep_canonical [OF Cons.prems(3) v]
  have "\<forall>u \<in> set (mergeStep acc v). \<forall>w \<in> set vs. msStart u \<le> msStart w"
    using step(3) Cons.prems(1) by fastforce
  then have "msCanonical (foldl mergeStep (mergeStep acc v) vs) \<and>
    (\<Union>w \<in> set (foldl mergeStep (mergeStep acc v) vs). msSpan w) =
      (\<Union>w \<in> set (mergeStep acc v) \<union> set vs. msSpan w)"
    using Cons.prems step(1) by (intro Cons.IH) auto
  then show ?case using step(2) by auto
qed simp

lemma sorted_comparePeriods:
  "sorted_wrt (\<lambda>v w. msStart v \<le> msStart w) (sort_by comparePeriods vs)"
proof -
  have "sorted_by comparePeriods (sort_by comparePeriods vs)"
    by (rule js_order.sorted_sort_by [OF js_order_comparePeriods])
  then show ?thesis unfolding sorted_by_def
    by (rule sorted_wrt_mono_rel [rotated]) (auto simp: comparePeriods_def orElse_def split: if_splits)
qed

lemma normalize_canonical:
  assumes "\<forall>p \<in> set ps. validPeriod p"
  shows "\<exists>qs. normalizeTimePeriods ps = Inr qs \<and> canonical qs \<and> covered qs = covered ps"
proof -
  let ?vs = "sort_by comparePeriods (map toMs ps)"
  have "\<forall>v \<in> set ?vs. msStart v < msEnd v" using assms by (auto intro: toMs_ordered)
  from foldl_mergeStep [OF sorted_comparePeriods this, of "[]"]
  have "msCanonical (foldl mergeStep [] ?vs)"
    and "(\<Union>v \<in> set (foldl mergeStep [] ?vs). msSpan v) = covered ps"
    by (auto simp: msCanonical_def covered_def)
  then show ?thesis using assms
    by (auto simp: normalizeTimePeriods_def mapR_asMillis covered_fromMillis bindR_eq_Inr
        intro!: exI [of _ "map fromMillis (foldl mergeStep [] ?vs)"] canonical_fromMillis)
qed

lemma normalize_valid: "normalizeTimePeriods ps = Inr qs \<Longrightarrow> \<forall>p \<in> set ps. validPeriod p"
  by (auto simp: normalizeTimePeriods_def bindR_eq_Inr mapR_asMillis)

text \<open>A canonical list is determined by what it covers: its first period is read off the set.\<close>

lemma canonical_Cons: "canonical (p # ps) \<longleftrightarrow> validPeriod p \<and> canonical ps \<and>
    (\<forall>q \<in> set ps. stampMs (periodEnd p) < stampMs (periodStart q))"
  by (auto simp: canonical_def)

lemma covered_after:
  "\<forall>q \<in> set ps. t < stampMs (periodStart q) \<Longrightarrow> x \<in> covered ps \<Longrightarrow> t < x"
  by (fastforce simp: covered_def instants_def)

lemma canonical_disjoint: "canonical (p # ps) \<Longrightarrow> instants p \<inter> covered ps = {}"
  using covered_after [of ps "stampMs (periodEnd p)"]
  by (fastforce simp: canonical_Cons instants_def)

lemma canonical_head_le:
  assumes "canonical (p # ps)" and "canonical (q # qs)"
    and "covered (p # ps) = covered (q # qs)"
  shows "stampMs (periodStart q) \<le> stampMs (periodStart p)
    \<and> (stampMs (periodStart p) = stampMs (periodStart q) \<longrightarrow> stampMs (periodEnd p) \<le> stampMs (periodEnd q))"
proof -
  let ?s = "stampMs (periodStart p)" and ?e = "stampMs (periodEnd p)"
  have q: "\<forall>r \<in> set qs. stampMs (periodEnd q) < stampMs (periodStart r)"
    and vp: "?s < ?e" and vq: "stampMs (periodStart q) < stampMs (periodEnd q)"
    using assms(1,2) by (auto simp: canonical_Cons validPeriod_def)
  have "?s \<in> covered (q # qs)" using assms(3) vp by (auto simp: instants_def)
  then have 1: "stampMs (periodStart q) \<le> ?s"
    using covered_after [OF q] vq by (fastforce simp: instants_def)
  have 2: "?e \<le> stampMs (periodEnd q)" if "?s = stampMs (periodStart q)"
  proof (rule ccontr)
    assume "\<not> ?e \<le> stampMs (periodEnd q)"
    then have "stampMs (periodEnd q) \<in> covered (q # qs)"
      using assms(3) that vq by (auto simp: instants_def)
    then show False using covered_after [OF q] by (fastforce simp: instants_def)
  qed
  show ?thesis using 1 2 by simp
qed

lemma canonical_unique:
  "canonical ps \<Longrightarrow> canonical qs \<Longrightarrow> covered ps = covered qs \<Longrightarrow> ps = qs"
proof (induction ps arbitrary: qs)
  case Nil
  then show ?case
    by (cases qs) (auto simp: canonical_Cons validPeriod_def instants_def)
next
  case (Cons p ps)
  from Cons.prems obtain q qs' where qs: "qs = q # qs'"
    by (cases qs) (auto simp: canonical_Cons validPeriod_def instants_def)
  have bounds: "stampMs (periodStart p) = stampMs (periodStart q)"
      "stampMs (periodEnd p) = stampMs (periodEnd q)"
    using canonical_head_le [of p ps q qs'] canonical_head_le [of q qs' p ps] Cons.prems qs
    by auto
  have "validPeriod p" "validPeriod q" using Cons.prems qs by (auto simp: canonical_Cons)
  then have "p = q" using bounds
    by (metis fromMillis_toMs toMs_def)
  moreover have "covered ps = covered qs'"
  proof -
    have "instants p \<inter> covered ps = {}" "instants p \<inter> covered qs' = {}"
      using canonical_disjoint Cons.prems(1,2) qs \<open>p = q\<close> by blast+
    then show ?thesis using Cons.prems(3) qs \<open>p = q\<close> by auto
  qed
  ultimately show ?case using Cons qs by (auto simp: canonical_Cons)
qed

lemma normalize_iff:
  "normalizeTimePeriods ps = Inr qs \<longleftrightarrow>
     (\<forall>p \<in> set ps. validPeriod p) \<and> canonical qs \<and> covered qs = covered ps"
  by (metis Inr_inject canonical_unique normalize_canonical normalize_valid)

lemma normalize_id: "canonical ps \<Longrightarrow> normalizeTimePeriods ps = Inr ps"
  by (auto simp: normalize_iff canonical_def)

lemma normalize_eq_Nil: "normalizeTimePeriods ps = Inr [] \<longleftrightarrow> ps = []"
proof
  assume "normalizeTimePeriods ps = Inr []"
  then have "\<forall>p \<in> set ps. validPeriod p" "covered ps = {}" by (auto simp: normalize_iff)
  then show "ps = []"
    by (cases ps) (auto simp: validPeriod_def instants_def)
qed (simp add: normalize_id canonical_def)

section \<open>Intersection and duration\<close>

lemma instants_nonempty: "validPeriod p \<Longrightarrow> instants p \<noteq> {}"
  by (simp add: validPeriod_def instants_def)

lemma instants_interval:
  assumes "validPeriod p" and "instants p = {a ..< b}"
  shows "a < b \<and> p = fromMillis \<lparr>msStart = a, msEnd = b\<rparr>"
proof -
  have "a < b" using instants_nonempty [OF assms(1)] assms(2) by simp
  then have "stampMs (periodStart p) = a \<and> stampMs (periodEnd p) = b"
    using assms Ico_eq_Ico [of "stampMs (periodStart p)" "stampMs (periodEnd p)" a b]
    by (simp add: instants_def validPeriod_def)
  then have "toMs p = \<lparr>msStart = a, msEnd = b\<rparr>" by (simp add: toMs_def)
  then show ?thesis using \<open>a < b\<close> fromMillis_toMs [OF assms(1)] by simp
qed

lemma intersect_Inr:
  "intersectTimePeriods l r = Inr i \<longleftrightarrow> validPeriod l \<and> validPeriod r \<and>
     (case i of None \<Rightarrow> instants l \<inter> instants r = {}
      | Some p \<Rightarrow> validPeriod p \<and> instants p = instants l \<inter> instants r)"
proof (cases "validPeriod l \<and> validPeriod r")
  case True
  define s where "s = max (stampMs (periodStart l)) (stampMs (periodStart r))"
  define e where "e = min (stampMs (periodEnd l)) (stampMs (periodEnd r))"
  have meet: "instants l \<inter> instants r = {s ..< e}" by (auto simp: instants_def s_def e_def)
  have i: "intersectTimePeriods l r = Inr i \<longleftrightarrow>
      i = (if e \<le> s then None else Some (fromMillis \<lparr>msStart = s, msEnd = e\<rparr>))"
    using True by (auto simp: intersectTimePeriods_def toMs_def Let_def s_def e_def)
  have "validPeriod p \<and> instants p = {s ..< e} \<longleftrightarrow>
      s < e \<and> p = fromMillis \<lparr>msStart = s, msEnd = e\<rparr>" for p
    using instants_interval [of p s e] valid_fromMillis instants_fromMillis
    by (metis msSpan_def millis_period.select_convs)
  then show ?thesis using True i meet by (auto split: option.split)
next
  case False
  then show ?thesis by (auto simp: intersectTimePeriods_def res_simps split: option.splits)
qed

lemma intersect_total:
  "validPeriod l \<Longrightarrow> validPeriod r \<Longrightarrow> \<exists>i. intersectTimePeriods l r = Inr i"
  by (simp add: intersectTimePeriods_def Let_def)

lemma intersect_nonempty:
  "intersectTimePeriods l r = Inr i \<Longrightarrow> i \<noteq> None \<longleftrightarrow> instants l \<inter> instants r \<noteq> {}"
  by (cases i) (auto simp: intersect_Inr dest: instants_nonempty)

definition optionSpan :: "time_period option \<Rightarrow> int set" where
  "optionSpan i = (case i of None \<Rightarrow> {} | Some p \<Rightarrow> instants p)"

lemma intersect_span: "intersectTimePeriods l r = Inr i \<Longrightarrow> optionSpan i = instants l \<inter> instants r"
  by (cases i) (auto simp: intersect_Inr optionSpan_def)

lemma intersect_row:
  assumes "validPeriod l" and "\<forall>r \<in> set rs. validPeriod r" and "\<forall>p \<in> set acc. validPeriod p"
  shows "\<exists>out. foldR (\<lambda>acc r. bindR (intersectTimePeriods l r) (\<lambda>i.
      Inr (case i of None \<Rightarrow> acc | Some p \<Rightarrow> acc @ [p]))) acc rs = Inr out
    \<and> (\<forall>p \<in> set out. validPeriod p) \<and> covered out = covered acc \<union> (instants l \<inter> covered rs)"
  using assms
proof (induction rs arbitrary: acc)
  case (Cons r rs)
  obtain i where i: "intersectTimePeriods l r = Inr i"
    using intersect_total Cons.prems by fastforce
  let ?acc = "case i of None \<Rightarrow> acc | Some p \<Rightarrow> acc @ [p]"
  have "\<forall>p \<in> set ?acc. validPeriod p" "covered ?acc = covered acc \<union> (instants l \<inter> instants r)"
    using i Cons.prems(3) by (cases i; auto simp: intersect_Inr)+
  with Cons.IH [of ?acc] Cons.prems i show ?case by auto
qed auto

lemma intersect_rows:
  assumes "\<forall>l \<in> set ls. validPeriod l" and "ls \<noteq> [] \<longrightarrow> (\<forall>r \<in> set rs. validPeriod r)"
    and "\<forall>p \<in> set acc. validPeriod p"
  shows "\<exists>out. foldR (\<lambda>acc l. bindR (normalizeTimePeriods rs) (\<lambda>rs.
        foldR (\<lambda>acc r. bindR (intersectTimePeriods l r) (\<lambda>i.
          Inr (case i of None \<Rightarrow> acc | Some p \<Rightarrow> acc @ [p]))) acc rs)) acc ls = Inr out
    \<and> (\<forall>p \<in> set out. validPeriod p) \<and> covered out = covered acc \<union> (covered ls \<inter> covered rs)"
  using assms
proof (induction ls arbitrary: acc)
  case (Cons l ls)
  obtain rs' where rs': "normalizeTimePeriods rs = Inr rs'" "canonical rs'" "covered rs' = covered rs"
    using normalize_canonical [of rs] Cons.prems(2) by auto
  have "\<forall>r \<in> set rs'. validPeriod r" using rs'(2) by (simp add: canonical_def)
  from intersect_row [OF _ this Cons.prems(3), of l] obtain acc' where
    acc': "foldR (\<lambda>acc r. bindR (intersectTimePeriods l r) (\<lambda>i.
        Inr (case i of None \<Rightarrow> acc | Some p \<Rightarrow> acc @ [p]))) acc rs' = Inr acc'"
      "\<forall>p \<in> set acc'. validPeriod p" "covered acc' = covered acc \<union> (instants l \<inter> covered rs')"
    using Cons.prems(1) by auto
  with Cons.IH [of acc'] Cons.prems rs' show ?case by auto
qed auto

lemma intersectPeriodSets_iff:
  "intersectPeriodSets ls rs = Inr ps \<longleftrightarrow>
     (\<forall>l \<in> set ls. validPeriod l) \<and> (ls \<noteq> [] \<longrightarrow> (\<forall>r \<in> set rs. validPeriod r)) \<and>
     canonical ps \<and> covered ps = covered ls \<inter> covered rs"
proof (cases "(\<forall>l \<in> set ls. validPeriod l) \<and> (ls \<noteq> [] \<longrightarrow> (\<forall>r \<in> set rs. validPeriod r))")
  case True
  then obtain ls' where ls': "normalizeTimePeriods ls = Inr ls'" "canonical ls'" "covered ls' = covered ls"
    using normalize_canonical by blast
  have "ls' \<noteq> [] \<longrightarrow> (\<forall>r \<in> set rs. validPeriod r)"
    using True ls'(1) normalize_eq_Nil by (metis Inr_inject)
  moreover have "\<forall>l \<in> set ls'. validPeriod l" using ls'(2) by (simp add: canonical_def)
  ultimately obtain out where
    "intersectPeriodSets ls rs = normalizeTimePeriods out"
    "\<forall>p \<in> set out. validPeriod p" "covered out = covered ls \<inter> covered rs"
    using intersect_rows [of ls' rs "[]"] ls' unfolding intersectPeriodSets_def by force
  then show ?thesis using True by (auto simp: normalize_iff)
next
  case False
  have "intersectPeriodSets ls rs \<noteq> Inr ps"
  proof
    assume "intersectPeriodSets ls rs = Inr ps"
    then obtain ls' out where ls': "normalizeTimePeriods ls = Inr ls'"
      and out: "foldR (\<lambda>acc l. bindR (normalizeTimePeriods rs) (\<lambda>rs.
         foldR (\<lambda>acc r. bindR (intersectTimePeriods l r) (\<lambda>i.
           Inr (case i of None \<Rightarrow> acc | Some p \<Rightarrow> acc @ [p]))) acc rs)) [] ls' = Inr out"
      by (auto simp: intersectPeriodSets_def bindR_eq_Inr)
    have "ls' \<noteq> [] \<or> ls = []" using ls' normalize_eq_Nil by blast
    then have "ls = [] \<or> (\<exists>rs'. normalizeTimePeriods rs = Inr rs')"
      using out by (cases ls') (auto simp: bindR_eq_Inr)
    then show False using False ls' normalize_valid by auto
  qed
  then show ?thesis using False by blast
qed

lemma card_covered_canonical:
  "canonical ps \<Longrightarrow> int (card (covered ps)) =
     (\<Sum>p \<leftarrow> ps. stampMs (periodEnd p) - stampMs (periodStart p))"
proof (induction ps)
  case (Cons p ps)
  have "finite (covered ps)" by (simp add: covered_def instants_def)
  then have "card (covered (p # ps)) = card (instants p) + card (covered ps)"
    using canonical_disjoint [OF Cons.prems] by (simp add: card_Un_disjoint instants_def)
  then show ?case using Cons by (simp add: canonical_Cons validPeriod_def instants_def)
qed simp

lemma foldl_duration:
  "foldl (\<lambda>total p. total + msEnd p - msStart p) t (map toMs ps) =
     t + (\<Sum>p \<leftarrow> ps. stampMs (periodEnd p) - stampMs (periodStart p))"
  by (induction ps arbitrary: t) (auto simp: toMs_def)

lemma timePeriodDurationMs_iff:
  "timePeriodDurationMs ps = Inr d \<longleftrightarrow> (\<forall>p \<in> set ps. validPeriod p) \<and> d = int (card (covered ps))"
proof (cases "\<forall>p \<in> set ps. validPeriod p")
  case True
  then obtain qs where qs: "normalizeTimePeriods ps = Inr qs" "canonical qs" "covered qs = covered ps"
    using normalize_canonical by blast
  then have "mapR asMillis qs = Inr (map toMs qs)" by (simp add: mapR_asMillis canonical_def)
  then show ?thesis using True qs card_covered_canonical [of qs]
    by (auto simp: timePeriodDurationMs_def foldl_duration)
next
  case False
  then show ?thesis by (auto simp: timePeriodDurationMs_def bindR_eq_Inr dest: normalize_valid)
qed

section \<open>Completeness\<close>

lemma someR_Inr_imp:
  "someR p xs = Inr b \<Longrightarrow> b \<longleftrightarrow> (\<exists>x \<in> set xs. p x = Inr True)"
  by (induction xs) (auto simp: bindR_eq_Inr split: if_splits)

lemma filterR_Inr_imp: "filterR p xs = Inr ys \<Longrightarrow> ys = filter (\<lambda>x. p x = Inr True) xs"
  by (induction xs arbitrary: ys) (auto simp: bindR_eq_Inr split: if_splits)

lemma filterR_all_ok: "filterR p xs = Inr ys \<Longrightarrow> x \<in> set xs \<Longrightarrow> isOk (p x)"
  by (induction xs arbitrary: ys) (auto simp: bindR_eq_Inr isOk_iff)

lemma overlapsAny_iff:
  assumes "\<forall>p \<in> set requested. validPeriod p" and "isOk (overlapsAny requested gap)"
  shows "overlapsAny requested gap = Inr True \<longleftrightarrow> instants (gapRange gap) \<inter> covered requested \<noteq> {}"
proof (cases "requested = []")
  case True
  then show ?thesis by (simp add: overlapsAny_def)
next
  case False
  have valid: "validPeriod (gapRange gap)"
    using assms(2) False
    by (cases requested) (auto simp: overlapsAny_def isOk_iff bindR_eq_Inr intersect_Inr)
  have "bindR (intersectTimePeriods (gapRange gap) p) (\<lambda>i. Inr (i \<noteq> None)) = Inr True \<longleftrightarrow>
      instants (gapRange gap) \<inter> instants p \<noteq> {}" if mem: "p \<in> set requested" for p
  proof -
    obtain i where "intersectTimePeriods (gapRange gap) p = Inr i"
      using mem assms(1) intersect_total [OF valid, of p] by blast
    then show ?thesis using intersect_nonempty by simp
  qed
  then have "(\<exists>p \<in> set requested. bindR (intersectTimePeriods (gapRange gap) p) (\<lambda>i. Inr (i \<noteq> None)) = Inr True)
      \<longleftrightarrow> (\<exists>p \<in> set requested. instants (gapRange gap) \<inter> instants p \<noteq> {})"
    by (rule bex_cong [OF refl])
  moreover obtain b where b: "overlapsAny requested gap = Inr b"
    using assms(2) by (auto simp: isOk_iff)
  ultimately have "b \<longleftrightarrow> (\<exists>p \<in> set requested. instants (gapRange gap) \<inter> instants p \<noteq> {})"
    using someR_Inr_imp [OF b [unfolded overlapsAny_def]] by (simp only:)
  then show ?thesis using b by (auto simp: covered_def)
qed

lemma finite_covered [simp]: "finite (covered ps)"
  by (simp add: covered_def instants_def)

text \<open>What a returned verdict was computed from.\<close>

lemma calculate_cases:
  assumes "calculateHistoricalCompleteness inp = Inr r"
  obtains d where
    "\<forall>p \<in> set (inRequested inp). validPeriod p"
    "canonical (resRequested r)" "covered (resRequested r) = covered (inRequested inp)"
    "canonical (resDefined r)"
    "covered (resDefined r) = covered (inDefined inp) \<inter> covered (inRequested inp)"
    "d = int (card (covered (inRequested inp)))"
    "temporalCoverageRatio (resCompleteness r) = (if d = 0 then 0 else
       min 1 (of_int (int (card (covered (inDefined inp) \<inter> covered (inRequested inp)))) / of_int d))"
    "gapCount (resCompleteness r) = length (filter
       (\<lambda>g. instants (gapRange g) \<inter> covered (inRequested inp) \<noteq> {}) (inGaps inp))"
    "(resStatus r, resReason r) = completenessVerdict inp d
       (temporalCoverageRatio (resCompleteness r)) (gapCount (resCompleteness r))"
proof -
  from assms obtain requested definedPs gaps rd dd pre suf where
    req: "normalizeTimePeriods (inRequested inp) = Inr requested"
    and defd: "intersectPeriodSets (inDefined inp) requested = Inr definedPs"
    and gaps: "filterR (overlapsAny requested) (inGaps inp) = Inr gaps"
    and rd: "timePeriodDurationMs requested = Inr rd"
    and dd: "timePeriodDurationMs definedPs = Inr dd"
    and r: "r = (let ratio = (if rd = 0 then 0 else min 1 (of_int dd / of_int rd));
        verdict = completenessVerdict inp rd ratio (length gaps) in
        \<lparr>resStatus = fst verdict, resReason = snd verdict,
             resCompleteness = \<lparr>temporalCoverageRatio = ratio, prefixComplete = pre,
               suffixComplete = suf, compSampleCount = inSampleCount inp,
               compSequenceCount = inSequenceCount inp, gapCount = length gaps\<rparr>,
             resRequested = requested, resDefined = definedPs\<rparr>)"
    unfolding calculateHistoricalCompleteness_def
    by (auto simp: bindR_eq_Inr Let_def)
  have c: "canonical requested" "covered requested = covered (inRequested inp)"
    "canonical definedPs" "covered definedPs = covered (inDefined inp) \<inter> covered (inRequested inp)"
    "\<forall>p \<in> set (inRequested inp). validPeriod p"
    using req defd by (auto simp: normalize_iff intersectPeriodSets_iff)
  have d: "rd = int (card (covered (inRequested inp)))"
    "dd = int (card (covered (inDefined inp) \<inter> covered (inRequested inp)))"
    using rd dd c by (auto simp: timePeriodDurationMs_iff)
  have "gaps = filter (\<lambda>g. instants (gapRange g) \<inter> covered (inRequested inp) \<noteq> {}) (inGaps inp)"
    using filterR_Inr_imp [OF gaps] filterR_all_ok [OF gaps] overlapsAny_iff [of requested] c
    by (auto simp: canonical_def intro!: filter_cong)
  with c d r that [of rd] show ?thesis by (simp add: Let_def)
qed

lemma ratio_full_iff:
  assumes "finite B" and "B \<noteq> {}"
  shows "min 1 (of_int (int (card (A \<inter> B))) / of_int (int (card B)) :: rat) < 1 \<longleftrightarrow> \<not> B \<subseteq> A"
proof -
  have pos: "0 < card B" using assms by (simp add: card_gt_0_iff)
  have le: "card (A \<inter> B) \<le> card B" using assms by (intro card_mono) auto
  have "card (A \<inter> B) = card B \<longleftrightarrow> B \<subseteq> A"
    using assms card_subset_eq [of B "A \<inter> B"] by (auto simp: Int_absorb1)
  then show ?thesis using pos le by (auto simp: min_def field_simps)
qed

section \<open>The slice plan\<close>

text \<open>A slice is what one source segment and one requested period have in common.\<close>

definition exactSlice :: "time_period list \<Rightarrow> source_segment \<Rightarrow> segment_slice \<Rightarrow> bool" where
  "exactSlice rs seg s \<longleftrightarrow>
     sliceVersionId s = segVersionId seg \<and> sliceSegmentNo s = segNo seg \<and>
     sliceSampleCount s = segSampleCount seg \<and> validPeriod (slicePeriod s) \<and>
     1 \<le> requestedPeriodNo s \<and> requestedPeriodNo s \<le> length rs \<and>
     instants (slicePeriod s) = instants (segPeriod seg) \<inter> instants (rs ! (requestedPeriodNo s - 1))"

definition sliceSpan :: "segment_slice list \<Rightarrow> int set" where
  "sliceSpan ss = (\<Union>s \<in> set ss. instants (slicePeriod s))"

lemma pushSlice_pair:
  "pushSlice seg acc (n, r) = bindR (intersectTimePeriods (segPeriod seg) r) (\<lambda>p.
     Inr (case p of None \<Rightarrow> acc | Some period \<Rightarrow> acc @
        [\<lparr>sliceVersionId = segVersionId seg, sliceSegmentNo = segNo seg,
          sliceSampleCount = segSampleCount seg, slicePeriod = period,
          sequenceNo = 0, requestedPeriodNo = n + 1\<rparr>]))"
  unfolding pushSlice_def fst_conv snd_conv ..

lemma pushSlice_exact:
  assumes "foldR (pushSlice seg) acc (enumerate n rs) = Inr out" and "drop n all = rs"
  shows "(\<forall>s \<in> set out. s \<in> set acc \<or> exactSlice all seg s) \<and>
     sliceSpan out = sliceSpan acc \<union> (instants (segPeriod seg) \<inter> covered rs)"
  using assms
proof (induction rs arbitrary: n acc)
  case (Cons r rs)
  have n: "n < length all" "all ! n = r" "drop (Suc n) all = rs"
  proof -
    show "n < length all" using Cons.prems(2) by (rule_tac ccontr) simp
    show "all ! n = r" using Cons.prems(2) by (rule nth_via_drop)
    show "drop (Suc n) all = rs" using Cons.prems(2) by (simp add: drop_Suc drop_tl)
  qed
  obtain i where i: "intersectTimePeriods (segPeriod seg) r = Inr i"
    and rest: "foldR (pushSlice seg) (case i of None \<Rightarrow> acc | Some period \<Rightarrow> acc @
        [\<lparr>sliceVersionId = segVersionId seg, sliceSegmentNo = segNo seg,
          sliceSampleCount = segSampleCount seg, slicePeriod = period,
          sequenceNo = 0, requestedPeriodNo = n + 1\<rparr>]) (enumerate (Suc n) rs) = Inr out"
    using Cons.prems(1) by (auto simp: bindR_eq_Inr pushSlice_pair)
  from Cons.IH [OF rest n(3)] i n(1,2) show ?case
    by (cases i) (auto simp: exactSlice_def sliceSpan_def intersect_Inr)
qed (simp add: sliceSpan_def)

lemma sliceSegment_exact:
  assumes "sliceSegment rs acc seg = Inr out"
  shows "(\<forall>s \<in> set out. s \<in> set acc \<or> exactSlice rs seg s) \<and>
     sliceSpan out = sliceSpan acc \<union> (instants (segPeriod seg) \<inter> covered rs)"
  using assms pushSlice_exact [of seg acc 0 rs out rs]
  by (auto simp: sliceSegment_def bindR_eq_Inr)

lemma sliceSegments_exact:
  assumes "foldR (sliceSegment rs) acc segs = Inr out"
  shows "(\<forall>s \<in> set out. s \<in> set acc \<or> (\<exists>seg \<in> set segs. exactSlice rs seg s)) \<and>
     sliceSpan out = sliceSpan acc \<union> ((\<Union>seg \<in> set segs. instants (segPeriod seg)) \<inter> covered rs)"
  using assms
proof (induction segs arbitrary: acc)
  case (Cons seg segs)
  then obtain mid where mid: "sliceSegment rs acc seg = Inr mid"
    and rest: "foldR (sliceSegment rs) mid segs = Inr out"
    by (auto simp: bindR_eq_Inr)
  from sliceSegment_exact [OF mid] Cons.IH [OF rest] show ?case by auto
qed simp

lemma exactSlice_renumber [simp]: "exactSlice rs seg (s\<lparr>sequenceNo := k\<rparr>) = exactSlice rs seg s"
  by (simp add: exactSlice_def)

lemma clipGap_exact:
  assumes "clipGap rs acc gap = Inr out"
  shows "(\<forall>g \<in> set out. g \<in> set acc \<or>
       (\<exists>r \<in> set rs. g = gap\<lparr>gapRange := gapRange g\<rparr> \<and> validPeriod (gapRange g) \<and>
          instants (gapRange g) = instants (gapRange gap) \<inter> instants r)) \<and>
     (\<Union>g \<in> set out. instants (gapRange g)) =
       (\<Union>g \<in> set acc. instants (gapRange g)) \<union> (instants (gapRange gap) \<inter> covered rs)"
  using assms unfolding clipGap_def
proof (induction rs arbitrary: acc)
  case (Cons r rs)
  then obtain i where i: "intersectTimePeriods (gapRange gap) r = Inr i"
    and rest: "foldR (\<lambda>acc requestedPeriod.
       bindR (intersectTimePeriods (gapRange gap) requestedPeriod) (\<lambda>r.
         Inr (case r of None \<Rightarrow> acc | Some rng \<Rightarrow> acc @ [copyGapWithRange gap rng])))
       (case i of None \<Rightarrow> acc | Some rng \<Rightarrow> acc @ [copyGapWithRange gap rng]) rs = Inr out"
    by (auto simp: bindR_eq_Inr)
  from Cons.IH [OF rest] i show ?case
    by (cases i) (auto simp: intersect_Inr copyGapWithRange_def)
qed simp

section \<open>The request domain\<close>

definition spanOf :: "stamp option \<Rightarrow> stamp \<Rightarrow> int set" where
  "spanOf start end = (case start of None \<Rightarrow> {} | Some s \<Rightarrow> {stampMs s ..< stampMs end})"

definition effectiveEndOf :: "interval_draft \<Rightarrow> stamp \<Rightarrow> stamp" where
  "effectiveEndOf interval effectiveCapturedAt =
     (case draftEnd interval of None \<Rightarrow> effectiveCapturedAt | Some e \<Rightarrow> e)"

definition envelopeSpan :: "interval_draft \<Rightarrow> stamp \<Rightarrow> int set" where
  "envelopeSpan interval effectiveCapturedAt =
     spanOf (draftStart interval) (effectiveEndOf interval effectiveCapturedAt)"

definition phaseSpan :: "stamp \<Rightarrow> execution_phase \<Rightarrow> int set" where
  "phaseSpan effectiveEnd phase =
     spanOf (phaseStart phase) (case phaseEnd phase of None \<Rightarrow> effectiveEnd | Some e \<Rightarrow> e)"

definition phasesSpan :: "phase_kind \<Rightarrow> stamp \<Rightarrow> execution_phase list \<Rightarrow> int set" where
  "phasesSpan kind effectiveEnd phases =
     (\<Union>phase \<in> {p \<in> set phases. phaseKind p = kind}. phaseSpan effectiveEnd phase)"

definition excludedSpan :: "excluded_period list \<Rightarrow> int set" where
  "excludedSpan es = (\<Union>e \<in> set es. instants (excludedRange e))"

lemma makePeriod_span:
  assumes "makePeriod s (Some e) = Inr i"
  shows "optionSpan i = spanOf s e" and "i = Some p \<Longrightarrow> validPeriod p"
  using assms
  by (auto simp: makePeriod_def spanOf_def optionSpan_def bindR_eq_Inr msSpan_def
      split: option.splits if_splits)

lemma domainPhaseStep_span:
  assumes "domainPhaseStep eff env acc ph = Inr acc'" and "validPeriod env"
    and "\<forall>p \<in> set (fst acc). validPeriod p"
  shows "covered (fst acc') = covered (fst acc) \<union> (instants env \<inter> phasesSpan RUNNING eff [ph])"
    and "excludedSpan (snd acc') = excludedSpan (snd acc) \<union> (instants env \<inter> phasesSpan PAUSED eff [ph])"
    and "\<forall>p \<in> set (fst acc'). validPeriod p"
proof -
  let ?e = "case phaseEnd ph of None \<Rightarrow> eff | Some e \<Rightarrow> e"
  obtain pp where pp: "makePeriod (phaseStart ph) (Some ?e) = Inr pp"
    using assms(1) by (auto simp: domainPhaseStep_def bindR_eq_Inr)
  have span: "optionSpan pp = phaseSpan eff ph" and valid: "\<And>p. pp = Some p \<Longrightarrow> validPeriod p"
    using makePeriod_span [OF pp] by (auto simp: phaseSpan_def)
  obtain c where c: "optionSpan c = phaseSpan eff ph \<inter> instants env" "\<And>p. c = Some p \<Longrightarrow> validPeriod p"
    and acc': "acc' = (case c of None \<Rightarrow> acc | Some clipped \<Rightarrow>
       if phaseKind ph = RUNNING then (fst acc @ [clipped], snd acc)
       else if phaseKind ph = PAUSED
       then (fst acc, snd acc @ [\<lparr>excludedReason = EXCLUDED_PAUSED_PHASE, excludedRange = clipped\<rparr>])
       else acc)"
  proof (cases pp)
    case None
    then show ?thesis using that [of None] assms(1) pp span
      by (simp add: domainPhaseStep_def optionSpan_def)
  next
    case (Some p)
    obtain i where i: "intersectTimePeriods p env = Inr i"
      using intersect_total [OF valid [OF Some] assms(2)] by blast
    have "optionSpan i = phaseSpan eff ph \<inter> instants env"
      using intersect_span [OF i] span Some by (simp add: optionSpan_def)
    moreover have "\<And>q. i = Some q \<Longrightarrow> validPeriod q" using i by (simp add: intersect_Inr)
    ultimately show ?thesis using that [of i] assms(1) pp Some i
      by (cases i) (simp_all add: domainPhaseStep_def)
  qed
  have "covered (fst acc') = covered (fst acc) \<union> (instants env \<inter> phasesSpan RUNNING eff [ph]) \<and>
    excludedSpan (snd acc') = excludedSpan (snd acc) \<union> (instants env \<inter> phasesSpan PAUSED eff [ph]) \<and>
    (\<forall>p \<in> set (fst acc'). validPeriod p)"
    using c acc' assms(3)
    by (cases c; cases "phaseKind ph")
      (auto simp: optionSpan_def phasesSpan_def excludedSpan_def)
  then show "covered (fst acc') = covered (fst acc) \<union> (instants env \<inter> phasesSpan RUNNING eff [ph])"
    and "excludedSpan (snd acc') = excludedSpan (snd acc) \<union> (instants env \<inter> phasesSpan PAUSED eff [ph])"
    and "\<forall>p \<in> set (fst acc'). validPeriod p"
    by blast+
qed

lemma phasesSpan_Cons:
  "phasesSpan k eff (p # ps) = phasesSpan k eff [p] \<union> phasesSpan k eff ps"
  by (auto simp: phasesSpan_def)

lemma domainPhases_span:
  assumes "foldR (domainPhaseStep eff env) acc phs = Inr acc'" and "validPeriod env"
    and "\<forall>p \<in> set (fst acc). validPeriod p"
  shows "covered (fst acc') = covered (fst acc) \<union> (instants env \<inter> phasesSpan RUNNING eff phs) \<and>
    excludedSpan (snd acc') = excludedSpan (snd acc) \<union> (instants env \<inter> phasesSpan PAUSED eff phs)"
  using assms
proof (induction phs arbitrary: acc)
  case Nil
  then show ?case by (simp add: phasesSpan_def)
next
  case (Cons ph phs)
  then obtain mid where mid: "domainPhaseStep eff env acc ph = Inr mid"
    and rest: "foldR (domainPhaseStep eff env) mid phs = Inr acc'"
    by (auto simp: bindR_eq_Inr)
  note step = domainPhaseStep_span [OF mid Cons.prems(2,3)]
  show ?case using Cons.IH [OF rest Cons.prems(2) step(3)] step(1,2)
    unfolding phasesSpan_Cons [of _ _ ph phs] by (simp add: Int_Un_distrib Un_assoc)
qed

lemma derive_cases:
  assumes "deriveHistoricalRequestDomain interval scope captured = Inr d"
  obtains env where
    "makePeriod (draftStart interval) (Some (effectiveEndOf interval captured)) = Inr env"
    "optionSpan env = envelopeSpan interval captured"
    "env = None \<Longrightarrow> requestedPeriods d = [] \<and> excludedPeriods d = []"
    "\<And>e. env = Some e \<Longrightarrow> validPeriod e \<and>
       domainWithin interval scope (effectiveEndOf interval captured) e = Inr d"
proof -
  from assms obtain eff env
    where eff: "(case draftEnd interval of Some e \<Rightarrow> Inr e
        | None \<Rightarrow> bindR (millis captured) (\<lambda>m. Inr (At m))) = Inr eff"
      and env: "makePeriod (draftStart interval) (Some eff) = Inr env"
      and rest: "(case env of
         None \<Rightarrow> Inr \<lparr>requestedPeriods = [], excludedPeriods = [],
                     openExecution = (draftEnd interval = None), conflicted = True\<rparr>
       | Some envelope \<Rightarrow> domainWithin interval scope eff envelope) = Inr d"
    unfolding deriveHistoricalRequestDomain_def bindR_eq_Inr by blast
  have "eff = effectiveEndOf interval captured"
    using eff by (cases "draftEnd interval") (auto simp: effectiveEndOf_def bindR_eq_Inr)
  with env rest makePeriod_span [OF env] that [of env] show ?thesis
    by (cases env) (auto simp: envelopeSpan_def)
qed

lemma domainWithin_active:
  assumes "domainWithin interval ACTIVE_PHASES_ONLY eff env = Inr d" and "validPeriod env"
  shows "covered (requestedPeriods d) = instants env \<inter> phasesSpan RUNNING eff (draftPhases interval)
    \<and> excludedSpan (excludedPeriods d) = instants env \<inter> phasesSpan PAUSED eff (draftPhases interval)
    \<and> canonical (requestedPeriods d)"
proof -
  obtain acc running
    where acc: "foldR (domainPhaseStep eff env) ([], []) (draftPhases interval) = Inr acc"
      and running: "normalizeTimePeriods (fst acc) = Inr running"
      and out: "requestedPeriods d = running" "set (excludedPeriods d) = set (snd acc)"
    using assms(1) by (auto simp: domainWithin_def bindR_eq_Inr)
  have "excludedSpan (excludedPeriods d) = excludedSpan (snd acc)" "excludedSpan [] = {}"
    using out(2) by (simp_all add: excludedSpan_def)
  moreover have "canonical running" "covered running = covered (fst acc)"
    using running by (simp_all add: normalize_iff)
  ultimately show ?thesis using domainPhases_span [OF acc assms(2)] out(1) by simp
qed

lemma derive_active_domain:
  assumes "deriveHistoricalRequestDomain interval ACTIVE_PHASES_ONLY captured = Inr d"
  shows "covered (requestedPeriods d) = envelopeSpan interval captured \<inter>
      phasesSpan RUNNING (effectiveEndOf interval captured) (draftPhases interval) \<and>
    excludedSpan (excludedPeriods d) = envelopeSpan interval captured \<inter>
      phasesSpan PAUSED (effectiveEndOf interval captured) (draftPhases interval)"
proof (rule derive_cases [OF assms])
  fix env
  assume env: "optionSpan env = envelopeSpan interval captured"
    "env = None \<Longrightarrow> requestedPeriods d = [] \<and> excludedPeriods d = []"
    "\<And>e. env = Some e \<Longrightarrow> validPeriod e \<and>
       domainWithin interval ACTIVE_PHASES_ONLY (effectiveEndOf interval captured) e = Inr d"
  show ?thesis
  proof (cases env)
    case None
    then show ?thesis using env(1,2) by (auto simp: optionSpan_def excludedSpan_def)
  next
    case (Some e)
    then show ?thesis using env(1) env(3) [OF Some] domainWithin_active [of interval _ e d]
      by (auto simp: optionSpan_def)
  qed
qed

lemma phasesSpan_simps:
  "phasesSpan k e [] = {}"
  "phasesSpan k e (p # ps) = (if phaseKind p = k then phaseSpan e p else {}) \<union> phasesSpan k e ps"
  by (auto simp: phasesSpan_def)

section \<open>Properties\<close>

text \<open>
  C25. Normalisation succeeds exactly on lists of non-empty periods with readable bounds, and
  its result is the one canonical list (sorted, pairwise separated) that covers the same
  milliseconds: nothing is lost, nothing invented, and order and overlap of the input do not
  matter.
\<close>

theorem normalizeTimePeriods_characterised:
  "normalizeTimePeriods ps = Inr qs \<longleftrightarrow>
     (\<forall>p \<in> set ps. validPeriod p) \<and> canonical qs \<and> covered qs = covered ps"
  by (rule normalize_iff)

theorem normalizeTimePeriods_characterised_witness:
  "normalizeTimePeriods
     [\<lparr>periodStart = At 5, periodEnd = At 9\<rparr>, \<lparr>periodStart = At 0, periodEnd = At 2\<rparr>,
      \<lparr>periodStart = At 2, periodEnd = At 4\<rparr>] =
     Inr [\<lparr>periodStart = At 0, periodEnd = At 4\<rparr>, \<lparr>periodStart = At 5, periodEnd = At 9\<rparr>]"
proof -
  have "{5 ..< 9} \<union> ({0 ..< 2} \<union> {2 ..< 4}) = {0 ..< 4} \<union> {5 ..< 9 :: int}" by auto
  then show ?thesis unfolding normalizeTimePeriods_characterised
    by (simp add: canonical_def validPeriod_def instants_def)
qed

text \<open>
  Intersecting two period sets yields the canonical list of exactly the milliseconds both
  cover.
\<close>

theorem intersectPeriodSets_exact:
  assumes "intersectPeriodSets left right = Inr ps"
  shows "canonical ps \<and> covered ps = covered left \<inter> covered right"
  using assms by (simp add: intersectPeriodSets_iff)

theorem intersectPeriodSets_exact_witness:
  "\<exists>ps. intersectPeriodSets [\<lparr>periodStart = At 0, periodEnd = At 6\<rparr>]
      [\<lparr>periodStart = At 4, periodEnd = At 9\<rparr>] = Inr ps \<and> covered ps = {4 ..< 6}"
proof -
  have ex: "intersectPeriodSets [\<lparr>periodStart = At 0, periodEnd = At 6\<rparr>]
      [\<lparr>periodStart = At 4, periodEnd = At 9\<rparr>] = Inr [\<lparr>periodStart = At 4, periodEnd = At 6\<rparr>]"
    by (auto simp: intersectPeriodSets_iff canonical_def validPeriod_def instants_def)
  have "{0 ..< 6} \<inter> {4 ..< 9} = {4 ..< 6 :: int}" by auto
  then show ?thesis using ex intersectPeriodSets_exact [OF ex] by (simp add: instants_def)
qed

text \<open>
  The reported duration of a list of periods is the number of milliseconds it covers,
  overlaps counted once.
\<close>

theorem timePeriodDurationMs_counts:
  assumes "timePeriodDurationMs ps = Inr d"
  shows "d = int (card (covered ps))"
  using assms by (simp add: timePeriodDurationMs_iff)

theorem timePeriodDurationMs_counts_witness:
  "\<exists>d. timePeriodDurationMs [\<lparr>periodStart = At 0, periodEnd = At 6\<rparr>,
      \<lparr>periodStart = At 4, periodEnd = At 9\<rparr>] = Inr d \<and> d = 9"
proof -
  have *: "timePeriodDurationMs [\<lparr>periodStart = At 0, periodEnd = At 6\<rparr>,
      \<lparr>periodStart = At 4, periodEnd = At 9\<rparr>] = Inr 9"
    by (simp add: timePeriodDurationMs_def normalizeTimePeriods_def asMillis_def Let_def
      mergeStep_def fromMillis_def comparePeriods_def orElse_def)
  from timePeriodDurationMs_counts [OF *] * show ?thesis by simp
qed

text \<open>
  C31. A completeness verdict is COMPLETED exactly when no conflict is flagged, something was
  requested, there are samples, every requested millisecond is covered by a defined period and
  no gap reaches into the request.
\<close>

theorem completed_iff_covered:
  assumes "calculateHistoricalCompleteness inp = Inr r"
  shows "resStatus r = COMPLETED \<longleftrightarrow>
     inSourceConflict inp \<noteq> Some True \<and> inIntervalConflict inp \<noteq> Some True \<and>
     covered (inRequested inp) \<noteq> {} \<and> inSampleCount inp \<noteq> 0 \<and>
     covered (inRequested inp) \<subseteq> covered (inDefined inp) \<and>
     (\<forall>g \<in> set (inGaps inp). instants (gapRange g) \<inter> covered (inRequested inp) = {})"
proof (rule calculate_cases [OF assms])
  fix d
  assume d: "d = int (card (covered (inRequested inp)))"
    and ratio: "temporalCoverageRatio (resCompleteness r) = (if d = 0 then 0 else
       min 1 (of_int (int (card (covered (inDefined inp) \<inter> covered (inRequested inp)))) / of_int d))"
    and gaps: "gapCount (resCompleteness r) = length (filter
       (\<lambda>g. instants (gapRange g) \<inter> covered (inRequested inp) \<noteq> {}) (inGaps inp))"
    and verdict: "(resStatus r, resReason r) = completenessVerdict inp d
       (temporalCoverageRatio (resCompleteness r)) (gapCount (resCompleteness r))"
  let ?R = "covered (inRequested inp)"
  have "d \<le> 0 \<longleftrightarrow> ?R = {}" using d by auto
  moreover have "temporalCoverageRatio (resCompleteness r) < 1 \<longleftrightarrow> \<not> ?R \<subseteq> covered (inDefined inp)"
    if "?R \<noteq> {}"
    using ratio d that ratio_full_iff [OF finite_covered that] by simp
  moreover have "gapCount (resCompleteness r) > 0 \<longleftrightarrow>
      (\<exists>g \<in> set (inGaps inp). instants (gapRange g) \<inter> ?R \<noteq> {})"
    using gaps by (auto simp: filter_empty_conv)
  moreover have "resStatus r = fst (completenessVerdict inp d
      (temporalCoverageRatio (resCompleteness r)) (gapCount (resCompleteness r)))"
    using verdict by (metis fst_conv)
  ultimately show ?thesis by (auto simp: completenessVerdict_def split: if_splits)
qed

definition sampleInput :: "completeness_input" where
  "sampleInput = \<lparr>inRequested = [\<lparr>periodStart = At 0, periodEnd = At 10\<rparr>],
     inDefined = [\<lparr>periodStart = At 0, periodEnd = At 10\<rparr>], inGaps = [],
     inSampleCount = 3, inSequenceCount = 1, inOpenExecution = None, inAsOfComplete = None,
     inSourceConflict = None, inIntervalConflict = None\<rparr>"

lemma sampleInput_ok: "isOk (calculateHistoricalCompleteness sampleInput)"
  by (simp add: calculateHistoricalCompleteness_def sampleInput_def isSafeInteger_def
    maxSafeInteger_def intersectPeriodSets_def timePeriodDurationMs_def normalizeTimePeriods_def
    asMillis_def fromMillis_def Let_def mergeStep_def intersectTimePeriods_def
    definedAtStart_def definedThroughEnd_def gapAtStart_def gapAtEnd_def endpointComplete_def)

theorem completed_iff_covered_witness:
  "\<exists>r. calculateHistoricalCompleteness sampleInput = Inr r \<and> resStatus r = COMPLETED"
proof -
  obtain r where r: "calculateHistoricalCompleteness sampleInput = Inr r"
    using sampleInput_ok by (auto simp: isOk_iff)
  have "resStatus r = COMPLETED"
    unfolding completed_iff_covered [OF r] by (simp add: sampleInput_def instants_def)
  then show ?thesis using r by blast
qed

text \<open>
  The coverage ratio of a verdict is the share of the requested milliseconds that are
  defined, and lies between 0 and 1.
\<close>

theorem coverage_ratio_exact:
  assumes "calculateHistoricalCompleteness inp = Inr r"
  shows "temporalCoverageRatio (resCompleteness r) =
      of_nat (card (covered (inDefined inp) \<inter> covered (inRequested inp))) /
      of_nat (card (covered (inRequested inp)))
    \<and> 0 \<le> temporalCoverageRatio (resCompleteness r)
    \<and> temporalCoverageRatio (resCompleteness r) \<le> 1"
proof (rule calculate_cases [OF assms])
  fix d
  assume d: "d = int (card (covered (inRequested inp)))"
    and ratio: "temporalCoverageRatio (resCompleteness r) = (if d = 0 then 0 else
       min 1 (of_int (int (card (covered (inDefined inp) \<inter> covered (inRequested inp)))) / of_int d))"
  have "card (covered (inDefined inp) \<inter> covered (inRequested inp)) \<le> card (covered (inRequested inp))"
    by (intro card_mono) auto
  then have "(of_nat (card (covered (inDefined inp) \<inter> covered (inRequested inp))) :: rat) /
      of_nat (card (covered (inRequested inp))) \<le> 1"
    by (auto simp: divide_le_eq)
  then show ?thesis using ratio d by (auto simp: min_def)
qed

theorem coverage_ratio_exact_witness:
  "\<exists>r. calculateHistoricalCompleteness sampleInput = Inr r \<and>
     temporalCoverageRatio (resCompleteness r) = 1"
proof -
  obtain r where r: "calculateHistoricalCompleteness sampleInput = Inr r"
    using sampleInput_ok by (auto simp: isOk_iff)
  have "temporalCoverageRatio (resCompleteness r) = 1"
    using coverage_ratio_exact [OF r] by (simp add: sampleInput_def instants_def)
  then show ?thesis using r by blast
qed

definition numberSlices :: "nat \<Rightarrow> segment_slice list \<Rightarrow> segment_slice list" where
  "numberSlices n ss = map (\<lambda>(index, slice). slice\<lparr>sequenceNo := index + 1\<rparr>) (enumerate n ss)"

lemma numberSlices_simps [simp]:
  "numberSlices n [] = []"
  "numberSlices n (s # ss) = s\<lparr>sequenceNo := n + 1\<rparr> # numberSlices (Suc n) ss"
  by (simp_all add: numberSlices_def)

lemma numberSlices_sequence:
  "map sequenceNo (numberSlices n ss) = [n + 1 ..< n + 1 + length ss]"
  by (induction ss arbitrary: n) (simp_all add: upt_conv_Cons del: upt_Suc)

lemma numberSlices_periods: "map slicePeriod (numberSlices n ss) = map slicePeriod ss"
  by (induction ss arbitrary: n) auto

lemma numberSlices_member: "s \<in> set (numberSlices n ss) \<Longrightarrow> \<exists>t \<in> set ss. \<exists>k. s = t\<lparr>sequenceNo := k\<rparr>"
  by (induction ss arbitrary: n) auto

lemma sliceSpan_periods: "sliceSpan ss = \<Union> (instants ` set (map slicePeriod ss))"
  by (simp add: sliceSpan_def image_image)

text \<open>
  C30. The slice plan never bridges a gap: every planned slice is exactly the common part of
  one source segment and one requested period (which its number names), together the slices
  cover every requested millisecond some segment covers, and they are numbered 1, 2, 3 and on.
\<close>

theorem slice_plan_exact:
  assumes "buildGapPreservingSlicePlan segments gaps requested = Inr plan"
  shows "\<exists>rs. normalizeTimePeriods requested = Inr rs \<and>
    (\<forall>s \<in> set (planSegments plan). \<exists>seg \<in> set segments. exactSlice rs seg s) \<and>
    sliceSpan (planSegments plan) =
      (\<Union>seg \<in> set segments. instants (segPeriod seg)) \<inter> covered requested \<and>
    map sequenceNo (planSegments plan) = [1 ..< length (planSegments plan) + 1]"
proof -
  obtain rs out where rs: "normalizeTimePeriods requested = Inr rs"
    and out: "foldR (sliceSegment rs) [] segments = Inr out"
    and plan: "planSegments plan = numberSlices 0 (sort_by compareSlices out)"
    using assms by (auto simp: buildGapPreservingSlicePlan_def bindR_eq_Inr numberSlices_def)
  have "sliceSpan (planSegments plan) = sliceSpan out"
    unfolding plan sliceSpan_periods [of "numberSlices _ _"] numberSlices_periods
    by (simp add: sliceSpan_def image_image)
  moreover have "\<exists>seg \<in> set segments. exactSlice rs seg s" if s: "s \<in> set (planSegments plan)" for s
  proof -
    obtain t k where "t \<in> set out" "s = t\<lparr>sequenceNo := k\<rparr>"
      using numberSlices_member s plan by fastforce
    then show ?thesis using sliceSegments_exact [OF out] by simp
  qed
  moreover have "covered rs = covered requested" using rs by (simp add: normalize_iff)
  moreover have "map sequenceNo (planSegments plan) = [1 ..< length (planSegments plan) + 1]"
    using numberSlices_sequence [of 0 "sort_by compareSlices out"] plan
      arg_cong [OF numberSlices_periods [of 0 "sort_by compareSlices out"], of length]
    by simp
  ultimately show ?thesis
    using rs sliceSegments_exact [OF out] by (simp add: sliceSpan_def [of "[]"])
qed

theorem slice_plan_exact_witness:
  "\<exists>plan. buildGapPreservingSlicePlan
       [\<lparr>segVersionId = [1], segNo = 1, segPeriod = \<lparr>periodStart = At 0, periodEnd = At 4\<rparr>, segSampleCount = 2\<rparr>,
        \<lparr>segVersionId = [1], segNo = 2, segPeriod = \<lparr>periodStart = At 6, periodEnd = At 9\<rparr>, segSampleCount = 2\<rparr>]
       [] [\<lparr>periodStart = At 2, periodEnd = At 8\<rparr>] = Inr plan \<and>
     sliceSpan (planSegments plan) = ({0 ..< 4} \<union> {6 ..< 9}) \<inter> {2 ..< 8}"
proof -
  let ?segs = "[\<lparr>segVersionId = [1], segNo = 1, segPeriod = \<lparr>periodStart = At 0, periodEnd = At 4\<rparr>, segSampleCount = 2\<rparr>,
        \<lparr>segVersionId = [1], segNo = 2, segPeriod = \<lparr>periodStart = At 6, periodEnd = At 9\<rparr>, segSampleCount = 2\<rparr>]
      :: source_segment list"
  let ?req = "[\<lparr>periodStart = At 2, periodEnd = At 8\<rparr>]"
  have "isOk (buildGapPreservingSlicePlan ?segs [] ?req)"
    by (simp add: buildGapPreservingSlicePlan_def normalizeTimePeriods_def asMillis_def fromMillis_def
      mergeStep_def sliceSegment_def pushSlice_def isSafeInteger_def maxSafeInteger_def
      intersectTimePeriods_def Let_def)
  then obtain plan where plan: "buildGapPreservingSlicePlan ?segs [] ?req = Inr plan"
    by (auto simp: isOk_iff)
  then show ?thesis using slice_plan_exact [OF plan] by (auto simp: instants_def)
qed

text \<open>
  C33. Restricting a request to the active phases keeps exactly the milliseconds of the
  execution envelope that a running phase covers, and reports as excluded exactly those that
  a pause covers.
\<close>

theorem active_domain_exact:
  assumes "deriveHistoricalRequestDomain interval ACTIVE_PHASES_ONLY captured = Inr d"
  shows "covered (requestedPeriods d) = envelopeSpan interval captured \<inter>
      phasesSpan RUNNING (effectiveEndOf interval captured) (draftPhases interval)
    \<and> excludedSpan (excludedPeriods d) = envelopeSpan interval captured \<inter>
      phasesSpan PAUSED (effectiveEndOf interval captured) (draftPhases interval)"
  by (rule derive_active_domain [OF assms])

definition sampleDraft :: interval_draft where
  "sampleDraft = \<lparr>executionNo = 1, lifecycleState = OPEN, derivationKind = OBSERVED,
     stabilityState = PROVISIONAL, draftStart = Some (At 0), draftEnd = None,
     startEventId = None, terminalEventId = None,
     draftPhases = [\<lparr>phaseNo = 1, phaseKind = RUNNING, phaseStart = Some (At 0), phaseEnd = Some (At 4),
         phaseStartEventId = None, phaseEndEventId = None, phaseConfidence = None, phaseReasonCodes = []\<rparr>,
       \<lparr>phaseNo = 2, phaseKind = PAUSED, phaseStart = Some (At 4), phaseEnd = None,
         phaseStartEventId = None, phaseEndEventId = None, phaseConfidence = None, phaseReasonCodes = []\<rparr>],
     draftConfidence = None, draftReasonCodes = [], inputEvents = []\<rparr>"

theorem active_domain_exact_witness:
  "\<exists>d. deriveHistoricalRequestDomain sampleDraft ACTIVE_PHASES_ONLY (At 9) = Inr d \<and>
     covered (requestedPeriods d) = {0 ..< 9} \<inter> {0 ..< 4}"
proof -
  have "isOk (deriveHistoricalRequestDomain sampleDraft ACTIVE_PHASES_ONLY (At 9))"
    by (simp add: deriveHistoricalRequestDomain_def domainWithin_def sampleDraft_def makePeriod_def
      domainPhaseStep_def intersectTimePeriods_def normalizeTimePeriods_def asMillis_def
      fromMillis_def mergeStep_def Let_def)
  then obtain d where d: "deriveHistoricalRequestDomain sampleDraft ACTIVE_PHASES_ONLY (At 9) = Inr d"
    by (auto simp: isOk_iff)
  have "envelopeSpan sampleDraft (At 9) = {0 ..< 9}"
    by (simp add: envelopeSpan_def effectiveEndOf_def spanOf_def sampleDraft_def)
  moreover have "phasesSpan RUNNING (effectiveEndOf sampleDraft (At 9)) (draftPhases sampleDraft) = {0 ..< 4}"
    by (simp add: phasesSpan_simps phaseSpan_def spanOf_def sampleDraft_def)
  ultimately show ?thesis using active_domain_exact [OF d] d by simp
qed

end
