(* ===== verification/SourceSelection.thy ===== *)
theory SourceSelection
  imports TimePeriods
begin

text \<open>
  \<open>packages/historical-trace-core/src/source-selection.ts\<close>: the choice of one authoritative
  source and tracker session among the tracklet versions known at a captured time, failing
  closed on every ambiguity.
\<close>

section \<open>Ordering candidates\<close>

definition overlapsRequested :: "tracklet_candidate \<Rightarrow> time_period list \<Rightarrow> trace_error + bool" where
  "overlapsRequested candidate requested =
     someR (\<lambda>requestPeriod. someR (\<lambda>candidatePeriod.
       bindR (intersectTimePeriods requestPeriod candidatePeriod) (\<lambda>i. Inr (i \<noteq> None)))
       (candidatePeriods candidate)) requested"

text \<open>The creation times compared here have been parsed by the relevance filter.\<close>

definition candidateOrder :: "tracklet_candidate \<Rightarrow> tracklet_candidate \<Rightarrow> int" where
  "candidateOrder left right =
     orElse (compareText (sourceKey left) (sourceKey right))
    (orElse (compareText (trackerSessionKey left) (trackerSessionKey right))
    (orElse (compareText (trackletId left) (trackletId right))
    (orElse (versionNo left - versionNo right)
    (orElse (stampMs (createdAt left) - stampMs (createdAt right))
      (compareText (trackletVersionId left) (trackletVersionId right))))))"

definition sortCandidates :: "tracklet_candidate list \<Rightarrow> tracklet_candidate list" where
  "sortCandidates candidates = sort_by candidateOrder candidates"

definition indeterminate :: "outcome_reason \<Rightarrow> tracklet_candidate list \<Rightarrow> selection_result" where
  "indeterminate reason candidates = INDETERMINATE_SELECTION reason (sortCandidates candidates)"

definition noData :: "tracklet_candidate list \<Rightarrow> selection_result" where
  "noData candidates = NO_DATA_SELECTION NO_SOURCE_CANDIDATE (sortCandidates candidates)"

section \<open>Effective versions\<close>

text \<open>The entries of a \<open>Map\<close> from tracklet id to its candidates, in insertion order.\<close>

fun pushGroup :: "tracklet_candidate \<Rightarrow> (js_string \<times> tracklet_candidate list) list \<Rightarrow>
    (js_string \<times> tracklet_candidate list) list" where
  "pushGroup c [] = [(trackletId c, [c])]"
| "pushGroup c ((t, cs) # gs) =
     (if t = trackletId c then (t, cs @ [c]) # gs else (t, cs) # pushGroup c gs)"

definition byTracklet :: "tracklet_candidate list \<Rightarrow> (js_string \<times> tracklet_candidate list) list" where
  "byTracklet candidates = foldl (\<lambda>gs c. pushGroup c gs) [] candidates"

definition latestOf :: "tracklet_candidate list \<Rightarrow> tracklet_candidate list" where
  "latestOf versions = filter (\<lambda>c. versionNo c = fold max (map versionNo (tl versions)) (versionNo (hd versions))) versions"

text \<open>\<open>None\<close> is the early return on two different latest versions.\<close>

definition effectiveOf :: "tracklet_candidate list \<Rightarrow> tracklet_candidate option" where
  "effectiveOf versions =
     (let latest = latestOf versions in
      if length (remdups (map trackletVersionId latest)) \<noteq> 1 then None
      else Some (hd (sortCandidates latest)))"

fun effectiveVersions :: "tracklet_candidate list list \<Rightarrow> tracklet_candidate list option" where
  "effectiveVersions [] = Some []"
| "effectiveVersions (g # gs) =
     (case effectiveOf g of None \<Rightarrow> None
      | Some c \<Rightarrow> (case effectiveVersions gs of None \<Rightarrow> None | Some cs \<Rightarrow> Some (c # cs)))"

definition periodsOverlap :: "tracklet_candidate \<Rightarrow> tracklet_candidate \<Rightarrow> trace_error + bool" where
  "periodsOverlap left right =
     someR (\<lambda>leftPeriod. someR (\<lambda>rightPeriod.
       bindR (intersectTimePeriods leftPeriod rightPeriod) (\<lambda>i. Inr (i \<noteq> None)))
       (candidatePeriods right)) (candidatePeriods left)"

text \<open>The double loop over pairs of different tracklets: does any pair overlap?\<close>

fun anyPairOverlaps :: "tracklet_candidate list \<Rightarrow> trace_error + bool" where
  "anyPairOverlaps [] = Inr False"
| "anyPairOverlaps (left # rest) =
     bindR (someR (\<lambda>right. if trackletId left = trackletId right then Inr False
                            else periodsOverlap left right) rest) (\<lambda>b.
       if b then Inr True else anyPairOverlaps rest)"

definition chooseEffectiveVersions ::
  "tracklet_candidate list \<Rightarrow> trace_error + tracklet_candidate list option" where
  "chooseEffectiveVersions candidates =
     (case effectiveVersions (map snd (byTracklet candidates)) of
        None \<Rightarrow> Inr None
      | Some effective \<Rightarrow>
          bindR (anyPairOverlaps (sortCandidates effective)) (\<lambda>b.
            Inr (if b then None else Some (sortCandidates effective))))"

section \<open>Selection\<close>

definition relevantTo ::
  "selection_request \<Rightarrow> int \<Rightarrow> time_period list \<Rightarrow> tracklet_candidate \<Rightarrow> trace_error + bool" where
  "relevantTo request captured requested candidate =
     bindR (ensureR (isSafeInteger (versionNo candidate) \<and> 1 \<le> versionNo candidate) InvalidVersionNo) (\<lambda>_.
     bindR (millis (createdAt candidate)) (\<lambda>created.
       if created \<le> captured \<and> subjectReferenceIdentity candidate = requestSubject request
       then overlapsRequested candidate requested else Inr False))"

definition matchesSelection :: "source_selection \<Rightarrow> tracklet_candidate \<Rightarrow> bool" where
  "matchesSelection s candidate =
     (case s of ONLY_CANDIDATE \<Rightarrow> True
      | EXPLICIT_SOURCE key session \<Rightarrow> sourceKey candidate = key \<and>
          (case session of None \<Rightarrow> True | Some k \<Rightarrow> trackerSessionKey candidate = k))"

definition narrow :: "selection_request \<Rightarrow> tracklet_candidate list \<Rightarrow> tracklet_candidate list" where
  "narrow request relevant =
     (let bySource = filter (matchesSelection (selection request)) relevant in
      case requestSpace request of None \<Rightarrow> bySource
      | Some space \<Rightarrow> filter (\<lambda>c. analysisSpaceIdentity c = space) bySource)"

text \<open>The checks on the relevant candidates, in the order of the early returns.\<close>

definition decideNarrowed :: "tracklet_candidate list \<Rightarrow> trace_error + selection_result" where
  "decideNarrowed relevant =
     (if relevant = [] then Inr (noData relevant)
      else if length (remdups (map analysisSpaceIdentity relevant)) \<noteq> 1
      then Inr (indeterminate ANALYSIS_SPACE_CONFLICT relevant)
      else if length (remdups (map sourceKey relevant)) \<noteq> 1
      then Inr (indeterminate MULTIPLE_SOURCE_CANDIDATES relevant)
      else if length (remdups (map trackerSessionKey relevant)) \<noteq> 1
      then Inr (indeterminate MULTIPLE_TRACKER_SESSIONS relevant)
      else bindR (chooseEffectiveVersions relevant) (\<lambda>effective.
        case effective of None \<Rightarrow> Inr (indeterminate MULTIPLE_TRACKLET_VERSIONS relevant)
        | Some e \<Rightarrow> Inr (SELECTED (sourceKey (hd e)) (trackerSessionKey (hd e))
            (analysisSpaceIdentity (hd e)) e)))"

definition decide :: "selection_request \<Rightarrow> tracklet_candidate list \<Rightarrow> trace_error + selection_result" where
  "decide request relevant =
     (if \<exists>c \<in> set relevant. bindingState c = Some CONFLICTED
      then Inr (indeterminate ENTITY_BINDING_CONFLICT relevant)
      else decideNarrowed (narrow request relevant))"

definition selectHistoricalSource ::
  "tracklet_candidate list \<Rightarrow> selection_request \<Rightarrow> trace_error + selection_result" where
  "selectHistoricalSource candidates request =
     bindR (millis (capturedAt request)) (\<lambda>captured.
     bindR (normalizeTimePeriods (requestPeriods request)) (\<lambda>requested.
     bindR (filterR (relevantTo request captured requested) candidates) (\<lambda>relevant.
     decide request relevant)))"

section \<open>Lemmas\<close>

lemma candidateOrder_order: "js_order candidateOrder"
  unfolding candidateOrder_def by (intro order_intros)

interpretation candidate_order: js_order candidateOrder
  by (rule candidateOrder_order)

lemma candidateOrder_zero: "candidateOrder x y = 0 \<Longrightarrow> trackletVersionId x = trackletVersionId y"
  by (simp add: candidateOrder_def orElse_zero text_order.cmp_zero_iff)

text \<open>Every group holds exactly the candidates of its tracklet.\<close>

definition groupsOf :: "tracklet_candidate list \<Rightarrow> (js_string \<times> tracklet_candidate list) list \<Rightarrow> bool" where
  "groupsOf cs gs \<longleftrightarrow> distinct (map fst gs) \<and>
     (\<forall>(t, g) \<in> set gs. g \<noteq> [] \<and> g = filter (\<lambda>c. trackletId c = t) cs) \<and>
     fst ` set gs = trackletId ` set cs"

lemma pushGroup_keys: "fst ` set (pushGroup c gs) = insert (trackletId c) (fst ` set gs)"
  by (induction c gs rule: pushGroup.induct) auto

lemma pushGroup_distinct: "distinct (map fst gs) \<Longrightarrow> distinct (map fst (pushGroup c gs))"
proof (induction c gs rule: pushGroup.induct)
  case (2 c t cs gs)
  have "fst ` set (pushGroup c gs) = insert (trackletId c) (fst ` set gs)" by (rule pushGroup_keys)
  then show ?case using 2 by auto
qed simp

lemma pushGroup_members:
  "distinct (map fst gs) \<Longrightarrow> (t, g) \<in> set (pushGroup c gs) \<longleftrightarrow>
     (if t = trackletId c then g = (case map_of gs t of None \<Rightarrow> [c] | Some h \<Rightarrow> h @ [c])
      else (t, g) \<in> set gs)"
  by (induction c gs rule: pushGroup.induct)
    (auto split: option.splits simp: image_iff dest: map_of_SomeD)

lemma byTracklet_groups: "groupsOf cs (byTracklet cs)"
proof (induction cs rule: rev_induct)
  case Nil
  then show ?case by (simp add: byTracklet_def groupsOf_def)
next
  case (snoc c cs)
  let ?gs = "byTracklet cs"
  have IH: "distinct (map fst ?gs)" "fst ` set ?gs = trackletId ` set cs"
    "\<And>t g. (t, g) \<in> set ?gs \<Longrightarrow> g \<noteq> [] \<and> g = filter (\<lambda>c. trackletId c = t) cs"
    using snoc by (auto simp: groupsOf_def)
  have step: "byTracklet (cs @ [c]) = pushGroup c ?gs" by (simp add: byTracklet_def)
  have "g \<noteq> [] \<and> g = filter (\<lambda>d. trackletId d = t) (cs @ [c])" if "(t, g) \<in> set (pushGroup c ?gs)" for t g
  proof (cases "t = trackletId c")
    case True
    then have g: "g = (case map_of ?gs t of None \<Rightarrow> [c] | Some h \<Rightarrow> h @ [c])"
      using that pushGroup_members [OF IH(1)] by simp
    show ?thesis
    proof (cases "map_of ?gs t")
      case None
      then have "t \<notin> trackletId ` set cs" using IH(2) by (simp add: map_of_eq_None_iff)
      then have "filter (\<lambda>d. trackletId d = t) cs = []" by (intro filter_False) blast
      then show ?thesis using g None True by simp
    next
      case (Some h)
      then have "h = filter (\<lambda>c. trackletId c = t) cs" using IH(3) map_of_SomeD by metis
      then show ?thesis using g Some True by simp
    qed
  next
    case False
    then have "(t, g) \<in> set ?gs" using that pushGroup_members [OF IH(1)] by simp
    then show ?thesis using IH(3) False by auto
  qed
  then show ?case unfolding groupsOf_def step
    using pushGroup_distinct [OF IH(1), of c] pushGroup_keys [of c ?gs] IH(2) by auto
qed

lemma someR_False: "someR p xs = Inr False \<longleftrightarrow> (\<forall>x \<in> set xs. p x = Inr False)"
  by (induction xs) (auto simp: bindR_eq_Inr)

lemma someR_True: "someR p xs = Inr True \<Longrightarrow> \<exists>x \<in> set xs. p x = Inr True"
  by (induction xs) (auto simp: bindR_eq_Inr split: if_splits)

definition meets :: "time_period list \<Rightarrow> time_period list \<Rightarrow> trace_error + bool" where
  "meets left right = someR (\<lambda>l. someR (\<lambda>r. bindR (intersectTimePeriods l r) (\<lambda>i. Inr (i \<noteq> None)))
     right) left"

lemma intersects_Inr:
  assumes "bindR (intersectTimePeriods l r) (\<lambda>i. Inr (i \<noteq> None)) = Inr b"
  shows "b \<longleftrightarrow> instants l \<inter> instants r \<noteq> {}"
proof -
  obtain i where i: "intersectTimePeriods l r = Inr i" "b = (i \<noteq> None)"
    using assms by (auto simp: bindR_eq_Inr)
  show ?thesis unfolding i(2) by (rule intersect_nonempty [OF i(1)])
qed

lemma meets_Inr:
  assumes "meets left right = Inr b"
  shows "b \<longleftrightarrow> covered left \<inter> covered right \<noteq> {}"
proof (cases b)
  case True
  then obtain l where l: "l \<in> set left"
    "someR (\<lambda>r. bindR (intersectTimePeriods l r) (\<lambda>i. Inr (i \<noteq> None))) right = Inr True"
    using someR_True [OF assms [unfolded meets_def True [THEN eqTrueI]]]
    unfolding meets_def by blast
  then obtain r where r: "r \<in> set right" "bindR (intersectTimePeriods l r) (\<lambda>i. Inr (i \<noteq> None)) = Inr True"
    using someR_True by fast
  then have "instants l \<inter> instants r \<noteq> {}" using intersects_Inr by blast
  moreover have "instants l \<inter> instants r \<subseteq> covered left \<inter> covered right"
    using l(1) r(1) unfolding covered_def by blast
  ultimately show ?thesis using True by blast
next
  case False
  then have all: "\<forall>l \<in> set left. \<forall>r \<in> set right.
      bindR (intersectTimePeriods l r) (\<lambda>i. Inr (i \<noteq> None)) = Inr False"
    using assms unfolding meets_def by (simp add: someR_False)
  have "instants l \<inter> instants r = {}" if "l \<in> set left" "r \<in> set right" for l r
    using all that intersects_Inr by blast
  then have "covered left \<inter> covered right = {}" unfolding covered_def by blast
  then show ?thesis using False by simp
qed

text \<open>A candidate known at the captured time that bears on the request.\<close>

definition eligible :: "selection_request \<Rightarrow> tracklet_candidate \<Rightarrow> bool" where
  "eligible request c \<longleftrightarrow>
     stampMs (createdAt c) \<le> stampMs (capturedAt request) \<and>
     subjectReferenceIdentity c = requestSubject request \<and>
     covered (candidatePeriods c) \<inter> covered (requestPeriods request) \<noteq> {}"

lemma relevantTo_Inr:
  assumes "relevantTo request (stampMs (capturedAt request)) requested c = Inr b"
    and "covered requested = covered (requestPeriods request)"
  shows "b \<longleftrightarrow> eligible request c"
proof -
  have over: "overlapsRequested c requested = meets requested (candidatePeriods c)"
    by (simp add: overlapsRequested_def meets_def)
  show ?thesis using assms meets_Inr [of requested "candidatePeriods c" b]
    by (auto simp: relevantTo_def bindR_eq_Inr over eligible_def Int_commute split: if_splits)
qed

lemma filterR_relevant:
  assumes "filterR (relevantTo request (stampMs (capturedAt request)) requested) cs = Inr rs"
    and "covered requested = covered (requestPeriods request)"
  shows "rs = filter (eligible request) cs"
proof -
  have "relevantTo request (stampMs (capturedAt request)) requested c = Inr True \<longleftrightarrow> eligible request c"
    if mem: "c \<in> set cs" for c
  proof -
    obtain b where "relevantTo request (stampMs (capturedAt request)) requested c = Inr b"
      using filterR_all_ok [OF assms(1) mem] by (auto simp: isOk_iff)
    then show ?thesis using relevantTo_Inr [OF _ assms(2)] by auto
  qed
  then show ?thesis unfolding filterR_Inr_imp [OF assms(1)] by (intro filter_cong) auto
qed

lemma single_value: "length (remdups xs) = 1 \<longleftrightarrow> (\<exists>a. set xs = {a})"
  by (simp add: length_remdups_card_conv card_1_singleton_iff)

lemma fold_max_version: "fold max ns n = Max (insert n (set ns))" for n :: int
  by (metis Max.set_eq_fold list.simps(15))

lemma effectiveOf_Some:
  assumes "effectiveOf g = Some c" and "g \<noteq> []"
  shows "c \<in> set g" and "\<forall>d \<in> set g. versionNo d \<le> versionNo c"
    and "\<forall>d \<in> set g. versionNo d = versionNo c \<longrightarrow> trackletVersionId d = trackletVersionId c"
proof -
  have mx: "fold max (map versionNo (tl g)) (versionNo (hd g)) = Max (versionNo ` set g)"
    using assms(2) by (cases g) (simp_all add: fold_max_version)
  have latest: "set (latestOf g) = {d \<in> set g. versionNo d = Max (versionNo ` set g)}"
    by (simp add: latestOf_def mx)
  have one: "length (remdups (map trackletVersionId (latestOf g))) = 1" and c: "c = hd (sortCandidates (latestOf g))"
    using assms(1) by (auto simp: effectiveOf_def Let_def split: if_splits)
  obtain a where a: "set (map trackletVersionId (latestOf g)) = {a}"
    using one [unfolded single_value] by (rule exE)
  then have "latestOf g \<noteq> []" by auto
  then have "c \<in> set (latestOf g)" unfolding c
    by (metis hd_in_set set_sort_by sort_by_eq_Nil sortCandidates_def)
  then have mem: "c \<in> {d \<in> set g. versionNo d = Max (versionNo ` set g)}"
    and "trackletVersionId c \<in> set (map trackletVersionId (latestOf g))"
    unfolding latest set_map by (assumption, rule imageI)
  then have cm: "c \<in> set g" "versionNo c = Max (versionNo ` set g)" "trackletVersionId c = a"
    unfolding a by simp_all
  show "c \<in> set g" by (rule cm(1))
  show "\<forall>d \<in> set g. versionNo d \<le> versionNo c" using cm(2) by simp
  show "\<forall>d \<in> set g. versionNo d = versionNo c \<longrightarrow> trackletVersionId d = trackletVersionId c"
  proof (intro ballI impI)
    fix d assume "d \<in> set g" "versionNo d = versionNo c"
    then have "d \<in> set (latestOf g)" unfolding latest using cm(2) by simp
    then have "trackletVersionId d \<in> set (map trackletVersionId (latestOf g))" by simp
    then show "trackletVersionId d = trackletVersionId c" unfolding a cm(3) by simp
  qed
qed

lemma effectiveVersions_iff:
  "effectiveVersions gs = Some es \<longleftrightarrow> list_all2 (\<lambda>g c. effectiveOf g = Some c) gs es"
proof (induction gs arbitrary: es)
  case (Cons g gs)
  then show ?case
    by (cases "effectiveOf g"; cases "effectiveVersions gs") (auto simp: list_all2_Cons1)
qed auto

lemma anyPairOverlaps_False:
  "anyPairOverlaps cs = Inr False \<Longrightarrow>
     sorted_wrt (\<lambda>c d. trackletId c \<noteq> trackletId d \<longrightarrow>
       covered (candidatePeriods c) \<inter> covered (candidatePeriods d) = {}) cs"
proof (induction cs)
  case (Cons c cs)
  then have c: "\<forall>d \<in> set cs. (if trackletId c = trackletId d then Inr False else periodsOverlap c d) = Inr False"
    and IH: "anyPairOverlaps cs = Inr False"
    by (auto simp: bindR_eq_Inr someR_False split: if_splits)
  have "covered (candidatePeriods c) \<inter> covered (candidatePeriods d) = {}"
    if d: "d \<in> set cs" "trackletId c \<noteq> trackletId d" for d
  proof -
    have "meets (candidatePeriods c) (candidatePeriods d) = Inr False"
      using bspec [OF c d(1)] d(2) unfolding meets_def periodsOverlap_def by simp
    from meets_Inr [OF this] show ?thesis by blast
  qed
  then show ?case using Cons.IH [OF IH] by simp
qed simp

lemma chooseEffectiveVersions_Some:
  assumes "chooseEffectiveVersions cs = Inr (Some es)"
  shows "distinct (map trackletId es)"
    and "\<forall>e \<in> set es. e \<in> set cs"
    and "\<forall>c \<in> set cs. \<exists>e \<in> set es. trackletId e = trackletId c \<and> versionNo c \<le> versionNo e \<and>
      (versionNo c = versionNo e \<longrightarrow> trackletVersionId c = trackletVersionId e)"
    and "sorted_wrt (\<lambda>c d. covered (candidatePeriods c) \<inter> covered (candidatePeriods d) = {}) es"
proof -
  let ?gs = "byTracklet cs"
  obtain us where us: "effectiveVersions (map snd ?gs) = Some us" "es = sortCandidates us"
    "anyPairOverlaps es = Inr False"
    using assms by (auto simp: chooseEffectiveVersions_def bindR_eq_Inr split: option.splits if_splits)
  have groups: "distinct (map fst ?gs)" "fst ` set ?gs = trackletId ` set cs"
    "\<And>t g. (t, g) \<in> set ?gs \<Longrightarrow> g \<noteq> [] \<and> g = filter (\<lambda>c. trackletId c = t) cs"
    using byTracklet_groups [of cs] by (auto simp: groupsOf_def)
  have all2: "list_all2 (\<lambda>g c. effectiveOf (snd g) = Some c) ?gs us"
    using us(1) by (simp add: effectiveVersions_iff list_all2_map1)
  have pick: "effectiveOf (snd (?gs ! i)) = Some (us ! i)" "i < length us \<Longrightarrow> ?gs ! i \<in> set ?gs"
    if "i < length us" for i
    using that all2 by (auto simp: list_all2_conv_all_nth)
  have grp: "snd (?gs ! i) \<noteq> []" "snd (?gs ! i) = filter (\<lambda>c. trackletId c = fst (?gs ! i)) cs"
    if "i < length us" for i
  proof -
    note g = groups(3) [of "fst (?gs ! i)" "snd (?gs ! i)", unfolded prod.collapse, OF pick(2) [OF that that]]
    show "snd (?gs ! i) \<noteq> []" by (rule conjunct1 [OF g])
    show "snd (?gs ! i) = filter (\<lambda>c. trackletId c = fst (?gs ! i)) cs" by (rule conjunct2 [OF g])
  qed
  have tid: "us ! i \<in> set cs \<and> trackletId (us ! i) = fst (?gs ! i)" if "i < length us" for i
    using effectiveOf_Some(1) [OF pick(1) [OF that] grp(1) [OF that]] grp(2) [OF that] by simp
  have len: "length ?gs = length us" using all2 by (rule list_all2_lengthD)
  have "map trackletId us = map fst ?gs"
    using tid len by (intro nth_equalityI) auto
  then have "distinct (map trackletId us)" using groups(1) by simp
  then show dist: "distinct (map trackletId es)"
    using distinct_map_perm [of es us trackletId] us(2) by (simp add: sortCandidates_def)
  have sets: "set es = set us" using us(2) by (simp add: sortCandidates_def)
  show "\<forall>e \<in> set es. e \<in> set cs" unfolding sets using tid by (metis in_set_conv_nth)
  show "\<forall>c \<in> set cs. \<exists>e \<in> set es. trackletId e = trackletId c \<and> versionNo c \<le> versionNo e \<and>
      (versionNo c = versionNo e \<longrightarrow> trackletVersionId c = trackletVersionId e)"
  proof
    fix c assume c: "c \<in> set cs"
    then have "trackletId c \<in> fst ` set ?gs" unfolding groups(2) by (rule imageI)
    then obtain i where i: "i < length us" "fst (?gs ! i) = trackletId c"
      unfolding len [symmetric] by (metis imageE in_set_conv_nth)
    have "c \<in> set (snd (?gs ! i))" unfolding grp(2) [OF i(1)] using c i(2) by simp
    then have "versionNo c \<le> versionNo (us ! i) \<and>
        (versionNo c = versionNo (us ! i) \<longrightarrow> trackletVersionId c = trackletVersionId (us ! i))"
      using effectiveOf_Some(2,3) [OF pick(1) [OF i(1)] grp(1) [OF i(1)]] by blast
    moreover have "us ! i \<in> set es" unfolding sets using i(1) by simp
    moreover have "trackletId (us ! i) = trackletId c" using tid [OF i(1)] i(2) by simp
    ultimately show "\<exists>e \<in> set es. trackletId e = trackletId c \<and> versionNo c \<le> versionNo e \<and>
      (versionNo c = versionNo e \<longrightarrow> trackletVersionId c = trackletVersionId e)" by blast
  qed
  show "sorted_wrt (\<lambda>c d. covered (candidatePeriods c) \<inter> covered (candidatePeriods d) = {}) es"
    using anyPairOverlaps_False [OF us(3)] dist
    by (simp add: sorted_wrt_iff_nth_less distinct_conv_nth)
qed

text \<open>The candidates left after the explicit choices of the request.\<close>

definition inScope :: "selection_request \<Rightarrow> tracklet_candidate \<Rightarrow> bool" where
  "inScope request c \<longleftrightarrow> eligible request c \<and> matchesSelection (selection request) c \<and>
     (case requestSpace request of None \<Rightarrow> True | Some space \<Rightarrow> analysisSpaceIdentity c = space)"

lemma narrow_filter: "narrow request (filter (eligible request) cs) = filter (inScope request) cs"
  by (auto simp: narrow_def inScope_def Let_def intro!: filter_cong split: option.splits)

text \<open>How a selection that returns came about.\<close>

lemma select_eq:
  assumes "selectHistoricalSource cs request = Inr r"
  shows "decide request (filter (eligible request) cs) = Inr r"
proof -
  obtain captured requested rs where c: "capturedAt request = At captured"
    "normalizeTimePeriods (requestPeriods request) = Inr requested"
    "filterR (relevantTo request captured requested) cs = Inr rs" "decide request rs = Inr r"
    using assms by (auto simp: selectHistoricalSource_def bindR_eq_Inr)
  have "covered requested = covered (requestPeriods request)" using c(2) by (simp add: normalize_iff)
  then have "rs = filter (eligible request) cs" using filterR_relevant c(1,3) by simp
  then show ?thesis using c(4) by simp
qed

lemma decide_Selected:
  assumes "decide request (filter (eligible request) cs) = Inr (SELECTED src ses space es)"
  shows "\<not> (\<exists>c \<in> set (filter (eligible request) cs). bindingState c = Some CONFLICTED)"
    and "decideNarrowed (filter (inScope request) cs) = Inr (SELECTED src ses space es)"
  using assms by (auto simp: decide_def indeterminate_def narrow_filter split: if_splits)

lemma decideNarrowed_Selected:
  assumes "decideNarrowed rs = Inr (SELECTED src ses space es)"
  shows "chooseEffectiveVersions rs = Inr (Some es)" and "rs \<noteq> []"
    and "analysisSpaceIdentity ` set rs = {space}" and "sourceKey ` set rs = {src}"
    and "trackerSessionKey ` set rs = {ses}" and "es \<noteq> []"
proof -
  have ne: "rs \<noteq> []" and one: "length (remdups (map analysisSpaceIdentity rs)) = 1"
    "length (remdups (map sourceKey rs)) = 1" "length (remdups (map trackerSessionKey rs)) = 1"
    and pick: "chooseEffectiveVersions rs = Inr (Some es)"
    and heads: "src = sourceKey (hd es)" "ses = trackerSessionKey (hd es)" "space = analysisSpaceIdentity (hd es)"
    using assms by (auto simp: decideNarrowed_def noData_def indeterminate_def bindR_eq_Inr
        split: if_splits option.splits)
  show "chooseEffectiveVersions rs = Inr (Some es)" "rs \<noteq> []" by fact+
  have "hd rs \<in> set rs" using ne by simp
  from bspec [OF chooseEffectiveVersions_Some(3) [OF pick] this] show ne': "es \<noteq> []" by auto
  have mem: "hd es \<in> set rs" using bspec [OF chooseEffectiveVersions_Some(2) [OF pick], of "hd es"] ne' by simp
  have single: "f ` set rs = {f (hd es)}" if l: "length (remdups (map f rs)) = 1" for f :: "tracklet_candidate \<Rightarrow> js_string"
  proof -
    obtain a where "set (map f rs) = {a}" using l [unfolded single_value] by (rule exE)
    then show ?thesis using imageI [OF mem, of f] by simp
  qed
  show "analysisSpaceIdentity ` set rs = {space}" "sourceKey ` set rs = {src}" "trackerSessionKey ` set rs = {ses}"
    using single one heads by simp_all
qed

section \<open>Properties\<close>

text \<open>
  C29. A selected source is unambiguous.  No candidate known at the captured time, about the
  subject and touching the request has a conflicted entity binding; all that also match the
  explicit choices share the selected source, tracker session and analysis space; the result
  holds one version per tracklet, the largest one of each and the only one of that number;
  and the periods of different tracklets in it never overlap.
\<close>

theorem selected_source_unambiguous:
  assumes "selectHistoricalSource cs request = Inr (SELECTED src ses space es)"
  shows "es \<noteq> [] \<and> distinct (map trackletId es) \<and>
    (\<forall>e \<in> set es. e \<in> set cs \<and> inScope request e) \<and>
    (\<forall>c \<in> set cs. eligible request c \<longrightarrow> bindingState c \<noteq> Some CONFLICTED) \<and>
    (\<forall>c \<in> set cs. inScope request c \<longrightarrow>
       sourceKey c = src \<and> trackerSessionKey c = ses \<and> analysisSpaceIdentity c = space \<and>
       (\<exists>e \<in> set es. trackletId e = trackletId c \<and> versionNo c \<le> versionNo e \<and>
         (versionNo c = versionNo e \<longrightarrow> trackletVersionId c = trackletVersionId e))) \<and>
    sorted_wrt (\<lambda>c d. covered (candidatePeriods c) \<inter> covered (candidatePeriods d) = {}) es"
proof -
  note dec = decide_Selected [OF select_eq [OF assms]]
  note nar = decideNarrowed_Selected [OF dec(2)]
  note eff = chooseEffectiveVersions_Some [OF nar(1)]
  have all: "sourceKey c = src \<and> trackerSessionKey c = ses \<and> analysisSpaceIdentity c = space"
    if c: "c \<in> set cs" "inScope request c" for c
  proof -
    have "c \<in> set (filter (inScope request) cs)" using c by simp
    from imageI [OF this, of sourceKey] imageI [OF this, of trackerSessionKey] imageI [OF this, of analysisSpaceIdentity]
    show ?thesis unfolding nar(3-5) by simp
  qed
  have "\<forall>e \<in> set es. e \<in> set cs \<and> inScope request e" using eff(2) by simp
  moreover have "\<forall>c \<in> set cs. eligible request c \<longrightarrow> bindingState c \<noteq> Some CONFLICTED" using dec(1) by simp
  moreover have "\<forall>c \<in> set cs. inScope request c \<longrightarrow>
       sourceKey c = src \<and> trackerSessionKey c = ses \<and> analysisSpaceIdentity c = space \<and>
       (\<exists>e \<in> set es. trackletId e = trackletId c \<and> versionNo c \<le> versionNo e \<and>
         (versionNo c = versionNo e \<longrightarrow> trackletVersionId c = trackletVersionId e))"
    using all eff(3) by simp
  ultimately show ?thesis using nar(6) eff(1,4) by simp
qed

definition sampleCandidate :: "string \<Rightarrow> int \<Rightarrow> int \<Rightarrow> int \<Rightarrow> tracklet_candidate" where
  "sampleCandidate t v a b = \<lparr>sourceKey = js ''radar'', trackerSessionKey = js ''s1'', trackletId = js t,
     trackletVersionId = js t @ [of_int v], versionNo = v, createdAt = At 5,
     subjectReferenceIdentity = js ''ugv'', analysisSpaceIdentity = js ''map'',
     candidatePeriods = [\<lparr>periodStart = At a, periodEnd = At b\<rparr>], bindingState = Some VALID\<rparr>"

definition sampleCandidates :: "tracklet_candidate list" where
  "sampleCandidates = [sampleCandidate ''a'' 1 0 10, sampleCandidate ''a'' 2 0 10, sampleCandidate ''b'' 1 10 20]"

definition sampleSelection :: selection_request where
  "sampleSelection = \<lparr>selection = ONLY_CANDIDATE, capturedAt = At 100, requestSubject = js ''ugv'',
     requestSpace = None, requestPeriods = [\<lparr>periodStart = At 0, periodEnd = At 30\<rparr>]\<rparr>"

lemma sampleSelection_selects:
  "selectHistoricalSource sampleCandidates sampleSelection = Inr (SELECTED (js ''radar'') (js ''s1'') (js ''map'')
     [sampleCandidate ''a'' 2 0 10, sampleCandidate ''b'' 1 10 20])"
  by code_simp

lemma selected_source_unambiguous_witness:
  "distinct (map trackletId [sampleCandidate ''a'' 2 0 10, sampleCandidate ''b'' 1 10 20])"
  using selected_source_unambiguous [OF sampleSelection_selects] by blast

lemma filterR_total:
  "(\<And>x. x \<in> set xs \<Longrightarrow> isOk (p x)) \<Longrightarrow> filterR p xs = Inr (filter (\<lambda>x. p x = Inr True) xs)"
proof (induction xs)
  case (Cons x xs)
  obtain b where "p x = Inr b" using Cons.prems [of x] by (auto simp: isOk_iff)
  then show ?case using Cons by simp
qed simp

lemma sortCandidates_perm:
  assumes "mset xs = mset ys" and "inj_on trackletVersionId (set xs)"
  shows "sortCandidates xs = sortCandidates ys"
  unfolding sortCandidates_def
proof (rule candidate_order.sort_by_perm [OF assms(1)])
  fix x y assume "x \<in> set xs" "y \<in> set xs" "candidateOrder x y = 0"
  then show "x = y" using candidateOrder_zero [of x y] assms(2) by (auto dest: inj_onD)
qed

lemma effectiveOf_perm:
  assumes "mset xs = mset ys" and "inj_on trackletVersionId (set xs)" and "xs \<noteq> []"
  shows "effectiveOf xs = effectiveOf ys"
proof -
  have set_eq: "set xs = set ys" and ne: "ys \<noteq> []" using mset_eq_setD [OF assms(1)] assms(3) by auto
  have mx: "fold max (map versionNo (tl zs)) (versionNo (hd zs)) = Max (versionNo ` set zs)" if "zs \<noteq> []" for zs
    using that by (cases zs) (simp_all add: fold_max_version)
  have latest: "mset (latestOf xs) = mset (latestOf ys)"
    unfolding latestOf_def mx [OF assms(3)] mx [OF ne] set_eq mset_filter assms(1) ..
  have "set (latestOf xs) \<subseteq> set xs" by (auto simp: latestOf_def)
  then have sorted: "sortCandidates (latestOf xs) = sortCandidates (latestOf ys)"
    using sortCandidates_perm [OF latest] inj_on_subset [OF assms(2)] by blast
  have "length (remdups (map trackletVersionId (latestOf xs))) = length (remdups (map trackletVersionId (latestOf ys)))"
    unfolding length_remdups_card_conv set_map mset_eq_setD [OF latest] ..
  then show ?thesis unfolding effectiveOf_def Let_def sorted by simp
qed

lemma effectiveVersions_map:
  "effectiveVersions gs = (if \<exists>g \<in> set gs. effectiveOf g = None then None
     else Some (map (\<lambda>g. the (effectiveOf g)) gs))"
  by (induction gs) (auto split: option.splits)

definition trackletPick :: "tracklet_candidate list \<Rightarrow> js_string \<Rightarrow> tracklet_candidate option" where
  "trackletPick cs t = effectiveOf (filter (\<lambda>c. trackletId c = t) cs)"

lemma effectiveVersions_byTracklet:
  "effectiveVersions (map snd (byTracklet cs)) =
     (if \<exists>t \<in> set (map fst (byTracklet cs)). trackletPick cs t = None then None
      else Some (map (\<lambda>t. the (trackletPick cs t)) (map fst (byTracklet cs))))"
proof -
  have "effectiveOf (snd g) = trackletPick cs (fst g)" if "g \<in> set (byTracklet cs)" for g
  proof -
    have "\<forall>g \<in> set (byTracklet cs). case g of (t, h) \<Rightarrow> h \<noteq> [] \<and> h = filter (\<lambda>c. trackletId c = t) cs"
      using byTracklet_groups [of cs] unfolding groupsOf_def by (elim conjE)
    from bspec [OF this that] have "snd g = filter (\<lambda>c. trackletId c = fst g) cs"
      by (simp only: split_def)
    then show ?thesis by (simp only: trackletPick_def)
  qed
  then show ?thesis unfolding effectiveVersions_map by (simp cong: bex_cong map_cong)
qed

lemma chooseEffectiveVersions_perm:
  assumes "mset cs = mset cs'" and "inj_on trackletVersionId (set cs)"
  shows "chooseEffectiveVersions cs = chooseEffectiveVersions cs'"
proof -
  have groups: "distinct (map fst (byTracklet xs))" "fst ` set (byTracklet xs) = trackletId ` set xs" for xs
    using byTracklet_groups [of xs] by (simp_all add: groupsOf_def)
  let ?K = "map fst (byTracklet cs)" and ?K' = "map fst (byTracklet cs')"
  have keys: "set ?K = set ?K'" using groups(2) mset_eq_setD [OF assms(1)] by simp
  then have mkeys: "mset ?K = mset ?K'" using groups(1) by (metis set_eq_iff_mset_eq_distinct)
  have pick: "trackletPick cs t = trackletPick cs' t" if t: "t \<in> set ?K" for t
    unfolding trackletPick_def
  proof (rule effectiveOf_perm)
    show "mset (filter (\<lambda>c. trackletId c = t) cs) = mset (filter (\<lambda>c. trackletId c = t) cs')"
      by (simp add: assms(1))
    show "inj_on trackletVersionId (set (filter (\<lambda>c. trackletId c = t) cs))"
      by (rule inj_on_subset [OF assms(2)]) simp
    have "t \<in> trackletId ` set cs" using t groups(2) [of cs] by simp
    then show "filter (\<lambda>c. trackletId c = t) cs \<noteq> []" unfolding filter_empty_conv by (rule imageE) blast
  qed
  show ?thesis
  proof (cases "\<exists>t \<in> set ?K. trackletPick cs t = None")
    case True
    then have "\<exists>t \<in> set ?K'. trackletPick cs' t = None" using keys pick by metis
    then show ?thesis using True by (simp add: chooseEffectiveVersions_def effectiveVersions_byTracklet)
  next
    case False
    then have none': "\<not> (\<exists>t \<in> set ?K'. trackletPick cs' t = None)" using keys pick by metis
    let ?es = "map (\<lambda>t. the (trackletPick cs t)) ?K" and ?es' = "map (\<lambda>t. the (trackletPick cs' t)) ?K'"
    have "mset ?es' = image_mset (\<lambda>t. the (trackletPick cs' t)) (mset ?K)" by (metis mset_map mkeys)
    also have "\<dots> = image_mset (\<lambda>t. the (trackletPick cs t)) (mset ?K)"
      using pick by (intro image_mset_cong) simp
    finally have mes: "mset ?es = mset ?es'" unfolding mset_map [of "\<lambda>t. the (trackletPick cs t)"] by (rule sym)
    have "effectiveVersions (map snd (byTracklet cs)) = Some ?es"
      unfolding effectiveVersions_byTracklet using False by (rule if_not_P)
    have "the (trackletPick cs t) \<in> set cs" if t: "t \<in> set ?K" for t
    proof -
      have "trackletPick cs t \<noteq> None" using False t by (metis (no_types))
      then obtain e where e: "trackletPick cs t = Some e" by (cases "trackletPick cs t") simp_all
      have "t \<in> trackletId ` set cs" using t groups(2) [of cs] by simp
      then have "filter (\<lambda>c. trackletId c = t) cs \<noteq> []" unfolding filter_empty_conv by (rule imageE) blast
      from effectiveOf_Some(1) [OF e [unfolded trackletPick_def] this] show ?thesis using e by simp
    qed
    then have "set ?es \<subseteq> set cs" unfolding set_map [of "\<lambda>t. the (trackletPick cs t)"] by (rule image_subsetI)
    then have same: "sortCandidates ?es = sortCandidates ?es'"
      using sortCandidates_perm [OF mes] inj_on_subset [OF assms(2)] by blast
    show ?thesis
      unfolding chooseEffectiveVersions_def effectiveVersions_byTracklet if_not_P [OF False] if_not_P [OF none']
        option.case same ..
  qed
qed

lemma remdups_perm: "mset xs = mset ys \<Longrightarrow> length (remdups (map f xs)) = length (remdups (map f ys))"
  unfolding length_remdups_card_conv set_map by (drule mset_eq_setD) (simp only:)

lemma decideNarrowed_perm:
  assumes "mset rs = mset rs'" and "inj_on trackletVersionId (set rs)"
  shows "decideNarrowed rs = decideNarrowed rs'"
proof -
  have "rs = [] \<longleftrightarrow> rs' = []" using assms(1) by auto
  then show ?thesis
    unfolding decideNarrowed_def indeterminate_def noData_def sortCandidates_perm [OF assms]
      chooseEffectiveVersions_perm [OF assms] remdups_perm [OF assms(1)] by simp
qed

lemma decide_perm:
  assumes "mset rs = mset rs'" and "inj_on trackletVersionId (set rs)"
  shows "decide request rs = decide request rs'"
proof -
  have nar: "mset (narrow request rs) = mset (narrow request rs')"
    using assms(1) by (simp add: narrow_def Let_def split: option.splits)
  have "inj_on trackletVersionId (set (narrow request rs))"
    by (rule inj_on_subset [OF assms(2)]) (auto simp: narrow_def Let_def split: option.splits)
  from decideNarrowed_perm [OF nar this] show ?thesis
    unfolding decide_def indeterminate_def sortCandidates_perm [OF assms] mset_eq_setD [OF assms(1)]
    by simp
qed

text \<open>
  C37. The selection does not depend on the order in which candidates are supplied, when a
  tracklet version id identifies its candidate.
\<close>

theorem selection_order_independent:
  assumes "selectHistoricalSource cs request = Inr r" and "mset cs' = mset cs"
    and "inj_on trackletVersionId (set cs)"
  shows "selectHistoricalSource cs' request = Inr r"
proof -
  obtain captured requested rs where c: "capturedAt request = At captured"
    "normalizeTimePeriods (requestPeriods request) = Inr requested"
    "filterR (relevantTo request captured requested) cs = Inr rs" "decide request rs = Inr r"
    using assms(1) by (auto simp: selectHistoricalSource_def bindR_eq_Inr)
  let ?p = "\<lambda>x. relevantTo request captured requested x = Inr True"
  have sets: "set cs' = set cs" using mset_eq_setD [OF assms(2)] .
  have rs: "rs = filter ?p cs" using filterR_Inr_imp [OF c(3)] .
  have "filterR (relevantTo request captured requested) cs' = Inr (filter ?p cs')"
    using filterR_all_ok [OF c(3)] unfolding sets [symmetric] by (rule filterR_total)
  moreover have "decide request (filter ?p cs') = decide request rs"
  proof (rule decide_perm)
    show "mset (filter ?p cs') = mset rs" unfolding rs by (simp add: assms(2))
    show "inj_on trackletVersionId (set (filter ?p cs'))"
      by (rule inj_on_subset [OF assms(3)]) (simp add: sets)
  qed
  ultimately show ?thesis using c(1,2,4) by (simp add: selectHistoricalSource_def)
qed

lemma selection_order_independent_witness:
  "selectHistoricalSource (rev sampleCandidates) sampleSelection =
     Inr (SELECTED (js ''radar'') (js ''s1'') (js ''map'')
       [sampleCandidate ''a'' 2 0 10, sampleCandidate ''b'' 1 10 20])"
  by (rule selection_order_independent [OF sampleSelection_selects])
    (simp_all add: sampleCandidates_def sampleCandidate_def inj_on_def js_def)

end
