(* ===== verification/CoverageModel.thy ===== *)
theory CoverageModel
  imports CanonicalJson
begin

text \<open>
  The data of the road-coverage packages (\<open>road-coverage-planning-core/src/types.ts\<close>,
  \<open>errors.ts\<close> and the coverage contracts they re-export), the canonical JSON of
  \<open>platform/contract-runtime/src/canonical-json.ts\<close> with the coverage documents that are
  digested, fixed-point metrics, and the deadline check the solvers share.

  All quantities are integers (contract schemas and \<open>Number.isSafeInteger\<close> see to that) and are
  kept as \<open>int\<close> with the range checks of the code.  The wall clock enters only through
  \<open>checkDeadline\<close>; since it never runs backwards, a run is determined by how many of these
  checks pass before the deadline, and that number is the \<open>clock\<close> threaded through the
  solvers.
\<close>

section \<open>Errors\<close>

datatype coverage_code =
    INVALID_AREA
  | INVALID_SELECTION_POLICY
  | VERSION_NOT_FOUND
  | SCOPE_DENIED
  | RESOURCE_EXHAUSTED
  | NO_OBLIGATIONS
  | CAPABILITY_NOT_AVAILABLE
  | DATABASE_UNAVAILABLE
  | AMBIGUOUS_LOCATION
  | UNREACHABLE
  | NO_FEASIBLE_PLAN

text \<open>
  A \<open>CoveragePlanningError\<close>, the \<open>TypeError\<close> of the serializer, or \<open>Stuck\<close>: the run-time would
  dereference \<open>undefined\<close> or never leave a loop.
\<close>

datatype coverage_error = Planning coverage_code | NotSerializable json_error | Stuck

section \<open>The deadline\<close>

definition checkDeadline :: "nat \<Rightarrow> coverage_error + nat" where
  "checkDeadline clock = (case clock of 0 \<Rightarrow> Inl (Planning RESOURCE_EXHAUSTED) | Suc n \<Rightarrow> Inr n)"

section \<open>Metrics\<close>

record fixed_metrics =
  distanceMm :: int
  durationMs :: int
  riskMicroUnits :: int
  energyMwh :: int
  combinedCostUnits :: int
  turnPenaltyUnits :: "int option"

definition turnPenalty :: "fixed_metrics \<Rightarrow> int" where
  "turnPenalty m = (case turnPenaltyUnits m of None \<Rightarrow> 0 | Some p \<Rightarrow> p)"

definition WHOLE :: int where
  "WHOLE = 1000000"

definition ZERO_METRICS :: fixed_metrics where
  "ZERO_METRICS = \<lparr>distanceMm = 0, durationMs = 0, riskMicroUnits = 0, energyMwh = 0,
     combinedCostUnits = 0, turnPenaltyUnits = Some 0\<rparr>"

text \<open>
  For integers in the safe range the sum in doubles is exact, or rounds to a number outside
  of it; so the checks below see the mathematical sum.
\<close>

definition safeAdd :: "int \<Rightarrow> int \<Rightarrow> coverage_error + int" where
  "safeAdd left right =
     (if isSafeInteger (left + right) \<and> 0 \<le> left + right then Inr (left + right)
      else Inl (Planning RESOURCE_EXHAUSTED))"

definition safeSignedAdd :: "int \<Rightarrow> int \<Rightarrow> coverage_error + int" where
  "safeSignedAdd left right =
     (if isSafeInteger (left + right) then Inr (left + right) else Inl (Planning RESOURCE_EXHAUSTED))"

text \<open>\<open>BigInt\<close> division truncates towards zero.\<close>

definition bigDiv :: "int \<Rightarrow> int \<Rightarrow> int" where
  "bigDiv a b = sgn a * sgn b * (\<bar>a\<bar> div \<bar>b\<bar>)"

definition sliceValue :: "int \<Rightarrow> int \<Rightarrow> int \<Rightarrow> int" where
  "sliceValue start end v = bigDiv (v * end) WHOLE - bigDiv (v * start) WHOLE"

definition slice :: "int \<Rightarrow> int \<Rightarrow> int \<Rightarrow> coverage_error + int" where
  "slice start end v =
     (if isSafeInteger (sliceValue start end v) \<and> 0 \<le> sliceValue start end v
      then Inr (sliceValue start end v) else Inl (Planning RESOURCE_EXHAUSTED))"

definition sliceMetrics :: "fixed_metrics \<Rightarrow> int \<Rightarrow> int \<Rightarrow> coverage_error + fixed_metrics" where
  "sliceMetrics m start end =
     bindR (slice start end (distanceMm m)) (\<lambda>d.
     bindR (slice start end (durationMs m)) (\<lambda>t.
     bindR (slice start end (riskMicroUnits m)) (\<lambda>r.
     bindR (slice start end (energyMwh m)) (\<lambda>e.
     bindR (slice start end (combinedCostUnits m)) (\<lambda>c.
     bindR (slice start end (turnPenalty m)) (\<lambda>p.
     Inr \<lparr>distanceMm = d, durationMs = t, riskMicroUnits = r, energyMwh = e,
          combinedCostUnits = c, turnPenaltyUnits = Some p\<rparr>))))))"

definition addMetrics :: "fixed_metrics \<Rightarrow> fixed_metrics \<Rightarrow> coverage_error + fixed_metrics" where
  "addMetrics left right =
     bindR (safeAdd (distanceMm left) (distanceMm right)) (\<lambda>d.
     bindR (safeAdd (durationMs left) (durationMs right)) (\<lambda>t.
     bindR (safeAdd (riskMicroUnits left) (riskMicroUnits right)) (\<lambda>r.
     bindR (safeAdd (energyMwh left) (energyMwh right)) (\<lambda>e.
     bindR (safeAdd (combinedCostUnits left) (combinedCostUnits right)) (\<lambda>c.
     bindR (safeAdd (turnPenalty left) (turnPenalty right)) (\<lambda>p.
     Inr \<lparr>distanceMm = d, durationMs = t, riskMicroUnits = r, energyMwh = e,
          combinedCostUnits = c, turnPenaltyUnits = Some p\<rparr>))))))"

definition metricValues :: "fixed_metrics \<Rightarrow> int list" where
  "metricValues m = [distanceMm m, durationMs m, riskMicroUnits m, energyMwh m,
     combinedCostUnits m, turnPenalty m]"

definition nonNegativeSafe :: "int \<Rightarrow> bool" where
  "nonNegativeSafe v \<longleftrightarrow> isSafeInteger v \<and> 0 \<le> v"

definition validateMetrics :: "fixed_metrics \<Rightarrow> coverage_error + unit" where
  "validateMetrics m =
     ensureR (\<forall>v \<in> set (metricValues m). nonNegativeSafe v) (Planning RESOURCE_EXHAUSTED)"

section \<open>The network, obligations and problems\<close>

datatype direction = FORWARD | REVERSE

record traversal_arc =
  arcGraphVersion :: js_string
  arcKey :: js_string
  fromNodeKey :: js_string
  toNodeKey :: js_string
  arcDirection :: direction
  arcMetrics :: fixed_metrics
  arcFeature :: "versioned_reference option"
  roadClass :: "js_string option"
  surface :: "js_string option"
  accessMask :: "int option"
  traversalAllowed :: "bool option"
  speedMmPerS :: "int option"
  speedOverrideMmPerS :: "int option"
  riskOverrideMicroUnits :: "int option"
  conditionPenaltyUnits :: "int option"

record routing_snapshot =
  snapGraphVersion :: js_string
  snapGraphContentHash :: js_string
  snapCostProfileVersion :: js_string
  snapCostContentHash :: js_string
  snapTravelProfileVersion :: js_string
  snapDatasetVersion :: js_string
  snapCapturedAt :: "js_string option"
  snapConditionContentHash :: "js_string option"
  snapConditionSnapshotId :: "js_string option"
  snapSourceWorldVersion :: "int option"

record directed_state =
  stateArcKey :: js_string
  stateDirection :: direction
  stateFraction :: int
  stateHeading :: "int option"
  stateFeature :: "versioned_reference option"

record obligation =
  obligationId :: js_string
  oblGraphVersion :: js_string
  oblEdgeKey :: "js_string option"
  oblArcKey :: js_string
  oblStart :: int
  oblEnd :: int
  requiredPasses :: int
  selectionPolicyVersion :: "js_string option"
  oblAreaReference :: "versioned_reference option"
  oblFeatureReference :: versioned_reference
  oblContentHash :: js_string

datatype endpoint_mode = RETURN_TO_START | FIXED_END | LAST_AREA_EXIT
datatype crossing_policy = FREE | FIRST_ENTRY_ONLY | ENTRY_SET_ONLY | NO_REENTRY

record coverage_budgets =
  timeLimitMs :: int
  maximumCandidates :: int
  maximumMatrixCells :: int

record coverage_problem =
  routingSnapshot :: routing_snapshot
  startState :: directed_state
  fixedEndState :: "directed_state option"
  entryStates :: "directed_state list option"
  exitStates :: "directed_state list option"
  endpointMode :: endpoint_mode
  boundaryCrossingPolicy :: crossing_policy
  obligations :: "obligation list"
  budgets :: coverage_budgets

section \<open>Routes\<close>

datatype route_phase = ACCESS_PHASE | INSIDE_PHASE | EXIT_PHASE | RETURN_PHASE
datatype service_role =
  SERVICE | DUPLICATE_SERVICE | TRANSIT | DEADHEAD | ACCESS_ROLE | BOUNDARY_EXIT | RETURN_ROLE

record route_segment =
  segSequence :: nat
  segGraphVersion :: js_string
  segArcKey :: js_string
  segStart :: int
  segEnd :: int
  segPhase :: route_phase
  segRole :: service_role
  segObligationIds :: "js_string list option"
  segFeature :: "versioned_reference option"
  segMetrics :: fixed_metrics

record route_body =
  bodyStartState :: directed_state
  bodyEndState :: directed_state
  bodySegments :: "route_segment list"
  bodyBoundaryEvents :: "int json list option"
  bodyMetrics :: fixed_metrics

record coverage_route =
  routeBody :: route_body
  routeSignature :: js_string

text \<open>Where on the network a fraction of an arc lies; \<open>padStart(7, "0")\<close> on the fraction.\<close>

definition padSeven :: "int \<Rightarrow> js_string" where
  "padSeven n = replicate (7 - length (intText n)) 48 @ intText n"

definition stateNode :: "traversal_arc \<Rightarrow> int \<Rightarrow> js_string" where
  "stateNode arc fraction =
     (if fraction = 0 then js ''node:'' @ fromNodeKey arc
      else if fraction = WHOLE then js ''node:'' @ toNodeKey arc
      else js ''state:'' @ arcKey arc @ js '':'' @ padSeven fraction)"

section \<open>Contract JSON\<close>

text \<open>
  \<open>contract-runtime\<close> has a canonical JSON of its own: keys are ordered by code point, and
  \<open>JSON.stringify\<close> turns a non-finite number into \<open>null\<close>.
\<close>

definition sortByCodePoint :: "(js_string \<times> 'v) list \<Rightarrow> (js_string \<times> 'v) list" where
  "sortByCodePoint es = sort_by (\<lambda>l r. compareUnicodeCodePoints (fst l) (fst r)) es"

lemma set_sortByCodePoint [simp]: "set (sortByCodePoint es) = set es"
  by (simp add: sortByCodePoint_def)

function (sequential) contractJson :: "int json \<Rightarrow> json_error + js_string" where
  "contractJson JNull = Inr (js ''null'')"
| "contractJson (JBool b) = Inr (if b then js ''true'' else js ''false'')"
| "contractJson (JStr s) = Inr (stringifyText s)"
| "contractJson (JNum n) = Inr (intText n)"
| "contractJson JNonFinite = Inr (js ''null'')"
| "contractJson JUnsupported = Inl UnsupportedValue"
| "contractJson (JArr vs) =
     bindR (mapR (\<lambda>v. contractJson v) vs) (\<lambda>ts. Inr ([91] @ joinComma ts @ [93]))"
| "contractJson (JObj es) =
     bindR (mapR (\<lambda>(k, v). bindR (contractJson v) (\<lambda>t. Inr (stringifyText k @ [58] @ t)))
       (sortByCodePoint es)) (\<lambda>ts. Inr ([123] @ joinComma ts @ [125]))"
  by pat_completeness auto

termination
  by (relation "measure size")
    (auto simp: size_entry less_Suc_eq_le intro: size_list_estimation' [OF _ order_refl])

definition contractSha256 :: "(js_string \<Rightarrow> js_string) \<Rightarrow> int json \<Rightarrow> json_error + js_string" where
  "contractSha256 sha v = bindR (contractJson v) (\<lambda>t. Inr (js ''sha256:'' @ sha t))"

section \<open>Digested documents\<close>

fun directionText :: "direction \<Rightarrow> js_string" where
  "directionText FORWARD = js ''FORWARD''"
| "directionText REVERSE = js ''REVERSE''"

fun phaseText :: "route_phase \<Rightarrow> js_string" where
  "phaseText ACCESS_PHASE = js ''ACCESS''"
| "phaseText INSIDE_PHASE = js ''INSIDE''"
| "phaseText EXIT_PHASE = js ''EXIT''"
| "phaseText RETURN_PHASE = js ''RETURN''"

fun roleText :: "service_role \<Rightarrow> js_string" where
  "roleText SERVICE = js ''SERVICE''"
| "roleText DUPLICATE_SERVICE = js ''DUPLICATE_SERVICE''"
| "roleText TRANSIT = js ''TRANSIT''"
| "roleText DEADHEAD = js ''DEADHEAD''"
| "roleText ACCESS_ROLE = js ''ACCESS''"
| "roleText BOUNDARY_EXIT = js ''BOUNDARY_EXIT''"
| "roleText RETURN_ROLE = js ''RETURN''"

definition metricsJson :: "fixed_metrics \<Rightarrow> int json" where
  "metricsJson m = JObj ([(js ''distanceMm'', JNum (distanceMm m)), (js ''durationMs'', JNum (durationMs m)),
     (js ''riskMicroUnits'', JNum (riskMicroUnits m)), (js ''energyMwh'', JNum (energyMwh m)),
     (js ''combinedCostUnits'', JNum (combinedCostUnits m))] @
     optionalEntry ''turnPenaltyUnits'' (map_option JNum (turnPenaltyUnits m)))"

definition stateJson :: "directed_state \<Rightarrow> int json" where
  "stateJson s = JObj ([(js ''arcKey'', JStr (stateArcKey s)), (js ''fractionPpm'', JNum (stateFraction s)),
     (js ''direction'', JStr (directionText (stateDirection s)))] @
     optionalEntry ''headingMicrodegrees'' (map_option JNum (stateHeading s)) @
     optionalEntry ''sourceFeatureReferenceKey'' (map_option versionedReferenceJson (stateFeature s)))"

definition snapshotJson :: "routing_snapshot \<Rightarrow> int json" where
  "snapshotJson s = JObj ([(js ''graphVersion'', JStr (snapGraphVersion s)),
     (js ''graphContentHash'', JStr (snapGraphContentHash s)),
     (js ''costProfileVersion'', JStr (snapCostProfileVersion s)),
     (js ''costContentHash'', JStr (snapCostContentHash s)),
     (js ''travelProfileVersion'', JStr (snapTravelProfileVersion s)),
     (js ''networkDatasetVersion'', JStr (snapDatasetVersion s))] @
     optionalEntry ''capturedAt'' (map_option JStr (snapCapturedAt s)) @
     optionalEntry ''conditionContentHash'' (map_option JStr (snapConditionContentHash s)) @
     optionalEntry ''conditionSnapshotId'' (map_option JStr (snapConditionSnapshotId s)) @
     optionalEntry ''sourceWorldVersion'' (map_option JNum (snapSourceWorldVersion s)))"

definition segmentJson :: "route_segment \<Rightarrow> int json" where
  "segmentJson s = JObj ([(js ''sequence'', JNum (int (segSequence s))),
     (js ''graphVersion'', JStr (segGraphVersion s)), (js ''arcKey'', JStr (segArcKey s)),
     (js ''startFractionPpm'', JNum (segStart s)), (js ''endFractionPpm'', JNum (segEnd s)),
     (js ''phase'', JStr (phaseText (segPhase s))), (js ''serviceRole'', JStr (roleText (segRole s)))] @
     optionalEntry ''obligationIds'' (map_option (\<lambda>ids. JArr (map JStr ids)) (segObligationIds s)) @
     optionalEntry ''sourceFeatureReferenceKey'' (map_option versionedReferenceJson (segFeature s)) @
     [(js ''metrics'', metricsJson (segMetrics s))])"

definition routeBodyJson :: "route_body \<Rightarrow> int json" where
  "routeBodyJson b = JObj ([(js ''routeIndex'', JNum 1), (js ''startState'', stateJson (bodyStartState b)),
     (js ''endState'', stateJson (bodyEndState b)), (js ''segments'', JArr (map segmentJson (bodySegments b)))] @
     optionalEntry ''boundaryEvents'' (map_option JArr (bodyBoundaryEvents b)) @
     [(js ''metrics'', metricsJson (bodyMetrics b))])"

definition signRoute :: "(js_string \<Rightarrow> js_string) \<Rightarrow> route_body \<Rightarrow> coverage_error + coverage_route" where
  "signRoute sha body =
     bindR (map_sum NotSerializable id (contractSha256 sha (routeBodyJson body))) (\<lambda>signature.
       Inr \<lparr>routeBody = body, routeSignature = signature\<rparr>)"

section \<open>Lemmas\<close>

lemma checkDeadline_Inr [simp, res_simps]: "checkDeadline c = Inr n \<longleftrightarrow> c = Suc n"
  by (cases c) (auto simp: checkDeadline_def)

lemma safeAdd_Inr [simp, res_simps]:
  "safeAdd a b = Inr c \<longleftrightarrow> c = a + b \<and> isSafeInteger (a + b) \<and> 0 \<le> a + b"
  by (auto simp: safeAdd_def)

lemma safeSignedAdd_Inr [simp, res_simps]:
  "safeSignedAdd a b = Inr c \<longleftrightarrow> c = a + b \<and> isSafeInteger (a + b)"
  by (auto simp: safeSignedAdd_def)

lemma validateMetrics_Inr [simp]:
  "validateMetrics m = Inr u \<longleftrightarrow> (\<forall>v \<in> set (metricValues m). nonNegativeSafe v)"
  by (simp add: validateMetrics_def)

lemma bigDiv_nonneg: "0 \<le> a \<Longrightarrow> 0 < b \<Longrightarrow> bigDiv a b = a div b"
  by (auto simp: bigDiv_def sgn_if)

text \<open>A slice of a validated metric is in range, and adjacent slices add up exactly.\<close>

lemma slice_valid:
  assumes "nonNegativeSafe v" and "0 \<le> s" and "s \<le> e" and "e \<le> WHOLE"
  shows "slice s e v = Inr (v * e div WHOLE - v * s div WHOLE) \<and>
    nonNegativeSafe (v * e div WHOLE - v * s div WHOLE)"
proof -
  have v: "0 \<le> v" "v \<le> maxSafeInteger" using assms(1) by (auto simp: nonNegativeSafe_def isSafeInteger_def)
  have mono: "v * s div WHOLE \<le> v * e div WHOLE"
    using assms(3) v by (intro zdiv_mono1 mult_left_mono) (auto simp: WHOLE_def)
  have pos: "0 \<le> v * s div WHOLE" using assms(2) v by (simp add: WHOLE_def pos_imp_zdiv_nonneg_iff)
  have "v * e div WHOLE \<le> v * WHOLE div WHOLE"
    using assms(4) v by (intro zdiv_mono1 mult_left_mono) (auto simp: WHOLE_def)
  then have "v * e div WHOLE \<le> v" by (simp add: WHOLE_def)
  then have "nonNegativeSafe (v * e div WHOLE - v * s div WHOLE)"
    using v mono pos by (simp add: nonNegativeSafe_def isSafeInteger_def)
  moreover have "sliceValue s e v = v * e div WHOLE - v * s div WHOLE"
    using assms v by (simp add: sliceValue_def bigDiv_nonneg WHOLE_def)
  ultimately show ?thesis by (simp add: slice_def nonNegativeSafe_def)
qed

end
