(* ===== verification/ShortestPath.thy ===== *)
theory ShortestPath
  imports CoverageModel
begin

text \<open>
  The connector search of \<open>road-coverage-planning-core/src/closed-dcpp.ts\<close> (\<open>shortestPath\<close>):
  Dijkstra's algorithm over traversal arcs with the combined cost, its result and its two
  failures, and the proof that what it returns is a cheapest path.

  \<open>distance.get\<close> of a node at infinity is \<open>None\<close>; the \<open>Map\<close>s are functions because their order
  is never observed.
\<close>

section \<open>The algorithm\<close>

record 'edge priced_path =
  pathCost :: int
  pathArcs :: "'edge list"

type_synonym shortest_path = "traversal_arc priced_path"

record search_state =
  distanceTo :: "js_string \<Rightarrow> int option"
  previousArc :: "js_string \<Rightarrow> traversal_arc option"
  settledNodes :: "js_string list"

definition byArcKey :: "traversal_arc list \<Rightarrow> traversal_arc list" where
  "byArcKey arcs = sort_by (\<lambda>l r. compareUnicodeCodePoints (arcKey l) (arcKey r)) arcs"

definition nodesOf :: "traversal_arc list \<Rightarrow> js_string list" where
  "nodesOf arcs = sort_by compareText (remdups (concat (map (\<lambda>a. [fromNodeKey a, toNodeKey a]) arcs)))"

definition outgoing :: "traversal_arc list \<Rightarrow> js_string \<Rightarrow> traversal_arc list" where
  "outgoing arcs node = byArcKey (filter (\<lambda>a. fromNodeKey a = node) arcs)"

definition arcCost :: "traversal_arc \<Rightarrow> int" where
  "arcCost a = combinedCostUnits (arcMetrics a)"

text \<open>One node of the scan for the nearest unsettled node.\<close>

definition nearer ::
  "search_state \<Rightarrow> (js_string \<times> int) option \<Rightarrow> js_string \<Rightarrow> (js_string \<times> int) option" where
  "nearer st best node =
     (case distanceTo st node of None \<Rightarrow> best
      | Some c \<Rightarrow> if node \<notin> set (settledNodes st) \<and> (case best of None \<Rightarrow> True | Some (_, b) \<Rightarrow> c < b)
          then Some (node, c) else best)"

definition nearest :: "search_state \<Rightarrow> js_string list \<Rightarrow> (js_string \<times> int) option" where
  "nearest st nodes = foldl (nearer st) None nodes"

definition relax :: "int \<Rightarrow> search_state \<Rightarrow> traversal_arc \<Rightarrow> coverage_error + search_state" where
  "relax d st arc =
     bindR (safeAdd d (arcCost arc)) (\<lambda>candidate.
       Inr (if (case distanceTo st (toNodeKey arc) of None \<Rightarrow> True | Some existing \<Rightarrow> candidate < existing)
            then st\<lparr>distanceTo := (distanceTo st)(toNodeKey arc \<mapsto> candidate),
                    previousArc := (previousArc st)(toNodeKey arc \<mapsto> arc)\<rparr>
            else st))"

fun searchLoop ::
  "traversal_arc list \<Rightarrow> js_string list \<Rightarrow> js_string \<Rightarrow> nat \<Rightarrow> search_state \<Rightarrow>
     coverage_error + (search_state \<times> nat)" where
  "searchLoop arcs nodes to clock st =
     (if length (settledNodes st) < length nodes
      then (case clock of 0 \<Rightarrow> Inl (Planning RESOURCE_EXHAUSTED)
        | Suc rest \<Rightarrow>
          (case nearest st nodes of None \<Rightarrow> Inr (st, rest)
           | Some (current, d) \<Rightarrow>
               if current = to then Inr (st, rest)
               else bindR (foldR (relax d) (st\<lparr>settledNodes := settledNodes st @ [current]\<rparr>)
                      (outgoing arcs current)) (\<lambda>st'. searchLoop arcs nodes to rest st')))
      else Inr (st, clock))"

declare searchLoop.simps [simp del]

text \<open>
  \<open>while (cursor !== from)\<close>, pushing arcs and reversing at the end.  The fuel is the number of
  steps allowed; \<open>Stuck\<close> would be an endless walk.
\<close>

fun walkBack ::
  "(js_string \<Rightarrow> traversal_arc option) \<Rightarrow> js_string \<Rightarrow> nat \<Rightarrow> js_string \<Rightarrow> traversal_arc list \<Rightarrow>
     coverage_error + traversal_arc list" where
  "walkBack prev from fuel cursor path =
     (if cursor = from then Inr path
      else (case prev cursor of None \<Rightarrow> Inl (Planning UNREACHABLE)
        | Some arc \<Rightarrow> (case fuel of 0 \<Rightarrow> Inl Stuck
            | Suc n \<Rightarrow> walkBack prev from n (fromNodeKey arc) (arc # path))))"

declare walkBack.simps [simp del]

definition shortestPath ::
  "traversal_arc list \<Rightarrow> js_string \<Rightarrow> js_string \<Rightarrow> nat \<Rightarrow> coverage_error + (shortest_path \<times> nat)" where
  "shortestPath arcs from to clock =
     (if from = to then Inr (\<lparr>pathCost = 0, pathArcs = []\<rparr>, clock)
      else bindR (searchLoop arcs (nodesOf arcs) to clock
             \<lparr>distanceTo = (\<lambda>_. None)(from \<mapsto> 0), previousArc = (\<lambda>_. None), settledNodes = []\<rparr>) (\<lambda>(st, rest).
        (case distanceTo st to of None \<Rightarrow> Inl (Planning UNREACHABLE)
         | Some cost \<Rightarrow>
             bindR (walkBack (previousArc st) from (length (nodesOf arcs) + 1) to []) (\<lambda>path.
               Inr (\<lparr>pathCost = cost, pathArcs = path\<rparr>, rest)))))"

section \<open>Paths\<close>

inductive arc_path :: "traversal_arc list \<Rightarrow> js_string \<Rightarrow> traversal_arc list \<Rightarrow> js_string \<Rightarrow> bool"
  for arcs where
  path_nil: "arc_path arcs u [] u"
| path_cons: "a \<in> set arcs \<Longrightarrow> arc_path arcs (toNodeKey a) p w \<Longrightarrow> arc_path arcs (fromNodeKey a) (a # p) w"

inductive_simps arc_path_Nil [simp]: "arc_path arcs u [] w"
inductive_simps arc_path_Cons: "arc_path arcs u (a # p) w"

definition routeCost :: "traversal_arc list \<Rightarrow> int" where
  "routeCost p = sum_list (map arcCost p)"

lemma routeCost_simps [simp]:
  "routeCost [] = 0" "routeCost (a # p) = arcCost a + routeCost p" "routeCost (p @ q) = routeCost p + routeCost q"
  by (simp_all add: routeCost_def)

lemma arc_path_append:
  "arc_path arcs u (p @ q) w \<longleftrightarrow> (\<exists>v. arc_path arcs u p v \<and> arc_path arcs v q w)"
  by (induction p arbitrary: u) (auto simp: arc_path_Cons)

definition nonNegativeCosts :: "traversal_arc list \<Rightarrow> bool" where
  "nonNegativeCosts arcs \<longleftrightarrow> (\<forall>a \<in> set arcs. 0 \<le> arcCost a)"

lemma routeCost_nonneg: "nonNegativeCosts arcs \<Longrightarrow> arc_path arcs u p w \<Longrightarrow> 0 \<le> routeCost p"
  by (induction p arbitrary: u) (auto simp: arc_path_Cons nonNegativeCosts_def)

lemma set_outgoing [simp]: "a \<in> set (outgoing arcs u) \<longleftrightarrow> a \<in> set arcs \<and> fromNodeKey a = u"
  by (simp add: outgoing_def byArcKey_def)

lemma set_nodesOf: "set (nodesOf arcs) = fromNodeKey ` set arcs \<union> toNodeKey ` set arcs"
  by (auto simp: nodesOf_def)

lemma distinct_nodesOf: "distinct (nodesOf arcs)"
  by (simp add: nodesOf_def)

section \<open>The scan\<close>

fun scanned :: "search_state \<Rightarrow> js_string set \<Rightarrow> (js_string \<times> int) option \<Rightarrow> bool" where
  "scanned st seen None = (\<forall>v \<in> seen. v \<notin> set (settledNodes st) \<longrightarrow> distanceTo st v = None)"
| "scanned st seen (Some (u, d)) = (u \<in> seen \<and> u \<notin> set (settledNodes st) \<and> distanceTo st u = Some d \<and>
     (\<forall>v \<in> seen. \<forall>e. v \<notin> set (settledNodes st) \<longrightarrow> distanceTo st v = Some e \<longrightarrow> d \<le> e))"

lemma scanned_nearer:
  assumes "scanned st seen best"
  shows "scanned st (insert v seen) (nearer st best v)"
proof (cases "distanceTo st v")
  case None
  then show ?thesis using assms by (cases best) (auto simp: nearer_def)
next
  case (Some c)
  show ?thesis
  proof (cases best)
    case None
    then show ?thesis using assms Some by (auto simp: nearer_def)
  next
    case (Some ud)
    obtain u d where ud: "best = Some (u, d)" using Some by (cases ud) simp
    show ?thesis
    proof (cases "v \<notin> set (settledNodes st) \<and> c < d")
      case True
      then show ?thesis using assms \<open>distanceTo st v = Some c\<close> unfolding ud nearer_def by fastforce
    next
      case False
      then show ?thesis using assms \<open>distanceTo st v = Some c\<close> unfolding ud nearer_def by auto
    qed
  qed
qed

lemma nearest_scanned: "scanned st (set nodes) (nearest st nodes)"
  unfolding nearest_def
proof (induction nodes rule: rev_induct)
  case (snoc v nodes)
  then show ?case using scanned_nearer [of st "set nodes"] by simp
qed simp

section \<open>Invariant of the search\<close>

text \<open>
  \<open>treeOk\<close>: a node other than the start that has a distance has it through an arc from a node
  settled before it.  \<open>settledAt\<close> is the position in the order of settlement, the number of
  settled nodes for those not settled yet.
\<close>

fun settledAt :: "js_string list \<Rightarrow> js_string \<Rightarrow> nat" where
  "settledAt [] v = 0"
| "settledAt (x # xs) v = (if x = v then 0 else Suc (settledAt xs v))"

lemma settledAt_less: "settledAt xs v < length xs \<longleftrightarrow> v \<in> set xs"
  by (induction xs) auto

lemma settledAt_append: "settledAt (xs @ ys) v = (if v \<in> set xs then settledAt xs v else length xs + settledAt ys v)"
  by (induction xs) auto

definition treeOk :: "traversal_arc list \<Rightarrow> js_string \<Rightarrow> search_state \<Rightarrow> bool" where
  "treeOk arcs from st \<longleftrightarrow> distanceTo st from = Some 0 \<and>
     (\<forall>v d. distanceTo st v = Some d \<longrightarrow> 0 \<le> d) \<and>
     (\<forall>v d. distanceTo st v = Some d \<longrightarrow> v \<noteq> from \<longrightarrow>
       (\<exists>a c. previousArc st v = Some a \<and> a \<in> set arcs \<and> toNodeKey a = v \<and>
          distanceTo st (fromNodeKey a) = Some c \<and> d = c + arcCost a \<and>
          fromNodeKey a \<in> set (settledNodes st) \<and>
          settledAt (settledNodes st) (fromNodeKey a) < settledAt (settledNodes st) v))"

definition closedOk :: "traversal_arc list \<Rightarrow> search_state \<Rightarrow> bool" where
  "closedOk arcs st \<longleftrightarrow>
     (\<forall>a \<in> set arcs. fromNodeKey a \<in> set (settledNodes st) \<longrightarrow>
        (\<exists>c d. distanceTo st (fromNodeKey a) = Some c \<and> distanceTo st (toNodeKey a) = Some d \<and> d \<le> c + arcCost a))"

definition frontierOk :: "search_state \<Rightarrow> bool" where
  "frontierOk st \<longleftrightarrow> (\<forall>u v c d. u \<in> set (settledNodes st) \<longrightarrow> distanceTo st u = Some c \<longrightarrow>
     v \<notin> set (settledNodes st) \<longrightarrow> distanceTo st v = Some d \<longrightarrow> c \<le> d) \<and>
     (\<forall>u \<in> set (settledNodes st). distanceTo st u \<noteq> None)"

definition searchInv :: "traversal_arc list \<Rightarrow> js_string \<Rightarrow> js_string \<Rightarrow> search_state \<Rightarrow> bool" where
  "searchInv arcs from to st \<longleftrightarrow> treeOk arcs from st \<and> closedOk arcs st \<and> frontierOk st \<and>
     distinct (settledNodes st) \<and> set (settledNodes st) \<subseteq> set (nodesOf arcs) \<and> to \<notin> set (settledNodes st)"

text \<open>Every path is met by the search at or before its end.\<close>

lemma path_bound:
  assumes "closedOk arcs st" and "distanceTo st from = Some 0" and "nonNegativeCosts arcs"
    and "arc_path arcs from p x"
  shows "(\<exists>d. distanceTo st x = Some d \<and> d \<le> routeCost p) \<or>
    (\<exists>y d. y \<notin> set (settledNodes st) \<and> y \<in> set (nodesOf arcs) \<and> distanceTo st y = Some d \<and> d \<le> routeCost p)"
  using assms(4)
proof (induction p arbitrary: x rule: rev_induct)
  case Nil
  then show ?case using assms(2) by auto
next
  case (snoc a p)
  then have p: "arc_path arcs from p (fromNodeKey a)" and a: "a \<in> set arcs" "x = toNodeKey a"
    by (auto simp: arc_path_append arc_path_Cons)
  have nonneg: "0 \<le> arcCost a" using assms(3) a(1) by (simp add: nonNegativeCosts_def)
  from snoc.IH [OF p] show ?case
  proof
    assume "\<exists>d. distanceTo st (fromNodeKey a) = Some d \<and> d \<le> routeCost p"
    then obtain d where d: "distanceTo st (fromNodeKey a) = Some d" "d \<le> routeCost p" by blast
    show ?thesis
    proof (cases "fromNodeKey a \<in> set (settledNodes st)")
      case True
      then obtain e where "distanceTo st x = Some e" "e \<le> d + arcCost a"
        using assms(1) a d(1) by (fastforce simp: closedOk_def)
      then show ?thesis using d(2) by auto
    next
      case False
      moreover have "fromNodeKey a \<in> set (nodesOf arcs)" using a(1) by (simp add: set_nodesOf)
      moreover have "d \<le> routeCost (p @ [a])" using d(2) nonneg by simp
      ultimately show ?thesis using d(1) by blast
    qed
  next
    assume "\<exists>y d. y \<notin> set (settledNodes st) \<and> y \<in> set (nodesOf arcs) \<and> distanceTo st y = Some d \<and> d \<le> routeCost p"
    then show ?thesis using nonneg by fastforce
  qed
qed

text \<open>What relaxing a list of arcs out of one node does.\<close>

definition relaxedBy :: "int \<Rightarrow> search_state \<Rightarrow> traversal_arc list \<Rightarrow> search_state \<Rightarrow> bool" where
  "relaxedBy d st xs st' \<longleftrightarrow> settledNodes st' = settledNodes st \<and>
     (\<forall>a \<in> set xs. \<exists>e. distanceTo st' (toNodeKey a) = Some e \<and> e \<le> d + arcCost a) \<and>
     (\<forall>v. (distanceTo st' v = distanceTo st v \<and> previousArc st' v = previousArc st v) \<or>
        (\<exists>a \<in> set xs. toNodeKey a = v \<and> previousArc st' v = Some a \<and> distanceTo st' v = Some (d + arcCost a) \<and>
           (\<forall>e. distanceTo st v = Some e \<longrightarrow> d + arcCost a < e)))"

lemma relaxedBy_less_eq:
  "relaxedBy d st xs st' \<Longrightarrow> distanceTo st v = Some e \<Longrightarrow> \<exists>e'. distanceTo st' v = Some e' \<and> e' \<le> e"
  unfolding relaxedBy_def by (metis order_refl order_less_imp_le)

lemma relax_step:
  assumes "relax d st a = Inr st'"
  shows "relaxedBy d st [a] st'"
  using assms
  by (auto simp: relax_def relaxedBy_def bindR_eq_Inr split: option.splits if_splits)

lemma relaxedBy_trans:
  assumes "relaxedBy d st [a] st'" and "relaxedBy d st' xs st''"
  shows "relaxedBy d st (a # xs) st''"
  unfolding relaxedBy_def
proof (intro conjI ballI allI)
  show "settledNodes st'' = settledNodes st" using assms by (simp add: relaxedBy_def)
  fix b assume b: "b \<in> set (a # xs)"
  show "\<exists>e. distanceTo st'' (toNodeKey b) = Some e \<and> e \<le> d + arcCost b"
  proof (cases "b \<in> set xs")
    case True
    then show ?thesis using assms(2) unfolding relaxedBy_def by blast
  next
    case False
    then have "b = a" using b by simp
    then obtain e where "distanceTo st' (toNodeKey b) = Some e" "e \<le> d + arcCost b"
      using assms(1) by (auto simp: relaxedBy_def)
    then show ?thesis using relaxedBy_less_eq [OF assms(2)] order_trans by blast
  qed
next
  fix v
  have 1: "(distanceTo st' v = distanceTo st v \<and> previousArc st' v = previousArc st v) \<or>
      (toNodeKey a = v \<and> previousArc st' v = Some a \<and> distanceTo st' v = Some (d + arcCost a) \<and>
        (\<forall>e. distanceTo st v = Some e \<longrightarrow> d + arcCost a < e))"
    using assms(1) by (auto simp: relaxedBy_def)
  have 2: "(distanceTo st'' v = distanceTo st' v \<and> previousArc st'' v = previousArc st' v) \<or>
      (\<exists>b \<in> set xs. toNodeKey b = v \<and> previousArc st'' v = Some b \<and> distanceTo st'' v = Some (d + arcCost b) \<and>
        (\<forall>e. distanceTo st' v = Some e \<longrightarrow> d + arcCost b < e))"
    using assms(2) unfolding relaxedBy_def by blast
  show "(distanceTo st'' v = distanceTo st v \<and> previousArc st'' v = previousArc st v) \<or>
      (\<exists>b \<in> set (a # xs). toNodeKey b = v \<and> previousArc st'' v = Some b \<and> distanceTo st'' v = Some (d + arcCost b) \<and>
        (\<forall>e. distanceTo st v = Some e \<longrightarrow> d + arcCost b < e))"
    using 2
  proof
    assume "distanceTo st'' v = distanceTo st' v \<and> previousArc st'' v = previousArc st' v"
    then show ?thesis using 1 by (metis list.set_intros(1))
  next
    assume "\<exists>b \<in> set xs. toNodeKey b = v \<and> previousArc st'' v = Some b \<and> distanceTo st'' v = Some (d + arcCost b) \<and>
        (\<forall>e. distanceTo st' v = Some e \<longrightarrow> d + arcCost b < e)"
    then obtain b where b: "b \<in> set xs" "toNodeKey b = v" "previousArc st'' v = Some b"
        "distanceTo st'' v = Some (d + arcCost b)" "\<forall>e. distanceTo st' v = Some e \<longrightarrow> d + arcCost b < e" by metis
    have "\<forall>e. distanceTo st v = Some e \<longrightarrow> d + arcCost b < e"
      using relaxedBy_less_eq [OF assms(1), of v] b(5) by (metis order_less_le_trans)
    then show ?thesis using b(1-4) by (metis list.set_intros(2))
  qed
qed

lemma relax_fold: "foldR (relax d) st xs = Inr st' \<Longrightarrow> relaxedBy d st xs st'"
proof (induction xs arbitrary: st)
  case Nil
  then show ?case by (simp add: relaxedBy_def)
next
  case (Cons a xs)
  then obtain u where "relax d st a = Inr u" "foldR (relax d) u xs = Inr st'" by (auto simp: bindR_eq_Inr)
  then show ?case using relaxedBy_trans [OF relax_step] Cons.IH by blast
qed

lemma settle_inv:
  assumes inv: "searchInv arcs from to st" and nn: "nonNegativeCosts arcs"
    and near: "nearest st (nodesOf arcs) = Some (u, d)" and "u \<noteq> to"
    and rel: "relaxedBy d (st\<lparr>settledNodes := settledNodes st @ [u]\<rparr>) (outgoing arcs u) st'"
    and start: "from \<in> set (nodesOf arcs)"
  shows "searchInv arcs from to st'"
proof -
  let ?S = "settledNodes st"
  have near': "u \<in> set (nodesOf arcs)" "u \<notin> set ?S" "distanceTo st u = Some d"
    "\<And>v e. v \<in> set (nodesOf arcs) \<Longrightarrow> v \<notin> set ?S \<Longrightarrow> distanceTo st v = Some e \<Longrightarrow> d \<le> e"
    using nearest_scanned [of st "nodesOf arcs"] near by auto
  have S': "settledNodes st' = ?S @ [u]" using rel by (simp add: relaxedBy_def)
  have tree: "treeOk arcs from st" and closed: "closedOk arcs st" and front: "frontierOk st"
    using inv by (auto simp: searchInv_def)
  have nonneg: "0 \<le> arcCost a" if "a \<in> set arcs" for a using that nn by (simp add: nonNegativeCosts_def)
  have change: "(distanceTo st' v = distanceTo st v \<and> previousArc st' v = previousArc st v) \<or>
      (\<exists>a. a \<in> set arcs \<and> fromNodeKey a = u \<and> toNodeKey a = v \<and> previousArc st' v = Some a \<and>
        distanceTo st' v = Some (d + arcCost a) \<and> (\<forall>e. distanceTo st v = Some e \<longrightarrow> d + arcCost a < e))" for v
    using rel unfolding relaxedBy_def Bex_def set_outgoing by (simp add: conj_assoc)
  text \<open>Settled nodes keep their distance.\<close>
  have keep: "distanceTo st' v = distanceTo st v \<and> previousArc st' v = previousArc st v" if v: "v \<in> set (?S @ [u])" for v
  proof -
    have "\<exists>c. distanceTo st v = Some c \<and> c \<le> d"
      using v front near'(2,3) unfolding frontierOk_def by (cases "v = u") auto
    then show ?thesis using change [of v] nonneg by fastforce
  qed
  have dle: "\<exists>e'. distanceTo st' v = Some e' \<and> e' \<le> e" if "distanceTo st v = Some e" for v e
    using change [of v] that by (metis order_less_imp_le order_refl)
  have pos: "0 \<le> c" if "distanceTo st v = Some c" for v c using tree that by (simp add: treeOk_def)
  have pos': "0 \<le> e" if "distanceTo st' v = Some e" for v e
    using change [of v] that pos nonneg near'(3) by (metis add_nonneg_nonneg option.inject)
  have "treeOk arcs from st'"
    unfolding treeOk_def
  proof (intro conjI allI impI)
    obtain e where e: "distanceTo st' from = Some e" "e \<le> 0"
      using dle [of "from" 0] tree by (auto simp: treeOk_def)
    then show "distanceTo st' from = Some 0" using pos' [OF e(1)] by simp
  next
    fix v e assume "distanceTo st' v = Some e"
    then show "0 \<le> e" by (rule pos')
  next
    fix v e assume v: "distanceTo st' v = Some e" "v \<noteq> from"
    show "\<exists>a c. previousArc st' v = Some a \<and> a \<in> set arcs \<and> toNodeKey a = v \<and>
        distanceTo st' (fromNodeKey a) = Some c \<and> e = c + arcCost a \<and>
        fromNodeKey a \<in> set (settledNodes st') \<and>
        settledAt (settledNodes st') (fromNodeKey a) < settledAt (settledNodes st') v"
      using change [of v]
    proof
      assume same: "distanceTo st' v = distanceTo st v \<and> previousArc st' v = previousArc st v"
      then obtain a c where a: "previousArc st v = Some a" "a \<in> set arcs" "toNodeKey a = v"
          "distanceTo st (fromNodeKey a) = Some c" "e = c + arcCost a" "fromNodeKey a \<in> set ?S"
          "settledAt ?S (fromNodeKey a) < settledAt ?S v"
        using tree v unfolding treeOk_def by metis
      have "settledAt (?S @ [u]) (fromNodeKey a) < settledAt (?S @ [u]) v"
        using a(6,7) settledAt_less [of ?S "fromNodeKey a"] by (auto simp: settledAt_append)
      then show ?thesis using a same keep [of "fromNodeKey a"] by (auto simp: S')
    next
      assume "\<exists>a. a \<in> set arcs \<and> fromNodeKey a = u \<and> toNodeKey a = v \<and> previousArc st' v = Some a \<and>
        distanceTo st' v = Some (d + arcCost a) \<and> (\<forall>e. distanceTo st v = Some e \<longrightarrow> d + arcCost a < e)"
      then obtain a where a: "a \<in> set arcs" "fromNodeKey a = u" "toNodeKey a = v" "previousArc st' v = Some a"
        "distanceTo st' v = Some (d + arcCost a)" "\<forall>e. distanceTo st v = Some e \<longrightarrow> d + arcCost a < e" by metis
      have "v \<notin> set (?S @ [u])" using keep [of v] a(5,6) by fastforce
      then have "settledAt (?S @ [u]) u < settledAt (?S @ [u]) v"
        using near'(2) by (auto simp: settledAt_append)
      then show ?thesis using a v(1) keep [of u] near'(3) by (auto simp: S')
    qed
  qed
  moreover have "closedOk arcs st'"
    unfolding closedOk_def
  proof (intro ballI impI)
    fix a assume a: "a \<in> set arcs" "fromNodeKey a \<in> set (settledNodes st')"
    show "\<exists>c e. distanceTo st' (fromNodeKey a) = Some c \<and> distanceTo st' (toNodeKey a) = Some e \<and> e \<le> c + arcCost a"
    proof (cases "fromNodeKey a = u")
      case True
      then have "\<exists>e. distanceTo st' (toNodeKey a) = Some e \<and> e \<le> d + arcCost a"
        using rel a(1) by (simp add: relaxedBy_def)
      then show ?thesis using keep [of u] near'(3) True by simp
    next
      case False
      then have s: "fromNodeKey a \<in> set ?S" using a(2) by (simp add: S')
      then obtain c e where "distanceTo st (fromNodeKey a) = Some c" "distanceTo st (toNodeKey a) = Some e" "e \<le> c + arcCost a"
        using closed a(1) unfolding closedOk_def by metis
      then show ?thesis using keep [of "fromNodeKey a"] s dle [of "toNodeKey a" e] by fastforce
    qed
  qed
  moreover have "frontierOk st'"
    unfolding frontierOk_def
  proof (intro conjI allI impI ballI)
    fix x v c e
    assume x: "x \<in> set (settledNodes st')" "distanceTo st' x = Some c"
      and v: "v \<notin> set (settledNodes st')" "distanceTo st' v = Some e"
    have "c \<le> d" using x keep [of x] near'(2,3) front unfolding S' frontierOk_def by (cases "x = u") auto
    moreover have "d \<le> e" using change [of v]
    proof
      assume "distanceTo st' v = distanceTo st v \<and> previousArc st' v = previousArc st v"
      then have dv: "distanceTo st v = Some e" using v(2) by simp
      have "v \<in> set (nodesOf arcs)"
        using dv tree start unfolding treeOk_def set_nodesOf by (cases "v = from") blast+
      then show ?thesis using near'(4) dv v(1) by (simp add: S')
    next
      assume "\<exists>a. a \<in> set arcs \<and> fromNodeKey a = u \<and> toNodeKey a = v \<and> previousArc st' v = Some a \<and>
        distanceTo st' v = Some (d + arcCost a) \<and> (\<forall>e. distanceTo st v = Some e \<longrightarrow> d + arcCost a < e)"
      then show ?thesis using nonneg v(2) by (metis le_add_same_cancel1 option.inject)
    qed
    ultimately show "c \<le> e" by simp
  next
    fix x assume "x \<in> set (settledNodes st')"
    then show "distanceTo st' x \<noteq> None"
      using keep [of x] front near'(3) unfolding S' frontierOk_def by auto
  qed
  ultimately show ?thesis using inv near'(1,2) assms(4) by (simp add: searchInv_def S')
qed

text \<open>What holds when the search stops: no unsettled node is nearer than the target.\<close>

definition searchDone :: "traversal_arc list \<Rightarrow> js_string \<Rightarrow> search_state \<Rightarrow> bool" where
  "searchDone arcs to st \<longleftrightarrow> (\<forall>y \<in> set (nodesOf arcs). \<forall>e. y \<notin> set (settledNodes st) \<longrightarrow>
     distanceTo st y = Some e \<longrightarrow> (\<exists>d. distanceTo st to = Some d \<and> d \<le> e))"

lemma searchLoop_result:
  assumes "searchInv arcs from to st" and "nonNegativeCosts arcs" and "from \<in> set (nodesOf arcs)"
    and "searchLoop arcs (nodesOf arcs) to clock st = Inr (st', rest)"
  shows "searchInv arcs from to st' \<and> searchDone arcs to st'"
  using assms(1,4)
proof (induction clock arbitrary: st)
  case (0 st)
  then have st': "st' = st" "\<not> length (settledNodes st) < length (nodesOf arcs)"
    by (simp_all add: searchLoop.simps [of _ _ _ 0] split: if_splits)
  have "card (set (nodesOf arcs)) \<le> card (set (settledNodes st))"
    using 0(1) st' distinct_nodesOf [of arcs] by (simp add: searchInv_def distinct_card)
  then have "set (settledNodes st) = set (nodesOf arcs)"
    using 0(1) by (intro card_seteq) (auto simp: searchInv_def)
  then show ?case using 0(1) st' by (simp add: searchDone_def)
next
  case (Suc clock st)
  show ?case
  proof (cases "length (settledNodes st) < length (nodesOf arcs)")
    case False
    then have st': "st' = st" using Suc.prems(2) by (simp add: searchLoop.simps [of _ _ _ "Suc clock"])
    have "card (set (nodesOf arcs)) \<le> card (set (settledNodes st))"
      using Suc.prems(1) False distinct_nodesOf [of arcs] by (simp add: searchInv_def distinct_card)
    then have "set (settledNodes st) = set (nodesOf arcs)"
      using Suc.prems(1) by (intro card_seteq) (auto simp: searchInv_def)
    then show ?thesis using Suc.prems(1) st' by (simp add: searchDone_def)
  next
    case True
    note scan = nearest_scanned [of st "nodesOf arcs"]
    show ?thesis
    proof (cases "nearest st (nodesOf arcs)")
      case None
      then have "st' = st" using Suc.prems(2) True by (simp add: searchLoop.simps [of _ _ _ "Suc clock"])
      then show ?thesis using Suc.prems(1) scan None by (simp add: searchDone_def)
    next
      case (Some ud)
      then obtain u d where ud: "nearest st (nodesOf arcs) = Some (u, d)" by (cases ud) simp
      show ?thesis
      proof (cases "u = to")
        case True
        then have "st' = st" using Suc.prems(2) ud \<open>length (settledNodes st) < _\<close>
          by (simp add: searchLoop.simps [of _ _ _ "Suc clock"])
        then show ?thesis using Suc.prems(1) scan ud True by (auto simp: searchDone_def)
      next
        case False
        then obtain st1 where st1: "foldR (relax d) (st\<lparr>settledNodes := settledNodes st @ [u]\<rparr>) (outgoing arcs u) = Inr st1"
          "searchLoop arcs (nodesOf arcs) to clock st1 = Inr (st', rest)"
          using Suc.prems(2) ud \<open>length (settledNodes st) < _\<close>
          by (auto simp: searchLoop.simps [of _ _ _ "Suc clock"] bindR_eq_Inr)
        show ?thesis
          using Suc.IH [OF settle_inv [OF Suc.prems(1) assms(2) ud False relax_fold [OF st1(1)] assms(3)] st1(2)] .
      qed
    qed
  qed
qed

lemma treeOk_previous:
  assumes "treeOk arcs from st" and "distanceTo st v = Some d" and "v \<noteq> from"
  obtains a c where "previousArc st v = Some a" and "a \<in> set arcs" and "toNodeKey a = v"
    and "distanceTo st (fromNodeKey a) = Some c" and "d = c + arcCost a"
    and "settledAt (settledNodes st) (fromNodeKey a) < settledAt (settledNodes st) v"
proof -
  have "\<exists>a c. previousArc st v = Some a \<and> a \<in> set arcs \<and> toNodeKey a = v \<and>
      distanceTo st (fromNodeKey a) = Some c \<and> d = c + arcCost a \<and>
      fromNodeKey a \<in> set (settledNodes st) \<and>
      settledAt (settledNodes st) (fromNodeKey a) < settledAt (settledNodes st) v"
    using assms unfolding treeOk_def by simp
  then show thesis using that by (elim exE conjE) assumption
qed

lemma walkBack_path:
  assumes "treeOk arcs from st" and "distanceTo st cursor = Some d"
    and "settledAt (settledNodes st) cursor \<le> fuel"
  shows "\<exists>q. walkBack (previousArc st) from fuel cursor path = Inr (q @ path) \<and>
    arc_path arcs from q cursor \<and> routeCost q = d"
  using assms(2,3)
proof (induction fuel arbitrary: cursor d path)
  case (0 cursor d path)
  have "cursor = from"
  proof (rule ccontr)
    assume "cursor \<noteq> from"
    from treeOk_previous [OF assms(1) 0(1) this] show False using 0(2) by (metis le_zero_eq not_less_zero)
  qed
  then show ?case using 0 assms(1) by (simp add: walkBack.simps treeOk_def)
next
  case (Suc fuel cursor d path)
  show ?case
  proof (cases "cursor = from")
    case True
    then show ?thesis using Suc assms(1) by (simp add: walkBack.simps treeOk_def)
  next
    case False
    from treeOk_previous [OF assms(1) Suc.prems(1) this] obtain a c where
      a: "previousArc st cursor = Some a" "a \<in> set arcs" "toNodeKey a = cursor"
        "distanceTo st (fromNodeKey a) = Some c" "d = c + arcCost a"
        "settledAt (settledNodes st) (fromNodeKey a) < settledAt (settledNodes st) cursor" .
    then have "settledAt (settledNodes st) (fromNodeKey a) \<le> fuel" using Suc.prems(2) by simp
    from Suc.IH [OF a(4) this, of "a # path"] obtain q where
      q: "walkBack (previousArc st) from fuel (fromNodeKey a) (a # path) = Inr (q @ a # path)"
      "arc_path arcs from q (fromNodeKey a)" "routeCost q = c" by metis
    have "arc_path arcs (fromNodeKey a) [a] cursor" using path_cons [OF a(2) path_nil] a(3) by simp
    then have "arc_path arcs from (q @ [a]) cursor" using q(2) arc_path_append by metis
    then show ?thesis using q a False by (auto simp: walkBack.simps [of _ _ "Suc fuel"] intro!: exI [of _ "q @ [a]"])
  qed
qed

lemma settledAt_le: "settledAt xs v \<le> length xs"
  by (induction xs) auto

lemma initial_inv:
  "from \<noteq> to \<Longrightarrow> searchInv arcs from to
     \<lparr>distanceTo = (\<lambda>_. None)(from \<mapsto> 0), previousArc = (\<lambda>_. None), settledNodes = []\<rparr>"
  by (auto simp: searchInv_def treeOk_def closedOk_def frontierOk_def split: if_splits)

lemma searchLoop_isolated:
  assumes "from \<notin> set (nodesOf arcs)"
    and "searchLoop arcs (nodesOf arcs) to clock
      \<lparr>distanceTo = (\<lambda>_. None)(from \<mapsto> 0), previousArc = (\<lambda>_. None), settledNodes = []\<rparr> = Inr (st', rest)"
  shows "st' = \<lparr>distanceTo = (\<lambda>_. None)(from \<mapsto> 0), previousArc = (\<lambda>_. None), settledNodes = []\<rparr>"
proof -
  let ?st = "\<lparr>distanceTo = (\<lambda>_. None)(from \<mapsto> 0), previousArc = (\<lambda>_. None :: traversal_arc option), settledNodes = []\<rparr>"
  have "nearest ?st (nodesOf arcs) = None"
    using nearest_scanned [of ?st "nodesOf arcs"] assms(1)
    by (cases "nearest ?st (nodesOf arcs)") (auto split: if_splits)
  then show ?thesis using assms(2) by (auto simp: searchLoop.simps [of _ _ _ clock] split: if_splits nat.splits)
qed

lemma searchLoop_final:
  assumes "from \<noteq> to" and "nonNegativeCosts arcs"
    and "searchLoop arcs (nodesOf arcs) to clock
      \<lparr>distanceTo = (\<lambda>_. None)(from \<mapsto> 0), previousArc = (\<lambda>_. None), settledNodes = []\<rparr> = Inr (st, rest)"
  shows "searchInv arcs from to st \<and> searchDone arcs to st"
proof (cases "from \<in> set (nodesOf arcs)")
  case True
  then show ?thesis using searchLoop_result [OF initial_inv [OF assms(1)] assms(2) _ assms(3)] by blast
next
  case False
  note st = searchLoop_isolated [OF False assms(3)]
  show ?thesis using initial_inv [OF assms(1), of arcs] False unfolding st
    by (auto simp: searchDone_def split: if_splits)
qed

lemma foldR_errors:
  assumes "foldR f s xs = Inl e" and "\<And>u x. f u x = Inl e \<Longrightarrow> P"
  shows P
  using assms(1)
proof (induction xs arbitrary: s)
  case (Cons x xs)
  then show ?case using assms(2) by (cases "f s x") auto
qed simp

lemma searchLoop_error:
  "searchLoop arcs nodes to clock st = Inl e \<Longrightarrow> e = Planning RESOURCE_EXHAUSTED"
proof (induction clock arbitrary: st)
  case (0 st)
  then show ?case by (simp add: searchLoop.simps [of _ _ _ 0] split: if_splits)
next
  case (Suc clock st)
  show ?case
  proof (cases "nearest st nodes")
    case None
    then show ?thesis using Suc.prems by (simp add: searchLoop.simps [of _ _ _ "Suc clock"] split: if_splits)
  next
    case (Some ud)
    then obtain u d where ud: "nearest st nodes = Some (u, d)" by (cases ud) simp
    let ?r = "foldR (relax d) (st\<lparr>settledNodes := settledNodes st @ [u]\<rparr>) (outgoing arcs u)"
    have "?r = Inl e \<or> (\<exists>st1. ?r = Inr st1 \<and> searchLoop arcs nodes to clock st1 = Inl e)"
      using Suc.prems ud
      by (simp add: searchLoop.simps [of _ _ _ "Suc clock"] bindR_eq_Inl split: if_splits)
    then show ?thesis
    proof
      assume "?r = Inl e"
      then show ?thesis by (rule foldR_errors) (auto simp: relax_def safeAdd_def bindR_eq_Inl split: if_splits)
    next
      assume "\<exists>st1. ?r = Inr st1 \<and> searchLoop arcs nodes to clock st1 = Inl e"
      then show ?thesis using Suc.IH by metis
    qed
  qed
qed

lemma shortestPath_correct:
  assumes "nonNegativeCosts arcs"
  shows "case shortestPath arcs from to clock of
      Inr (p, rest) \<Rightarrow> arc_path arcs from (pathArcs p) to \<and> routeCost (pathArcs p) = pathCost p \<and>
        (\<forall>q. arc_path arcs from q to \<longrightarrow> pathCost p \<le> routeCost q)
    | Inl e \<Rightarrow> e = Planning RESOURCE_EXHAUSTED \<or>
        (e = Planning UNREACHABLE \<and> \<not> (\<exists>q. arc_path arcs from q to))"
proof (cases "from = to")
  case True
  then show ?thesis using routeCost_nonneg [OF assms] by (auto simp: shortestPath_def)
next
  case False
  let ?st = "\<lparr>distanceTo = (\<lambda>_. None)(from \<mapsto> 0), previousArc = (\<lambda>_. None), settledNodes = []\<rparr>"
  show ?thesis
  proof (cases "searchLoop arcs (nodesOf arcs) to clock ?st")
    case (Inl e)
    then show ?thesis using False searchLoop_error by (auto simp: shortestPath_def)
  next
    case (Inr r)
    then obtain st rest where r: "searchLoop arcs (nodesOf arcs) to clock ?st = Inr (st, rest)" by (cases r) simp
    have inv: "searchInv arcs from to st" and fin: "searchDone arcs to st"
      using searchLoop_final [OF False assms r] by auto
    then have tree: "treeOk arcs from st" and closed: "closedOk arcs st" by (auto simp: searchInv_def)
    have start: "distanceTo st from = Some 0" using tree by (simp add: treeOk_def)
    have best: "\<exists>d. distanceTo st to = Some d \<and> d \<le> routeCost q" if q: "arc_path arcs from q to" for q
      using path_bound [OF closed start assms q]
    proof
      assume "\<exists>y d. y \<notin> set (settledNodes st) \<and> y \<in> set (nodesOf arcs) \<and> distanceTo st y = Some d \<and> d \<le> routeCost q"
      then obtain y d where y: "y \<in> set (nodesOf arcs)" "y \<notin> set (settledNodes st)" "distanceTo st y = Some d"
        "d \<le> routeCost q" by (elim exE conjE)
      have "\<exists>c. distanceTo st to = Some c \<and> c \<le> d"
        using bspec [OF fin [unfolded searchDone_def] y(1)] y(2,3) by simp
      then show ?thesis using y(4) by (elim exE conjE) (rule exI, erule conjI, erule order_trans)
    qed
    show ?thesis
    proof (cases "distanceTo st to")
      case None
      then have "\<not> (\<exists>q. arc_path arcs from q to)" using best by auto
      then show ?thesis using False r None by (simp add: shortestPath_def)
    next
      case (Some d)
      have "length (settledNodes st) \<le> length (nodesOf arcs)"
        using inv distinct_nodesOf [of arcs] by (metis card_mono distinct_card finite_set searchInv_def)
      then have "settledAt (settledNodes st) to \<le> length (nodesOf arcs) + 1"
        using settledAt_le [of "settledNodes st" to] by linarith
      from walkBack_path [OF tree Some this, of "[]"] obtain p where
        p: "walkBack (previousArc st) from (length (nodesOf arcs) + 1) to [] = Inr p"
        "arc_path arcs from p to" "routeCost p = d" by auto
      then show ?thesis using False r Some best by (auto simp: shortestPath_def)
    qed
  qed
qed

text \<open>
  C22. The connector search is exact.  When it returns, it returns a path from the first node to
  the second along arcs of the graph, with its true combined cost, and no path between them is
  cheaper; when it reports UNREACHABLE there is no path at all; its only other outcome is that
  the time limit or the safe integer range is exceeded, and the walk back along the
  predecessors always ends.
\<close>

theorem shortestPath_exact:
  assumes "nonNegativeCosts arcs"
  shows "case shortestPath arcs from to clock of
      Inr (p, rest) \<Rightarrow> arc_path arcs from (pathArcs p) to \<and> routeCost (pathArcs p) = pathCost p \<and>
        (\<forall>q. arc_path arcs from q to \<longrightarrow> pathCost p \<le> routeCost q)
    | Inl e \<Rightarrow> e = Planning RESOURCE_EXHAUSTED \<or>
        (e = Planning UNREACHABLE \<and> \<not> (\<exists>q. arc_path arcs from q to))"
  by (rule shortestPath_correct [OF assms])

definition sampleMetrics :: "int \<Rightarrow> fixed_metrics" where
  "sampleMetrics c = \<lparr>distanceMm = c, durationMs = c, riskMicroUnits = 0, energyMwh = 0,
     combinedCostUnits = c, turnPenaltyUnits = None\<rparr>"

definition sampleArc :: "string \<Rightarrow> string \<Rightarrow> string \<Rightarrow> int \<Rightarrow> traversal_arc" where
  "sampleArc k u v c = \<lparr>arcGraphVersion = js ''g1'', arcKey = js k, fromNodeKey = js u, toNodeKey = js v,
     arcDirection = FORWARD, arcMetrics = sampleMetrics c, arcFeature = None, roadClass = None,
     surface = None, accessMask = None, traversalAllowed = None, speedMmPerS = None,
     speedOverrideMmPerS = None, riskOverrideMicroUnits = None, conditionPenaltyUnits = None\<rparr>"

definition sampleArcs :: "traversal_arc list" where
  "sampleArcs = [sampleArc ''a'' ''x'' ''y'' 5, sampleArc ''b'' ''x'' ''z'' 1, sampleArc ''c'' ''z'' ''y'' 2,
     sampleArc ''d'' ''y'' ''x'' 7]"

lemma shortestPath_exact_witness:
  "\<exists>p rest. shortestPath sampleArcs (js ''x'') (js ''y'') 9 = Inr (p, rest) \<and> pathCost p = 3 \<and>
     (\<forall>q. arc_path sampleArcs (js ''x'') q (js ''y'') \<longrightarrow> 3 \<le> routeCost q)"
proof -
  let ?r = "shortestPath sampleArcs (js ''x'') (js ''y'') 9"
  have "case ?r of Inl e \<Rightarrow> False | Inr (p, rest) \<Rightarrow> pathCost p = 3" by code_simp
  then obtain p rest where r: "?r = Inr (p, rest)" "pathCost p = 3" by (cases ?r) auto
  have "nonNegativeCosts sampleArcs"
    by (simp add: nonNegativeCosts_def sampleArcs_def sampleArc_def sampleMetrics_def arcCost_def)
  from shortestPath_exact [OF this, of "js ''x''" "js ''y''" 9] show ?thesis using r by auto
qed

section \<open>The search ends with an answer\<close>

definition labelsWithin :: "int \<Rightarrow> search_state \<Rightarrow> bool" where
  "labelsWithin bound st \<longleftrightarrow> (\<forall>v e. distanceTo st v = Some e \<longrightarrow> 0 \<le> e \<and> e \<le> bound)"

lemma relax_within:
  assumes "0 \<le> d" "d \<le> bound" and "0 \<le> arcCost a" "arcCost a \<le> M" and "bound + M \<le> maxSafeInteger"
    and "labelsWithin (bound + M) st"
  shows "\<exists>st'. relax d st a = Inr st' \<and> labelsWithin (bound + M) st' \<and> settledNodes st' = settledNodes st"
proof -
  have sum: "safeAdd d (arcCost a) = Inr (d + arcCost a)"
    using assms by (simp add: safeAdd_def isSafeInteger_def maxSafeInteger_def)
  then show ?thesis unfolding relax_def sum bindR_Inr using assms by (simp add: labelsWithin_def)
qed

lemma relax_all_within:
  assumes "0 \<le> d" "d \<le> bound" and "\<forall>a \<in> set xs. 0 \<le> arcCost a \<and> arcCost a \<le> M" and "bound + M \<le> maxSafeInteger"
    and "labelsWithin (bound + M) st"
  shows "\<exists>st'. foldR (relax d) st xs = Inr st' \<and> labelsWithin (bound + M) st' \<and> settledNodes st' = settledNodes st"
  using assms(3,5)
proof (induction xs arbitrary: st)
  case (Cons a xs)
  then obtain st1 where "relax d st a = Inr st1" "labelsWithin (bound + M) st1" "settledNodes st1 = settledNodes st"
    using relax_within [OF assms(1,2) _ _ assms(4)] by (metis list.set_intros(1))
  then show ?case using Cons.IH [of st1] Cons.prems(1) by auto
qed simp

text \<open>Every round settles a node, so as many deadline checks as there are unsettled nodes are enough.\<close>

lemma searchLoop_answers:
  assumes costs: "\<forall>a \<in> set arcs. 0 \<le> arcCost a \<and> arcCost a \<le> M" and "0 \<le> M"
    and safe: "int (length nodes) * M \<le> maxSafeInteger"
    and "length nodes \<le> length (settledNodes st) + clock" and "labelsWithin (int (length (settledNodes st)) * M) st"
  shows "\<exists>st' rest. searchLoop arcs nodes to clock st = Inr (st', rest)"
  using assms(4,5)
proof (induction clock arbitrary: st)
  case 0
  then show ?case by (simp add: searchLoop.simps [of _ _ _ 0])
next
  case (Suc clock st)
  show ?case
  proof (cases "length (settledNodes st) < length nodes \<and> (\<exists>u d. nearest st nodes = Some (u, d) \<and> u \<noteq> to)")
    case True
    then obtain u d where u: "nearest st nodes = Some (u, d)" "u \<noteq> to" by blast
    let ?n = "int (length (settledNodes st))" and ?st = "st\<lparr>settledNodes := settledNodes st @ [u]\<rparr>"
    have "(?n + 1) * M \<le> int (length nodes) * M" using True assms(2) by (intro mult_right_mono) auto
    then have bound: "?n * M + M \<le> maxSafeInteger" using safe by (simp add: distrib_right)
    have "distanceTo st u = Some d" using nearest_scanned [of st nodes] u(1) by simp
    then have d: "0 \<le> d" "d \<le> ?n * M" using Suc.prems(2) by (auto simp: labelsWithin_def)
    have "labelsWithin (?n * M + M) ?st" using Suc.prems(2) assms(2) by (fastforce simp: labelsWithin_def)
    then obtain st' where st': "foldR (relax d) ?st (outgoing arcs u) = Inr st'" "labelsWithin (?n * M + M) st'"
        "settledNodes st' = settledNodes st @ [u]"
      using relax_all_within [OF d _ bound, of "outgoing arcs u" ?st] costs by auto
    have "\<exists>st'' rest. searchLoop arcs nodes to clock st' = Inr (st'', rest)"
      using Suc.prems(1) st'(2,3) by (intro Suc.IH) (auto simp: distrib_right add.commute)
    then show ?thesis using True u st'(1) by (simp add: searchLoop.simps [of _ _ _ "Suc clock"])
  next
    case False
    then show ?thesis by (auto simp: searchLoop.simps [of _ _ _ "Suc clock"] split: option.splits)
  qed
qed

lemma walkBack_error: "walkBack prev from fuel cursor path = Inl e \<Longrightarrow> e \<noteq> Planning RESOURCE_EXHAUSTED"
  by (induction prev "from" fuel cursor path rule: walkBack.induct)
    (auto simp: walkBack.simps split: if_splits option.splits nat.splits)

lemma shortestPath_answers:
  assumes costs: "\<forall>a \<in> set arcs. 0 \<le> arcCost a \<and> arcCost a \<le> M" and "0 \<le> M"
    and safe: "int (length (nodesOf arcs)) * M \<le> maxSafeInteger" and clock: "length (nodesOf arcs) \<le> clock"
  shows "(\<exists>p rest. shortestPath arcs from to clock = Inr (p, rest) \<and> arc_path arcs from (pathArcs p) to) \<or>
    shortestPath arcs from to clock = Inl (Planning UNREACHABLE) \<and> \<not> (\<exists>q. arc_path arcs from q to)"
proof -
  let ?st = "\<lparr>distanceTo = (\<lambda>_. None)(from \<mapsto> 0), previousArc = (\<lambda>_. None :: traversal_arc option), settledNodes = []\<rparr>"
  have "nonNegativeCosts arcs" using costs by (simp add: nonNegativeCosts_def)
  note exact = shortestPath_correct [OF this, of "from" to clock]
  have "labelsWithin (int (length (settledNodes ?st)) * M) ?st" by (simp add: labelsWithin_def)
  then obtain st rest where loop: "searchLoop arcs (nodesOf arcs) to clock ?st = Inr (st, rest)"
    using searchLoop_answers [OF costs assms(2) safe, of ?st clock to] clock by auto
  have "shortestPath arcs from to clock \<noteq> Inl (Planning RESOURCE_EXHAUSTED)"
    using loop by (auto simp: shortestPath_def bindR_eq_Inl split: option.splits dest: walkBack_error)
  then show ?thesis using exact by (auto split: sum.splits)
qed

text \<open>
  C23. Given enough time the connector search answers.  If the deadline allows as many checks as the graph
  has nodes, and the nodes times the largest arc cost stay in the safe range, \<open>shortestPath\<close> returns a path
  whenever there is one and reports UNREACHABLE whenever there is none; it never runs out of time, never
  overflows and never loses its way back.
\<close>

theorem connector_search_answers:
  assumes "\<forall>a \<in> set arcs. 0 \<le> arcCost a \<and> arcCost a \<le> M" and "0 \<le> M"
    and "int (length (nodesOf arcs)) * M \<le> maxSafeInteger" and "length (nodesOf arcs) \<le> clock"
  shows "(\<exists>p rest. shortestPath arcs from to clock = Inr (p, rest) \<and> arc_path arcs from (pathArcs p) to) \<or>
    shortestPath arcs from to clock = Inl (Planning UNREACHABLE) \<and> \<not> (\<exists>q. arc_path arcs from q to)"
  by (rule shortestPath_answers [OF assms])

lemma connector_search_answers_witness:
  "\<exists>p rest. shortestPath sampleArcs (js ''x'') (js ''y'') 9 = Inr (p, rest) \<and> arc_path sampleArcs (js ''x'') (pathArcs p) (js ''y'')"
proof -
  have costs: "\<forall>a \<in> set sampleArcs. 0 \<le> arcCost a \<and> arcCost a \<le> 9" by code_simp
  have safe: "int (length (nodesOf sampleArcs)) * 9 \<le> maxSafeInteger" and clock: "length (nodesOf sampleArcs) \<le> 9" by code_simp+
  have "isOk (shortestPath sampleArcs (js ''x'') (js ''y'') 9)" by code_simp
  then show ?thesis using connector_search_answers [OF costs _ safe clock, of "js ''x''" "js ''y''"] by auto
qed

end
