(* ===== verification/DcppNetwork.thy ===== *)
theory DcppNetwork
  imports ShortestPath "HOL-Library.AList"
begin

text \<open>
  The Chinese-postman solvers of \<open>road-coverage-planning-core/src/closed-dcpp.ts\<close>: validation of
  the network and the obligations, the balance of the required traversals, the transportation
  of the imbalances over cheapest connectors, the Euler trail, and the route with its metrics.

  \<open>Map\<close>s that are only looked up are functions; the balance, whose entries are listed, is an
  association list in insertion order.  Array indices are \<open>nat\<close>; \<open>-1\<close> and \<open>Infinity\<close> entries
  are \<open>None\<close>.  Stacks have their top at the head of a list.
\<close>

section \<open>Data\<close>

record traversal_instance =
  instId :: js_string
  instArc :: traversal_arc
  instRole :: service_role
  instObligations :: "js_string list"

record imbalance_node =
  imbNode :: js_string
  imbQuantity :: int

record augmentation =
  augFrom :: js_string
  augTo :: js_string
  augQuantity :: int
  augUnitCost :: int
  augArcKeys :: "js_string list"

record dcpp_diagnostics =
  requiredComponentCount :: nat
  imbalanceCount :: nat
  connectorPathCount :: int
  traversableArcCount :: nat
  requiredTraversalCount :: nat
  augmentedTraversalCount :: nat
  matrixCellCount :: nat

record dcpp_solution =
  solutionRoute :: coverage_route
  solutionDiagnostics :: dcpp_diagnostics
  solutionAugmentation :: "augmentation list"

definition MAX_ROUTE_SEGMENTS :: int where
  "MAX_ROUTE_SEGMENTS = 1000000"

definition padStart :: "nat \<Rightarrow> int \<Rightarrow> js_string" where
  "padStart width n = replicate (width - length (intText n)) 48 @ intText n"

definition pairKey :: "js_string \<Rightarrow> js_string \<Rightarrow> js_string" where
  "pairKey from to = from @ [0] @ to"

text \<open>\<open>map.get(key)!\<close>, which fails later with a \<open>TypeError\<close> when there is no entry.\<close>

definition getBang :: "('k \<rightharpoonup> 'v) \<Rightarrow> 'k \<Rightarrow> coverage_error + 'v" where
  "getBang m k = (case m k of None \<Rightarrow> Inl Stuck | Some v \<Rightarrow> Inr v)"

section \<open>Validation\<close>

definition admitArc :: "coverage_problem \<Rightarrow> js_string list \<Rightarrow> traversal_arc \<Rightarrow> coverage_error + js_string list" where
  "admitArc problem seen arc =
     bindR (ensureR (arcKey arc \<notin> set seen) (Planning NO_FEASIBLE_PLAN)) (\<lambda>_.
     bindR (ensureR (arcGraphVersion arc = snapGraphVersion (routingSnapshot problem)) (Planning VERSION_NOT_FOUND)) (\<lambda>_.
     bindR (ensureR (fromNodeKey arc \<noteq> [] \<and> toNodeKey arc \<noteq> []) (Planning NO_FEASIBLE_PLAN)) (\<lambda>_.
     bindR (validateMetrics (arcMetrics arc)) (\<lambda>_. Inr (seen @ [arcKey arc])))))"

definition admitObligation ::
  "coverage_problem \<Rightarrow> js_string list \<Rightarrow> js_string list \<Rightarrow> obligation \<Rightarrow> coverage_error + js_string list" where
  "admitObligation problem byArc seen obl =
     bindR (ensureR (oblGraphVersion obl = snapGraphVersion (routingSnapshot problem) \<and> oblArcKey obl \<in> set byArc)
       (Planning VERSION_NOT_FOUND)) (\<lambda>_.
     bindR (ensureR (oblArcKey obl \<notin> set seen) (Planning CAPABILITY_NOT_AVAILABLE)) (\<lambda>_.
     bindR (ensureR (oblStart obl = 0 \<and> oblEnd obl = WHOLE) (Planning CAPABILITY_NOT_AVAILABLE)) (\<lambda>_.
     Inr (seen @ [oblArcKey obl]))))"

definition validFraction :: "int \<Rightarrow> bool" where
  "validFraction f \<longleftrightarrow> isSafeInteger f \<and> 0 \<le> f \<and> f \<le> WHOLE"

definition validateGraphAndObligations ::
  "coverage_problem \<Rightarrow> traversal_arc list \<Rightarrow> coverage_error + traversal_arc list" where
  "validateGraphAndObligations problem input =
     bindR (ensureR (input \<noteq> []) (Planning NO_FEASIBLE_PLAN)) (\<lambda>_.
     let arcs = byArcKey input in
     bindR (foldR (admitArc problem) [] arcs) (\<lambda>byArc.
     bindR (foldR (admitObligation problem byArc) [] (obligations problem)) (\<lambda>obligationArcs.
     bindR (ensureR (length obligationArcs = length arcs \<and> (\<forall>a \<in> set arcs. arcKey a \<in> set obligationArcs))
       (Planning CAPABILITY_NOT_AVAILABLE)) (\<lambda>_.
     bindR (ensureR (validFraction (stateFraction (startState problem))) (Planning NO_FEASIBLE_PLAN)) (\<lambda>_.
     bindR (ensureR (case fixedEndState problem of None \<Rightarrow> True | Some s \<Rightarrow> validFraction (stateFraction s))
       (Planning NO_FEASIBLE_PLAN)) (\<lambda>_. Inr arcs))))))"

section \<open>Required traversals and their balance\<close>

definition obligationsByArc :: "coverage_problem \<Rightarrow> (js_string \<rightharpoonup> obligation)" where
  "obligationsByArc problem = foldl (\<lambda>m obl. m(oblArcKey obl \<mapsto> obl)) Map.empty (obligations problem)"

type_synonym balance = "(js_string \<times> int) list"

definition addBalance :: "balance \<Rightarrow> js_string \<Rightarrow> int \<Rightarrow> coverage_error + balance" where
  "addBalance balance node delta =
     bindR (safeSignedAdd (case map_of balance node of None \<Rightarrow> 0 | Some v \<Rightarrow> v) delta) (\<lambda>v.
       Inr (AList.update node v balance))"

definition requiredInstance :: "traversal_arc \<Rightarrow> obligation \<Rightarrow> nat \<Rightarrow> traversal_instance" where
  "requiredInstance arc obl pass =
     \<lparr>instId = js ''required:'' @ arcKey arc @ js '':'' @ padStart 2 (int pass), instArc = arc,
      instRole = SERVICE, instObligations = [obligationId obl]\<rparr>"

definition balancePass :: "traversal_arc \<Rightarrow> balance \<Rightarrow> nat \<Rightarrow> coverage_error + balance" where
  "balancePass arc balance pass =
     bindR (addBalance balance (fromNodeKey arc) 1) (\<lambda>b. addBalance b (toNodeKey arc) (- 1))"

definition requireArc ::
  "(js_string \<rightharpoonup> obligation) \<Rightarrow> traversal_instance list \<times> balance \<Rightarrow> traversal_arc \<Rightarrow>
     coverage_error + (traversal_instance list \<times> balance)" where
  "requireArc byArc = (\<lambda>(instances, balance) arc.
     bindR (getBang byArc (arcKey arc)) (\<lambda>obl.
       let passes = [1..<nat (requiredPasses obl) + 1] in
       bindR (foldR (balancePass arc) balance passes) (\<lambda>b.
         Inr (instances @ map (requiredInstance arc obl) passes, b))))"

definition sortedImbalances :: "balance \<Rightarrow> (int \<Rightarrow> bool) \<Rightarrow> (int \<Rightarrow> int) \<Rightarrow> imbalance_node list" where
  "sortedImbalances balance predicate quantity =
     sort_by (\<lambda>l r. compareUnicodeCodePoints (imbNode l) (imbNode r))
       (map (\<lambda>(k, v). \<lparr>imbNode = k, imbQuantity = quantity v\<rparr>) (filter (\<lambda>(k, v). predicate v) balance))"

section \<open>Connectors\<close>

definition connectorStep ::
  "traversal_arc list \<Rightarrow> (js_string \<rightharpoonup> shortest_path) \<times> nat \<Rightarrow> imbalance_node \<times> imbalance_node \<Rightarrow>
     coverage_error + ((js_string \<rightharpoonup> shortest_path) \<times> nat)" where
  "connectorStep arcs = (\<lambda>(paths, clock) (supply, demand).
     bindR (checkDeadline clock) (\<lambda>c.
     bindR (shortestPath arcs (imbNode supply) (imbNode demand) c) (\<lambda>(path, rest).
       Inr (paths(pairKey (imbNode supply) (imbNode demand) \<mapsto> path), rest))))"

definition connectorPaths ::
  "traversal_arc list \<Rightarrow> imbalance_node list \<Rightarrow> imbalance_node list \<Rightarrow> nat \<Rightarrow>
     coverage_error + ((js_string \<rightharpoonup> shortest_path) \<times> nat)" where
  "connectorPaths arcs supplies demands clock =
     foldR (connectorStep arcs) (Map.empty, clock) (List.product supplies demands)"

section \<open>Transportation\<close>

record residual_edge =
  edgeTo :: nat
  edgeReverse :: nat
  edgeCapacity :: int
  edgeCost :: int
  originalCapacity :: int

type_synonym residual_graph = "residual_edge list list"

definition addResidualEdge :: "residual_graph \<Rightarrow> nat \<Rightarrow> nat \<Rightarrow> int \<Rightarrow> int \<Rightarrow> residual_graph" where
  "addResidualEdge graph from to capacity cost =
     (let forward = \<lparr>edgeTo = to, edgeReverse = length (graph ! to), edgeCapacity = capacity,
            edgeCost = cost, originalCapacity = capacity\<rparr>;
          backward = \<lparr>edgeTo = from, edgeReverse = length (graph ! from), edgeCapacity = 0,
            edgeCost = - cost, originalCapacity = 0\<rparr>;
          g = graph[from := graph ! from @ [forward]]
      in g[to := g ! to @ [backward]])"

definition totalQuantity :: "imbalance_node list \<Rightarrow> coverage_error + int" where
  "totalQuantity items = foldR (\<lambda>sum item. safeAdd sum (imbQuantity item)) 0 items"

definition addPair ::
  "imbalance_node list \<Rightarrow> imbalance_node list \<Rightarrow> (js_string \<rightharpoonup> 'edge priced_path) \<Rightarrow> int \<Rightarrow>
     residual_graph \<times> (js_string \<rightharpoonup> nat \<times> nat) \<Rightarrow> nat \<times> nat \<Rightarrow>
     coverage_error + (residual_graph \<times> (js_string \<rightharpoonup> nat \<times> nat))" where
  "addPair supplies demands paths totalSupply = (\<lambda>(graph, pairEdges) (i, j).
     let key = pairKey (imbNode (supplies ! i)) (imbNode (demands ! j)); node = 1 + i in
     bindR (getBang paths key) (\<lambda>path.
       Inr (addResidualEdge graph node (1 + length supplies + j) totalSupply (pathCost path),
            pairEdges(key \<mapsto> (node, length (graph ! node))))))"

definition residualGraph ::
  "imbalance_node list \<Rightarrow> imbalance_node list \<Rightarrow> (js_string \<rightharpoonup> 'edge priced_path) \<Rightarrow> int \<Rightarrow>
     coverage_error + (residual_graph \<times> (js_string \<rightharpoonup> nat \<times> nat))" where
  "residualGraph supplies demands paths totalSupply =
     (let m = length supplies; n = length demands; sink = 1 + m + n;
          g0 = replicate (sink + 1) [];
          g1 = foldl (\<lambda>g i. addResidualEdge g 0 (1 + i) (imbQuantity (supplies ! i)) 0) g0 [0..<m] in
      bindR (foldR (addPair supplies demands paths totalSupply) (g1, Map.empty) (List.product [0..<m] [0..<n])) (\<lambda>(g2, pairEdges).
        Inr (foldl (\<lambda>g j. addResidualEdge g (1 + m + j) sink (imbQuantity (demands ! j)) 0) g2 [0..<n], pairEdges)))"

text \<open>One Bellman-Ford search.\<close>

record flow_search =
  flowDistance :: "int option list"
  flowPrevNode :: "nat option list"
  flowPrevEdge :: "nat option list"
  flowChanged :: bool

definition relaxResidual :: "nat \<Rightarrow> flow_search \<Rightarrow> nat \<times> residual_edge \<Rightarrow> coverage_error + flow_search" where
  "relaxResidual node st = (\<lambda>(index, edge).
     if edgeCapacity edge \<le> 0 then Inr st
     else (case flowDistance st ! node of None \<Rightarrow> Inr st
       | Some d \<Rightarrow> bindR (safeSignedAdd d (edgeCost edge)) (\<lambda>candidate.
           Inr (if (case flowDistance st ! edgeTo edge of None \<Rightarrow> True | Some e \<Rightarrow> candidate < e)
             then st\<lparr>flowDistance := (flowDistance st)[edgeTo edge := Some candidate],
                     flowPrevNode := (flowPrevNode st)[edgeTo edge := Some node],
                     flowPrevEdge := (flowPrevEdge st)[edgeTo edge := Some index],
                     flowChanged := True\<rparr>
             else st))))"

definition scanNode :: "residual_graph \<Rightarrow> flow_search \<Rightarrow> nat \<Rightarrow> coverage_error + flow_search" where
  "scanNode graph st node =
     (if flowDistance st ! node = None then Inr st
      else foldR (relaxResidual node) st (enumerate 0 (graph ! node)))"

definition flowPass :: "residual_graph \<Rightarrow> flow_search \<Rightarrow> coverage_error + flow_search" where
  "flowPass graph st = foldR (scanNode graph) (st\<lparr>flowChanged := False\<rparr>) [0..<length graph]"

fun flowPasses :: "nat \<Rightarrow> residual_graph \<Rightarrow> flow_search \<Rightarrow> coverage_error + flow_search" where
  "flowPasses 0 graph st = Inr st"
| "flowPasses (Suc n) graph st =
     bindR (flowPass graph st) (\<lambda>st'. if flowChanged st' then flowPasses n graph st' else Inr st')"

definition flowStart :: "residual_graph \<Rightarrow> flow_search" where
  "flowStart graph = \<lparr>flowDistance = (replicate (length graph) None)[0 := Some 0],
     flowPrevNode = replicate (length graph) None, flowPrevEdge = replicate (length graph) None,
     flowChanged = False\<rparr>"

text \<open>
  The walk from the sink back to the source: the triples (node, edge index, cursor) in its
  order.  The code makes it twice, with the same predecessors.
\<close>

fun flowPath :: "nat \<Rightarrow> flow_search \<Rightarrow> nat \<Rightarrow> coverage_error + (nat \<times> nat \<times> nat) list" where
  "flowPath fuel st cursor =
     (if cursor = 0 then Inr []
      else (case (fuel, flowPrevNode st ! cursor, flowPrevEdge st ! cursor) of
        (Suc n, Some node, Some index) \<Rightarrow>
          bindR (flowPath n st node) (\<lambda>rest. Inr ((node, index, cursor) # rest))
      | _ \<Rightarrow> Inl Stuck))"

declare flowPath.simps [simp del]

definition pathQuantity :: "residual_graph \<Rightarrow> int \<Rightarrow> (nat \<times> nat \<times> nat) list \<Rightarrow> int" where
  "pathQuantity graph limit path =
     foldl (\<lambda>q (node, index, cursor). min q (edgeCapacity (graph ! node ! index))) limit path"

definition pushFlow :: "int \<Rightarrow> residual_graph \<Rightarrow> nat \<times> nat \<times> nat \<Rightarrow> residual_graph" where
  "pushFlow q graph = (\<lambda>(node, index, cursor).
     let edge = graph ! node ! index;
         g = graph[node := (graph ! node)[index := edge\<lparr>edgeCapacity := edgeCapacity edge - q\<rparr>]];
         back = g ! cursor ! edgeReverse edge
     in g[cursor := (g ! cursor)[edgeReverse edge := back\<lparr>edgeCapacity := edgeCapacity back + q\<rparr>]])"

fun deliverLoop :: "int \<Rightarrow> nat \<Rightarrow> residual_graph \<Rightarrow> int \<Rightarrow> coverage_error + (residual_graph \<times> nat)" where
  "deliverLoop totalSupply clock graph delivered =
     (if delivered < totalSupply
      then (case clock of 0 \<Rightarrow> Inl (Planning RESOURCE_EXHAUSTED)
        | Suc rest \<Rightarrow>
          bindR (flowPasses (length graph - 1) graph (flowStart graph)) (\<lambda>st.
            if flowDistance st ! (length graph - 1) = None then Inl (Planning NO_FEASIBLE_PLAN)
            else bindR (flowPath (length graph) st (length graph - 1)) (\<lambda>path.
              let quantity = pathQuantity graph (totalSupply - delivered) path in
              bindR (safeAdd delivered quantity) (\<lambda>delivered'.
                deliverLoop totalSupply rest (foldl (pushFlow quantity) graph path) delivered'))))
      else Inr (graph, clock))"

declare deliverLoop.simps [simp del]

definition augmentationOf ::
  "('edge \<Rightarrow> js_string) \<Rightarrow> residual_graph \<Rightarrow> (js_string \<rightharpoonup> nat \<times> nat) \<Rightarrow> (js_string \<rightharpoonup> 'edge priced_path) \<Rightarrow>
     imbalance_node \<times> imbalance_node \<Rightarrow> coverage_error + augmentation list" where
  "augmentationOf keyOf graph pairEdges paths = (\<lambda>(supply, demand).
     let key = pairKey (imbNode supply) (imbNode demand) in
     bindR (getBang pairEdges key) (\<lambda>(node, index).
       let edge = graph ! node ! index; quantity = originalCapacity edge - edgeCapacity edge in
       if 0 < quantity
       then bindR (getBang paths key) (\<lambda>path.
         Inr [\<lparr>augFrom = imbNode supply, augTo = imbNode demand, augQuantity = quantity,
               augUnitCost = pathCost path, augArcKeys = map keyOf (pathArcs path)\<rparr>])
       else Inr []))"

definition minimumCostTransportation ::
  "('edge \<Rightarrow> js_string) \<Rightarrow> imbalance_node list \<Rightarrow> imbalance_node list \<Rightarrow> (js_string \<rightharpoonup> 'edge priced_path) \<Rightarrow> nat \<Rightarrow>
     coverage_error + (augmentation list \<times> nat)" where
  "minimumCostTransportation keyOf supplies demands paths clock =
     (if supplies = [] \<and> demands = [] then Inr ([], clock)
      else bindR (totalQuantity supplies) (\<lambda>totalSupply.
        bindR (totalQuantity demands) (\<lambda>totalDemand.
        bindR (ensureR (totalSupply = totalDemand) (Planning NO_FEASIBLE_PLAN)) (\<lambda>_.
        bindR (residualGraph supplies demands paths totalSupply) (\<lambda>(graph, pairEdges).
        bindR (deliverLoop totalSupply clock graph 0) (\<lambda>(graph', rest).
        bindR (mapR (augmentationOf keyOf graph' pairEdges paths) (List.product supplies demands)) (\<lambda>items.
          Inr (concat items, rest))))))))"

end
