(* ===== verification/EulerTrail.thy ===== *)
theory EulerTrail
  imports DcppNetwork
begin

text \<open>
  \<open>eulerTrail\<close> of \<open>road-coverage-planning-core/src/closed-dcpp.ts\<close>: Hierholzer's algorithm with
  explicit stacks over traversal instances, and the proof that it finds an Euler trail exactly
  when there is one.
\<close>

section \<open>The algorithm\<close>

definition source :: "traversal_instance \<Rightarrow> js_string" where
  "source i = fromNodeKey (instArc i)"

definition target :: "traversal_instance \<Rightarrow> js_string" where
  "target i = toNodeKey (instArc i)"

definition instanceOrder ::
  "traversal_instance option \<Rightarrow> js_string \<Rightarrow> traversal_instance \<Rightarrow> traversal_instance \<Rightarrow> int" where
  "instanceOrder preferred node left right =
     (let plain = orElse (compareUnicodeCodePoints (arcKey (instArc left)) (arcKey (instArc right)))
                    (compareUnicodeCodePoints (instId left) (instId right)) in
      case preferred of None \<Rightarrow> plain
      | Some p \<Rightarrow>
          if node = source p \<and> instId left = instId p then - 1
          else if node = source p \<and> instId right = instId p then 1
          else plain)"

definition leaving ::
  "traversal_instance list \<Rightarrow> traversal_instance option \<Rightarrow> js_string \<Rightarrow> traversal_instance list" where
  "leaving instances preferred node =
     sort_by (instanceOrder preferred node) (filter (\<lambda>i. source i = node) instances)"

record euler_state =
  cursorAt :: "js_string \<Rightarrow> nat"
  usedIds :: "js_string list"
  nodeStack :: "js_string list"
  edgeStack :: "traversal_instance list"
  circuit :: "traversal_instance list"

definition skipUsed :: "js_string list \<Rightarrow> traversal_instance list \<Rightarrow> nat \<Rightarrow> nat" where
  "skipUsed used list cursor =
     cursor + length (takeWhile (\<lambda>i. instId i \<in> set used) (drop cursor list))"

definition eulerStep ::
  "(js_string \<Rightarrow> traversal_instance list) \<Rightarrow> euler_state \<Rightarrow> js_string \<Rightarrow> js_string list \<Rightarrow> euler_state" where
  "eulerStep leave st node below =
     (let list = leave node;
          cursor = skipUsed (usedIds st) list (cursorAt st node) in
      if cursor < length list
      then (let edge = list ! cursor in
        st\<lparr>cursorAt := (cursorAt st)(node := cursor + 1), usedIds := usedIds st @ [instId edge],
           nodeStack := target edge # node # below, edgeStack := edge # edgeStack st\<rparr>)
      else (let st' = st\<lparr>cursorAt := (cursorAt st)(node := cursor), nodeStack := below\<rparr> in
        case edgeStack st of [] \<Rightarrow> st'
        | edge # rest \<Rightarrow> st'\<lparr>edgeStack := rest, circuit := edge # circuit st\<rparr>))"

fun eulerLoop ::
  "(js_string \<Rightarrow> traversal_instance list) \<Rightarrow> nat \<Rightarrow> euler_state \<Rightarrow> coverage_error + (euler_state \<times> nat)" where
  "eulerLoop leave clock st =
     (case nodeStack st of [] \<Rightarrow> Inr (st, clock)
      | node # below \<Rightarrow>
          (case clock of 0 \<Rightarrow> Inl (Planning RESOURCE_EXHAUSTED)
           | Suc rest \<Rightarrow> eulerLoop leave rest (eulerStep leave st node below)))"

declare eulerLoop.simps [simp del]

fun joined :: "traversal_instance list \<Rightarrow> bool" where
  "joined (a # b # rest) = (target a = source b \<and> joined (b # rest))"
| "joined _ = True"

definition eulerTrail ::
  "traversal_instance list \<Rightarrow> js_string \<Rightarrow> js_string \<Rightarrow> traversal_instance option \<Rightarrow> nat \<Rightarrow>
     coverage_error + (traversal_instance list \<times> nat)" where
  "eulerTrail instances startNode endNode preferred clock =
     bindR (eulerLoop (leaving instances preferred) clock
       \<lparr>cursorAt = (\<lambda>_. 0), usedIds = [], nodeStack = [startNode], edgeStack = [], circuit = []\<rparr>) (\<lambda>(st, rest).
     let trail = circuit st in
     bindR (ensureR (length (remdups (usedIds st)) = length instances \<and> length trail = length instances \<and>
         (case preferred of None \<Rightarrow> True | Some p \<Rightarrow> trail \<noteq> [] \<and> instId (hd trail) = instId p) \<and>
         trail \<noteq> [] \<and> target (last trail) = endNode) (Planning NO_FEASIBLE_PLAN)) (\<lambda>_.
     bindR (ensureR (joined trail) (Planning NO_FEASIBLE_PLAN)) (\<lambda>_. Inr (trail, rest))))"

section \<open>Trails and balance\<close>

fun trailFrom :: "js_string \<Rightarrow> traversal_instance list \<Rightarrow> js_string \<Rightarrow> bool" where
  "trailFrom u [] w = (u = w)"
| "trailFrom u (e # p) w = (source e = u \<and> trailFrom (target e) p w)"

lemma trailFrom_append: "trailFrom u (p @ q) w \<longleftrightarrow> (\<exists>v. trailFrom u p v \<and> trailFrom v q w)"
  by (induction p arbitrary: u) auto

text \<open>Departures minus arrivals at a node.\<close>

definition surplus :: "traversal_instance list \<Rightarrow> js_string \<Rightarrow> int" where
  "surplus es x = (\<Sum>e\<leftarrow>es. of_bool (source e = x) - of_bool (target e = x))"

lemma surplus_simps [simp]:
  "surplus [] x = 0"
  "surplus (e # es) x = of_bool (source e = x) - of_bool (target e = x) + surplus es x"
  "surplus (es @ fs) x = surplus es x + surplus fs x"
  by (simp_all add: surplus_def)

lemma surplus_multiset: "surplus es x = (\<Sum>e\<in>#mset es. of_bool (source e = x) - of_bool (target e = x))"
  by (induction es) auto

lemma surplus_perm: "mset es = mset fs \<Longrightarrow> surplus es x = surplus fs x"
  by (simp add: surplus_multiset)

lemma surplus_trail: "trailFrom u p w \<Longrightarrow> surplus p x = of_bool (x = u) - of_bool (x = w)"
  by (induction p arbitrary: u) auto

lemma surplus_no_departure: "(\<And>e. e \<in> set es \<Longrightarrow> source e \<noteq> x) \<Longrightarrow> surplus es x \<le> 0"
  by (induction es) (auto simp: of_bool_def)

lemma joined_iff: "trail \<noteq> [] \<Longrightarrow> joined trail \<longleftrightarrow> trailFrom (source (hd trail)) trail (target (last trail))"
  by (induction trail rule: joined.induct) auto

section \<open>The invariant\<close>

definition unusedOf :: "traversal_instance list \<Rightarrow> euler_state \<Rightarrow> traversal_instance list" where
  "unusedOf instances st = filter (\<lambda>e. instId e \<notin> set (usedIds st)) instances"

definition exhausted :: "traversal_instance list \<Rightarrow> euler_state \<Rightarrow> js_string \<Rightarrow> bool" where
  "exhausted instances st x \<longleftrightarrow> (\<forall>e \<in> set instances. source e = x \<longrightarrow> instId e \<in> set (usedIds st))"

text \<open>Bookkeeping that holds of every run, whatever the graph.\<close>

definition eulerBooks ::
  "traversal_instance list \<Rightarrow> js_string \<Rightarrow> euler_state \<Rightarrow> bool" where
  "eulerBooks instances startNode st \<longleftrightarrow>
     nodeStack st \<in> {[], map target (edgeStack st) @ [startNode]} \<and> (nodeStack st = [] \<longrightarrow> edgeStack st = []) \<and>
     trailFrom startNode (rev (edgeStack st)) (hd (map target (edgeStack st) @ [startNode])) \<and>
     (edgeStack st = [] \<longrightarrow> circuit st \<noteq> [] \<longrightarrow> source (hd (circuit st)) = startNode) \<and>
     set (edgeStack st @ circuit st) \<subseteq> set instances \<and>
     mset (usedIds st) = mset (map instId (edgeStack st @ circuit st)) \<and> distinct (usedIds st)"

lemma leaving_set [simp]: "e \<in> set (leaving instances preferred x) \<longleftrightarrow> e \<in> set instances \<and> source e = x"
  by (simp add: leaving_def)

lemma skipUsed_stop:
  "skipUsed used xs c < length xs \<Longrightarrow> instId (xs ! skipUsed used xs c) \<notin> set used"
proof -
  let ?t = "takeWhile (\<lambda>i. instId i \<in> set used) (drop c xs)"
  assume "skipUsed used xs c < length xs"
  then have "length ?t < length (drop c xs)" by (simp add: skipUsed_def)
  from nth_length_takeWhile [OF this] show ?thesis
    using \<open>skipUsed used xs c < length xs\<close> by (simp add: skipUsed_def)
qed

lemma skipUsed_skips:
  assumes "e \<in> set (take (skipUsed used xs c) xs)"
  shows "e \<in> set (take c xs) \<or> instId e \<in> set used"
proof -
  let ?t = "takeWhile (\<lambda>i. instId i \<in> set used) (drop c xs)"
  have "take (skipUsed used xs c) xs = take c xs @ take (length ?t) (drop c xs)"
    by (simp add: skipUsed_def take_add)
  also have "take (length ?t) (drop c xs) = ?t" by (metis takeWhile_eq_take)
  finally show ?thesis using assms by (auto dest: set_takeWhileD)
qed

lemma eulerStep_push:
  assumes "skipUsed (usedIds st) (leave node) (cursorAt st node) < length (leave node)"
  shows "eulerStep leave st node below = st\<lparr>
     cursorAt := (cursorAt st)(node := skipUsed (usedIds st) (leave node) (cursorAt st node) + 1),
     usedIds := usedIds st @ [instId (leave node ! skipUsed (usedIds st) (leave node) (cursorAt st node))],
     nodeStack := target (leave node ! skipUsed (usedIds st) (leave node) (cursorAt st node)) # node # below,
     edgeStack := (leave node ! skipUsed (usedIds st) (leave node) (cursorAt st node)) # edgeStack st\<rparr>"
  using assms by (simp add: eulerStep_def Let_def)

lemma eulerStep_pop:
  assumes "\<not> skipUsed (usedIds st) (leave node) (cursorAt st node) < length (leave node)"
  shows "eulerStep leave st node below = st\<lparr>
     cursorAt := (cursorAt st)(node := skipUsed (usedIds st) (leave node) (cursorAt st node)),
     nodeStack := below, edgeStack := tl (edgeStack st), circuit := take 1 (edgeStack st) @ circuit st\<rparr>"
  using assms by (cases "edgeStack st") (simp_all add: eulerStep_def Let_def)

lemma books_top:
  assumes "eulerBooks instances startNode st" and "nodeStack st = node # below"
  shows "node = hd (map target (edgeStack st) @ [startNode])"
    and "below = (if edgeStack st = [] then [] else map target (tl (edgeStack st)) @ [startNode])"
  using assms by (cases "edgeStack st"; auto simp: eulerBooks_def)+

lemma eulerStep_books:
  assumes top: "nodeStack st = node # below" and books: "eulerBooks instances startNode st"
  shows "eulerBooks instances startNode (eulerStep (leaving instances preferred) st node below)"
proof -
  let ?l = "leaving instances preferred node"
  let ?c = "skipUsed (usedIds st) ?l (cursorAt st node)"
  note node = books_top [OF books top]
  show ?thesis
  proof (cases "?c < length ?l")
    case True
    then have "?l ! ?c \<in> set instances" "source (?l ! ?c) = node" using nth_mem leaving_set by metis+
    moreover have "instId (?l ! ?c) \<notin> set (usedIds st)" using True by (rule skipUsed_stop)
    ultimately show ?thesis using True books node top
      by (auto simp: eulerBooks_def eulerStep_push trailFrom_append)
  next
    case False
    show ?thesis
    proof (cases "edgeStack st")
      case Nil
      then show ?thesis using False books node by (simp add: eulerBooks_def eulerStep_pop)
    next
      case (Cons e es)
      have "source e = hd (map target es @ [startNode]) \<and> trailFrom startNode (rev es) (hd (map target es @ [startNode]))"
        using books Cons by (cases es) (auto simp: eulerBooks_def trailFrom_append)
      then show ?thesis using False books node Cons by (auto simp: eulerBooks_def eulerStep_pop)
    qed
  qed
qed

lemma eulerLoop_invariant:
  assumes "eulerLoop leave clock st = Inr (st', rest)" and "P st"
    and "\<And>s node below. nodeStack s = node # below \<Longrightarrow> P s \<Longrightarrow> P (eulerStep leave s node below)"
  shows "P st' \<and> nodeStack st' = []"
  using assms(1,2)
proof (induction clock arbitrary: st)
  case (0 st)
  then show ?case by (auto simp: eulerLoop.simps [of _ 0] split: list.splits)
next
  case (Suc clock st)
  then show ?case using assms(3)
    by (cases "nodeStack st") (auto simp: eulerLoop.simps [of _ "Suc clock"])
qed

text \<open>Soundness needs no assumption on the input: the code checks its own result.\<close>

lemma eulerTrail_sound:
  assumes "eulerTrail instances startNode endNode preferred clock = Inr (trail, rest)"
  shows "mset trail = mset instances" and "trail \<noteq> []" and "distinct (map instId instances)"
    and "trailFrom startNode trail endNode"
    and "preferred = Some p \<Longrightarrow> instId (hd trail) = instId p"
proof -
  obtain st where st: "eulerLoop (leaving instances preferred) clock
       \<lparr>cursorAt = (\<lambda>_. 0), usedIds = [], nodeStack = [startNode], edgeStack = [], circuit = []\<rparr> = Inr (st, rest)"
    and trail: "trail = circuit st" and checks: "length (remdups (usedIds st)) = length instances"
      "length trail = length instances" "trail \<noteq> []" "target (last trail) = endNode" "joined trail"
      "preferred = Some p \<Longrightarrow> instId (hd trail) = instId p"
    using assms by (auto simp: eulerTrail_def bindR_eq_Inr Let_def split: option.splits)
  have init: "eulerBooks instances startNode
      \<lparr>cursorAt = (\<lambda>_. 0), usedIds = [], nodeStack = [startNode], edgeStack = [], circuit = []\<rparr>"
    by (simp add: eulerBooks_def)
  have books: "eulerBooks instances startNode st" "nodeStack st = []"
    using eulerLoop_invariant [OF st, of "eulerBooks instances startNode", OF init eulerStep_books] by blast+
  then have used: "mset (usedIds st) = mset (map instId (edgeStack st @ circuit st))" "distinct (usedIds st)"
    and sub: "set (edgeStack st @ circuit st) \<subseteq> set instances" by (auto simp: eulerBooks_def)
  have dis: "distinct (map instId (edgeStack st @ circuit st))"
    using used by (metis mset_eq_imp_distinct_iff)
  then have dis_trail: "distinct (map instId trail)" by (simp add: trail)
  have "card (set trail) = length instances"
    using dis_trail checks(2) by (metis distinct_card distinct_map)
  moreover have "set trail \<subseteq> set instances" using sub by (simp add: trail)
  moreover have "card (set instances) \<le> length instances" by (rule card_length)
  ultimately have eq: "set trail = set instances" by (metis List.finite_set card_seteq)
  then have "distinct instances" using \<open>card (set trail) = length instances\<close> by (metis card_distinct)
  then show m: "mset trail = mset instances"
    using eq dis_trail by (metis distinct_map set_eq_iff_mset_eq_distinct)
  then show "distinct (map instId instances)" using dis_trail by (metis distinct_map_perm)
  show "trail \<noteq> []" by (rule checks(3))
  have "source (hd trail) = startNode" using books checks(3) by (auto simp: eulerBooks_def trail)
  then show "trailFrom startNode trail endNode"
    using checks(5) unfolding joined_iff [OF checks(3)] checks(4) by simp
  show "preferred = Some p \<Longrightarrow> instId (hd trail) = instId p" by (rule checks(6))
qed

section \<open>Completeness\<close>

text \<open>
  \<open>eulerInv\<close>: what the balance of the graph adds.  The trail built so far ends at the end node;
  nothing before a cursor is unused; and every node the trail has left behind is exhausted.
\<close>

definition eulerInv ::
  "traversal_instance list \<Rightarrow> traversal_instance option \<Rightarrow> js_string \<Rightarrow> js_string \<Rightarrow> euler_state \<Rightarrow> bool" where
  "eulerInv instances preferred startNode endNode st \<longleftrightarrow>
     eulerBooks instances startNode st \<and>
     (\<exists>t. trailFrom t (circuit st) endNode) \<and>
     (\<forall>x. \<forall>e \<in> set (take (cursorAt st x) (leaving instances preferred x)). instId e \<in> set (usedIds st)) \<and>
     (\<forall>e \<in> set (circuit st). exhausted instances st (target e)) \<and>
     (nodeStack st = [] \<longrightarrow> exhausted instances st startNode)"

lemma distinct_ids_eq:
  "distinct (map instId es) \<Longrightarrow> e \<in> set es \<Longrightarrow> f \<in> set es \<Longrightarrow> instId e = instId f \<Longrightarrow> e = f"
  by (auto simp: distinct_map inj_on_def)

lemma length_filter_one: "distinct xs \<Longrightarrow> a \<in> set xs \<Longrightarrow> Suc (length (filter (\<lambda>e. e \<noteq> a) xs)) = length xs"
proof (induction xs)
  case (Cons x xs)
  show ?case
  proof (cases "x = a")
    case True
    then have "filter (\<lambda>e. e \<noteq> a) xs = xs" using Cons.prems(1) by (intro filter_True) auto
    then show ?thesis using True by simp
  next
    case False
    then show ?thesis using Cons by simp
  qed
qed simp

lemma books_ids:
  assumes "eulerBooks instances startNode st"
  shows "mset (usedIds st) = mset (map instId (edgeStack st @ circuit st))" and "distinct (usedIds st)"
    and "set (edgeStack st @ circuit st) \<subseteq> set instances"
  using assms by (simp_all add: eulerBooks_def)

lemma books_partition:
  assumes dis: "distinct (map instId instances)" and books: "eulerBooks instances startNode st"
  shows "mset instances = mset (unusedOf instances st) + mset (edgeStack st @ circuit st)"
proof -
  let ?S = "edgeStack st @ circuit st"
  note ids = books_ids(1,2) [OF books] and sub = books_ids(3) [OF books]
  have used: "set (usedIds st) = instId ` set ?S" "distinct (map instId ?S)"
    using mset_eq_setD [OF ids(1)] mset_eq_imp_distinct_iff [OF ids(1)] ids(2) by auto
  have "set (filter (\<lambda>e. instId e \<in> set (usedIds st)) instances) = set ?S"
  proof (intro equalityI subsetI)
    fix e assume "e \<in> set (filter (\<lambda>e. instId e \<in> set (usedIds st)) instances)"
    then obtain f where f: "f \<in> set ?S" "instId e = instId f" "e \<in> set instances" unfolding used by auto
    then show "e \<in> set ?S" using distinct_ids_eq [OF dis f(3) _ f(2)] sub by blast
  next
    fix e assume "e \<in> set ?S"
    then show "e \<in> set (filter (\<lambda>e. instId e \<in> set (usedIds st)) instances)" using sub used(1) by auto
  qed
  moreover have "distinct (filter (\<lambda>e. instId e \<in> set (usedIds st)) instances)" "distinct ?S"
    using dis used(2) by (auto simp: distinct_map)
  ultimately have "mset (filter (\<lambda>e. instId e \<in> set (usedIds st)) instances) = mset ?S"
    by (metis set_eq_iff_mset_eq_distinct)
  then show ?thesis unfolding unusedOf_def
    by (metis mset_filter multiset_partition add.commute)
qed

lemma pop_balance:
  assumes dis: "distinct (map instId instances)"
    and bal: "\<And>x. surplus instances x = of_bool (x = startNode) - of_bool (x = endNode)"
    and inv: "eulerInv instances preferred startNode endNode st" and top: "nodeStack st = node # below"
    and stop: "\<not> skipUsed (usedIds st) (leaving instances preferred node) (cursorAt st node) < length (leaving instances preferred node)"
  shows "exhausted instances st node" and "trailFrom node (circuit st) endNode"
proof -
  let ?l = "leaving instances preferred node"
  have books: "eulerBooks instances startNode st" using inv by (simp add: eulerInv_def)
  show ex: "exhausted instances st node"
    unfolding exhausted_def
  proof (intro ballI impI)
    fix e assume "e \<in> set instances" "source e = node"
    then have "e \<in> set (take (skipUsed (usedIds st) ?l (cursorAt st node)) ?l)" using stop by simp
    then show "instId e \<in> set (usedIds st)"
      using skipUsed_skips [of e "usedIds st" ?l "cursorAt st node"] inv by (auto simp: eulerInv_def)
  qed
  obtain t where t: "trailFrom t (circuit st) endNode" using inv by (auto simp: eulerInv_def)
  have stack: "trailFrom startNode (rev (edgeStack st)) node"
    using books books_top(1) [OF books top] by (simp add: eulerBooks_def)
  have "surplus instances node = surplus (unusedOf instances st @ rev (edgeStack st) @ circuit st) node"
    using books_partition [OF dis books] by (intro surplus_perm) simp
  then have "surplus (unusedOf instances st) node = 1 - of_bool (node = t)"
    using bal [of node] surplus_trail [OF stack, of node] surplus_trail [OF t, of node] by simp
  moreover have "surplus (unusedOf instances st) node \<le> 0"
    using ex by (intro surplus_no_departure) (auto simp: unusedOf_def exhausted_def)
  ultimately have "node = t" by (cases "node = t") auto
  then show "trailFrom node (circuit st) endNode" using t by simp
qed

lemma eulerStep_inv:
  assumes dis: "distinct (map instId instances)"
    and bal: "\<And>x. surplus instances x = of_bool (x = startNode) - of_bool (x = endNode)"
    and inv: "eulerInv instances preferred startNode endNode st" and top: "nodeStack st = node # below"
  shows "eulerInv instances preferred startNode endNode (eulerStep (leaving instances preferred) st node below)"
proof -
  let ?l = "leaving instances preferred node" and ?st = "eulerStep (leaving instances preferred) st node below"
  let ?c = "skipUsed (usedIds st) ?l (cursorAt st node)"
  have books: "eulerBooks instances startNode st" using inv by (simp add: eulerInv_def)
  note books' = eulerStep_books [OF top books, of preferred]
  have skipped: "instId e \<in> set (usedIds st)" if "e \<in> set (take ?c ?l)" for e
    using skipUsed_skips [OF that] inv by (auto simp: eulerInv_def)
  have mono: "set (usedIds st) \<subseteq> set (usedIds ?st)"
    by (cases "?c < length ?l") (auto simp: eulerStep_push eulerStep_pop)
  have ex_mono: "exhausted instances st x \<Longrightarrow> exhausted instances ?st x" for x
    using mono by (auto simp: exhausted_def)
  have cursors: "\<forall>x. \<forall>e \<in> set (take (cursorAt ?st x) (leaving instances preferred x)). instId e \<in> set (usedIds ?st)"
  proof (intro allI ballI)
    fix x e assume e: "e \<in> set (take (cursorAt ?st x) (leaving instances preferred x))"
    show "instId e \<in> set (usedIds ?st)"
    proof (cases "?c < length ?l")
      case True
      show ?thesis
      proof (cases "x = node")
        case x: True
        then have "e \<in> set (take ?c ?l) \<or> e = ?l ! ?c" using e True by (auto simp: eulerStep_push take_Suc_conv_app_nth)
        then show ?thesis using skipped True by (auto simp: eulerStep_push)
      next
        case False
        then show ?thesis using e True inv by (auto simp: eulerStep_push eulerInv_def)
      qed
    next
      case False
      then show ?thesis using e skipped inv by (cases "x = node") (auto simp: eulerStep_pop eulerInv_def)
    qed
  qed
  show ?thesis
  proof (cases "?c < length ?l")
    case True
    then show ?thesis using books' cursors inv ex_mono
      by (auto simp: eulerInv_def eulerStep_push)
  next
    case False
    note pop = pop_balance [OF dis bal inv top False]
    note node = books_top [OF books top]
    have stack: "trailFrom startNode (rev (edgeStack st)) node"
      using books node(1) by (simp add: eulerBooks_def)
    have "\<exists>t. trailFrom t (circuit ?st) endNode"
      using pop(2) node(1) False by (cases "edgeStack st") (auto simp: eulerStep_pop)
    moreover have "\<forall>e \<in> set (circuit ?st). exhausted instances ?st (target e)"
      using pop(1) node(1) False inv ex_mono by (cases "edgeStack st") (auto simp: eulerStep_pop eulerInv_def)
    moreover have "nodeStack ?st = [] \<longrightarrow> exhausted instances ?st startNode"
      using pop(1) node False ex_mono by (cases "edgeStack st") (auto simp: eulerStep_pop)
    ultimately show ?thesis using books' cursors by (simp add: eulerInv_def)
  qed
qed

definition eulerWork :: "traversal_instance list \<Rightarrow> euler_state \<Rightarrow> nat" where
  "eulerWork instances st = 2 * length (unusedOf instances st) + length (nodeStack st)"

lemma eulerStep_work:
  assumes dis: "distinct (map instId instances)" and top: "nodeStack st = node # below"
  shows "Suc (eulerWork instances (eulerStep (leaving instances preferred) st node below)) = eulerWork instances st"
proof -
  let ?l = "leaving instances preferred node"
  let ?c = "skipUsed (usedIds st) ?l (cursorAt st node)"
  show ?thesis
  proof (cases "?c < length ?l")
    case True
    let ?e = "?l ! ?c"
    have e: "?e \<in> set instances" using True nth_mem leaving_set by metis
    have "instId ?e \<notin> set (usedIds st)" using True by (rule skipUsed_stop)
    then have "?e \<in> set (unusedOf instances st)" using e by (simp add: unusedOf_def)
    moreover have "unusedOf instances (eulerStep (leaving instances preferred) st node below) = filter (\<lambda>e. e \<noteq> ?e) (unusedOf instances st)"
      using True e distinct_ids_eq [OF dis] by (auto simp: eulerStep_push unusedOf_def intro!: filter_cong)
    moreover have "distinct (unusedOf instances st)" using dis by (simp add: unusedOf_def distinct_map)
    ultimately have "Suc (length (unusedOf instances (eulerStep (leaving instances preferred) st node below))) = length (unusedOf instances st)"
      using length_filter_one by simp
    then show ?thesis using True top by (simp add: eulerWork_def eulerStep_push)
  next
    case False
    then show ?thesis using top by (simp add: eulerWork_def eulerStep_pop unusedOf_def)
  qed
qed

lemma eulerLoop_ends:
  assumes dis: "distinct (map instId instances)"
    and "eulerWork instances st \<le> clock"
  shows "\<exists>st' rest. eulerLoop (leaving instances preferred) clock st = Inr (st', rest)"
  using assms(2)
proof (induction clock arbitrary: st)
  case (0 st)
  then show ?case by (simp add: eulerLoop.simps [of _ 0] eulerWork_def)
next
  case (Suc clock st)
  show ?case
  proof (cases "nodeStack st")
    case Nil
    then show ?thesis by (simp add: eulerLoop.simps [of _ "Suc clock"])
  next
    case (Cons node below)
    then show ?thesis using Suc.IH [of "eulerStep (leaving instances preferred) st node below"] Suc.prems
        eulerStep_work [OF dis Cons, of preferred]
      by (auto simp: eulerLoop.simps [of _ "Suc clock"])
  qed
qed

text \<open>The preferred instance is the first one out of its node and stays at the bottom.\<close>

lemma sort_by_head:
  assumes "distinct xs" and "p \<in> set xs"
    and "\<And>y. y \<in> set xs \<Longrightarrow> y \<noteq> p \<Longrightarrow> c p y \<le> 0 \<and> 0 < c y p"
  shows "\<exists>ys. sort_by c xs = p # ys"
  using assms
proof (induction xs)
  case (Cons x xs)
  show ?case
  proof (cases "x = p")
    case True
    then have "p \<notin> set (sort_by c xs)" using Cons.prems(1) by simp
    then have "\<forall>y \<in> set (sort_by c xs). c p y \<le> 0" using Cons.prems(3) True by auto
    then show ?thesis using True by (cases "sort_by c xs") auto
  next
    case False
    then obtain ys where "sort_by c xs = p # ys" using Cons by auto
    moreover have "0 < c x p" using Cons.prems(3) [of x] False by auto
    ultimately show ?thesis by simp
  qed
qed simp

lemma leaving_preferred:
  assumes dis: "distinct (map instId instances)" and p: "p \<in> set instances"
  shows "\<exists>ys. leaving instances (Some p) (source p) = p # ys"
  unfolding leaving_def
proof (rule sort_by_head)
  show "distinct (filter (\<lambda>i. source i = source p) instances)" using dis by (simp add: distinct_map)
  show "p \<in> set (filter (\<lambda>i. source i = source p) instances)" using p by simp
  fix y assume y: "y \<in> set (filter (\<lambda>i. source i = source p) instances)" "y \<noteq> p"
  then have "instId y \<noteq> instId p" using distinct_ids_eq [OF dis _ p] by auto
  then show "instanceOrder (Some p) (source p) p y \<le> 0 \<and> 0 < instanceOrder (Some p) (source p) y p"
    by (simp add: instanceOrder_def)
qed

definition anchored :: "traversal_instance \<Rightarrow> euler_state \<Rightarrow> bool" where
  "anchored p st \<longleftrightarrow> (edgeStack st = [] \<and> circuit st = [] \<and> usedIds st = [] \<and> cursorAt st (source p) = 0 \<and> nodeStack st \<noteq> []) \<or>
     (edgeStack st \<noteq> [] \<and> last (edgeStack st) = p) \<or> (edgeStack st = [] \<and> circuit st \<noteq> [] \<and> hd (circuit st) = p)"

lemma trailFrom_last: "trailFrom u q w \<Longrightarrow> q \<noteq> [] \<Longrightarrow> target (last q) = w"
  by (induction q arbitrary: u) auto

lemma eulerStep_anchored:
  assumes dis: "distinct (map instId instances)" and p: "p \<in> set instances"
    and inv: "eulerInv instances (Some p) (source p) (source p) st" and top: "nodeStack st = node # below"
    and anc: "anchored p st"
  shows "anchored p (eulerStep (leaving instances (Some p)) st node below)"
proof -
  let ?l = "leaving instances (Some p) node"
  let ?c = "skipUsed (usedIds st) ?l (cursorAt st node)"
  have books: "eulerBooks instances (source p) st" using inv by (simp add: eulerInv_def)
  note node = books_top [OF books top]
  obtain ys where head: "leaving instances (Some p) (source p) = p # ys" using leaving_preferred [OF dis p] ..
  consider (fresh) "edgeStack st = []" "circuit st = []" "usedIds st = []" "cursorAt st (source p) = 0"
    | (out) "edgeStack st \<noteq> []" "last (edgeStack st) = p"
    | (returned) "edgeStack st = []" "circuit st \<noteq> []" "hd (circuit st) = p"
    using anc by (auto simp: anchored_def)
  then show ?thesis
  proof cases
    case fresh
    then have "node = source p" "?c = 0" using node(1) head by (auto simp: skipUsed_def)
    then show ?thesis using head fresh by (simp add: eulerStep_push anchored_def)
  next
    case out
    then obtain e es where es: "edgeStack st = e # es" by (cases "edgeStack st") auto
    show ?thesis
    proof (cases "?c < length ?l")
      case True
      then show ?thesis using out by (simp add: eulerStep_push anchored_def)
    next
      case False
      then show ?thesis using out es by (cases es) (auto simp: eulerStep_pop anchored_def)
    qed
  next
    case returned
    have "exhausted instances st (source p)"
    proof -
      obtain t where "trailFrom t (circuit st) (source p)" using inv by (auto simp: eulerInv_def)
      then have "target (last (circuit st)) = source p" using returned(2) by (rule trailFrom_last)
      then show ?thesis using inv returned(2) last_in_set by (metis eulerInv_def)
    qed
    moreover have "node = source p" using node(1) returned(1) by simp
    ultimately have "\<not> ?c < length ?l"
      using skipUsed_stop [of "usedIds st" ?l "cursorAt st node"] nth_mem [of ?c ?l] by (auto simp: exhausted_def)
    then show ?thesis using returned by (simp add: eulerStep_pop anchored_def)
  qed
qed


definition eulerStart :: "js_string \<Rightarrow> euler_state" where
  "eulerStart startNode =
     \<lparr>cursorAt = (\<lambda>_. 0), usedIds = [], nodeStack = [startNode], edgeStack = [], circuit = []\<rparr>"

lemma eulerTrail_start:
  "eulerTrail instances startNode endNode preferred clock =
     bindR (eulerLoop (leaving instances preferred) clock (eulerStart startNode)) (\<lambda>(st, rest).
     let trail = circuit st in
     bindR (ensureR (length (remdups (usedIds st)) = length instances \<and> length trail = length instances \<and>
         (case preferred of None \<Rightarrow> True | Some p \<Rightarrow> trail \<noteq> [] \<and> instId (hd trail) = instId p) \<and>
         trail \<noteq> [] \<and> target (last trail) = endNode) (Planning NO_FEASIBLE_PLAN)) (\<lambda>_.
     bindR (ensureR (joined trail) (Planning NO_FEASIBLE_PLAN)) (\<lambda>_. Inr (trail, rest))))"
  by (simp add: eulerTrail_def eulerStart_def)

lemma eulerInv_start: "eulerInv instances preferred startNode endNode (eulerStart startNode)"
  by (simp add: eulerInv_def eulerStart_def eulerBooks_def)

text \<open>When the search is over every instance lies on the circuit.\<close>

lemma euler_all_used:
  assumes inv: "eulerInv instances preferred startNode endNode st" and over: "nodeStack st = []"
    and dis: "distinct (map instId instances)" and "trailFrom startNode q w" and "set q \<subseteq> set instances"
  shows "set q \<subseteq> set (circuit st) \<and> exhausted instances st w"
  using assms(4,5)
proof (induction q arbitrary: w rule: rev_induct)
  case Nil
  then show ?case using inv over by (simp add: eulerInv_def)
next
  case (snoc e q)
  have books: "eulerBooks instances startNode st" using inv by (simp add: eulerInv_def)
  from snoc.prems have q: "trailFrom startNode q (source e)" "set q \<subseteq> set instances"
    and e: "e \<in> set instances" "w = target e" by (auto simp: trailFrom_append)
  from snoc.IH [OF q] have sub: "set q \<subseteq> set (circuit st)" and ex: "exhausted instances st (source e)" by auto
  have "instId e \<in> set (usedIds st)" using ex e(1) by (simp add: exhausted_def)
  moreover have "edgeStack st = []" using books over by (simp add: eulerBooks_def)
  ultimately obtain f where f: "f \<in> set (circuit st)" "instId f = instId e"
    using mset_eq_setD [OF books_ids(1) [OF books]] by auto
  then have "f \<in> set instances" using books_ids(3) [OF books] by auto
  then have "f = e" using distinct_ids_eq [OF dis _ e(1) f(2)] by simp
  then have c: "e \<in> set (circuit st)" using f(1) by simp
  then have "exhausted instances st (target e)" using inv by (simp add: eulerInv_def)
  then show ?case using c sub e(2) by simp
qed

lemma eulerTrail_complete:
  assumes dis: "distinct (map instId instances)" and clock: "2 * length instances + 1 \<le> clock"
    and q: "trailFrom startNode q endNode" "mset q = mset instances" "q \<noteq> []"
    and pref: "\<And>p. preferred = Some p \<Longrightarrow> p \<in> set instances \<and> source p = startNode \<and> endNode = startNode"
  shows "\<exists>trail rest. eulerTrail instances startNode endNode preferred clock = Inr (trail, rest)"
proof -
  have bal: "surplus instances x = of_bool (x = startNode) - of_bool (x = endNode)" for x
    using surplus_trail [OF q(1)] surplus_perm [OF q(2)] by simp
  have "eulerWork instances (eulerStart startNode) \<le> clock"
    using clock by (simp add: eulerWork_def eulerStart_def unusedOf_def)
  from eulerLoop_ends [OF dis this, of preferred] obtain st rest where
    st: "eulerLoop (leaving instances preferred) clock (eulerStart startNode) = Inr (st, rest)" by (elim exE)
  have inv: "eulerInv instances preferred startNode endNode st" and over: "nodeStack st = []"
    using eulerLoop_invariant [OF st eulerInv_start eulerStep_inv [OF dis bal]] by blast+
  have books: "eulerBooks instances startNode st" using inv by (simp add: eulerInv_def)
  have "set q = set instances" using q(2) by (metis set_mset_mset)
  then have "set instances \<subseteq> set (circuit st)" using euler_all_used [OF inv over dis q(1)] by simp
  moreover have empty: "edgeStack st = []" using books over by (simp add: eulerBooks_def)
  ultimately have sets: "set (circuit st) = set instances" using books_ids(3) [OF books] by auto
  have dc: "distinct (map instId (circuit st))"
    using mset_eq_imp_distinct_iff [OF books_ids(1) [OF books]] books_ids(2) [OF books] empty by simp
  have len: "length (circuit st) = length instances"
    using sets dc dis by (metis distinct_card distinct_map)
  moreover have "length (usedIds st) = length (circuit st)"
    using arg_cong [OF books_ids(1) [OF books], of size] empty by simp
  moreover have ne: "circuit st \<noteq> []" using len q(2,3) by (metis length_0_conv size_mset)
  moreover obtain t where t: "trailFrom t (circuit st) endNode" using inv by (auto simp: eulerInv_def)
  moreover have "target (last (circuit st)) = endNode" using t ne by (rule trailFrom_last)
  moreover have "joined (circuit st)"
    using t ne joined_iff [OF ne] \<open>target (last (circuit st)) = endNode\<close> by (cases "circuit st") auto
  moreover have "instId (hd (circuit st)) = instId p" if p: "preferred = Some p" for p
  proof -
    note pp = pref [OF p]
    have "anchored p st \<and> eulerInv instances (Some p) (source p) (source p) st"
    proof (rule conjunct1 [OF eulerLoop_invariant [OF st, of "\<lambda>s. anchored p s \<and> eulerInv instances (Some p) (source p) (source p) s"]])
      show "anchored p (eulerStart startNode) \<and> eulerInv instances (Some p) (source p) (source p) (eulerStart startNode)"
        using pp eulerInv_start [of instances "Some p" startNode startNode] by (simp add: anchored_def eulerStart_def)
    next
      fix s node below
      assume s: "nodeStack s = node # below" "anchored p s \<and> eulerInv instances (Some p) (source p) (source p) s"
      have bal': "surplus instances x = of_bool (x = source p) - of_bool (x = source p)" for x using bal pp by simp
      show "anchored p (eulerStep (leaving instances preferred) s node below) \<and>
          eulerInv instances (Some p) (source p) (source p) (eulerStep (leaving instances preferred) s node below)"
        using eulerStep_anchored [OF dis _ _ s(1)] eulerStep_inv [OF dis bal' _ s(1)] s(2) pp unfolding p by blast
    qed
    then show ?thesis using ne empty over by (auto simp: anchored_def)
  qed
  ultimately show ?thesis using st books_ids(2) [OF books]
    by (auto simp: eulerTrail_start Let_def distinct_remdups_id split: option.split)
qed

text \<open>
  C9. The Euler trail search is exact.  Given enough time, it returns a trail exactly when the
  traversals can be arranged into one connected walk from the start to the end (in a closed
  problem also beginning with the preferred traversal); what it returns is such an arrangement:
  every traversal exactly once, each leaving where the one before it arrived.
\<close>

theorem eulerTrail_exact:
  assumes "distinct (map instId instances)" and "2 * length instances + 1 \<le> clock"
    and "preferred = None \<or> (\<exists>p. preferred = Some p \<and> p \<in> set instances \<and> source p = startNode \<and> endNode = startNode)"
  shows "case eulerTrail instances startNode endNode preferred clock of
      Inr (trail, rest) \<Rightarrow> trail \<noteq> [] \<and> mset trail = mset instances \<and> trailFrom startNode trail endNode \<and>
        (\<forall>p. preferred = Some p \<longrightarrow> hd trail = p)
    | Inl e \<Rightarrow> \<not> (\<exists>q. q \<noteq> [] \<and> mset q = mset instances \<and> trailFrom startNode q endNode)"
proof (cases "eulerTrail instances startNode endNode preferred clock")
  case (Inl e)
  then show ?thesis using eulerTrail_complete [OF assms(1,2), of startNode _ endNode preferred] assms(3) by fastforce
next
  case (Inr r)
  obtain trail rest where r: "r = (trail, rest)" by (cases r)
  note sound = eulerTrail_sound [OF Inr [unfolded r]]
  have "hd trail = p" if p: "preferred = Some p" for p
  proof (rule distinct_ids_eq [OF assms(1)])
    show "hd trail \<in> set instances" using sound(1,2) by (metis hd_in_set set_mset_mset)
    show "p \<in> set instances" using assms(3) p by auto
    show "instId (hd trail) = instId p" using sound(5) p by simp
  qed
  then show ?thesis using Inr r sound by simp
qed

definition sampleInstance :: "string \<Rightarrow> string \<Rightarrow> string \<Rightarrow> traversal_instance" where
  "sampleInstance k u v = \<lparr>instId = js k, instArc = sampleArc k u v 1, instRole = SERVICE, instObligations = []\<rparr>"

definition sampleInstances :: "traversal_instance list" where
  "sampleInstances = [sampleInstance ''a'' ''x'' ''y'', sampleInstance ''b'' ''y'' ''x'',
     sampleInstance ''c'' ''x'' ''z'', sampleInstance ''d'' ''z'' ''x'']"

lemma eulerTrail_exact_witness:
  "\<exists>trail rest. eulerTrail sampleInstances (js ''x'') (js ''x'') (Some (sampleInstance ''c'' ''x'' ''z'')) 9 = Inr (trail, rest) \<and>
     mset trail = mset sampleInstances \<and> hd trail = sampleInstance ''c'' ''x'' ''z''"
proof -
  let ?p = "sampleInstance ''c'' ''x'' ''z''"
  let ?r = "eulerTrail sampleInstances (js ''x'') (js ''x'') (Some ?p) 9"
  have 1: "distinct (map instId sampleInstances)" by code_simp
  have 2: "2 * length sampleInstances + 1 \<le> 9" by code_simp
  have 3: "Some ?p = None \<or> (\<exists>p. Some ?p = Some p \<and> p \<in> set sampleInstances \<and> source p = js ''x'' \<and> js ''x'' = js ''x'')"
    by (simp add: sampleInstances_def source_def sampleInstance_def sampleArc_def)
  have "isOk ?r" by code_simp
  then obtain trail rest where "?r = Inr (trail, rest)" by (cases ?r) auto
  then show ?thesis using eulerTrail_exact [OF 1 2 3] by auto
qed

end
