(* ===== verification/ClosedDcpp.thy ===== *)
theory ClosedDcpp
  imports EulerTrail
begin

text \<open>
  \<open>solveClosedDcpp\<close> and \<open>solveOpenDcpp\<close> of \<open>road-coverage-planning-core/src/closed-dcpp.ts\<close>: the
  composition of validation, balancing, connectors, transportation and Euler trail, and the
  materialisation of the trail as route segments with fixed-point metrics.

  \<open>sha\<close> is the digest; \<open>elapsedMs\<close>, the constant strings of the diagnostics and the echoed node
  keys of the open solver are left out of the diagnostics record.
\<close>

section \<open>Route segments\<close>

definition pushSegment ::
  "traversal_arc \<Rightarrow> int \<Rightarrow> int \<Rightarrow> route_phase \<Rightarrow> service_role \<Rightarrow> js_string list \<Rightarrow> route_segment list \<Rightarrow>
     coverage_error + route_segment list" where
  "pushSegment arc start end phase role ids segments =
     (if start = end then Inr segments
      else bindR (sliceMetrics (arcMetrics arc) start end) (\<lambda>m.
        Inr (segments @ [\<lparr>segSequence = length segments + 1, segGraphVersion = arcGraphVersion arc,
          segArcKey = arcKey arc, segStart = start, segEnd = end, segPhase = phase, segRole = role,
          segObligationIds = (if ids = [] then None else Some ids), segFeature = arcFeature arc,
          segMetrics = m\<rparr>])))"

definition pushInstance :: "int \<Rightarrow> int \<Rightarrow> route_segment list \<Rightarrow> traversal_instance \<Rightarrow> coverage_error + route_segment list" where
  "pushInstance start end segments i =
     pushSegment (instArc i) start end INSIDE_PHASE (instRole i) (instObligations i) segments"

definition materializeExactTerminalCircuit ::
  "coverage_problem \<Rightarrow> traversal_instance list \<Rightarrow> coverage_error + route_segment list" where
  "materializeExactTerminalCircuit problem trail =
     (let first = hd trail; fraction = stateFraction (startState problem) in
      bindR (pushInstance fraction WHOLE [] first) (\<lambda>s1.
      bindR (foldR (pushInstance 0 WHOLE) s1 (tl trail)) (\<lambda>s2.
      pushInstance 0 fraction s2 first)))"

definition materializeExactOpenTrail ::
  "coverage_problem \<Rightarrow> directed_state \<Rightarrow> traversal_instance list \<Rightarrow> traversal_arc \<Rightarrow> traversal_arc \<Rightarrow>
     coverage_error + route_segment list" where
  "materializeExactOpenTrail problem fixedEnd trail startArc endArc =
     (let f = stateFraction (startState problem); g = stateFraction fixedEnd in
      bindR (if 0 < f \<and> f < WHOLE then pushSegment startArc f WHOLE ACCESS_PHASE ACCESS_ROLE [] [] else Inr []) (\<lambda>s1.
      bindR (foldR (pushInstance 0 WHOLE) s1 trail) (\<lambda>s2.
      if 0 < g \<and> g < WHOLE then pushSegment endArc 0 g RETURN_PHASE RETURN_ROLE [] s2 else Inr s2)))"

definition totalMetrics :: "route_segment list \<Rightarrow> coverage_error + fixed_metrics" where
  "totalMetrics segments = foldR (\<lambda>sum s. addMetrics sum (segMetrics s)) ZERO_METRICS segments"

section \<open>Weak components\<close>

definition neighbours :: "traversal_arc list \<Rightarrow> js_string \<Rightarrow> js_string list" where
  "neighbours arcs node = remdups (concat (map (\<lambda>a.
     (if fromNodeKey a = node then [toNodeKey a] else []) @
     (if toNodeKey a = node then [fromNodeKey a] else [])) arcs))"

lemma neighbours_unknown: "node \<notin> set (nodesOf arcs) \<Longrightarrow> neighbours arcs node = []"
  by (auto simp: neighbours_def set_nodesOf)

lemma unvisited_less:
  assumes "current \<notin> set visited"
  shows "((arcs, visited @ [current], rev (filter (\<lambda>n. n \<notin> set (visited @ [current])) (neighbours arcs current)) @ stack),
      (arcs, visited, current # stack)) \<in> measures
        [\<lambda>(arcs, visited, stack). card (set (nodesOf arcs) - set visited), \<lambda>(arcs, visited, stack). length stack]"
proof (cases "current \<in> set (nodesOf arcs)")
  case True
  then have "card (set (nodesOf arcs) - set (visited @ [current])) < card (set (nodesOf arcs) - set visited)"
    using assms by (intro psubset_card_mono) auto
  then show ?thesis by simp
next
  case False
  then have "set (nodesOf arcs) - set (visited @ [current]) = set (nodesOf arcs) - set visited" by auto
  then show ?thesis using neighbours_unknown [OF False] by simp
qed

function visit :: "traversal_arc list \<Rightarrow> js_string list \<Rightarrow> js_string list \<Rightarrow> js_string list" where
  "visit arcs visited [] = visited"
| "visit arcs visited (current # stack) =
     (if current \<in> set visited then visit arcs visited stack
      else visit arcs (visited @ [current])
        (rev (filter (\<lambda>n. n \<notin> set (visited @ [current])) (neighbours arcs current)) @ stack))"
  by pat_completeness auto

termination
  by (relation "measures [\<lambda>(arcs, visited, stack). card (set (nodesOf arcs) - set visited), \<lambda>(arcs, visited, stack). length stack]")
    (rule wf_measures, simp, rule unvisited_less)

definition componentStep :: "traversal_arc list \<Rightarrow> js_string list \<times> nat \<Rightarrow> js_string \<Rightarrow> js_string list \<times> nat" where
  "componentStep arcs = (\<lambda>(visited, count) node.
     if node \<in> set visited then (visited, count) else (visit arcs visited [node], count + 1))"

definition weakComponentCount :: "traversal_arc list \<Rightarrow> nat" where
  "weakComponentCount arcs = snd (foldl (componentStep arcs) ([], 0) (nodesOf arcs))"

section \<open>The solvers\<close>

definition duplicateInstance ::
  "(traversal_arc \<Rightarrow> coverage_error + js_string list) \<Rightarrow> traversal_instance list \<Rightarrow> traversal_arc \<Rightarrow>
     coverage_error + traversal_instance list" where
  "duplicateInstance idsOf instances arc =
     bindR (idsOf arc) (\<lambda>ids.
       Inr (instances @ [\<lparr>instId = js ''duplicate:'' @ padStart 9 (int (length instances + 1)) @ js '':'' @ arcKey arc,
         instArc = arc, instRole = DUPLICATE_SERVICE, instObligations = ids\<rparr>]))"

definition augmentPath ::
  "(js_string \<rightharpoonup> shortest_path) \<Rightarrow> (traversal_arc \<Rightarrow> coverage_error + js_string list) \<Rightarrow>
     traversal_instance list \<Rightarrow> augmentation \<Rightarrow> coverage_error + traversal_instance list" where
  "augmentPath paths idsOf instances item =
     bindR (getBang paths (pairKey (augFrom item) (augTo item))) (\<lambda>path.
       foldR (duplicateInstance idsOf) instances
         (concat (replicate (nat (augQuantity item)) (pathArcs path))))"

text \<open>
  What the two solvers share between the balance and the Euler trail: the size check of the
  matrix, connectors, transportation and the duplicate traversals.
\<close>

definition augmentBalance ::
  "coverage_problem \<Rightarrow> traversal_arc list \<Rightarrow> balance \<Rightarrow> (traversal_arc \<Rightarrow> coverage_error + js_string list) \<Rightarrow> nat \<Rightarrow>
     coverage_error + (imbalance_node list \<times> imbalance_node list \<times> augmentation list \<times> traversal_instance list \<times> nat)" where
  "augmentBalance problem arcs balance idsOf clock =
     (let supplies = sortedImbalances balance (\<lambda>v. v < 0) (\<lambda>v. - v);
          demands = sortedImbalances balance (\<lambda>v. 0 < v) (\<lambda>v. v) in
      bindR (ensureR (int (length supplies * length demands) \<le> maximumMatrixCells (budgets problem))
        (Planning RESOURCE_EXHAUSTED)) (\<lambda>_.
      bindR (connectorPaths arcs supplies demands clock) (\<lambda>(paths, clock1).
      bindR (minimumCostTransportation arcKey supplies demands paths clock1) (\<lambda>(items, clock2).
      bindR (foldR (augmentPath paths idsOf) [] items) (\<lambda>duplicates.
        Inr (supplies, demands, items, duplicates, clock2))))))"

record dcpp_plan =
  planArcs :: "traversal_arc list"
  planSupplies :: "imbalance_node list"
  planDemands :: "imbalance_node list"
  planItems :: "augmentation list"
  planRequired :: nat
  planDuplicated :: nat
  planBody :: route_body

definition dcppSolution :: "(js_string \<Rightarrow> js_string) \<Rightarrow> dcpp_plan \<Rightarrow> coverage_error + dcpp_solution" where
  "dcppSolution sha plan =
     bindR (signRoute sha (planBody plan)) (\<lambda>route.
     bindR (foldR (\<lambda>sum item. safeAdd sum (augQuantity item)) 0 (planItems plan)) (\<lambda>connectors.
       Inr \<lparr>solutionRoute = route,
         solutionDiagnostics = \<lparr>requiredComponentCount = weakComponentCount (planArcs plan),
           imbalanceCount = length (planSupplies plan) + length (planDemands plan), connectorPathCount = connectors,
           traversableArcCount = length (planArcs plan), requiredTraversalCount = planRequired plan,
           augmentedTraversalCount = planDuplicated plan,
           matrixCellCount = length (planSupplies plan) * length (planDemands plan)\<rparr>,
         solutionAugmentation = planItems plan\<rparr>))"

text \<open>The solvers up to the route, and with its digest and the diagnostics.\<close>

definition closedPlan :: "coverage_problem \<Rightarrow> traversal_arc list \<Rightarrow> nat \<Rightarrow> coverage_error + dcpp_plan" where
  "closedPlan problem input clock =
     bindR (ensureR (endpointMode problem = RETURN_TO_START \<and> fixedEndState problem = None)
       (Planning CAPABILITY_NOT_AVAILABLE)) (\<lambda>_.
     bindR (validateGraphAndObligations problem input) (\<lambda>arcs.
     bindR (ensureR (case find (\<lambda>a. arcKey a = stateArcKey (startState problem)) arcs of None \<Rightarrow> False
         | Some a \<Rightarrow> arcDirection a = stateDirection (startState problem)) (Planning NO_FEASIBLE_PLAN)) (\<lambda>_.
     let byArc = obligationsByArc problem;
         idsOf = (\<lambda>arc. Inr (case byArc (arcKey arc) of None \<Rightarrow> [] | Some obl \<Rightarrow> [obligationId obl])) in
     bindR (foldR (requireArc byArc) ([], []) arcs) (\<lambda>(base, balance).
     bindR (augmentBalance problem arcs balance idsOf clock) (\<lambda>(supplies, demands, items, duplicates, clock').
     let instances = base @ duplicates in
     bindR (ensureR (int (length instances) \<le> MAX_ROUTE_SEGMENTS) (Planning RESOURCE_EXHAUSTED)) (\<lambda>_.
     case find (\<lambda>i. arcKey (instArc i) = stateArcKey (startState problem)) base of None \<Rightarrow> Inl Stuck
     | Some preferred \<Rightarrow>
     bindR (eulerTrail instances (source preferred) (source preferred) (Some preferred) clock') (\<lambda>(trail, _).
     bindR (materializeExactTerminalCircuit problem trail) (\<lambda>segments.
     bindR (totalMetrics segments) (\<lambda>metrics.
     Inr \<lparr>planArcs = arcs, planSupplies = supplies, planDemands = demands, planItems = items,
       planRequired = length base, planDuplicated = length duplicates,
       planBody = \<lparr>bodyStartState = startState problem, bodyEndState = startState problem, bodySegments = segments,
        bodyBoundaryEvents = Some [], bodyMetrics = metrics\<rparr>\<rparr>)))))))))"

definition openPlan :: "coverage_problem \<Rightarrow> traversal_arc list \<Rightarrow> nat \<Rightarrow> coverage_error + dcpp_plan" where
  "openPlan problem input clock =
     (case (endpointMode problem, fixedEndState problem) of
       (FIXED_END, Some fixedEnd) \<Rightarrow>
     bindR (validateGraphAndObligations problem input) (\<lambda>arcs.
     let st = startState problem; arcNamed = map_of (rev (map (\<lambda>a. (arcKey a, a)) arcs)) in
     case (arcNamed (stateArcKey st), arcNamed (stateArcKey fixedEnd)) of
       (Some startArc, Some endArc) \<Rightarrow>
     bindR (ensureR (arcDirection startArc = stateDirection st \<and> arcDirection endArc = stateDirection fixedEnd)
       (Planning NO_FEASIBLE_PLAN)) (\<lambda>_.
     let startNode = (if stateFraction st = 0 then fromNodeKey startArc else toNodeKey startArc);
         endNode = (if stateFraction fixedEnd = WHOLE then toNodeKey endArc else fromNodeKey endArc);
         byArc = obligationsByArc problem;
         idsOf = (\<lambda>arc. bindR (getBang byArc (arcKey arc)) (\<lambda>obl. Inr [obligationId obl])) in
     bindR (foldR (requireArc byArc) ([], []) arcs) (\<lambda>(base, balance).
     bindR (if startNode \<noteq> endNode
            then bindR (addBalance balance startNode (- 1)) (\<lambda>b. addBalance b endNode 1)
            else Inr balance) (\<lambda>residual.
     bindR (augmentBalance problem arcs residual idsOf clock) (\<lambda>(supplies, demands, items, duplicates, clock').
     let instances = base @ duplicates in
     bindR (ensureR (int (length instances) + 2 \<le> MAX_ROUTE_SEGMENTS) (Planning RESOURCE_EXHAUSTED)) (\<lambda>_.
     bindR (eulerTrail instances startNode endNode None clock') (\<lambda>(trail, _).
     bindR (materializeExactOpenTrail problem fixedEnd trail startArc endArc) (\<lambda>segments.
     bindR (totalMetrics segments) (\<lambda>metrics.
     Inr \<lparr>planArcs = arcs, planSupplies = supplies, planDemands = demands, planItems = items,
       planRequired = length base, planDuplicated = length duplicates,
       planBody = \<lparr>bodyStartState = st, bodyEndState = fixedEnd, bodySegments = segments,
        bodyBoundaryEvents = Some [], bodyMetrics = metrics\<rparr>\<rparr>))))))))
     | _ \<Rightarrow> Inl (Planning NO_FEASIBLE_PLAN))
     | _ \<Rightarrow> Inl (Planning CAPABILITY_NOT_AVAILABLE))"

definition solveClosedDcpp ::
  "(js_string \<Rightarrow> js_string) \<Rightarrow> coverage_problem \<Rightarrow> traversal_arc list \<Rightarrow> nat \<Rightarrow> coverage_error + dcpp_solution" where
  "solveClosedDcpp sha problem input clock = bindR (closedPlan problem input clock) (dcppSolution sha)"

definition solveOpenDcpp ::
  "(js_string \<Rightarrow> js_string) \<Rightarrow> coverage_problem \<Rightarrow> traversal_arc list \<Rightarrow> nat \<Rightarrow> coverage_error + dcpp_solution" where
  "solveOpenDcpp sha problem input clock = bindR (openPlan problem input clock) (dcppSolution sha)"

end
