(* ===== verification/TravelRules.thy ===== *)
theory TravelRules
  imports CoverageModel "HOL-Library.Log_Nat" "HOL-Library.Sublist"
begin

text \<open>
  Turn rules and travel policies as the strict solver and the verifier see them
  (\<open>road-coverage-planning-core/src/types.ts\<close>, \<open>strict-routing.ts\<close> and
  \<open>road-coverage-verifier-core/src/verification.ts\<close>), the two turn automata, and the proof that
  the incremental one of the solver and the replaying one of the verifier agree.
\<close>

unbundle bit_operations_syntax

section \<open>Numbers\<close>

text \<open>
  \<open>Number(n)\<close> of a \<open>BigInt\<close>: the nearest double, ties to even.  Up to \<open>2^53\<close> that is \<open>n\<close>.
\<close>

definition roundedShift :: "int \<Rightarrow> nat \<Rightarrow> int" where
  "roundedShift a k =
     (let q = a div 2 ^ k; r = a mod 2 ^ k in
      2 ^ k * (if 2 * r < 2 ^ k \<or> (2 * r = 2 ^ k \<and> even q) then q else q + 1))"

definition toNumber :: "int \<Rightarrow> int" where
  "toNumber n = (if \<bar>n\<bar> \<le> 2 ^ 53 then n else sgn n * roundedShift \<bar>n\<bar> (floorlog 2 (nat \<bar>n\<bar>) - 53))"

lemma toNumber_safe [simp]: "isSafeInteger n \<Longrightarrow> toNumber n = n"
  by (auto simp: toNumber_def isSafeInteger_def maxSafeInteger_def)

text \<open>JavaScript's bitwise operators work on 32-bit two's complement.\<close>

definition toInt32 :: "int \<Rightarrow> int" where
  "toInt32 n = signed_take_bit 31 n"

definition maskAnd :: "int \<Rightarrow> int \<Rightarrow> int" where
  "maskAnd a b = toInt32 a AND toInt32 b"

definition ceilQuotient :: "int \<Rightarrow> int \<Rightarrow> int \<Rightarrow> int" where
  "ceilQuotient v multiplier divisor = bigDiv (v * multiplier + divisor - 1) divisor"

lemma ceilQuotient_ceiling:
  assumes "0 \<le> v" and "0 < divisor" and "0 \<le> multiplier"
  shows "ceilQuotient v multiplier divisor = \<lceil>of_int (v * multiplier) / (of_int divisor :: rat)\<rceil>"
proof -
  let ?a = "v * multiplier"
  have pos: "0 \<le> ?a" using assms by simp
  then have "ceilQuotient v multiplier divisor = (?a + (divisor - 1)) div divisor"
    using assms(2) by (simp add: ceilQuotient_def bigDiv_nonneg add_diff_eq)
  also have "\<dots> = ((?a mod divisor + (divisor - 1)) + (?a div divisor) * divisor) div divisor"
    by (metis add.assoc add.commute div_mult_mod_eq)
  also have "\<dots> = (?a mod divisor + (divisor - 1)) div divisor + ?a div divisor"
    using assms(2) by (subst div_mult_self1) auto
  also have "(?a mod divisor + (divisor - 1)) div divisor = (if ?a mod divisor = 0 then 0 else 1)"
  proof (cases "?a mod divisor = 0")
    case True
    then show ?thesis using assms(2) by simp
  next
    case False
    then have "0 < ?a mod divisor" using pos_mod_sign [OF assms(2), of ?a] by linarith
    moreover have "?a mod divisor < divisor" using assms(2) by simp
    ultimately have "(?a mod divisor + (divisor - 1)) div divisor = 1"
      using assms(2) \<open>0 < ?a mod divisor\<close> by (intro int_div_pos_eq [of _ _ _ "?a mod divisor - 1"]) linarith+
    then show ?thesis using False by simp
  qed
  finally have "ceilQuotient v multiplier divisor = - ((- ?a) div divisor)"
    using assms(2) by (auto simp: zdiv_zminus1_eq_if)
  then show ?thesis by (simp only: ceiling_divide_eq_div)
qed

section \<open>Rules and policies\<close>

datatype rule_type = FORBIDDEN | ALLOWED_ONLY | PENALTY

record turn_rule =
  ruleKey :: js_string
  arcSequence :: "js_string list"
  ruleType :: rule_type
  rulePenalty :: "int option"
  travelProfileKeys :: "js_string list option"

record travel_policy =
  profileKey :: js_string
  allowedRoadClasses :: "js_string list option"
  allowedSurfaces :: "js_string list option"
  requiredAccessMask :: "int option"
  maximumSpeedMmPerS :: "int option"

definition activeRules :: "turn_rule list \<Rightarrow> js_string \<Rightarrow> turn_rule list" where
  "activeRules rules profile =
     sort_by (\<lambda>l r. compareUnicodeCodePoints (ruleKey l) (ruleKey r))
       (filter (\<lambda>r. case travelProfileKeys r of None \<Rightarrow> True | Some ks \<Rightarrow> profile \<in> set ks) rules)"

definition maximumHistory :: "turn_rule list \<Rightarrow> nat" where
  "maximumHistory rules = nat (foldl max 1 (map (\<lambda>r. int (length (arcSequence r)) - 1) rules))"

definition profileEligible :: "traversal_arc \<Rightarrow> travel_policy \<Rightarrow> bool" where
  "profileEligible arc policy \<longleftrightarrow>
     (case allowedRoadClasses policy of None \<Rightarrow> True | Some cs \<Rightarrow> (case roadClass arc of None \<Rightarrow> False | Some c \<Rightarrow> c \<in> set cs)) \<and>
     (case allowedSurfaces policy of None \<Rightarrow> True | Some ss \<Rightarrow> (case surface arc of None \<Rightarrow> False | Some s \<Rightarrow> s \<in> set ss)) \<and>
     (let required = (case requiredAccessMask policy of None \<Rightarrow> 0 | Some m \<Rightarrow> m);
          mask = (case accessMask arc of None \<Rightarrow> 0 | Some m \<Rightarrow> m)
      in maskAnd mask required = required)"

definition penaltyOf :: "turn_rule \<Rightarrow> int" where
  "penaltyOf r = (case rulePenalty r of None \<Rightarrow> 0 | Some p \<Rightarrow> p)"

section \<open>Turn automata\<close>

text \<open>\<open>xs[i]\<close> with \<open>undefined\<close> out of range, \<open>xs.at(-1)\<close> and \<open>xs.slice(-n)\<close>.\<close>

definition itemAt :: "'a list \<Rightarrow> nat \<Rightarrow> 'a option" where
  "itemAt xs i = (if i < length xs then Some (xs ! i) else None)"

definition lastOf :: "'a list \<Rightarrow> 'a option" where
  "lastOf xs = (if xs = [] then None else Some (last xs))"

definition sliceLast :: "nat \<Rightarrow> 'a list \<Rightarrow> 'a list" where
  "sliceLast n xs = (if n = 0 then xs else drop (length xs - n) xs)"

definition turnAllowed :: "turn_rule list \<Rightarrow> js_string list \<Rightarrow> js_string \<Rightarrow> bool" where
  "turnAllowed rules history nextArc =
     (let allowedOnly = filter (\<lambda>r. ruleType r = ALLOWED_ONLY \<and> lastOf history = itemAt (arcSequence r) 0) rules
      in allowedOnly = [] \<or> (\<exists>r \<in> set allowedOnly. Some nextArc = itemAt (arcSequence r) 1))"

definition ruleMatches :: "js_string list \<Rightarrow> turn_rule \<Rightarrow> bool" where
  "ruleMatches candidate r \<longleftrightarrow> ruleType r \<noteq> ALLOWED_ONLY \<and> length (arcSequence r) \<le> length candidate \<and>
     sliceLast (length (arcSequence r)) candidate = arcSequence r"


text \<open>The loop over the rules with its early return (\<open>None\<close>) for a forbidden sequence.\<close>

fun turnPenalties :: "js_string list \<Rightarrow> turn_rule list \<Rightarrow> int \<Rightarrow> coverage_error + int option" where
  "turnPenalties candidate [] units = Inr (Some units)"
| "turnPenalties candidate (r # rs) units =
     (if \<not> ruleMatches candidate r then turnPenalties candidate rs units
      else if ruleType r = FORBIDDEN then Inr None
      else bindR (safeAdd units (penaltyOf r)) (\<lambda>u. turnPenalties candidate rs u))"

record turn_advance =
  turnValid :: bool
  turnHistory :: "js_string list"
  turnUnits :: int

definition advanceTurn ::
  "js_string list \<Rightarrow> js_string \<Rightarrow> turn_rule list \<Rightarrow> nat \<Rightarrow> coverage_error + turn_advance" where
  "advanceTurn history nextArc rules maxHistory =
     (if lastOf history = Some nextArc then Inr \<lparr>turnValid = True, turnHistory = history, turnUnits = 0\<rparr>
      else if \<not> turnAllowed rules history nextArc then Inr \<lparr>turnValid = False, turnHistory = history, turnUnits = 0\<rparr>
      else bindR (turnPenalties (history @ [nextArc]) rules 0) (\<lambda>outcome.
        Inr (case outcome of None \<Rightarrow> \<lparr>turnValid = False, turnHistory = history, turnUnits = 0\<rparr>
          | Some u \<Rightarrow> \<lparr>turnValid = True, turnHistory = sliceLast maxHistory (history @ [nextArc]), turnUnits = u\<rparr>)))"

datatype verifier_error =
    InvalidMetrics
  | UnsafeInteger
  | NotAdmissible
  | ReceiptHashMismatch
  | RouteHashMismatch
  | Unserializable json_error

definition verifierAdd :: "int \<Rightarrow> int \<Rightarrow> verifier_error + int" where
  "verifierAdd left right =
     (if isSafeInteger (left + right) \<and> 0 \<le> left + right then Inr (left + right) else Inl UnsafeInteger)"

text \<open>The verifier has its own copy of the rules; it is translated on its own.\<close>

definition replayAllowed :: "turn_rule list \<Rightarrow> js_string list \<Rightarrow> js_string \<Rightarrow> bool" where
  "replayAllowed rules history nextArc =
     (let previous = lastOf history;
          allowedOnly = filter (\<lambda>rule. ruleType rule = ALLOWED_ONLY \<and> previous = itemAt (arcSequence rule) 0) rules
      in \<not> (length allowedOnly > 0 \<and> \<not> list_ex (\<lambda>rule. Some nextArc = itemAt (arcSequence rule) 1) allowedOnly))"

definition replaySkips :: "js_string list \<Rightarrow> turn_rule \<Rightarrow> bool" where
  "replaySkips candidate rule \<longleftrightarrow>
     (ruleType rule = ALLOWED_ONLY \<or> length (arcSequence rule) > length candidate) \<or>
     (let suff = sliceLast (length (arcSequence rule)) candidate in
      \<not> list_all (\<lambda>index. Some (suff ! index) = itemAt (arcSequence rule) index) [0..<length suff])"

fun replayPenalties :: "js_string list \<Rightarrow> turn_rule list \<Rightarrow> int \<Rightarrow> verifier_error + int option" where
  "replayPenalties candidate [] units = Inr (Some units)"
| "replayPenalties candidate (rule # rs) units =
     (if replaySkips candidate rule then replayPenalties candidate rs units
      else if ruleType rule = FORBIDDEN then Inr None
      else bindR (verifierAdd units (case rulePenalty rule of None \<Rightarrow> 0 | Some p \<Rightarrow> p)) (\<lambda>u. replayPenalties candidate rs u))"

definition replayTurn ::
  "js_string list \<Rightarrow> js_string \<Rightarrow> turn_rule list \<Rightarrow> nat \<Rightarrow> verifier_error + turn_advance" where
  "replayTurn history nextArc rules maxHistory =
     (if lastOf history = Some nextArc then Inr \<lparr>turnValid = True, turnHistory = history, turnUnits = 0\<rparr>
      else if \<not> replayAllowed rules history nextArc then Inr \<lparr>turnValid = False, turnHistory = history, turnUnits = 0\<rparr>
      else bindR (replayPenalties (history @ [nextArc]) rules 0) (\<lambda>outcome.
        Inr (case outcome of
            None \<Rightarrow> \<lparr>turnValid = False, turnHistory = sliceLast maxHistory (history @ [nextArc]), turnUnits = 0\<rparr>
          | Some u \<Rightarrow> \<lparr>turnValid = True, turnHistory = sliceLast maxHistory (history @ [nextArc]), turnUnits = u\<rparr>)))"


section \<open>The window is wide enough\<close>

lemma last_sliceLast: "0 < m \<Longrightarrow> lastOf (sliceLast m xs) = lastOf xs"
  by (cases "length xs \<le> m") (auto simp: lastOf_def sliceLast_def last_drop)

lemma sliceLast_suffix: "suffix (sliceLast m xs) xs"
  by (simp add: sliceLast_def suffix_drop)

lemma suffix_iff_drop: "suffix xs ys \<longleftrightarrow> length xs \<le> length ys \<and> drop (length ys - length xs) ys = xs"
proof
  assume "suffix xs ys"
  then show "length xs \<le> length ys \<and> drop (length ys - length xs) ys = xs" by (auto simp: suffix_def)
next
  assume "length xs \<le> length ys \<and> drop (length ys - length xs) ys = xs"
  then show "suffix xs ys" using suffix_drop [of "length ys - length xs" ys] by simp
qed

lemma ruleMatches_suffix:
  "arcSequence r \<noteq> [] \<Longrightarrow> ruleMatches c r \<longleftrightarrow> ruleType r \<noteq> ALLOWED_ONLY \<and> suffix (arcSequence r) c"
  by (auto simp: ruleMatches_def sliceLast_def suffix_iff_drop)

lemma foldl_max_ge: "(x :: int) \<le> foldl max x xs"
proof (induction xs arbitrary: x)
  case (Cons y xs)
  show ?case using order_trans [OF max.cobounded1 Cons.IH [of "max x y"]] by simp
qed simp

lemma foldl_max_member: "y \<in> set xs \<Longrightarrow> (y :: int) \<le> foldl max x xs"
proof (induction xs arbitrary: x)
  case (Cons z xs)
  then show ?case using order_trans [OF max.cobounded2 foldl_max_ge [of "max x z" xs]] by auto
qed simp

lemma maximumHistory_bound: "r \<in> set rules \<Longrightarrow> length (arcSequence r) \<le> maximumHistory rules + 1"
  using foldl_max_member [of "int (length (arcSequence r)) - 1" "map (\<lambda>r. int (length (arcSequence r)) - 1) rules" 1]
  unfolding maximumHistory_def by fastforce

lemma maximumHistory_pos: "0 < maximumHistory rules"
  using foldl_max_ge [of 1 "map (\<lambda>r. int (length (arcSequence r)) - 1) rules"] by (simp add: maximumHistory_def)

text \<open>A rule sees the same in the window as in the whole history.\<close>

lemma ruleMatches_window:
  assumes "r \<in> set rules" and "m = maximumHistory rules" and "arcSequence r \<noteq> []"
  shows "ruleMatches (sliceLast m full @ [x]) r = ruleMatches (full @ [x]) r"
proof (cases "length full \<le> m")
  case True
  then have "sliceLast m full = full" using maximumHistory_pos [of rules] assms(2) by (simp add: sliceLast_def)
  then show ?thesis by simp
next
  case False
  then have len: "length (sliceLast m full) = m" using maximumHistory_pos [of rules] assms(2) by (simp add: sliceLast_def)
  have "length (arcSequence r) \<le> length (sliceLast m full @ [x])"
    using maximumHistory_bound [OF assms(1)] assms(2) len by simp
  moreover have "suffix (sliceLast m full @ [x]) (full @ [x])" using sliceLast_suffix by simp
  ultimately have "suffix (arcSequence r) (sliceLast m full @ [x]) \<longleftrightarrow> suffix (arcSequence r) (full @ [x])"
    using suffix_length_suffix suffix_order.trans by blast
  then show ?thesis using assms(3) by (simp add: ruleMatches_suffix)
qed


lemma turnPenalties_cong:
  "(\<And>r. r \<in> set rules \<Longrightarrow> ruleMatches c r = ruleMatches d r) \<Longrightarrow>
     turnPenalties c rules u = turnPenalties d rules u"
  by (induction rules arbitrary: u) (auto intro: bindR_cong)

lemma turnAllowed_last: "lastOf h = lastOf h' \<Longrightarrow> turnAllowed rules h x = turnAllowed rules h' x"
  by (simp add: turnAllowed_def)

lemma sliceLast_snoc: "0 < m \<Longrightarrow> sliceLast m (sliceLast m xs @ [x]) = sliceLast m (xs @ [x])"
  by (cases "length xs \<le> m") (auto simp: sliceLast_def Suc_diff_le)

text \<open>
  The automaton over unbounded histories: the reference the windowed ones are compared with.
\<close>

definition unboundedTurn :: "js_string list \<Rightarrow> js_string \<Rightarrow> turn_rule list \<Rightarrow> coverage_error + turn_advance" where
  "unboundedTurn full nextArc rules = advanceTurn full nextArc rules (length full + 1)"

definition wellFormedRules :: "turn_rule list \<Rightarrow> bool" where
  "wellFormedRules rules \<longleftrightarrow> (\<forall>r \<in> set rules. 2 \<le> length (arcSequence r))"

lemma wellFormedRules_nonempty: "wellFormedRules rules \<Longrightarrow> r \<in> set rules \<Longrightarrow> arcSequence r \<noteq> []"
  by (auto simp: wellFormedRules_def)

lemma advanceTurn_window:
  assumes wf: "wellFormedRules rules"
  defines "m \<equiv> maximumHistory rules"
  shows "advanceTurn (sliceLast m full) x rules m =
    bindR (unboundedTurn full x rules) (\<lambda>a. Inr (a\<lparr>turnHistory := sliceLast m (turnHistory a)\<rparr>))"
proof -
  have m: "0 < m" by (simp add: m_def maximumHistory_pos)
  have whole: "sliceLast (length full + 1) (full @ [x]) = full @ [x]" by (simp add: sliceLast_def)
  have "turnPenalties (sliceLast m full @ [x]) rules 0 = turnPenalties (full @ [x]) rules 0"
    using ruleMatches_window [of _ rules m full x] wellFormedRules_nonempty [OF wf] m_def
    by (intro turnPenalties_cong) auto
  then show ?thesis
    unfolding unboundedTurn_def advanceTurn_def whole last_sliceLast [OF m]
      turnAllowed_last [OF last_sliceLast [OF m]]
    by (cases "turnPenalties (full @ [x]) rules 0")
      (auto simp: sliceLast_snoc [OF m] split: option.splits)
qed

text \<open>What the unbounded automaton decides.\<close>

lemma turnPenalties_outcome:
  assumes "turnPenalties c rules u = Inr outcome"
  shows "outcome = None \<longleftrightarrow> (\<exists>r \<in> set rules. ruleMatches c r \<and> ruleType r = FORBIDDEN)"
  using assms
  by (induction rules arbitrary: u) (auto simp: bindR_eq_Inr split: if_splits)

definition allowedAfter :: "turn_rule list \<Rightarrow> js_string \<Rightarrow> js_string \<Rightarrow> bool" where
  "allowedAfter rules a b \<longleftrightarrow>
     (\<exists>r \<in> set rules. ruleType r = ALLOWED_ONLY \<and> itemAt (arcSequence r) 0 = Some a) \<longrightarrow>
     (\<exists>r \<in> set rules. ruleType r = ALLOWED_ONLY \<and> itemAt (arcSequence r) 0 = Some a \<and> itemAt (arcSequence r) 1 = Some b)"

definition legalTurns :: "turn_rule list \<Rightarrow> js_string list \<Rightarrow> bool" where
  "legalTurns rules arcs \<longleftrightarrow>
     (\<forall>r \<in> set rules. ruleType r = FORBIDDEN \<longrightarrow> \<not> sublist (arcSequence r) arcs) \<and>
     (\<forall>before a b after. arcs = before @ [a, b] @ after \<longrightarrow> allowedAfter rules a b)"

lemma legalTurns_snoc:
  assumes wf: "wellFormedRules rules"
  shows "legalTurns rules (xs @ [x]) \<longleftrightarrow> legalTurns rules xs \<and>
    (\<forall>r \<in> set rules. ruleType r = FORBIDDEN \<longrightarrow> \<not> suffix (arcSequence r) (xs @ [x])) \<and>
    (xs \<noteq> [] \<longrightarrow> allowedAfter rules (last xs) x)"
proof -
  have split: "(\<forall>before a b after. xs @ [x] = before @ [a, b] @ after \<longrightarrow> allowedAfter rules a b) \<longleftrightarrow>
      (\<forall>before a b after. xs = before @ [a, b] @ after \<longrightarrow> allowedAfter rules a b) \<and>
      (xs \<noteq> [] \<longrightarrow> allowedAfter rules (last xs) x)" (is "?l = (?r1 \<and> ?r2)")
  proof (intro iffI conjI)
    assume l: ?l
    show ?r1 using l by (metis append.assoc append_Cons)
    show ?r2
    proof
      assume "xs \<noteq> []"
      then have "xs @ [x] = butlast xs @ [last xs, x] @ []" by simp
      then show "allowedAfter rules (last xs) x" using l by blast
    qed
  next
    assume r: "?r1 \<and> ?r2"
    show ?l
    proof (intro allI impI)
      fix before a b after assume eq: "xs @ [x] = before @ [a, b] @ after"
      show "allowedAfter rules a b"
      proof (cases after rule: rev_cases)
        case Nil
        then have "xs = before @ [a]" "x = b" using eq by auto
        then show ?thesis using r by simp
      next
        case (snoc after' y)
        then have "xs = before @ [a, b] @ after'" using eq by simp
        then show ?thesis using r by blast
      qed
    qed
  qed
  show ?thesis unfolding legalTurns_def split sublist_snoc by blast
qed

section \<open>Properties\<close>

text \<open>The turns of a route: its arcs without immediate repetitions.\<close>

definition nextTurn :: "js_string list \<Rightarrow> js_string \<Rightarrow> js_string list" where
  "nextTurn full x = (if lastOf full = Some x then full else full @ [x])"

definition turnsOf :: "js_string list \<Rightarrow> js_string list" where
  "turnsOf arcs = foldl nextTurn [] arcs"

text \<open>The penalties of the rules that end at each position.\<close>

definition chargeAt :: "turn_rule list \<Rightarrow> js_string list \<Rightarrow> int" where
  "chargeAt rules xs =
     (\<Sum>r\<leftarrow>rules. if ruleType r = PENALTY \<and> suffix (arcSequence r) xs then penaltyOf r else 0)"

definition turnCharge :: "turn_rule list \<Rightarrow> js_string list \<Rightarrow> int" where
  "turnCharge rules xs = (\<Sum>i\<leftarrow>[1..<length xs + 1]. chargeAt rules (take i xs))"

text \<open>Driving along a route with the automaton of the solver.\<close>

fun driveTurns ::
  "turn_rule list \<Rightarrow> nat \<Rightarrow> js_string list \<Rightarrow> js_string list \<Rightarrow> int \<Rightarrow>
     coverage_error + (js_string list \<times> int) option" where
  "driveTurns rules m history [] units = Inr (Some (history, units))"
| "driveTurns rules m history (x # xs) units =
     bindR (advanceTurn history x rules m) (\<lambda>a.
       if \<not> turnValid a then Inr None
       else bindR (safeAdd units (turnUnits a)) (\<lambda>u. driveTurns rules m (turnHistory a) xs u))"

lemma turnCharge_Nil [simp]: "turnCharge rules [] = 0"
  by (simp add: turnCharge_def)

lemma turnCharge_snoc: "turnCharge rules (xs @ [x]) = turnCharge rules xs + chargeAt rules (xs @ [x])"
proof -
  have "(\<Sum>i\<leftarrow>[1..<length xs + 1]. chargeAt rules (take i (xs @ [x]))) = (\<Sum>i\<leftarrow>[1..<length xs + 1]. chargeAt rules (take i xs))"
    by (intro arg_cong [of _ _ sum_list] map_cong refl) auto
  then show ?thesis by (simp add: turnCharge_def)
qed

lemma turnPenalties_charge:
  assumes "turnPenalties c rules u = Inr (Some v)" and "wellFormedRules rules"
  shows "v = u + chargeAt rules c"
  using assms
proof (induction rules arbitrary: u)
  case (Cons r rules)
  have wf: "wellFormedRules rules" "arcSequence r \<noteq> []"
    using Cons.prems(2) wellFormedRules_nonempty [OF Cons.prems(2), of r] by (auto simp: wellFormedRules_def)
  show ?case
  proof (cases "ruleMatches c r")
    case True
    then have m: "ruleType r = PENALTY \<and> suffix (arcSequence r) c"
      and t: "turnPenalties c rules (u + penaltyOf r) = Inr (Some v)"
      using Cons.prems(1) ruleMatches_suffix [OF wf(2)] by (cases "ruleType r"; auto simp: bindR_eq_Inr)+
    show ?thesis using Cons.IH [OF t wf(1)] m by (simp add: chargeAt_def)
  next
    case False
    then have "\<not> (ruleType r = PENALTY \<and> suffix (arcSequence r) c)" using ruleMatches_suffix [OF wf(2)] by auto
    moreover have "turnPenalties c rules u = Inr (Some v)" using Cons.prems(1) False by simp
    ultimately show ?thesis using Cons.IH [OF _ wf(1)] by (auto simp: chargeAt_def)
  qed
qed (simp add: chargeAt_def)

lemma turnPenalties_error: "turnPenalties c rules u = Inl e \<Longrightarrow> e = Planning RESOURCE_EXHAUSTED"
  by (induction rules arbitrary: u) (auto simp: bindR_eq_Inl safeAdd_def split: if_splits)

lemma turnAllowed_allowedAfter:
  assumes "wellFormedRules rules" and "lastOf full = Some a"
  shows "turnAllowed rules full x = allowedAfter rules a x"
  using assms(2) by (auto simp: turnAllowed_def allowedAfter_def filter_empty_conv)

lemma unboundedTurn_outcome:
  assumes wf: "wellFormedRules rules" and legal: "legalTurns rules full"
  shows "case unboundedTurn full x rules of Inl e \<Rightarrow> e = Planning RESOURCE_EXHAUSTED
    | Inr a \<Rightarrow> turnValid a = legalTurns rules (nextTurn full x) \<and>
        (turnValid a \<longrightarrow> turnHistory a = nextTurn full x \<and> turnUnits a = turnCharge rules (nextTurn full x) - turnCharge rules full)"
proof (cases "lastOf full = Some x")
  case True
  then show ?thesis using legal by (simp add: unboundedTurn_def advanceTurn_def nextTurn_def)
next
  case False
  have whole: "sliceLast (length full + 1) (full @ [x]) = full @ [x]" by (simp add: sliceLast_def)
  have after: "turnAllowed rules full x \<longleftrightarrow> (full \<noteq> [] \<longrightarrow> allowedAfter rules (last full) x)"
  proof (cases "full = []")
    case True
    then have "filter (\<lambda>r. ruleType r = ALLOWED_ONLY \<and> lastOf full = itemAt (arcSequence r) 0) rules = []"
      using wellFormedRules_nonempty [OF wf] by (auto simp: filter_empty_conv lastOf_def itemAt_def)
    then show ?thesis using True by (simp add: turnAllowed_def Let_def)
  next
    case False
    then show ?thesis using turnAllowed_allowedAfter [OF wf, of full "last full"] by (simp add: lastOf_def)
  qed
  note snoc = legalTurns_snoc [OF wf, of full x]
  show ?thesis
  proof (cases "turnAllowed rules full x")
    case False
    then show ?thesis using \<open>lastOf full \<noteq> Some x\<close> after snoc by (simp add: unboundedTurn_def advanceTurn_def nextTurn_def)
  next
    case True
    show ?thesis
    proof (cases "turnPenalties (full @ [x]) rules 0")
      case (Inl e)
      then show ?thesis using False True turnPenalties_error by (simp add: unboundedTurn_def advanceTurn_def)
    next
      case (Inr outcome)
      have none: "outcome = None \<longleftrightarrow> (\<exists>r \<in> set rules. suffix (arcSequence r) (full @ [x]) \<and> ruleType r = FORBIDDEN)"
        unfolding turnPenalties_outcome [OF Inr] using ruleMatches_suffix wellFormedRules_nonempty [OF wf]
        by (metis rule_type.distinct(1))
      then have legal': "legalTurns rules (full @ [x]) \<longleftrightarrow> outcome \<noteq> None"
        using snoc legal True after by blast
      show ?thesis
      proof (cases outcome)
        case None
        then show ?thesis using False True Inr legal'
          by (simp add: unboundedTurn_def advanceTurn_def nextTurn_def)
      next
        case (Some u)
        then have "u = chargeAt rules (full @ [x])" using turnPenalties_charge [OF _ wf, of "full @ [x]" 0] Inr by simp
        then show ?thesis using False True Inr Some legal' whole
          by (simp add: unboundedTurn_def advanceTurn_def nextTurn_def turnCharge_snoc)
      qed
    qed
  qed
qed

lemma legalTurns_prefix:
  assumes "wellFormedRules rules" shows "legalTurns rules (foldl nextTurn full xs) \<Longrightarrow> legalTurns rules full"
proof (induction xs arbitrary: full)
  case (Cons x xs)
  then have "legalTurns rules (nextTurn full x)" by simp
  then show ?case using legalTurns_snoc [OF assms, of full x] by (auto simp: nextTurn_def split: if_splits)
qed simp

lemma driveTurns_from:
  assumes wf: "wellFormedRules rules" and "legalTurns rules full"
  shows "case driveTurns rules (maximumHistory rules) (sliceLast (maximumHistory rules) full) xs units of
      Inl e \<Rightarrow> e = Planning RESOURCE_EXHAUSTED
    | Inr None \<Rightarrow> \<not> legalTurns rules (foldl nextTurn full xs)
    | Inr (Some (h, u)) \<Rightarrow> legalTurns rules (foldl nextTurn full xs) \<and>
        u = units + (turnCharge rules (foldl nextTurn full xs) - turnCharge rules full)"
  using assms(2)
proof (induction xs arbitrary: full units)
  case (Cons x xs)
  let ?m = "maximumHistory rules"
  note step = unboundedTurn_outcome [OF wf Cons.prems, of x]
  show ?case
  proof (cases "unboundedTurn full x rules")
    case (Inl e)
    then show ?thesis using step by (simp add: advanceTurn_window [OF wf])
  next
    case (Inr a)
    then have a: "turnValid a = legalTurns rules (nextTurn full x)"
      "turnValid a \<Longrightarrow> turnHistory a = nextTurn full x"
      "turnValid a \<Longrightarrow> turnUnits a = turnCharge rules (nextTurn full x) - turnCharge rules full"
      using step by auto
    show ?thesis
    proof (cases "turnValid a")
      case False
      then have "\<not> legalTurns rules (foldl nextTurn full (x # xs))"
        using a(1) legalTurns_prefix [OF wf, of "nextTurn full x" xs] by auto
      then show ?thesis using Inr False by (simp add: advanceTurn_window [OF wf])
    next
      case True
      show ?thesis
      proof (cases "safeAdd units (turnUnits a)")
        case (Inl e)
        then have "e = Planning RESOURCE_EXHAUSTED" by (simp add: safeAdd_def split: if_splits)
        then show ?thesis using Inl True \<open>unboundedTurn full x rules = Inr a\<close> by (simp add: advanceTurn_window [OF wf])
      next
        case (Inr u)
        then have u: "u = units + (turnCharge rules (nextTurn full x) - turnCharge rules full)"
          using a(3) [OF True] by simp
        let ?r = "driveTurns rules ?m (sliceLast ?m (nextTurn full x)) xs u"
        have eq: "driveTurns rules ?m (sliceLast ?m full) (x # xs) units = ?r"
          using a(2) [OF True] True Inr \<open>unboundedTurn full x rules = Inr a\<close> by (simp add: advanceTurn_window [OF wf] del: safeAdd_Inr)
        have "legalTurns rules (nextTurn full x)" using a(1) True by simp
        note ih = Cons.IH [OF this, of u]
        show ?thesis
        proof (cases ?r)
          case (Inl e)
          then show ?thesis using ih by (simp only: eq sum.case)
        next
          case (Inr out)
          then show ?thesis using ih u by (cases out) (auto simp only: eq sum.case option.case foldl_Cons prod.case)
        qed
      qed
    qed
  qed
qed simp

text \<open>
  C19. The turn automaton of the solver decides the rules exactly.  Although it remembers only the
  last few arcs, driving a route to its end reports a legal route exactly when no forbidden
  sequence occurs anywhere in its turns and every arc with an exclusive successor list is
  followed by a member of it; the penalty is the sum over all occurrences of penalised
  sequences.  Otherwise it fails, if at all, by overflow of the safe integer range.
\<close>

theorem turn_automaton_exact:
  assumes "wellFormedRules rules"
  shows "case driveTurns rules (maximumHistory rules) [] arcs 0 of
      Inl e \<Rightarrow> e = Planning RESOURCE_EXHAUSTED
    | Inr None \<Rightarrow> \<not> legalTurns rules (turnsOf arcs)
    | Inr (Some (h, u)) \<Rightarrow> legalTurns rules (turnsOf arcs) \<and> u = turnCharge rules (turnsOf arcs)"
proof -
  have "legalTurns rules []" using wellFormedRules_nonempty [OF assms] by (auto simp: legalTurns_def)
  from driveTurns_from [OF assms this, of arcs 0] have
    "case driveTurns rules (maximumHistory rules) (sliceLast (maximumHistory rules) []) arcs 0 of
      Inl e \<Rightarrow> e = Planning RESOURCE_EXHAUSTED
    | Inr None \<Rightarrow> \<not> legalTurns rules (turnsOf arcs)
    | Inr (Some (h, u)) \<Rightarrow> legalTurns rules (turnsOf arcs) \<and> u = turnCharge rules (turnsOf arcs)"
    unfolding turnsOf_def turnCharge_Nil diff_0_right add_0 .
  moreover have "sliceLast (maximumHistory rules) [] = ([] :: js_string list)" by (simp add: sliceLast_def)
  ultimately show ?thesis by (simp only:)
qed

definition sampleRule :: "string \<Rightarrow> rule_type \<Rightarrow> string list \<Rightarrow> int option \<Rightarrow> turn_rule" where
  "sampleRule k t arcs p = \<lparr>ruleKey = js k, arcSequence = map js arcs, ruleType = t, rulePenalty = p,
     travelProfileKeys = None\<rparr>"

definition sampleRules :: "turn_rule list" where
  "sampleRules = [sampleRule ''r1'' FORBIDDEN [''a'', ''b'', ''c''] None,
     sampleRule ''r2'' PENALTY [''a'', ''b''] (Some 5), sampleRule ''r3'' ALLOWED_ONLY [''d'', ''e''] None]"

lemma turn_automaton_exact_witness:
  "turnCharge sampleRules (turnsOf (map js [''a'', ''a'', ''b'', ''d'', ''e'', ''a'', ''b''])) = 10 \<and>
   \<not> legalTurns sampleRules (turnsOf (map js [''a'', ''b'', ''b'', ''c'']))"
proof -
  let ?ok = "map js [''a'', ''a'', ''b'', ''d'', ''e'', ''a'', ''b'']" and ?bad = "map js [''a'', ''b'', ''b'', ''c'']"
  have wf: "wellFormedRules sampleRules" by (simp add: wellFormedRules_def sampleRules_def sampleRule_def)
  have "\<exists>h. driveTurns sampleRules (maximumHistory sampleRules) [] ?ok 0 = Inr (Some (h, 10))"
  proof -
    have "(case driveTurns sampleRules (maximumHistory sampleRules) [] ?ok 0 of Inr (Some (h, u)) \<Rightarrow> u = 10 | _ \<Rightarrow> False)"
      by code_simp
    then show ?thesis by (auto split: sum.splits option.splits)
  qed
  moreover have "driveTurns sampleRules (maximumHistory sampleRules) [] ?bad 0 = Inr None"
    by code_simp
  ultimately show ?thesis using turn_automaton_exact [OF wf, of ?ok] turn_automaton_exact [OF wf, of ?bad] by auto
qed

definition turnReport :: "turn_advance \<Rightarrow> bool \<times> int \<times> js_string list option" where
  "turnReport a = (turnValid a, turnUnits a, if turnValid a then Some (turnHistory a) else None)"

lemma replayAllowed_iff: "replayAllowed rules history nextArc = turnAllowed rules history nextArc"
  by (auto simp: replayAllowed_def turnAllowed_def Let_def list_ex_iff)

lemma replaySkips_iff: "replaySkips candidate r \<longleftrightarrow> \<not> ruleMatches candidate r"
proof (cases "ruleType r = ALLOWED_ONLY \<or> length (arcSequence r) > length candidate")
  case True
  then show ?thesis by (auto simp: replaySkips_def ruleMatches_def)
next
  case False
  let ?n = "length (arcSequence r)" and ?s = "sliceLast (length (arcSequence r)) candidate"
  have "length ?s = ?n \<or> (?n = 0 \<and> ?s = candidate)" using False by (auto simp: sliceLast_def)
  then have "list_all (\<lambda>index. Some (?s ! index) = itemAt (arcSequence r) index) [0..<length ?s] \<longleftrightarrow> ?s = arcSequence r"
  proof
    assume len: "length ?s = ?n"
    then have "list_all (\<lambda>index. Some (?s ! index) = itemAt (arcSequence r) index) [0..<length ?s] \<longleftrightarrow>
        (\<forall>i < ?n. ?s ! i = arcSequence r ! i)"
      by (auto simp: list_all_iff itemAt_def)
    moreover have "(\<forall>i < ?n. ?s ! i = arcSequence r ! i) \<longleftrightarrow> ?s = arcSequence r"
      using len nth_equalityI [of ?s "arcSequence r"] by auto
    ultimately show ?thesis by (rule trans)
  next
    assume "?n = 0 \<and> ?s = candidate"
    then show ?thesis by (cases candidate) (auto simp: list_all_iff itemAt_def)
  qed
  then show ?thesis using False unfolding replaySkips_def ruleMatches_def Let_def by auto
qed

lemma replayPenalties_agree:
  "map_sum (\<lambda>_. ()) id (replayPenalties c rules u) = map_sum (\<lambda>_. ()) id (turnPenalties c rules u)"
  by (induction rules arbitrary: u) (auto simp: replaySkips_iff verifierAdd_def safeAdd_def penaltyOf_def)

text \<open>
  Solver and verifier apply the same turn rules: for every history, arc, rule list and window both fail, or
  agree on legality, penalty and, for a legal turn, the new history.
\<close>

lemma replay_advance:
  "map_sum (\<lambda>_. ()) turnReport (replayTurn history nextArc rules m) =
   map_sum (\<lambda>_. ()) turnReport (advanceTurn history nextArc rules m)"
  using replayPenalties_agree [of "history @ [nextArc]" rules 0]
  by (cases "replayPenalties (history @ [nextArc]) rules 0"; cases "turnPenalties (history @ [nextArc]) rules 0")
    (auto simp: replayTurn_def advanceTurn_def turnReport_def replayAllowed_iff split: option.splits)

end
