(* ===== verification/CoverageVerifier.thy ===== *)
theory CoverageVerifier
  imports TravelRules
begin

text \<open>
  \<open>road-coverage-verifier-core/src/verification.ts\<close>: the independent check of a coverage route
  against the authority network, and the admission of verified routes.

  Digests are \<open>contractSha256 sha\<close> of the contract documents.  Authority arcs have the fields of
  \<open>traversal_arc\<close>.  Boundary events are cast to unknown records and re-checked by the code, so
  their kind may be anything and their state need not be an object.
\<close>

section \<open>Data\<close>

datatype violation_code =
    STALE_ROUTING_SNAPSHOT | DUPLICATE_ARC_IDENTITY | UNKNOWN_OR_WRONG_VERSION_ARC | INVALID_FRACTION
  | ILLEGAL_DIRECTION | DISCONTINUOUS_SEGMENT | TURN_RESTRICTION_VIOLATION | CONDITION_CLOSED_ARC
  | PROFILE_ILLEGAL_ARC | METRIC_MISMATCH | METRIC_OVERFLOW | ROUTE_METRIC_MISMATCH
  | START_STATE_MISMATCH | END_STATE_MISMATCH | BOUNDARY_AUTHORITY_UNAVAILABLE
  | BOUNDARY_POLICY_VIOLATION | OBLIGATION_ARC_MISMATCH | OBLIGATION_PASS_DEFICIT | CANDIDATE_HASH_MISMATCH

record violation =
  violationCode :: violation_code
  violationMessage :: js_string
  violationSegment :: "nat option"

datatype boundary_kind = ENTRY | EXIT | OTHER_KIND

record boundary_event =
  eventSequence :: int
  boundaryKind :: boundary_kind
  eventState :: "int json option"

record verify_input =
  viProblem :: coverage_problem
  viCandidate :: coverage_route
  viCurrentSnapshot :: routing_snapshot
  viArcs :: "traversal_arc list"
  viPolicy :: travel_policy
  viRules :: "turn_rule list option"
  viBoundaryEvents :: "boundary_event list option"
  viStartInside :: "bool option"

record verifier_checks =
  chkSnapshot :: bool
  chkArcIdentity :: bool
  chkContinuity :: bool
  chkDirection :: bool
  chkFractions :: bool
  chkTurns :: bool
  chkCoverage :: bool
  chkStart :: bool
  chkEnd :: bool
  chkBoundary :: bool
  chkProfile :: bool
  chkCondition :: bool
  chkMetrics :: bool
  chkResultHash :: bool

datatype report_status = VALID | STALE | INVALID | INDETERMINATE

record coverage_figures =
  ratioPpm :: int
  lengthRatioPpm :: int
  requiredLength :: int
  coveredLength :: int

record report_body =
  reportStatus :: report_status
  reportSnapshotHash :: js_string
  reportChecks :: verifier_checks
  reportFigures :: coverage_figures
  reportMetrics :: fixed_metrics
  reportViolations :: "violation list"

record verification_report =
  reportBody :: report_body
  verificationId :: js_string
  reportHash :: js_string

definition violationAt :: "violation_code \<Rightarrow> js_string \<Rightarrow> nat option \<Rightarrow> violation" where
  "violationAt code message segment =
     \<lparr>violationCode = code, violationMessage = message, violationSegment = segment\<rparr>"

section \<open>Fixed-point metrics\<close>

definition verifierMultiply :: "int \<Rightarrow> int \<Rightarrow> verifier_error + int" where
  "verifierMultiply left right =
     (if isSafeInteger (left * right) \<and> 0 \<le> left * right then Inr (left * right) else Inl UnsafeInteger)"

definition verifierSlice :: "fixed_metrics \<Rightarrow> int \<Rightarrow> int \<Rightarrow> fixed_metrics" where
  "verifierSlice m start end =
     (let slice = (\<lambda>v. toNumber (sliceValue start end v)) in
      \<lparr>distanceMm = slice (distanceMm m), durationMs = slice (durationMs m),
       riskMicroUnits = slice (riskMicroUnits m), energyMwh = slice (energyMwh m),
       combinedCostUnits = slice (combinedCostUnits m), turnPenaltyUnits = Some (slice (turnPenalty m))\<rparr>)"

definition addTurnPenalty :: "fixed_metrics \<Rightarrow> int \<Rightarrow> verifier_error + fixed_metrics" where
  "addTurnPenalty m penalty =
     (if penalty = 0 then Inr m
      else bindR (verifierAdd (combinedCostUnits m) penalty) (\<lambda>c.
        bindR (verifierAdd (turnPenalty m) penalty) (\<lambda>p.
          Inr (m\<lparr>combinedCostUnits := c, turnPenaltyUnits := Some p\<rparr>))))"

definition verifierAddMetrics :: "fixed_metrics \<Rightarrow> fixed_metrics \<Rightarrow> verifier_error + fixed_metrics" where
  "verifierAddMetrics left right =
     bindR (verifierAdd (distanceMm left) (distanceMm right)) (\<lambda>d.
     bindR (verifierAdd (durationMs left) (durationMs right)) (\<lambda>t.
     bindR (verifierAdd (riskMicroUnits left) (riskMicroUnits right)) (\<lambda>r.
     bindR (verifierAdd (energyMwh left) (energyMwh right)) (\<lambda>e.
     bindR (verifierAdd (combinedCostUnits left) (combinedCostUnits right)) (\<lambda>c.
     bindR (verifierAdd (turnPenalty left) (turnPenalty right)) (\<lambda>p.
     Inr \<lparr>distanceMm = d, durationMs = t, riskMicroUnits = r, energyMwh = e,
          combinedCostUnits = c, turnPenaltyUnits = Some p\<rparr>))))))"

definition sameMetrics :: "fixed_metrics \<Rightarrow> fixed_metrics \<Rightarrow> bool" where
  "sameMetrics left right \<longleftrightarrow> metricValues left = metricValues right"

definition ratio :: "int \<Rightarrow> int \<Rightarrow> int" where
  "ratio numerator denominator =
     (if denominator = 0 then WHOLE else toNumber (bigDiv (numerator * WHOLE) denominator))"

section \<open>Effective arcs\<close>

definition presentValues :: "int option list \<Rightarrow> int list" where
  "presentValues xs = concat (map (\<lambda>x. case x of None \<Rightarrow> [] | Some v \<Rightarrow> [v]) xs)"

definition effectiveSpeed :: "traversal_arc \<Rightarrow> travel_policy \<Rightarrow> int option" where
  "effectiveSpeed arc policy =
     (case presentValues [speedOverrideMmPerS arc, maximumSpeedMmPerS policy, speedMmPerS arc] of
        [] \<Rightarrow> None | v # vs \<Rightarrow> Some (foldl min v vs))"

definition evaluateArc :: "traversal_arc \<Rightarrow> travel_policy \<Rightarrow> verifier_error + traversal_arc option" where
  "evaluateArc arc policy =
     (if traversalAllowed arc = Some False \<or> \<not> profileEligible arc policy then Inr None
      else bindR (ensureR (\<forall>v \<in> set (metricValues (arcMetrics arc)). nonNegativeSafe v) InvalidMetrics) (\<lambda>_.
        let m = arcMetrics arc; speed = effectiveSpeed arc policy in
        if (case speed of None \<Rightarrow> False | Some s \<Rightarrow> \<not> isSafeInteger s \<or> s \<le> 0) then Inr None
        else bindR (verifierAdd (combinedCostUnits m) (case conditionPenaltyUnits arc of None \<Rightarrow> 0 | Some p \<Rightarrow> p)) (\<lambda>cost.
          Inr (Some (arc\<lparr>arcMetrics := m\<lparr>
            durationMs := (case speed of None \<Rightarrow> durationMs m | Some s \<Rightarrow> toNumber (ceilQuotient (distanceMm m) 1000 s)),
            riskMicroUnits := (case riskOverrideMicroUnits arc of None \<Rightarrow> riskMicroUnits m | Some r \<Rightarrow> r),
            combinedCostUnits := cost, turnPenaltyUnits := Some 0\<rparr>\<rparr>)))))"

definition addEligible ::
  "travel_policy \<Rightarrow> (js_string \<rightharpoonup> traversal_arc) \<Rightarrow> traversal_arc \<Rightarrow> verifier_error + (js_string \<rightharpoonup> traversal_arc)" where
  "addEligible policy eligible arc =
     bindR (evaluateArc arc policy) (\<lambda>e.
       Inr (case e of None \<Rightarrow> eligible | Some a \<Rightarrow> eligible(arcKey arc \<mapsto> a)))"

definition authorityStep ::
  "(js_string \<rightharpoonup> traversal_arc) \<times> violation list \<Rightarrow> traversal_arc \<Rightarrow> (js_string \<rightharpoonup> traversal_arc) \<times> violation list" where
  "authorityStep = (\<lambda>(byArc, vs) arc.
     (byArc(arcKey arc \<mapsto> arc),
      if byArc (arcKey arc) = None then vs
      else vs @ [violationAt DUPLICATE_ARC_IDENTITY (js ''duplicate authority Arc '' @ arcKey arc) None]))"


section \<open>Replaying the segments\<close>

record replay_state =
  vsViolations :: "violation list"
  vsHistory :: "js_string list"
  vsPreviousEnd :: "js_string option"
  vsRecomputed :: fixed_metrics
  vsArcIdentity :: bool
  vsContinuity :: bool
  vsDirection :: bool
  vsFractions :: bool
  vsTurns :: bool
  vsProfile :: bool
  vsCondition :: bool
  vsMetrics :: bool

definition complain :: "violation_code \<Rightarrow> route_segment \<Rightarrow> string \<Rightarrow> replay_state \<Rightarrow> replay_state" where
  "complain code segment rest st =
     st\<lparr>vsViolations := vsViolations st @
       [violationAt code (js ''segment '' @ intText (int (segSequence segment)) @ js rest) (Some (segSequence segment))]\<rparr>"

definition validInterval :: "int \<Rightarrow> int \<Rightarrow> bool" where
  "validInterval start end \<longleftrightarrow> isSafeInteger start \<and> isSafeInteger end \<and> 0 \<le> start \<and> end \<le> WHOLE \<and> start < end"

text \<open>From \<open>eligible.get\<close> to the end of an iteration.\<close>

definition replayMetrics ::
  "traversal_arc option \<Rightarrow> traversal_arc \<Rightarrow> travel_policy \<Rightarrow> route_segment \<Rightarrow> int \<Rightarrow> replay_state \<Rightarrow>
     verifier_error + replay_state" where
  "replayMetrics evaluated authority policy segment penalty st =
     (case evaluated of
        None \<Rightarrow> Inr (complain (if traversalAllowed authority = Some False then CONDITION_CLOSED_ARC else PROFILE_ILLEGAL_ARC)
          segment '' traverses an excluded Arc''
          (st\<lparr>vsProfile := vsProfile st \<and> profileEligible authority policy,
              vsCondition := vsCondition st \<and> traversalAllowed authority \<noteq> Some False\<rparr>))
      | Some arc \<Rightarrow>
          bindR (addTurnPenalty (verifierSlice (arcMetrics arc) (segStart segment) (segEnd segment)) penalty) (\<lambda>expected.
            let st1 = (if sameMetrics expected (segMetrics segment) then st
              else complain METRIC_MISMATCH segment '' fixed metrics do not replay'' (st\<lparr>vsMetrics := False\<rparr>)) in
            Inr (case verifierAddMetrics (vsRecomputed st1) expected of
                Inr m \<Rightarrow> st1\<lparr>vsRecomputed := m\<rparr>
              | Inl _ \<Rightarrow> st1\<lparr>vsMetrics := False, vsViolations := vsViolations st1 @
                  [violationAt METRIC_OVERFLOW (js ''recomputed route metrics exceed safe integer range'')
                    (Some (segSequence segment))]\<rparr>)))"

definition replaySegment ::
  "verify_input \<Rightarrow> (js_string \<rightharpoonup> traversal_arc) \<Rightarrow> (js_string \<rightharpoonup> traversal_arc) \<Rightarrow> turn_rule list \<Rightarrow> nat \<Rightarrow>
     replay_state \<Rightarrow> route_segment \<Rightarrow> verifier_error + replay_state" where
  "replaySegment input byArc eligible rules maxHistory st segment =
     (case byArc (segArcKey segment) of
        None \<Rightarrow> Inr (complain UNKNOWN_OR_WRONG_VERSION_ARC segment '' does not identify a pinned authority Arc''
          (st\<lparr>vsArcIdentity := False\<rparr>))
      | Some authority \<Rightarrow>
          if arcGraphVersion authority \<noteq> segGraphVersion segment \<or>
             segGraphVersion segment \<noteq> snapGraphVersion (routingSnapshot (viProblem input))
          then Inr (complain UNKNOWN_OR_WRONG_VERSION_ARC segment '' does not identify a pinned authority Arc''
            (st\<lparr>vsArcIdentity := False\<rparr>))
          else if \<not> validInterval (segStart segment) (segEnd segment)
          then Inr (complain ILLEGAL_DIRECTION segment '' does not advance along its directed Arc''
            (complain INVALID_FRACTION segment '' has an empty, reversed, or out-of-range interval''
              (st\<lparr>vsFractions := False, vsDirection := False\<rparr>)))
          else
            (let start = stateNode authority (segStart segment); end = stateNode authority (segEnd segment);
                 st1 = (if vsPreviousEnd st \<noteq> None \<and> vsPreviousEnd st \<noteq> Some start
                   then complain DISCONTINUOUS_SEGMENT segment '' does not start where the preceding segment ended''
                     (st\<lparr>vsContinuity := False\<rparr>)
                   else st) in
             bindR (replayTurn (vsHistory st1) (segArcKey segment) rules maxHistory) (\<lambda>turn.
             let st2 = st1\<lparr>vsPreviousEnd := Some end, vsHistory := turnHistory turn\<rparr>;
                 st3 = (if turnValid turn then st2
                   else complain TURN_RESTRICTION_VIOLATION segment '' completes a forbidden or non-allowed turn''
                     (st2\<lparr>vsTurns := False\<rparr>)) in
             replayMetrics (eligible (segArcKey segment)) authority (viPolicy input) segment (turnUnits turn) st3)))"

section \<open>Endpoints\<close>

definition digest :: "(js_string \<Rightarrow> js_string) \<Rightarrow> int json \<Rightarrow> verifier_error + js_string" where
  "digest sha v = map_sum Unserializable id (contractSha256 sha v)"

definition sameDigest :: "(js_string \<Rightarrow> js_string) \<Rightarrow> int json \<Rightarrow> int json \<Rightarrow> verifier_error + bool" where
  "sameDigest sha a b = bindR (digest sha a) (\<lambda>x. bindR (digest sha b) (\<lambda>y. Inr (x = y)))"

definition expectedEnd :: "verify_input \<Rightarrow> directed_state option" where
  "expectedEnd input =
     (case endpointMode (viProblem input) of
        FIXED_END \<Rightarrow> fixedEndState (viProblem input)
      | LAST_AREA_EXIT \<Rightarrow> Some (bodyEndState (routeBody (viCandidate input)))
      | RETURN_TO_START \<Rightarrow> Some (startState (viProblem input)))"

definition nodeAt :: "(js_string \<rightharpoonup> traversal_arc) \<Rightarrow> js_string \<Rightarrow> int \<Rightarrow> js_string option" where
  "nodeAt byArc key fraction = map_option (\<lambda>arc. stateNode arc fraction) (byArc key)"

definition segmentStartNode :: "route_segment \<Rightarrow> (js_string \<rightharpoonup> traversal_arc) \<Rightarrow> js_string option" where
  "segmentStartNode segment byArc = nodeAt byArc (segArcKey segment) (segStart segment)"

definition segmentEndNode :: "route_segment \<Rightarrow> (js_string \<rightharpoonup> traversal_arc) \<Rightarrow> js_string option" where
  "segmentEndNode segment byArc = nodeAt byArc (segArcKey segment) (segEnd segment)"

text \<open>A state lies on the network and is the given end of the given segment, if there is one.\<close>

definition stateMeets ::
  "(js_string \<rightharpoonup> traversal_arc) \<Rightarrow> directed_state option \<Rightarrow> js_string option option \<Rightarrow> bool" where
  "stateMeets byArc st node =
     (case (st, node) of (Some s, Some n) \<Rightarrow>
        (case byArc (stateArcKey s) of None \<Rightarrow> False | Some arc \<Rightarrow> Some (stateNode arc (stateFraction s)) = n)
      | _ \<Rightarrow> False)"

definition verifyEndpoints ::
  "(js_string \<Rightarrow> js_string) \<Rightarrow> verify_input \<Rightarrow> (js_string \<rightharpoonup> traversal_arc) \<Rightarrow>
     verifier_error + (bool \<times> bool \<times> violation list)" where
  "verifyEndpoints sha input byArc =
     (let candidate = routeBody (viCandidate input); problem = viProblem input; segments = bodySegments candidate in
      bindR (sameDigest sha (stateJson (bodyStartState candidate)) (stateJson (startState problem))) (\<lambda>start0.
      bindR (case expectedEnd input of None \<Rightarrow> Inr False
        | Some e \<Rightarrow> sameDigest sha (stateJson (bodyEndState candidate)) (stateJson e)) (\<lambda>end0.
      let start = (start0 \<and> stateMeets byArc (Some (startState problem))
            (map_option (\<lambda>s. segmentStartNode s byArc) (itemAt segments 0)));
          end = (end0 \<and> stateMeets byArc (expectedEnd input)
            (map_option (\<lambda>s. segmentEndNode s byArc) (lastOf segments))) in
      Inr (start, end,
        (if start then [] else [violationAt START_STATE_MISMATCH
          (js ''candidate does not start at the exact problem state'') None]) @
        (if end then [] else [violationAt END_STATE_MISMATCH
          (js ''candidate does not end at the exact endpoint-mode terminal'') None])))))"

section \<open>Boundary policy\<close>

text \<open>The two loops that look for an entry after an exit.\<close>

fun reentersAfter :: "bool \<Rightarrow> boundary_event list \<Rightarrow> bool" where
  "reentersAfter exited [] = False"
| "reentersAfter exited (e # es) =
     ((boundaryKind e = ENTRY \<and> exited) \<or> reentersAfter (exited \<or> boundaryKind e = EXIT) es)"

definition validShape :: "boundary_event list \<Rightarrow> bool" where
  "validShape events \<longleftrightarrow> (\<forall>(i, e) \<in> set (enumerate 0 events).
     eventSequence e = int i + 1 \<and> boundaryKind e \<in> {ENTRY, EXIT} \<and> eventState e \<noteq> None)"

definition entryDigests :: "(js_string \<Rightarrow> js_string) \<Rightarrow> coverage_problem \<Rightarrow> verifier_error + js_string list" where
  "entryDigests sha problem =
     mapR (\<lambda>s. digest sha (stateJson s)) (case entryStates problem of None \<Rightarrow> [] | Some ss \<Rightarrow> ss)"

text \<open>\<open>entries.every\<close> stops at the first event that is not allowed.\<close>

fun everyAllowed :: "(js_string \<Rightarrow> js_string) \<Rightarrow> js_string list \<Rightarrow> boundary_event list \<Rightarrow> verifier_error + bool" where
  "everyAllowed sha allowed [] = Inr True"
| "everyAllowed sha allowed (e # es) =
     bindR (digest sha (case eventState e of None \<Rightarrow> JUnsupported | Some v \<Rightarrow> v)) (\<lambda>d.
       if d \<in> set allowed then everyAllowed sha allowed es else Inr False)"

definition verifyBoundaryPolicy ::
  "(js_string \<Rightarrow> js_string) \<Rightarrow> verify_input \<Rightarrow> verifier_error + (bool \<times> violation list)" where
  "verifyBoundaryPolicy sha input =
     (let problem = viProblem input; policy = boundaryCrossingPolicy problem in
      case viBoundaryEvents input of
        None \<Rightarrow>
          if policy = FREE \<and> endpointMode problem \<noteq> LAST_AREA_EXIT then Inr (True, [])
          else Inr (False, [violationAt BOUNDARY_AUTHORITY_UNAVAILABLE
            (js ''independent versioned boundary reconstruction is required for this policy'') None])
      | Some events \<Rightarrow>
          let entries = filter (\<lambda>e. boundaryKind e = ENTRY) events;
              valid0 = validShape events;
              valid1 = (if policy = FIRST_ENTRY_ONLY
                then (case viStartInside input of None \<Rightarrow> False
                  | Some True \<Rightarrow> valid0 \<and> \<not> reentersAfter False events
                  | Some False \<Rightarrow> valid0 \<and> length entries = 1)
                else valid0) in
          bindR (if policy = ENTRY_SET_ONLY
            then bindR (entryDigests sha problem) (\<lambda>allowed.
              if valid1 then everyAllowed sha allowed entries else Inr False)
            else Inr valid1) (\<lambda>valid2.
          let valid3 = (valid2 \<and> \<not> (policy = NO_REENTRY \<and> reentersAfter False events)) in
          bindR (if endpointMode problem = LAST_AREA_EXIT \<and> valid3
            then (case lastOf (filter (\<lambda>e. boundaryKind e = EXIT) events) of None \<Rightarrow> Inr False
              | Some e \<Rightarrow> sameDigest sha (case eventState e of None \<Rightarrow> JUnsupported | Some v \<Rightarrow> v)
                  (stateJson (bodyEndState (routeBody (viCandidate input)))))
            else Inr valid3) (\<lambda>valid.
          Inr (valid, if valid then [] else [violationAt BOUNDARY_POLICY_VIOLATION
            (js ''boundary events violate the canonical crossing or terminal policy'') None]))))"


section \<open>Coverage\<close>

definition serviceOf :: "coverage_route \<Rightarrow> obligation \<Rightarrow> route_segment list" where
  "serviceOf candidate obl = filter (\<lambda>s. segRole s = SERVICE \<and>
     (case segObligationIds s of None \<Rightarrow> False | Some ids \<Rightarrow> obligationId obl \<in> set ids))
     (bodySegments (routeBody candidate))"

definition onArc :: "obligation \<Rightarrow> route_segment list \<Rightarrow> route_segment list" where
  "onArc obl service = filter (\<lambda>s. segArcKey s = oblArcKey obl) service"

definition boundaryPoints :: "obligation \<Rightarrow> route_segment list \<Rightarrow> int list" where
  "boundaryPoints obl service =
     sort (filter (\<lambda>v. oblStart obl \<le> v \<and> v \<le> oblEnd obl)
       (remdups ([oblStart obl, oblEnd obl] @
         concat (map (\<lambda>s. [max (oblStart obl) (segStart s), min (oblEnd obl) (segEnd s)]) (onArc obl service)))))"

definition passesOver :: "obligation \<Rightarrow> route_segment list \<Rightarrow> int \<Rightarrow> int \<Rightarrow> int" where
  "passesOver obl service start end =
     int (length (filter (\<lambda>s. segStart s \<le> start \<and> end \<le> segEnd s) (onArc obl service)))"

text \<open>The loop over consecutive points; \<open>None\<close> is \<open>Infinity\<close>.\<close>

fun fewestPasses :: "obligation \<Rightarrow> route_segment list \<Rightarrow> int list \<Rightarrow> int option \<Rightarrow> int option" where
  "fewestPasses obl service (p # q # ps) best =
     fewestPasses obl service (q # ps)
       (if p = q then best
        else Some (case best of None \<Rightarrow> passesOver obl service p q | Some b \<Rightarrow> min b (passesOver obl service p q)))"
| "fewestPasses obl service _ best = best"

definition actualPasses :: "obligation \<Rightarrow> route_segment list \<Rightarrow> int" where
  "actualPasses obl service =
     (case fewestPasses obl service (boundaryPoints obl service) None of None \<Rightarrow> 0 | Some n \<Rightarrow> n)"

record coverage_state =
  cvTotal :: int
  cvCovered :: int
  cvRequiredLength :: int
  cvCoveredLength :: int
  cvViolations :: "violation list"

definition arcMismatches :: "obligation \<Rightarrow> route_segment list \<Rightarrow> violation list" where
  "arcMismatches obl service =
     map (\<lambda>s. violationAt OBLIGATION_ARC_MISMATCH
       (js ''obligation '' @ obligationId obl @ js '' is claimed on another Arc'') (Some (segSequence s)))
     (filter (\<lambda>s. segArcKey s \<noteq> oblArcKey obl) service)"

definition coverObligation ::
  "verify_input \<Rightarrow> (js_string \<rightharpoonup> traversal_arc) \<Rightarrow> coverage_state \<Rightarrow> obligation \<Rightarrow> verifier_error + coverage_state" where
  "coverObligation input byArc st obl =
     (case byArc (oblArcKey obl) of None \<Rightarrow> Inr st
      | Some arc \<Rightarrow>
          let service = serviceOf (viCandidate input) obl;
              actual = actualPasses obl service;
              fulfilled = min actual (requiredPasses obl);
              onePass = distanceMm (verifierSlice (arcMetrics arc) (oblStart obl) (oblEnd obl)) in
          bindR (verifierAdd (cvTotal st) (requiredPasses obl)) (\<lambda>t.
          bindR (verifierAdd (cvCovered st) fulfilled) (\<lambda>c.
          bindR (verifierMultiply onePass (requiredPasses obl)) (\<lambda>need.
          bindR (verifierAdd (cvRequiredLength st) need) (\<lambda>rl.
          bindR (verifierMultiply onePass fulfilled) (\<lambda>got.
          bindR (verifierAdd (cvCoveredLength st) got) (\<lambda>cl.
          Inr \<lparr>cvTotal = t, cvCovered = c, cvRequiredLength = rl, cvCoveredLength = cl,
            cvViolations = cvViolations st @ arcMismatches obl service @
              (if actual < requiredPasses obl
               then [violationAt OBLIGATION_PASS_DEFICIT (js ''obligation '' @ obligationId obl @ js '' has '' @
                 intText actual @ js ''/'' @ intText (requiredPasses obl) @ js '' complete passes'') None]
               else [])\<rparr>)))))))"

definition verifyCoverage ::
  "verify_input \<Rightarrow> (js_string \<rightharpoonup> traversal_arc) \<Rightarrow> verifier_error + (bool \<times> coverage_figures \<times> violation list)" where
  "verifyCoverage input byArc =
     bindR (foldR (coverObligation input byArc)
       \<lparr>cvTotal = 0, cvCovered = 0, cvRequiredLength = 0, cvCoveredLength = 0, cvViolations = []\<rparr>
       (obligations (viProblem input))) (\<lambda>st.
     let figures = \<lparr>ratioPpm = ratio (cvCovered st) (cvTotal st),
           lengthRatioPpm = ratio (cvCoveredLength st) (cvRequiredLength st),
           requiredLength = cvRequiredLength st, coveredLength = cvCoveredLength st\<rparr> in
     Inr (ratioPpm figures = WHOLE, figures, cvViolations st))"

section \<open>Reports\<close>

fun violationCodeText :: "violation_code \<Rightarrow> string" where
  "violationCodeText STALE_ROUTING_SNAPSHOT = ''STALE_ROUTING_SNAPSHOT''"
| "violationCodeText DUPLICATE_ARC_IDENTITY = ''DUPLICATE_ARC_IDENTITY''"
| "violationCodeText UNKNOWN_OR_WRONG_VERSION_ARC = ''UNKNOWN_OR_WRONG_VERSION_ARC''"
| "violationCodeText INVALID_FRACTION = ''INVALID_FRACTION''"
| "violationCodeText ILLEGAL_DIRECTION = ''ILLEGAL_DIRECTION''"
| "violationCodeText DISCONTINUOUS_SEGMENT = ''DISCONTINUOUS_SEGMENT''"
| "violationCodeText TURN_RESTRICTION_VIOLATION = ''TURN_RESTRICTION_VIOLATION''"
| "violationCodeText CONDITION_CLOSED_ARC = ''CONDITION_CLOSED_ARC''"
| "violationCodeText PROFILE_ILLEGAL_ARC = ''PROFILE_ILLEGAL_ARC''"
| "violationCodeText METRIC_MISMATCH = ''METRIC_MISMATCH''"
| "violationCodeText METRIC_OVERFLOW = ''METRIC_OVERFLOW''"
| "violationCodeText ROUTE_METRIC_MISMATCH = ''ROUTE_METRIC_MISMATCH''"
| "violationCodeText START_STATE_MISMATCH = ''START_STATE_MISMATCH''"
| "violationCodeText END_STATE_MISMATCH = ''END_STATE_MISMATCH''"
| "violationCodeText BOUNDARY_AUTHORITY_UNAVAILABLE = ''BOUNDARY_AUTHORITY_UNAVAILABLE''"
| "violationCodeText BOUNDARY_POLICY_VIOLATION = ''BOUNDARY_POLICY_VIOLATION''"
| "violationCodeText OBLIGATION_ARC_MISMATCH = ''OBLIGATION_ARC_MISMATCH''"
| "violationCodeText OBLIGATION_PASS_DEFICIT = ''OBLIGATION_PASS_DEFICIT''"
| "violationCodeText CANDIDATE_HASH_MISMATCH = ''CANDIDATE_HASH_MISMATCH''"

fun statusText :: "report_status \<Rightarrow> string" where
  "statusText VALID = ''VALID''"
| "statusText STALE = ''STALE''"
| "statusText INVALID = ''INVALID''"
| "statusText INDETERMINATE = ''INDETERMINATE''"

definition violationJson :: "violation \<Rightarrow> int json" where
  "violationJson v = JObj ([(js ''code'', JStr (js (violationCodeText (violationCode v)))),
     (js ''message'', JStr (violationMessage v))] @
     optionalEntry ''segmentSequence'' (map_option (\<lambda>n. JNum (int n)) (violationSegment v)))"

definition checkValues :: "verifier_checks \<Rightarrow> (string \<times> bool) list" where
  "checkValues c = [(''snapshot'', chkSnapshot c), (''arcIdentity'', chkArcIdentity c),
     (''continuity'', chkContinuity c), (''direction'', chkDirection c), (''fractions'', chkFractions c),
     (''turns'', chkTurns c), (''coverage'', chkCoverage c), (''start'', chkStart c), (''end'', chkEnd c),
     (''boundary'', chkBoundary c), (''profile'', chkProfile c), (''condition'', chkCondition c),
     (''metrics'', chkMetrics c), (''resultHash'', chkResultHash c)]"

definition reportEntries :: "report_body \<Rightarrow> (js_string \<times> int json) list" where
  "reportEntries b =
     [(js ''status'', JStr (js (statusText (reportStatus b)))),
      (js ''verifierVersion'', JStr (js ''coverage-verifier/1.2.0'')),
      (js ''routingSnapshotHash'', JStr (reportSnapshotHash b)),
      (js ''checks'', JObj (map (\<lambda>(k, v). (js k, JBool v)) (checkValues (reportChecks b)))),
      (js ''coverageRatioPpm'', JNum (ratioPpm (reportFigures b))),
      (js ''lengthWeightedCoverageRatioPpm'', JNum (lengthRatioPpm (reportFigures b))),
      (js ''requiredLengthMm'', JNum (requiredLength (reportFigures b))),
      (js ''coveredRequiredLengthMm'', JNum (coveredLength (reportFigures b))),
      (js ''recomputedMetrics'', metricsJson (reportMetrics b)),
      (js ''violations'', JArr (map violationJson (reportViolations b)))]"

definition reportJson :: "report_body \<Rightarrow> js_string \<Rightarrow> int json" where
  "reportJson b identity = JObj (reportEntries b @ [(js ''verificationId'', JStr identity)])"

definition signReport :: "(js_string \<Rightarrow> js_string) \<Rightarrow> report_body \<Rightarrow> verifier_error + verification_report" where
  "signReport sha b =
     bindR (digest sha (JObj (reportEntries b))) (\<lambda>identityHash.
     let identity = js ''verify_'' @ drop (length (js ''sha256:'')) identityHash in
     bindR (digest sha (reportJson b identity)) (\<lambda>hash.
       Inr \<lparr>reportBody = b, verificationId = identity, reportHash = hash\<rparr>))"

section \<open>Verification\<close>

definition replayStart :: "verify_input \<Rightarrow> violation list \<Rightarrow> replay_state" where
  "replayStart input vs =
     \<lparr>vsViolations = vs,
      vsHistory = (if stateFraction (startState (viProblem input)) = WHOLE
        then [stateArcKey (startState (viProblem input))] else []),
      vsPreviousEnd = None, vsRecomputed = ZERO_METRICS, vsArcIdentity = True, vsContinuity = True,
      vsDirection = True, vsFractions = True, vsTurns = True, vsProfile = True, vsCondition = True,
      vsMetrics = True\<rparr>"

definition verifyCoverageRoute ::
  "(js_string \<Rightarrow> js_string) \<Rightarrow> verify_input \<Rightarrow> verifier_error + verification_report" where
  "verifyCoverageRoute sha input =
     (let problem = viProblem input; candidate = routeBody (viCandidate input) in
      bindR (digest sha (snapshotJson (routingSnapshot problem))) (\<lambda>snapshotHash.
      bindR (digest sha (snapshotJson (viCurrentSnapshot input))) (\<lambda>currentHash.
      let stale = (currentHash \<noteq> snapshotHash);
          vs0 = (if stale then [violationAt STALE_ROUTING_SNAPSHOT
            (js ''candidate snapshot differs from the current graph/profile/condition snapshot'') None] else []);
          (byArc, vs1) = foldl authorityStep (Map.empty, vs0) (viArcs input);
          rules = activeRules (case viRules input of None \<Rightarrow> [] | Some rs \<Rightarrow> rs) (profileKey (viPolicy input)) in
      bindR (foldR (addEligible (viPolicy input)) Map.empty (viArcs input)) (\<lambda>eligible.
      bindR (foldR (replaySegment input byArc eligible rules (maximumHistory rules)) (replayStart input vs1)
        (bodySegments candidate)) (\<lambda>st.
      let totalsOk = sameMetrics (vsRecomputed st) (bodyMetrics candidate);
          vs2 = vsViolations st @ (if totalsOk then [] else [violationAt ROUTE_METRIC_MISMATCH
            (js ''route metrics do not equal independently recomputed segment totals'') None]) in
      bindR (verifyEndpoints sha input byArc) (\<lambda>(startOk, endOk, endpointVs).
      bindR (verifyBoundaryPolicy sha input) (\<lambda>(boundaryOk, boundaryVs).
      bindR (verifyCoverage input byArc) (\<lambda>(coverageOk, figures, coverageVs).
      bindR (digest sha (routeBodyJson candidate)) (\<lambda>routeHash.
      let resultHash = (routeHash = routeSignature (viCandidate input));
          vs = vs2 @ endpointVs @ boundaryVs @ coverageVs @
            (if resultHash then [] else [violationAt CANDIDATE_HASH_MISMATCH
              (js ''routeSignature does not match canonical candidate content'') None]) in
      signReport sha \<lparr>reportStatus = (if stale then STALE else if vs = [] then VALID else INVALID),
        reportSnapshotHash = snapshotHash,
        reportChecks = \<lparr>chkSnapshot = \<not> stale, chkArcIdentity = vsArcIdentity st, chkContinuity = vsContinuity st,
          chkDirection = vsDirection st, chkFractions = vsFractions st, chkTurns = vsTurns st,
          chkCoverage = coverageOk, chkStart = startOk, chkEnd = endOk, chkBoundary = boundaryOk,
          chkProfile = vsProfile st, chkCondition = vsCondition st,
          chkMetrics = vsMetrics st \<and> totalsOk, chkResultHash = resultHash\<rparr>,
        reportFigures = figures, reportMetrics = vsRecomputed st, reportViolations = vs\<rparr>)))))))))"

record admitted_route =
  admittedRoute :: coverage_route
  admittedReport :: verification_report
  admissionHash :: js_string

definition admitVerifiedCoverageRoute ::
  "(js_string \<Rightarrow> js_string) \<Rightarrow> coverage_route \<Rightarrow> verification_report \<Rightarrow> verifier_error + admitted_route" where
  "admitVerifiedCoverageRoute sha route verification =
     bindR (ensureR (reportStatus (reportBody verification) = VALID \<and>
       (\<forall>(k, passed) \<in> set (checkValues (reportChecks (reportBody verification))). passed)) NotAdmissible) (\<lambda>_.
     bindR (digest sha (reportJson (reportBody verification) (verificationId verification))) (\<lambda>hash.
     bindR (ensureR (hash = reportHash verification) ReceiptHashMismatch) (\<lambda>_.
     bindR (digest sha (routeBodyJson (routeBody route))) (\<lambda>routeHash.
     bindR (ensureR (routeHash = routeSignature route) RouteHashMismatch) (\<lambda>_.
     bindR (digest sha (JObj [(js ''routeSignature'', JStr (routeSignature route)),
       (js ''reportHash'', JStr (reportHash verification))])) (\<lambda>admission.
     Inr \<lparr>admittedRoute = route, admittedReport = verification, admissionHash = admission\<rparr>))))))"

end
