(* ===== verification/NetworkPlaces.thy ===== *)
theory NetworkPlaces
  imports CoverageModel
begin

text \<open>
  Positions on the network.  The solvers and the verifier compare positions by the strings of
  \<open>stateNode\<close>; here those strings are shown to identify the position they stand for.  The last
  section shows which documents the contract JSON accepts.
\<close>

section \<open>Padded decimals\<close>

definition digitValue :: "js_string \<Rightarrow> nat" where
  "digitValue ds = foldl (\<lambda>v d. 10 * v + (unat d - 48)) 0 ds"

lemma digitValue_snoc [simp]: "digitValue (ds @ [d]) = 10 * digitValue ds + (unat d - 48)"
  by (simp add: digitValue_def)

lemma unat_digit: "d < 10 \<Longrightarrow> unat (of_nat (48 + d) :: 16 word) = 48 + d"
  by (simp add: unat_of_nat del: of_nat_add)

lemma digitValue_decimals: "digitValue (decimals n) = n"
proof (induction n rule: decimals.induct)
  case (1 n)
  show ?case
  proof (cases "n < 10")
    case True
    then show ?thesis using unat_digit [of n] by (simp add: decimals.simps [of n] digitValue_def del: of_nat_add)
  next
    case False
    then show ?thesis using 1 unat_digit [of "n mod 10"]
      by (simp add: decimals.simps [of n] del: of_nat_add)
  qed
qed

lemma digitValue_padded: "digitValue (replicate k 48 @ ds) = digitValue ds"
proof (induction ds rule: rev_induct)
  case Nil
  have "digitValue (replicate k 48) = 0"
  proof (induction k)
    case (Suc k)
    then show ?case using digitValue_snoc [of "replicate k 48" 48] by (simp add: replicate_append_same)
  qed (simp add: digitValue_def)
  then show ?case by (simp add: digitValue_def)
next
  case (snoc d ds)
  then show ?case using digitValue_snoc [of "replicate k 48 @ ds" d] by simp
qed

lemma padSeven_value: "0 \<le> f \<Longrightarrow> digitValue (padSeven f) = nat f"
  by (simp add: padSeven_def intText_def digitValue_padded digitValue_decimals)

lemma intText_units: "set (intText n) \<subseteq> insert 45 digitUnits"
  using decimals_units [of "nat n"] decimals_units [of "nat (- n)"] by (auto simp: intText_def)

lemma colon_free: "(58 :: 16 word) \<notin> set (padSeven n)"
  using intText_units [of n] by (auto simp: padSeven_def digitUnits_def)

lemma split_at_last:
  assumes "xs @ x # ys = xs' @ x # ys'" and "x \<notin> set ys" and "x \<notin> set ys'"
  shows "xs = xs' \<and> ys = ys'"
  using assms
proof (induction ys arbitrary: ys' rule: rev_induct)
  case Nil
  then show ?case by (cases ys' rule: rev_cases) auto
next
  case (snoc y ys)
  note step = snoc
  show ?case
  proof (cases ys' rule: rev_cases)
    case Nil
    then show ?thesis using step(2,3) by auto
  next
    case (snoc zs z)
    then show ?thesis using step(1) [of zs] step(2-4) by simp
  qed
qed

lemma decimals_minus: "45 \<notin> set (decimals m)"
  using decimals_units [of m] by (auto simp: digitUnits_def)

lemma padSeven_minus: "45 \<in> set (padSeven n) \<longleftrightarrow> n < 0"
  using decimals_minus by (auto simp: padSeven_def intText_def)

lemma padSeven_inject: "padSeven m = padSeven n \<Longrightarrow> m = n"
proof -
  assume eq: "padSeven m = padSeven n"
  then have sign: "m < 0 \<longleftrightarrow> n < 0" using padSeven_minus by metis
  show "m = n"
  proof (cases "m < 0")
    case True
    then have "replicate (7 - length (intText m)) 48 @ 45 # decimals (nat (- m)) =
        replicate (7 - length (intText n)) 48 @ 45 # decimals (nat (- n))"
      using eq sign by (simp add: padSeven_def intText_def)
    from split_at_last [OF this decimals_minus decimals_minus] have "decimals (nat (- m)) = decimals (nat (- n))" by (rule conjunct2)
    then have "nat (- m) = nat (- n)" by (rule decimals_inject)
    then show ?thesis using True sign by linarith
  next
    case False
    then show ?thesis using padSeven_value [of m] padSeven_value [of n] eq sign by simp
  qed
qed

section \<open>Places\<close>

datatype place = AtNode js_string | Within js_string int

definition placeOf :: "traversal_arc \<Rightarrow> int \<Rightarrow> place" where
  "placeOf arc fraction =
     (if fraction = 0 then AtNode (fromNodeKey arc)
      else if fraction = WHOLE then AtNode (toNodeKey arc) else Within (arcKey arc) fraction)"

lemma node_texts:
  "js ''node:'' @ x = js ''node:'' @ y \<longleftrightarrow> x = y"
  "js ''node:'' @ x \<noteq> js ''state:'' @ y" "js ''state:'' @ y \<noteq> js ''node:'' @ x"
  by (simp_all add: js_def)

text \<open>Two positions have the same node string exactly when they are the same place.\<close>

lemma stateNode_place: "stateNode a f = stateNode b g \<longleftrightarrow> placeOf a f = placeOf b g"
proof -
  have "js ''state:'' @ arcKey a @ js '':'' @ padSeven f = js ''state:'' @ arcKey b @ js '':'' @ padSeven g \<longleftrightarrow>
      arcKey a = arcKey b \<and> f = g"
  proof
    assume "js ''state:'' @ arcKey a @ js '':'' @ padSeven f = js ''state:'' @ arcKey b @ js '':'' @ padSeven g"
    then have "arcKey a @ 58 # padSeven f = arcKey b @ 58 # padSeven g" by (simp add: js_def)
    from split_at_last [OF this colon_free colon_free] show "arcKey a = arcKey b \<and> f = g" using padSeven_inject by simp
  qed simp
  moreover have "(0 :: int) \<noteq> WHOLE" by (simp add: WHOLE_def)
  ultimately show ?thesis by (auto simp: stateNode_def placeOf_def node_texts)
qed

section \<open>Documents that serialise\<close>

lemma contractJson_ok: "supported v \<Longrightarrow> \<exists>t. contractJson v = Inr t"
proof (induction v)
  case (JArr vs)
  then obtain ts where "mapR contractJson vs = Inr ts" using mapR_ok [of vs contractJson] by auto
  then show ?case by simp
next
  case (JObj es)
  have "\<exists>t. (case e of (k, v) \<Rightarrow> bindR (contractJson v) (\<lambda>t. Inr (stringifyText k @ [58] @ t))) = Inr t"
    if "e \<in> set (sortByCodePoint es)" for e
  proof -
    obtain k v where e: "e = (k, v)" by (cases e)
    then have m: "(k, v) \<in> set es" using that by simp
    then have "supported v" using JObj.prems by auto
    then obtain t where "contractJson v = Inr t" using JObj.IH [of "(k, v)" v] m by auto
    then show ?thesis by (simp add: e)
  qed
  then obtain ts where "mapR (\<lambda>(k, v). bindR (contractJson v) (\<lambda>t. Inr (stringifyText k @ [58] @ t))) (sortByCodePoint es) = Inr ts"
    using mapR_ok by (metis (no_types, lifting))
  then show ?case by simp
qed auto

lemma contractSha256_ok: "supported v \<Longrightarrow> \<exists>t. contractSha256 sha v = Inr t"
  using contractJson_ok [of v] by (auto simp: contractSha256_def)

lemma contractSha256_constant: "supported v \<Longrightarrow> contractSha256 (\<lambda>_. c) v = Inr (js ''sha256:'' @ c)"
  using contractJson_ok [of v] by (auto simp: contractSha256_def)

lemma supported_documents [simp]:
  "supported (versionedReferenceJson k)" "supported (metricsJson m)" "supported (stateJson s)"
  "supported (snapshotJson sn)" "supported (segmentJson sg)"
  by (auto simp: versionedReferenceJson_def metricsJson_def stateJson_def snapshotJson_def segmentJson_def
    optionalEntry_def split: option.splits)

lemma supported_routeBody:
  "supported (routeBodyJson b) \<longleftrightarrow> (case bodyBoundaryEvents b of None \<Rightarrow> True | Some vs \<Rightarrow> \<forall>v \<in> set vs. supported v)"
  by (auto simp: routeBodyJson_def optionalEntry_def split: option.splits)

end
