(* ===== verification/VerifierSoundness.thy ===== *)
theory VerifierSoundness
  imports CoverageVerifier NetworkPlaces
begin

text \<open>
  What a VALID report of the coverage verifier means: the route it is about is a connected drive
  over pinned, permitted arcs, with legal turns, exact metrics, the required endpoints and every
  obligation served as often as required.
\<close>

section \<open>A replay without violations\<close>

definition flagsOf :: "replay_state \<Rightarrow> bool list" where
  "flagsOf st = [vsArcIdentity st, vsContinuity st, vsDirection st, vsFractions st, vsTurns st, vsProfile st,
     vsCondition st, vsMetrics st]"

lemma complain_violations [simp]: "vsViolations (complain code s rest st) \<noteq> []"
  by (simp add: complain_def)

lemma complain_frame [simp]:
  "vsHistory (complain code s rest st) = vsHistory st"
  "vsPreviousEnd (complain code s rest st) = vsPreviousEnd st"
  "vsRecomputed (complain code s rest st) = vsRecomputed st"
  by (simp_all add: complain_def)

text \<open>What one iteration establishes when it adds no violation.\<close>

definition cleanStep ::
  "verify_input \<Rightarrow> (js_string \<rightharpoonup> traversal_arc) \<Rightarrow> (js_string \<rightharpoonup> traversal_arc) \<Rightarrow> turn_rule list \<Rightarrow> nat \<Rightarrow>
     replay_state \<Rightarrow> route_segment \<Rightarrow> replay_state \<Rightarrow> traversal_arc \<Rightarrow> traversal_arc \<Rightarrow> turn_advance \<Rightarrow> fixed_metrics \<Rightarrow> bool" where
  "cleanStep input byArc eligible rules m st s st' authority arc turn expected \<longleftrightarrow>
     byArc (segArcKey s) = Some authority \<and> arcGraphVersion authority = segGraphVersion s \<and>
     segGraphVersion s = snapGraphVersion (routingSnapshot (viProblem input)) \<and>
     validInterval (segStart s) (segEnd s) \<and>
     (vsPreviousEnd st = None \<or> vsPreviousEnd st = Some (stateNode authority (segStart s))) \<and>
     vsPreviousEnd st' = Some (stateNode authority (segEnd s)) \<and>
     replayTurn (vsHistory st) (segArcKey s) rules m = Inr turn \<and> turnValid turn \<and>
     vsHistory st' = turnHistory turn \<and> eligible (segArcKey s) = Some arc \<and>
     addTurnPenalty (verifierSlice (arcMetrics arc) (segStart s) (segEnd s)) (turnUnits turn) = Inr expected \<and>
     sameMetrics expected (segMetrics s) \<and>
     verifierAddMetrics (vsRecomputed st) expected = Inr (vsRecomputed st') \<and>
     flagsOf st' = flagsOf st"

lemma replayMetrics_clean:
  assumes "replayMetrics evaluated authority policy s penalty st = Inr st'" and "vsViolations st' = []"
  obtains arc expected where "vsViolations st = []" and "evaluated = Some arc"
    and "addTurnPenalty (verifierSlice (arcMetrics arc) (segStart s) (segEnd s)) penalty = Inr expected"
    and "sameMetrics expected (segMetrics s)"
    and "verifierAddMetrics (vsRecomputed st) expected = Inr (vsRecomputed st')"
    and "st' = st\<lparr>vsRecomputed := vsRecomputed st'\<rparr>"
proof (cases evaluated)
  case None
  then have "vsViolations st' \<noteq> []" using assms(1) by (auto simp: replayMetrics_def)
  then show ?thesis using assms(2) by simp
next
  case (Some arc)
  then obtain expected where e: "addTurnPenalty (verifierSlice (arcMetrics arc) (segStart s) (segEnd s)) penalty = Inr expected"
    using assms(1) by (auto simp: replayMetrics_def bindR_eq_Inr)
  let ?st1 = "if sameMetrics expected (segMetrics s) then st
    else complain METRIC_MISMATCH s '' fixed metrics do not replay'' (st\<lparr>vsMetrics := False\<rparr>)"
  have st': "st' = (case verifierAddMetrics (vsRecomputed ?st1) expected of
                Inr m \<Rightarrow> ?st1\<lparr>vsRecomputed := m\<rparr>
              | Inl _ \<Rightarrow> ?st1\<lparr>vsMetrics := False, vsViolations := vsViolations ?st1 @
                  [violationAt METRIC_OVERFLOW (js ''recomputed route metrics exceed safe integer range'')
                    (Some (segSequence s))]\<rparr>)"
    using assms(1) e Some by (simp add: replayMetrics_def Let_def)
  obtain m where m: "verifierAddMetrics (vsRecomputed ?st1) expected = Inr m"
    using st' assms(2) by (cases "verifierAddMetrics (vsRecomputed ?st1) expected") auto
  then have st'': "st' = ?st1\<lparr>vsRecomputed := m\<rparr>" using st' by simp
  then have clean: "vsViolations ?st1 = []" using assms(2) by simp
  then have same: "sameMetrics expected (segMetrics s)" by (cases "sameMetrics expected (segMetrics s)") auto
  show ?thesis by (rule that) (use e Some same m st'' clean in auto)
qed

lemma replaySegment_clean:
  assumes step: "replaySegment input byArc eligible rules m st s = Inr st'" and clean: "vsViolations st' = []"
  shows "vsViolations st = [] \<and> (\<exists>authority arc turn expected. cleanStep input byArc eligible rules m st s st' authority arc turn expected)"
proof -
  obtain authority where auth: "byArc (segArcKey s) = Some authority"
    using step clean by (cases "byArc (segArcKey s)") (auto simp: replaySegment_def)
  have version: "arcGraphVersion authority = segGraphVersion s"
    "segGraphVersion s = snapGraphVersion (routingSnapshot (viProblem input))"
    and interval: "validInterval (segStart s) (segEnd s)"
    using step clean auth by (auto simp: replaySegment_def split: if_splits)
  let ?st1 = "if vsPreviousEnd st \<noteq> None \<and> vsPreviousEnd st \<noteq> Some (stateNode authority (segStart s))
                   then complain DISCONTINUOUS_SEGMENT s '' does not start where the preceding segment ended''
                     (st\<lparr>vsContinuity := False\<rparr>)
                   else st"
  obtain turn where turn: "replayTurn (vsHistory ?st1) (segArcKey s) rules m = Inr turn"
    using step auth version interval unfolding replaySegment_def Let_def
    by (cases "replayTurn (vsHistory ?st1) (segArcKey s) rules m") auto
  let ?st2 = "?st1\<lparr>vsPreviousEnd := Some (stateNode authority (segEnd s)), vsHistory := turnHistory turn\<rparr>"
  let ?st3 = "if turnValid turn then ?st2
                   else complain TURN_RESTRICTION_VIOLATION s '' completes a forbidden or non-allowed turn''
                     (?st2\<lparr>vsTurns := False\<rparr>)"
  have rest: "replayMetrics (eligible (segArcKey s)) authority (viPolicy input) s (turnUnits turn) ?st3 = Inr st'"
    using step by (simp only: replaySegment_def Let_def auth option.case version interval turn bindR_Inr
      simp_thms if_False)
  obtain arc expected where a: "vsViolations ?st3 = []" "eligible (segArcKey s) = Some arc"
    "addTurnPenalty (verifierSlice (arcMetrics arc) (segStart s) (segEnd s)) (turnUnits turn) = Inr expected"
    "sameMetrics expected (segMetrics s)" "verifierAddMetrics (vsRecomputed ?st3) expected = Inr (vsRecomputed st')"
    "st' = ?st3\<lparr>vsRecomputed := vsRecomputed st'\<rparr>"
    by (rule replayMetrics_clean [OF rest clean])
  have valid: "turnValid turn" using a(1) by (cases "turnValid turn") auto
  then have "vsViolations ?st1 = []" using a(1) by simp
  then have cont: "\<not> (vsPreviousEnd st \<noteq> None \<and> vsPreviousEnd st \<noteq> Some (stateNode authority (segStart s)))"
    by (cases "vsPreviousEnd st \<noteq> None \<and> vsPreviousEnd st \<noteq> Some (stateNode authority (segStart s))") auto
  have st1: "?st1 = st" using cont by (rule if_not_P)
  have eq: "st' = st\<lparr>vsPreviousEnd := Some (stateNode authority (segEnd s)), vsHistory := turnHistory turn,
      vsRecomputed := vsRecomputed st'\<rparr>"
    using a(6) valid unfolding st1 by simp
  have "cleanStep input byArc eligible rules m st s st' authority arc turn expected"
    unfolding cleanStep_def
  proof (intro conjI)
    show "vsPreviousEnd st' = Some (stateNode authority (segEnd s))" by (subst eq) simp
    show "vsHistory st' = turnHistory turn" by (subst eq) simp
    show "flagsOf st' = flagsOf st" by (subst eq) (simp add: flagsOf_def)
    show "replayTurn (vsHistory st) (segArcKey s) rules m = Inr turn" using turn unfolding st1 .
    show "verifierAddMetrics (vsRecomputed st) expected = Inr (vsRecomputed st')" using a(5) valid unfolding st1 by simp
  qed (use auth version interval cont valid a in auto)
  moreover have "vsViolations st = []" using \<open>vsViolations ?st1 = []\<close> unfolding st1 .
  ultimately show ?thesis by blast
qed

inductive cleanRun for input byArc eligible rules m where
  clean_nil: "cleanRun input byArc eligible rules m st [] st"
| clean_cons: "cleanStep input byArc eligible rules m st s st1 authority arc turn expected \<Longrightarrow>
    cleanRun input byArc eligible rules m st1 segs st' \<Longrightarrow>
    cleanRun input byArc eligible rules m st (s # segs) st'"

lemma replay_clean:
  assumes "foldR (replaySegment input byArc eligible rules m) st segs = Inr st'" and "vsViolations st' = []"
  shows "vsViolations st = [] \<and> cleanRun input byArc eligible rules m st segs st'"
  using assms
proof (induction segs arbitrary: st)
  case (Cons s segs)
  obtain st1 where st1: "replaySegment input byArc eligible rules m st s = Inr st1"
    "foldR (replaySegment input byArc eligible rules m) st1 segs = Inr st'"
    using Cons.prems(1) by (auto simp: bindR_eq_Inr)
  from Cons.IH [OF st1(2) Cons.prems(2)] have run: "cleanRun input byArc eligible rules m st1 segs st'"
    and clean: "vsViolations st1 = []" by auto
  from replaySegment_clean [OF st1(1) clean] show ?case by (blast intro: clean_cons [OF _ run])
qed (simp add: clean_nil)

text \<open>The declarative contract of a replayed segment.\<close>

definition pinnedSegment ::
  "verify_input \<Rightarrow> (js_string \<rightharpoonup> traversal_arc) \<Rightarrow> (js_string \<rightharpoonup> traversal_arc) \<Rightarrow> route_segment \<Rightarrow> bool" where
  "pinnedSegment input byArc eligible s \<longleftrightarrow>
     (\<exists>authority. byArc (segArcKey s) = Some authority \<and> arcGraphVersion authority = segGraphVersion s \<and>
        segGraphVersion s = snapGraphVersion (routingSnapshot (viProblem input))) \<and>
     validInterval (segStart s) (segEnd s) \<and> eligible (segArcKey s) \<noteq> None"

fun drives :: "(js_string \<rightharpoonup> traversal_arc) \<Rightarrow> place \<Rightarrow> route_segment list \<Rightarrow> place \<Rightarrow> bool" where
  "drives net here [] there \<longleftrightarrow> here = there"
| "drives net here (s # segs) there \<longleftrightarrow>
     (case net (segArcKey s) of None \<Rightarrow> False
      | Some arc \<Rightarrow> here = placeOf arc (segStart s) \<and> drives net (placeOf arc (segEnd s)) segs there)"

lemma cleanRun_flags: "cleanRun input byArc eligible rules m st segs st' \<Longrightarrow> flagsOf st' = flagsOf st"
  by (induction rule: cleanRun.induct) (simp_all add: cleanStep_def)

lemma cleanRun_pinned: "cleanRun input byArc eligible rules m st segs st' \<Longrightarrow> s \<in> set segs \<Longrightarrow> pinnedSegment input byArc eligible s"
  by (induction rule: cleanRun.induct) (auto simp: cleanStep_def pinnedSegment_def)

lemma cleanRun_drives:
  assumes "cleanRun input byArc eligible rules m st segs st'" and "segs \<noteq> []"
    and "vsPreviousEnd st = None \<or> vsPreviousEnd st = Some (stateNode (the (byArc (segArcKey (hd segs)))) (segStart (hd segs)))"
  shows "drives byArc (placeOf (the (byArc (segArcKey (hd segs)))) (segStart (hd segs))) segs
    (placeOf (the (byArc (segArcKey (last segs)))) (segEnd (last segs)))"
  using assms
proof (induction rule: cleanRun.induct)
  case (clean_cons st s st1 authority arc turn expected segs st')
  have c: "byArc (segArcKey s) = Some authority" "vsPreviousEnd st1 = Some (stateNode authority (segEnd s))"
    using clean_cons.hyps(1) by (auto simp: cleanStep_def)
  show ?case
  proof (cases segs)
    case Nil
    then show ?thesis using c(1) by simp
  next
    case (Cons t ts)
    from clean_cons.hyps(2) [unfolded Cons] obtain authority' where
      t: "byArc (segArcKey t) = Some authority'" "vsPreviousEnd st1 = Some (stateNode authority' (segStart t))"
      using c(2) by cases (auto simp: cleanStep_def)
    then have "placeOf authority (segEnd s) = placeOf authority' (segStart t)" using c(2) by (simp add: stateNode_place)
    then show ?thesis using clean_cons.IH Cons c t by simp
  qed
qed simp

text \<open>Turns: the penalties along a clean run add up to the charge of its turns.\<close>

lemma replayTurn_outcome:
  assumes wf: "wellFormedRules rules" and legal: "legalTurns rules full"
    and turn: "replayTurn (sliceLast (maximumHistory rules) full) x rules (maximumHistory rules) = Inr a" and "turnValid a"
  shows "legalTurns rules (nextTurn full x)"
    and "turnHistory a = sliceLast (maximumHistory rules) (nextTurn full x)"
    and "turnUnits a = turnCharge rules (nextTurn full x) - turnCharge rules full"
proof -
  let ?m = "maximumHistory rules"
  have "map_sum (\<lambda>_. ()) turnReport (advanceTurn (sliceLast ?m full) x rules ?m) = Inr (turnReport a)"
    using replay_advance [of "sliceLast ?m full" x rules ?m] turn by simp
  then obtain b where b: "advanceTurn (sliceLast ?m full) x rules ?m = Inr b" "turnReport b = turnReport a"
    by (cases "advanceTurn (sliceLast ?m full) x rules ?m") auto
  then obtain c where c: "unboundedTurn full x rules = Inr c" "b = c\<lparr>turnHistory := sliceLast ?m (turnHistory c)\<rparr>"
    by (auto simp: advanceTurn_window [OF wf] bindR_eq_Inr)
  have ab: "turnValid b" "turnUnits b = turnUnits a" "turnHistory b = turnHistory a"
    using b(2) assms(4) by (auto simp: turnReport_def split: if_splits)
  have out: "turnValid c = legalTurns rules (nextTurn full x)"
     "turnValid c \<longrightarrow> turnHistory c = nextTurn full x \<and> turnUnits c = turnCharge rules (nextTurn full x) - turnCharge rules full"
    using unboundedTurn_outcome [OF wf legal, of x] c(1) by auto
  have v: "turnValid c" using ab(1) c(2) by simp
  show "legalTurns rules (nextTurn full x)" using out(1) v by simp
  show "turnHistory a = sliceLast ?m (nextTurn full x)" using ab(3) c(2) out(2) v by simp
  show "turnUnits a = turnCharge rules (nextTurn full x) - turnCharge rules full" using ab(2) c(2) out(2) v by simp
qed

lemma verifierAdd_Inr [simp]: "verifierAdd a b = Inr c \<longleftrightarrow> c = a + b \<and> isSafeInteger (a + b) \<and> 0 \<le> a + b"
  by (auto simp: verifierAdd_def)

lemma addTurnPenalty_values:
  assumes "addTurnPenalty m p = Inr m'"
  shows "metricValues m' = [distanceMm m, durationMs m, riskMicroUnits m, energyMwh m, combinedCostUnits m + p, turnPenalty m + p]"
  using assms by (auto simp: addTurnPenalty_def bindR_eq_Inr metricValues_def turnPenalty_def split: if_splits)

lemma verifierAddMetrics_values:
  assumes "verifierAddMetrics a b = Inr c"
  shows "metricValues c = map2 (+) (metricValues a) (metricValues b)"
  using assms by (auto simp: verifierAddMetrics_def bindR_eq_Inr metricValues_def turnPenalty_def)

section \<open>From a VALID report to its parts\<close>

lemma bindR_InrE: "bindR m f = Inr y \<Longrightarrow> (\<And>x. m = Inr x \<Longrightarrow> f x = Inr y \<Longrightarrow> P) \<Longrightarrow> P"
  by (auto simp: bindR_eq_Inr)

lemma authorityStep_eq: "authorityStep (byArc, vs) a =
  (byArc(arcKey a \<mapsto> a), if byArc (arcKey a) = None then vs
   else vs @ [violationAt DUPLICATE_ARC_IDENTITY (js ''duplicate authority Arc '' @ arcKey a) None])"
  by (simp add: authorityStep_def)

lemma authority_violations:
  "snd (foldl authorityStep (byArc, vs) arcs) = [] \<longleftrightarrow>
     vs = [] \<and> distinct (map arcKey arcs) \<and> (\<forall>a \<in> set arcs. byArc (arcKey a) = None)"
proof (induction arcs arbitrary: byArc vs)
  case (Cons a arcs)
  have upd: "(\<forall>b \<in> set arcs. (byArc(arcKey a \<mapsto> a)) (arcKey b) = None) \<longleftrightarrow>
      arcKey a \<notin> set (map arcKey arcs) \<and> (\<forall>b \<in> set arcs. byArc (arcKey b) = None)"
    by (rule iffI) (simp_all add: image_iff, metis option.distinct(1), metis)
  show ?case
    unfolding foldl_Cons authorityStep_eq Cons.IH upd by simp metis
qed simp

lemma authority_network:
  assumes "distinct (map arcKey arcs)" and "\<forall>a \<in> set arcs. byArc (arcKey a) = None"
  shows "fst (foldl authorityStep (byArc, vs) arcs) k = Some a \<longleftrightarrow>
    byArc k = Some a \<or> (a \<in> set arcs \<and> arcKey a = k)"
  using assms
proof (induction arcs arbitrary: byArc vs)
  case (Cons b arcs)
  have other: "arcKey a \<noteq> arcKey b" if "a \<in> set arcs" for a using Cons.prems(1) that
    by (metis distinct.simps(2) image_eqI list.set_map list.simps(9))
  have none: "\<forall>a \<in> set arcs. (byArc(arcKey b \<mapsto> b)) (arcKey a) = None"
    using Cons.prems(2) other by simp
  have fresh: "byArc (arcKey b) = None" and dis: "distinct (map arcKey arcs)" using Cons.prems by simp_all
  show ?case
    unfolding foldl_Cons authorityStep_eq Cons.IH [OF dis none]
    using fresh other by (auto split: if_splits)
qed simp

lemma eligible_fold:
  assumes "foldR (addEligible policy) eligible arcs = Inr eligible'" and "eligible' k = Some e"
  shows "eligible k = Some e \<or> (\<exists>a \<in> set arcs. arcKey a = k \<and> evaluateArc a policy = Inr (Some e))"
  using assms(1)
proof (induction arcs arbitrary: eligible)
  case Nil
  then show ?case using assms(2) by simp
next
  case (Cons a arcs)
  obtain m where m: "addEligible policy eligible a = Inr m" and rest: "foldR (addEligible policy) m arcs = Inr eligible'"
    using Cons.prems unfolding foldR.simps by (rule bindR_InrE)
  obtain e1 where e1: "evaluateArc a policy = Inr e1"
    and me: "m = (case e1 of None \<Rightarrow> eligible | Some x \<Rightarrow> eligible(arcKey a \<mapsto> x))"
    using m unfolding addEligible_def by (rule bindR_InrE) simp
  from Cons.IH [OF rest] show ?case
  proof
    assume "m k = Some e"
    then show ?thesis using e1 me by (cases e1) (auto split: if_splits)
  next
    assume "\<exists>a \<in> set arcs. arcKey a = k \<and> evaluateArc a policy = Inr (Some e)"
    then show ?thesis by auto
  qed
qed

text \<open>
  The parts of a VALID verification: the authority and eligible networks, the final state of
  the replay and the outcome of the three other checks.
\<close>

definition activeRulesOf :: "verify_input \<Rightarrow> turn_rule list" where
  "activeRulesOf input = activeRules (case viRules input of None \<Rightarrow> [] | Some rs \<Rightarrow> rs) (profileKey (viPolicy input))"

definition validParts ::
  "(js_string \<Rightarrow> js_string) \<Rightarrow> verify_input \<Rightarrow> (js_string \<rightharpoonup> traversal_arc) \<Rightarrow> (js_string \<rightharpoonup> traversal_arc) \<Rightarrow>
     replay_state \<Rightarrow> coverage_figures \<Rightarrow> bool" where
  "validParts sha input byArc eligible st figures \<longleftrightarrow>
     contractSha256 sha (snapshotJson (viCurrentSnapshot input)) = contractSha256 sha (snapshotJson (routingSnapshot (viProblem input))) \<and>
     byArc = fst (foldl authorityStep (Map.empty, []) (viArcs input)) \<and>
     distinct (map arcKey (viArcs input)) \<and>
     foldR (addEligible (viPolicy input)) Map.empty (viArcs input) = Inr eligible \<and>
     cleanRun input byArc eligible (activeRulesOf input) (maximumHistory (activeRulesOf input))
       (replayStart input []) (bodySegments (routeBody (viCandidate input))) st \<and>
     sameMetrics (vsRecomputed st) (bodyMetrics (routeBody (viCandidate input))) \<and>
     verifyEndpoints sha input byArc = Inr (True, True, []) \<and>
     verifyBoundaryPolicy sha input = Inr (True, []) \<and>
     verifyCoverage input byArc = Inr (ratioPpm figures = WHOLE, figures, []) \<and>
     contractSha256 sha (routeBodyJson (routeBody (viCandidate input))) = Inr (routeSignature (viCandidate input))"

lemma digest_Inr: "digest sha v = Inr h \<longleftrightarrow> contractSha256 sha v = Inr h"
  by (cases "contractSha256 sha v") (simp_all add: digest_def)

lemma signReport_body: "signReport sha b = Inr r \<Longrightarrow> reportBody r = b"
  by (auto simp: signReport_def bindR_eq_Inr Let_def)

lemma verifyEndpoints_clean:
  "verifyEndpoints sha input byArc = Inr (s, e, []) \<Longrightarrow> s \<and> e"
  by (auto simp: verifyEndpoints_def bindR_eq_Inr Let_def split: if_splits)

lemma verifyBoundary_clean: "verifyBoundaryPolicy sha input = Inr (b, []) \<Longrightarrow> b"
  by (auto simp: verifyBoundaryPolicy_def bindR_eq_Inr Let_def split: if_splits option.splits)

lemma verifyCoverage_flag: "verifyCoverage input byArc = Inr (c, figures, vs) \<Longrightarrow> c \<longleftrightarrow> ratioPpm figures = WHOLE"
  by (auto simp: verifyCoverage_def bindR_eq_Inr Let_def)

lemma verify_valid:
  assumes run: "verifyCoverageRoute sha input = Inr r" and valid: "reportStatus (reportBody r) = VALID"
  shows "\<exists>byArc eligible st figures. validParts sha input byArc eligible st figures \<and>
    reportBody r = \<lparr>reportStatus = VALID, reportSnapshotHash = reportSnapshotHash (reportBody r),
      reportChecks = \<lparr>chkSnapshot = True, chkArcIdentity = vsArcIdentity st, chkContinuity = vsContinuity st,
          chkDirection = vsDirection st, chkFractions = vsFractions st, chkTurns = vsTurns st,
          chkCoverage = (ratioPpm figures = WHOLE), chkStart = True, chkEnd = True, chkBoundary = True,
          chkProfile = vsProfile st, chkCondition = vsCondition st, chkMetrics = vsMetrics st, chkResultHash = True\<rparr>,
      reportFigures = figures, reportMetrics = vsRecomputed st, reportViolations = []\<rparr>"
  using run unfolding verifyCoverageRoute_def Let_def case_prod_beta activeRulesOf_def [symmetric]
proof (elim bindR_InrE, goal_cases)
  case (1 h1 h2 eligible st ep bp cv rh)
  note body = signReport_body [OF 1(9)]
  from valid have fresh: "h2 = h1" and vs: "vsViolations st = []"
    and total: "sameMetrics (vsRecomputed st) (bodyMetrics (routeBody (viCandidate input)))"
    and rest: "snd (snd ep) = []" "snd bp = []" "snd (snd cv) = []" "rh = routeSignature (viCandidate input)"
    unfolding body by (auto split: if_splits)
  let ?net = "foldl authorityStep (Map.empty, []) (viArcs input)"
  note run = 1(4) [unfolded fresh simp_thms if_False]
  from replay_clean [OF run vs] have start: "vsViolations (replayStart input (snd ?net)) = []"
    and clean: "cleanRun input (fst ?net) eligible (activeRulesOf input) (maximumHistory (activeRulesOf input))
       (replayStart input (snd ?net)) (bodySegments (routeBody (viCandidate input))) st" by simp_all
  have net: "snd ?net = []" using start by (simp add: replayStart_def)
  obtain s e where ep: "ep = (s, e, [])" using rest(1) by (cases ep) auto
  obtain b where bp: "bp = (b, [])" using rest(2) by (cases bp) auto
  obtain c figures where cv: "cv = (c, figures, [])" using rest(3) by (cases cv) auto
  have ends: "s" "e" using verifyEndpoints_clean [of sha input "fst ?net" s e] 1(5) unfolding ep fresh by simp_all
  have bound: "b" using verifyBoundary_clean [of sha input b] 1(6) unfolding bp by simp
  have cov: "c = (ratioPpm figures = WHOLE)" using verifyCoverage_flag [of input "fst ?net" c figures "[]"] 1(7) unfolding cv fresh by simp
  have "validParts sha input (fst ?net) eligible st figures"
    unfolding validParts_def
  proof (intro conjI)
    show "distinct (map arcKey (viArcs input))" using net authority_violations [of Map.empty "[]" "viArcs input"] by simp
    show "verifyEndpoints sha input (fst ?net) = Inr (True, True, [])" using 1(5) ends unfolding ep fresh by simp
    show "verifyBoundaryPolicy sha input = Inr (True, [])" using 1(6) bound unfolding bp by simp
    show "verifyCoverage input (fst ?net) = Inr (ratioPpm figures = WHOLE, figures, [])" using 1(7) cov unfolding cv fresh by simp
    show "contractSha256 sha (routeBodyJson (routeBody (viCandidate input))) = Inr (routeSignature (viCandidate input))"
      using 1(8) rest(4) by (simp add: digest_Inr)
    show "contractSha256 sha (snapshotJson (viCurrentSnapshot input)) =
      contractSha256 sha (snapshotJson (routingSnapshot (viProblem input)))" using 1(1,2) fresh by (simp add: digest_Inr)
  qed (use 1(3) clean total net in simp_all)
  moreover have "reportBody r = \<lparr>reportStatus = VALID, reportSnapshotHash = reportSnapshotHash (reportBody r),
      reportChecks = \<lparr>chkSnapshot = True, chkArcIdentity = vsArcIdentity st, chkContinuity = vsContinuity st,
          chkDirection = vsDirection st, chkFractions = vsFractions st, chkTurns = vsTurns st,
          chkCoverage = (ratioPpm figures = WHOLE), chkStart = True, chkEnd = True, chkBoundary = True,
          chkProfile = vsProfile st, chkCondition = vsCondition st, chkMetrics = vsMetrics st, chkResultHash = True\<rparr>,
      reportFigures = figures, reportMetrics = vsRecomputed st, reportViolations = []\<rparr>"
    unfolding body using fresh vs total rest(4) ends bound cov ep bp cv by simp
  ultimately show ?case by blast
qed

lemma supported_report [simp]: "supported (JObj (reportEntries b))" "supported (reportJson b identity)"
  by (auto simp: reportEntries_def reportJson_def violationJson_def optionalEntry_def split: option.splits)

section \<open>Coverage of the obligations\<close>

lemma fewestPasses_min:
  assumes "fewestPasses obl service ps best = Some m" and "sorted_wrt (<) ps"
  shows "(\<forall>b. best = Some b \<longrightarrow> m \<le> b) \<and>
    (\<forall>xs p q ys. ps = xs @ p # q # ys \<longrightarrow> m \<le> passesOver obl service p q) \<and>
    (best = Some m \<or> (\<exists>xs p q ys. ps = xs @ p # q # ys \<and> m = passesOver obl service p q))"
  using assms
proof (induction obl service ps best rule: fewestPasses.induct)
  case (1 obl service p q ps best)
  let ?n = "passesOver obl service p q"
  have "p < q" using 1(3) by simp
  then have step: "fewestPasses obl service (q # ps) (Some (case best of None \<Rightarrow> ?n | Some b \<Rightarrow> min b ?n)) = Some m"
    using 1(2) by simp
  have IH: "m \<le> (case best of None \<Rightarrow> ?n | Some b \<Rightarrow> min b ?n) \<and>
    (\<forall>xs p' q' ys. q # ps = xs @ p' # q' # ys \<longrightarrow> m \<le> passesOver obl service p' q') \<and>
    ((case best of None \<Rightarrow> ?n | Some b \<Rightarrow> min b ?n) = m \<or> (\<exists>xs p' q' ys. q # ps = xs @ p' # q' # ys \<and> m = passesOver obl service p' q'))"
    using 1(1) \<open>p < q\<close> step 1(3) by simp
  have small: "m \<le> ?n" "\<And>b. best = Some b \<Longrightarrow> m \<le> b" using IH by (auto split: option.splits)
  moreover have "m \<le> passesOver obl service p' q'" if "p # q # ps = xs @ p' # q' # ys" for xs p' q' ys
    using that small(1) IH by (cases xs) auto
  moreover have "best = Some m \<or> (\<exists>xs p' q' ys. p # q # ps = xs @ p' # q' # ys \<and> m = passesOver obl service p' q')"
  proof -
    from IH consider "best = Some m" | "m = ?n" | "\<exists>xs p' q' ys. q # ps = xs @ p' # q' # ys \<and> m = passesOver obl service p' q'"
      by (cases best) (auto simp: min_def split: if_splits)
    then show ?thesis
    proof cases
      case 2
      then show ?thesis by (intro disjI2 exI [of _ "[]"]) auto
    next
      case 3
      then show ?thesis by (metis append_Cons)
    qed simp
  qed
  ultimately show ?case by blast
qed auto

lemma between_points:
  assumes "sorted_wrt (<) ps" and "ps \<noteq> []" and "hd ps \<le> (x :: int)" and "x < last ps"
  shows "\<exists>xs p q ys. ps = xs @ p # q # ys \<and> p \<le> x \<and> x < q"
  using assms
proof (induction ps)
  case (Cons p ps)
  then obtain q qs where ps: "ps = q # qs" by (cases ps) auto
  show ?case
  proof (cases "x < q")
    case True
    then show ?thesis using Cons.prems ps by (intro exI [of _ "[]"]) auto
  next
    case False
    then have "\<exists>xs p q ys. ps = xs @ p # q # ys \<and> p \<le> x \<and> x < q" using Cons ps by (intro Cons.IH) auto
    then show ?thesis by (metis append_Cons)
  qed
qed simp

lemma boundaryPoints_sorted: "sorted_wrt (<) (boundaryPoints obl service)"
  by (simp add: boundaryPoints_def strict_sorted_iff)

lemma set_boundaryPoints:
  "set (boundaryPoints obl service) = {v. oblStart obl \<le> v \<and> v \<le> oblEnd obl \<and>
     (v \<in> {oblStart obl, oblEnd obl} \<or> (\<exists>s \<in> set (onArc obl service). v = max (oblStart obl) (segStart s) \<or> v = min (oblEnd obl) (segEnd s)))}"
  unfolding boundaryPoints_def set_sort set_filter set_remdups set_append set_concat set_map image_image list.set by blast

lemma boundaryPoints_ends:
  assumes "oblStart obl < oblEnd obl"
  shows "boundaryPoints obl service \<noteq> []" and "hd (boundaryPoints obl service) = oblStart obl"
    and "last (boundaryPoints obl service) = oblEnd obl"
proof -
  let ?ps = "boundaryPoints obl service"
  have mem: "oblStart obl \<in> set ?ps" "oblEnd obl \<in> set ?ps" and bnd: "\<And>v. v \<in> set ?ps \<Longrightarrow> oblStart obl \<le> v \<and> v \<le> oblEnd obl"
    using assms by (auto simp: set_boundaryPoints)
  show ne: "?ps \<noteq> []" using mem by auto
  have sorted: "sorted ?ps" using boundaryPoints_sorted strict_sorted_iff by blast
  have "hd ?ps \<le> oblStart obl" using sorted mem(1) ne by (cases ?ps) auto
  then show "hd ?ps = oblStart obl" using bnd [of "hd ?ps"] ne by auto
  have "oblEnd obl \<le> last ?ps" using sorted mem(2) by (cases ?ps rule: rev_cases) (auto simp: sorted_append)
  then show "last ?ps = oblEnd obl" using bnd [of "last ?ps"] ne by auto
qed

lemma passesOver_mono:
  assumes "p \<le> p'" and "q' \<le> q"
  shows "passesOver obl service p q \<le> passesOver obl service p' q'"
proof -
  have "length (filter (\<lambda>s. segStart s \<le> p \<and> q \<le> segEnd s) ss) \<le> length (filter (\<lambda>s. segStart s \<le> p' \<and> q' \<le> segEnd s) ss)" for ss :: "route_segment list"
    using assms by (induction ss) auto
  then show ?thesis by (simp add: passesOver_def)
qed

text \<open>Between two consecutive points the segments that cover one position cover all of them.\<close>

lemma passesOver_constant:
  assumes ps: "boundaryPoints obl service = xs @ p # q # ys" and x: "p \<le> x" "x < q"
  shows "passesOver obl service x (x + 1) = passesOver obl service p q"
proof -
  have sorted: "sorted_wrt (<) (xs @ p # q # ys)" using boundaryPoints_sorted [of obl service] ps by simp
  have gap: "v \<le> p \<or> q \<le> v" if "v \<in> set (boundaryPoints obl service)" for v
    using that sorted unfolding ps by (auto simp: sorted_wrt_append)
  have pq: "p \<in> set (boundaryPoints obl service)" "q \<in> set (boundaryPoints obl service)" unfolding ps by auto
  have rng: "oblStart obl \<le> p" "q \<le> oblEnd obl" using pq by (auto simp: set_boundaryPoints)
  have "(segStart s \<le> x \<and> x + 1 \<le> segEnd s) = (segStart s \<le> p \<and> q \<le> segEnd s)" if s: "s \<in> set (onArc obl service)" for s
  proof
    assume c: "segStart s \<le> x \<and> x + 1 \<le> segEnd s"
    have "max (oblStart obl) (segStart s) \<in> set (boundaryPoints obl service)"
      using s c x rng unfolding set_boundaryPoints by auto
    moreover have "min (oblEnd obl) (segEnd s) \<in> set (boundaryPoints obl service)"
      using s c x rng unfolding set_boundaryPoints by auto
    ultimately show "segStart s \<le> p \<and> q \<le> segEnd s" using gap c x rng by fastforce
  next
    assume "segStart s \<le> p \<and> q \<le> segEnd s"
    then show "segStart s \<le> x \<and> x + 1 \<le> segEnd s" using x by auto
  qed
  then have "filter (\<lambda>s. segStart s \<le> x \<and> x + 1 \<le> segEnd s) (onArc obl service) =
      filter (\<lambda>s. segStart s \<le> p \<and> q \<le> segEnd s) (onArc obl service)" by (intro filter_cong) auto
  then show ?thesis by (simp add: passesOver_def)
qed

lemma actualPasses_exact:
  assumes "oblStart obl < oblEnd obl"
  shows "(\<forall>x. oblStart obl \<le> x \<and> x < oblEnd obl \<longrightarrow> actualPasses obl service \<le> passesOver obl service x (x + 1)) \<and>
    (\<exists>x. oblStart obl \<le> x \<and> x < oblEnd obl \<and> actualPasses obl service = passesOver obl service x (x + 1))"
proof -
  let ?ps = "boundaryPoints obl service"
  note ends = boundaryPoints_ends [OF assms, of service]
  have cut: "\<exists>xs p q ys. ?ps = xs @ p # q # ys \<and> p \<le> x \<and> x < q" if "oblStart obl \<le> x" "x < oblEnd obl" for x
    using between_points [OF boundaryPoints_sorted ends(1)] that ends by simp
  obtain a p0 q0 b where first: "?ps = a @ p0 # q0 # b" using cut [of "oblStart obl"] assms by auto
  have some: "fewestPasses obl service (a @ p # q # b) best \<noteq> None" if "p < q" for a p q b best
    using that
  proof (induction a arbitrary: best)
    case Nil
    have "fewestPasses obl service qs (Some c) \<noteq> None" for qs c
      by (induction obl service qs "Some c" arbitrary: c rule: fewestPasses.induct) auto
    then show ?case using Nil by simp
  next
    case (Cons r a)
    then show ?case by (cases a) auto
  qed
  have "p0 < q0" using boundaryPoints_sorted [of obl service] unfolding first by (auto simp: sorted_wrt_append)
  then obtain m where m: "fewestPasses obl service ?ps None = Some m" using some unfolding first by blast
  then have act: "actualPasses obl service = m" by (simp add: actualPasses_def)
  note min = fewestPasses_min [OF m boundaryPoints_sorted]
  show ?thesis
  proof (intro conjI allI impI)
    fix x assume x: "oblStart obl \<le> x \<and> x < oblEnd obl"
    then obtain xs p q ys where "?ps = xs @ p # q # ys" "p \<le> x" "x < q" using cut by blast
    then show "actualPasses obl service \<le> passesOver obl service x (x + 1)"
      using min passesOver_constant act by metis
  next
    obtain xs p q ys where pq: "?ps = xs @ p # q # ys" "m = passesOver obl service p q" using min by auto
    have "p < q" using boundaryPoints_sorted [of obl service] unfolding pq by (auto simp: sorted_wrt_append)
    moreover have "p \<in> set ?ps" "q \<in> set ?ps" unfolding pq by auto
    then have "oblStart obl \<le> p" "q \<le> oblEnd obl" by (auto simp: set_boundaryPoints)
    ultimately show "\<exists>x. oblStart obl \<le> x \<and> x < oblEnd obl \<and> actualPasses obl service = passesOver obl service x (x + 1)"
      using passesOver_constant [OF pq(1), of p] act pq(2) by (intro exI [of _ p]) auto
  qed
qed

lemma coverObligation_clean:
  assumes run: "coverObligation input net st obl = Inr st'" and clean: "cvViolations st' = []"
  shows "cvViolations st = [] \<and>
    (cvCovered st = cvTotal st \<and> cvCoveredLength st = cvRequiredLength st \<and> 0 \<le> cvTotal st \<and> 0 \<le> cvRequiredLength st \<longrightarrow>
     cvCovered st' = cvTotal st' \<and> cvCoveredLength st' = cvRequiredLength st' \<and> 0 \<le> cvTotal st' \<and> 0 \<le> cvRequiredLength st') \<and>
    (net (oblArcKey obl) \<noteq> None \<longrightarrow>
       requiredPasses obl \<le> actualPasses obl (serviceOf (viCandidate input) obl) \<and>
       (\<forall>s \<in> set (serviceOf (viCandidate input) obl). segArcKey s = oblArcKey obl))"
proof (cases "net (oblArcKey obl)")
  case None
  then show ?thesis using assms by (simp add: coverObligation_def)
next
  case (Some arc)
  let ?service = "serviceOf (viCandidate input) obl"
  let ?actual = "actualPasses obl ?service"
  show ?thesis
    using run unfolding coverObligation_def Some option.case Let_def
  proof (elim bindR_InrE, goal_cases)
    case (1 t c need rl got cl)
    have st': "cvTotal st' = t" "cvCovered st' = c" "cvRequiredLength st' = rl" "cvCoveredLength st' = cl"
      and vs: "cvViolations st = []" "arcMismatches obl ?service = []" "\<not> ?actual < requiredPasses obl"
      using 1(7) clean by (auto split: if_splits)
    have min: "min ?actual (requiredPasses obl) = requiredPasses obl" using vs(3) by simp
    have "need = got" using 1(3,5) unfolding min by simp
    then show ?case using 1(1,2,4,6) vs st' unfolding min by (auto simp: arcMismatches_def filter_empty_conv)
  qed
qed

lemma cover_clean:
  assumes "foldR (coverObligation input net) st obls = Inr st'" and "cvViolations st' = []"
  shows "cvViolations st = [] \<and>
    (cvCovered st = cvTotal st \<and> cvCoveredLength st = cvRequiredLength st \<and> 0 \<le> cvTotal st \<and> 0 \<le> cvRequiredLength st \<longrightarrow>
     cvCovered st' = cvTotal st' \<and> cvCoveredLength st' = cvRequiredLength st' \<and> 0 \<le> cvTotal st' \<and> 0 \<le> cvRequiredLength st') \<and>
    (\<forall>obl \<in> set obls. net (oblArcKey obl) \<noteq> None \<longrightarrow>
       requiredPasses obl \<le> actualPasses obl (serviceOf (viCandidate input) obl) \<and>
       (\<forall>s \<in> set (serviceOf (viCandidate input) obl). segArcKey s = oblArcKey obl))"
  using assms(1)
proof (induction obls arbitrary: st)
  case Nil
  then show ?case using assms(2) by simp
next
  case (Cons obl obls)
  obtain st1 where st1: "coverObligation input net st obl = Inr st1" "foldR (coverObligation input net) st1 obls = Inr st'"
    using Cons.prems unfolding foldR.simps by (rule bindR_InrE)
  note ih = Cons.IH [OF st1(2)]
  then have "cvViolations st1 = []" by blast
  from coverObligation_clean [OF st1(1) this] ih show ?case by simp
qed

lemma ratio_self: "0 \<le> n \<Longrightarrow> ratio n n = WHOLE"
  by (auto simp: ratio_def bigDiv_nonneg WHOLE_def isSafeInteger_def maxSafeInteger_def)

lemma verifyCoverage_clean:
  assumes "verifyCoverage input net = Inr (c, figures, [])"
  shows "ratioPpm figures = WHOLE \<and> lengthRatioPpm figures = WHOLE \<and> coveredLength figures = requiredLength figures \<and>
    (\<forall>obl \<in> set (obligations (viProblem input)). net (oblArcKey obl) \<noteq> None \<longrightarrow>
       requiredPasses obl \<le> actualPasses obl (serviceOf (viCandidate input) obl) \<and>
       (\<forall>s \<in> set (serviceOf (viCandidate input) obl). segArcKey s = oblArcKey obl))"
  using assms unfolding verifyCoverage_def Let_def
proof (elim bindR_InrE, goal_cases)
  case (1 st)
  then have vs: "cvViolations st = []" by simp
  from cover_clean [OF 1(1) vs] 1(2) ratio_self [of "cvTotal st"] ratio_self [of "cvRequiredLength st"]
  show ?case by auto
qed

lemma cleanRun_all_flags:
  assumes "validParts sha input byArc eligible st figures"
  shows "flagsOf st = replicate 8 True"
proof -
  have "flagsOf st = flagsOf (replayStart input [])" using assms cleanRun_flags unfolding validParts_def by blast
  then show ?thesis by (simp add: flagsOf_def replayStart_def numeral_eq_Suc)
qed

text \<open>The status says exactly whether there are violations, and a VALID report passes every check.\<close>

lemma valid_report:
  assumes "verifyCoverageRoute sha input = Inr r" and "reportStatus (reportBody r) = VALID"
  shows "reportViolations (reportBody r) = [] \<and> (\<forall>(k, passed) \<in> set (checkValues (reportChecks (reportBody r))). passed) \<and>
    ratioPpm (reportFigures (reportBody r)) = WHOLE \<and>
    coveredLength (reportFigures (reportBody r)) = requiredLength (reportFigures (reportBody r))"
proof -
  obtain byArc eligible st figures where parts: "validParts sha input byArc eligible st figures"
    and body: "reportBody r = \<lparr>reportStatus = VALID, reportSnapshotHash = reportSnapshotHash (reportBody r),
      reportChecks = \<lparr>chkSnapshot = True, chkArcIdentity = vsArcIdentity st, chkContinuity = vsContinuity st,
          chkDirection = vsDirection st, chkFractions = vsFractions st, chkTurns = vsTurns st,
          chkCoverage = (ratioPpm figures = WHOLE), chkStart = True, chkEnd = True, chkBoundary = True,
          chkProfile = vsProfile st, chkCondition = vsCondition st, chkMetrics = vsMetrics st, chkResultHash = True\<rparr>,
      reportFigures = figures, reportMetrics = vsRecomputed st, reportViolations = []\<rparr>"
    using verify_valid [OF assms] by blast
  have flags: "flagsOf st = replicate 8 True" using parts by (rule cleanRun_all_flags)
  have cover: "ratioPpm figures = WHOLE \<and> coveredLength figures = requiredLength figures"
    using parts verifyCoverage_clean [of input byArc] unfolding validParts_def by blast
  have "reportViolations (reportBody r) = []" "reportFigures (reportBody r) = figures" by (subst body, simp)+
  moreover have "\<forall>(k, passed) \<in> set (checkValues (reportChecks (reportBody r))). passed"
    by (subst body) (use flags cover in \<open>simp add: checkValues_def flagsOf_def numeral_eq_Suc\<close>)
  ultimately show ?thesis using cover by simp
qed

lemma signReport_hash: "signReport sha b = Inr r \<Longrightarrow>
    reportBody r = b \<and> digest sha (reportJson b (verificationId r)) = Inr (reportHash r)"
  by (auto simp: signReport_def bindR_eq_Inr Let_def)

lemma report_facts:
  assumes "verifyCoverageRoute sha input = Inr r"
  shows "(reportStatus (reportBody r) = VALID \<longleftrightarrow> reportViolations (reportBody r) = []) \<and>
    digest sha (reportJson (reportBody r) (verificationId r)) = Inr (reportHash r)"
  using assms unfolding verifyCoverageRoute_def Let_def case_prod_beta
proof (elim bindR_InrE, goal_cases)
  case (1 h1 h2 eligible st ep bp cv rh)
  note signed = signReport_hash [OF 1(9)]
  note start = 1(4)
  have "vsViolations st \<noteq> []" if stale: "h2 \<noteq> h1"
  proof
    assume "vsViolations st = []"
    from replay_clean [OF start this] authority_violations have "h2 = h1"
      by (auto simp: replayStart_def split: if_splits)
    then show False using stale by simp
  qed
  then show ?case using signed by (auto split: if_splits)
qed

lemma admission_iff:
  "(\<exists>a. admitVerifiedCoverageRoute sha route v = Inr a) \<longleftrightarrow>
     reportStatus (reportBody v) = VALID \<and>
     (\<forall>(k, passed) \<in> set (checkValues (reportChecks (reportBody v))). passed) \<and>
     digest sha (reportJson (reportBody v) (verificationId v)) = Inr (reportHash v) \<and>
     digest sha (routeBodyJson (routeBody route)) = Inr (routeSignature route)"
proof -
  have "supported (JObj [(js ''routeSignature'', JStr (routeSignature route)), (js ''reportHash'', JStr (reportHash v))])"
    by simp
  from contractSha256_ok [OF this] obtain t where
    "digest sha (JObj [(js ''routeSignature'', JStr (routeSignature route)), (js ''reportHash'', JStr (reportHash v))]) = Inr t"
    unfolding digest_Inr by blast
  then show ?thesis by (auto simp: admitVerifiedCoverageRoute_def bindR_eq_Inr ensureR_def)
qed

lemma verified_admission:
  assumes run: "verifyCoverageRoute sha input = Inr r"
  shows "(reportStatus (reportBody r) = VALID \<longleftrightarrow> reportViolations (reportBody r) = []) \<and>
    ((\<exists>a. admitVerifiedCoverageRoute sha (viCandidate input) r = Inr a) \<longleftrightarrow> reportStatus (reportBody r) = VALID)"
proof -
  have "digest sha (routeBodyJson (routeBody (viCandidate input))) = Inr (routeSignature (viCandidate input))"
    if "reportStatus (reportBody r) = VALID"
    using verify_valid [OF run that] unfolding validParts_def digest_Inr by blast
  then show ?thesis using report_facts [OF run] valid_report [OF run] unfolding admission_iff by blast
qed

section \<open>The drive\<close>

definition networkOf :: "verify_input \<Rightarrow> js_string \<rightharpoonup> traversal_arc" where
  "networkOf input = map_of (map (\<lambda>a. (arcKey a, a)) (viArcs input))"

lemma authority_networkOf:
  assumes "distinct (map arcKey (viArcs input))"
  shows "fst (foldl authorityStep (Map.empty, []) (viArcs input)) = networkOf input"
proof (rule ext)
  fix k
  have "distinct (map fst (map (\<lambda>a. (arcKey a, a)) (viArcs input)))" using assms by (simp add: comp_def)
  then have "networkOf input k = Some a \<longleftrightarrow> a \<in> set (viArcs input) \<and> arcKey a = k" for a
    unfolding networkOf_def by (auto simp: map_of_eq_Some_iff)
  moreover have "fst (foldl authorityStep (Map.empty, []) (viArcs input)) k = Some a \<longleftrightarrow> a \<in> set (viArcs input) \<and> arcKey a = k" for a
    using authority_network [OF assms, of Map.empty "[]" k a] by simp
  ultimately show "fst (foldl authorityStep (Map.empty, []) (viArcs input)) k = networkOf input k"
    by (metis not_None_eq)
qed

text \<open>A segment that may be driven: a proper interval of a pinned arc the policy and conditions permit.\<close>

definition permitted :: "verify_input \<Rightarrow> route_segment \<Rightarrow> bool" where
  "permitted input s \<longleftrightarrow>
     validInterval (segStart s) (segEnd s) \<and>
     segGraphVersion s = snapGraphVersion (routingSnapshot (viProblem input)) \<and>
     (case networkOf input (segArcKey s) of None \<Rightarrow> False
      | Some arc \<Rightarrow> arcGraphVersion arc = segGraphVersion s \<and> traversalAllowed arc \<noteq> Some False \<and>
          profileEligible arc (viPolicy input))"

lemma pinned_permitted:
  assumes pinned: "pinnedSegment input (networkOf input) eligible s"
    and eligible: "foldR (addEligible (viPolicy input)) Map.empty (viArcs input) = Inr eligible"
    and distinct: "distinct (map arcKey (viArcs input))"
  shows "permitted input s"
proof -
  obtain e where e: "eligible (segArcKey s) = Some e" using pinned by (auto simp: pinnedSegment_def)
  from eligible_fold [OF eligible this] obtain a where a: "a \<in> set (viArcs input)" "arcKey a = segArcKey s"
    "evaluateArc a (viPolicy input) = Inr (Some e)" by auto
  have net: "networkOf input (segArcKey s) = Some a"
    using a distinct unfolding networkOf_def by (intro map_of_is_SomeI) (auto simp: comp_def image_iff)
  have "traversalAllowed a \<noteq> Some False \<and> profileEligible a (viPolicy input)"
    using a(3) by (auto simp: evaluateArc_def split: if_splits)
  then show ?thesis using pinned net by (auto simp: permitted_def pinnedSegment_def)
qed

lemma stateMeets_Some:
  "stateMeets net (Some st) node \<longleftrightarrow>
     (\<exists>arc n. net (stateArcKey st) = Some arc \<and> node = Some n \<and> n = Some (stateNode arc (stateFraction st)))"
  by (auto simp: stateMeets_def split: option.splits)

lemma endpoints_met:
  assumes "verifyEndpoints sha input net = Inr (True, True, [])"
  shows "\<exists>e. expectedEnd input = Some e \<and>
    stateMeets net (Some (startState (viProblem input))) (map_option (\<lambda>s. segmentStartNode s net) (itemAt (bodySegments (routeBody (viCandidate input))) 0)) \<and>
    stateMeets net (Some e) (map_option (\<lambda>s. segmentEndNode s net) (lastOf (bodySegments (routeBody (viCandidate input))))) \<and>
    sameDigest sha (stateJson (bodyStartState (routeBody (viCandidate input)))) (stateJson (startState (viProblem input))) = Inr True \<and>
    sameDigest sha (stateJson (bodyEndState (routeBody (viCandidate input)))) (stateJson e) = Inr True"
  using assms unfolding verifyEndpoints_def Let_def
proof (elim bindR_InrE, goal_cases)
  case (1 s e)
  then show ?case by (cases "expectedEnd input") (auto split: if_splits)
qed

lemma verified_drive:
  assumes run: "verifyCoverageRoute sha input = Inr r" and valid: "reportStatus (reportBody r) = VALID"
  shows "distinct (map arcKey (viArcs input)) \<and>
    (\<forall>s \<in> set (bodySegments (routeBody (viCandidate input))). permitted input s) \<and>
    (\<exists>e startArc endArc. networkOf input (stateArcKey (startState (viProblem input))) = Some startArc \<and>
       expectedEnd input = Some e \<and> networkOf input (stateArcKey e) = Some endArc \<and>
       bodySegments (routeBody (viCandidate input)) \<noteq> [] \<and>
       drives (networkOf input) (placeOf startArc (stateFraction (startState (viProblem input))))
         (bodySegments (routeBody (viCandidate input))) (placeOf endArc (stateFraction e)))"
proof -
  let ?segs = "bodySegments (routeBody (viCandidate input))" and ?net = "networkOf input"
  obtain byArc eligible st figures where parts: "validParts sha input byArc eligible st figures"
    using verify_valid [OF run valid] by blast
  have distinct: "distinct (map arcKey (viArcs input))" using parts unfolding validParts_def by blast
  have net: "byArc = ?net" using parts authority_networkOf [OF distinct] unfolding validParts_def by simp
  have clean: "cleanRun input ?net eligible (activeRulesOf input) (maximumHistory (activeRulesOf input)) (replayStart input []) ?segs st"
    and elig: "foldR (addEligible (viPolicy input)) Map.empty (viArcs input) = Inr eligible"
    and ends: "verifyEndpoints sha input ?net = Inr (True, True, [])"
    using parts unfolding validParts_def net by blast+
  have allowed: "\<forall>s \<in> set ?segs. permitted input s"
    using pinned_permitted [OF cleanRun_pinned [OF clean] elig distinct] by blast
  obtain e where e: "expectedEnd input = Some e"
      "stateMeets ?net (Some (startState (viProblem input))) (map_option (\<lambda>s. segmentStartNode s ?net) (itemAt ?segs 0))"
      "stateMeets ?net (Some e) (map_option (\<lambda>s. segmentEndNode s ?net) (lastOf ?segs))"
    using endpoints_met [OF ends] by blast
  have ne: "?segs \<noteq> []" using e(2) by (auto simp: stateMeets_Some itemAt_def)
  obtain startArc arc where a: "?net (stateArcKey (startState (viProblem input))) = Some startArc" "?net (segArcKey (hd ?segs)) = Some arc"
      "placeOf arc (segStart (hd ?segs)) = placeOf startArc (stateFraction (startState (viProblem input)))"
    using e(2) ne by (auto simp: stateMeets_Some itemAt_def segmentStartNode_def nodeAt_def stateNode_place hd_conv_nth)
  obtain endArc arc' where b: "?net (stateArcKey e) = Some endArc" "?net (segArcKey (last ?segs)) = Some arc'"
      "placeOf arc' (segEnd (last ?segs)) = placeOf endArc (stateFraction e)"
    using e(3) ne by (auto simp: stateMeets_Some lastOf_def segmentEndNode_def nodeAt_def stateNode_place)
  have "drives ?net (placeOf arc (segStart (hd ?segs))) ?segs (placeOf arc' (segEnd (last ?segs)))"
    using cleanRun_drives [OF clean ne] a(2) b(2) by (simp add: replayStart_def)
  then show ?thesis using distinct allowed a b e(1) ne by auto
qed

section \<open>Service\<close>

text \<open>How often a route passes the piece \<open>x\<close> (a millionth) of an obligation's arc while serving it.\<close>

definition timesServed :: "route_segment list \<Rightarrow> obligation \<Rightarrow> int \<Rightarrow> int" where
  "timesServed segs obl x = int (length (filter (\<lambda>s. segRole s = SERVICE \<and> segArcKey s = oblArcKey obl \<and>
     (case segObligationIds s of None \<Rightarrow> False | Some ids \<Rightarrow> obligationId obl \<in> set ids) \<and>
     segStart s \<le> x \<and> x < segEnd s) segs))"

lemma timesServed_passes:
  "passesOver obl (serviceOf route obl) x (x + 1) = timesServed (bodySegments (routeBody route)) obl x"
  unfolding passesOver_def timesServed_def onArc_def serviceOf_def filter_filter
  by (intro arg_cong [of _ _ "\<lambda>xs. int (length xs)"] filter_cong) auto

lemma verified_service:
  assumes run: "verifyCoverageRoute sha input = Inr r" and valid: "reportStatus (reportBody r) = VALID"
    and obl: "obl \<in> set (obligations (viProblem input))" "networkOf input (oblArcKey obl) \<noteq> None"
    and x: "oblStart obl \<le> x" "x < oblEnd obl"
  shows "requiredPasses obl \<le> timesServed (bodySegments (routeBody (viCandidate input))) obl x"
proof -
  obtain byArc eligible st figures where parts: "validParts sha input byArc eligible st figures"
    using verify_valid [OF run valid] by blast
  then have "byArc = networkOf input" using authority_networkOf unfolding validParts_def by blast
  then have "verifyCoverage input (networkOf input) = Inr (ratioPpm figures = WHOLE, figures, [])"
    using parts unfolding validParts_def by blast
  from verifyCoverage_clean [OF this] obl have "requiredPasses obl \<le> actualPasses obl (serviceOf (viCandidate input) obl)" by blast
  also have "\<dots> \<le> passesOver obl (serviceOf (viCandidate input) obl) x (x + 1)" using actualPasses_exact [of obl] x by auto
  finally show ?thesis by (simp only: timesServed_passes)
qed

section \<open>Turns and totals\<close>

text \<open>The share of an arc's quantity that a segment uses, as the code cuts it and exactly.\<close>

definition cutOf :: "route_segment \<Rightarrow> int \<Rightarrow> int" where
  "cutOf s v = toNumber (sliceValue (segStart s) (segEnd s) v)"

definition portion :: "route_segment \<Rightarrow> int \<Rightarrow> int" where
  "portion s v = v * segEnd s div WHOLE - v * segStart s div WHOLE"

lemma cutOf_zero [simp]: "cutOf s 0 = 0"
  by (simp add: cutOf_def sliceValue_def bigDiv_def toNumber_def)

lemma cutOf_portion: "validInterval (segStart s) (segEnd s) \<Longrightarrow> nonNegativeSafe v \<Longrightarrow> cutOf s v = portion s v"
  using slice_valid [of v "segStart s" "segEnd s"]
  by (auto simp: validInterval_def cutOf_def portion_def slice_def nonNegativeSafe_def split: if_splits)

lemma foldl_nextTurn_Cons: "foldl nextTurn full (map f (s # ss)) = foldl nextTurn (nextTurn full (f s)) (map f ss)"
  by simp

lemma cleanRun_totals:
  assumes "cleanRun input byArc eligible rules (maximumHistory rules) st segs st'" and "wellFormedRules rules"
    and "legalTurns rules full" and "vsHistory st = sliceLast (maximumHistory rules) full"
  defines "arc \<equiv> \<lambda>s. arcMetrics (the (eligible (segArcKey s)))"
    and "turns \<equiv> foldl nextTurn full (map segArcKey segs)"
  shows "legalTurns rules turns \<and>
    distanceMm (vsRecomputed st') = distanceMm (vsRecomputed st) + (\<Sum>s\<leftarrow>segs. cutOf s (distanceMm (arc s))) \<and>
    energyMwh (vsRecomputed st') = energyMwh (vsRecomputed st) + (\<Sum>s\<leftarrow>segs. cutOf s (energyMwh (arc s))) \<and>
    combinedCostUnits (vsRecomputed st') = combinedCostUnits (vsRecomputed st) +
      (\<Sum>s\<leftarrow>segs. cutOf s (combinedCostUnits (arc s))) + (turnCharge rules turns - turnCharge rules full) \<and>
    turnPenalty (vsRecomputed st') = turnPenalty (vsRecomputed st) +
      (\<Sum>s\<leftarrow>segs. cutOf s (turnPenalty (arc s))) + (turnCharge rules turns - turnCharge rules full)"
  using assms(1,3,4) unfolding arc_def turns_def
proof (induction arbitrary: full rule: cleanRun.induct)
  case (clean_cons st s st1 authority a turn expected segs st')
  have c: "eligible (segArcKey s) = Some a" "replayTurn (vsHistory st) (segArcKey s) rules (maximumHistory rules) = Inr turn" "turnValid turn"
    "vsHistory st1 = turnHistory turn"
    "addTurnPenalty (verifierSlice (arcMetrics a) (segStart s) (segEnd s)) (turnUnits turn) = Inr expected"
    "verifierAddMetrics (vsRecomputed st) expected = Inr (vsRecomputed st1)"
    using clean_cons.hyps(1) unfolding cleanStep_def by blast+
  note turn = replayTurn_outcome [OF assms(2) clean_cons.prems(1) c(2) [unfolded clean_cons.prems(2)] c(3)]
  note ih = clean_cons.IH [OF turn(1) turn(2) [folded c(4)]]
  have quantities: "distanceMm (vsRecomputed st1) = distanceMm (vsRecomputed st) + cutOf s (distanceMm (arcMetrics a))"
    "energyMwh (vsRecomputed st1) = energyMwh (vsRecomputed st) + cutOf s (energyMwh (arcMetrics a))"
    "combinedCostUnits (vsRecomputed st1) = combinedCostUnits (vsRecomputed st) + (cutOf s (combinedCostUnits (arcMetrics a)) + turnUnits turn)"
    "turnPenalty (vsRecomputed st1) = turnPenalty (vsRecomputed st) + (cutOf s (turnPenalty (arcMetrics a)) + turnUnits turn)"
    using verifierAddMetrics_values [OF c(6)] addTurnPenalty_values [OF c(5)]
    by (simp_all add: metricValues_def verifierSlice_def cutOf_def Let_def turnPenalty_def)
  show ?case using ih unfolding quantities turn(3) by (simp add: c(1))
qed simp

lemma cleanRun_segment_sums:
  "cleanRun input byArc eligible rules m st segs st' \<Longrightarrow>
    distanceMm (vsRecomputed st') = distanceMm (vsRecomputed st) + (\<Sum>s\<leftarrow>segs. distanceMm (segMetrics s)) \<and>
    durationMs (vsRecomputed st') = durationMs (vsRecomputed st) + (\<Sum>s\<leftarrow>segs. durationMs (segMetrics s)) \<and>
    riskMicroUnits (vsRecomputed st') = riskMicroUnits (vsRecomputed st) + (\<Sum>s\<leftarrow>segs. riskMicroUnits (segMetrics s)) \<and>
    energyMwh (vsRecomputed st') = energyMwh (vsRecomputed st) + (\<Sum>s\<leftarrow>segs. energyMwh (segMetrics s)) \<and>
    combinedCostUnits (vsRecomputed st') = combinedCostUnits (vsRecomputed st) + (\<Sum>s\<leftarrow>segs. combinedCostUnits (segMetrics s)) \<and>
    turnPenalty (vsRecomputed st') = turnPenalty (vsRecomputed st) + (\<Sum>s\<leftarrow>segs. turnPenalty (segMetrics s))"
proof (induction rule: cleanRun.induct)
  case (clean_cons st s st1 authority a turn expected segs st')
  have c: "sameMetrics expected (segMetrics s)" "verifierAddMetrics (vsRecomputed st) expected = Inr (vsRecomputed st1)"
    using clean_cons.hyps(1) unfolding cleanStep_def by blast+
  show ?case using clean_cons.IH verifierAddMetrics_values [OF c(2)] c(1)
    by (simp add: metricValues_def sameMetrics_def)
qed simp

lemma evaluateArc_metrics:
  assumes "evaluateArc a policy = Inr (Some e)"
  shows "distanceMm (arcMetrics e) = distanceMm (arcMetrics a) \<and> energyMwh (arcMetrics e) = energyMwh (arcMetrics a) \<and>
    turnPenalty (arcMetrics e) = 0 \<and>
    combinedCostUnits (arcMetrics e) = combinedCostUnits (arcMetrics a) + (case conditionPenaltyUnits a of None \<Rightarrow> 0 | Some p \<Rightarrow> p) \<and>
    nonNegativeSafe (distanceMm (arcMetrics a)) \<and> nonNegativeSafe (energyMwh (arcMetrics a)) \<and>
    nonNegativeSafe (combinedCostUnits (arcMetrics e))"
  using assms
  by (auto simp: evaluateArc_def bindR_eq_Inr Let_def metricValues_def turnPenalty_def nonNegativeSafe_def split: if_splits)

text \<open>The rules as a route from the start state meets them.\<close>

definition turnsFromStart :: "verify_input \<Rightarrow> js_string list" where
  "turnsFromStart input =
     foldl nextTurn (if stateFraction (startState (viProblem input)) = WHOLE then [stateArcKey (startState (viProblem input))] else [])
       (map segArcKey (bodySegments (routeBody (viCandidate input))))"

definition arcOf :: "verify_input \<Rightarrow> route_segment \<Rightarrow> traversal_arc" where
  "arcOf input s = the (networkOf input (segArcKey s))"

definition costOf :: "traversal_arc \<Rightarrow> int" where
  "costOf arc = combinedCostUnits (arcMetrics arc) + (case conditionPenaltyUnits arc of None \<Rightarrow> 0 | Some p \<Rightarrow> p)"

lemma initial_history:
  assumes "wellFormedRules rules"
  shows "legalTurns rules [] \<and> legalTurns rules [x] \<and> turnCharge rules [x] = 0 \<and> sliceLast (maximumHistory rules) [x] = [x]"
proof -
  have long: "\<not> suffix (arcSequence r) [x]" if "r \<in> set rules" for r
    using assms that suffix_length_le [of "arcSequence r" "[x]"] by (fastforce simp: wellFormedRules_def)
  have nil: "legalTurns rules []" using wellFormedRules_nonempty [OF assms] by (auto simp: legalTurns_def)
  then have "legalTurns rules [x]" using legalTurns_snoc [OF assms, of "[]" x] long by auto
  moreover have "chargeAt rules [x] = (\<Sum>r\<leftarrow>rules. 0)"
    unfolding chargeAt_def using long by (intro arg_cong [of _ _ sum_list] map_cong refl) auto
  then have "chargeAt rules [x] = 0" by simp
  then have "turnCharge rules [x] = 0" using turnCharge_snoc [of rules "[]" x] by simp
  moreover have "sliceLast (maximumHistory rules) [x] = [x]" using maximumHistory_pos [of rules] by (simp add: sliceLast_def)
  ultimately show ?thesis using nil by blast
qed

lemma verified_sums:
  assumes run: "verifyCoverageRoute sha input = Inr r" and valid: "reportStatus (reportBody r) = VALID"
    and wf: "wellFormedRules (activeRulesOf input)"
  defines "segs \<equiv> bodySegments (routeBody (viCandidate input))" and "totals \<equiv> bodyMetrics (routeBody (viCandidate input))"
    and "charge \<equiv> turnCharge (activeRulesOf input) (turnsFromStart input)"
  shows "legalTurns (activeRulesOf input) (turnsFromStart input) \<and>
    distanceMm totals = (\<Sum>s\<leftarrow>segs. portion s (distanceMm (arcMetrics (arcOf input s)))) \<and>
    energyMwh totals = (\<Sum>s\<leftarrow>segs. portion s (energyMwh (arcMetrics (arcOf input s)))) \<and>
    combinedCostUnits totals = (\<Sum>s\<leftarrow>segs. portion s (costOf (arcOf input s))) + charge \<and>
    turnPenalty totals = charge \<and>
    durationMs totals = (\<Sum>s\<leftarrow>segs. durationMs (segMetrics s)) \<and>
    riskMicroUnits totals = (\<Sum>s\<leftarrow>segs. riskMicroUnits (segMetrics s))"
proof -
  obtain byArc eligible st figures where parts: "validParts sha input byArc eligible st figures"
    using verify_valid [OF run valid] by blast
  have distinct: "distinct (map arcKey (viArcs input))" using parts unfolding validParts_def by blast
  have net: "byArc = networkOf input" using parts authority_networkOf [OF distinct] unfolding validParts_def by simp
  let ?rules = "activeRulesOf input"
  have clean: "cleanRun input (networkOf input) eligible ?rules (maximumHistory ?rules) (replayStart input []) segs st"
    and elig: "foldR (addEligible (viPolicy input)) Map.empty (viArcs input) = Inr eligible"
    and same: "sameMetrics (vsRecomputed st) totals"
    using parts unfolding validParts_def net segs_def totals_def by blast+
  define start where "start = (if stateFraction (startState (viProblem input)) = WHOLE
    then [stateArcKey (startState (viProblem input))] else [])"
  have init: "legalTurns ?rules start" "turnCharge ?rules start = 0" "vsHistory (replayStart input []) = sliceLast (maximumHistory ?rules) start"
    using initial_history [OF wf] by (auto simp: start_def replayStart_def sliceLast_def)
  note sums = cleanRun_totals [OF clean wf init(1,3)] cleanRun_segment_sums [OF clean]
  have arc: "cutOf s (distanceMm (arcMetrics (the (eligible (segArcKey s))))) = portion s (distanceMm (arcMetrics (arcOf input s))) \<and>
      cutOf s (energyMwh (arcMetrics (the (eligible (segArcKey s))))) = portion s (energyMwh (arcMetrics (arcOf input s))) \<and>
      cutOf s (combinedCostUnits (arcMetrics (the (eligible (segArcKey s))))) = portion s (costOf (arcOf input s)) \<and>
      cutOf s (turnPenalty (arcMetrics (the (eligible (segArcKey s))))) = 0" if s: "s \<in> set segs" for s
  proof -
    have pinned: "pinnedSegment input (networkOf input) eligible s" using cleanRun_pinned [OF clean s] .
    then have int: "validInterval (segStart s) (segEnd s)" by (simp add: pinnedSegment_def)
    obtain e where e: "eligible (segArcKey s) = Some e" using pinned by (auto simp: pinnedSegment_def)
    from eligible_fold [OF elig this] obtain a where a: "a \<in> set (viArcs input)" "arcKey a = segArcKey s"
      "evaluateArc a (viPolicy input) = Inr (Some e)" by auto
    have "networkOf input (segArcKey s) = Some a"
      using a distinct unfolding networkOf_def by (intro map_of_is_SomeI) (auto simp: comp_def image_iff)
    then have arc: "arcOf input s = a" by (simp add: arcOf_def)
    note m = evaluateArc_metrics [OF a(3)]
    then have cost: "combinedCostUnits (arcMetrics e) = costOf a" by (simp add: costOf_def)
    have "nonNegativeSafe (costOf a)" using m unfolding cost by blast
    then show ?thesis using m cutOf_portion [OF int] cost by (simp add: e arc)
  qed
  have swap: "(\<Sum>s\<leftarrow>segs. f s) = (\<Sum>s\<leftarrow>segs. g s)" if "\<And>s. s \<in> set segs \<Longrightarrow> f s = (g s :: int)" for f g
    using that by (intro arg_cong [of _ _ sum_list] map_cong) auto
  have zero: "(\<Sum>s\<leftarrow>segs. cutOf s (turnPenalty (arcMetrics (the (eligible (segArcKey s)))))) = (\<Sum>s\<leftarrow>segs. 0)"
    using arc by (intro swap) blast
  have total_eqs: "distanceMm totals = distanceMm (vsRecomputed st)" "durationMs totals = durationMs (vsRecomputed st)"
    "riskMicroUnits totals = riskMicroUnits (vsRecomputed st)" "energyMwh totals = energyMwh (vsRecomputed st)"
    "combinedCostUnits totals = combinedCostUnits (vsRecomputed st)" "turnPenalty totals = turnPenalty (vsRecomputed st)"
    using same by (simp_all add: sameMetrics_def metricValues_def)
  have turns: "foldl nextTurn start (map segArcKey segs) = turnsFromStart input"
    by (simp add: turnsFromStart_def start_def segs_def)
  have fresh: "vsRecomputed (replayStart input []) = ZERO_METRICS" by (simp add: replayStart_def)
  show ?thesis
    unfolding charge_def total_eqs
    using sums [unfolded turns init(2) fresh zero]
      swap [OF arc [THEN conjunct1]] swap [OF arc [THEN conjunct2, THEN conjunct1]]
      swap [OF arc [THEN conjunct2, THEN conjunct2, THEN conjunct1]]
    by (simp add: ZERO_METRICS_def turnPenalty_def)
qed

section \<open>A verified route\<close>

definition townArc :: "string \<Rightarrow> string \<Rightarrow> string \<Rightarrow> int \<Rightarrow> traversal_arc" where
  "townArc k u v d = \<lparr>arcGraphVersion = js ''g1'', arcKey = js k, fromNodeKey = js u, toNodeKey = js v,
     arcDirection = FORWARD, arcMetrics = \<lparr>distanceMm = d, durationMs = d, riskMicroUnits = 0, energyMwh = d,
       combinedCostUnits = d, turnPenaltyUnits = None\<rparr>, arcFeature = None, roadClass = None, surface = None,
     accessMask = None, traversalAllowed = None, speedMmPerS = None, speedOverrideMmPerS = None,
     riskOverrideMicroUnits = None, conditionPenaltyUnits = None\<rparr>"

definition townState :: "string \<Rightarrow> int \<Rightarrow> directed_state" where
  "townState k f = \<lparr>stateArcKey = js k, stateDirection = FORWARD, stateFraction = f, stateHeading = None,
     stateFeature = None\<rparr>"

definition townSnapshot :: routing_snapshot where
  "townSnapshot = \<lparr>snapGraphVersion = js ''g1'', snapGraphContentHash = [], snapCostProfileVersion = [],
     snapCostContentHash = [], snapTravelProfileVersion = [], snapDatasetVersion = [], snapCapturedAt = None,
     snapConditionContentHash = None, snapConditionSnapshotId = None, snapSourceWorldVersion = None\<rparr>"

definition townObligation :: "string \<Rightarrow> string \<Rightarrow> int \<Rightarrow> int \<Rightarrow> int \<Rightarrow> obligation" where
  "townObligation i k s e n = \<lparr>obligationId = js i, oblGraphVersion = js ''g1'', oblEdgeKey = None, oblArcKey = js k,
     oblStart = s, oblEnd = e, requiredPasses = n, selectionPolicyVersion = None, oblAreaReference = None,
     oblFeatureReference = \<lparr>refNamespace = [], refKind = [], refId = [], refVersion = []\<rparr>, oblContentHash = []\<rparr>"

definition townProblem :: "obligation list \<Rightarrow> coverage_problem" where
  "townProblem obls = \<lparr>routingSnapshot = townSnapshot, startState = townState ''ab'' 0, fixedEndState = None,
     entryStates = None, exitStates = None, endpointMode = RETURN_TO_START, boundaryCrossingPolicy = FREE,
     obligations = obls, budgets = \<lparr>timeLimitMs = 1000, maximumCandidates = 1, maximumMatrixCells = 100\<rparr>\<rparr>"

definition townMetrics :: "int \<Rightarrow> int \<Rightarrow> fixed_metrics" where
  "townMetrics d p = \<lparr>distanceMm = d, durationMs = d, riskMicroUnits = 0, energyMwh = d,
     combinedCostUnits = d + p, turnPenaltyUnits = Some p\<rparr>"

definition townSegment :: "nat \<Rightarrow> string \<Rightarrow> int \<Rightarrow> int \<Rightarrow> service_role \<Rightarrow> string list \<Rightarrow> fixed_metrics \<Rightarrow> route_segment" where
  "townSegment n k s e role ids m = \<lparr>segSequence = n, segGraphVersion = js ''g1'', segArcKey = js k, segStart = s, segEnd = e,
     segPhase = INSIDE_PHASE, segRole = role, segObligationIds = Some (map js ids), segFeature = None, segMetrics = m\<rparr>"

definition townInput :: verify_input where
  "townInput = \<lparr>viProblem = townProblem [townObligation ''o1'' ''ba'' 250000 750000 1],
     viCandidate = \<lparr>routeBody = \<lparr>bodyStartState = townState ''ab'' 0, bodyEndState = townState ''ab'' 0,
         bodySegments = [townSegment 1 ''ab'' 0 WHOLE DEADHEAD [] (townMetrics 8 0),
           townSegment 2 ''ba'' 0 WHOLE SERVICE [''o1''] (townMetrics 10 5)],
         bodyBoundaryEvents = None, bodyMetrics = townMetrics 18 5\<rparr>, routeSignature = js ''sha256:''\<rparr>,
     viCurrentSnapshot = townSnapshot, viArcs = [townArc ''ab'' ''A'' ''B'' 8, townArc ''ba'' ''B'' ''A'' 10],
     viPolicy = \<lparr>profileKey = js ''p'', allowedRoadClasses = None, allowedSurfaces = None, requiredAccessMask = None,
       maximumSpeedMmPerS = None\<rparr>,
     viRules = Some [sampleRule ''r'' PENALTY [''ab'', ''ba''] (Some 5)], viBoundaryEvents = None, viStartInside = None\<rparr>"

lemma town_verified: "\<exists>r. verifyCoverageRoute (\<lambda>_. []) townInput = Inr r \<and> reportStatus (reportBody r) = VALID"
proof -
  have digests: "digest (\<lambda>_. []) v = Inr (js ''sha256:'')" if "supported v" for v
    using contractSha256_constant [OF that, of "[]"] by (simp add: digest_def)
  let ?net = "foldl authorityStep (Map.empty, []) (viArcs townInput)"
  let ?rules = "activeRulesOf townInput"
  have parts: "(case foldR (addEligible (viPolicy townInput)) Map.empty (viArcs townInput) of Inl _ \<Rightarrow> False
      | Inr eligible \<Rightarrow> case foldR (replaySegment townInput (fst ?net) eligible ?rules (maximumHistory ?rules))
            (replayStart townInput (snd ?net)) (bodySegments (routeBody (viCandidate townInput))) of Inl _ \<Rightarrow> False
         | Inr st \<Rightarrow> vsViolations st = [] \<and> sameMetrics (vsRecomputed st) (bodyMetrics (routeBody (viCandidate townInput))))"
    by code_simp
  have cover: "case verifyCoverage townInput (fst ?net) of Inl _ \<Rightarrow> False | Inr (c, figures, vs) \<Rightarrow> vs = []" by code_simp
  have met: "stateMeets (fst ?net) (Some (startState (viProblem townInput)))
      (map_option (\<lambda>s. segmentStartNode s (fst ?net)) (itemAt (bodySegments (routeBody (viCandidate townInput))) 0)) \<and>
    stateMeets (fst ?net) (expectedEnd townInput)
      (map_option (\<lambda>s. segmentEndNode s (fst ?net)) (lastOf (bodySegments (routeBody (viCandidate townInput)))))"
    by code_simp
  obtain eligible st where st: "foldR (addEligible (viPolicy townInput)) Map.empty (viArcs townInput) = Inr eligible"
      "foldR (replaySegment townInput (fst ?net) eligible ?rules (maximumHistory ?rules))
         (replayStart townInput (snd ?net)) (bodySegments (routeBody (viCandidate townInput))) = Inr st"
      "vsViolations st = []" "sameMetrics (vsRecomputed st) (bodyMetrics (routeBody (viCandidate townInput)))"
    using parts by (auto split: sum.splits)
  obtain c figures where cov: "verifyCoverage townInput (fst ?net) = Inr (c, figures, [])" using cover by (auto split: sum.splits)
  have ends: "verifyEndpoints (\<lambda>_. []) townInput (fst ?net) = Inr (True, True, [])"
  proof -
    have "sameDigest (\<lambda>_. []) (stateJson (bodyStartState (routeBody (viCandidate townInput)))) (stateJson (startState (viProblem townInput))) = Inr True"
      "expectedEnd townInput = Some (startState (viProblem townInput))"
      "sameDigest (\<lambda>_. []) (stateJson (bodyEndState (routeBody (viCandidate townInput)))) (stateJson (startState (viProblem townInput))) = Inr True"
      by (simp_all add: sameDigest_def digests expectedEnd_def) (simp add: townInput_def townProblem_def)
    then show ?thesis using met by (simp add: verifyEndpoints_def Let_def)
  qed
  have bound: "verifyBoundaryPolicy (\<lambda>_. []) townInput = Inr (True, [])"
    by (simp add: verifyBoundaryPolicy_def townInput_def townProblem_def Let_def)
  have snaps: "viCurrentSnapshot townInput = routingSnapshot (viProblem townInput)" by (simp add: townInput_def townProblem_def)
  have body: "digest (\<lambda>_. []) (routeBodyJson (routeBody (viCandidate townInput))) = Inr (routeSignature (viCandidate townInput))"
    using digests [of "routeBodyJson (routeBody (viCandidate townInput))"] by (simp add: supported_routeBody) (simp add: townInput_def)
  have sign: "\<exists>r. signReport (\<lambda>_. []) b = Inr r \<and> reportStatus (reportBody r) = VALID" if "reportStatus b = VALID" for b
    using that by (simp add: signReport_def digests [OF supported_report(1)] digests [OF supported_report(2)] Let_def)
  show ?thesis
    unfolding verifyCoverageRoute_def Let_def case_prod_beta activeRulesOf_def [symmetric] snaps
      digests [OF supported_documents(4)] bindR_Inr simp_thms if_False st(1,2) ends bound cov body fst_conv snd_conv
    using st(3,4) by (simp add: st(2) sign)
qed

section \<open>Properties\<close>

text \<open>
  C20. The verifier's verdict and admission: a report says VALID exactly when it lists no violation, and
  then every one of its fourteen checks has passed and the coverage ratio is exactly one million
  (required and covered length agree); and a route that has been verified is admitted with its
  report exactly when the report says VALID: for such a pair no digest of the admission fails.
\<close>

theorem verdict_and_admission:
  assumes "verifyCoverageRoute sha input = Inr r"
  shows "(reportStatus (reportBody r) = VALID \<longleftrightarrow> reportViolations (reportBody r) = []) \<and>
    ((\<exists>a. admitVerifiedCoverageRoute sha (viCandidate input) r = Inr a) \<longleftrightarrow> reportStatus (reportBody r) = VALID) \<and>
    (reportStatus (reportBody r) = VALID \<longrightarrow>
      (\<forall>(k, passed) \<in> set (checkValues (reportChecks (reportBody r))). passed) \<and>
      ratioPpm (reportFigures (reportBody r)) = WHOLE \<and>
      coveredLength (reportFigures (reportBody r)) = requiredLength (reportFigures (reportBody r)))"
  using verified_admission [OF assms] valid_report [OF assms] by blast

lemma verdict_and_admission_witness:
  "\<exists>r a. verifyCoverageRoute (\<lambda>_. []) townInput = Inr r \<and> reportViolations (reportBody r) = [] \<and>
     admitVerifiedCoverageRoute (\<lambda>_. []) (viCandidate townInput) r = Inr a"
proof -
  obtain r where r: "verifyCoverageRoute (\<lambda>_. []) townInput = Inr r" "reportStatus (reportBody r) = VALID"
    using town_verified by blast
  then show ?thesis using verdict_and_admission [OF r(1)] by blast
qed

text \<open>
  C3. A verified route is a permitted, connected drive from the start state to the required end:
  arc keys are unique, every segment is a proper interval of an arc of the pinned graph version
  that the travel policy and the conditions permit, each segment starts at the place where the
  previous one ended, the first at the place of the problem's start state and the last ends at
  the place the endpoint mode demands.
\<close>

theorem verified_route_drives:
  assumes "verifyCoverageRoute sha input = Inr r" and "reportStatus (reportBody r) = VALID"
  shows "distinct (map arcKey (viArcs input)) \<and>
    (\<forall>s \<in> set (bodySegments (routeBody (viCandidate input))). permitted input s) \<and>
    (\<exists>e startArc endArc. networkOf input (stateArcKey (startState (viProblem input))) = Some startArc \<and>
       expectedEnd input = Some e \<and> networkOf input (stateArcKey e) = Some endArc \<and>
       bodySegments (routeBody (viCandidate input)) \<noteq> [] \<and>
       drives (networkOf input) (placeOf startArc (stateFraction (startState (viProblem input))))
         (bodySegments (routeBody (viCandidate input))) (placeOf endArc (stateFraction e)))"
  by (rule verified_drive [OF assms])

lemma verified_route_drives_witness:
  "\<exists>arc. drives (networkOf townInput) (placeOf arc 0) (bodySegments (routeBody (viCandidate townInput))) (placeOf arc 0)"
proof -
  obtain r where r: "verifyCoverageRoute (\<lambda>_. []) townInput = Inr r" "reportStatus (reportBody r) = VALID"
    using town_verified by blast
  have "expectedEnd townInput = Some (startState (viProblem townInput))" "stateFraction (startState (viProblem townInput)) = 0"
    by (simp_all add: expectedEnd_def townInput_def townProblem_def townState_def)
  then show ?thesis using verified_route_drives [OF r] by auto
qed

text \<open>
  C5. A verified route serves every obligation completely: each millionth of the obligation's
  interval, on whose arc the network has an authority, lies on at least as many service segments
  of that arc claiming the obligation as passes are required.
\<close>

theorem verified_route_serves:
  assumes "verifyCoverageRoute sha input = Inr r" and "reportStatus (reportBody r) = VALID"
    and "obl \<in> set (obligations (viProblem input))" and "networkOf input (oblArcKey obl) \<noteq> None"
    and "oblStart obl \<le> x" and "x < oblEnd obl"
  shows "requiredPasses obl \<le> timesServed (bodySegments (routeBody (viCandidate input))) obl x"
  by (rule verified_service [OF assms])

lemma verified_route_serves_witness:
  "1 \<le> timesServed (bodySegments (routeBody (viCandidate townInput))) (townObligation ''o1'' ''ba'' 250000 750000 1) 600000"
proof -
  obtain r where r: "verifyCoverageRoute (\<lambda>_. []) townInput = Inr r" "reportStatus (reportBody r) = VALID"
    using town_verified by blast
  let ?o = "townObligation ''o1'' ''ba'' 250000 750000 1"
  have "?o \<in> set (obligations (viProblem townInput))" by (simp add: townInput_def townProblem_def)
  moreover have "networkOf townInput (oblArcKey ?o) \<noteq> None"
    by (simp add: networkOf_def townInput_def townArc_def townObligation_def)
  moreover have "oblStart ?o = 250000" "oblEnd ?o = 750000" "requiredPasses ?o = 1" by (simp_all add: townObligation_def)
  ultimately show ?thesis using verified_route_serves [OF r, of ?o 600000] by simp
qed

text \<open>
  C8. The turns and totals of a verified route are exact: no forbidden sequence and no
  non-admitted successor occurs in it, distance and energy are the sums of the floor-cut shares
  of the arcs it uses, its cost is the sum of the shares of the arcs' costs (condition penalties
  included) plus the penalties of all penalised turns from the start state on, and durations and
  risks add up over the segments.  Assumed: every rule that applies names at least two arcs, as the
  solver's own validation demands.
\<close>

theorem verified_route_totals:
  assumes "verifyCoverageRoute sha input = Inr r" and "reportStatus (reportBody r) = VALID"
    and "wellFormedRules (activeRulesOf input)"
  shows "let segs = bodySegments (routeBody (viCandidate input)); m = bodyMetrics (routeBody (viCandidate input));
      charge = turnCharge (activeRulesOf input) (turnsFromStart input) in
    legalTurns (activeRulesOf input) (turnsFromStart input) \<and>
    distanceMm m = (\<Sum>s\<leftarrow>segs. portion s (distanceMm (arcMetrics (arcOf input s)))) \<and>
    energyMwh m = (\<Sum>s\<leftarrow>segs. portion s (energyMwh (arcMetrics (arcOf input s)))) \<and>
    combinedCostUnits m = (\<Sum>s\<leftarrow>segs. portion s (costOf (arcOf input s))) + charge \<and>
    turnPenalty m = charge \<and>
    durationMs m = (\<Sum>s\<leftarrow>segs. durationMs (segMetrics s)) \<and>
    riskMicroUnits m = (\<Sum>s\<leftarrow>segs. riskMicroUnits (segMetrics s))"
  using verified_sums [OF assms] by (simp only: Let_def)

lemma verified_route_totals_witness:
  "legalTurns (activeRulesOf townInput) (turnsFromStart townInput) \<and>
   turnCharge (activeRulesOf townInput) (turnsFromStart townInput) = 5"
proof -
  obtain r where r: "verifyCoverageRoute (\<lambda>_. []) townInput = Inr r" "reportStatus (reportBody r) = VALID"
    using town_verified by blast
  have "wellFormedRules (activeRulesOf townInput)"
    by (simp add: activeRulesOf_def activeRules_def wellFormedRules_def townInput_def sampleRule_def)
  from verified_route_totals [OF r this] show ?thesis
    by (simp add: Let_def) (simp add: townInput_def townMetrics_def turnPenalty_def)
qed

end
