(* ===== verification/DcppSoundness.thy ===== *)
theory DcppSoundness
  imports ClosedDcpp VerifierSoundness
begin

text \<open>
  What the closed solver of \<open>closed-dcpp.ts\<close> returns: a walk that drives every obligation as often
  as required, laid down in pieces whose metrics add up exactly.
\<close>

section \<open>Validated networks\<close>

lemma admitArc_fold:
  assumes "foldR (admitArc problem) seen arcs = Inr keys"
  shows "keys = seen @ map arcKey arcs \<and> (\<forall>k \<in> set seen. \<forall>a \<in> set arcs. arcKey a \<noteq> k) \<and> distinct (map arcKey arcs) \<and>
    (\<forall>a \<in> set arcs. arcGraphVersion a = snapGraphVersion (routingSnapshot problem) \<and>
       (\<forall>v \<in> set (metricValues (arcMetrics a)). nonNegativeSafe v))"
  using assms
proof (induction arcs arbitrary: seen)
  case (Cons a arcs)
  obtain seen' where s: "admitArc problem seen a = Inr seen'" "foldR (admitArc problem) seen' arcs = Inr keys"
    using Cons.prems unfolding foldR.simps by (rule bindR_InrE)
  have "seen' = seen @ [arcKey a]" "arcKey a \<notin> set seen"
    "arcGraphVersion a = snapGraphVersion (routingSnapshot problem)" "\<forall>v \<in> set (metricValues (arcMetrics a)). nonNegativeSafe v"
    using s(1) by (auto simp: admitArc_def bindR_eq_Inr)
  then show ?case using Cons.IH [OF s(2)] by auto
qed simp

lemma admitObligation_fold:
  assumes "foldR (admitObligation problem byArc) seen obls = Inr keys"
  shows "keys = seen @ map oblArcKey obls \<and> (\<forall>k \<in> set seen. \<forall>b \<in> set obls. oblArcKey b \<noteq> k) \<and> distinct (map oblArcKey obls) \<and>
    (\<forall>b \<in> set obls. oblArcKey b \<in> set byArc \<and> oblStart b = 0 \<and> oblEnd b = WHOLE)"
  using assms
proof (induction obls arbitrary: seen)
  case (Cons a obls)
  obtain seen' where s: "admitObligation problem byArc seen a = Inr seen'" "foldR (admitObligation problem byArc) seen' obls = Inr keys"
    using Cons.prems unfolding foldR.simps by (rule bindR_InrE)
  have "seen' = seen @ [oblArcKey a]" "oblArcKey a \<notin> set seen" "oblArcKey a \<in> set byArc" "oblStart a = 0" "oblEnd a = WHOLE"
    using s(1) by (auto simp: admitObligation_def bindR_eq_Inr)
  then show ?case using Cons.IH [OF s(2)] by auto
qed simp

text \<open>The input a solver accepts: one whole-arc obligation for every arc of a valid network.\<close>

definition postmanInput :: "coverage_problem \<Rightarrow> traversal_arc list \<Rightarrow> bool" where
  "postmanInput problem arcs \<longleftrightarrow> arcs \<noteq> [] \<and> distinct (map arcKey arcs) \<and>
     (\<forall>a \<in> set arcs. arcGraphVersion a = snapGraphVersion (routingSnapshot problem) \<and>
       (\<forall>v \<in> set (metricValues (arcMetrics a)). nonNegativeSafe v)) \<and>
     distinct (map oblArcKey (obligations problem)) \<and>
     set (map oblArcKey (obligations problem)) = set (map arcKey arcs) \<and>
     (\<forall>obl \<in> set (obligations problem). oblStart obl = 0 \<and> oblEnd obl = WHOLE) \<and>
     validFraction (stateFraction (startState problem)) \<and>
     (case fixedEndState problem of None \<Rightarrow> True | Some s \<Rightarrow> validFraction (stateFraction s))"

lemma validated_input:
  assumes "validateGraphAndObligations problem input = Inr arcs"
  shows "arcs = byArcKey input \<and> postmanInput problem arcs"
  using assms unfolding validateGraphAndObligations_def Let_def
proof (elim bindR_InrE, goal_cases)
  case (1 u keys oks u' u'' u''')
  note a = admitArc_fold [OF 1(2)] and b = admitObligation_fold [OF 1(3)]
  have "set (map oblArcKey (obligations problem)) = set (map arcKey (byArcKey input))" using a b 1(4) by auto
  then show ?case using a b 1 by (auto simp: postmanInput_def byArcKey_def)
qed

lemma obligationsByArc_lookup:
  assumes "distinct (map oblArcKey (obligations problem))"
  shows "obligationsByArc problem k = Some obl \<longleftrightarrow> obl \<in> set (obligations problem) \<and> oblArcKey obl = k"
proof -
  have fold: "foldl (\<lambda>m obl. m(oblArcKey obl \<mapsto> obl)) m obls k = Some obl \<longleftrightarrow>
      (obl \<in> set obls \<and> oblArcKey obl = k) \<or> (k \<notin> oblArcKey ` set obls \<and> m k = Some obl)"
    if "distinct (map oblArcKey obls)" for m obls
    using that
  proof (induction obls arbitrary: m)
    case (Cons o1 obls)
    show ?case using Cons.IH [of "m(oblArcKey o1 \<mapsto> o1)"] Cons.prems by (auto split: if_splits)
  qed simp
  show ?thesis using fold [OF assms, of Map.empty] by (simp add: obligationsByArc_def)
qed

section \<open>The traversals\<close>

definition requiredOf :: "(js_string \<rightharpoonup> obligation) \<Rightarrow> traversal_arc \<Rightarrow> traversal_instance list" where
  "requiredOf byArc arc = (case byArc (arcKey arc) of None \<Rightarrow> []
     | Some obl \<Rightarrow> map (requiredInstance arc obl) [1..<nat (requiredPasses obl) + 1])"

lemma requireArc_fold:
  assumes "foldR (requireArc byArc) (base, balance) arcs = Inr (base', balance')"
  shows "base' = base @ concat (map (requiredOf byArc) arcs)"
  using assms
proof (induction arcs arbitrary: base balance)
  case (Cons a arcs)
  obtain r where r: "requireArc byArc (base, balance) a = Inr r" "foldR (requireArc byArc) r arcs = Inr (base', balance')"
    using Cons.prems unfolding foldR.simps by (rule bindR_InrE)
  obtain b1 bal1 where b: "r = (b1, bal1)" by (cases r)
  have "b1 = base @ requiredOf byArc a"
    using r(1) by (auto simp: b requireArc_def getBang_def bindR_eq_Inr requiredOf_def Let_def split: option.splits)
  then show ?case using Cons.IH [OF r(2) [unfolded b]] by simp
qed simp

lemma connectorPaths_arcs:
  assumes cost: "nonNegativeCosts arcs" and run: "connectorPaths arcs supplies demands clock = Inr (paths, rest)"
  shows "\<forall>k p. paths k = Some p \<longrightarrow> set (pathArcs p) \<subseteq> set arcs"
proof -
  have path: "arc_path arcs u p w \<Longrightarrow> set p \<subseteq> set arcs" for u p w by (induction rule: arc_path.induct) auto
  have "\<forall>k p. fst (paths, rest) k = Some p \<longrightarrow> set (pathArcs p) \<subseteq> set arcs"
  proof (rule foldR_invariant [OF run [unfolded connectorPaths_def], where P = "\<lambda>s. \<forall>k p. fst s k = Some p \<longrightarrow> set (pathArcs p) \<subseteq> set arcs"])
    fix s x t assume inv: "\<forall>k p. fst s k = Some p \<longrightarrow> set (pathArcs p) \<subseteq> set arcs" and step: "connectorStep arcs s x = Inr t"
    obtain m c where s: "s = (m, c)" by (cases s)
    obtain sup dem where x: "x = (sup, dem)" by (cases x)
    obtain c' p c'' where p: "shortestPath arcs (imbNode sup) (imbNode dem) c' = Inr (p, c'')"
      and t: "t = (m(pairKey (imbNode sup) (imbNode dem) \<mapsto> p), c'')"
      using step by (auto simp: connectorStep_def s x bindR_eq_Inr)
    have "set (pathArcs p) \<subseteq> set arcs" using shortestPath_correct [OF cost, of "imbNode sup" "imbNode dem" c'] p path by auto
    then show "\<forall>k p. fst t k = Some p \<longrightarrow> set (pathArcs p) \<subseteq> set arcs" using inv by (auto simp: s t)
  qed simp
  then show ?thesis by simp
qed

lemma augmentBalance_duplicates:
  assumes cost: "nonNegativeCosts arcs"
    and run: "augmentBalance problem arcs balance idsOf clock = Inr (supplies, demands, items, duplicates, clock')"
  shows "\<forall>i \<in> set duplicates. instArc i \<in> set arcs \<and> instRole i = DUPLICATE_SERVICE"
  using run unfolding augmentBalance_def Let_def case_prod_beta
proof (elim bindR_InrE, goal_cases)
  case (1 u r1 r2 dups)
  obtain paths c where r1: "r1 = (paths, c)" by (cases r1)
  note paths = connectorPaths_arcs [OF cost 1(2) [unfolded r1]]
  have "\<forall>i \<in> set dups. instArc i \<in> set arcs \<and> instRole i = DUPLICATE_SERVICE"
  proof (rule foldR_invariant [OF 1(4)])
    fix ks0 item ks1 assume inv: "\<forall>i \<in> set ks0. instArc i \<in> set arcs \<and> instRole i = DUPLICATE_SERVICE"
      and step: "augmentPath (fst r1) idsOf ks0 item = Inr ks1"
    obtain path where path: "paths (pairKey (augFrom item) (augTo item)) = Some path"
      and fold: "foldR (duplicateInstance idsOf) ks0 (concat (replicate (nat (augQuantity item)) (pathArcs path))) = Inr ks1"
      using step by (auto simp: r1 augmentPath_def getBang_def bindR_eq_Inr split: option.splits)
    have sub: "set (pathArcs path) \<subseteq> set arcs" using paths path by blast
    show "\<forall>i \<in> set ks1. instArc i \<in> set arcs \<and> instRole i = DUPLICATE_SERVICE"
    proof (rule foldR_invariant [OF fold, where P = "\<lambda>ks. \<forall>i \<in> set ks. instArc i \<in> set arcs \<and> instRole i = DUPLICATE_SERVICE"], rule inv)
      fix ks arc ls assume arc: "arc \<in> set (concat (replicate (nat (augQuantity item)) (pathArcs path)))"
        and ks: "\<forall>i \<in> set ks. instArc i \<in> set arcs \<and> instRole i = DUPLICATE_SERVICE" "duplicateInstance idsOf ks arc = Inr ls"
      have "arc \<in> set (pathArcs path)" using arc by (auto split: if_splits)
      then have "arc \<in> set arcs" using sub by blast
      then show "\<forall>i \<in> set ls. instArc i \<in> set arcs \<and> instRole i = DUPLICATE_SERVICE"
        using ks by (auto simp: duplicateInstance_def bindR_eq_Inr split: if_splits)
    qed
  qed simp
  then show ?case using 1(5) by simp
qed

section \<open>Pieces of a route\<close>

text \<open>A piece is an instance and the interval of its arc that is driven; empty pieces are dropped.\<close>

record piece =
  pieceArc :: traversal_arc
  pieceStart :: int
  pieceEnd :: int
  piecePhase :: route_phase
  pieceRole :: service_role
  pieceIds :: "js_string list"

definition pushPiece :: "route_segment list \<Rightarrow> piece \<Rightarrow> coverage_error + route_segment list" where
  "pushPiece segs p = pushSegment (pieceArc p) (pieceStart p) (pieceEnd p) (piecePhase p) (pieceRole p) (pieceIds p) segs"

definition pieceOf :: "int \<Rightarrow> int \<Rightarrow> traversal_instance \<Rightarrow> piece" where
  "pieceOf start end i = \<lparr>pieceArc = instArc i, pieceStart = start, pieceEnd = end, piecePhase = INSIDE_PHASE,
     pieceRole = instRole i, pieceIds = instObligations i\<rparr>"

definition closedPieces :: "int \<Rightarrow> traversal_instance list \<Rightarrow> piece list" where
  "closedPieces f trail = pieceOf f WHOLE (hd trail) # map (pieceOf 0 WHOLE) (tl trail) @ [pieceOf 0 f (hd trail)]"

lemma pushInstance_piece: "pushInstance s e = (\<lambda>segs i. pushPiece segs (pieceOf s e i))"
  by (simp add: pushInstance_def pushPiece_def pieceOf_def fun_eq_iff)

lemma foldR_map: "foldR f s (map g xs) = foldR (\<lambda>s x. f s (g x)) s xs"
  by (induction xs arbitrary: s) (auto intro: bindR_cong)

lemma bindR_assoc: "bindR (bindR m f) g = bindR m (\<lambda>x. bindR (f x) g)"
  by (cases m) auto

lemma bindR_Inr_right [simp]: "bindR m Inr = m"
  by (cases m) auto

lemma terminalCircuit_pieces:
  "materializeExactTerminalCircuit problem trail = foldR pushPiece [] (closedPieces (stateFraction (startState problem)) trail)"
  by (simp add: materializeExactTerminalCircuit_def Let_def closedPieces_def foldR_append foldR_map pushInstance_piece
    bindR_assoc [symmetric])

text \<open>The segment laid down for a piece.\<close>

definition laid :: "route_segment \<Rightarrow> piece \<Rightarrow> bool" where
  "laid s p \<longleftrightarrow> segArcKey s = arcKey (pieceArc p) \<and> segGraphVersion s = arcGraphVersion (pieceArc p) \<and>
     segStart s = pieceStart p \<and> segEnd s = pieceEnd p \<and> segRole s = pieceRole p \<and>
     segObligationIds s = (if pieceIds p = [] then None else Some (pieceIds p)) \<and>
     sliceMetrics (arcMetrics (pieceArc p)) (pieceStart p) (pieceEnd p) = Inr (segMetrics s)"

definition nonempty :: "piece \<Rightarrow> bool" where
  "nonempty p \<longleftrightarrow> pieceStart p \<noteq> pieceEnd p"

lemma pushPiece_step:
  "pushPiece segs p = Inr segs' \<Longrightarrow> (if nonempty p then \<exists>s. laid s p \<and> segs' = segs @ [s] \<and> segSequence s = length segs + 1 else segs' = segs)"
  by (auto simp: pushPiece_def pushSegment_def laid_def nonempty_def bindR_eq_Inr)

lemma pushPiece_fold:
  assumes "foldR pushPiece segs ps = Inr segs'"
  shows "\<exists>new. segs' = segs @ new \<and> list_all2 laid new (filter nonempty ps)"
  using assms
proof (induction ps arbitrary: segs)
  case (Cons p ps)
  obtain mid where mid: "pushPiece segs p = Inr mid" "foldR pushPiece mid ps = Inr segs'"
    using Cons.prems unfolding foldR.simps by (rule bindR_InrE)
  obtain new where new: "segs' = mid @ new" "list_all2 laid new (filter nonempty ps)" using Cons.IH [OF mid(2)] by auto
  show ?case
  proof (cases "nonempty p")
    case True
    then obtain s where "laid s p" "mid = segs @ [s]" using pushPiece_step [OF mid(1)] by auto
    then show ?thesis using new True by (intro exI [of _ "s # new"]) simp
  next
    case False
    then show ?thesis using new pushPiece_step [OF mid(1)] by auto
  qed
qed simp

fun chained :: "place \<Rightarrow> piece list \<Rightarrow> place \<Rightarrow> bool" where
  "chained here [] there \<longleftrightarrow> here = there"
| "chained here (p # ps) there \<longleftrightarrow>
     here = placeOf (pieceArc p) (pieceStart p) \<and> chained (placeOf (pieceArc p) (pieceEnd p)) ps there"

lemma chained_filter: "chained here ps there \<Longrightarrow> chained here (filter nonempty ps) there"
  by (induction ps arbitrary: here) (auto simp: nonempty_def)

lemma chained_append: "chained u (ps @ qs) w \<longleftrightarrow> (\<exists>v. chained u ps v \<and> chained v qs w)"
  by (induction ps arbitrary: u) auto

lemma drives_laid:
  assumes "list_all2 laid segs ps" and "chained here ps there"
    and "\<And>p. p \<in> set ps \<Longrightarrow> net (arcKey (pieceArc p)) = Some (pieceArc p)"
  shows "drives net here segs there"
  using assms by (induction arbitrary: here rule: list_all2_induct) (auto simp: laid_def)

lemma place_ends [simp]: "placeOf a 0 = AtNode (fromNodeKey a)" "placeOf a WHOLE = AtNode (toNodeKey a)"
  by (simp_all add: placeOf_def WHOLE_def)

lemma chained_whole:
  "trailFrom u trail w \<Longrightarrow> chained (AtNode u) (map (pieceOf 0 WHOLE) trail) (AtNode w)"
  by (induction trail arbitrary: u) (auto simp: pieceOf_def source_def target_def)

lemma closedPieces_chained:
  assumes "trail \<noteq> []" and "trailFrom u trail u"
  shows "chained (placeOf (instArc (hd trail)) f) (closedPieces f trail) (placeOf (instArc (hd trail)) f)"
proof -
  obtain i rest where t: "trail = i # rest" using assms(1) by (cases trail) auto
  then have "source i = u" "trailFrom (target i) rest u" using assms(2) by auto
  then show ?thesis using chained_whole [of "target i" rest u]
    by (auto simp: closedPieces_def t chained_append pieceOf_def source_def target_def)
qed

section \<open>What the closed solver returns\<close>

text \<open>
  A circuit for the problem: every required traversal exactly once, further traversals of arcs of
  the network, joined into a closed walk that begins on the start arc with a required traversal.
\<close>

definition requiredTraversals :: "coverage_problem \<Rightarrow> traversal_arc list \<Rightarrow> traversal_instance list" where
  "requiredTraversals problem arcs = concat (map (requiredOf (obligationsByArc problem)) arcs)"

definition serviceTrail ::
  "coverage_problem \<Rightarrow> traversal_arc list \<Rightarrow> js_string \<Rightarrow> traversal_instance list \<Rightarrow> js_string \<Rightarrow> bool" where
  "serviceTrail problem arcs u trail w \<longleftrightarrow> trail \<noteq> [] \<and> trailFrom u trail w \<and> int (length trail) \<le> MAX_ROUTE_SEGMENTS \<and>
     (\<exists>duplicates. mset trail = mset (requiredTraversals problem arcs) + mset duplicates \<and>
        (\<forall>i \<in> set duplicates. instArc i \<in> set arcs \<and> instRole i = DUPLICATE_SERVICE))"

lemma solution_parts:
  assumes "dcppSolution sha plan = Inr sol"
  shows "routeBody (solutionRoute sol) = planBody plan \<and>
    contractSha256 sha (routeBodyJson (planBody plan)) = Inr (routeSignature (solutionRoute sol))"
  using assms
  by (auto simp: dcppSolution_def signRoute_def bindR_eq_Inr map_sum_def split: sum.splits)

lemma postman_costs: "postmanInput problem arcs \<Longrightarrow> nonNegativeCosts arcs"
  by (auto simp: postmanInput_def nonNegativeCosts_def arcCost_def metricValues_def nonNegativeSafe_def)

lemma closed_plan:
  assumes "closedPlan problem input clock = Inr plan"
  shows "\<exists>trail. postmanInput problem (byArcKey input) \<and>
    endpointMode problem = RETURN_TO_START \<and>
    serviceTrail problem (byArcKey input) (source (hd trail)) trail (source (hd trail)) \<and>
    arcKey (instArc (hd trail)) = stateArcKey (startState problem) \<and> hd trail \<in> set (requiredTraversals problem (byArcKey input)) \<and>
    foldR pushPiece [] (closedPieces (stateFraction (startState problem)) trail) = Inr (bodySegments (planBody plan)) \<and>
    totalMetrics (bodySegments (planBody plan)) = Inr (bodyMetrics (planBody plan)) \<and>
    bodyStartState (planBody plan) = startState problem \<and>
    bodyEndState (planBody plan) = startState problem \<and>
    bodyBoundaryEvents (planBody plan) = Some []"
  using assms unfolding closedPlan_def Let_def case_prod_beta
proof (elim bindR_InrE, goal_cases)
  case (1 u arcs u' r aug u'')
  have arcs: "arcs = byArcKey input" "postmanInput problem arcs" using validated_input [OF 1(2)] by auto
  have base: "fst r = requiredTraversals problem arcs"
    using requireArc_fold [of "obligationsByArc problem" "[]" "[]" arcs "fst r" "snd r"] 1(4) by (simp add: requiredTraversals_def)
  obtain supplies demands items dups clock' where aug: "aug = (supplies, demands, items, dups, clock')"
    by (cases aug) auto
  have dup: "\<forall>i \<in> set dups. instArc i \<in> set arcs \<and> instRole i = DUPLICATE_SERVICE"
    by (rule augmentBalance_duplicates [OF postman_costs [OF arcs(2)] 1(5) [unfolded aug]])
  obtain preferred where pref: "find (\<lambda>i. arcKey (instArc i) = stateArcKey (startState problem)) (fst r) = Some preferred"
    using 1(7) by (cases "find (\<lambda>i. arcKey (instArc i) = stateArcKey (startState problem)) (fst r)") auto
  have p: "preferred \<in> set (fst r)" "arcKey (instArc preferred) = stateArcKey (startState problem)"
    using pref by (auto simp: find_Some_iff)
  from 1(7) [unfolded pref option.case aug fst_conv snd_conv] show ?case
  proof (elim bindR_InrE, goal_cases)
    case (1 tr segs ms)
    obtain trail rest where tr: "tr = (trail, rest)" by (cases tr)
    note sound = eulerTrail_sound [OF 1(1) [unfolded tr]]
    have "hd trail \<in> set (fst r @ dups)" using sound(1,2) by (metis hd_in_set mset_eq_setD)
    then have hd: "hd trail = preferred"
      using distinct_ids_eq [OF sound(3)] sound(5) p(1) by simp
    have len: "length trail = length (fst r) + length dups" using mset_eq_length [OF sound(1)] by simp
    show ?case
    proof (intro exI [of _ trail] conjI)
      show "serviceTrail problem (byArcKey input) (source (hd trail)) trail (source (hd trail))"
        unfolding serviceTrail_def using sound(1,2,4) len dup base hd arcs \<open>ensureR (int (length (fst r @ fst (snd (snd (snd aug))))) \<le> MAX_ROUTE_SEGMENTS) (Planning RESOURCE_EXHAUSTED) = Inr u''\<close>
        by (auto simp: aug)
    qed (use p hd base arcs 1 tr \<open>ensureR _ _ = Inr u\<close> in \<open>auto simp: terminalCircuit_pieces\<close>)
  qed
qed

lemma closed_solution:
  assumes "solveClosedDcpp sha problem input clock = Inr sol"
  shows "\<exists>trail. postmanInput problem (byArcKey input) \<and>
    endpointMode problem = RETURN_TO_START \<and>
    serviceTrail problem (byArcKey input) (source (hd trail)) trail (source (hd trail)) \<and>
    arcKey (instArc (hd trail)) = stateArcKey (startState problem) \<and> hd trail \<in> set (requiredTraversals problem (byArcKey input)) \<and>
    foldR pushPiece [] (closedPieces (stateFraction (startState problem)) trail) = Inr (bodySegments (routeBody (solutionRoute sol))) \<and>
    totalMetrics (bodySegments (routeBody (solutionRoute sol))) = Inr (bodyMetrics (routeBody (solutionRoute sol))) \<and>
    bodyStartState (routeBody (solutionRoute sol)) = startState problem \<and>
    bodyEndState (routeBody (solutionRoute sol)) = startState problem \<and>
    bodyBoundaryEvents (routeBody (solutionRoute sol)) = Some [] \<and>
    contractSha256 sha (routeBodyJson (routeBody (solutionRoute sol))) = Inr (routeSignature (solutionRoute sol))"
proof -
  obtain plan where plan: "closedPlan problem input clock = Inr plan" "dcppSolution sha plan = Inr sol"
    using assms unfolding solveClosedDcpp_def by (rule bindR_InrE)
  show ?thesis using closed_plan [OF plan(1)] solution_parts [OF plan(2)] by (simp only: simp_thms)
qed

section \<open>Service and totals of the pieces\<close>

definition serves :: "obligation \<Rightarrow> traversal_instance \<Rightarrow> bool" where
  "serves obl i \<longleftrightarrow> instRole i = SERVICE \<and> arcKey (instArc i) = oblArcKey obl \<and> obligationId obl \<in> set (instObligations i)"

definition coversAt :: "obligation \<Rightarrow> int \<Rightarrow> piece \<Rightarrow> bool" where
  "coversAt obl x p \<longleftrightarrow> pieceRole p = SERVICE \<and> arcKey (pieceArc p) = oblArcKey obl \<and>
     obligationId obl \<in> set (pieceIds p) \<and> pieceStart p \<le> x \<and> x < pieceEnd p"

lemma timesServed_laid:
  "list_all2 laid segs ps \<Longrightarrow> timesServed segs obl x = int (length (filter (coversAt obl x) ps))"
  by (induction rule: list_all2_induct) (auto simp: timesServed_def laid_def coversAt_def)

lemma covers_nonempty: "filter (coversAt obl x) (filter nonempty ps) = filter (coversAt obl x) ps"
  by (induction ps) (auto simp: nonempty_def coversAt_def)

lemma covers_piece: "coversAt obl x (pieceOf s e i) \<longleftrightarrow> serves obl i \<and> s \<le> x \<and> x < e"
  by (auto simp: coversAt_def serves_def pieceOf_def)

lemma covers_whole:
  assumes "0 \<le> x" and "x < WHOLE"
  shows "length (filter (coversAt obl x) (map (pieceOf 0 WHOLE) trail)) = length (filter (serves obl) trail)"
  using assms by (induction trail) (auto simp: covers_piece)

lemma closedPieces_covers:
  assumes "trail \<noteq> []" and "0 \<le> x" and "x < WHOLE"
  shows "length (filter (coversAt obl x) (closedPieces f trail)) = length (filter (serves obl) trail)"
  using assms covers_whole [OF assms(2,3), of obl "tl trail"]
  by (cases trail) (auto simp: closedPieces_def covers_piece)

lemma sum_once:
  assumes "distinct (map f xs)" and "k \<in> f ` set xs"
  shows "(\<Sum>x\<leftarrow>xs. if f x = k then (c :: nat) else 0) = c"
  using assms
proof (induction xs)
  case (Cons x xs)
  show ?case
  proof (cases "f x = k")
    case True
    then have "f y \<noteq> k" if "y \<in> set xs" for y using Cons.prems(1) that True by (metis distinct.simps(2) image_eqI list.set_map list.simps(9))
    then have "(\<Sum>x\<leftarrow>xs. if f x = k then c else 0) = (\<Sum>x\<leftarrow>xs. 0)"
      by (intro arg_cong [of _ _ sum_list] map_cong) auto
    then show ?thesis using True by simp
  next
    case False
    then show ?thesis using Cons by auto
  qed
qed simp

lemma length_filter_concat: "length (filter P (concat xss)) = (\<Sum>xs\<leftarrow>xss. length (filter P xs))"
  by (induction xss) auto

lemma required_serves:
  assumes input: "postmanInput problem arcs" and obl: "obl \<in> set (obligations problem)"
  shows "length (filter (serves obl) (requiredTraversals problem arcs)) = nat (requiredPasses obl)"
proof -
  have lookup: "obligationsByArc problem k = Some b \<longleftrightarrow> b \<in> set (obligations problem) \<and> oblArcKey b = k" for k b
    using obligationsByArc_lookup input by (simp add: postmanInput_def)
  have one: "length (filter (serves obl) (requiredOf (obligationsByArc problem) a)) =
      (if arcKey a = oblArcKey obl then nat (requiredPasses obl) else 0)" for a
  proof (cases "arcKey a = oblArcKey obl")
    case True
    then have "obligationsByArc problem (arcKey a) = Some obl" using lookup obl by simp
    then show ?thesis using True by (simp add: requiredOf_def requiredInstance_def serves_def filter_map comp_def)
  next
    case False
    then show ?thesis
      by (cases "obligationsByArc problem (arcKey a)")
        (auto simp: requiredOf_def requiredInstance_def serves_def filter_empty_conv)
  qed
  have "oblArcKey obl \<in> arcKey ` set arcs" "distinct (map arcKey arcs)" using input obl by (auto simp: postmanInput_def)
  then have "(\<Sum>a\<leftarrow>arcs. if arcKey a = oblArcKey obl then nat (requiredPasses obl) else 0) = nat (requiredPasses obl)"
    by (intro sum_once) auto
  then show ?thesis unfolding requiredTraversals_def length_filter_concat map_map comp_def one .
qed

lemma length_filter_mset: "length (filter P xs) = size (filter_mset P (mset xs))"
  by (metis mset_filter size_mset)

lemma trail_serves:
  assumes "serviceTrail problem arcs u trail w" and "postmanInput problem arcs" and "obl \<in> set (obligations problem)"
  shows "length (filter (serves obl) trail) = nat (requiredPasses obl)"
proof -
  obtain dups where d: "mset trail = mset (requiredTraversals problem arcs) + mset dups"
      "\<forall>i \<in> set dups. instArc i \<in> set arcs \<and> instRole i = DUPLICATE_SERVICE"
    using assms(1) by (auto simp: serviceTrail_def)
  have "filter (serves obl) dups = []" using d(2) by (auto simp: filter_empty_conv serves_def)
  then have "filter_mset (serves obl) (mset dups) = {#}" by (metis mset.simps(1) mset_filter)
  then show ?thesis using required_serves [OF assms(2,3)] by (simp add: length_filter_mset d(1))
qed

lemma trail_arcs:
  assumes "serviceTrail problem arcs u trail w" and "i \<in> set trail"
  shows "instArc i \<in> set arcs"
proof -
  obtain dups where d: "mset trail = mset (requiredTraversals problem arcs) + mset dups"
      "\<forall>i \<in> set dups. instArc i \<in> set arcs \<and> instRole i = DUPLICATE_SERVICE"
    using assms(1) by (auto simp: serviceTrail_def)
  have "set trail = set (requiredTraversals problem arcs) \<union> set dups" using d(1) by (metis set_append mset_append mset_eq_setD)
  then show ?thesis using assms(2) d(2)
    by (auto simp: requiredTraversals_def requiredOf_def requiredInstance_def split: option.splits)
qed

text \<open>Totals.\<close>

lemma addMetrics_values:
  "addMetrics a b = Inr c \<Longrightarrow> metricValues c = map2 (+) (metricValues a) (metricValues b)"
  by (auto simp: addMetrics_def bindR_eq_Inr metricValues_def turnPenalty_def)

lemma sliceMetrics_values:
  "sliceMetrics m s e = Inr r \<Longrightarrow> metricValues r = map (sliceValue s e) (metricValues m)"
  by (auto simp: sliceMetrics_def slice_def bindR_eq_Inr metricValues_def turnPenalty_def split: if_splits)

fun addLists :: "int list list \<Rightarrow> int list" where
  "addLists [] = replicate 6 0"
| "addLists (v # vs) = map2 (+) v (addLists vs)"

lemma length_metricValues [simp]: "length (metricValues m) = 6"
  by (simp add: metricValues_def)

lemma length_addLists: "\<forall>v \<in> set vs. length v = 6 \<Longrightarrow> length (addLists vs) = 6"
  by (induction vs) auto

lemma map2_add_assoc:
  "length (as :: int list) = length bs \<Longrightarrow> length bs = length cs \<Longrightarrow>
     map2 (+) (map2 (+) as bs) cs = map2 (+) as (map2 (+) bs cs)"
  by (induction as bs cs rule: list_induct3) auto

lemma map2_add_zero: "length (as :: int list) = n \<Longrightarrow> map2 (+) as (replicate n 0) = as"
  by (induction as arbitrary: n) auto

lemma totals_fold:
  assumes "foldR (\<lambda>sum s. addMetrics sum (segMetrics s)) m0 segs = Inr m"
  shows "metricValues m = map2 (+) (metricValues m0) (addLists (map (\<lambda>s. metricValues (segMetrics s)) segs))"
  using assms
proof (induction segs arbitrary: m0)
  case Nil
  then show ?case by (simp add: map2_add_zero)
next
  case (Cons s segs)
  obtain m1 where m1: "addMetrics m0 (segMetrics s) = Inr m1" "foldR (\<lambda>sum s. addMetrics sum (segMetrics s)) m1 segs = Inr m"
    using Cons.prems unfolding foldR.simps by (rule bindR_InrE)
  have len: "length (addLists (map (\<lambda>s. metricValues (segMetrics s)) segs)) = 6" by (rule length_addLists) auto
  show ?case using Cons.IH [OF m1(2)] addMetrics_values [OF m1(1)] len
    by (simp add: map2_add_assoc)
qed

lemma totals_sum: "totalMetrics segs = Inr m \<Longrightarrow> metricValues m = addLists (map (\<lambda>s. metricValues (segMetrics s)) segs)"
proof -
  assume "totalMetrics segs = Inr m"
  then have "metricValues m = map2 (+) (replicate 6 0) (addLists (map (\<lambda>s. metricValues (segMetrics s)) segs))"
    using totals_fold [of ZERO_METRICS segs m] by (simp add: totalMetrics_def ZERO_METRICS_def metricValues_def turnPenalty_def numeral_eq_Suc)
  moreover have "map2 (+) (replicate n 0) as = as" if "length (as :: int list) = n" for as n
    using that by (induction as arbitrary: n) auto
  moreover have "length (addLists (map (\<lambda>s. metricValues (segMetrics s)) segs)) = 6" by (rule length_addLists) auto
  ultimately show ?thesis by simp
qed

lemma addLists_nth:
  "\<forall>v \<in> set vs. length v = 6 \<Longrightarrow> i < 6 \<Longrightarrow> addLists vs ! i = (\<Sum>v\<leftarrow>vs. v ! i)"
  using length_addLists by (induction vs) (simp_all add: length_addLists)

lemma bigDiv_whole [simp]: "bigDiv (v * WHOLE) WHOLE = v" "bigDiv 0 b = 0"
  by (simp_all add: bigDiv_def WHOLE_def abs_mult sgn_mult sgn_mult_abs)

lemma sliceValue_simps:
  "sliceValue 0 WHOLE v = v" "sliceValue f WHOLE v + sliceValue 0 f v = v" "sliceValue f f v = 0"
  by (simp_all add: sliceValue_def)

definition pieceValues :: "piece \<Rightarrow> int list" where
  "pieceValues p = map (sliceValue (pieceStart p) (pieceEnd p)) (metricValues (arcMetrics (pieceArc p)))"

lemma length_pieceValues [simp]: "length (pieceValues p) = 6"
  by (simp add: pieceValues_def)

lemma laid_values:
  "list_all2 laid segs ps \<Longrightarrow> map (\<lambda>s. metricValues (segMetrics s)) segs = map pieceValues ps"
  by (induction rule: list_all2_induct) (auto simp: laid_def pieceValues_def dest: sliceMetrics_values)

lemma sum_nonempty:
  "i < 6 \<Longrightarrow> (\<Sum>p\<leftarrow>filter nonempty ps. pieceValues p ! i) = (\<Sum>p\<leftarrow>ps. pieceValues p ! i)"
  by (induction ps) (auto simp: nonempty_def pieceValues_def sliceValue_simps)

lemma pieces_total:
  assumes "list_all2 laid segs (filter nonempty ps)" and "totalMetrics segs = Inr m" and "i < 6"
  shows "metricValues m ! i = (\<Sum>p\<leftarrow>ps. pieceValues p ! i)"
proof -
  have "metricValues m = addLists (map pieceValues (filter nonempty ps))"
    using totals_sum [OF assms(2)] laid_values [OF assms(1)] by simp
  then have "metricValues m ! i = (\<Sum>v\<leftarrow>map pieceValues (filter nonempty ps). v ! i)"
    using assms(3) by (simp add: addLists_nth)
  then show ?thesis using sum_nonempty [OF assms(3)] by (simp add: comp_def)
qed

text \<open>The metrics of whole traversals.\<close>

definition trailValues :: "traversal_instance list \<Rightarrow> int list" where
  "trailValues trail = addLists (map (\<lambda>i. metricValues (arcMetrics (instArc i))) trail)"

lemma trailValues_nth: "i < 6 \<Longrightarrow> trailValues trail ! i = (\<Sum>t\<leftarrow>trail. metricValues (arcMetrics (instArc t)) ! i)"
  unfolding trailValues_def by (subst addLists_nth) (auto simp: comp_def)

lemma length_trailValues [simp]: "length (trailValues trail) = 6"
  unfolding trailValues_def by (rule length_addLists) auto

lemma pieceValues_nth: "i < 6 \<Longrightarrow> pieceValues (pieceOf s e t) ! i = sliceValue s e (metricValues (arcMetrics (instArc t)) ! i)"
  by (simp add: pieceValues_def pieceOf_def)

lemma wholes_total:
  "i < 6 \<Longrightarrow> (\<Sum>p\<leftarrow>map (pieceOf 0 WHOLE) trail. pieceValues p ! i) = trailValues trail ! i"
  by (simp add: trailValues_nth comp_def pieceValues_nth sliceValue_simps)

lemma closedPieces_total:
  assumes "trail \<noteq> []" and "i < 6"
  shows "(\<Sum>p\<leftarrow>closedPieces f trail. pieceValues p ! i) = trailValues trail ! i"
proof -
  obtain t ts where t: "trail = t # ts" using assms(1) by (cases trail) auto
  have "(\<Sum>p\<leftarrow>closedPieces f trail. pieceValues p ! i) =
      sliceValue f WHOLE (metricValues (arcMetrics (instArc t)) ! i) + trailValues ts ! i + sliceValue 0 f (metricValues (arcMetrics (instArc t)) ! i)"
    using wholes_total [OF assms(2), of ts] by (simp add: closedPieces_def t pieceValues_nth assms(2))
  then show ?thesis
    using sliceValue_simps(2) [of f "metricValues (arcMetrics (instArc t)) ! i"] by (simp add: t trailValues_nth assms(2))
qed

lemma timesServed_pieces:
  "list_all2 laid segs (filter nonempty ps) \<Longrightarrow> timesServed segs obl x = int (length (filter (coversAt obl x) ps))"
  by (simp only: timesServed_laid covers_nonempty)

section \<open>Routes of the closed solver\<close>

definition networkMap :: "traversal_arc list \<Rightarrow> js_string \<rightharpoonup> traversal_arc" where
  "networkMap arcs = map_of (map (\<lambda>a. (arcKey a, a)) arcs)"

lemma networkMap_lookup:
  "distinct (map arcKey arcs) \<Longrightarrow> networkMap arcs k = Some a \<longleftrightarrow> a \<in> set arcs \<and> arcKey a = k"
  by (auto simp: networkMap_def comp_def map_of_eq_Some_iff)

lemma networkMap_sorted: "distinct (map arcKey (byArcKey arcs)) \<Longrightarrow> networkMap (byArcKey arcs) = networkMap arcs"
proof (rule ext)
  fix k assume d: "distinct (map arcKey (byArcKey arcs))"
  then have "distinct (map arcKey arcs)" by (metis byArcKey_def distinct_map_perm mset_sort_by)
  then show "networkMap (byArcKey arcs) k = networkMap arcs k"
    using networkMap_lookup [OF d, of k] networkMap_lookup [of arcs k] by (metis byArcKey_def not_None_eq set_sort_by)
qed

lemma closed_route:
  assumes "solveClosedDcpp sha problem input clock = Inr sol"
  defines "body \<equiv> routeBody (solutionRoute sol)"
  shows "\<exists>trail startArc. postmanInput problem (byArcKey input) \<and>
    serviceTrail problem (byArcKey input) (source (hd trail)) trail (source (hd trail)) \<and>
    list_all2 laid (bodySegments body) (filter nonempty (closedPieces (stateFraction (startState problem)) trail)) \<and>
    networkMap input (stateArcKey (startState problem)) = Some startArc \<and> instArc (hd trail) = startArc \<and>
    drives (networkMap input) (placeOf startArc (stateFraction (startState problem))) (bodySegments body)
      (placeOf startArc (stateFraction (startState problem))) \<and>
    (\<forall>obl \<in> set (obligations problem). \<forall>x. 0 \<le> x \<longrightarrow> x < WHOLE \<longrightarrow>
       timesServed (bodySegments body) obl x = max 0 (requiredPasses obl)) \<and>
    metricValues (bodyMetrics body) = trailValues trail"
proof -
  obtain trail where t: "postmanInput problem (byArcKey input)"
    "serviceTrail problem (byArcKey input) (source (hd trail)) trail (source (hd trail))"
    "arcKey (instArc (hd trail)) = stateArcKey (startState problem)"
    "foldR pushPiece [] (closedPieces (stateFraction (startState problem)) trail) = Inr (bodySegments body)"
    "totalMetrics (bodySegments body) = Inr (bodyMetrics body)"
    using closed_solution [OF assms(1)] unfolding body_def by blast
  have ne: "trail \<noteq> []" "trailFrom (source (hd trail)) trail (source (hd trail))" using t(2) by (simp_all add: serviceTrail_def)
  let ?f = "stateFraction (startState problem)" and ?a = "instArc (hd trail)"
  have laid: "list_all2 laid (bodySegments body) (filter nonempty (closedPieces ?f trail))"
    using pushPiece_fold [OF t(4)] by simp
  have d: "distinct (map arcKey (byArcKey input))" using t(1) by (simp add: postmanInput_def)
  have net: "networkMap input (arcKey (instArc i)) = Some (instArc i)" if "i \<in> set trail" for i
    using trail_arcs [OF t(2) that] networkMap_lookup [OF d] networkMap_sorted [OF d] by metis
  have pieces: "\<exists>i \<in> set trail. pieceArc p = instArc i" if "p \<in> set (closedPieces ?f trail)" for p
    using that ne(1) by (auto simp: closedPieces_def pieceOf_def dest: list.set_sel(2))
  have "drives (networkMap input) (placeOf ?a ?f) (bodySegments body) (placeOf ?a ?f)"
    using laid chained_filter [OF closedPieces_chained [OF ne]]
    by (rule drives_laid) (use pieces net in fastforce)
  moreover have "timesServed (bodySegments body) obl x = max 0 (requiredPasses obl)"
    if "obl \<in> set (obligations problem)" "0 \<le> x" "x < WHOLE" for obl x
    using timesServed_pieces [OF laid] trail_serves [OF t(2,1) that(1)] closedPieces_covers [OF ne(1) that(2,3)] by simp
  moreover have "metricValues (bodyMetrics body) = trailValues trail"
    by (rule nth_equalityI) (use pieces_total [OF laid t(5)] closedPieces_total [OF ne(1)] in simp_all)
  moreover have "networkMap input (stateArcKey (startState problem)) = Some ?a" using net [of "hd trail"] ne(1) t(3) by simp
  ultimately show ?thesis using t(1,2) laid by (intro exI [of _ trail] exI [of _ ?a]) blast
qed

end
