(* ===== verification/RouteAcceptance.thy ===== *)
theory RouteAcceptance
  imports
  DcppSoundness
begin

text \<open>
  Conditions under which \<open>verifyCoverageRoute\<close> of \<open>road-coverage-verifier-core/src/verification.ts\<close>
  reports VALID: every segment replays without a complaint, the segments drive from the start to
  the end, the totals add up, and every obligation is served.  The solvers are measured against
  them.
\<close>

section \<open>Arcs as the policy prices them\<close>

text \<open>What \<open>eligible.get\<close> finds.\<close>

definition offered :: "travel_policy \<Rightarrow> traversal_arc list \<Rightarrow> js_string \<rightharpoonup> traversal_arc" where
  "offered policy arcs key =
     (case networkMap arcs key of None \<Rightarrow> None
      | Some a \<Rightarrow> (case evaluateArc a policy of Inl _ \<Rightarrow> None | Inr e \<Rightarrow> e))"

lemma eligible_fold_offered:
  assumes "\<forall>a \<in> set arcs. isOk (evaluateArc a policy)" and "distinct (map arcKey arcs)"
    and "\<forall>k \<in> arcKey ` set arcs. m k = None"
  shows "foldR (addEligible policy) m arcs = Inr (\<lambda>k. if k \<in> arcKey ` set arcs then offered policy arcs k else m k)"
  using assms
proof (induction arcs arbitrary: m)
  case (Cons a arcs)
  obtain e where e: "evaluateArc a policy = Inr e" using Cons.prems(1) by (auto simp: isOk_iff)
  let ?m = "case e of None \<Rightarrow> m | Some x \<Rightarrow> m(arcKey a \<mapsto> x)"
  have step: "addEligible policy m a = Inr ?m" using e by (simp add: addEligible_def)
  have fresh: "\<forall>k \<in> arcKey ` set arcs. ?m k = None" using Cons.prems(2,3) by (auto split: option.splits) (metis image_eqI)
  have "foldR (addEligible policy) ?m arcs = Inr (\<lambda>k. if k \<in> arcKey ` set arcs then offered policy arcs k else ?m k)"
    using Cons.prems(1,2) fresh by (intro Cons.IH) auto
  moreover have "(\<lambda>k. if k \<in> arcKey ` set arcs then offered policy arcs k else ?m k) =
      (\<lambda>k. if k \<in> arcKey ` set (a # arcs) then offered policy (a # arcs) k else m k)"
    using Cons.prems(2,3) e by (auto simp: fun_eq_iff offered_def networkMap_def split: option.splits)
  ultimately show ?case using step by simp
qed simp

lemma eligible_offered:
  assumes "\<forall>a \<in> set arcs. isOk (evaluateArc a policy)" and "distinct (map arcKey arcs)"
  shows "foldR (addEligible policy) Map.empty arcs = Inr (offered policy arcs)"
proof -
  have "offered policy arcs k = None" if "k \<notin> arcKey ` set arcs" for k
  proof -
    have "networkMap arcs k = None" using that by (auto simp: networkMap_def map_of_eq_None_iff image_image)
    then show ?thesis by (simp add: offered_def)
  qed
  then have "(\<lambda>k. if k \<in> arcKey ` set arcs then offered policy arcs k else None) = offered policy arcs" by auto
  then show ?thesis using eligible_fold_offered [OF assms, of Map.empty] by simp
qed

section \<open>Replaying\<close>

text \<open>A run of segments the replay has nothing to say about.\<close>

fun acceptedRun :: "verify_input \<Rightarrow> turn_rule list \<Rightarrow> nat \<Rightarrow> js_string list \<Rightarrow> route_segment list \<Rightarrow> bool" where
  "acceptedRun input rules w history [] \<longleftrightarrow> True"
| "acceptedRun input rules w history (s # segs) \<longleftrightarrow>
     (\<exists>a e t m. networkMap (viArcs input) (segArcKey s) = Some a \<and> arcGraphVersion a = segGraphVersion s \<and>
        segGraphVersion s = snapGraphVersion (routingSnapshot (viProblem input)) \<and>
        validInterval (segStart s) (segEnd s) \<and>
        offered (viPolicy input) (viArcs input) (segArcKey s) = Some e \<and>
        replayTurn history (segArcKey s) rules w = Inr t \<and> turnValid t \<and>
        addTurnPenalty (verifierSlice (arcMetrics e) (segStart s) (segEnd s)) (turnUnits t) = Inr m \<and>
        sameMetrics m (segMetrics s) \<and> acceptedRun input rules w (turnHistory t) segs)"

lemma verifierAddMetrics_add: "addMetrics a b = Inr c \<Longrightarrow> verifierAddMetrics a b = Inr c"
  by (auto simp: addMetrics_def verifierAddMetrics_def bindR_eq_Inr)

lemma verifierAddMetrics_same: "sameMetrics m n \<Longrightarrow> verifierAddMetrics x m = verifierAddMetrics x n"
  by (simp add: sameMetrics_def metricValues_def verifierAddMetrics_def)

lemma replay_accepts:
  assumes "drives (networkMap (viArcs input)) here segs there" and "acceptedRun input rules w (vsHistory st) segs"
    and "vsPreviousEnd st = None \<or> (\<exists>b g. vsPreviousEnd st = Some (stateNode b g) \<and> here = placeOf b g)"
    and "foldR (\<lambda>sum s. addMetrics sum (segMetrics s)) (vsRecomputed st) segs = Inr m"
  shows "\<exists>st'. foldR (replaySegment input (networkMap (viArcs input)) (offered (viPolicy input) (viArcs input)) rules w) st segs = Inr st' \<and>
     vsViolations st' = vsViolations st \<and> vsRecomputed st' = m"
  using assms
proof (induction segs arbitrary: here st)
  case (Cons s segs)
  let ?net = "networkMap (viArcs input)" and ?elig = "offered (viPolicy input) (viArcs input)"
  obtain m1 where m1: "addMetrics (vsRecomputed st) (segMetrics s) = Inr m1"
    and rest: "foldR (\<lambda>sum s. addMetrics sum (segMetrics s)) m1 segs = Inr m"
    using Cons.prems(4) unfolding foldR.simps by (rule bindR_InrE)
  obtain a e t x where a: "?net (segArcKey s) = Some a" "arcGraphVersion a = segGraphVersion s"
     "segGraphVersion s = snapGraphVersion (routingSnapshot (viProblem input))"
     "validInterval (segStart s) (segEnd s)" "?elig (segArcKey s) = Some e"
     "replayTurn (vsHistory st) (segArcKey s) rules w = Inr t" "turnValid t"
     "addTurnPenalty (verifierSlice (arcMetrics e) (segStart s) (segEnd s)) (turnUnits t) = Inr x"
     "sameMetrics x (segMetrics s)" "acceptedRun input rules w (turnHistory t) segs"
    using Cons.prems(2) unfolding acceptedRun.simps by (elim exE conjE)
  have place: "here = placeOf a (segStart s)" "drives ?net (placeOf a (segEnd s)) segs there"
    using Cons.prems(1) a(1) by simp_all
  have cont: "\<not> (vsPreviousEnd st \<noteq> None \<and> vsPreviousEnd st \<noteq> Some (stateNode a (segStart s)))"
    using Cons.prems(3) place(1) stateNode_place by auto
  have sum: "verifierAddMetrics (vsRecomputed st) x = Inr m1"
    using verifierAddMetrics_same [OF a(9)] verifierAddMetrics_add [OF m1] by simp
  let ?st = "st\<lparr>vsPreviousEnd := Some (stateNode a (segEnd s)), vsHistory := turnHistory t, vsRecomputed := m1\<rparr>"
  have step: "replaySegment input ?net ?elig rules w st s = Inr ?st"
    using a(2-9) sum
    by (simp only: replaySegment_def a(1) option.case option.sel Let_def if_not_P [OF cont])
      (simp add: replayMetrics_def Let_def)
  have "\<exists>st'. foldR (replaySegment input ?net ?elig rules w) ?st segs = Inr st' \<and> vsViolations st' = vsViolations ?st \<and> vsRecomputed st' = m"
    by (rule Cons.IH [OF place(2)]) (use a(10) rest in auto)
  then show ?case using step by simp
qed simp

section \<open>Coverage\<close>

lemma coverObligation_accepts:
  assumes "net (oblArcKey obl) = Some arc"
    and "0 \<le> requiredPasses obl" and "requiredPasses obl \<le> actualPasses obl (serviceOf (viCandidate input) obl)"
    and "\<forall>s \<in> set (serviceOf (viCandidate input) obl). segArcKey s = oblArcKey obl"
    and "0 \<le> onePass" and "onePass = distanceMm (verifierSlice (arcMetrics arc) (oblStart obl) (oblEnd obl))"
    and "cvCovered st = cvTotal st" and "cvCoveredLength st = cvRequiredLength st" and "cvViolations st = []"
    and "0 \<le> cvTotal st" and "0 \<le> cvRequiredLength st"
    and "cvTotal st + requiredPasses obl \<le> maxSafeInteger"
    and "cvRequiredLength st + onePass * requiredPasses obl \<le> maxSafeInteger"
  shows "coverObligation input net st obl = Inr \<lparr>cvTotal = cvTotal st + requiredPasses obl, cvCovered = cvTotal st + requiredPasses obl,
     cvRequiredLength = cvRequiredLength st + onePass * requiredPasses obl,
     cvCoveredLength = cvRequiredLength st + onePass * requiredPasses obl, cvViolations = []\<rparr>"
proof -
  have pos: "0 \<le> onePass * requiredPasses obl" using assms(2,5) by simp
  have min: "min (actualPasses obl (serviceOf (viCandidate input) obl)) (requiredPasses obl) = requiredPasses obl"
    using assms(3) by simp
  have mism: "arcMismatches obl (serviceOf (viCandidate input) obl) = []"
    using assms(4) by (auto simp: arcMismatches_def filter_empty_conv)
  have safe: "isSafeInteger (cvTotal st + requiredPasses obl)" "isSafeInteger (onePass * requiredPasses obl)"
      "isSafeInteger (cvRequiredLength st + onePass * requiredPasses obl)"
    using assms(2,10-13) pos by (simp_all add: isSafeInteger_def maxSafeInteger_def)
  show ?thesis
    using assms(1-3,6-11) pos safe
    by (simp add: coverObligation_def Let_def min mism verifierAdd_def verifierMultiply_def)
qed

definition onePassLength :: "(js_string \<rightharpoonup> traversal_arc) \<Rightarrow> obligation \<Rightarrow> int" where
  "onePassLength net obl = distanceMm (verifierSlice (arcMetrics (the (net (oblArcKey obl)))) (oblStart obl) (oblEnd obl))"

definition coverable :: "verify_input \<Rightarrow> (js_string \<rightharpoonup> traversal_arc) \<Rightarrow> obligation \<Rightarrow> bool" where
  "coverable input net obl \<longleftrightarrow> net (oblArcKey obl) \<noteq> None \<and> 0 \<le> requiredPasses obl \<and>
     requiredPasses obl \<le> actualPasses obl (serviceOf (viCandidate input) obl) \<and>
     (\<forall>s \<in> set (serviceOf (viCandidate input) obl). segArcKey s = oblArcKey obl) \<and> 0 \<le> onePassLength net obl"

lemma cover_accepts:
  assumes "\<forall>obl \<in> set obls. coverable input net obl"
    and "t + (\<Sum>obl\<leftarrow>obls. requiredPasses obl) \<le> maxSafeInteger" and "0 \<le> t"
    and "l + (\<Sum>obl\<leftarrow>obls. onePassLength net obl * requiredPasses obl) \<le> maxSafeInteger" and "0 \<le> l"
  shows "\<exists>t' l'. 0 \<le> t' \<and> 0 \<le> l' \<and> foldR (coverObligation input net)
     \<lparr>cvTotal = t, cvCovered = t, cvRequiredLength = l, cvCoveredLength = l, cvViolations = []\<rparr> obls =
     Inr \<lparr>cvTotal = t', cvCovered = t', cvRequiredLength = l', cvCoveredLength = l', cvViolations = []\<rparr>"
  using assms
proof (induction obls arbitrary: t l)
  case (Cons obl obls)
  let ?n = "requiredPasses obl" and ?d = "onePassLength net obl"
  have c: "coverable input net obl" "\<forall>obl \<in> set obls. coverable input net obl" using Cons.prems(1) by simp_all
  have pos: "0 \<le> ?n" "0 \<le> ?d * ?n" using c(1) by (simp_all add: coverable_def)
  have rest: "0 \<le> (\<Sum>obl\<leftarrow>obls. requiredPasses obl)" "0 \<le> (\<Sum>obl\<leftarrow>obls. onePassLength net obl * requiredPasses obl)"
    using c(2) by (auto simp: coverable_def intro!: sum_list_nonneg)
  obtain arc where arc: "net (oblArcKey obl) = Some arc" using c(1) by (auto simp: coverable_def)
  have step: "coverObligation input net \<lparr>cvTotal = t, cvCovered = t, cvRequiredLength = l, cvCoveredLength = l, cvViolations = []\<rparr> obl =
      Inr \<lparr>cvTotal = t + ?n, cvCovered = t + ?n, cvRequiredLength = l + ?d * ?n, cvCoveredLength = l + ?d * ?n, cvViolations = []\<rparr>"
    using coverObligation_accepts [where net = net and obl = obl and arc = arc and input = input and onePass = ?d and st = "\<lparr>cvTotal = t, cvCovered = t, cvRequiredLength = l, cvCoveredLength = l, cvViolations = []\<rparr>"]
      c(1) arc rest Cons.prems by (simp add: coverable_def onePassLength_def)
  show ?case unfolding foldR.simps step bindR_Inr
    by (rule Cons.IH [OF c(2)]) (use Cons.prems pos in \<open>simp_all add: add.assoc\<close>)
qed auto

lemma verifyCoverage_accepts:
  assumes "\<forall>obl \<in> set (obligations (viProblem input)). coverable input net obl"
    and "(\<Sum>obl\<leftarrow>obligations (viProblem input). requiredPasses obl) \<le> maxSafeInteger"
    and "(\<Sum>obl\<leftarrow>obligations (viProblem input). onePassLength net obl * requiredPasses obl) \<le> maxSafeInteger"
  shows "\<exists>figures. verifyCoverage input net = Inr (True, figures, [])"
proof -
  obtain t l where "0 \<le> t" "0 \<le> l" "foldR (coverObligation input net)
     \<lparr>cvTotal = 0, cvCovered = 0, cvRequiredLength = 0, cvCoveredLength = 0, cvViolations = []\<rparr> (obligations (viProblem input)) =
     Inr \<lparr>cvTotal = t, cvCovered = t, cvRequiredLength = l, cvCoveredLength = l, cvViolations = []\<rparr>"
    using cover_accepts [OF assms(1), of 0 0] assms(2,3) by auto
  then show ?thesis using ratio_self by (auto simp: verifyCoverage_def Let_def)
qed

text \<open>Endpoints.\<close>

section \<open>Endpoints\<close>

lemma drives_ends:
  assumes "drives net here segs there" and "segs \<noteq> []"
  shows "\<exists>a b. net (segArcKey (hd segs)) = Some a \<and> here = placeOf a (segStart (hd segs)) \<and>
    net (segArcKey (last segs)) = Some b \<and> there = placeOf b (segEnd (last segs))"
  using assms
proof (induction segs arbitrary: here)
  case (Cons s segs)
  obtain a where a: "net (segArcKey s) = Some a" "here = placeOf a (segStart s)" "drives net (placeOf a (segEnd s)) segs there"
    using Cons.prems(1) by (auto split: option.splits)
  show ?case
  proof (cases "segs = []")
    case True
    then show ?thesis using a by simp
  next
    case False
    then show ?thesis using Cons.IH [OF a(3) False] a by auto
  qed
qed simp

lemma endpoints_accept:
  assumes drive: "drives net (placeOf startArc (stateFraction st)) segs (placeOf endArc (stateFraction e))"
    and ne: "segs \<noteq> []" and st: "st = startState (viProblem input)" and segs: "segs = bodySegments (routeBody (viCandidate input))"
    and arcs: "net (stateArcKey st) = Some startArc" "net (stateArcKey e) = Some endArc"
    and e: "expectedEnd input = Some e"
    and body: "bodyStartState (routeBody (viCandidate input)) = st" "bodyEndState (routeBody (viCandidate input)) = e"
  shows "verifyEndpoints sha input net = Inr (True, True, [])"
proof -
  have self: "sameDigest sha (stateJson s) (stateJson s) = Inr True" for s
    using contractSha256_ok [of "stateJson s" sha] by (auto simp: sameDigest_def digest_def)
  obtain a b where ab: "net (segArcKey (hd segs)) = Some a" "placeOf startArc (stateFraction st) = placeOf a (segStart (hd segs))"
    "net (segArcKey (last segs)) = Some b" "placeOf endArc (stateFraction e) = placeOf b (segEnd (last segs))"
    using drives_ends [OF drive ne] by blast
  have "stateMeets net (Some st) (map_option (\<lambda>s. segmentStartNode s net) (itemAt segs 0))"
    using ab(1,2) arcs(1) ne by (simp add: stateMeets_Some itemAt_def segmentStartNode_def nodeAt_def stateNode_place hd_conv_nth)
  moreover have "stateMeets net (Some e) (map_option (\<lambda>s. segmentEndNode s net) (lastOf segs))"
    using ab(3,4) arcs(2) ne by (simp add: stateMeets_Some lastOf_def segmentEndNode_def nodeAt_def stateNode_place)
  ultimately show ?thesis using self
    by (simp add: verifyEndpoints_def Let_def body st [symmetric] segs [symmetric] e)
qed

lemma networkOf_map: "networkOf input = networkMap (viArcs input)"
  by (simp add: networkOf_def networkMap_def)

lemma signReport_ok: "\<exists>r. signReport sha b = Inr r \<and> reportBody r = b"
proof -
  obtain t where t: "digest sha (JObj (reportEntries b)) = Inr t"
    using contractSha256_ok [OF supported_report(1), of sha b] unfolding digest_Inr by blast
  obtain u where "digest sha (reportJson b (js ''verify_'' @ drop (length (js ''sha256:'')) t)) = Inr u"
    using contractSha256_ok [OF supported_report(2), of sha b] unfolding digest_Inr by blast
  then show ?thesis using t by (simp add: signReport_def Let_def)
qed

text \<open>Everything together.\<close>
section \<open>Everything together\<close>

lemma verifier_accepts_run:
  assumes fresh: "viCurrentSnapshot input = routingSnapshot (viProblem input)"
    and distinct: "distinct (map arcKey (viArcs input))" and priced: "\<forall>a \<in> set (viArcs input). isOk (evaluateArc a (viPolicy input))"
    and run: "acceptedRun input (activeRulesOf input) (maximumHistory (activeRulesOf input)) (vsHistory (replayStart input []))
      (bodySegments (routeBody (viCandidate input)))"
    and drive: "drives (networkOf input) here (bodySegments (routeBody (viCandidate input))) there"
    and totals: "totalMetrics (bodySegments (routeBody (viCandidate input))) = Inr (bodyMetrics (routeBody (viCandidate input)))"
    and ends: "verifyEndpoints sha input (networkOf input) = Inr (True, True, [])"
    and boundary: "verifyBoundaryPolicy sha input = Inr (True, [])"
    and cover: "verifyCoverage input (networkOf input) = Inr (True, figures, [])"
    and signature: "contractSha256 sha (routeBodyJson (routeBody (viCandidate input))) = Inr (routeSignature (viCandidate input))"
  shows "\<exists>r. verifyCoverageRoute sha input = Inr r \<and> reportStatus (reportBody r) = VALID"
proof -
  let ?segs = "bodySegments (routeBody (viCandidate input))" and ?net = "networkOf input" and ?rules = "activeRulesOf input"
  obtain h where h: "digest sha (snapshotJson (routingSnapshot (viProblem input))) = Inr h"
    using contractSha256_ok [OF supported_documents(4), of sha "routingSnapshot (viProblem input)"] by (auto simp: digest_def)
  have auth: "foldl authorityStep (Map.empty, []) (viArcs input) = (?net, [])"
    using authority_networkOf [OF distinct] authority_violations [of Map.empty "[]" "viArcs input"] distinct
    by (cases "foldl authorityStep (Map.empty, []) (viArcs input)") simp
  note elig = eligible_offered [OF priced distinct]
  let ?st0 = "replayStart input []"
  have "foldR (\<lambda>sum s. addMetrics sum (segMetrics s)) (vsRecomputed ?st0) ?segs = Inr (bodyMetrics (routeBody (viCandidate input)))"
    using totals by (simp add: totalMetrics_def replayStart_def)
  moreover have "vsPreviousEnd ?st0 = None \<or> (\<exists>b g. vsPreviousEnd ?st0 = Some (stateNode b g) \<and> here = placeOf b g)"
    by (simp add: replayStart_def)
  ultimately obtain st where st: "foldR (replaySegment input ?net (offered (viPolicy input) (viArcs input)) ?rules (maximumHistory ?rules)) ?st0 ?segs = Inr st"
      "vsViolations st = []" "vsRecomputed st = bodyMetrics (routeBody (viCandidate input))"
    using replay_accepts [OF drive [unfolded networkOf_map] run] by (auto simp: replayStart_def networkOf_map)
  have sign: "\<exists>r. signReport sha b = Inr r \<and> reportStatus (reportBody r) = VALID" if "reportStatus b = VALID" for b
    using that signReport_ok [of sha b] by auto
  have sig: "digest sha (routeBodyJson (routeBody (viCandidate input))) = Inr (routeSignature (viCandidate input))"
    using signature by (simp add: digest_def)
  show ?thesis
    unfolding verifyCoverageRoute_def Let_def case_prod_beta activeRulesOf_def [symmetric] fresh h
      bindR_Inr simp_thms if_False auth elig st(1) ends boundary cover sig fst_conv snd_conv
    using st(2,3) by (simp add: st(1) sign sameMetrics_def)
qed

section \<open>No rules, no conditions\<close>

text \<open>
  An arc on which neither conditions nor the policy change anything: the solver prices arcs by
  their stored metrics only.
\<close>

definition plainArc :: "travel_policy \<Rightarrow> traversal_arc \<Rightarrow> bool" where
  "plainArc policy a \<longleftrightarrow> traversalAllowed a \<noteq> Some False \<and> profileEligible a policy \<and>
     speedOverrideMmPerS a = None \<and> speedMmPerS a = None \<and> maximumSpeedMmPerS policy = None \<and>
     riskOverrideMicroUnits a = None \<and> conditionPenaltyUnits a = None \<and> turnPenalty (arcMetrics a) = 0 \<and>
     (\<forall>v \<in> set (metricValues (arcMetrics a)). nonNegativeSafe v)"

definition plainly :: "traversal_arc \<Rightarrow> traversal_arc" where
  "plainly a = a\<lparr>arcMetrics := (arcMetrics a)\<lparr>turnPenaltyUnits := Some 0\<rparr>\<rparr>"

lemma evaluateArc_plain: "plainArc policy a \<Longrightarrow> evaluateArc a policy = Inr (Some (plainly a))"
  by (auto simp: plainArc_def evaluateArc_def effectiveSpeed_def presentValues_def plainly_def Let_def
    verifierAdd_def metricValues_def nonNegativeSafe_def bindR_def ensureR_def)
lemma offered_plain:
  assumes "\<forall>a \<in> set arcs. plainArc policy a"
  shows "offered policy arcs key = map_option plainly (networkMap arcs key)"
proof (cases "networkMap arcs key")
  case (Some a)
  then have "a \<in> set arcs" unfolding networkMap_def by (auto dest!: map_of_SomeD)
  then show ?thesis using assms Some evaluateArc_plain by (simp add: offered_def)
qed (simp add: offered_def)

lemma replayTurn_free: "\<exists>h. replayTurn history x [] m = Inr \<lparr>turnValid = True, turnHistory = h, turnUnits = 0\<rparr>"
  by (simp add: replayTurn_def replayAllowed_def)

lemma slice_value: "slice s e v = Inr w \<longleftrightarrow> w = sliceValue s e v \<and> nonNegativeSafe (sliceValue s e v)"
  by (auto simp: slice_def nonNegativeSafe_def)

lemma verifierSlice_plain:
  assumes "sliceMetrics (arcMetrics a) s e = Inr m" and "turnPenalty (arcMetrics a) = 0"
  shows "verifierSlice (arcMetrics (plainly a)) s e = m"
  using assms
  by (auto simp: sliceMetrics_def verifierSlice_def plainly_def bindR_eq_Inr slice_value nonNegativeSafe_def turnPenalty_def Let_def)

text \<open>A segment the verifier has nothing to say about.\<close>

definition soundSegment :: "verify_input \<Rightarrow> (js_string \<rightharpoonup> traversal_arc) \<Rightarrow> route_segment \<Rightarrow> bool" where
  "soundSegment input net s \<longleftrightarrow> (\<exists>a. net (segArcKey s) = Some a \<and> arcGraphVersion a = segGraphVersion s \<and>
     segGraphVersion s = snapGraphVersion (routingSnapshot (viProblem input)) \<and>
     validInterval (segStart s) (segEnd s) \<and> turnPenalty (arcMetrics a) = 0 \<and>
     sliceMetrics (arcMetrics a) (segStart s) (segEnd s) = Inr (segMetrics s))"

lemma sound_run:
  assumes "\<forall>s \<in> set segs. soundSegment input (networkMap (viArcs input)) s" and "\<forall>a \<in> set (viArcs input). plainArc (viPolicy input) a"
  shows "acceptedRun input [] w history segs"
  using assms(1)
proof (induction segs arbitrary: history)
  case (Cons s segs)
  obtain a where a: "networkMap (viArcs input) (segArcKey s) = Some a" "arcGraphVersion a = segGraphVersion s"
     "segGraphVersion s = snapGraphVersion (routingSnapshot (viProblem input))"
     "validInterval (segStart s) (segEnd s)" "turnPenalty (arcMetrics a) = 0"
     "sliceMetrics (arcMetrics a) (segStart s) (segEnd s) = Inr (segMetrics s)"
    using Cons.prems unfolding soundSegment_def by auto
  obtain h where h: "replayTurn history (segArcKey s) [] w = Inr \<lparr>turnValid = True, turnHistory = h, turnUnits = 0\<rparr>"
    using replayTurn_free by blast
  have "addTurnPenalty (verifierSlice (arcMetrics (plainly a)) (segStart s) (segEnd s)) 0 = Inr (segMetrics s)"
    using verifierSlice_plain [OF a(6,5)] by (simp add: addTurnPenalty_def)
  then show ?case using a h offered_plain [OF assms(2), of "segArcKey s"] Cons by (simp add: sameMetrics_def)
qed simp

lemma verifier_accepts:
  assumes fresh: "viCurrentSnapshot input = routingSnapshot (viProblem input)" and free: "activeRulesOf input = []"
    and distinct: "distinct (map arcKey (viArcs input))" and plain: "\<forall>a \<in> set (viArcs input). plainArc (viPolicy input) a"
    and sound: "\<forall>s \<in> set (bodySegments (routeBody (viCandidate input))). soundSegment input (networkOf input) s"
    and drive: "drives (networkOf input) here (bodySegments (routeBody (viCandidate input))) there"
    and totals: "totalMetrics (bodySegments (routeBody (viCandidate input))) = Inr (bodyMetrics (routeBody (viCandidate input)))"
    and ends: "verifyEndpoints sha input (networkOf input) = Inr (True, True, [])"
    and boundary: "verifyBoundaryPolicy sha input = Inr (True, [])"
    and cover: "verifyCoverage input (networkOf input) = Inr (True, figures, [])"
    and signature: "contractSha256 sha (routeBodyJson (routeBody (viCandidate input))) = Inr (routeSignature (viCandidate input))"
  shows "\<exists>r. verifyCoverageRoute sha input = Inr r \<and> reportStatus (reportBody r) = VALID"
proof (rule verifier_accepts_run [OF fresh distinct _ _ drive totals ends boundary cover signature])
  show "\<forall>a \<in> set (viArcs input). isOk (evaluateArc a (viPolicy input))" using plain evaluateArc_plain by simp
  show "acceptedRun input (activeRulesOf input) (maximumHistory (activeRulesOf input)) (vsHistory (replayStart input []))
      (bodySegments (routeBody (viCandidate input)))"
    unfolding free using sound plain by (intro sound_run) (simp_all add: networkOf_map)
qed

end
