(* ===== verification/DcppVerified.thy ===== *)
theory DcppVerified
  imports RouteAcceptance
begin

text \<open>
  The postman solvers against the verifier: the proof that the routes of both solvers
  meet the conditions under which it reports VALID.
\<close>

section \<open>Solver routes are valid\<close>

lemma weights_at_most_one:
  assumes "distinct (map k os)" and "\<forall>ob \<in> set os. P ob \<longrightarrow> k ob = c" and "0 \<le> w"
  shows "(\<Sum>ob\<leftarrow>os. if P ob then w else 0) \<le> (w :: int)"
  using assms(1,2)
proof (induction os)
  case (Cons ob os)
  show ?case
  proof (cases "P ob")
    case True
    then have "\<not> P x" if "x \<in> set os" for x
      using Cons.prems that by (metis distinct.simps(2) image_eqI list.set_intros list.set_map list.simps(9))
    then have "(\<Sum>x\<leftarrow>os. if P x then w else 0) = (\<Sum>x\<leftarrow>os. 0)" by (intro arg_cong [of _ _ sum_list] map_cong) auto
    then show ?thesis using True by simp
  next
    case False
    then show ?thesis using Cons by simp
  qed
qed (simp add: assms(3))

lemma disjoint_weights:
  assumes "distinct (map k os)" and "\<forall>ob \<in> set os. \<forall>i \<in> set is. P ob i \<longrightarrow> f i = k ob" and "\<forall>i \<in> set is. 0 \<le> w i"
  shows "(\<Sum>ob\<leftarrow>os. \<Sum>i\<leftarrow>filter (P ob) is. w i) \<le> (\<Sum>i\<leftarrow>is. (w i :: int))"
  using assms(2,3)
proof (induction "is")
  case (Cons i "is")
  have split: "(\<Sum>ob\<leftarrow>os. \<Sum>i\<leftarrow>filter (P ob) (i # is). w i) =
      (\<Sum>ob\<leftarrow>os. if P ob i then w i else 0) + (\<Sum>ob\<leftarrow>os. \<Sum>i\<leftarrow>filter (P ob) is. w i)"
    unfolding sum_list_addf [symmetric] by (intro arg_cong [of _ _ sum_list] map_cong) auto
  have "(\<Sum>ob\<leftarrow>os. if P ob i then w i else 0) \<le> w i"
    using weights_at_most_one [OF assms(1), of "\<lambda>ob. P ob i" "f i" "w i"] Cons.prems by auto
  moreover have "(\<Sum>ob\<leftarrow>os. \<Sum>i\<leftarrow>filter (P ob) is. w i) \<le> (\<Sum>i\<leftarrow>is. w i)" using Cons by auto
  ultimately show ?case unfolding split by simp
qed simp

lemma sum_list_const: "(\<Sum>x\<leftarrow>xs. (c :: int)) = c * int (length xs)"
  by (induction xs) (simp_all add: algebra_simps)

text \<open>The required passes, weighted by the length of their arcs, are part of the trail.\<close>

lemma service_weight:
  assumes input: "postmanInput problem arcs" and trail: "serviceTrail problem arcs u trail w"
    and pass: "\<forall>obl \<in> set (obligations problem). 0 \<le> requiredPasses obl"
    and weight: "\<forall>a \<in> set arcs. 0 \<le> weight a"
  shows "(\<Sum>obl\<leftarrow>obligations problem. weight (the (networkMap arcs (oblArcKey obl))) * requiredPasses obl) \<le>
    (\<Sum>i\<leftarrow>trail. (weight (instArc i) :: int))"
proof -
  have d: "distinct (map arcKey arcs)" "distinct (map oblArcKey (obligations problem))" using input by (simp_all add: postmanInput_def)
  have one: "weight (the (networkMap arcs (oblArcKey obl))) * requiredPasses obl = (\<Sum>i\<leftarrow>filter (serves obl) trail. weight (instArc i))"
    if obl: "obl \<in> set (obligations problem)" for obl
  proof -
    have "weight (instArc i) = weight (the (networkMap arcs (oblArcKey obl)))" if "i \<in> set (filter (serves obl) trail)" for i
    proof -
      have "networkMap arcs (oblArcKey obl) = Some (instArc i)"
        using that trail_arcs [OF trail, of i] networkMap_lookup [OF d(1)] by (auto simp: serves_def)
      then show ?thesis by simp
    qed
    then have "(\<Sum>i\<leftarrow>filter (serves obl) trail. weight (instArc i)) =
        (\<Sum>i\<leftarrow>filter (serves obl) trail. weight (the (networkMap arcs (oblArcKey obl))))"
      by (intro arg_cong [of _ _ sum_list] map_cong) auto
    then show ?thesis using trail_serves [OF trail input obl] pass obl by (simp add: sum_list_const)
  qed
  have "(\<Sum>obl\<leftarrow>obligations problem. weight (the (networkMap arcs (oblArcKey obl))) * requiredPasses obl) =
      (\<Sum>obl\<leftarrow>obligations problem. \<Sum>i\<leftarrow>filter (serves obl) trail. weight (instArc i))"
    using one by (intro arg_cong [of _ _ sum_list] map_cong) auto
  also have "\<dots> \<le> (\<Sum>i\<leftarrow>trail. weight (instArc i))"
    by (rule disjoint_weights [OF d(2), of trail serves "\<lambda>i. arcKey (instArc i)"])
      (use weight trail_arcs [OF trail] in \<open>auto simp: serves_def\<close>)
  finally show ?thesis .
qed

text \<open>
  The pieces of a route over a service trail: they drive the trail, in proper intervals, and
  serve what the trail serves.
\<close>

definition routePieces ::
  "coverage_problem \<Rightarrow> traversal_arc list \<Rightarrow> traversal_instance list \<Rightarrow> place \<Rightarrow> piece list \<Rightarrow> place \<Rightarrow> bool" where
  "routePieces problem arcs trail here ps there \<longleftrightarrow> chained here ps there \<and> filter nonempty ps \<noteq> [] \<and>
     (\<forall>p \<in> set ps. pieceArc p \<in> set arcs \<and> 0 \<le> pieceStart p \<and> pieceStart p \<le> pieceEnd p \<and> pieceEnd p \<le> WHOLE \<and>
        (pieceRole p = SERVICE \<longrightarrow> (\<exists>i \<in> set trail. instRole i = SERVICE \<and> instArc i = pieceArc p \<and> instObligations i = pieceIds p))) \<and>
     (\<forall>obl. \<forall>x. 0 \<le> x \<longrightarrow> x < WHOLE \<longrightarrow> length (filter (coversAt obl x) ps) = length (filter (serves obl) trail))"

definition verifyInput ::
  "coverage_problem \<Rightarrow> traversal_arc list \<Rightarrow> travel_policy \<Rightarrow> coverage_route \<Rightarrow> verify_input" where
  "verifyInput problem arcs policy route = \<lparr>viProblem = problem, viCandidate = route,
     viCurrentSnapshot = routingSnapshot problem, viArcs = arcs, viPolicy = policy, viRules = None,
     viBoundaryEvents = None, viStartInside = None\<rparr>"

lemma verifyInput_simps [simp]:
  "viProblem (verifyInput problem arcs policy route) = problem" "viCandidate (verifyInput problem arcs policy route) = route"
  "viCurrentSnapshot (verifyInput problem arcs policy route) = routingSnapshot problem"
  "viArcs (verifyInput problem arcs policy route) = arcs" "viPolicy (verifyInput problem arcs policy route) = policy"
  "viBoundaryEvents (verifyInput problem arcs policy route) = None"
  "activeRulesOf (verifyInput problem arcs policy route) = []"
  "networkOf (verifyInput problem arcs policy route) = networkMap arcs"
  by (simp_all add: verifyInput_def activeRulesOf_def activeRules_def networkOf_def networkMap_def)

lemma laid_member: "list_all2 laid segs ps \<Longrightarrow> s \<in> set segs \<Longrightarrow> \<exists>p \<in> set ps. laid s p"
  by (induction rule: list_all2_induct) auto

lemma pieces_sound:
  assumes laid: "list_all2 laid segs (filter nonempty ps)" and ps: "routePieces problem arcs trail here ps there"
    and arcs: "\<forall>a \<in> set arcs. networkMap input (arcKey a) = Some a \<and> arcGraphVersion a = snapGraphVersion (routingSnapshot problem) \<and>
      turnPenalty (arcMetrics a) = 0"
  shows "\<forall>s \<in> set segs. soundSegment (verifyInput problem input policy route) (networkMap input) s"
proof
  fix s assume "s \<in> set segs"
  then obtain p where p: "p \<in> set ps" "nonempty p" "laid s p" using laid_member [OF laid] by auto
  then have int: "pieceArc p \<in> set arcs" "0 \<le> pieceStart p" "pieceStart p < pieceEnd p" "pieceEnd p \<le> WHOLE"
    using ps by (force simp: routePieces_def nonempty_def)+
  then have "validInterval (pieceStart p) (pieceEnd p)" by (simp add: validInterval_def isSafeInteger_def maxSafeInteger_def WHOLE_def)
  then show "soundSegment (verifyInput problem input policy route) (networkMap input) s"
    using p(3) arcs int(1) by (auto simp: laid_def soundSegment_def)
qed

lemma required_instance:
  assumes "postmanInput problem arcs" and "i \<in> set (requiredTraversals problem arcs)"
  shows "\<exists>obl \<in> set (obligations problem). oblArcKey obl = arcKey (instArc i) \<and> instObligations i = [obligationId obl]"
proof -
  obtain a where a: "a \<in> set arcs" "i \<in> set (requiredOf (obligationsByArc problem) a)" using assms(2) by (auto simp: requiredTraversals_def)
  then obtain obl where obl: "obligationsByArc problem (arcKey a) = Some obl" "instArc i = a" "instObligations i = [obligationId obl]"
    by (cases "obligationsByArc problem (arcKey a)") (auto simp: requiredOf_def requiredInstance_def)
  then show ?thesis using obligationsByArc_lookup [of problem "arcKey a" obl] assms(1) by (auto simp: postmanInput_def)
qed

lemma trail_service:
  assumes "serviceTrail problem arcs u trail w" and "postmanInput problem arcs" and "i \<in> set trail" and "instRole i = SERVICE"
  shows "\<exists>obl \<in> set (obligations problem). oblArcKey obl = arcKey (instArc i) \<and> instObligations i = [obligationId obl]"
proof -
  obtain dups where d: "mset trail = mset (requiredTraversals problem arcs) + mset dups"
      "\<forall>i \<in> set dups. instArc i \<in> set arcs \<and> instRole i = DUPLICATE_SERVICE"
    using assms(1) by (auto simp: serviceTrail_def)
  have "set trail = set (requiredTraversals problem arcs) \<union> set dups" using d(1) by (metis set_append mset_append mset_eq_setD)
  then have "i \<in> set (requiredTraversals problem arcs)" using assms(3,4) d(2) by auto
  then show ?thesis by (rule required_instance [OF assms(2)])
qed

lemma totals_safe: "totalMetrics segs = Inr m \<Longrightarrow> distanceMm m \<le> maxSafeInteger"
  unfolding totalMetrics_def
  by (erule foldR_invariant [where P = "\<lambda>m. distanceMm m \<le> maxSafeInteger"])
    (auto simp: ZERO_METRICS_def maxSafeInteger_def addMetrics_def bindR_eq_Inr isSafeInteger_def)

lemma pieces_covered:
  assumes laid: "list_all2 laid segs (filter nonempty ps)" and segs: "segs = bodySegments (routeBody route)"
    and input: "postmanInput problem arcs" and trail: "serviceTrail problem arcs u trail w"
    and ps: "routePieces problem arcs trail here ps there"
    and ids: "distinct (map obligationId (obligations problem))"
    and obl: "obl \<in> set (obligations problem)" "0 \<le> requiredPasses obl"
  shows "requiredPasses obl \<le> actualPasses obl (serviceOf route obl) \<and>
    (\<forall>s \<in> set (serviceOf route obl). segArcKey s = oblArcKey obl)"
proof
  have whole: "oblStart obl = 0" "oblEnd obl = WHOLE" using input obl(1) by (auto simp: postmanInput_def)
  then have "oblStart obl < oblEnd obl" by (simp add: WHOLE_def)
  from actualPasses_exact [OF this, of "serviceOf route obl"] obtain x where
    x: "0 \<le> x" "x < WHOLE" "actualPasses obl (serviceOf route obl) = passesOver obl (serviceOf route obl) x (x + 1)"
    unfolding whole by blast
  have "timesServed segs obl x = int (length (filter (serves obl) trail))"
    using timesServed_pieces [OF laid] ps x(1,2) by (simp add: routePieces_def)
  also have "\<dots> = requiredPasses obl" using trail_serves [OF trail input obl(1)] obl(2) by simp
  finally show "requiredPasses obl \<le> actualPasses obl (serviceOf route obl)"
    using x(3) by (simp add: timesServed_passes segs)
  show "\<forall>s \<in> set (serviceOf route obl). segArcKey s = oblArcKey obl"
  proof
    fix s assume s: "s \<in> set (serviceOf route obl)"
    then have m: "s \<in> set segs" "segRole s = SERVICE" "\<exists>ks. segObligationIds s = Some ks \<and> obligationId obl \<in> set ks"
      by (auto simp: serviceOf_def segs split: option.splits)
    obtain p where p: "p \<in> set ps" "laid s p" using laid_member [OF laid m(1)] by auto
    then obtain i where i: "i \<in> set trail" "instRole i = SERVICE" "instArc i = pieceArc p" "instObligations i = pieceIds p"
      using ps m(2) unfolding routePieces_def laid_def by metis
    obtain b where b: "b \<in> set (obligations problem)" "oblArcKey b = arcKey (pieceArc p)" "pieceIds p = [obligationId b]"
      using trail_service [OF trail input i(1,2)] i(3,4) by auto
    have "obligationId obl = obligationId b" using m(3) p(2) b(3) by (auto simp: laid_def)
    then have "b = obl" using ids b(1) obl(1) by (metis eq_key_imp_eq_value distinct_map inj_onD)
    then show "segArcKey s = oblArcKey obl" using p(2) b(2) by (simp add: laid_def)
  qed
qed

lemma route_verified:
  assumes input: "postmanInput problem (byArcKey input)" and trail: "serviceTrail problem (byArcKey input) u trail w"
    and ps: "routePieces problem (byArcKey input) trail (placeOf startArc (stateFraction (startState problem))) ps
      (placeOf endArc (stateFraction e))"
    and laid: "list_all2 laid (bodySegments (routeBody route)) (filter nonempty ps)"
    and totals: "totalMetrics (bodySegments (routeBody route)) = Inr (bodyMetrics (routeBody route))"
    and weight: "(\<Sum>i\<leftarrow>trail. distanceMm (arcMetrics (instArc i))) \<le> distanceMm (bodyMetrics (routeBody route))"
    and arcs: "networkMap input (stateArcKey (startState problem)) = Some startArc" "networkMap input (stateArcKey e) = Some endArc"
    and e: "expectedEnd (verifyInput problem input policy route) = Some e"
    and body: "bodyStartState (routeBody route) = startState problem" "bodyEndState (routeBody route) = e"
    and signature: "contractSha256 sha (routeBodyJson (routeBody route)) = Inr (routeSignature route)"
    and plain: "\<forall>a \<in> set input. plainArc policy a" and free: "boundaryCrossingPolicy problem = FREE" "endpointMode problem \<noteq> LAST_AREA_EXIT"
    and ids: "distinct (map obligationId (obligations problem))" and pass: "\<forall>obl \<in> set (obligations problem). 0 \<le> requiredPasses obl"
  shows "\<exists>r. verifyCoverageRoute sha (verifyInput problem input policy route) = Inr r \<and> reportStatus (reportBody r) = VALID"
proof -
  let ?in = "verifyInput problem input policy route" and ?segs = "bodySegments (routeBody route)" and ?net = "networkMap input"
  have dis: "distinct (map arcKey (byArcKey input))" using input by (simp add: postmanInput_def)
  then have dis': "distinct (map arcKey input)" by (metis byArcKey_def distinct_map_perm mset_sort_by)
  have same: "set (byArcKey input) = set input" by (simp add: byArcKey_def)
  have net: "?net (arcKey a) = Some a" if "a \<in> set input" for a using networkMap_lookup [OF dis'] that by simp
  have ok: "\<forall>a \<in> set (byArcKey input). ?net (arcKey a) = Some a \<and> arcGraphVersion a = snapGraphVersion (routingSnapshot problem) \<and>
      turnPenalty (arcMetrics a) = 0"
    using input plain net by (auto simp: postmanInput_def plainArc_def same)
  have drive: "drives ?net (placeOf startArc (stateFraction (startState problem))) ?segs (placeOf endArc (stateFraction e))"
    using laid by (rule drives_laid) (use ps ok chained_filter in \<open>auto simp: routePieces_def\<close>)
  have ne: "?segs \<noteq> []" using laid ps by (auto simp: routePieces_def)
  have arcKnown: "\<exists>a \<in> set input. ?net (oblArcKey obl) = Some a" if "obl \<in> set (obligations problem)" for obl
  proof -
    have "oblArcKey obl \<in> set (map arcKey (byArcKey input))" using input that unfolding postmanInput_def by (metis image_eqI set_map)
    then show ?thesis using net same by auto
  qed
  have onePass: "onePassLength ?net obl = distanceMm (arcMetrics (the (?net (oblArcKey obl)))) \<and> 0 \<le> onePassLength ?net obl"
    if obl: "obl \<in> set (obligations problem)" for obl
  proof -
    obtain a where a: "a \<in> set input" "?net (oblArcKey obl) = Some a" using arcKnown [OF obl] by blast
    have "nonNegativeSafe (distanceMm (arcMetrics a))" using plain a(1) by (simp add: plainArc_def metricValues_def)
    moreover have "oblStart obl = 0" "oblEnd obl = WHOLE" using input obl by (auto simp: postmanInput_def)
    ultimately show ?thesis
      using a(2) by (simp add: onePassLength_def verifierSlice_def Let_def sliceValue_simps nonNegativeSafe_def)
  qed
  have coverable: "\<forall>obl \<in> set (obligations problem). coverable ?in ?net obl"
  proof
    fix obl assume obl: "obl \<in> set (obligations problem)"
    then have "0 \<le> requiredPasses obl" using pass by blast
    from pieces_covered [OF laid refl input trail ps ids obl this] this onePass [OF obl] arcKnown [OF obl]
    show "coverable ?in ?net obl" by (auto simp: coverable_def)
  qed
  have sort: "networkMap (byArcKey input) = ?net" by (rule networkMap_sorted [OF dis])
  have count: "(\<Sum>obl\<leftarrow>obligations problem. requiredPasses obl) \<le> maxSafeInteger"
  proof -
    have "(\<Sum>obl\<leftarrow>obligations problem. requiredPasses obl) \<le> int (length trail)"
      using service_weight [OF input trail pass, of "\<lambda>_. 1"] by (simp add: sum_list_const)
    moreover have "int (length trail) \<le> MAX_ROUTE_SEGMENTS" using trail by (simp add: serviceTrail_def)
    ultimately show ?thesis by (simp add: MAX_ROUTE_SEGMENTS_def maxSafeInteger_def)
  qed
  have lengths: "(\<Sum>obl\<leftarrow>obligations problem. onePassLength ?net obl * requiredPasses obl) \<le> maxSafeInteger"
  proof -
    have "(\<Sum>obl\<leftarrow>obligations problem. onePassLength ?net obl * requiredPasses obl) =
        (\<Sum>obl\<leftarrow>obligations problem. distanceMm (arcMetrics (the (?net (oblArcKey obl)))) * requiredPasses obl)"
      using onePass by (intro arg_cong [of _ _ sum_list] map_cong) auto
    also have "\<dots> \<le> (\<Sum>i\<leftarrow>trail. distanceMm (arcMetrics (instArc i)))"
      using service_weight [OF input trail pass, of "\<lambda>a. distanceMm (arcMetrics a)"] plain
      by (auto simp: sort same plainArc_def metricValues_def nonNegativeSafe_def)
    finally show ?thesis using weight totals_safe [OF totals] by linarith
  qed
  obtain figures where cover: "verifyCoverage ?in ?net = Inr (True, figures, [])"
    using verifyCoverage_accepts [of ?in ?net] coverable count lengths by auto
  have ends: "verifyEndpoints sha ?in ?net = Inr (True, True, [])"
    by (rule endpoints_accept [OF drive ne]) (use arcs e body in simp_all)
  have bound: "verifyBoundaryPolicy sha ?in = Inr (True, [])" using free by (simp add: verifyBoundaryPolicy_def Let_def)
  show ?thesis
  proof (rule verifier_accepts)
    show "\<forall>s \<in> set (bodySegments (routeBody (viCandidate ?in))). soundSegment ?in (networkOf ?in) s"
      using pieces_sound [OF laid ps ok] by simp
    show "drives (networkOf ?in) (placeOf startArc (stateFraction (startState problem)))
        (bodySegments (routeBody (viCandidate ?in))) (placeOf endArc (stateFraction e))" using drive by simp
  qed (use dis' plain totals ends bound cover signature in simp_all)
qed

lemma trailValues_distance: "trailValues trail ! 0 = (\<Sum>i\<leftarrow>trail. distanceMm (arcMetrics (instArc i)))"
  by (simp add: trailValues_nth metricValues_def)

lemma closed_pieces_ok:
  assumes trail: "serviceTrail problem arcs u trail u" and f: "validFraction f"
  shows "routePieces problem arcs trail (placeOf (instArc (hd trail)) f) (closedPieces f trail) (placeOf (instArc (hd trail)) f)"
proof -
  have ne: "trail \<noteq> []" "trailFrom u trail u" using trail by (simp_all add: serviceTrail_def)
  have range: "0 \<le> f" "f \<le> WHOLE" using f by (simp_all add: validFraction_def)
  have whole: "(0 :: int) < WHOLE" by (simp add: WHOLE_def)
  have piece: "\<exists>i \<in> set trail. \<exists>s e. p = pieceOf s e i \<and> 0 \<le> s \<and> s \<le> e \<and> e \<le> WHOLE" if "p \<in> set (closedPieces f trail)" for p
  proof -
    have "hd trail \<in> set trail" "set (tl trail) \<subseteq> set trail" using ne(1) by (auto dest: list.set_sel(2))
    then show ?thesis using that range whole by (fastforce simp: closedPieces_def)
  qed
  have "filter nonempty (closedPieces f trail) \<noteq> []"
    using whole by (auto simp: closedPieces_def nonempty_def pieceOf_def filter_empty_conv)
  moreover have "pieceArc p \<in> set arcs \<and> 0 \<le> pieceStart p \<and> pieceStart p \<le> pieceEnd p \<and> pieceEnd p \<le> WHOLE \<and>
        (pieceRole p = SERVICE \<longrightarrow> (\<exists>i \<in> set trail. instRole i = SERVICE \<and> instArc i = pieceArc p \<and> instObligations i = pieceIds p))"
    if p: "p \<in> set (closedPieces f trail)" for p
  proof -
    obtain i s e where i: "i \<in> set trail" "p = pieceOf s e i" "0 \<le> s" "s \<le> e" "e \<le> WHOLE" using piece [OF p] by blast
    then show ?thesis using trail_arcs [OF trail i(1)] by (auto simp: pieceOf_def)
  qed
  ultimately show ?thesis
    using closedPieces_chained [OF ne] closedPieces_covers [OF ne(1)] unfolding routePieces_def by blast
qed

lemma closed_verified:
  assumes run: "solveClosedDcpp sha problem input clock = Inr sol"
    and plain: "\<forall>a \<in> set input. plainArc policy a" and free: "boundaryCrossingPolicy problem = FREE"
    and ids: "distinct (map obligationId (obligations problem))" and pass: "\<forall>obl \<in> set (obligations problem). 0 \<le> requiredPasses obl"
  shows "\<exists>r. verifyCoverageRoute sha (verifyInput problem input policy (solutionRoute sol)) = Inr r \<and> reportStatus (reportBody r) = VALID"
proof -
  let ?f = "stateFraction (startState problem)"
  obtain trail where t: "postmanInput problem (byArcKey input)" "endpointMode problem = RETURN_TO_START"
    "serviceTrail problem (byArcKey input) (source (hd trail)) trail (source (hd trail))"
    "arcKey (instArc (hd trail)) = stateArcKey (startState problem)"
    "foldR pushPiece [] (closedPieces ?f trail) = Inr (bodySegments (routeBody (solutionRoute sol)))"
    "totalMetrics (bodySegments (routeBody (solutionRoute sol))) = Inr (bodyMetrics (routeBody (solutionRoute sol)))"
    "bodyStartState (routeBody (solutionRoute sol)) = startState problem"
    "bodyEndState (routeBody (solutionRoute sol)) = startState problem"
    "contractSha256 sha (routeBodyJson (routeBody (solutionRoute sol))) = Inr (routeSignature (solutionRoute sol))"
    using closed_solution [OF run] by blast
  have laid: "list_all2 laid (bodySegments (routeBody (solutionRoute sol))) (filter nonempty (closedPieces ?f trail))"
    using pushPiece_fold [OF t(5)] by simp
  have f: "validFraction ?f" using t(1) by (simp add: postmanInput_def)
  have ne: "trail \<noteq> []" using t(3) by (simp add: serviceTrail_def)
  have d: "distinct (map arcKey (byArcKey input))" using t(1) by (simp add: postmanInput_def)
  have start: "networkMap input (stateArcKey (startState problem)) = Some (instArc (hd trail))"
    using trail_arcs [OF t(3), of "hd trail"] ne t(4) networkMap_lookup [OF d] by (simp add: networkMap_sorted [OF d, symmetric])
  have "metricValues (bodyMetrics (routeBody (solutionRoute sol))) ! 0 = trailValues trail ! 0"
    using pieces_total [OF laid t(6), of 0] closedPieces_total [OF ne, of 0] by simp
  then have w: "(\<Sum>i\<leftarrow>trail. distanceMm (arcMetrics (instArc i))) \<le> distanceMm (bodyMetrics (routeBody (solutionRoute sol)))"
    by (simp add: trailValues_distance metricValues_def)
  show ?thesis
    by (rule route_verified [OF t(1) t(3) closed_pieces_ok [OF t(3) f] laid t(6) w start start _ t(7,8,9) plain free _ ids pass])
      (use t(2) in \<open>simp_all add: expectedEnd_def\<close>)
qed

section \<open>The open solver\<close>

definition sidePiece :: "traversal_arc \<Rightarrow> int \<Rightarrow> int \<Rightarrow> route_phase \<Rightarrow> service_role \<Rightarrow> piece" where
  "sidePiece a s e phase role = \<lparr>pieceArc = a, pieceStart = s, pieceEnd = e, piecePhase = phase, pieceRole = role, pieceIds = []\<rparr>"

definition openPieces :: "traversal_arc \<Rightarrow> int \<Rightarrow> traversal_arc \<Rightarrow> int \<Rightarrow> traversal_instance list \<Rightarrow> piece list" where
  "openPieces startArc f endArc g trail =
     (if 0 < f \<and> f < WHOLE then [sidePiece startArc f WHOLE ACCESS_PHASE ACCESS_ROLE] else []) @
     map (pieceOf 0 WHOLE) trail @
     (if 0 < g \<and> g < WHOLE then [sidePiece endArc 0 g RETURN_PHASE RETURN_ROLE] else [])"

lemma openTrail_pieces:
  "materializeExactOpenTrail problem fixedEnd trail startArc endArc =
     foldR pushPiece [] (openPieces startArc (stateFraction (startState problem)) endArc (stateFraction fixedEnd) trail)"
  by (auto simp: materializeExactOpenTrail_def Let_def openPieces_def foldR_append foldR_map pushInstance_piece
    bindR_assoc [symmetric] pushPiece_def sidePiece_def)

definition entryNode :: "traversal_arc \<Rightarrow> int \<Rightarrow> js_string" where
  "entryNode a f = (if f = 0 then fromNodeKey a else toNodeKey a)"

definition leaveNode :: "traversal_arc \<Rightarrow> int \<Rightarrow> js_string" where
  "leaveNode a g = (if g = WHOLE then toNodeKey a else fromNodeKey a)"

lemma open_pieces_ok:
  assumes trail: "serviceTrail problem arcs (entryNode startArc f) trail (leaveNode endArc g)"
    and f: "validFraction f" and g: "validFraction g" and arcs: "startArc \<in> set arcs" "endArc \<in> set arcs"
  shows "routePieces problem arcs trail (placeOf startArc f) (openPieces startArc f endArc g trail) (placeOf endArc g)"
proof -
  let ?ps = "openPieces startArc f endArc g trail"
  have ne: "trail \<noteq> []" "trailFrom (entryNode startArc f) trail (leaveNode endArc g)" using trail by (simp_all add: serviceTrail_def)
  have range: "0 \<le> f" "f \<le> WHOLE" "0 \<le> g" "g \<le> WHOLE" using f g by (simp_all add: validFraction_def)
  have whole: "(0 :: int) < WHOLE" by (simp add: WHOLE_def)
  have "chained (placeOf startArc f) ?ps (placeOf endArc g)"
    using chained_whole [OF ne(2)] range whole
    by (auto simp: openPieces_def chained_append sidePiece_def entryNode_def leaveNode_def placeOf_def)
  moreover have "filter nonempty ?ps \<noteq> []"
    using ne(1) whole by (cases trail) (auto simp: openPieces_def nonempty_def pieceOf_def)
  moreover have "pieceArc p \<in> set arcs \<and> 0 \<le> pieceStart p \<and> pieceStart p \<le> pieceEnd p \<and> pieceEnd p \<le> WHOLE \<and>
        (pieceRole p = SERVICE \<longrightarrow> (\<exists>i \<in> set trail. instRole i = SERVICE \<and> instArc i = pieceArc p \<and> instObligations i = pieceIds p))"
    if p: "p \<in> set ?ps" for p
    using p range whole arcs trail_arcs [OF trail] by (auto simp: openPieces_def sidePiece_def pieceOf_def split: if_splits)
  moreover have "length (filter (coversAt obl x) ?ps) = length (filter (serves obl) trail)" if "0 \<le> x" "x < WHOLE" for obl x
    using covers_whole [OF that, of obl trail] by (simp add: openPieces_def sidePiece_def coversAt_def)
  ultimately show ?thesis unfolding routePieces_def by blast
qed

lemma arcNamed_network:
  "distinct (map arcKey arcs) \<Longrightarrow> map_of (rev (map (\<lambda>a. (arcKey a, a)) arcs)) = networkMap arcs"
proof (rule ext)
  fix k assume d: "distinct (map arcKey arcs)"
  let ?es = "map (\<lambda>a. (arcKey a, a)) arcs"
  have "distinct (map fst ?es)" "distinct (map fst (rev ?es))" using d by (simp_all add: comp_def rev_map [symmetric])
  then have same: "map_of (rev ?es) k = Some a \<longleftrightarrow> map_of ?es k = Some a" for a
    by (simp only: map_of_eq_Some_iff set_rev)
  have "map_of (rev ?es) k = map_of ?es k"
  proof (cases "map_of ?es k")
    case None
    then have "map_of (rev ?es) k \<noteq> Some a" for a using same [of a] by simp
    then have "map_of (rev ?es) k = None" by (rule not_Some_eq [THEN iffD1, OF allI])
    then show ?thesis using None by simp
  next
    case (Some a)
    then show ?thesis using same [of a] by simp
  qed
  then show "map_of (rev ?es) k = networkMap arcs k" by (simp only: networkMap_def)
qed

lemma open_plan:
  assumes "openPlan problem input clock = Inr plan"
  shows "\<exists>fixedEnd startArc endArc trail. postmanInput problem (byArcKey input) \<and>
    endpointMode problem = FIXED_END \<and> fixedEndState problem = Some fixedEnd \<and>
    startArc \<in> set (byArcKey input) \<and> arcKey startArc = stateArcKey (startState problem) \<and>
    endArc \<in> set (byArcKey input) \<and> arcKey endArc = stateArcKey fixedEnd \<and>
    serviceTrail problem (byArcKey input) (entryNode startArc (stateFraction (startState problem))) trail (leaveNode endArc (stateFraction fixedEnd)) \<and>
    foldR pushPiece [] (openPieces startArc (stateFraction (startState problem)) endArc (stateFraction fixedEnd) trail) =
      Inr (bodySegments (planBody plan)) \<and>
    totalMetrics (bodySegments (planBody plan)) = Inr (bodyMetrics (planBody plan)) \<and>
    bodyStartState (planBody plan) = startState problem \<and>
    bodyEndState (planBody plan) = fixedEnd"
proof -
  obtain fixedEnd where mode: "endpointMode problem = FIXED_END" "fixedEndState problem = Some fixedEnd"
    using assms by (auto simp: openPlan_def split: endpoint_mode.splits option.splits)
  from assms show ?thesis
    unfolding openPlan_def mode prod.case endpoint_mode.case option.case Let_def case_prod_beta fst_conv snd_conv endpoint_mode.case option.case
  proof (elim bindR_InrE, goal_cases)
    case (1 arcs)
    have arcs: "arcs = byArcKey input" "postmanInput problem arcs" using validated_input [OF 1(1)] by auto
    then have d: "distinct (map arcKey arcs)" by (simp add: postmanInput_def)
    obtain startArc endArc where ends: "networkMap arcs (stateArcKey (startState problem)) = Some startArc"
        "networkMap arcs (stateArcKey fixedEnd) = Some endArc"
      using 1(2) unfolding arcNamed_network [OF d] by (auto split: option.splits)
    from 1(2) [unfolded arcNamed_network [OF d] ends option.case fst_conv snd_conv] show ?case
    proof (elim bindR_InrE, goal_cases)
      case (1 u r residual aug u' tr segs ms)
      have base: "fst r = requiredTraversals problem arcs"
        using requireArc_fold [of "obligationsByArc problem" "[]" "[]" arcs "fst r" "snd r"] 1(2) by (simp add: requiredTraversals_def)
      obtain supplies demands items dups clock' where aug: "aug = (supplies, demands, items, dups, clock')"
        by (cases aug) auto
      have dup: "\<forall>i \<in> set dups. instArc i \<in> set arcs \<and> instRole i = DUPLICATE_SERVICE"
        by (rule augmentBalance_duplicates [OF postman_costs [OF arcs(2)] 1(4) [unfolded aug]])
      obtain trail rest where tr: "tr = (trail, rest)" by (cases tr)
      note sound = eulerTrail_sound [OF 1(6) [unfolded tr]]
      have len: "length trail = length (fst r) + length dups" using mset_eq_length [OF sound(1)] by (simp add: aug)
      have "int (length trail) \<le> MAX_ROUTE_SEGMENTS" using 1(5) len by (simp add: aug)
      then have service: "serviceTrail problem (byArcKey input) (entryNode startArc (stateFraction (startState problem))) trail
          (leaveNode endArc (stateFraction fixedEnd))"
        unfolding serviceTrail_def entryNode_def leaveNode_def using sound(1,2,4) dup base arcs by (auto simp: aug)
      have member: "startArc \<in> set (byArcKey input)" "arcKey startArc = stateArcKey (startState problem)"
          "endArc \<in> set (byArcKey input)" "arcKey endArc = stateArcKey fixedEnd"
        using ends networkMap_lookup [OF d] arcs(1) by auto
      show ?case
        by (intro exI conjI) (rule arcs(2) [unfolded arcs(1)], rule refl, rule refl, (rule member)+, rule service,
          use 1 tr in \<open>auto simp: openTrail_pieces\<close>)
    qed
  qed
qed

lemma open_solution:
  assumes "solveOpenDcpp sha problem input clock = Inr sol"
  shows "\<exists>fixedEnd startArc endArc trail. postmanInput problem (byArcKey input) \<and>
    endpointMode problem = FIXED_END \<and> fixedEndState problem = Some fixedEnd \<and>
    startArc \<in> set (byArcKey input) \<and> arcKey startArc = stateArcKey (startState problem) \<and>
    endArc \<in> set (byArcKey input) \<and> arcKey endArc = stateArcKey fixedEnd \<and>
    serviceTrail problem (byArcKey input) (entryNode startArc (stateFraction (startState problem))) trail (leaveNode endArc (stateFraction fixedEnd)) \<and>
    foldR pushPiece [] (openPieces startArc (stateFraction (startState problem)) endArc (stateFraction fixedEnd) trail) =
      Inr (bodySegments (routeBody (solutionRoute sol))) \<and>
    totalMetrics (bodySegments (routeBody (solutionRoute sol))) = Inr (bodyMetrics (routeBody (solutionRoute sol))) \<and>
    bodyStartState (routeBody (solutionRoute sol)) = startState problem \<and>
    bodyEndState (routeBody (solutionRoute sol)) = fixedEnd \<and>
    contractSha256 sha (routeBodyJson (routeBody (solutionRoute sol))) = Inr (routeSignature (solutionRoute sol))"
proof -
  obtain plan where plan: "openPlan problem input clock = Inr plan" "dcppSolution sha plan = Inr sol"
    using assms unfolding solveOpenDcpp_def by (rule bindR_InrE)
  show ?thesis using open_plan [OF plan(1)] solution_parts [OF plan(2)] by (simp only: simp_thms)
qed

lemma open_weight:
  assumes trail: "serviceTrail problem arcs u trail w" and "postmanInput problem arcs"
    and f: "validFraction f" and g: "validFraction g" and arcs: "startArc \<in> set arcs" "endArc \<in> set arcs" and i: "i < 6"
  shows "trailValues trail ! i \<le> (\<Sum>p\<leftarrow>openPieces startArc f endArc g trail. pieceValues p ! i)"
proof -
  have pos: "0 \<le> pieceValues (sidePiece a s e ph ro) ! i" if "a \<in> set arcs" "0 \<le> s" "s \<le> e" "e \<le> WHOLE" for a s e ph ro
  proof -
    have "metricValues (arcMetrics a) ! i \<in> set (metricValues (arcMetrics a))" using i by (intro nth_mem) simp
    then have "nonNegativeSafe (metricValues (arcMetrics a) ! i)" using assms(2) that(1) unfolding postmanInput_def by blast
    from slice_valid [OF this that(2-4)] have "0 \<le> sliceValue s e (metricValues (arcMetrics a) ! i)"
      by (auto simp: slice_value nonNegativeSafe_def)
    then show ?thesis using i by (simp add: pieceValues_def sidePiece_def)
  qed
  show ?thesis
    using pos [OF arcs(1), of f WHOLE] pos [OF arcs(2), of 0 g] f g wholes_total [OF i, of trail]
    by (auto simp: openPieces_def validFraction_def)
qed

lemma open_verified:
  assumes run: "solveOpenDcpp sha problem input clock = Inr sol"
    and plain: "\<forall>a \<in> set input. plainArc policy a" and free: "boundaryCrossingPolicy problem = FREE"
    and ids: "distinct (map obligationId (obligations problem))" and pass: "\<forall>obl \<in> set (obligations problem). 0 \<le> requiredPasses obl"
  shows "\<exists>r. verifyCoverageRoute sha (verifyInput problem input policy (solutionRoute sol)) = Inr r \<and> reportStatus (reportBody r) = VALID"
proof -
  let ?f = "stateFraction (startState problem)" and ?body = "routeBody (solutionRoute sol)"
  obtain fixedEnd startArc endArc trail where t: "postmanInput problem (byArcKey input)"
    "endpointMode problem = FIXED_END" "fixedEndState problem = Some fixedEnd"
    "startArc \<in> set (byArcKey input)" "arcKey startArc = stateArcKey (startState problem)"
    "endArc \<in> set (byArcKey input)" "arcKey endArc = stateArcKey fixedEnd"
    "serviceTrail problem (byArcKey input) (entryNode startArc ?f) trail (leaveNode endArc (stateFraction fixedEnd))"
    "foldR pushPiece [] (openPieces startArc ?f endArc (stateFraction fixedEnd) trail) = Inr (bodySegments ?body)"
    "totalMetrics (bodySegments ?body) = Inr (bodyMetrics ?body)"
    "bodyStartState ?body = startState problem" "bodyEndState ?body = fixedEnd"
    "contractSha256 sha (routeBodyJson ?body) = Inr (routeSignature (solutionRoute sol))"
    using open_solution [OF run] by blast
  have laid: "list_all2 laid (bodySegments ?body) (filter nonempty (openPieces startArc ?f endArc (stateFraction fixedEnd) trail))"
    using pushPiece_fold [OF t(9)] by simp
  have f: "validFraction ?f" "validFraction (stateFraction fixedEnd)" using t(1,3) by (simp_all add: postmanInput_def)
  have d: "distinct (map arcKey (byArcKey input))" using t(1) by (simp add: postmanInput_def)
  have ends: "networkMap input (stateArcKey (startState problem)) = Some startArc" "networkMap input (stateArcKey fixedEnd) = Some endArc"
    using t(4-7) networkMap_lookup [OF d] by (simp_all add: networkMap_sorted [OF d, symmetric])
  have "trailValues trail ! 0 \<le> metricValues (bodyMetrics ?body) ! 0"
    using pieces_total [OF laid t(10), of 0] open_weight [OF t(8,1) f t(4,6), of 0] by simp
  then have w: "(\<Sum>i\<leftarrow>trail. distanceMm (arcMetrics (instArc i))) \<le> distanceMm (bodyMetrics ?body)"
    by (simp add: trailValues_distance metricValues_def)
  show ?thesis
    by (rule route_verified [OF t(1) t(8) open_pieces_ok [OF t(8) f t(4,6)] laid t(10) w ends _ t(11,12,13) plain free _ ids pass])
      (use t(2,3) in \<open>simp_all add: expectedEnd_def\<close>)
qed

section \<open>Example runs\<close>

lemma dcppSolution_ok:
  assumes "bodyBoundaryEvents (planBody plan) = Some []" and "isOk (foldR (\<lambda>sum item. safeAdd sum (augQuantity item)) 0 (planItems plan))"
  shows "\<exists>sol. dcppSolution sha plan = Inr sol"
proof -
  have "supported (routeBodyJson (planBody plan))" using assms(1) by (simp add: supported_routeBody)
  then obtain t where "contractSha256 sha (routeBodyJson (planBody plan)) = Inr t" using contractSha256_ok by blast
  then show ?thesis using assms(2) by (auto simp: dcppSolution_def signRoute_def isOk_iff)
qed

text \<open>A plan that can be signed.\<close>

definition signable :: "coverage_error + dcpp_plan \<Rightarrow> bool" where
  "signable m = (case m of Inl _ \<Rightarrow> False | Inr plan \<Rightarrow> bodyBoundaryEvents (planBody plan) = Some [] \<and>
     isOk (foldR (\<lambda>sum item. safeAdd sum (augQuantity item)) 0 (planItems plan)))"

lemma signable_solution: "signable m \<Longrightarrow> \<exists>sol. bindR m (dcppSolution sha) = Inr sol"
  by (cases m) (auto simp: signable_def dcppSolution_ok)

definition villageArcs :: "traversal_arc list" where
  "villageArcs = [townArc ''a'' ''A'' ''B'' 8, townArc ''b'' ''B'' ''A'' 10, townArc ''c'' ''A'' ''B'' 5]"

definition villageProblem :: "coverage_problem" where
  "villageProblem = (townProblem [townObligation ''o1'' ''a'' 0 WHOLE 1, townObligation ''o2'' ''b'' 0 WHOLE 1,
     townObligation ''o3'' ''c'' 0 WHOLE 1])\<lparr>startState := townState ''a'' 250000\<rparr>"

lemma village_closed: "\<exists>sol. solveClosedDcpp (\<lambda>_. []) villageProblem villageArcs 40 = Inr sol"
proof -
  have "signable (closedPlan villageProblem villageArcs 40)" by code_simp
  then show ?thesis unfolding solveClosedDcpp_def by (rule signable_solution)
qed

definition crossingProblem :: "coverage_problem" where
  "crossingProblem = villageProblem\<lparr>endpointMode := FIXED_END, fixedEndState := Some (townState ''c'' 500000)\<rparr>"

lemma village_open: "\<exists>sol. solveOpenDcpp (\<lambda>_. []) crossingProblem villageArcs 40 = Inr sol"
proof -
  have "signable (openPlan crossingProblem villageArcs 40)" by code_simp
  then show ?thesis unfolding solveOpenDcpp_def by (rule signable_solution)
qed

lemma village_plain: "\<forall>a \<in> set villageArcs. plainArc (viPolicy townInput) a"
  by (simp add: villageArcs_def townArc_def plainArc_def profileEligible_def townInput_def maskAnd_def toInt32_def
    metricValues_def turnPenalty_def nonNegativeSafe_def isSafeInteger_def maxSafeInteger_def)

section \<open>Properties\<close>

text \<open>
  C2. The route of the closed solver drives every obligation as often as required.  Whenever
  \<open>solveClosedDcpp\<close> returns, its segments form a connected drive from the start state back to it;
  every millionth of every obligation is served exactly the required number of times, although
  the first traversal may be split over both ends of the route; and the route's metrics are the
  sums of the stored metrics of whole traversals: splitting loses nothing to rounding.
\<close>

theorem closed_route_exact:
  assumes "solveClosedDcpp sha problem input clock = Inr sol"
  shows "let body = routeBody (solutionRoute sol); segs = bodySegments body; f = stateFraction (startState problem) in
    \<exists>trail startArc. serviceTrail problem (byArcKey input) (source (hd trail)) trail (source (hd trail)) \<and>
      networkMap input (stateArcKey (startState problem)) = Some startArc \<and>
      drives (networkMap input) (placeOf startArc f) segs (placeOf startArc f) \<and>
      (\<forall>obl \<in> set (obligations problem). \<forall>x. 0 \<le> x \<longrightarrow> x < WHOLE \<longrightarrow> timesServed segs obl x = max 0 (requiredPasses obl)) \<and>
      metricValues (bodyMetrics body) = trailValues trail"
  using closed_route [OF assms] unfolding Let_def by blast

lemma closed_route_exact_witness:
  "\<exists>sol. solveClosedDcpp (\<lambda>_. []) villageProblem villageArcs 40 = Inr sol \<and>
     timesServed (bodySegments (routeBody (solutionRoute sol))) (townObligation ''o2'' ''b'' 0 WHOLE 1) 5 = 1"
proof -
  obtain sol where sol: "solveClosedDcpp (\<lambda>_. []) villageProblem villageArcs 40 = Inr sol" using village_closed by blast
  have "townObligation ''o2'' ''b'' 0 WHOLE 1 \<in> set (obligations villageProblem)" "requiredPasses (townObligation ''o2'' ''b'' 0 WHOLE 1) = 1"
    by (simp_all add: villageProblem_def townProblem_def townObligation_def)
  then show ?thesis using closed_route_exact [OF sol] sol by (auto simp: Let_def WHOLE_def)
qed

text \<open>
  C1. Solver and verifier agree (closed routes).  Every route that \<open>solveClosedDcpp\<close> returns is
  reported VALID by the independent verifier, given the network the solver used, no turn rules
  and a policy that permits and re-prices none of its arcs: none of the verifier's additions
  overflows, and no other hypothesis on the network is needed.  Assumed of the problem: its boundary
  may be crossed freely (without boundary events the verifier refuses every other crossing policy),
  its obligations have distinct names and their numbers of passes are not negative.
\<close>

theorem closed_route_verified:
  assumes "solveClosedDcpp sha problem input clock = Inr sol"
    and "\<forall>a \<in> set input. plainArc policy a" and "boundaryCrossingPolicy problem = FREE"
    and "distinct (map obligationId (obligations problem))" and "\<forall>obl \<in> set (obligations problem). 0 \<le> requiredPasses obl"
  shows "\<exists>r. verifyCoverageRoute sha (verifyInput problem input policy (solutionRoute sol)) = Inr r \<and>
    reportStatus (reportBody r) = VALID"
  by (rule closed_verified [OF assms])

lemma village_problem:
  "boundaryCrossingPolicy villageProblem = FREE" "distinct (map obligationId (obligations villageProblem))"
  "\<forall>obl \<in> set (obligations villageProblem). 0 \<le> requiredPasses obl"
  by (simp_all add: villageProblem_def townProblem_def townObligation_def js_def)

lemma closed_route_verified_witness:
  "\<exists>sol r. solveClosedDcpp (\<lambda>_. []) villageProblem villageArcs 40 = Inr sol \<and>
     verifyCoverageRoute (\<lambda>_. []) (verifyInput villageProblem villageArcs (viPolicy townInput) (solutionRoute sol)) = Inr r \<and>
     reportStatus (reportBody r) = VALID"
proof -
  obtain sol where sol: "solveClosedDcpp (\<lambda>_. []) villageProblem villageArcs 40 = Inr sol" using village_closed by blast
  then show ?thesis using closed_route_verified [OF sol village_plain village_problem] by blast
qed

text \<open>
  C6. Solver and verifier agree (open routes).  Every route that \<open>solveOpenDcpp\<close> returns, with its
  access and return pieces on the first and last arc, is reported VALID by the verifier under
  the same conditions: the network the solver used, no turn rules, a policy that permits and
  re-prices none of its arcs, a boundary that may be crossed freely, obligations with distinct
  names and numbers of passes that are not negative.
\<close>

theorem open_route_verified:
  assumes "solveOpenDcpp sha problem input clock = Inr sol"
    and "\<forall>a \<in> set input. plainArc policy a" and "boundaryCrossingPolicy problem = FREE"
    and "distinct (map obligationId (obligations problem))" and "\<forall>obl \<in> set (obligations problem). 0 \<le> requiredPasses obl"
  shows "\<exists>r. verifyCoverageRoute sha (verifyInput problem input policy (solutionRoute sol)) = Inr r \<and>
    reportStatus (reportBody r) = VALID"
  by (rule open_verified [OF assms])

lemma open_route_verified_witness:
  "\<exists>sol r. solveOpenDcpp (\<lambda>_. []) crossingProblem villageArcs 40 = Inr sol \<and>
     verifyCoverageRoute (\<lambda>_. []) (verifyInput crossingProblem villageArcs (viPolicy townInput) (solutionRoute sol)) = Inr r \<and>
     reportStatus (reportBody r) = VALID"
proof -
  obtain sol where sol: "solveOpenDcpp (\<lambda>_. []) crossingProblem villageArcs 40 = Inr sol" using village_open by blast
  have "boundaryCrossingPolicy crossingProblem = FREE" "distinct (map obligationId (obligations crossingProblem))"
    "\<forall>obl \<in> set (obligations crossingProblem). 0 \<le> requiredPasses obl"
    using village_problem by (simp_all add: crossingProblem_def)
  then show ?thesis using open_route_verified [OF sol village_plain] sol by blast
qed

end
