(* ===== verification/TravelSteps.thy ===== *)
theory TravelSteps
  imports ClosedDcpp
begin

text \<open>
  What the rural postman solver (\<open>fixed-rpp.ts\<close>) and the strict solver (\<open>strict-routing.ts\<close>) of
  \<open>road-coverage-planning-core/src\<close> have in common: arcs cut at the fractions where something
  starts or ends, the classification of a connector step, and the walk over weak components.
\<close>

section \<open>Steps\<close>

text \<open>\<open>AtomicStep\<close> and \<open>StrictStep\<close> have the same fields.\<close>

record travel_step =
  stepId :: js_string
  stepGraphVersion :: js_string
  stepArcKey :: js_string
  stepFrom :: js_string
  stepTo :: js_string
  stepStart :: int
  stepEnd :: int
  stepMetrics :: fixed_metrics
  stepFeature :: "versioned_reference option"

definition stepOf :: "js_string \<Rightarrow> traversal_arc \<Rightarrow> int \<Rightarrow> int \<Rightarrow> coverage_error + travel_step" where
  "stepOf identity arc start end =
     bindR (sliceMetrics (arcMetrics arc) start end) (\<lambda>m.
       Inr \<lparr>stepId = identity, stepGraphVersion = arcGraphVersion arc, stepArcKey = arcKey arc,
         stepFrom = stateNode arc start, stepTo = stateNode arc end, stepStart = start, stepEnd = end,
         stepMetrics = m, stepFeature = arcFeature arc\<rparr>)"

text \<open>The key of an arc and a fraction interval, as it ends the identity of a step.\<close>

definition intervalKey :: "traversal_arc \<Rightarrow> int \<Rightarrow> int \<Rightarrow> js_string" where
  "intervalKey arc start end = arcKey arc @ js '':'' @ padSeven start @ js '':'' @ padSeven end"

text \<open>\<open>new Map(arcs.map((arc) => [arc.arcKey, arc]))\<close>: a later entry replaces an earlier one.\<close>

definition arcsByKey :: "traversal_arc list \<Rightarrow> js_string \<rightharpoonup> traversal_arc" where
  "arcsByKey arcs = map_of (rev (map (\<lambda>a. (arcKey a, a)) arcs))"

definition byStepId :: "travel_step list \<Rightarrow> travel_step list" where
  "byStepId steps = sort_by (\<lambda>l r. compareUnicodeCodePoints (stepId l) (stepId r)) steps"

definition byObligationId :: "obligation list \<Rightarrow> obligation list" where
  "byObligationId obls = sort_by (\<lambda>l r. compareUnicodeCodePoints (obligationId l) (obligationId r)) obls"

section \<open>Fractions\<close>

text \<open>
  The \<open>Set\<close> of an arc starts with \<open>0\<close> and \<open>WHOLE\<close>; the marks are the additions to the sets in
  their order; the sets are read sorted.
\<close>

definition fractionsOf :: "(js_string \<times> int) list \<Rightarrow> js_string \<Rightarrow> int list" where
  "fractionsOf marks key = sort (remdups ([0, WHOLE] @ map snd (filter (\<lambda>m. fst m = key) marks)))"

definition obligationMarks :: "obligation list \<Rightarrow> (js_string \<times> int) list" where
  "obligationMarks obls = concat (map (\<lambda>obl. [(oblArcKey obl, oblStart obl), (oblArcKey obl, oblEnd obl)]) obls)"

definition stateMark :: "directed_state \<Rightarrow> js_string \<times> int" where
  "stateMark s = (stateArcKey s, stateFraction s)"

fun consecutive :: "'a list \<Rightarrow> ('a \<times> 'a) list" where
  "consecutive (p # q # ps) = (p, q) # consecutive (q # ps)"
| "consecutive _ = []"

definition atomicCuts ::
  "(traversal_arc \<Rightarrow> int \<Rightarrow> int \<Rightarrow> coverage_error + travel_step) \<Rightarrow> (js_string \<Rightarrow> int list) \<Rightarrow> traversal_arc list \<Rightarrow>
     coverage_error + travel_step list" where
  "atomicCuts cutArc fractions arcs =
     bindR (mapR (\<lambda>(arc, s, e). cutArc arc s e)
       (concat (map (\<lambda>arc. map (Pair arc) (consecutive (fractions (arcKey arc)))) arcs))) (\<lambda>steps.
     Inr (byStepId steps))"

section \<open>Connector steps\<close>

text \<open>Obligations whose interval contains the step; \<open>.sort()\<close> is by code unit.\<close>

definition obligationsOver :: "travel_step \<Rightarrow> obligation list \<Rightarrow> js_string list" where
  "obligationsOver step obls = sort_by compareText (map obligationId
     (filter (\<lambda>obl. oblArcKey obl = stepArcKey step \<and> oblStart obl \<le> stepStart step \<and> stepEnd step \<le> oblEnd obl) obls))"

definition connectorRole :: "js_string list \<Rightarrow> service_role" where
  "connectorRole ids = (if ids \<noteq> [] then DUPLICATE_SERVICE else TRANSIT)"

definition stepSegment ::
  "nat \<Rightarrow> travel_step \<Rightarrow> route_phase \<Rightarrow> service_role \<Rightarrow> js_string list \<Rightarrow> route_segment" where
  "stepSegment sequence step phase role ids =
     \<lparr>segSequence = sequence, segGraphVersion = stepGraphVersion step, segArcKey = stepArcKey step,
      segStart = stepStart step, segEnd = stepEnd step, segPhase = phase, segRole = role,
      segObligationIds = (if ids = [] then None else Some ids), segFeature = stepFeature step,
      segMetrics = stepMetrics step\<rparr>"

section \<open>Both directions of an edge\<close>

definition edgeArcs :: "obligation list \<Rightarrow> js_string \<Rightarrow> js_string list" where
  "edgeArcs obls edge = remdups (map oblArcKey (filter (\<lambda>obl. oblEdgeKey obl = Some edge) obls))"

definition bothDirections :: "obligation list \<Rightarrow> bool" where
  "bothDirections obls \<longleftrightarrow> (\<exists>obl \<in> set obls. case oblEdgeKey obl of None \<Rightarrow> False | Some edge \<Rightarrow> 1 < length (edgeArcs obls edge))"

section \<open>Weak components\<close>

text \<open>A \<open>Set\<close> keeps the first of equal insertions, \<open>remdups\<close> the last.\<close>

definition insertionOrder :: "'a list \<Rightarrow> 'a list" where
  "insertionOrder xs = rev (remdups (rev xs))"

lemma set_insertionOrder [simp]: "set (insertionOrder xs) = set xs"
  by (simp add: insertionOrder_def)

lemma distinct_insertionOrder [simp]: "distinct (insertionOrder xs)"
  by (simp add: insertionOrder_def)

type_synonym links = "(js_string \<times> js_string) list"

definition stepLinks :: "travel_step list \<Rightarrow> links" where
  "stepLinks steps = map (\<lambda>s. (stepFrom s, stepTo s)) steps"

definition linkNodes :: "links \<Rightarrow> js_string list" where
  "linkNodes links = sort_by compareText (insertionOrder (concat (map (\<lambda>(u, v). [u, v]) links)))"

definition linked :: "links \<Rightarrow> js_string \<Rightarrow> js_string list" where
  "linked links node = insertionOrder (concat (map (\<lambda>(u, v).
     (if u = node then [v] else []) @ (if v = node then [u] else [])) links))"

lemma set_linked: "set (linked links u) = {v. (u, v) \<in> set links \<or> (v, u) \<in> set links}"
  by (auto simp: linked_def split: if_splits)

lemma set_linkNodes: "set (linkNodes links) = fst ` set links \<union> snd ` set links"
  by (force simp: linkNodes_def)

lemma linked_unknown: "u \<notin> set (linkNodes links) \<Longrightarrow> linked links u = []"
  using set_linked [of links u] by (force simp: set_linkNodes simp flip: set_empty)

function visitLinks :: "links \<Rightarrow> js_string list \<Rightarrow> js_string list \<Rightarrow> js_string list" where
  "visitLinks links visited [] = visited"
| "visitLinks links visited (current # stack) =
     (if current \<in> set visited then visitLinks links visited stack
      else visitLinks links (visited @ [current])
        (rev (filter (\<lambda>n. n \<notin> set (visited @ [current])) (linked links current)) @ stack))"
  by pat_completeness auto

termination
proof (relation "measures [\<lambda>(links, visited, stack). card (set (linkNodes links) - set visited),
    \<lambda>(links, visited, stack). length stack]", goal_cases)
  case (3 links visited current stack)
  show ?case
  proof (cases "current \<in> set (linkNodes links)")
    case True
    then have "card (set (linkNodes links) - set (visited @ [current])) < card (set (linkNodes links) - set visited)"
      using 3 by (intro psubset_card_mono) auto
    then show ?thesis by simp
  next
    case False
    then have "set (linkNodes links) - set (visited @ [current]) = set (linkNodes links) - set visited" by auto
    then show ?thesis using linked_unknown [OF False] by simp
  qed
qed simp_all

end
