(* ===== verification/FixedRpp.thy ===== *)
theory FixedRpp
  imports TravelSteps
begin

text \<open>
  \<open>solveFixedDirectionRpp\<close> of \<open>road-coverage-planning-core/src/fixed-rpp.ts\<close>: the bounded
  heuristic for a rural postman with fixed directions.  The required steps are joined by a
  spanning tree of connectors, the balance is restored by a transportation, and an Euler trail
  over all of it is the route.

  \<open>minimumCostFlow\<close>, \<open>addResidual\<close>, \<open>imbalance\<close> and \<open>addBalance\<close> repeat their counterparts of
  \<open>closed-dcpp.ts\<close> line by line, the flow on paths of steps instead of arcs, so those definitions
  serve here as well.  \<open>connector_state\<close> is what the closure \<open>path\<close> keeps: its cache, the number
  of matrix cells, and the clock.
\<close>

section \<open>Data\<close>

record route_edge =
  edgeId :: js_string
  edgeStep :: travel_step
  edgeRole :: service_role
  edgeObligations :: "js_string list"

type_synonym step_path = "travel_step priced_path"

record required_component =
  componentId :: js_string
  componentNodes :: "js_string list"

record component_link =
  linkLeft :: nat
  linkRight :: nat
  linkFrom :: js_string
  linkTo :: js_string
  linkPath :: step_path

record connector_state =
  cachedPaths :: "js_string \<rightharpoonup> step_path"
  cellsUsed :: nat
  clockLeft :: nat

section \<open>Validation and the atomic network\<close>

definition admitService :: "coverage_problem \<Rightarrow> js_string list \<Rightarrow> unit \<Rightarrow> obligation \<Rightarrow> coverage_error + unit" where
  "admitService problem byArc u obl =
     bindR (ensureR (oblArcKey obl \<in> set byArc \<and> oblGraphVersion obl = snapGraphVersion (routingSnapshot problem))
       (Planning VERSION_NOT_FOUND)) (\<lambda>_.
     ensureR (oblStart obl < oblEnd obl) (Planning NO_FEASIBLE_PLAN))"

definition validState :: "(js_string \<rightharpoonup> traversal_arc) \<Rightarrow> directed_state \<Rightarrow> bool" where
  "validState byArc s \<longleftrightarrow>
     (case byArc (stateArcKey s) of None \<Rightarrow> False
      | Some arc \<Rightarrow> arcDirection arc = stateDirection s \<and> isSafeInteger (stateFraction s) \<and>
          0 \<le> stateFraction s \<and> stateFraction s \<le> WHOLE)"

definition validateRppInput ::
  "coverage_problem \<Rightarrow> traversal_arc list \<Rightarrow> coverage_error + traversal_arc list" where
  "validateRppInput problem input =
     bindR (ensureR (input \<noteq> []) (Planning NO_FEASIBLE_PLAN)) (\<lambda>_.
     let arcs = byArcKey input in
     bindR (foldR (admitArc problem) [] arcs) (\<lambda>byArc.
     bindR (foldR (admitService problem byArc) () (obligations problem)) (\<lambda>_.
     bindR (ensureR (validState (arcsByKey arcs) (startState problem)) (Planning NO_FEASIBLE_PLAN)) (\<lambda>_.
     bindR (ensureR (endpointMode problem = FIXED_END \<longrightarrow>
         (case fixedEndState problem of None \<Rightarrow> False | Some s \<Rightarrow> validState (arcsByKey arcs) s))
       (Planning NO_FEASIBLE_PLAN)) (\<lambda>_. Inr arcs)))))"

text \<open>\<open>values.get(key)!.add\<close> fails with a \<open>TypeError\<close> for a key without an entry.\<close>

definition rppFractions :: "coverage_problem \<Rightarrow> traversal_arc list \<Rightarrow> coverage_error + (js_string \<Rightarrow> int list)" where
  "rppFractions problem arcs =
     (let marks = obligationMarks (obligations problem) @ [stateMark (startState problem)] @
            (case fixedEndState problem of None \<Rightarrow> [] | Some s \<Rightarrow> [stateMark s]) in
      bindR (ensureR (\<forall>m \<in> set marks. fst m \<in> set (map arcKey arcs)) Stuck) (\<lambda>_.
      Inr (fractionsOf marks)))"

definition atomicStep :: "traversal_arc \<Rightarrow> int \<Rightarrow> int \<Rightarrow> coverage_error + travel_step" where
  "atomicStep arc start end = stepOf (js ''atomic:'' @ intervalKey arc start end) arc start end"

definition buildAtomicNetwork ::
  "traversal_arc list \<Rightarrow> (js_string \<Rightarrow> int list) \<Rightarrow> coverage_error + travel_step list" where
  "buildAtomicNetwork arcs fractions = atomicCuts atomicStep fractions arcs"

definition serviceEdges :: "(js_string \<rightharpoonup> traversal_arc) \<Rightarrow> obligation \<Rightarrow> coverage_error + route_edge list" where
  "serviceEdges byArc obl =
     bindR (getBang byArc (oblArcKey obl)) (\<lambda>arc.
     bindR (stepOf (js ''service:'' @ obligationId obl) arc (oblStart obl) (oblEnd obl)) (\<lambda>step.
     Inr (map (\<lambda>pass. \<lparr>edgeId = stepId step @ js '':'' @ padStart 2 (int pass), edgeStep = step,
         edgeRole = SERVICE, edgeObligations = [obligationId obl]\<rparr>)
       [1..<nat (requiredPasses obl) + 1])))"

definition buildRequiredEdges ::
  "obligation list \<Rightarrow> (js_string \<rightharpoonup> traversal_arc) \<Rightarrow> coverage_error + route_edge list" where
  "buildRequiredEdges obls byArc =
     bindR (mapR (serviceEdges byArc) (byObligationId obls)) (\<lambda>edges. Inr (concat edges))"

definition classifiedEdge :: "js_string \<Rightarrow> travel_step \<Rightarrow> obligation list \<Rightarrow> route_edge" where
  "classifiedEdge identity step obls =
     (let ids = obligationsOver step obls in
      \<lparr>edgeId = identity, edgeStep = step, edgeRole = connectorRole ids, edgeObligations = ids\<rparr>)"

section \<open>Components\<close>

definition requiredComponent ::
  "links \<Rightarrow> required_component list \<times> js_string list \<Rightarrow> js_string \<Rightarrow> required_component list \<times> js_string list" where
  "requiredComponent links = (\<lambda>(result, visited) node.
     if node \<in> set visited then (result, visited)
     else (let visited' = visitLinks links visited [node];
               nodes = sort_by compareText (drop (length visited) visited') in
       (result @ [\<lparr>componentId = js ''required:'' @ hd nodes, componentNodes = nodes\<rparr>], visited')))"

definition terminalComponent :: "required_component list \<Rightarrow> js_string \<Rightarrow> required_component list" where
  "terminalComponent result terminal =
     (if \<exists>c \<in> set result. terminal \<in> set (componentNodes c) then result
      else result @ [\<lparr>componentId = js ''terminal:'' @ terminal, componentNodes = [terminal]\<rparr>])"

definition requiredComponents :: "route_edge list \<Rightarrow> js_string \<Rightarrow> js_string \<Rightarrow> required_component list" where
  "requiredComponents edges start end =
     (let links = stepLinks (map edgeStep edges);
          required = fst (foldl (requiredComponent links) ([], []) (linkNodes links));
          terminals = sort_by compareText (insertionOrder [start, end]) in
      sort_by (\<lambda>l r. compareUnicodeCodePoints (componentId l) (componentId r))
        (foldl terminalComponent required terminals))"

section \<open>Connectors\<close>

record step_search =
  stepDistance :: "js_string \<Rightarrow> int option"
  stepPrevious :: "js_string \<Rightarrow> travel_step option"
  stepSettled :: "js_string list"

definition stepNodes :: "travel_step list \<Rightarrow> js_string list" where
  "stepNodes network = sort_by compareText (remdups (concat (map (\<lambda>s. [stepFrom s, stepTo s]) network)))"

definition stepsFrom :: "travel_step list \<Rightarrow> js_string \<Rightarrow> travel_step list" where
  "stepsFrom network node = byStepId (filter (\<lambda>s. stepFrom s = node) network)"

definition nearerStep :: "step_search \<Rightarrow> (js_string \<times> int) option \<Rightarrow> js_string \<Rightarrow> (js_string \<times> int) option" where
  "nearerStep st best node =
     (case stepDistance st node of None \<Rightarrow> best
      | Some candidate \<Rightarrow>
          if node \<notin> set (stepSettled st) \<and> (case best of None \<Rightarrow> True | Some (_, current) \<Rightarrow> candidate < current)
          then Some (node, candidate) else best)"

definition relaxStep :: "int \<Rightarrow> step_search \<Rightarrow> travel_step \<Rightarrow> coverage_error + step_search" where
  "relaxStep d st step =
     bindR (safeAdd d (combinedCostUnits (stepMetrics step))) (\<lambda>candidate.
       Inr (if (case stepDistance st (stepTo step) of None \<Rightarrow> True | Some existing \<Rightarrow> candidate < existing)
            then st\<lparr>stepDistance := (stepDistance st)(stepTo step \<mapsto> candidate),
                    stepPrevious := (stepPrevious st)(stepTo step \<mapsto> step)\<rparr>
            else st))"

fun stepSearchLoop ::
  "travel_step list \<Rightarrow> js_string list \<Rightarrow> js_string \<Rightarrow> nat \<Rightarrow> step_search \<Rightarrow> coverage_error + (step_search \<times> nat)" where
  "stepSearchLoop network nodes to clock st =
     (if length (stepSettled st) < length nodes
      then (case clock of 0 \<Rightarrow> Inl (Planning RESOURCE_EXHAUSTED)
        | Suc rest \<Rightarrow>
          (case foldl (nearerStep st) None nodes of None \<Rightarrow> Inr (st, rest)
           | Some (current, d) \<Rightarrow>
               if current = to then Inr (st, rest)
               else bindR (foldR (relaxStep d) (st\<lparr>stepSettled := stepSettled st @ [current]\<rparr>)
                      (stepsFrom network current)) (\<lambda>st'. stepSearchLoop network nodes to rest st')))
      else Inr (st, clock))"

declare stepSearchLoop.simps [simp del]

fun stepWalkBack ::
  "(js_string \<Rightarrow> travel_step option) \<Rightarrow> js_string \<Rightarrow> nat \<Rightarrow> js_string \<Rightarrow> travel_step list \<Rightarrow>
     coverage_error + travel_step list" where
  "stepWalkBack prev from fuel cursor path =
     (if cursor = from then Inr path
      else (case prev cursor of None \<Rightarrow> Inl (Planning UNREACHABLE)
        | Some step \<Rightarrow> (case fuel of 0 \<Rightarrow> Inl Stuck
            | Suc n \<Rightarrow> stepWalkBack prev from n (stepFrom step) (step # path))))"

declare stepWalkBack.simps [simp del]

definition stepShortestPath ::
  "travel_step list \<Rightarrow> js_string \<Rightarrow> js_string \<Rightarrow> nat \<Rightarrow> coverage_error + (step_path \<times> nat)" where
  "stepShortestPath network from to clock =
     (if from = to then Inr (\<lparr>pathCost = 0, pathArcs = []\<rparr>, clock)
      else bindR (stepSearchLoop network (stepNodes network) to clock
             \<lparr>stepDistance = (\<lambda>_. None)(from \<mapsto> 0), stepPrevious = (\<lambda>_. None), stepSettled = []\<rparr>) (\<lambda>(st, rest).
        (case stepDistance st to of None \<Rightarrow> Inl (Planning UNREACHABLE)
         | Some cost \<Rightarrow>
             bindR (stepWalkBack (stepPrevious st) from (length (stepNodes network) + 1) to []) (\<lambda>path.
               Inr (\<lparr>pathCost = cost, pathArcs = path\<rparr>, rest)))))"

definition connectorPath ::
  "coverage_problem \<Rightarrow> travel_step list \<Rightarrow> connector_state \<Rightarrow> js_string \<Rightarrow> js_string \<Rightarrow>
     coverage_error + (step_path \<times> connector_state)" where
  "connectorPath problem network st from to =
     (case cachedPaths st (pairKey from to) of Some cached \<Rightarrow> Inr (cached, st)
      | None \<Rightarrow>
          bindR (ensureR (int (cellsUsed st + 1) \<le> maximumMatrixCells (budgets problem)) (Planning RESOURCE_EXHAUSTED)) (\<lambda>_.
          bindR (stepShortestPath network from to (clockLeft st)) (\<lambda>(found, rest).
          Inr (found, st\<lparr>cachedPaths := (cachedPaths st)(pairKey from to \<mapsto> found),
            cellsUsed := cellsUsed st + 1, clockLeft := rest\<rparr>))))"

section \<open>The spanning tree\<close>

fun joinBar :: "js_string list \<Rightarrow> js_string" where
  "joinBar [] = []"
| "joinBar [s] = s"
| "joinBar (s # t # ss) = s @ [124] @ joinBar (t # ss)"

definition compareLinks :: "component_link \<Rightarrow> component_link \<Rightarrow> int" where
  "compareLinks left right =
     orElse (pathCost (linkPath left) - pathCost (linkPath right))
     (orElse (compareUnicodeCodePoints (linkFrom left) (linkFrom right))
     (orElse (compareUnicodeCodePoints (linkTo left) (linkTo right))
       (compareUnicodeCodePoints (joinBar (map stepId (pathArcs (linkPath left))))
         (joinBar (map stepId (pathArcs (linkPath right)))))))"

definition directedPairs :: "required_component \<Rightarrow> required_component \<Rightarrow> (js_string \<times> js_string) list" where
  "directedPairs left right =
     concat (map (\<lambda>(u, v). [(u, v), (v, u)]) (List.product (componentNodes left) (componentNodes right)))"

definition betterLink ::
  "coverage_problem \<Rightarrow> travel_step list \<Rightarrow> nat \<Rightarrow> nat \<Rightarrow> component_link option \<times> connector_state \<Rightarrow>
     js_string \<times> js_string \<Rightarrow> coverage_error + (component_link option \<times> connector_state)" where
  "betterLink problem network left right = (\<lambda>(best, st) (from, to).
     bindR (connectorPath problem network st from to) (\<lambda>(path, st').
     let candidate = \<lparr>linkLeft = left, linkRight = right, linkFrom = from, linkTo = to, linkPath = path\<rparr> in
     Inr (case best of None \<Rightarrow> Some candidate
       | Some b \<Rightarrow> if compareLinks candidate b < 0 then Some candidate else Some b, st')))"

definition linkCandidate ::
  "coverage_problem \<Rightarrow> travel_step list \<Rightarrow> required_component list \<Rightarrow> component_link list \<times> connector_state \<Rightarrow>
     nat \<times> nat \<Rightarrow> coverage_error + (component_link list \<times> connector_state)" where
  "linkCandidate problem network components = (\<lambda>(candidates, st) (left, right).
     bindR (checkDeadline (clockLeft st)) (\<lambda>rest.
     bindR (foldR (betterLink problem network left right) (None, st\<lparr>clockLeft := rest\<rparr>)
       (directedPairs (components ! left) (components ! right))) (\<lambda>(best, st').
     case best of None \<Rightarrow> Inl (Planning UNREACHABLE) | Some b \<Rightarrow> Inr (candidates @ [b], st'))))"

text \<open>
  The union-find \<open>parent\<close> array with path compression; the fuel bounds a climb, \<open>Stuck\<close> would be
  a cycle of parents.
\<close>

fun climb :: "nat \<Rightarrow> nat list \<Rightarrow> nat \<Rightarrow> coverage_error + nat" where
  "climb fuel parent cursor =
     (if parent ! cursor = cursor then Inr cursor
      else (case fuel of 0 \<Rightarrow> Inl Stuck | Suc n \<Rightarrow> climb n parent (parent ! cursor)))"

declare climb.simps [simp del]

fun compressPath :: "nat \<Rightarrow> nat list \<Rightarrow> nat \<Rightarrow> nat \<Rightarrow> coverage_error + nat list" where
  "compressPath fuel parent ancestor v =
     (if parent ! v = v then Inr parent
      else (case fuel of 0 \<Rightarrow> Inl Stuck | Suc n \<Rightarrow> compressPath n (parent[v := ancestor]) ancestor (parent ! v)))"

declare compressPath.simps [simp del]

definition findRoot :: "nat list \<Rightarrow> nat \<Rightarrow> coverage_error + (nat \<times> nat list)" where
  "findRoot parent v =
     bindR (climb (length parent) parent v) (\<lambda>ancestor.
     bindR (compressPath (length parent) parent ancestor v) (\<lambda>parent'. Inr (ancestor, parent')))"

fun spanLinks :: "nat \<Rightarrow> component_link list \<Rightarrow> nat list \<Rightarrow> component_link list \<Rightarrow> coverage_error + component_link list" where
  "spanLinks n [] parent result = Inr result"
| "spanLinks n (candidate # rest) parent result =
     bindR (findRoot parent (linkLeft candidate)) (\<lambda>(leftRoot, parent1).
     bindR (findRoot parent1 (linkRight candidate)) (\<lambda>(rightRoot, parent2).
     if leftRoot = rightRoot then spanLinks n rest parent2 result
     else if length result + 1 = n - 1 then Inr (result @ [candidate])
     else spanLinks n rest (parent2[rightRoot := leftRoot]) (result @ [candidate])))"

definition minimumSpanningComponentLinks ::
  "coverage_problem \<Rightarrow> travel_step list \<Rightarrow> required_component list \<Rightarrow> connector_state \<Rightarrow>
     coverage_error + (component_link list \<times> connector_state)" where
  "minimumSpanningComponentLinks problem network components st =
     (if length components \<le> 1 then Inr ([], st)
      else bindR (foldR (linkCandidate problem network components) ([], st)
          (concat (map (\<lambda>left. map (Pair left) [left + 1..<length components]) [0..<length components]))) (\<lambda>(candidates, st').
        bindR (spanLinks (length components) (sort_by compareLinks candidates) [0..<length components] []) (\<lambda>result.
        if length result = length components - 1 then Inr (result, st')
        else Inl (Planning UNREACHABLE))))"

section \<open>Euler trail\<close>

record edge_walk =
  walkCursor :: "js_string \<Rightarrow> nat"
  walkUsed :: "js_string list"
  walkNodes :: "js_string list"
  walkEdges :: "route_edge list"
  walkTrail :: "route_edge list"

definition edgesFrom :: "route_edge list \<Rightarrow> js_string \<Rightarrow> route_edge list" where
  "edgesFrom edges node =
     sort_by (\<lambda>l r. orElse (compareUnicodeCodePoints (stepId (edgeStep l)) (stepId (edgeStep r)))
         (compareUnicodeCodePoints (edgeId l) (edgeId r)))
       (filter (\<lambda>e. stepFrom (edgeStep e) = node) edges)"

definition skipWalked :: "js_string list \<Rightarrow> route_edge list \<Rightarrow> nat \<Rightarrow> nat" where
  "skipWalked used list cursor = cursor + length (takeWhile (\<lambda>e. edgeId e \<in> set used) (drop cursor list))"

definition edgeWalkStep :: "(js_string \<Rightarrow> route_edge list) \<Rightarrow> edge_walk \<Rightarrow> js_string \<Rightarrow> js_string list \<Rightarrow> edge_walk" where
  "edgeWalkStep leave st node below =
     (let list = leave node;
          cursor = skipWalked (walkUsed st) list (walkCursor st node) in
      if cursor < length list
      then (let edge = list ! cursor in
        st\<lparr>walkCursor := (walkCursor st)(node := cursor + 1), walkUsed := walkUsed st @ [edgeId edge],
           walkNodes := stepTo (edgeStep edge) # node # below, walkEdges := edge # walkEdges st\<rparr>)
      else (let st' = st\<lparr>walkCursor := (walkCursor st)(node := cursor), walkNodes := below\<rparr> in
        case walkEdges st of [] \<Rightarrow> st'
        | edge # rest \<Rightarrow> st'\<lparr>walkEdges := rest, walkTrail := edge # walkTrail st\<rparr>))"

fun edgeWalkLoop :: "(js_string \<Rightarrow> route_edge list) \<Rightarrow> nat \<Rightarrow> edge_walk \<Rightarrow> coverage_error + (edge_walk \<times> nat)" where
  "edgeWalkLoop leave clock st =
     (case walkNodes st of [] \<Rightarrow> Inr (st, clock)
      | node # below \<Rightarrow>
          (case clock of 0 \<Rightarrow> Inl (Planning RESOURCE_EXHAUSTED)
           | Suc rest \<Rightarrow> edgeWalkLoop leave rest (edgeWalkStep leave st node below)))"

declare edgeWalkLoop.simps [simp del]

fun continuous :: "route_edge list \<Rightarrow> bool" where
  "continuous (a # b # rest) = (stepTo (edgeStep a) = stepFrom (edgeStep b) \<and> continuous (b # rest))"
| "continuous _ = True"

definition edgeTrail ::
  "route_edge list \<Rightarrow> js_string \<Rightarrow> js_string \<Rightarrow> nat \<Rightarrow> coverage_error + (route_edge list \<times> nat)" where
  "edgeTrail edges start end clock =
     bindR (edgeWalkLoop (edgesFrom edges) clock
       \<lparr>walkCursor = (\<lambda>_. 0), walkUsed = [], walkNodes = [start], walkEdges = [], walkTrail = []\<rparr>) (\<lambda>(st, rest).
     let trail = walkTrail st in
     bindR (ensureR (length (remdups (walkUsed st)) = length edges \<and> length trail = length edges \<and>
         trail \<noteq> [] \<and> stepTo (edgeStep (last trail)) = end) (Planning NO_FEASIBLE_PLAN)) (\<lambda>_.
     bindR (ensureR (continuous trail) (Planning NO_FEASIBLE_PLAN)) (\<lambda>_. Inr (trail, rest))))"

section \<open>The solver\<close>

record rpp_diagnostics =
  rppBothDirections :: bool
  rppComponentCount :: nat
  rppImbalanceCount :: nat
  rppConnectorCount :: int
  rppArcCount :: nat
  rppAtomicCount :: nat
  rppObligationCount :: nat
  rppRequiredCount :: nat
  rppComponentConnectorCount :: nat
  rppBalanceCount :: nat
  rppCellCount :: nat

record rpp_solution =
  rppRoute :: coverage_route
  rppDiagnostics :: rpp_diagnostics
  rppAugmentation :: "augmentation list"

text \<open>Connector edges are numbered across all paths.\<close>

definition numberedEdges :: "string \<Rightarrow> travel_step list \<Rightarrow> obligation list \<Rightarrow> route_edge list" where
  "numberedEdges prefix steps obls =
     map (\<lambda>(n, step). classifiedEdge (js prefix @ padStart 9 (int n)) step obls) (enumerate 1 steps)"

definition balanceEdge :: "balance \<Rightarrow> route_edge \<Rightarrow> coverage_error + balance" where
  "balanceEdge balance edge =
     bindR (addBalance balance (stepFrom (edgeStep edge)) 1) (\<lambda>b. addBalance b (stepTo (edgeStep edge)) (- 1))"

definition balancePath ::
  "coverage_problem \<Rightarrow> travel_step list \<Rightarrow> (js_string \<rightharpoonup> step_path) \<times> connector_state \<Rightarrow>
     imbalance_node \<times> imbalance_node \<Rightarrow> coverage_error + ((js_string \<rightharpoonup> step_path) \<times> connector_state)" where
  "balancePath problem network = (\<lambda>(paths, st) (supply, demand).
     bindR (connectorPath problem network st (imbNode supply) (imbNode demand)) (\<lambda>(path, st').
       Inr (paths(pairKey (imbNode supply) (imbNode demand) \<mapsto> path), st')))"

definition minimumCostFlow ::
  "imbalance_node list \<Rightarrow> imbalance_node list \<Rightarrow> (js_string \<rightharpoonup> step_path) \<Rightarrow> nat \<Rightarrow>
     coverage_error + (augmentation list \<times> nat)" where
  "minimumCostFlow = minimumCostTransportation stepArcKey"

definition augmentationSteps ::
  "(js_string \<rightharpoonup> step_path) \<Rightarrow> augmentation \<Rightarrow> coverage_error + travel_step list" where
  "augmentationSteps paths item =
     bindR (getBang paths (pairKey (augFrom item) (augTo item))) (\<lambda>selected.
       Inr (concat (replicate (nat (augQuantity item)) (pathArcs selected))))"

definition edgeSegments :: "route_edge list \<Rightarrow> route_segment list" where
  "edgeSegments trail =
     map (\<lambda>(n, edge). stepSegment n (edgeStep edge) INSIDE_PHASE (edgeRole edge) (edgeObligations edge)) (enumerate 1 trail)"

definition linkAugmentation :: "component_link \<Rightarrow> augmentation" where
  "linkAugmentation link = \<lparr>augFrom = linkFrom link, augTo = linkTo link, augQuantity = 1,
     augUnitCost = pathCost (linkPath link), augArcKeys = map stepArcKey (pathArcs (linkPath link))\<rparr>"

record rpp_plan =
  rpArcs :: "traversal_arc list"
  rpNetwork :: "travel_step list"
  rpComponents :: "required_component list"
  rpLinks :: "component_link list"
  rpImbalances :: nat
  rpFlow :: "augmentation list"
  rpRequired :: "route_edge list"
  rpConnectors :: "route_edge list"
  rpBalancing :: "route_edge list"
  rpCells :: nat
  rpBody :: route_body

definition rppEndState :: "coverage_problem \<Rightarrow> directed_state option" where
  "rppEndState problem = (if endpointMode problem = FIXED_END then fixedEndState problem else Some (startState problem))"

definition rppEndpoints ::
  "coverage_problem \<Rightarrow> traversal_arc list \<Rightarrow> directed_state \<Rightarrow> coverage_error + (js_string \<times> js_string)" where
  "rppEndpoints problem arcs endState =
     bindR (getBang (arcsByKey arcs) (stateArcKey (startState problem))) (\<lambda>startArc.
     bindR (getBang (arcsByKey arcs) (stateArcKey endState)) (\<lambda>endArc.
       Inr (stateNode startArc (stateFraction (startState problem)), stateNode endArc (stateFraction endState))))"

definition rppBalance :: "route_edge list \<Rightarrow> js_string \<Rightarrow> js_string \<Rightarrow> coverage_error + balance" where
  "rppBalance edges startNode endNode =
     bindR (foldR balanceEdge [] edges) (\<lambda>balance.
     if startNode \<noteq> endNode
     then bindR (addBalance balance startNode (- 1)) (\<lambda>b. addBalance b endNode 1)
     else Inr balance)"

definition rppPlan :: "coverage_problem \<Rightarrow> traversal_arc list \<Rightarrow> nat \<Rightarrow> coverage_error + rpp_plan" where
  "rppPlan problem input clock =
     bindR (ensureR (endpointMode problem \<noteq> LAST_AREA_EXIT) (Planning CAPABILITY_NOT_AVAILABLE)) (\<lambda>_.
     bindR (validateRppInput problem input) (\<lambda>arcs.
     case rppEndState problem of None \<Rightarrow> Inl (Planning NO_FEASIBLE_PLAN)
     | Some endState \<Rightarrow>
     bindR (rppFractions problem arcs) (\<lambda>fractions.
     bindR (buildAtomicNetwork arcs fractions) (\<lambda>network.
     bindR (rppEndpoints problem arcs endState) (\<lambda>(startNode, endNode).
     bindR (buildRequiredEdges (obligations problem) (arcsByKey arcs)) (\<lambda>required.
     let components = requiredComponents required startNode endNode in
     bindR (minimumSpanningComponentLinks problem network components
       \<lparr>cachedPaths = Map.empty, cellsUsed = 0, clockLeft = clock\<rparr>) (\<lambda>(treeLinks, st1).
     let connectors = numberedEdges ''component:'' (concat (map (\<lambda>l. pathArcs (linkPath l)) treeLinks)) (obligations problem) in
     bindR (rppBalance (required @ connectors) startNode endNode) (\<lambda>balance.
     let supplies = sortedImbalances balance (\<lambda>v. v < 0) (\<lambda>v. - v);
         demands = sortedImbalances balance (\<lambda>v. 0 < v) (\<lambda>v. v) in
     bindR (foldR (balancePath problem network) (Map.empty, st1) (List.product supplies demands)) (\<lambda>(paths, st2).
     bindR (minimumCostFlow supplies demands paths (clockLeft st2)) (\<lambda>(flow, clock').
     bindR (mapR (augmentationSteps paths) flow) (\<lambda>steps.
     let balancing = numberedEdges ''balance:'' (concat steps) (obligations problem);
         edges = required @ connectors @ balancing in
     bindR (ensureR (int (length edges) \<le> MAX_ROUTE_SEGMENTS) (Planning RESOURCE_EXHAUSTED)) (\<lambda>_.
     bindR (edgeTrail edges startNode endNode clock') (\<lambda>(trail, _).
     bindR (totalMetrics (edgeSegments trail)) (\<lambda>metrics.
     Inr \<lparr>rpArcs = arcs, rpNetwork = network, rpComponents = components, rpLinks = treeLinks,
       rpImbalances = length supplies + length demands, rpFlow = flow, rpRequired = required,
       rpConnectors = connectors, rpBalancing = balancing, rpCells = cellsUsed st2,
       rpBody = \<lparr>bodyStartState = startState problem, bodyEndState = endState, bodySegments = edgeSegments trail,
         bodyBoundaryEvents = Some [], bodyMetrics = metrics\<rparr>\<rparr>))))))))))))))"

definition rppSolution :: "(js_string \<Rightarrow> js_string) \<Rightarrow> coverage_problem \<Rightarrow> rpp_plan \<Rightarrow> coverage_error + rpp_solution" where
  "rppSolution sha problem plan =
     bindR (signRoute sha (rpBody plan)) (\<lambda>route.
     bindR (foldR (\<lambda>total item. safeAdd total (augQuantity item)) 0 (rpFlow plan)) (\<lambda>quantities.
     Inr \<lparr>rppRoute = route,
       rppDiagnostics = \<lparr>rppBothDirections = bothDirections (obligations problem),
         rppComponentCount = length (filter (\<lambda>c. take 9 (componentId c) = js ''required:'') (rpComponents plan)),
         rppImbalanceCount = rpImbalances plan,
         rppConnectorCount = int (length (rpLinks plan)) + quantities,
         rppArcCount = length (rpArcs plan), rppAtomicCount = length (rpNetwork plan),
         rppObligationCount = length (obligations problem), rppRequiredCount = length (rpRequired plan),
         rppComponentConnectorCount = length (rpConnectors plan), rppBalanceCount = length (rpBalancing plan),
         rppCellCount = rpCells plan\<rparr>,
       rppAugmentation = map linkAugmentation (rpLinks plan) @ rpFlow plan\<rparr>))"

definition solveFixedDirectionRpp ::
  "(js_string \<Rightarrow> js_string) \<Rightarrow> coverage_problem \<Rightarrow> traversal_arc list \<Rightarrow> nat \<Rightarrow> coverage_error + rpp_solution" where
  "solveFixedDirectionRpp sha problem input clock = bindR (rppPlan problem input clock) (rppSolution sha problem)"

end
