(* ===== verification/StepRoutes.thy ===== *)
theory StepRoutes
  imports
  DcppVerified
  FixedRpp
begin

text \<open>
  What the routes of the rural postman solver and the strict solver owe the verifier: their steps
  are proper slices of network arcs, and the segments with role SERVICE serve every obligation
  as often as required.
\<close>

section \<open>Slices\<close>

lemma stepOf_Inr:
  "stepOf i a s e = Inr step \<longleftrightarrow> (\<exists>m. sliceMetrics (arcMetrics a) s e = Inr m \<and>
     step = \<lparr>stepId = i, stepGraphVersion = arcGraphVersion a, stepArcKey = arcKey a,
       stepFrom = stateNode a s, stepTo = stateNode a e, stepStart = s, stepEnd = e,
       stepMetrics = m, stepFeature = arcFeature a\<rparr>)"
  by (auto simp: stepOf_def bindR_eq_Inr)

definition properStep :: "traversal_arc list \<Rightarrow> travel_step \<Rightarrow> bool" where
  "properStep arcs step \<longleftrightarrow> (\<exists>a \<in> set arcs. 0 \<le> stepStart step \<and> stepStart step < stepEnd step \<and> stepEnd step \<le> WHOLE \<and>
     stepOf (stepId step) a (stepStart step) (stepEnd step) = Inr step)"

lemma properStepI:
  "stepOf i a s e = Inr step \<Longrightarrow> a \<in> set arcs \<Longrightarrow> 0 \<le> s \<Longrightarrow> s < e \<Longrightarrow> e \<le> WHOLE \<Longrightarrow> properStep arcs step"
  by (auto simp: properStep_def stepOf_Inr)

lemma properStep_arc:
  assumes "properStep arcs step" and "distinct (map arcKey arcs)"
  shows "\<exists>a. networkMap arcs (stepArcKey step) = Some a \<and> a \<in> set arcs \<and> stepGraphVersion step = arcGraphVersion a \<and>
    stepFrom step = stateNode a (stepStart step) \<and> stepTo step = stateNode a (stepEnd step) \<and>
    sliceMetrics (arcMetrics a) (stepStart step) (stepEnd step) = Inr (stepMetrics step) \<and>
    validInterval (stepStart step) (stepEnd step)"
proof -
  obtain a where a: "a \<in> set arcs" "0 \<le> stepStart step" "stepStart step < stepEnd step" "stepEnd step \<le> WHOLE"
    "stepOf (stepId step) a (stepStart step) (stepEnd step) = Inr step"
    using assms(1) by (auto simp: properStep_def)
  obtain m where m: "sliceMetrics (arcMetrics a) (stepStart step) (stepEnd step) = Inr m"
    "step = \<lparr>stepId = stepId step, stepGraphVersion = arcGraphVersion a, stepArcKey = arcKey a,
       stepFrom = stateNode a (stepStart step), stepTo = stateNode a (stepEnd step), stepStart = stepStart step,
       stepEnd = stepEnd step, stepMetrics = m, stepFeature = arcFeature a\<rparr>"
    using a(5) unfolding stepOf_Inr by blast
  have f: "stepGraphVersion step = arcGraphVersion a" "stepArcKey step = arcKey a" "stepFrom step = stateNode a (stepStart step)"
    "stepTo step = stateNode a (stepEnd step)" "stepMetrics step = m"
    by (subst m(2), simp)+
  have "networkMap arcs (arcKey a) = Some a" using networkMap_lookup [OF assms(2)] a(1) by simp
  moreover have "validInterval (stepStart step) (stepEnd step)"
    using a(2-4) by (simp add: validInterval_def isSafeInteger_def maxSafeInteger_def WHOLE_def)
  ultimately show ?thesis using f a(1) m(1) by auto
qed

lemma consecutive_sorted:
  "sorted_wrt (<) ps \<Longrightarrow> (p, q) \<in> set (consecutive ps) \<Longrightarrow> p < q \<and> p \<in> set ps \<and> q \<in> set ps"
  by (induction ps rule: consecutive.induct) auto

lemma fractionsOf_sorted: "sorted_wrt (<) (fractionsOf marks key)"
  by (simp add: fractionsOf_def strict_sorted_iff)

lemma set_fractionsOf: "set (fractionsOf marks key) = {0, WHOLE} \<union> {f. (key, f) \<in> set marks}"
proof -
  have "set (map snd (filter (\<lambda>m. fst m = key) marks)) = {f. (key, f) \<in> set marks}" by force
  then show ?thesis unfolding fractionsOf_def by (simp only: set_sort set_remdups set_append list.set)
qed

lemma list_all2_right: "list_all2 R xs ys \<Longrightarrow> y \<in> set ys \<Longrightarrow> \<exists>x \<in> set xs. R x y"
  by (induction rule: list_all2_induct) auto

lemma list_all2_left: "list_all2 R xs ys \<Longrightarrow> x \<in> set xs \<Longrightarrow> \<exists>y \<in> set ys. R x y"
  by (induction rule: list_all2_induct) auto

lemma atomicCuts_proper:
  assumes run: "atomicCuts cutArc (fractionsOf marks) arcs = Inr steps"
    and cut: "\<And>a s e step. cutArc a s e = Inr step \<Longrightarrow> \<exists>i. stepOf i a s e = Inr step"
    and marks: "\<forall>(k, f) \<in> set marks. 0 \<le> f \<and> f \<le> WHOLE"
  shows "\<forall>step \<in> set steps. properStep arcs step"
proof
  let ?cuts = "concat (map (\<lambda>arc. map (Pair arc) (consecutive (fractionsOf marks (arcKey arc)))) arcs)"
  fix step assume step: "step \<in> set steps"
  obtain raw where raw: "mapR (\<lambda>(arc, s, e). cutArc arc s e) ?cuts = Inr raw" "steps = byStepId raw"
    using run by (auto simp: atomicCuts_def bindR_eq_Inr)
  have "step \<in> set raw" using step raw(2) by (simp add: byStepId_def)
  then obtain c where c: "c \<in> set ?cuts" "(\<lambda>(arc, s, e). cutArc arc s e) c = Inr step"
    using list_all2_right [OF raw(1) [unfolded mapR_Inr_iff]] by blast
  then obtain a s e where a: "a \<in> set arcs" "(s, e) \<in> set (consecutive (fractionsOf marks (arcKey a)))" "cutArc a s e = Inr step"
    by auto
  have se: "s < e" "s \<in> set (fractionsOf marks (arcKey a))" "e \<in> set (fractionsOf marks (arcKey a))"
    using consecutive_sorted [OF fractionsOf_sorted a(2)] by blast+
  have range: "0 \<le> f \<and> f \<le> WHOLE" if "f \<in> set (fractionsOf marks (arcKey a))" for f
    using that marks by (auto simp: set_fractionsOf WHOLE_def)
  obtain i where "stepOf i a s e = Inr step" using cut [OF a(3)] by blast
  then show "properStep arcs step" using a(1) se range by (auto intro: properStepI)
qed

section \<open>Service\<close>

definition servesWhole :: "route_segment \<Rightarrow> obligation \<Rightarrow> bool" where
  "servesWhole s obl \<longleftrightarrow> segRole s = SERVICE \<and> segArcKey s = oblArcKey obl \<and> segObligationIds s = Some [obligationId obl] \<and>
     segStart s = oblStart obl \<and> segEnd s = oblEnd obl"

definition servicePasses :: "obligation list \<Rightarrow> obligation list" where
  "servicePasses obls = concat (map (\<lambda>obl. replicate (nat (requiredPasses obl)) obl) obls)"

definition fullyServed :: "obligation list \<Rightarrow> route_segment list \<Rightarrow> bool" where
  "fullyServed obls segs \<longleftrightarrow> (\<exists>served. mset served = mset (servicePasses obls) \<and>
     list_all2 servesWhole (filter (\<lambda>s. segRole s = SERVICE) segs) served)"

lemma set_servicePasses: "set (servicePasses obls) \<subseteq> set obls"
  by (auto simp: servicePasses_def)

lemma sum_replicate: "sum_list (replicate n c) = int n * (c :: int)"
  by (induction n) (simp_all add: algebra_simps)

lemma sum_servicePasses:
  "\<forall>obl \<in> set obls. 0 \<le> requiredPasses obl \<Longrightarrow>
     (\<Sum>obl\<leftarrow>servicePasses obls. w obl) = (\<Sum>obl\<leftarrow>obls. (w obl :: int) * requiredPasses obl)"
  by (induction obls) (simp_all add: servicePasses_def sum_replicate)

lemma count_servicePasses:
  "distinct obls \<Longrightarrow> obl \<in> set obls \<Longrightarrow> count (mset (servicePasses obls)) obl = nat (requiredPasses obl)"
proof (induction obls)
  case (Cons o1 obls)
  have none: "count (mset (servicePasses obls)) o1 = 0" if "o1 \<notin> set obls"
    using that set_servicePasses [of obls] by (auto simp: count_eq_zero_iff)
  show ?case using Cons none by (cases "obl = o1") (auto simp: servicePasses_def)
qed simp

lemma list_all2_filter_length:
  "list_all2 R xs ys \<Longrightarrow> (\<And>x y. x \<in> set xs \<Longrightarrow> y \<in> set ys \<Longrightarrow> R x y \<Longrightarrow> P x = Q y) \<Longrightarrow> length (filter P xs) = length (filter Q ys)"
  by (induction rule: list_all2_induct) auto

lemma sum_list_all2:
  "list_all2 R xs ys \<Longrightarrow> (\<And>x y. R x y \<Longrightarrow> f x = g y) \<Longrightarrow> (\<Sum>x\<leftarrow>xs. f x) = (\<Sum>y\<leftarrow>ys. (g y :: int))"
  by (induction rule: list_all2_induct) auto

lemma distinct_ids: "distinct (map f xs) \<Longrightarrow> x \<in> set xs \<Longrightarrow> y \<in> set xs \<Longrightarrow> f x = f y \<Longrightarrow> x = y"
  by (simp add: distinct_map inj_on_def)

lemma served_times:
  assumes full: "fullyServed obls segs" and ids: "distinct (map obligationId obls)" and obl: "obl \<in> set obls"
    and x: "oblStart obl \<le> x" "x < oblEnd obl"
  shows "timesServed segs obl x = max 0 (requiredPasses obl)"
proof -
  obtain served where served: "mset served = mset (servicePasses obls)"
    "list_all2 servesWhole (filter (\<lambda>s. segRole s = SERVICE) segs) served"
    using full by (auto simp: fullyServed_def)
  have sub: "set served \<subseteq> set obls" using served(1) set_servicePasses by (metis set_mset_mset)
  let ?P = "\<lambda>s. segArcKey s = oblArcKey obl \<and>
     (case segObligationIds s of None \<Rightarrow> False | Some ids \<Rightarrow> obligationId obl \<in> set ids) \<and> segStart s \<le> x \<and> x < segEnd s"
  have "timesServed segs obl x = int (length (filter ?P (filter (\<lambda>s. segRole s = SERVICE) segs)))"
    unfolding timesServed_def filter_filter by (intro arg_cong [of _ _ "\<lambda>xs. int (length xs)"] filter_cong) auto
  also have "length (filter ?P (filter (\<lambda>s. segRole s = SERVICE) segs)) = length (filter ((=) obl) served)"
  proof (rule list_all2_filter_length [OF served(2)])
    fix s b assume b: "b \<in> set served" "servesWhole s b"
    show "?P s = (obl = b)"
      using b distinct_ids [OF ids obl, of b] sub x by (auto simp: servesWhole_def)
  qed
  also have "length (filter ((=) obl) served) = count (mset served) obl"
    by (simp add: count_mset flip: count_list_eq_length_filter)
  also have "\<dots> = nat (requiredPasses obl)"
    using served(1) count_servicePasses [OF _ obl] ids by (simp add: distinct_map)
  finally show ?thesis by simp
qed

lemma served_coverable:
  assumes full: "fullyServed obls (bodySegments (routeBody route))" and ids: "distinct (map obligationId obls)"
    and obl: "obl \<in> set obls" and "oblStart obl < oblEnd obl"
  shows "requiredPasses obl \<le> actualPasses obl (serviceOf route obl) \<and>
    (\<forall>s \<in> set (serviceOf route obl). segArcKey s = oblArcKey obl)"
proof
  let ?segs = "bodySegments (routeBody route)"
  from actualPasses_exact [OF assms(4), of "serviceOf route obl"] obtain x where
    x: "oblStart obl \<le> x" "x < oblEnd obl" "actualPasses obl (serviceOf route obl) = passesOver obl (serviceOf route obl) x (x + 1)"
    by blast
  then show "requiredPasses obl \<le> actualPasses obl (serviceOf route obl)"
    using served_times [OF full ids obl x(1,2)] by (simp add: timesServed_passes)
  obtain served where served: "mset served = mset (servicePasses obls)"
    "list_all2 servesWhole (filter (\<lambda>s. segRole s = SERVICE) ?segs) served"
    using full by (auto simp: fullyServed_def)
  have sub: "set served \<subseteq> set obls" using served(1) set_servicePasses by (metis set_mset_mset)
  show "\<forall>s \<in> set (serviceOf route obl). segArcKey s = oblArcKey obl"
  proof
    fix s assume "s \<in> set (serviceOf route obl)"
    then have s: "s \<in> set (filter (\<lambda>s. segRole s = SERVICE) ?segs)" "\<exists>ks. segObligationIds s = Some ks \<and> obligationId obl \<in> set ks"
      by (auto simp: serviceOf_def split: option.splits)
    obtain b where b: "b \<in> set served" "servesWhole s b" using list_all2_left [OF served(2) s(1)] by blast
    then have "b = obl" using s(2) sub distinct_ids [OF ids _ obl, of b] by (auto simp: servesWhole_def)
    then show "segArcKey s = oblArcKey obl" using b(2) by (simp add: servesWhole_def)
  qed
qed

lemma totals_distance:
  assumes "totalMetrics segs = Inr m"
  shows "distanceMm m = (\<Sum>s\<leftarrow>segs. distanceMm (segMetrics s))"
proof -
  have "foldR (\<lambda>sum s. addMetrics sum (segMetrics s)) z segs = Inr m \<Longrightarrow>
      distanceMm m = distanceMm z + (\<Sum>s\<leftarrow>segs. distanceMm (segMetrics s))" for z
  proof (induction segs arbitrary: z)
    case (Cons s segs)
    obtain y where y: "addMetrics z (segMetrics s) = Inr y" "foldR (\<lambda>sum s. addMetrics sum (segMetrics s)) y segs = Inr m"
      using Cons.prems unfolding foldR.simps by (rule bindR_InrE)
    have "distanceMm y = distanceMm z + distanceMm (segMetrics s)"
      using y(1) by (auto simp: addMetrics_def bindR_eq_Inr safeAdd_def split: if_splits)
    then show ?case using Cons.IH [OF y(2)] by simp
  qed simp
  from this [OF assms [unfolded totalMetrics_def]] show ?thesis by (simp add: ZERO_METRICS_def)
qed

lemma sum_filter_le:
  "\<forall>x \<in> set xs. 0 \<le> f x \<Longrightarrow> (\<Sum>x\<leftarrow>filter P xs. f x) \<le> (\<Sum>x\<leftarrow>xs. (f x :: int))"
  by (induction xs) auto

text \<open>
  Coverage is accepted: the required length is part of the length of the route, so none of the
  verifier's sums overflows.
\<close>

lemma service_accepts:
  fixes input :: verify_input
  defines "obls \<equiv> obligations (viProblem input)" and "segs \<equiv> bodySegments (routeBody (viCandidate input))"
  assumes full: "fullyServed obls segs" and ids: "distinct (map obligationId obls)"
    and obl: "\<forall>obl \<in> set obls. oblStart obl < oblEnd obl \<and> 0 \<le> requiredPasses obl \<and> net (oblArcKey obl) \<noteq> None"
    and passes: "(\<Sum>obl\<leftarrow>obls. requiredPasses obl) \<le> maxSafeInteger"
    and lengths: "\<And>s obl. s \<in> set segs \<Longrightarrow> obl \<in> set obls \<Longrightarrow> servesWhole s obl \<Longrightarrow> distanceMm (segMetrics s) = onePassLength net obl"
    and nonneg: "\<forall>s \<in> set segs. 0 \<le> distanceMm (segMetrics s)" "\<forall>obl \<in> set obls. 0 \<le> onePassLength net obl"
    and totals: "totalMetrics segs = Inr m"
  shows "\<exists>figures. verifyCoverage input net = Inr (True, figures, [])"
proof (rule verifyCoverage_accepts)
  show "\<forall>obl \<in> set (obligations (viProblem input)). coverable input net obl"
    using served_coverable [OF full [unfolded segs_def] ids] obl nonneg(2) by (simp add: coverable_def obls_def)
  show "(\<Sum>obl\<leftarrow>obligations (viProblem input). requiredPasses obl) \<le> maxSafeInteger" using passes by (simp add: obls_def)
  obtain served where served: "mset served = mset (servicePasses obls)"
    "list_all2 servesWhole (filter (\<lambda>s. segRole s = SERVICE) segs) served"
    using full by (auto simp: fullyServed_def)
  have sub: "set served \<subseteq> set obls" using served(1) set_servicePasses by (metis set_mset_mset)
  have both: "list_all2 (\<lambda>s obl. distanceMm (segMetrics s) = onePassLength net obl) (filter (\<lambda>s. segRole s = SERVICE) segs) served"
    using served(2) by (rule list.rel_mono_strong) (use lengths sub in auto)
  have "(\<Sum>obl\<leftarrow>obls. onePassLength net obl * requiredPasses obl) = (\<Sum>obl\<leftarrow>servicePasses obls. onePassLength net obl)"
    using sum_servicePasses [of obls "onePassLength net"] obl by simp
  also have "\<dots> = (\<Sum>obl\<leftarrow>served. onePassLength net obl)"
    using served(1) by (metis mset_map sum_mset_sum_list)
  also have "\<dots> = (\<Sum>s\<leftarrow>filter (\<lambda>s. segRole s = SERVICE) segs. distanceMm (segMetrics s))"
    by (rule sum_list_all2 [OF both, symmetric])
  also have "\<dots> \<le> (\<Sum>s\<leftarrow>segs. distanceMm (segMetrics s))" by (rule sum_filter_le [OF nonneg(1)])
  also have "\<dots> \<le> maxSafeInteger" using totals_distance [OF totals] totals_safe [OF totals] by simp
  finally show "(\<Sum>obl\<leftarrow>obligations (viProblem input). onePassLength net obl * requiredPasses obl) \<le> maxSafeInteger"
    by (simp add: obls_def)
qed

end
