(* ===== verification/RppVerified.thy ===== *)
theory RppVerified
  imports
  StepRoutes
begin

text \<open>
  The rural postman solver: its connector search and its Euler trail are those of the closed
  solver on the atomic network, and its routes are reported VALID by the verifier.
\<close>

section \<open>Steps as arcs\<close>

text \<open>
  The embedding of steps into arcs that keeps what the algorithms look at; the fields the search
  ignores hold the rest of the step, so that no two steps become one arc.
\<close>

definition stepArc :: "travel_step \<Rightarrow> traversal_arc" where
  "stepArc s = \<lparr>arcGraphVersion = stepGraphVersion s, arcKey = stepId s, fromNodeKey = stepFrom s, toNodeKey = stepTo s,
     arcDirection = FORWARD, arcMetrics = stepMetrics s, arcFeature = stepFeature s, roadClass = Some (stepArcKey s),
     surface = None, accessMask = None, traversalAllowed = None, speedMmPerS = Some (stepStart s),
     speedOverrideMmPerS = Some (stepEnd s), riskOverrideMicroUnits = None, conditionPenaltyUnits = None\<rparr>"

lemma stepArc_simps [simp]:
  "arcKey (stepArc s) = stepId s" "fromNodeKey (stepArc s) = stepFrom s" "toNodeKey (stepArc s) = stepTo s"
  "arcMetrics (stepArc s) = stepMetrics s"
  by (simp_all add: stepArc_def)

lemma stepArc_inject [simp]: "stepArc s = stepArc t \<longleftrightarrow> s = t"
  by (cases s; cases t) (auto simp: stepArc_def)

definition edgeInstance :: "route_edge \<Rightarrow> traversal_instance" where
  "edgeInstance e = \<lparr>instId = edgeId e, instArc = stepArc (edgeStep e), instRole = edgeRole e, instObligations = edgeObligations e\<rparr>"

lemma edgeInstance_simps [simp]:
  "instId (edgeInstance e) = edgeId e" "instArc (edgeInstance e) = stepArc (edgeStep e)"
  "source (edgeInstance e) = stepFrom (edgeStep e)" "target (edgeInstance e) = stepTo (edgeStep e)"
  by (simp_all add: edgeInstance_def source_def target_def)

lemma edgeInstance_inject [simp]: "edgeInstance e = edgeInstance f \<longleftrightarrow> e = f"
  by (cases e; cases f) (auto simp: edgeInstance_def)

section \<open>The connector search\<close>

definition searchView :: "step_search \<Rightarrow> search_state" where
  "searchView st = \<lparr>distanceTo = stepDistance st, previousArc = map_option stepArc \<circ> stepPrevious st,
     settledNodes = stepSettled st\<rparr>"

lemma searchView_simps [simp]:
  "distanceTo (searchView st) = stepDistance st" "settledNodes (searchView st) = stepSettled st"
  "previousArc (searchView st) = (\<lambda>n. map_option stepArc (stepPrevious st n))"
  by (simp_all add: searchView_def fun_eq_iff)

lemma nodesOf_steps: "nodesOf (map stepArc network) = stepNodes network"
  by (simp add: nodesOf_def stepNodes_def comp_def)

lemma byArcKey_steps: "byArcKey (map stepArc steps) = map stepArc (byStepId steps)"
  by (simp add: byArcKey_def byStepId_def sort_by_map)

lemma outgoing_steps: "outgoing (map stepArc network) node = map stepArc (stepsFrom network node)"
  by (simp add: outgoing_def stepsFrom_def filter_map comp_def byArcKey_steps)

lemma nearest_steps: "nearest (searchView st) nodes = foldl (nearerStep st) None nodes"
proof -
  have "nearer (searchView st) = nearerStep st"
    by (simp add: fun_eq_iff nearer_def nearerStep_def split: option.splits)
  then show ?thesis by (simp add: nearest_def)
qed

lemma relax_steps: "relax d (searchView st) (stepArc s) = bindR (relaxStep d st s) (\<lambda>st. Inr (searchView st))"
  unfolding relax_def relaxStep_def bindR_assoc
  by (rule bindR_cong) (auto simp: arcCost_def searchView_def fun_eq_iff split: option.splits)

lemma relax_steps_fold:
  "foldR (relax d) (searchView st) (map stepArc steps) = bindR (foldR (relaxStep d) st steps) (\<lambda>st. Inr (searchView st))"
proof (induction steps arbitrary: st)
  case (Cons s steps)
  show ?case by (simp add: relax_steps bindR_assoc Cons.IH)
qed simp

lemma settle_view: "(searchView st)\<lparr>settledNodes := ns\<rparr> = searchView (st\<lparr>stepSettled := ns\<rparr>)"
  by (simp add: searchView_def)

lemma searchLoop_steps:
  "searchLoop (map stepArc network) nodes to clock (searchView st) =
   bindR (stepSearchLoop network nodes to clock st) (\<lambda>(st, rest). Inr (searchView st, rest))"
proof (induction clock arbitrary: st)
  case 0
  show ?case by (simp add: searchLoop.simps [of _ _ _ 0] stepSearchLoop.simps [of _ _ _ 0])
next
  case (Suc clock)
  show ?case
  proof (cases "length (stepSettled st) < length nodes")
    case False
    then show ?thesis by (simp add: searchLoop.simps [of _ _ _ "Suc clock"] stepSearchLoop.simps [of _ _ _ "Suc clock"])
  next
    case True
    show ?thesis
    proof (cases "foldl (nearerStep st) None nodes")
      case None
      then show ?thesis using True
        by (simp add: searchLoop.simps [of _ _ _ "Suc clock"] stepSearchLoop.simps [of _ _ _ "Suc clock"] nearest_steps)
    next
      case (Some ud)
      obtain u d where ud: "ud = (u, d)" by (cases ud)
      show ?thesis using True Some ud
        by (simp add: searchLoop.simps [of _ _ _ "Suc clock"] stepSearchLoop.simps [of _ _ _ "Suc clock"] nearest_steps
          settle_view outgoing_steps relax_steps_fold bindR_assoc Suc.IH)
    qed
  qed
qed

lemma walkBack_steps:
  "walkBack (previousArc (searchView st)) from fuel cursor (map stepArc path) =
   bindR (stepWalkBack (stepPrevious st) from fuel cursor path) (\<lambda>p. Inr (map stepArc p))"
proof (induction fuel arbitrary: cursor path)
  case 0
  show ?case by (cases "stepPrevious st cursor") (simp_all add: walkBack.simps [of _ _ 0] stepWalkBack.simps [of _ _ 0])
next
  case (Suc fuel)
  note IH = Suc.IH [of "stepFrom s" "s # path" for s]
  show ?case
    by (cases "stepPrevious st cursor")
      (simp_all add: walkBack.simps [of _ _ "Suc fuel"] stepWalkBack.simps [of _ _ "Suc fuel"] IH [simplified])
qed

definition pathView :: "step_path \<Rightarrow> shortest_path" where
  "pathView p = \<lparr>pathCost = pathCost p, pathArcs = map stepArc (pathArcs p)\<rparr>"

lemma shortestPath_steps:
  "shortestPath (map stepArc network) from to clock =
   bindR (stepShortestPath network from to clock) (\<lambda>(p, rest). Inr (pathView p, rest))"
proof (cases "from = to")
  case True
  then show ?thesis by (simp add: shortestPath_def stepShortestPath_def pathView_def)
next
  case False
  let ?start = "\<lparr>stepDistance = (\<lambda>_. None)(from \<mapsto> 0), stepPrevious = (\<lambda>_. None), stepSettled = []\<rparr>"
  have start: "\<lparr>distanceTo = (\<lambda>_. None)(from \<mapsto> 0), previousArc = (\<lambda>_. None), settledNodes = []\<rparr> = searchView ?start"
    by (simp add: searchView_def fun_eq_iff)
  have walk: "walkBack (\<lambda>n. map_option stepArc (stepPrevious st n)) from n to [] =
      bindR (stepWalkBack (stepPrevious st) from n to []) (\<lambda>p. Inr (map stepArc p))" for st :: step_search and n
    using walkBack_steps [of st "from" n to "[]"] by simp
  let ?r = "stepSearchLoop network (stepNodes network) to clock ?start"
  show ?thesis
  proof (cases ?r)
    case (Inl e)
    then show ?thesis using False
      by (simp add: shortestPath_def stepShortestPath_def start nodesOf_steps searchLoop_steps del: fun_upd_apply)
  next
    case (Inr r)
    obtain st rest where r: "r = (st, rest)" by (cases r)
    have len: "length (nodesOf (map stepArc network)) = length (stepNodes network)" by (simp add: nodesOf_steps)
    show ?thesis using False Inr r
      by (cases "stepDistance st to")
        (simp_all add: shortestPath_def stepShortestPath_def start nodesOf_steps searchLoop_steps walk
          bindR_assoc pathView_def del: fun_upd_apply)
  qed
qed

text \<open>Chains of steps.\<close>

fun stepChain :: "travel_step list \<Rightarrow> js_string \<Rightarrow> travel_step list \<Rightarrow> js_string \<Rightarrow> bool" where
  "stepChain network u [] w = (u = w)"
| "stepChain network u (s # p) w = (s \<in> set network \<and> stepFrom s = u \<and> stepChain network (stepTo s) p w)"

definition chainCost :: "travel_step list \<Rightarrow> int" where
  "chainCost p = (\<Sum>s\<leftarrow>p. combinedCostUnits (stepMetrics s))"

lemma arc_path_steps: "arc_path (map stepArc network) u (map stepArc p) w \<longleftrightarrow> stepChain network u p w"
  by (induction p arbitrary: u) (auto simp: arc_path_Cons image_iff)

lemma routeCost_steps: "routeCost (map stepArc p) = chainCost p"
  by (simp add: routeCost_def chainCost_def arcCost_def comp_def)

lemma stepShortestPath_correct:
  assumes "\<forall>s \<in> set network. 0 \<le> combinedCostUnits (stepMetrics s)"
  shows "case stepShortestPath network from to clock of
      Inr (p, rest) \<Rightarrow> stepChain network from (pathArcs p) to \<and> chainCost (pathArcs p) = pathCost p \<and>
        (\<forall>q. stepChain network from q to \<longrightarrow> pathCost p \<le> chainCost q)
    | Inl e \<Rightarrow> e = Planning RESOURCE_EXHAUSTED \<or>
        (e = Planning UNREACHABLE \<and> \<not> (\<exists>q. stepChain network from q to))"
proof -
  have "nonNegativeCosts (map stepArc network)" using assms by (simp add: nonNegativeCosts_def arcCost_def)
  from shortestPath_correct [OF this, of "from" to clock] show ?thesis
    unfolding shortestPath_steps
    by (cases "stepShortestPath network from to clock")
      (auto simp: pathView_def arc_path_steps routeCost_steps simp flip: arc_path_steps routeCost_steps)
qed

section \<open>The Euler trail\<close>

definition walkView :: "edge_walk \<Rightarrow> euler_state" where
  "walkView st = \<lparr>cursorAt = walkCursor st, usedIds = walkUsed st, nodeStack = walkNodes st,
     edgeStack = map edgeInstance (walkEdges st), circuit = map edgeInstance (walkTrail st)\<rparr>"

lemma walkView_simps [simp]:
  "cursorAt (walkView st) = walkCursor st" "usedIds (walkView st) = walkUsed st" "nodeStack (walkView st) = walkNodes st"
  "edgeStack (walkView st) = map edgeInstance (walkEdges st)" "circuit (walkView st) = map edgeInstance (walkTrail st)"
  by (simp_all add: walkView_def)

lemma leaving_edges: "leaving (map edgeInstance edges) None node = map edgeInstance (edgesFrom edges node)"
  by (simp add: leaving_def edgesFrom_def filter_map comp_def sort_by_map instanceOrder_def Let_def)

lemma skipUsed_edges: "skipUsed used (map edgeInstance list) cursor = skipWalked used list cursor"
  by (simp add: skipUsed_def skipWalked_def drop_map takeWhile_map comp_def)

lemma eulerStep_edges:
  "eulerStep (\<lambda>n. map edgeInstance (leave n)) (walkView st) node below = walkView (edgeWalkStep leave st node below)"
  by (cases "walkEdges st") (auto simp: eulerStep_def edgeWalkStep_def skipUsed_edges Let_def walkView_def)

lemma eulerLoop_edges:
  "eulerLoop (\<lambda>n. map edgeInstance (leave n)) clock (walkView st) =
   bindR (edgeWalkLoop leave clock st) (\<lambda>(st, rest). Inr (walkView st, rest))"
proof (induction clock arbitrary: st)
  case 0
  show ?case by (cases "walkNodes st") (simp_all add: eulerLoop.simps [of _ 0] edgeWalkLoop.simps [of _ 0])
next
  case (Suc clock)
  show ?case
    by (cases "walkNodes st")
      (simp_all add: eulerLoop.simps [of _ "Suc clock"] edgeWalkLoop.simps [of _ "Suc clock"] eulerStep_edges Suc.IH)
qed

lemma joined_edges: "joined (map edgeInstance trail) = continuous trail"
  by (induction trail rule: continuous.induct) simp_all

lemma eulerTrail_edges:
  "eulerTrail (map edgeInstance edges) start end None clock =
   bindR (edgeTrail edges start end clock) (\<lambda>(trail, rest). Inr (map edgeInstance trail, rest))"
proof -
  let ?st = "\<lparr>walkCursor = (\<lambda>_. 0), walkUsed = [], walkNodes = [start], walkEdges = [], walkTrail = []\<rparr>"
  have start: "\<lparr>cursorAt = (\<lambda>_. 0), usedIds = [], nodeStack = [start], edgeStack = [], circuit = []\<rparr> = walkView ?st"
    by (simp add: walkView_def)
  have leave: "leaving (map edgeInstance edges) None = (\<lambda>n. map edgeInstance (edgesFrom edges n))"
    by (simp add: fun_eq_iff leaving_edges)
  show ?thesis
  proof (cases "edgeWalkLoop (edgesFrom edges) clock ?st")
    case (Inl e)
    then show ?thesis by (simp add: eulerTrail_def edgeTrail_def start leave eulerLoop_edges)
  next
    case (Inr r)
    obtain st rest where r: "r = (st, rest)" by (cases r)
    have last: "walkTrail st \<noteq> [] \<Longrightarrow> target (last (map edgeInstance (walkTrail st))) = stepTo (edgeStep (last (walkTrail st)))"
      by (simp add: last_map)
    show ?thesis using Inr r last
      by (auto simp: eulerTrail_def edgeTrail_def start leave eulerLoop_edges joined_edges Let_def ensureR_def)
  qed
qed

lemma edgeTrail_sound:
  assumes "edgeTrail edges start end clock = Inr (trail, rest)"
  shows "mset trail = mset edges" and "trail \<noteq> []" and "trailFrom start (map edgeInstance trail) end"
proof -
  have run: "eulerTrail (map edgeInstance edges) start end None clock = Inr (map edgeInstance trail, rest)"
    using assms by (simp add: eulerTrail_edges)
  have "mset (map edgeInstance trail) = mset (map edgeInstance edges)" by (rule eulerTrail_sound(1) [OF run])
  then have "image_mset edgeInstance (mset trail) = image_mset edgeInstance (mset edges)" by simp
  then show "mset trail = mset edges" by (rule injD [OF multiset.inj_map, rotated]) (simp add: inj_def)
  show "trail \<noteq> []" using eulerTrail_sound(2) [OF run] by simp
  show "trailFrom start (map edgeInstance trail) end" by (rule eulerTrail_sound(4) [OF run])
qed

section \<open>Connectors lie on the network\<close>

lemma stepChain_subset: "stepChain network u p w \<Longrightarrow> set p \<subseteq> set network"
  by (induction p arbitrary: u) auto

definition onNetwork :: "travel_step list \<Rightarrow> step_path \<Rightarrow> bool" where
  "onNetwork network p \<longleftrightarrow> set (pathArcs p) \<subseteq> set network"

definition cacheOk :: "travel_step list \<Rightarrow> connector_state \<Rightarrow> bool" where
  "cacheOk network st \<longleftrightarrow> (\<forall>k p. cachedPaths st k = Some p \<longrightarrow> onNetwork network p)"

lemma connectorPath_ok:
  assumes costs: "\<forall>s \<in> set network. 0 \<le> combinedCostUnits (stepMetrics s)"
    and run: "connectorPath problem network st from to = Inr (p, st')" and cache: "cacheOk network st"
  shows "onNetwork network p \<and> cacheOk network st'"
proof (cases "cachedPaths st (pairKey from to)")
  case None
  then obtain rest where r: "stepShortestPath network from to (clockLeft st) = Inr (p, rest)"
    "st' = st\<lparr>cachedPaths := (cachedPaths st)(pairKey from to \<mapsto> p), cellsUsed := cellsUsed st + 1, clockLeft := rest\<rparr>"
    using run by (auto simp: connectorPath_def bindR_eq_Inr)
  have "onNetwork network p"
    using stepShortestPath_correct [OF costs, of "from" to "clockLeft st"] r(1) stepChain_subset [of network "from" "pathArcs p" to]
    by (simp add: onNetwork_def)
  then show ?thesis using cache r(2) by (simp add: cacheOk_def)
next
  case (Some q)
  then show ?thesis using run cache by (auto simp: connectorPath_def cacheOk_def)
qed

lemma linkCandidate_ok:
  assumes costs: "\<forall>s \<in> set network. 0 \<le> combinedCostUnits (stepMetrics s)"
    and run: "linkCandidate problem network components (cs, st) pair = Inr (cs', st')" and cache: "cacheOk network st"
    and old: "\<forall>c \<in> set cs. onNetwork network (linkPath c)"
  shows "(\<forall>c \<in> set cs'. onNetwork network (linkPath c)) \<and> cacheOk network st'"
proof -
  obtain l r where pair: "pair = (l, r)" by (cases pair)
  obtain rest best st1 where fold: "foldR (betterLink problem network l r) (None, st\<lparr>clockLeft := rest\<rparr>)
      (directedPairs (components ! l) (components ! r)) = Inr (best, st1)" "best = Some b \<Longrightarrow> cs' = cs @ [b]" "st' = st1" "best \<noteq> None" for b
    using run by (auto simp: linkCandidate_def pair bindR_eq_Inr split: option.splits)
  have "(case fst (best, st1) of None \<Rightarrow> True | Some b \<Rightarrow> onNetwork network (linkPath b)) \<and> cacheOk network (snd (best, st1))"
  proof (rule foldR_invariant [OF fold(1), where P = "\<lambda>u. (case fst u of None \<Rightarrow> True | Some b \<Rightarrow> onNetwork network (linkPath b)) \<and> cacheOk network (snd u)"])
    show "(case fst (None, st\<lparr>clockLeft := rest\<rparr>) of None \<Rightarrow> True | Some b \<Rightarrow> onNetwork network (linkPath b)) \<and>
        cacheOk network (snd (None, st\<lparr>clockLeft := rest\<rparr>))"
      using cache by (simp add: cacheOk_def)
    fix u x v
    assume inv: "(case fst u of None \<Rightarrow> True | Some b \<Rightarrow> onNetwork network (linkPath b)) \<and> cacheOk network (snd u)"
      and step: "betterLink problem network l r u x = Inr v"
    obtain b0 s0 where u: "u = (b0, s0)" by (cases u)
    obtain f t where x: "x = (f, t)" by (cases x)
    obtain p s1 where p: "connectorPath problem network s0 f t = Inr (p, s1)" "snd v = s1"
      "fst v \<in> {b0, Some \<lparr>linkLeft = l, linkRight = r, linkFrom = f, linkTo = t, linkPath = p\<rparr>}"
      using step by (auto simp: betterLink_def u x bindR_eq_Inr Let_def split: option.splits if_splits)
    show "(case fst v of None \<Rightarrow> True | Some b \<Rightarrow> onNetwork network (linkPath b)) \<and> cacheOk network (snd v)"
      using connectorPath_ok [OF costs p(1)] inv p(2,3) by (auto simp: u)
  qed
  then show ?thesis using fold old by (cases best) auto
qed

lemma spanLinks_subset: "spanLinks n cs parent result = Inr out \<Longrightarrow> set out \<subseteq> set result \<union> set cs"
proof (induction n cs parent result rule: spanLinks.induct)
  case (2 n candidate rest parent result)
  then show ?case by (fastforce simp: bindR_eq_Inr split: if_splits prod.splits)
qed simp

lemma componentLinks_ok:
  assumes costs: "\<forall>s \<in> set network. 0 \<le> combinedCostUnits (stepMetrics s)"
    and run: "minimumSpanningComponentLinks problem network components st = Inr (links, st')" and cache: "cacheOk network st"
  shows "(\<forall>c \<in> set links. onNetwork network (linkPath c)) \<and> cacheOk network st'"
proof (cases "length components \<le> 1")
  case True
  then show ?thesis using run cache by (auto simp: minimumSpanningComponentLinks_def)
next
  case False
  let ?P = "\<lambda>u. (\<forall>c \<in> set (fst u). onNetwork network (linkPath c)) \<and> cacheOk network (snd u)"
  show ?thesis
    using run unfolding minimumSpanningComponentLinks_def if_not_P [OF False] case_prod_beta
  proof (elim bindR_InrE, goal_cases)
    case (1 r result)
    have "?P r"
    proof (rule foldR_invariant [OF 1(1), where P = ?P])
      fix u x v assume "?P u" and "linkCandidate problem network components u x = Inr v"
      then show "?P v"
        using linkCandidate_ok [OF costs, of problem components "fst u" "snd u" x "fst v" "snd v"] by simp
    qed (use cache in simp)
    then show ?case using spanLinks_subset [OF 1(2)] 1(3) by (auto split: if_splits)
  qed
qed

lemma balancePaths_ok:
  assumes costs: "\<forall>s \<in> set network. 0 \<le> combinedCostUnits (stepMetrics s)"
    and run: "foldR (balancePath problem network) (Map.empty, st) pairs = Inr (paths, st')" and cache: "cacheOk network st"
  shows "\<forall>k p. paths k = Some p \<longrightarrow> onNetwork network p"
proof -
  let ?P = "\<lambda>u. (\<forall>k p. fst u k = Some p \<longrightarrow> onNetwork network p) \<and> cacheOk network (snd u)"
  have "?P (paths, st')"
  proof (rule foldR_invariant [OF run, where P = ?P])
    fix u x v assume inv: "?P u" and step: "balancePath problem network u x = Inr v"
    obtain m s where u: "u = (m, s)" by (cases u)
    obtain a b where x: "x = (a, b)" by (cases x)
    obtain p s1 where p: "connectorPath problem network s (imbNode a) (imbNode b) = Inr (p, s1)"
      "v = (m(pairKey (imbNode a) (imbNode b) \<mapsto> p), s1)"
      using step by (auto simp: balancePath_def u x bindR_eq_Inr)
    show "?P v" using connectorPath_ok [OF costs p(1)] inv p(2) by (auto simp: u)
  qed (use cache in simp)
  then show ?thesis by simp
qed

section \<open>The edges of a plan\<close>

definition rppRanges :: "coverage_problem \<Rightarrow> bool" where
  "rppRanges problem \<longleftrightarrow> (\<forall>obl \<in> set (obligations problem). 0 \<le> oblStart obl \<and> oblEnd obl \<le> WHOLE \<and> 0 \<le> requiredPasses obl) \<and>
     (case fixedEndState problem of None \<Rightarrow> True | Some s \<Rightarrow> 0 \<le> stateFraction s \<and> stateFraction s \<le> WHOLE)"

lemma byArcKey_simps [simp]: "set (byArcKey arcs) = set arcs" "distinct (map arcKey (byArcKey arcs)) = distinct (map arcKey arcs)"
  by (simp_all add: byArcKey_def) (metis distinct_map_perm mset_sort_by)

lemma arcsByKey_network:
  assumes "distinct (map arcKey arcs)"
  shows "arcsByKey (byArcKey arcs) = networkMap arcs"
  using arcNamed_network [of "byArcKey arcs"] networkMap_sorted [of arcs] assms by (simp add: arcsByKey_def)

lemma list_all2_constant: "length xs = n \<Longrightarrow> \<forall>x \<in> set xs. R x c \<Longrightarrow> list_all2 R xs (replicate n c)"
  by (auto simp: list_all2_conv_all_nth)

definition edgeServes :: "route_edge \<Rightarrow> obligation \<Rightarrow> bool" where
  "edgeServes e obl \<longleftrightarrow> edgeRole e = SERVICE \<and> edgeObligations e = [obligationId obl] \<and> stepArcKey (edgeStep e) = oblArcKey obl \<and>
     stepStart (edgeStep e) = oblStart obl \<and> stepEnd (edgeStep e) = oblEnd obl"

lemma serviceEdges_ok:
  assumes run: "serviceEdges (networkMap arcs) obl = Inr es" and d: "distinct (map arcKey arcs)"
    and obl: "0 \<le> oblStart obl" "oblStart obl < oblEnd obl" "oblEnd obl \<le> WHOLE"
  shows "list_all2 edgeServes es (replicate (nat (requiredPasses obl)) obl) \<and> (\<forall>e \<in> set es. properStep arcs (edgeStep e))"
proof -
  obtain arc step where s: "networkMap arcs (oblArcKey obl) = Some arc"
    "stepOf (js ''service:'' @ obligationId obl) arc (oblStart obl) (oblEnd obl) = Inr step"
    "es = map (\<lambda>pass. \<lparr>edgeId = stepId step @ js '':'' @ padStart 2 (int pass), edgeStep = step,
         edgeRole = SERVICE, edgeObligations = [obligationId obl]\<rparr>) [1..<nat (requiredPasses obl) + 1]"
    using run by (auto simp: serviceEdges_def getBang_def bindR_eq_Inr split: option.splits)
  have a: "arc \<in> set arcs" "arcKey arc = oblArcKey obl" using networkMap_lookup [OF d] s(1) by auto
  have "properStep arcs step" using properStepI [OF s(2) a(1)] obl by blast
  moreover have "edgeServes e obl" if "e \<in> set es" for e
    using that s(2,3) a(2) by (auto simp: edgeServes_def stepOf_Inr)
  moreover have "length es = nat (requiredPasses obl)" using s(3) by (simp del: upt_Suc)
  moreover have "\<forall>e \<in> set es. edgeStep e = step" using s(3) by auto
  ultimately show ?thesis by (auto intro!: list_all2_constant)
qed

lemma requiredEdges_ok:
  assumes run: "mapR (serviceEdges (networkMap arcs)) obls = Inr ess" and d: "distinct (map arcKey arcs)"
    and obl: "\<forall>obl \<in> set obls. 0 \<le> oblStart obl \<and> oblStart obl < oblEnd obl \<and> oblEnd obl \<le> WHOLE"
  shows "list_all2 edgeServes (concat ess) (servicePasses obls) \<and> (\<forall>e \<in> set (concat ess). properStep arcs (edgeStep e))"
  using run obl
proof (induction obls arbitrary: ess)
  case (Cons obl obls)
  obtain es rest where r: "serviceEdges (networkMap arcs) obl = Inr es" "mapR (serviceEdges (networkMap arcs)) obls = Inr rest"
    "ess = es # rest"
    using Cons.prems(1) by (auto simp: bindR_eq_Inr)
  have "list_all2 edgeServes es (replicate (nat (requiredPasses obl)) obl) \<and> (\<forall>e \<in> set es. properStep arcs (edgeStep e))"
    using serviceEdges_ok [OF r(1) d] Cons.prems(2) by simp
  moreover have "list_all2 edgeServes (concat rest) (servicePasses obls) \<and> (\<forall>e \<in> set (concat rest). properStep arcs (edgeStep e))"
    using Cons.IH [OF r(2)] Cons.prems(2) by simp
  ultimately show ?case using r(3) by (auto simp: servicePasses_def list_all2_appendI)
qed (simp add: servicePasses_def)

lemma mset_concat_map: "mset xs = mset ys \<Longrightarrow> mset (concat (map f xs)) = mset (concat (map f ys))"
proof -
  assume eq: "mset xs = mset ys"
  have "mset (concat (map f zs)) = (\<Sum>z\<in>#mset zs. mset (f z))" for zs by (induction zs) auto
  then show ?thesis using eq by simp
qed

lemma servicePasses_sorted: "mset (servicePasses (byObligationId obls)) = mset (servicePasses obls)"
  unfolding servicePasses_def byObligationId_def by (intro mset_concat_map) simp

text \<open>Edges in any order whose service edges are the required ones serve fully.\<close>

lemma edgeSegments_simps: "edgeSegments trail = map (\<lambda>(n, e). stepSegment n (edgeStep e) INSIDE_PHASE (edgeRole e) (edgeObligations e)) (enumerate 1 trail)"
  by (simp add: edgeSegments_def)

lemma segments_edges:
  "list_all2 (\<lambda>s e. \<exists>n. s = stepSegment n (edgeStep e) INSIDE_PHASE (edgeRole e) (edgeObligations e)) (edgeSegments trail) trail"
  by (auto simp: edgeSegments_def list_all2_conv_all_nth nth_enumerate_eq)

lemma list_all2_filter:
  "list_all2 R xs ys \<Longrightarrow> (\<And>x y. R x y \<Longrightarrow> P x = Q y) \<Longrightarrow> list_all2 R (filter P xs) (filter Q ys)"
  by (induction rule: list_all2_induct) auto

lemma trail_fullyServed:
  assumes perm: "mset trail = mset (required @ others)" and serve: "list_all2 edgeServes required (servicePasses obls)"
    and others: "\<forall>e \<in> set others. edgeRole e \<noteq> SERVICE"
  shows "fullyServed obls (edgeSegments trail)"
proof -
  have "filter (\<lambda>e. edgeRole e = SERVICE) others = []" using others by (simp add: filter_empty_conv)
  moreover have "filter (\<lambda>e. edgeRole e = SERVICE) required = required"
    using list_all2_left [OF serve] by (intro filter_True) (auto simp: edgeServes_def)
  ultimately have "filter (\<lambda>e. edgeRole e = SERVICE) (required @ others) = required" by simp
  then have "mset (filter (\<lambda>e. edgeRole e = SERVICE) trail) = mset required" unfolding mset_filter perm by (metis mset_filter)
  from list_all2_reorder_left_invariance [OF serve this] obtain served where
    served: "list_all2 edgeServes (filter (\<lambda>e. edgeRole e = SERVICE) trail) served" "mset served = mset (servicePasses obls)" by blast
  have "list_all2 (\<lambda>s e. \<exists>n. s = stepSegment n (edgeStep e) INSIDE_PHASE (edgeRole e) (edgeObligations e))
      (filter (\<lambda>s. segRole s = SERVICE) (edgeSegments trail)) (filter (\<lambda>e. edgeRole e = SERVICE) trail)"
    by (rule list_all2_filter [OF segments_edges]) (auto simp: stepSegment_def)
  then have "list_all2 servesWhole (filter (\<lambda>s. segRole s = SERVICE) (edgeSegments trail)) served"
    by (rule list_all2_trans [rotated, OF _ served(1)]) (auto simp: stepSegment_def edgeServes_def servesWhole_def)
  then show ?thesis using served(2) by (auto simp: fullyServed_def)
qed

lemma numberedEdges_ok:
  assumes "set steps \<subseteq> set network" and "\<forall>s \<in> set network. properStep arcs s"
  shows "\<forall>e \<in> set (numberedEdges label steps obls). edgeRole e \<noteq> SERVICE \<and> properStep arcs (edgeStep e)"
proof
  fix e assume "e \<in> set (numberedEdges label steps obls)"
  then obtain n s where "(n, s) \<in> set (enumerate 1 steps)" and e: "e = classifiedEdge (js label @ padStart 9 (int n)) s obls"
    by (auto simp: numberedEdges_def)
  then have "s \<in> set steps" by (auto simp: in_set_enumerate_eq)
  then show "edgeRole e \<noteq> SERVICE \<and> properStep arcs (edgeStep e)"
    using assms by (auto simp: e classifiedEdge_def Let_def connectorRole_def)
qed

lemma drives_edges:
  assumes "trailFrom u (map edgeInstance trail) w" and "\<forall>e \<in> set trail. properStep arcs (edgeStep e)"
    and "distinct (map arcKey arcs)"
    and "u = stateNode a f" and "w = stateNode b g"
  shows "drives (networkMap arcs) (placeOf a f) (edgeSegments trail) (placeOf b g)"
proof -
  have "drives (networkMap arcs) (placeOf a f) segs (placeOf b g)"
    if "list_all2 (\<lambda>s e. \<exists>n. s = stepSegment n (edgeStep e) INSIDE_PHASE (edgeRole e) (edgeObligations e)) segs trail" for segs
    using that assms(1,2,4)
  proof (induction segs trail arbitrary: u a f rule: list_all2_induct)
    case Nil
    then show ?case using assms(5) by (simp add: stateNode_place)
  next
    case (Cons s segs e trail)
    have "properStep arcs (edgeStep e)" using Cons.prems(2) by simp
    from properStep_arc [OF this assms(3)] obtain arc where
      arc: "networkMap arcs (stepArcKey (edgeStep e)) = Some arc" "stepFrom (edgeStep e) = stateNode arc (stepStart (edgeStep e))"
        "stepTo (edgeStep e) = stateNode arc (stepEnd (edgeStep e))" by blast
    obtain n where s: "s = stepSegment n (edgeStep e) INSIDE_PHASE (edgeRole e) (edgeObligations e)" using Cons.hyps by blast
    have "placeOf a f = placeOf arc (segStart s)"
      using Cons.prems(1,3) arc(2) by (simp add: s stepSegment_def flip: stateNode_place)
    moreover have "drives (networkMap arcs) (placeOf arc (segEnd s)) segs (placeOf b g)"
      using Cons.IH [of "stepTo (edgeStep e)" arc "stepEnd (edgeStep e)"] Cons.prems(1,2) arc(3) by (simp add: s stepSegment_def)
    ultimately show ?case using arc(1) by (simp add: s stepSegment_def)
  qed
  then show ?thesis using segments_edges by blast
qed

section \<open>The plan\<close>

lemma properStep_set: "set xs = set ys \<Longrightarrow> properStep xs = properStep ys"
  by (simp add: properStep_def fun_eq_iff)

lemma slicedMetrics_safe: "sliceMetrics x s e = Inr m \<Longrightarrow> \<forall>v \<in> set (metricValues m). nonNegativeSafe v"
  by (auto simp: sliceMetrics_def bindR_eq_Inr slice_value metricValues_def turnPenalty_def)

lemma properStep_values:
  assumes "properStep arcs step"
  shows "\<forall>v \<in> set (metricValues (stepMetrics step)). nonNegativeSafe v"
proof -
  obtain a where "stepOf (stepId step) a (stepStart step) (stepEnd step) = Inr step" using assms by (auto simp: properStep_def)
  then obtain m where m: "sliceMetrics (arcMetrics a) (stepStart step) (stepEnd step) = Inr m" "stepMetrics step = m"
    unfolding stepOf_Inr by (metis travel_step.select_convs(8))
  then show ?thesis using slicedMetrics_safe by simp
qed

lemma admitService_fold:
  "foldR (admitService problem keys) u obls = Inr v \<Longrightarrow> \<forall>obl \<in> set obls. oblArcKey obl \<in> set keys \<and> oblStart obl < oblEnd obl"
  by (induction obls arbitrary: u) (auto simp: bindR_eq_Inr admitService_def)

definition rppInput :: "coverage_problem \<Rightarrow> traversal_arc list \<Rightarrow> bool" where
  "rppInput problem input \<longleftrightarrow> distinct (map arcKey input) \<and>
     (\<forall>a \<in> set input. arcGraphVersion a = snapGraphVersion (routingSnapshot problem)) \<and>
     (\<forall>obl \<in> set (obligations problem). oblArcKey obl \<in> arcKey ` set input \<and> oblStart obl < oblEnd obl) \<and>
     (\<exists>e. rppEndState problem = Some e \<and> validState (networkMap input) (startState problem) \<and> validState (networkMap input) e)"

lemma rpp_input:
  assumes run: "validateRppInput problem input = Inr arcs" and mode: "endpointMode problem \<noteq> LAST_AREA_EXIT"
  shows "arcs = byArcKey input \<and> rppInput problem input"
  using run unfolding validateRppInput_def Let_def
proof (elim bindR_InrE, goal_cases)
  case (1 u0 keys u1 u2 u3)
  note adm = admitArc_fold [OF 1(2)]
  have d: "distinct (map arcKey input)" using adm by simp
  note net = arcsByKey_network [OF d]
  have svc: "\<forall>obl \<in> set (obligations problem). oblArcKey obl \<in> set keys \<and> oblStart obl < oblEnd obl"
    by (rule admitService_fold [OF 1(3)])
  have keys: "set keys = arcKey ` set input" using adm by simp
  have fin: "\<exists>e. rppEndState problem = Some e \<and> validState (networkMap input) e"
    using 1(4,5) mode by (cases "endpointMode problem"; cases "fixedEndState problem") (auto simp: net rppEndState_def)
  show ?case using adm d svc keys fin 1(4,6) by (auto simp: rppInput_def net)
qed

lemma rpp_network:
  assumes input: "rppInput problem input" and ranges: "rppRanges problem"
    and fractions: "rppFractions problem (byArcKey input) = Inr fractions"
    and run: "buildAtomicNetwork (byArcKey input) fractions = Inr network"
  shows "\<forall>s \<in> set network. properStep input s"
proof -
  let ?marks = "obligationMarks (obligations problem) @ [stateMark (startState problem)] @
            (case fixedEndState problem of None \<Rightarrow> [] | Some s \<Rightarrow> [stateMark s])"
  have f: "fractions = fractionsOf ?marks" using fractions by (auto simp: rppFractions_def Let_def bindR_eq_Inr)
  have obl: "\<forall>obl \<in> set (obligations problem). 0 \<le> oblStart obl \<and> oblStart obl < oblEnd obl \<and> oblEnd obl \<le> WHOLE"
    using input ranges by (auto simp: rppInput_def rppRanges_def)
  have "0 \<le> stateFraction (startState problem) \<and> stateFraction (startState problem) \<le> WHOLE"
    using input by (auto simp: rppInput_def validState_def split: option.splits)
  then have "\<forall>(k, f) \<in> set ?marks. 0 \<le> f \<and> f \<le> WHOLE"
    using obl ranges by (force simp: obligationMarks_def stateMark_def rppRanges_def split: option.splits)
  then have "\<forall>s \<in> set network. properStep (byArcKey input) s"
    using run unfolding buildAtomicNetwork_def f
    by (intro atomicCuts_proper [where cutArc = atomicStep]) (auto simp: atomicStep_def)
  then show ?thesis using properStep_set [of "byArcKey input" input] by simp
qed

lemma rpp_plan:
  assumes run: "rppPlan problem input clock = Inr plan" and ranges: "rppRanges problem"
  shows "\<exists>trail e startArc endArc. rppInput problem input \<and> rppEndState problem = Some e \<and> endpointMode problem \<noteq> LAST_AREA_EXIT \<and>
    networkMap input (stateArcKey (startState problem)) = Some startArc \<and> networkMap input (stateArcKey e) = Some endArc \<and>
    trail \<noteq> [] \<and> (\<forall>x \<in> set trail. properStep input (edgeStep x)) \<and> int (length trail) \<le> MAX_ROUTE_SEGMENTS \<and>
    trailFrom (stateNode startArc (stateFraction (startState problem))) (map edgeInstance trail) (stateNode endArc (stateFraction e)) \<and>
    fullyServed (obligations problem) (edgeSegments trail) \<and>
    totalMetrics (edgeSegments trail) = Inr (bodyMetrics (rpBody plan)) \<and>
    rpBody plan = \<lparr>bodyStartState = startState problem, bodyEndState = e, bodySegments = edgeSegments trail,
         bodyBoundaryEvents = Some [], bodyMetrics = bodyMetrics (rpBody plan)\<rparr>"
proof -
  have mode: "endpointMode problem \<noteq> LAST_AREA_EXIT" using run by (auto simp: rppPlan_def bindR_eq_Inr)
  obtain arcs where "validateRppInput problem input = Inr arcs" using run by (auto simp: rppPlan_def bindR_eq_Inr)
  note input = rpp_input [OF this mode]
  then obtain e where e: "rppEndState problem = Some e" by (auto simp: rppInput_def)
  have d: "distinct (map arcKey input)" using input by (simp add: rppInput_def)
  note net = arcsByKey_network [OF d]
  show ?thesis
    using run unfolding rppPlan_def e option.case Let_def case_prod_beta
  proof (elim bindR_InrE, goal_cases)
    case (1 u0 arcs1 fractions network ends required links balance paths flow steps u1 trail metrics)
    have arcs: "arcs1 = byArcKey input" using rpp_input [OF 1(2) mode] by simp
    note proper = rpp_network [OF conjunct2 [OF input] ranges 1(3) [unfolded arcs] 1(4) [unfolded arcs]]
    have costs: "\<forall>s \<in> set network. 0 \<le> combinedCostUnits (stepMetrics s)"
      using proper properStep_values by (auto simp: metricValues_def nonNegativeSafe_def)
    obtain startArc endArc where ends: "networkMap input (stateArcKey (startState problem)) = Some startArc"
      "networkMap input (stateArcKey e) = Some endArc"
      "ends = (stateNode startArc (stateFraction (startState problem)), stateNode endArc (stateFraction e))"
      using 1(5) by (auto simp: rppEndpoints_def arcs net getBang_def bindR_eq_Inr split: option.splits)
    obtain ess where ess: "mapR (serviceEdges (networkMap input)) (byObligationId (obligations problem)) = Inr ess" "required = concat ess"
      using 1(6) by (auto simp: buildRequiredEdges_def arcs net bindR_eq_Inr)
    have sameObl: "set (byObligationId (obligations problem)) = set (obligations problem)" by (simp add: byObligationId_def)
    have obl: "\<forall>obl \<in> set (byObligationId (obligations problem)). 0 \<le> oblStart obl \<and> oblStart obl < oblEnd obl \<and> oblEnd obl \<le> WHOLE"
      using input ranges by (auto simp: sameObl rppInput_def rppRanges_def)
    note req = requiredEdges_ok [OF ess(1) d obl, folded ess(2)]
    have "cacheOk network \<lparr>cachedPaths = Map.empty, cellsUsed = 0, clockLeft = clock\<rparr>" by (simp add: cacheOk_def)
    note links = componentLinks_ok [OF costs _ this, of problem _ "fst links" "snd links"]
    have l: "(\<forall>c \<in> set (fst links). onNetwork network (linkPath c)) \<and> cacheOk network (snd links)"
      by (rule links) (use 1(7) in simp)
    have p: "\<forall>k p. fst paths k = Some p \<longrightarrow> onNetwork network p"
      using balancePaths_ok [OF costs _ conjunct2 [OF l], of problem _ "fst paths" "snd paths"] 1(9) by simp
    let ?con = "numberedEdges ''component:'' (concat (map (\<lambda>l. pathArcs (linkPath l)) (fst links))) (obligations problem)"
    let ?bal = "numberedEdges ''balance:'' (concat steps) (obligations problem)"
    have con: "\<forall>x \<in> set ?con. edgeRole x \<noteq> SERVICE \<and> properStep input (edgeStep x)"
      by (rule numberedEdges_ok [OF _ proper]) (use l in \<open>auto simp: onNetwork_def\<close>)
    have "set (concat steps) \<subseteq> set network"
    proof
      fix s assume "s \<in> set (concat steps)"
      then obtain ss where ss: "ss \<in> set steps" "s \<in> set ss" by auto
      obtain item where item: "augmentationSteps (fst paths) item = Inr ss"
        using list_all2_right [OF 1(11) [unfolded mapR_Inr_iff] ss(1)] by blast
      obtain sel where sel: "fst paths (pairKey (augFrom item) (augTo item)) = Some sel" "s \<in> set (pathArcs sel)"
        using item ss(2) by (auto simp: augmentationSteps_def getBang_def bindR_eq_Inr split: option.splits)
      then show "s \<in> set network" using p by (auto simp: onNetwork_def)
    qed
    then have bal: "\<forall>x \<in> set ?bal. edgeRole x \<noteq> SERVICE \<and> properStep input (edgeStep x)" by (rule numberedEdges_ok [OF _ proper])
    have trail: "edgeTrail (required @ ?con @ ?bal) (fst ends) (snd ends) (snd flow) = Inr (fst trail, snd trail)" using 1(13) by simp
    note sound = edgeTrail_sound [OF trail]
    have "set (fst trail) = set (required @ ?con @ ?bal)" using sound(1) by (metis set_mset_mset)
    then have proper1: "\<forall>x \<in> set (fst trail). properStep input (edgeStep x)" using req con bal by auto
    have "fullyServed (byObligationId (obligations problem)) (edgeSegments (fst trail))"
      by (rule trail_fullyServed [OF sound(1) conjunct1 [OF req]]) (use con bal in auto)
    then have served: "fullyServed (obligations problem) (edgeSegments (fst trail))"
      by (simp add: fullyServed_def servicePasses_sorted)
    have "length (fst trail) = length (required @ ?con @ ?bal)" using sound(1) by (metis size_mset)
    then have len: "int (length (fst trail)) \<le> MAX_ROUTE_SEGMENTS" using 1(12) by simp
    show ?case
      using 1(14,15) input mode ends sound(2,3) proper1 served len
      by (intro exI [of _ "fst trail"] exI [of _ e] exI [of _ startArc] exI [of _ endArc]) auto
  qed
qed

section \<open>Routes are valid\<close>

lemma edges_sound:
  assumes proper: "\<forall>x \<in> set trail. properStep input (edgeStep x)" and rpp: "rppInput problem input"
    and plain: "\<forall>a \<in> set input. plainArc policy a"
  shows "\<forall>s \<in> set (edgeSegments trail). soundSegment (verifyInput problem input policy route) (networkMap input) s"
proof
  fix s assume "s \<in> set (edgeSegments trail)"
  then obtain x n where x: "x \<in> set trail" "s = stepSegment n (edgeStep x) INSIDE_PHASE (edgeRole x) (edgeObligations x)"
    using list_all2_left [OF segments_edges] by blast
  have d: "distinct (map arcKey input)" using rpp by (simp add: rppInput_def)
  from properStep_arc [OF bspec [OF proper x(1)] d] obtain a where
    a: "networkMap input (stepArcKey (edgeStep x)) = Some a" "a \<in> set input" "stepGraphVersion (edgeStep x) = arcGraphVersion a"
      "sliceMetrics (arcMetrics a) (stepStart (edgeStep x)) (stepEnd (edgeStep x)) = Inr (stepMetrics (edgeStep x))"
      "validInterval (stepStart (edgeStep x)) (stepEnd (edgeStep x))" by blast
  have "arcGraphVersion a = snapGraphVersion (routingSnapshot problem)" "turnPenalty (arcMetrics a) = 0"
    using rpp plain a(2) by (auto simp: rppInput_def plainArc_def)
  then show "soundSegment (verifyInput problem input policy route) (networkMap input) s"
    using a by (auto simp: soundSegment_def x(2) stepSegment_def)
qed

lemma edges_values:
  assumes "\<forall>x \<in> set trail. properStep input (edgeStep x)" and "s \<in> set (edgeSegments trail)"
  shows "0 \<le> distanceMm (segMetrics s)"
proof -
  obtain x n where x: "x \<in> set trail" "s = stepSegment n (edgeStep x) INSIDE_PHASE (edgeRole x) (edgeObligations x)"
    using list_all2_left [OF segments_edges assms(2)] by blast
  then show ?thesis using properStep_values [of input "edgeStep x"] assms(1)
    by (simp add: stepSegment_def metricValues_def nonNegativeSafe_def)
qed

text \<open>The distance of a slice is what the verifier counts for it.\<close>

lemma slice_distance:
  assumes "sliceMetrics m s e = Inr m'"
  shows "distanceMm (verifierSlice m s e) = distanceMm m'"
  using assms by (auto simp: sliceMetrics_def verifierSlice_def bindR_eq_Inr slice_value nonNegativeSafe_def Let_def)

lemma onePass_nonneg:
  assumes "0 \<le> s" "s < e" "e \<le> WHOLE" and "nonNegativeSafe (distanceMm m)"
  shows "0 \<le> distanceMm (verifierSlice m s e)"
  using slice_valid [OF assms(4,1) _ assms(3)] assms(2)
  by (auto simp: verifierSlice_def Let_def slice_def nonNegativeSafe_def split: if_splits)

lemma rpp_verified:
  assumes run: "solveFixedDirectionRpp sha problem input clock = Inr sol" and ranges: "rppRanges problem"
    and plain: "\<forall>a \<in> set input. plainArc policy a" and free: "boundaryCrossingPolicy problem = FREE"
    and ids: "distinct (map obligationId (obligations problem))"
  shows "(\<exists>r. verifyCoverageRoute sha (verifyInput problem input policy (rppRoute sol)) = Inr r \<and> reportStatus (reportBody r) = VALID) \<and>
    (\<forall>obl \<in> set (obligations problem). \<forall>x. oblStart obl \<le> x \<longrightarrow> x < oblEnd obl \<longrightarrow>
       timesServed (bodySegments (routeBody (rppRoute sol))) obl x = requiredPasses obl)"
proof (rule conjI)
  obtain plan where plan: "rppPlan problem input clock = Inr plan" "rppSolution sha problem plan = Inr sol"
    using run by (auto simp: solveFixedDirectionRpp_def bindR_eq_Inr)
  obtain trail e startArc endArc where t: "rppInput problem input" "rppEndState problem = Some e" "endpointMode problem \<noteq> LAST_AREA_EXIT"
    "networkMap input (stateArcKey (startState problem)) = Some startArc" "networkMap input (stateArcKey e) = Some endArc"
    "trail \<noteq> []" "\<forall>x \<in> set trail. properStep input (edgeStep x)" "int (length trail) \<le> MAX_ROUTE_SEGMENTS"
    "trailFrom (stateNode startArc (stateFraction (startState problem))) (map edgeInstance trail) (stateNode endArc (stateFraction e))"
    "fullyServed (obligations problem) (edgeSegments trail)" "totalMetrics (edgeSegments trail) = Inr (bodyMetrics (rpBody plan))"
    "rpBody plan = \<lparr>bodyStartState = startState problem, bodyEndState = e, bodySegments = edgeSegments trail,
         bodyBoundaryEvents = Some [], bodyMetrics = bodyMetrics (rpBody plan)\<rparr>"
    using rpp_plan [OF plan(1) ranges] by (elim exE conjE)
  have route: "routeBody (rppRoute sol) = rpBody plan" "contractSha256 sha (routeBodyJson (rpBody plan)) = Inr (routeSignature (rppRoute sol))"
    using plan(2) by (auto simp: rppSolution_def signRoute_def bindR_eq_Inr map_sum_def split: sum.splits)
  have segs: "bodySegments (rpBody plan) = edgeSegments trail" "bodyStartState (rpBody plan) = startState problem" "bodyEndState (rpBody plan) = e"
    by (subst t(12), simp)+
  let ?in = "verifyInput problem input policy (rppRoute sol)" and ?net = "networkMap input"
  have d: "distinct (map arcKey input)" using t(1) by (simp add: rppInput_def)
  have drive: "drives ?net (placeOf startArc (stateFraction (startState problem))) (edgeSegments trail) (placeOf endArc (stateFraction e))"
    by (rule drives_edges [OF t(9,7) d refl refl])
  have known: "\<exists>a \<in> set input. ?net (oblArcKey obl) = Some a" if "obl \<in> set (obligations problem)" for obl
  proof -
    have "oblArcKey obl \<in> arcKey ` set input" using t(1) that by (simp add: rppInput_def)
    then obtain a where "a \<in> set input" "arcKey a = oblArcKey obl" by auto
    then show ?thesis using networkMap_lookup [OF d] by auto
  qed
  have expected: "expectedEnd ?in = Some e"
    using t(2,3) by (cases "endpointMode problem") (simp_all add: expectedEnd_def rppEndState_def)
  have len: "length (edgeSegments trail) = length trail" by (simp add: edgeSegments_def)
  obtain served where served: "mset served = mset (servicePasses (obligations problem))"
    "list_all2 servesWhole (filter (\<lambda>s. segRole s = SERVICE) (edgeSegments trail)) served"
    using t(10) by (auto simp: fullyServed_def)
  have cover: "\<exists>figures. verifyCoverage ?in ?net = Inr (True, figures, [])"
  proof (rule service_accepts)
    show "fullyServed (obligations (viProblem ?in)) (bodySegments (routeBody (viCandidate ?in)))" using t(10) by (simp add: route segs)
    show "\<forall>obl \<in> set (obligations (viProblem ?in)). oblStart obl < oblEnd obl \<and> 0 \<le> requiredPasses obl \<and> ?net (oblArcKey obl) \<noteq> None"
      using t(1) ranges known by (fastforce simp: rppInput_def rppRanges_def)
    have "(\<Sum>obl\<leftarrow>obligations problem. requiredPasses obl) = int (length served)"
      using sum_servicePasses [of "obligations problem" "\<lambda>_. 1"] ranges served(1)
      by (simp add: rppRanges_def sum_list_const) (metis size_mset)
    also have "\<dots> \<le> int (length trail)"
      using list_all2_lengthD [OF served(2)] length_filter_le [of "\<lambda>s. segRole s = SERVICE" "edgeSegments trail"] len by simp
    finally show "(\<Sum>obl\<leftarrow>obligations (viProblem ?in). requiredPasses obl) \<le> maxSafeInteger"
      using t(8) by (simp add: MAX_ROUTE_SEGMENTS_def maxSafeInteger_def)
    show "totalMetrics (bodySegments (routeBody (viCandidate ?in))) = Inr (bodyMetrics (rpBody plan))" using t(11) by (simp add: route segs)
    show "\<forall>s \<in> set (bodySegments (routeBody (viCandidate ?in))). 0 \<le> distanceMm (segMetrics s)"
      using edges_values [OF t(7)] by (simp add: route segs)
    show "\<forall>obl \<in> set (obligations (viProblem ?in)). 0 \<le> onePassLength ?net obl"
    proof
      fix obl assume obl: "obl \<in> set (obligations (viProblem ?in))"
      then obtain a where a: "a \<in> set input" "?net (oblArcKey obl) = Some a" using known by auto
      have "nonNegativeSafe (distanceMm (arcMetrics a))" using plain a(1) by (simp add: plainArc_def metricValues_def)
      then show "0 \<le> onePassLength ?net obl"
        using obl t(1) ranges a(2) by (auto simp: onePassLength_def rppInput_def rppRanges_def intro!: onePass_nonneg)
    qed
    fix s obl assume s: "s \<in> set (bodySegments (routeBody (viCandidate ?in)))" "servesWhole s obl"
    then have "soundSegment ?in ?net s" using edges_sound [OF t(7,1) plain] by (simp add: route segs)
    then show "distanceMm (segMetrics s) = onePassLength ?net obl"
      using s(2) slice_distance by (auto simp: soundSegment_def servesWhole_def onePassLength_def)
  qed (use ids in simp)
  have "edgeSegments trail \<noteq> []" using t(6) len by (metis length_0_conv)
  then have ends: "verifyEndpoints sha ?in ?net = Inr (True, True, [])"
    by (rule endpoints_accept [OF drive]) (use t(4,5) expected in \<open>simp_all add: route segs\<close>)
  have bound: "verifyBoundaryPolicy sha ?in = Inr (True, [])" using free t(3) by (simp add: verifyBoundaryPolicy_def Let_def)
  show "\<forall>obl \<in> set (obligations problem). \<forall>x. oblStart obl \<le> x \<longrightarrow> x < oblEnd obl \<longrightarrow>
       timesServed (bodySegments (routeBody (rppRoute sol))) obl x = requiredPasses obl"
    using served_times [OF t(10) ids] ranges by (auto simp: route segs rppRanges_def)
  obtain figures where cover: "verifyCoverage ?in ?net = Inr (True, figures, [])" using cover by blast
  show "\<exists>r. verifyCoverageRoute sha ?in = Inr r \<and> reportStatus (reportBody r) = VALID"
  proof (rule verifier_accepts)
    show "\<forall>s \<in> set (bodySegments (routeBody (viCandidate ?in))). soundSegment ?in (networkOf ?in) s"
      using edges_sound [OF t(7,1) plain] by (simp add: route segs)
    show "drives (networkOf ?in) (placeOf startArc (stateFraction (startState problem)))
        (bodySegments (routeBody (viCandidate ?in))) (placeOf endArc (stateFraction e))" using drive by (simp add: route segs)
  qed (use d plain t(11) ends bound cover route in \<open>simp_all add: segs\<close>)
qed

section \<open>Example run\<close>

lemma signRoute_ok:
  assumes "bodyBoundaryEvents body = Some []"
  shows "\<exists>route. signRoute sha body = Inr route"
proof -
  have "supported (routeBodyJson body)" using assms by (simp add: supported_routeBody)
  then obtain t where "contractSha256 sha (routeBodyJson body) = Inr t" using contractSha256_ok by blast
  then show ?thesis by (simp add: signRoute_def)
qed

definition ruralProblem :: "coverage_problem" where
  "ruralProblem = (townProblem [townObligation ''o1'' ''a'' 250000 WHOLE 1, townObligation ''o2'' ''c'' 0 500000 1])\<lparr>
     startState := townState ''a'' 0\<rparr>"

definition ruralArcs :: "traversal_arc list" where
  "ruralArcs = [townArc ''a'' ''A'' ''B'' 8, townArc ''b'' ''B'' ''C'' 10, townArc ''c'' ''C'' ''D'' 5, townArc ''d'' ''D'' ''A'' 7]"

definition rppSignable :: "coverage_error + rpp_plan \<Rightarrow> bool" where
  "rppSignable m = (case m of Inl _ \<Rightarrow> False | Inr plan \<Rightarrow> bodyBoundaryEvents (rpBody plan) = Some [] \<and>
     isOk (foldR (\<lambda>sum item. safeAdd sum (augQuantity item)) 0 (rpFlow plan)))"

lemma rppSignable_solution: "rppSignable m \<Longrightarrow> \<exists>sol. bindR m (rppSolution sha problem) = Inr sol"
proof (cases m)
  case (Inr plan)
  assume ok: "rppSignable m"
  then obtain route where "signRoute sha (rpBody plan) = Inr route" using Inr signRoute_ok by (auto simp: rppSignable_def)
  then show ?thesis using ok Inr by (auto simp: rppSignable_def rppSolution_def isOk_iff)
qed (simp add: rppSignable_def)

lemma rural_signable: "rppSignable (rppPlan ruralProblem ruralArcs 120)" by code_simp

section \<open>Properties\<close>

text \<open>
  C7. Solver and verifier agree (rural postman).  Every route that \<open>solveFixedDirectionRpp\<close> returns
  is reported VALID by the verifier, given the network the solver used, no turn rules and a
  policy that permits and re-prices none of its arcs; and every millionth of every obligation is
  served exactly the required number of times, connectors over it not counted.  The spanning
  tree, the flow and the cache may err: the Euler trail and its checks carry the guarantee.
  Assumed of the problem: its boundary may be crossed freely (without boundary events the verifier
  refuses every other crossing policy), its obligations have distinct names, lie within the
  fractions of their arcs and have non-negative passes, and a fixed end lies on its arc.
\<close>

theorem rpp_route_verified:
  assumes "solveFixedDirectionRpp sha problem input clock = Inr sol" and "rppRanges problem"
    and "\<forall>a \<in> set input. plainArc policy a" and "boundaryCrossingPolicy problem = FREE"
    and "distinct (map obligationId (obligations problem))"
  shows "(\<exists>r. verifyCoverageRoute sha (verifyInput problem input policy (rppRoute sol)) = Inr r \<and> reportStatus (reportBody r) = VALID) \<and>
    (\<forall>obl \<in> set (obligations problem). \<forall>x. oblStart obl \<le> x \<longrightarrow> x < oblEnd obl \<longrightarrow>
       timesServed (bodySegments (routeBody (rppRoute sol))) obl x = requiredPasses obl)"
  by (rule rpp_verified [OF assms])

lemma rpp_route_verified_witness:
  "\<exists>sol r. solveFixedDirectionRpp (\<lambda>_. []) ruralProblem ruralArcs 120 = Inr sol \<and>
     verifyCoverageRoute (\<lambda>_. []) (verifyInput ruralProblem ruralArcs (viPolicy townInput) (rppRoute sol)) = Inr r \<and>
     reportStatus (reportBody r) = VALID"
proof -
  obtain sol where sol: "solveFixedDirectionRpp (\<lambda>_. []) ruralProblem ruralArcs 120 = Inr sol"
    using rppSignable_solution [OF rural_signable] by (auto simp: solveFixedDirectionRpp_def)
  have "\<forall>a \<in> set ruralArcs. plainArc (viPolicy townInput) a"
    by (simp add: ruralArcs_def townArc_def plainArc_def profileEligible_def townInput_def maskAnd_def toInt32_def
      metricValues_def turnPenalty_def nonNegativeSafe_def isSafeInteger_def maxSafeInteger_def)
  moreover have "rppRanges ruralProblem" "boundaryCrossingPolicy ruralProblem = FREE"
    "distinct (map obligationId (obligations ruralProblem))"
    by (simp_all add: ruralProblem_def townProblem_def townObligation_def rppRanges_def WHOLE_def js_def)
  ultimately show ?thesis using rpp_route_verified [OF sol] sol by blast
qed

text \<open>
  C24. The rural solver's connector search is exact: when it returns, its steps form a chain of the
  atomic network with their true combined cost and no chain is cheaper; UNREACHABLE means there is
  no chain; its only other outcome is that the time limit or the safe range is exceeded.
\<close>

theorem rpp_connector_exact:
  assumes "\<forall>s \<in> set network. 0 \<le> combinedCostUnits (stepMetrics s)"
  shows "case stepShortestPath network from to clock of
      Inr (p, rest) \<Rightarrow> stepChain network from (pathArcs p) to \<and> chainCost (pathArcs p) = pathCost p \<and>
        (\<forall>q. stepChain network from q to \<longrightarrow> pathCost p \<le> chainCost q)
    | Inl e \<Rightarrow> e = Planning RESOURCE_EXHAUSTED \<or>
        (e = Planning UNREACHABLE \<and> \<not> (\<exists>q. stepChain network from q to))"
  by (rule stepShortestPath_correct [OF assms])

definition sampleStep :: "string \<Rightarrow> string \<Rightarrow> string \<Rightarrow> int \<Rightarrow> travel_step" where
  "sampleStep i u v c = \<lparr>stepId = js i, stepGraphVersion = [], stepArcKey = js i, stepFrom = js u, stepTo = js v,
     stepStart = 0, stepEnd = WHOLE, stepMetrics = sampleMetrics c, stepFeature = None\<rparr>"

definition sampleSteps :: "travel_step list" where
  "sampleSteps = [sampleStep ''a'' ''x'' ''y'' 5, sampleStep ''b'' ''x'' ''z'' 1, sampleStep ''c'' ''z'' ''y'' 2]"

lemma rpp_connector_exact_witness:
  "\<exists>p rest. stepShortestPath sampleSteps (js ''x'') (js ''y'') 9 = Inr (p, rest) \<and> pathCost p = 3 \<and>
     (\<forall>q. stepChain sampleSteps (js ''x'') q (js ''y'') \<longrightarrow> 3 \<le> chainCost q)"
proof -
  let ?r = "stepShortestPath sampleSteps (js ''x'') (js ''y'') 9"
  have "case ?r of Inl e \<Rightarrow> False | Inr (p, rest) \<Rightarrow> pathCost p = 3" by code_simp
  then obtain p rest where r: "?r = Inr (p, rest)" "pathCost p = 3" by (cases ?r) auto
  have "\<forall>s \<in> set sampleSteps. 0 \<le> combinedCostUnits (stepMetrics s)"
    by (simp add: sampleSteps_def sampleStep_def sampleMetrics_def)
  from rpp_connector_exact [OF this, of "js ''x''" "js ''y''" 9] show ?thesis using r by auto
qed

end
