(* ===== verification/StrictRouting.thy ===== *)
theory StrictRouting
  imports
  CoverageVerifier
  FixedRpp
begin

text \<open>
  \<open>solveStrictCoverageRoute\<close> of \<open>road-coverage-planning-core/src/strict-routing.ts\<close>: the turn-aware
  solver.  Arcs are re-priced for the travel policy, connectors are cheapest paths over pairs of
  a node and a window of turn history, and a beam search orders the services.

  A history is its list of arc keys.  The turn automaton is in \<open>TravelRules\<close>.  The objective is
  one of the type's seven values, so its membership test passes; the seed is only echoed.
\<close>

section \<open>Options\<close>

datatype routing_objective =
  SHORTEST_DISTANCE | FASTEST | LOWEST_RISK | LOWEST_ENERGY | BALANCED | LEAST_DEADHEAD | WEIGHTED

record objective_weights =
  weightDistance :: int
  weightDuration :: int
  weightRisk :: int
  weightEnergy :: "int option"
  weightDeadhead :: int

datatype service_mode = FIXED_DIRECTION | BOTH_DIRECTIONS | EITHER_DIRECTION

record solver_options =
  optObjective :: routing_objective
  optWeights :: "objective_weights option"
  optPolicy :: travel_policy
  optRules :: "turn_rule list option"
  optRouteCount :: "int option"
  optServiceMode :: "service_mode option"

definition energyWeight :: "objective_weights \<Rightarrow> int" where
  "energyWeight w = (case weightEnergy w of None \<Rightarrow> 0 | Some e \<Rightarrow> e)"

definition validateWeights :: "objective_weights option \<Rightarrow> coverage_error + objective_weights" where
  "validateWeights weights =
     (case weights of None \<Rightarrow> Inl (Planning CAPABILITY_NOT_AVAILABLE)
      | Some w \<Rightarrow>
          if \<forall>v \<in> set [weightDistance w, weightDuration w, weightRisk w, energyWeight w, weightDeadhead w].
               isSafeInteger v \<and> 0 \<le> v \<and> v \<le> 1000000
          then Inr w else Inl (Planning CAPABILITY_NOT_AVAILABLE))"

definition validRule :: "turn_rule \<Rightarrow> bool" where
  "validRule r \<longleftrightarrow> \<not> (length (arcSequence r) < 2 \<or> (ruleType r = ALLOWED_ONLY \<and> length (arcSequence r) \<noteq> 2) \<or>
     \<not> isSafeInteger (penaltyOf r) \<or> penaltyOf r < 0 \<or> (ruleType r = PENALTY \<and> penaltyOf r = 0))"

definition optionRules :: "solver_options \<Rightarrow> turn_rule list" where
  "optionRules options = (case optRules options of None \<Rightarrow> [] | Some rs \<Rightarrow> rs)"

definition validateOptions :: "solver_options \<Rightarrow> coverage_error + unit" where
  "validateOptions options =
     bindR (if optObjective options = WEIGHTED then bindR (validateWeights (optWeights options)) (\<lambda>_. Inr ()) else Inr ()) (\<lambda>_.
     foldR (\<lambda>u r. ensureR (validRule r) (Planning CAPABILITY_NOT_AVAILABLE)) () (optionRules options))"

section \<open>Objectives\<close>

definition objectiveRaw :: "fixed_metrics \<Rightarrow> routing_objective \<Rightarrow> int" where
  "objectiveRaw m objective =
     (case objective of SHORTEST_DISTANCE \<Rightarrow> distanceMm m | LEAST_DEADHEAD \<Rightarrow> distanceMm m
      | FASTEST \<Rightarrow> durationMs m | LOWEST_RISK \<Rightarrow> riskMicroUnits m | LOWEST_ENERGY \<Rightarrow> energyMwh m
      | _ \<Rightarrow> combinedCostUnits m)"

definition weightedObjectiveValue ::
  "fixed_metrics \<Rightarrow> objective_weights option \<Rightarrow> bool \<Rightarrow> coverage_error + int" where
  "weightedObjectiveValue m weights service =
     bindR (validateWeights weights) (\<lambda>w.
     let numerator = distanceMm m * weightDistance w + durationMs m * weightDuration w +
           riskMicroUnits m * weightRisk w + energyMwh m * energyWeight w +
           (if service then 0 else distanceMm m) * weightDeadhead w;
         score = bigDiv numerator 1000000 in
     if maxSafeInteger < score then Inl (Planning RESOURCE_EXHAUSTED) else Inr (toNumber score))"

definition objectiveValue ::
  "fixed_metrics \<Rightarrow> routing_objective \<Rightarrow> objective_weights option \<Rightarrow> bool \<Rightarrow> coverage_error + int" where
  "objectiveValue m objective weights service =
     (if objective = LEAST_DEADHEAD then (if service then Inr 0 else safeAdd (distanceMm m) (turnPenalty m))
      else if objective = WEIGHTED
      then bindR (weightedObjectiveValue m weights service) (\<lambda>v. safeAdd v (turnPenalty m))
      else if objective = BALANCED then Inr (combinedCostUnits m)
      else safeAdd (objectiveRaw m objective) (turnPenalty m))"

section \<open>Effective arcs\<close>

definition ceilRatio :: "int \<Rightarrow> int \<Rightarrow> int \<Rightarrow> coverage_error + int" where
  "ceilRatio v multiplier divisor =
     (let q = ceilQuotient v multiplier divisor in
      if isSafeInteger q then Inr q else Inl (Planning RESOURCE_EXHAUSTED))"

definition minimumDefined :: "int option list \<Rightarrow> int option" where
  "minimumDefined vs = (case presentValues vs of [] \<Rightarrow> None | v # rest \<Rightarrow> Some (foldl min v rest))"

definition effectiveArc :: "solver_options \<Rightarrow> traversal_arc \<Rightarrow> coverage_error + traversal_arc option" where
  "effectiveArc options arc =
     (let policy = optPolicy options; m = arcMetrics arc in
      if traversalAllowed arc = Some False \<or> \<not> profileEligible arc policy then Inr None
      else (let speed = minimumDefined [speedOverrideMmPerS arc, maximumSpeedMmPerS policy, speedMmPerS arc] in
        bindR (ensureR (case speed of None \<Rightarrow> True | Some s \<Rightarrow> isSafeInteger s \<and> 0 < s) (Planning NO_FEASIBLE_PLAN)) (\<lambda>_.
        bindR (case speed of None \<Rightarrow> Inr (durationMs m) | Some s \<Rightarrow> ceilRatio (distanceMm m) 1000 s) (\<lambda>duration.
        let risk = (case riskOverrideMicroUnits arc of None \<Rightarrow> riskMicroUnits m | Some r \<Rightarrow> r) in
        bindR (ensureR (nonNegativeSafe risk) (Planning RESOURCE_EXHAUSTED)) (\<lambda>_.
        bindR (safeAdd (combinedCostUnits m) (case conditionPenaltyUnits arc of None \<Rightarrow> 0 | Some p \<Rightarrow> p)) (\<lambda>cost.
        Inr (Some (arc\<lparr>arcMetrics := m\<lparr>durationMs := duration, riskMicroUnits := risk,
          combinedCostUnits := cost, turnPenaltyUnits := Some 0\<rparr>\<rparr>))))))))"

definition effectiveStep ::
  "coverage_problem \<Rightarrow> solver_options \<Rightarrow> js_string list \<times> traversal_arc list \<Rightarrow> traversal_arc \<Rightarrow>
     coverage_error + (js_string list \<times> traversal_arc list)" where
  "effectiveStep problem options = (\<lambda>(seen, result) source.
     bindR (ensureR (arcKey source \<notin> set seen) (Planning NO_FEASIBLE_PLAN)) (\<lambda>_.
     bindR (ensureR (arcGraphVersion source = snapGraphVersion (routingSnapshot problem)) (Planning VERSION_NOT_FOUND)) (\<lambda>_.
     bindR (validateMetrics (arcMetrics source)) (\<lambda>_.
     bindR (effectiveArc options source) (\<lambda>e.
     Inr (seen @ [arcKey source], case e of None \<Rightarrow> result | Some arc \<Rightarrow> result @ [arc]))))))"

definition effectiveArcs ::
  "coverage_problem \<Rightarrow> traversal_arc list \<Rightarrow> solver_options \<Rightarrow> coverage_error + traversal_arc list" where
  "effectiveArcs problem input options =
     bindR (foldR (effectiveStep problem options) ([], []) (byArcKey input)) (\<lambda>(seen, result).
     if result = [] then Inl (Planning NO_FEASIBLE_PLAN) else Inr result)"

section \<open>Steps and tasks\<close>

definition intervalStep :: "traversal_arc \<Rightarrow> int \<Rightarrow> int \<Rightarrow> coverage_error + travel_step" where
  "intervalStep arc start end = stepOf (intervalKey arc start end) arc start end"

definition strictFractions :: "coverage_problem \<Rightarrow> directed_state \<Rightarrow> js_string \<Rightarrow> int list" where
  "strictFractions problem endState =
     fractionsOf (obligationMarks (obligations problem) @ [stateMark (startState problem), stateMark endState])"

definition strictNetwork ::
  "traversal_arc list \<Rightarrow> (js_string \<Rightarrow> int list) \<Rightarrow> coverage_error + travel_step list" where
  "strictNetwork arcs fractions = atomicCuts intervalStep fractions arcs"

record service_task =
  taskId :: js_string
  taskObligation :: obligation
  taskStep :: travel_step

definition tasksOf :: "(js_string \<rightharpoonup> traversal_arc) \<Rightarrow> obligation \<Rightarrow> coverage_error + service_task list" where
  "tasksOf byArc obl =
     bindR (getBang byArc (oblArcKey obl)) (\<lambda>arc.
     bindR (ensureR (oblStart obl < oblEnd obl) (Planning NO_FEASIBLE_PLAN)) (\<lambda>_.
     bindR (intervalStep arc (oblStart obl) (oblEnd obl)) (\<lambda>step.
     Inr (map (\<lambda>pass. \<lparr>taskId = obligationId obl @ js '':'' @ padStart 2 (int pass), taskObligation = obl, taskStep = step\<rparr>)
       [1..<nat (requiredPasses obl) + 1]))))"

definition serviceTasks ::
  "obligation list \<Rightarrow> (js_string \<rightharpoonup> traversal_arc) \<Rightarrow> coverage_error + service_task list" where
  "serviceTasks obls byArc = bindR (mapR (tasksOf byArc) (byObligationId obls)) (\<lambda>tasks. Inr (concat tasks))"

definition withTurnPenalty :: "travel_step \<Rightarrow> int \<Rightarrow> coverage_error + travel_step" where
  "withTurnPenalty step units =
     (if units = 0 then Inr step
      else bindR (safeAdd (turnPenalty (stepMetrics step)) units) (\<lambda>p.
        bindR (safeAdd (combinedCostUnits (stepMetrics step)) units) (\<lambda>c.
        Inr (step\<lparr>stepMetrics := (stepMetrics step)\<lparr>turnPenaltyUnits := Some p, combinedCostUnits := c\<rparr>\<rparr>))))"

section \<open>Turn-aware connectors\<close>

text \<open>What all searches of a run share.\<close>

record search_setting =
  setNetwork :: "travel_step list"
  setRules :: "turn_rule list"
  setWindow :: nat
  setObjective :: routing_objective
  setWeights :: "objective_weights option"

record strict_path =
  strictSteps :: "(travel_step \<times> int) list"
  strictCost :: int
  strictHistory :: "js_string list"

text \<open>
  The search's maps, all with the same string keys; \<open>distance\<close> is scanned in insertion order.
\<close>

record label_search =
  labelDistance :: "(js_string \<times> int) list"
  labelState :: "js_string \<rightharpoonup> js_string \<times> js_string list"
  labelPrevious :: "js_string \<rightharpoonup> js_string \<times> travel_step \<times> int"
  labelSettled :: "js_string list"

fun joinUnit :: "js_string list \<Rightarrow> js_string" where
  "joinUnit [] = []"
| "joinUnit [s] = s"
| "joinUnit (s # t # ss) = s @ [1] @ joinUnit (t # ss)"

definition searchKey :: "js_string \<Rightarrow> js_string list \<Rightarrow> js_string" where
  "searchKey node history = node @ [0] @ joinUnit history"

definition arrived ::
  "search_setting \<Rightarrow> js_string \<Rightarrow> js_string option \<Rightarrow> js_string \<Rightarrow> js_string list \<Rightarrow> coverage_error + bool" where
  "arrived setting to requiredNext node history =
     (if node \<noteq> to then Inr False
      else (case requiredNext of None \<Rightarrow> Inr True
        | Some arc \<Rightarrow> bindR (advanceTurn history arc (setRules setting) (setWindow setting)) (\<lambda>t. Inr (turnValid t))))"

definition closerLabel :: "label_search \<Rightarrow> (js_string \<times> int) option \<Rightarrow> js_string \<times> int \<Rightarrow> (js_string \<times> int) option" where
  "closerLabel st best = (\<lambda>(key, v).
     if key \<notin> set (labelSettled st) \<and>
        (case best of None \<Rightarrow> True | Some (k, d) \<Rightarrow> v < d \<or> (v = d \<and> compareUnicodeCodePoints key k < 0))
     then Some (key, v) else best)"

definition nearestLabel :: "label_search \<Rightarrow> (js_string \<times> int) option" where
  "nearestLabel st = foldl (closerLabel st) None (labelDistance st)"

definition relaxLabel ::
  "search_setting \<Rightarrow> js_string \<Rightarrow> int \<Rightarrow> js_string list \<Rightarrow> label_search \<Rightarrow> travel_step \<Rightarrow> coverage_error + label_search" where
  "relaxLabel setting key d history st step =
     bindR (advanceTurn history (stepArcKey step) (setRules setting) (setWindow setting)) (\<lambda>turn.
     if \<not> turnValid turn then Inr st
     else (let nextKey = searchKey (stepTo step) (turnHistory turn) in
       bindR (objectiveValue (stepMetrics step) (setObjective setting) (setWeights setting) False) (\<lambda>v.
       bindR (safeAdd v (turnUnits turn)) (\<lambda>c.
       bindR (safeAdd d c) (\<lambda>candidate.
       Inr (if (case map_of (labelDistance st) nextKey of None \<Rightarrow> True | Some existing \<Rightarrow> candidate < existing)
         then st\<lparr>labelDistance := AList.update nextKey candidate (labelDistance st),
                 labelState := (labelState st)(nextKey \<mapsto> (stepTo step, turnHistory turn)),
                 labelPrevious := (labelPrevious st)(nextKey \<mapsto> (key, step, turnUnits turn))\<rparr>
         else st))))))"

fun walkLabels ::
  "(js_string \<rightharpoonup> js_string \<times> travel_step \<times> int) \<Rightarrow> js_string \<Rightarrow> nat \<Rightarrow> js_string \<Rightarrow> (travel_step \<times> int) list \<Rightarrow>
     coverage_error + (travel_step \<times> int) list" where
  "walkLabels prev startKey fuel cursor path =
     (if cursor = startKey then Inr path
      else (case prev cursor of None \<Rightarrow> Inl Stuck
        | Some (key, step, units) \<Rightarrow> (case fuel of 0 \<Rightarrow> Inl Stuck
            | Suc n \<Rightarrow> walkLabels prev startKey n key ((step, units) # path))))"

declare walkLabels.simps [simp del]

text \<open>
  \<open>None\<close> is the exception UNREACHABLE, which every caller catches; the clock survives it.
\<close>

fun labelLoop ::
  "search_setting \<Rightarrow> js_string \<Rightarrow> js_string \<Rightarrow> js_string option \<Rightarrow> nat \<Rightarrow> label_search \<Rightarrow>
     coverage_error + (strict_path option \<times> nat)" where
  "labelLoop setting startKey to requiredNext clock st =
     (case clock of 0 \<Rightarrow> Inl (Planning RESOURCE_EXHAUSTED)
      | Suc rest \<Rightarrow>
        (case nearestLabel st of None \<Rightarrow> Inr (None, rest)
         | Some (key, d) \<Rightarrow>
           (case labelState st key of None \<Rightarrow> Inl Stuck
            | Some (node, history) \<Rightarrow>
                bindR (arrived setting to requiredNext node history) (\<lambda>there.
                if there
                then bindR (walkLabels (labelPrevious st) startKey (length (labelDistance st)) key []) (\<lambda>steps.
                  Inr (Some \<lparr>strictSteps = steps, strictCost = d, strictHistory = history\<rparr>, rest))
                else bindR (foldR (relaxLabel setting key d history) (st\<lparr>labelSettled := labelSettled st @ [key]\<rparr>)
                    (stepsFrom (setNetwork setting) node)) (\<lambda>st'.
                  labelLoop setting startKey to requiredNext rest st')))))"

declare labelLoop.simps [simp del]

definition labelStart :: "js_string \<Rightarrow> js_string list \<Rightarrow> label_search" where
  "labelStart from history =
     (let key = searchKey from history in
      \<lparr>labelDistance = [(key, 0)], labelState = [key \<mapsto> (from, history)], labelPrevious = Map.empty, labelSettled = []\<rparr>)"

definition strictShortestPath ::
  "search_setting \<Rightarrow> js_string \<Rightarrow> js_string \<Rightarrow> js_string list \<Rightarrow> js_string option \<Rightarrow> nat \<Rightarrow>
     coverage_error + (strict_path option \<times> nat)" where
  "strictShortestPath setting from to history requiredNext clock =
     bindR (arrived setting to requiredNext from history) (\<lambda>there.
     if there then Inr (Some \<lparr>strictSteps = [], strictCost = 0, strictHistory = history\<rparr>, clock)
     else labelLoop setting (searchKey from history) to requiredNext clock (labelStart from history))"

section \<open>The beam\<close>

record strict_segment =
  segmentStep :: travel_step
  segmentRole :: service_role
  segmentPhase :: route_phase
  segmentIds :: "js_string list"

record beam_state =
  beamNode :: js_string
  beamHistory :: "js_string list"
  beamRemaining :: "nat list"
  beamSegments :: "strict_segment list"
  beamCost :: int
  beamConnectors :: nat

definition classifiedConnector :: "travel_step \<Rightarrow> obligation list \<Rightarrow> strict_segment" where
  "classifiedConnector step obls =
     (let ids = obligationsOver step obls in
      \<lparr>segmentStep = step, segmentRole = connectorRole ids, segmentPhase = INSIDE_PHASE, segmentIds = ids\<rparr>)"

definition connectorSegments ::
  "obligation list \<Rightarrow> (travel_step \<times> int) list \<Rightarrow> coverage_error + strict_segment list" where
  "connectorSegments obls steps =
     mapR (\<lambda>(step, units). bindR (withTurnPenalty step units) (\<lambda>s. Inr (classifiedConnector s obls))) steps"

definition stateKey :: "beam_state \<Rightarrow> js_string" where
  "stateKey st = joinComma (map (\<lambda>i. intText (int i)) (beamRemaining st)) @ js ''|'' @ beamNode st @ js ''|'' @
     joinComma (beamHistory st)"

definition stateSignature :: "beam_state \<Rightarrow> js_string" where
  "stateSignature st = stateKey st @ js ''|'' @
     joinBar (map (\<lambda>s. stepId (segmentStep s) @ js '':'' @ roleText (segmentRole s)) (beamSegments st))"

definition compareSearchStates :: "beam_state \<Rightarrow> beam_state \<Rightarrow> int" where
  "compareSearchStates left right =
     orElse (beamCost left - beamCost right) (compareUnicodeCodePoints (stateSignature left) (stateSignature right))"

definition deduplicateStep :: "beam_state list \<times> js_string list \<Rightarrow> beam_state \<Rightarrow> beam_state list \<times> js_string list" where
  "deduplicateStep = (\<lambda>(result, seen) st.
     if stateKey st \<in> set seen then (result, seen) else (result @ [st], seen @ [stateKey st]))"

definition deduplicateStates :: "beam_state list \<Rightarrow> beam_state list" where
  "deduplicateStates states = fst (foldl deduplicateStep ([], []) states)"

text \<open>\<open>slice(0, n)\<close>; a negative bound counts from the end.\<close>

definition sliceTo :: "int \<Rightarrow> 'a list \<Rightarrow> 'a list" where
  "sliceTo n xs = (if 0 \<le> n then take (nat n) xs else take (nat (int (length xs) + n)) xs)"

text \<open>What the loops of the search count.\<close>

record beam_loop =
  loopNext :: "beam_state list"
  loopCells :: nat
  loopExpanded :: nat
  loopClock :: nat

definition takeCell :: "coverage_problem \<Rightarrow> beam_loop \<Rightarrow> coverage_error + beam_loop" where
  "takeCell problem lp =
     bindR (ensureR (int (loopCells lp + 1) \<le> maximumMatrixCells (budgets problem)) (Planning RESOURCE_EXHAUSTED)) (\<lambda>_.
     Inr (lp\<lparr>loopCells := loopCells lp + 1\<rparr>))"

text \<open>The connector is found; the task follows it unless the turn into it is illegal.\<close>

definition serveTask ::
  "coverage_problem \<Rightarrow> search_setting \<Rightarrow> service_task list \<Rightarrow> beam_state \<Rightarrow> nat \<Rightarrow> strict_path \<Rightarrow> beam_loop \<Rightarrow> coverage_error + beam_loop" where
  "serveTask problem setting tasks st index connector lp =
     (let task = tasks ! index; step = taskStep task in
      bindR (advanceTurn (strictHistory connector) (stepArcKey step) (setRules setting) (setWindow setting)) (\<lambda>turn.
      if \<not> turnValid turn then Inr lp else
      bindR (connectorSegments (obligations problem) (strictSteps connector)) (\<lambda>segments.
      bindR (withTurnPenalty step (turnUnits turn)) (\<lambda>service.
      bindR (objectiveValue (stepMetrics service) (setObjective setting) (setWeights setting) True) (\<lambda>v.
      bindR (safeAdd (strictCost connector) v) (\<lambda>leg.
      bindR (safeAdd (beamCost st) leg) (\<lambda>cost.
      Inr (lp\<lparr>loopExpanded := loopExpanded lp + 1,
        loopNext := loopNext lp @ [\<lparr>beamNode = stepTo step, beamHistory = turnHistory turn,
          beamRemaining = filter (\<lambda>i. i \<noteq> index) (beamRemaining st),
          beamSegments = beamSegments st @ segments @ [\<lparr>segmentStep = service, segmentRole = SERVICE,
            segmentPhase = INSIDE_PHASE, segmentIds = [obligationId (taskObligation task)]\<rparr>],
          beamCost = cost,
          beamConnectors = beamConnectors st + (if 0 < length (strictSteps connector) then 1 else 0)\<rparr>]\<rparr>))))))))"

definition expandTask ::
  "coverage_problem \<Rightarrow> search_setting \<Rightarrow> service_task list \<Rightarrow> beam_state \<Rightarrow> beam_loop \<Rightarrow> nat \<Rightarrow> coverage_error + beam_loop" where
  "expandTask problem setting tasks st lp index =
     (let step = taskStep (tasks ! index) in
      bindR (checkDeadline (loopClock lp)) (\<lambda>c0.
      bindR (takeCell problem (lp\<lparr>loopClock := c0\<rparr>)) (\<lambda>lp1.
      bindR (strictShortestPath setting (beamNode st) (stepFrom step) (beamHistory st) (Some (stepArcKey step)) (loopClock lp1)) (\<lambda>(found, c1).
      case found of None \<Rightarrow> Inr (lp1\<lparr>loopClock := c1\<rparr>)
      | Some connector \<Rightarrow> serveTask problem setting tasks st index connector (lp1\<lparr>loopClock := c1\<rparr>)))))"

definition expandState ::
  "coverage_problem \<Rightarrow> search_setting \<Rightarrow> service_task list \<Rightarrow> beam_loop \<Rightarrow> beam_state \<Rightarrow> coverage_error + beam_loop" where
  "expandState problem setting tasks lp st = foldR (expandTask problem setting tasks st) lp (beamRemaining st)"

text \<open>
  Every round serves one more task, so one round more than there are tasks is enough; \<open>Stuck\<close>
  would be a longer run.
\<close>

fun beamLoop ::
  "coverage_problem \<Rightarrow> search_setting \<Rightarrow> service_task list \<Rightarrow> nat \<Rightarrow> beam_state list \<Rightarrow> beam_loop \<Rightarrow>
     coverage_error + (beam_state list \<times> beam_loop)" where
  "beamLoop problem setting tasks rounds beam lp =
     (if beam \<noteq> [] \<and> beamRemaining (hd beam) = [] then Inr (beam, lp)
      else (case rounds of 0 \<Rightarrow> Inl Stuck
        | Suc n \<Rightarrow>
          bindR (checkDeadline (loopClock lp)) (\<lambda>c0.
          bindR (foldR (expandState problem setting tasks) (lp\<lparr>loopNext := [], loopClock := c0\<rparr>) beam) (\<lambda>lp1.
          if loopNext lp1 = [] then Inl (Planning NO_FEASIBLE_PLAN)
          else beamLoop problem setting tasks n
            (sliceTo (maximumCandidates (budgets problem))
              (deduplicateStates (sort_by compareSearchStates (loopNext lp1)))) lp1))))"

declare beamLoop.simps [simp del]

section \<open>Start and end\<close>

text \<open>The access segment is as long as the rest of the start arc.\<close>

definition strictStart ::
  "coverage_problem \<Rightarrow> search_setting \<Rightarrow> traversal_arc \<Rightarrow> nat list \<Rightarrow> coverage_error + beam_state" where
  "strictStart problem setting startArc indices =
     (let fraction = stateFraction (startState problem) in
      if fraction < WHOLE
      then bindR (intervalStep startArc fraction WHOLE) (\<lambda>access.
        bindR (advanceTurn [] (stepArcKey access) (setRules setting) (setWindow setting)) (\<lambda>turn.
        bindR (ensureR (turnValid turn) (Planning NO_FEASIBLE_PLAN)) (\<lambda>_.
        bindR (withTurnPenalty access (turnUnits turn)) (\<lambda>step.
        bindR (objectiveValue (stepMetrics step) (setObjective setting) (setWeights setting) False) (\<lambda>v.
        bindR (safeAdd 0 v) (\<lambda>cost.
        Inr \<lparr>beamNode = stepTo access, beamHistory = turnHistory turn, beamRemaining = indices,
          beamSegments = [\<lparr>segmentStep = step, segmentRole = ACCESS_ROLE, segmentPhase = ACCESS_PHASE, segmentIds = []\<rparr>],
          beamCost = cost, beamConnectors = 0\<rparr>))))))
      else Inr \<lparr>beamNode = stateNode startArc WHOLE, beamHistory = [arcKey startArc], beamRemaining = indices,
          beamSegments = [], beamCost = 0, beamConnectors = 0\<rparr>)"

definition strictEndState :: "coverage_problem \<Rightarrow> directed_state option" where
  "strictEndState problem =
     (case endpointMode problem of FIXED_END \<Rightarrow> fixedEndState problem
      | LAST_AREA_EXIT \<Rightarrow> (case exitStates problem of Some (s # _) \<Rightarrow> Some s | _ \<Rightarrow> None)
      | RETURN_TO_START \<Rightarrow> Some (startState problem))"

text \<open>The last piece, on the arc of the end state, when it ends inside the arc.\<close>

definition terminalPrefix :: "traversal_arc \<Rightarrow> int \<Rightarrow> coverage_error + travel_step option" where
  "terminalPrefix endArc fraction =
     (if 0 < fraction \<and> fraction < WHOLE
      then bindR (intervalStep endArc 0 fraction) (\<lambda>step. Inr (Some step))
      else Inr None)"

definition terminalNode :: "traversal_arc \<Rightarrow> int \<Rightarrow> js_string" where
  "terminalNode endArc fraction = (if fraction = WHOLE then stateNode endArc WHOLE else stateNode endArc 0)"

definition finishState ::
  "coverage_problem \<Rightarrow> search_setting \<Rightarrow> js_string \<Rightarrow> travel_step option \<Rightarrow> beam_state \<Rightarrow> strict_path \<Rightarrow> beam_loop \<Rightarrow> coverage_error + beam_loop" where
  "finishState problem setting goal prefixStep st connector lp =
     bindR (connectorSegments (obligations problem) (strictSteps connector)) (\<lambda>segments.
     let connectors = beamConnectors st + (if 0 < length (strictSteps connector) then 1 else 0) in
     (case prefixStep of
       None \<Rightarrow>
         bindR (safeAdd (beamCost st) (strictCost connector)) (\<lambda>cost.
         Inr (lp\<lparr>loopNext := loopNext lp @ [\<lparr>beamNode = goal, beamHistory = strictHistory connector, beamRemaining = [],
           beamSegments = beamSegments st @ segments, beamCost = cost, beamConnectors = connectors\<rparr>]\<rparr>))
     | Some piece \<Rightarrow>
         bindR (advanceTurn (strictHistory connector) (stepArcKey piece) (setRules setting) (setWindow setting)) (\<lambda>turn.
         if \<not> turnValid turn then Inr lp else
         bindR (withTurnPenalty piece (turnUnits turn)) (\<lambda>step.
         bindR (objectiveValue (stepMetrics step) (setObjective setting) (setWeights setting) False) (\<lambda>v.
         bindR (safeAdd (strictCost connector) v) (\<lambda>terminalCost.
         bindR (safeAdd (beamCost st) terminalCost) (\<lambda>cost.
         Inr (lp\<lparr>loopNext := loopNext lp @ [\<lparr>beamNode = stepTo piece, beamHistory = turnHistory turn, beamRemaining = [],
           beamSegments = beamSegments st @ segments @ [\<lparr>segmentStep = step, segmentRole = RETURN_ROLE,
             segmentPhase = RETURN_PHASE, segmentIds = []\<rparr>],
           beamCost = cost, beamConnectors = connectors\<rparr>]\<rparr>))))))))"

definition completeState ::
  "coverage_problem \<Rightarrow> search_setting \<Rightarrow> js_string \<Rightarrow> travel_step option \<Rightarrow> beam_loop \<Rightarrow> beam_state \<Rightarrow> coverage_error + beam_loop" where
  "completeState problem setting goal prefixStep lp st =
     bindR (takeCell problem lp) (\<lambda>lp1.
     bindR (strictShortestPath setting (beamNode st) goal (beamHistory st) (map_option stepArcKey prefixStep) (loopClock lp1)) (\<lambda>(found, c1).
     case found of None \<Rightarrow> Inr (lp1\<lparr>loopClock := c1\<rparr>)
     | Some connector \<Rightarrow> finishState problem setting goal prefixStep st connector (lp1\<lparr>loopClock := c1\<rparr>)))"

section \<open>The solver\<close>

record strict_diagnostics =
  strictBothDirections :: bool
  strictComponentCount :: nat
  strictConnectorCount :: nat
  strictCandidates :: nat
  strictArcCount :: nat
  strictAtomicCount :: nat
  strictTaskCount :: nat
  strictCellCount :: nat
  strictBeamWidth :: int
  strictObjective :: routing_objective

record strict_solution =
  strictRoute :: coverage_route
  strictDiagnostics :: strict_diagnostics

definition componentCountStep :: "links \<Rightarrow> js_string list \<times> nat \<Rightarrow> js_string \<Rightarrow> js_string list \<times> nat" where
  "componentCountStep links = (\<lambda>(visited, count) node.
     if node \<in> set visited then (visited, count) else (visitLinks links visited [node], count + 1))"

definition weakRequiredComponents :: "service_task list \<Rightarrow> nat" where
  "weakRequiredComponents tasks =
     (let links = stepLinks (map taskStep tasks) in snd (foldl (componentCountStep links) ([], 0) (linkNodes links)))"

definition strictRouteSegments :: "strict_segment list \<Rightarrow> route_segment list" where
  "strictRouteSegments segments =
     map (\<lambda>(n, s). stepSegment n (segmentStep s) (segmentPhase s) (segmentRole s) (segmentIds s)) (enumerate 1 segments)"

record strict_plan =
  spArcs :: "traversal_arc list"
  spSetting :: search_setting
  spTasks :: "service_task list"
  spBest :: beam_state
  spLoop :: beam_loop
  spBody :: route_body

text \<open>Everything before the search.\<close>

definition strictSetup ::
  "coverage_problem \<Rightarrow> traversal_arc list \<Rightarrow> solver_options \<Rightarrow>
     coverage_error + (traversal_arc list \<times> directed_state \<times> search_setting \<times> service_task list)" where
  "strictSetup problem input options =
     bindR (validateOptions options) (\<lambda>_.
     bindR (ensureR (optRouteCount options = None \<or> optRouteCount options = Some 1) (Planning CAPABILITY_NOT_AVAILABLE)) (\<lambda>_.
     bindR (ensureR (optServiceMode options \<noteq> Some EITHER_DIRECTION) (Planning CAPABILITY_NOT_AVAILABLE)) (\<lambda>_.
     bindR (effectiveArcs problem input options) (\<lambda>arcs.
     let byArc = arcsByKey arcs in
     bindR (ensureR (\<forall>obl \<in> set (obligations problem). byArc (oblArcKey obl) \<noteq> None) (Planning NO_FEASIBLE_PLAN)) (\<lambda>_.
     case strictEndState problem of None \<Rightarrow> Inl (Planning NO_FEASIBLE_PLAN)
     | Some endState \<Rightarrow>
     bindR (ensureR (validState byArc (startState problem)) (Planning NO_FEASIBLE_PLAN)) (\<lambda>_.
     bindR (ensureR (validState byArc endState) (Planning NO_FEASIBLE_PLAN)) (\<lambda>_.
     bindR (strictNetwork arcs (strictFractions problem endState)) (\<lambda>network.
     bindR (serviceTasks (obligations problem) byArc) (\<lambda>tasks.
     let rules = activeRules (optionRules options) (profileKey (optPolicy options)) in
     Inr (arcs, endState, \<lparr>setNetwork = network, setRules = rules, setWindow = maximumHistory rules,
       setObjective = optObjective options, setWeights = optWeights options\<rparr>, tasks))))))))))"

definition strictPlan ::
  "coverage_problem \<Rightarrow> traversal_arc list \<Rightarrow> solver_options \<Rightarrow> nat \<Rightarrow> coverage_error + strict_plan" where
  "strictPlan problem input options clock =
     bindR (strictSetup problem input options) (\<lambda>(arcs, endState, setting, tasks).
     bindR (getBang (arcsByKey arcs) (stateArcKey (startState problem))) (\<lambda>startArc.
     bindR (strictStart problem setting startArc [0..<length tasks]) (\<lambda>initial.
     bindR (beamLoop problem setting tasks (length tasks + 1) [initial]
       \<lparr>loopNext = [], loopCells = 0, loopExpanded = 0, loopClock = clock\<rparr>) (\<lambda>(beam, lp).
     bindR (getBang (arcsByKey arcs) (stateArcKey endState)) (\<lambda>endArc.
     bindR (terminalPrefix endArc (stateFraction endState)) (\<lambda>prefixStep.
     bindR (foldR (completeState problem setting (terminalNode endArc (stateFraction endState)) prefixStep)
       (lp\<lparr>loopNext := []\<rparr>) beam) (\<lambda>lp1.
     if loopNext lp1 = [] then Inl (Planning NO_FEASIBLE_PLAN)
     else (let best = hd (sort_by compareSearchStates (loopNext lp1)); segments = strictRouteSegments (beamSegments best) in
     bindR (totalMetrics segments) (\<lambda>metrics.
     Inr \<lparr>spArcs = arcs, spSetting = setting, spTasks = tasks, spBest = best, spLoop = lp1,
       spBody = \<lparr>bodyStartState = startState problem, bodyEndState = endState, bodySegments = segments,
         bodyBoundaryEvents = Some [], bodyMetrics = metrics\<rparr>\<rparr>)))))))))"

definition strictSolution ::
  "(js_string \<Rightarrow> js_string) \<Rightarrow> coverage_problem \<Rightarrow> solver_options \<Rightarrow> strict_plan \<Rightarrow> coverage_error + strict_solution" where
  "strictSolution sha problem options plan =
     bindR (signRoute sha (spBody plan)) (\<lambda>route.
     Inr \<lparr>strictRoute = route,
       strictDiagnostics = \<lparr>strictBothDirections = bothDirections (obligations problem),
         strictComponentCount = weakRequiredComponents (spTasks plan),
         strictConnectorCount = beamConnectors (spBest plan), strictCandidates = loopExpanded (spLoop plan),
         strictArcCount = length (spArcs plan), strictAtomicCount = length (setNetwork (spSetting plan)),
         strictTaskCount = length (spTasks plan), strictCellCount = loopCells (spLoop plan),
         strictBeamWidth = maximumCandidates (budgets problem), strictObjective = optObjective options\<rparr>\<rparr>)"

definition solveStrictCoverageRoute ::
  "(js_string \<Rightarrow> js_string) \<Rightarrow> coverage_problem \<Rightarrow> traversal_arc list \<Rightarrow> solver_options \<Rightarrow> nat \<Rightarrow>
     coverage_error + strict_solution" where
  "solveStrictCoverageRoute sha problem input options clock =
     bindR (strictPlan problem input options clock) (strictSolution sha problem options)"

end
