(* ===== verification/StrictVerified.thy ===== *)
theory StrictVerified
  imports
  RppVerified
  StrictRouting
begin

text \<open>
  The strict solver against the verifier.  A route of \<open>solveStrictCoverageRoute\<close> is a run of the
  turn automaton over slices of effective arcs, each service task appears in it once, and
  \<open>verifyCoverageRoute\<close> reports it VALID.
\<close>

section \<open>Solver and verifier price arcs alike\<close>

lemma minimumDefined_speed:
  "minimumDefined [speedOverrideMmPerS a, maximumSpeedMmPerS p, speedMmPerS a] = effectiveSpeed a p"
  by (simp add: minimumDefined_def effectiveSpeed_def)

lemma effectiveArc_evaluated:
  assumes run: "effectiveArc options a = Inr e" and valid: "\<forall>v \<in> set (metricValues (arcMetrics a)). nonNegativeSafe v"
  shows "evaluateArc a (optPolicy options) = Inr e"
proof (cases "traversalAllowed a = Some False \<or> \<not> profileEligible a (optPolicy options)")
  case True
  then show ?thesis using run by (auto simp: effectiveArc_def evaluateArc_def)
next
  case False
  let ?m = "arcMetrics a" and ?speed = "effectiveSpeed a (optPolicy options)"
  let ?risk = "case riskOverrideMicroUnits a of None \<Rightarrow> riskMicroUnits ?m | Some r \<Rightarrow> r"
  let ?extra = "case conditionPenaltyUnits a of None \<Rightarrow> 0 | Some p \<Rightarrow> p"
  obtain duration cost where r: "case ?speed of None \<Rightarrow> True | Some s \<Rightarrow> isSafeInteger s \<and> 0 < s"
    "(case ?speed of None \<Rightarrow> Inr (durationMs ?m) | Some s \<Rightarrow> ceilRatio (distanceMm ?m) 1000 s) = Inr duration"
    "safeAdd (combinedCostUnits ?m) ?extra = Inr cost"
    "e = Some (a\<lparr>arcMetrics := ?m\<lparr>durationMs := duration, riskMicroUnits := ?risk, combinedCostUnits := cost,
       turnPenaltyUnits := Some 0\<rparr>\<rparr>)"
    using run False unfolding effectiveArc_def Let_def minimumDefined_speed by (auto simp: bindR_eq_Inr)
  have "verifierAdd (combinedCostUnits ?m) ?extra = Inr cost"
    using r(3) by (auto simp: safeAdd_def verifierAdd_def split: if_splits)
  moreover have "(case ?speed of None \<Rightarrow> durationMs ?m | Some s \<Rightarrow> toNumber (ceilQuotient (distanceMm ?m) 1000 s)) = duration"
    using r(2) by (cases ?speed) (auto simp: ceilRatio_def Let_def toNumber_safe split: if_splits)
  moreover have "\<not> (case ?speed of None \<Rightarrow> False | Some s \<Rightarrow> \<not> isSafeInteger s \<or> s \<le> 0)"
    using r(1) by (cases ?speed) auto
  ultimately show ?thesis using False valid r(4) by (simp add: evaluateArc_def Let_def verifierAdd_def)
qed

lemma effectiveArc_keeps:
  assumes "effectiveArc options a = Inr (Some e)"
  shows "arcKey e = arcKey a \<and> arcGraphVersion e = arcGraphVersion a \<and> fromNodeKey e = fromNodeKey a \<and>
    toNodeKey e = toNodeKey a \<and> distanceMm (arcMetrics e) = distanceMm (arcMetrics a) \<and> turnPenalty (arcMetrics e) = 0 \<and>
    arcDirection e = arcDirection a"
  using assms by (auto simp: effectiveArc_def Let_def bindR_eq_Inr turnPenalty_def split: if_splits)

text \<open>What a successful run of the loop leaves behind.\<close>

definition effectiveFrom :: "coverage_problem \<Rightarrow> solver_options \<Rightarrow> traversal_arc list \<Rightarrow> traversal_arc list \<Rightarrow> bool" where
  "effectiveFrom problem options input arcs \<longleftrightarrow> distinct (map arcKey input) \<and>
     (\<forall>a \<in> set input. arcGraphVersion a = snapGraphVersion (routingSnapshot problem) \<and>
        (\<forall>v \<in> set (metricValues (arcMetrics a)). nonNegativeSafe v) \<and> isOk (effectiveArc options a)) \<and>
     (\<forall>e \<in> set arcs. \<exists>a \<in> set input. effectiveArc options a = Inr (Some e))"

lemma effectiveStep_fold:
  assumes "foldR (effectiveStep problem options) (seen, result) input = Inr (seen', arcs)"
    and "distinct seen" and "\<forall>e \<in> set result. \<exists>a \<in> A. effectiveArc options a = Inr (Some e)"
  shows "distinct (map arcKey input) \<and> set seen \<inter> arcKey ` set input = {} \<and>
     (\<forall>a \<in> set input. arcGraphVersion a = snapGraphVersion (routingSnapshot problem) \<and>
        (\<forall>v \<in> set (metricValues (arcMetrics a)). nonNegativeSafe v) \<and> isOk (effectiveArc options a)) \<and>
     (\<forall>e \<in> set arcs. \<exists>a \<in> A \<union> set input. effectiveArc options a = Inr (Some e))"
  using assms
proof (induction input arbitrary: seen result A)
  case (Cons a input)
  obtain e where e: "arcKey a \<notin> set seen" "arcGraphVersion a = snapGraphVersion (routingSnapshot problem)"
    "\<forall>v \<in> set (metricValues (arcMetrics a)). nonNegativeSafe v" "effectiveArc options a = Inr e"
    "foldR (effectiveStep problem options) (seen @ [arcKey a], case e of None \<Rightarrow> result | Some x \<Rightarrow> result @ [x]) input = Inr (seen', arcs)"
    using Cons.prems(1) by (auto simp: effectiveStep_def bindR_eq_Inr validateMetrics_Inr)
  have "\<forall>x \<in> set (case e of None \<Rightarrow> result | Some x \<Rightarrow> result @ [x]). \<exists>b \<in> insert a A. effectiveArc options b = Inr (Some x)"
    using Cons.prems(3) e(4) by (auto split: option.splits)
  from Cons.IH [OF e(5) _ this] Cons.prems(2) e(1)
  have ih: "distinct (map arcKey input) \<and> set (seen @ [arcKey a]) \<inter> arcKey ` set input = {} \<and>
     (\<forall>a \<in> set input. arcGraphVersion a = snapGraphVersion (routingSnapshot problem) \<and>
        (\<forall>v \<in> set (metricValues (arcMetrics a)). nonNegativeSafe v) \<and> isOk (effectiveArc options a)) \<and>
     (\<forall>x \<in> set arcs. \<exists>b \<in> insert a A \<union> set input. effectiveArc options b = Inr (Some x))" by simp
  then show ?case using e(1-4) by (auto simp: isOk_iff)
qed auto

lemma effectiveArcs_from:
  assumes "effectiveArcs problem input options = Inr arcs"
  shows "effectiveFrom problem options input arcs"
proof -
  obtain seen where "foldR (effectiveStep problem options) ([], []) (byArcKey input) = Inr (seen, arcs)"
    using assms by (auto simp: effectiveArcs_def bindR_eq_Inr split: if_splits prod.splits)
  from effectiveStep_fold [OF this, of "{}"] show ?thesis by (simp add: effectiveFrom_def)
qed

lemma effectiveFrom_source:
  assumes "effectiveFrom problem options input arcs" and "e \<in> set arcs"
  shows "\<exists>a. a \<in> set input \<and> networkMap input (arcKey e) = Some a \<and> effectiveArc options a = Inr (Some e) \<and>
    offered (optPolicy options) input (arcKey e) = Some e \<and> arcGraphVersion e = snapGraphVersion (routingSnapshot problem)"
proof -
  obtain a where a: "a \<in> set input" "effectiveArc options a = Inr (Some e)" using assms by (auto simp: effectiveFrom_def)
  have net: "networkMap input (arcKey e) = Some a"
    using networkMap_lookup [of input] assms(1) a effectiveArc_keeps [OF a(2)] by (auto simp: effectiveFrom_def)
  have "evaluateArc a (optPolicy options) = Inr (Some e)"
    using effectiveArc_evaluated [OF a(2)] assms(1) a(1) by (simp add: effectiveFrom_def)
  then show ?thesis using a net effectiveArc_keeps [OF a(2)] assms(1) by (auto simp: offered_def effectiveFrom_def)
qed

lemma effectiveFrom_priced:
  assumes "effectiveFrom problem options input arcs" and "a \<in> set input"
  shows "isOk (evaluateArc a (optPolicy options))"
  using assms effectiveArc_evaluated by (fastforce simp: effectiveFrom_def isOk_iff)

section \<open>Keys of the search\<close>

text \<open>
  Node keys and arc keys without the separators of \<open>searchKey\<close>; an empty arc key would be lost in
  a history.
\<close>

definition cleanText :: "js_string \<Rightarrow> bool" where
  "cleanText s \<longleftrightarrow> 0 \<notin> set s \<and> 1 \<notin> set s"

definition cleanHistory :: "js_string list \<Rightarrow> bool" where
  "cleanHistory h \<longleftrightarrow> (\<forall>a \<in> set h. cleanText a \<and> a \<noteq> [])"

definition cleanTravel :: "travel_step \<Rightarrow> bool" where
  "cleanTravel s \<longleftrightarrow> cleanText (stepTo s) \<and> cleanText (stepArcKey s) \<and> stepArcKey s \<noteq> []"

lemma joinUnit_inject: "cleanHistory g \<Longrightarrow> cleanHistory h \<Longrightarrow> joinUnit g = joinUnit h \<Longrightarrow> g = h"
proof (induction g arbitrary: h rule: joinUnit.induct)
  case 1
  then show ?case by (cases h rule: joinUnit.cases) (auto simp: cleanHistory_def)
next
  case (2 s)
  then show ?case
    by (cases h rule: joinUnit.cases) (auto simp: cleanHistory_def cleanText_def)
next
  case (3 s t ss)
  show ?case
  proof (cases h rule: joinUnit.cases)
    case 1
    then show ?thesis using 3 by (auto simp: cleanHistory_def)
  next
    case (2 u)
    then have "1 \<in> set u" using 3 by auto
    then show ?thesis using 3 2 by (auto simp: cleanHistory_def cleanText_def)
  next
    case (3 u v vs)
    have clean: "1 \<notin> set s" "1 \<notin> set u" using "3.prems"(1,2) 3 by (auto simp: cleanHistory_def cleanText_def)
    have "s @ 1 # joinUnit (t # ss) = u @ 1 # joinUnit (v # vs)" using "3.prems"(3) 3 by simp
    then have "s = u" "joinUnit (t # ss) = joinUnit (v # vs)" using separated [OF clean] by auto
    then show ?thesis using "3.IH" [of "v # vs"] "3.prems"(1,2) 3 by (simp add: cleanHistory_def)
  qed
qed

lemma searchKey_inject:
  assumes "cleanText n" "cleanText m" "cleanHistory g" "cleanHistory h" "searchKey n g = searchKey m h"
  shows "n = m \<and> g = h"
proof -
  have "n @ 0 # joinUnit g = m @ 0 # joinUnit h" using assms(5) by (simp add: searchKey_def)
  then have "n = m" "joinUnit g = joinUnit h" using separated [of 0 n m] assms(1,2) by (auto simp: cleanText_def)
  then show ?thesis using joinUnit_inject assms(3,4) by simp
qed

lemma set_sliceLast: "set (sliceLast m xs) \<subseteq> set xs"
  by (auto simp: sliceLast_def dest: in_set_dropD)

lemma advanceTurn_clean:
  assumes "advanceTurn h a rules w = Inr t" and "cleanHistory h" and "cleanText a" "a \<noteq> []"
  shows "cleanHistory (turnHistory t)"
  using assms set_sliceLast [of w "h @ [a]"]
  by (fastforce simp: advanceTurn_def cleanHistory_def bindR_eq_Inr split: if_splits option.splits)

section \<open>Runs of the turn automaton\<close>

fun turnRun ::
  "search_setting \<Rightarrow> js_string \<Rightarrow> js_string list \<Rightarrow> (travel_step \<times> int) list \<Rightarrow> js_string \<Rightarrow> js_string list \<Rightarrow> bool" where
  "turnRun S n h [] m g \<longleftrightarrow> n = m \<and> h = g"
| "turnRun S n h ((s, u) # rest) m g \<longleftrightarrow> s \<in> set (setNetwork S) \<and> stepFrom s = n \<and>
     (\<exists>t. advanceTurn h (stepArcKey s) (setRules S) (setWindow S) = Inr t \<and> turnValid t \<and> turnUnits t = u \<and>
       turnRun S (stepTo s) (turnHistory t) rest m g)"

lemma turnRun_clean:
  "turnRun S n h steps m g \<Longrightarrow> \<forall>s \<in> set (setNetwork S). cleanTravel s \<Longrightarrow> cleanText n \<Longrightarrow> cleanHistory h \<Longrightarrow>
     cleanText m \<and> cleanHistory g"
proof (induction S n h steps m g rule: turnRun.induct)
  case (2 S n h s u rest m g)
  then obtain t where t: "s \<in> set (setNetwork S)" "advanceTurn h (stepArcKey s) (setRules S) (setWindow S) = Inr t"
    "turnRun S (stepTo s) (turnHistory t) rest m g" by auto
  then show ?case using "2.IH" [OF t(3) "2.prems"(2)] advanceTurn_clean [OF t(2) "2.prems"(4)] "2.prems"(2)
    by (simp add: cleanTravel_def)
qed simp

text \<open>The maps of a search describe states that runs reach.\<close>

definition labelsOk :: "search_setting \<Rightarrow> label_search \<Rightarrow> bool" where
  "labelsOk S st \<longleftrightarrow>
     (\<forall>k n h. labelState st k = Some (n, h) \<longrightarrow> k = searchKey n h \<and> cleanText n \<and> cleanHistory h) \<and>
     (\<forall>k k' s u. labelPrevious st k = Some (k', s, u) \<longrightarrow> (\<exists>n h t. labelState st k' = Some (n, h) \<and>
        s \<in> set (setNetwork S) \<and> stepFrom s = n \<and> advanceTurn h (stepArcKey s) (setRules S) (setWindow S) = Inr t \<and>
        turnValid t \<and> turnUnits t = u \<and> labelState st k = Some (stepTo s, turnHistory t)))"

lemma relaxLabel_ok:
  assumes run: "relaxLabel S key d h st s = Inr st'" and ok: "labelsOk S st" and clean: "\<forall>s \<in> set (setNetwork S). cleanTravel s"
    and key: "labelState st key = Some (n, h)" and s: "s \<in> set (setNetwork S)" "stepFrom s = n"
  shows "labelsOk S st' \<and> labelState st \<subseteq>\<^sub>m labelState st' \<and> labelSettled st' = labelSettled st"
proof -
  obtain t where t: "advanceTurn h (stepArcKey s) (setRules S) (setWindow S) = Inr t"
    using run by (auto simp: relaxLabel_def bindR_eq_Inr)
  show ?thesis
  proof (cases "st' = st")
    case False
    let ?k = "searchKey (stepTo s) (turnHistory t)"
    obtain candidate where st': "turnValid t" "st' = st\<lparr>labelDistance := AList.update ?k candidate (labelDistance st),
        labelState := (labelState st)(?k \<mapsto> (stepTo s, turnHistory t)),
        labelPrevious := (labelPrevious st)(?k \<mapsto> (key, s, turnUnits t))\<rparr>"
      using run False by (auto simp: relaxLabel_def bindR_eq_Inr t Let_def split: if_splits)
    have new: "cleanText (stepTo s)" "cleanHistory (turnHistory t)"
      using clean s(1) advanceTurn_clean [OF t] ok key by (auto simp: labelsOk_def cleanTravel_def)
    have same: "v = (stepTo s, turnHistory t)" if "labelState st ?k = Some v" for v
      using that ok searchKey_inject [OF new(1) _ new(2)] by (cases v) (fastforce simp: labelsOk_def)
    have mono: "labelState st \<subseteq>\<^sub>m labelState st'" using same st'(2) by (auto simp: map_le_def)
    then have grow: "labelState st' k = Some v" if "labelState st k = Some v" for k v
      using that by (auto simp: map_le_def dom_def)
    have "labelsOk S st'"
      unfolding labelsOk_def
    proof (intro conjI allI impI, goal_cases)
      case (1 k m g)
      then show ?case using ok st'(2) by (auto simp: labelsOk_def split: if_splits)
    next
      case (2 k m g)
      then show ?case using ok new st'(2) by (auto simp: labelsOk_def split: if_splits)
    next
      case (3 k m g)
      then show ?case using ok new st'(2) by (auto simp: labelsOk_def split: if_splits)
    next
      case (4 k k' r u)
      show ?case
      proof (cases "k = ?k")
        case True
        then show ?thesis using 4 st' s t grow [OF key] by auto
      next
        case False
        then have "labelPrevious st k = Some (k', r, u)" using 4 st'(2) by simp
        then obtain m g x where "labelState st k' = Some (m, g)" "r \<in> set (setNetwork S)" "stepFrom r = m"
          "advanceTurn g (stepArcKey r) (setRules S) (setWindow S) = Inr x" "turnValid x" "turnUnits x = u"
          "labelState st k = Some (stepTo r, turnHistory x)"
          using ok unfolding labelsOk_def by blast
        then show ?thesis using grow by blast
      qed
    qed
    then show ?thesis using mono st'(2) by simp
  qed (use ok in simp)
qed

lemma relaxLabels_ok:
  assumes run: "foldR (relaxLabel S key d h) st steps = Inr st'" and ok: "labelsOk S st" and clean: "\<forall>s \<in> set (setNetwork S). cleanTravel s"
    and key: "labelState st key = Some (n, h)" and steps: "\<forall>s \<in> set steps. s \<in> set (setNetwork S) \<and> stepFrom s = n"
  shows "labelsOk S st' \<and> labelState st \<subseteq>\<^sub>m labelState st' \<and> labelSettled st' = labelSettled st"
  using run ok key steps
proof (induction steps arbitrary: st)
  case (Cons s steps)
  obtain st1 where r: "relaxLabel S key d h st s = Inr st1" "foldR (relaxLabel S key d h) st1 steps = Inr st'"
    using Cons.prems(1) by (auto simp: bindR_eq_Inr)
  have one: "labelsOk S st1 \<and> labelState st \<subseteq>\<^sub>m labelState st1 \<and> labelSettled st1 = labelSettled st"
    by (rule relaxLabel_ok [OF r(1) Cons.prems(2) clean Cons.prems(3)]) (use Cons.prems(4) in auto)
  have "labelState st1 key = Some (n, h)" using one Cons.prems(3) by (auto simp: map_le_def dom_def)
  then have "labelsOk S st' \<and> labelState st1 \<subseteq>\<^sub>m labelState st' \<and> labelSettled st' = labelSettled st1"
    using Cons.IH [OF r(2)] one Cons.prems(4) by simp
  then show ?case using one map_le_trans by metis
qed simp

lemma walkLabels_run:
  assumes "walkLabels (labelPrevious st) startKey fuel cursor path = Inr steps" and ok: "labelsOk S st"
    and "labelState st cursor = Some (n, h)" and "turnRun S n h path m g"
    and start: "labelState st startKey = Some (n0, h0)"
  shows "turnRun S n0 h0 steps m g"
  using assms(1,3,4)
proof (induction fuel arbitrary: cursor path n h)
  case 0
  then show ?case using start by (auto simp: walkLabels.simps [of _ _ 0] split: if_splits option.splits)
next
  case (Suc fuel)
  show ?case
  proof (cases "cursor = startKey")
    case True
    then show ?thesis using Suc.prems start by (simp add: walkLabels.simps)
  next
    case False
    then obtain k s u where k: "labelPrevious st cursor = Some (k, s, u)" "walkLabels (labelPrevious st) startKey fuel k ((s, u) # path) = Inr steps"
      using Suc.prems(1) by (auto simp: walkLabels.simps [of _ _ "Suc fuel"] split: if_splits option.splits)
    obtain n' h' t where t: "labelState st k = Some (n', h')" "s \<in> set (setNetwork S)" "stepFrom s = n'"
      "advanceTurn h' (stepArcKey s) (setRules S) (setWindow S) = Inr t" "turnValid t" "turnUnits t = u"
      "labelState st cursor = Some (stepTo s, turnHistory t)"
      using ok k(1) unfolding labelsOk_def by blast
    show ?thesis by (rule Suc.IH [OF k(2) t(1)]) (use t Suc.prems in auto)
  qed
qed

lemma arrived_place: "arrived S to req node h = Inr True \<Longrightarrow> node = to"
  by (auto simp: arrived_def split: if_splits)

lemma labelLoop_run:
  assumes "labelLoop S startKey to req clock st = Inr (Some p, clock')" and "labelsOk S st"
    and clean: "\<forall>s \<in> set (setNetwork S). cleanTravel s" and "labelState st startKey = Some (n0, h0)"
  shows "turnRun S n0 h0 (strictSteps p) to (strictHistory p)"
  using assms(1,2,4)
proof (induction clock arbitrary: st)
  case 0
  then show ?case by (simp add: labelLoop.simps)
next
  case (Suc rest)
  obtain key d where near: "nearestLabel st = Some (key, d)" using Suc.prems(1) by (auto simp: labelLoop.simps [of _ _ _ _ "Suc rest"] split: option.splits)
  obtain n h where nh: "labelState st key = Some (n, h)" using Suc.prems(1) near by (auto simp: labelLoop.simps [of _ _ _ _ "Suc rest"] split: option.splits)
  obtain there where there: "arrived S to req n h = Inr there"
    "(if there
      then bindR (walkLabels (labelPrevious st) startKey (length (labelDistance st)) key []) (\<lambda>steps.
        Inr (Some \<lparr>strictSteps = steps, strictCost = d, strictHistory = h\<rparr>, rest))
      else bindR (foldR (relaxLabel S key d h) (st\<lparr>labelSettled := labelSettled st @ [key]\<rparr>)
          (stepsFrom (setNetwork S) n)) (\<lambda>st'. labelLoop S startKey to req rest st')) = Inr (Some p, clock')"
    using Suc.prems(1) near nh by (auto simp: labelLoop.simps [of _ _ _ _ "Suc rest"] bindR_eq_Inr)
  show ?case
  proof (cases there)
    case True
    then obtain steps where w: "walkLabels (labelPrevious st) startKey (length (labelDistance st)) key [] = Inr steps"
      "p = \<lparr>strictSteps = steps, strictCost = d, strictHistory = h\<rparr>" using there(2) by (auto simp: bindR_eq_Inr)
    have "turnRun S n0 h0 steps n h" by (rule walkLabels_run [OF w(1) Suc.prems(2) nh _ Suc.prems(3)]) simp
    then show ?thesis using w(2) arrived_place [of S to req n h] there(1) True by simp
  next
    case False
    let ?st = "st\<lparr>labelSettled := labelSettled st @ [key]\<rparr>"
    obtain st' where r: "foldR (relaxLabel S key d h) ?st (stepsFrom (setNetwork S) n) = Inr st'" "labelLoop S startKey to req rest st' = Inr (Some p, clock')"
      using there(2) False by (auto simp: bindR_eq_Inr)
    have "labelsOk S ?st" using Suc.prems(2) by (simp add: labelsOk_def)
    from relaxLabels_ok [OF r(1) this clean, of n] nh
    have "labelsOk S st' \<and> labelState st \<subseteq>\<^sub>m labelState st'" by (simp add: stepsFrom_def byStepId_def)
    moreover from this Suc.prems(3) have "labelState st' startKey = Some (n0, h0)" by (auto simp: map_le_def dom_def)
    ultimately show ?thesis using Suc.IH [OF r(2)] by simp
  qed
qed

lemma strictShortestPath_run:
  assumes run: "strictShortestPath S from to h req clock = Inr (Some p, clock')"
    and clean: "\<forall>s \<in> set (setNetwork S). cleanTravel s" "cleanText from" "cleanHistory h"
  shows "turnRun S from h (strictSteps p) to (strictHistory p)"
proof -
  obtain there where there: "arrived S to req from h = Inr there" using run by (auto simp: strictShortestPath_def bindR_eq_Inr)
  show ?thesis
  proof (cases there)
    case True
    then show ?thesis using run there arrived_place by (auto simp: strictShortestPath_def)
  next
    case False
    then have loop: "labelLoop S (searchKey from h) to req clock (labelStart from h) = Inr (Some p, clock')"
      using run there by (simp add: strictShortestPath_def)
    show ?thesis
      by (rule labelLoop_run [OF loop _ clean(1)]) (use clean in \<open>auto simp: labelStart_def Let_def labelsOk_def split: if_splits\<close>)
  qed
qed

section \<open>Routes of the beam\<close>

fun strictRun ::
  "search_setting \<Rightarrow> traversal_arc list \<Rightarrow> js_string \<Rightarrow> js_string list \<Rightarrow> strict_segment list \<Rightarrow> js_string \<Rightarrow> js_string list \<Rightarrow> bool" where
  "strictRun S arcs n h [] m g \<longleftrightarrow> n = m \<and> h = g"
| "strictRun S arcs n h (s # rest) m g \<longleftrightarrow>
     (\<exists>base t. properStep arcs base \<and> stepFrom base = n \<and>
        advanceTurn h (stepArcKey base) (setRules S) (setWindow S) = Inr t \<and> turnValid t \<and>
        withTurnPenalty base (turnUnits t) = Inr (segmentStep s) \<and> strictRun S arcs (stepTo base) (turnHistory t) rest m g)"

lemma strictRun_append:
  "strictRun S arcs n h xs m g \<Longrightarrow> strictRun S arcs m g ys k f \<Longrightarrow> strictRun S arcs n h (xs @ ys) k f"
  by (induction S arcs n h xs m g rule: strictRun.induct) auto

definition networkOk :: "traversal_arc list \<Rightarrow> search_setting \<Rightarrow> bool" where
  "networkOk arcs S \<longleftrightarrow> (\<forall>s \<in> set (setNetwork S). properStep arcs s \<and> cleanTravel s)"

lemma connectorSegments_run:
  assumes "turnRun S n h steps m g" and "networkOk arcs S" and "connectorSegments obls steps = Inr segs"
  shows "strictRun S arcs n h segs m g \<and> filter (\<lambda>s. segmentRole s = SERVICE) segs = []"
  using assms
proof (induction S n h steps m g arbitrary: segs rule: turnRun.induct)
  case (1 S n h m g)
  then show ?case by (simp add: connectorSegments_def)
next
  case (2 S n h s u rest m g)
  obtain t where t: "s \<in> set (setNetwork S)" "stepFrom s = n" "advanceTurn h (stepArcKey s) (setRules S) (setWindow S) = Inr t"
    "turnValid t" "turnUnits t = u" "turnRun S (stepTo s) (turnHistory t) rest m g" using "2.prems"(1) by auto
  obtain x segs' where x: "withTurnPenalty s u = Inr x" "connectorSegments obls rest = Inr segs'" "segs = classifiedConnector x obls # segs'"
    using "2.prems"(3) by (auto simp: connectorSegments_def bindR_eq_Inr)
  show ?case using "2.IH" [OF t(6) "2.prems"(2) x(2)] t x "2.prems"(2)
    by (auto simp: networkOk_def classifiedConnector_def Let_def connectorRole_def)
qed

definition taskOk :: "traversal_arc list \<Rightarrow> service_task \<Rightarrow> bool" where
  "taskOk arcs task \<longleftrightarrow> properStep arcs (taskStep task) \<and> cleanTravel (taskStep task) \<and>
     stepArcKey (taskStep task) = oblArcKey (taskObligation task) \<and> stepStart (taskStep task) = oblStart (taskObligation task) \<and>
     stepEnd (taskStep task) = oblEnd (taskObligation task)"

definition servesTask :: "strict_segment \<Rightarrow> service_task \<Rightarrow> bool" where
  "servesTask s task \<longleftrightarrow> segmentRole s = SERVICE \<and> segmentIds s = [obligationId (taskObligation task)] \<and>
     stepArcKey (segmentStep s) = oblArcKey (taskObligation task) \<and> stepStart (segmentStep s) = oblStart (taskObligation task) \<and>
     stepEnd (segmentStep s) = oblEnd (taskObligation task)"

definition beamOk ::
  "search_setting \<Rightarrow> traversal_arc list \<Rightarrow> service_task list \<Rightarrow> js_string \<Rightarrow> js_string list \<Rightarrow> beam_state \<Rightarrow> bool" where
  "beamOk S arcs tasks n0 h0 st \<longleftrightarrow> strictRun S arcs n0 h0 (beamSegments st) (beamNode st) (beamHistory st) \<and>
     cleanText (beamNode st) \<and> cleanHistory (beamHistory st) \<and>
     (\<exists>served. mset served + mset (beamRemaining st) = mset [0..<length tasks] \<and>
        list_all2 (\<lambda>s i. servesTask s (tasks ! i)) (filter (\<lambda>s. segmentRole s = SERVICE) (beamSegments st)) served)"

lemma withTurnPenalty_keeps:
  assumes "withTurnPenalty s u = Inr x"
  shows "stepArcKey x = stepArcKey s \<and> stepFrom x = stepFrom s \<and> stepTo x = stepTo s \<and> stepStart x = stepStart s \<and>
    stepEnd x = stepEnd s \<and> stepGraphVersion x = stepGraphVersion s \<and> distanceMm (stepMetrics x) = distanceMm (stepMetrics s)"
  using assms by (auto simp: withTurnPenalty_def bindR_eq_Inr split: if_splits)

lemma takeCell_keeps: "takeCell problem lp = Inr lp1 \<Longrightarrow> loopNext lp1 = loopNext lp \<and> loopClock lp1 = loopClock lp"
  by (auto simp: takeCell_def bindR_eq_Inr)

lemma remove_index:
  assumes "i \<in> set r" and "distinct r"
  shows "mset r = add_mset i (mset (filter (\<lambda>j. j \<noteq> i) r)) \<and> length r = Suc (length (filter (\<lambda>j. j \<noteq> i) r))"
proof -
  have "filter (\<lambda>j. j \<noteq> i) r = remove1 i r"
    using assms(2) by (auto simp: distinct_remove1_removeAll removeAll_filter_not_eq intro: filter_cong)
  then have eq: "mset r = add_mset i (mset (filter (\<lambda>j. j \<noteq> i) r))" using assms(1) by simp
  then have "size (mset r) = size (add_mset i (mset (filter (\<lambda>j. j \<noteq> i) r)))" by (rule arg_cong)
  then show ?thesis using eq unfolding size_add_mset size_mset by blast
qed

lemma beamOk_distinct:
  assumes "beamOk S arcs tasks n0 h0 st"
  shows "distinct (beamRemaining st)" and "\<forall>i \<in> set (beamRemaining st). i < length tasks"
proof -
  obtain served where "mset served + mset (beamRemaining st) = mset [0..<length tasks]"
    using assms by (auto simp: beamOk_def)
  then have "mset (served @ beamRemaining st) = mset [0..<length tasks]" by simp
  then have "distinct (served @ beamRemaining st)" "set (served @ beamRemaining st) = set [0..<length tasks]"
    using mset_eq_imp_distinct_iff distinct_upt mset_eq_setD by blast+
  then show "distinct (beamRemaining st)" "\<forall>i \<in> set (beamRemaining st). i < length tasks" by auto
qed

lemma serveTask_ok:
  assumes run: "serveTask problem S tasks st i p lp = Inr lp'" and net: "networkOk arcs S" and tasks: "\<forall>t \<in> set tasks. taskOk arcs t"
    and st: "beamOk S arcs tasks n0 h0 st" "length (beamRemaining st) = Suc k" and i: "i \<in> set (beamRemaining st)"
    and steps: "turnRun S (beamNode st) (beamHistory st) (strictSteps p) (stepFrom (taskStep (tasks ! i))) (strictHistory p)"
  shows "set (loopNext lp') \<subseteq> set (loopNext lp) \<union> {x. beamOk S arcs tasks n0 h0 x \<and> length (beamRemaining x) = k}"
proof -
  let ?step = "taskStep (tasks ! i)"
  let ?serve = "\<lambda>service. \<lparr>segmentStep = service, segmentRole = SERVICE, segmentPhase = INSIDE_PHASE,
    segmentIds = [obligationId (taskObligation (tasks ! i))]\<rparr>"
  obtain turn where turn: "advanceTurn (strictHistory p) (stepArcKey ?step) (setRules S) (setWindow S) = Inr turn"
    using run by (auto simp: serveTask_def Let_def bindR_eq_Inr)
  show ?thesis
  proof (cases "turnValid turn")
    case False
    then show ?thesis using run turn by (auto simp: serveTask_def Let_def)
  next
    case True
    obtain segs service cost n where new: "connectorSegments (obligations problem) (strictSteps p) = Inr segs"
      "withTurnPenalty ?step (turnUnits turn) = Inr service"
      "loopNext lp' = loopNext lp @ [\<lparr>beamNode = stepTo ?step, beamHistory = turnHistory turn,
        beamRemaining = filter (\<lambda>j. j \<noteq> i) (beamRemaining st),
        beamSegments = beamSegments st @ segs @ [?serve service], beamCost = cost, beamConnectors = n\<rparr>]"
      using run turn True by (auto simp: serveTask_def Let_def bindR_eq_Inr)
    obtain served where served: "mset served + mset (beamRemaining st) = mset [0..<length tasks]"
      "list_all2 (\<lambda>s i. servesTask s (tasks ! i)) (filter (\<lambda>s. segmentRole s = SERVICE) (beamSegments st)) served"
      using st(1) by (auto simp: beamOk_def)
    note d = beamOk_distinct [OF st(1)]
    have task: "taskOk arcs (tasks ! i)" using tasks d(2) i by simp
    have clean: "cleanHistory (strictHistory p)"
      using turnRun_clean [OF steps] net st(1) by (auto simp: networkOk_def beamOk_def)
    note path = connectorSegments_run [OF steps net new(1)]
    have "strictRun S arcs (stepFrom ?step) (strictHistory p) [?serve service] (stepTo ?step) (turnHistory turn)"
      using task turn(1) True new(2) by (auto simp: taskOk_def)
    note tail = strictRun_append [OF path [THEN conjunct1] this]
    have "strictRun S arcs n0 h0 (beamSegments st) (beamNode st) (beamHistory st)" using st(1) by (simp add: beamOk_def)
    note full = strictRun_append [OF this tail]
    have "mset (served @ [i]) + mset (filter (\<lambda>j. j \<noteq> i) (beamRemaining st)) = mset [0..<length tasks]"
      using served(1) unfolding remove_index [OF i d(1), THEN conjunct1] by (simp del: mset_filter)
    moreover have "servesTask (?serve service) (tasks ! i)"
      using withTurnPenalty_keeps [OF new(2)] task by (simp add: servesTask_def taskOk_def)
    ultimately have "\<exists>done. mset done + mset (filter (\<lambda>j. j \<noteq> i) (beamRemaining st)) = mset [0..<length tasks] \<and>
        list_all2 (\<lambda>s i. servesTask s (tasks ! i))
          (filter (\<lambda>s. segmentRole s = SERVICE) (beamSegments st @ segs @ [?serve service])) done"
      using served(2) path by (intro exI [of _ "served @ [i]"]) (auto intro: list_all2_appendI)
    moreover have "cleanText (stepTo ?step) \<and> cleanHistory (turnHistory turn)"
      using task advanceTurn_clean [OF turn(1) clean] unfolding taskOk_def cleanTravel_def by blast
    moreover have "length (filter (\<lambda>j. j \<noteq> i) (beamRemaining st)) = k" using remove_index [OF i d(1)] st(2) by simp
    ultimately show ?thesis using new(3) full by (auto simp: beamOk_def)
  qed
qed

lemma expandTask_ok:
  assumes run: "expandTask problem S tasks st lp i = Inr lp'" and net: "networkOk arcs S" and tasks: "\<forall>t \<in> set tasks. taskOk arcs t"
    and st: "beamOk S arcs tasks n0 h0 st" "length (beamRemaining st) = Suc k" and i: "i \<in> set (beamRemaining st)"
  shows "set (loopNext lp') \<subseteq> set (loopNext lp) \<union> {x. beamOk S arcs tasks n0 h0 x \<and> length (beamRemaining x) = k}"
  using run unfolding expandTask_def Let_def
proof (elim bindR_InrE, goal_cases)
  case (1 c0 lp1 u)
  obtain found c1 where u: "u = (found, c1)" by (cases u)
  have same: "loopNext lp1 = loopNext lp" using takeCell_keeps [OF 1(2)] by simp
  show ?case
  proof (cases found)
    case None
    then show ?thesis using 1 u same by auto
  next
    case (Some p)
    have "turnRun S (beamNode st) (beamHistory st) (strictSteps p) (stepFrom (taskStep (tasks ! i))) (strictHistory p)"
      using strictShortestPath_run [of S _ _ _ _ _ p] 1(3) Some u net st(1) by (auto simp: networkOk_def beamOk_def)
    from serveTask_ok [OF _ net tasks st i this] show ?thesis using 1(4) Some u same by fastforce
  qed
qed

lemma expandState_ok:
  assumes run: "expandState problem S tasks lp st = Inr lp'" and net: "networkOk arcs S" and tasks: "\<forall>t \<in> set tasks. taskOk arcs t"
    and st: "beamOk S arcs tasks n0 h0 st" "length (beamRemaining st) = Suc k"
  shows "set (loopNext lp') \<subseteq> set (loopNext lp) \<union> {x. beamOk S arcs tasks n0 h0 x \<and> length (beamRemaining x) = k}"
proof -
  let ?P = "\<lambda>l. set (loopNext l) \<subseteq> set (loopNext lp) \<union> {x. beamOk S arcs tasks n0 h0 x \<and> length (beamRemaining x) = k}"
  have "foldR (expandTask problem S tasks st) l is = Inr l' \<Longrightarrow> set is \<subseteq> set (beamRemaining st) \<Longrightarrow> ?P l \<Longrightarrow> ?P l'" for l l' "is"
  proof (induction "is" arbitrary: l)
    case (Cons i "is")
    then show ?case using expandTask_ok [OF _ net tasks st, of problem _ i] by (fastforce simp: bindR_eq_Inr)
  qed simp
  then show ?thesis using run by (simp add: expandState_def)
qed

lemma set_sliceTo: "set (sliceTo n xs) \<subseteq> set xs"
  by (auto simp: sliceTo_def dest: in_set_takeD)

lemma set_deduplicateStates: "set (deduplicateStates states) \<subseteq> set states"
proof -
  have "set (fst (foldl deduplicateStep (r, s) states)) \<subseteq> set r \<union> set states" for r s
    by (induction states arbitrary: r s) (auto simp: deduplicateStep_def split: if_splits, (fastforce)+)
  then show ?thesis by (force simp: deduplicateStates_def)
qed

lemma beam_finished:
  assumes "\<forall>x \<in> set beam. P x \<and> length (beamRemaining x) = k" and "beam \<noteq> []" and "beamRemaining (hd beam) = []"
  shows "\<forall>x \<in> set beam. P x \<and> beamRemaining x = []"
proof -
  have "length (beamRemaining (hd beam)) = k" using assms(1) hd_in_set [OF assms(2)] by blast
  then show ?thesis using assms(1,3) by auto
qed

lemma beamLoop_ok:
  assumes "beamLoop problem S tasks rounds beam lp = Inr (beam', lp')" and net: "networkOk arcs S" and tasks: "\<forall>t \<in> set tasks. taskOk arcs t"
    and "\<forall>x \<in> set beam. beamOk S arcs tasks n0 h0 x \<and> length (beamRemaining x) = k"
  shows "\<forall>x \<in> set beam'. beamOk S arcs tasks n0 h0 x \<and> beamRemaining x = []"
  using assms(1,4)
proof (induction rounds arbitrary: beam lp k)
  case 0
  then have "beam \<noteq> []" "beamRemaining (hd beam) = []" "beam' = beam"
    unfolding beamLoop.simps [of _ _ _ 0] by (auto simp only: nat.case sum.simps prod.inject split: if_splits)
  then show ?case using beam_finished [OF "0.prems"(2)] by blast
next
  case (Suc n)
  show ?case
  proof (cases "beam \<noteq> [] \<and> beamRemaining (hd beam) = []")
    case True
    then have "beam' = beam" using Suc.prems(1) by (simp add: beamLoop.simps [of _ _ _ "Suc n"])
    then show ?thesis using beam_finished [OF Suc.prems(2)] True by blast
  next
    case False
    let ?next = "\<lambda>l. sliceTo (maximumCandidates (budgets problem)) (deduplicateStates (sort_by compareSearchStates (loopNext l)))"
    obtain c0 lp1 where r: "foldR (expandState problem S tasks) (lp\<lparr>loopNext := [], loopClock := c0\<rparr>) beam = Inr lp1"
      "beamLoop problem S tasks n (?next lp1) lp1 = Inr (beam', lp')"
      using Suc.prems(1) False unfolding beamLoop.simps [of _ _ _ "Suc n"] by (auto simp: bindR_eq_Inr split: if_splits)
    have "k \<noteq> 0 \<or> beam = []" using False Suc.prems(2) by (cases beam) auto
    let ?Q = "{x. beamOk S arcs tasks n0 h0 x \<and> length (beamRemaining x) = k - 1}"
    have "foldR (expandState problem S tasks) l b = Inr l' \<Longrightarrow> set b \<subseteq> set beam \<Longrightarrow> set (loopNext l) \<subseteq> ?Q \<Longrightarrow> set (loopNext l') \<subseteq> ?Q" for l l' b
    proof (induction b arbitrary: l)
      case (Cons x b)
      then have x: "x \<in> set beam" "beamOk S arcs tasks n0 h0 x" "length (beamRemaining x) = Suc (k - 1)"
        using \<open>k \<noteq> 0 \<or> beam = []\<close> Suc.prems(2) by auto
      obtain l1 where l1: "expandState problem S tasks l x = Inr l1" "foldR (expandState problem S tasks) l1 b = Inr l'"
        using Cons.prems(1) by (auto simp: bindR_eq_Inr)
      show ?case
        by (rule Cons.IH [OF l1(2)]) (use Cons.prems expandState_ok [OF l1(1) net tasks x(2,3)] in auto)
    qed simp
    from this [OF r(1)] have "set (loopNext lp1) \<subseteq> ?Q" by simp
    moreover have "set (?next lp1) \<subseteq> set (loopNext lp1)"
      by (rule order_trans [OF set_sliceTo order_trans [OF set_deduplicateStates]]) simp
    ultimately have "set (?next lp1) \<subseteq> ?Q" by (rule order_trans [rotated])
    then have "\<forall>x \<in> set (?next lp1). beamOk S arcs tasks n0 h0 x \<and> length (beamRemaining x) = k - 1" by blast
    then show ?thesis by (rule Suc.IH [OF r(2)])
  qed
qed

section \<open>Start and end\<close>

definition cleanArc :: "traversal_arc \<Rightarrow> bool" where
  "cleanArc a \<longleftrightarrow> cleanText (arcKey a) \<and> arcKey a \<noteq> [] \<and> cleanText (fromNodeKey a) \<and> cleanText (toNodeKey a)"

lemma cleanText_simps [simp]: "cleanText (s @ t) \<longleftrightarrow> cleanText s \<and> cleanText t" "cleanText []"
  "cleanText (x # s) \<longleftrightarrow> x \<noteq> 0 \<and> x \<noteq> 1 \<and> cleanText s"
  by (auto simp: cleanText_def)

lemma cleanText_padSeven: "cleanText (padSeven f)"
  using intText_units [of f] by (auto simp: padSeven_def cleanText_def digitUnits_def)

lemma cleanText_node: "cleanArc a \<Longrightarrow> cleanText (stateNode a f)"
  by (simp add: cleanArc_def stateNode_def js_def cleanText_padSeven)

lemma properStep_clean:
  assumes "properStep arcs s" and "\<forall>a \<in> set arcs. cleanArc a"
  shows "cleanTravel s"
proof -
  obtain a m where "a \<in> set arcs" "stepArcKey s = arcKey a" "stepTo s = stateNode a (stepEnd s)"
    using assms(1) by (auto simp: properStep_def stepOf_Inr) (metis travel_step.select_convs(3,5))
  then show ?thesis using assms(2) cleanText_node by (auto simp: cleanTravel_def cleanArc_def)
qed

lemma intervalStep_facts:
  assumes "intervalStep a s e = Inr step"
  shows "stepFrom step = stateNode a s \<and> stepTo step = stateNode a e \<and> stepArcKey step = arcKey a \<and>
    stepStart step = s \<and> stepEnd step = e"
  using assms by (auto simp: intervalStep_def stepOf_Inr)

lemma intervalStep_proper:
  "intervalStep a s e = Inr step \<Longrightarrow> a \<in> set arcs \<Longrightarrow> 0 \<le> s \<Longrightarrow> s < e \<Longrightarrow> e \<le> WHOLE \<Longrightarrow> properStep arcs step"
  by (auto simp: intervalStep_def intro: properStepI)

definition startHistory :: "directed_state \<Rightarrow> js_string list" where
  "startHistory s = (if stateFraction s = WHOLE then [stateArcKey s] else [])"

lemma strictStart_ok:
  assumes run: "strictStart problem S startArc [0..<length tasks] = Inr st" and arc: "startArc \<in> set arcs" "arcKey startArc = stateArcKey (startState problem)"
    and clean: "\<forall>a \<in> set arcs. cleanArc a" and f: "0 \<le> stateFraction (startState problem)" "stateFraction (startState problem) \<le> WHOLE"
  shows "beamOk S arcs tasks (stateNode startArc (stateFraction (startState problem))) (startHistory (startState problem)) st \<and>
    length (beamRemaining st) = length tasks"
proof (cases "stateFraction (startState problem) < WHOLE")
  case True
  obtain access turn step cost where a: "intervalStep startArc (stateFraction (startState problem)) WHOLE = Inr access"
    "advanceTurn [] (stepArcKey access) (setRules S) (setWindow S) = Inr turn" "turnValid turn"
    "withTurnPenalty access (turnUnits turn) = Inr step"
    "st = \<lparr>beamNode = stepTo access, beamHistory = turnHistory turn, beamRemaining = [0..<length tasks],
          beamSegments = [\<lparr>segmentStep = step, segmentRole = ACCESS_ROLE, segmentPhase = ACCESS_PHASE, segmentIds = []\<rparr>],
          beamCost = cost, beamConnectors = 0\<rparr>"
    using run True by (auto simp: strictStart_def Let_def bindR_eq_Inr)
  have p: "properStep arcs access" using intervalStep_proper [OF a(1) arc(1)] True f by simp
  then have c: "cleanTravel access" using clean by (rule properStep_clean)
  then have "cleanHistory (turnHistory turn)"
    using advanceTurn_clean [OF a(2)] by (simp add: cleanTravel_def cleanHistory_def)
  then show ?thesis using a p c intervalStep_facts [OF a(1)] True
    by (auto simp: beamOk_def startHistory_def cleanTravel_def)
next
  case False
  then have w: "stateFraction (startState problem) = WHOLE" using f by simp
  have "cleanArc startArc" using clean arc(1) by simp
  then show ?thesis using run w arc(2) cleanText_node [of startArc WHOLE]
    by (auto simp: strictStart_def beamOk_def startHistory_def cleanHistory_def cleanArc_def)
qed

text \<open>A complete route.\<close>

definition routeOk ::
  "search_setting \<Rightarrow> traversal_arc list \<Rightarrow> service_task list \<Rightarrow> js_string \<Rightarrow> js_string list \<Rightarrow> js_string \<Rightarrow> strict_segment list \<Rightarrow> bool" where
  "routeOk S arcs tasks n0 h0 m segs \<longleftrightarrow> (\<exists>g. strictRun S arcs n0 h0 segs m g) \<and>
     (\<exists>served. mset served = mset [0..<length tasks] \<and>
        list_all2 (\<lambda>s i. servesTask s (tasks ! i)) (filter (\<lambda>s. segmentRole s = SERVICE) segs) served)"

definition finalNode :: "js_string \<Rightarrow> travel_step option \<Rightarrow> js_string" where
  "finalNode goal piece = (case piece of None \<Rightarrow> goal | Some p \<Rightarrow> stepTo p)"

lemma completeState_ok:
  assumes run: "completeState problem S goal piece lp st = Inr lp'" and net: "networkOk arcs S"
    and st: "beamOk S arcs tasks n0 h0 st" "beamRemaining st = []"
    and piece: "case piece of None \<Rightarrow> True | Some p \<Rightarrow> properStep arcs p \<and> stepFrom p = goal"
  shows "set (loopNext lp') \<subseteq> set (loopNext lp) \<union> {x. routeOk S arcs tasks n0 h0 (finalNode goal piece) (beamSegments x)}"
  using run unfolding completeState_def
proof (elim bindR_InrE, goal_cases)
  case (1 lp1 u)
  obtain found c1 where u: "u = (found, c1)" by (cases u)
  have same: "loopNext lp1 = loopNext lp" using takeCell_keeps [OF 1(1)] by simp
  show ?case
  proof (cases found)
    case None
    then show ?thesis using 1 u same by auto
  next
    case (Some p)
    then have run: "finishState problem S goal piece st p (lp1\<lparr>loopClock := c1\<rparr>) = Inr lp'" using 1(3) u by simp
    have steps: "turnRun S (beamNode st) (beamHistory st) (strictSteps p) goal (strictHistory p)"
      using strictShortestPath_run [of S _ _ _ _ _ p] 1(2) Some u net st(1) by (auto simp: networkOk_def beamOk_def)
    obtain segs where segs: "connectorSegments (obligations problem) (strictSteps p) = Inr segs"
      using run by (auto simp: finishState_def bindR_eq_Inr)
    note path = connectorSegments_run [OF steps net segs]
    have start: "strictRun S arcs n0 h0 (beamSegments st) (beamNode st) (beamHistory st)" using st(1) by (simp add: beamOk_def)
    note upto = strictRun_append [OF start path [THEN conjunct1]]
    obtain served where served: "mset served = mset [0..<length tasks]"
      "list_all2 (\<lambda>s i. servesTask s (tasks ! i)) (filter (\<lambda>s. segmentRole s = SERVICE) (beamSegments st)) served"
      using st by (auto simp: beamOk_def)
    show ?thesis
    proof (cases piece)
      case None
      then have "routeOk S arcs tasks n0 h0 (finalNode goal piece) (beamSegments st @ segs)"
        using upto served path by (auto simp: routeOk_def finalNode_def)
      then show ?thesis using run segs None same by (auto simp: finishState_def Let_def bindR_eq_Inr)
    next
      case (Some q)
      obtain turn where turn: "advanceTurn (strictHistory p) (stepArcKey q) (setRules S) (setWindow S) = Inr turn"
        using run segs Some by (auto simp: finishState_def Let_def bindR_eq_Inr)
      show ?thesis
      proof (cases "turnValid turn")
        case False
        then show ?thesis using run segs Some turn same by (auto simp: finishState_def Let_def)
      next
        case True
        obtain step x where step: "withTurnPenalty q (turnUnits turn) = Inr step" "loopNext lp' = loopNext lp @ [x]"
          "beamSegments x = beamSegments st @ segs @ [\<lparr>segmentStep = step, segmentRole = RETURN_ROLE,
             segmentPhase = RETURN_PHASE, segmentIds = []\<rparr>]"
          using run segs Some turn True same by (auto simp: finishState_def Let_def bindR_eq_Inr)
        have "strictRun S arcs goal (strictHistory p) [\<lparr>segmentStep = step, segmentRole = RETURN_ROLE,
             segmentPhase = RETURN_PHASE, segmentIds = []\<rparr>] (stepTo q) (turnHistory turn)"
          using piece Some turn True step(1) by auto
        from strictRun_append [OF upto this]
        have "routeOk S arcs tasks n0 h0 (finalNode goal piece) (beamSegments x)"
          using served path by (auto simp: routeOk_def finalNode_def Some step(3))
        then show ?thesis using step(2) by auto
      qed
    qed
  qed
qed

lemma terminal_ok:
  assumes run: "terminalPrefix endArc f = Inr piece" and arc: "endArc \<in> set arcs" and f: "0 \<le> f" "f \<le> WHOLE"
  shows "(case piece of None \<Rightarrow> True | Some p \<Rightarrow> properStep arcs p \<and> stepFrom p = terminalNode endArc f) \<and>
    finalNode (terminalNode endArc f) piece = stateNode endArc f"
proof (cases "0 < f \<and> f < WHOLE")
  case True
  then obtain p where p: "intervalStep endArc 0 f = Inr p" "piece = Some p" using run by (auto simp: terminalPrefix_def bindR_eq_Inr)
  then show ?thesis using True intervalStep_facts [OF p(1)] intervalStep_proper [OF p(1) arc]
    by (simp add: terminalNode_def finalNode_def)
next
  case False
  then have "f = 0 \<or> f = WHOLE" using f by auto
  moreover have "piece = None" using run False by (auto simp: terminalPrefix_def)
  ultimately show ?thesis by (auto simp: terminalNode_def finalNode_def WHOLE_def)
qed

section \<open>The verifier replays the run\<close>

lemma replay_valid:
  assumes "advanceTurn h a rules w = Inr t" and "turnValid t"
  shows "replayTurn h a rules w = Inr t"
proof -
  obtain t' where t': "replayTurn h a rules w = Inr t'" "turnReport t' = turnReport t"
    using replay_advance [of h a rules w] assms(1) by (cases "replayTurn h a rules w") auto
  then have "t' = t" using assms(2) by (auto simp: turnReport_def split: if_splits)
  then show ?thesis using t'(1) by simp
qed

lemma sliceMetrics_verifier: "sliceMetrics m s e = Inr m' \<Longrightarrow> verifierSlice m s e = m'"
  by (auto simp: sliceMetrics_def verifierSlice_def bindR_eq_Inr slice_value nonNegativeSafe_def Let_def)

lemma penalty_metrics: "withTurnPenalty base u = Inr step \<Longrightarrow> addTurnPenalty (stepMetrics base) u = Inr (stepMetrics step)"
  by (auto simp: withTurnPenalty_def addTurnPenalty_def bindR_eq_Inr safeAdd_Inr verifierAdd_def split: if_splits)

definition segmentOf :: "route_segment \<Rightarrow> strict_segment \<Rightarrow> bool" where
  "segmentOf s x \<longleftrightarrow> (\<exists>n. s = stepSegment n (segmentStep x) (segmentPhase x) (segmentRole x) (segmentIds x))"

lemma segments_strict: "list_all2 segmentOf (strictRouteSegments segs) segs"
  by (auto simp: strictRouteSegments_def segmentOf_def list_all2_conv_all_nth nth_enumerate_eq)

lemma placeOf_keys:
  "arcKey e = arcKey a \<Longrightarrow> fromNodeKey e = fromNodeKey a \<Longrightarrow> toNodeKey e = toNodeKey a \<Longrightarrow> placeOf e f = placeOf a f \<and> stateNode e f = stateNode a f"
  by (simp add: placeOf_def stateNode_def)

lemma properStep_source:
  assumes from_input: "effectiveFrom problem options input arcs" and "properStep arcs base"
  shows "\<exists>a e. networkMap input (stepArcKey base) = Some a \<and> offered (optPolicy options) input (stepArcKey base) = Some e \<and>
    sliceMetrics (arcMetrics e) (stepStart base) (stepEnd base) = Inr (stepMetrics base) \<and>
    distanceMm (arcMetrics e) = distanceMm (arcMetrics a) \<and>
    arcGraphVersion a = stepGraphVersion base \<and> stepGraphVersion base = snapGraphVersion (routingSnapshot problem) \<and>
    stepFrom base = stateNode a (stepStart base) \<and> stepTo base = stateNode a (stepEnd base) \<and>
    validInterval (stepStart base) (stepEnd base)"
proof -
  obtain e where e: "e \<in> set arcs" "0 \<le> stepStart base" "stepStart base < stepEnd base" "stepEnd base \<le> WHOLE"
    "stepOf (stepId base) e (stepStart base) (stepEnd base) = Inr base"
    using assms(2) by (auto simp: properStep_def)
  then obtain m where m: "sliceMetrics (arcMetrics e) (stepStart base) (stepEnd base) = Inr m"
    "base = \<lparr>stepId = stepId base, stepGraphVersion = arcGraphVersion e, stepArcKey = arcKey e,
       stepFrom = stateNode e (stepStart base), stepTo = stateNode e (stepEnd base), stepStart = stepStart base,
       stepEnd = stepEnd base, stepMetrics = m, stepFeature = arcFeature e\<rparr>"
    unfolding stepOf_Inr by blast
  have f: "stepGraphVersion base = arcGraphVersion e" "stepArcKey base = arcKey e" "stepFrom base = stateNode e (stepStart base)"
    "stepTo base = stateNode e (stepEnd base)" "stepMetrics base = m"
    by (subst m(2), simp)+
  obtain a where a: "networkMap input (arcKey e) = Some a" "effectiveArc options a = Inr (Some e)"
    "offered (optPolicy options) input (arcKey e) = Some e" "arcGraphVersion e = snapGraphVersion (routingSnapshot problem)"
    using effectiveFrom_source [OF from_input e(1)] by blast
  have "validInterval (stepStart base) (stepEnd base)"
    using e(2-4) by (simp add: validInterval_def isSafeInteger_def maxSafeInteger_def WHOLE_def)
  moreover have "stateNode e k = stateNode a k" for k using placeOf_keys [of e a k] effectiveArc_keeps [OF a(2)] by simp
  ultimately show ?thesis using f a m(1) effectiveArc_keeps [OF a(2)] by simp
qed

definition strictInput ::
  "coverage_problem \<Rightarrow> traversal_arc list \<Rightarrow> solver_options \<Rightarrow> coverage_route \<Rightarrow> verify_input" where
  "strictInput problem arcs options route = \<lparr>viProblem = problem, viCandidate = route,
     viCurrentSnapshot = routingSnapshot problem, viArcs = arcs, viPolicy = optPolicy options, viRules = optRules options,
     viBoundaryEvents = None, viStartInside = None\<rparr>"

lemma strictInput_simps [simp]:
  "viProblem (strictInput problem arcs options route) = problem" "viCandidate (strictInput problem arcs options route) = route"
  "viCurrentSnapshot (strictInput problem arcs options route) = routingSnapshot problem"
  "viArcs (strictInput problem arcs options route) = arcs" "viPolicy (strictInput problem arcs options route) = optPolicy options"
  "viBoundaryEvents (strictInput problem arcs options route) = None" "viRules (strictInput problem arcs options route) = optRules options"
  by (simp_all add: strictInput_def)

lemma run_accepted:
  assumes from_input: "effectiveFrom problem options input arcs"
    and "strictRun S arcs n h segs m g" and "list_all2 segmentOf rsegs segs"
  shows "acceptedRun (strictInput problem input options route) (setRules S) (setWindow S) h rsegs"
  using assms(2,3)
proof (induction segs arbitrary: n h rsegs)
  case (Cons x segs)
  obtain s rest where r: "rsegs = s # rest" "segmentOf s x" "list_all2 segmentOf rest segs"
    using Cons.prems(2) by (cases rsegs) auto
  obtain base t where b: "properStep arcs base" "advanceTurn h (stepArcKey base) (setRules S) (setWindow S) = Inr t" "turnValid t"
    "withTurnPenalty base (turnUnits t) = Inr (segmentStep x)" "strictRun S arcs (stepTo base) (turnHistory t) segs m g"
    using Cons.prems(1) by auto
  obtain a e where a: "networkMap input (stepArcKey base) = Some a" "offered (optPolicy options) input (stepArcKey base) = Some e"
    "sliceMetrics (arcMetrics e) (stepStart base) (stepEnd base) = Inr (stepMetrics base)" "arcGraphVersion a = stepGraphVersion base"
    "stepGraphVersion base = snapGraphVersion (routingSnapshot problem)" "validInterval (stepStart base) (stepEnd base)"
    using properStep_source [OF from_input b(1)] by blast
  note keep = withTurnPenalty_keeps [OF b(4)]
  have s: "segArcKey s = stepArcKey base" "segGraphVersion s = stepGraphVersion base" "segStart s = stepStart base"
    "segEnd s = stepEnd base" "segMetrics s = stepMetrics (segmentStep x)"
    using r(2) keep by (auto simp: segmentOf_def stepSegment_def)
  have "addTurnPenalty (verifierSlice (arcMetrics e) (segStart s) (segEnd s)) (turnUnits t) = Inr (segMetrics s)"
    using sliceMetrics_verifier [OF a(3)] penalty_metrics [OF b(4)] s by simp
  moreover have "sameMetrics (segMetrics s) (segMetrics s)" by (simp add: sameMetrics_def)
  ultimately show ?case
    unfolding r(1) acceptedRun.simps strictInput_simps
    using a s replay_valid [OF b(2,3)] b(3) Cons.IH [OF b(5) r(3)] by (metis (no_types, lifting))
qed simp

lemma run_drives:
  assumes from_input: "effectiveFrom problem options input arcs"
    and "strictRun S arcs n h segs m g" and "list_all2 segmentOf rsegs segs"
    and "n = stateNode b f" and "m = stateNode c k"
  shows "drives (networkMap input) (placeOf b f) rsegs (placeOf c k)"
  using assms(2-4)
proof (induction segs arbitrary: n h rsegs b f)
  case Nil
  then show ?case using assms(5) stateNode_place by simp
next
  case (Cons x segs)
  obtain s rest where r: "rsegs = s # rest" "segmentOf s x" "list_all2 segmentOf rest segs"
    using Cons.prems(2) by (cases rsegs) auto
  obtain base and t :: turn_advance where b: "properStep arcs base" "stepFrom base = n"
    "withTurnPenalty base (turnUnits t) = Inr (segmentStep x)" "strictRun S arcs (stepTo base) (turnHistory t) segs m g"
    using Cons.prems(1) unfolding strictRun.simps by blast
  obtain a where a: "networkMap input (stepArcKey base) = Some a" "stepFrom base = stateNode a (stepStart base)"
    "stepTo base = stateNode a (stepEnd base)"
    using properStep_source [OF from_input b(1)] by blast
  have s: "segArcKey s = stepArcKey base" "segStart s = stepStart base" "segEnd s = stepEnd base"
    using r(2) withTurnPenalty_keeps [OF b(3)] by (auto simp: segmentOf_def stepSegment_def)
  have "placeOf b f = placeOf a (stepStart base)" using Cons.prems(3) b(2) a(2) stateNode_place by simp
  then show ?case using Cons.IH [OF b(4) r(3) a(3)] r(1) s a(1) by simp
qed

lemma run_segments:
  "strictRun S arcs n h segs m g \<Longrightarrow> x \<in> set segs \<Longrightarrow> \<exists>base u. properStep arcs base \<and> withTurnPenalty base u = Inr (segmentStep x)"
  by (induction S arcs n h segs m g rule: strictRun.induct) auto

section \<open>Setting up\<close>

definition strictRanges :: "coverage_problem \<Rightarrow> bool" where
  "strictRanges problem \<longleftrightarrow> (\<forall>obl \<in> set (obligations problem). 0 \<le> oblStart obl \<and> oblEnd obl \<le> WHOLE \<and> 0 \<le> requiredPasses obl) \<and>
     (\<Sum>obl\<leftarrow>obligations problem. requiredPasses obl) \<le> maxSafeInteger"

lemma arcsByKey_member: "arcsByKey arcs k = Some a \<Longrightarrow> a \<in> set arcs \<and> arcKey a = k"
  by (auto simp: arcsByKey_def dest!: map_of_SomeD)

definition taskFor :: "traversal_arc list \<Rightarrow> service_task \<Rightarrow> obligation \<Rightarrow> bool" where
  "taskFor arcs task obl \<longleftrightarrow> taskOk arcs task \<and> taskObligation task = obl"

lemma tasksOf_ok:
  assumes run: "tasksOf (arcsByKey arcs) obl = Inr ts" and clean: "\<forall>a \<in> set arcs. cleanArc a"
    and obl: "0 \<le> oblStart obl" "oblEnd obl \<le> WHOLE"
  shows "list_all2 (taskFor arcs) ts (replicate (nat (requiredPasses obl)) obl) \<and> oblStart obl < oblEnd obl"
proof -
  obtain arc step where s: "arcsByKey arcs (oblArcKey obl) = Some arc" "oblStart obl < oblEnd obl"
    "intervalStep arc (oblStart obl) (oblEnd obl) = Inr step"
    "ts = map (\<lambda>pass. \<lparr>taskId = obligationId obl @ js '':'' @ padStart 2 (int pass), taskObligation = obl, taskStep = step\<rparr>)
       [1..<nat (requiredPasses obl) + 1]"
    using run by (auto simp: tasksOf_def getBang_def bindR_eq_Inr split: option.splits)
  note a = arcsByKey_member [OF s(1)]
  have p: "properStep arcs step" using intervalStep_proper [OF s(3)] a obl s(2) by simp
  have "taskFor arcs \<lparr>taskId = i, taskObligation = obl, taskStep = step\<rparr> obl" for i
    using p properStep_clean [OF p clean] intervalStep_facts [OF s(3)] a by (simp add: taskFor_def taskOk_def)
  moreover have "length ts = nat (requiredPasses obl)" using s(4) by (simp del: upt_Suc)
  ultimately show ?thesis using s(2,4) by (auto intro!: list_all2_constant simp del: upt_Suc)
qed

lemma serviceTasks_ok:
  assumes run: "mapR (tasksOf (arcsByKey arcs)) obls = Inr tss" and clean: "\<forall>a \<in> set arcs. cleanArc a"
    and obl: "\<forall>obl \<in> set obls. 0 \<le> oblStart obl \<and> oblEnd obl \<le> WHOLE"
  shows "list_all2 (taskFor arcs) (concat tss) (servicePasses obls) \<and> (\<forall>obl \<in> set obls. oblStart obl < oblEnd obl)"
  using run obl
proof (induction obls arbitrary: tss)
  case (Cons obl obls)
  obtain ts rest where r: "tasksOf (arcsByKey arcs) obl = Inr ts" "mapR (tasksOf (arcsByKey arcs)) obls = Inr rest" "tss = ts # rest"
    using Cons.prems(1) by (auto simp: bindR_eq_Inr)
  have "list_all2 (taskFor arcs) ts (replicate (nat (requiredPasses obl)) obl) \<and> oblStart obl < oblEnd obl"
    using tasksOf_ok [OF r(1) clean] Cons.prems(2) by simp
  moreover have "list_all2 (taskFor arcs) (concat rest) (servicePasses obls) \<and> (\<forall>obl \<in> set obls. oblStart obl < oblEnd obl)"
    using Cons.IH [OF r(2)] Cons.prems(2) by simp
  ultimately show ?case using r(3) by (auto simp: servicePasses_def list_all2_appendI)
qed (simp add: servicePasses_def)

definition strictReady ::
  "coverage_problem \<Rightarrow> traversal_arc list \<Rightarrow> solver_options \<Rightarrow> traversal_arc list \<Rightarrow> directed_state \<Rightarrow> search_setting \<Rightarrow> service_task list \<Rightarrow> bool" where
  "strictReady problem input options arcs endState S tasks \<longleftrightarrow> effectiveFrom problem options input arcs \<and> networkOk arcs S \<and>
     (\<forall>a \<in> set arcs. cleanArc a) \<and> strictEndState problem = Some endState \<and>
     validState (arcsByKey arcs) (startState problem) \<and> validState (arcsByKey arcs) endState \<and>
     (\<forall>obl \<in> set (obligations problem). arcsByKey arcs (oblArcKey obl) \<noteq> None \<and> oblStart obl < oblEnd obl) \<and>
     list_all2 (taskFor arcs) tasks (servicePasses (byObligationId (obligations problem))) \<and>
     setRules S = activeRules (optionRules options) (profileKey (optPolicy options)) \<and> setWindow S = maximumHistory (setRules S)"

lemma strictSetup_ok:
  assumes run: "strictSetup problem input options = Inr (arcs, endState, S, tasks)" and ranges: "strictRanges problem"
    and clean: "\<forall>a \<in> set input. cleanArc a"
  shows "strictReady problem input options arcs endState S tasks"
proof -
  obtain e where e: "strictEndState problem = Some e" using run by (cases "strictEndState problem") (auto simp: strictSetup_def bindR_eq_Inr Let_def)
  show ?thesis
    using run unfolding strictSetup_def e option.case Let_def
  proof (elim bindR_InrE, goal_cases)
    case (1 u0 u1 u2 arcs1 u3 u4 u5 network tasks1)
    have same: "arcs1 = arcs" "endState = e" "tasks1 = tasks" "setNetwork S = network"
      "setRules S = activeRules (optionRules options) (profileKey (optPolicy options))" "setWindow S = maximumHistory (setRules S)"
      using 1(10) by auto
    note eff = effectiveArcs_from [OF 1(4), unfolded same]
    have cleanArcs: "\<forall>a \<in> set arcs. cleanArc a"
    proof
      fix a assume "a \<in> set arcs"
      then obtain b where b: "b \<in> set input" "effectiveArc options b = Inr (Some a)" using eff by (auto simp: effectiveFrom_def)
      then show "cleanArc a" using clean effectiveArc_keeps [OF b(2)] by (auto simp: cleanArc_def)
    qed
    have valid: "validState (arcsByKey arcs) (startState problem)" "validState (arcsByKey arcs) e"
      "\<forall>obl \<in> set (obligations problem). arcsByKey arcs (oblArcKey obl) \<noteq> None"
      using 1(5-7) same by (auto simp: ensureR_Inr)
    obtain tss where tss: "mapR (tasksOf (arcsByKey arcs)) (byObligationId (obligations problem)) = Inr tss" "tasks = concat tss"
      using 1(9) same by (auto simp: serviceTasks_def bindR_eq_Inr)
    have sameObl: "set (byObligationId (obligations problem)) = set (obligations problem)" by (simp add: byObligationId_def)
    have t: "list_all2 (taskFor arcs) tasks (servicePasses (byObligationId (obligations problem))) \<and>
        (\<forall>obl \<in> set (obligations problem). oblStart obl < oblEnd obl)"
      using serviceTasks_ok [OF tss(1) cleanArcs] ranges by (simp add: tss(2) sameObl strictRanges_def)
    let ?marks = "obligationMarks (obligations problem) @ [stateMark (startState problem), stateMark e]"
    have "\<forall>(k, f) \<in> set ?marks. 0 \<le> f \<and> f \<le> WHOLE"
      using valid(1,2) t ranges
      by (force simp: obligationMarks_def stateMark_def strictRanges_def validState_def split: option.splits)
    then have "\<forall>s \<in> set network. properStep arcs s"
      using 1(8) same unfolding strictNetwork_def strictFractions_def
      by (intro atomicCuts_proper [where cutArc = intervalStep]) (auto simp: intervalStep_def)
    then have "networkOk arcs S" using properStep_clean cleanArcs by (auto simp: networkOk_def same)
    then show ?case using eff cleanArcs valid t same(2,5,6) by (auto simp: strictReady_def e)
  qed
qed

lemma strict_plan:
  assumes run: "strictPlan problem input options clock = Inr plan" and ranges: "strictRanges problem"
    and clean: "\<forall>a \<in> set input. cleanArc a"
  shows "\<exists>arcs e S tasks startArc endArc segs. strictReady problem input options arcs e S tasks \<and>
    arcsByKey arcs (stateArcKey (startState problem)) = Some startArc \<and> arcsByKey arcs (stateArcKey e) = Some endArc \<and>
    routeOk S arcs tasks (stateNode startArc (stateFraction (startState problem))) (startHistory (startState problem))
      (stateNode endArc (stateFraction e)) segs \<and>
    totalMetrics (strictRouteSegments segs) = Inr (bodyMetrics (spBody plan)) \<and>
    spBody plan = \<lparr>bodyStartState = startState problem, bodyEndState = e, bodySegments = strictRouteSegments segs,
         bodyBoundaryEvents = Some [], bodyMetrics = bodyMetrics (spBody plan)\<rparr>"
  using run unfolding strictPlan_def Let_def
proof (elim bindR_InrE, goal_cases)
  case (1 prep)
  obtain arcs e S tasks where s: "prep = (arcs, e, S, tasks)" by (cases prep)
  note ready = strictSetup_ok [OF 1(1) [unfolded s] ranges clean]
  show ?case
    using 1(2) unfolding s prod.case unfolding case_prod_beta
  proof (elim bindR_InrE, goal_cases)
    case (1 startArc initial looped endArc piece lp1)
    have arcs: "arcsByKey arcs (stateArcKey (startState problem)) = Some startArc" "arcsByKey arcs (stateArcKey e) = Some endArc"
      using 1(1,4) by (auto simp: getBang_def split: option.splits)
    have net: "networkOk arcs S" and cleanArcs: "\<forall>a \<in> set arcs. cleanArc a" using ready by (simp_all add: strictReady_def)
    have served: "list_all2 (taskFor arcs) tasks (servicePasses (byObligationId (obligations problem)))"
      using ready by (simp add: strictReady_def)
    have tasks: "\<forall>t \<in> set tasks. taskOk arcs t"
      using list_all2_left [OF served] by (auto simp: taskFor_def)
    have f: "0 \<le> stateFraction (startState problem)" "stateFraction (startState problem) \<le> WHOLE" "0 \<le> stateFraction e" "stateFraction e \<le> WHOLE"
      using ready arcs by (simp_all add: strictReady_def validState_def)
    let ?n0 = "stateNode startArc (stateFraction (startState problem))" and ?h0 = "startHistory (startState problem)"
    have init: "beamOk S arcs tasks ?n0 ?h0 initial \<and> length (beamRemaining initial) = length tasks"
      by (rule strictStart_ok [OF 1(2) _ _ cleanArcs f(1,2)]) (use arcsByKey_member [OF arcs(1)] in auto)
    have beam: "\<forall>x \<in> set (fst looped). beamOk S arcs tasks ?n0 ?h0 x \<and> beamRemaining x = []"
      by (rule beamLoop_ok [of problem S tasks "length tasks + 1" "[initial]" _ _ "snd looped" arcs, OF _ net tasks])
        (use 1(3) init in auto)
    note piece = terminal_ok [OF 1(5) _ f(3,4), of arcs]
    let ?goal = "terminalNode endArc (stateFraction e)" and ?Q = "{x. routeOk S arcs tasks ?n0 ?h0 (stateNode endArc (stateFraction e)) (beamSegments x)}"
    have pieceOk: "case piece of None \<Rightarrow> True | Some p \<Rightarrow> properStep arcs p \<and> stepFrom p = ?goal"
      "finalNode ?goal piece = stateNode endArc (stateFraction e)"
      using piece arcsByKey_member [OF arcs(2)] by blast+
    have "foldR (completeState problem S ?goal piece) l b = Inr l' \<Longrightarrow> set b \<subseteq> set (fst looped) \<Longrightarrow> set (loopNext l) \<subseteq> ?Q \<Longrightarrow> set (loopNext l') \<subseteq> ?Q" for l l' b
    proof (induction b arbitrary: l)
      case (Cons x b)
      obtain l1 where l1: "completeState problem S ?goal piece l x = Inr l1" "foldR (completeState problem S ?goal piece) l1 b = Inr l'"
        using Cons.prems(1) by (auto simp: bindR_eq_Inr)
      have x: "beamOk S arcs tasks ?n0 ?h0 x" "beamRemaining x = []" using Cons.prems(2) beam by auto
      have "set (loopNext l1) \<subseteq> set (loopNext l) \<union> ?Q"
        using completeState_ok [OF l1(1) net x pieceOk(1)] pieceOk(2) by simp
      then show ?case using Cons.IH [OF l1(2)] Cons.prems(2,3) by auto
    qed simp
    from this [OF 1(6)] have all: "set (loopNext lp1) \<subseteq> ?Q" by simp
    have ne: "loopNext lp1 \<noteq> []" using 1(7) by (auto split: if_splits)
    let ?best = "hd (sort_by compareSearchStates (loopNext lp1))"
    have "sort_by compareSearchStates (loopNext lp1) \<noteq> []" using ne by simp
    then have "?best \<in> set (sort_by compareSearchStates (loopNext lp1))" by (rule hd_in_set)
    then have best: "routeOk S arcs tasks ?n0 ?h0 (stateNode endArc (stateFraction e)) (beamSegments ?best)" using all by auto
    obtain metrics where m: "totalMetrics (strictRouteSegments (beamSegments ?best)) = Inr metrics"
      "spBody plan = \<lparr>bodyStartState = startState problem, bodyEndState = e, bodySegments = strictRouteSegments (beamSegments ?best),
         bodyBoundaryEvents = Some [], bodyMetrics = metrics\<rparr>"
      using 1(7) ne by (auto simp: bindR_eq_Inr)
    then show ?case using ready arcs best
      by (intro exI [of _ arcs] exI [of _ e] exI [of _ S] exI [of _ tasks] exI [of _ startArc] exI [of _ endArc]
        exI [of _ "beamSegments ?best"]) simp
  qed
qed

section \<open>Every route is accepted\<close>

lemma route_served:
  assumes ok: "routeOk S arcs tasks n0 h0 m segs" and tasks: "list_all2 (taskFor arcs) tasks (servicePasses (byObligationId obls))"
  shows "fullyServed obls (strictRouteSegments segs)"
proof -
  let ?serves = "\<lambda>s obl. segmentRole s = SERVICE \<and> segmentIds s = [obligationId obl] \<and> stepArcKey (segmentStep s) = oblArcKey obl \<and>
     stepStart (segmentStep s) = oblStart obl \<and> stepEnd (segmentStep s) = oblEnd obl"
  obtain served where served: "mset served = mset [0..<length tasks]"
    "list_all2 (\<lambda>s i. servesTask s (tasks ! i)) (filter (\<lambda>s. segmentRole s = SERVICE) segs) served"
    using ok by (auto simp: routeOk_def)
  let ?obls = "map (\<lambda>i. taskObligation (tasks ! i)) served"
  have "mset (map (\<lambda>i. taskObligation (tasks ! i)) [0..<length tasks]) = image_mset (\<lambda>i. taskObligation (tasks ! i)) (mset served)"
    using served(1) by simp
  moreover have "map (\<lambda>i. taskObligation (tasks ! i)) [0..<length tasks] = servicePasses (byObligationId obls)"
    using tasks by (auto simp: list_all2_conv_all_nth taskFor_def intro!: nth_equalityI)
  ultimately have perm: "mset ?obls = mset (servicePasses obls)" by (simp add: servicePasses_sorted)
  have roles: "list_all2 ?serves (filter (\<lambda>s. segmentRole s = SERVICE) segs) ?obls"
    using served(2) by (simp add: list_all2_conv_all_nth servesTask_def)
  have rows: "list_all2 segmentOf (filter (\<lambda>s. segRole s = SERVICE) (strictRouteSegments segs)) (filter (\<lambda>s. segmentRole s = SERVICE) segs)"
    by (rule list_all2_filter [OF segments_strict]) (auto simp: segmentOf_def stepSegment_def)
  have "list_all2 servesWhole (filter (\<lambda>s. segRole s = SERVICE) (strictRouteSegments segs)) ?obls"
    by (rule list_all2_trans [OF _ rows roles]) (auto simp: segmentOf_def stepSegment_def servesWhole_def)
  then show ?thesis using perm unfolding fullyServed_def by blast
qed

lemma segment_length:
  assumes eff: "effectiveFrom problem options input arcs" and run: "strictRun S arcs n h segs m g"
    and s: "s \<in> set (strictRouteSegments segs)"
  shows "0 \<le> distanceMm (segMetrics s) \<and> (\<exists>a. networkMap input (segArcKey s) = Some a \<and>
    distanceMm (verifierSlice (arcMetrics a) (segStart s) (segEnd s)) = distanceMm (segMetrics s))"
proof -
  obtain x where x: "x \<in> set segs" "segmentOf s x" using list_all2_left [OF segments_strict s] by blast
  obtain base u where b: "properStep arcs base" "withTurnPenalty base u = Inr (segmentStep x)" using run_segments [OF run x(1)] by blast
  obtain a and e :: traversal_arc where a: "networkMap input (stepArcKey base) = Some a"
    "sliceMetrics (arcMetrics e) (stepStart base) (stepEnd base) = Inr (stepMetrics base)"
    "distanceMm (arcMetrics e) = distanceMm (arcMetrics a)"
    using properStep_source [OF eff b(1)] by blast
  have "0 \<le> distanceMm (stepMetrics base)"
    using slicedMetrics_safe [OF a(2)] by (simp add: metricValues_def nonNegativeSafe_def)
  moreover have "distanceMm (verifierSlice (arcMetrics a) (stepStart base) (stepEnd base)) = distanceMm (stepMetrics base)"
    unfolding sliceMetrics_verifier [OF a(2), symmetric] using a(3) by (simp add: verifierSlice_def Let_def)
  ultimately show ?thesis using x(2) a(1) withTurnPenalty_keeps [OF b(2)] by (auto simp: segmentOf_def stepSegment_def)
qed

lemma strict_verified:
  assumes run: "solveStrictCoverageRoute sha problem input options clock = Inr sol" and ranges: "strictRanges problem"
    and clean: "\<forall>a \<in> set input. cleanArc a" and work: "\<exists>obl \<in> set (obligations problem). 0 < requiredPasses obl"
    and free: "boundaryCrossingPolicy problem = FREE" "endpointMode problem \<noteq> LAST_AREA_EXIT"
    and ids: "distinct (map obligationId (obligations problem))"
  shows "(\<exists>r. verifyCoverageRoute sha (strictInput problem input options (strictRoute sol)) = Inr r \<and> reportStatus (reportBody r) = VALID) \<and>
    (\<forall>obl \<in> set (obligations problem). \<forall>x. oblStart obl \<le> x \<longrightarrow> x < oblEnd obl \<longrightarrow>
       timesServed (bodySegments (routeBody (strictRoute sol))) obl x = requiredPasses obl)"
proof -
  obtain plan where plan: "strictPlan problem input options clock = Inr plan" "strictSolution sha problem options plan = Inr sol"
    using run by (auto simp: solveStrictCoverageRoute_def bindR_eq_Inr)
  obtain arcs e S tasks startArc endArc segs where t: "strictReady problem input options arcs e S tasks"
    "arcsByKey arcs (stateArcKey (startState problem)) = Some startArc" "arcsByKey arcs (stateArcKey e) = Some endArc"
    "routeOk S arcs tasks (stateNode startArc (stateFraction (startState problem))) (startHistory (startState problem))
      (stateNode endArc (stateFraction e)) segs"
    "totalMetrics (strictRouteSegments segs) = Inr (bodyMetrics (spBody plan))"
    "spBody plan = \<lparr>bodyStartState = startState problem, bodyEndState = e, bodySegments = strictRouteSegments segs,
         bodyBoundaryEvents = Some [], bodyMetrics = bodyMetrics (spBody plan)\<rparr>"
    using strict_plan [OF plan(1) ranges clean] by (elim exE conjE)
  have route: "routeBody (strictRoute sol) = spBody plan" "contractSha256 sha (routeBodyJson (spBody plan)) = Inr (routeSignature (strictRoute sol))"
    using plan(2) by (auto simp: strictSolution_def signRoute_def bindR_eq_Inr map_sum_def split: sum.splits)
  have body: "bodySegments (spBody plan) = strictRouteSegments segs" "bodyStartState (spBody plan) = startState problem" "bodyEndState (spBody plan) = e"
    by (subst t(6), simp)+
  let ?in = "strictInput problem input options (strictRoute sol)" and ?net = "networkMap input"
  have eff: "effectiveFrom problem options input arcs" and obls: "\<forall>obl \<in> set (obligations problem). arcsByKey arcs (oblArcKey obl) \<noteq> None \<and> oblStart obl < oblEnd obl"
    and tasks: "list_all2 (taskFor arcs) tasks (servicePasses (byObligationId (obligations problem)))"
    and rules: "activeRulesOf ?in = setRules S" "setWindow S = maximumHistory (setRules S)" and e: "strictEndState problem = Some e"
    using t(1) by (simp_all add: strictReady_def activeRulesOf_def optionRules_def)
  have d: "distinct (map arcKey input)" using eff by (simp add: effectiveFrom_def)
  have source: "\<exists>b. b \<in> set input \<and> ?net k = Some b \<and> placeOf a f = placeOf b f \<and> stateNode a f = stateNode b f" if "arcsByKey arcs k = Some a" for a k f
  proof -
    have a: "a \<in> set arcs" "arcKey a = k" using arcsByKey_member [OF that] by auto
    obtain b where b: "b \<in> set input" "?net (arcKey a) = Some b" "effectiveArc options b = Inr (Some a)"
      using effectiveFrom_source [OF eff a(1)] by blast
    then show ?thesis using placeOf_keys [of a b f] effectiveArc_keeps [OF b(3)] a(2) by auto
  qed
  obtain startArc' where start: "?net (stateArcKey (startState problem)) = Some startArc'"
    "placeOf startArc (stateFraction (startState problem)) = placeOf startArc' (stateFraction (startState problem))"
    using source [OF t(2)] by blast
  obtain endArc' where ends: "?net (stateArcKey e) = Some endArc'" "placeOf endArc (stateFraction e) = placeOf endArc' (stateFraction e)"
    using source [OF t(3)] by blast
  obtain g where path: "strictRun S arcs (stateNode startArc (stateFraction (startState problem))) (startHistory (startState problem)) segs
      (stateNode endArc (stateFraction e)) g"
    using t(4) by (auto simp: routeOk_def)
  have drive: "drives ?net (placeOf startArc' (stateFraction (startState problem))) (strictRouteSegments segs) (placeOf endArc' (stateFraction e))"
    using run_drives [OF eff path segments_strict refl refl] start(2) ends(2) by simp
  have accepted: "acceptedRun ?in (setRules S) (setWindow S) (startHistory (startState problem)) (strictRouteSegments segs)"
    by (rule run_accepted [OF eff path segments_strict])
  have served: "fullyServed (obligations problem) (strictRouteSegments segs)" by (rule route_served [OF t(4) tasks])
  have cover: "\<exists>figures. verifyCoverage ?in ?net = Inr (True, figures, [])"
  proof (rule service_accepts)
    show "fullyServed (obligations (viProblem ?in)) (bodySegments (routeBody (viCandidate ?in)))" using served by (simp add: route body)
    show "\<forall>obl \<in> set (obligations (viProblem ?in)). oblStart obl < oblEnd obl \<and> 0 \<le> requiredPasses obl \<and> ?net (oblArcKey obl) \<noteq> None"
      using obls source ranges by (fastforce simp: strictRanges_def)
    show "totalMetrics (bodySegments (routeBody (viCandidate ?in))) = Inr (bodyMetrics (spBody plan))" using t(5) by (simp add: route body)
    show "\<forall>s \<in> set (bodySegments (routeBody (viCandidate ?in))). 0 \<le> distanceMm (segMetrics s)"
      using segment_length [OF eff path] by (simp add: route body)
    show "\<forall>obl \<in> set (obligations (viProblem ?in)). 0 \<le> onePassLength ?net obl"
    proof
      fix obl assume obl: "obl \<in> set (obligations (viProblem ?in))"
      then obtain a where "arcsByKey arcs (oblArcKey obl) = Some a" using obls by auto
      then obtain b where b: "b \<in> set input" "?net (oblArcKey obl) = Some b" using source by blast
      have "nonNegativeSafe (distanceMm (arcMetrics b))" using eff b(1) by (simp add: effectiveFrom_def metricValues_def)
      then show "0 \<le> onePassLength ?net obl"
        using obl obls ranges b(2) by (auto simp: onePassLength_def strictRanges_def intro!: onePass_nonneg)
    qed
    fix s obl assume s: "s \<in> set (bodySegments (routeBody (viCandidate ?in)))" "servesWhole s obl"
    then show "distanceMm (segMetrics s) = onePassLength ?net obl"
      using segment_length [OF eff path, of s] by (auto simp: route body servesWhole_def onePassLength_def)
  qed (use ids ranges in \<open>simp_all add: strictRanges_def\<close>)
  have times: "\<forall>obl \<in> set (obligations problem). \<forall>x. oblStart obl \<le> x \<longrightarrow> x < oblEnd obl \<longrightarrow>
       timesServed (bodySegments (routeBody (strictRoute sol))) obl x = requiredPasses obl"
    using served_times [OF served ids] ranges by (auto simp: route body strictRanges_def)
  obtain obl where obl: "obl \<in> set (obligations problem)" "0 < requiredPasses obl" using work by blast
  have "strictRouteSegments segs \<noteq> []"
    using times [rule_format, OF obl(1), of "oblStart obl"] obls obl by (auto simp: route body timesServed_def)
  moreover have "expectedEnd ?in = Some e"
    using e free(2) by (cases "endpointMode problem") (simp_all add: expectedEnd_def strictEndState_def)
  ultimately have endpoints: "verifyEndpoints sha ?in ?net = Inr (True, True, [])"
    by (intro endpoints_accept [OF drive]) (use start(1) ends(1) in \<open>simp_all add: route body\<close>)
  have bound: "verifyBoundaryPolicy sha ?in = Inr (True, [])" using free by (simp add: verifyBoundaryPolicy_def Let_def)
  obtain figures where cover: "verifyCoverage ?in ?net = Inr (True, figures, [])" using cover by blast
  have "\<exists>r. verifyCoverageRoute sha ?in = Inr r \<and> reportStatus (reportBody r) = VALID"
  proof (rule verifier_accepts_run)
    show "\<forall>a \<in> set (viArcs ?in). isOk (evaluateArc a (viPolicy ?in))" using effectiveFrom_priced [OF eff] by simp
    show "acceptedRun ?in (activeRulesOf ?in) (maximumHistory (activeRulesOf ?in)) (vsHistory (replayStart ?in []))
      (bodySegments (routeBody (viCandidate ?in)))"
      using accepted by (simp add: rules route body replayStart_def startHistory_def split: if_splits)
    show "drives (networkOf ?in) (placeOf startArc' (stateFraction (startState problem)))
        (bodySegments (routeBody (viCandidate ?in))) (placeOf endArc' (stateFraction e))" using drive by (simp add: route body networkOf_map)
  qed (use d t(5) endpoints bound cover route in \<open>simp_all add: body networkOf_map\<close>)
  then show ?thesis using times by simp
qed

section \<open>Example run\<close>

lemma strict_solution_ok:
  assumes "isOk (strictPlan problem input options clock)" and "strictRanges problem" and "\<forall>a \<in> set input. cleanArc a"
  shows "\<exists>sol. solveStrictCoverageRoute sha problem input options clock = Inr sol"
proof -
  obtain plan where plan: "strictPlan problem input options clock = Inr plan" using assms(1) by (auto simp: isOk_iff)
  have "bodyBoundaryEvents (spBody plan) = Some []"
    using strict_plan [OF plan assms(2,3)] by (elim exE conjE) (metis route_body.select_convs(4))
  then obtain route where "signRoute sha (spBody plan) = Inr route" using signRoute_ok by blast
  then show ?thesis using plan by (simp add: solveStrictCoverageRoute_def strictSolution_def)
qed

definition penaltyRule :: "turn_rule" where
  "penaltyRule = \<lparr>ruleKey = js ''r'', arcSequence = [js ''a'', js ''b''], ruleType = PENALTY, rulePenalty = Some 3,
     travelProfileKeys = None\<rparr>"

definition strictOptions :: "solver_options" where
  "strictOptions = \<lparr>optObjective = SHORTEST_DISTANCE, optWeights = None, optPolicy = viPolicy townInput,
     optRules = Some [penaltyRule], optRouteCount = None, optServiceMode = None\<rparr>"

lemma strict_signable: "isOk (strictPlan ruralProblem ruralArcs strictOptions 60)" by code_simp

section \<open>Properties\<close>

text \<open>
  C4. Solver and verifier agree (strict solver).  Every route that \<open>solveStrictCoverageRoute\<close> returns
  under turn rules, a travel policy and road conditions is reported VALID by the verifier under the
  same rules, policy and arcs: the turns are legal with the penalties the verifier replays, closed
  and excluded arcs are avoided, the re-priced metrics add up, the route runs from the start to the
  end state, and every millionth of every obligation is served exactly the required number of times.
  Assumed: the keys of the network are free of the two separators of \<open>searchKey\<close>; there is something to
  serve; boundaries may be crossed freely and the route need not end at the last exit of the area, as the
  verifier refuses both without boundary events; obligations have distinct names and lie within the fractions
  of their arcs, their passes are not negative and add up to a safe integer.
\<close>

theorem strict_route_verified:
  assumes "solveStrictCoverageRoute sha problem input options clock = Inr sol" and "strictRanges problem"
    and "\<forall>a \<in> set input. cleanArc a" and "\<exists>obl \<in> set (obligations problem). 0 < requiredPasses obl"
    and "boundaryCrossingPolicy problem = FREE" and "endpointMode problem \<noteq> LAST_AREA_EXIT"
    and "distinct (map obligationId (obligations problem))"
  shows "(\<exists>r. verifyCoverageRoute sha (strictInput problem input options (strictRoute sol)) = Inr r \<and> reportStatus (reportBody r) = VALID) \<and>
    (\<forall>obl \<in> set (obligations problem). \<forall>x. oblStart obl \<le> x \<longrightarrow> x < oblEnd obl \<longrightarrow>
       timesServed (bodySegments (routeBody (strictRoute sol))) obl x = requiredPasses obl)"
  by (rule strict_verified [OF assms])

lemma strict_route_verified_witness:
  "\<exists>sol r. solveStrictCoverageRoute (\<lambda>_. []) ruralProblem ruralArcs strictOptions 60 = Inr sol \<and>
     verifyCoverageRoute (\<lambda>_. []) (strictInput ruralProblem ruralArcs strictOptions (strictRoute sol)) = Inr r \<and>
     reportStatus (reportBody r) = VALID"
proof -
  have ranges: "strictRanges ruralProblem" "boundaryCrossingPolicy ruralProblem = FREE" "endpointMode ruralProblem \<noteq> LAST_AREA_EXIT"
    "distinct (map obligationId (obligations ruralProblem))" "\<exists>obl \<in> set (obligations ruralProblem). 0 < requiredPasses obl"
    by (simp_all add: ruralProblem_def townProblem_def townObligation_def strictRanges_def WHOLE_def js_def maxSafeInteger_def)
  have clean: "\<forall>a \<in> set ruralArcs. cleanArc a" by (simp add: ruralArcs_def townArc_def cleanArc_def js_def)
  obtain sol where sol: "solveStrictCoverageRoute (\<lambda>_. []) ruralProblem ruralArcs strictOptions 60 = Inr sol"
    using strict_solution_ok [OF strict_signable ranges(1) clean] by blast
  from strict_route_verified [OF sol ranges(1) clean ranges(5,2,3,4)] show ?thesis using sol by blast
qed

end
