(* ===== verification/ObligationLedger.thy ===== *)
theory ObligationLedger
  imports
  NetworkPlaces
begin

text \<open>
  The identity of service obligations and of coverage problems: \<open>canonical.ts\<close> and \<open>problem.ts\<close> of
  \<open>road-coverage-planning-core/src\<close>.  An obligation is named by the digest of what it asks for, a
  ledger is put into one order, and a problem carries the digest of its own content.

  The contract's constant fields (\<open>schemaVersion\<close>, \<open>contractVersion\<close>, \<open>serviceMode\<close>) appear in the digested
  documents only; \<open>serviceCostUnits\<close> of an incoming obligation is dropped when it is rebuilt and is
  not modelled.  \<open>sha\<close> is the hexadecimal SHA-256 of a text.
\<close>

section \<open>Obligations (canonical.ts)\<close>

definition documentHash :: "(js_string \<Rightarrow> js_string) \<Rightarrow> int json \<Rightarrow> coverage_error + js_string" where
  "documentHash sha v = map_sum NotSerializable id (contractSha256 sha v)"

text \<open>\<open>hash.slice("sha256:".length)\<close>.\<close>

definition hashDigits :: "js_string \<Rightarrow> js_string" where
  "hashDigits hash = drop (length (js ''sha256:'')) hash"

record obligation_identity =
  idenSnapshot :: routing_snapshot
  idenGraphVersion :: js_string
  idenEdgeKey :: "js_string option"
  idenArcKey :: js_string
  idenStart :: int
  idenEnd :: int
  idenPasses :: int
  idenPolicyVersion :: js_string
  idenArea :: "versioned_reference option"
  idenFeature :: versioned_reference

definition obligationFields :: "obligation_identity \<Rightarrow> (js_string \<times> int json) list" where
  "obligationFields i =
     [(js ''graphVersion'', JStr (idenGraphVersion i))] @
     optionalEntry ''edgeKey'' (map_option JStr (idenEdgeKey i)) @
     [(js ''arcKey'', JStr (idenArcKey i)), (js ''startFractionPpm'', JNum (idenStart i)),
      (js ''endFractionPpm'', JNum (idenEnd i)), (js ''serviceMode'', JStr (js ''FIXED_DIRECTION'')),
      (js ''requiredPasses'', JNum (idenPasses i)), (js ''selectionPolicyVersion'', JStr (idenPolicyVersion i))] @
     optionalEntry ''sourceAreaReferenceKey'' (map_option versionedReferenceJson (idenArea i)) @
     [(js ''sourceFeatureReferenceKey'', versionedReferenceJson (idenFeature i))]"

definition identityJson :: "obligation_identity \<Rightarrow> int json" where
  "identityJson i = JObj ((js ''routingSnapshot'', snapshotJson (idenSnapshot i)) # obligationFields i)"

definition buildRoadServiceObligation ::
  "(js_string \<Rightarrow> js_string) \<Rightarrow> obligation_identity \<Rightarrow> coverage_error + obligation" where
  "buildRoadServiceObligation sha i =
     bindR (documentHash sha (identityJson i)) (\<lambda>contentHash.
     Inr \<lparr>obligationId = js ''obl_'' @ hashDigits contentHash, oblGraphVersion = idenGraphVersion i,
       oblEdgeKey = idenEdgeKey i, oblArcKey = idenArcKey i, oblStart = idenStart i, oblEnd = idenEnd i,
       requiredPasses = idenPasses i, selectionPolicyVersion = Some (idenPolicyVersion i),
       oblAreaReference = idenArea i, oblFeatureReference = idenFeature i, oblContentHash = contentHash\<rparr>)"

definition compareObligations :: "obligation \<Rightarrow> obligation \<Rightarrow> int" where
  "compareObligations left right =
     orElse (compareUnicodeCodePoints (oblArcKey left) (oblArcKey right))
     (orElse (oblStart left - oblStart right)
     (orElse (oblEnd left - oblEnd right)
       (compareUnicodeCodePoints (obligationId left) (obligationId right))))"

definition canonicalObligationLedger :: "obligation list \<Rightarrow> obligation list" where
  "canonicalObligationLedger obls = sort_by compareObligations obls"

definition obligationJson :: "obligation \<Rightarrow> int json" where
  "obligationJson obl = JObj (
     [(js ''obligationId'', JStr (obligationId obl)), (js ''graphVersion'', JStr (oblGraphVersion obl))] @
     optionalEntry ''edgeKey'' (map_option JStr (oblEdgeKey obl)) @
     [(js ''arcKey'', JStr (oblArcKey obl)), (js ''startFractionPpm'', JNum (oblStart obl)),
      (js ''endFractionPpm'', JNum (oblEnd obl)), (js ''serviceMode'', JStr (js ''FIXED_DIRECTION'')),
      (js ''requiredPasses'', JNum (requiredPasses obl))] @
     optionalEntry ''selectionPolicyVersion'' (map_option JStr (selectionPolicyVersion obl)) @
     optionalEntry ''sourceAreaReferenceKey'' (map_option versionedReferenceJson (oblAreaReference obl)) @
     [(js ''sourceFeatureReferenceKey'', versionedReferenceJson (oblFeatureReference obl)),
      (js ''contentHash'', JStr (oblContentHash obl))])"

definition obligationSetHash :: "(js_string \<Rightarrow> js_string) \<Rightarrow> obligation list \<Rightarrow> coverage_error + js_string" where
  "obligationSetHash sha obls = documentHash sha (JArr (map obligationJson (canonicalObligationLedger obls)))"

record obligation_set =
  setId :: js_string
  setSnapshot :: routing_snapshot
  setMode :: js_string
  setObligations :: "obligation list"
  setCount :: int
  setTotalLength :: int
  setReceiptHash :: js_string
  setWarnings :: "js_string list option"

section \<open>Problems (problem.ts)\<close>

record problem_input =
  inSnapshot :: routing_snapshot
  inStart :: directed_state
  inFixedEnd :: "directed_state option"
  inEntries :: "directed_state list option"
  inExits :: "directed_state list option"
  inEndpointMode :: endpoint_mode
  inCrossing :: crossing_policy
  inObligationSet :: obligation_set
  inObjective :: "int json"
  inBudgets :: coverage_budgets

text \<open>The contract's problem: the solvers' \<open>coverage_problem\<close> with the set, the objective and the identity.\<close>

record problem_document =
  docInput :: problem_input
  docId :: js_string
  docHash :: js_string

definition problemOf :: "problem_document \<Rightarrow> coverage_problem" where
  "problemOf d = (let i = docInput d in
     \<lparr>routingSnapshot = inSnapshot i, startState = inStart i, fixedEndState = inFixedEnd i, entryStates = inEntries i,
      exitStates = inExits i, endpointMode = inEndpointMode i, boundaryCrossingPolicy = inCrossing i,
      obligations = setObligations (inObligationSet i), budgets = inBudgets i\<rparr>)"

definition defaultPolicyVersion :: "js_string option \<Rightarrow> js_string" where
  "defaultPolicyVersion v = (case v of None \<Rightarrow> js ''coverage-selection/1.0'' | Some p \<Rightarrow> p)"

definition identityOf :: "routing_snapshot \<Rightarrow> obligation \<Rightarrow> obligation_identity" where
  "identityOf snapshot obl =
     \<lparr>idenSnapshot = snapshot, idenGraphVersion = oblGraphVersion obl, idenEdgeKey = oblEdgeKey obl,
      idenArcKey = oblArcKey obl, idenStart = oblStart obl, idenEnd = oblEnd obl, idenPasses = requiredPasses obl,
      idenPolicyVersion = defaultPolicyVersion (selectionPolicyVersion obl), idenArea = oblAreaReference obl,
      idenFeature = oblFeatureReference obl\<rparr>"

definition rebuildObligation ::
  "(js_string \<Rightarrow> js_string) \<Rightarrow> routing_snapshot \<Rightarrow> obligation \<Rightarrow> coverage_error + obligation" where
  "rebuildObligation sha snapshot obl =
     bindR (buildRoadServiceObligation sha (identityOf snapshot obl)) (\<lambda>rebuilt.
     bindR (ensureR (obligationId rebuilt = obligationId obl \<and> oblContentHash rebuilt = oblContentHash obl)
       (Planning INVALID_SELECTION_POLICY)) (\<lambda>_. Inr rebuilt))"

definition normalizeObligationSet ::
  "(js_string \<Rightarrow> js_string) \<Rightarrow> routing_snapshot \<Rightarrow> obligation_set \<Rightarrow> coverage_error + obligation_set" where
  "normalizeObligationSet sha snapshot input =
     bindR (documentHash sha (snapshotJson (setSnapshot input))) (\<lambda>pinned.
     bindR (documentHash sha (snapshotJson snapshot)) (\<lambda>wanted.
     bindR (ensureR (pinned = wanted) (Planning VERSION_NOT_FOUND)) (\<lambda>_.
     bindR (mapR (rebuildObligation sha snapshot) (canonicalObligationLedger (setObligations input))) (\<lambda>obls.
     bindR (obligationSetHash sha obls) (\<lambda>ledgerHash.
     Inr (input\<lparr>setId := js ''obls_'' @ hashDigits ledgerHash, setObligations := obls,
       setCount := int (length obls)\<rparr>))))))"

definition validateProblemInput :: "problem_input \<Rightarrow> coverage_error + unit" where
  "validateProblemInput input =
     bindR (ensureR (setObligations (inObligationSet input) \<noteq> []) (Planning NO_OBLIGATIONS)) (\<lambda>_.
     bindR (ensureR (\<not> (inEndpointMode input = FIXED_END \<and> inFixedEnd input = None)) (Planning INVALID_SELECTION_POLICY)) (\<lambda>_.
     bindR (ensureR (\<not> (inEndpointMode input \<noteq> FIXED_END \<and> inFixedEnd input \<noteq> None)) (Planning INVALID_SELECTION_POLICY)) (\<lambda>_.
     let b = inBudgets input in
     ensureR (isSafeInteger (timeLimitMs b) \<and> 100 \<le> timeLimitMs b \<and>
       isSafeInteger (maximumCandidates b) \<and> 1 \<le> maximumCandidates b \<and> maximumCandidates b \<le> 64 \<and>
       isSafeInteger (maximumMatrixCells b) \<and> 1 \<le> maximumMatrixCells b) (Planning RESOURCE_EXHAUSTED))))"

text \<open>\<open>canonicalState\<close> copies the fields of the contract, which are the fields of the record.\<close>

definition compareStates :: "directed_state \<Rightarrow> directed_state \<Rightarrow> int" where
  "compareStates left right =
     orElse (compareUnicodeCodePoints (stateArcKey left) (stateArcKey right))
     (orElse (stateFraction left - stateFraction right)
       (compareUnicodeCodePoints (directionText (stateDirection left)) (directionText (stateDirection right))))"

definition canonicalStates :: "directed_state list \<Rightarrow> directed_state list" where
  "canonicalStates states = sort_by compareStates states"

fun endpointModeText :: "endpoint_mode \<Rightarrow> js_string" where
  "endpointModeText RETURN_TO_START = js ''RETURN_TO_START''"
| "endpointModeText FIXED_END = js ''FIXED_END''"
| "endpointModeText LAST_AREA_EXIT = js ''LAST_AREA_EXIT''"

fun crossingText :: "crossing_policy \<Rightarrow> js_string" where
  "crossingText FREE = js ''FREE''"
| "crossingText FIRST_ENTRY_ONLY = js ''FIRST_ENTRY_ONLY''"
| "crossingText ENTRY_SET_ONLY = js ''ENTRY_SET_ONLY''"
| "crossingText NO_REENTRY = js ''NO_REENTRY''"

definition obligationSetJson :: "obligation_set \<Rightarrow> int json" where
  "obligationSetJson s = JObj (
     [(js ''schemaVersion'', JStr (js ''1.0'')), (js ''obligationSetId'', JStr (setId s)),
      (js ''routingSnapshot'', snapshotJson (setSnapshot s)), (js ''selectionMode'', JStr (setMode s)),
      (js ''obligations'', JArr (map obligationJson (setObligations s))), (js ''obligationCount'', JNum (setCount s)),
      (js ''totalRequiredLengthMm'', JNum (setTotalLength s)), (js ''selectionReceiptHash'', JStr (setReceiptHash s))] @
     optionalEntry ''warnings'' (map_option (\<lambda>ws. JArr (map JStr ws)) (setWarnings s)))"

definition budgetsJson :: "coverage_budgets \<Rightarrow> int json" where
  "budgetsJson b = JObj [(js ''timeLimitMs'', JNum (timeLimitMs b)), (js ''maximumCandidates'', JNum (maximumCandidates b)),
     (js ''maximumMatrixCells'', JNum (maximumMatrixCells b))]"

definition statesJson :: "directed_state list \<Rightarrow> int json" where
  "statesJson states = JArr (map stateJson states)"

definition problemJson :: "problem_input \<Rightarrow> int json" where
  "problemJson i = JObj (
     [(js ''contractVersion'', JStr (js ''1.0'')), (js ''routingSnapshot'', snapshotJson (inSnapshot i)),
      (js ''startState'', stateJson (inStart i))] @
     optionalEntry ''fixedEndState'' (map_option stateJson (inFixedEnd i)) @
     optionalEntry ''entryStates'' (map_option statesJson (inEntries i)) @
     optionalEntry ''exitStates'' (map_option statesJson (inExits i)) @
     [(js ''endpointMode'', JStr (endpointModeText (inEndpointMode i))),
      (js ''boundaryCrossingPolicy'', JStr (crossingText (inCrossing i))),
      (js ''obligationSet'', obligationSetJson (inObligationSet i)), (js ''objective'', inObjective i),
      (js ''budgets'', budgetsJson (inBudgets i))])"

text \<open>The normalised content, which both functions digest.\<close>

definition canonicalInput :: "(js_string \<Rightarrow> js_string) \<Rightarrow> problem_input \<Rightarrow> coverage_error + problem_input" where
  "canonicalInput sha input =
     bindR (normalizeObligationSet sha (inSnapshot input) (inObligationSet input)) (\<lambda>obls.
     Inr (input\<lparr>inEntries := map_option canonicalStates (inEntries input),
       inExits := map_option canonicalStates (inExits input), inObligationSet := obls\<rparr>))"

definition buildCanonicalCoverageProblem ::
  "(js_string \<Rightarrow> js_string) \<Rightarrow> problem_input \<Rightarrow> coverage_error + problem_document" where
  "buildCanonicalCoverageProblem sha input =
     bindR (validateProblemInput input) (\<lambda>_.
     bindR (canonicalInput sha input) (\<lambda>body.
     bindR (documentHash sha (problemJson body)) (\<lambda>problemHash.
     Inr \<lparr>docInput = body, docId = js ''covp_'' @ hashDigits problemHash, docHash = problemHash\<rparr>)))"

definition coverageProblemHash :: "(js_string \<Rightarrow> js_string) \<Rightarrow> problem_document \<Rightarrow> coverage_error + js_string" where
  "coverageProblemHash sha d =
     bindR (canonicalInput sha (docInput d)) (\<lambda>body. documentHash sha (problemJson body))"

section \<open>Orders\<close>

interpretation obligation_order: js_order compareObligations
  unfolding compareObligations_def by (intro order_intros)

interpretation state_order: js_order compareStates
  unfolding compareStates_def by (intro order_intros)

lemma compareObligations_zero: "compareObligations x y = 0 \<Longrightarrow> obligationId x = obligationId y"
  by (simp add: compareObligations_def orElse_zero code_point_order.cmp_zero_iff)

section \<open>Authentic obligations\<close>

text \<open>An obligation that says what its name says.\<close>

definition authentic :: "(js_string \<Rightarrow> js_string) \<Rightarrow> routing_snapshot \<Rightarrow> obligation \<Rightarrow> bool" where
  "authentic sha snapshot obl \<longleftrightarrow> rebuildObligation sha snapshot obl = Inr obl"

lemma buildObligation_identity:
  "buildRoadServiceObligation sha i = Inr obl \<Longrightarrow> identityOf (idenSnapshot i) obl = i"
  by (auto simp: buildRoadServiceObligation_def identityOf_def defaultPolicyVersion_def bindR_eq_Inr)

lemma buildObligation_authentic:
  "buildRoadServiceObligation sha i = Inr obl \<Longrightarrow> authentic sha (idenSnapshot i) obl"
  using buildObligation_identity [of sha i obl] by (simp add: authentic_def rebuildObligation_def)

lemma rebuildObligation_authentic:
  "rebuildObligation sha snapshot obl = Inr obl' \<Longrightarrow> authentic sha snapshot obl' \<and> obligationId obl' = obligationId obl"
  using buildObligation_authentic [of sha "identityOf snapshot obl" obl']
  by (auto simp: rebuildObligation_def bindR_eq_Inr identityOf_def)

lemma rebuildObligation_order:
  assumes "rebuildObligation sha snapshot x = Inr x'" and "rebuildObligation sha snapshot y = Inr y'"
  shows "compareObligations x' y' = compareObligations x y"
  using assms
  by (auto simp: rebuildObligation_def buildRoadServiceObligation_def bindR_eq_Inr identityOf_def compareObligations_def)

lemma mapR_authentic: "\<forall>obl \<in> set obls. authentic sha snapshot obl \<Longrightarrow> mapR (rebuildObligation sha snapshot) obls = Inr obls"
  by (induction obls) (auto simp: authentic_def)

lemma mapR_member: "mapR f xs = Inr ys \<Longrightarrow> y \<in> set ys \<Longrightarrow> \<exists>x \<in> set xs. f x = Inr y"
  by (induction xs arbitrary: ys) (auto simp: bindR_eq_Inr)

lemma mapR_rebuilt:
  assumes "mapR (rebuildObligation sha snapshot) obls = Inr obls'"
  shows "(\<forall>obl \<in> set obls'. authentic sha snapshot obl) \<and> map obligationId obls' = map obligationId obls \<and>
    (sorted_by compareObligations obls \<longrightarrow> sorted_by compareObligations obls')"
  using assms
proof (induction obls arbitrary: obls')
  case (Cons obl obls)
  obtain o1 rest where r: "rebuildObligation sha snapshot obl = Inr o1" "mapR (rebuildObligation sha snapshot) obls = Inr rest" "obls' = o1 # rest"
    using Cons.prems by (auto simp: bindR_eq_Inr)
  note ih = Cons.IH [OF r(2)]
  have "compareObligations o1 y' \<le> 0" if le: "\<forall>y \<in> set obls. compareObligations obl y \<le> 0" and y': "y' \<in> set rest" for y'
  proof -
    obtain y where "y \<in> set obls" "rebuildObligation sha snapshot y = Inr y'" using mapR_member [OF r(2) y'] by blast
    then show ?thesis using rebuildObligation_order [OF r(1)] le by simp
  qed
  then show ?case using ih r(3) rebuildObligation_authentic [OF r(1)] by (auto simp: sorted_by_def)
qed (simp add: sorted_by_def)

section \<open>The identity of a problem is stable\<close>

lemma canonicalLedger_sorted: "sorted_by compareObligations (canonicalObligationLedger obls)"
  unfolding canonicalObligationLedger_def by (rule obligation_order.sorted_sort_by)

lemma canonicalLedger_id: "sorted_by compareObligations obls \<Longrightarrow> canonicalObligationLedger obls = obls"
  unfolding canonicalObligationLedger_def by (rule obligation_order.sort_by_sorted)

lemma canonicalStates_idem: "canonicalStates (canonicalStates states) = canonicalStates states"
  unfolding canonicalStates_def by (rule state_order.sort_by_idem)

lemma normalize_facts:
  assumes "normalizeObligationSet sha snapshot input = Inr s"
  shows "(\<forall>obl \<in> set (setObligations s). authentic sha snapshot obl) \<and> sorted_by compareObligations (setObligations s) \<and>
    map obligationId (setObligations s) = map obligationId (canonicalObligationLedger (setObligations input)) \<and>
    setCount s = int (length (setObligations s)) \<and> length (setObligations s) = length (setObligations input)"
proof -
  obtain obls where o: "mapR (rebuildObligation sha snapshot) (canonicalObligationLedger (setObligations input)) = Inr obls"
    "setObligations s = obls" "setCount s = int (length obls)"
    using assms by (auto simp: normalizeObligationSet_def bindR_eq_Inr)
  have "length obls = length (setObligations input)"
    using mapR_length [OF o(1)] by (simp add: canonicalObligationLedger_def)
  then show ?thesis using mapR_rebuilt [OF o(1)] canonicalLedger_sorted o(2,3) by auto
qed

lemma normalize_idem:
  assumes "normalizeObligationSet sha snapshot input = Inr s"
  shows "normalizeObligationSet sha snapshot s = Inr s"
proof -
  note f = normalize_facts [OF assms]
  obtain pinned h where p: "documentHash sha (snapshotJson (setSnapshot input)) = Inr pinned"
    "documentHash sha (snapshotJson snapshot) = Inr pinned" "setSnapshot s = setSnapshot input"
    "obligationSetHash sha (setObligations s) = Inr h" "setId s = js ''obls_'' @ hashDigits h"
    using assms unfolding normalizeObligationSet_def by (auto simp: bindR_eq_Inr)
  have "canonicalObligationLedger (setObligations s) = setObligations s" using f canonicalLedger_id by blast
  moreover have "mapR (rebuildObligation sha snapshot) (setObligations s) = Inr (setObligations s)" using f mapR_authentic by blast
  ultimately show ?thesis using p f by (simp add: normalizeObligationSet_def)
qed

lemma canonicalInput_idem:
  assumes "canonicalInput sha input = Inr body"
  shows "canonicalInput sha body = Inr body"
proof -
  obtain s where s: "normalizeObligationSet sha (inSnapshot input) (inObligationSet input) = Inr s"
    "body = input\<lparr>inEntries := map_option canonicalStates (inEntries input),
       inExits := map_option canonicalStates (inExits input), inObligationSet := s\<rparr>"
    using assms by (auto simp: canonicalInput_def bindR_eq_Inr)
  have "map_option canonicalStates (map_option canonicalStates x) = map_option canonicalStates x" for x
    by (cases x) (simp_all add: canonicalStates_idem)
  then show ?thesis using normalize_idem [OF s(1)] by (simp add: canonicalInput_def s(2))
qed

lemma problem_rehash:
  assumes "buildCanonicalCoverageProblem sha input = Inr d"
  shows "coverageProblemHash sha d = Inr (docHash d) \<and> docId d = js ''covp_'' @ hashDigits (docHash d) \<and>
    buildCanonicalCoverageProblem sha (docInput d) = Inr d"
proof -
  obtain body h where b: "validateProblemInput input = Inr ()" "canonicalInput sha input = Inr body" "documentHash sha (problemJson body) = Inr h"
    "d = \<lparr>docInput = body, docId = js ''covp_'' @ hashDigits h, docHash = h\<rparr>"
    using assms by (auto simp: buildCanonicalCoverageProblem_def bindR_eq_Inr)
  obtain s where s: "normalizeObligationSet sha (inSnapshot input) (inObligationSet input) = Inr s"
    "body = input\<lparr>inEntries := map_option canonicalStates (inEntries input),
       inExits := map_option canonicalStates (inExits input), inObligationSet := s\<rparr>"
    using b(2) by (auto simp: canonicalInput_def bindR_eq_Inr)
  have "setObligations s = [] \<longleftrightarrow> setObligations (inObligationSet input) = []"
    using normalize_facts [OF s(1)] by (metis length_0_conv)
  then have "validateProblemInput body = validateProblemInput input" by (simp add: validateProblemInput_def s(2))
  then show ?thesis using b canonicalInput_idem [OF b(2)]
    by (simp add: coverageProblemHash_def buildCanonicalCoverageProblem_def)
qed

text \<open>The order in which obligations and boundary states arrive does not matter.\<close>

definition sameUpToOrder :: "problem_input \<Rightarrow> problem_input \<Rightarrow> bool" where
  "sameUpToOrder i j \<longleftrightarrow> (\<exists>obls entries exits.
     mset obls = mset (setObligations (inObligationSet i)) \<and>
     map_option mset entries = map_option mset (inEntries i) \<and> map_option mset exits = map_option mset (inExits i) \<and>
     j = i\<lparr>inObligationSet := (inObligationSet i)\<lparr>setObligations := obls\<rparr>, inEntries := entries, inExits := exits\<rparr>)"

text \<open>States that agree in arc, fraction and direction are one state.\<close>

definition distinctStates :: "directed_state list option \<Rightarrow> bool" where
  "distinctStates ss \<longleftrightarrow> (case ss of None \<Rightarrow> True | Some xs \<Rightarrow>
     \<forall>x \<in> set xs. \<forall>y \<in> set xs. compareStates x y = 0 \<longrightarrow> x = y)"

lemma canonicalStates_perm:
  assumes "map_option mset xs = map_option mset ys" and "distinctStates ys"
  shows "map_option canonicalStates xs = map_option canonicalStates ys"
proof (cases ys)
  case (Some b)
  then obtain a where a: "xs = Some a" "mset a = mset b" using assms(1) by (cases xs) auto
  have "sort_by compareStates b = sort_by compareStates a"
    by (rule state_order.sort_by_perm) (use assms(2) a(2) Some in \<open>auto simp: distinctStates_def\<close>)
  then show ?thesis using Some a by (simp add: canonicalStates_def)
qed (use assms(1) in simp)

lemma canonicalInput_perm:
  assumes same: "sameUpToOrder i j" and ids: "distinct (map obligationId (setObligations (inObligationSet i)))"
    and states: "distinctStates (inEntries i)" "distinctStates (inExits i)"
  shows "canonicalInput sha j = canonicalInput sha i"
proof -
  obtain obls entries exits where p: "mset obls = mset (setObligations (inObligationSet i))"
    "map_option mset entries = map_option mset (inEntries i)" "map_option mset exits = map_option mset (inExits i)"
    "j = i\<lparr>inObligationSet := (inObligationSet i)\<lparr>setObligations := obls\<rparr>, inEntries := entries, inExits := exits\<rparr>"
    using same by (auto simp: sameUpToOrder_def)
  have "sort_by compareObligations (setObligations (inObligationSet i)) = sort_by compareObligations obls"
  proof (rule obligation_order.sort_by_perm)
    fix x y assume "x \<in> set (setObligations (inObligationSet i))" "y \<in> set (setObligations (inObligationSet i))" "compareObligations x y = 0"
    then show "x = y" using ids compareObligations_zero [of x y] by (auto simp: distinct_map inj_on_def)
  qed (simp add: p(1))
  then have "canonicalObligationLedger obls = canonicalObligationLedger (setObligations (inObligationSet i))"
    by (simp add: canonicalObligationLedger_def)
  then have "normalizeObligationSet sha (inSnapshot i) ((inObligationSet i)\<lparr>setObligations := obls\<rparr>) =
      normalizeObligationSet sha (inSnapshot i) (inObligationSet i)"
    by (simp add: normalizeObligationSet_def)
  then show ?thesis using canonicalStates_perm [OF p(2) states(1)] canonicalStates_perm [OF p(3) states(2)]
    by (cases "normalizeObligationSet sha (inSnapshot i) (inObligationSet i)") (simp_all add: canonicalInput_def p(4))
qed

lemma build_perm:
  assumes run: "buildCanonicalCoverageProblem sha i = Inr d" and same: "sameUpToOrder i j"
    and ids: "distinct (map obligationId (setObligations (inObligationSet i)))"
    and states: "distinctStates (inEntries i)" "distinctStates (inExits i)"
  shows "buildCanonicalCoverageProblem sha j = Inr d"
proof -
  have "setObligations (inObligationSet j) = [] \<longleftrightarrow> setObligations (inObligationSet i) = []"
    using same by (auto simp: sameUpToOrder_def)
  moreover have "inEndpointMode j = inEndpointMode i" "inFixedEnd j = inFixedEnd i" "inBudgets j = inBudgets i"
    using same by (auto simp: sameUpToOrder_def)
  ultimately have "validateProblemInput j = validateProblemInput i" by (simp add: validateProblemInput_def)
  then show ?thesis using run canonicalInput_perm [OF same ids states] by (simp add: buildCanonicalCoverageProblem_def)
qed

lemma build_authentic:
  assumes "buildCanonicalCoverageProblem sha input = Inr d" and "obl \<in> set (obligations (problemOf d))"
  shows "authentic sha (routingSnapshot (problemOf d)) obl"
proof -
  obtain body s where "normalizeObligationSet sha (inSnapshot input) (inObligationSet input) = Inr s"
    "docInput d = input\<lparr>inEntries := map_option canonicalStates (inEntries input),
       inExits := map_option canonicalStates (inExits input), inObligationSet := s\<rparr>"
    using assms(1) by (auto simp: buildCanonicalCoverageProblem_def canonicalInput_def bindR_eq_Inr)
  then show ?thesis using normalize_facts assms(2) by (simp add: problemOf_def Let_def)
qed

section \<open>Property\<close>

text \<open>
  C12. A coverage problem keeps its identity.  Of every problem that \<open>buildCanonicalCoverageProblem\<close>
  makes, \<open>coverageProblemHash\<close> recomputes the stored hash; building again from its own content gives
  the same document; every obligation the solvers get from it is authentic, its name and hash being
  those of its content under the problem's snapshot.  If the obligations have distinct names and no
  two different boundary states agree in arc, fraction and direction, the order in which obligations and
  boundary states were supplied does not show.
\<close>

theorem problem_identity_stable:
  assumes "buildCanonicalCoverageProblem sha input = Inr d"
  shows "coverageProblemHash sha d = Inr (docHash d) \<and> docId d = js ''covp_'' @ hashDigits (docHash d) \<and>
    buildCanonicalCoverageProblem sha (docInput d) = Inr d \<and>
    (\<forall>obl \<in> set (obligations (problemOf d)). authentic sha (routingSnapshot (problemOf d)) obl) \<and>
    (distinct (map obligationId (setObligations (inObligationSet input))) \<longrightarrow> distinctStates (inEntries input) \<longrightarrow>
       distinctStates (inExits input) \<longrightarrow> (\<forall>j. sameUpToOrder input j \<longrightarrow> buildCanonicalCoverageProblem sha j = Inr d))"
  using problem_rehash [OF assms] build_authentic [OF assms] build_perm [OF assms] by blast

definition plainSnapshot :: routing_snapshot where
  "plainSnapshot = \<lparr>snapGraphVersion = js ''g'', snapGraphContentHash = [], snapCostProfileVersion = [], snapCostContentHash = [],
     snapTravelProfileVersion = [], snapDatasetVersion = [], snapCapturedAt = None, snapConditionContentHash = None,
     snapConditionSnapshotId = None, snapSourceWorldVersion = None\<rparr>"

text \<open>With a constant digest every identity is the same; three obligations on two arcs.\<close>

definition plainObligation :: "string \<Rightarrow> int \<Rightarrow> int \<Rightarrow> obligation" where
  "plainObligation k s e = \<lparr>obligationId = js ''obl_'', oblGraphVersion = js ''g'', oblEdgeKey = None, oblArcKey = js k,
     oblStart = s, oblEnd = e, requiredPasses = 1, selectionPolicyVersion = Some (js ''p''), oblAreaReference = None,
     oblFeatureReference = \<lparr>refNamespace = [], refKind = [], refId = [], refVersion = []\<rparr>, oblContentHash = js ''sha256:''\<rparr>"

definition plainInput :: problem_input where
  "plainInput = \<lparr>inSnapshot = plainSnapshot,
     inStart = \<lparr>stateArcKey = js ''a'', stateDirection = FORWARD, stateFraction = 0, stateHeading = None, stateFeature = None\<rparr>,
     inFixedEnd = None, inEntries = None, inExits = None, inEndpointMode = RETURN_TO_START, inCrossing = FREE,
     inObligationSet = \<lparr>setId = [], setSnapshot = plainSnapshot, setMode = [],
       setObligations = [plainObligation ''b'' 0 500000, plainObligation ''a'' 250000 WHOLE], setCount = 2,
       setTotalLength = 9, setReceiptHash = [], setWarnings = None\<rparr>,
     inObjective = JObj [], inBudgets = \<lparr>timeLimitMs = 500, maximumCandidates = 8, maximumMatrixCells = 100\<rparr>\<rparr>"

lemma supported_identity [simp]: "supported (identityJson i)" "supported (obligationJson obl)" "supported (obligationSetJson s)"
  "supported (problemJson input) \<longleftrightarrow> supported (inObjective input)"
  by (auto simp: identityJson_def obligationFields_def obligationJson_def obligationSetJson_def problemJson_def budgetsJson_def
    statesJson_def optionalEntry_def split: option.splits)

lemma constantHash: "supported v \<Longrightarrow> documentHash (\<lambda>_. []) v = Inr (js ''sha256:'')"
  using contractSha256_constant [of v "[]"] by (simp add: documentHash_def)

text \<open>One obligation and two ways into the area, listed in either order.\<close>

definition gateState :: "string \<Rightarrow> directed_state" where
  "gateState k = \<lparr>stateArcKey = js k, stateDirection = FORWARD, stateFraction = 0, stateHeading = None, stateFeature = None\<rparr>"

definition gateInput :: "string list \<Rightarrow> problem_input" where
  "gateInput ks = plainInput\<lparr>inEntries := Some (map gateState ks),
     inObligationSet := (inObligationSet plainInput)\<lparr>setObligations := [plainObligation ''a'' 250000 WHOLE]\<rparr>\<rparr>"

lemma gate_hypotheses:
  "distinct (map obligationId (setObligations (inObligationSet (gateInput ks))))" "distinctStates (inEntries (gateInput [''y'', ''x'']))"
  "distinctStates (inExits (gateInput ks))" "sameUpToOrder (gateInput [''y'', ''x'']) (gateInput [''x'', ''y''])"
proof -
  have "compareStates (gateState ''x'') (gateState ''y'') \<noteq> 0" "compareStates (gateState ''y'') (gateState ''x'') \<noteq> 0" by code_simp+
  then show "distinctStates (inEntries (gateInput [''y'', ''x'']))" by (auto simp: distinctStates_def gateInput_def)
  show "sameUpToOrder (gateInput [''y'', ''x'']) (gateInput [''x'', ''y''])"
    unfolding sameUpToOrder_def
    by (rule exI [of _ "[plainObligation ''a'' 250000 WHOLE]"], rule exI [of _ "Some (map gateState [''x'', ''y''])"], rule exI [of _ None])
      (simp add: gateInput_def plainInput_def add_mset_commute)
qed (simp_all add: gateInput_def distinctStates_def plainInput_def)

lemma problem_identity_stable_witness:
  "\<exists>d. buildCanonicalCoverageProblem (\<lambda>_. []) (gateInput [''y'', ''x'']) = Inr d \<and>
     buildCanonicalCoverageProblem (\<lambda>_. []) (gateInput [''x'', ''y'']) = Inr d \<and>
     coverageProblemHash (\<lambda>_. []) d = Inr (js ''sha256:'') \<and>
     map_option (map stateArcKey) (inEntries (docInput d)) = Some [js ''x'', js ''y'']"
proof -
  let ?i = "gateInput [''y'', ''x'']"
  have ledger: "canonicalObligationLedger [plainObligation ''a'' 250000 WHOLE] = [plainObligation ''a'' 250000 WHOLE]" by code_simp
  have states: "map stateArcKey (canonicalStates (map gateState [''y'', ''x''])) = [js ''x'', js ''y'']" by code_simp
  have same: "rebuildObligation (\<lambda>_. []) plainSnapshot (plainObligation k s e) = Inr (plainObligation k s e)" for k s e
    by (simp add: rebuildObligation_def buildRoadServiceObligation_def constantHash plainObligation_def identityOf_def
      defaultPolicyVersion_def hashDigits_def)
  obtain d where d: "buildCanonicalCoverageProblem (\<lambda>_. []) ?i = Inr d"
      "inEntries (docInput d) = Some (canonicalStates (map gateState [''y'', ''x'']))" "docHash d = js ''sha256:''"
    using ledger same
    by (simp add: buildCanonicalCoverageProblem_def canonicalInput_def normalizeObligationSet_def validateProblemInput_def
      constantHash obligationSetHash_def gateInput_def plainInput_def isSafeInteger_def maxSafeInteger_def)
  note stable = problem_identity_stable [OF d(1)]
  have "buildCanonicalCoverageProblem (\<lambda>_. []) (gateInput [''x'', ''y'']) = Inr d"
    using stable gate_hypotheses by blast
  then show ?thesis using stable d states by auto
qed

end
