(* ===== verification/KeyedLists.thy ===== *)
theory KeyedLists
  imports
  GowmPrelude
  "HOL-Library.AList"
begin

text \<open>
  \<open>[...new Map(xs.map(x => [key(x), x])).values()]\<close>, the idiom by which the planning packages drop
  duplicates: every key keeps the position of its first element and the value of its last.
\<close>

definition lastPerKey :: "('a \<Rightarrow> 'k) \<Rightarrow> 'a list \<Rightarrow> 'a list" where
  "lastPerKey key xs = map snd (foldl (\<lambda>m x. AList.update (key x) x m) [] xs)"

lemma lastPerKey_Nil [simp]: "lastPerKey key [] = []"
  by (simp add: lastPerKey_def)

definition keyedBy :: "('a \<Rightarrow> 'k) \<Rightarrow> ('k \<times> 'a) list \<Rightarrow> bool" where
  "keyedBy key m \<longleftrightarrow> distinct (map fst m) \<and> (\<forall>(k, v) \<in> set m. k = key v)"

lemma keyedBy_update:
  assumes "keyedBy key m"
  shows "keyedBy key (AList.update (key x) x m)"
proof -
  have d: "distinct (map fst (AList.update (key x) x m))" using assms by (simp add: keyedBy_def distinct_update)
  have "k = key v" if "(k, v) \<in> set (AList.update (key x) x m)" for k v
  proof -
    have "map_of (AList.update (key x) x m) k = Some v" using that d by simp
    then show ?thesis using assms by (auto simp: keyedBy_def update_conv' split: if_splits dest!: map_of_SomeD)
  qed
  then show ?thesis using d by (auto simp: keyedBy_def)
qed

lemma keyedBy_all: "keyedBy key (foldl (\<lambda>m x. AList.update (key x) x m) [] xs)"
  by (induction xs rule: rev_induct) (simp_all add: keyedBy_update, simp add: keyedBy_def)

lemma keyedBy_keys: "keyedBy key m \<Longrightarrow> map key (map snd m) = map fst m"
  by (auto simp: keyedBy_def)

text \<open>The value kept for a key is that of its last element.\<close>

lemma keyed_lookup:
  "map_of (foldl (\<lambda>m x. AList.update (key x) x m) [] xs) k = find (\<lambda>x. key x = k) (rev xs)"
  by (induction xs rule: rev_induct) (simp_all add: update_conv')

lemma set_lastPerKey: "x \<in> set (lastPerKey key xs) \<longleftrightarrow> find (\<lambda>y. key y = key x) (rev xs) = Some x"
proof -
  let ?m = "foldl (\<lambda>m x. AList.update (key x) x m) [] xs"
  have k: "keyedBy key ?m" by (rule keyedBy_all)
  have "x \<in> set (lastPerKey key xs) \<longleftrightarrow> (key x, x) \<in> set ?m"
    using k by (force simp: lastPerKey_def keyedBy_def)
  also have "\<dots> \<longleftrightarrow> map_of ?m (key x) = Some x" using k by (simp add: keyedBy_def)
  finally show ?thesis by (simp add: keyed_lookup)
qed

lemma found: "find P xs = Some x \<Longrightarrow> P x \<and> x \<in> set xs"
  by (induction xs) (auto split: if_splits)

lemma lastPerKey_subset: "set (lastPerKey key xs) \<subseteq> set xs"
proof
  fix x assume "x \<in> set (lastPerKey key xs)"
  then have "x \<in> set (rev xs)" unfolding set_lastPerKey by (blast dest: found)
  then show "x \<in> set xs" by simp
qed

lemma lastPerKey_distinct: "distinct (map key (lastPerKey key xs))"
proof -
  have "map key (lastPerKey key xs) = map fst (foldl (\<lambda>m x. AList.update (key x) x m) [] xs)"
    unfolding lastPerKey_def by (rule keyedBy_keys [OF keyedBy_all])
  then show ?thesis using keyedBy_all [of key xs] by (simp add: keyedBy_def)
qed

lemma lastPerKey_keys: "key ` set (lastPerKey key xs) = key ` set xs"
proof (rule equalityI)
  show "key ` set (lastPerKey key xs) \<subseteq> key ` set xs" by (rule image_mono [OF lastPerKey_subset])
  show "key ` set xs \<subseteq> key ` set (lastPerKey key xs)"
  proof
    fix k assume "k \<in> key ` set xs"
    then have "find (\<lambda>y. key y = k) (rev xs) \<noteq> None" by (auto simp: find_None_iff)
    then obtain y where y: "find (\<lambda>y. key y = k) (rev xs) = Some y" by blast
    then have k: "k = key y" using found [OF y] by simp
    then have "y \<in> set (lastPerKey key xs)" using y by (simp add: set_lastPerKey)
    then show "k \<in> key ` set (lastPerKey key xs)" using k by (rule rev_image_eqI)
  qed
qed

lemma lastPerKey_eq_Nil [simp]: "lastPerKey key xs = [] \<longleftrightarrow> xs = []"
  using lastPerKey_keys [of key xs] by (metis image_is_empty set_empty)

lemma lastPerKey_inj: "x \<in> set (lastPerKey key xs) \<Longrightarrow> y \<in> set (lastPerKey key xs) \<Longrightarrow> key x = key y \<Longrightarrow> x = y"
  by (simp add: set_lastPerKey)

lemma lastPerKey_id: "distinct (map key xs) \<Longrightarrow> set (lastPerKey key xs) = set xs"
proof (intro equalityI lastPerKey_subset subsetI)
  fix x assume d: "distinct (map key xs)" and x: "x \<in> set xs"
  then obtain y where y: "y \<in> set (lastPerKey key xs)" "key y = key x" using lastPerKey_keys [of key xs] by (metis imageE imageI)
  then have "y \<in> set xs" using lastPerKey_subset [of key xs] by blast
  then show "x \<in> set (lastPerKey key xs)" using d x y by (auto simp: distinct_map dest: inj_onD)
qed

end
