(* ===== verification/RoadSelection.thy ===== *)
theory RoadSelection
  imports
  ObligationLedger
  KeyedLists
begin

text \<open>
  \<open>selectRoadServiceObligations\<close> of \<open>road-coverage-planning-core/src/selection.ts\<close>: from a request for
  an area to an authentic, ordered set of service obligations with a receipt.

  The repository's two queries are parameters, as is the digest of a geometry, whose coordinates
  are floating-point numbers; the geometry itself is of any type.  A query may reject.
\<close>

section \<open>Data\<close>

datatype selection_mode = FULLY_COVERED_EDGE | INTERSECTING_COMPLETE_EDGE | CLIPPED_INSIDE_AREA | MANUAL_OBLIGATIONS

datatype direction_source = MANUAL | SOURCE_FEATURE_ATTRIBUTE | APPROVED_POLICY

datatype policy_service = FIXED_SERVICE | BOTH_SERVICE

datatype oneway = BIDIRECTIONAL | FORWARD_ONLY | REVERSE_ONLY

record selection_policy =
  polMode :: selection_mode
  polService :: policy_service
  polSource :: "direction_source option"
  polPasses :: int
  polMinimumLength :: int
  polTolerance :: "int option"
  polVersion :: "js_string option"
  polManual :: "obligation list option"

datatype 'g area = AreaReference versioned_reference | AreaGeometry 'g

record 'g road_request =
  reqDataScope :: js_string
  reqDatasetScope :: js_string
  reqSnapshot :: routing_snapshot
  reqArea :: "'g area"
  reqResolved :: "'g option"
  reqPolicy :: selection_policy
  reqMaximum :: int

record selection_candidate =
  candGraphVersion :: js_string
  candEdgeKey :: js_string
  candArcKey :: js_string
  candDirection :: direction
  candOneway :: oneway
  candStart :: int
  candEnd :: int
  candLength :: int
  candFeatureId :: js_string

record selection_receipt =
  rcMethod :: js_string
  rcMode :: selection_mode
  rcSnapshot :: routing_snapshot
  rcPolicyVersion :: js_string
  rcAreaHash :: js_string
  rcArea :: "versioned_reference option"
  rcCandidates :: int
  rcObligations :: int
  rcMinimumLength :: int
  rcTolerance :: int

section \<open>Validation\<close>

definition validateRequest :: "'g road_request \<Rightarrow> coverage_error + unit" where
  "validateRequest request =
     (let policy = reqPolicy request in
      bindR (ensureR (reqDataScope request \<noteq> [] \<and> reqDatasetScope request \<noteq> []) (Planning SCOPE_DENIED)) (\<lambda>_.
      bindR (ensureR (isSafeInteger (reqMaximum request) \<and> 1 \<le> reqMaximum request) (Planning INVALID_SELECTION_POLICY)) (\<lambda>_.
      bindR (ensureR (isSafeInteger (polPasses policy) \<and> 1 \<le> polPasses policy \<and> polPasses policy \<le> 10)
        (Planning INVALID_SELECTION_POLICY)) (\<lambda>_.
      bindR (ensureR (isSafeInteger (polMinimumLength policy) \<and> 0 \<le> polMinimumLength policy) (Planning INVALID_SELECTION_POLICY)) (\<lambda>_.
      bindR (ensureR (\<not> (polService policy = FIXED_SERVICE \<and> polSource policy = None)) (Planning INVALID_SELECTION_POLICY)) (\<lambda>_.
      ensureR (\<not> (polMode policy \<noteq> MANUAL_OBLIGATIONS \<and> polSource policy = Some MANUAL)) (Planning INVALID_SELECTION_POLICY)))))))"

section \<open>Directions\<close>

text \<open>Both arcs of an edge have the key of the stretch of road they cover.\<close>

definition physicalKey :: "selection_candidate \<Rightarrow> js_string" where
  "physicalKey c =
     (let start = (if candDirection c = REVERSE then WHOLE - candEnd c else candStart c);
          end = (if candDirection c = REVERSE then WHOLE - candStart c else candEnd c) in
      candEdgeKey c @ js '':'' @ intText start @ js '':'' @ intText end)"

definition groupStretch ::
  "(js_string \<times> selection_candidate list) list \<Rightarrow> selection_candidate \<Rightarrow> (js_string \<times> selection_candidate list) list" where
  "groupStretch groups c =
     AList.update (physicalKey c) (case map_of groups (physicalKey c) of None \<Rightarrow> [c] | Some items \<Rightarrow> items @ [c]) groups"

definition stretches :: "selection_candidate list \<Rightarrow> selection_candidate list list" where
  "stretches candidates = map snd (foldl groupStretch [] candidates)"

definition chooseDirection :: "direction_source option \<Rightarrow> selection_candidate list \<Rightarrow> coverage_error + selection_candidate list" where
  "chooseDirection source items =
     (let sorted = sort_by (\<lambda>l r. compareUnicodeCodePoints (candArcKey l) (candArcKey r)) items in
      case source of
        Some SOURCE_FEATURE_ATTRIBUTE \<Rightarrow>
          (case sorted of [] \<Rightarrow> Inl (Planning INVALID_SELECTION_POLICY)
           | first # _ \<Rightarrow>
             bindR (ensureR (candOneway first \<noteq> BIDIRECTIONAL) (Planning INVALID_SELECTION_POLICY)) (\<lambda>_.
             let direction = (if candOneway first = REVERSE_ONLY then REVERSE else FORWARD) in
             (case find (\<lambda>c. candDirection c = direction) sorted of
                None \<Rightarrow> Inl (Planning INVALID_SELECTION_POLICY) | Some m \<Rightarrow> Inr [m])))
      | Some APPROVED_POLICY \<Rightarrow>
          (case find (\<lambda>c. candDirection c = FORWARD) sorted of
             Some m \<Rightarrow> Inr [m] | None \<Rightarrow> (case sorted of [] \<Rightarrow> Inr [] | first # _ \<Rightarrow> Inr [first]))
      | _ \<Rightarrow> Inl (Planning INVALID_SELECTION_POLICY))"

definition chooseDirections ::
  "selection_candidate list \<Rightarrow> policy_service \<Rightarrow> direction_source option \<Rightarrow> coverage_error + selection_candidate list" where
  "chooseDirections candidates service source =
     (if service = BOTH_SERVICE then Inr candidates
      else bindR (mapR (chooseDirection source) (stretches candidates)) (\<lambda>chosen. Inr (concat chosen)))"

section \<open>Obligations\<close>

definition featureReference :: "js_string \<Rightarrow> js_string \<Rightarrow> versioned_reference" where
  "featureReference i version = \<lparr>refNamespace = js ''gowm'', refKind = js ''LAYER_FEATURE'', refId = i, refVersion = version\<rparr>"

definition areaReference :: "'g area \<Rightarrow> versioned_reference option" where
  "areaReference area = (case area of AreaReference r \<Rightarrow> Some r | AreaGeometry _ \<Rightarrow> None)"

definition areaGeometry :: "'g road_request \<Rightarrow> 'g option" where
  "areaGeometry request = (case reqArea request of AreaReference _ \<Rightarrow> reqResolved request | AreaGeometry g \<Rightarrow> Some g)"

definition candidateIdentity ::
  "'g road_request \<Rightarrow> js_string \<Rightarrow> selection_candidate \<Rightarrow> int \<Rightarrow> int \<Rightarrow> int \<Rightarrow> obligation_identity" where
  "candidateIdentity request version c start end passes =
     \<lparr>idenSnapshot = reqSnapshot request, idenGraphVersion = candGraphVersion c, idenEdgeKey = Some (candEdgeKey c),
      idenArcKey = candArcKey c, idenStart = start, idenEnd = end, idenPasses = passes, idenPolicyVersion = version,
      idenArea = areaReference (reqArea request),
      idenFeature = featureReference (candFeatureId c) (snapDatasetVersion (reqSnapshot request))\<rparr>"

definition candidateObligation ::
  "(js_string \<Rightarrow> js_string) \<Rightarrow> 'g road_request \<Rightarrow> js_string \<Rightarrow> selection_candidate \<Rightarrow> coverage_error + obligation" where
  "candidateObligation sha request version c =
     buildRoadServiceObligation sha
       (candidateIdentity request version c (candStart c) (candEnd c) (polPasses (reqPolicy request)))"

definition manualObligation ::
  "(js_string \<Rightarrow> js_string) \<Rightarrow> 'g road_request \<Rightarrow> selection_candidate list \<Rightarrow> js_string \<Rightarrow> obligation \<Rightarrow> coverage_error + obligation" where
  "manualObligation sha request candidates version item =
     (case map_of (rev (map (\<lambda>c. (candArcKey c, c)) candidates)) (oblArcKey item) of
        None \<Rightarrow> Inl (Planning VERSION_NOT_FOUND)
      | Some c \<Rightarrow>
        bindR (ensureR (candGraphVersion c = snapGraphVersion (reqSnapshot request)) (Planning VERSION_NOT_FOUND)) (\<lambda>_.
        bindR (ensureR (\<not> (oblStart item < 0 \<or> oblEnd item > WHOLE \<or> oblStart item \<ge> oblEnd item))
          (Planning INVALID_SELECTION_POLICY)) (\<lambda>_.
        buildRoadServiceObligation sha (candidateIdentity request
          (case selectionPolicyVersion item of None \<Rightarrow> version | Some v \<Rightarrow> v) c
          (oblStart item) (oblEnd item) (requiredPasses item)))))"

definition normalizeManualObligations ::
  "(js_string \<Rightarrow> js_string) \<Rightarrow> 'g road_request \<Rightarrow> obligation list \<Rightarrow> selection_candidate list \<Rightarrow> js_string \<Rightarrow>
     coverage_error + obligation list" where
  "normalizeManualObligations sha request manual candidates version =
     mapR (manualObligation sha request candidates version) manual"

definition dedupe :: "obligation list \<Rightarrow> obligation list" where
  "dedupe obls = lastPerKey obligationId obls"

section \<open>The required length\<close>

definition intervalText :: "js_string \<Rightarrow> int \<Rightarrow> int \<Rightarrow> js_string" where
  "intervalText key start end = key @ js '':'' @ intText start @ js '':'' @ intText end"

text \<open>
  \<open>Math.round(x / 1_000_000)\<close> rounds half up; the quotient in doubles rounds as the exact one as long
  as it stays below \<open>2 ^ 32\<close>, that is for arcs shorter than 4,294 km.
\<close>

definition roundMillionth :: "int \<Rightarrow> int" where
  "roundMillionth x = (2 * x + WHOLE) div (2 * WHOLE)"

definition obligationLength :: "(js_string \<rightharpoonup> int) \<Rightarrow> obligation \<Rightarrow> int" where
  "obligationLength lengths obl =
     (case lengths (intervalText (oblArcKey obl) (oblStart obl) (oblEnd obl)) of
        Some exact \<Rightarrow> exact
      | None \<Rightarrow> (case lengths (intervalText (oblArcKey obl) 0 WHOLE) of
          None \<Rightarrow> 0 | Some full \<Rightarrow> roundMillionth (full * (oblEnd obl - oblStart obl))))"

definition totalRequiredLength :: "selection_candidate list \<Rightarrow> obligation list \<Rightarrow> int" where
  "totalRequiredLength candidates obls =
     (let lengths = map_of (rev (map (\<lambda>c. (intervalText (candArcKey c) (candStart c) (candEnd c), candLength c)) candidates)) in
      foldl (\<lambda>total obl. total + obligationLength lengths obl * requiredPasses obl) 0 obls)"

section \<open>The selection\<close>

fun modeText :: "selection_mode \<Rightarrow> js_string" where
  "modeText FULLY_COVERED_EDGE = js ''FULLY_COVERED_EDGE''"
| "modeText INTERSECTING_COMPLETE_EDGE = js ''INTERSECTING_COMPLETE_EDGE''"
| "modeText CLIPPED_INSIDE_AREA = js ''CLIPPED_INSIDE_AREA''"
| "modeText MANUAL_OBLIGATIONS = js ''MANUAL_OBLIGATIONS''"

definition receiptJson :: "selection_receipt \<Rightarrow> int json" where
  "receiptJson r = JObj (
     [(js ''schemaVersion'', JStr (js ''1.0'')), (js ''method'', JStr (rcMethod r)), (js ''mode'', JStr (modeText (rcMode r))),
      (js ''routingSnapshot'', snapshotJson (rcSnapshot r)), (js ''selectionPolicyVersion'', JStr (rcPolicyVersion r)),
      (js ''areaHash'', JStr (rcAreaHash r))] @
     optionalEntry ''areaReferenceKey'' (map_option versionedReferenceJson (rcArea r)) @
     [(js ''candidateCount'', JNum (rcCandidates r)), (js ''obligationCount'', JNum (rcObligations r)),
      (js ''minimumSegmentLengthMm'', JNum (rcMinimumLength r)), (js ''boundaryToleranceMm'', JNum (rcTolerance r))])"

text \<open>Candidates from the repository and the obligations made of them.\<close>

definition selectedObligations ::
  "(js_string \<Rightarrow> js_string) \<Rightarrow> ('g road_request \<Rightarrow> coverage_error + selection_candidate list) \<Rightarrow>
     ('g road_request \<Rightarrow> js_string list \<Rightarrow> coverage_error + selection_candidate list) \<Rightarrow> 'g road_request \<Rightarrow> js_string \<Rightarrow>
     coverage_error + (selection_candidate list \<times> obligation list)" where
  "selectedObligations sha select validateManual request version =
     (let policy = reqPolicy request in
      if polMode policy = MANUAL_OBLIGATIONS
      then (let manual = (case polManual policy of None \<Rightarrow> [] | Some ms \<Rightarrow> ms) in
        bindR (validateManual request (map oblArcKey manual)) (\<lambda>candidates.
        bindR (normalizeManualObligations sha request manual candidates version) (\<lambda>obls. Inr (candidates, obls))))
      else
        bindR (select request) (\<lambda>candidates.
        bindR (chooseDirections candidates (polService policy) (polSource policy)) (\<lambda>selected.
        bindR (mapR (candidateObligation sha request version) selected) (\<lambda>obls. Inr (candidates, obls)))))"

definition areaDigest ::
  "(js_string \<Rightarrow> js_string) \<Rightarrow> ('g \<Rightarrow> coverage_error + js_string) \<Rightarrow> 'g road_request \<Rightarrow> coverage_error + js_string" where
  "areaDigest sha geometryHash request =
     (case areaGeometry request of Some g \<Rightarrow> geometryHash g
      | None \<Rightarrow> (case reqArea request of AreaReference r \<Rightarrow> documentHash sha (versionedReferenceJson r)
          | AreaGeometry g \<Rightarrow> geometryHash g))"

definition selectRoadServiceObligations ::
  "(js_string \<Rightarrow> js_string) \<Rightarrow> ('g \<Rightarrow> coverage_error + js_string) \<Rightarrow> ('g road_request \<Rightarrow> coverage_error + selection_candidate list) \<Rightarrow>
     ('g road_request \<Rightarrow> js_string list \<Rightarrow> coverage_error + selection_candidate list) \<Rightarrow> 'g road_request \<Rightarrow>
     coverage_error + (selection_receipt \<times> obligation_set)" where
  "selectRoadServiceObligations sha geometryHash select validateManual request =
     bindR (validateRequest request) (\<lambda>_.
     let policy = reqPolicy request; version = defaultPolicyVersion (polVersion policy) in
     bindR (ensureR (polMode policy = MANUAL_OBLIGATIONS \<or> areaGeometry request \<noteq> None) (Planning INVALID_AREA)) (\<lambda>_.
     bindR (selectedObligations sha select validateManual request version) (\<lambda>(candidates, obls).
     bindR (ensureR (int (length candidates) \<le> reqMaximum request) (Planning RESOURCE_EXHAUSTED)) (\<lambda>_.
     let ledger = canonicalObligationLedger (dedupe obls) in
     bindR (ensureR (ledger \<noteq> []) (Planning NO_OBLIGATIONS)) (\<lambda>_.
     bindR (areaDigest sha geometryHash request) (\<lambda>areaHash.
     let receipt = \<lparr>rcMethod = (if polMode policy = MANUAL_OBLIGATIONS then js ''VALIDATED_MANUAL_OBLIGATIONS_V1''
            else js ''POSTGIS_BOUNDARY_INCLUSIVE_FRACTION_PPM_V1''), rcMode = polMode policy,
          rcSnapshot = reqSnapshot request, rcPolicyVersion = version, rcAreaHash = areaHash,
          rcArea = areaReference (reqArea request), rcCandidates = int (length candidates),
          rcObligations = int (length ledger), rcMinimumLength = polMinimumLength policy,
          rcTolerance = (case polTolerance policy of None \<Rightarrow> 0 | Some t \<Rightarrow> t)\<rparr> in
     bindR (documentHash sha (receiptJson receipt)) (\<lambda>receiptHash.
     bindR (obligationSetHash sha ledger) (\<lambda>ledgerHash.
     Inr (receipt, \<lparr>setId = js ''obls_'' @ hashDigits ledgerHash, setSnapshot = reqSnapshot request,
       setMode = modeText (polMode policy), setObligations = ledger, setCount = int (length ledger),
       setTotalLength = totalRequiredLength candidates ledger, setReceiptHash = receiptHash, setWarnings = Some []\<rparr>)))))))))"

section \<open>One direction of every stretch\<close>

definition stretchGroups :: "selection_candidate list \<Rightarrow> (js_string \<times> selection_candidate list) list \<Rightarrow> bool" where
  "stretchGroups cs groups \<longleftrightarrow> distinct (map fst groups) \<and> fst ` set groups = physicalKey ` set cs \<and>
     (\<forall>(k, items) \<in> set groups. items \<noteq> [] \<and> (\<forall>c \<in> set items. c \<in> set cs \<and> physicalKey c = k))"

lemma groupStretch_step:
  assumes "stretchGroups cs groups"
  shows "stretchGroups (cs @ [c]) (groupStretch groups c)"
proof -
  let ?k = "physicalKey c" and ?v = "case map_of groups (physicalKey c) of None \<Rightarrow> [c] | Some items \<Rightarrow> items @ [c]"
  have d: "distinct (map fst groups)" using assms by (simp add: stretchGroups_def)
  then have d': "distinct (map fst (groupStretch groups c))" by (simp add: groupStretch_def distinct_update)
  have keys: "fst ` set (groupStretch groups c) = insert ?k (fst ` set groups)"
    using dom_update [of ?k ?v groups] by (simp add: groupStretch_def flip: dom_map_of_conv_image_fst)
  have "items \<noteq> [] \<and> (\<forall>x \<in> set items. x \<in> set (cs @ [c]) \<and> physicalKey x = k)" if "(k, items) \<in> set (groupStretch groups c)" for k items
  proof -
    have look: "map_of (groupStretch groups c) k = Some items" using that d' by simp
    show ?thesis
    proof (cases "k = ?k")
      case True
      then have items: "items = ?v" using look by (simp add: groupStretch_def update_conv')
      show ?thesis
      proof (cases "map_of groups ?k")
        case (Some old)
        then have "(?k, old) \<in> set groups" by (rule map_of_SomeD)
        then show ?thesis using assms items Some True by (fastforce simp: stretchGroups_def)
      qed (use items True in simp)
    next
      case False
      then have "map_of groups k = Some items" using look by (simp add: groupStretch_def update_conv')
      then have "(k, items) \<in> set groups" by (rule map_of_SomeD)
      then show ?thesis using assms by (fastforce simp: stretchGroups_def)
    qed
  qed
  then show ?thesis using d' keys assms by (auto simp: stretchGroups_def)
qed

lemma stretchGroups_all: "stretchGroups cs (foldl groupStretch [] cs)"
proof (induction cs rule: rev_induct)
  case Nil
  then show ?case by (simp add: stretchGroups_def)
next
  case (snoc c cs)
  then show ?case using groupStretch_step by simp
qed

lemma chooseDirection_one:
  assumes "chooseDirection source items = Inr chosen" and "items \<noteq> []"
  shows "\<exists>c \<in> set items. chosen = [c]"
proof -
  let ?s = "sort_by (\<lambda>l r. compareUnicodeCodePoints (candArcKey l) (candArcKey r)) items"
  obtain first rest where s: "?s = first # rest" using assms(2) by (cases ?s) auto
  have mem: "set ?s = set items" by simp
  have found: "m \<in> set items" if "find P ?s = Some m" for P m
    using that mem by (metis find_Some_iff nth_mem)
  show ?thesis
    using assms(1) found mem unfolding chooseDirection_def Let_def
    by (auto simp: s bindR_eq_Inr split: option.splits direction_source.splits)
qed

lemma chooseDirections_fixed:
  assumes "chooseDirections candidates FIXED_SERVICE source = Inr selected"
  shows "set selected \<subseteq> set candidates \<and> distinct (map physicalKey selected) \<and> physicalKey ` set selected = physicalKey ` set candidates"
proof -
  let ?groups = "foldl groupStretch [] candidates"
  obtain chosen where c: "mapR (chooseDirection source) (map snd ?groups) = Inr chosen" "selected = concat chosen"
    using assms by (auto simp: chooseDirections_def stretches_def bindR_eq_Inr)
  have "\<forall>(k, items) \<in> set groups. items \<noteq> [] \<and> (\<forall>c \<in> set items. c \<in> set candidates \<and> physicalKey c = k) \<Longrightarrow>
      mapR (chooseDirection source) (map snd groups) = Inr ch \<Longrightarrow>
      map physicalKey (concat ch) = map fst groups \<and> set (concat ch) \<subseteq> set candidates" for groups ch
  proof (induction groups arbitrary: ch)
    case (Cons g groups)
    obtain k items where g: "g = (k, items)" by (cases g)
    obtain one rest where r: "chooseDirection source items = Inr one" "mapR (chooseDirection source) (map snd groups) = Inr rest" "ch = one # rest"
      using Cons.prems(2) by (auto simp: g bindR_eq_Inr)
    obtain c where "c \<in> set items" "one = [c]" using chooseDirection_one [OF r(1)] Cons.prems(1) g by auto
    then show ?case using Cons.IH [OF _ r(2)] Cons.prems(1) g r(3) by auto
  qed simp
  from this [OF _ c(1)] stretchGroups_all [of candidates] c(2)
  have "map physicalKey selected = map fst ?groups" "set selected \<subseteq> set candidates" by (auto simp: stretchGroups_def)
  then show ?thesis using stretchGroups_all [of candidates] unfolding stretchGroups_def by (metis list.set_map)
qed

section \<open>Obligations of a selection\<close>

text \<open>What an obligation has from the candidate it was made of.\<close>

definition madeFrom :: "'g road_request \<Rightarrow> selection_candidate \<Rightarrow> obligation \<Rightarrow> bool" where
  "madeFrom request c obl \<longleftrightarrow> oblArcKey obl = candArcKey c \<and> oblEdgeKey obl = Some (candEdgeKey c) \<and>
     oblGraphVersion obl = candGraphVersion c \<and> oblAreaReference obl = areaReference (reqArea request) \<and>
     oblFeatureReference obl = featureReference (candFeatureId c) (snapDatasetVersion (reqSnapshot request))"

definition wholeCandidate :: "'g road_request \<Rightarrow> selection_candidate \<Rightarrow> obligation \<Rightarrow> bool" where
  "wholeCandidate request c obl \<longleftrightarrow> madeFrom request c obl \<and> oblStart obl = candStart c \<and> oblEnd obl = candEnd c \<and>
     requiredPasses obl = polPasses (reqPolicy request)"

lemma buildObligation_fields:
  "buildRoadServiceObligation sha i = Inr obl \<Longrightarrow> oblArcKey obl = idenArcKey i \<and> oblEdgeKey obl = idenEdgeKey i \<and>
     oblGraphVersion obl = idenGraphVersion i \<and> oblAreaReference obl = idenArea i \<and> oblFeatureReference obl = idenFeature i \<and>
     oblStart obl = idenStart i \<and> oblEnd obl = idenEnd i \<and> requiredPasses obl = idenPasses i"
  by (auto simp: buildRoadServiceObligation_def bindR_eq_Inr)

lemma candidateObligation_ok:
  assumes "candidateObligation sha request version c = Inr obl"
  shows "authentic sha (reqSnapshot request) obl \<and> wholeCandidate request c obl"
  using buildObligation_authentic [OF assms [unfolded candidateObligation_def]]
    buildObligation_fields [OF assms [unfolded candidateObligation_def]]
  by (simp add: candidateIdentity_def wholeCandidate_def madeFrom_def)

lemma manualObligation_ok:
  assumes "manualObligation sha request candidates version item = Inr obl"
  shows "authentic sha (reqSnapshot request) obl \<and> (\<exists>c \<in> set candidates. madeFrom request c obl) \<and>
    0 \<le> oblStart obl \<and> oblStart obl < oblEnd obl \<and> oblEnd obl \<le> WHOLE"
proof -
  obtain c where c: "map_of (rev (map (\<lambda>c. (candArcKey c, c)) candidates)) (oblArcKey item) = Some c"
    "0 \<le> oblStart item" "oblEnd item \<le> WHOLE" "oblStart item < oblEnd item"
    "buildRoadServiceObligation sha (candidateIdentity request (case selectionPolicyVersion item of None \<Rightarrow> version | Some v \<Rightarrow> v) c
          (oblStart item) (oblEnd item) (requiredPasses item)) = Inr obl"
    using assms by (auto simp: manualObligation_def bindR_eq_Inr split: option.splits)
  have "c \<in> set candidates" using c(1) by (auto dest!: map_of_SomeD)
  then show ?thesis using buildObligation_authentic [OF c(5)] buildObligation_fields [OF c(5)] c(2-4)
    by (auto simp: candidateIdentity_def madeFrom_def)
qed

lemma dedupe_facts: "set (dedupe obls) \<subseteq> set obls \<and> distinct (map obligationId (dedupe obls)) \<and>
  obligationId ` set (dedupe obls) = obligationId ` set obls"
  unfolding dedupe_def by (intro conjI lastPerKey_subset lastPerKey_distinct lastPerKey_keys)

text \<open>
  What a selection owes to its repository: every obligation is a whole candidate, or lies on the arc of one
  when it was supplied by hand, and with a fixed direction every stretch of road is served by exactly one arc.
\<close>

definition servesCandidates ::
  "(js_string \<Rightarrow> js_string) \<Rightarrow> 'g road_request \<Rightarrow> selection_candidate list \<Rightarrow> obligation list \<Rightarrow> bool" where
  "servesCandidates sha request candidates ledger \<longleftrightarrow>
     (\<exists>selected. set selected \<subseteq> set candidates \<and>
        (polService (reqPolicy request) = FIXED_SERVICE \<longrightarrow>
           distinct (map physicalKey selected) \<and> physicalKey ` set selected = physicalKey ` set candidates) \<and>
        (polService (reqPolicy request) = BOTH_SERVICE \<longrightarrow> selected = candidates) \<and>
        (\<forall>obl \<in> set ledger. \<exists>c \<in> set selected. wholeCandidate request c obl) \<and>
        (\<forall>c \<in> set selected. \<exists>obl \<in> set ledger.
           map_sum id obligationId (candidateObligation sha request (defaultPolicyVersion (polVersion (reqPolicy request))) c) =
             Inr (obligationId obl)))"

definition suppliedByHand :: "'g road_request \<Rightarrow> selection_candidate list \<Rightarrow> obligation list \<Rightarrow> bool" where
  "suppliedByHand request candidates ledger \<longleftrightarrow>
     (\<forall>obl \<in> set ledger. (\<exists>c \<in> set candidates. madeFrom request c obl) \<and>
        0 \<le> oblStart obl \<and> oblStart obl < oblEnd obl \<and> oblEnd obl \<le> WHOLE)"

lemma chooseDirections_subset:
  assumes "chooseDirections candidates service source = Inr selected"
  shows "set selected \<subseteq> set candidates \<and>
    (service = FIXED_SERVICE \<longrightarrow> distinct (map physicalKey selected) \<and> physicalKey ` set selected = physicalKey ` set candidates) \<and>
    (service = BOTH_SERVICE \<longrightarrow> selected = candidates)"
proof (cases service)
  case FIXED_SERVICE
  then show ?thesis using chooseDirections_fixed assms by simp
qed (use assms in \<open>simp add: chooseDirections_def\<close>)

lemma mapR_made: "mapR f xs = Inr ys \<Longrightarrow> x \<in> set xs \<Longrightarrow> \<exists>y \<in> set ys. f x = Inr y"
  by (induction xs arbitrary: ys) (auto simp: bindR_eq_Inr)

lemma selected_automatic:
  assumes run: "selectedObligations sha select validateManual request (defaultPolicyVersion (polVersion (reqPolicy request))) = Inr (candidates, obls)"
    and mode: "polMode (reqPolicy request) \<noteq> MANUAL_OBLIGATIONS"
    and ledger: "set ledger \<subseteq> set obls" "obligationId ` set ledger = obligationId ` set obls"
  shows "select request = Inr candidates \<and> servesCandidates sha request candidates ledger \<and>
    (\<forall>obl \<in> set obls. authentic sha (reqSnapshot request) obl)"
proof -
  let ?make = "candidateObligation sha request (defaultPolicyVersion (polVersion (reqPolicy request)))"
  obtain selected where s: "select request = Inr candidates"
    "chooseDirections candidates (polService (reqPolicy request)) (polSource (reqPolicy request)) = Inr selected"
    "mapR ?make selected = Inr obls"
    using run mode by (auto simp: selectedObligations_def Let_def bindR_eq_Inr)
  have made: "\<exists>c \<in> set selected. ?make c = Inr obl" if "obl \<in> set obls" for obl using mapR_member [OF s(3) that] .
  have makes: "\<exists>obl \<in> set ledger. map_sum id obligationId (?make c) = Inr (obligationId obl)" if c: "c \<in> set selected" for c
  proof -
    obtain obl where o: "obl \<in> set obls" "?make c = Inr obl"
      using mapR_made [OF s(3) c] by blast
    have "obligationId obl \<in> obligationId ` set ledger" unfolding ledger(2) using o(1) by (rule imageI)
    then obtain obl' where "obl' \<in> set ledger" "obligationId obl = obligationId obl'" by (rule imageE)
    then show ?thesis using o(2) by (intro bexI [of _ obl']) simp_all
  qed
  have whole: "\<exists>c \<in> set selected. wholeCandidate request c obl" if "obl \<in> set ledger" for obl
    using made [of obl] ledger(1) that candidateObligation_ok by blast
  moreover have "\<forall>obl \<in> set obls. authentic sha (reqSnapshot request) obl" using made candidateObligation_ok by blast
  moreover have "servesCandidates sha request candidates ledger"
    unfolding servesCandidates_def
    by (rule exI [of _ selected], intro conjI ballI) (use chooseDirections_subset [OF s(2)] whole makes in simp_all)
  ultimately show ?thesis using s(1) by simp
qed

lemma selected_manual:
  assumes run: "selectedObligations sha select validateManual request version = Inr (candidates, obls)"
    and mode: "polMode (reqPolicy request) = MANUAL_OBLIGATIONS" and ledger: "set ledger \<subseteq> set obls"
  shows "validateManual request (map oblArcKey (case polManual (reqPolicy request) of None \<Rightarrow> [] | Some ms \<Rightarrow> ms)) = Inr candidates \<and>
    suppliedByHand request candidates ledger \<and> (\<forall>obl \<in> set obls. authentic sha (reqSnapshot request) obl)"
proof -
  let ?manual = "case polManual (reqPolicy request) of None \<Rightarrow> [] | Some ms \<Rightarrow> ms"
  have s: "validateManual request (map oblArcKey ?manual) = Inr candidates"
    "mapR (manualObligation sha request candidates version) ?manual = Inr obls"
    using run mode by (auto simp: selectedObligations_def Let_def bindR_eq_Inr normalizeManualObligations_def)
  have "authentic sha (reqSnapshot request) obl \<and> (\<exists>c \<in> set candidates. madeFrom request c obl) \<and>
    0 \<le> oblStart obl \<and> oblStart obl < oblEnd obl \<and> oblEnd obl \<le> WHOLE" if "obl \<in> set obls" for obl
    using mapR_member [OF s(2) that] manualObligation_ok by blast
  then show ?thesis using s(1) ledger unfolding suppliedByHand_def by blast
qed

lemma validateRequest_ok:
  "validateRequest request = Inr u \<Longrightarrow> 1 \<le> polPasses (reqPolicy request) \<and> polPasses (reqPolicy request) \<le> 10"
  by (auto simp: validateRequest_def Let_def bindR_eq_Inr)

section \<open>The set\<close>

definition wellFormedSet :: "(js_string \<Rightarrow> js_string) \<Rightarrow> routing_snapshot \<Rightarrow> obligation_set \<Rightarrow> bool" where
  "wellFormedSet sha snapshot s \<longleftrightarrow> setObligations s \<noteq> [] \<and> distinct (map obligationId (setObligations s)) \<and>
     sorted_by compareObligations (setObligations s) \<and> (\<forall>obl \<in> set (setObligations s). authentic sha snapshot obl) \<and>
     setCount s = int (length (setObligations s)) \<and> setSnapshot s = snapshot \<and>
     map_sum id (\<lambda>h. js ''obls_'' @ hashDigits h) (obligationSetHash sha (setObligations s)) = Inr (setId s)"

lemma wellFormedSet_normal:
  assumes "wellFormedSet sha snapshot s"
  shows "normalizeObligationSet sha snapshot s = Inr s"
proof -
  obtain h where h: "documentHash sha (snapshotJson snapshot) = Inr h"
    using contractSha256_ok [of "snapshotJson snapshot" sha] by (auto simp: documentHash_def)
  obtain l where l: "obligationSetHash sha (setObligations s) = Inr l" "setId s = js ''obls_'' @ hashDigits l"
    using assms by (cases "obligationSetHash sha (setObligations s)") (auto simp: wellFormedSet_def)
  have "canonicalObligationLedger (setObligations s) = setObligations s" using assms canonicalLedger_id by (simp add: wellFormedSet_def)
  moreover have "mapR (rebuildObligation sha snapshot) (setObligations s) = Inr (setObligations s)"
    using assms mapR_authentic by (simp add: wellFormedSet_def)
  ultimately show ?thesis using h l assms by (simp add: normalizeObligationSet_def wellFormedSet_def)
qed

lemma ledger_facts:
  "set (canonicalObligationLedger (dedupe obls)) = set (dedupe obls) \<and>
   distinct (map obligationId (canonicalObligationLedger (dedupe obls)))"
proof -
  have "mset (map obligationId (canonicalObligationLedger (dedupe obls))) = mset (map obligationId (dedupe obls))"
    by (simp add: canonicalObligationLedger_def)
  then have "distinct (map obligationId (canonicalObligationLedger (dedupe obls)))"
    using dedupe_facts [of obls] mset_eq_imp_distinct_iff by blast
  then show ?thesis by (simp add: canonicalObligationLedger_def)
qed

lemma selection_parts:
  assumes "selectRoadServiceObligations sha geometryHash select validateManual request = Inr (receipt, s)"
  obtains candidates obls h where "validateRequest request = Inr ()"
    and "selectedObligations sha select validateManual request (defaultPolicyVersion (polVersion (reqPolicy request))) = Inr (candidates, obls)"
    and "int (length candidates) \<le> reqMaximum request" and "setObligations s = canonicalObligationLedger (dedupe obls)"
    and "setObligations s \<noteq> []" and "setCount s = int (length (setObligations s))" and "setSnapshot s = reqSnapshot request"
    and "obligationSetHash sha (setObligations s) = Inr h" and "setId s = js ''obls_'' @ hashDigits h"
    and "rcCandidates receipt = int (length candidates)" and "rcObligations receipt = setCount s"
    and "documentHash sha (receiptJson receipt) = Inr (setReceiptHash s)"
    and "setTotalLength s = totalRequiredLength candidates (setObligations s)"
  using assms unfolding selectRoadServiceObligations_def Let_def
  by (auto simp: bindR_eq_Inr split: prod.splits)

lemma selection_facts:
  assumes run: "selectRoadServiceObligations sha geometryHash select validateManual request = Inr (receipt, s)"
  shows "wellFormedSet sha (reqSnapshot request) s \<and> rcObligations receipt = setCount s \<and>
    documentHash sha (receiptJson receipt) = Inr (setReceiptHash s) \<and>
    (\<exists>candidates. int (length candidates) \<le> reqMaximum request \<and> rcCandidates receipt = int (length candidates) \<and>
       setTotalLength s = totalRequiredLength candidates (setObligations s) \<and>
       (if polMode (reqPolicy request) = MANUAL_OBLIGATIONS
        then validateManual request (map oblArcKey (case polManual (reqPolicy request) of None \<Rightarrow> [] | Some ms \<Rightarrow> ms)) = Inr candidates \<and>
          suppliedByHand request candidates (setObligations s)
        else select request = Inr candidates \<and> servesCandidates sha request candidates (setObligations s) \<and>
          (\<forall>obl \<in> set (setObligations s). 1 \<le> requiredPasses obl \<and> requiredPasses obl \<le> 10)))"
proof -
  obtain candidates obls h where p: "validateRequest request = Inr ()"
    "selectedObligations sha select validateManual request (defaultPolicyVersion (polVersion (reqPolicy request))) = Inr (candidates, obls)"
    "int (length candidates) \<le> reqMaximum request" "setObligations s = canonicalObligationLedger (dedupe obls)"
    "setObligations s \<noteq> []" "setCount s = int (length (setObligations s))" "setSnapshot s = reqSnapshot request"
    "obligationSetHash sha (setObligations s) = Inr h" "setId s = js ''obls_'' @ hashDigits h"
    "rcCandidates receipt = int (length candidates)" "rcObligations receipt = setCount s"
    "documentHash sha (receiptJson receipt) = Inr (setReceiptHash s)"
    "setTotalLength s = totalRequiredLength candidates (setObligations s)"
    using selection_parts [OF run] by blast
  have sub: "set (setObligations s) \<subseteq> set obls" "obligationId ` set (setObligations s) = obligationId ` set obls"
    using ledger_facts [of obls] dedupe_facts [of obls] p(4) by auto
  have source: "(if polMode (reqPolicy request) = MANUAL_OBLIGATIONS
        then validateManual request (map oblArcKey (case polManual (reqPolicy request) of None \<Rightarrow> [] | Some ms \<Rightarrow> ms)) = Inr candidates \<and>
          suppliedByHand request candidates (setObligations s)
        else select request = Inr candidates \<and> servesCandidates sha request candidates (setObligations s)) \<and>
      (\<forall>obl \<in> set obls. authentic sha (reqSnapshot request) obl)"
    using selected_manual [OF p(2) _ sub(1)] selected_automatic [OF p(2) _ sub] by (auto split: if_splits)
  have "1 \<le> requiredPasses obl \<and> requiredPasses obl \<le> 10"
    if "servesCandidates sha request candidates (setObligations s)" "obl \<in> set (setObligations s)" for obl
    using that validateRequest_ok [OF p(1)] unfolding servesCandidates_def wholeCandidate_def by metis
  moreover have "wellFormedSet sha (reqSnapshot request) s"
    using p(4-9) source sub(1) ledger_facts [of obls] canonicalLedger_sorted [of "dedupe obls"] unfolding wellFormedSet_def by auto
  ultimately show ?thesis using source p(3,10-13) by auto
qed

section \<open>Property\<close>

text \<open>
  C10. A selection yields a well-formed set.  Whatever \<open>selectRoadServiceObligations\<close> returns, the set is not
  empty, its obligations have distinct names, stand in canonical order, are authentic under the pinned
  snapshot and are named by their digest, so that \<open>problem.ts\<close> takes the set unchanged; the counts of the
  receipt are right and the candidates are within the bound.  Each obligation is a whole candidate of the
  repository with one to ten passes, and with a fixed direction every stretch of road is served by exactly
  one arc; obligations supplied by hand lie on an arc of the pinned graph, within its fractions.
\<close>

theorem selection_well_formed:
  assumes "selectRoadServiceObligations sha geometryHash select validateManual request = Inr (receipt, s)"
  shows "wellFormedSet sha (reqSnapshot request) s \<and> normalizeObligationSet sha (reqSnapshot request) s = Inr s \<and>
    rcObligations receipt = setCount s \<and> documentHash sha (receiptJson receipt) = Inr (setReceiptHash s) \<and>
    (\<exists>candidates. int (length candidates) \<le> reqMaximum request \<and> rcCandidates receipt = int (length candidates) \<and>
       setTotalLength s = totalRequiredLength candidates (setObligations s) \<and>
       (if polMode (reqPolicy request) = MANUAL_OBLIGATIONS
        then validateManual request (map oblArcKey (case polManual (reqPolicy request) of None \<Rightarrow> [] | Some ms \<Rightarrow> ms)) = Inr candidates \<and>
          suppliedByHand request candidates (setObligations s)
        else select request = Inr candidates \<and> servesCandidates sha request candidates (setObligations s) \<and>
          (\<forall>obl \<in> set (setObligations s). 1 \<le> requiredPasses obl \<and> requiredPasses obl \<le> 10)))"
  using selection_facts [OF assms] wellFormedSet_normal by blast

text \<open>Two arcs of one edge; the policy takes the forward one.\<close>

definition sampleCandidate :: "string \<Rightarrow> direction \<Rightarrow> selection_candidate" where
  "sampleCandidate k d = \<lparr>candGraphVersion = js ''g'', candEdgeKey = js ''e'', candArcKey = js k, candDirection = d,
     candOneway = BIDIRECTIONAL, candStart = 0, candEnd = WHOLE, candLength = 700, candFeatureId = js ''f''\<rparr>"

definition sampleRequest :: "unit road_request" where
  "sampleRequest = \<lparr>reqDataScope = js ''d'', reqDatasetScope = js ''s'', reqSnapshot = plainSnapshot, reqArea = AreaGeometry (),
     reqResolved = None, reqPolicy = \<lparr>polMode = FULLY_COVERED_EDGE, polService = FIXED_SERVICE, polSource = Some APPROVED_POLICY,
       polPasses = 2, polMinimumLength = 0, polTolerance = None, polVersion = None, polManual = None\<rparr>, reqMaximum = 5\<rparr>"

lemma supported_receipt [simp]: "supported (receiptJson r)"
  by (auto simp: receiptJson_def optionalEntry_def split: option.splits)

lemma selection_well_formed_witness:
  "\<exists>receipt s. selectRoadServiceObligations (\<lambda>_. []) (\<lambda>_. Inr []) (\<lambda>_. Inr [sampleCandidate ''b'' REVERSE, sampleCandidate ''a'' FORWARD])
      (\<lambda>_ _. Inr []) sampleRequest = Inr (receipt, s) \<and> wellFormedSet (\<lambda>_. []) plainSnapshot s \<and>
      map oblArcKey (setObligations s) = [js ''a''] \<and> setTotalLength s = 1400"
proof -
  have chosen: "chooseDirections [sampleCandidate ''b'' REVERSE, sampleCandidate ''a'' FORWARD] FIXED_SERVICE (Some APPROVED_POLICY) =
      Inr [sampleCandidate ''a'' FORWARD]" by code_simp
  obtain obl where obl: "candidateObligation (\<lambda>_. []) sampleRequest (js ''coverage-selection/1.0'') (sampleCandidate ''a'' FORWARD) = Inr obl"
      "oblArcKey obl = js ''a''" "oblStart obl = 0" "oblEnd obl = WHOLE" "requiredPasses obl = 2"
    by (simp add: candidateObligation_def buildRoadServiceObligation_def constantHash candidateIdentity_def sampleCandidate_def sampleRequest_def)
  have total: "totalRequiredLength [sampleCandidate ''b'' REVERSE, sampleCandidate ''a'' FORWARD] [obl] = 1400"
    using obl by (simp add: totalRequiredLength_def obligationLength_def sampleCandidate_def intervalText_def)
  obtain receipt s where run: "selectRoadServiceObligations (\<lambda>_. []) (\<lambda>_. Inr [])
      (\<lambda>_. Inr [sampleCandidate ''b'' REVERSE, sampleCandidate ''a'' FORWARD]) (\<lambda>_ _. Inr []) sampleRequest = Inr (receipt, s)"
      "setObligations s = [obl]" "setTotalLength s = 1400"
    using chosen obl(1) total
    by (simp add: selectRoadServiceObligations_def selectedObligations_def validateRequest_def Let_def sampleRequest_def
      isSafeInteger_def maxSafeInteger_def areaGeometry_def areaDigest_def dedupe_def lastPerKey_def canonicalObligationLedger_def
      obligationSetHash_def constantHash defaultPolicyVersion_def js_def)
  have "wellFormedSet (\<lambda>_. []) plainSnapshot s" using selection_well_formed [OF run(1)] by (simp add: sampleRequest_def)
  then show ?thesis using run obl(2) by force
qed

end
