(* ===== verification/EndpointResolution.thy ===== *)
theory EndpointResolution
  imports
  ObligationLedger
  KeyedLists
begin

text \<open>
  Where a coverage route starts, ends and crosses the boundary of its area:
  \<open>road-coverage-planning-core/src/endpoint.ts\<close>.  A location or a supplied boundary state is resolved
  to one directed state of the pinned graph, or refused.

  The repository is a record of functions, one per method, of any implementation; a call may reject.
  Positions and areas hold floating-point coordinates that this file only passes on, so they are of any
  type.  Evidence is a JSON document.
\<close>

section \<open>Data\<close>

datatype 'p location = LocPosition 'p | LocReference versioned_reference | LocState directed_state

datatype crossing_kind = ENTRY | EXIT

datatype boundary_mode = AUTO | CANDIDATE_SET | FIXED

record endpoint_candidate =
  ecState :: directed_state
  ecDistance :: int
  ecEvidence :: "int json"

record boundary_policy =
  bpMaximum :: "int option"
  bpMode :: boundary_mode
  bpStates :: "directed_state list option"

record 'p endpoint_policy =
  epCrossing :: crossing_policy
  epMode :: endpoint_mode
  epEntry :: boundary_policy
  epExit :: boundary_policy
  epFixedEnd :: "'p location option"
  epTolerance :: int
  epStart :: "'p location"

record ('p, 'g) endpoint_repository =
  resolveLocation :: "'p location \<Rightarrow> routing_snapshot \<Rightarrow> js_string \<Rightarrow> js_string \<Rightarrow> int \<Rightarrow> int \<Rightarrow>
    coverage_error + endpoint_candidate list"
  boundaryCandidates :: "'g \<Rightarrow> routing_snapshot \<Rightarrow> js_string \<Rightarrow> js_string \<Rightarrow> crossing_kind \<Rightarrow> int \<Rightarrow>
    coverage_error + endpoint_candidate list"

record ('p, 'g) endpoint_input =
  eiDataScope :: js_string
  eiDatasetScope :: js_string
  eiSnapshot :: routing_snapshot
  eiArea :: 'g
  eiPolicy :: "'p endpoint_policy"

record resolved_endpoints =
  reStart :: directed_state
  reFixedEnd :: "directed_state option"
  reEntries :: "directed_state list"
  reExits :: "directed_state list"
  reMode :: endpoint_mode
  reCrossing :: crossing_policy
  reReceiptHash :: js_string
  reEvidence :: "int json list"

record crossing_event =
  beSequence :: int
  beKind :: crossing_kind
  beState :: directed_state

section \<open>Candidates\<close>

definition directedStateKey :: "directed_state \<Rightarrow> js_string" where
  "directedStateKey s = stateArcKey s @ js '':'' @ intText (stateFraction s) @ js '':'' @ directionText (stateDirection s)"

definition compareEndpointCandidates :: "endpoint_candidate \<Rightarrow> endpoint_candidate \<Rightarrow> int" where
  "compareEndpointCandidates left right =
     orElse (ecDistance left - ecDistance right)
       (compareUnicodeCodePoints (directedStateKey (ecState left)) (directedStateKey (ecState right)))"

definition canonicalCandidates :: "endpoint_candidate list \<Rightarrow> endpoint_candidate list" where
  "canonicalCandidates candidates =
     sort_by compareEndpointCandidates (lastPerKey (\<lambda>c. directedStateKey (ecState c)) candidates)"

section \<open>Resolution\<close>

definition resolveUnique ::
  "('p, 'g) endpoint_repository \<Rightarrow> 'p location \<Rightarrow> ('p, 'g) endpoint_input \<Rightarrow> coverage_error + endpoint_candidate" where
  "resolveUnique repository location input =
     bindR (resolveLocation repository location (eiSnapshot input) (eiDataScope input) (eiDatasetScope input)
       (epTolerance (eiPolicy input)) 2) (\<lambda>found.
     let candidates = filter (\<lambda>c. ecDistance c \<le> epTolerance (eiPolicy input)) (canonicalCandidates found) in
     (case candidates of
        [] \<Rightarrow> Inl (Planning UNREACHABLE)
      | [first] \<Rightarrow> Inr first
      | first # second # _ \<Rightarrow>
        if ecDistance second = ecDistance first \<and> directedStateKey (ecState second) \<noteq> directedStateKey (ecState first)
        then Inl (Planning AMBIGUOUS_LOCATION) else Inr first))"

text \<open>One supplied state: the repository has to answer with just that position.\<close>

definition suppliedState ::
  "('p, 'g) endpoint_repository \<Rightarrow> ('p, 'g) endpoint_input \<Rightarrow> directed_state \<Rightarrow> coverage_error + endpoint_candidate" where
  "suppliedState repository input state =
     bindR (resolveLocation repository (LocState state) (eiSnapshot input) (eiDataScope input) (eiDatasetScope input) 0 1)
       (\<lambda>resolved. case resolved of
          [only] \<Rightarrow> if directedStateKey (ecState only) = directedStateKey state then Inr only else Inl (Planning UNREACHABLE)
        | _ \<Rightarrow> Inl (Planning UNREACHABLE))"

definition boundaryMaximum :: "boundary_policy \<Rightarrow> int" where
  "boundaryMaximum policy = (case bpMaximum policy of None \<Rightarrow> 8 | Some n \<Rightarrow> n)"

definition suppliedStates :: "boundary_policy \<Rightarrow> directed_state list" where
  "suppliedStates policy = (case bpStates policy of None \<Rightarrow> [] | Some states \<Rightarrow> states)"

definition boundaryChoices ::
  "('p, 'g) endpoint_repository \<Rightarrow> ('p, 'g) endpoint_input \<Rightarrow> crossing_kind \<Rightarrow> boundary_policy \<Rightarrow>
     coverage_error + endpoint_candidate list" where
  "boundaryChoices repository input kind policy =
     (if bpMode policy = AUTO
      then boundaryCandidates repository (eiArea input) (eiSnapshot input) (eiDataScope input) (eiDatasetScope input) kind
        (boundaryMaximum policy + 1)
      else bindR (ensureR (\<not> (bpMode policy = FIXED \<and> length (suppliedStates policy) \<noteq> 1)) (Planning INVALID_SELECTION_POLICY))
        (\<lambda>_. mapR (suppliedState repository input) (suppliedStates policy)))"

definition resolveBoundary ::
  "('p, 'g) endpoint_repository \<Rightarrow> ('p, 'g) endpoint_input \<Rightarrow> crossing_kind \<Rightarrow> boundary_policy \<Rightarrow>
     coverage_error + endpoint_candidate list" where
  "resolveBoundary repository input kind policy =
     bindR (boundaryChoices repository input kind policy) (\<lambda>candidates.
     let canonical = canonicalCandidates candidates in
     bindR (ensureR (int (length canonical) \<le> boundaryMaximum policy) (Planning RESOURCE_EXHAUSTED)) (\<lambda>_.
     bindR (ensureR (\<not> (canonical = [] \<and> bpMode policy \<noteq> AUTO)) (Planning UNREACHABLE)) (\<lambda>_.
     Inr canonical)))"

definition resolutionReceipt ::
  "('p, 'g) endpoint_input \<Rightarrow> endpoint_candidate \<Rightarrow> endpoint_candidate option \<Rightarrow> endpoint_candidate list \<Rightarrow>
     endpoint_candidate list \<Rightarrow> int json list \<Rightarrow> int json" where
  "resolutionReceipt input start fixedEnd entries exits evidence = JObj (
     [(js ''routingSnapshot'', snapshotJson (eiSnapshot input)), (js ''startState'', stateJson (ecState start))] @
     optionalEntry ''fixedEndState'' (map_option (\<lambda>c. stateJson (ecState c)) fixedEnd) @
     [(js ''entryStates'', JArr (map (\<lambda>c. stateJson (ecState c)) entries)),
      (js ''exitStates'', JArr (map (\<lambda>c. stateJson (ecState c)) exits)),
      (js ''endpointMode'', JStr (endpointModeText (epMode (eiPolicy input)))),
      (js ''boundaryCrossingPolicy'', JStr (crossingText (epCrossing (eiPolicy input)))),
      (js ''snapToleranceMm'', JNum (epTolerance (eiPolicy input))), (js ''evidence'', JArr evidence)])"

definition resolveFixedEnd ::
  "('p, 'g) endpoint_repository \<Rightarrow> ('p, 'g) endpoint_input \<Rightarrow> coverage_error + endpoint_candidate option" where
  "resolveFixedEnd repository input =
     (case epFixedEnd (eiPolicy input) of None \<Rightarrow> Inr None
      | Some location \<Rightarrow> map_sum id Some (resolveUnique repository location input))"

definition resolveCoverageEndpoints ::
  "(js_string \<Rightarrow> js_string) \<Rightarrow> ('p, 'g) endpoint_repository \<Rightarrow> ('p, 'g) endpoint_input \<Rightarrow> coverage_error + resolved_endpoints" where
  "resolveCoverageEndpoints sha repository input =
     (let policy = eiPolicy input in
      bindR (resolveUnique repository (epStart policy) input) (\<lambda>start.
      bindR (resolveFixedEnd repository input) (\<lambda>fixedEnd.
      bindR (ensureR (\<not> (epMode policy = FIXED_END \<and> fixedEnd = None)) (Planning INVALID_SELECTION_POLICY)) (\<lambda>_.
      bindR (ensureR (\<not> (epMode policy \<noteq> FIXED_END \<and> fixedEnd \<noteq> None)) (Planning INVALID_SELECTION_POLICY)) (\<lambda>_.
      bindR (resolveBoundary repository input ENTRY (epEntry policy)) (\<lambda>entries.
      bindR (resolveBoundary repository input EXIT (epExit policy)) (\<lambda>exits.
      let evidence = [ecEvidence start] @ (case fixedEnd of None \<Rightarrow> [] | Some c \<Rightarrow> [ecEvidence c]) @
            map ecEvidence entries @ map ecEvidence exits in
      bindR (map_sum NotSerializable id (contractSha256 sha (resolutionReceipt input start fixedEnd entries exits evidence)))
        (\<lambda>receiptHash.
      Inr \<lparr>reStart = ecState start, reFixedEnd = map_option ecState fixedEnd,
        reEntries = map ecState (canonicalCandidates entries), reExits = map ecState (canonicalCandidates exits),
        reMode = epMode policy, reCrossing = epCrossing policy, reReceiptHash = receiptHash, reEvidence = evidence\<rparr>))))))))"

section \<open>The boundary policy\<close>

datatype endpoint_violation =
    START_STATE_MISMATCH
  | RETURN_TO_START_MISMATCH
  | FIXED_END_MISMATCH
  | LAST_AREA_EXIT_MISMATCH
  | FIRST_ENTRY_ONLY_VIOLATION
  | ENTRY_SET_ONLY_VIOLATION
  | NO_REENTRY_VIOLATION

definition orderedEvents :: "crossing_event list \<Rightarrow> crossing_event list" where
  "orderedEvents events = sort_by (\<lambda>left right. beSequence left - beSequence right) events"

definition samePosition :: "directed_state \<Rightarrow> directed_state \<Rightarrow> bool" where
  "samePosition s t \<longleftrightarrow> directedStateKey s = directedStateKey t"

definition endpointViolations :: "resolved_endpoints \<Rightarrow> directed_state \<Rightarrow> directed_state \<Rightarrow> crossing_event list \<Rightarrow> endpoint_violation list" where
  "endpointViolations resolved routeStart routeEnd exits =
     (if \<not> samePosition routeStart (reStart resolved) then [START_STATE_MISMATCH] else []) @
     (if reMode resolved = RETURN_TO_START \<and> \<not> samePosition routeEnd (reStart resolved) then [RETURN_TO_START_MISMATCH] else []) @
     (if reMode resolved = FIXED_END \<and> (case reFixedEnd resolved of None \<Rightarrow> True | Some e \<Rightarrow> \<not> samePosition routeEnd e)
      then [FIXED_END_MISMATCH] else []) @
     (if reMode resolved = LAST_AREA_EXIT \<and> (exits = [] \<or> \<not> samePosition routeEnd (beState (last exits)))
      then [LAST_AREA_EXIT_MISMATCH] else [])"

definition crossingViolations :: "resolved_endpoints \<Rightarrow> crossing_event list \<Rightarrow> endpoint_violation list" where
  "crossingViolations resolved ordered =
     (let entries = filter (\<lambda>e. beKind e = ENTRY) ordered in
      (if reCrossing resolved = FIRST_ENTRY_ONLY \<and> length entries \<noteq> 1 then [FIRST_ENTRY_ONLY_VIOLATION] else []) @
      (if reCrossing resolved = ENTRY_SET_ONLY \<and>
          list_ex (\<lambda>e. directedStateKey (beState e) \<notin> set (map directedStateKey (reEntries resolved))) entries
       then [ENTRY_SET_ONLY_VIOLATION] else []) @
      (if reCrossing resolved = NO_REENTRY \<and>
          list_ex (\<lambda>e. beKind e = ENTRY) (drop 1 (dropWhile (\<lambda>e. beKind e \<noteq> EXIT) ordered))
       then [NO_REENTRY_VIOLATION] else []))"

definition verifyEndpointAndBoundaryPolicy ::
  "resolved_endpoints \<Rightarrow> directed_state \<Rightarrow> directed_state \<Rightarrow> crossing_event list \<Rightarrow> bool \<times> endpoint_violation list" where
  "verifyEndpointAndBoundaryPolicy resolved routeStart routeEnd events =
     (let ordered = orderedEvents events;
          violations = endpointViolations resolved routeStart routeEnd (filter (\<lambda>e. beKind e = EXIT) ordered) @
            crossingViolations resolved ordered in
      (violations = [], violations))"

section \<open>Positions\<close>

lemma directionText_inject: "directionText d = directionText e \<Longrightarrow> d = e"
  by (cases d; cases e) (simp_all add: js_def)

lemma directionText_colon: "58 \<notin> set (directionText d)"
  by (cases d) (simp_all add: js_def)

lemma intText_colon: "58 \<notin> set (intText n)"
  using intText_units [of n] by (auto simp: digitUnits_def)

text \<open>Two states have one key exactly when they agree in arc, fraction and direction.\<close>

lemma directedStateKey_eq:
  "directedStateKey s = directedStateKey t \<longleftrightarrow>
     stateArcKey s = stateArcKey t \<and> stateFraction s = stateFraction t \<and> stateDirection s = stateDirection t"
proof
  assume eq: "directedStateKey s = directedStateKey t"
  have "(stateArcKey s @ 58 # intText (stateFraction s)) @ 58 # directionText (stateDirection s) =
      (stateArcKey t @ 58 # intText (stateFraction t)) @ 58 # directionText (stateDirection t)"
    using eq by (simp add: directedStateKey_def js_def)
  from split_at_last [OF this directionText_colon directionText_colon]
  have parts: "stateArcKey s @ 58 # intText (stateFraction s) = stateArcKey t @ 58 # intText (stateFraction t)"
    "directionText (stateDirection s) = directionText (stateDirection t)" by blast+
  from split_at_last [OF parts(1) intText_colon intText_colon]
  show "stateArcKey s = stateArcKey t \<and> stateFraction s = stateFraction t \<and> stateDirection s = stateDirection t"
    using parts(2) directionText_inject integer_format.num_inject by blast
qed (simp add: directedStateKey_def)

interpretation candidate_order: js_order compareEndpointCandidates
  unfolding compareEndpointCandidates_def by (intro order_intros)

abbreviation latest :: "endpoint_candidate list \<Rightarrow> endpoint_candidate list" where
  "latest candidates \<equiv> lastPerKey (\<lambda>c. directedStateKey (ecState c)) candidates"

lemma canonical_set [simp]: "set (canonicalCandidates cs) = set (latest cs)"
  by (simp add: canonicalCandidates_def)

lemma canonical_eq_Nil [simp]: "canonicalCandidates cs = [] \<longleftrightarrow> cs = []"
  by (simp add: canonicalCandidates_def)

lemma canonical_Nil [simp]: "canonicalCandidates [] = []"
  by (simp add: canonicalCandidates_def)

lemma canonical_sorted: "sorted_by compareEndpointCandidates (canonicalCandidates cs)"
  unfolding canonicalCandidates_def by (rule candidate_order.sorted_sort_by)

lemma canonical_keys: "distinct (map (\<lambda>c. directedStateKey (ecState c)) (canonicalCandidates cs))"
proof -
  have "mset (map (\<lambda>c. directedStateKey (ecState c)) (canonicalCandidates cs)) = mset (map (\<lambda>c. directedStateKey (ecState c)) (latest cs))"
    by (simp add: canonicalCandidates_def)
  then show ?thesis using lastPerKey_distinct mset_eq_imp_distinct_iff by blast
qed

lemma compareEndpoint_distance: "compareEndpointCandidates c d \<le> 0 \<Longrightarrow> ecDistance c \<le> ecDistance d"
  by (auto simp: compareEndpointCandidates_def orElse_def split: if_splits)

section \<open>The nearest position\<close>

text \<open>The candidates within the tolerance than which none is nearer.\<close>

definition nearestCandidates :: "int \<Rightarrow> endpoint_candidate list \<Rightarrow> endpoint_candidate set" where
  "nearestCandidates tolerance found =
     {c \<in> set (latest found). ecDistance c \<le> tolerance \<and> (\<forall>d \<in> set (latest found). ecDistance c \<le> ecDistance d)}"

lemma nearestCandidates_subset: "nearestCandidates tolerance found \<subseteq> set found"
  using lastPerKey_subset unfolding nearestCandidates_def by fast

definition tied :: "endpoint_candidate set \<Rightarrow> bool" where
  "tied cs \<longleftrightarrow> (\<exists>c \<in> cs. \<exists>d \<in> cs. c \<noteq> d)"

lemma nearest_of_sorted:
  assumes "sorted_by compareEndpointCandidates xs" and "filter (\<lambda>c. ecDistance c \<le> tolerance) xs = first # rest"
  shows "{c \<in> set xs. ecDistance c \<le> tolerance \<and> (\<forall>d \<in> set xs. ecDistance c \<le> ecDistance d)} =
    {c \<in> set (first # rest). ecDistance c = ecDistance first}"
proof -
  let ?f = "filter (\<lambda>c. ecDistance c \<le> tolerance) xs"
  have "sorted_wrt (\<lambda>x y. compareEndpointCandidates x y \<le> 0) ?f"
    using assms(1) unfolding sorted_by_def by (rule sorted_wrt_filter)
  then have least: "ecDistance first \<le> ecDistance d" if "d \<in> set (first # rest)" for d
    using that compareEndpoint_distance unfolding assms(2) by auto
  have mem: "set (first # rest) = {c \<in> set xs. ecDistance c \<le> tolerance}" using arg_cong [OF assms(2), of set] by simp
  have f: "first \<in> set xs" "ecDistance first \<le> tolerance" using mem by auto
  have all: "ecDistance first \<le> ecDistance d" if "d \<in> set xs" for d
    using least [of d] mem that f(2) by (cases "ecDistance d \<le> tolerance") auto
  show ?thesis unfolding mem using all f by (auto intro: order_antisym)
qed

lemma resolveUnique_cases:
  assumes "resolveLocation repository location (eiSnapshot input) (eiDataScope input) (eiDatasetScope input)
      (epTolerance (eiPolicy input)) 2 = Inr found"
  shows "case resolveUnique repository location input of
      Inl e \<Rightarrow> (e = Planning UNREACHABLE \<and> nearestCandidates (epTolerance (eiPolicy input)) found = {}) \<or>
        (e = Planning AMBIGUOUS_LOCATION \<and> tied (nearestCandidates (epTolerance (eiPolicy input)) found))
    | Inr c \<Rightarrow> nearestCandidates (epTolerance (eiPolicy input)) found = {c}"
proof -
  let ?tol = "epTolerance (eiPolicy input)"
  let ?f = "filter (\<lambda>c. ecDistance c \<le> ?tol) (canonicalCandidates found)"
  have near: "nearestCandidates ?tol found = {c \<in> set (canonicalCandidates found). ecDistance c \<le> ?tol \<and>
      (\<forall>d \<in> set (canonicalCandidates found). ecDistance c \<le> ecDistance d)}" by (simp add: nearestCandidates_def)
  have keys: "distinct (map (\<lambda>c. directedStateKey (ecState c)) ?f)" using canonical_keys by (rule distinct_map_filter)
  consider "?f = []" | first where "?f = [first]" | first second rest where "?f = first # second # rest"
    by (cases ?f rule: remdups_adj.cases) auto
  then show ?thesis
  proof cases
    case 1
    then have "nearestCandidates ?tol found = {}" unfolding near by (auto simp: filter_empty_conv)
    then show ?thesis using 1 assms by (simp add: resolveUnique_def)
  next
    case (2 first)
    then have "nearestCandidates ?tol found = {first}" unfolding near nearest_of_sorted [OF canonical_sorted 2] by auto
    then show ?thesis using 2 assms by (simp add: resolveUnique_def)
  next
    case (3 first second rest)
    have n: "nearestCandidates ?tol found = {c \<in> set (first # second # rest). ecDistance c = ecDistance first}"
      unfolding near nearest_of_sorted [OF canonical_sorted 3] ..
    have apart: "directedStateKey (ecState second) \<noteq> directedStateKey (ecState first)" using keys unfolding 3 by auto
    have "sorted_wrt (\<lambda>x y. compareEndpointCandidates x y \<le> 0) ?f"
      using canonical_sorted unfolding sorted_by_def by (rule sorted_wrt_filter)
    then have later: "ecDistance second \<le> ecDistance d" if "d \<in> set rest" for d
      using that compareEndpoint_distance unfolding 3 by auto
    have first_le: "ecDistance first \<le> ecDistance second"
      using \<open>sorted_wrt _ ?f\<close> compareEndpoint_distance unfolding 3 by auto
    show ?thesis
    proof (cases "ecDistance second = ecDistance first")
      case True
      then have "tied (nearestCandidates ?tol found)" unfolding n tied_def using apart by (intro bexI [of _ first] bexI [of _ second]) auto
      then show ?thesis using 3 True apart assms by (auto simp: resolveUnique_def)
    next
      case False
      then have "nearestCandidates ?tol found = {first}" unfolding n using later first_le by force
      then show ?thesis using 3 False assms by (simp add: resolveUnique_def)
    qed
  qed
qed

section \<open>The boundary\<close>

text \<open>
  A repository that answers: \<open>near\<close> and \<open>crossing\<close> are its replies for the pinned snapshot and scopes.
\<close>

definition answers ::
  "('p, 'g) endpoint_repository \<Rightarrow> ('p, 'g) endpoint_input \<Rightarrow> ('p location \<Rightarrow> int \<Rightarrow> int \<Rightarrow> endpoint_candidate list) \<Rightarrow>
     (crossing_kind \<Rightarrow> int \<Rightarrow> endpoint_candidate list) \<Rightarrow> bool" where
  "answers repository input near crossing \<longleftrightarrow>
     (\<forall>l t n. resolveLocation repository l (eiSnapshot input) (eiDataScope input) (eiDatasetScope input) t n = Inr (near l t n) \<and>
        (\<forall>c \<in> set (near l t n). supported (ecEvidence c))) \<and>
     (\<forall>k n. boundaryCandidates repository (eiArea input) (eiSnapshot input) (eiDataScope input) (eiDatasetScope input) k n =
        Inr (crossing k n) \<and> (\<forall>c \<in> set (crossing k n). supported (ecEvidence c)))"

definition confirmed :: "('p location \<Rightarrow> int \<Rightarrow> int \<Rightarrow> endpoint_candidate list) \<Rightarrow> directed_state \<Rightarrow> bool" where
  "confirmed near state \<longleftrightarrow> (\<exists>c. near (LocState state) 0 1 = [c] \<and> samePosition (ecState c) state)"

text \<open>The positions where the boundary may be crossed.\<close>

definition boundaryPositions ::
  "(crossing_kind \<Rightarrow> int \<Rightarrow> endpoint_candidate list) \<Rightarrow> crossing_kind \<Rightarrow> boundary_policy \<Rightarrow> js_string set" where
  "boundaryPositions crossing kind policy =
     directedStateKey ` (if bpMode policy = AUTO then ecState ` set (crossing kind (boundaryMaximum policy + 1))
       else set (suppliedStates policy))"

definition boundaryFault ::
  "('p location \<Rightarrow> int \<Rightarrow> int \<Rightarrow> endpoint_candidate list) \<Rightarrow> (crossing_kind \<Rightarrow> int \<Rightarrow> endpoint_candidate list) \<Rightarrow>
     crossing_kind \<Rightarrow> boundary_policy \<Rightarrow> coverage_code \<Rightarrow> bool" where
  "boundaryFault near crossing kind policy code \<longleftrightarrow>
     code = INVALID_SELECTION_POLICY \<and> bpMode policy = FIXED \<and> length (suppliedStates policy) \<noteq> 1 \<or>
     code = UNREACHABLE \<and> bpMode policy \<noteq> AUTO \<and>
       (suppliedStates policy = [] \<or> (\<exists>s \<in> set (suppliedStates policy). \<not> confirmed near s)) \<or>
     code = RESOURCE_EXHAUSTED \<and> boundaryMaximum policy < int (card (boundaryPositions crossing kind policy))"

definition boundaryRight ::
  "(crossing_kind \<Rightarrow> int \<Rightarrow> endpoint_candidate list) \<Rightarrow> crossing_kind \<Rightarrow> boundary_policy \<Rightarrow> directed_state list \<Rightarrow> bool" where
  "boundaryRight crossing kind policy states \<longleftrightarrow>
     distinct (map directedStateKey states) \<and> directedStateKey ` set states = boundaryPositions crossing kind policy"

lemma suppliedState_cases:
  assumes "answers repository input near crossing"
  shows "case suppliedState repository input s of
      Inl e \<Rightarrow> e = Planning UNREACHABLE \<and> \<not> confirmed near s
    | Inr c \<Rightarrow> confirmed near s \<and> samePosition (ecState c) s \<and> supported (ecEvidence c)"
proof -
  have a: "resolveLocation repository (LocState s) (eiSnapshot input) (eiDataScope input) (eiDatasetScope input) 0 1 =
      Inr (near (LocState s) 0 1)" "\<forall>c \<in> set (near (LocState s) 0 1). supported (ecEvidence c)"
    using assms unfolding answers_def by blast+
  then show ?thesis
    by (cases "near (LocState s) 0 1" rule: remdups_adj.cases)
      (auto simp: suppliedState_def confirmed_def samePosition_def a(1))
qed

lemma boundaryChoices_cases:
  assumes "answers repository input near crossing"
  shows "case boundaryChoices repository input kind policy of
      Inl e \<Rightarrow> \<exists>code. e = Planning code \<and> boundaryFault near crossing kind policy code
    | Inr cs \<Rightarrow> (\<lambda>c. directedStateKey (ecState c)) ` set cs = boundaryPositions crossing kind policy \<and>
        (\<forall>c \<in> set cs. supported (ecEvidence c)) \<and> \<not> boundaryFault near crossing kind policy INVALID_SELECTION_POLICY \<and>
        (bpMode policy \<noteq> AUTO \<longrightarrow> (\<forall>s \<in> set (suppliedStates policy). confirmed near s))"
proof (cases "bpMode policy = AUTO")
  case True
  have "boundaryChoices repository input kind policy = Inr (crossing kind (boundaryMaximum policy + 1))"
    "\<forall>c \<in> set (crossing kind (boundaryMaximum policy + 1)). supported (ecEvidence c)"
    using assms True unfolding answers_def boundaryChoices_def by auto
  then show ?thesis using True by (simp add: boundaryPositions_def boundaryFault_def image_image)
next
  case False
  show ?thesis
  proof (cases "bpMode policy = FIXED \<and> length (suppliedStates policy) \<noteq> 1")
    case True
    then show ?thesis using False by (auto simp: boundaryChoices_def boundaryFault_def)
  next
    case single: False
    then have run: "boundaryChoices repository input kind policy = mapR (suppliedState repository input) (suppliedStates policy)"
      using False by (simp add: boundaryChoices_def)
    show ?thesis
    proof (cases "mapR (suppliedState repository input) (suppliedStates policy)")
      case (Inl e)
      obtain s where s: "s \<in> set (suppliedStates policy)" "suppliedState repository input s = Inl e"
        using mapR_Inl [OF Inl] by blast
      then have "e = Planning UNREACHABLE \<and> \<not> confirmed near s" using suppliedState_cases [OF assms, of s] by simp
      then show ?thesis using Inl run s(1) False by (auto simp: boundaryFault_def)
    next
      case (Inr cs)
      have pairs: "list_all2 (\<lambda>s c. confirmed near s \<and> directedStateKey (ecState c) = directedStateKey s \<and> supported (ecEvidence c))
          (suppliedStates policy) cs"
      proof (rule list_all2_mono)
        show "list_all2 (\<lambda>s c. suppliedState repository input s = Inr c) (suppliedStates policy) cs"
          using Inr by (simp add: mapR_Inr_iff)
        fix s c assume "suppliedState repository input s = Inr c"
        then show "confirmed near s \<and> directedStateKey (ecState c) = directedStateKey s \<and> supported (ecEvidence c)"
          using suppliedState_cases [OF assms, of s] by (simp add: samePosition_def)
      qed
      then have "map (\<lambda>c. directedStateKey (ecState c)) cs = map directedStateKey (suppliedStates policy)"
        "\<forall>s \<in> set (suppliedStates policy). confirmed near s" "\<forall>c \<in> set cs. supported (ecEvidence c)"
        by (induction rule: list_all2_induct) auto
      then show ?thesis using Inr run single False
        by (auto simp: boundaryPositions_def boundaryFault_def simp flip: set_map)
    qed
  qed
qed

lemma resolveBoundary_cases:
  assumes "answers repository input near crossing"
  shows "case resolveBoundary repository input kind policy of
      Inl e \<Rightarrow> \<exists>code. e = Planning code \<and> boundaryFault near crossing kind policy code
    | Inr cs \<Rightarrow> boundaryRight crossing kind policy (map ecState cs) \<and> sorted_by compareEndpointCandidates cs \<and>
        (\<forall>c \<in> set cs. supported (ecEvidence c)) \<and> (\<forall>code. \<not> boundaryFault near crossing kind policy code)"
proof (cases "boundaryChoices repository input kind policy")
  case (Inl e)
  then show ?thesis using boundaryChoices_cases [OF assms, of kind policy] by (simp add: resolveBoundary_def)
next
  case (Inr cs)
  let ?key = "\<lambda>c. directedStateKey (ecState c)"
  let ?canon = "canonicalCandidates cs"
  note c = boundaryChoices_cases [OF assms, of kind policy, unfolded Inr sum.case]
  have keys: "?key ` set ?canon = boundaryPositions crossing kind policy"
    using c lastPerKey_keys [of ?key cs] by simp
  have len: "length ?canon = card (boundaryPositions crossing kind policy)"
    using distinct_card [OF canonical_keys [of cs]] keys by simp
  have sup: "\<forall>x \<in> set ?canon. supported (ecEvidence x)" using c lastPerKey_subset [of ?key cs] by auto
  consider "boundaryMaximum policy < int (length ?canon)" | "int (length ?canon) \<le> boundaryMaximum policy" "?canon = []" "bpMode policy \<noteq> AUTO"
    | "int (length ?canon) \<le> boundaryMaximum policy" "?canon = [] \<longrightarrow> bpMode policy = AUTO" by linarith
  then show ?thesis
  proof cases
    case 1
    then show ?thesis using Inr len by (simp add: resolveBoundary_def boundaryFault_def)
  next
    case 2
    then have "suppliedStates policy = []" using keys by (auto simp: boundaryPositions_def)
    then show ?thesis using 2 Inr by (simp add: resolveBoundary_def boundaryFault_def)
  next
    case 3
    have "suppliedStates policy \<noteq> []" if "bpMode policy \<noteq> AUTO"
      using 3(2) that keys by (auto simp: boundaryPositions_def)
    then have no: "\<not> boundaryFault near crossing kind policy code" for code
      using c 3(1) len by (auto simp: boundaryFault_def)
    have right: "boundaryRight crossing kind policy (map ecState ?canon)"
      using canonical_keys [of cs] keys by (simp add: boundaryRight_def comp_def image_image)
    have "resolveBoundary repository input kind policy = Inr ?canon" using 3 Inr by (auto simp: resolveBoundary_def)
    then show ?thesis using no right sup canonical_sorted [of cs] by simp
  qed
qed

lemma canonical_again:
  assumes "distinct (map (\<lambda>c. directedStateKey (ecState c)) cs)"
  shows "set (canonicalCandidates cs) = set cs" and "length (canonicalCandidates cs) = length cs"
proof -
  show s: "set (canonicalCandidates cs) = set cs" using lastPerKey_id [OF assms] by simp
  have "distinct cs" "distinct (canonicalCandidates cs)" using assms canonical_keys [of cs] by (simp_all add: distinct_map)
  then show "length (canonicalCandidates cs) = length cs" using s by (metis distinct_card)
qed

lemma boundaryRight_canonical:
  assumes "boundaryRight crossing kind policy (map ecState cs)"
  shows "boundaryRight crossing kind policy (map ecState (canonicalCandidates cs))"
proof -
  have "distinct (map (\<lambda>c. directedStateKey (ecState c)) cs)" using assms by (simp add: boundaryRight_def comp_def)
  from canonical_again(1) [OF this] show ?thesis
    using assms canonical_keys [of cs] by (simp add: boundaryRight_def comp_def)
qed

section \<open>The endpoints\<close>

definition endLocations :: "('p, 'g) endpoint_input \<Rightarrow> 'p location set" where
  "endLocations input = insert (epStart (eiPolicy input)) (set_option (epFixedEnd (eiPolicy input)))"

definition nearestTo ::
  "('p location \<Rightarrow> int \<Rightarrow> int \<Rightarrow> endpoint_candidate list) \<Rightarrow> ('p, 'g) endpoint_input \<Rightarrow> 'p location \<Rightarrow> endpoint_candidate set" where
  "nearestTo near input location =
     nearestCandidates (epTolerance (eiPolicy input)) (near location (epTolerance (eiPolicy input)) 2)"

definition endpointFault ::
  "('p location \<Rightarrow> int \<Rightarrow> int \<Rightarrow> endpoint_candidate list) \<Rightarrow> (crossing_kind \<Rightarrow> int \<Rightarrow> endpoint_candidate list) \<Rightarrow>
     ('p, 'g) endpoint_input \<Rightarrow> coverage_code \<Rightarrow> bool" where
  "endpointFault near crossing input code \<longleftrightarrow>
     code = UNREACHABLE \<and> (\<exists>l \<in> endLocations input. nearestTo near input l = {}) \<or>
     code = AMBIGUOUS_LOCATION \<and> (\<exists>l \<in> endLocations input. tied (nearestTo near input l)) \<or>
     code = INVALID_SELECTION_POLICY \<and> (epMode (eiPolicy input) = FIXED_END) \<noteq> (epFixedEnd (eiPolicy input) \<noteq> None) \<or>
     boundaryFault near crossing ENTRY (epEntry (eiPolicy input)) code \<or>
     boundaryFault near crossing EXIT (epExit (eiPolicy input)) code"

definition endpointsRight ::
  "('p location \<Rightarrow> int \<Rightarrow> int \<Rightarrow> endpoint_candidate list) \<Rightarrow> (crossing_kind \<Rightarrow> int \<Rightarrow> endpoint_candidate list) \<Rightarrow>
     ('p, 'g) endpoint_input \<Rightarrow> resolved_endpoints \<Rightarrow> bool" where
  "endpointsRight near crossing input r \<longleftrightarrow>
     (\<exists>c. nearestTo near input (epStart (eiPolicy input)) = {c} \<and> reStart r = ecState c) \<and>
     (case epFixedEnd (eiPolicy input) of None \<Rightarrow> reFixedEnd r = None
      | Some l \<Rightarrow> \<exists>c. nearestTo near input l = {c} \<and> reFixedEnd r = Some (ecState c)) \<and>
     (epMode (eiPolicy input) = FIXED_END) = (reFixedEnd r \<noteq> None) \<and>
     reMode r = epMode (eiPolicy input) \<and> reCrossing r = epCrossing (eiPolicy input) \<and>
     boundaryRight crossing ENTRY (epEntry (eiPolicy input)) (reEntries r) \<and>
     boundaryRight crossing EXIT (epExit (eiPolicy input)) (reExits r)"

lemma resolveUnique_answers:
  assumes "answers repository input near crossing"
  shows "case resolveUnique repository location input of
      Inl e \<Rightarrow> (e = Planning UNREACHABLE \<and> nearestTo near input location = {}) \<or>
        (e = Planning AMBIGUOUS_LOCATION \<and> tied (nearestTo near input location))
    | Inr c \<Rightarrow> nearestTo near input location = {c} \<and> supported (ecEvidence c)"
proof -
  let ?tol = "epTolerance (eiPolicy input)"
  have a: "resolveLocation repository location (eiSnapshot input) (eiDataScope input) (eiDatasetScope input) ?tol 2 =
      Inr (near location ?tol 2)" "\<forall>c \<in> set (near location ?tol 2). supported (ecEvidence c)"
    using assms unfolding answers_def by blast+
  have "supported (ecEvidence c)" if "nearestTo near input location = {c}" for c
  proof -
    have "c \<in> nearestTo near input location" using that by simp
    then have "c \<in> set (near location ?tol 2)" unfolding nearestTo_def by (rule subsetD [OF nearestCandidates_subset])
    then show ?thesis using a(2) by blast
  qed
  then show ?thesis using resolveUnique_cases [OF a(1)] unfolding nearestTo_def [symmetric]
    by (cases "resolveUnique repository location input") simp_all
qed

lemma resolveUnique_fault:
  assumes "answers repository input near crossing" and "l \<in> endLocations input" and "resolveUnique repository l input = Inl e"
  shows "\<exists>code. e = Planning code \<and> endpointFault near crossing input code"
proof -
  have "(e = Planning UNREACHABLE \<and> nearestTo near input l = {}) \<or> (e = Planning AMBIGUOUS_LOCATION \<and> tied (nearestTo near input l))"
    using resolveUnique_answers [OF assms(1), of l] assms(3) by simp
  then show ?thesis using assms(2) unfolding endpointFault_def by blast
qed

lemma resolveFixedEnd_answers:
  assumes "answers repository input near crossing"
  shows "case resolveFixedEnd repository input of
      Inl e \<Rightarrow> \<exists>code. e = Planning code \<and> endpointFault near crossing input code
    | Inr None \<Rightarrow> epFixedEnd (eiPolicy input) = None
    | Inr (Some c) \<Rightarrow> \<exists>l. epFixedEnd (eiPolicy input) = Some l \<and> nearestTo near input l = {c} \<and> supported (ecEvidence c)"
proof (cases "epFixedEnd (eiPolicy input)")
  case (Some l)
  then have "l \<in> endLocations input" by (simp add: endLocations_def)
  then show ?thesis using Some resolveUnique_answers [OF assms, of l] resolveUnique_fault [OF assms, of l]
    by (cases "resolveUnique repository l input") (simp_all add: resolveFixedEnd_def)
qed (simp add: resolveFixedEnd_def)

lemma supported_resolution:
  assumes "\<forall>e \<in> set evidence. supported e"
  shows "supported (resolutionReceipt input start fixedEnd entries exits evidence)"
  using assms by (auto simp: resolutionReceipt_def optionalEntry_def split: option.splits)

lemma endpointResolution_cases:
  assumes "answers repository input near crossing"
  shows "case resolveCoverageEndpoints sha repository input of
      Inl e \<Rightarrow> \<exists>code. e = Planning code \<and> endpointFault near crossing input code
    | Inr r \<Rightarrow> endpointsRight near crossing input r \<and> (\<forall>code. \<not> endpointFault near crossing input code)"
proof (cases "resolveUnique repository (epStart (eiPolicy input)) input")
  case (Inl e)
  then show ?thesis using resolveUnique_fault [OF assms _ Inl]
    by (simp add: resolveCoverageEndpoints_def Let_def endLocations_def)
next
  case start: (Inr first)
  let ?p = "eiPolicy input"
  have first: "nearestTo near input (epStart ?p) = {first}" "supported (ecEvidence first)"
    using resolveUnique_answers [OF assms, of "epStart ?p"] start by simp_all
  show ?thesis
  proof (cases "resolveFixedEnd repository input")
    case (Inl e)
    then show ?thesis using resolveFixedEnd_answers [OF assms] start by (simp add: resolveCoverageEndpoints_def Let_def)
  next
    case fixed: (Inr final)
    have final: "(case final of None \<Rightarrow> epFixedEnd ?p = None
        | Some c \<Rightarrow> \<exists>l. epFixedEnd ?p = Some l \<and> nearestTo near input l = {c} \<and> supported (ecEvidence c))"
      using resolveFixedEnd_answers [OF assms] fixed by simp
    then have present: "final = None \<longleftrightarrow> epFixedEnd ?p = None" by (auto split: option.splits)
    show ?thesis
    proof (cases "(epMode ?p = FIXED_END) = (final \<noteq> None)")
      case False
      then have "resolveCoverageEndpoints sha repository input = Inl (Planning INVALID_SELECTION_POLICY)"
        using start fixed by (auto simp: resolveCoverageEndpoints_def Let_def)
      then show ?thesis using False present by (simp add: endpointFault_def)
    next
      case mode: True
      show ?thesis
      proof (cases "resolveBoundary repository input ENTRY (epEntry ?p)")
        case (Inl e)
        then have "resolveCoverageEndpoints sha repository input = Inl e"
          using start fixed mode by (auto simp: resolveCoverageEndpoints_def Let_def)
        then show ?thesis using resolveBoundary_cases [OF assms, of ENTRY "epEntry ?p"] Inl by (auto simp: endpointFault_def)
      next
        case entry: (Inr entries)
        note en = resolveBoundary_cases [OF assms, of ENTRY "epEntry ?p", unfolded entry sum.case]
        show ?thesis
        proof (cases "resolveBoundary repository input EXIT (epExit ?p)")
          case (Inl e)
          then have "resolveCoverageEndpoints sha repository input = Inl e"
            using start fixed mode entry by (auto simp: resolveCoverageEndpoints_def Let_def)
          then show ?thesis using resolveBoundary_cases [OF assms, of EXIT "epExit ?p"] Inl by (auto simp: endpointFault_def)
        next
          case exit: (Inr exits)
          note ex = resolveBoundary_cases [OF assms, of EXIT "epExit ?p", unfolded exit sum.case]
          let ?evidence = "[ecEvidence first] @ (case final of None \<Rightarrow> [] | Some c \<Rightarrow> [ecEvidence c]) @
            map ecEvidence entries @ map ecEvidence exits"
          have "\<forall>e \<in> set ?evidence. supported e" using first(2) final en ex by (auto split: option.splits)
          from contractSha256_ok [OF supported_resolution [OF this], of sha input first final entries exits]
          obtain h where h: "contractSha256 sha (resolutionReceipt input first final entries exits ?evidence) = Inr h" by blast
          define r where "r = \<lparr>reStart = ecState first, reFixedEnd = map_option ecState final,
            reEntries = map ecState (canonicalCandidates entries), reExits = map ecState (canonicalCandidates exits),
            reMode = epMode ?p, reCrossing = epCrossing ?p, reReceiptHash = h, reEvidence = ?evidence\<rparr>"
          have run: "resolveCoverageEndpoints sha repository input = Inr r"
            using start fixed mode entry exit h unfolding r_def resolveCoverageEndpoints_def Let_def
            by (cases final) (simp_all add: ensureR_def)
          have "endpointsRight near crossing input r"
            using first(1) final mode boundaryRight_canonical en ex unfolding endpointsRight_def r_def
            by (auto split: option.splits)
          moreover have "\<not> endpointFault near crossing input code" for code
          proof -
            have "nearestTo near input l \<noteq> {} \<and> \<not> tied (nearestTo near input l)" if "l \<in> endLocations input" for l
              using that first(1) final by (auto simp: endLocations_def tied_def split: option.splits)
            then show ?thesis using mode present en ex unfolding endpointFault_def by auto
          qed
          ultimately show ?thesis unfolding run by simp
        qed
      qed
    qed
  qed
qed

section \<open>The verdict on a route\<close>

text \<open>What the policy asks of the ends of a route and of its crossings, whatever order they are listed in.\<close>

definition endsRight :: "resolved_endpoints \<Rightarrow> directed_state \<Rightarrow> directed_state \<Rightarrow> crossing_event list \<Rightarrow> bool" where
  "endsRight resolved routeStart routeEnd events \<longleftrightarrow>
     samePosition routeStart (reStart resolved) \<and>
     (case reMode resolved of
        RETURN_TO_START \<Rightarrow> samePosition routeEnd (reStart resolved)
      | FIXED_END \<Rightarrow> \<exists>e. reFixedEnd resolved = Some e \<and> samePosition routeEnd e
      | LAST_AREA_EXIT \<Rightarrow> \<exists>x \<in> set events. beKind x = EXIT \<and> samePosition routeEnd (beState x) \<and>
          (\<forall>y \<in> set events. beKind y = EXIT \<longrightarrow> beSequence y \<le> beSequence x))"

definition crossingsRight :: "resolved_endpoints \<Rightarrow> crossing_event list \<Rightarrow> bool" where
  "crossingsRight resolved events \<longleftrightarrow>
     (case reCrossing resolved of
        FREE \<Rightarrow> True
      | FIRST_ENTRY_ONLY \<Rightarrow> length (filter (\<lambda>e. beKind e = ENTRY) events) = 1
      | ENTRY_SET_ONLY \<Rightarrow> \<forall>e \<in> set events. beKind e = ENTRY \<longrightarrow> (\<exists>s \<in> set (reEntries resolved). samePosition (beState e) s)
      | NO_REENTRY \<Rightarrow> \<forall>x \<in> set events. \<forall>y \<in> set events. beKind x = EXIT \<longrightarrow> beKind y = ENTRY \<longrightarrow> \<not> beSequence x < beSequence y)"

interpretation event_order: js_order "\<lambda>left right. beSequence left - beSequence right"
  by (intro order_intros)

lemma ordered_strict:
  assumes "distinct (map beSequence events)"
  shows "sorted_wrt (\<lambda>x y. beSequence x < beSequence y) (orderedEvents events)"
proof -
  have "sorted_wrt (\<lambda>x y. beSequence x \<le> beSequence y) (orderedEvents events)"
    using event_order.sorted_sort_by [of events] by (simp add: sorted_by_def orderedEvents_def)
  moreover have "distinct (map beSequence (orderedEvents events))"
    unfolding orderedEvents_def by (rule iffD2 [OF distinct_map_perm assms]) (rule mset_sort_by)
  ultimately have "sorted_wrt (<) (map beSequence (orderedEvents events))"
    by (simp add: strict_sorted_iff sorted_map)
  then show ?thesis by (simp add: sorted_wrt_map)
qed

lemma last_exit:
  assumes "sorted_wrt (\<lambda>x y. beSequence x < beSequence y) xs" and "xs \<noteq> []"
  shows "x = last xs \<longleftrightarrow> x \<in> set xs \<and> (\<forall>y \<in> set xs. beSequence y \<le> beSequence x)"
  using assms
proof (induction xs rule: rev_induct)
  case (snoc z xs)
  then have before: "beSequence y < beSequence z" if "y \<in> set xs" for y using that by (simp add: sorted_wrt_append)
  then have "\<forall>y \<in> set (xs @ [z]). beSequence y \<le> beSequence z" by (auto intro: less_imp_le)
  moreover have "x = z" if "x \<in> set (xs @ [z])" "\<forall>y \<in> set (xs @ [z]). beSequence y \<le> beSequence x"
    using that before [of x] by auto
  ultimately show ?case by auto
qed simp

text \<open>After the first exit, in a list in sequence order.\<close>

lemma entry_after_exit:
  assumes "sorted_wrt (\<lambda>x y. beSequence x < beSequence y) xs"
  shows "list_ex (\<lambda>e. beKind e = ENTRY) (drop 1 (dropWhile (\<lambda>e. beKind e \<noteq> EXIT) xs)) \<longleftrightarrow>
    (\<exists>x \<in> set xs. \<exists>y \<in> set xs. beKind x = EXIT \<and> beKind y = ENTRY \<and> beSequence x < beSequence y)"
  using assms
proof (induction xs)
  case (Cons z xs)
  show ?case
  proof (cases "beKind z = EXIT")
    case True
    then show ?thesis using Cons.prems by (force simp: list_ex_iff)
  next
    case False
    then show ?thesis using Cons by force
  qed
qed simp

lemma verdict_exact:
  assumes "distinct (map beSequence events)"
  shows "fst (verifyEndpointAndBoundaryPolicy resolved routeStart routeEnd events) \<longleftrightarrow>
    endsRight resolved routeStart routeEnd events \<and> crossingsRight resolved events"
proof -
  let ?o = "orderedEvents events" and ?x = "filter (\<lambda>e. beKind e = EXIT) (orderedEvents events)"
  have mem: "set ?o = set events" by (simp add: orderedEvents_def)
  note strict = ordered_strict [OF assms]
  have exits: "?x \<noteq> [] \<and> samePosition routeEnd (beState (last ?x)) \<longleftrightarrow>
      (\<exists>x \<in> set events. beKind x = EXIT \<and> samePosition routeEnd (beState x) \<and>
          (\<forall>y \<in> set events. beKind y = EXIT \<longrightarrow> beSequence y \<le> beSequence x))"
    (is "_ \<longleftrightarrow> ?exits")
  proof (cases "?x = []")
    case True
    then show ?thesis using mem by (auto simp: filter_empty_conv)
  next
    case False
    from last_exit [OF sorted_wrt_filter [OF strict] False]
    have "x = last ?x \<longleftrightarrow> x \<in> set events \<and> beKind x = EXIT \<and> (\<forall>y \<in> set events. beKind y = EXIT \<longrightarrow> beSequence y \<le> beSequence x)" for x
      using mem by auto
    then show ?thesis using False by metis
  qed
  have "endpointViolations resolved routeStart routeEnd ?x = [] \<longleftrightarrow> endsRight resolved routeStart routeEnd events"
    using exits by (cases "reMode resolved") (auto simp: endpointViolations_def endsRight_def split: option.splits)
  moreover have "length (filter (\<lambda>e. beKind e = ENTRY) ?o) = length (filter (\<lambda>e. beKind e = ENTRY) events)"
    by (metis mset_filter mset_sort_by orderedEvents_def size_mset)
  then have "crossingViolations resolved ?o = [] \<longleftrightarrow> crossingsRight resolved events"
    using entry_after_exit [OF strict] mem
    by (cases "reCrossing resolved") (auto simp: crossingViolations_def crossingsRight_def Let_def list_ex_iff samePosition_def)
  ultimately show ?thesis by (simp add: verifyEndpointAndBoundaryPolicy_def Let_def)
qed

section \<open>Properties\<close>

text \<open>
  C11. Endpoints resolve exactly when they can.  For a repository that answers, \<open>resolveCoverageEndpoints\<close>
  either returns the one nearest position within the tolerance for the start and for a fixed end, and for
  each boundary exactly the positions found or supplied, each once and within the limit; or it raises
  \<open>UNREACHABLE\<close>, \<open>AMBIGUOUS_LOCATION\<close>, \<open>INVALID_SELECTION_POLICY\<close> or \<open>RESOURCE_EXHAUSTED\<close>, each for
  its own reason, and it does so only when such a reason is there.
\<close>

theorem endpoint_resolution_exact:
  assumes "answers repository input near crossing"
  shows "case resolveCoverageEndpoints sha repository input of
      Inl e \<Rightarrow> \<exists>code. e = Planning code \<and> endpointFault near crossing input code
    | Inr r \<Rightarrow> endpointsRight near crossing input r \<and> (\<forall>code. \<not> endpointFault near crossing input code)"
  by (rule endpointResolution_cases [OF assms])

text \<open>
  C14. The verdict on a route is the policy's.  For events with distinct sequence numbers, in any order,
  \<open>verifyEndpointAndBoundaryPolicy\<close> accepts exactly the routes that start at the resolved start, end where
  the mode says (the start, the fixed end, or the last exit by sequence) and cross the boundary as the
  crossing policy allows: one entry, entries at the resolved ones only, or no entry after an exit.
\<close>

theorem boundary_verdict_exact:
  assumes "distinct (map beSequence events)"
  shows "fst (verifyEndpointAndBoundaryPolicy resolved routeStart routeEnd events) \<longleftrightarrow>
    endsRight resolved routeStart routeEnd events \<and> crossingsRight resolved events"
  by (rule verdict_exact [OF assms])

definition stateOn :: "string \<Rightarrow> int \<Rightarrow> directed_state" where
  "stateOn k f = \<lparr>stateArcKey = js k, stateDirection = FORWARD, stateFraction = f, stateHeading = None, stateFeature = None\<rparr>"

definition candidateOn :: "directed_state \<Rightarrow> int \<Rightarrow> endpoint_candidate" where
  "candidateOn s d = \<lparr>ecState = s, ecDistance = d, ecEvidence = JNull\<rparr>"

text \<open>A position snaps to two arcs; supplied states are confirmed; the area has one exit.\<close>

definition sampleNear :: "int location \<Rightarrow> int \<Rightarrow> int \<Rightarrow> endpoint_candidate list" where
  "sampleNear l t n = (case l of LocState s \<Rightarrow> [candidateOn s 0] | LocReference r \<Rightarrow> []
     | LocPosition p \<Rightarrow> [candidateOn (stateOn ''b'' 7) 9, candidateOn (stateOn ''a'' 5) p])"

definition sampleCrossing :: "crossing_kind \<Rightarrow> int \<Rightarrow> endpoint_candidate list" where
  "sampleCrossing k n = [candidateOn (stateOn ''c'' 4) 0]"

definition sampleRepository :: "(int, unit) endpoint_repository" where
  "sampleRepository = \<lparr>resolveLocation = (\<lambda>l _ _ _ t n. Inr (sampleNear l t n)),
     boundaryCandidates = (\<lambda>_ _ _ _ k n. Inr (sampleCrossing k n))\<rparr>"

definition sampleEndpoints :: "int \<Rightarrow> (int, unit) endpoint_input" where
  "sampleEndpoints d = \<lparr>eiDataScope = [], eiDatasetScope = [], eiSnapshot = plainSnapshot, eiArea = (),
     eiPolicy = \<lparr>epCrossing = FREE, epMode = RETURN_TO_START,
       epEntry = \<lparr>bpMaximum = None, bpMode = FIXED, bpStates = Some [stateOn ''c'' 1]\<rparr>,
       epExit = \<lparr>bpMaximum = Some 2, bpMode = AUTO, bpStates = None\<rparr>,
       epFixedEnd = None, epTolerance = 20, epStart = LocPosition d\<rparr>\<rparr>"

lemma endpoint_resolution_exact_witness:
  "(\<exists>r. resolveCoverageEndpoints (\<lambda>_. []) sampleRepository (sampleEndpoints 3) = Inr r \<and>
      endpointsRight sampleNear sampleCrossing (sampleEndpoints 3) r \<and> stateArcKey (reStart r) = js ''a'') \<and>
   resolveCoverageEndpoints (\<lambda>_. []) sampleRepository (sampleEndpoints 9) = Inl (Planning AMBIGUOUS_LOCATION)"
proof -
  have a: "answers sampleRepository (sampleEndpoints d) sampleNear sampleCrossing" for d
    by (auto simp: answers_def sampleRepository_def sampleNear_def sampleCrossing_def candidateOn_def split: location.splits)
  have parts: "resolveUnique sampleRepository (LocPosition 3) (sampleEndpoints 3) = Inr (candidateOn (stateOn ''a'' 5) 3)"
    "resolveUnique sampleRepository (LocPosition 9) (sampleEndpoints 9) = Inl (Planning AMBIGUOUS_LOCATION)"
    "resolveBoundary sampleRepository (sampleEndpoints 3) ENTRY (epEntry (eiPolicy (sampleEndpoints 3))) = Inr [candidateOn (stateOn ''c'' 1) 0]"
    "resolveBoundary sampleRepository (sampleEndpoints 3) EXIT (epExit (eiPolicy (sampleEndpoints 3))) = Inr [candidateOn (stateOn ''c'' 4) 0]"
    by code_simp+
  have policy: "epStart (eiPolicy (sampleEndpoints d)) = LocPosition d" "epFixedEnd (eiPolicy (sampleEndpoints d)) = None"
    "epMode (eiPolicy (sampleEndpoints d)) = RETURN_TO_START" for d by (simp_all add: sampleEndpoints_def)
  have "supported (resolutionReceipt (sampleEndpoints 3) (candidateOn (stateOn ''a'' 5) 3) None [candidateOn (stateOn ''c'' 1) 0]
      [candidateOn (stateOn ''c'' 4) 0] [JNull, JNull, JNull])" by (rule supported_resolution) simp
  then obtain r where "resolveCoverageEndpoints (\<lambda>_. []) sampleRepository (sampleEndpoints 3) = Inr r" "stateArcKey (reStart r) = js ''a''"
    using parts policy by (simp add: resolveCoverageEndpoints_def Let_def resolveFixedEnd_def contractSha256_constant candidateOn_def stateOn_def)
  moreover have "resolveCoverageEndpoints (\<lambda>_. []) sampleRepository (sampleEndpoints 9) = Inl (Planning AMBIGUOUS_LOCATION)"
    using parts(2) policy by (simp add: resolveCoverageEndpoints_def Let_def)
  ultimately show ?thesis using endpoint_resolution_exact [OF a [of 3], of "\<lambda>_. []"] by auto
qed

definition sampleEvent :: "int \<Rightarrow> crossing_kind \<Rightarrow> crossing_event" where
  "sampleEvent n k = \<lparr>beSequence = n, beKind = k, beState = stateOn ''c'' n\<rparr>"

definition sampleResolved :: resolved_endpoints where
  "sampleResolved = \<lparr>reStart = stateOn ''a'' 5, reFixedEnd = None, reEntries = [], reExits = [], reMode = LAST_AREA_EXIT,
     reCrossing = NO_REENTRY, reReceiptHash = [], reEvidence = []\<rparr>"

lemma boundary_verdict_exact_witness:
  "endsRight sampleResolved (stateOn ''a'' 5) (stateOn ''c'' 6) [sampleEvent 6 EXIT, sampleEvent 2 ENTRY] \<and>
   \<not> crossingsRight sampleResolved [sampleEvent 6 EXIT, sampleEvent 8 ENTRY, sampleEvent 2 ENTRY]"
proof -
  have "fst (verifyEndpointAndBoundaryPolicy sampleResolved (stateOn ''a'' 5) (stateOn ''c'' 6) [sampleEvent 6 EXIT, sampleEvent 2 ENTRY])"
    "snd (verifyEndpointAndBoundaryPolicy sampleResolved (stateOn ''a'' 5) (stateOn ''c'' 6)
      [sampleEvent 6 EXIT, sampleEvent 8 ENTRY, sampleEvent 2 ENTRY]) = [NO_REENTRY_VIOLATION]"
    by code_simp+
  moreover have "endsRight sampleResolved (stateOn ''a'' 5) (stateOn ''c'' 6) [sampleEvent 6 EXIT, sampleEvent 8 ENTRY, sampleEvent 2 ENTRY]"
    by (simp add: endsRight_def sampleResolved_def samePosition_def sampleEvent_def)
  moreover have "\<not> fst (verifyEndpointAndBoundaryPolicy sampleResolved (stateOn ''a'' 5) (stateOn ''c'' 6)
      [sampleEvent 6 EXIT, sampleEvent 8 ENTRY, sampleEvent 2 ENTRY])" by code_simp
  ultimately show ?thesis
    using boundary_verdict_exact [of "[sampleEvent 6 EXIT, sampleEvent 2 ENTRY]" sampleResolved "stateOn ''a'' 5" "stateOn ''c'' 6"]
      boundary_verdict_exact [of "[sampleEvent 6 EXIT, sampleEvent 8 ENTRY, sampleEvent 2 ENTRY]" sampleResolved "stateOn ''a'' 5" "stateOn ''c'' 6"]
    by (simp add: sampleEvent_def)
qed

end
