(* ===== verification/RouteAlternatives.thy ===== *)
theory RouteAlternatives
  imports
  RouteAcceptance
  StepRoutes
  RoadSelection
  "HOL-Library.Sublist"
begin

text \<open>
  \<open>road-coverage-alternatives-core/src/alternatives.ts\<close>: from verified candidate routes to the result set
  a client gets.  Candidates are admitted again, the best of each signature is kept, and the ordered
  candidates are taken greedily as long as they differ enough from those already taken.

  \<open>structuredClone\<close> and \<open>deepFreeze\<close> copy and lock a value; they do nothing to it here.  Solver
  diagnostics and the compute snapshot are JSON documents that are only passed on.
\<close>

section \<open>Data\<close>

datatype objective_profile = FASTEST_COMPLETION | SHORTEST_TOTAL_DISTANCE | LEAST_DEADHEAD | LOWEST_RISK | WEIGHTED

datatype termination_reason = PROFILES_COMPLETE | TIME_LIMIT | CANDIDATE_LIMIT | SEARCH_INFEASIBLE | CANCELLED

text \<open>\<open>SEARCH_INFEASIBLE\<close> and \<open>NO_FEASIBLE_RESULT\<close> are the code's \<open>NO_FEASIBLE_PLAN\<close>, a name the planning errors already have.\<close>

datatype result_status = SUCCEEDED | PARTIAL | NO_FEASIBLE_RESULT

record alternative_policy =
  apRequested :: int
  apMinimum :: int
  apProfiles :: "objective_profile list"
  apMaximumOverlap :: int
  apMinimumDistance :: int

record alternative_candidate =
  acRoute :: coverage_route
  acReport :: verification_report
  acProfile :: objective_profile
  acDiagnostics :: "int json"

record snapshot_integrity =
  siDataHash :: js_string
  siComputeHash :: js_string
  siContractHash :: js_string
  siComputeSnapshot :: "int json option"

record result_input =
  riRequestId :: js_string
  riIdentityScope :: "js_string option"
  riProblemHash :: js_string
  riSnapshot :: routing_snapshot
  riPolicy :: alternative_policy
  riCandidates :: "alternative_candidate list"
  riTermination :: termination_reason
  riCreatedAt :: js_string
  riValidUntil :: js_string
  riIntegrity :: "snapshot_integrity option"
  riReasons :: "js_string list option"

record candidate_facts =
  cfMetrics :: fixed_metrics
  cfDeadhead :: int
  cfService :: int

record prepared_candidate =
  pcAdmitted :: admitted_route
  pcProfile :: objective_profile
  pcDiagnostics :: "int json"
  pcFacts :: candidate_facts

record route_similarity =
  overlapPpm :: int
  deadheadDistancePpm :: int

record coverage_alternative =
  altId :: js_string
  altRank :: nat
  altProfile :: objective_profile
  altRoute :: coverage_route
  altReport :: verification_report
  altDiagnostics :: "int json"
  altFacts :: candidate_facts
  altPros :: "js_string list"
  altCons :: "js_string list"
  altReference :: versioned_reference
  altHash :: js_string

record result_body =
  rsReference :: versioned_reference
  rsId :: js_string
  rsRequestId :: js_string
  rsProblemHash :: js_string
  rsStatus :: result_status
  rsSnapshot :: routing_snapshot
  rsCreatedAt :: js_string
  rsValidUntil :: js_string
  rsTermination :: termination_reason
  rsAlternatives :: "coverage_alternative list"
  rsPairs :: "(js_string \<times> js_string \<times> route_similarity) list"
  rsReceipts :: "int json list"

record result_set =
  rsBody :: result_body
  rsHash :: js_string

datatype alternative_error = PolicyInvalid | FixedPointOverflow | Refused verifier_error | NotEncodable json_error

section \<open>Fixed-point arithmetic\<close>

definition alternativeAdd :: "int \<Rightarrow> int \<Rightarrow> alternative_error + int" where
  "alternativeAdd left right =
     (if isSafeInteger (left + right) \<and> 0 \<le> left + right then Inr (left + right) else Inl FixedPointOverflow)"

definition shareRatio :: "int \<Rightarrow> int \<Rightarrow> int" where
  "shareRatio numerator denominator = (if denominator = 0 then WHOLE else bigDiv (numerator * WHOLE) denominator)"

definition validatePolicy :: "alternative_policy \<Rightarrow> alternative_error + unit" where
  "validatePolicy policy =
     ensureR (\<not> (\<not> isSafeInteger (apRequested policy) \<or> \<not> isSafeInteger (apMinimum policy) \<or> apRequested policy < 1 \<or>
       apRequested policy > 5 \<or> apMinimum policy < 1 \<or> apMinimum policy > apRequested policy \<or> length (apProfiles policy) < 1 \<or>
       \<not> isSafeInteger (apMaximumOverlap policy) \<or> \<not> isSafeInteger (apMinimumDistance policy))) PolicyInvalid"

section \<open>Similarity of routes\<close>

definition spanKey :: "route_segment \<Rightarrow> js_string" where
  "spanKey s = segArcKey s @ js '':'' @ intText (segStart s) @ js '':'' @ intText (segEnd s)"

definition roleKey :: "route_segment \<Rightarrow> js_string" where
  "roleKey s = spanKey s @ js '':'' @ roleText (segRole s)"

definition addWeight :: "(js_string \<times> int) list \<Rightarrow> route_segment \<Rightarrow> alternative_error + (js_string \<times> int) list" where
  "addWeight weights s =
     bindR (alternativeAdd (case map_of weights (roleKey s) of None \<Rightarrow> 0 | Some w \<Rightarrow> w) (distanceMm (segMetrics s))) (\<lambda>w.
     Inr (AList.update (roleKey s) w weights))"

definition weightedSegments :: "coverage_route \<Rightarrow> alternative_error + (js_string \<times> int) list" where
  "weightedSegments route = foldR addWeight [] (bodySegments (routeBody route))"

text \<open>\<open>new Set(xs)\<close>: the first occurrences, in order.\<close>

definition firstOccurrences :: "'a list \<Rightarrow> 'a list" where
  "firstOccurrences xs = rev (remdups (rev xs))"

definition deadheadSet :: "coverage_route \<Rightarrow> js_string list" where
  "deadheadSet route = firstOccurrences (map spanKey
     (filter (\<lambda>s. segRole s \<noteq> SERVICE \<and> segRole s \<noteq> DUPLICATE_SERVICE) (bodySegments (routeBody route))))"

definition weightOf :: "(js_string \<times> int) list \<Rightarrow> js_string \<Rightarrow> int" where
  "weightOf weights key = (case map_of weights key of None \<Rightarrow> 0 | Some w \<Rightarrow> w)"

definition shareStep ::
  "(js_string \<times> int) list \<Rightarrow> (js_string \<times> int) list \<Rightarrow> int \<times> int \<Rightarrow> js_string \<Rightarrow> alternative_error + (int \<times> int)" where
  "shareStep lefts rights acc key =
     bindR (alternativeAdd (fst acc) (min (weightOf lefts key) (weightOf rights key))) (\<lambda>intersection.
     bindR (alternativeAdd (snd acc) (max (weightOf lefts key) (weightOf rights key))) (\<lambda>union.
     Inr (intersection, union)))"

definition compareRoutes :: "coverage_route \<Rightarrow> coverage_route \<Rightarrow> alternative_error + route_similarity" where
  "compareRoutes left right =
     bindR (weightedSegments left) (\<lambda>lefts.
     bindR (weightedSegments right) (\<lambda>rights.
     bindR (foldR (shareStep lefts rights) (0, 0) (firstOccurrences (map fst lefts @ map fst rights))) (\<lambda>(intersection, union).
     let leftDeadhead = deadheadSet left; rightDeadhead = deadheadSet right;
         deadheadUnion = firstOccurrences (leftDeadhead @ rightDeadhead);
         common = length (filter (\<lambda>key. key \<in> set rightDeadhead) leftDeadhead) in
     Inr \<lparr>overlapPpm = shareRatio intersection union,
       deadheadDistancePpm = (if deadheadUnion = [] then 0
         else WHOLE - shareRatio (int common) (int (length deadheadUnion)))\<rparr>)))"

section \<open>Candidates\<close>

definition factStep :: "int \<times> int \<Rightarrow> route_segment \<Rightarrow> alternative_error + (int \<times> int)" where
  "factStep acc s =
     (if segRole s = SERVICE
      then bindR (alternativeAdd (snd acc) (distanceMm (segMetrics s))) (\<lambda>v. Inr (fst acc, v))
      else bindR (alternativeAdd (fst acc) (distanceMm (segMetrics s))) (\<lambda>v. Inr (v, snd acc)))"

definition routeFacts :: "coverage_route \<Rightarrow> alternative_error + candidate_facts" where
  "routeFacts route =
     bindR (foldR factStep (0, 0) (bodySegments (routeBody route))) (\<lambda>(deadhead, service).
     Inr \<lparr>cfMetrics = bodyMetrics (routeBody route), cfDeadhead = deadhead, cfService = service\<rparr>)"

definition profileOrder :: "alternative_policy \<Rightarrow> objective_profile \<rightharpoonup> int" where
  "profileOrder policy = map_of (rev (map (\<lambda>(i, p). (p, int i)) (enumerate 0 (apProfiles policy))))"

definition prepareCandidate ::
  "(js_string \<Rightarrow> js_string) \<Rightarrow> alternative_candidate \<Rightarrow> alternative_error + prepared_candidate" where
  "prepareCandidate sha c =
     bindR (map_sum Refused id (admitVerifiedCoverageRoute sha (acRoute c) (acReport c))) (\<lambda>admitted.
     bindR (routeFacts (acRoute c)) (\<lambda>facts.
     Inr \<lparr>pcAdmitted = admitted, pcProfile = acProfile c, pcDiagnostics = acDiagnostics c, pcFacts = facts\<rparr>))"

definition scoreFor :: "objective_profile \<Rightarrow> candidate_facts \<Rightarrow> int" where
  "scoreFor profile facts =
     (case profile of
        FASTEST_COMPLETION \<Rightarrow> durationMs (cfMetrics facts)
      | SHORTEST_TOTAL_DISTANCE \<Rightarrow> distanceMm (cfMetrics facts)
      | LEAST_DEADHEAD \<Rightarrow> cfDeadhead facts
      | LOWEST_RISK \<Rightarrow> riskMicroUnits (cfMetrics facts)
      | WEIGHTED \<Rightarrow> combinedCostUnits (cfMetrics facts))"

definition profileScore :: "prepared_candidate \<Rightarrow> int" where
  "profileScore c = scoreFor (pcProfile c) (pcFacts c)"

definition signatureOf :: "prepared_candidate \<Rightarrow> js_string" where
  "signatureOf c = routeSignature (admittedRoute (pcAdmitted c))"

definition rankOf :: "(objective_profile \<rightharpoonup> int) \<Rightarrow> prepared_candidate \<Rightarrow> int" where
  "rankOf order c = (case order (pcProfile c) of None \<Rightarrow> maxSafeInteger | Some i \<Rightarrow> i)"

definition compareCandidates :: "(objective_profile \<rightharpoonup> int) \<Rightarrow> prepared_candidate \<Rightarrow> prepared_candidate \<Rightarrow> int" where
  "compareCandidates order left right =
     orElse (rankOf order left - rankOf order right)
     (orElse (profileScore left - profileScore right)
       (compareUnicodeCodePoints (signatureOf left) (signatureOf right)))"

definition keepBest ::
  "(objective_profile \<rightharpoonup> int) \<Rightarrow> (js_string \<times> prepared_candidate) list \<Rightarrow> prepared_candidate \<Rightarrow>
     (js_string \<times> prepared_candidate) list" where
  "keepBest order best c =
     (case map_of best (signatureOf c) of
        None \<Rightarrow> AList.update (signatureOf c) c best
      | Some existing \<Rightarrow> if compareCandidates order c existing < 0 then AList.update (signatureOf c) c best else best)"

definition orderedCandidates :: "(objective_profile \<rightharpoonup> int) \<Rightarrow> prepared_candidate list \<Rightarrow> prepared_candidate list" where
  "orderedCandidates order candidates = sort_by (compareCandidates order) (map snd (foldl (keepBest order) [] candidates))"

definition apart :: "alternative_policy \<Rightarrow> prepared_candidate \<Rightarrow> prepared_candidate \<Rightarrow> alternative_error + bool" where
  "apart policy existing candidate =
     bindR (compareRoutes (admittedRoute (pcAdmitted existing)) (admittedRoute (pcAdmitted candidate))) (\<lambda>similarity.
     Inr (overlapPpm similarity \<le> apMaximumOverlap policy \<and> apMinimumDistance policy \<le> deadheadDistancePpm similarity))"

fun everyApart :: "alternative_policy \<Rightarrow> prepared_candidate \<Rightarrow> prepared_candidate list \<Rightarrow> alternative_error + bool" where
  "everyApart policy candidate [] = Inr True"
| "everyApart policy candidate (existing # rest) =
     bindR (apart policy existing candidate) (\<lambda>ok. if ok then everyApart policy candidate rest else Inr False)"

fun selectCandidates ::
  "alternative_policy \<Rightarrow> prepared_candidate list \<Rightarrow> prepared_candidate list \<Rightarrow> alternative_error + prepared_candidate list" where
  "selectCandidates policy selected [] = Inr selected"
| "selectCandidates policy selected (candidate # rest) =
     (if apRequested policy \<le> int (length selected) then Inr selected
      else bindR (everyApart policy candidate selected) (\<lambda>ok.
        selectCandidates policy (if ok then selected @ [candidate] else selected) rest))"

section \<open>Documents\<close>

text \<open>\<open>{...document, key: value}\<close> for a new key.\<close>

definition withEntry :: "string \<Rightarrow> int json \<Rightarrow> int json \<Rightarrow> int json" where
  "withEntry key v document = (case document of JObj es \<Rightarrow> JObj (es @ [(js key, v)]) | _ \<Rightarrow> document)"

definition alternativeHash :: "(js_string \<Rightarrow> js_string) \<Rightarrow> int json \<Rightarrow> alternative_error + js_string" where
  "alternativeHash sha v = map_sum NotEncodable id (contractSha256 sha v)"

definition hashBody :: "js_string \<Rightarrow> js_string" where
  "hashBody hash = drop (length (js ''sha256:'')) hash"

definition derivedReference :: "string \<Rightarrow> js_string \<Rightarrow> versioned_reference" where
  "derivedReference kind hash =
     \<lparr>refNamespace = js ''gowm'', refKind = js kind, refId = js ''wrf_'' @ take 32 (hashBody hash), refVersion = js ''1''\<rparr>"

fun profileText :: "objective_profile \<Rightarrow> js_string" where
  "profileText FASTEST_COMPLETION = js ''FASTEST_COMPLETION''"
| "profileText SHORTEST_TOTAL_DISTANCE = js ''SHORTEST_TOTAL_DISTANCE''"
| "profileText LEAST_DEADHEAD = js ''LEAST_DEADHEAD''"
| "profileText LOWEST_RISK = js ''LOWEST_RISK''"
| "profileText WEIGHTED = js ''WEIGHTED''"

fun terminationText :: "termination_reason \<Rightarrow> js_string" where
  "terminationText PROFILES_COMPLETE = js ''PROFILES_COMPLETE''"
| "terminationText TIME_LIMIT = js ''TIME_LIMIT''"
| "terminationText CANDIDATE_LIMIT = js ''CANDIDATE_LIMIT''"
| "terminationText SEARCH_INFEASIBLE = js ''NO_FEASIBLE_PLAN''"
| "terminationText CANCELLED = js ''CANCELLED''"

fun resultStatusText :: "result_status \<Rightarrow> js_string" where
  "resultStatusText SUCCEEDED = js ''SUCCEEDED''"
| "resultStatusText PARTIAL = js ''PARTIAL''"
| "resultStatusText NO_FEASIBLE_RESULT = js ''NO_FEASIBLE_PLAN''"

definition explanationFor :: "objective_profile \<Rightarrow> candidate_facts \<Rightarrow> js_string list \<times> js_string list" where
  "explanationFor profile facts =
     ([case profile of
         FASTEST_COMPLETION \<Rightarrow> js ''Verified duration '' @ intText (durationMs (cfMetrics facts)) @ js '' ms''
       | SHORTEST_TOTAL_DISTANCE \<Rightarrow> js ''Verified distance '' @ intText (distanceMm (cfMetrics facts)) @ js '' mm''
       | LEAST_DEADHEAD \<Rightarrow> js ''Verified deadhead '' @ intText (cfDeadhead facts) @ js '' mm''
       | LOWEST_RISK \<Rightarrow> js ''Verified risk '' @ intText (riskMicroUnits (cfMetrics facts)) @ js '' micro-units''
       | WEIGHTED \<Rightarrow> js ''Verified combined cost '' @ intText (combinedCostUnits (cfMetrics facts)) @ js '' units''],
      if cfDeadhead facts = 0 then [] else [js ''Includes '' @ intText (cfDeadhead facts) @ js '' mm non-service travel''])"

definition routeJson :: "coverage_route \<Rightarrow> int json" where
  "routeJson route = withEntry ''routeSignature'' (JStr (routeSignature route)) (routeBodyJson (routeBody route))"

definition verificationJson :: "verification_report \<Rightarrow> int json" where
  "verificationJson r = withEntry ''reportHash'' (JStr (reportHash r)) (reportJson (reportBody r) (verificationId r))"

definition factsJson :: "candidate_facts \<Rightarrow> int json" where
  "factsJson facts = withEntry ''serviceDistanceMm'' (JNum (cfService facts))
     (withEntry ''deadheadDistanceMm'' (JNum (cfDeadhead facts)) (metricsJson (cfMetrics facts)))"

definition alternativeEntries :: "prepared_candidate \<Rightarrow> nat \<Rightarrow> (js_string \<times> int json) list" where
  "alternativeEntries c rank =
     [(js ''rank'', JNum (int rank)), (js ''objectiveProfile'', JStr (profileText (pcProfile c))),
      (js ''route'', routeJson (admittedRoute (pcAdmitted c))),
      (js ''verification'', verificationJson (admittedReport (pcAdmitted c))),
      (js ''solverDiagnostics'', pcDiagnostics c), (js ''objectiveVector'', factsJson (pcFacts c)),
      (js ''pros'', JArr (map JStr (fst (explanationFor (pcProfile c) (pcFacts c))))),
      (js ''cons'', JArr (map JStr (snd (explanationFor (pcProfile c) (pcFacts c)))))]"

definition alternative ::
  "(js_string \<Rightarrow> js_string) \<Rightarrow> js_string \<Rightarrow> nat \<times> prepared_candidate \<Rightarrow> alternative_error + coverage_alternative" where
  "alternative sha resultIdentity ranked =
     (let rank = fst ranked; c = snd ranked; entries = alternativeEntries c rank in
      bindR (alternativeHash sha (JObj (entries @ [(js ''resultIdentity'', JStr resultIdentity),
        (js ''routeSignature'', JStr (signatureOf c))]))) (\<lambda>identity.
      let identifier = js ''alt_'' @ hashBody identity; key = derivedReference ''DERIVED_REFERENCE'' identity in
      bindR (alternativeHash sha (JObj (entries @ [(js ''alternativeId'', JStr identifier),
        (js ''referenceKey'', versionedReferenceJson key)]))) (\<lambda>hash.
      Inr \<lparr>altId = identifier, altRank = rank, altProfile = pcProfile c, altRoute = admittedRoute (pcAdmitted c),
        altReport = admittedReport (pcAdmitted c), altDiagnostics = pcDiagnostics c, altFacts = pcFacts c,
        altPros = fst (explanationFor (pcProfile c) (pcFacts c)), altCons = snd (explanationFor (pcProfile c) (pcFacts c)),
        altReference = key, altHash = hash\<rparr>)))"

definition alternativeJson :: "coverage_alternative \<Rightarrow> int json" where
  "alternativeJson a = JObj
     [(js ''alternativeId'', JStr (altId a)), (js ''rank'', JNum (int (altRank a))),
      (js ''objectiveProfile'', JStr (profileText (altProfile a))), (js ''route'', routeJson (altRoute a)),
      (js ''verification'', verificationJson (altReport a)), (js ''solverDiagnostics'', altDiagnostics a),
      (js ''objectiveVector'', factsJson (altFacts a)), (js ''pros'', JArr (map JStr (altPros a))),
      (js ''cons'', JArr (map JStr (altCons a))), (js ''referenceKey'', versionedReferenceJson (altReference a)),
      (js ''contentHash'', JStr (altHash a))]"

section \<open>The result set\<close>

text \<open>\<open>flatMap\<close> over \<open>slice(leftIndex + 1)\<close>: every pair once, in order.\<close>

fun orderedPairs :: "'a list \<Rightarrow> ('a \<times> 'a) list" where
  "orderedPairs [] = []"
| "orderedPairs (x # xs) = map (\<lambda>y. (x, y)) xs @ orderedPairs xs"

definition pairSimilarity ::
  "coverage_alternative \<times> coverage_alternative \<Rightarrow> alternative_error + (js_string \<times> js_string \<times> route_similarity)" where
  "pairSimilarity pair =
     bindR (compareRoutes (altRoute (fst pair)) (altRoute (snd pair))) (\<lambda>similarity.
     Inr (altId (fst pair), altId (snd pair), similarity))"

definition resultStatus :: "alternative_policy \<Rightarrow> nat \<Rightarrow> result_status" where
  "resultStatus policy found =
     (if apRequested policy \<le> int found then SUCCEEDED
      else if apMinimum policy \<le> int found then PARTIAL
      else if found = 0 then NO_FEASIBLE_RESULT else PARTIAL)"

definition resultIdentityJson :: "result_input \<Rightarrow> int json" where
  "resultIdentityJson input = JObj (
     [(js ''requestId'', JStr (riRequestId input)), (js ''problemHash'', JStr (riProblemHash input)),
      (js ''routingSnapshot'', snapshotJson (riSnapshot input))] @
     optionalEntry ''identityScope'' (map_option JStr (riIdentityScope input)))"

definition resultReceipts :: "result_input \<Rightarrow> nat \<Rightarrow> nat \<Rightarrow> nat \<Rightarrow> int json list" where
  "resultReceipts input admitted deduplicated chosen =
     [JObj [(js ''kind'', JStr (js ''ALTERNATIVE_SELECTION'')),
        (js ''requestedCount'', JNum (apRequested (riPolicy input))),
        (js ''minimumVerifiedCount'', JNum (apMinimum (riPolicy input))),
        (js ''admittedCandidateCount'', JNum (int admitted)), (js ''deduplicatedCandidateCount'', JNum (int deduplicated)),
        (js ''selectedCount'', JNum (int chosen)), (js ''terminationReason'', JStr (terminationText (riTermination input)))]] @
     (case riIntegrity input of None \<Rightarrow> []
      | Some i \<Rightarrow> [JObj ([(js ''kind'', JStr (js ''SNAPSHOT_INTEGRITY'')), (js ''problemHash'', JStr (riProblemHash input)),
          (js ''dataSnapshotHash'', JStr (siDataHash i)), (js ''computeSnapshotHash'', JStr (siComputeHash i)),
          (js ''contractHash'', JStr (siContractHash i))] @ optionalEntry ''computeSnapshot'' (siComputeSnapshot i))]) @
     (case riReasons input of None \<Rightarrow> []
      | Some reasons \<Rightarrow> if reasons = [] then []
        else [JObj [(js ''kind'', JStr (js ''NO_FEASIBLE_RESULT'')), (js ''normalizedStatus'', JStr (js ''NO_FEASIBLE_RESULT'')),
          (js ''reasons'', JArr (map JStr reasons))]])"

definition resultBodyJson :: "result_body \<Rightarrow> int json" where
  "resultBodyJson b = JObj
     [(js ''schemaVersion'', JStr (js ''1.0'')), (js ''referenceKey'', versionedReferenceJson (rsReference b)),
      (js ''resultSetId'', JStr (rsId b)), (js ''requestId'', JStr (rsRequestId b)),
      (js ''problemHash'', JStr (rsProblemHash b)), (js ''status'', JStr (resultStatusText (rsStatus b))),
      (js ''routingSnapshot'', snapshotJson (rsSnapshot b)), (js ''createdAt'', JStr (rsCreatedAt b)),
      (js ''validUntil'', JStr (rsValidUntil b)), (js ''revalidationRequired'', JBool True),
      (js ''searchTerminatedBy'', JStr (terminationText (rsTermination b))),
      (js ''alternatives'', JArr (map alternativeJson (rsAlternatives b))),
      (js ''pairwiseSimilarity'', JArr (map (\<lambda>(l, r, s). JObj
         [(js ''leftAlternativeId'', JStr l), (js ''rightAlternativeId'', JStr r),
          (js ''weightedArcOverlapPpm'', JNum (overlapPpm s)),
          (js ''deadheadJaccardDistancePpm'', JNum (deadheadDistancePpm s))]) (rsPairs b))),
      (js ''receipts'', JArr (rsReceipts b))]"

definition admittedCandidates :: "(js_string \<Rightarrow> js_string) \<Rightarrow> result_input \<Rightarrow> alternative_error + prepared_candidate list" where
  "admittedCandidates sha input =
     mapR (prepareCandidate sha)
       (filter (\<lambda>c. profileOrder (riPolicy input) (acProfile c) \<noteq> None) (riCandidates input))"

definition buildVerifiedCoverageResultSet ::
  "(js_string \<Rightarrow> js_string) \<Rightarrow> result_input \<Rightarrow> alternative_error + result_set" where
  "buildVerifiedCoverageResultSet sha input =
     bindR (validatePolicy (riPolicy input)) (\<lambda>_.
     bindR (admittedCandidates sha input) (\<lambda>admitted.
     let ordered = orderedCandidates (profileOrder (riPolicy input)) admitted in
     bindR (selectCandidates (riPolicy input) [] ordered) (\<lambda>selected.
     bindR (alternativeHash sha (resultIdentityJson input)) (\<lambda>resultIdentity.
     bindR (mapR (alternative sha resultIdentity) (enumerate 1 selected)) (\<lambda>alternatives.
     bindR (mapR pairSimilarity (orderedPairs alternatives)) (\<lambda>pairs.
     let body = \<lparr>rsReference = derivedReference ''QUERY_RESULT'' resultIdentity,
           rsId = js ''result_'' @ hashBody resultIdentity, rsRequestId = riRequestId input,
           rsProblemHash = riProblemHash input, rsStatus = resultStatus (riPolicy input) (length alternatives),
           rsSnapshot = riSnapshot input, rsCreatedAt = riCreatedAt input, rsValidUntil = riValidUntil input,
           rsTermination = riTermination input, rsAlternatives = alternatives, rsPairs = pairs,
           rsReceipts = resultReceipts input (length admitted) (length ordered) (length alternatives)\<rparr> in
     bindR (alternativeHash sha (resultBodyJson body)) (\<lambda>resultHash.
     Inr \<lparr>rsBody = body, rsHash = resultHash\<rparr>)))))))"

section \<open>The best of every signature\<close>

lemma candidate_js_order: "js_order (compareCandidates order)"
  unfolding compareCandidates_def by (intro order_intros)

definition bestOf :: "(objective_profile \<rightharpoonup> int) \<Rightarrow> prepared_candidate list \<Rightarrow> (js_string \<times> prepared_candidate) list \<Rightarrow> bool" where
  "bestOf order cs best \<longleftrightarrow> keyedBy signatureOf best \<and> snd ` set best \<subseteq> set cs \<and>
     (\<forall>c \<in> set cs. \<exists>v. map_of best (signatureOf c) = Some v \<and> compareCandidates order v c \<le> 0)"

lemma keepBest_lookup:
  "map_of (keepBest order best c) k =
     (if k = signatureOf c \<and> (\<forall>e. map_of best k = Some e \<longrightarrow> compareCandidates order c e < 0) then Some c else map_of best k)"
  by (auto simp: keepBest_def update_conv' split: option.splits)

lemma keepBest_keyed: "keyedBy signatureOf best \<Longrightarrow> keyedBy signatureOf (keepBest order best c)"
  using keyedBy_update [of signatureOf best c] by (auto simp: keepBest_def split: option.splits)

lemma keyedBy_member: "keyedBy key m \<Longrightarrow> v \<in> snd ` set m \<longleftrightarrow> map_of m (key v) = Some v"
  unfolding keyedBy_def by (force dest: map_of_SomeD)

lemma bestOf_step:
  assumes "bestOf order cs best"
  shows "bestOf order (cs @ [c]) (keepBest order best c)"
proof -
  have old: "keyedBy signatureOf best" "snd ` set best \<subseteq> set cs" using assms by (simp_all add: bestOf_def)
  note keyed = keepBest_keyed [OF old(1), of order c]
  have "v \<in> set (cs @ [c])" if "v \<in> snd ` set (keepBest order best c)" for v
  proof -
    have "map_of (keepBest order best c) (signatureOf v) = Some v" using that keyedBy_member [OF keyed] by simp
    then have "v = c \<or> map_of best (signatureOf v) = Some v" unfolding keepBest_lookup by (auto split: if_splits)
    then show ?thesis using old keyedBy_member [OF old(1), of v] by auto
  qed
  moreover have "\<exists>v. map_of (keepBest order best c) (signatureOf d) = Some v \<and> compareCandidates order v d \<le> 0"
    if d: "d \<in> set (cs @ [c])" for d
  proof (cases "signatureOf d = signatureOf c \<and> (\<forall>e. map_of best (signatureOf d) = Some e \<longrightarrow> compareCandidates order c e < 0)")
    case True
    have "compareCandidates order c d \<le> 0"
    proof (cases "d \<in> set cs")
      case in_cs: True
      then obtain e where "map_of best (signatureOf d) = Some e" "compareCandidates order e d \<le> 0"
        using assms unfolding bestOf_def by blast
      then show ?thesis using True js_order.cmp_less_le_trans [OF candidate_js_order] by (metis order_le_less)
    qed (use d js_order.cmp_refl [OF candidate_js_order, of order c] in auto)
    then show ?thesis using True by (auto simp: keepBest_lookup)
  next
    case False
    then have same: "map_of (keepBest order best c) (signatureOf d) = map_of best (signatureOf d)" unfolding keepBest_lookup by (rule if_not_P)
    show ?thesis
    proof (cases "d \<in> set cs")
      case True
      then show ?thesis using assms same unfolding bestOf_def by auto
    next
      case new: False
      then have "d = c" using d by simp
      then obtain e where "map_of best (signatureOf d) = Some e" "\<not> compareCandidates order c e < 0" using False by auto
      then show ?thesis using same \<open>d = c\<close> js_order.cmp_flip_le [OF candidate_js_order, of order e c] by auto
    qed
  qed
  ultimately show ?thesis using keyed by (auto simp: bestOf_def)
qed

lemma bestOf_all: "bestOf order cs (foldl (keepBest order) [] cs)"
proof (induction cs rule: rev_induct)
  case Nil
  then show ?case by (simp add: bestOf_def keyedBy_def)
next
  case (snoc c cs)
  then show ?case using bestOf_step by simp
qed

lemma ordered_facts:
  "sorted_by (compareCandidates order) (orderedCandidates order cs) \<and> distinct (map signatureOf (orderedCandidates order cs)) \<and>
   set (orderedCandidates order cs) \<subseteq> set cs \<and>
   (\<forall>c \<in> set cs. \<exists>v \<in> set (orderedCandidates order cs). signatureOf v = signatureOf c \<and> compareCandidates order v c \<le> 0)"
proof -
  let ?m = "foldl (keepBest order) [] cs"
  have b: "bestOf order cs ?m" by (rule bestOf_all)
  then have keyed: "keyedBy signatureOf ?m" by (simp add: bestOf_def)
  have best: "\<forall>c \<in> set cs. \<exists>v. map_of ?m (signatureOf c) = Some v \<and> compareCandidates order v c \<le> 0"
    using b unfolding bestOf_def by (rule conjunct2 [OF conjunct2])
  have set: "set (orderedCandidates order cs) = snd ` set ?m" by (simp add: orderedCandidates_def)
  have "mset (map signatureOf (orderedCandidates order cs)) = mset (map signatureOf (map snd ?m))"
    unfolding orderedCandidates_def by (simp del: map_map)
  then have "distinct (map signatureOf (orderedCandidates order cs)) \<longleftrightarrow> distinct (map signatureOf (map snd ?m))"
    by (rule mset_eq_imp_distinct_iff)
  then have "distinct (map signatureOf (orderedCandidates order cs))"
    using keyed unfolding keyedBy_keys [OF keyed] by (simp add: keyedBy_def)
  moreover have "\<exists>v \<in> set (orderedCandidates order cs). signatureOf v = signatureOf c \<and> compareCandidates order v c \<le> 0"
    if c: "c \<in> set cs" for c
  proof -
    obtain v where v: "map_of ?m (signatureOf c) = Some v" "compareCandidates order v c \<le> 0" using bspec [OF best c] by blast
    then have member: "(signatureOf c, v) \<in> set ?m" by (simp add: map_of_SomeD)
    then have "signatureOf v = signatureOf c" using keyed unfolding keyedBy_def by auto
    moreover have "v \<in> snd ` set ?m" using imageI [OF member, of snd] by simp
    ultimately show ?thesis unfolding set using v(2) by blast
  qed
  moreover have "sorted_by (compareCandidates order) (orderedCandidates order cs)"
    unfolding orderedCandidates_def by (rule js_order.sorted_sort_by [OF candidate_js_order])
  moreover have "set (orderedCandidates order cs) \<subseteq> set cs" using b unfolding set bestOf_def by blast
  ultimately show ?thesis by blast
qed

section \<open>The greedy choice\<close>

definition farEnough :: "alternative_policy \<Rightarrow> coverage_route \<Rightarrow> coverage_route \<Rightarrow> bool" where
  "farEnough policy left right \<longleftrightarrow> (\<exists>s. compareRoutes left right = Inr s \<and> overlapPpm s \<le> apMaximumOverlap policy \<and>
     apMinimumDistance policy \<le> deadheadDistancePpm s)"

definition tooSimilar :: "alternative_policy \<Rightarrow> coverage_route \<Rightarrow> coverage_route \<Rightarrow> bool" where
  "tooSimilar policy left right \<longleftrightarrow> (\<exists>s. compareRoutes left right = Inr s \<and> \<not> (overlapPpm s \<le> apMaximumOverlap policy \<and>
     apMinimumDistance policy \<le> deadheadDistancePpm s))"

abbreviation routeOf :: "prepared_candidate \<Rightarrow> coverage_route" where
  "routeOf c \<equiv> admittedRoute (pcAdmitted c)"

lemma everyApart_Inr:
  "everyApart policy c existing = Inr ok \<Longrightarrow>
     (if ok then \<forall>e \<in> set existing. farEnough policy (routeOf e) (routeOf c)
      else \<exists>e \<in> set existing. tooSimilar policy (routeOf e) (routeOf c))"
  by (induction existing) (auto simp: apart_def bindR_eq_Inr farEnough_def tooSimilar_def split: if_splits)

definition leftOut ::
  "alternative_policy \<Rightarrow> (prepared_candidate \<Rightarrow> prepared_candidate \<Rightarrow> bool) \<Rightarrow> prepared_candidate list \<Rightarrow> prepared_candidate \<Rightarrow> bool" where
  "leftOut policy le out c \<longleftrightarrow> (\<exists>e \<in> set out. le e c \<and> tooSimilar policy (routeOf e) (routeOf c)) \<or>
     (apRequested policy \<le> int (length out) \<and> (\<forall>e \<in> set out. le e c))"

lemma selectCandidates_facts:
  assumes "selectCandidates policy chosen cs = Inr out"
    and "sorted_wrt (\<lambda>e c. farEnough policy (routeOf e) (routeOf c)) chosen" and "int (length chosen) \<le> apRequested policy"
    and "sorted_wrt le (chosen @ cs)"
  shows "\<exists>more. out = chosen @ more \<and> subseq more cs \<and> int (length out) \<le> apRequested policy \<and>
    sorted_wrt (\<lambda>e c. farEnough policy (routeOf e) (routeOf c)) out \<and>
    (\<forall>c \<in> set cs - set more. leftOut policy le out c)"
  using assms
proof (induction cs arbitrary: chosen)
  case Nil
  then show ?case by simp
next
  case (Cons c cs)
  show ?case
  proof (cases "apRequested policy \<le> int (length chosen)")
    case True
    then have out: "out = chosen" using Cons.prems(1) by simp
    have "leftOut policy le out d" if "d \<in> set (c # cs)" for d
      using True that Cons.prems(4) unfolding out leftOut_def by (auto simp: sorted_wrt_append)
    then show ?thesis using Cons.prems(2,3) out by auto
  next
    case False
    then obtain ok where ok: "everyApart policy c chosen = Inr ok"
      "selectCandidates policy (if ok then chosen @ [c] else chosen) cs = Inr out"
      using Cons.prems(1) by (auto simp: bindR_eq_Inr)
    note far = everyApart_Inr [OF ok(1)]
    show ?thesis
    proof (cases ok)
      case True
      have "sorted_wrt (\<lambda>e c. farEnough policy (routeOf e) (routeOf c)) (chosen @ [c])"
        using Cons.prems(2) far True by (simp add: sorted_wrt_append)
      moreover have "int (length (chosen @ [c])) \<le> apRequested policy" using False by simp
      moreover have "sorted_wrt le ((chosen @ [c]) @ cs)" using Cons.prems(4) by simp
      ultimately obtain more where "out = (chosen @ [c]) @ more" "subseq more cs" "int (length out) \<le> apRequested policy"
        "sorted_wrt (\<lambda>e c. farEnough policy (routeOf e) (routeOf c)) out" "\<forall>d \<in> set cs - set more. leftOut policy le out d"
        using Cons.IH [of "chosen @ [c]"] ok(2) True by auto
      then show ?thesis by (intro exI [of _ "c # more"]) auto
    next
      case no: False
      have "sorted_wrt le (chosen @ cs)" using Cons.prems(4) by (simp add: sorted_wrt_append)
      then obtain more where more: "out = chosen @ more" "subseq more cs" "int (length out) \<le> apRequested policy"
        "sorted_wrt (\<lambda>e c. farEnough policy (routeOf e) (routeOf c)) out" "\<forall>d \<in> set cs - set more. leftOut policy le out d"
        using Cons.IH [of chosen] ok(2) no Cons.prems(2,3) by auto
      obtain e where "e \<in> set chosen" "tooSimilar policy (routeOf e) (routeOf c)" using far no by auto
      moreover have "le e c" using Cons.prems(4) \<open>e \<in> set chosen\<close> by (simp add: sorted_wrt_append)
      ultimately have "leftOut policy le out c" unfolding leftOut_def more(1) by auto
      then show ?thesis using more by (intro exI [of _ more]) auto
    qed
  qed
qed

section \<open>The result set\<close>

definition presents :: "prepared_candidate \<Rightarrow> coverage_alternative \<Rightarrow> bool" where
  "presents c a \<longleftrightarrow> altProfile a = pcProfile c \<and> altRoute a = routeOf c \<and> altReport a = admittedReport (pcAdmitted c) \<and>
     altFacts a = pcFacts c"

lemma alternative_presents:
  "alternative sha identity ranked = Inr a \<Longrightarrow> altRank a = fst ranked \<and> presents (snd ranked) a"
  by (auto simp: alternative_def presents_def Let_def bindR_eq_Inr)

lemma alternatives_present:
  assumes "mapR (alternative sha identity) (enumerate n chosen) = Inr alts"
  shows "map altRank alts = [n..<n + length chosen] \<and> list_all2 presents chosen alts"
  using assms
proof (induction chosen arbitrary: n alts)
  case (Cons c chosen)
  obtain a rest where r: "alternative sha identity (n, c) = Inr a" "mapR (alternative sha identity) (enumerate (Suc n) chosen) = Inr rest"
    "alts = a # rest" using Cons.prems by (auto simp: bindR_eq_Inr)
  then show ?case using Cons.IH [OF r(2)] alternative_presents [OF r(1)] by (simp add: upt_conv_Cons del: upt_Suc)
qed simp

lemma sorted_wrt_all2:
  assumes "list_all2 R xs ys" and "sorted_wrt P xs"
    and "\<And>x y a b. x \<in> set xs \<Longrightarrow> y \<in> set xs \<Longrightarrow> R x a \<Longrightarrow> R y b \<Longrightarrow> P x y \<Longrightarrow> Q a b"
  shows "sorted_wrt Q ys"
  using assms
proof (induction rule: list_all2_induct)
  case Nil
  show ?case by simp
next
  case (Cons x xs a ys)
  have "Q a b" if b: "b \<in> set ys" for b
  proof -
    obtain y where y: "y \<in> set xs" "R y b" using list_all2_right [OF Cons(2) b] by blast
    then show ?thesis using Cons(1,4) Cons(5) [of x y a b] by simp
  qed
  moreover have "sorted_wrt Q ys"
  proof (rule Cons(3))
    show "sorted_wrt P xs" using Cons(4) by simp
    fix u v b c assume "u \<in> set xs" "v \<in> set xs" "R u b" "R v c" "P u v"
    then show "Q b c" using Cons(5) [of u v b c] by simp
  qed
  ultimately show ?case by simp
qed

lemma prepareCandidate_fields:
  assumes "prepareCandidate sha c = Inr p"
  shows "admitVerifiedCoverageRoute sha (acRoute c) (acReport c) = Inr (pcAdmitted p) \<and> routeFacts (acRoute c) = Inr (pcFacts p) \<and>
    routeOf p = acRoute c \<and> admittedReport (pcAdmitted p) = acReport c \<and> pcProfile p = acProfile c"
proof -
  obtain admitted facts where a: "map_sum Refused id (admitVerifiedCoverageRoute sha (acRoute c) (acReport c)) = Inr admitted"
    "routeFacts (acRoute c) = Inr facts" "p = \<lparr>pcAdmitted = admitted, pcProfile = acProfile c, pcDiagnostics = acDiagnostics c, pcFacts = facts\<rparr>"
    using assms by (auto simp: prepareCandidate_def bindR_eq_Inr)
  then have "admitVerifiedCoverageRoute sha (acRoute c) (acReport c) = Inr admitted"
    by (cases "admitVerifiedCoverageRoute sha (acRoute c) (acReport c)") auto
  moreover from this have "admittedRoute admitted = acRoute c" "admittedReport admitted = acReport c"
    by (auto simp: admitVerifiedCoverageRoute_def bindR_eq_Inr)
  ultimately show ?thesis using a by simp
qed

lemma profileOrder_some: "profileOrder policy p \<noteq> None \<longleftrightarrow> p \<in> set (apProfiles policy)"
proof -
  have "dom (profileOrder policy) = snd ` set (enumerate 0 (apProfiles policy))"
    by (force simp: profileOrder_def dom_map_of_conv_image_fst)
  also have "\<dots> = set (apProfiles policy)" by (metis list.set_map map_snd_enumerate)
  finally show ?thesis by blast
qed

text \<open>Earlier in the profiles of the policy, or of the same profile with no worse score.\<close>

definition ranksBefore :: "alternative_policy \<Rightarrow> coverage_alternative \<Rightarrow> coverage_alternative \<Rightarrow> bool" where
  "ranksBefore policy a b \<longleftrightarrow> (\<exists>i j. profileOrder policy (altProfile a) = Some i \<and> profileOrder policy (altProfile b) = Some j \<and>
     (i < j \<or> i = j \<and> scoreFor (altProfile a) (altFacts a) \<le> scoreFor (altProfile b) (altFacts b)))"

text \<open>An alternative is a candidate of the input, verified and admitted under a requested profile.\<close>

definition admittedFrom :: "(js_string \<Rightarrow> js_string) \<Rightarrow> result_input \<Rightarrow> coverage_alternative \<Rightarrow> bool" where
  "admittedFrom sha input a \<longleftrightarrow> altProfile a \<in> set (apProfiles (riPolicy input)) \<and>
     (\<exists>c \<in> set (riCandidates input). acRoute c = altRoute a \<and> acReport c = altReport a \<and> acProfile c = altProfile a) \<and>
     reportStatus (reportBody (altReport a)) = VALID \<and> routeFacts (altRoute a) = Inr (altFacts a) \<and>
     (\<exists>x. admitVerifiedCoverageRoute sha (altRoute a) (altReport a) = Inr x)"

definition wellChosen :: "alternative_policy \<Rightarrow> coverage_alternative list \<Rightarrow> bool" where
  "wellChosen policy alts \<longleftrightarrow> int (length alts) \<le> apRequested policy \<and> map altRank alts = [1..<Suc (length alts)] \<and>
     distinct (map (\<lambda>a. routeSignature (altRoute a)) alts) \<and> sorted_wrt (ranksBefore policy) alts \<and>
     sorted_wrt (\<lambda>a b. farEnough policy (altRoute a) (altRoute b)) alts"

text \<open>A candidate is left out for a reason: its route is there, the set is full, or a better route resembles its own.\<close>

definition accountedFor :: "result_input \<Rightarrow> coverage_alternative list \<Rightarrow> alternative_candidate \<Rightarrow> bool" where
  "accountedFor input alts c \<longleftrightarrow>
     routeSignature (acRoute c) \<in> (\<lambda>a. routeSignature (altRoute a)) ` set alts \<or>
     apRequested (riPolicy input) = int (length alts) \<or>
     (\<exists>a \<in> set alts. \<exists>d \<in> set (riCandidates input). routeSignature (acRoute d) = routeSignature (acRoute c) \<and>
        tooSimilar (riPolicy input) (altRoute a) (acRoute d))"

lemma compare_ranks:
  assumes "compareCandidates (profileOrder policy) x y \<le> 0" and "profileOrder policy (pcProfile x) \<noteq> None"
    and "profileOrder policy (pcProfile y) \<noteq> None"
  shows "\<exists>i j. profileOrder policy (pcProfile x) = Some i \<and> profileOrder policy (pcProfile y) = Some j \<and>
    (i < j \<or> i = j \<and> profileScore x \<le> profileScore y)"
  using assms by (auto simp: compareCandidates_def rankOf_def orElse_def split: if_splits)

lemma subseq_sorted_wrt: "subseq xs ys \<Longrightarrow> sorted_wrt P ys \<Longrightarrow> sorted_wrt P xs"
proof (induction rule: list_emb.induct)
  case (list_emb_Cons2 x y xs ys)
  have "set xs \<subseteq> set ys" using list_emb_Cons2 by (auto elim: list_emb_set)
  then show ?case using list_emb_Cons2 by auto
qed auto

lemma distinct_as_wrt: "distinct (map f xs) \<longleftrightarrow> sorted_wrt (\<lambda>x y. f x \<noteq> f y) xs"
  by (induction xs) auto

lemma chosen_facts:
  assumes prepared: "mapR (prepareCandidate sha) (filter (\<lambda>c. profileOrder policy (acProfile c) \<noteq> None) candidates) = Inr admitted"
    and chosen: "selectCandidates policy [] (orderedCandidates (profileOrder policy) admitted) = Inr chosen"
    and positive: "1 \<le> apRequested policy"
  shows "int (length chosen) \<le> apRequested policy \<and> set chosen \<subseteq> set admitted \<and> distinct (map signatureOf chosen) \<and>
    sorted_by (compareCandidates (profileOrder policy)) chosen \<and>
    sorted_wrt (\<lambda>e c. farEnough policy (routeOf e) (routeOf c)) chosen \<and>
    (\<forall>c \<in> set admitted. signatureOf c \<in> signatureOf ` set chosen \<or> apRequested policy = int (length chosen) \<or>
       (\<exists>e \<in> set chosen. \<exists>d \<in> set admitted. signatureOf d = signatureOf c \<and> tooSimilar policy (routeOf e) (routeOf d)))"
proof -
  let ?ordered = "orderedCandidates (profileOrder policy) admitted"
  note ordered = ordered_facts [of "profileOrder policy" admitted]
  have sorted: "sorted_wrt (\<lambda>x y. compareCandidates (profileOrder policy) x y \<le> 0) ([] @ ?ordered)"
    using ordered by (simp add: sorted_by_def)
  obtain more where more: "chosen = [] @ more" "subseq more ?ordered" "int (length chosen) \<le> apRequested policy"
      "sorted_wrt (\<lambda>e c. farEnough policy (routeOf e) (routeOf c)) chosen"
      "\<forall>c \<in> set ?ordered - set more. leftOut policy (\<lambda>x y. compareCandidates (profileOrder policy) x y \<le> 0) chosen c"
    using selectCandidates_facts [OF chosen _ _ sorted] positive by auto
  have sub: "subseq chosen ?ordered" using more by simp
  have "set chosen \<subseteq> set ?ordered" using sub by (auto elim: list_emb_set)
  moreover have "distinct (map signatureOf chosen)"
    using ordered subseq_sorted_wrt [OF sub] unfolding distinct_as_wrt by blast
  moreover have "sorted_by (compareCandidates (profileOrder policy)) chosen"
    using subseq_sorted_wrt [OF sub] ordered unfolding sorted_by_def by blast
  moreover have "signatureOf c \<in> signatureOf ` set chosen \<or> apRequested policy = int (length chosen) \<or>
      (\<exists>e \<in> set chosen. \<exists>d \<in> set admitted. signatureOf d = signatureOf c \<and> tooSimilar policy (routeOf e) (routeOf d))"
    if c: "c \<in> set admitted" for c
  proof -
    obtain v where v: "v \<in> set ?ordered" "signatureOf v = signatureOf c" using ordered c by blast
    show ?thesis
    proof (cases "v \<in> set chosen")
      case True
      then show ?thesis using v(2) by (metis imageI)
    next
      case False
      then have "leftOut policy (\<lambda>x y. compareCandidates (profileOrder policy) x y \<le> 0) chosen v" using more(1,5) v(1) by simp
      moreover have "v \<in> set admitted" using ordered v(1) by blast
      ultimately show ?thesis using v(2) more(3) unfolding leftOut_def by auto
    qed
  qed
  ultimately show ?thesis using more(3,4) ordered by blast
qed

lemma resultSet_parts:
  assumes "buildVerifiedCoverageResultSet sha input = Inr rs"
  obtains admitted chosen identity where "validatePolicy (riPolicy input) = Inr ()" and "admittedCandidates sha input = Inr admitted"
    and "selectCandidates (riPolicy input) [] (orderedCandidates (profileOrder (riPolicy input)) admitted) = Inr chosen"
    and "mapR (alternative sha identity) (enumerate 1 chosen) = Inr (rsAlternatives (rsBody rs))"
    and "mapR pairSimilarity (orderedPairs (rsAlternatives (rsBody rs))) = Inr (rsPairs (rsBody rs))"
    and "rsStatus (rsBody rs) = resultStatus (riPolicy input) (length (rsAlternatives (rsBody rs)))"
    and "alternativeHash sha (resultBodyJson (rsBody rs)) = Inr (rsHash rs)"
  using assms unfolding buildVerifiedCoverageResultSet_def Let_def by (auto simp: bindR_eq_Inr)

lemma resultSet_facts:
  assumes run: "buildVerifiedCoverageResultSet sha input = Inr rs"
  shows "wellChosen (riPolicy input) (rsAlternatives (rsBody rs)) \<and>
    (\<forall>a \<in> set (rsAlternatives (rsBody rs)). admittedFrom sha input a) \<and>
    (\<forall>c \<in> set (riCandidates input). acProfile c \<in> set (apProfiles (riPolicy input)) \<longrightarrow>
       accountedFor input (rsAlternatives (rsBody rs)) c)"
proof -
  let ?policy = "riPolicy input" and ?alts = "rsAlternatives (rsBody rs)"
  obtain admitted chosen identity where p: "validatePolicy ?policy = Inr ()" "admittedCandidates sha input = Inr admitted"
    "selectCandidates ?policy [] (orderedCandidates (profileOrder ?policy) admitted) = Inr chosen"
    "mapR (alternative sha identity) (enumerate 1 chosen) = Inr ?alts"
    using resultSet_parts [OF run] by metis
  have positive: "1 \<le> apRequested ?policy" using p(1) by (auto simp: validatePolicy_def)
  note chosen = chosen_facts [OF p(2) [unfolded admittedCandidates_def] p(3) positive]
  note alts = alternatives_present [OF p(4)]
  have pairs: "list_all2 presents chosen ?alts" using alts by blast
  have len: "length ?alts = length chosen" using list_all2_lengthD [OF pairs] by simp
  have origin: "\<exists>c \<in> set (riCandidates input). acProfile c \<in> set (apProfiles ?policy) \<and> prepareCandidate sha c = Inr q"
    if q: "q \<in> set admitted" for q
    using mapR_member [OF p(2) [unfolded admittedCandidates_def] q] profileOrder_some by auto
  have known: "profileOrder ?policy (pcProfile q) \<noteq> None" if q: "q \<in> set admitted" for q
    using origin [OF q] prepareCandidate_fields profileOrder_some by metis
  have sub: "q \<in> set admitted" if "q \<in> set chosen" for q using chosen that by blast
  have "sorted_wrt (ranksBefore ?policy) ?alts"
  proof (rule sorted_wrt_all2 [OF pairs])
    show "sorted_wrt (\<lambda>x y. compareCandidates (profileOrder ?policy) x y \<le> 0) chosen" using chosen by (simp add: sorted_by_def)
    fix x y a b assume xy: "x \<in> set chosen" "y \<in> set chosen" "presents x a" "presents y b" "compareCandidates (profileOrder ?policy) x y \<le> 0"
    then show "ranksBefore ?policy a b"
      using compare_ranks [OF xy(5) known [OF sub [OF xy(1)]] known [OF sub [OF xy(2)]]]
      unfolding ranksBefore_def presents_def profileScore_def by simp
  qed
  moreover have "sorted_wrt (\<lambda>a b. farEnough ?policy (altRoute a) (altRoute b)) ?alts"
    by (rule sorted_wrt_all2 [OF pairs, of "\<lambda>e c. farEnough ?policy (routeOf e) (routeOf c)"]) (use chosen in \<open>simp_all add: presents_def\<close>)
  moreover have "sorted_wrt (\<lambda>a b. routeSignature (altRoute a) \<noteq> routeSignature (altRoute b)) ?alts"
    by (rule sorted_wrt_all2 [OF pairs, of "\<lambda>e c. signatureOf e \<noteq> signatureOf c"])
      (use chosen in \<open>simp_all add: presents_def signatureOf_def distinct_as_wrt\<close>)
  ultimately have "wellChosen ?policy ?alts" using chosen alts len unfolding wellChosen_def distinct_as_wrt by simp
  moreover have "admittedFrom sha input a" if a: "a \<in> set ?alts" for a
  proof -
    obtain q where q: "q \<in> set chosen" "presents q a" using list_all2_right [OF pairs a] by blast
    obtain c where c: "c \<in> set (riCandidates input)" "acProfile c \<in> set (apProfiles ?policy)" "prepareCandidate sha c = Inr q"
      using origin [OF sub [OF q(1)]] by blast
    note f = prepareCandidate_fields [OF c(3)]
    have "reportStatus (reportBody (acReport c)) = VALID" using f admission_iff by blast
    then show ?thesis using f c(1,2) q(2) unfolding admittedFrom_def presents_def by auto
  qed
  moreover have "accountedFor input ?alts c"
    if c: "c \<in> set (riCandidates input)" "acProfile c \<in> set (apProfiles ?policy)" for c
  proof -
    have "c \<in> set (filter (\<lambda>c. profileOrder ?policy (acProfile c) \<noteq> None) (riCandidates input))" using c profileOrder_some by simp
    then obtain q where q: "q \<in> set admitted" "prepareCandidate sha c = Inr q"
      using mapR_made [OF p(2) [unfolded admittedCandidates_def]] by blast
    note f = prepareCandidate_fields [OF q(2)]
    have shown: "\<exists>a \<in> set ?alts. altRoute a = routeOf e" if e: "e \<in> set chosen" for e
      using list_all2_left [OF pairs e] unfolding presents_def by blast
    have "signatureOf q \<in> signatureOf ` set chosen \<or> apRequested ?policy = int (length chosen) \<or>
       (\<exists>e \<in> set chosen. \<exists>d \<in> set admitted. signatureOf d = signatureOf q \<and> tooSimilar ?policy (routeOf e) (routeOf d))"
      using chosen q(1) by blast
    then consider e where "e \<in> set chosen" "signatureOf q = signatureOf e" | "apRequested ?policy = int (length chosen)"
      | e d where "e \<in> set chosen" "d \<in> set admitted" "signatureOf d = signatureOf q" "tooSimilar ?policy (routeOf e) (routeOf d)"
      by blast
    then show ?thesis
    proof cases
      case (1 e)
      then obtain a where "a \<in> set ?alts" "altRoute a = routeOf e" using shown by blast
      then have "routeSignature (acRoute c) = routeSignature (altRoute a)" using 1 f by (simp add: signatureOf_def)
      then show ?thesis using \<open>a \<in> set ?alts\<close> unfolding accountedFor_def by (intro disjI1) (rule rev_image_eqI)
    next
      case 2
      then show ?thesis unfolding accountedFor_def len by blast
    next
      case (3 e d)
      obtain a where a: "a \<in> set ?alts" "altRoute a = routeOf e" using shown 3(1) by blast
      obtain c' where c': "c' \<in> set (riCandidates input)" "prepareCandidate sha c' = Inr d" using origin [OF 3(2)] by blast
      have "routeOf d = acRoute c'" using prepareCandidate_fields [OF c'(2)] by blast
      then have "routeSignature (acRoute c') = routeSignature (acRoute c)" "tooSimilar ?policy (altRoute a) (acRoute c')"
        using 3(3,4) a(2) f by (simp_all add: signatureOf_def)
      then show ?thesis using a(1) c'(1) unfolding accountedFor_def by blast
    qed
  qed
  ultimately show ?thesis by blast
qed

lemma resultSet_status:
  assumes run: "buildVerifiedCoverageResultSet sha input = Inr rs"
  shows "mapR pairSimilarity (orderedPairs (rsAlternatives (rsBody rs))) = Inr (rsPairs (rsBody rs)) \<and>
    (rsStatus (rsBody rs) = SUCCEEDED \<longleftrightarrow> int (length (rsAlternatives (rsBody rs))) = apRequested (riPolicy input)) \<and>
    (rsStatus (rsBody rs) = NO_FEASIBLE_RESULT \<longleftrightarrow> rsAlternatives (rsBody rs) = [])"
proof -
  have p: "validatePolicy (riPolicy input) = Inr ()"
    "mapR pairSimilarity (orderedPairs (rsAlternatives (rsBody rs))) = Inr (rsPairs (rsBody rs))"
    "rsStatus (rsBody rs) = resultStatus (riPolicy input) (length (rsAlternatives (rsBody rs)))"
    using resultSet_parts [OF run] by metis+
  have "1 \<le> apMinimum (riPolicy input)" "1 \<le> apRequested (riPolicy input)" using p(1) by (auto simp: validatePolicy_def)
  moreover have "int (length (rsAlternatives (rsBody rs))) \<le> apRequested (riPolicy input)"
    using resultSet_facts [OF run] unfolding wellChosen_def by blast
  ultimately show ?thesis using p(2,3) by (auto simp: resultStatus_def)
qed

section \<open>Property\<close>

text \<open>
  C13. A result set offers verified, ranked and different routes, and leaves none out without a reason.
  Every alternative that \<open>buildVerifiedCoverageResultSet\<close> returns is a candidate of the input under a
  requested profile, with a VALID report that admits its route.  There are at most as many as requested,
  numbered from 1, ordered by profile and score, with distinct signatures, and every two of them are within
  the limits of overlap and deadhead distance.  A candidate of a requested profile that is missing has its
  route in the set, or the set is full, or a route of its signature is too similar to one in the set.  The
  pairwise table and the status are those of the alternatives.
\<close>

theorem alternatives_sound:
  assumes "buildVerifiedCoverageResultSet sha input = Inr rs"
  shows "wellChosen (riPolicy input) (rsAlternatives (rsBody rs)) \<and>
    (\<forall>a \<in> set (rsAlternatives (rsBody rs)). admittedFrom sha input a) \<and>
    (\<forall>c \<in> set (riCandidates input). acProfile c \<in> set (apProfiles (riPolicy input)) \<longrightarrow>
       accountedFor input (rsAlternatives (rsBody rs)) c) \<and>
    mapR pairSimilarity (orderedPairs (rsAlternatives (rsBody rs))) = Inr (rsPairs (rsBody rs)) \<and>
    (rsStatus (rsBody rs) = SUCCEEDED \<longleftrightarrow> int (length (rsAlternatives (rsBody rs))) = apRequested (riPolicy input)) \<and>
    (rsStatus (rsBody rs) = NO_FEASIBLE_RESULT \<longleftrightarrow> rsAlternatives (rsBody rs) = [])"
  using resultSet_facts [OF assms] resultSet_status [OF assms] by blast

text \<open>The same verified route under two profiles: one alternative, under the profile named first.\<close>

definition townResult :: "verification_report \<Rightarrow> result_input" where
  "townResult r = \<lparr>riRequestId = js ''q'', riIdentityScope = None, riProblemHash = [], riSnapshot = plainSnapshot,
     riPolicy = \<lparr>apRequested = 2, apMinimum = 1, apProfiles = [LEAST_DEADHEAD, FASTEST_COMPLETION], apMaximumOverlap = 500000,
       apMinimumDistance = 0\<rparr>,
     riCandidates = [\<lparr>acRoute = viCandidate townInput, acReport = r, acProfile = FASTEST_COMPLETION, acDiagnostics = JNull\<rparr>,
       \<lparr>acRoute = viCandidate townInput, acReport = r, acProfile = LEAST_DEADHEAD, acDiagnostics = JNull\<rparr>],
     riTermination = PROFILES_COMPLETE, riCreatedAt = [], riValidUntil = [], riIntegrity = None, riReasons = None\<rparr>"

lemma supported_withEntry [simp]: "supported d \<Longrightarrow> supported v \<Longrightarrow> supported (withEntry k v d)"
  by (cases d) (simp_all add: withEntry_def)

lemma supported_facts [simp]: "supported (factsJson facts)" "supported (verificationJson report)" "supported (resultIdentityJson input)"
  by (auto simp: factsJson_def verificationJson_def resultIdentityJson_def optionalEntry_def split: option.splits)

lemma alternative_diagnostics: "alternative sha identity ranked = Inr a \<Longrightarrow> altDiagnostics a = pcDiagnostics (snd ranked)"
  by (auto simp: alternative_def Let_def bindR_eq_Inr)

lemma alternativeHash_constant: "supported v \<Longrightarrow> alternativeHash (\<lambda>_. []) v = Inr (js ''sha256:'')"
  using contractSha256_constant [of v "[]"] by (simp add: alternativeHash_def)

lemma alternatives_sound_witness:
  "\<exists>r rs. buildVerifiedCoverageResultSet (\<lambda>_. []) (townResult r) = Inr rs \<and> rsStatus (rsBody rs) = PARTIAL \<and>
     map altProfile (rsAlternatives (rsBody rs)) = [LEAST_DEADHEAD] \<and>
     (\<forall>a \<in> set (rsAlternatives (rsBody rs)). reportStatus (reportBody (altReport a)) = VALID)"
proof -
  obtain r where r: "verifyCoverageRoute (\<lambda>_. []) townInput = Inr r" "reportStatus (reportBody r) = VALID" using town_verified by blast
  obtain x where x: "admitVerifiedCoverageRoute (\<lambda>_. []) (viCandidate townInput) r = Inr x" using verified_admission [OF r(1)] r(2) by blast
  have route: "admittedRoute x = viCandidate townInput" "admittedReport x = r" using x by (auto simp: admitVerifiedCoverageRoute_def bindR_eq_Inr)
  have "isOk (routeFacts (viCandidate townInput))" by code_simp
  then obtain facts where facts: "routeFacts (viCandidate townInput) = Inr facts" by (auto simp: isOk_iff)
  define q where "q p = \<lparr>pcAdmitted = x, pcProfile = p, pcDiagnostics = JNull, pcFacts = facts\<rparr>" for p
  have order: "profileOrder (riPolicy (townResult r)) LEAST_DEADHEAD = Some 0" "profileOrder (riPolicy (townResult r)) FASTEST_COMPLETION = Some 1"
    by (simp_all add: profileOrder_def townResult_def)
  have admitted: "admittedCandidates (\<lambda>_. []) (townResult r) = Inr [q FASTEST_COMPLETION, q LEAST_DEADHEAD]"
    using order x facts by (simp add: admittedCandidates_def prepareCandidate_def q_def townResult_def)
  have "compareCandidates (profileOrder (riPolicy (townResult r))) (q LEAST_DEADHEAD) (q FASTEST_COMPLETION) < 0"
    using order by (simp add: compareCandidates_def rankOf_def orElse_def q_def)
  then have ordered: "orderedCandidates (profileOrder (riPolicy (townResult r))) [q FASTEST_COMPLETION, q LEAST_DEADHEAD] = [q LEAST_DEADHEAD]"
    by (simp add: orderedCandidates_def keepBest_def signatureOf_def) (simp add: q_def)
  have "bodyBoundaryEvents (routeBody (viCandidate townInput)) = None" by code_simp
  then have doc: "supported (routeJson (viCandidate townInput))" by (simp add: routeJson_def supported_routeBody)
  have entries: "supported (JObj (alternativeEntries (q LEAST_DEADHEAD) (Suc 0)))"
    using doc route by (simp add: alternativeEntries_def q_def)
  obtain a where a: "alternative (\<lambda>_. []) (js ''sha256:'') (Suc 0, q LEAST_DEADHEAD) = Inr a"
    using entries by (simp add: alternative_def Let_def alternativeHash_constant supported_append)
  note fields = alternative_presents [OF a, unfolded presents_def]
  define body where "body = \<lparr>rsReference = derivedReference ''QUERY_RESULT'' (js ''sha256:''),
      rsId = js ''result_'' @ hashBody (js ''sha256:''), rsRequestId = riRequestId (townResult r),
      rsProblemHash = riProblemHash (townResult r), rsStatus = resultStatus (riPolicy (townResult r)) (Suc 0),
      rsSnapshot = riSnapshot (townResult r), rsCreatedAt = riCreatedAt (townResult r), rsValidUntil = riValidUntil (townResult r),
      rsTermination = riTermination (townResult r), rsAlternatives = [a], rsPairs = [],
      rsReceipts = resultReceipts (townResult r) (Suc (Suc 0)) (Suc 0) (Suc 0)\<rparr>"
  have "supported (alternativeJson a)" using fields doc route by (simp add: alternativeJson_def q_def alternative_diagnostics [OF a])
  then have bodyOk: "supported (resultBodyJson body)"
    by (simp add: resultBodyJson_def body_def resultReceipts_def townResult_def)
  have policy: "validatePolicy (riPolicy (townResult r)) = Inr ()" "apRequested (riPolicy (townResult r)) = 2" "apMinimum (riPolicy (townResult r)) = 1"
    by (simp_all add: townResult_def validatePolicy_def isSafeInteger_def maxSafeInteger_def)
  have run: "buildVerifiedCoverageResultSet (\<lambda>_. []) (townResult r) = Inr \<lparr>rsBody = body, rsHash = js ''sha256:''\<rparr>"
    using policy admitted ordered a bodyOk
    by (simp add: buildVerifiedCoverageResultSet_def alternativeHash_constant body_def [symmetric] Let_def)
  show ?thesis
    using alternatives_sound [OF run] run fields policy unfolding admittedFrom_def
    by (intro exI [of _ r] exI [of _ "\<lparr>rsBody = body, rsHash = js ''sha256:''\<rparr>"]) (simp add: body_def resultStatus_def q_def)
qed

end
