(* ===== verification/NetworkGraph.thy ===== *)
theory NetworkGraph
  imports
  RoadSelection
begin

text \<open>
  The built network of \<open>network-foundation/src\<close> (\<open>types.ts\<close>, \<open>canonical.ts\<close>, \<open>identity.ts\<close>): edges,
  the directed arcs over them, and the content-derived names of arcs and rules.

  \<open>canonical.ts\<close> sorts keys by code point like the contract's canonical JSON; it lets \<open>JSON.stringify\<close>
  print a re-built object, whose keys come out in that order as long as none of them is an array
  index, which no document here has.  A value that JSON cannot write (\<open>undefined\<close>, a function) makes the digest of
  the model fail, where \<open>JSON.stringify\<close> would leave it out; the typed documents digested here hold none.
\<close>

datatype network_error =
    PenaltyInconsistent
  | ArcWithoutEdge
  | TooFewFeatures
  | IncompleteCandidate
  | StateUnavailable
  | NoEmptyState
  | EmptyAllowlistValue
  | NotPositiveSafe
  | NotNonnegativeSafe
  | OutOfFixedPointRange
  | ProfileIdentityIncomplete
  | WeightsOffMillion
  | ArcOfOtherEdge
  | ConditionIntervalInvalid
  | ClosedArcWithSpeed
  | DuplicateOverrides
  | NegativeDivision
  | NotHashable json_error

section \<open>Names\<close>

definition networkHash :: "(js_string \<Rightarrow> js_string) \<Rightarrow> int json \<Rightarrow> network_error + js_string" where
  "networkHash sha v = map_sum NotHashable id (contractSha256 sha v)"

definition stableKey :: "(js_string \<Rightarrow> js_string) \<Rightarrow> string \<Rightarrow> int json \<Rightarrow> network_error + js_string" where
  "stableKey sha prefix v = bindR (networkHash sha v) (\<lambda>hash. Inr (js prefix @ js ''_'' @ hashDigits hash))"

definition networkArcKey :: "(js_string \<Rightarrow> js_string) \<Rightarrow> js_string \<Rightarrow> direction \<Rightarrow> network_error + js_string" where
  "networkArcKey sha edge direction =
     stableKey sha ''ar'' (JObj [(js ''edgeKey'', JStr edge), (js ''direction'', JStr (directionText direction))])"

section \<open>Edges and arcs\<close>

text \<open>The attributes the modelled code reads; lane counts, limits and free-form attributes are only stored.\<close>

record built_edge =
  beKey :: js_string
  beFeatureKey :: js_string
  beFeatureVersion :: js_string
  beSource :: js_string
  beTarget :: js_string
  beSplitStart :: int
  beSplitEnd :: int
  beLength :: int
  beRoadClass :: js_string
  beSurface :: "js_string option"
  beOneway :: oneway

record built_arc =
  baKey :: js_string
  baEdgeKey :: js_string
  baSource :: js_string
  baTarget :: js_string
  baDirection :: direction
  baLength :: int
  baDefaultSpeed :: int
  baAccessMask :: "int option"

record built_topology =
  btEdges :: "built_edge list"
  btArcs :: "built_arc list"

section \<open>Lists of keys as one text\<close>

text \<open>\<open>keys.join("\0")\<close>\<close>

fun joinNul :: "js_string list \<Rightarrow> js_string" where
  "joinNul [] = []"
| "joinNul [x] = x"
| "joinNul (x # y # ys) = x @ 0 # joinNul (y # ys)"

definition cleanKey :: "js_string \<Rightarrow> bool" where
  "cleanKey k \<longleftrightarrow> k \<noteq> [] \<and> 0 \<notin> set k"

lemma joinNul_inj: "list_all cleanKey xs \<Longrightarrow> list_all cleanKey ys \<Longrightarrow> joinNul xs = joinNul ys \<Longrightarrow> xs = ys"
proof (induction xs arbitrary: ys rule: joinNul.induct)
  case 1
  then show ?case by (cases ys rule: joinNul.cases) (auto simp: cleanKey_def)
next
  case (2 x)
  then show ?case by (cases ys rule: joinNul.cases) (auto simp: cleanKey_def)
next
  case one: (3 x y zs)
  show ?case
  proof (cases ys rule: joinNul.cases)
    case two: (3 x' y' zs')
    then have "x @ 0 # joinNul (y # zs) = x' @ 0 # joinNul (y' # zs')" "0 \<notin> set x" "0 \<notin> set x'"
      using one.prems by (auto simp: cleanKey_def)
    then have "x = x'" "joinNul (y # zs) = joinNul (y' # zs')"
      by (auto simp: separated)
    then show ?thesis using one.IH [of "y' # zs'"] one.prems two by simp
  qed (use one.prems in \<open>auto simp: cleanKey_def\<close>)
qed

end
