(* ===== verification/NetworkTurns.thy ===== *)
theory NetworkTurns
  imports
  NetworkGraph
  TravelRules
  KeyedLists
begin

text \<open>
  Turn restrictions, \<open>network-foundation/src/turn-restrictions.ts\<close>: restrictions between road features
  are compiled to rules between arcs, and the rules over longer sequences to an automaton whose states
  are the prefixes of the rules.  The automaton is shown to recognise exactly the rules that end at the
  arc just driven, however long the drive before it was.

  Filters and evidence are JSON documents that are passed on.
\<close>

section \<open>Data\<close>

record turn_source =
  tsReference :: js_string
  tsType :: rule_type
  tsPenalty :: "int option"
  tsFilter :: "int json option"
  tsEvidence :: "int json list option"

record pairwise_source = turn_source +
  psFrom :: js_string
  psVia :: js_string
  psTo :: js_string

record sequence_source = turn_source +
  ssFeatures :: "js_string list"

record turn_content =
  tcType :: rule_type
  tcPenalty :: int
  tcFilter :: "int json"
  tcEvidence :: "int json list"

record pairwise_rule = turn_content +
  prKey :: js_string
  prFrom :: js_string
  prVia :: js_string
  prTo :: js_string
  prHash :: js_string

record pending_rule = turn_content +
  srKey :: js_string
  srArcs :: "js_string list"

record sequence_rule =
  sqRule :: pending_rule
  sqAutomatonHash :: js_string
  sqHash :: js_string

datatype mismatch_reason = ZERO_MATCHES | AMBIGUOUS_MATCHES

record turn_diagnostic =
  tdBlocking :: bool
  tdReference :: js_string
  tdReason :: mismatch_reason
  tdCount :: nat

record automaton_state =
  asId :: nat
  asPrefix :: "js_string list"

record automaton_rule =
  arKey :: js_string
  arArcs :: "js_string list"
  arType :: rule_type
  arPenalty :: int

record turn_automaton =
  taStates :: "automaton_state list"
  taRules :: "automaton_rule list"
  taHash :: js_string

record automaton_step =
  stState :: nat
  stMatched :: "js_string list"
  stForbidden :: bool
  stPenalty :: int

record compiled_turns =
  ctPairwise :: "pairwise_rule list"
  ctSequences :: "sequence_rule list"
  ctAutomaton :: turn_automaton
  ctDiagnostics :: "turn_diagnostic list"
  ctHash :: js_string

section \<open>Matching features to arcs\<close>

definition validatePenalty :: "rule_type \<Rightarrow> int option \<Rightarrow> network_error + int" where
  "validatePenalty kind penalty =
     (let v = (case penalty of None \<Rightarrow> 0 | Some p \<Rightarrow> p) in
      if \<not> isSafeInteger v \<or> v < 0 \<or> (if kind = PENALTY then v = 0 else v \<noteq> 0) then Inl PenaltyInconsistent else Inr v)"

definition indexArc ::
  "(js_string \<rightharpoonup> js_string) \<Rightarrow> (js_string \<times> built_arc list) list \<Rightarrow> built_arc \<Rightarrow> network_error + (js_string \<times> built_arc list) list" where
  "indexArc edgeFeatures index arc =
     (case edgeFeatures (baEdgeKey arc) of
        None \<Rightarrow> Inl ArcWithoutEdge
      | Some feature \<Rightarrow> if feature = [] then Inl ArcWithoutEdge
          else Inr (AList.update feature ((case map_of index feature of None \<Rightarrow> [] | Some arcs \<Rightarrow> arcs) @ [arc]) index))"

definition arcsByFeature :: "built_topology \<Rightarrow> network_error + (js_string \<rightharpoonup> built_arc list)" where
  "arcsByFeature topology =
     (let edgeFeatures = map_of (rev (map (\<lambda>e. (beKey e, beFeatureKey e)) (btEdges topology))) in
      bindR (foldR (indexArc edgeFeatures) [] (btArcs topology)) (\<lambda>index.
      Inr (map_of (map (\<lambda>(k, arcs). (k, sort_by (\<lambda>l r. compareUnicodeCodePoints (baKey l) (baKey r)) arcs)) index))))"

definition arcsOn :: "(js_string \<rightharpoonup> built_arc list) \<Rightarrow> js_string \<Rightarrow> built_arc list" where
  "arcsOn index feature = (case index feature of None \<Rightarrow> [] | Some arcs \<Rightarrow> arcs)"

definition extendPaths :: "(js_string \<rightharpoonup> built_arc list) \<Rightarrow> built_arc list list \<Rightarrow> js_string \<Rightarrow> built_arc list list" where
  "extendPaths index paths feature =
     concat (map (\<lambda>path. map (\<lambda>candidate. path @ [candidate])
       (filter (\<lambda>candidate. path \<noteq> [] \<and> baTarget (last path) = baSource candidate) (arcsOn index feature))) paths)"

definition contiguousSequences :: "js_string list \<Rightarrow> (js_string \<rightharpoonup> built_arc list) \<Rightarrow> network_error + built_arc list list" where
  "contiguousSequences features index =
     (case features of
        first # second # rest \<Rightarrow>
          Inr (foldl (extendPaths index) (map (\<lambda>arc. [arc]) (arcsOn index first)) (second # rest))
      | _ \<Rightarrow> Inl TooFewFeatures)"

definition diagnostic :: "js_string \<Rightarrow> rule_type \<Rightarrow> nat \<Rightarrow> turn_diagnostic" where
  "diagnostic reference kind found =
     \<lparr>tdBlocking = (kind \<noteq> PENALTY), tdReference = reference,
      tdReason = (if found = 0 then ZERO_MATCHES else AMBIGUOUS_MATCHES), tdCount = found\<rparr>"

section \<open>Documents\<close>

fun ruleTypeText :: "rule_type \<Rightarrow> js_string" where
  "ruleTypeText FORBIDDEN = js ''FORBIDDEN''"
| "ruleTypeText ALLOWED_ONLY = js ''ALLOWED_ONLY''"
| "ruleTypeText PENALTY = js ''PENALTY''"

definition contentEntries :: "('a) turn_content_scheme \<Rightarrow> (js_string \<times> int json) list" where
  "contentEntries c = [(js ''ruleType'', JStr (ruleTypeText (tcType c))), (js ''penaltyUnits'', JNum (tcPenalty c)),
     (js ''profileFilter'', tcFilter c), (js ''evidence'', JArr (tcEvidence c))]"

definition pairwiseEntries :: "pairwise_rule \<Rightarrow> (js_string \<times> int json) list" where
  "pairwiseEntries r = [(js ''fromArcKey'', JStr (prFrom r)), (js ''viaNodeKey'', JStr (prVia r)), (js ''toArcKey'', JStr (prTo r))] @
     contentEntries r"

definition sequenceEntries :: "pending_rule \<Rightarrow> (js_string \<times> int json) list" where
  "sequenceEntries r = (js ''arcSequence'', JArr (map JStr (srArcs r))) # contentEntries r"

definition contentOf :: "'a turn_source_scheme \<Rightarrow> int \<Rightarrow> turn_content" where
  "contentOf source penalty =
     \<lparr>tcType = tsType source, tcPenalty = penalty,
      tcFilter = (case tsFilter source of None \<Rightarrow> JObj [] | Some f \<Rightarrow> f),
      tcEvidence = (case tsEvidence source of None \<Rightarrow> [] | Some e \<Rightarrow> e)\<rparr>"

section \<open>The automaton\<close>

definition notePrefix :: "js_string list list \<Rightarrow> js_string list \<Rightarrow> js_string list list" where
  "notePrefix known p = (if joinNul p \<in> set (map joinNul known) then known else known @ [p])"

definition rulePrefixes :: "pending_rule list \<Rightarrow> js_string list list" where
  "rulePrefixes rules =
     foldl notePrefix [[]] (concat (map (\<lambda>r. map (\<lambda>n. take n (srArcs r)) [1..<length (srArcs r) + 1]) rules))"

definition comparePrefixes :: "js_string list \<Rightarrow> js_string list \<Rightarrow> int" where
  "comparePrefixes l r = orElse (int (length l) - int (length r)) (compareUnicodeCodePoints (joinNul l) (joinNul r))"

definition automatonStates :: "pending_rule list \<Rightarrow> automaton_state list" where
  "automatonStates rules =
     map (\<lambda>(i, p). \<lparr>asId = i, asPrefix = p\<rparr>) (enumerate 0 (sort_by comparePrefixes (rulePrefixes rules)))"

definition automatonRules :: "pending_rule list \<Rightarrow> automaton_rule list" where
  "automatonRules rules = sort_by (\<lambda>l r. compareUnicodeCodePoints (arKey l) (arKey r))
     (map (\<lambda>r. \<lparr>arKey = srKey r, arArcs = srArcs r, arType = tcType r, arPenalty = tcPenalty r\<rparr>) rules)"

definition automatonFor :: "(js_string \<Rightarrow> js_string) \<Rightarrow> pending_rule list \<Rightarrow> network_error + turn_automaton" where
  "automatonFor sha rules =
     (let states = automatonStates rules; normalized = automatonRules rules in
      bindR (networkHash sha (JObj
        [(js ''states'', JArr (map (\<lambda>s. JObj [(js ''stateId'', JNum (int (asId s))), (js ''prefix'', JArr (map JStr (asPrefix s)))]) states)),
         (js ''rules'', JArr (map (\<lambda>r. JObj [(js ''ruleKey'', JStr (arKey r)), (js ''arcSequence'', JArr (map JStr (arArcs r))),
            (js ''ruleType'', JStr (ruleTypeText (arType r))), (js ''penaltyUnits'', JNum (arPenalty r))]) normalized))]))
        (\<lambda>hash. Inr \<lparr>taStates = states, taRules = normalized, taHash = hash\<rparr>))"

text \<open>\<open>every((item, index) => item === candidate[candidate.length - n + index])\<close>\<close>

definition endsWith :: "js_string list \<Rightarrow> js_string list \<Rightarrow> bool" where
  "endsWith candidate seq \<longleftrightarrow> length seq \<le> length candidate \<and> drop (length candidate - length seq) candidate = seq"

definition longestFirst :: "automaton_state \<Rightarrow> automaton_state \<Rightarrow> int" where
  "longestFirst l r = orElse (int (length (asPrefix r)) - int (length (asPrefix l))) (int (asId l) - int (asId r))"

definition advanceSequenceAutomaton :: "turn_automaton \<Rightarrow> nat \<Rightarrow> js_string \<Rightarrow> network_error + automaton_step" where
  "advanceSequenceAutomaton automaton stateId arc =
     (case find (\<lambda>s. asId s = stateId) (taStates automaton) of
        None \<Rightarrow> Inl StateUnavailable
      | Some state \<Rightarrow>
          let candidate = asPrefix state @ [arc]; matched = filter (\<lambda>r. endsWith candidate (arArcs r)) (taRules automaton) in
          (case find (\<lambda>s. endsWith candidate (asPrefix s)) (sort_by longestFirst (taStates automaton)) of
             None \<Rightarrow> Inl NoEmptyState
           | Some next \<Rightarrow> Inr \<lparr>stState = asId next, stMatched = sort_by compareText (map arKey matched),
               stForbidden = list_ex (\<lambda>r. arType r = FORBIDDEN) matched,
               stPenalty = foldl (\<lambda>total r. total + arPenalty r) 0 matched\<rparr>))"

section \<open>Compilation\<close>

text \<open>What a restriction becomes: a rule, or a diagnostic.\<close>

definition compilePairwise ::
  "(js_string \<Rightarrow> js_string) \<Rightarrow> (js_string \<rightharpoonup> built_arc list) \<Rightarrow> pairwise_source \<Rightarrow> network_error + (turn_diagnostic + pairwise_rule)" where
  "compilePairwise sha index source =
     bindR (contiguousSequences [psFrom source, psTo source] index) (\<lambda>found.
     let candidates = filter (\<lambda>p. length p = 2 \<and> baTarget (p ! 0) = psVia source \<and> baSource (p ! 1) = psVia source) found in
     (case candidates of
        [[from1, to1]] \<Rightarrow>
          bindR (validatePenalty (tsType source) (tsPenalty source)) (\<lambda>penalty.
          let content = contentOf source penalty;
              rule = turn_content.extend content \<lparr>prKey = [], prFrom = baKey from1, prVia = psVia source, prTo = baKey to1, prHash = []\<rparr> in
          bindR (stableKey sha ''tr'' (JObj ((js ''restrictionReferenceKey'', JStr (tsReference source)) # pairwiseEntries rule))) (\<lambda>key.
          bindR (networkHash sha (JObj ((js ''ruleKey'', JStr key) # pairwiseEntries rule))) (\<lambda>hash.
          Inr (Inr (rule\<lparr>prKey := key, prHash := hash\<rparr>)))))
      | [_] \<Rightarrow> Inl IncompleteCandidate
      | _ \<Rightarrow> Inr (Inl (diagnostic (tsReference source) (tsType source) (length candidates)))))"

definition compileSequence ::
  "(js_string \<Rightarrow> js_string) \<Rightarrow> (js_string \<rightharpoonup> built_arc list) \<Rightarrow> sequence_source \<Rightarrow> network_error + (turn_diagnostic + pending_rule)" where
  "compileSequence sha index source =
     bindR (contiguousSequences (ssFeatures source) index) (\<lambda>candidates.
     (case candidates of
        [path] \<Rightarrow>
          bindR (validatePenalty (tsType source) (tsPenalty source)) (\<lambda>penalty.
          let rule = turn_content.extend (contentOf source penalty) \<lparr>srKey = [], srArcs = map baKey path\<rparr> in
          bindR (stableKey sha ''ts'' (JObj ((js ''restrictionReferenceKey'', JStr (tsReference source)) # sequenceEntries rule)))
            (\<lambda>key. Inr (Inr (rule\<lparr>srKey := key\<rparr>))))
      | _ \<Rightarrow> Inr (Inl (diagnostic (tsReference source) (tsType source) (length candidates)))))"

fun diagnosticsOf :: "('d + 'r) list \<Rightarrow> 'd list" where
  "diagnosticsOf [] = []"
| "diagnosticsOf (Inl d # rest) = d # diagnosticsOf rest"
| "diagnosticsOf (Inr r # rest) = diagnosticsOf rest"

fun rulesOf :: "('d + 'r) list \<Rightarrow> 'r list" where
  "rulesOf [] = []"
| "rulesOf (Inl d # rest) = rulesOf rest"
| "rulesOf (Inr r # rest) = r # rulesOf rest"

definition sequenceJson :: "pending_rule \<Rightarrow> (js_string \<times> int json) list" where
  "sequenceJson r = (js ''ruleKey'', JStr (srKey r)) # sequenceEntries r"

definition signSequence :: "(js_string \<Rightarrow> js_string) \<Rightarrow> js_string \<Rightarrow> pending_rule \<Rightarrow> network_error + sequence_rule" where
  "signSequence sha automatonHash r =
     bindR (networkHash sha (JObj (sequenceJson r @ [(js ''automatonHash'', JStr automatonHash)]))) (\<lambda>hash.
     Inr \<lparr>sqRule = r, sqAutomatonHash = automatonHash, sqHash = hash\<rparr>)"

definition diagnosticJson :: "turn_diagnostic \<Rightarrow> int json" where
  "diagnosticJson d = JObj
     [(js ''severity'', JStr (if tdBlocking d then js ''FATAL'' else js ''WARNING'')),
      (js ''issueCode'', JStr (if tdBlocking d then js ''UNRESOLVED_HARD_TURN_RESTRICTION'' else js ''UNRESOLVED_SOFT_TURN_RESTRICTION'')),
      (js ''activationBlocking'', JBool (tdBlocking d)), (js ''restrictionReferenceKey'', JStr (tdReference d)),
      (js ''reason'', JStr (if tdReason d = ZERO_MATCHES then js ''ZERO_MATCHES'' else js ''AMBIGUOUS_MATCHES'')),
      (js ''candidateCount'', JNum (int (tdCount d)))]"

definition compileTurnRestrictions ::
  "(js_string \<Rightarrow> js_string) \<Rightarrow> built_topology \<Rightarrow> pairwise_source list \<Rightarrow> sequence_source list \<Rightarrow> network_error + compiled_turns" where
  "compileTurnRestrictions sha topology pairSources sequences =
     bindR (arcsByFeature topology) (\<lambda>index.
     bindR (mapR (compilePairwise sha index) pairSources) (\<lambda>pairs.
     bindR (mapR (compileSequence sha index) sequences) (\<lambda>pending.
     let pairRules = sort_by (\<lambda>l r. compareUnicodeCodePoints (prKey l) (prKey r)) (rulesOf pairs);
         pendingRules = sort_by (\<lambda>l r. compareUnicodeCodePoints (srKey l) (srKey r)) (rulesOf pending);
         diagnostics = sort_by (\<lambda>l r. compareUnicodeCodePoints (tdReference l) (tdReference r)) (diagnosticsOf pairs @ diagnosticsOf pending) in
     bindR (automatonFor sha pendingRules) (\<lambda>automaton.
     bindR (mapR (signSequence sha (taHash automaton)) pendingRules) (\<lambda>sequenceRules.
     bindR (networkHash sha (JObj
       [(js ''pairwiseRules'', JArr (map (\<lambda>r. JObj ((js ''ruleKey'', JStr (prKey r)) # pairwiseEntries r @ [(js ''contentHash'', JStr (prHash r))])) pairRules)),
        (js ''sequenceRules'', JArr (map (\<lambda>s. JObj (sequenceJson (sqRule s) @ [(js ''automatonHash'', JStr (sqAutomatonHash s)),
          (js ''contentHash'', JStr (sqHash s))])) sequenceRules)),
        (js ''diagnostics'', JArr (map diagnosticJson diagnostics)), (js ''automatonHash'', JStr (taHash automaton))])) (\<lambda>hash.
     Inr \<lparr>ctPairwise = pairRules, ctSequences = sequenceRules, ctAutomaton = automaton, ctDiagnostics = diagnostics, ctHash = hash\<rparr>))))))"

section \<open>Prefixes of rules\<close>

definition prefixesOf :: "pending_rule list \<Rightarrow> js_string list set" where
  "prefixesOf rules = {[]} \<union> {take n (srArcs r) |n r. r \<in> set rules}"

lemma notePrefix_distinct: "distinct (map joinNul known) \<Longrightarrow> distinct (map joinNul (foldl notePrefix known ps))"
  by (induction ps arbitrary: known) (simp_all add: notePrefix_def)

lemma notePrefix_within: "set (foldl notePrefix known ps) \<subseteq> set known \<union> set ps"
proof (induction ps arbitrary: known)
  case (Cons p ps)
  have "set (notePrefix known p) \<subseteq> insert p (set known)" by (auto simp: notePrefix_def)
  then show ?case using Cons.IH [of "notePrefix known p"] by auto
qed simp

lemma notePrefix_joined: "joinNul ` set (foldl notePrefix known ps) = joinNul ` (set known \<union> set ps)"
  by (induction ps arbitrary: known) (auto simp: notePrefix_def image_iff)

definition cleanRules :: "pending_rule list \<Rightarrow> bool" where
  "cleanRules rules \<longleftrightarrow> list_all (\<lambda>r. list_all cleanKey (srArcs r)) rules"

lemma listed_prefixes:
  "insert [] (set (concat (map (\<lambda>r. map (\<lambda>n. take n (srArcs r)) [1..<length (srArcs r) + 1]) rules))) = prefixesOf rules"
proof -
  have one: "insert [] ((\<lambda>n. take n xs) ` set [1..<length xs + 1]) = insert [] (range (\<lambda>n. take n xs))" for xs :: "js_string list"
  proof -
    have "take n xs \<in> insert [] ((\<lambda>n. take n xs) ` set [1..<length xs + 1])" for n
    proof (cases "take n xs = []")
      case False
      then have "min n (length xs) \<in> set [1..<length xs + 1]" "take n xs = take (min n (length xs)) xs"
        by (auto simp: Suc_le_eq min_def)
      then show ?thesis by (metis imageI insertI2)
    qed simp
    then show ?thesis by blast
  qed
  have "insert [] (set (concat (map (\<lambda>r. map (\<lambda>n. take n (srArcs r)) [1..<length (srArcs r) + 1]) rules))) =
      insert [] (\<Union>r \<in> set rules. insert [] ((\<lambda>n. take n (srArcs r)) ` set [1..<length (srArcs r) + 1]))"
    by (simp only: set_concat set_map image_image) blast
  also have "\<dots> = prefixesOf rules" unfolding one prefixesOf_def by blast
  finally show ?thesis .
qed

lemma clean_prefix: "cleanRules rules \<Longrightarrow> p \<in> prefixesOf rules \<Longrightarrow> list_all cleanKey p"
  by (auto simp: cleanRules_def prefixesOf_def list_all_iff dest: in_set_takeD)

lemma rulePrefixes_exact:
  assumes "cleanRules rules"
  shows "set (rulePrefixes rules) = prefixesOf rules"
proof -
  let ?ps = "concat (map (\<lambda>r. map (\<lambda>n. take n (srArcs r)) [1..<length (srArcs r) + 1]) rules)"
  have within: "set (rulePrefixes rules) \<subseteq> prefixesOf rules"
    using notePrefix_within [of "[[]]" ?ps] listed_prefixes [of rules] by (simp add: rulePrefixes_def)
  have "joinNul ` set (rulePrefixes rules) = joinNul ` prefixesOf rules"
    unfolding rulePrefixes_def listed_prefixes [symmetric] notePrefix_joined by simp
  moreover have "inj_on joinNul (prefixesOf rules)"
    using joinNul_inj clean_prefix [OF assms] by (auto intro!: inj_onI)
  ultimately show ?thesis using within by (meson inj_on_image_eq_iff order_refl)
qed

section \<open>States are the longest prefixes\<close>

lemma endsWith_suffix: "endsWith candidate xs \<longleftrightarrow> suffix xs candidate"
proof
  assume "endsWith candidate xs"
  then show "suffix xs candidate" by (metis endsWith_def suffix_drop)
qed (auto simp: endsWith_def suffix_def)

interpretation prefix_order: js_order comparePrefixes
  unfolding comparePrefixes_def by (intro order_intros)

interpretation longest_order: js_order longestFirst
proof -
  have "js_order (\<lambda>l r :: automaton_state. int (length (asPrefix r)) - int (length (asPrefix l)))"
    using js_order_diff [of "\<lambda>s. - int (length (asPrefix s))"] by simp
  then show "js_order longestFirst" unfolding longestFirst_def by (intro order_intros)
qed

definition statePrefixes :: "pending_rule list \<Rightarrow> js_string list list" where
  "statePrefixes rules = sort_by comparePrefixes (rulePrefixes rules)"

definition stateOf :: "pending_rule list \<Rightarrow> nat \<Rightarrow> automaton_state" where
  "stateOf rules i = \<lparr>asId = i, asPrefix = statePrefixes rules ! i\<rparr>"

lemma automatonStates_list: "automatonStates rules = map (stateOf rules) [0..<length (statePrefixes rules)]"
  by (rule nth_equalityI) (auto simp: automatonStates_def statePrefixes_def stateOf_def nth_enumerate_eq)

lemma state_found:
  assumes "i < length (statePrefixes rules)"
  shows "find (\<lambda>s. asId s = i) (automatonStates rules) = Some (stateOf rules i)"
  unfolding automatonStates_list find_Some_iff using assms by (intro exI [of _ i]) (simp add: stateOf_def)

lemma first_state:
  assumes "cleanRules rules"
  shows "statePrefixes rules ! 0 = [] \<and> 0 < length (statePrefixes rules)"
proof -
  have "[] \<in> set (statePrefixes rules)" using rulePrefixes_exact [OF assms] by (simp add: statePrefixes_def prefixesOf_def)
  moreover have "sorted_by comparePrefixes (statePrefixes rules)" by (simp add: statePrefixes_def prefix_order.sorted_sort_by)
  ultimately show ?thesis
    by (cases "statePrefixes rules") (auto simp: sorted_by_def comparePrefixes_def orElse_def split: if_splits)
qed

definition longestPrefix :: "pending_rule list \<Rightarrow> js_string list \<Rightarrow> js_string list \<Rightarrow> bool" where
  "longestPrefix rules drive q \<longleftrightarrow>
     q \<in> prefixesOf rules \<and> suffix q drive \<and> (\<forall>p \<in> prefixesOf rules. suffix p drive \<longrightarrow> length p \<le> length q)"

lemma prefix_closed: "p @ [a] \<in> prefixesOf rules \<Longrightarrow> p \<in> prefixesOf rules"
proof -
  assume "p @ [a] \<in> prefixesOf rules"
  then obtain n r where r: "r \<in> set rules" "p @ [a] = take n (srArcs r)" by (auto simp: prefixesOf_def)
  then have "p = take (length p) (srArcs r)" by (metis append_take_drop_id append_assoc append_eq_conv_conj)
  then show ?thesis using r(1) unfolding prefixesOf_def by blast
qed

text \<open>What ends at the last arc of a drive already ends at the last arc of its longest prefix and that arc.\<close>

lemma longest_enough:
  assumes "longestPrefix rules drive q" and "p \<in> prefixesOf rules"
  shows "suffix p (drive @ [arc]) \<longleftrightarrow> suffix p (q @ [arc])"
proof
  assume p: "suffix p (drive @ [arc])"
  show "suffix p (q @ [arc])"
  proof (cases p rule: rev_exhaust)
    case (snoc p' a)
    then have "suffix p' drive" "a = arc" using p by simp_all
    moreover have "p' \<in> prefixesOf rules" using assms(2) snoc prefix_closed by blast
    ultimately have "length p' \<le> length q" "suffix q drive" using assms(1) unfolding longestPrefix_def by blast+
    then have "suffix p' q" using \<open>suffix p' drive\<close> suffix_length_suffix by blast
    then show ?thesis using snoc \<open>a = arc\<close> by simp
  qed simp
next
  assume "suffix p (q @ [arc])"
  moreover have "suffix (q @ [arc]) (drive @ [arc])" using assms(1) by (simp add: longestPrefix_def)
  ultimately show "suffix p (drive @ [arc])" using suffix_order.trans by blast
qed

lemma longest_next:
  assumes clean: "cleanRules rules" and q: "longestPrefix rules drive q"
  shows "\<exists>i < length (statePrefixes rules).
     find (\<lambda>s. endsWith (q @ [arc]) (asPrefix s)) (sort_by longestFirst (automatonStates rules)) = Some (stateOf rules i) \<and>
     longestPrefix rules (drive @ [arc]) (statePrefixes rules ! i)"
proof -
  let ?ss = "sort_by longestFirst (automatonStates rules)" and ?P = "\<lambda>s. endsWith (q @ [arc]) (asPrefix s)"
  have states: "set (statePrefixes rules) = prefixesOf rules" using rulePrefixes_exact [OF clean] by (simp add: statePrefixes_def)
  have "stateOf rules 0 \<in> set ?ss" "?P (stateOf rules 0)"
    using first_state [OF clean] by (auto simp: automatonStates_list stateOf_def endsWith_suffix)
  then obtain s where s: "find ?P ?ss = Some s" by (cases "find ?P ?ss") (auto simp: find_None_iff)
  then obtain k where k: "k < length ?ss" "?P s" "s = ?ss ! k" "\<And>j. j < k \<Longrightarrow> \<not> ?P (?ss ! j)" unfolding find_Some_iff by blast
  then have "s \<in> set (automatonStates rules)" by (metis nth_mem set_sort_by)
  then obtain i where i: "i < length (statePrefixes rules)" "s = stateOf rules i" by (auto simp: automatonStates_list)
  have best: "length p \<le> length (asPrefix s)" if p: "p \<in> prefixesOf rules" "suffix p (q @ [arc])" for p
  proof -
    obtain m where m: "m < length (statePrefixes rules)" "statePrefixes rules ! m = p" using p(1) states by (metis in_set_conv_nth)
    then have "stateOf rules m \<in> set ?ss" by (simp add: automatonStates_list)
    then obtain j where j: "j < length ?ss" "?ss ! j = stateOf rules m" by (metis in_set_conv_nth)
    have "?P (?ss ! j)" using j m p(2) by (simp add: stateOf_def endsWith_suffix)
    then have "k \<le> j" using k(4) by (meson leI)
    then have "longestFirst s (stateOf rules m) \<le> 0"
      using longest_order.sorted_sort_by [of "automatonStates rules"] j k(1,3) longest_order.cmp_refl
      unfolding sorted_by_def sorted_wrt_iff_nth_less by (metis le_neq_implies_less order_refl)
    then show ?thesis using m by (auto simp: longestFirst_def orElse_def stateOf_def split: if_splits)
  qed
  have "asPrefix s = statePrefixes rules ! i" using i by (simp add: stateOf_def)
  moreover have "statePrefixes rules ! i \<in> prefixesOf rules" using i(1) states nth_mem by blast
  ultimately have "longestPrefix rules (drive @ [arc]) (statePrefixes rules ! i)"
    using k(2) best longest_enough [OF q, of _ arc] unfolding longestPrefix_def endsWith_suffix by auto
  then show ?thesis using s i by auto
qed

section \<open>A drive through the automaton\<close>

text \<open>The automaton is driven arc by arc from state 0, the empty prefix.\<close>

fun driveAutomaton :: "turn_automaton \<Rightarrow> nat \<Rightarrow> js_string list \<Rightarrow> network_error + automaton_step list" where
  "driveAutomaton automaton state [] = Inr []"
| "driveAutomaton automaton state (arc # arcs) =
     bindR (advanceSequenceAutomaton automaton state arc) (\<lambda>step.
     bindR (driveAutomaton automaton (stState step) arcs) (\<lambda>steps. Inr (step # steps)))"

text \<open>What the rules say of a drive: those whose whole sequence was just driven.\<close>

definition ending :: "pending_rule list \<Rightarrow> js_string list \<Rightarrow> pending_rule list" where
  "ending rules drive = filter (\<lambda>r. suffix (srArcs r) drive) rules"

definition verdictOn :: "pending_rule list \<Rightarrow> js_string list \<Rightarrow> automaton_step \<Rightarrow> bool" where
  "verdictOn rules drive step \<longleftrightarrow>
     stMatched step = sort_by compareText (map srKey (ending rules drive)) \<and>
     (stForbidden step \<longleftrightarrow> (\<exists>r \<in> set (ending rules drive). tcType r = FORBIDDEN)) \<and>
     stPenalty step = sum_list (map tcPenalty (ending rules drive))"

definition inKeyOrder :: "pending_rule list \<Rightarrow> bool" where
  "inKeyOrder rules \<longleftrightarrow> sort_by (\<lambda>l r. compareUnicodeCodePoints (srKey l) (srKey r)) rules = rules"

lemma automatonFor_parts:
  "automatonFor sha rules = Inr a \<Longrightarrow> taStates a = automatonStates rules \<and> taRules a = automatonRules rules"
  by (auto simp: automatonFor_def Let_def bindR_eq_Inr)

lemma automatonRules_list:
  "inKeyOrder rules \<Longrightarrow> automatonRules rules =
     map (\<lambda>r. \<lparr>arKey = srKey r, arArcs = srArcs r, arType = tcType r, arPenalty = tcPenalty r\<rparr>) rules"
  by (simp add: automatonRules_def sort_by_map inKeyOrder_def)

lemma foldl_total: "foldl (\<lambda>total r. total + f r) t xs = t + sum_list (map f xs)" for t :: int
  by (induction xs arbitrary: t) auto

lemma rule_prefix: "r \<in> set rules \<Longrightarrow> srArcs r \<in> prefixesOf rules"
  unfolding prefixesOf_def by (metis (mono_tags, lifting) UnI2 mem_Collect_eq order_refl take_all)

lemma automaton_advances:
  assumes clean: "cleanRules rules" and order: "inKeyOrder rules" and a: "automatonFor sha rules = Inr a"
    and i: "i < length (statePrefixes rules)" and q: "longestPrefix rules drive (statePrefixes rules ! i)"
  shows "\<exists>step. advanceSequenceAutomaton a i arc = Inr step \<and> stState step < length (statePrefixes rules) \<and>
    longestPrefix rules (drive @ [arc]) (statePrefixes rules ! stState step) \<and> verdictOn rules (drive @ [arc]) step"
proof -
  let ?q = "statePrefixes rules ! i"
  obtain j where j: "j < length (statePrefixes rules)"
      "find (\<lambda>s. endsWith (?q @ [arc]) (asPrefix s)) (sort_by longestFirst (automatonStates rules)) = Some (stateOf rules j)"
      "longestPrefix rules (drive @ [arc]) (statePrefixes rules ! j)"
    using longest_next [OF clean q] by blast
  have same: "filter (\<lambda>r. suffix (srArcs r) (?q @ [arc])) rules = ending rules (drive @ [arc])"
    unfolding ending_def using longest_enough [OF q] rule_prefix by (intro filter_cong) blast+
  have matched: "filter (\<lambda>r. endsWith (?q @ [arc]) (arArcs r)) (automatonRules rules) =
      map (\<lambda>r. \<lparr>arKey = srKey r, arArcs = srArcs r, arType = tcType r, arPenalty = tcPenalty r\<rparr>) (ending rules (drive @ [arc]))"
    by (simp add: automatonRules_list [OF order] filter_map endsWith_suffix comp_def same del: suffix_snoc)
  show ?thesis
    using automatonFor_parts [OF a] state_found [OF i] j
    by (auto simp: advanceSequenceAutomaton_def matched verdictOn_def Let_def stateOf_def comp_def foldl_total list_ex_iff)
qed

lemma automaton_drives:
  assumes "cleanRules rules" and "inKeyOrder rules" and "automatonFor sha rules = Inr a"
    and "i < length (statePrefixes rules)" and "longestPrefix rules past (statePrefixes rules ! i)"
  shows "\<exists>steps. driveAutomaton a i drive = Inr steps \<and> length steps = length drive \<and>
    (\<forall>n < length drive. verdictOn rules (past @ take (Suc n) drive) (steps ! n))"
  using assms(4,5)
proof (induction drive arbitrary: i past)
  case (Cons arc drive)
  obtain step where step: "advanceSequenceAutomaton a i arc = Inr step" "stState step < length (statePrefixes rules)"
      "longestPrefix rules (past @ [arc]) (statePrefixes rules ! stState step)" "verdictOn rules (past @ [arc]) step"
    using automaton_advances [OF assms(1-3) Cons.prems] by blast
  obtain steps where steps: "driveAutomaton a (stState step) drive = Inr steps" "length steps = length drive"
      "\<forall>n < length drive. verdictOn rules ((past @ [arc]) @ take (Suc n) drive) (steps ! n)"
    using Cons.IH [OF step(2,3)] by blast
  have "verdictOn rules (past @ take (Suc n) (arc # drive)) ((step # steps) ! n)" if "n < length (arc # drive)" for n
    using that step(4) steps(3) by (cases n) auto
  then show ?case using step(1) steps by auto
qed simp

lemma automaton_recognises:
  assumes "cleanRules rules" and "inKeyOrder rules" and "automatonFor sha rules = Inr a"
  shows "\<exists>steps. driveAutomaton a 0 drive = Inr steps \<and> length steps = length drive \<and>
    (\<forall>n < length drive. verdictOn rules (take (Suc n) drive) (steps ! n))"
proof -
  have "longestPrefix rules [] (statePrefixes rules ! 0)"
    using first_state [OF assms(1)] by (auto simp: longestPrefix_def prefixesOf_def)
  then show ?thesis using automaton_drives [OF assms, of 0 "[]" drive] first_state [OF assms(1)] by simp
qed

section \<open>Compiled rules\<close>

text \<open>The road feature of an arc; of edges with one key the last counts.\<close>

definition featureOf :: "built_topology \<Rightarrow> built_arc \<Rightarrow> js_string option" where
  "featureOf topology arc = map_of (rev (map (\<lambda>e. (beKey e, beFeatureKey e)) (btEdges topology))) (baEdgeKey arc)"

lemma indexArc_exact:
  assumes "indexArc edges index arc = Inr index'"
  shows "\<exists>f. edges (baEdgeKey arc) = Some f \<and>
    arcsOn (map_of index') = (arcsOn (map_of index))(f := arcsOn (map_of index) f @ [arc])"
  using assms by (auto simp: indexArc_def arcsOn_def update_conv' fun_eq_iff split: option.splits if_splits)

lemma indexed_exact:
  "foldR (indexArc edges) index arcs = Inr index' \<Longrightarrow>
     arcsOn (map_of index') f = arcsOn (map_of index) f @ filter (\<lambda>a. edges (baEdgeKey a) = Some f) arcs"
proof (induction arcs arbitrary: index)
  case (Cons arc arcs)
  then obtain index1 where one: "indexArc edges index arc = Inr index1" "foldR (indexArc edges) index1 arcs = Inr index'"
    by (auto simp: bindR_eq_Inr)
  show ?case using Cons.IH [OF one(2)] indexArc_exact [OF one(1)] by auto
qed simp

lemma arcsOn_exact:
  assumes "arcsByFeature topology = Inr index"
  shows "arcsOn index f = sort_by (\<lambda>l r. compareUnicodeCodePoints (baKey l) (baKey r))
    (filter (\<lambda>a. featureOf topology a = Some f) (btArcs topology))"
proof -
  obtain list where list: "foldR (indexArc (map_of (rev (map (\<lambda>e. (beKey e, beFeatureKey e)) (btEdges topology))))) [] (btArcs topology) = Inr list"
      "index = map_of (map (\<lambda>(k, arcs). (k, sort_by (\<lambda>l r. compareUnicodeCodePoints (baKey l) (baKey r)) arcs)) list)"
    using assms by (auto simp: arcsByFeature_def Let_def bindR_eq_Inr)
  have "arcsOn index f = sort_by (\<lambda>l r. compareUnicodeCodePoints (baKey l) (baKey r)) (arcsOn (map_of list) f)"
    unfolding list(2) arcsOn_def map_of_map by (cases "map_of list f") auto
  then show ?thesis using indexed_exact [OF list(1), of f] by (simp add: arcsOn_def featureOf_def)
qed

text \<open>A path over features: an arc of each, every one starting where the one before ends.\<close>

definition pathOver :: "(js_string \<rightharpoonup> built_arc list) \<Rightarrow> js_string list \<Rightarrow> built_arc list \<Rightarrow> bool" where
  "pathOver index features path \<longleftrightarrow>
     list_all2 (\<lambda>feature arc. arc \<in> set (arcsOn index feature)) features path \<and>
     successively (\<lambda>a b. baTarget a = baSource b) path"

lemma pathOver_snoc:
  "pathOver index (features @ [f]) path \<longleftrightarrow> (\<exists>p c. path = p @ [c] \<and> pathOver index features p \<and> c \<in> set (arcsOn index f) \<and>
     (p \<noteq> [] \<longrightarrow> baTarget (last p) = baSource c))"
proof (cases path rule: rev_exhaust)
  case (snoc p c)
  have "list_all2 P (features @ [f]) (p @ [c]) \<longleftrightarrow> list_all2 P features p \<and> P f c" for P
    using list_all2_rev [of P "features @ [f]" "p @ [c]"] list_all2_rev [of P features p] by auto
  then show ?thesis using snoc by (auto simp: pathOver_def successively_append_iff)
qed (simp add: pathOver_def)

lemma pathOver_length: "pathOver index features path \<Longrightarrow> length path = length features"
  by (auto simp: pathOver_def dest: list_all2_lengthD)

lemma extended_paths:
  "set (foldl (extendPaths index) (map (\<lambda>arc. [arc]) (arcsOn index first)) rest) = {path. pathOver index (first # rest) path}"
proof (induction rest rule: rev_induct)
  case Nil
  show ?case by (auto simp: pathOver_def list_all2_Cons1)
next
  case (snoc f rest)
  have "p \<noteq> []" if "pathOver index (first # rest) p" for p using pathOver_length [OF that] by auto
  then show ?case
    using snoc pathOver_snoc [of index "first # rest" f] by (auto simp: extendPaths_def)
qed

lemma contiguous_parts:
  assumes "contiguousSequences features index = Inr paths"
  obtains first rest where "features = first # rest" "rest \<noteq> []"
    "paths = foldl (extendPaths index) (map (\<lambda>arc. [arc]) (arcsOn index first)) rest"
  using assms by (cases features rule: remdups_adj.cases) (auto simp: contiguousSequences_def)

lemma contiguous_exact: "contiguousSequences features index = Inr paths \<Longrightarrow> set paths = {path. pathOver index features path}"
  by (elim contiguous_parts) (simp add: extended_paths)

lemma extendPaths_distinct:
  assumes "distinct paths" and "distinct (arcsOn index f)"
  shows "distinct (extendPaths index paths f)"
  using assms(1)
proof (induction paths)
  case (Cons p paths)
  have cut: "butlast q \<in> set paths" if "q \<in> set (extendPaths index paths f)" for q using that by (auto simp: extendPaths_def)
  have "distinct (map (\<lambda>c. p @ [c]) (filter (\<lambda>c. p \<noteq> [] \<and> baTarget (last p) = baSource c) (arcsOn index f)))"
    using assms(2) by (simp add: distinct_map inj_on_def)
  moreover have "distinct (extendPaths index paths f)" using Cons by simp
  moreover have "q \<notin> set (extendPaths index paths f)" if "butlast q = p" for q using cut [of q] that Cons.prems by auto
  moreover have "extendPaths index (p # paths) f =
      map (\<lambda>c. p @ [c]) (filter (\<lambda>c. p \<noteq> [] \<and> baTarget (last p) = baSource c) (arcsOn index f)) @ extendPaths index paths f"
    by (simp add: extendPaths_def)
  ultimately show ?case by (simp only: distinct_append) (fastforce simp: image_iff)
qed (simp add: extendPaths_def)

text \<open>The paths over features in a topology, without the index.\<close>

definition roadPath :: "built_topology \<Rightarrow> js_string list \<Rightarrow> built_arc list \<Rightarrow> bool" where
  "roadPath topology features path \<longleftrightarrow>
     list_all2 (\<lambda>feature arc. arc \<in> set (btArcs topology) \<and> featureOf topology arc = Some feature) features path \<and>
     successively (\<lambda>a b. baTarget a = baSource b) path"

lemma sequences_exact:
  assumes "arcsByFeature topology = Inr index" and found: "contiguousSequences features index = Inr paths"
  shows "set paths = {path. roadPath topology features path} \<and> (distinct (btArcs topology) \<longrightarrow> distinct paths)"
proof -
  note arcs = arcsOn_exact [OF assms(1)]
  have "pathOver index = roadPath topology" by (intro ext) (simp add: pathOver_def roadPath_def arcs conj_commute)
  moreover have "distinct paths" if "distinct (btArcs topology)"
  proof -
    have each: "distinct (arcsOn index f)" for f using that by (simp add: arcs)
    then have "distinct (foldl (extendPaths index) ps fs)" if "distinct ps" for ps fs
      using that by (induction fs arbitrary: ps) (auto intro: extendPaths_distinct)
    moreover obtain first rest where "paths = foldl (extendPaths index) (map (\<lambda>arc. [arc]) (arcsOn index first)) rest"
      using found by (rule contiguous_parts)
    ultimately show ?thesis using each by (simp add: distinct_map inj_on_def)
  qed
  ultimately show ?thesis using contiguous_exact [OF found] by auto
qed

section \<open>Every restriction becomes a rule or a diagnostic\<close>

definition givenPenalty :: "'a turn_source_scheme \<Rightarrow> int" where
  "givenPenalty source = (case tsPenalty source of None \<Rightarrow> 0 | Some p \<Rightarrow> p)"

text \<open>The ways to drive what a restriction names.\<close>

definition sequencePaths :: "built_topology \<Rightarrow> sequence_source \<Rightarrow> built_arc list set" where
  "sequencePaths topology source = {p. roadPath topology (ssFeatures source) p}"

definition turnPaths :: "built_topology \<Rightarrow> pairwise_source \<Rightarrow> built_arc list set" where
  "turnPaths topology source =
     {p. roadPath topology [psFrom source, psTo source] p \<and> baTarget (p ! 0) = psVia source \<and> baSource (p ! 1) = psVia source}"

definition sequenceRuleOf :: "built_topology \<Rightarrow> sequence_source \<Rightarrow> pending_rule \<Rightarrow> bool" where
  "sequenceRuleOf topology source r \<longleftrightarrow> tcType r = tsType source \<and> tcPenalty r = givenPenalty source \<and>
     (\<exists>path. sequencePaths topology source = {path} \<and> srArcs r = map baKey path)"

definition turnRuleOf :: "built_topology \<Rightarrow> pairwise_source \<Rightarrow> pairwise_rule \<Rightarrow> bool" where
  "turnRuleOf topology source r \<longleftrightarrow> tcType r = tsType source \<and> tcPenalty r = givenPenalty source \<and> prVia r = psVia source \<and>
     (\<exists>a b. turnPaths topology source = {[a, b]} \<and> prFrom r = baKey a \<and> prTo r = baKey b)"

text \<open>The report on a restriction that \<open>paths\<close> do not settle.\<close>

definition unresolved :: "built_arc list set \<Rightarrow> 'a turn_source_scheme \<Rightarrow> turn_diagnostic \<Rightarrow> bool" where
  "unresolved paths source d \<longleftrightarrow> card paths \<noteq> 1 \<and> tdReference d = tsReference source \<and> tdCount d = card paths \<and>
     (tdBlocking d \<longleftrightarrow> tsType source \<noteq> PENALTY) \<and> tdReason d = (if paths = {} then ZERO_MATCHES else AMBIGUOUS_MATCHES)"

lemma set_rulesOf: "r \<in> set (rulesOf xs) \<longleftrightarrow> Inr r \<in> set xs"
  by (induction xs rule: rulesOf.induct) auto

lemma set_diagnosticsOf: "d \<in> set (diagnosticsOf xs) \<longleftrightarrow> Inl d \<in> set xs"
  by (induction xs rule: diagnosticsOf.induct) auto

lemma validatePenalty_given: "validatePenalty kind (tsPenalty source) = Inr v \<Longrightarrow> v = givenPenalty source"
  by (auto simp: validatePenalty_def givenPenalty_def Let_def split: if_splits)

lemma compileSequence_exact:
  assumes index: "arcsByFeature topology = Inr index" and arcs: "distinct (btArcs topology)"
    and made: "compileSequence sha index source = Inr x"
  shows "case x of Inl d \<Rightarrow> unresolved (sequencePaths topology source) source d | Inr r \<Rightarrow> sequenceRuleOf topology source r"
proof -
  obtain paths where paths: "contiguousSequences (ssFeatures source) index = Inr paths"
    using made by (auto simp: compileSequence_def bindR_eq_Inr)
  have all: "sequencePaths topology source = set paths" "card (set paths) = length paths"
    using sequences_exact [OF index paths] arcs distinct_card [of paths] by (auto simp: sequencePaths_def)
  show ?thesis
  proof (cases "\<exists>path. paths = [path]")
    case True
    then show ?thesis using made paths all validatePenalty_given
      by (auto simp: compileSequence_def bindR_eq_Inr Let_def sequenceRuleOf_def contentOf_def turn_content.defs)
  next
    case False
    then have "x = Inl (diagnostic (tsReference source) (tsType source) (length paths))" "length paths \<noteq> 1"
      using made paths by (auto simp: compileSequence_def length_Suc_conv split: list.splits)
    then show ?thesis using all by (auto simp: unresolved_def diagnostic_def)
  qed
qed

lemma compilePairwise_exact:
  assumes index: "arcsByFeature topology = Inr index" and arcs: "distinct (btArcs topology)"
    and made: "compilePairwise sha index source = Inr x"
  shows "case x of Inl d \<Rightarrow> unresolved (turnPaths topology source) source d | Inr r \<Rightarrow> turnRuleOf topology source r"
proof -
  obtain found where found: "contiguousSequences [psFrom source, psTo source] index = Inr found"
    using made by (auto simp: compilePairwise_def bindR_eq_Inr)
  let ?via = "\<lambda>p. length p = 2 \<and> baTarget (p ! 0) = psVia source \<and> baSource (p ! 1) = psVia source"
  define paths where "paths = filter ?via found"
  have two: "length p = 2" if "roadPath topology [psFrom source, psTo source] p" for p
    using that by (auto simp: roadPath_def dest: list_all2_lengthD)
  have all: "turnPaths topology source = set paths" "card (set paths) = length paths"
    using sequences_exact [OF index found] arcs distinct_card [of paths] two by (auto simp: turnPaths_def paths_def)
  note run = made [unfolded compilePairwise_def found bindR_Inr Let_def, folded paths_def]
  show ?thesis
  proof (cases "\<exists>path. paths = [path]")
    case True
    then obtain path where path: "paths = [path]" by blast
    then have "path \<in> set (filter ?via found)" unfolding paths_def [symmetric] by simp
    then obtain a b where "path = [a, b]" by (auto simp: length_Suc_conv numeral_2_eq_2)
    then show ?thesis using run all path validatePenalty_given
      by (auto simp: bindR_eq_Inr turnRuleOf_def contentOf_def turn_content.defs)
  next
    case False
    then have "x = Inl (diagnostic (tsReference source) (tsType source) (length paths))" "length paths \<noteq> 1"
      using run by (auto simp: length_Suc_conv split: list.splits)
    then show ?thesis using all by (auto simp: unresolved_def diagnostic_def)
  qed
qed

lemma signSequence_rule: "signSequence sha h r = Inr s \<Longrightarrow> sqRule s = r"
  by (auto simp: signSequence_def bindR_eq_Inr)

lemma signed_rules: "mapR (signSequence sha h) rules = Inr outs \<Longrightarrow> map sqRule outs = rules"
  by (induction rules arbitrary: outs) (auto simp: bindR_eq_Inr signSequence_rule)

lemma compiled_parts:
  assumes "compileTurnRestrictions sha topology pairSources sequences = Inr c"
  obtains index pairs pending where "arcsByFeature topology = Inr index"
    "mapR (compilePairwise sha index) pairSources = Inr pairs" "mapR (compileSequence sha index) sequences = Inr pending"
    "set (ctPairwise c) = {r. Inr r \<in> set pairs}" "sqRule ` set (ctSequences c) = {r. Inr r \<in> set pending}"
    "set (ctDiagnostics c) = {d. Inl d \<in> set pairs \<or> Inl d \<in> set pending}"
    "inKeyOrder (map sqRule (ctSequences c))" "automatonFor sha (map sqRule (ctSequences c)) = Inr (ctAutomaton c)"
proof -
  obtain index pairs pending automaton outs where run: "arcsByFeature topology = Inr index"
      "mapR (compilePairwise sha index) pairSources = Inr pairs" "mapR (compileSequence sha index) sequences = Inr pending"
      "automatonFor sha (sort_by (\<lambda>l r. compareUnicodeCodePoints (srKey l) (srKey r)) (rulesOf pending)) = Inr automaton"
      "mapR (signSequence sha (taHash automaton)) (sort_by (\<lambda>l r. compareUnicodeCodePoints (srKey l) (srKey r)) (rulesOf pending)) = Inr outs"
      "ctPairwise c = sort_by (\<lambda>l r. compareUnicodeCodePoints (prKey l) (prKey r)) (rulesOf pairs)"
      "ctSequences c = outs" "ctAutomaton c = automaton"
      "ctDiagnostics c = sort_by (\<lambda>l r. compareUnicodeCodePoints (tdReference l) (tdReference r)) (diagnosticsOf pairs @ diagnosticsOf pending)"
    using assms by (auto simp: compileTurnRestrictions_def Let_def bindR_eq_Inr)
  have rules: "map sqRule (ctSequences c) = sort_by (\<lambda>l r. compareUnicodeCodePoints (srKey l) (srKey r)) (rulesOf pending)"
    using signed_rules [OF run(5)] run(7) by simp
  have "js_order (\<lambda>l r :: pending_rule. compareUnicodeCodePoints (srKey l) (srKey r))" by (rule order_intros)
  then have order: "inKeyOrder (map sqRule (ctSequences c))" unfolding rules inKeyOrder_def by (rule js_order.sort_by_idem)
  have longer: "sqRule ` set (ctSequences c) = {r. Inr r \<in> set pending}"
    using arg_cong [OF rules, of set] by (auto simp: set_rulesOf)
  have pairwise: "set (ctPairwise c) = {r. Inr r \<in> set pairs}" using run(6) by (auto simp: set_rulesOf)
  have open_cases: "set (ctDiagnostics c) = {d. Inl d \<in> set pairs \<or> Inl d \<in> set pending}"
    using run(9) by (auto simp: set_diagnosticsOf)
  have machine: "automatonFor sha (map sqRule (ctSequences c)) = Inr (ctAutomaton c)" using run(4,8) rules by simp
  show ?thesis by (rule that [OF run(1-3) pairwise longer open_cases order machine])
qed

text \<open>What becomes of a restriction, and where rules and diagnostics come from.\<close>

definition settled :: "('s \<Rightarrow> 'r \<Rightarrow> bool) \<Rightarrow> ('s \<Rightarrow> turn_diagnostic \<Rightarrow> bool) \<Rightarrow> 'r set \<Rightarrow> turn_diagnostic set \<Rightarrow> 's \<Rightarrow> bool" where
  "settled rule open_case rules diagnostics source \<longleftrightarrow>
     (\<exists>r \<in> rules. rule source r) \<or> (\<exists>d \<in> diagnostics. open_case source d)"

lemma compilation_exact:
  assumes compiled: "compileTurnRestrictions sha topology pairSources sequences = Inr c" and arcs: "distinct (btArcs topology)"
  shows "(\<forall>s \<in> set pairSources. settled (turnRuleOf topology) (\<lambda>s. unresolved (turnPaths topology s) s)
      (set (ctPairwise c)) (set (ctDiagnostics c)) s)"
    and "(\<forall>s \<in> set sequences. settled (sequenceRuleOf topology) (\<lambda>s. unresolved (sequencePaths topology s) s)
      (sqRule ` set (ctSequences c)) (set (ctDiagnostics c)) s)"
    and "\<forall>r \<in> set (ctPairwise c). \<exists>s \<in> set pairSources. turnRuleOf topology s r"
    and "\<forall>r \<in> sqRule ` set (ctSequences c). \<exists>s \<in> set sequences. sequenceRuleOf topology s r"
    and "\<forall>d \<in> set (ctDiagnostics c). (\<exists>s \<in> set pairSources. unresolved (turnPaths topology s) s d) \<or>
      (\<exists>s \<in> set sequences. unresolved (sequencePaths topology s) s d)"
proof -
  obtain index pairs pending where run: "arcsByFeature topology = Inr index"
      "mapR (compilePairwise sha index) pairSources = Inr pairs" "mapR (compileSequence sha index) sequences = Inr pending"
    and sets: "set (ctPairwise c) = {r. Inr r \<in> set pairs}" "sqRule ` set (ctSequences c) = {r. Inr r \<in> set pending}"
      "set (ctDiagnostics c) = {d. Inl d \<in> set pairs \<or> Inl d \<in> set pending}"
    using compiled by (rule compiled_parts)
  note one = compilePairwise_exact [OF run(1) arcs] and many = compileSequence_exact [OF run(1) arcs]
  show "\<forall>s \<in> set pairSources. settled (turnRuleOf topology) (\<lambda>s. unresolved (turnPaths topology s) s)
      (set (ctPairwise c)) (set (ctDiagnostics c)) s"
    using mapR_made [OF run(2)] one unfolding settled_def sets by (fastforce split: sum.splits)
  show "\<forall>s \<in> set sequences. settled (sequenceRuleOf topology) (\<lambda>s. unresolved (sequencePaths topology s) s)
      (sqRule ` set (ctSequences c)) (set (ctDiagnostics c)) s"
    using mapR_made [OF run(3)] many unfolding settled_def sets by (fastforce split: sum.splits)
  show "\<forall>r \<in> set (ctPairwise c). \<exists>s \<in> set pairSources. turnRuleOf topology s r"
    using mapR_member [OF run(2)] one unfolding sets by fastforce
  show "\<forall>r \<in> sqRule ` set (ctSequences c). \<exists>s \<in> set sequences. sequenceRuleOf topology s r"
    using mapR_member [OF run(3)] many unfolding sets by fastforce
  show "\<forall>d \<in> set (ctDiagnostics c). (\<exists>s \<in> set pairSources. unresolved (turnPaths topology s) s d) \<or>
      (\<exists>s \<in> set sequences. unresolved (sequencePaths topology s) s d)"
    using mapR_member [OF run(2)] mapR_member [OF run(3)] one many unfolding sets by fastforce
qed

lemma compileSequence_path:
  assumes "compileSequence sha index source = Inr (Inr r)"
  shows "\<exists>path. contiguousSequences (ssFeatures source) index = Inr [path] \<and> srArcs r = map baKey path"
proof -
  obtain paths where "contiguousSequences (ssFeatures source) index = Inr paths"
    using assms by (auto simp: compileSequence_def bindR_eq_Inr)
  then show ?thesis using assms
    by (cases paths rule: remdups_adj.cases) (auto simp: compileSequence_def bindR_eq_Inr Let_def turn_content.defs)
qed

lemma compiled_clean:
  assumes compiled: "compileTurnRestrictions sha topology pairSources sequences = Inr c"
    and clean: "\<forall>arc \<in> set (btArcs topology). cleanKey (baKey arc)"
  shows "cleanRules (map sqRule (ctSequences c))"
proof -
  obtain index pairs pending where run: "arcsByFeature topology = Inr index" "mapR (compileSequence sha index) sequences = Inr pending"
    and sets: "sqRule ` set (ctSequences c) = {r. Inr r \<in> set pending}"
    using compiled by (rule compiled_parts)
  have "list_all cleanKey (srArcs r)" if r: "Inr r \<in> set pending" for r
  proof -
    obtain source where "compileSequence sha index source = Inr (Inr r)" using mapR_member [OF run(2) r] by blast
    then obtain path where paths: "contiguousSequences (ssFeatures source) index = Inr [path]" "srArcs r = map baKey path"
      using compileSequence_path by blast
    then have "roadPath topology (ssFeatures source) path" using sequences_exact [OF run(1) paths(1)] by auto
    then have "\<forall>a \<in> set path. a \<in> set (btArcs topology)" by (auto simp: roadPath_def list_all2_conv_all_nth in_set_conv_nth)
    then show ?thesis using clean paths(2) by (simp add: list_all_iff)
  qed
  then show ?thesis using sets by (auto simp: cleanRules_def list_all_iff)
qed

text \<open>The keys of arcs that the foundation derives are clean, for a digest printed in digits.\<close>

lemma derived_key_clean:
  assumes "networkArcKey sha edge direction = Inr key" and "\<And>t. 0 \<notin> set (sha t)"
  shows "cleanKey key"
proof -
  obtain hash where hash: "networkHash sha (JObj [(js ''edgeKey'', JStr edge), (js ''direction'', JStr (directionText direction))]) = Inr hash"
      "key = js ''ar'' @ js ''_'' @ hashDigits hash"
    using assms(1) by (auto simp: networkArcKey_def stableKey_def bindR_eq_Inr)
  then obtain t where "hash = js ''sha256:'' @ sha t"
    by (cases "contractSha256 sha (JObj [(js ''edgeKey'', JStr edge), (js ''direction'', JStr (directionText direction))])")
      (auto simp: networkHash_def contractSha256_def bindR_eq_Inr)
  moreover have "0 \<notin> set (js ''ar'')" "0 \<notin> set (js ''_'')" by code_simp+
  ultimately show ?thesis using hash(2) assms(2) by (simp add: cleanKey_def hashDigits_def) (simp add: js_def)
qed

section \<open>Properties\<close>

text \<open>
  C17. The automaton of compiled turn restrictions recognises exactly the rules that end at the arc just
  driven.  For a topology whose arc keys are not empty and hold no NUL, which the derived keys never do,
  driving \<open>advanceSequenceAutomaton\<close> from state 0 over any arcs never fails, although a state keeps only the
  longest prefix of a rule: after every arc the matched keys, the prohibition and the penalty are those of
  the compiled rules whose whole arc sequence ends the drive so far.
\<close>

theorem sequence_automaton_exact:
  assumes "compileTurnRestrictions sha topology pairSources sequences = Inr c"
    and "\<forall>arc \<in> set (btArcs topology). cleanKey (baKey arc)"
  shows "\<exists>steps. driveAutomaton (ctAutomaton c) 0 drive = Inr steps \<and> length steps = length drive \<and>
    (\<forall>n < length drive. verdictOn (map sqRule (ctSequences c)) (take (Suc n) drive) (steps ! n))"
proof (rule compiled_parts [OF assms(1)])
  assume "inKeyOrder (map sqRule (ctSequences c))" "automatonFor sha (map sqRule (ctSequences c)) = Inr (ctAutomaton c)"
  then show ?thesis by (rule automaton_recognises [OF compiled_clean [OF assms]])
qed

text \<open>
  C18. Compiling turn restrictions loses none.  A restriction between road features that can be driven in
  exactly one way becomes one rule over those arcs, with its type and penalty; every other restriction is
  reported under its reference with the number of ways found, as unmatched when there is none and as ambiguous
  otherwise, and blocks activation unless it is only a penalty.  Every rule and every diagnostic comes from a
  restriction in this way.  Assumed: the arcs of the topology are pairwise different.
\<close>

theorem turn_compilation_exact:
  assumes "compileTurnRestrictions sha topology pairSources sequences = Inr c" and "distinct (btArcs topology)"
  shows "(\<forall>s \<in> set pairSources. settled (turnRuleOf topology) (\<lambda>s. unresolved (turnPaths topology s) s)
      (set (ctPairwise c)) (set (ctDiagnostics c)) s) \<and>
    (\<forall>s \<in> set sequences. settled (sequenceRuleOf topology) (\<lambda>s. unresolved (sequencePaths topology s) s)
      (sqRule ` set (ctSequences c)) (set (ctDiagnostics c)) s) \<and>
    (\<forall>r \<in> set (ctPairwise c). \<exists>s \<in> set pairSources. turnRuleOf topology s r) \<and>
    (\<forall>r \<in> sqRule ` set (ctSequences c). \<exists>s \<in> set sequences. sequenceRuleOf topology s r) \<and>
    (\<forall>d \<in> set (ctDiagnostics c). (\<exists>s \<in> set pairSources. unresolved (turnPaths topology s) s d) \<or>
      (\<exists>s \<in> set sequences. unresolved (sequencePaths topology s) s d))"
  using compilation_exact [OF assms] by blast

text \<open>Three roads in a row and a way back: driving all three is forbidden, turning back at the end is penalised.\<close>

definition rowArc :: "string \<Rightarrow> string \<Rightarrow> string \<Rightarrow> string \<Rightarrow> built_arc" where
  "rowArc key road s t = \<lparr>baKey = js key, baEdgeKey = js road, baSource = js s, baTarget = js t, baDirection = FORWARD,
     baLength = 1000, baDefaultSpeed = 1000, baAccessMask = None\<rparr>"

definition rowEdge :: "string \<Rightarrow> string \<Rightarrow> string \<Rightarrow> string \<Rightarrow> built_edge" where
  "rowEdge key feature s t = \<lparr>beKey = js key, beFeatureKey = js feature, beFeatureVersion = [], beSource = js s, beTarget = js t,
     beSplitStart = 0, beSplitEnd = WHOLE, beLength = 1000, beRoadClass = [], beSurface = None, beOneway = BIDIRECTIONAL\<rparr>"

definition rowTopology :: built_topology where
  "rowTopology = \<lparr>btEdges = [rowEdge ''e1'' ''r1'' ''p'' ''q'', rowEdge ''e2'' ''r2'' ''q'' ''s'', rowEdge ''e3'' ''r3'' ''s'' ''t''],
     btArcs = [rowArc ''a1'' ''e1'' ''p'' ''q'', rowArc ''a2'' ''e2'' ''q'' ''s'', rowArc ''b2'' ''e2'' ''s'' ''q'', rowArc ''a3'' ''e3'' ''s'' ''t'']\<rparr>"

definition rowSequence :: sequence_source where
  "rowSequence = \<lparr>tsReference = js ''no-through'', tsType = FORBIDDEN, tsPenalty = None, tsFilter = None, tsEvidence = None,
     ssFeatures = [js ''r1'', js ''r2'', js ''r3'']\<rparr>"

definition rowTurn :: pairwise_source where
  "rowTurn = \<lparr>tsReference = js ''left'', tsType = PENALTY, tsPenalty = Some 5, tsFilter = None, tsEvidence = None,
     psFrom = js ''r1'', psVia = js ''s'', psTo = js ''r2''\<rparr>"

lemma row_paths:
  "bindR (arcsByFeature rowTopology) (\<lambda>index.
     bindR (contiguousSequences [js ''r1'', js ''r2'', js ''r3''] index) (\<lambda>three.
     bindR (contiguousSequences [js ''r1'', js ''r2''] index) (\<lambda>two. Inr (map (map baKey) three, map (map baTarget) two)))) =
   Inr ([[js ''a1'', js ''a2'', js ''a3'']], [[js ''q'', js ''s'']])"
  by code_simp

text \<open>A digest of a document that JSON can write is there.\<close>

lemma networkHash_run: "supported v \<Longrightarrow> bindR (networkHash sha v) f = f (projr (networkHash sha v))"
  using contractSha256_ok [of v sha] by (auto simp: networkHash_def)

lemma stableKey_run: "supported v \<Longrightarrow> bindR (stableKey sha tag v) f = f (projr (stableKey sha tag v))"
  by (simp add: stableKey_def networkHash_run)

lemma automatonFor_ok: "\<exists>a. automatonFor sha rules = Inr a"
  by (auto simp: automatonFor_def Let_def networkHash_run)

lemma supported_entries [simp]: "supported (diagnosticJson d)"
  "(\<forall>(k, v) \<in> set (sequenceJson r). supported v) \<longleftrightarrow> supported (tcFilter r) \<and> (\<forall>v \<in> set (tcEvidence r). supported v)"
  by (auto simp: diagnosticJson_def sequenceJson_def sequenceEntries_def contentEntries_def)

text \<open>For any digest: one rule over the three roads, no pairwise rule, and the turn reported.\<close>

lemma row_compiles:
  "\<exists>c r. compileTurnRestrictions sha rowTopology [rowTurn] [rowSequence] = Inr c \<and> map sqRule (ctSequences c) = [r] \<and>
     srArcs r = [js ''a1'', js ''a2'', js ''a3''] \<and> tcType r = FORBIDDEN \<and> ctPairwise c = []"
proof -
  obtain index three two where index: "arcsByFeature rowTopology = Inr index"
      and three: "contiguousSequences [js ''r1'', js ''r2'', js ''r3''] index = Inr [three]" "map baKey three = [js ''a1'', js ''a2'', js ''a3'']"
      and two: "contiguousSequences [js ''r1'', js ''r2''] index = Inr [two]" "map baTarget two = [js ''q'', js ''s'']"
    using row_paths by (auto simp: bindR_eq_Inr map_eq_Cons_conv)
  define d where "d = diagnostic (js ''left'') PENALTY 0"
  have turn: "compilePairwise sha index rowTurn = Inr (Inl d)"
  proof -
    have "baTarget (two ! 0) \<noteq> js ''s''" using two(2) by (cases two) (auto simp: js_def)
    then show ?thesis using two(1) by (simp add: compilePairwise_def rowTurn_def d_def)
  qed
  define rule where "rule = turn_content.extend (contentOf rowSequence 0) \<lparr>srKey = [], srArcs = map baKey three\<rparr>"
  define r where "r = rule\<lparr>srKey := projr (stableKey sha ''ts'' (JObj ((js ''restrictionReferenceKey'', JStr (tsReference rowSequence)) # sequenceEntries rule)))\<rparr>"
  have plain: "tcFilter r = JObj []" "tcEvidence r = []" "srArcs r = map baKey three" "tcType r = FORBIDDEN"
    by (simp_all add: r_def rule_def contentOf_def rowSequence_def turn_content.defs)
  have document: "supported (JObj ((js ''restrictionReferenceKey'', JStr (tsReference rowSequence)) # sequenceEntries rule))"
    by (auto simp: rule_def sequenceEntries_def contentEntries_def contentOf_def rowSequence_def turn_content.defs)
  have fields: "ssFeatures rowSequence = [js ''r1'', js ''r2'', js ''r3'']" "validatePenalty (tsType rowSequence) (tsPenalty rowSequence) = Inr 0"
    by (simp_all add: rowSequence_def validatePenalty_def isSafeInteger_def maxSafeInteger_def)
  have sequence: "compileSequence sha index rowSequence = Inr (Inr r)"
    unfolding compileSequence_def fields three(1) bindR_Inr Let_def list.case rule_def [symmetric]
    by (simp add: stableKey_run [OF document] r_def)
  obtain a where a: "automatonFor sha [r] = Inr a" using automatonFor_ok by blast
  have signed_doc: "supported (JObj (sequenceJson r @ [(js ''automatonHash'', JStr (taHash a))]))"
    using plain(1,2) by (simp add: ball_Un)
  obtain h where "signSequence sha (taHash a) r = Inr \<lparr>sqRule = r, sqAutomatonHash = taHash a, sqHash = h\<rparr>"
    by (simp add: signSequence_def networkHash_run [OF signed_doc])
  then have "\<exists>c. compileTurnRestrictions sha rowTopology [rowTurn] [rowSequence] = Inr c \<and> map sqRule (ctSequences c) = [r] \<and> ctPairwise c = []"
    using index turn sequence a plain(1,2) by (simp add: compileTurnRestrictions_def networkHash_run ball_Un)
  then show ?thesis using plain(3,4) three(2) by auto
qed

lemma sequence_automaton_exact_witness:
  "\<exists>c steps. compileTurnRestrictions (\<lambda>_. []) rowTopology [rowTurn] [rowSequence] = Inr c \<and>
     driveAutomaton (ctAutomaton c) 0 [js ''a1'', js ''a2'', js ''a3''] = Inr steps \<and>
     \<not> stForbidden (steps ! 1) \<and> stForbidden (steps ! 2)"
proof -
  obtain c r where c: "compileTurnRestrictions (\<lambda>_. []) rowTopology [rowTurn] [rowSequence] = Inr c"
      and r: "map sqRule (ctSequences c) = [r]" "srArcs r = [js ''a1'', js ''a2'', js ''a3'']" "tcType r = FORBIDDEN"
    using row_compiles [of "\<lambda>_. []"] by (elim exE conjE) (rule that)
  have clean: "\<forall>arc \<in> set (btArcs rowTopology). cleanKey (baKey arc)" by code_simp
  define drive where "drive = [js ''a1'', js ''a2'', js ''a3'']"
  obtain steps where steps: "driveAutomaton (ctAutomaton c) 0 drive = Inr steps"
      "\<forall>n < length drive. verdictOn [r] (take (Suc n) drive) (steps ! n)"
    using sequence_automaton_exact [OF c clean, of drive] unfolding r(1) by blast
  have "verdictOn [r] [js ''a1'', js ''a2''] (steps ! 1)" "verdictOn [r] [js ''a1'', js ''a2'', js ''a3''] (steps ! 2)"
    using steps(2) [rule_format, of 1] steps(2) [rule_format, of 2] by (simp_all only: drive_def) simp_all
  then have "\<not> stForbidden (steps ! 1) \<and> stForbidden (steps ! 2)"
    using r(2,3) by (auto simp: verdictOn_def ending_def suffix_def)
  then show ?thesis using c steps(1) unfolding drive_def by blast
qed

lemma turn_compilation_exact_witness:
  "\<exists>c. compileTurnRestrictions (\<lambda>_. []) rowTopology [rowTurn] [rowSequence] = Inr c \<and>
     (\<exists>r \<in> sqRule ` set (ctSequences c). sequenceRuleOf rowTopology rowSequence r) \<and>
     (\<exists>d \<in> set (ctDiagnostics c). unresolved (turnPaths rowTopology rowTurn) rowTurn d)"
proof -
  obtain c r where c: "compileTurnRestrictions (\<lambda>_. []) rowTopology [rowTurn] [rowSequence] = Inr c"
      and r: "map sqRule (ctSequences c) = [r]" "ctPairwise c = []"
    using row_compiles [of "\<lambda>_. []"] by (elim exE conjE) (rule that)
  have "distinct (btArcs rowTopology)" by code_simp
  note exact = turn_compilation_exact [OF c this]
  have "r \<in> sqRule ` set (ctSequences c)" using arg_cong [OF r(1), of set] by simp
  then have "\<exists>r \<in> sqRule ` set (ctSequences c). sequenceRuleOf rowTopology rowSequence r"
    using exact [THEN conjunct2, THEN conjunct2, THEN conjunct2, THEN conjunct1] by (metis empty_iff empty_set set_ConsD)
  moreover have "\<exists>d \<in> set (ctDiagnostics c). unresolved (turnPaths rowTopology rowTurn) rowTurn d"
    using exact [THEN conjunct1] r(2) by (simp add: settled_def)
  ultimately show ?thesis using c by blast
qed

end
