(* ===== verification/NetworkQuery.thy ===== *)
theory NetworkQuery
  imports
  NetworkGraph
  TravelRules
begin

text \<open>
  Path queries, \<open>network-query-core/src/engine.ts\<close>: a label search over pairs of a node and the last arcs
  driven, from one directed position to another, under turn rules.

  Numbers are integers; the code adds costs as JavaScript numbers without a check, so the model is exact
  as long as costs stay in the safe range.  \<open>clock\<close> is the number of deadline checks that pass.
\<close>

section \<open>Data\<close>

datatype query_objective = SHORTEST_DISTANCE | FASTEST | LEAST_RISK | LOWEST_ENERGY | WEIGHTED_COST

datatype query_error = BUDGET_EXCEEDED | DEADLINE_EXCEEDED | INVALID_REQUEST | Unhashed json_error

record query_arc =
  qaKey :: js_string
  qaSource :: js_string
  qaTarget :: js_string
  qaDirection :: direction
  qaFeature :: "int json option"
  qaDistance :: int
  qaDuration :: int
  qaRisk :: int
  qaEnergy :: int
  qaCost :: int
  qaConditionPenalty :: int

record query_rule =
  qrSequence :: "js_string list"
  qrType :: rule_type
  qrPenalty :: int

record loaded_network =
  lnSnapshot :: routing_snapshot
  lnArcs :: "query_arc list"
  lnRules :: "query_rule list"

record path_metrics =
  pmDistance :: int
  pmDuration :: int
  pmRisk :: int
  pmEnergy :: int
  pmCost :: int

record path_segment =
  psGraphVersion :: js_string
  psArcKey :: js_string
  psStart :: int
  psEnd :: int
  psDistance :: int
  psDuration :: int
  psRisk :: int
  psEnergy :: int
  psTurnPenalty :: int
  psFeature :: "int json option"

datatype path_status = PATH_COMPLETED | NO_PATH

record path_result =
  pathStatus :: path_status
  pathSnapshot :: routing_snapshot
  pathSegments :: "path_segment list"
  pathMetrics :: path_metrics
  pathHash :: js_string

section \<open>Costs\<close>

fun metric :: "query_arc \<Rightarrow> query_objective \<Rightarrow> int" where
  "metric arc SHORTEST_DISTANCE = qaDistance arc"
| "metric arc FASTEST = qaDuration arc"
| "metric arc LEAST_RISK = qaRisk arc"
| "metric arc LOWEST_ENERGY = qaEnergy arc"
| "metric arc WEIGHTED_COST = qaCost arc + qaConditionPenalty arc"

definition fraction :: "int \<Rightarrow> int \<Rightarrow> int" where
  "fraction v ppm = bigDiv (v * ppm + 500000) WHOLE"

definition zeroMetrics :: path_metrics where
  "zeroMetrics = \<lparr>pmDistance = 0, pmDuration = 0, pmRisk = 0, pmEnergy = 0, pmCost = 0\<rparr>"

definition addArcMetrics :: "path_metrics \<Rightarrow> query_arc \<Rightarrow> int \<Rightarrow> path_metrics" where
  "addArcMetrics m arc extent =
     \<lparr>pmDistance = pmDistance m + fraction (qaDistance arc) extent, pmDuration = pmDuration m + fraction (qaDuration arc) extent,
      pmRisk = pmRisk m + fraction (qaRisk arc) extent, pmEnergy = pmEnergy m + fraction (qaEnergy arc) extent,
      pmCost = pmCost m + fraction (qaCost arc + qaConditionPenalty arc) extent\<rparr>"

section \<open>Turns\<close>

record turn_effect =
  teForbidden :: bool
  tePenalty :: int

text \<open>
  \<open>candidate.slice(-n)\<close> is the whole list for \<open>n = 0\<close>, and an index past the end of the rule is
  undefined, so a rule without arcs never matches.
\<close>

definition ruleEnds :: "js_string list \<Rightarrow> js_string list \<Rightarrow> bool" where
  "ruleEnds candidate seq \<longleftrightarrow> \<not> length seq > length candidate \<and>
     (let tail = sliceLast (length seq) candidate in tail = take (length tail) seq)"

fun scanRules :: "js_string list \<Rightarrow> bool \<Rightarrow> int \<Rightarrow> query_rule list \<Rightarrow> turn_effect" where
  "scanRules candidate ignoreSoft penalty [] = \<lparr>teForbidden = False, tePenalty = penalty\<rparr>"
| "scanRules candidate ignoreSoft penalty (rule # rules) =
     (if qrType rule = ALLOWED_ONLY \<or> \<not> ruleEnds candidate (qrSequence rule) then scanRules candidate ignoreSoft penalty rules
      else if qrType rule = FORBIDDEN then \<lparr>teForbidden = True, tePenalty = 0\<rparr>
      else scanRules candidate ignoreSoft (if ignoreSoft then penalty else penalty + qrPenalty rule) rules)"

definition turnEffect :: "js_string list \<Rightarrow> js_string \<Rightarrow> query_rule list \<Rightarrow> bool \<Rightarrow> turn_effect" where
  "turnEffect history next rules ignoreSoft =
     (let allowedOnly = filter (\<lambda>r. qrType r = ALLOWED_ONLY \<and> length (qrSequence r) = 2 \<and>
            history \<noteq> [] \<and> qrSequence r ! 0 = last history) rules in
      if allowedOnly \<noteq> [] \<and> \<not> list_ex (\<lambda>r. qrSequence r ! 1 = next) allowedOnly
      then \<lparr>teForbidden = True, tePenalty = 0\<rparr>
      else scanRules (history @ [next]) ignoreSoft 0 rules)"

section \<open>The search\<close>

record query_label =
  lbNode :: js_string
  lbHistory :: "js_string list"
  lbArcs :: "js_string list"
  lbCost :: int
  lbPenalty :: int

record query_search =
  qsRules :: "query_rule list"
  qsObjective :: query_objective
  qsIgnoreSoft :: bool
  qsWindow :: nat
  qsArcs :: "query_arc list"
  qsDestination :: query_arc
  qsMaximum :: int

definition queryStateKey :: "js_string \<Rightarrow> js_string list \<Rightarrow> js_string" where
  "queryStateKey node history = node @ 124 # joinComma history"

definition labelKey :: "query_label \<Rightarrow> js_string" where
  "labelKey l = queryStateKey (lbNode l) (lbHistory l)"

text \<open>\<open>Math.max(1, ...rules.map(rule => rule.sequence.length - 1))\<close>\<close>

definition maxHistory :: "query_rule list \<Rightarrow> nat" where
  "maxHistory rules = nat (foldl max 1 (map (\<lambda>r. int (length (qrSequence r)) - 1) rules))"

definition outgoingFrom :: "query_search \<Rightarrow> js_string \<Rightarrow> query_arc list" where
  "outgoingFrom s node = sort_by (\<lambda>l r. compareUnicodeCodePoints (qaKey l) (qaKey r)) (filter (\<lambda>a. qaSource a = node) (qsArcs s))"

definition compareLabels :: "query_label \<Rightarrow> query_label \<Rightarrow> int" where
  "compareLabels l r = orElse (lbCost l - lbCost r) (compareUnicodeCodePoints (joinNul (lbArcs l)) (joinNul (lbArcs r)))"

definition extendLabel :: "query_search \<Rightarrow> query_label \<Rightarrow> query_arc \<Rightarrow> int \<Rightarrow> query_label" where
  "extendLabel s current next penalty =
     \<lparr>lbNode = qaTarget next, lbHistory = sliceLast (qsWindow s) (lbHistory current @ [qaKey next]),
      lbArcs = lbArcs current @ [qaKey next], lbCost = lbCost current + metric next (qsObjective s) + penalty,
      lbPenalty = lbPenalty current + penalty\<rparr>"

type_synonym query_frontier = "query_label list \<times> (js_string \<rightharpoonup> int)"

definition offerArc :: "query_search \<Rightarrow> query_label \<Rightarrow> query_frontier \<Rightarrow> query_arc \<Rightarrow> query_frontier" where
  "offerArc s current frontier next =
     (let transition = turnEffect (lbHistory current) (qaKey next) (qsRules s) (qsIgnoreSoft s);
          label = extendLabel s current next (tePenalty transition) in
      if teForbidden transition then frontier
      else if (case snd frontier (labelKey label) of None \<Rightarrow> False | Some known \<Rightarrow> lbCost label \<ge> known) then frontier
      else (fst frontier @ [label], (snd frontier)(labelKey label \<mapsto> lbCost label)))"

text \<open>One round: what the label that is taken leads to.\<close>

datatype query_step = Arrived "js_string list" int | Going query_frontier

definition expandLabel :: "query_search \<Rightarrow> query_label \<Rightarrow> query_frontier \<Rightarrow> query_frontier" where
  "expandLabel s current frontier = foldl (offerArc s current) frontier (outgoingFrom s (lbNode current))"

definition takeLabel :: "query_search \<Rightarrow> query_label \<Rightarrow> query_frontier \<Rightarrow> query_error + query_step" where
  "takeLabel s current frontier =
     (if int (length (lbArcs current)) > qsMaximum s then Inl BUDGET_EXCEEDED
      else if snd frontier (labelKey current) \<noteq> Some (lbCost current) then Inr (Going frontier)
      else (let transition = turnEffect (lbHistory current) (qaKey (qsDestination s)) (qsRules s) (qsIgnoreSoft s) in
        if lbNode current = qaSource (qsDestination s) \<and> \<not> teForbidden transition
        then (if int (length (lbArcs current @ [qaKey (qsDestination s)])) > qsMaximum s then Inl BUDGET_EXCEEDED
              else Inr (Arrived (lbArcs current @ [qaKey (qsDestination s)]) (lbPenalty current + tePenalty transition)))
        else Inr (Going (expandLabel s current frontier))))"

fun searchPath :: "query_search \<Rightarrow> nat \<Rightarrow> query_frontier \<Rightarrow> query_error + ((js_string list \<times> int) option \<times> nat)" where
  "searchPath s clock (queue, best) =
     (case sort_by compareLabels queue of
        [] \<Rightarrow> Inr (None, clock)
      | current # rest \<Rightarrow>
          (case clock of
             0 \<Rightarrow> Inl DEADLINE_EXCEEDED
           | Suc left \<Rightarrow>
               bindR (takeLabel s current (rest, best)) (\<lambda>step.
                 (case step of Arrived keys penalty \<Rightarrow> Inr (Some (keys, penalty), left)
                  | Going frontier \<Rightarrow> searchPath s left frontier))))"

declare searchPath.simps [simp del]

section \<open>Results\<close>

definition queryHash :: "(js_string \<Rightarrow> js_string) \<Rightarrow> int json \<Rightarrow> query_error + js_string" where
  "queryHash sha v = map_sum Unhashed id (contractSha256 sha v)"

definition pathMetricsJson :: "path_metrics \<Rightarrow> int json" where
  "pathMetricsJson m = JObj
     [(js ''distanceMm'', JNum (pmDistance m)), (js ''durationMs'', JNum (pmDuration m)),
      (js ''riskMicroUnits'', JNum (pmRisk m)), (js ''energyMwh'', JNum (pmEnergy m)), (js ''combinedCostUnits'', JNum (pmCost m))]"

definition pathSegmentJson :: "path_segment \<Rightarrow> int json" where
  "pathSegmentJson g = JObj (
     [(js ''graphVersion'', JStr (psGraphVersion g)), (js ''arcKey'', JStr (psArcKey g)),
      (js ''startFractionPpm'', JNum (psStart g)), (js ''endFractionPpm'', JNum (psEnd g)),
      (js ''segmentRole'', JStr (js ''ROUTE'')), (js ''distanceMm'', JNum (psDistance g)),
      (js ''durationMs'', JNum (psDuration g)), (js ''riskMicroUnits'', JNum (psRisk g)),
      (js ''energyMwh'', JNum (psEnergy g)), (js ''turnPenaltyUnits'', JNum (psTurnPenalty g))] @
     optionalEntry ''sourceFeatureReferenceKey'' (psFeature g))"

definition finishPath ::
  "(js_string \<Rightarrow> js_string) \<Rightarrow> path_status \<Rightarrow> routing_snapshot \<Rightarrow> path_segment list \<Rightarrow> path_metrics \<Rightarrow> query_error + path_result" where
  "finishPath sha status snapshot segments metrics =
     bindR (queryHash sha (JObj
       [(js ''status'', JStr (if status = PATH_COMPLETED then js ''COMPLETED'' else js ''NO_PATH'')),
        (js ''routingSnapshot'', snapshotJson snapshot), (js ''segments'', JArr (map pathSegmentJson segments)),
        (js ''metrics'', pathMetricsJson metrics), (js ''warnings'', JArr [])])) (\<lambda>hash.
     Inr \<lparr>pathStatus = status, pathSnapshot = snapshot, pathSegments = segments, pathMetrics = metrics, pathHash = hash\<rparr>)"

definition noPath :: "(js_string \<Rightarrow> js_string) \<Rightarrow> routing_snapshot \<Rightarrow> query_error + path_result" where
  "noPath sha snapshot = finishPath sha NO_PATH snapshot [] zeroMetrics"

text \<open>An arc with the fractions between which it is driven.\<close>

type_synonym arc_slice = "query_arc \<times> int \<times> int"

fun sliceExtent :: "arc_slice \<Rightarrow> int" where
  "sliceExtent (arc, a, b) = max 0 (b - a)"

fun pathSegment :: "routing_snapshot \<Rightarrow> int \<Rightarrow> nat \<Rightarrow> nat \<times> arc_slice \<Rightarrow> path_segment" where
  "pathSegment snapshot penalty slices (index, arc, a, b) =
     (let extent = sliceExtent (arc, a, b) in
      \<lparr>psGraphVersion = snapGraphVersion snapshot, psArcKey = qaKey arc, psStart = a, psEnd = b,
       psDistance = fraction (qaDistance arc) extent, psDuration = fraction (qaDuration arc) extent,
       psRisk = fraction (qaRisk arc) extent, psEnergy = fraction (qaEnergy arc) extent,
       psTurnPenalty = (if index + 1 = slices then penalty else 0), psFeature = qaFeature arc\<rparr>)"

definition sliceMetricsOf :: "arc_slice list \<Rightarrow> path_metrics" where
  "sliceMetricsOf slices = foldl (\<lambda>m slice. addArcMetrics m (fst slice) (sliceExtent slice)) zeroMetrics slices"

definition completePath ::
  "(js_string \<Rightarrow> js_string) \<Rightarrow> routing_snapshot \<Rightarrow> arc_slice list \<Rightarrow> int \<Rightarrow> query_error + path_result" where
  "completePath sha snapshot slices penalty =
     (let metrics = sliceMetricsOf slices in
      finishPath sha PATH_COMPLETED snapshot (map (pathSegment snapshot penalty (length slices)) (enumerate 0 slices))
        (metrics\<lparr>pmCost := pmCost metrics + penalty\<rparr>))"

section \<open>Queries\<close>

record path_query =
  pqStart :: directed_state
  pqDestination :: directed_state
  pqObjective :: query_objective
  pqMaximum :: int
  pqIgnoreSoft :: bool
  pqExcluded :: "js_string set"
  pqPrior :: "js_string list"

definition assertState :: "directed_state \<Rightarrow> query_error + unit" where
  "assertState s =
     ensureR (\<not> (\<not> isSafeInteger (stateFraction s) \<or> stateFraction s < 0 \<or> stateFraction s > WHOLE)) INVALID_REQUEST"

definition arcByKey :: "loaded_network \<Rightarrow> js_string \<Rightarrow> query_arc option" where
  "arcByKey network = map_of (rev (map (\<lambda>a. (qaKey a, a)) (lnArcs network)))"

definition querySearch :: "loaded_network \<Rightarrow> path_query \<Rightarrow> query_arc \<Rightarrow> query_search" where
  "querySearch network q destination =
     \<lparr>qsRules = lnRules network, qsObjective = pqObjective q, qsIgnoreSoft = pqIgnoreSoft q, qsWindow = maxHistory (lnRules network),
      qsArcs = filter (\<lambda>a. qaKey a \<notin> pqExcluded q) (lnArcs network), qsDestination = destination, qsMaximum = pqMaximum q\<rparr>"

definition initialHistory :: "path_query \<Rightarrow> query_arc \<Rightarrow> js_string list" where
  "initialHistory q startArc =
     (if pqPrior q \<noteq> [] \<and> last (pqPrior q) = qaKey startArc then pqPrior q else pqPrior q @ [qaKey startArc])"

definition initialLabel :: "query_search \<Rightarrow> path_query \<Rightarrow> query_arc \<Rightarrow> query_label" where
  "initialLabel s q startArc =
     \<lparr>lbNode = qaTarget startArc, lbHistory = sliceLast (qsWindow s) (initialHistory q startArc), lbArcs = [qaKey startArc],
      lbCost = fraction (metric startArc (pqObjective q)) (WHOLE - stateFraction (pqStart q)), lbPenalty = 0\<rparr>"

definition pathSlices :: "path_query \<Rightarrow> query_arc list \<Rightarrow> arc_slice list" where
  "pathSlices q arcs = map (\<lambda>(index, arc). (arc, if index = 0 then stateFraction (pqStart q) else 0,
     if index + 1 = length arcs then stateFraction (pqDestination q) else WHOLE)) (enumerate 0 arcs)"

definition findPath ::
  "(js_string \<Rightarrow> js_string) \<Rightarrow> loaded_network \<Rightarrow> path_query \<Rightarrow> nat \<Rightarrow> query_error + (path_result \<times> nat)" where
  "findPath sha network q clock =
     bindR (assertState (pqStart q)) (\<lambda>_.
     bindR (assertState (pqDestination q)) (\<lambda>_.
     (case (arcByKey network (stateArcKey (pqStart q)), arcByKey network (stateArcKey (pqDestination q))) of
        (Some startArc, Some destinationArc) \<Rightarrow>
          if stateArcKey (pqStart q) \<in> pqExcluded q \<or> stateArcKey (pqDestination q) \<in> pqExcluded q \<or>
             qaDirection startArc \<noteq> stateDirection (pqStart q) \<or> qaDirection destinationArc \<noteq> stateDirection (pqDestination q)
          then bindR (noPath sha (lnSnapshot network)) (\<lambda>r. Inr (r, clock))
          else if qaKey startArc = qaKey destinationArc \<and> stateFraction (pqDestination q) \<ge> stateFraction (pqStart q)
          then bindR (completePath sha (lnSnapshot network)
            [(startArc, stateFraction (pqStart q), stateFraction (pqDestination q))] 0) (\<lambda>r. Inr (r, clock))
          else let s = querySearch network q destinationArc; initial = initialLabel s q startArc in
            bindR (searchPath s clock ([initial], [labelKey initial \<mapsto> lbCost initial])) (\<lambda>(chosen, left).
            (case chosen of
               None \<Rightarrow> bindR (noPath sha (lnSnapshot network)) (\<lambda>r. Inr (r, left))
             | Some (keys, penalty) \<Rightarrow>
                 bindR (completePath sha (lnSnapshot network) (pathSlices q (List.map_filter (arcByKey network) keys)) penalty)
                   (\<lambda>r. Inr (r, left))))
      | _ \<Rightarrow> bindR (noPath sha (lnSnapshot network)) (\<lambda>r. Inr (r, clock)))))"

text \<open>All pairs of points, one search after the other under the same deadline.\<close>

record matrix_entry =
  mxFrom :: nat
  mxTo :: nat
  mxCost :: "int option"

definition readInteger :: "int \<Rightarrow> query_error + int" where
  "readInteger v = (if \<not> isSafeInteger v \<or> v < 0 then Inl INVALID_REQUEST else Inr v)"

fun metricFromOutput :: "path_result \<Rightarrow> query_objective \<Rightarrow> query_error + int" where
  "metricFromOutput r SHORTEST_DISTANCE = readInteger (pmDistance (pathMetrics r))"
| "metricFromOutput r FASTEST = readInteger (pmDuration (pathMetrics r))"
| "metricFromOutput r LEAST_RISK = readInteger (pmRisk (pathMetrics r))"
| "metricFromOutput r LOWEST_ENERGY = readInteger (pmEnergy (pathMetrics r))"
| "metricFromOutput r WEIGHTED_COST = readInteger (pmCost (pathMetrics r))"

definition matrixEntry ::
  "(js_string \<Rightarrow> js_string) \<Rightarrow> loaded_network \<Rightarrow> directed_state list \<Rightarrow> query_objective \<Rightarrow> int \<Rightarrow>
     matrix_entry list \<times> nat \<Rightarrow> nat \<times> nat \<Rightarrow> query_error + (matrix_entry list \<times> nat)" where
  "matrixEntry sha network points objective maximum state pair =
     (if fst pair = snd pair then Inr (fst state @ [\<lparr>mxFrom = fst pair, mxTo = snd pair, mxCost = Some 0\<rparr>], snd state)
      else bindR (findPath sha network \<lparr>pqStart = points ! fst pair, pqDestination = points ! snd pair, pqObjective = objective,
          pqMaximum = maximum, pqIgnoreSoft = False, pqExcluded = {}, pqPrior = []\<rparr> (snd state)) (\<lambda>(path, left).
        bindR (if pathStatus path = PATH_COMPLETED then bindR (metricFromOutput path objective) (\<lambda>c. Inr (Some c)) else Inr None) (\<lambda>cost.
        Inr (fst state @ [\<lparr>mxFrom = fst pair, mxTo = snd pair, mxCost = cost\<rparr>], left))))"

definition matrixEntryJson :: "matrix_entry \<Rightarrow> int json" where
  "matrixEntryJson e = JObj (
     [(js ''fromIndex'', JNum (int (mxFrom e))), (js ''toIndex'', JNum (int (mxTo e))), (js ''reachable'', JBool (mxCost e \<noteq> None))] @
     optionalEntry ''costUnits'' (map_option JNum (mxCost e)))"

definition queryMatrix ::
  "(js_string \<Rightarrow> js_string) \<Rightarrow> loaded_network \<Rightarrow> directed_state list \<Rightarrow> query_objective \<Rightarrow> int \<Rightarrow> nat \<Rightarrow>
     query_error + (matrix_entry list \<times> js_string)" where
  "queryMatrix sha network points objective maximum clock =
     bindR (foldR (matrixEntry sha network points objective maximum) ([], clock)
       (concat (map (\<lambda>i. map (\<lambda>j. (i, j)) [0..<length points]) [0..<length points]))) (\<lambda>(entries, left).
     bindR (queryHash sha (JObj [(js ''routingSnapshot'', snapshotJson (lnSnapshot network)),
       (js ''pointCount'', JNum (int (length points))), (js ''entries'', JArr (map matrixEntryJson entries))])) (\<lambda>hash.
     Inr (entries, hash)))"

section \<open>The window of the search is wide enough\<close>

lemma ruleEnds_suffix: "candidate \<noteq> [] \<Longrightarrow> ruleEnds candidate seq \<longleftrightarrow> seq \<noteq> [] \<and> suffix seq candidate"
  by (cases "seq = []") (auto simp: ruleEnds_def sliceLast_def suffix_iff_drop Let_def)

definition forbidsTurn :: "js_string list \<Rightarrow> query_rule \<Rightarrow> bool" where
  "forbidsTurn drive r \<longleftrightarrow> qrType r = FORBIDDEN \<and> ruleEnds drive (qrSequence r)"

lemma scanRules_exact:
  "teForbidden (scanRules candidate ignoreSoft penalty rules) \<longleftrightarrow> (\<exists>r \<in> set rules. forbidsTurn candidate r)"
  "\<not> (\<exists>r \<in> set rules. forbidsTurn candidate r) \<Longrightarrow> tePenalty (scanRules candidate ignoreSoft penalty rules) =
     penalty + (if ignoreSoft then 0
       else sum_list (map qrPenalty (filter (\<lambda>r. qrType r = PENALTY \<and> ruleEnds candidate (qrSequence r)) rules)))"
proof (induction rules arbitrary: penalty)
  case (Cons r rules)
  case 1 show ?case using Cons.IH(1) by (auto simp: forbidsTurn_def)
  case 2 then show ?case using Cons.IH(2) by (cases "qrType r") (auto simp: forbidsTurn_def)
qed simp_all

lemma scanRules_cong:
  "(\<And>r. r \<in> set rules \<Longrightarrow> ruleEnds c (qrSequence r) \<longleftrightarrow> ruleEnds d (qrSequence r)) \<Longrightarrow>
     scanRules c ignoreSoft penalty rules = scanRules d ignoreSoft penalty rules"
  by (induction rules arbitrary: penalty) auto

lemma suffix_window:
  assumes "length xs \<le> w" and "0 < w"
  shows "suffix xs (sliceLast w h) \<longleftrightarrow> suffix xs h"
proof
  assume "suffix xs h"
  moreover have "length xs \<le> length (sliceLast w h)" using assms suffix_length_le [OF \<open>suffix xs h\<close>] by (auto simp: sliceLast_def)
  ultimately show "suffix xs (sliceLast w h)" using sliceLast_suffix suffix_length_suffix by blast
qed (use sliceLast_suffix suffix_order.trans in blast)

lemma maxHistory_bounds: "0 < maxHistory rules" "r \<in> set rules \<Longrightarrow> length (qrSequence r) \<le> maxHistory rules + 1"
proof -
  have "1 \<le> foldl max 1 (map (\<lambda>r. int (length (qrSequence r)) - 1) rules)" by (rule foldl_max_ge)
  then show "0 < maxHistory rules" by (simp add: maxHistory_def)
  assume "r \<in> set rules"
  then have "int (length (qrSequence r)) - 1 \<le> foldl max 1 (map (\<lambda>r. int (length (qrSequence r)) - 1) rules)"
    by (intro foldl_max_member) auto
  then show "length (qrSequence r) \<le> maxHistory rules + 1" by (simp add: maxHistory_def)
qed

lemma turnEffect_window:
  "turnEffect (sliceLast (maxHistory rules) h) next rules ignoreSoft = turnEffect h next rules ignoreSoft"
proof -
  let ?w = "maxHistory rules"
  have ends: "ruleEnds (sliceLast ?w h @ [next]) (qrSequence r) \<longleftrightarrow> ruleEnds (h @ [next]) (qrSequence r)" if r: "r \<in> set rules" for r
  proof (cases "qrSequence r" rule: rev_exhaust)
    case (snoc p x)
    then show ?thesis using maxHistory_bounds(2) [OF r] suffix_window [OF _ maxHistory_bounds(1), of p rules h]
      by (auto simp: ruleEnds_suffix)
  qed (simp add: ruleEnds_suffix)
  have "sliceLast ?w h = [] \<longleftrightarrow> h = []" "h \<noteq> [] \<Longrightarrow> last (sliceLast ?w h) = last h"
    using maxHistory_bounds(1) [of rules] by (cases h; force simp: sliceLast_def last_drop)+
  then have "(sliceLast ?w h \<noteq> [] \<and> x = last (sliceLast ?w h)) \<longleftrightarrow> (h \<noteq> [] \<and> x = last h)" for x by auto
  moreover have "scanRules (sliceLast ?w h @ [next]) ignoreSoft 0 rules = scanRules (h @ [next]) ignoreSoft 0 rules"
    by (rule scanRules_cong [OF ends])
  ultimately show ?thesis by (simp add: turnEffect_def Let_def)
qed

section \<open>Drives\<close>

text \<open>What the rules allow when nothing is forgotten: a drive goes on from the history so far.\<close>

definition ruleEndsDrive :: "query_rule \<Rightarrow> js_string list \<Rightarrow> bool" where
  "ruleEndsDrive r drive \<longleftrightarrow> qrSequence r \<noteq> [] \<and> suffix (qrSequence r) drive"

text \<open>
  No forbidden sequence ends here, and where some pair says what alone may follow the last arc, one of them
  says this arc; the cost is the sum of the penalties that end here.
\<close>

definition mayTurn :: "query_search \<Rightarrow> js_string list \<Rightarrow> query_arc \<Rightarrow> bool" where
  "mayTurn s h a \<longleftrightarrow>
     (\<forall>r \<in> set (qsRules s). qrType r = FORBIDDEN \<longrightarrow> \<not> ruleEndsDrive r (h @ [qaKey a])) \<and>
     (\<forall>r \<in> set (qsRules s). qrType r = ALLOWED_ONLY \<longrightarrow> h \<noteq> [] \<longrightarrow> length (qrSequence r) = 2 \<and> hd (qrSequence r) = last h \<longrightarrow>
        (\<exists>r' \<in> set (qsRules s). qrType r' = ALLOWED_ONLY \<and> qrSequence r' = [last h, qaKey a]))"

definition turnCost :: "query_search \<Rightarrow> js_string list \<Rightarrow> query_arc \<Rightarrow> int" where
  "turnCost s h a = (if mayTurn s h a \<and> \<not> qsIgnoreSoft s
     then \<Sum>r \<leftarrow> filter (\<lambda>r. qrType r = PENALTY \<and> ruleEndsDrive r (h @ [qaKey a])) (qsRules s). qrPenalty r else 0)"

lemma ruleEnds_drive: "ruleEnds (h @ [k]) (qrSequence r) = ruleEndsDrive r (h @ [k])"
  by (simp add: ruleEnds_suffix ruleEndsDrive_def)

lemma scanRules_effect:
  "teForbidden (scanRules (h @ [k]) soft p rules) \<longleftrightarrow> (\<exists>r \<in> set rules. qrType r = FORBIDDEN \<and> ruleEndsDrive r (h @ [k]))"
  "tePenalty (scanRules (h @ [k]) soft p rules) = (if \<exists>r \<in> set rules. qrType r = FORBIDDEN \<and> ruleEndsDrive r (h @ [k]) then 0
     else if soft then p else p + (\<Sum>r \<leftarrow> filter (\<lambda>r. qrType r = PENALTY \<and> ruleEndsDrive r (h @ [k])) rules. qrPenalty r))"
proof (induction rules arbitrary: p)
  case (Cons r rs)
  { case 1 show ?case using Cons by (cases "qrType r") (auto simp: ruleEnds_drive)
  next case 2 show ?case using Cons by (cases "qrType r") (auto simp: ruleEnds_drive) }
qed auto

lemma pairFrom: "length xs = 2 \<and> hd xs = x \<longleftrightarrow> (\<exists>y. xs = [x, y])"
  by (auto simp: length_Suc_conv numeral_2_eq_2)

lemma onlyPairs:
  "(\<exists>r \<in> set (filter (\<lambda>r. qrType r = ALLOWED_ONLY \<and> length (qrSequence r) = 2 \<and> h \<noteq> [] \<and> qrSequence r ! 0 = last h) rules).
      qrSequence r ! 1 = k) \<longleftrightarrow> (\<exists>r \<in> set rules. qrType r = ALLOWED_ONLY \<and> h \<noteq> [] \<and> qrSequence r = [last h, k])"
  by (auto simp: length_Suc_conv numeral_2_eq_2)

lemma turnEffect_rules:
  "teForbidden (turnEffect h (qaKey a) (qsRules s) (qsIgnoreSoft s)) \<longleftrightarrow> \<not> mayTurn s h a"
  "tePenalty (turnEffect h (qaKey a) (qsRules s) (qsIgnoreSoft s)) = turnCost s h a"
proof -
  let ?only = "filter (\<lambda>r. qrType r = ALLOWED_ONLY \<and> length (qrSequence r) = 2 \<and> h \<noteq> [] \<and> qrSequence r ! 0 = last h) (qsRules s)"
  let ?blocked = "?only \<noteq> [] \<and> \<not> list_ex (\<lambda>r. qrSequence r ! 1 = qaKey a) ?only"
  have "?only \<noteq> [] \<longleftrightarrow> (\<exists>k. \<exists>r \<in> set ?only. qrSequence r ! 1 = k)" by (cases ?only) auto
  then have blocked: "?blocked \<longleftrightarrow> \<not> (\<forall>r \<in> set (qsRules s). qrType r = ALLOWED_ONLY \<longrightarrow> h \<noteq> [] \<longrightarrow> length (qrSequence r) = 2 \<and> hd (qrSequence r) = last h \<longrightarrow>
        (\<exists>r' \<in> set (qsRules s). qrType r' = ALLOWED_ONLY \<and> qrSequence r' = [last h, qaKey a]))"
    unfolding list_ex_iff onlyPairs pairFrom by blast
  have effect: "turnEffect h (qaKey a) (qsRules s) (qsIgnoreSoft s) =
      (if ?blocked then \<lparr>teForbidden = True, tePenalty = 0\<rparr> else scanRules (h @ [qaKey a]) (qsIgnoreSoft s) 0 (qsRules s))"
    by (simp add: turnEffect_def Let_def)
  show forbidden: "teForbidden (turnEffect h (qaKey a) (qsRules s) (qsIgnoreSoft s)) \<longleftrightarrow> \<not> mayTurn s h a"
    unfolding effect mayTurn_def using blocked by (simp add: scanRules_effect) blast
  show "tePenalty (turnEffect h (qaKey a) (qsRules s) (qsIgnoreSoft s)) = turnCost s h a"
  proof (cases "mayTurn s h a")
    case True
    then have nb: "\<not> ?blocked" and nf: "\<not> (\<exists>r \<in> set (qsRules s). qrType r = FORBIDDEN \<and> ruleEndsDrive r (h @ [qaKey a]))"
      unfolding blocked mayTurn_def by blast+
    show ?thesis unfolding effect turnCost_def if_not_P [OF nb] scanRules_effect(2) if_not_P [OF nf] using True by simp
  next
    case False
    then have "?blocked \<or> (\<exists>r \<in> set (qsRules s). qrType r = FORBIDDEN \<and> ruleEndsDrive r (h @ [qaKey a]))"
      unfolding blocked mayTurn_def by blast
    then show ?thesis using False unfolding effect turnCost_def by (auto simp: scanRules_effect)
  qed
qed

lemmas mayTurn_effect = turnEffect_rules(1) [symmetric, THEN arg_cong [where f = Not], simplified not_not]
lemmas turnCost_effect = turnEffect_rules(2) [symmetric]

fun drivable :: "query_search \<Rightarrow> js_string list \<Rightarrow> js_string \<Rightarrow> query_arc list \<Rightarrow> bool" where
  "drivable s h node [] = True"
| "drivable s h node (a # arcs) \<longleftrightarrow>
     a \<in> set (qsArcs s) \<and> qaSource a = node \<and> mayTurn s h a \<and> drivable s (h @ [qaKey a]) (qaTarget a) arcs"

fun drivePenalty :: "query_search \<Rightarrow> js_string list \<Rightarrow> query_arc list \<Rightarrow> int" where
  "drivePenalty s h [] = 0"
| "drivePenalty s h (a # arcs) = turnCost s h a + drivePenalty s (h @ [qaKey a]) arcs"

definition driveCost :: "query_search \<Rightarrow> js_string list \<Rightarrow> query_arc list \<Rightarrow> int" where
  "driveCost s h arcs = sum_list (map (\<lambda>a. metric a (qsObjective s)) arcs) + drivePenalty s h arcs"

fun driveEnd :: "js_string \<Rightarrow> query_arc list \<Rightarrow> js_string" where
  "driveEnd node [] = node"
| "driveEnd node (a # arcs) = driveEnd (qaTarget a) arcs"

lemma driveEnd_snoc [simp]: "driveEnd node (arcs @ [a]) = qaTarget a"
  by (induction arcs arbitrary: node) auto

lemma drivable_snoc: "drivable s h node (arcs @ [a]) \<longleftrightarrow> drivable s h node arcs \<and> a \<in> set (qsArcs s) \<and>
    qaSource a = driveEnd node arcs \<and> mayTurn s (h @ map qaKey arcs) a"
  by (induction arcs arbitrary: h node) auto

lemma drivePenalty_snoc: "drivePenalty s h (arcs @ [a]) = drivePenalty s h arcs + turnCost s (h @ map qaKey arcs) a"
  by (induction arcs arbitrary: h) auto

lemma driveCost_snoc: "driveCost s h (arcs @ [a]) = driveCost s h arcs + metric a (qsObjective s) + turnCost s (h @ map qaKey arcs) a"
  by (simp add: driveCost_def drivePenalty_snoc)

text \<open>A label stands for a drive; the search is over the start \<open>h\<close>, \<open>node\<close> with the cost \<open>c\<close> of its piece.\<close>

definition labelOf :: "query_search \<Rightarrow> js_string list \<Rightarrow> js_string \<Rightarrow> js_string \<Rightarrow> int \<Rightarrow> query_arc list \<Rightarrow> query_label" where
  "labelOf s h node first c arcs =
     \<lparr>lbNode = driveEnd node arcs, lbHistory = sliceLast (qsWindow s) (h @ map qaKey arcs), lbArcs = first # map qaKey arcs,
      lbCost = c + driveCost s h arcs, lbPenalty = drivePenalty s h arcs\<rparr>"

definition windowed :: "query_search \<Rightarrow> bool" where
  "windowed s \<longleftrightarrow> qsWindow s = maxHistory (qsRules s)"

lemma window_turn: "windowed s \<Longrightarrow> turnEffect (sliceLast (qsWindow s) h) next (qsRules s) (qsIgnoreSoft s) =
    turnEffect h next (qsRules s) (qsIgnoreSoft s)"
  by (simp add: windowed_def turnEffect_window)

lemma extend_labelOf:
  assumes "windowed s"
  shows "extendLabel s (labelOf s h node first c arcs) a (turnCost s (h @ map qaKey arcs) a) = labelOf s h node first c (arcs @ [a])"
  using sliceLast_snoc [of "qsWindow s" "h @ map qaKey arcs" "qaKey a"] maxHistory_bounds(1) [of "qsRules s"] assms
  by (simp add: extendLabel_def labelOf_def driveCost_snoc drivePenalty_snoc windowed_def)

lemma outgoingFrom_set [simp]: "a \<in> set (outgoingFrom s node) \<longleftrightarrow> a \<in> set (qsArcs s) \<and> qaSource a = node"
  by (auto simp: outgoingFrom_def)

lemma offerArc_drive:
  assumes w: "windowed s" and current: "current = labelOf s h node first c arcs"
  shows "offerArc s current frontier a =
    (let label = labelOf s h node first c (arcs @ [a]) in
     if \<not> mayTurn s (h @ map qaKey arcs) a \<or> (\<exists>known. snd frontier (labelKey label) = Some known \<and> known \<le> lbCost label) then frontier
     else (fst frontier @ [label], (snd frontier)(labelKey label \<mapsto> lbCost label)))"
proof -
  have turn: "turnEffect (lbHistory current) (qaKey a) (qsRules s) (qsIgnoreSoft s) = turnEffect (h @ map qaKey arcs) (qaKey a) (qsRules s) (qsIgnoreSoft s)"
    using window_turn [OF w] by (simp add: current labelOf_def)
  then have "extendLabel s current a (tePenalty (turnEffect (lbHistory current) (qaKey a) (qsRules s) (qsIgnoreSoft s))) =
      labelOf s h node first c (arcs @ [a])"
    using extend_labelOf [OF w, of h node first c arcs a] by (simp add: current turnCost_effect)
  then show ?thesis unfolding offerArc_def Let_def turn mayTurn_effect by (auto split: option.splits)
qed

section \<open>Keys of states\<close>

definition goodKey :: "js_string \<Rightarrow> bool" where
  "goodKey k \<longleftrightarrow> k \<noteq> [] \<and> 44 \<notin> set k"

definition goodState :: "js_string \<Rightarrow> js_string list \<Rightarrow> bool" where
  "goodState node history \<longleftrightarrow> 124 \<notin> set node \<and> list_all goodKey history"

lemma joinComma_inj: "list_all goodKey xs \<Longrightarrow> list_all goodKey ys \<Longrightarrow> joinComma xs = joinComma ys \<Longrightarrow> xs = ys"
proof (induction xs arbitrary: ys rule: joinComma.induct)
  case 1
  then show ?case by (cases ys rule: joinComma.cases) (auto simp: goodKey_def)
next
  case (2 x)
  then show ?case by (cases ys rule: joinComma.cases) (auto simp: goodKey_def)
next
  case one: (3 x y zs)
  show ?case
  proof (cases ys rule: joinComma.cases)
    case two: (3 x' y' zs')
    then have "x @ 44 # joinComma (y # zs) = x' @ 44 # joinComma (y' # zs')" "44 \<notin> set x" "44 \<notin> set x'"
      using one.prems by (auto simp: goodKey_def)
    then have "x = x'" "joinComma (y # zs) = joinComma (y' # zs')" by (auto simp: separated)
    then show ?thesis using one.IH [of "y' # zs'"] one.prems two by simp
  qed (use one.prems in \<open>auto simp: goodKey_def\<close>)
qed

lemma queryStateKey_inj: "goodState n h \<Longrightarrow> goodState m g \<Longrightarrow> queryStateKey n h = queryStateKey m g \<longleftrightarrow> n = m \<and> h = g"
  using joinComma_inj by (auto simp: queryStateKey_def goodState_def separated)

definition goodSearch :: "query_search \<Rightarrow> js_string list \<Rightarrow> js_string \<Rightarrow> bool" where
  "goodSearch s h node \<longleftrightarrow> windowed s \<and> goodState node h \<and> (\<forall>a \<in> set (qsArcs s). 124 \<notin> set (qaTarget a) \<and> goodKey (qaKey a))"

lemma list_all_sliceLast: "list_all P xs \<Longrightarrow> list_all P (sliceLast w xs)"
  by (auto simp: sliceLast_def list_all_iff dest: in_set_dropD)

lemma good_drive: "goodSearch s h node \<Longrightarrow> drivable s h node arcs \<Longrightarrow>
    124 \<notin> set (driveEnd node arcs) \<and> list_all goodKey (h @ map qaKey arcs)"
proof (induction arcs rule: rev_induct)
  case Nil
  then show ?case by (simp add: goodSearch_def goodState_def)
next
  case (snoc a arcs)
  then show ?case by (auto simp: goodSearch_def drivable_snoc)
qed

lemma good_label:
  assumes "goodSearch s h node" and "drivable s h node arcs"
  shows "goodState (lbNode (labelOf s h node first c arcs)) (lbHistory (labelOf s h node first c arcs))"
  using good_drive [OF assms] list_all_sliceLast [of goodKey "h @ map qaKey arcs"] by (simp add: labelOf_def goodState_def)

section \<open>One round of the search\<close>

definition pending :: "query_label list \<Rightarrow> js_string \<Rightarrow> int \<Rightarrow> bool" where
  "pending queue key c \<longleftrightarrow> (\<exists>l \<in> set queue. labelKey l = key \<and> lbCost l = c)"

definition knownWithin :: "(js_string \<rightharpoonup> int) \<Rightarrow> js_string \<Rightarrow> int \<Rightarrow> bool" where
  "knownWithin best key c \<longleftrightarrow> (\<exists>b. best key = Some b \<and> b \<le> c)"

lemma knownWithin_trans: "knownWithin best key b \<Longrightarrow> b \<le> c \<Longrightarrow> knownWithin best key c"
  by (auto simp: knownWithin_def)

text \<open>What the offers of the arcs \<open>xs\<close> from one label do to the frontier.\<close>

definition frontierOffers :: "query_search \<Rightarrow> js_string list \<Rightarrow> js_string \<Rightarrow> js_string \<Rightarrow> int \<Rightarrow> query_arc list \<Rightarrow> query_arc list \<Rightarrow>
    query_frontier \<Rightarrow> query_frontier \<Rightarrow> bool" where
  "frontierOffers s h node first c arcs xs before after \<longleftrightarrow>
     (\<exists>as. fst after = fst before @ map (\<lambda>a. labelOf s h node first c (arcs @ [a])) as \<and> length as \<le> length xs \<and>
        (\<forall>a \<in> set as. a \<in> set xs \<and> mayTurn s (h @ map qaKey arcs) a)) \<and>
     (\<forall>k b. snd before k = Some b \<longrightarrow> knownWithin (snd after) k b) \<and>
     (\<forall>k b. snd after k = Some b \<longrightarrow> snd before k = Some b \<or> pending (fst after) k b) \<and>
     (\<forall>a \<in> set xs. mayTurn s (h @ map qaKey arcs) a \<longrightarrow>
        knownWithin (snd after) (labelKey (labelOf s h node first c (arcs @ [a]))) (lbCost (labelOf s h node first c (arcs @ [a]))))"

lemma offered_one:
  assumes "windowed s" and "current = labelOf s h node first c arcs"
  shows "frontierOffers s h node first c arcs [a] before (offerArc s current before a)"
proof (cases "mayTurn s (h @ map qaKey arcs) a \<and> \<not> knownWithin (snd before)
      (labelKey (labelOf s h node first c (arcs @ [a]))) (lbCost (labelOf s h node first c (arcs @ [a])))")
  case True
  then have "offerArc s current before a = (fst before @ [labelOf s h node first c (arcs @ [a])],
      (snd before)(labelKey (labelOf s h node first c (arcs @ [a])) \<mapsto> lbCost (labelOf s h node first c (arcs @ [a]))))"
    by (auto simp: offerArc_drive [OF assms] knownWithin_def Let_def)
  then show ?thesis using True unfolding frontierOffers_def
    by (auto simp: knownWithin_def pending_def intro!: exI [of _ "[a]"])
next
  case False
  then have "offerArc s current before a = before"
    by (auto simp: offerArc_drive [OF assms] knownWithin_def Let_def)
  then show ?thesis using False unfolding frontierOffers_def by (auto simp: knownWithin_def intro!: exI [of _ "[]"])
qed

lemma offered_trans:
  assumes "frontierOffers s h node first c arcs xs f1 f2" and "frontierOffers s h node first c arcs ys f2 f3"
  shows "frontierOffers s h node first c arcs (xs @ ys) f1 f3"
proof -
  obtain as bs where as: "fst f2 = fst f1 @ map (\<lambda>a. labelOf s h node first c (arcs @ [a])) as" "length as \<le> length xs"
      "\<forall>a \<in> set as. a \<in> set xs \<and> mayTurn s (h @ map qaKey arcs) a"
    and bs: "fst f3 = fst f2 @ map (\<lambda>a. labelOf s h node first c (arcs @ [a])) bs" "length bs \<le> length ys"
      "\<forall>a \<in> set bs. a \<in> set ys \<and> mayTurn s (h @ map qaKey arcs) a"
    using assms unfolding frontierOffers_def by blast
  have down: "knownWithin (snd f3) k b" if "knownWithin (snd f2) k b" for k b
    using assms(2) that unfolding frontierOffers_def by (metis knownWithin_def knownWithin_trans)
  have "\<exists>as. fst f3 = fst f1 @ map (\<lambda>a. labelOf s h node first c (arcs @ [a])) as \<and> length as \<le> length (xs @ ys) \<and>
      (\<forall>a \<in> set as. a \<in> set (xs @ ys) \<and> mayTurn s (h @ map qaKey arcs) a)"
    using as bs by (intro exI [of _ "as @ bs"]) auto
  moreover have "\<forall>k b. snd f1 k = Some b \<longrightarrow> knownWithin (snd f3) k b"
    using assms(1) down unfolding frontierOffers_def by blast
  moreover have "\<forall>k b. snd f3 k = Some b \<longrightarrow> snd f1 k = Some b \<or> pending (fst f3) k b"
  proof (intro allI impI)
    fix k b assume "snd f3 k = Some b"
    then consider "snd f2 k = Some b" | "pending (fst f3) k b" using assms(2) unfolding frontierOffers_def by blast
    then show "snd f1 k = Some b \<or> pending (fst f3) k b"
    proof cases
      case 1
      then have "snd f1 k = Some b \<or> pending (fst f2) k b" using assms(1) unfolding frontierOffers_def by blast
      then show ?thesis using bs(1) by (auto simp: pending_def)
    qed simp
  qed
  moreover have "\<forall>a \<in> set (xs @ ys). mayTurn s (h @ map qaKey arcs) a \<longrightarrow>
      knownWithin (snd f3) (labelKey (labelOf s h node first c (arcs @ [a]))) (lbCost (labelOf s h node first c (arcs @ [a])))"
    using assms down unfolding frontierOffers_def by auto
  ultimately show ?thesis unfolding frontierOffers_def by blast
qed

lemma expandLabel_offers:
  assumes "windowed s" and "current = labelOf s h node first c arcs"
  shows "frontierOffers s h node first c arcs (outgoingFrom s (lbNode current)) before (expandLabel s current before)"
proof -
  have "frontierOffers s h node first c arcs xs before (foldl (offerArc s current) before xs)" for xs
  proof (induction xs rule: rev_induct)
    case Nil
    show ?case by (auto simp: frontierOffers_def knownWithin_def)
  next
    case (snoc a xs)
    show ?case using offered_trans [OF snoc offered_one [OF assms, of a]] by simp
  qed
  then show ?thesis by (simp add: expandLabel_def)
qed

section \<open>The invariant\<close>

definition arrives :: "query_search \<Rightarrow> js_string \<Rightarrow> js_string list \<Rightarrow> bool" where
  "arrives s node history \<longleftrightarrow> node = qaSource (qsDestination s) \<and> mayTurn s history (qsDestination s)"

text \<open>A state is explored: it is not at the destination and everything it leads to is known at its price.\<close>

definition explored :: "query_search \<Rightarrow> (js_string \<rightharpoonup> int) \<Rightarrow> js_string \<Rightarrow> js_string list \<Rightarrow> int \<Rightarrow> bool" where
  "explored s best node history c \<longleftrightarrow> \<not> arrives s node history \<and>
     (\<forall>a \<in> set (qsArcs s). qaSource a = node \<longrightarrow> mayTurn s history a \<longrightarrow>
        knownWithin best (queryStateKey (qaTarget a) (sliceLast (qsWindow s) (history @ [qaKey a])))
          (c + metric a (qsObjective s) + turnCost s history a))"

definition frontierCovered :: "query_search \<Rightarrow> query_frontier \<Rightarrow> bool" where
  "frontierCovered s frontier \<longleftrightarrow> (\<forall>node history c. goodState node history \<longrightarrow> snd frontier (queryStateKey node history) = Some c \<longrightarrow>
     pending (fst frontier) (queryStateKey node history) c \<or> explored s (snd frontier) node history c)"

definition standsForDrives :: "query_search \<Rightarrow> js_string list \<Rightarrow> js_string \<Rightarrow> js_string \<Rightarrow> int \<Rightarrow> query_label list \<Rightarrow> bool" where
  "standsForDrives s h node first c queue \<longleftrightarrow> (\<forall>l \<in> set queue. \<exists>arcs. drivable s h node arcs \<and> l = labelOf s h node first c arcs)"

definition searchOk :: "query_search \<Rightarrow> js_string list \<Rightarrow> js_string \<Rightarrow> js_string \<Rightarrow> int \<Rightarrow> query_frontier \<Rightarrow> bool" where
  "searchOk s h node first c frontier \<longleftrightarrow> standsForDrives s h node first c (fst frontier) \<and> frontierCovered s frontier \<and>
     knownWithin (snd frontier) (labelKey (labelOf s h node first c [])) c"

definition freeCosts :: "query_search \<Rightarrow> bool" where
  "freeCosts s \<longleftrightarrow> (\<forall>a \<in> set (qsArcs s). 0 \<le> metric a (qsObjective s)) \<and> (\<forall>r \<in> set (qsRules s). 0 \<le> qrPenalty r)"

lemma explored_less: "explored s best node history b \<Longrightarrow> (\<And>k d. best k = Some d \<Longrightarrow> knownWithin best' k d) \<Longrightarrow> explored s best' node history b"
  unfolding explored_def by (meson knownWithin_def knownWithin_trans)

lemma scanRules_nonneg: "\<forall>r \<in> set rules. 0 \<le> qrPenalty r \<Longrightarrow> 0 \<le> penalty \<Longrightarrow> 0 \<le> tePenalty (scanRules c ignoreSoft penalty rules)"
  by (induction rules arbitrary: penalty) auto

lemma turnCost_nonneg: "freeCosts s \<Longrightarrow> 0 \<le> turnCost s h a"
  using scanRules_nonneg [of "qsRules s" 0] by (simp add: freeCosts_def turnCost_effect turnEffect_def Let_def)

lemma drive_tracked:
  assumes ok: "searchOk s h node first c frontier" and good: "goodSearch s h node" and free: "freeCosts s"
    and "drivable s h node arcs"
  shows "(\<exists>l \<in> set (fst frontier). lbCost l \<le> c + driveCost s h arcs) \<or>
    (\<exists>b. b \<le> c + driveCost s h arcs \<and> explored s (snd frontier) (driveEnd node arcs) (sliceLast (qsWindow s) (h @ map qaKey arcs)) b)"
  using assms(4)
proof (induction arcs rule: rev_induct)
  case Nil
  let ?l = "labelOf s h node first c []"
  obtain b where b: "snd frontier (labelKey ?l) = Some b" "b \<le> c" using ok by (auto simp: searchOk_def knownWithin_def)
  have "pending (fst frontier) (labelKey ?l) b \<or> explored s (snd frontier) (lbNode ?l) (lbHistory ?l) b"
    using ok good_label [OF good Nil, of first c] b(1) unfolding searchOk_def frontierCovered_def labelKey_def by blast
  then show ?case using b(2) by (auto simp: pending_def labelOf_def driveCost_def)
next
  case (snoc a arcs)
  have arcs: "drivable s h node arcs" "a \<in> set (qsArcs s)" "qaSource a = driveEnd node arcs" "mayTurn s (h @ map qaKey arcs) a"
    using snoc.prems by (simp_all add: drivable_snoc)
  have more: "driveCost s h arcs \<le> driveCost s h (arcs @ [a])"
    using free arcs(2) turnCost_nonneg [OF free] by (simp add: driveCost_snoc freeCosts_def add_nonneg_nonneg)
  from snoc.IH [OF arcs(1)] show ?case
  proof
    assume "\<exists>l \<in> set (fst frontier). lbCost l \<le> c + driveCost s h arcs"
    then show ?thesis using more by fastforce
  next
    let ?hist = "sliceLast (qsWindow s) (h @ map qaKey arcs)" and ?l = "labelOf s h node first c (arcs @ [a])"
    assume "\<exists>b. b \<le> c + driveCost s h arcs \<and> explored s (snd frontier) (driveEnd node arcs) ?hist b"
    then obtain b where b: "b \<le> c + driveCost s h arcs" "explored s (snd frontier) (driveEnd node arcs) ?hist b" by blast
    have w: "windowed s" using good by (simp add: goodSearch_def)
    have turn: "mayTurn s ?hist a" "turnCost s ?hist a = turnCost s (h @ map qaKey arcs) a"
      using window_turn [OF w] arcs(4) by (simp_all add: mayTurn_effect turnCost_effect)
    have "sliceLast (qsWindow s) (?hist @ [qaKey a]) = lbHistory ?l"
      using sliceLast_snoc [of "qsWindow s" "h @ map qaKey arcs"] maxHistory_bounds(1) [of "qsRules s"] w
      by (simp add: labelOf_def windowed_def)
    then have "knownWithin (snd frontier) (labelKey ?l) (b + metric a (qsObjective s) + turnCost s (h @ map qaKey arcs) a)"
      using b(2) arcs(2,3) turn unfolding explored_def labelKey_def by (auto simp: labelOf_def)
    then obtain d where d: "snd frontier (labelKey ?l) = Some d" "d \<le> c + driveCost s h (arcs @ [a])"
      using b(1) by (auto simp: knownWithin_def driveCost_snoc)
    have "pending (fst frontier) (labelKey ?l) d \<or> explored s (snd frontier) (lbNode ?l) (lbHistory ?l) d"
      using ok good_label [OF good snoc.prems, of first c] d(1) unfolding searchOk_def frontierCovered_def labelKey_def by blast
    then show ?thesis using d(2) by (auto simp: pending_def labelOf_def)
  qed
qed

lemma searchOk_drop:
  assumes ok: "searchOk s h node first c (queue, best)" and queue: "set queue = insert current (set rest)"
    and stale: "best (labelKey current) \<noteq> Some (lbCost current)"
  shows "searchOk s h node first c (rest, best)"
proof -
  have "pending rest k b" if "pending queue k b" "best k = Some b" for k b
    using that queue stale by (auto simp: pending_def)
  then have "frontierCovered s (rest, best)" using ok unfolding searchOk_def frontierCovered_def by (metis fst_conv snd_conv)
  then show ?thesis using ok queue by (auto simp: searchOk_def standsForDrives_def)
qed

lemma searchOk_expand:
  assumes ok: "searchOk s h node first c (queue, best)" and good: "goodSearch s h node"
    and queue: "set queue = insert current (set rest)" and away: "\<not> arrives s (lbNode current) (lbHistory current)"
  shows "searchOk s h node first c (expandLabel s current (rest, best))"
proof -
  let ?after = "expandLabel s current (rest, best)"
  obtain arcs where arcs: "drivable s h node arcs" "current = labelOf s h node first c arcs"
    using ok queue by (auto simp: searchOk_def standsForDrives_def)
  have w: "windowed s" using good by (simp add: goodSearch_def)
  have offers: "frontierOffers s h node first c arcs (outgoingFrom s (lbNode current)) (rest, best) ?after"
    by (rule expandLabel_offers [OF w arcs(2)])
  have less: "knownWithin (snd ?after) k d" if "best k = Some d" for k d
    using offers that unfolding frontierOffers_def by simp
  obtain as where as: "fst ?after = rest @ map (\<lambda>a. labelOf s h node first c (arcs @ [a])) as"
      "\<forall>a \<in> set as. a \<in> set (outgoingFrom s (lbNode current)) \<and> mayTurn s (h @ map qaKey arcs) a"
    using offers unfolding frontierOffers_def by (elim conjE exE) simp
  have "drivable s h node (arcs @ [a])" if "a \<in> set as" for a
    using as(2) that arcs by (auto simp: drivable_snoc labelOf_def)
  then have drives: "standsForDrives s h node first c (fst ?after)"
    using ok as(1) queue by (fastforce simp: searchOk_def standsForDrives_def)
  have own: "explored s (snd ?after) (lbNode current) (lbHistory current) (lbCost current)"
    unfolding explored_def
  proof (intro conjI ballI impI)
    fix a assume a: "a \<in> set (qsArcs s)" "qaSource a = lbNode current" "mayTurn s (lbHistory current) a"
    have turn: "mayTurn s (lbHistory current) a = mayTurn s (h @ map qaKey arcs) a"
        "turnCost s (lbHistory current) a = turnCost s (h @ map qaKey arcs) a"
      using window_turn [OF w] by (simp_all add: arcs(2) labelOf_def mayTurn_effect turnCost_effect)
    have "sliceLast (qsWindow s) (lbHistory current @ [qaKey a]) = sliceLast (qsWindow s) (h @ map qaKey (arcs @ [a]))"
      using sliceLast_snoc [of "qsWindow s" "h @ map qaKey arcs"] maxHistory_bounds(1) [of "qsRules s"] w
      by (simp add: arcs(2) labelOf_def windowed_def)
    moreover have "knownWithin (snd ?after) (labelKey (labelOf s h node first c (arcs @ [a]))) (lbCost (labelOf s h node first c (arcs @ [a])))"
      using offers a turn(1) unfolding frontierOffers_def by simp
    ultimately show "knownWithin (snd ?after) (queryStateKey (qaTarget a) (sliceLast (qsWindow s) (lbHistory current @ [qaKey a])))
        (lbCost current + metric a (qsObjective s) + turnCost s (lbHistory current) a)"
      using turn(2) by (simp add: labelKey_def arcs(2) labelOf_def driveCost_snoc add.assoc)
  qed (use away in simp)
  have "frontierCovered s ?after"
    unfolding frontierCovered_def
  proof (intro allI impI)
    fix n g d assume good_state: "goodState n g" and d: "snd ?after (queryStateKey n g) = Some d"
    consider "pending (fst ?after) (queryStateKey n g) d" | "best (queryStateKey n g) = Some d"
      using offers d unfolding frontierOffers_def by auto
    then show "pending (fst ?after) (queryStateKey n g) d \<or> explored s (snd ?after) n g d"
    proof cases
      case 2
      then consider "pending queue (queryStateKey n g) d" | "explored s best n g d"
        using ok good_state unfolding searchOk_def frontierCovered_def by auto
      then show ?thesis
      proof cases
        case 1
        then obtain l where l: "l \<in> set queue" "labelKey l = queryStateKey n g" "lbCost l = d" by (auto simp: pending_def)
        show ?thesis
        proof (cases "l \<in> set rest")
          case True
          then show ?thesis using l as(1) by (auto simp: pending_def)
        next
          case False
          then have "l = current" using l(1) queue by simp
          then have "n = lbNode current" "g = lbHistory current"
            using l(2) good_state good_label [OF good arcs(1), of first c] queryStateKey_inj unfolding arcs(2) labelKey_def by metis+
          then show ?thesis using own l(3) \<open>l = current\<close> by simp
        qed
      next
        case 2
        then show ?thesis using explored_less less by blast
      qed
    qed simp
  qed
  moreover have "knownWithin (snd ?after) (labelKey (labelOf s h node first c [])) c"
    using ok less unfolding searchOk_def by (metis knownWithin_def knownWithin_trans snd_conv)
  ultimately show ?thesis using drives by (simp add: searchOk_def)
qed

section \<open>The search is exact\<close>

text \<open>A drive that ends where the destination's arc begins and may turn into it.\<close>

definition completeDrive :: "query_search \<Rightarrow> js_string list \<Rightarrow> js_string \<Rightarrow> query_arc list \<Rightarrow> bool" where
  "completeDrive s h node arcs \<longleftrightarrow> drivable s h node arcs \<and> arrives s (driveEnd node arcs) (h @ map qaKey arcs)"

definition cheapest :: "query_search \<Rightarrow> js_string list \<Rightarrow> js_string \<Rightarrow> query_arc list \<Rightarrow> bool" where
  "cheapest s h node arcs \<longleftrightarrow> (\<forall>other. completeDrive s h node other \<longrightarrow> driveCost s h arcs \<le> driveCost s h other)"

interpretation label_order: js_order compareLabels
  unfolding compareLabels_def by (intro order_intros)

lemma taken_first:
  assumes "sort_by compareLabels queue = current # rest"
  shows "set queue = insert current (set rest)" and "l \<in> set queue \<Longrightarrow> lbCost current \<le> lbCost l"
proof -
  show queue: "set queue = insert current (set rest)" using arg_cong [OF assms, of set] by simp
  assume "l \<in> set queue"
  then consider "l = current" | "l \<in> set rest" using queue by blast
  then show "lbCost current \<le> lbCost l"
  proof cases
    case 2
    then have "compareLabels current l \<le> 0"
      using label_order.sorted_sort_by [of queue] assms by (simp add: sorted_by_def)
    then show ?thesis by (auto simp: compareLabels_def orElse_def split: if_splits)
  qed simp
qed

lemma arrives_window:
  "windowed s \<Longrightarrow> arrives s node (sliceLast (qsWindow s) h) \<longleftrightarrow> arrives s node h"
  by (simp add: arrives_def mayTurn_effect window_turn)

lemma first_is_cheapest:
  assumes ok: "searchOk s h node first c (queue, best)" and good: "goodSearch s h node" and free: "freeCosts s"
    and first: "sort_by compareLabels queue = labelOf s h node first c arcs # rest"
  shows "cheapest s h node arcs"
  unfolding cheapest_def
proof (intro allI impI)
  fix other assume other: "completeDrive s h node other"
  then have "drivable s h node other" by (simp add: completeDrive_def)
  from drive_tracked [OF ok good free this] show "driveCost s h arcs \<le> driveCost s h other"
  proof
    assume "\<exists>l \<in> set (fst (queue, best)). lbCost l \<le> c + driveCost s h other"
    then show ?thesis using taken_first(2) [OF first] by (fastforce simp: labelOf_def)
  next
    assume "\<exists>b. b \<le> c + driveCost s h other \<and>
      explored s (snd (queue, best)) (driveEnd node other) (sliceLast (qsWindow s) (h @ map qaKey other)) b"
    then show ?thesis using other arrives_window good by (auto simp: explored_def completeDrive_def goodSearch_def)
  qed
qed

definition searchVerdict :: "query_search \<Rightarrow> js_string list \<Rightarrow> js_string \<Rightarrow> js_string \<Rightarrow>
    query_error + ((js_string list \<times> int) option \<times> nat) \<Rightarrow> bool" where
  "searchVerdict s h node first outcome \<longleftrightarrow>
     (case outcome of
        Inr (None, left) \<Rightarrow> \<not> (\<exists>arcs. completeDrive s h node arcs)
      | Inr (Some (keys, penalty), left) \<Rightarrow> \<exists>arcs. completeDrive s h node arcs \<and> cheapest s h node arcs \<and>
          keys = first # map qaKey arcs @ [qaKey (qsDestination s)] \<and> int (length keys) \<le> qsMaximum s \<and>
          penalty = drivePenalty s h arcs + turnCost s (h @ map qaKey arcs) (qsDestination s)
      | Inl e \<Rightarrow> e = DEADLINE_EXCEEDED \<or> (e = BUDGET_EXCEEDED \<and>
          (\<exists>arcs. drivable s h node arcs \<and> cheapest s h node arcs \<and> qsMaximum s < int (length arcs) + 2)))"

lemma searchPath_exact:
  assumes good: "goodSearch s h node" and free: "freeCosts s" and "searchOk s h node first c frontier"
  shows "searchVerdict s h node first (searchPath s clock frontier)"
  using assms(3)
proof (induction clock arbitrary: frontier)
  case 0
  obtain queue best where f: "frontier = (queue, best)" by (cases frontier)
  show ?case
  proof (cases "sort_by compareLabels queue")
    case Nil
    then have "queue = []" by simp
    then show ?thesis
      using drive_tracked [OF 0 good free] arrives_window good
      by (auto simp: f searchPath.simps searchVerdict_def completeDrive_def explored_def goodSearch_def)
  qed (simp add: f searchPath.simps searchVerdict_def)
next
  case (Suc clock)
  obtain queue best where f: "frontier = (queue, best)" by (cases frontier)
  show ?case
  proof (cases "sort_by compareLabels queue")
    case Nil
    then have "queue = []" by simp
    then show ?thesis
      using drive_tracked [OF Suc.prems good free] arrives_window good
      by (auto simp: f searchPath.simps searchVerdict_def completeDrive_def explored_def goodSearch_def)
  next
    case (Cons current rest)
    note queue = taken_first(1) [OF Cons]
    obtain arcs where arcs: "drivable s h node arcs" "current = labelOf s h node first c arcs"
      using Suc.prems queue by (auto simp: f searchOk_def standsForDrives_def)
    have cheap: "cheapest s h node arcs"
      using first_is_cheapest [OF Suc.prems [unfolded f] good free] Cons arcs(2) by simp
    have w: "windowed s" using good by (simp add: goodSearch_def)
    have turn: "turnEffect (lbHistory current) k (qsRules s) (qsIgnoreSoft s) = turnEffect (h @ map qaKey arcs) k (qsRules s) (qsIgnoreSoft s)" for k
      using window_turn [OF w] by (simp add: arcs(2) labelOf_def)
    have here: "arrives s (lbNode current) (lbHistory current) \<longleftrightarrow> arrives s (driveEnd node arcs) (h @ map qaKey arcs)"
      using arrives_window [OF w] by (simp add: arcs(2) labelOf_def)
    consider (over) "int (length (lbArcs current)) > qsMaximum s"
      | (stale) "takeLabel s current (rest, best) = Inr (Going (rest, best))" "best (labelKey current) \<noteq> Some (lbCost current)"
      | (arrive) "arrives s (lbNode current) (lbHistory current)"
          "takeLabel s current (rest, best) = (if int (length (lbArcs current @ [qaKey (qsDestination s)])) > qsMaximum s then Inl BUDGET_EXCEEDED
            else Inr (Arrived (lbArcs current @ [qaKey (qsDestination s)]) (lbPenalty current + turnCost s (h @ map qaKey arcs) (qsDestination s))))"
      | (expand) "\<not> arrives s (lbNode current) (lbHistory current)"
          "takeLabel s current (rest, best) = Inr (Going (expandLabel s current (rest, best)))"
      by (cases "int (length (lbArcs current)) > qsMaximum s"; cases "best (labelKey current) = Some (lbCost current)";
        cases "arrives s (lbNode current) (lbHistory current)")
        (auto simp: takeLabel_def arrives_def mayTurn_effect turnCost_effect turn Let_def)
    then show ?thesis
    proof cases
      case over
      then have "searchPath s (Suc clock) frontier = Inl BUDGET_EXCEEDED"
        by (simp add: f searchPath.simps Cons takeLabel_def)
      moreover have "qsMaximum s < int (length arcs) + 2" using over by (simp add: arcs(2) labelOf_def)
      ultimately show ?thesis using arcs(1) cheap by (auto simp: searchVerdict_def)
    next
      case stale
      then show ?thesis using Suc.IH [OF searchOk_drop [OF Suc.prems [unfolded f] queue stale(2)]]
        by (simp add: f searchPath.simps [of s "Suc clock"] Cons)
    next
      case arrive
      then have complete: "completeDrive s h node arcs" using arcs(1) here by (simp add: completeDrive_def)
      show ?thesis
      proof (cases "int (length (lbArcs current @ [qaKey (qsDestination s)])) > qsMaximum s")
        case True
        then have "searchPath s (Suc clock) frontier = Inl BUDGET_EXCEEDED" using arrive(2) by (simp add: f searchPath.simps Cons)
        moreover have "qsMaximum s < int (length arcs) + 2" using True by (simp add: arcs(2) labelOf_def)
        ultimately show ?thesis using arcs(1) cheap by (auto simp: searchVerdict_def)
      next
        case False
        then have "searchPath s (Suc clock) frontier = Inr (Some (first # map qaKey arcs @ [qaKey (qsDestination s)],
            drivePenalty s h arcs + turnCost s (h @ map qaKey arcs) (qsDestination s)), clock)"
          using arrive(2) by (simp add: f searchPath.simps Cons) (simp add: arcs(2) labelOf_def)
        moreover have "int (length (first # map qaKey arcs @ [qaKey (qsDestination s)])) \<le> qsMaximum s"
          using False by (simp add: arcs(2) labelOf_def)
        ultimately show ?thesis using complete cheap by (auto simp: searchVerdict_def)
      qed
    next
      case expand
      then show ?thesis using Suc.IH [OF searchOk_expand [OF Suc.prems [unfolded f] good queue expand(1)]]
        by (simp add: f searchPath.simps [of s "Suc clock"] Cons)
    qed
  qed
qed

section \<open>The search ends\<close>

text \<open>
  Every label leaves for at most as many arcs as there are, and labels beyond the maximum stop the search:
  weighing a label by a power of the number of arcs, every round makes the queue lighter.
\<close>

definition labelWeight :: "query_search \<Rightarrow> query_label \<Rightarrow> nat" where
  "labelWeight s l = (length (qsArcs s) + 1) ^ (nat (qsMaximum s) + 1 - length (lbArcs l))"

definition queueWeight :: "query_search \<Rightarrow> query_label list \<Rightarrow> nat" where
  "queueWeight s queue = sum_list (map (labelWeight s) queue)"

lemma queueWeight_sorted: "queueWeight s (sort_by c queue) = queueWeight s queue"
  unfolding queueWeight_def by (metis mset_map mset_sort_by sum_mset_sum_list)

lemma offerArc_queue:
  "\<exists>news. fst (offerArc s current frontier a) = fst frontier @ news \<and> length news \<le> 1 \<and> (\<forall>l \<in> set news. length (lbArcs l) = length (lbArcs current) + 1)"
  by (auto simp: offerArc_def extendLabel_def Let_def)

lemma expandLabel_queue:
  "\<exists>news. fst (expandLabel s current frontier) = fst frontier @ news \<and> length news \<le> length (qsArcs s) \<and>
     (\<forall>l \<in> set news. length (lbArcs l) = length (lbArcs current) + 1)"
proof -
  have "\<exists>news. fst (foldl (offerArc s current) frontier xs) = fst frontier @ news \<and> length news \<le> length xs \<and>
     (\<forall>l \<in> set news. length (lbArcs l) = length (lbArcs current) + 1)" for xs
  proof (induction xs rule: rev_induct)
    case (snoc a xs)
    then obtain news where news: "fst (foldl (offerArc s current) frontier xs) = fst frontier @ news" "length news \<le> length xs"
        "\<forall>l \<in> set news. length (lbArcs l) = length (lbArcs current) + 1" by blast
    obtain more where "fst (offerArc s current (foldl (offerArc s current) frontier xs) a) = fst (foldl (offerArc s current) frontier xs) @ more"
        "length more \<le> 1" "\<forall>l \<in> set more. length (lbArcs l) = length (lbArcs current) + 1"
      using offerArc_queue by blast
    then show ?case using news by (intro exI [of _ "news @ more"]) auto
  qed simp
  moreover have "length (outgoingFrom s (lbNode current)) \<le> length (qsArcs s)" by (simp add: outgoingFrom_def)
  ultimately show ?thesis unfolding expandLabel_def by (meson order_trans)
qed

lemma expandLabel_lighter:
  assumes "int (length (lbArcs current)) \<le> qsMaximum s"
  shows "queueWeight s (fst (expandLabel s current (rest, best))) < labelWeight s current + queueWeight s rest"
proof -
  let ?m = "length (qsArcs s)" and ?k = "nat (qsMaximum s) - length (lbArcs current)"
  obtain news where news: "fst (expandLabel s current (rest, best)) = rest @ news" "length news \<le> ?m"
      "\<forall>l \<in> set news. length (lbArcs l) = length (lbArcs current) + 1"
    using expandLabel_queue [of s current "(rest, best)"] by auto
  have same: "map (labelWeight s) news = map (\<lambda>_. (?m + 1) ^ ?k) news" using news(3) by (simp add: labelWeight_def)
  have "queueWeight s news = length news * (?m + 1) ^ ?k" unfolding queueWeight_def same by (simp add: sum_list_triv)
  also have "\<dots> \<le> ?m * (?m + 1) ^ ?k" using news(2) by simp
  also have "\<dots> < (?m + 1) ^ (?k + 1)" by simp
  also have "?k + 1 = nat (qsMaximum s) + 1 - length (lbArcs current)" using assms by linarith
  finally have "queueWeight s news < labelWeight s current" by (simp add: labelWeight_def)
  then show ?thesis using news(1) by (simp add: queueWeight_def)
qed

lemma searchPath_ends: "queueWeight s queue \<le> clock \<Longrightarrow> searchPath s clock (queue, best) \<noteq> Inl DEADLINE_EXCEEDED"
proof (induction clock arbitrary: queue best)
  case 0
  then have "queue = []" by (cases queue) (simp_all add: queueWeight_def labelWeight_def)
  then show ?case by (simp add: searchPath.simps)
next
  case (Suc clock)
  show ?case
  proof (cases "sort_by compareLabels queue")
    case (Cons current rest)
    have weight: "labelWeight s current + queueWeight s rest \<le> Suc clock"
      using Suc.prems queueWeight_sorted [of s compareLabels queue] Cons by (simp add: queueWeight_def)
    moreover have "0 < labelWeight s current" by (simp add: labelWeight_def)
    ultimately have drop: "queueWeight s rest \<le> clock" by linarith
    show ?thesis
    proof (cases "takeLabel s current (rest, best)")
      case (Inr step)
      show ?thesis
      proof (cases step)
        case (Going frontier)
        then have "frontier = (rest, best) \<or> (frontier = expandLabel s current (rest, best) \<and> int (length (lbArcs current)) \<le> qsMaximum s)"
          using Inr by (auto simp: takeLabel_def Let_def split: if_splits)
        then have "queueWeight s (fst frontier) \<le> clock"
          using drop weight expandLabel_lighter [of current s rest best] by auto
        then show ?thesis using Suc.IH [of "fst frontier" "snd frontier"] Cons Inr Going by (simp add: searchPath.simps [of s "Suc clock"])
      qed (simp add: searchPath.simps Cons Inr)
    next
      case (Inl e)
      then have "e = BUDGET_EXCEEDED" by (auto simp: takeLabel_def Let_def split: if_splits)
      then show ?thesis by (simp add: searchPath.simps Cons Inl)
    qed
  qed (simp add: searchPath.simps)
qed

section \<open>Queries\<close>

text \<open>Both ends are on the network, in the direction asked for, and the way is not just along one arc.\<close>

definition located :: "loaded_network \<Rightarrow> path_query \<Rightarrow> query_arc \<Rightarrow> query_arc \<Rightarrow> bool" where
  "located network q a b \<longleftrightarrow>
     arcByKey network (stateArcKey (pqStart q)) = Some a \<and> arcByKey network (stateArcKey (pqDestination q)) = Some b \<and>
     stateArcKey (pqStart q) \<notin> pqExcluded q \<and> stateArcKey (pqDestination q) \<notin> pqExcluded q \<and>
     qaDirection a = stateDirection (pqStart q) \<and> qaDirection b = stateDirection (pqDestination q) \<and>
     \<not> (qaKey a = qaKey b \<and> stateFraction (pqDestination q) \<ge> stateFraction (pqStart q))"

text \<open>Keys are unique and free of the separators, costs and penalties are not negative.\<close>

definition cleanNetwork :: "loaded_network \<Rightarrow> path_query \<Rightarrow> bool" where
  "cleanNetwork network q \<longleftrightarrow> distinct (map qaKey (lnArcs network)) \<and> list_all goodKey (pqPrior q) \<and>
     (\<forall>a \<in> set (lnArcs network). 124 \<notin> set (qaTarget a) \<and> goodKey (qaKey a) \<and> 0 \<le> metric a (pqObjective q)) \<and>
     (\<forall>r \<in> set (lnRules network). 0 \<le> qrPenalty r)"

lemma arcByKey_member: "arcByKey network k = Some a \<Longrightarrow> a \<in> set (lnArcs network) \<and> qaKey a = k"
  by (auto simp: arcByKey_def dest!: map_of_SomeD)

lemma arcByKey_self: "distinct (map qaKey (lnArcs network)) \<Longrightarrow> a \<in> set (lnArcs network) \<Longrightarrow> arcByKey network (qaKey a) = Some a"
  unfolding arcByKey_def by (rule map_of_is_SomeI) (auto simp: comp_def rev_map [symmetric] distinct_map)

lemma query_good:
  assumes "cleanNetwork network q" and "a \<in> set (lnArcs network)"
  shows "goodSearch (querySearch network q b) (initialHistory q a) (qaTarget a) \<and> freeCosts (querySearch network q b)"
  using assms by (auto simp: cleanNetwork_def goodSearch_def windowed_def querySearch_def goodState_def initialHistory_def freeCosts_def)

lemma initial_ok:
  "searchOk (querySearch network q b) (initialHistory q a) (qaTarget a) (qaKey a) (lbCost (initialLabel (querySearch network q b) q a))
     ([initialLabel (querySearch network q b) q a],
      [labelKey (initialLabel (querySearch network q b) q a) \<mapsto> lbCost (initialLabel (querySearch network q b) q a)])"
proof -
  let ?s = "querySearch network q b" and ?l = "initialLabel (querySearch network q b) q a"
  have l: "?l = labelOf ?s (initialHistory q a) (qaTarget a) (qaKey a) (lbCost ?l) []"
    by (simp add: labelOf_def initialLabel_def driveCost_def)
  have "drivable ?s (initialHistory q a) (qaTarget a) []" by simp
  then have "standsForDrives ?s (initialHistory q a) (qaTarget a) (qaKey a) (lbCost ?l) [?l]"
    using l unfolding standsForDrives_def by (metis empty_iff empty_set set_ConsD)
  then show ?thesis using l unfolding searchOk_def by (auto simp: frontierCovered_def pending_def knownWithin_def)
qed

text \<open>What a result says of the way driven: its pieces, the sums of their metrics, and the penalty of its turns.\<close>

definition reportsWay :: "arc_slice list \<Rightarrow> int \<Rightarrow> path_result \<Rightarrow> bool" where
  "reportsWay slices penalty r \<longleftrightarrow>
     map (\<lambda>g. (psArcKey g, psStart g, psEnd g)) (pathSegments r) = map (\<lambda>(arc, x, y). (qaKey arc, x, y)) slices \<and>
     pmDistance (pathMetrics r) = sum_list (map psDistance (pathSegments r)) \<and>
     pmDuration (pathMetrics r) = sum_list (map psDuration (pathSegments r)) \<and>
     pmRisk (pathMetrics r) = sum_list (map psRisk (pathSegments r)) \<and>
     pmEnergy (pathMetrics r) = sum_list (map psEnergy (pathSegments r)) \<and>
     pmCost (pathMetrics r) = sum_list (map (\<lambda>(arc, x, y). fraction (qaCost arc + qaConditionPenalty arc) (max 0 (y - x))) slices) + penalty \<and>
     sum_list (map psTurnPenalty (pathSegments r)) = penalty"

definition wholeWay :: "path_query \<Rightarrow> query_arc \<Rightarrow> query_arc list \<Rightarrow> query_arc \<Rightarrow> arc_slice list" where
  "wholeWay q a arcs b = (a, stateFraction (pqStart q), WHOLE) # map (\<lambda>x. (x, 0, WHOLE)) arcs @ [(b, 0, stateFraction (pqDestination q))]"

lemma pathSlices_way: "pathSlices q (a # arcs @ [b]) = wholeWay q a arcs b"
proof (rule nth_equalityI)
  fix i assume "i < length (pathSlices q (a # arcs @ [b]))"
  then consider "i = 0" | "0 < i" "i < length arcs + 1" | "i = length arcs + 1" by (fastforce simp: pathSlices_def)
  then show "pathSlices q (a # arcs @ [b]) ! i = wholeWay q a arcs b ! i"
    by cases (auto simp: pathSlices_def wholeWay_def nth_enumerate_eq nth_append nth_Cons')
qed (simp add: pathSlices_def wholeWay_def)

lemma sliceMetricsOf_sums:
  "pmDistance (sliceMetricsOf slices) = sum_list (map (\<lambda>(arc, x, y). fraction (qaDistance arc) (max 0 (y - x))) slices)"
  "pmDuration (sliceMetricsOf slices) = sum_list (map (\<lambda>(arc, x, y). fraction (qaDuration arc) (max 0 (y - x))) slices)"
  "pmRisk (sliceMetricsOf slices) = sum_list (map (\<lambda>(arc, x, y). fraction (qaRisk arc) (max 0 (y - x))) slices)"
  "pmEnergy (sliceMetricsOf slices) = sum_list (map (\<lambda>(arc, x, y). fraction (qaEnergy arc) (max 0 (y - x))) slices)"
  "pmCost (sliceMetricsOf slices) = sum_list (map (\<lambda>(arc, x, y). fraction (qaCost arc + qaConditionPenalty arc) (max 0 (y - x))) slices)"
  by (induction slices rule: rev_induct) (auto simp: sliceMetricsOf_def addArcMetrics_def zeroMetrics_def)

lemma segment_values:
  "map psDistance (map (pathSegment snapshot penalty n) (enumerate k slices)) = map (\<lambda>(arc, x, y). fraction (qaDistance arc) (max 0 (y - x))) slices"
  "map psDuration (map (pathSegment snapshot penalty n) (enumerate k slices)) = map (\<lambda>(arc, x, y). fraction (qaDuration arc) (max 0 (y - x))) slices"
  "map psRisk (map (pathSegment snapshot penalty n) (enumerate k slices)) = map (\<lambda>(arc, x, y). fraction (qaRisk arc) (max 0 (y - x))) slices"
  "map psEnergy (map (pathSegment snapshot penalty n) (enumerate k slices)) = map (\<lambda>(arc, x, y). fraction (qaEnergy arc) (max 0 (y - x))) slices"
  "map (\<lambda>g. (psArcKey g, psStart g, psEnd g)) (map (pathSegment snapshot penalty n) (enumerate k slices)) = map (\<lambda>(arc, x, y). (qaKey arc, x, y)) slices"
  by (induction slices arbitrary: k) (auto simp: Let_def)

lemma others_free: "k + length slices < n \<Longrightarrow> sum_list (map (psTurnPenalty \<circ> pathSegment snapshot penalty n) (enumerate k slices)) = 0"
  by (induction slices arbitrary: k) (auto simp: Let_def)

lemma enumerate_snoc: "enumerate k (xs @ [x]) = enumerate k xs @ [(k + length xs, x)]"
  by (simp add: enumerate_append_eq)

lemma last_pays:
  assumes "slices \<noteq> []"
  shows "sum_list (map psTurnPenalty (map (pathSegment snapshot penalty (length slices)) (enumerate 0 slices))) = penalty"
proof (cases slices rule: rev_exhaust)
  case (snoc front slice)
  then show ?thesis using others_free [of 0 front "length slices" snapshot penalty]
    by (cases slice) (simp add: enumerate_snoc Let_def)
qed (use assms in simp)

lemma completePath_reports:
  assumes "completePath sha snapshot slices penalty = Inr r" and "slices \<noteq> []"
  shows "pathStatus r = PATH_COMPLETED \<and> pathSnapshot r = snapshot \<and> reportsWay slices penalty r"
  using assms last_pays [OF assms(2), of snapshot penalty]
  by (auto simp: completePath_def finishPath_def Let_def bindR_eq_Inr reportsWay_def sliceMetricsOf_sums segment_values simp del: map_map)

text \<open>The verdict on a query between located ends, over drives from the start's history.\<close>

definition queryDrive :: "loaded_network \<Rightarrow> path_query \<Rightarrow> query_arc \<Rightarrow> query_arc \<Rightarrow> query_arc list \<Rightarrow> bool" where
  "queryDrive network q a b arcs \<longleftrightarrow> completeDrive (querySearch network q b) (initialHistory q a) (qaTarget a) arcs"

definition queryCheapest :: "loaded_network \<Rightarrow> path_query \<Rightarrow> query_arc \<Rightarrow> query_arc \<Rightarrow> query_arc list \<Rightarrow> bool" where
  "queryCheapest network q a b arcs \<longleftrightarrow> cheapest (querySearch network q b) (initialHistory q a) (qaTarget a) arcs"

definition wayPenalty :: "loaded_network \<Rightarrow> path_query \<Rightarrow> query_arc \<Rightarrow> query_arc \<Rightarrow> query_arc list \<Rightarrow> int" where
  "wayPenalty network q a b arcs = drivePenalty (querySearch network q b) (initialHistory q a) arcs +
     turnCost (querySearch network q b) (initialHistory q a @ map qaKey arcs) b"

definition answersQuery :: "loaded_network \<Rightarrow> path_query \<Rightarrow> query_arc \<Rightarrow> query_arc \<Rightarrow> path_result \<Rightarrow> bool" where
  "answersQuery network q a b r \<longleftrightarrow>
     (case pathStatus r of
        NO_PATH \<Rightarrow> \<not> (\<exists>arcs. queryDrive network q a b arcs)
      | PATH_COMPLETED \<Rightarrow> \<exists>arcs. queryDrive network q a b arcs \<and> queryCheapest network q a b arcs \<and>
          int (length arcs) + 2 \<le> pqMaximum q \<and> reportsWay (wholeWay q a arcs b) (wayPenalty network q a b arcs) r)"

definition overBudget :: "loaded_network \<Rightarrow> path_query \<Rightarrow> query_arc \<Rightarrow> query_arc \<Rightarrow> bool" where
  "overBudget network q a b \<longleftrightarrow>
     (\<exists>arcs. drivable (querySearch network q b) (initialHistory q a) (qaTarget a) arcs \<and> queryCheapest network q a b arcs \<and>
       pqMaximum q < int (length arcs) + 2)"

lemma drive_arcs: "drivable s h node arcs \<Longrightarrow> set arcs \<subseteq> set (qsArcs s)"
  by (induction arcs arbitrary: h node) auto

lemma keys_back:
  "distinct (map qaKey (lnArcs network)) \<Longrightarrow> set arcs \<subseteq> set (lnArcs network) \<Longrightarrow>
     List.map_filter (arcByKey network) (map qaKey arcs) = arcs"
  by (induction arcs) (auto simp: arcByKey_self map_filter_simps)

lemma findPath_located:
  assumes "located network q a b" and "isOk (assertState (pqStart q))" and "isOk (assertState (pqDestination q))"
  shows "findPath sha network q clock =
    bindR (searchPath (querySearch network q b) clock ([initialLabel (querySearch network q b) q a],
        [labelKey (initialLabel (querySearch network q b) q a) \<mapsto> lbCost (initialLabel (querySearch network q b) q a)])) (\<lambda>(chosen, left).
      (case chosen of
         None \<Rightarrow> bindR (noPath sha (lnSnapshot network)) (\<lambda>r. Inr (r, left))
       | Some (keys, penalty) \<Rightarrow>
           bindR (completePath sha (lnSnapshot network) (pathSlices q (List.map_filter (arcByKey network) keys)) penalty)
             (\<lambda>r. Inr (r, left))))"
  using assms by (auto simp: findPath_def located_def isOk_iff Let_def)

lemma noPath_status: "noPath sha snapshot = Inr r \<Longrightarrow> pathStatus r = NO_PATH"
  by (auto simp: noPath_def finishPath_def bindR_eq_Inr)

lemma query_verdict:
  assumes ends: "located network q a b" and clean: "cleanNetwork network q"
  shows "searchVerdict (querySearch network q b) (initialHistory q a) (qaTarget a) (qaKey a)
    (searchPath (querySearch network q b) clock ([initialLabel (querySearch network q b) q a],
        [labelKey (initialLabel (querySearch network q b) q a) \<mapsto> lbCost (initialLabel (querySearch network q b) q a)]))"
proof -
  have "a \<in> set (lnArcs network)" using ends arcByKey_member by (auto simp: located_def)
  then show ?thesis using query_good [OF clean] by (intro searchPath_exact [OF _ _ initial_ok]) blast+
qed

lemma findPath_exact:
  assumes ends: "located network q a b" and clean: "cleanNetwork network q" and run: "findPath sha network q clock = Inr (r, left)"
  shows "answersQuery network q a b r"
proof -
  let ?s = "querySearch network q b" and ?h = "initialHistory q a"
  let ?run = "searchPath ?s clock ([initialLabel ?s q a], [labelKey (initialLabel ?s q a) \<mapsto> lbCost (initialLabel ?s q a)])"
  have "isOk (assertState (pqStart q))" "isOk (assertState (pqDestination q))"
    using run by (auto simp: findPath_def isOk_iff bindR_eq_Inr)
  note run' = run [unfolded findPath_located [OF ends this]]
  then obtain chosen rest where found: "?run = Inr (chosen, rest)" by (auto simp: bindR_eq_Inr)
  note verdict = query_verdict [OF ends clean, of clock, unfolded found searchVerdict_def]
  show ?thesis
  proof (cases chosen)
    case None
    then show ?thesis using run' found verdict noPath_status by (auto simp: bindR_eq_Inr answersQuery_def queryDrive_def)
  next
    case (Some kp)
    then obtain keys penalty where kp: "chosen = Some (keys, penalty)" by (cases kp) simp
    obtain arcs where arcs: "completeDrive ?s ?h (qaTarget a) arcs" "cheapest ?s ?h (qaTarget a) arcs"
        "keys = qaKey a # map qaKey arcs @ [qaKey b]" "int (length keys) \<le> pqMaximum q"
        "penalty = drivePenalty ?s ?h arcs + turnCost ?s (?h @ map qaKey arcs) b"
      using verdict unfolding kp by (auto simp: querySearch_def)
    have "set (a # arcs @ [b]) \<subseteq> set (lnArcs network)"
      using drive_arcs arcs(1) ends arcByKey_member by (fastforce simp: completeDrive_def querySearch_def located_def)
    then have "List.map_filter (arcByKey network) keys = a # arcs @ [b]"
      using keys_back [of network "a # arcs @ [b]"] clean arcs(3) by (simp add: cleanNetwork_def)
    then have "completePath sha (lnSnapshot network) (wholeWay q a arcs b) penalty = Inr r"
      using run' found kp by (auto simp: bindR_eq_Inr pathSlices_way)
    from completePath_reports [OF this] have "pathStatus r = PATH_COMPLETED" "reportsWay (wholeWay q a arcs b) penalty r"
      by (simp_all add: wholeWay_def)
    then show ?thesis using arcs unfolding answersQuery_def queryDrive_def queryCheapest_def wayPenalty_def by auto
  qed
qed

lemma initial_weight: "queueWeight (querySearch network q b) [initialLabel (querySearch network q b) q a] \<le> (length (lnArcs network) + 1) ^ nat (pqMaximum q)"
  by (auto simp: queueWeight_def labelWeight_def initialLabel_def querySearch_def intro: power_mono)

definition documented :: "loaded_network \<Rightarrow> bool" where
  "documented network \<longleftrightarrow> (\<forall>a \<in> set (lnArcs network). case qaFeature a of None \<Rightarrow> True | Some f \<Rightarrow> supported f)"

lemma finishPath_ok:
  assumes "\<forall>g \<in> set segments. case psFeature g of None \<Rightarrow> True | Some f \<Rightarrow> supported f"
  shows "isOk (finishPath sha status snapshot segments metrics)"
proof -
  have doc: "supported (JObj [(js ''status'', JStr (if status = PATH_COMPLETED then js ''COMPLETED'' else js ''NO_PATH'')),
        (js ''routingSnapshot'', snapshotJson snapshot), (js ''segments'', JArr (map pathSegmentJson segments)),
        (js ''metrics'', pathMetricsJson metrics), (js ''warnings'', JArr [])])"
    using assms by (auto simp: pathSegmentJson_def pathMetricsJson_def optionalEntry_def split: option.splits)
  obtain t where "contractSha256 sha (JObj [(js ''status'', JStr (if status = PATH_COMPLETED then js ''COMPLETED'' else js ''NO_PATH'')),
        (js ''routingSnapshot'', snapshotJson snapshot), (js ''segments'', JArr (map pathSegmentJson segments)),
        (js ''metrics'', pathMetricsJson metrics), (js ''warnings'', JArr [])]) = Inr t"
    using contractSha256_ok [OF doc] by blast
  then show ?thesis by (simp add: finishPath_def queryHash_def)
qed

lemma completePath_ok:
  assumes "documented network" and "fst ` set slices \<subseteq> set (lnArcs network)"
  shows "isOk (completePath sha snapshot slices penalty)"
proof -
  have "psFeature (pathSegment snapshot penalty n e) = qaFeature (fst (snd e))" for n e by (cases e) (auto simp: Let_def)
  moreover have "fst (snd e) \<in> set (lnArcs network)" if e: "e \<in> set (enumerate 0 slices)" for e
  proof -
    have "snd e \<in> set slices" using e nth_mem [of "fst e" slices] by (simp add: in_set_enumerate_eq)
    then show ?thesis using assms(2) by blast
  qed
  ultimately show ?thesis
    using assms(1) unfolding completePath_def Let_def documented_def by (intro finishPath_ok) auto
qed

lemma findPath_answers:
  assumes ends: "located network q a b" and clean: "cleanNetwork network q" and docs: "documented network"
    and states: "isOk (assertState (pqStart q))" "isOk (assertState (pqDestination q))"
    and clock: "(length (lnArcs network) + 1) ^ nat (pqMaximum q) \<le> clock"
  shows "(\<exists>r left. findPath sha network q clock = Inr (r, left)) \<or>
    findPath sha network q clock = Inl BUDGET_EXCEEDED \<and> overBudget network q a b"
proof -
  let ?s = "querySearch network q b" and ?h = "initialHistory q a"
  let ?run = "searchPath ?s clock ([initialLabel ?s q a], [labelKey (initialLabel ?s q a) \<mapsto> lbCost (initialLabel ?s q a)])"
  note path = findPath_located [OF ends states, of sha clock]
  note verdict = query_verdict [OF ends clean, of clock, unfolded searchVerdict_def]
  have time: "?run \<noteq> Inl DEADLINE_EXCEEDED" using initial_weight [of network q b a] clock by (intro searchPath_ends) linarith
  show ?thesis
  proof (cases ?run)
    case (Inl e)
    then have "e = BUDGET_EXCEEDED" "overBudget network q a b"
      using verdict time by (auto simp: overBudget_def queryCheapest_def querySearch_def)
    then show ?thesis using path Inl by simp
  next
    case (Inr result)
    then obtain chosen left where found: "?run = Inr (chosen, left)" by (cases result) simp
    show ?thesis
    proof (cases chosen)
      case None
      obtain r where "noPath sha (lnSnapshot network) = Inr r" using finishPath_ok [of "[]" sha NO_PATH "lnSnapshot network" zeroMetrics] by (auto simp: noPath_def isOk_iff)
      then show ?thesis using path found None by simp
    next
      case (Some kp)
      then obtain keys penalty where kp: "chosen = Some (keys, penalty)" by (cases kp) simp
      let ?arcs = "List.map_filter (arcByKey network) keys"
      have "fst ` set (pathSlices q ?arcs) \<subseteq> set (lnArcs network)"
      proof -
        have "x \<in> set (lnArcs network)" if x: "x \<in> set ?arcs" for x
          using x arcByKey_member by (auto simp: List.map_filter_def)
        moreover have "map fst (pathSlices q ?arcs) = ?arcs" by (simp add: pathSlices_def comp_def case_prod_beta)
        then have "fst ` set (pathSlices q ?arcs) = set ?arcs" by (metis set_map)
        ultimately show ?thesis by blast
      qed
      then obtain r where "completePath sha (lnSnapshot network) (pathSlices q ?arcs) penalty = Inr r"
        using completePath_ok [OF docs] by (metis isOk_iff)
      then show ?thesis using path found kp by simp
    qed
  qed
qed

section \<open>Properties\<close>

text \<open>
  C15. A path query is answered by a cheapest legal drive, or there is none.  For two located ends on a
  network whose keys are unique and free of the separators of \<open>stateKey\<close> and whose costs and penalties are
  not negative, \<open>findPath\<close> reports NO_PATH only if no drive at all leads from the start, with the turns
  before it, over arcs that are not excluded to the destination without a forbidden turn, although it
  remembers only the last arcs; a completed path is such a drive, no legal one costs less before its last turn,
  its length is within the budget, and the segments, the sums and the penalty are those of the drive.
\<close>

theorem path_query_exact:
  assumes "located network q a b" and "cleanNetwork network q" and "findPath sha network q clock = Inr (r, left)"
  shows "answersQuery network q a b r"
  by (rule findPath_exact [OF assms])

text \<open>
  C16. A well-formed path query ends.  For two located ends with valid fractions, on a network whose keys are
  unique and free of the separators of \<open>stateKey\<close>, whose costs and penalties are not negative and whose feature
  documents JSON can write: if the deadline allows as many checks as a power of the number of arcs
  to the segment budget, \<open>findPath\<close> never exceeds it: it returns, or it reports BUDGET_EXCEEDED, and then
  a drive that is over the budget, or would be with the destination, costs no more than any complete drive.
\<close>

theorem path_query_ends:
  assumes "located network q a b" and "cleanNetwork network q" and "documented network"
    and "isOk (assertState (pqStart q))" and "isOk (assertState (pqDestination q))"
    and "(length (lnArcs network) + 1) ^ nat (pqMaximum q) \<le> clock"
  shows "(\<exists>r left. findPath sha network q clock = Inr (r, left)) \<or>
    findPath sha network q clock = Inl BUDGET_EXCEEDED \<and> overBudget network q a b"
  by (rule findPath_answers [OF assms])

text \<open>Two ways from one road to another; the shorter one begins with a forbidden turn.\<close>

definition forkArc :: "string \<Rightarrow> string \<Rightarrow> string \<Rightarrow> int \<Rightarrow> query_arc" where
  "forkArc key s t d = \<lparr>qaKey = js key, qaSource = js s, qaTarget = js t, qaDirection = FORWARD, qaFeature = None, qaDistance = d,
     qaDuration = d, qaRisk = 0, qaEnergy = 0, qaCost = d, qaConditionPenalty = 0\<rparr>"

definition forkSnapshot :: routing_snapshot where
  "forkSnapshot = \<lparr>snapGraphVersion = js ''g'', snapGraphContentHash = [], snapCostProfileVersion = [], snapCostContentHash = [],
     snapTravelProfileVersion = [], snapDatasetVersion = [], snapCapturedAt = None, snapConditionContentHash = None,
     snapConditionSnapshotId = None, snapSourceWorldVersion = None\<rparr>"

definition forkNetwork :: loaded_network where
  "forkNetwork = \<lparr>lnSnapshot = forkSnapshot,
     lnArcs = [forkArc ''a'' ''p'' ''q'' 10, forkArc ''m'' ''q'' ''s'' 9, forkArc ''n'' ''q'' ''s'' 4, forkArc ''b'' ''s'' ''t'' 8],
     lnRules = [\<lparr>qrSequence = [js ''a'', js ''n''], qrType = FORBIDDEN, qrPenalty = 0\<rparr>,
       \<lparr>qrSequence = [js ''a'', js ''m'', js ''b''], qrType = PENALTY, qrPenalty = 3\<rparr>]\<rparr>"

definition forkState :: "string \<Rightarrow> int \<Rightarrow> directed_state" where
  "forkState key ppm = \<lparr>stateArcKey = js key, stateDirection = FORWARD, stateFraction = ppm, stateHeading = None, stateFeature = None\<rparr>"

definition forkQuery :: path_query where
  "forkQuery = \<lparr>pqStart = forkState ''a'' 500000, pqDestination = forkState ''b'' 250000, pqObjective = SHORTEST_DISTANCE,
     pqMaximum = 3, pqIgnoreSoft = False, pqExcluded = {}, pqPrior = []\<rparr>"

lemma fork_facts:
  "located forkNetwork forkQuery (forkArc ''a'' ''p'' ''q'' 10) (forkArc ''b'' ''s'' ''t'' 8)"
  "cleanNetwork forkNetwork forkQuery" "documented forkNetwork"
  "isOk (assertState (pqStart forkQuery))" "isOk (assertState (pqDestination forkQuery))"
  "(length (lnArcs forkNetwork) + 1) ^ nat (pqMaximum forkQuery) \<le> 125"
  by code_simp+

lemma fork_search:
  "searchPath (querySearch forkNetwork forkQuery (forkArc ''b'' ''s'' ''t'' 8)) 125
     ([initialLabel (querySearch forkNetwork forkQuery (forkArc ''b'' ''s'' ''t'' 8)) forkQuery (forkArc ''a'' ''p'' ''q'' 10)],
      [labelKey (initialLabel (querySearch forkNetwork forkQuery (forkArc ''b'' ''s'' ''t'' 8)) forkQuery (forkArc ''a'' ''p'' ''q'' 10)) \<mapsto>
        lbCost (initialLabel (querySearch forkNetwork forkQuery (forkArc ''b'' ''s'' ''t'' 8)) forkQuery (forkArc ''a'' ''p'' ''q'' 10))]) =
   Inr (Some ([js ''a'', js ''m'', js ''b''], 3), 123)"
  by code_simp

lemma fork_answered: "findPath sha forkNetwork forkQuery 125 \<noteq> Inl BUDGET_EXCEEDED"
proof -
  let ?keys = "[js ''a'', js ''m'', js ''b'']" and ?slices = "pathSlices forkQuery (List.map_filter (arcByKey forkNetwork) [js ''a'', js ''m'', js ''b''])"
  have path: "findPath sha forkNetwork forkQuery 125 = bindR (completePath sha (lnSnapshot forkNetwork) ?slices 3) (\<lambda>r. Inr (r, 123))"
    unfolding findPath_located [OF fork_facts(1,4,5)] fork_search by simp
  have "fst ` set ?slices \<subseteq> set (lnArcs forkNetwork)" by code_simp
  then obtain r where "completePath sha (lnSnapshot forkNetwork) ?slices 3 = Inr r"
    using completePath_ok [OF fork_facts(3)] by (metis isOk_iff)
  then show ?thesis using path by simp
qed

lemma fork_returns: "\<exists>r left. findPath sha forkNetwork forkQuery 125 = Inr (r, left)"
  using findPath_answers [OF fork_facts, of sha] fork_answered by blast

lemma path_query_exact_witness:
  "\<exists>r left. findPath (\<lambda>_. []) forkNetwork forkQuery 125 = Inr (r, left) \<and>
     answersQuery forkNetwork forkQuery (forkArc ''a'' ''p'' ''q'' 10) (forkArc ''b'' ''s'' ''t'' 8) r"
  using fork_returns [of "\<lambda>_. []"] path_query_exact [OF fork_facts(1,2), of "\<lambda>_. []" 125] by blast

lemma path_query_ends_witness: "\<exists>r left. findPath (\<lambda>_. []) forkNetwork forkQuery 125 = Inr (r, left)"
  using path_query_ends [OF fork_facts, of "\<lambda>_. []"] fork_answered by blast

text \<open>
  The penalty of the turn into the destination's arc is charged to the path that is found but plays no part
  in the choice: here the way over \<open>m\<close> is taken and pays 10, although the way over \<open>n\<close> costs 1 more and pays
  nothing.  So \<open>queryCheapest\<close> compares drives before their last turn.
\<close>

definition tollNetwork :: loaded_network where
  "tollNetwork = forkNetwork\<lparr>lnArcs := [forkArc ''a'' ''p'' ''q'' 10, forkArc ''m'' ''q'' ''s'' 4, forkArc ''n'' ''q'' ''s'' 5, forkArc ''b'' ''s'' ''t'' 8],
     lnRules := [\<lparr>qrSequence = [js ''m'', js ''b''], qrType = PENALTY, qrPenalty = 10\<rparr>]\<rparr>"

lemma last_turn_unpriced:
  "map_sum id fst (searchPath (querySearch tollNetwork forkQuery (forkArc ''b'' ''s'' ''t'' 8)) 125
     ([initialLabel (querySearch tollNetwork forkQuery (forkArc ''b'' ''s'' ''t'' 8)) forkQuery (forkArc ''a'' ''p'' ''q'' 10)],
      [labelKey (initialLabel (querySearch tollNetwork forkQuery (forkArc ''b'' ''s'' ''t'' 8)) forkQuery (forkArc ''a'' ''p'' ''q'' 10)) \<mapsto> 5])) =
     Inr (Some ([js ''a'', js ''m'', js ''b''], 10))"
  "queryDrive tollNetwork forkQuery (forkArc ''a'' ''p'' ''q'' 10) (forkArc ''b'' ''s'' ''t'' 8) [forkArc ''n'' ''q'' ''s'' 5]"
  "wayPenalty tollNetwork forkQuery (forkArc ''a'' ''p'' ''q'' 10) (forkArc ''b'' ''s'' ''t'' 8) [forkArc ''n'' ''q'' ''s'' 5] = 0"
  by code_simp+

end
