(* ===== verification/NetworkCosts.thy ===== *)
theory NetworkCosts
  imports
  NetworkGraph
begin

text \<open>
  Travel profiles, cost profiles, conditions and the cost of an arc, \<open>network-foundation/src/profile-cost-condition.ts\<close>.

  Access masks are compared with the bitwise AND of JavaScript, on signed 32-bit words.  \<open>parseDate\<close> stands
  for \<open>Date.parse\<close>, \<open>None\<close> being NaN.
\<close>

unbundle bit_operations_syntax

section \<open>Data\<close>

datatype oneway_policy = STRICT_ONEWAY | IGNORE_FOR_EMERGENCY

record profile_content =
  pcKey :: js_string
  pcVersion :: js_string
  pcVehicle :: js_string
  pcRoadClasses :: "js_string list"
  pcSurfaces :: "js_string list"
  pcOneway :: oneway_policy
  pcMaximumSpeed :: "int option"
  pcAccessMask :: int

record network_profile = profile_content +
  pcHash :: js_string

record cost_weights =
  cwDistance :: int
  cwTime :: int
  cwRisk :: int
  cwEnergy :: int
  cwSurface :: int

record cost_content =
  ccKey :: js_string
  ccVersion :: js_string
  ccWeights :: cost_weights

record cost_profile = cost_content +
  ccHash :: js_string

record condition_content =
  coArcKey :: js_string
  coTraversal :: bool
  coSpeed :: "int option"
  coRisk :: "int option"
  coAccess :: "int option"
  coMultiplier :: "int option"
  coPenalty :: "int option"
  coReasons :: "js_string list"
  coEvidence :: "int json list"

record arc_condition = condition_content +
  coHash :: js_string

record snapshot_content =
  scSourceVersion :: js_string
  scObservedAt :: js_string
  scValidUntil :: js_string
  scCompleteness :: js_string
  scSourceHash :: js_string
  scMetadata :: "int json"

record condition_snapshot = snapshot_content +
  scConditions :: "arc_condition list"
  scKey :: js_string
  scHash :: js_string

record arc_cost =
  cmDistance :: int
  cmDuration :: int
  cmRisk :: int
  cmEnergy :: int
  cmSurface :: int
  cmCost :: int
  cmSpeed :: int
  cmSnapshotKey :: "js_string option"
  cmHash :: js_string

record cost_input =
  ciEdge :: built_edge
  ciArc :: built_arc
  ciTravel :: network_profile
  ciCost :: cost_profile
  ciRisk :: int
  ciEnergy :: int
  ciSurface :: int
  ciSnapshot :: "condition_snapshot option"

section \<open>Checked values\<close>

definition sortedUnique :: "js_string list \<Rightarrow> network_error + js_string list" where
  "sortedUnique vs =
     (let result = sort_by compareText (remdups vs) in
      if list_ex (\<lambda>v. v = []) result then Inl EmptyAllowlistValue else Inr result)"

definition positiveSafe :: "int option \<Rightarrow> network_error + int option" where
  "positiveSafe v = (case v of None \<Rightarrow> Inr None
     | Some n \<Rightarrow> if \<not> isSafeInteger n \<or> n \<le> 0 then Inl NotPositiveSafe else Inr (Some n))"

definition nonnegativeSafe :: "int \<Rightarrow> network_error + int" where
  "nonnegativeSafe n = (if \<not> isSafeInteger n \<or> n < 0 then Inl NotNonnegativeSafe else Inr n)"

definition optionalNonnegative :: "int option \<Rightarrow> network_error + unit" where
  "optionalNonnegative v = (case v of None \<Rightarrow> Inr () | Some n \<Rightarrow> bindR (nonnegativeSafe n) (\<lambda>_. Inr ()))"

definition safeNumber :: "int \<Rightarrow> network_error + int" where
  "safeNumber n = (if n > maxSafeInteger \<or> n < 0 then Inl OutOfFixedPointRange else Inr n)"

definition divideRoundHalfAwayFromZero :: "int \<Rightarrow> int \<Rightarrow> network_error + int" where
  "divideRoundHalfAwayFromZero numerator denominator =
     (if numerator < 0 \<or> denominator \<le> 0 then Inl NegativeDivision
      else Inr (bigDiv (numerator + bigDiv denominator 2) denominator))"

section \<open>Profiles\<close>

definition onewayPolicyText :: "oneway_policy \<Rightarrow> js_string" where
  "onewayPolicyText p = (if p = STRICT_ONEWAY then js ''STRICT'' else js ''IGNORE_FOR_EMERGENCY'')"

definition profileJson :: "'a profile_content_scheme \<Rightarrow> int json" where
  "profileJson p = JObj (
     [(js ''profileKey'', JStr (pcKey p)), (js ''version'', JStr (pcVersion p)), (js ''vehicleClass'', JStr (pcVehicle p)),
      (js ''allowedRoadClasses'', JArr (map JStr (pcRoadClasses p))), (js ''allowedSurfaces'', JArr (map JStr (pcSurfaces p))),
      (js ''onewayPolicy'', JStr (onewayPolicyText (pcOneway p))), (js ''requiredAccessMask'', JNum (pcAccessMask p))] @
     optionalEntry ''maximumSpeedMmPerS'' (map_option JNum (pcMaximumSpeed p)))"

definition createTravelProfile :: "(js_string \<Rightarrow> js_string) \<Rightarrow> profile_content \<Rightarrow> network_error + network_profile" where
  "createTravelProfile sha input =
     bindR (ensureR (\<not> (pcKey input = [] \<or> pcVersion input = [])) ProfileIdentityIncomplete) (\<lambda>_.
     bindR (positiveSafe (pcMaximumSpeed input)) (\<lambda>speed.
     bindR (nonnegativeSafe (pcAccessMask input)) (\<lambda>_.
     bindR (sortedUnique (pcRoadClasses input)) (\<lambda>classes.
     bindR (sortedUnique (pcSurfaces input)) (\<lambda>surfaces.
     let normalized = input\<lparr>pcRoadClasses := classes, pcSurfaces := surfaces, pcMaximumSpeed := speed\<rparr> in
     bindR (networkHash sha (profileJson normalized)) (\<lambda>hash.
     Inr (profile_content.extend normalized \<lparr>pcHash = hash\<rparr>)))))))"

definition weightList :: "cost_weights \<Rightarrow> int list" where
  "weightList w = [cwDistance w, cwTime w, cwRisk w, cwEnergy w, cwSurface w]"

definition costProfileJson :: "cost_content \<Rightarrow> int json" where
  "costProfileJson p = JObj
     [(js ''profileKey'', JStr (ccKey p)), (js ''version'', JStr (ccVersion p)),
      (js ''weights'', JObj [(js ''distance'', JNum (cwDistance (ccWeights p))), (js ''time'', JNum (cwTime (ccWeights p))),
         (js ''risk'', JNum (cwRisk (ccWeights p))), (js ''energy'', JNum (cwEnergy (ccWeights p))),
         (js ''surface'', JNum (cwSurface (ccWeights p)))]),
      (js ''roundingPolicy'', JStr (js ''HALF_AWAY_FROM_ZERO''))]"

definition createCostProfile :: "(js_string \<Rightarrow> js_string) \<Rightarrow> cost_content \<Rightarrow> network_error + cost_profile" where
  "createCostProfile sha input =
     bindR (ensureR (\<not> (ccKey input = [] \<or> ccVersion input = [])) ProfileIdentityIncomplete) (\<lambda>_.
     bindR (mapR nonnegativeSafe (weightList (ccWeights input))) (\<lambda>weights.
     bindR (ensureR (sum_list weights = 1000000) WeightsOffMillion) (\<lambda>_.
     bindR (networkHash sha (costProfileJson input)) (\<lambda>hash.
     Inr (cost_content.extend input \<lparr>ccHash = hash\<rparr>)))))"

section \<open>Conditions\<close>

definition conditionEntries :: "'a condition_content_scheme \<Rightarrow> (js_string \<times> int json) list" where
  "conditionEntries c =
     [(js ''arcKey'', JStr (coArcKey c)), (js ''traversalAllowed'', JBool (coTraversal c)),
      (js ''reasonCodes'', JArr (map JStr (coReasons c))), (js ''evidence'', JArr (coEvidence c))] @
     optionalEntry ''speedOverrideMmPerS'' (map_option JNum (coSpeed c)) @
     optionalEntry ''riskOverrideMicroUnits'' (map_option JNum (coRisk c)) @
     optionalEntry ''accessOverrideMask'' (map_option JNum (coAccess c)) @
     optionalEntry ''costMultiplierPpm'' (map_option JNum (coMultiplier c)) @
     optionalEntry ''penaltyUnits'' (map_option JNum (coPenalty c))"

definition normalizeCondition :: "(js_string \<Rightarrow> js_string) \<Rightarrow> condition_content \<Rightarrow> network_error + arc_condition" where
  "normalizeCondition sha c =
     bindR (positiveSafe (coSpeed c)) (\<lambda>_.
     bindR (ensureR (\<not> (\<not> coTraversal c \<and> coSpeed c \<noteq> None)) ClosedArcWithSpeed) (\<lambda>_.
     bindR (mapR optionalNonnegative [coRisk c, coAccess c, coMultiplier c, coPenalty c]) (\<lambda>_.
     bindR (sortedUnique (coReasons c)) (\<lambda>reasons.
     let normalized = c\<lparr>coReasons := reasons\<rparr> in
     bindR (networkHash sha (JObj (conditionEntries normalized))) (\<lambda>hash.
     Inr (condition_content.extend normalized \<lparr>coHash = hash\<rparr>))))))"

definition snapshotEntries :: "snapshot_content \<Rightarrow> arc_condition list \<Rightarrow> (js_string \<times> int json) list" where
  "snapshotEntries s conditions =
     [(js ''sourceSnapshotVersion'', JStr (scSourceVersion s)), (js ''observedAt'', JStr (scObservedAt s)),
      (js ''validUntil'', JStr (scValidUntil s)), (js ''completeness'', JStr (scCompleteness s)),
      (js ''sourceContentHash'', JStr (scSourceHash s)),
      (js ''conditions'', JArr (map (\<lambda>c. JObj (conditionEntries c @ [(js ''contentHash'', JStr (coHash c))])) conditions)),
      (js ''metadata'', scMetadata s)]"

definition createConditionSnapshot ::
  "(js_string \<Rightarrow> js_string) \<Rightarrow> (js_string \<Rightarrow> int option) \<Rightarrow> snapshot_content \<Rightarrow> condition_content list \<Rightarrow> network_error + condition_snapshot" where
  "createConditionSnapshot sha parseDate input conditions =
     bindR (case (parseDate (scObservedAt input), parseDate (scValidUntil input)) of
         (Some observed, Some until) \<Rightarrow> ensureR (\<not> until \<le> observed) ConditionIntervalInvalid
       | _ \<Rightarrow> Inl ConditionIntervalInvalid) (\<lambda>_.
     bindR (mapR (normalizeCondition sha) conditions) (\<lambda>made.
     let sorted = sort_by (\<lambda>l r. compareUnicodeCodePoints (coArcKey l) (coArcKey r)) made in
     bindR (ensureR (distinct (map coArcKey sorted)) DuplicateOverrides) (\<lambda>_.
     bindR (stableKey sha ''cs'' (JObj (snapshotEntries input sorted))) (\<lambda>key.
     bindR (networkHash sha (JObj ((js ''conditionSnapshotKey'', JStr key) # snapshotEntries input sorted))) (\<lambda>hash.
     Inr (snapshot_content.extend input \<lparr>scConditions = sorted, scKey = key, scHash = hash\<rparr>))))))"

section \<open>The cost of an arc\<close>

text \<open>\<open>a & b\<close> of JavaScript numbers\<close>

definition bitAnd :: "int \<Rightarrow> int \<Rightarrow> int" where
  "bitAnd a b = sint ((word_of_int a :: 32 word) AND word_of_int b)"

definition isArcEligible :: "built_edge \<Rightarrow> built_arc \<Rightarrow> network_profile \<Rightarrow> network_error + bool" where
  "isArcEligible edge arc profile =
     (if baEdgeKey arc \<noteq> beKey edge then Inl ArcOfOtherEdge
      else if beRoadClass edge \<notin> set (pcRoadClasses profile) then Inr False
      else if pcSurfaces profile \<noteq> [] \<and> (case beSurface edge of None \<Rightarrow> True | Some s \<Rightarrow> s \<notin> set (pcSurfaces profile)) then Inr False
      else if (case baAccessMask arc of None \<Rightarrow> False
        | Some access \<Rightarrow> bitAnd access (pcAccessMask profile) \<noteq> pcAccessMask profile) then Inr False
      else if pcOneway profile = STRICT_ONEWAY \<and>
        ((beOneway edge = FORWARD_ONLY \<and> baDirection arc \<noteq> FORWARD) \<or> (beOneway edge = REVERSE_ONLY \<and> baDirection arc \<noteq> REVERSE))
      then Inr False
      else Inr True)"

definition conditionOn :: "cost_input \<Rightarrow> arc_condition option" where
  "conditionOn i = (case ciSnapshot i of None \<Rightarrow> None | Some s \<Rightarrow> find (\<lambda>c. coArcKey c = baKey (ciArc i)) (scConditions s))"

definition overridden :: "(arc_condition \<Rightarrow> 'a option) \<Rightarrow> cost_input \<Rightarrow> 'a \<Rightarrow> 'a" where
  "overridden field i given = (case conditionOn i of None \<Rightarrow> given | Some c \<Rightarrow> (case field c of None \<Rightarrow> given | Some v \<Rightarrow> v))"

definition arcCostEntries :: "arc_cost \<Rightarrow> (js_string \<times> int json) list" where
  "arcCostEntries m =
     [(js ''distanceMm'', JNum (cmDistance m)), (js ''durationMs'', JNum (cmDuration m)), (js ''riskMicroUnits'', JNum (cmRisk m)),
      (js ''energyMwh'', JNum (cmEnergy m)), (js ''surfacePenaltyUnits'', JNum (cmSurface m)),
      (js ''combinedCostUnits'', JNum (cmCost m)), (js ''speedMmPerS'', JNum (cmSpeed m))] @
     optionalEntry ''conditionSnapshotKey'' (map_option JStr (cmSnapshotKey m))"

definition arcSpeed :: "cost_input \<Rightarrow> int" where
  "arcSpeed i =
     (let base = overridden coSpeed i (baDefaultSpeed (ciArc i)) in
      case pcMaximumSpeed (ciTravel i) of None \<Rightarrow> base | Some top_speed \<Rightarrow> min base top_speed)"

definition weightedNumerator :: "cost_weights \<Rightarrow> int \<Rightarrow> int \<Rightarrow> int \<Rightarrow> int \<Rightarrow> int \<Rightarrow> int" where
  "weightedNumerator w distance duration risk energy surfacePenalty =
     distance * cwDistance w + duration * cwTime w + risk * cwRisk w + energy * cwEnergy w + surfacePenalty * cwSurface w"

definition evaluateArcCost :: "(js_string \<Rightarrow> js_string) \<Rightarrow> cost_input \<Rightarrow> network_error + arc_cost option" where
  "evaluateArcCost sha i =
     bindR (isArcEligible (ciEdge i) (ciArc i) (ciTravel i)) (\<lambda>eligible.
     if \<not> eligible \<or> (case conditionOn i of None \<Rightarrow> False | Some c \<Rightarrow> \<not> coTraversal c) then Inr None
     else let speed = arcSpeed i in
     bindR (positiveSafe (Some speed)) (\<lambda>_.
     bindR (nonnegativeSafe (baLength (ciArc i))) (\<lambda>distance.
     bindR (safeNumber (bigDiv (distance * 1000 + speed - 1) speed)) (\<lambda>duration.
     bindR (nonnegativeSafe (overridden coRisk i (ciRisk i))) (\<lambda>risk.
     bindR (nonnegativeSafe (ciEnergy i)) (\<lambda>energy.
     bindR (nonnegativeSafe (ciSurface i)) (\<lambda>surfacePenalty.
     bindR (divideRoundHalfAwayFromZero (weightedNumerator (ccWeights (ciCost i)) distance duration risk energy surfacePenalty) 1000000) (\<lambda>weighted.
     bindR (divideRoundHalfAwayFromZero ((weighted + overridden coPenalty i 0) * overridden coMultiplier i 1000000) 1000000) (\<lambda>combined.
     bindR (safeNumber combined) (\<lambda>cost.
     let metrics = \<lparr>cmDistance = distance, cmDuration = duration, cmRisk = risk, cmEnergy = energy, cmSurface = surfacePenalty,
           cmCost = cost, cmSpeed = speed, cmSnapshotKey = map_option scKey (ciSnapshot i), cmHash = []\<rparr> in
     bindR (networkHash sha (JObj ([(js ''arcKey'', JStr (baKey (ciArc i))), (js ''travelProfile'', JStr (pcHash (ciTravel i))),
       (js ''costProfile'', JStr (ccHash (ciCost i)))] @ arcCostEntries metrics))) (\<lambda>hash.
     Inr (Some (metrics\<lparr>cmHash := hash\<rparr>)))))))))))))"

section \<open>Access bits\<close>

lemma bitAnd_signed: "bitAnd a b = signed_take_bit 31 (a AND b)"
  unfolding bitAnd_def by (simp add: sint_uint unsigned_of_int signed_take_bit_take_bit flip: of_int_and_eq take_bit_and)

lemma bitAnd_mask:
  assumes "0 \<le> r"
  shows "bitAnd a r = r \<longleftrightarrow> r < 2 ^ 31 \<and> (\<forall>n < 31. bit r n \<longrightarrow> bit a n)"
proof
  assume eq: "bitAnd a r = r"
  then have r: "r = signed_take_bit 31 (a AND r)" by (simp add: bitAnd_signed)
  then have "r < 2 ^ 31" using signed_take_bit_int_less_exp [of 31 "a AND r"] by simp
  moreover have "bit a n" if "n < 31" "bit r n" for n
    using arg_cong [OF r, of "\<lambda>k. bit k n"] that by (simp add: bit_signed_take_bit_iff bit_and_iff min_def)
  ultimately show "r < 2 ^ 31 \<and> (\<forall>n < 31. bit r n \<longrightarrow> bit a n)" by blast
next
  assume bits: "r < 2 ^ 31 \<and> (\<forall>n < 31. bit r n \<longrightarrow> bit a n)"
  have "a AND r = r"
  proof (rule bit_eqI)
    fix n
    have "\<not> bit r n" if "31 \<le> n"
    proof -
      have "take_bit 31 r = r" using assms bits by (simp add: take_bit_int_eq_self)
      then show ?thesis using that by (metis bit_take_bit_iff not_le)
    qed
    then show "bit (a AND r) n = bit r n" using bits by (cases "n < 31") (auto simp: bit_and_iff)
  qed
  then show "bitAnd a r = r" using assms bits by (simp add: bitAnd_signed signed_take_bit_int_eq_self)
qed

section \<open>The cost is exact\<close>

text \<open>What the profile asks of an arc, with the bits of the mask named one by one.\<close>

definition mayUse :: "built_edge \<Rightarrow> built_arc \<Rightarrow> network_profile \<Rightarrow> bool" where
  "mayUse edge arc profile \<longleftrightarrow>
     beRoadClass edge \<in> set (pcRoadClasses profile) \<and>
     (pcSurfaces profile = [] \<or> (\<exists>s \<in> set (pcSurfaces profile). beSurface edge = Some s)) \<and>
     (\<forall>access. baAccessMask arc = Some access \<longrightarrow>
        pcAccessMask profile < 2 ^ 31 \<and> (\<forall>n < 31. bit (pcAccessMask profile) n \<longrightarrow> bit access n)) \<and>
     (pcOneway profile = STRICT_ONEWAY \<longrightarrow>
        (beOneway edge = FORWARD_ONLY \<longrightarrow> baDirection arc = FORWARD) \<and> (beOneway edge = REVERSE_ONLY \<longrightarrow> baDirection arc = REVERSE))"

lemma isArcEligible_exact:
  assumes "0 \<le> pcAccessMask profile"
  shows "isArcEligible edge arc profile =
    (if baEdgeKey arc \<noteq> beKey edge then Inl ArcOfOtherEdge else Inr (mayUse edge arc profile))"
  using bitAnd_mask [OF assms] by (auto simp: isArcEligible_def mayUse_def split: option.splits)

definition closedArc :: "cost_input \<Rightarrow> bool" where
  "closedArc i \<longleftrightarrow> (\<exists>c. conditionOn i = Some c \<and> \<not> coTraversal c)"

text \<open>The nearest whole millionth, halves upwards, and the milliseconds that are enough.\<close>

definition nearestMillionth :: "int \<Rightarrow> int \<Rightarrow> bool" where
  "nearestMillionth n r \<longleftrightarrow> r * 1000000 \<le> n + 500000 \<and> n + 500000 < (r + 1) * 1000000"

definition travelTime :: "int \<Rightarrow> int \<Rightarrow> int \<Rightarrow> bool" where
  "travelTime distance speed t \<longleftrightarrow> distance * 1000 \<le> t * speed \<and> (t - 1) * speed < distance * 1000"

definition fixedPoint :: "int \<Rightarrow> bool" where
  "fixedPoint n \<longleftrightarrow> 0 \<le> n \<and> n \<le> maxSafeInteger"

lemma rounded_millionth: "divideRoundHalfAwayFromZero n 1000000 = Inr r \<Longrightarrow> nearestMillionth n r"
  by (auto simp: divideRoundHalfAwayFromZero_def nearestMillionth_def bigDiv_nonneg split: if_splits)

lemma time_rounded_up:
  assumes "0 < speed" and "0 \<le> distance"
  shows "travelTime distance speed (bigDiv (distance * 1000 + speed - 1) speed)"
proof -
  let ?n = "distance * 1000 + speed - 1"
  have eq: "bigDiv ?n speed = ?n div speed" using assms by (intro bigDiv_nonneg) auto
  have "?n = ?n div speed * speed + ?n mod speed" "0 \<le> ?n mod speed" "?n mod speed < speed"
    using assms(1) by simp_all
  then show ?thesis unfolding travelTime_def eq left_diff_distrib by (intro conjI) linarith+
qed

definition lowerSpeed :: "int \<Rightarrow> int option \<Rightarrow> int \<Rightarrow> bool" where
  "lowerSpeed base limit v \<longleftrightarrow> (v = base \<or> Some v = limit) \<and> v \<le> base \<and> (case limit of None \<Rightarrow> True | Some l \<Rightarrow> v \<le> l)"

lemma arcSpeed_lower: "lowerSpeed (overridden coSpeed i (baDefaultSpeed (ciArc i))) (pcMaximumSpeed (ciTravel i)) (arcSpeed i)"
  by (auto simp: lowerSpeed_def arcSpeed_def Let_def split: option.splits)

definition priced :: "cost_input \<Rightarrow> arc_cost \<Rightarrow> bool" where
  "priced i m \<longleftrightarrow>
     lowerSpeed (overridden coSpeed i (baDefaultSpeed (ciArc i))) (pcMaximumSpeed (ciTravel i)) (cmSpeed m) \<and>
     0 < cmSpeed m \<and> travelTime (cmDistance m) (cmSpeed m) (cmDuration m) \<and>
     cmDistance m = baLength (ciArc i) \<and> cmRisk m = overridden coRisk i (ciRisk i) \<and> cmEnergy m = ciEnergy i \<and> cmSurface m = ciSurface i \<and>
     (let w = ccWeights (ciCost i) in \<exists>weighted.
        nearestMillionth (cmDistance m * cwDistance w + cmDuration m * cwTime w + cmRisk m * cwRisk w +
          cmEnergy m * cwEnergy w + cmSurface m * cwSurface w) weighted \<and>
        nearestMillionth ((weighted + overridden coPenalty i 0) * overridden coMultiplier i 1000000) (cmCost m)) \<and>
     list_all fixedPoint [cmDistance m, cmDuration m, cmRisk m, cmEnergy m, cmSurface m, cmCost m, cmSpeed m]"

lemma nonnegativeSafe_fixed: "nonnegativeSafe n = Inr m \<longleftrightarrow> m = n \<and> fixedPoint n"
  by (auto simp: nonnegativeSafe_def fixedPoint_def isSafeInteger_def maxSafeInteger_def split: if_splits)

lemma safeNumber_fixed: "safeNumber n = Inr m \<longleftrightarrow> m = n \<and> fixedPoint n"
  by (auto simp: safeNumber_def fixedPoint_def split: if_splits)

lemma positiveSafe_fixed: "positiveSafe (Some n) = Inr v \<longleftrightarrow> v = Some n \<and> 0 < n \<and> fixedPoint n"
  by (auto simp: positiveSafe_def fixedPoint_def isSafeInteger_def maxSafeInteger_def split: if_splits)

lemma evaluateArcCost_exact:
  assumes "0 \<le> pcAccessMask (ciTravel i)" and run: "evaluateArcCost sha i = Inr result"
  shows "case result of
      None \<Rightarrow> \<not> mayUse (ciEdge i) (ciArc i) (ciTravel i) \<or> closedArc i
    | Some m \<Rightarrow> mayUse (ciEdge i) (ciArc i) (ciTravel i) \<and> \<not> closedArc i \<and> priced i m"
proof (cases "mayUse (ciEdge i) (ciArc i) (ciTravel i) \<and> \<not> closedArc i")
  case False
  have "isArcEligible (ciEdge i) (ciArc i) (ciTravel i) = Inr (mayUse (ciEdge i) (ciArc i) (ciTravel i))"
    using run isArcEligible_exact [OF assms(1)] by (auto simp: evaluateArcCost_def bindR_eq_Inr split: if_splits)
  then have "result = None" using run False
    by (auto simp: evaluateArcCost_def closedArc_def split: option.splits)
  then show ?thesis using False by auto
next
  case True
  have eligible: "isArcEligible (ciEdge i) (ciArc i) (ciTravel i) = Inr True"
    using run True isArcEligible_exact [OF assms(1)] by (auto simp: evaluateArcCost_def bindR_eq_Inr split: if_splits)
  have opened: "\<not> (case conditionOn i of None \<Rightarrow> False | Some c \<Rightarrow> \<not> coTraversal c)"
    using True by (auto simp: closedArc_def split: option.splits)
  have "\<exists>m. result = Some m \<and> priced i m"
    using run opened unfolding evaluateArcCost_def eligible bindR_Inr Let_def
    by (auto simp: bindR_eq_Inr nonnegativeSafe_fixed safeNumber_fixed positiveSafe_fixed priced_def fixedPoint_def Let_def
      weightedNumerator_def arcSpeed_lower intro!: time_rounded_up dest!: rounded_millionth)
  then show ?thesis using True by auto
qed

section \<open>Property\<close>

text \<open>
  C39. The cost of an arc is exact.  For a profile with a non-negative access mask, \<open>evaluateArcCost\<close> prices an
  arc exactly when the profile admits its road class, surface and direction and it grants every required
  access bit (a mask beyond 31 bits is never granted, and an arc without a mask grants everything), and no condition closes it.  The price takes the lower of the
  two speeds; its duration is the fewest whole milliseconds that suffice; its combined cost is rounded half up
  twice, after the weighting and after penalty and multiplier; and every figure is a non-negative safe integer.
\<close>

theorem arc_cost_exact:
  assumes "0 \<le> pcAccessMask (ciTravel i)" and "evaluateArcCost sha i = Inr result"
  shows "case result of
      None \<Rightarrow> \<not> mayUse (ciEdge i) (ciArc i) (ciTravel i) \<or> closedArc i
    | Some m \<Rightarrow> mayUse (ciEdge i) (ciArc i) (ciTravel i) \<and> \<not> closedArc i \<and> priced i m"
  by (rule evaluateArcCost_exact [OF assms])

text \<open>A metre at 300 mm/s takes 3334 ms; half the weight on each of distance and time.\<close>

definition laneInput :: cost_input where
  "laneInput = \<lparr>ciEdge = \<lparr>beKey = js ''e'', beFeatureKey = [], beFeatureVersion = [], beSource = [], beTarget = [], beSplitStart = 0,
       beSplitEnd = WHOLE, beLength = 1000, beRoadClass = js ''local'', beSurface = None, beOneway = FORWARD_ONLY\<rparr>,
     ciArc = \<lparr>baKey = js ''a'', baEdgeKey = js ''e'', baSource = [], baTarget = [], baDirection = FORWARD, baLength = 1000,
       baDefaultSpeed = 400, baAccessMask = Some 5\<rparr>,
     ciTravel = \<lparr>pcKey = js ''p'', pcVersion = js ''1'', pcVehicle = [], pcRoadClasses = [js ''local''], pcSurfaces = [],
       pcOneway = STRICT_ONEWAY, pcMaximumSpeed = Some 300, pcAccessMask = 4, pcHash = []\<rparr>,
     ciCost = \<lparr>ccKey = [], ccVersion = [], ccWeights = \<lparr>cwDistance = 500000, cwTime = 500000, cwRisk = 0, cwEnergy = 0, cwSurface = 0\<rparr>,
       ccHash = []\<rparr>,
     ciRisk = 0, ciEnergy = 0, ciSurface = 0, ciSnapshot = None\<rparr>"

lemma arc_cost_exact_witness:
  "\<exists>m. evaluateArcCost (\<lambda>_. []) laneInput = Inr (Some m) \<and> priced laneInput m \<and> cmDuration m = 3334 \<and> cmCost m = 2167"
proof -
  have "map_sum id (map_option (\<lambda>m. (cmDuration m, cmCost m))) (evaluateArcCost (\<lambda>_. []) laneInput) = Inr (Some (3334, 2167))"
    by code_simp
  then obtain m where m: "evaluateArcCost (\<lambda>_. []) laneInput = Inr (Some m)" "cmDuration m = 3334" "cmCost m = 2167"
    by (cases "evaluateArcCost (\<lambda>_. []) laneInput") auto
  have "0 \<le> pcAccessMask (ciTravel laneInput)" by (simp add: laneInput_def)
  from arc_cost_exact [OF this m(1)] show ?thesis using m by auto
qed

end
