(* ===== verification/QueryPlan.thy ===== *)
theory QueryPlan
  imports
  CanonicalJson
begin

text \<open>
  World query plans and capability descriptors, and the semantic checks of both:
  \<open>contract-runtime/src/semantic-validation.ts\<close> over the types of \<open>generated/contracts.ts\<close>.

  An issue of the code is a path, a keyword and a message; here every kind of issue is a constructor with the
  data its path and message quote.  A JavaScript \<open>Map\<close> from names is the \<open>map_of\<close> of its insertions, last first.
\<close>

section \<open>Contract types\<close>

datatype value_kind =
    ANY | SCALAR | POSITION | POSITIONS | GEOMETRY | FEATURE | FEATURE_COLLECTION | H3_CELL | H3_CELL_SET
  | REFERENCE_KEY_VALUE | DATASET_VERSION_VALUE | ROW_SET | ARTIFACT_VALUE

datatype unit_semantics = UNSPECIFIED | DIMENSIONLESS | ANGULAR_DEGREES | LINEAR_METERS | DISCRETE

record schema_port =
  spUri :: js_string
  spHash :: js_string
  spKind :: value_kind
  spUnit :: unit_semantics

text \<open>The part all bindings share.\<close>

record port_binding =
  pbPort :: schema_port
  pbTarget :: "js_string option"

record node_output = port_binding +
  noNode :: js_string
  noPort :: js_string
  noPath :: "js_string option"

datatype input_binding =
    LITERAL port_binding "int json"
  | REQUEST_PATH port_binding js_string
  | NODE_OUTPUT node_output
  | REFERENCE_KEY port_binding versioned_reference
  | DATASET_VERSION port_binding js_string js_string
  | ARTIFACT_REFERENCE port_binding js_string js_string

datatype required_status = REQUIRE_COMPLETED | REQUIRE_PARTIAL | REQUIRE_NO_DATA

datatype precondition =
    NODE_STATUS js_string "required_status list"
  | VALUE_PRESENT input_binding
  | VALUE_EQUALS input_binding "int json"

datatype failure_policy = FAIL_FAST | ALLOW_PARTIAL | SKIP_IF_PRECONDITION_FALSE

record operation_ref =
  orId :: js_string
  orVersion :: js_string
  orInputHash :: js_string
  orOutputHash :: js_string

record node_budget =
  nbRows :: int
  nbCandidates :: int
  nbBytes :: int
  nbMs :: int

record plan_budgets = node_budget +
  qbNodes :: int
  qbDepth :: int

text \<open>\<open>pnInputs\<close> lists the inputs in the order of \<open>Object.entries\<close>.\<close>

record plan_node =
  pnId :: js_string
  pnOperation :: operation_ref
  pnInputs :: "(js_string \<times> input_binding) list"
  pnPreconditions :: "precondition list"
  pnPolicy :: failure_policy
  pnBudget :: node_budget

record query_plan =
  qpId :: js_string
  qpNodes :: "plan_node list"
  qpOutputs :: "(js_string \<times> node_output) list"
  qpBudgets :: plan_budgets

fun portBinding :: "input_binding \<Rightarrow> port_binding" where
  "portBinding (LITERAL b v) = b"
| "portBinding (REQUEST_PATH b p) = b"
| "portBinding (NODE_OUTPUT b) = port_binding.truncate b"
| "portBinding (REFERENCE_KEY b r) = b"
| "portBinding (DATASET_VERSION b d v) = b"
| "portBinding (ARTIFACT_REFERENCE b a d) = b"

fun nodeOutput :: "input_binding \<Rightarrow> node_output option" where
  "nodeOutput (NODE_OUTPUT b) = Some b"
| "nodeOutput b = None"

fun boundValue :: "precondition \<Rightarrow> input_binding option" where
  "boundValue (NODE_STATUS n s) = None"
| "boundValue (VALUE_PRESENT b) = Some b"
| "boundValue (VALUE_EQUALS b v) = Some b"

section \<open>Object paths\<close>

fun splitAt :: "'a \<Rightarrow> 'a list \<Rightarrow> 'a list list" where
  "splitAt c [] = [[]]"
| "splitAt c (x # xs) = (if x = c then [] # splitAt c xs else (x # hd (splitAt c xs)) # tl (splitAt c xs))"

text \<open>\<open>replaceAll\<close> of a text of two units by one unit\<close>

fun replacePair :: "'a \<Rightarrow> 'a \<Rightarrow> 'a \<Rightarrow> 'a list \<Rightarrow> 'a list" where
  "replacePair a b r (x # y # zs) = (if x = a \<and> y = b then r # replacePair a b r zs else x # replacePair a b r (y # zs))"
| "replacePair a b r xs = xs"

definition SLASH :: "16 word" where "SLASH = 47"
definition TILDE :: "16 word" where "TILDE = 126"

definition unescapeSegment :: "js_string \<Rightarrow> js_string" where
  "unescapeSegment s = replacePair TILDE 48 TILDE (replacePair TILDE 49 SLASH s)"

definition targetSegments :: "js_string \<Rightarrow> js_string list" where
  "targetSegments path = (case path of [] \<Rightarrow> []
     | c # rest \<Rightarrow> if c = SLASH then map unescapeSegment (splitAt SLASH rest) else [])"

text \<open>
  \<open>toLowerCase\<close>.  Outside ASCII it yields letters that occur in no reserved word, except \<open>k\<close> from the Kelvin
  sign, which no reserved word contains; so for these comparisons only ASCII letters matter.
\<close>

definition lowerCase :: "js_string \<Rightarrow> js_string" where
  "lowerCase s = map (\<lambda>u. if 65 \<le> u \<and> u \<le> 90 then u + 32 else u) s"

definition UNSAFE_SEGMENTS :: "js_string list" where
  "UNSAFE_SEGMENTS = [js ''__proto__'', js ''prototype'', js ''constructor'']"

definition RESERVED_KEYS :: "js_string list" where
  "RESERVED_KEYS = [js ''securitycontext'', js ''principalref'', js ''authenticationmethod'', js ''scopeattestation'',
     js ''datascopeclaim'', js ''datasetscopeclaim'', js ''gatewaycontext'', js ''gatewayid'', js ''allowexperimental'']"

definition isUnsafeOrReserved :: "js_string \<Rightarrow> bool" where
  "isUnsafeOrReserved segment =
     (let normalized = lowerCase segment in normalized \<in> set UNSAFE_SEGMENTS \<or> normalized \<in> set RESERVED_KEYS)"

definition isPrefixPath :: "js_string list \<Rightarrow> js_string list \<Rightarrow> bool" where
  "isPrefixPath left right \<longleftrightarrow>
     length left \<le> length right \<and> list_all (\<lambda>index. right ! index = left ! index) [0..<length left]"

definition MAX_TARGET_DEPTH :: nat where "MAX_TARGET_DEPTH = 8"

section \<open>Repeated names\<close>

definition noteValue :: "js_string list \<times> js_string list \<Rightarrow> js_string \<Rightarrow> js_string list \<times> js_string list" where
  "noteValue st v = (let (seen, duplicates) = st in
     (List.insert v seen, if v \<in> set seen then List.insert v duplicates else duplicates))"

definition duplicateValues :: "js_string list \<Rightarrow> js_string list" where
  "duplicateValues vs = sort_by compareText (snd (foldl noteValue ([], []) vs))"

lemma insert_not_Nil [simp]: "List.insert v vs \<noteq> []"
  by (cases vs) (auto simp: List.insert_def)

lemma noteValue_run:
  "set (fst (foldl noteValue (seen, dups) vs)) = set seen \<union> set vs"
  "snd (foldl noteValue (seen, dups) vs) = [] \<longleftrightarrow> dups = [] \<and> distinct vs \<and> set vs \<inter> set seen = {}"
  by (induction vs arbitrary: seen dups) (auto simp: noteValue_def)

lemma duplicateValues_none: "duplicateValues vs = [] \<longleftrightarrow> distinct vs"
  using noteValue_run(2) [of "[]" "[]" vs] by (simp add: duplicateValues_def)

section \<open>Dependencies of a node\<close>

definition addName :: "js_string \<Rightarrow> js_string list \<Rightarrow> js_string list" where
  "addName name names = (if name \<in> set names then names else names @ [name])"

definition addBinding :: "js_string list \<Rightarrow> input_binding \<Rightarrow> js_string list" where
  "addBinding names b = (case nodeOutput b of None \<Rightarrow> names | Some source \<Rightarrow> addName (noNode source) names)"

fun addPrecondition :: "js_string list \<Rightarrow> precondition \<Rightarrow> js_string list" where
  "addPrecondition names (NODE_STATUS n s) = addName n names"
| "addPrecondition names (VALUE_PRESENT b) = addBinding names b"
| "addPrecondition names (VALUE_EQUALS b v) = addBinding names b"

definition nodeDependencies :: "plan_node \<Rightarrow> js_string list" where
  "nodeDependencies n = foldl addPrecondition (foldl addBinding [] (map snd (pnInputs n))) (pnPreconditions n)"

definition nodeMap :: "plan_node list \<Rightarrow> js_string \<rightharpoonup> plan_node" where
  "nodeMap nodes = map_of (rev (map (\<lambda>n. (pnId n, n)) nodes))"

definition dependencyMap :: "plan_node list \<Rightarrow> js_string \<rightharpoonup> js_string list" where
  "dependencyMap nodes = map_of (rev (map (\<lambda>n. (pnId n, nodeDependencies n)) nodes))"

section \<open>Issues\<close>

datatype budget_name = ROWS | CANDIDATES | OUTPUT_BYTES | EXECUTION_MS

fun budgetOf :: "budget_name \<Rightarrow> 'a node_budget_scheme \<Rightarrow> int" where
  "budgetOf ROWS b = nbRows b"
| "budgetOf CANDIDATES b = nbCandidates b"
| "budgetOf OUTPUT_BYTES b = nbBytes b"
| "budgetOf EXECUTION_MS b = nbMs b"

definition BUDGET_NAMES :: "budget_name list" where
  "BUDGET_NAMES = [ROWS, CANDIDATES, OUTPUT_BYTES, EXECUTION_MS]"

datatype plan_issue =
    DuplicateNode js_string
  | NodeCountOverBudget
  | TargetOnWholeRequest nat js_string
  | TargetTooDeep nat js_string
  | TargetUnsafe nat js_string
  | TargetConflict nat js_string js_string js_string js_string
  | PreconditionTarget nat
  | UnknownNode nat js_string
  | SelfReference nat
  | InputHashMismatch nat js_string
  | PreconditionMissing nat
  | NodeOverBudget nat budget_name
  | CycleThrough js_string
  | DepthOverBudget int int
  | AggregateOverBudget budget_name int int
  | DuplicateOutput js_string
  | OutputTarget nat
  | OutputUnknown nat
  | OutputHashMismatch nat

text \<open>An input that names its place in the composite request: its name, path and segments.\<close>

type_synonym target_path = "js_string \<times> js_string \<times> js_string list"

definition wholeRequest :: "plan_node \<Rightarrow> bool" where
  "wholeRequest n \<longleftrightarrow> map fst (pnInputs n) = [js ''request'']"

definition targetPathOf :: "js_string \<times> input_binding \<Rightarrow> target_path" where
  "targetPathOf input =
     (let path = (case pbTarget (portBinding (snd input)) of None \<Rightarrow> SLASH # fst input | Some p \<Rightarrow> p) in
      (fst input, path, targetSegments path))"

definition targetIssues :: "nat \<Rightarrow> target_path \<Rightarrow> plan_issue list" where
  "targetIssues index target = (let (name, path, segments) = target in
     (if length segments > MAX_TARGET_DEPTH then [TargetTooDeep index name] else []) @
     (if list_ex isUnsafeOrReserved segments then [TargetUnsafe index name] else []))"

fun conflictIssues :: "nat \<Rightarrow> target_path list \<Rightarrow> plan_issue list" where
  "conflictIssues index [] = []"
| "conflictIssues index ((aName, aPath, aSegments) # ts) =
     concat (map (\<lambda>(bName, bPath, bSegments).
       if isPrefixPath aSegments bSegments \<or> isPrefixPath bSegments aSegments
       then [TargetConflict index bName aName aPath bPath] else []) ts) @ conflictIssues index ts"

definition inputIssues :: "nat \<Rightarrow> plan_node \<Rightarrow> plan_issue list" where
  "inputIssues index n =
     (if wholeRequest n
      then concat (map (\<lambda>(name, b). if pbTarget (portBinding b) \<noteq> None then [TargetOnWholeRequest index name] else []) (pnInputs n))
      else concat (map (\<lambda>input. targetIssues index (targetPathOf input)) (pnInputs n)) @
        conflictIssues index (map targetPathOf (pnInputs n)))"

definition preconditionIssues :: "nat \<Rightarrow> precondition \<Rightarrow> plan_issue list" where
  "preconditionIssues index p = (case boundValue p of None \<Rightarrow> []
     | Some b \<Rightarrow> if pbTarget (portBinding b) \<noteq> None then [PreconditionTarget index] else [])"

definition dependencyIssues :: "plan_node list \<Rightarrow> nat \<Rightarrow> plan_node \<Rightarrow> js_string \<Rightarrow> plan_issue list" where
  "dependencyIssues nodes index n dependency =
     (if nodeMap nodes dependency = None then [UnknownNode index dependency] else []) @
     (if dependency = pnId n then [SelfReference index] else [])"

text \<open>A binding to the whole result of a node must carry the hash of that node's output.\<close>

definition wrongResultHash :: "plan_node list \<Rightarrow> node_output \<Rightarrow> bool" where
  "wrongResultHash nodes b \<longleftrightarrow> noPort b = js ''result'' \<and> noPath b = None \<and>
     (case nodeMap nodes (noNode b) of None \<Rightarrow> False
      | Some source \<Rightarrow> spHash (pbPort b) \<noteq> orOutputHash (pnOperation source))"

definition typedPortIssues :: "plan_node list \<Rightarrow> nat \<Rightarrow> js_string \<times> input_binding \<Rightarrow> plan_issue list" where
  "typedPortIssues nodes index input = (case nodeOutput (snd input) of None \<Rightarrow> []
     | Some b \<Rightarrow> if wrongResultHash nodes b then [InputHashMismatch index (fst input)] else [])"

definition nodeIssues :: "query_plan \<Rightarrow> nat \<times> plan_node \<Rightarrow> plan_issue list" where
  "nodeIssues plan indexed = (let (index, n) = indexed in
     inputIssues index n @
     concat (map (preconditionIssues index) (pnPreconditions n)) @
     concat (map (dependencyIssues (qpNodes plan) index n) (nodeDependencies n)) @
     concat (map (typedPortIssues (qpNodes plan) index) (pnInputs n)) @
     (if pnPolicy n = SKIP_IF_PRECONDITION_FALSE \<and> pnPreconditions n = [] then [PreconditionMissing index] else []) @
     concat (map (\<lambda>b. if budgetOf b (pnBudget n) > budgetOf b (qpBudgets plan) then [NodeOverBudget index b] else []) BUDGET_NAMES))"

section \<open>Depth and cycles\<close>

text \<open>
  \<open>visiting\<close> holds exactly the nodes whose calls of \<open>visit\<close> are under way, since each is added before and deleted
  after the recursion; so it is an argument.
\<close>

record visit_state =
  vsVisited :: "js_string list"
  vsDepths :: "js_string \<rightharpoonup> nat"
  vsIssues :: "plan_issue list"

definition knownDependencies :: "plan_node list \<Rightarrow> js_string list \<Rightarrow> js_string list" where
  "knownDependencies nodes ids = filter (\<lambda>i. nodeMap nodes i \<noteq> None) ids"

function visitNode :: "plan_node list \<Rightarrow> js_string list \<Rightarrow> js_string \<Rightarrow> visit_state \<Rightarrow> nat \<times> visit_state"
  and visitAll :: "plan_node list \<Rightarrow> js_string list \<Rightarrow> js_string list \<Rightarrow> visit_state \<Rightarrow> nat list \<times> visit_state" where
  "visitNode nodes visiting i st =
     (if i \<in> set visiting then (1, st\<lparr>vsIssues := vsIssues st @ [CycleThrough i]\<rparr>)
      else if i \<in> set (vsVisited st) then (case vsDepths st i of None \<Rightarrow> 1 | Some d \<Rightarrow> d, st)
      else let (depths, st1) = (case dependencyMap nodes i of None \<Rightarrow> ([], st)
             | Some ids \<Rightarrow> visitAll nodes (i # visiting) (knownDependencies nodes ids) st);
           depth = 1 + fold max depths 0
         in (depth, st1\<lparr>vsVisited := List.insert i (vsVisited st1), vsDepths := (vsDepths st1)(i \<mapsto> depth)\<rparr>))"
| "visitAll nodes visiting [] st = ([], st)"
| "visitAll nodes visiting (i # ids) st =
     (let (depth, st1) = visitNode nodes visiting i st; (depths, st2) = visitAll nodes visiting ids st1 in (depth # depths, st2))"
  by pat_completeness auto
termination
proof (relation "inv_image ({(a, b). a < (b :: nat)} <*lex*> {(a, b). a < (b :: nat)})
    (case_sum (\<lambda>(nodes, visiting, i, st). (card (dom (dependencyMap nodes) - set visiting), 0))
       (\<lambda>(nodes, visiting, ids, st). (card (dom (dependencyMap nodes) - set visiting), Suc (length ids))))", goal_cases)
  case 1
  show ?case by (intro wf_inv_image wf_lex_prod) (auto simp: wf_less)
next
  case (2 nodes visiting i st ids)
  have "i \<in> dom (dependencyMap nodes)" using 2 by blast
  moreover have "finite (dom (dependencyMap nodes))" by (simp add: dependencyMap_def finite_dom_map_of)
  ultimately have "card (dom (dependencyMap nodes) - set (i # visiting)) < card (dom (dependencyMap nodes) - set visiting)"
    using 2 by (intro psubset_card_mono) auto
  then show ?case by simp
qed auto

definition visitPlan :: "plan_node list \<Rightarrow> nat list \<times> visit_state" where
  "visitPlan nodes = visitAll nodes [] (map pnId nodes) \<lparr>vsVisited = [], vsDepths = Map.empty, vsIssues = []\<rparr>"

definition depthIssues :: "query_plan \<Rightarrow> nat list \<Rightarrow> plan_issue list" where
  "depthIssues plan depths =
     (if depths \<noteq> [] \<and> int (fold max depths 0) > qbDepth (qpBudgets plan)
      then [DepthOverBudget (qbDepth (qpBudgets plan)) (int (fold max depths 0))] else [])"

section \<open>The checks of a plan\<close>

definition aggregateIssues :: "query_plan \<Rightarrow> budget_name \<Rightarrow> plan_issue list" where
  "aggregateIssues plan b =
     (let aggregate = sum_list (map (\<lambda>n. budgetOf b (pnBudget n)) (qpNodes plan)) in
      if aggregate > budgetOf b (qpBudgets plan) then [AggregateOverBudget b (budgetOf b (qpBudgets plan)) aggregate] else [])"

definition outputIssues :: "plan_node list \<Rightarrow> nat \<times> (js_string \<times> node_output) \<Rightarrow> plan_issue list" where
  "outputIssues nodes indexed = (let (index, name, b) = indexed in
     (if pbTarget b \<noteq> None then [OutputTarget index] else []) @
     (if nodeMap nodes (noNode b) = None then [OutputUnknown index]
      else if wrongResultHash nodes b then [OutputHashMismatch index] else []))"

definition validateWorldQueryPlanSemantics :: "query_plan \<Rightarrow> plan_issue list" where
  "validateWorldQueryPlanSemantics plan =
     (let nodes = qpNodes plan; (depths, st) = visitPlan nodes in
      map DuplicateNode (duplicateValues (map pnId nodes)) @
      (if int (length nodes) > qbNodes (qpBudgets plan) then [NodeCountOverBudget] else []) @
      concat (map (nodeIssues plan) (List.enumerate 0 nodes)) @
      vsIssues st @ depthIssues plan depths @
      concat (map (aggregateIssues plan) BUDGET_NAMES) @
      map DuplicateOutput (duplicateValues (map fst (qpOutputs plan))) @
      concat (map (outputIssues nodes) (List.enumerate 0 (qpOutputs plan))))"

section \<open>The search finds exactly the cycles, and the longest chain\<close>

definition dependsOn :: "plan_node list \<Rightarrow> (js_string \<times> js_string) set" where
  "dependsOn nodes = {(y, x). nodeMap nodes y \<noteq> None \<and> (\<exists>ids. dependencyMap nodes x = Some ids \<and> y \<in> set ids)}"

definition usedBy :: "plan_node list \<Rightarrow> js_string \<Rightarrow> js_string list" where
  "usedBy nodes x = (case dependencyMap nodes x of None \<Rightarrow> [] | Some ids \<Rightarrow> knownDependencies nodes ids)"

lemma dependsOn_iff: "(y, x) \<in> dependsOn nodes \<longleftrightarrow> y \<in> set (usedBy nodes x)"
  by (cases "dependencyMap nodes x") (auto simp: dependsOn_def usedBy_def knownDependencies_def)

lemma visit_usedBy:
  "visitNode nodes visiting i st =
     (if i \<in> set visiting then (1, st\<lparr>vsIssues := vsIssues st @ [CycleThrough i]\<rparr>)
      else if i \<in> set (vsVisited st) then (case vsDepths st i of None \<Rightarrow> 1 | Some d \<Rightarrow> d, st)
      else let (depths, st1) = visitAll nodes (i # visiting) (usedBy nodes i) st;
           depth = 1 + fold max depths 0
         in (depth, st1\<lparr>vsVisited := List.insert i (vsVisited st1), vsDepths := (vsDepths st1)(i \<mapsto> depth)\<rparr>))"
  unfolding usedBy_def by (cases "dependencyMap nodes i") simp_all

declare visitNode.simps [simp del]

definition onlyCycles :: "plan_node list \<Rightarrow> bool \<Rightarrow> visit_state \<Rightarrow> visit_state \<Rightarrow> bool" where
  "onlyCycles nodes chained st st' \<longleftrightarrow>
     (\<exists>cs. vsIssues st' = vsIssues st @ map CycleThrough cs \<and> (chained \<longrightarrow> (\<forall>c \<in> set cs. (c, c) \<in> (dependsOn nodes)\<^sup>+)))"

lemma onlyCycles_trans: "onlyCycles nodes ch st st1 \<Longrightarrow> onlyCycles nodes ch st1 st2 \<Longrightarrow> onlyCycles nodes ch st st2"
  unfolding onlyCycles_def by (metis append.assoc map_append Un_iff set_append)

lemma onlyCycles_mono: "onlyCycles nodes ch st st1 \<Longrightarrow> (ch' \<Longrightarrow> ch) \<Longrightarrow> onlyCycles nodes ch' st st1"
  unfolding onlyCycles_def by blast

lemma visit_cycles:
  "onlyCycles nodes (\<forall>p \<in> set visiting. (i, p) \<in> (dependsOn nodes)\<^sup>+) st (snd (visitNode nodes visiting i st))"
  "onlyCycles nodes (\<forall>j \<in> set ids. \<forall>p \<in> set visiting. (j, p) \<in> (dependsOn nodes)\<^sup>+) st (snd (visitAll nodes visiting ids st))"
proof (induction nodes visiting i st and nodes visiting ids st rule: visitNode_visitAll.induct)
  case (1 nodes visiting i st)
  show ?case
  proof (cases "i \<in> set visiting \<or> i \<in> set (vsVisited st)")
    case True
    then show ?thesis by (subst visit_usedBy) (auto simp: onlyCycles_def intro: exI [of _ "[i]"])
  next
    case False
    have "onlyCycles nodes (\<forall>j \<in> set (usedBy nodes i). \<forall>p \<in> set (i # visiting). (j, p) \<in> (dependsOn nodes)\<^sup>+) st
        (snd (visitAll nodes (i # visiting) (usedBy nodes i) st))"
      using 1 [of] False by (cases "dependencyMap nodes i") (auto simp: usedBy_def onlyCycles_def)
    moreover have "(\<forall>j \<in> set (usedBy nodes i). \<forall>p \<in> set (i # visiting). (j, p) \<in> (dependsOn nodes)\<^sup>+)"
      if "\<forall>p \<in> set visiting. (i, p) \<in> (dependsOn nodes)\<^sup>+"
      using that by (auto simp: dependsOn_iff [symmetric] intro: trancl_into_trancl2)
    ultimately show ?thesis using False
      by (subst visit_usedBy) (auto simp: onlyCycles_def split: prod.splits)
  qed
next
  case (2 nodes visiting st)
  then show ?case by (simp add: onlyCycles_def)
next
  case (3 nodes visiting i ids st)
  show ?case using onlyCycles_trans [OF onlyCycles_mono [OF 3(1)] onlyCycles_mono [OF 3(2)]]
    by (auto split: prod.splits)
qed

text \<open>Without an issue, every visited node has the depth its dependencies give it.\<close>

definition depthFrom :: "plan_node list \<Rightarrow> (js_string \<rightharpoonup> nat) \<Rightarrow> js_string \<Rightarrow> nat" where
  "depthFrom nodes depths x = 1 + fold max (map (\<lambda>y. the (depths y)) (usedBy nodes x)) 0"

definition ranked :: "plan_node list \<Rightarrow> visit_state \<Rightarrow> bool" where
  "ranked nodes st \<longleftrightarrow> (\<forall>x \<in> set (vsVisited st). set (usedBy nodes x) \<subseteq> set (vsVisited st) \<and>
     vsDepths st x = Some (depthFrom nodes (vsDepths st) x))"

definition extends :: "visit_state \<Rightarrow> visit_state \<Rightarrow> bool" where
  "extends st st' \<longleftrightarrow> set (vsVisited st) \<subseteq> set (vsVisited st') \<and> (\<forall>x \<in> set (vsVisited st). vsDepths st' x = vsDepths st x)"

lemma extends_trans: "extends st st1 \<Longrightarrow> extends st1 st2 \<Longrightarrow> extends st st2"
  unfolding extends_def by (metis subset_trans subsetD)

lemma depthFrom_cong:
  "(\<And>y. y \<in> set (usedBy nodes x) \<Longrightarrow> depths y = depths' y) \<Longrightarrow> depthFrom nodes depths x = depthFrom nodes depths' x"
  unfolding depthFrom_def by (metis (mono_tags, lifting) map_cong)

lemma ranked_step:
  assumes "ranked nodes st" and deps: "set (usedBy nodes i) \<subseteq> set (vsVisited st)"
    and d: "d = depthFrom nodes (vsDepths st) i"
    and st': "st' = st\<lparr>vsVisited := List.insert i (vsVisited st), vsDepths := (vsDepths st)(i \<mapsto> d)\<rparr>"
  shows "ranked nodes st' \<and> extends st st'"
proof (cases "i \<in> set (vsVisited st)")
  case True
  then have "vsDepths st i = Some d" using assms(1) d by (auto simp: ranked_def)
  then have "(vsDepths st)(i \<mapsto> d) = vsDepths st" by (rule map_upd_triv)
  then show ?thesis using assms(1) True by (auto simp: st' ranked_def extends_def)
next
  case False
  have same: "depthFrom nodes ((vsDepths st)(i \<mapsto> d)) x = depthFrom nodes (vsDepths st) x"
    if "set (usedBy nodes x) \<subseteq> set (vsVisited st)" for x
    using that False by (intro depthFrom_cong) auto
  show ?thesis using assms(1) False deps same d by (auto simp: st' ranked_def extends_def)
qed

lemma visit_unchanged:
  "\<exists>cs. vsIssues (snd (visitNode nodes visiting i st)) = vsIssues st @ map CycleThrough cs"
  "\<exists>cs. vsIssues (snd (visitAll nodes visiting ids st)) = vsIssues st @ map CycleThrough cs"
  using visit_cycles by (simp_all add: onlyCycles_def) blast+

lemma visit_ranked:
  "ranked nodes st \<Longrightarrow> visitNode nodes visiting i st = (d, st') \<Longrightarrow> vsIssues st' = vsIssues st \<Longrightarrow>
    ranked nodes st' \<and> extends st st' \<and> i \<in> set (vsVisited st') \<and> vsDepths st' i = Some d"
  "ranked nodes st \<Longrightarrow> visitAll nodes visiting ids st = (ds, st') \<Longrightarrow> vsIssues st' = vsIssues st \<Longrightarrow>
    ranked nodes st' \<and> extends st st' \<and> set ids \<subseteq> set (vsVisited st') \<and> ds = map (\<lambda>x. the (vsDepths st' x)) ids"
proof (induction nodes visiting i st and nodes visiting ids st arbitrary: d st' and ds st' rule: visitNode_visitAll.induct)
  case (1 nodes visiting i st)
  have fresh: "i \<notin> set visiting" using 1(3,4) by (subst (asm) visit_usedBy) (auto split: if_splits)
  show ?case
  proof (cases "i \<in> set (vsVisited st)")
    case True
    then obtain e where e: "vsDepths st i = Some e" using 1(2) by (auto simp: ranked_def)
    have "visitNode nodes visiting i st = (e, st)" by (subst visit_usedBy) (simp add: fresh True e)
    then show ?thesis using 1(2,3) True e by (simp add: extends_def)
  next
    case False
    obtain ds st1 where run: "visitAll nodes (i # visiting) (usedBy nodes i) st = (ds, st1)" by force
    from 1(3) False fresh run have st': "d = 1 + fold max ds 0"
      "st' = st1\<lparr>vsVisited := List.insert i (vsVisited st1), vsDepths := (vsDepths st1)(i \<mapsto> d)\<rparr>"
      by (subst (asm) visit_usedBy; simp)+
    then have issues: "vsIssues st1 = vsIssues st" using 1(4) by simp
    have rec: "ranked nodes st1 \<and> extends st st1 \<and> set (usedBy nodes i) \<subseteq> set (vsVisited st1) \<and>
        ds = map (\<lambda>x. the (vsDepths st1 x)) (usedBy nodes i)"
    proof (cases "dependencyMap nodes i")
      case None
      then show ?thesis using run 1(2) by (auto simp: usedBy_def extends_def)
    next
      case (Some used)
      then show ?thesis using 1(1) [OF fresh False Some 1(2)] run issues by (simp add: usedBy_def)
    qed
    then have "d = depthFrom nodes (vsDepths st1) i" by (simp add: st'(1) depthFrom_def)
    then have "ranked nodes st' \<and> extends st1 st'" using rec ranked_step st'(2) by blast
    then show ?thesis using rec extends_trans st'(2) by auto
  qed
next
  case (2 nodes visiting st)
  then show ?case by (simp add: extends_def)
next
  case (3 nodes visiting i ids st)
  obtain d st1 where first: "visitNode nodes visiting i st = (d, st1)" by force
  obtain rest st2 where then_: "visitAll nodes visiting ids st1 = (rest, st2)" by force
  have out: "ds = d # rest" "st' = st2" using 3(4) by (simp_all add: first then_)
  obtain cs where cs: "vsIssues st1 = vsIssues st @ map CycleThrough cs"
    using visit_unchanged(1) [of nodes visiting i st] first by auto
  obtain cs' where cs': "vsIssues st2 = vsIssues st1 @ map CycleThrough cs'"
    using visit_unchanged(2) [of nodes visiting ids st1] then_ by auto
  have issues: "vsIssues st1 = vsIssues st" "vsIssues st2 = vsIssues st1"
    using cs cs' 3(5) out by auto
  have one: "ranked nodes st1 \<and> extends st st1 \<and> i \<in> set (vsVisited st1) \<and> vsDepths st1 i = Some d"
    using 3(1) 3(3) first issues by blast
  then have two: "ranked nodes st2 \<and> extends st1 st2 \<and> set ids \<subseteq> set (vsVisited st2) \<and> rest = map (\<lambda>x. the (vsDepths st2 x)) ids"
    using 3(2) [OF first [symmetric] refl] then_ issues by auto
  have "extends st st2" using one two extends_trans by blast
  moreover have "vsDepths st2 i = Some d" "i \<in> set (vsVisited st2)" using one two by (auto simp: extends_def)
  ultimately show ?case using two by (simp add: out)
qed


section \<open>Chains of dependencies\<close>

text \<open>A chain goes from a node to one it depends on, and on.\<close>

fun dependencyChain :: "plan_node list \<Rightarrow> js_string list \<Rightarrow> bool" where
  "dependencyChain nodes [] = False"
| "dependencyChain nodes [x] = (nodeMap nodes x \<noteq> None)"
| "dependencyChain nodes (x # y # xs) = ((y, x) \<in> dependsOn nodes \<and> dependencyChain nodes (y # xs))"

lemma fold_max: "fold max ds (0 :: nat) = Max (insert 0 (set ds))"
  using Max.set_eq_fold [of 0 ds] by simp

lemma map_of_rev_dom: "map_of (rev (map (\<lambda>x. (f x, g x)) xs)) k = None \<longleftrightarrow> k \<notin> f ` set xs"
  by (simp add: map_of_eq_None_iff image_image)

lemma nodeMap_None: "nodeMap nodes i = None \<longleftrightarrow> i \<notin> pnId ` set nodes"
  unfolding nodeMap_def by (rule map_of_rev_dom)

lemma dependencyMap_None: "dependencyMap nodes i = None \<longleftrightarrow> i \<notin> pnId ` set nodes"
  unfolding dependencyMap_def by (rule map_of_rev_dom)

lemma dependsOn_nodes:
  assumes "(y, x) \<in> dependsOn nodes"
  shows "x \<in> pnId ` set nodes" and "y \<in> pnId ` set nodes"
  using assms dependencyMap_None [of nodes x] nodeMap_None [of nodes y] unfolding dependsOn_def by fastforce+

definition measured :: "plan_node list \<Rightarrow> visit_state \<Rightarrow> bool" where
  "measured nodes st \<longleftrightarrow> ranked nodes st \<and> pnId ` set nodes \<subseteq> set (vsVisited st)"

definition depthOf :: "visit_state \<Rightarrow> js_string \<Rightarrow> nat" where
  "depthOf st x = the (vsDepths st x)"

lemma depth_eq:
  "measured nodes st \<Longrightarrow> x \<in> pnId ` set nodes \<Longrightarrow> depthOf st x = 1 + Max (insert 0 (depthOf st ` set (usedBy nodes x)))"
  by (auto simp: measured_def ranked_def depthOf_def depthFrom_def fold_max)

lemma depth_less: "measured nodes st \<Longrightarrow> (y, x) \<in> dependsOn nodes \<Longrightarrow> depthOf st y < depthOf st x"
  using depth_eq [of nodes st x] dependsOn_nodes [of y x nodes] by (auto simp: dependsOn_iff less_Suc_eq_le)

lemma measured_acyclic: "measured nodes st \<Longrightarrow> acyclic (dependsOn nodes)"
proof -
  assume "measured nodes st"
  then have "dependsOn nodes \<subseteq> measure (depthOf st)" using depth_less by auto
  then show ?thesis by (meson acyclic_subset wf_acyclic wf_measure)
qed

lemma chain_short: "measured nodes st \<Longrightarrow> dependencyChain nodes (x # xs) \<Longrightarrow> length (x # xs) \<le> depthOf st x"
proof (induction xs arbitrary: x)
  case Nil
  then show ?case using depth_eq [of nodes st x] by (auto simp: nodeMap_None)
next
  case (Cons y ys)
  then have "Suc (length ys) \<le> depthOf st y" "depthOf st y < depthOf st x" using depth_less [of nodes st y x] by auto
  then show ?case by simp
qed

lemma chain_long:
  "measured nodes st \<Longrightarrow> x \<in> pnId ` set nodes \<Longrightarrow> \<exists>xs. dependencyChain nodes (x # xs) \<and> length (x # xs) = depthOf st x"
proof (induction "depthOf st x" arbitrary: x rule: less_induct)
  case less
  let ?ds = "insert 0 (depthOf st ` set (usedBy nodes x))"
  show ?case
  proof (cases "Max ?ds = 0")
    case True
    then have "depthOf st x = 1" using depth_eq [OF less.prems] by simp
    moreover have "dependencyChain nodes [x]" using less.prems(2) nodeMap_None [of nodes x] by simp
    ultimately show ?thesis by (intro exI [of _ "[]"]) simp
  next
    case False
    moreover have "Max ?ds \<in> ?ds" by (rule Max_in) auto
    ultimately obtain y where y: "y \<in> set (usedBy nodes x)" "depthOf st x = Suc (depthOf st y)"
      using depth_eq [OF less.prems] by auto
    then have dep: "(y, x) \<in> dependsOn nodes" by (simp add: dependsOn_iff)
    obtain ys where "dependencyChain nodes (y # ys)" "length (y # ys) = depthOf st y"
      using less.hyps [OF _ less.prems(1) dependsOn_nodes(2) [OF dep]] y(2) by auto
    then show ?thesis using dep y(2) by (intro exI [of _ "y # ys"]) simp
  qed
qed

text \<open>The issues of the search are exactly the cycles; without one, the largest depth is the longest chain.\<close>

lemma visitPlan_measured:
  assumes run: "visitPlan nodes = (depths, st)" and "vsIssues st = []"
  shows "measured nodes st" and "depths = map (\<lambda>n. depthOf st (pnId n)) nodes"
proof -
  have "ranked nodes \<lparr>vsVisited = [], vsDepths = Map.empty, vsIssues = []\<rparr>" by (simp add: ranked_def)
  from visit_ranked(2) [OF this run [unfolded visitPlan_def]] assms(2)
  show "measured nodes st" "depths = map (\<lambda>n. depthOf st (pnId n)) nodes"
    by (auto simp: measured_def depthOf_def)
qed

lemma visitPlan_cycles:
  assumes "visitPlan nodes = (depths, st)"
  shows "vsIssues st = [] \<longleftrightarrow> acyclic (dependsOn nodes)"
proof
  assume "vsIssues st = []"
  then show "acyclic (dependsOn nodes)" using visitPlan_measured(1) [OF assms] measured_acyclic by blast
next
  assume acyc: "acyclic (dependsOn nodes)"
  obtain cs where "vsIssues st = map CycleThrough cs" "\<forall>c \<in> set cs. (c, c) \<in> (dependsOn nodes)\<^sup>+"
    using visit_cycles(2) [of nodes "map pnId nodes" "[]" "\<lparr>vsVisited = [], vsDepths = Map.empty, vsIssues = []\<rparr>"] assms
    by (auto simp: visitPlan_def onlyCycles_def)
  then show "vsIssues st = []" using acyc by (cases cs) (auto simp: acyclic_def)
qed

lemma longest_chain:
  assumes "visitPlan nodes = (depths, st)" and "vsIssues st = []" and "dependencyChain nodes xs"
  shows "length xs \<le> fold max depths 0"
proof -
  obtain x ys where xs: "xs = x # ys" using assms(3) by (cases xs) auto
  note m = visitPlan_measured [OF assms(1,2)]
  have "x \<in> pnId ` set nodes"
    using assms(3) nodeMap_None [of nodes x] dependsOn_nodes(1) [of _ x nodes] by (cases ys) (auto simp: xs)
  then have "depthOf st x \<in> set depths" using m(2) by auto
  then have "depthOf st x \<le> fold max depths 0" unfolding fold_max by (intro Max_ge) auto
  then show ?thesis using chain_short [OF m(1)] assms(3) xs by force
qed

lemma longest_chain_exists:
  assumes "visitPlan nodes = (depths, st)" and "vsIssues st = []" and "nodes \<noteq> []"
  shows "\<exists>xs. dependencyChain nodes xs \<and> length xs = fold max depths 0"
proof -
  note m = visitPlan_measured [OF assms(1,2)]
  have pos: "0 < d" if "d \<in> set depths" for d using that m depth_eq [OF m(1)] by auto
  have "depths \<noteq> []" using assms(3) m(2) by simp
  then obtain d where "d \<in> set depths" by (cases depths) auto
  moreover have "Max (insert 0 (set depths)) \<in> insert 0 (set depths)" by (rule Max_in) auto
  moreover have "d \<le> Max (insert 0 (set depths))" using \<open>d \<in> set depths\<close> by (intro Max_ge) auto
  ultimately have "fold max depths 0 \<in> set depths" using pos unfolding fold_max by force
  then obtain n where "n \<in> set nodes" "fold max depths 0 = depthOf st (pnId n)" using m(2) by auto
  then show ?thesis using chain_long [OF m(1), of "pnId n"] by force
qed

section \<open>What the checks accept\<close>

definition needs :: "plan_node \<Rightarrow> js_string \<Rightarrow> bool" where
  "needs n d \<longleftrightarrow>
     (\<exists>input \<in> set (pnInputs n). \<exists>source. nodeOutput (snd input) = Some source \<and> noNode source = d) \<or>
     (\<exists>p \<in> set (pnPreconditions n). (\<exists>s. p = NODE_STATUS d s) \<or>
        (\<exists>b source. boundValue p = Some b \<and> nodeOutput b = Some source \<and> noNode source = d))"

lemma set_addName [simp]: "set (addName d names) = insert d (set names)"
  by (auto simp: addName_def)

lemma distinct_addName [simp]: "distinct (addName d names) = distinct names"
  by (auto simp: addName_def)

lemma set_addBinding: "set (addBinding names b) = set names \<union> {d. \<exists>source. nodeOutput b = Some source \<and> noNode source = d}"
  by (auto simp: addBinding_def split: option.splits)

lemma set_addPrecondition: "set (addPrecondition names p) = set names \<union>
    {d. (\<exists>s. p = NODE_STATUS d s) \<or> (\<exists>b source. boundValue p = Some b \<and> nodeOutput b = Some source \<and> noNode source = d)}"
  by (cases p) (auto simp: set_addBinding)

lemma set_addBindings:
  "set (foldl addBinding names bs) = set names \<union> {d. \<exists>b \<in> set bs. \<exists>source. nodeOutput b = Some source \<and> noNode source = d}"
  by (induction bs arbitrary: names) (auto simp: set_addBinding)

lemma set_addPreconditions: "set (foldl addPrecondition names ps) = set names \<union>
    {d. \<exists>p \<in> set ps. (\<exists>s. p = NODE_STATUS d s) \<or> (\<exists>b source. boundValue p = Some b \<and> nodeOutput b = Some source \<and> noNode source = d)}"
  by (induction ps arbitrary: names) (auto simp: set_addPrecondition)

lemma nodeDependencies_needs: "d \<in> set (nodeDependencies n) \<longleftrightarrow> needs n d"
  unfolding nodeDependencies_def needs_def set_addBindings set_addPreconditions by simp

definition apartPaths :: "js_string list \<Rightarrow> js_string list \<Rightarrow> bool" where
  "apartPaths a b \<longleftrightarrow> (\<nexists>rest. b = a @ rest) \<and> (\<nexists>rest. a = b @ rest)"

definition safeInputs :: "plan_node \<Rightarrow> bool" where
  "safeInputs n \<longleftrightarrow> (let paths = map (\<lambda>input. snd (snd (targetPathOf input))) (pnInputs n) in
     if wholeRequest n then \<forall>input \<in> set (pnInputs n). pbTarget (portBinding (snd input)) = None
     else sorted_wrt apartPaths paths \<and>
       (\<forall>path \<in> set paths. length path \<le> MAX_TARGET_DEPTH \<and> (\<forall>segment \<in> set path. \<not> isUnsafeOrReserved segment)))"

text \<open>A plan as it should be: every node sound, no cycle, every chain and every sum within the budgets.\<close>

definition soundNode :: "query_plan \<Rightarrow> plan_node \<Rightarrow> bool" where
  "soundNode plan n \<longleftrightarrow> safeInputs n \<and>
     (\<forall>p \<in> set (pnPreconditions n). \<forall>b. boundValue p = Some b \<longrightarrow> pbTarget (portBinding b) = None) \<and>
     (\<forall>d. needs n d \<longrightarrow> d \<in> pnId ` set (qpNodes plan) \<and> d \<noteq> pnId n) \<and>
     (\<forall>input \<in> set (pnInputs n). \<forall>b. nodeOutput (snd input) = Some b \<longrightarrow> \<not> wrongResultHash (qpNodes plan) b) \<and>
     (pnPolicy n = SKIP_IF_PRECONDITION_FALSE \<longrightarrow> pnPreconditions n \<noteq> []) \<and>
     (\<forall>b. budgetOf b (pnBudget n) \<le> budgetOf b (qpBudgets plan))"

definition soundOutput :: "query_plan \<Rightarrow> node_output \<Rightarrow> bool" where
  "soundOutput plan b \<longleftrightarrow> pbTarget b = None \<and> noNode b \<in> pnId ` set (qpNodes plan) \<and> \<not> wrongResultHash (qpNodes plan) b"

definition wellFormedPlan :: "query_plan \<Rightarrow> bool" where
  "wellFormedPlan plan \<longleftrightarrow>
     distinct (map pnId (qpNodes plan)) \<and> int (length (qpNodes plan)) \<le> qbNodes (qpBudgets plan) \<and>
     (\<forall>n \<in> set (qpNodes plan). soundNode plan n) \<and>
     acyclic (dependsOn (qpNodes plan)) \<and>
     (\<forall>xs. dependencyChain (qpNodes plan) xs \<longrightarrow> int (length xs) \<le> qbDepth (qpBudgets plan)) \<and>
     (\<forall>b. (\<Sum>n \<leftarrow> qpNodes plan. budgetOf b (pnBudget n)) \<le> budgetOf b (qpBudgets plan)) \<and>
     distinct (map fst (qpOutputs plan)) \<and> (\<forall>output \<in> set (qpOutputs plan). soundOutput plan (snd output))"

lemma isPrefixPath_iff: "isPrefixPath a b \<longleftrightarrow> (\<exists>rest. b = a @ rest)"
proof
  assume "isPrefixPath a b"
  then have "take (length a) b = a" by (intro nth_equalityI) (auto simp: isPrefixPath_def list_all_iff)
  then show "\<exists>rest. b = a @ rest" by (metis append_take_drop_id)
qed (auto simp: isPrefixPath_def list_all_iff nth_append)

lemma conflictIssues_none:
  "conflictIssues index ts = [] \<longleftrightarrow> sorted_wrt apartPaths (map (\<lambda>t. snd (snd t)) ts)"
  by (induction index ts rule: conflictIssues.induct) (auto simp: apartPaths_def isPrefixPath_iff)

lemma targetIssues_none:
  "targetIssues index t = [] \<longleftrightarrow> length (snd (snd t)) \<le> MAX_TARGET_DEPTH \<and> (\<forall>segment \<in> set (snd (snd t)). \<not> isUnsafeOrReserved segment)"
  by (auto simp: targetIssues_def list_ex_iff split: prod.splits)

lemma all_budgets: "set BUDGET_NAMES = UNIV"
  by (auto simp: BUDGET_NAMES_def) (metis budget_name.exhaust)

lemma concat_none: "(\<And>x. x \<in> set xs \<Longrightarrow> f x = [] \<longleftrightarrow> P x) \<Longrightarrow> concat (map f xs) = [] \<longleftrightarrow> (\<forall>x \<in> set xs. P x)"
  by (induction xs) auto

lemma inputIssues_none: "inputIssues index n = [] \<longleftrightarrow> safeInputs n"
proof -
  have whole: "concat (map (\<lambda>(name, b). if pbTarget (portBinding b) \<noteq> None then [TargetOnWholeRequest index name] else []) (pnInputs n)) = []
      \<longleftrightarrow> (\<forall>input \<in> set (pnInputs n). pbTarget (portBinding (snd input)) = None)"
    by (rule concat_none) (auto split: if_splits)
  have parts: "concat (map (\<lambda>input. targetIssues index (targetPathOf input)) (pnInputs n)) = []
      \<longleftrightarrow> (\<forall>input \<in> set (pnInputs n). targetIssues index (targetPathOf input) = [])"
    by (rule concat_none) simp
  show ?thesis
  proof (cases "wholeRequest n")
    case True
    then show ?thesis unfolding inputIssues_def safeInputs_def Let_def if_P [OF True] whole by simp
  next
    case False
    show ?thesis unfolding inputIssues_def safeInputs_def Let_def if_not_P [OF False] append_is_Nil_conv parts
        conflictIssues_none targetIssues_none
      by (auto simp: comp_def)
  qed
qed

lemma nodeIssues_none: "nodeIssues plan (index, n) = [] \<longleftrightarrow> soundNode plan n"
proof -
  have budgets: "concat (map (\<lambda>b. if budgetOf b (pnBudget n) > budgetOf b (qpBudgets plan) then [NodeOverBudget index b] else []) BUDGET_NAMES) = []
      \<longleftrightarrow> (\<forall>b. budgetOf b (pnBudget n) \<le> budgetOf b (qpBudgets plan))"
    by (subst concat_none [where P = "\<lambda>b. budgetOf b (pnBudget n) \<le> budgetOf b (qpBudgets plan)"]) (auto simp: all_budgets)
  have deps: "concat (map (dependencyIssues (qpNodes plan) index n) (nodeDependencies n)) = []
      \<longleftrightarrow> (\<forall>d. needs n d \<longrightarrow> d \<in> pnId ` set (qpNodes plan) \<and> d \<noteq> pnId n)"
    by (subst concat_none [where P = "\<lambda>d. d \<in> pnId ` set (qpNodes plan) \<and> d \<noteq> pnId n"])
      (auto simp: dependencyIssues_def nodeDependencies_needs nodeMap_None)
  have preconditions: "concat (map (preconditionIssues index) (pnPreconditions n)) = []
      \<longleftrightarrow> (\<forall>p \<in> set (pnPreconditions n). \<forall>b. boundValue p = Some b \<longrightarrow> pbTarget (portBinding b) = None)"
    by (rule concat_none) (auto simp: preconditionIssues_def split: option.splits if_splits)
  have ports: "concat (map (typedPortIssues (qpNodes plan) index) (pnInputs n)) = []
      \<longleftrightarrow> (\<forall>input \<in> set (pnInputs n). \<forall>b. nodeOutput (snd input) = Some b \<longrightarrow> \<not> wrongResultHash (qpNodes plan) b)"
    by (rule concat_none) (auto simp: typedPortIssues_def split: option.splits if_splits)
  show ?thesis
    unfolding nodeIssues_def soundNode_def Let_def prod.case append_is_Nil_conv budgets deps preconditions ports inputIssues_none
    by simp
qed

lemma enumerate_all: "(\<And>i x. f (i, x) = [] \<longleftrightarrow> P x) \<Longrightarrow> concat (map f (List.enumerate k xs)) = [] \<longleftrightarrow> (\<forall>x \<in> set xs. P x)"
  by (induction xs arbitrary: k) auto

lemma outputIssues_none: "outputIssues (qpNodes plan) (index, named) = [] \<longleftrightarrow> soundOutput plan (snd named)"
  by (cases named) (auto simp: outputIssues_def soundOutput_def nodeMap_None)

lemma depthIssues_none:
  assumes "visitPlan (qpNodes plan) = (depths, st)" and "vsIssues st = []"
  shows "depthIssues plan depths = [] \<longleftrightarrow>
    (\<forall>xs. dependencyChain (qpNodes plan) xs \<longrightarrow> int (length xs) \<le> qbDepth (qpBudgets plan))"
proof (cases "qpNodes plan = []")
  case True
  then have "depths = []" using visitPlan_measured(2) [OF assms] by simp
  moreover have "\<not> dependencyChain (qpNodes plan) xs" for xs
    by (induction nodes \<equiv> "qpNodes plan" xs rule: dependencyChain.induct) (auto simp: True nodeMap_def)
  ultimately show ?thesis by (simp add: depthIssues_def)
next
  case False
  then have "depths \<noteq> []" using visitPlan_measured(2) [OF assms] by simp
  then have none: "depthIssues plan depths = [] \<longleftrightarrow> int (fold max depths 0) \<le> qbDepth (qpBudgets plan)"
    by (simp add: depthIssues_def not_less)
  obtain longest where "dependencyChain (qpNodes plan) longest" "length longest = fold max depths 0"
    using longest_chain_exists [OF assms False] by blast
  moreover have "int (length xs) \<le> int (fold max depths 0)" if "dependencyChain (qpNodes plan) xs" for xs
    using longest_chain [OF assms that] by simp
  ultimately show ?thesis unfolding none by (metis order_trans)
qed

lemma planIssues_none: "validateWorldQueryPlanSemantics plan = [] \<longleftrightarrow> wellFormedPlan plan"
proof -
  obtain depths st where run: "visitPlan (qpNodes plan) = (depths, st)" by force
  have aggregates: "concat (map (aggregateIssues plan) BUDGET_NAMES) = []
      \<longleftrightarrow> (\<forall>b. (\<Sum>n \<leftarrow> qpNodes plan. budgetOf b (pnBudget n)) \<le> budgetOf b (qpBudgets plan))"
    by (subst concat_none [where P = "\<lambda>b. (\<Sum>n \<leftarrow> qpNodes plan. budgetOf b (pnBudget n)) \<le> budgetOf b (qpBudgets plan)"])
      (auto simp: aggregateIssues_def Let_def all_budgets)
  show ?thesis
    unfolding validateWorldQueryPlanSemantics_def wellFormedPlan_def Let_def run prod.case append_is_Nil_conv aggregates
      
      enumerate_all [where f = "nodeIssues plan" and P = "soundNode plan", OF nodeIssues_none]
      enumerate_all [where f = "outputIssues (qpNodes plan)" and P = "\<lambda>named. soundOutput plan (snd named)", OF outputIssues_none]
      map_is_Nil_conv duplicateValues_none
    using visitPlan_cycles [OF run] depthIssues_none [OF run] by (auto simp: not_less)
qed

end
