(* ===== verification/CapabilityRegistry.thy ===== *)
theory CapabilityRegistry
  imports
  QueryPlan
begin

text \<open>
  Capability descriptors with their semantic checks (\<open>contract-runtime/src/semantic-validation.ts\<close>), and the
  registry of controlled routes of the gateway, \<open>world-capability-gateway/src/registry.ts\<close>.

  The fields of a descriptor or manifest that no modelled code reads are left out.  \<open>validManifest\<close> stands for the
  JSON-schema validation of a manifest.  A URL is the record of its parsed components.
\<close>

section \<open>Descriptors\<close>

datatype data_binding = WORLD_INDEPENDENT | CALLER_DATA_BOUND | WORLD_SNAPSHOT_BOUND | DATASET_VERSION_BOUND
datatype scope_policy = IDENTITY_ONLY | REQUEST_CONTEXT | DATA_SCOPE_REQUIRED | DATASET_SCOPE_REQUIRED
datatype maturity = PLANNED | EXPERIMENTAL | PREVIEW | STABLE | DEPRECATED | RETIRED
datatype data_snapshot = SNAPSHOT_NONE | SNAPSHOT_OPTIONAL | SNAPSHOT_REQUIRED
datatype resource_resolution = DISCOVER_RESOURCES | REQUIRE_PINNED | NOT_APPLICABLE
datatype spatial_semantics = EXACT | CANDIDATE | AGGREGATED | NOT_SPATIAL

record capability_port = schema_port +
  cpName :: js_string
  cpPath :: "js_string option"

record semantic_profile =
  semAccepted :: "js_string list"
  semProduced :: "js_string list"
  semSpatial :: spatial_semantics

record descriptor =
  cdId :: js_string
  cdVersion :: js_string
  cdInputUri :: js_string
  cdInputHash :: js_string
  cdOutputUri :: js_string
  cdOutputHash :: js_string
  cdBinding :: data_binding
  cdScope :: scope_policy
  cdMaturity :: maturity
  cdDeprecation :: "js_string option"
  cdDefaultTimeout :: int
  cdMaximumTimeout :: int
  cdMaximumRows :: "int option"
  cdMaximumCandidates :: "int option"
  cdMaximumBytes :: "int option"
  cdInputs :: "capability_port list"
  cdOutputs :: "capability_port list"
  cdDataSnapshot :: data_snapshot
  cdResolution :: "resource_resolution option"
  cdSemantics :: "semantic_profile option"

section \<open>The checks of a descriptor\<close>

datatype port_direction = INPUTS | OUTPUTS

datatype descriptor_issue =
    TimeoutOrder
  | DataSnapshotMissing
  | DataSnapshotForbidden
  | ResolutionNeedsData resource_resolution
  | ResolutionNeedsSnapshot resource_resolution
  | ResolutionOfData
  | ResolutionWithSnapshot
  | DataScopeMissing
  | DatasetScopeMissing
  | DuplicatePort port_direction js_string
  | InputSelector nat
  | ResultSelector nat
  | SelectorMissing nat
  | SelectorTooDeep nat
  | SelectorUnsafe nat
  | DuplicateSelector js_string
  | DeprecationMissing maturity

definition worldBound :: "descriptor \<Rightarrow> bool" where
  "worldBound d \<longleftrightarrow> cdBinding d = WORLD_SNAPSHOT_BOUND \<or> cdBinding d = DATASET_VERSION_BOUND"

definition snapshotIssues :: "descriptor \<Rightarrow> descriptor_issue list" where
  "snapshotIssues d = (case cdResolution d of
     None \<Rightarrow>
       (if worldBound d \<and> cdDataSnapshot d \<noteq> SNAPSHOT_REQUIRED then [DataSnapshotMissing] else []) @
       (if \<not> worldBound d \<and> cdDataSnapshot d \<noteq> SNAPSHOT_NONE then [DataSnapshotForbidden] else [])
   | Some r \<Rightarrow>
       if r = DISCOVER_RESOURCES \<or> r = REQUIRE_PINNED then
         (if cdBinding d = WORLD_INDEPENDENT then [ResolutionNeedsData r] else []) @
         (if cdDataSnapshot d \<noteq> SNAPSHOT_REQUIRED then [ResolutionNeedsSnapshot r] else [])
       else
         (if cdBinding d \<noteq> WORLD_INDEPENDENT then [ResolutionOfData] else []) @
         (if cdDataSnapshot d \<noteq> SNAPSHOT_NONE then [ResolutionWithSnapshot] else []))"

definition scopeIssues :: "descriptor \<Rightarrow> descriptor_issue list" where
  "scopeIssues d =
     (if cdBinding d = WORLD_SNAPSHOT_BOUND \<and> cdScope d \<noteq> DATA_SCOPE_REQUIRED then [DataScopeMissing] else []) @
     (if cdBinding d = DATASET_VERSION_BOUND \<and> cdScope d \<noteq> DATASET_SCOPE_REQUIRED then [DatasetScopeMissing] else [])"

definition inputPortIssues :: "nat \<times> capability_port \<Rightarrow> descriptor_issue list" where
  "inputPortIssues indexed = (if cpPath (snd indexed) \<noteq> None then [InputSelector (fst indexed)] else [])"

text \<open>An output port: its issues, and the selector it adds to \<open>outputPaths\<close>.\<close>

definition outputPortIssues :: "nat \<times> capability_port \<Rightarrow> descriptor_issue list" where
  "outputPortIssues indexed = (let (index, port) = indexed in
     if cpName port = js ''result'' then (if cpPath port \<noteq> None then [ResultSelector index] else [])
     else (case cpPath port of None \<Rightarrow> [SelectorMissing index]
       | Some path \<Rightarrow>
         (if length (targetSegments path) > MAX_TARGET_DEPTH then [SelectorTooDeep index] else []) @
         (if list_ex isUnsafeOrReserved (targetSegments path) then [SelectorUnsafe index] else [])))"

definition outputSelector :: "capability_port \<Rightarrow> js_string option" where
  "outputSelector port = (if cpName port = js ''result'' then None else cpPath port)"

definition validateCapabilityDescriptorSemantics :: "descriptor \<Rightarrow> descriptor_issue list" where
  "validateCapabilityDescriptorSemantics d =
     (if cdDefaultTimeout d > cdMaximumTimeout d then [TimeoutOrder] else []) @
     snapshotIssues d @ scopeIssues d @
     map (DuplicatePort INPUTS) (duplicateValues (map cpName (cdInputs d))) @
     map (DuplicatePort OUTPUTS) (duplicateValues (map cpName (cdOutputs d))) @
     concat (map inputPortIssues (List.enumerate 0 (cdInputs d))) @
     concat (map outputPortIssues (List.enumerate 0 (cdOutputs d))) @
     map DuplicateSelector (duplicateValues (List.map_filter outputSelector (cdOutputs d))) @
     (if (cdMaturity d = DEPRECATED \<or> cdMaturity d = RETIRED) \<and> cdDeprecation d = None then [DeprecationMissing (cdMaturity d)] else [])"

section \<open>Manifests\<close>

record manifest =
  mfProvider :: js_string
  mfVersion :: js_string
  mfSchemaVersion :: "js_string option"
  mfCapabilities :: "descriptor list"

datatype manifest_issue = DuplicateOperation js_string | OfCapability nat descriptor_issue

definition operationKey :: "js_string \<Rightarrow> js_string \<Rightarrow> js_string" where
  "operationKey i v = i @ js ''@'' @ v"

definition descriptorKey :: "descriptor \<Rightarrow> js_string" where
  "descriptorKey d = operationKey (cdId d) (cdVersion d)"

definition validateProviderManifestSemantics :: "manifest \<Rightarrow> manifest_issue list" where
  "validateProviderManifestSemantics m =
     map DuplicateOperation (duplicateValues (map descriptorKey (mfCapabilities m))) @
     concat (map (\<lambda>(index, d). map (OfCapability index) (validateCapabilityDescriptorSemantics d))
       (List.enumerate 0 (mfCapabilities m)))"

section \<open>Endpoints\<close>

record endpoint_url =
  urProtocol :: js_string
  urUsername :: js_string
  urPassword :: js_string
  urHash :: js_string
  urSearch :: js_string
  urPathname :: js_string
  urHostname :: js_string

datatype error_code =
    INVALID_REQUEST | SCHEMA_MISMATCH | OPERATION_NOT_FOUND | VERSION_NOT_FOUND | REFERENCE_VERSION_MISMATCH
  | PROVIDER_NOT_READY | SCOPE_REQUIRED | SCOPE_DENIED | DEADLINE_EXCEEDED | BUDGET_EXCEEDED
  | IDEMPOTENCY_CONFLICT | OVERLOADED | INTERNAL_PROVIDER_ERROR

text \<open>The message of an error, one constructor for each \<open>throw\<close>.\<close>

datatype registry_reason =
    NotApproved | EndpointProtocol | EndpointCredentials | EndpointNotOrigin | EndpointPlaintext | ManifestInvalid
  | ManifestVersion | ManifestSemantics | ClientIdentity | ProviderRegistered js_string | RouteRegistered js_string
  | NotRegistered | NotExecutable maturity

type_synonym registry_error = "error_code \<times> registry_reason"

text \<open>\<open>/^[a-z][a-z0-9-]{0,62}$/iu\<close>; ignoring case, the long s and the Kelvin sign count as letters.\<close>

definition isLabelLetter :: "16 word \<Rightarrow> bool" where
  "isLabelLetter u \<longleftrightarrow> (97 \<le> u \<and> u \<le> 122) \<or> (65 \<le> u \<and> u \<le> 90) \<or> u = 383 \<or> u = 8490"

definition isLabelUnit :: "16 word \<Rightarrow> bool" where
  "isLabelUnit u \<longleftrightarrow> isLabelLetter u \<or> (48 \<le> u \<and> u \<le> 57) \<or> u = 45"

definition isContainerLabel :: "js_string \<Rightarrow> bool" where
  "isContainerLabel s \<longleftrightarrow> s \<noteq> [] \<and> isLabelLetter (hd s) \<and> list_all isLabelUnit (tl s) \<and> length (tl s) \<le> 62"

definition assertControlledProviderEndpoint :: "endpoint_url \<Rightarrow> bool \<Rightarrow> registry_error + unit" where
  "assertControlledProviderEndpoint u plaintext =
     (if urProtocol u \<notin> set [js ''http:'', js ''https:''] then Inl (INVALID_REQUEST, EndpointProtocol)
      else if urUsername u \<noteq> [] \<or> urPassword u \<noteq> [] \<or> urHash u \<noteq> [] \<or> urSearch u \<noteq> []
      then Inl (INVALID_REQUEST, EndpointCredentials)
      else if urPathname u \<noteq> js ''/'' then Inl (INVALID_REQUEST, EndpointNotOrigin)
      else let onHost = urHostname u \<in> set [js ''localhost'', js ''127.0.0.1'', js ''::1''] in
        if urProtocol u \<noteq> js ''https:'' \<and> \<not> onHost \<and> (\<not> plaintext \<or> \<not> isContainerLabel (urHostname u))
        then Inl (INVALID_REQUEST, EndpointPlaintext) else Inr ())"

section \<open>The registry\<close>

text \<open>\<open>!text.trim()\<close>: only white space and line ends.\<close>

definition isBlankUnit :: "16 word \<Rightarrow> bool" where
  "isBlankUnit u \<longleftrightarrow> (9 \<le> u \<and> u \<le> 13) \<or> (8192 \<le> u \<and> u \<le> 8202) \<or>
     u \<in> set [32, 160, 5760, 8232, 8233, 8239, 8287, 12288, 65279]"

definition isBlank :: "js_string \<Rightarrow> bool" where
  "isBlank s \<longleftrightarrow> list_all isBlankUnit s"

record provider_binding =
  bnApprovalId :: js_string
  bnApproved :: bool
  bnEndpoint :: endpoint_url
  bnPlaintext :: "bool option"
  bnClient :: js_string
  bnManifest :: manifest

record capability_route =
  rtDescriptor :: descriptor
  rtManifest :: manifest
  rtEndpoint :: endpoint_url
  rtClient :: js_string
  rtApproval :: js_string

text \<open>Both maps in the order of insertion.\<close>

record registry =
  rgRoutes :: "(js_string \<times> capability_route) list"
  rgBindings :: "(js_string \<times> provider_binding) list"

datatype registry_profile = LEGACY | WORLD_PLATFORM

definition emptyRegistry :: registry where
  "emptyRegistry = \<lparr>rgRoutes = [], rgBindings = []\<rparr>"

definition pendingRoute ::
  "registry \<Rightarrow> provider_binding \<Rightarrow> (js_string \<times> capability_route) list \<Rightarrow> descriptor \<Rightarrow>
    registry_error + (js_string \<times> capability_route) list" where
  "pendingRoute reg b pending d =
     (let key = descriptorKey d in
      if key \<in> fst ` set (rgRoutes reg) \<or> key \<in> fst ` set pending then Inl (INVALID_REQUEST, RouteRegistered key)
      else Inr (pending @ [(key, \<lparr>rtDescriptor = d, rtManifest = bnManifest b, rtEndpoint = bnEndpoint b,
        rtClient = bnClient b, rtApproval = bnApprovalId b\<rparr>)]))"

definition register ::
  "(manifest \<Rightarrow> bool) \<Rightarrow> registry_profile \<Rightarrow> registry \<Rightarrow> provider_binding \<Rightarrow> registry_error + registry" where
  "register validManifest profile reg b =
     bindR (ensureR (\<not> (\<not> bnApproved b \<or> isBlank (bnApprovalId b))) (SCOPE_DENIED, NotApproved)) (\<lambda>_.
     bindR (assertControlledProviderEndpoint (bnEndpoint b) (bnPlaintext b = Some True)) (\<lambda>_.
     let m = bnManifest b; provider = mfProvider m in
     bindR (ensureR (validManifest m) (SCHEMA_MISMATCH, ManifestInvalid)) (\<lambda>_.
     bindR (ensureR (\<not> (profile = WORLD_PLATFORM \<and> mfSchemaVersion m \<noteq> Some (js ''1.1''))) (SCHEMA_MISMATCH, ManifestVersion)) (\<lambda>_.
     bindR (ensureR (validateProviderManifestSemantics m = []) (SCHEMA_MISMATCH, ManifestSemantics)) (\<lambda>_.
     bindR (ensureR (bnClient b = provider) (SCHEMA_MISMATCH, ClientIdentity)) (\<lambda>_.
     bindR (ensureR (provider \<notin> fst ` set (rgBindings reg)) (INVALID_REQUEST, ProviderRegistered provider)) (\<lambda>_.
     bindR (foldR (pendingRoute reg b) [] (mfCapabilities m)) (\<lambda>pending.
     Inr \<lparr>rgRoutes = rgRoutes reg @ pending, rgBindings = rgBindings reg @ [(provider, b)]\<rparr>))))))))"

definition isExecutable :: "maturity \<Rightarrow> bool \<Rightarrow> bool" where
  "isExecutable m allowExperimental \<longleftrightarrow>
     m \<in> set [EXPERIMENTAL, PREVIEW, STABLE, DEPRECATED] \<and> \<not> (m = EXPERIMENTAL \<and> \<not> allowExperimental)"

definition resolve :: "registry \<Rightarrow> js_string \<Rightarrow> js_string \<Rightarrow> bool \<Rightarrow> registry_error + capability_route" where
  "resolve reg i v allowExperimental = (case map_of (rgRoutes reg) (operationKey i v) of
     None \<Rightarrow> Inl (VERSION_NOT_FOUND, NotRegistered)
   | Some route \<Rightarrow> (let m = cdMaturity (rtDescriptor route) in
       if isExecutable m allowExperimental then Inr route else Inl (SCOPE_DENIED, NotExecutable m)))"

definition catalog :: "registry \<Rightarrow> descriptor list" where
  "catalog reg = sort_by (\<lambda>l r. compareUnicodeCodePoints (descriptorKey l) (descriptorKey r))
     (map (\<lambda>(key, route). rtDescriptor route) (rgRoutes reg))"

section \<open>Every route is controlled\<close>

text \<open>The states of a registry: empty at first, then changed by registrations that succeed.\<close>

inductive registered :: "(manifest \<Rightarrow> bool) \<Rightarrow> registry_profile \<Rightarrow> registry \<Rightarrow> bool"
  for validManifest profile where
  start: "registered validManifest profile emptyRegistry"
| step: "registered validManifest profile reg \<Longrightarrow> register validManifest profile reg b = Inr reg' \<Longrightarrow>
    registered validManifest profile reg'"

definition controlledUrl :: "endpoint_url \<Rightarrow> bool \<Rightarrow> bool" where
  "controlledUrl u plaintext \<longleftrightarrow>
     urUsername u = [] \<and> urPassword u = [] \<and> urHash u = [] \<and> urSearch u = [] \<and> urPathname u = js ''/'' \<and>
     (urProtocol u = js ''https:'' \<or> urProtocol u = js ''http:'' \<and>
        (urHostname u \<in> {js ''localhost'', js ''127.0.0.1'', js ''::1''} \<or> plaintext \<and> isContainerLabel (urHostname u)))"

definition acceptedBinding :: "(manifest \<Rightarrow> bool) \<Rightarrow> registry_profile \<Rightarrow> provider_binding \<Rightarrow> bool" where
  "acceptedBinding validManifest profile b \<longleftrightarrow>
     bnApproved b \<and> \<not> isBlank (bnApprovalId b) \<and> controlledUrl (bnEndpoint b) (bnPlaintext b = Some True) \<and>
     validManifest (bnManifest b) \<and> (profile = WORLD_PLATFORM \<longrightarrow> mfSchemaVersion (bnManifest b) = Some (js ''1.1'')) \<and>
     bnClient b = mfProvider (bnManifest b) \<and> distinct (map descriptorKey (mfCapabilities (bnManifest b))) \<and>
     (\<forall>d \<in> set (mfCapabilities (bnManifest b)). validateCapabilityDescriptorSemantics d = [])"

definition bindingRoute :: "provider_binding \<Rightarrow> descriptor \<Rightarrow> capability_route" where
  "bindingRoute b d = \<lparr>rtDescriptor = d, rtManifest = bnManifest b, rtEndpoint = bnEndpoint b, rtClient = bnClient b,
     rtApproval = bnApprovalId b\<rparr>"

definition routesOfBinding :: "provider_binding \<Rightarrow> (js_string \<times> capability_route) list" where
  "routesOfBinding b = map (\<lambda>d. (descriptorKey d, bindingRoute b d)) (mfCapabilities (bnManifest b))"

lemma endpoint_controlled: "assertControlledProviderEndpoint u plaintext = Inr x \<longleftrightarrow> controlledUrl u plaintext"
proof -
  have "js ''https:'' \<noteq> js ''http:''" by code_simp
  then show ?thesis by (auto simp: assertControlledProviderEndpoint_def controlledUrl_def Let_def)
qed

lemma manifest_sound: "validateProviderManifestSemantics m = [] \<longleftrightarrow>
    distinct (map descriptorKey (mfCapabilities m)) \<and> (\<forall>d \<in> set (mfCapabilities m). validateCapabilityDescriptorSemantics d = [])"
proof -
  have "concat (map (\<lambda>(index, d). map (OfCapability index) (validateCapabilityDescriptorSemantics d)) (List.enumerate 0 (mfCapabilities m))) = []
      \<longleftrightarrow> (\<forall>d \<in> set (mfCapabilities m). validateCapabilityDescriptorSemantics d = [])"
    by (rule enumerate_all) auto
  then show ?thesis by (simp add: validateProviderManifestSemantics_def duplicateValues_none)
qed

lemma pendingRoute_run:
  "pendingRoute reg b pending d =
     (if descriptorKey d \<in> fst ` set (rgRoutes reg) \<union> fst ` set pending then Inl (INVALID_REQUEST, RouteRegistered (descriptorKey d))
      else Inr (pending @ [(descriptorKey d, bindingRoute b d)]))"
  by (simp add: pendingRoute_def bindingRoute_def Let_def)

lemma pendingRoutes_run:
  "foldR (pendingRoute reg b) pending ds = Inr result \<longleftrightarrow>
    result = pending @ map (\<lambda>d. (descriptorKey d, bindingRoute b d)) ds \<and>
    distinct (map descriptorKey ds) \<and> descriptorKey ` set ds \<inter> (fst ` set (rgRoutes reg) \<union> fst ` set pending) = {}"
proof (induction ds arbitrary: pending)
  case (Cons d ds)
  show ?case
  proof (cases "descriptorKey d \<in> fst ` set (rgRoutes reg) \<union> fst ` set pending")
    case True
    then show ?thesis by (simp add: pendingRoute_run)
  next
    case False
    then have first: "foldR (pendingRoute reg b) pending (d # ds) = foldR (pendingRoute reg b) (pending @ [(descriptorKey d, bindingRoute b d)]) ds"
      by (simp add: pendingRoute_run)
    show ?thesis unfolding first Cons using False by auto
  qed
qed auto

lemma register_run:
  "register validManifest profile reg b = Inr reg' \<longleftrightarrow>
    acceptedBinding validManifest profile b \<and> mfProvider (bnManifest b) \<notin> fst ` set (rgBindings reg) \<and>
    fst ` set (routesOfBinding b) \<inter> fst ` set (rgRoutes reg) = {} \<and>
    reg' = \<lparr>rgRoutes = rgRoutes reg @ routesOfBinding b, rgBindings = rgBindings reg @ [(mfProvider (bnManifest b), b)]\<rparr>"
  unfolding register_def Let_def acceptedBinding_def routesOfBinding_def
  by (auto simp: bindR_eq_Inr endpoint_controlled manifest_sound pendingRoutes_run image_image)

definition registryOk :: "(manifest \<Rightarrow> bool) \<Rightarrow> registry_profile \<Rightarrow> registry \<Rightarrow> bool" where
  "registryOk validManifest profile reg \<longleftrightarrow>
     distinct (map fst (rgRoutes reg)) \<and> distinct (map fst (rgBindings reg)) \<and>
     (\<forall>(provider, b) \<in> set (rgBindings reg). provider = mfProvider (bnManifest b) \<and> acceptedBinding validManifest profile b) \<and>
     rgRoutes reg = concat (map (\<lambda>(provider, b). routesOfBinding b) (rgBindings reg))"

lemma registered_ok: "registered validManifest profile reg \<Longrightarrow> registryOk validManifest profile reg"
proof (induction rule: registered.induct)
  case start
  show ?case by (simp add: registryOk_def emptyRegistry_def)
next
  case (step reg b reg')
  from step(2) have acc: "acceptedBinding validManifest profile b" and fresh: "mfProvider (bnManifest b) \<notin> fst ` set (rgBindings reg)"
    and apart: "fst ` set (routesOfBinding b) \<inter> fst ` set (rgRoutes reg) = {}"
    and reg': "rgRoutes reg' = rgRoutes reg @ routesOfBinding b" "rgBindings reg' = rgBindings reg @ [(mfProvider (bnManifest b), b)]"
    by (auto simp: register_run)
  have "distinct (map fst (routesOfBinding b))" using acc by (simp add: acceptedBinding_def routesOfBinding_def comp_def)
  then have "distinct (map fst (rgRoutes reg'))"
    using step.IH [unfolded registryOk_def, THEN conjunct1] apart by (simp add: reg'(1) Int_commute)
  moreover have "rgRoutes reg' = concat (map (\<lambda>(provider, b). routesOfBinding b) (rgBindings reg'))"
    using step.IH by (simp add: reg' registryOk_def)
  moreover have "distinct (map fst (rgBindings reg'))" using step.IH fresh by (simp add: reg' registryOk_def)
  ultimately show ?case using step.IH acc by (simp add: reg'(2) registryOk_def)
qed

definition operationNamed :: "descriptor \<Rightarrow> js_string \<Rightarrow> js_string \<Rightarrow> bool" where
  "operationNamed d i v \<longleftrightarrow> descriptorKey d = operationKey i v \<and> (64 \<notin> set i \<and> 64 \<notin> set (cdId d) \<longrightarrow> cdId d = i \<and> cdVersion d = v)"

lemma operationKey_named: "descriptorKey d = operationKey i v \<Longrightarrow> operationNamed d i v"
  using separated [of 64 "cdId d" i "cdVersion d" v]
  by (auto simp: operationNamed_def descriptorKey_def operationKey_def js_def)

lemma resolve_controlled:
  assumes "registered validManifest profile reg" and "resolve reg i v allow = Inr route"
  shows "operationNamed (rtDescriptor route) i v \<and> isExecutable (cdMaturity (rtDescriptor route)) allow \<and>
    validateCapabilityDescriptorSemantics (rtDescriptor route) = [] \<and>
    (\<exists>b. (mfProvider (bnManifest b), b) \<in> set (rgBindings reg) \<and> acceptedBinding validManifest profile b \<and>
       rtDescriptor route \<in> set (mfCapabilities (bnManifest b)) \<and> route = bindingRoute b (rtDescriptor route))"
proof -
  have ok: "registryOk validManifest profile reg" by (rule registered_ok [OF assms(1)])
  have "(operationKey i v, route) \<in> set (rgRoutes reg)" and exec: "isExecutable (cdMaturity (rtDescriptor route)) allow"
    using assms(2) by (auto simp: resolve_def Let_def split: option.splits if_splits dest: map_of_SomeD)
  then obtain provider b where b: "(provider, b) \<in> set (rgBindings reg)" "(operationKey i v, route) \<in> set (routesOfBinding b)"
    using ok by (auto simp: registryOk_def)
  then obtain d where d: "d \<in> set (mfCapabilities (bnManifest b))" "operationKey i v = descriptorKey d" "route = bindingRoute b d"
    by (auto simp: routesOfBinding_def)
  have acc: "provider = mfProvider (bnManifest b) \<and> acceptedBinding validManifest profile b"
    using ok b(1) by (auto simp: registryOk_def)
  have rd [simp]: "rtDescriptor (bindingRoute b d) = d" by (simp add: bindingRoute_def)
  have "validateCapabilityDescriptorSemantics d = []" using acc d(1) by (simp add: acceptedBinding_def)
  then show ?thesis using acc b(1) d exec operationKey_named [of d i v] by auto
qed

lemma register_keeps: "register validManifest profile reg b = Inr reg' \<Longrightarrow>
    map_of (rgRoutes reg) k = Some route \<Longrightarrow> map_of (rgRoutes reg') k = Some route"
  by (auto simp: register_run map_add_def split: option.split)

lemma catalog_complete: "mset (catalog reg) = mset (map (\<lambda>(key, route). rtDescriptor route) (rgRoutes reg))"
  by (simp add: catalog_def)

end
