(* ===== verification/PlanValidator.thy ===== *)
theory PlanValidator
  imports
  CapabilityRegistry
  "HOL-Library.AList"
begin

text \<open>
  The validation of a world query before it runs, \<open>world-capability-gateway/src/query-plan-validation.ts\<close>: policy,
  principal and security fields, the registry lock of every operation, typed ports between nodes, target paths,
  and the order of execution.

  \<open>contractValid\<close> stands for the JSON-schema validation of a submission, the bundle of schema hashes is generated
  data, and \<open>parseDate\<close> is \<open>Date.parse\<close>.  The details of an error are left out.
\<close>

section \<open>Data\<close>

record gateway_principal =
  gpRef :: js_string
  gpMethod :: js_string
  gpAuthenticatedAt :: js_string
  gpDataScope :: "js_string option"
  gpDatasetScope :: "js_string option"
  gpAllowExperimental :: "bool option"

record query_submission =
  sbRequestId :: js_string
  sbIdempotencyKey :: js_string
  sbParameterHash :: js_string
  sbParameters :: "int json"
  sbPlan :: query_plan

definition DEFAULT_QUERY_PLAN_POLICY :: plan_budgets where
  "DEFAULT_QUERY_PLAN_POLICY = \<lparr>nbRows = 1000000, nbCandidates = 5000000, nbBytes = 128000000, nbMs = 300000,
     qbNodes = 64, qbDepth = 32\<rparr>"

text \<open>The generated bundle: the documents an alias names, and the hash of a document.\<close>

record contract_bundle =
  cbAliases :: "js_string \<Rightarrow> js_string list"
  cbHashes :: "js_string \<Rightarrow> js_string option"

record plan_validator =
  pvRegistry :: registry
  pvPolicy :: plan_budgets
  pvSchemaLock :: "js_string \<Rightarrow> js_string option"
  pvBundle :: contract_bundle
  pvContract :: "query_submission \<Rightarrow> bool"
  pvParseDate :: "js_string \<Rightarrow> int option"

record validated_plan =
  vpSubmission :: query_submission
  vpOrdered :: "plan_node list"
  vpRoutes :: "js_string \<rightharpoonup> capability_route"
  vpDependencies :: "(js_string \<times> js_string list) list"

datatype plan_failure =
    ContractMismatch
  | SemanticsInvalid "plan_issue list"
  | PrincipalRequired
  | SecurityField
  | OverPolicy
  | RegistryFailure registry_error
  | OperationLockDiffers
  | SchemaHashDiffers
  | SchemaLockDiffers
  | SchemaUnknown
  | DataScopeClaimMissing
  | DatasetScopeClaimMissing
  | SnapshotUnsupported
  | OverProviderPolicy
  | TargetPathForbidden
  | TargetPathUnrooted
  | TargetPathTooDeep
  | TargetPathUnsafe
  | TargetPathsConflict
  | PortIncompatible
  | SourceUnknown
  | OutputPortUnknown
  | OutputPathDiffers
  | ReferenceKindIncompatible
  | CandidateForExact
  | CellSetForGeometry
  | DegreesAsDistance
  | EnvelopeRequired
  | PlanCycle "js_string list"
  | NodeLost

section \<open>Schema hashes\<close>

definition isDigestText :: "js_string \<Rightarrow> bool" where
  "isDigestText s \<longleftrightarrow> take 7 s = js ''sha256:'' \<and> length s = 71 \<and>
     list_all (\<lambda>u. (48 \<le> u \<and> u \<le> 57) \<or> (97 \<le> u \<and> u \<le> 102)) (drop 7 s)"

text \<open>\<open>None\<close> when the code throws.\<close>

definition getContractSchemaHash :: "contract_bundle \<Rightarrow> js_string \<Rightarrow> js_string option" where
  "getContractSchemaHash bundle nameOrId = (case cbAliases bundle nameOrId of
     [document] \<Rightarrow> (case cbHashes bundle document of
         None \<Rightarrow> None | Some hash \<Rightarrow> if isDigestText hash then Some hash else None)
   | _ \<Rightarrow> None)"

definition sourceByteSchemaHashes :: "(js_string \<times> js_string) list" where
  "sourceByteSchemaHashes = map (\<lambda>(u, h). (js ''urn:gowm:'' @ js u, js ''sha256:'' @ js h))
     [(''v0.5:network-build-request'', ''763a2c6eb01323275c7c30c5a84891018424ceec43d4021ee3db4cdd7db774b4''),
      (''v0.5:network-build-result'', ''be1fbd02ea7c8c826c910dbbf742bde188ac19037acc419490f1529219dbbe57''),
      (''v0.5:network-common'', ''1f35b48d91d8138e3a52762e9fdfb9ee21a97980b43fb6bf15126cd8faae149c''),
      (''v0.5:network-condition-snapshot'', ''9b29c7dcbe62aa90321576389fd698fff74debd1932d52d4cee4a83a25d75d89''),
      (''v0.5:network-cost-matrix-request'', ''6dc75cdca2990e8239dd060f1d93bed26959d37ab32507fbc96d92844bda0a55''),
      (''v0.5:network-cost-matrix-result'', ''058346014c99499e53b6b58a2509ef1308c321aad10e4a2525991678824e68f7''),
      (''v0.5:network-graph-version'', ''947f7f3d6a35b8e3bda52722b16f7e42dc612820c12fbd6a3b1af855dd35411c''),
      (''v0.5:provider-manifest-extension'', ''4c641c6be9ac763744ddb309402cc1e60f28a49060f92280c768fd87259ba2d9''),
      (''v0.5:network-shortest-path-request'', ''b1bed7cd90744523d035567b0fbae0382a8fddc014728fef93158cadbdc48355''),
      (''v0.5:network-shortest-path-result'', ''c4bc84c55f7f67266f99ee799bb8c826d45df2d80ff9ad902e8d1a5669db7794''),
      (''v0.5:network-snap-request'', ''d63fe16bae3534403a320abd21c79d98c9d6914c694cbe810d6773913cf084cb''),
      (''v0.5:network-snap-result'', ''e606e231164ceecdece02310395b6b4742ab45b92d8a9713f196b1779dc257fd''),
      (''v0.5:route-planning-request'', ''0cdee0b4a503099aef05e738a323ae57414c7f0c9cdba7997f86e89ed045da67''),
      (''v0.5:route-planning-result'', ''e45253b2c53dfe6d40be0bdbc7cf4c33fb5d9500bff3363da2ee27da96418f8c''),
      (''v0.5:route-verification-report'', ''76477a2cf770bb5a72208882aa841ac7b13f60e0516a4726ff265efcbdbea8bd''),
      (''v0.6:road-coverage-request'', ''01a1ff79cfdb0277f25e500c4fd6662564e25e15ad03be7f241d03047cc2100e''),
      (''v0.6:coverage-validation-result'', ''f8df6f34dca1ffeab2dcbca60be2dfecc408a3312b359816fc16be4ca125f55a''),
      (''v0.6:coverage-obligation-set'', ''f453949199ebdf7eea944c5eac3fbff95bfc52cdb0f8a33abecb38fe6448cbbe''),
      (''v0.6:coverage-result-set'', ''6780705366b28bf95ee1868b48587839f50acbe5aa950b3ed256b7d64bd30c50''),
      (''v0.6:coverage-verification-request'', ''f8f242440dbb82ea5790ae163455a838d53da451e0481fa36c2b111c423dfcfa''),
      (''v0.6:coverage-verification-report'', ''56063206dc0164bd273a69784a4cc91a9211130f7f71aa2dbbf776cbe20f9584''),
      (''v0.6:coverage-expand-request'', ''64f0a1a67d9802a0d41f087f3482158ba7bafa5722dd94cda5314786beb24f37''),
      (''v0.6:coverage-geojson-result'', ''e5c8b4845f9f0717750adb2b5f1b0303f00fd302c1cb962a0336af37474c1b0b'')]"

definition isContractSchemaHash :: "contract_bundle \<Rightarrow> js_string \<Rightarrow> js_string \<Rightarrow> bool option" where
  "isContractSchemaHash bundle nameOrId digest = (case getContractSchemaHash bundle nameOrId of
     None \<Rightarrow> None | Some hash \<Rightarrow> Some (hash = digest \<or> map_of sourceByteSchemaHashes nameOrId = Some digest))"

definition assertCanonicalSchema :: "plan_validator \<Rightarrow> js_string \<Rightarrow> js_string \<Rightarrow> plan_failure + unit" where
  "assertCanonicalSchema v uri hash = (case isContractSchemaHash (pvBundle v) uri hash of
     Some agrees \<Rightarrow> ensureR agrees SchemaHashDiffers
   | None \<Rightarrow> (case pvSchemaLock v uri of
       Some configured \<Rightarrow> ensureR (hash = configured) SchemaLockDiffers
     | None \<Rightarrow> Inl SchemaUnknown))"

section \<open>Security fields\<close>

definition RESERVED_SECURITY_KEYS :: "js_string list" where
  "RESERVED_SECURITY_KEYS = [js ''securitycontext'', js ''principalref'', js ''authenticationmethod'', js ''scopeattestation'',
     js ''datascopeclaim'', js ''datasetscopeclaim'', js ''gatewaycontext'', js ''gatewayid'', js ''allowexperimental'']"

definition UNSAFE_TARGET_SEGMENTS :: "js_string list" where
  "UNSAFE_TARGET_SEGMENTS = [js ''__proto__'', js ''prototype'', js ''constructor'']"

definition isReservedKey :: "js_string \<Rightarrow> bool" where
  "isReservedKey key \<longleftrightarrow> lowerCase key \<in> set RESERVED_SECURITY_KEYS"

fun hasSecurityClaim :: "int json \<Rightarrow> bool" where
  "hasSecurityClaim (JArr items) = list_ex hasSecurityClaim items"
| "hasSecurityClaim (JObj entries) = list_ex (\<lambda>(key, child). isReservedKey key \<or> hasSecurityClaim child) entries"
| "hasSecurityClaim v = False"

definition assertNoSecurityClaims :: "int json \<Rightarrow> plan_failure + unit" where
  "assertNoSecurityClaims v = ensureR (\<not> hasSecurityClaim v) SecurityField"

section \<open>The plan as a document\<close>

definition portJson :: "'a schema_port_scheme \<Rightarrow> int json" where
  "portJson p = JObj [(js ''schemaUri'', JStr (spUri p)), (js ''schemaHash'', JStr (spHash p)),
     (js ''valueKind'', JStr (case spKind p of ANY \<Rightarrow> js ''ANY'' | SCALAR \<Rightarrow> js ''SCALAR'' | POSITION \<Rightarrow> js ''POSITION''
        | POSITIONS \<Rightarrow> js ''POSITIONS'' | GEOMETRY \<Rightarrow> js ''GEOMETRY'' | FEATURE \<Rightarrow> js ''FEATURE''
        | FEATURE_COLLECTION \<Rightarrow> js ''FEATURE_COLLECTION'' | H3_CELL \<Rightarrow> js ''H3_CELL'' | H3_CELL_SET \<Rightarrow> js ''H3_CELL_SET''
        | REFERENCE_KEY_VALUE \<Rightarrow> js ''REFERENCE_KEY'' | DATASET_VERSION_VALUE \<Rightarrow> js ''DATASET_VERSION''
        | ROW_SET \<Rightarrow> js ''ROW_SET'' | ARTIFACT_VALUE \<Rightarrow> js ''ARTIFACT_REFERENCE'')),
     (js ''unitSemantics'', JStr (case spUnit p of UNSPECIFIED \<Rightarrow> js ''UNSPECIFIED'' | DIMENSIONLESS \<Rightarrow> js ''DIMENSIONLESS''
        | ANGULAR_DEGREES \<Rightarrow> js ''ANGULAR_DEGREES'' | LINEAR_METERS \<Rightarrow> js ''LINEAR_METERS'' | DISCRETE \<Rightarrow> js ''DISCRETE''))]"

definition bindingEntries :: "string \<Rightarrow> 'a port_binding_scheme \<Rightarrow> (js_string \<times> int json) list" where
  "bindingEntries kind b = [(js ''kind'', JStr (js kind)), (js ''port'', portJson (pbPort b))] @
     optionalEntry ''targetPath'' (map_option JStr (pbTarget b))"

definition nodeOutputJson :: "node_output \<Rightarrow> int json" where
  "nodeOutputJson b = JObj (bindingEntries ''NODE_OUTPUT'' b @ [(js ''nodeId'', JStr (noNode b)), (js ''outputPort'', JStr (noPort b))] @
     optionalEntry ''path'' (map_option JStr (noPath b)))"

fun bindingJson :: "input_binding \<Rightarrow> int json" where
  "bindingJson (LITERAL b v) = JObj (bindingEntries ''LITERAL'' b @ [(js ''value'', v)])"
| "bindingJson (REQUEST_PATH b p) = JObj (bindingEntries ''REQUEST_PATH'' b @ [(js ''path'', JStr p)])"
| "bindingJson (NODE_OUTPUT b) = nodeOutputJson b"
| "bindingJson (REFERENCE_KEY b r) = JObj (bindingEntries ''REFERENCE_KEY'' b @ [(js ''referenceKey'', JObj
     [(js ''namespace'', JStr (refNamespace r)), (js ''kind'', JStr (refKind r)), (js ''id'', JStr (refId r)), (js ''version'', JStr (refVersion r))])])"
| "bindingJson (DATASET_VERSION b d v) = JObj (bindingEntries ''DATASET_VERSION'' b @ [(js ''datasetId'', JStr d), (js ''version'', JStr v)])"
| "bindingJson (ARTIFACT_REFERENCE b a d) = JObj (bindingEntries ''ARTIFACT_REFERENCE'' b @ [(js ''artifactId'', JStr a), (js ''digest'', JStr d)])"

fun requiredStatusText :: "required_status \<Rightarrow> js_string" where
  "requiredStatusText REQUIRE_COMPLETED = js ''COMPLETED''"
| "requiredStatusText REQUIRE_PARTIAL = js ''PARTIAL''"
| "requiredStatusText REQUIRE_NO_DATA = js ''NO_DATA''"

fun preconditionJson :: "precondition \<Rightarrow> int json" where
  "preconditionJson (NODE_STATUS n ss) = JObj [(js ''kind'', JStr (js ''NODE_STATUS'')), (js ''nodeId'', JStr n),
     (js ''statuses'', JArr (map (\<lambda>s. JStr (requiredStatusText s)) ss))]"
| "preconditionJson (VALUE_PRESENT b) = JObj [(js ''kind'', JStr (js ''VALUE_PRESENT'')), (js ''binding'', bindingJson b)]"
| "preconditionJson (VALUE_EQUALS b v) = JObj [(js ''kind'', JStr (js ''VALUE_EQUALS'')), (js ''binding'', bindingJson b), (js ''value'', v)]"

definition budgetEntries :: "'a node_budget_scheme \<Rightarrow> (js_string \<times> int json) list" where
  "budgetEntries b = [(js ''maximumRows'', JNum (nbRows b)), (js ''maximumCandidates'', JNum (nbCandidates b)),
     (js ''maximumOutputBytes'', JNum (nbBytes b)), (js ''maximumExecutionMs'', JNum (nbMs b))]"

definition nodeJson :: "plan_node \<Rightarrow> int json" where
  "nodeJson n = JObj ([(js ''nodeId'', JStr (pnId n)),
     (js ''operation'', JObj [(js ''operationId'', JStr (orId (pnOperation n))), (js ''operationVersion'', JStr (orVersion (pnOperation n))),
        (js ''inputSchemaHash'', JStr (orInputHash (pnOperation n))), (js ''outputSchemaHash'', JStr (orOutputHash (pnOperation n)))]),
     (js ''inputs'', JObj (map (\<lambda>(name, b). (name, bindingJson b)) (pnInputs n))),
     (js ''failurePolicy'', JStr (case pnPolicy n of FAIL_FAST \<Rightarrow> js ''FAIL_FAST'' | ALLOW_PARTIAL \<Rightarrow> js ''ALLOW_PARTIAL''
        | SKIP_IF_PRECONDITION_FALSE \<Rightarrow> js ''SKIP_IF_PRECONDITION_FALSE'')),
     (js ''budget'', JObj (budgetEntries (pnBudget n)))] @
     (if pnPreconditions n = [] then [] else [(js ''preconditions'', JArr (map preconditionJson (pnPreconditions n)))]))"

definition planJson :: "query_plan \<Rightarrow> int json" where
  "planJson p = JObj [(js ''queryPlanVersion'', JStr (js ''2.0'')), (js ''queryId'', JStr (qpId p)),
     (js ''nodes'', JArr (map nodeJson (qpNodes p))),
     (js ''outputs'', JArr (map (\<lambda>(name, b). JObj [(js ''name'', JStr name), (js ''binding'', nodeOutputJson b)]) (qpOutputs p))),
     (js ''budgets'', JObj (budgetEntries (qpBudgets p) @
        [(js ''maximumNodes'', JNum (qbNodes (qpBudgets p))), (js ''maximumDepth'', JNum (qbDepth (qpBudgets p)))]))]"

section \<open>The checks of one node\<close>

definition assertPrincipal :: "plan_validator \<Rightarrow> gateway_principal \<Rightarrow> plan_failure + unit" where
  "assertPrincipal v p = ensureR (\<not> (isBlank (gpRef p) \<or> isBlank (gpMethod p) \<or> pvParseDate v (gpAuthenticatedAt p) = None)) PrincipalRequired"

definition assertSystemBudgets :: "plan_validator \<Rightarrow> query_submission \<Rightarrow> plan_failure + unit" where
  "assertSystemBudgets v s = (let requested = qpBudgets (sbPlan s); policy = pvPolicy v in
     ensureR (\<not> (qbNodes requested > qbNodes policy \<or> qbDepth requested > qbDepth policy \<or>
       list_ex (\<lambda>b. budgetOf b requested > budgetOf b policy) BUDGET_NAMES)) OverPolicy)"

definition resolveNode :: "plan_validator \<Rightarrow> gateway_principal \<Rightarrow> plan_node \<Rightarrow> plan_failure + capability_route" where
  "resolveNode v p n = map_sum RegistryFailure id
     (resolve (pvRegistry v) (orId (pnOperation n)) (orVersion (pnOperation n)) (gpAllowExperimental p = Some True))"

definition assertOperationLock :: "plan_validator \<Rightarrow> plan_node \<Rightarrow> descriptor \<Rightarrow> plan_failure + unit" where
  "assertOperationLock v n d =
     bindR (ensureR (\<not> (orInputHash (pnOperation n) \<noteq> cdInputHash d \<or> orOutputHash (pnOperation n) \<noteq> cdOutputHash d)) OperationLockDiffers) (\<lambda>_.
     bindR (assertCanonicalSchema v (cdInputUri d) (cdInputHash d)) (\<lambda>_. assertCanonicalSchema v (cdOutputUri d) (cdOutputHash d)))"

definition assertScope :: "descriptor \<Rightarrow> gateway_principal \<Rightarrow> plan_failure + unit" where
  "assertScope d p =
     bindR (ensureR (\<not> (cdScope d = DATA_SCOPE_REQUIRED \<and> (case gpDataScope p of None \<Rightarrow> True | Some c \<Rightarrow> isBlank c))) DataScopeClaimMissing) (\<lambda>_.
     ensureR (\<not> (cdScope d = DATASET_SCOPE_REQUIRED \<and> (case gpDatasetScope p of None \<Rightarrow> True | Some c \<Rightarrow> isBlank c))) DatasetScopeClaimMissing)"

definition assertSnapshotSupport :: "descriptor \<Rightarrow> plan_failure + unit" where
  "assertSnapshotSupport d = ensureR (\<not> (worldBound d \<and> cdDataSnapshot d = SNAPSHOT_NONE)) SnapshotUnsupported"

definition assertNodeBudget :: "plan_node \<Rightarrow> descriptor \<Rightarrow> plan_failure + unit" where
  "assertNodeBudget n d = ensureR
     (\<not> list_ex (\<lambda>(requested, allowed). case allowed of None \<Rightarrow> False | Some limit \<Rightarrow> requested > limit)
       [(nbRows (pnBudget n), cdMaximumRows d), (nbCandidates (pnBudget n), cdMaximumCandidates d),
        (nbBytes (pnBudget n), cdMaximumBytes d), (nbMs (pnBudget n), Some (cdMaximumTimeout d))]) OverProviderPolicy"

definition assertPortEqual :: "'a schema_port_scheme \<Rightarrow> 'b schema_port_scheme \<Rightarrow> plan_failure + unit" where
  "assertPortEqual actual expected = ensureR (\<not> (spUri actual \<noteq> spUri expected \<or> spHash actual \<noteq> spHash expected \<or>
     spKind actual \<noteq> spKind expected \<or> spUnit actual \<noteq> spUnit expected)) PortIncompatible"

section \<open>Target paths\<close>

definition targetPathSegments :: "js_string \<Rightarrow> plan_failure + js_string list" where
  "targetPathSegments path = (case path of [] \<Rightarrow> Inl TargetPathUnrooted
     | c # rest \<Rightarrow> if c = SLASH then Inr (map unescapeSegment (splitAt SLASH rest)) else Inl TargetPathUnrooted)"

definition targetPrefix :: "js_string list \<Rightarrow> js_string list \<Rightarrow> bool" where
  "targetPrefix left right \<longleftrightarrow>
     length left \<le> length right \<and> list_all (\<lambda>(index, segment). right ! index = segment) (List.enumerate 0 left)"

definition checkedTarget :: "js_string \<times> input_binding \<Rightarrow> plan_failure + js_string list" where
  "checkedTarget input =
     (let path = (case pbTarget (portBinding (snd input)) of None \<Rightarrow> SLASH # fst input | Some p \<Rightarrow> p) in
      bindR (targetPathSegments path) (\<lambda>segments.
      bindR (ensureR (\<not> length segments > 8) TargetPathTooDeep) (\<lambda>_.
      bindR (ensureR (\<not> list_ex (\<lambda>segment. lowerCase segment \<in> set UNSAFE_TARGET_SEGMENTS \<or> lowerCase segment \<in> set RESERVED_SECURITY_KEYS) segments)
        TargetPathUnsafe) (\<lambda>_. Inr segments))))"

fun targetsConflict :: "js_string list list \<Rightarrow> bool" where
  "targetsConflict [] = False"
| "targetsConflict (a # bs) = (list_ex (\<lambda>b. targetPrefix a b \<or> targetPrefix b a) bs \<or> targetsConflict bs)"

definition assertTargetPaths :: "(js_string \<times> input_binding) list \<Rightarrow> bool \<Rightarrow> plan_failure + unit" where
  "assertTargetPaths entries whole =
     (if whole then ensureR (case entries of [] \<Rightarrow> True | e # _ \<Rightarrow> pbTarget (portBinding (snd e)) = None) TargetPathForbidden
      else bindR (mapR checkedTarget entries) (\<lambda>targets. ensureR (\<not> targetsConflict targets) TargetPathsConflict))"

section \<open>Bindings\<close>

text \<open>\<open>routes.get(id) ?? registry.resolve(...)\<close>\<close>

definition sourceRoute ::
  "plan_validator \<Rightarrow> gateway_principal \<Rightarrow> (js_string \<rightharpoonup> capability_route) \<Rightarrow> plan_node \<Rightarrow> js_string \<Rightarrow> plan_failure + capability_route" where
  "sourceRoute v p routes n i = (case routes i of Some route \<Rightarrow> Inr route | None \<Rightarrow> resolveNode v p n)"

definition assertControlledOutputBinding ::
  "plan_validator \<Rightarrow> gateway_principal \<Rightarrow> (js_string \<rightharpoonup> plan_node) \<Rightarrow> (js_string \<rightharpoonup> capability_route) \<Rightarrow> node_output \<Rightarrow>
    plan_failure + capability_port" where
  "assertControlledOutputBinding v p nodes routes b = (case nodes (noNode b) of None \<Rightarrow> Inl SourceUnknown
     | Some n \<Rightarrow> bindR (sourceRoute v p routes n (noNode b)) (\<lambda>route.
         case find (\<lambda>port. cpName port = noPort b) (cdOutputs (rtDescriptor route)) of None \<Rightarrow> Inl OutputPortUnknown
         | Some port \<Rightarrow> bindR (ensureR (noPath b = cpPath port) OutputPathDiffers) (\<lambda>_.
             bindR (assertPortEqual (pbPort b) port) (\<lambda>_. Inr port))))"

definition assertSourceSemantics :: "descriptor \<Rightarrow> descriptor \<Rightarrow> capability_port \<Rightarrow> plan_failure + unit" where
  "assertSourceSemantics sourceDescriptor targetDescriptor port = (case (cdSemantics sourceDescriptor, cdSemantics targetDescriptor) of
     (Some s, Some t) \<Rightarrow>
       bindR (ensureR (\<not> (spKind port = REFERENCE_KEY_VALUE \<and> \<not> list_ex (\<lambda>kind. kind \<in> set (semAccepted t)) (semProduced s)))
         ReferenceKindIncompatible) (\<lambda>_.
       ensureR (\<not> (semSpatial s = CANDIDATE \<and> semSpatial t = EXACT \<and> spKind port \<in> set [H3_CELL_SET, GEOMETRY])) CandidateForExact)
   | _ \<Rightarrow> Inr ())"

definition includesText :: "js_string \<Rightarrow> js_string \<Rightarrow> bool" where
  "includesText s part \<longleftrightarrow> list_ex (\<lambda>i. take (length part) (drop i s) = part) [0..<length s + 1]"

definition wholeRequestBinding :: "plan_node \<Rightarrow> descriptor \<Rightarrow> bool" where
  "wholeRequestBinding n d \<longleftrightarrow> map fst (pnInputs n) = [js ''request''] \<and> map cpName (cdInputs d) = [js ''request'']"

definition assertInput ::
  "plan_validator \<Rightarrow> gateway_principal \<Rightarrow> (js_string \<rightharpoonup> plan_node) \<Rightarrow> (js_string \<rightharpoonup> capability_route) \<Rightarrow> descriptor \<Rightarrow> bool \<Rightarrow>
    js_string \<times> input_binding \<Rightarrow> plan_failure + unit" where
  "assertInput v p nodes routes d whole input = (let (name, b) = input; port = pbPort (portBinding b) in
     bindR (if whole then assertPortEqual port (hd (cdInputs d)) else Inr ()) (\<lambda>_.
     bindR (assertCanonicalSchema v (spUri port) (spHash port)) (\<lambda>_.
     bindR (case nodeOutput b of None \<Rightarrow> Inr ()
       | Some output \<Rightarrow>
           bindR (assertControlledOutputBinding v p nodes routes output) (\<lambda>sourcePort.
           bindR (sourceRoute v p routes (the (nodes (noNode output))) (noNode output)) (\<lambda>route.
           bindR (assertSourceSemantics (rtDescriptor route) d sourcePort) (\<lambda>_.
           ensureR (\<not> (spKind sourcePort = H3_CELL_SET \<and> spKind port = GEOMETRY)) CellSetForGeometry)))) (\<lambda>_.
     ensureR (\<not> (cdId d = js ''geometry.buffer'' \<and> includesText (lowerCase name) (js ''distance'') \<and>
       spUnit port = ANGULAR_DEGREES \<and> \<not> whole)) DegreesAsDistance))))"

definition assertInputPorts ::
  "plan_validator \<Rightarrow> gateway_principal \<Rightarrow> (js_string \<rightharpoonup> plan_node) \<Rightarrow> (js_string \<rightharpoonup> capability_route) \<Rightarrow> plan_node \<Rightarrow> descriptor \<Rightarrow>
    plan_failure + unit" where
  "assertInputPorts v p nodes routes n d = (let whole = wholeRequestBinding n d in
     bindR (assertTargetPaths (pnInputs n) whole) (\<lambda>_.
     bindR (mapR (assertInput v p nodes routes d whole) (pnInputs n)) (\<lambda>_.
     ensureR (\<not> (\<not> whole \<and> length (cdInputs d) \<noteq> 1)) EnvelopeRequired)))"

definition assertPrecondition ::
  "plan_validator \<Rightarrow> gateway_principal \<Rightarrow> (js_string \<rightharpoonup> plan_node) \<Rightarrow> (js_string \<rightharpoonup> capability_route) \<Rightarrow> precondition \<Rightarrow>
    plan_failure + unit" where
  "assertPrecondition v p nodes routes c = (case boundValue c of None \<Rightarrow> Inr ()
     | Some b \<Rightarrow> let port = pbPort (portBinding b) in
         bindR (ensureR (pbTarget (portBinding b) = None) TargetPathForbidden) (\<lambda>_.
         bindR (assertCanonicalSchema v (spUri port) (spHash port)) (\<lambda>_.
         case nodeOutput b of None \<Rightarrow> Inr ()
         | Some output \<Rightarrow> bindR (assertControlledOutputBinding v p nodes routes output) (\<lambda>_. Inr ()))))"

end
