(* ===== verification/PlanOrder.thy ===== *)
theory PlanOrder
  imports
  PlanValidator
begin

text \<open>
  The rest of \<open>world-capability-gateway/src/query-plan-validation.ts\<close>: the dependencies of a node, the order of
  execution and \<open>validate\<close> itself; and what a validated plan promises the runner.
\<close>

section \<open>Dependencies\<close>

definition dependOnBinding :: "js_string list \<Rightarrow> input_binding \<Rightarrow> js_string list" where
  "dependOnBinding found b = (case b of NODE_OUTPUT output \<Rightarrow> addName (noNode output) found | _ \<Rightarrow> found)"

definition dependOnPrecondition :: "js_string list \<Rightarrow> precondition \<Rightarrow> js_string list" where
  "dependOnPrecondition found c = (case c of NODE_STATUS n _ \<Rightarrow> addName n found
     | VALUE_PRESENT b \<Rightarrow> dependOnBinding found b | VALUE_EQUALS b _ \<Rightarrow> dependOnBinding found b)"

definition dependenciesForNode :: "plan_node \<Rightarrow> js_string list" where
  "dependenciesForNode n = foldl dependOnPrecondition (foldl dependOnBinding [] (map snd (pnInputs n))) (pnPreconditions n)"

section \<open>The order of execution\<close>

type_synonym dependency_table = "(js_string \<times> js_string list) list"

text \<open>One node of a round: it is appended, and no longer awaited by the others.\<close>

definition releaseNode ::
  "(js_string \<rightharpoonup> plan_node) \<Rightarrow> plan_node list \<times> dependency_table \<Rightarrow> js_string \<Rightarrow> plan_failure + plan_node list \<times> dependency_table" where
  "releaseNode byId st i = (let (ordered, remaining) = st in case byId i of None \<Rightarrow> Inl NodeLost
     | Some n \<Rightarrow> Inr (ordered @ [n],
         map (\<lambda>(j, awaited). (j, removeAll i awaited)) (filter (\<lambda>(j, awaited). j \<noteq> i) remaining)))"

definition readyNodes :: "plan_node list \<Rightarrow> dependency_table \<Rightarrow> js_string list" where
  "readyNodes nodes remaining = sort_by compareText (filter (\<lambda>i. map_of remaining i = Some []) (map pnId nodes))"

lemma releaseNodes_shrink:
  assumes "foldR (releaseNode byId) (ordered, remaining) ids = Inr (ordered', remaining')"
  shows "length remaining' \<le> length remaining"
  using assms
proof (induction ids arbitrary: ordered remaining)
  case (Cons i ids)
  then obtain o1 r1 where "releaseNode byId (ordered, remaining) i = Inr (o1, r1)"
    "foldR (releaseNode byId) (o1, r1) ids = Inr (ordered', remaining')"
    by (auto simp: bindR_eq_Inr)
  then show ?case using Cons.IH le_trans
    by (fastforce simp: releaseNode_def split: option.splits dest: le_trans [OF _ length_filter_le])
qed simp

lemma releaseReady_shrinks:
  assumes "foldR (releaseNode byId) (ordered, remaining) (readyNodes nodes remaining) = Inr (ordered', remaining')"
    and "readyNodes nodes remaining \<noteq> []"
  shows "length remaining' < length remaining"
proof -
  obtain i ids where ids: "readyNodes nodes remaining = i # ids" using assms(2) by (cases "readyNodes nodes remaining") auto
  then have "i \<in> set (readyNodes nodes remaining)" by simp
  then have "(i, []) \<in> set remaining" by (auto simp: readyNodes_def dest: map_of_SomeD)
  then have "length (filter (\<lambda>(j, awaited). j \<noteq> i) remaining) < length remaining" by (intro length_filter_less) auto
  moreover obtain o1 r1 where "releaseNode byId (ordered, remaining) i = Inr (o1, r1)"
    "foldR (releaseNode byId) (o1, r1) ids = Inr (ordered', remaining')"
    using assms(1) unfolding ids by (auto simp: bindR_eq_Inr)
  ultimately show ?thesis using releaseNodes_shrink [of byId o1 r1 ids ordered' remaining']
    by (auto simp: releaseNode_def split: option.splits)
qed

function topologicalLoop ::
  "plan_node list \<Rightarrow> plan_node list \<Rightarrow> dependency_table \<Rightarrow> plan_failure + plan_node list" where
  "topologicalLoop nodes ordered remaining =
     (if remaining = [] then Inr ordered
      else let ready = readyNodes nodes remaining in
        if ready = [] then Inl (PlanCycle (sort_by compareText (map fst remaining)))
        else bindR (foldR (releaseNode (nodeMap nodes)) (ordered, remaining) ready)
          (\<lambda>st. topologicalLoop nodes (fst st) (snd st)))"
  by pat_completeness auto
termination
  by (relation "measure (\<lambda>(nodes, ordered, remaining). length remaining)") (auto dest: releaseReady_shrinks)

definition topologicalOrder :: "plan_node list \<Rightarrow> dependency_table \<Rightarrow> plan_failure + plan_node list" where
  "topologicalOrder nodes dependencies = topologicalLoop nodes [] dependencies"

section \<open>The validation\<close>

type_synonym plan_tables = "(js_string \<rightharpoonup> capability_route) \<times> dependency_table"

definition validateNode ::
  "plan_validator \<Rightarrow> gateway_principal \<Rightarrow> plan_node list \<Rightarrow> plan_tables \<Rightarrow> plan_node \<Rightarrow> plan_failure + plan_tables" where
  "validateNode v p nodes tables n = (let (routes, dependencies) = tables in
     bindR (resolveNode v p n) (\<lambda>route. let d = rtDescriptor route in
     bindR (assertOperationLock v n d) (\<lambda>_.
     bindR (assertScope d p) (\<lambda>_.
     bindR (assertSnapshotSupport d) (\<lambda>_.
     bindR (assertNodeBudget n d) (\<lambda>_.
     bindR (assertInputPorts v p (nodeMap nodes) routes n d) (\<lambda>_.
     bindR (mapR (assertPrecondition v p (nodeMap nodes) routes) (pnPreconditions n)) (\<lambda>_.
     Inr (routes(pnId n \<mapsto> route), AList.update (pnId n) (dependenciesForNode n) dependencies)))))))))"

definition validateOutput ::
  "plan_validator \<Rightarrow> gateway_principal \<Rightarrow> plan_node list \<Rightarrow> (js_string \<rightharpoonup> capability_route) \<Rightarrow> js_string \<times> node_output \<Rightarrow>
    plan_failure + unit" where
  "validateOutput v p nodes routes output = (let b = snd output in
     bindR (ensureR (pbTarget b = None) TargetPathForbidden) (\<lambda>_.
     bindR (assertControlledOutputBinding v p (nodeMap nodes) routes b) (\<lambda>_.
     assertCanonicalSchema v (spUri (pbPort b)) (spHash (pbPort b)))))"

definition validate :: "plan_validator \<Rightarrow> query_submission \<Rightarrow> gateway_principal \<Rightarrow> plan_failure + validated_plan" where
  "validate v s p = (let plan = sbPlan s; nodes = qpNodes plan; issues = validateWorldQueryPlanSemantics plan in
     bindR (ensureR (pvContract v s) ContractMismatch) (\<lambda>_.
     bindR (ensureR (issues = []) (SemanticsInvalid issues)) (\<lambda>_.
     bindR (assertPrincipal v p) (\<lambda>_.
     bindR (assertNoSecurityClaims (sbParameters s)) (\<lambda>_.
     bindR (assertNoSecurityClaims (planJson plan)) (\<lambda>_.
     bindR (assertSystemBudgets v s) (\<lambda>_.
     bindR (foldR (validateNode v p nodes) (Map.empty, []) nodes) (\<lambda>tables.
     bindR (mapR (validateOutput v p nodes (fst tables)) (qpOutputs plan)) (\<lambda>_.
     bindR (topologicalOrder nodes (snd tables)) (\<lambda>ordered.
     Inr \<lparr>vpSubmission = s, vpOrdered = ordered, vpRoutes = fst tables, vpDependencies = snd tables\<rparr>))))))))))"

declare topologicalLoop.simps [simp del]

section \<open>Every node after those it needs\<close>

lemma set_dependOnBinding:
  "set (dependOnBinding found b) = set found \<union> {d. \<exists>output. nodeOutput b = Some output \<and> noNode output = d}"
  by (cases b) (auto simp: dependOnBinding_def)

lemma set_dependOnPrecondition: "set (dependOnPrecondition found c) = set found \<union>
    {d. (\<exists>s. c = NODE_STATUS d s) \<or> (\<exists>b output. boundValue c = Some b \<and> nodeOutput b = Some output \<and> noNode output = d)}"
  by (cases c) (auto simp: dependOnPrecondition_def set_dependOnBinding)

lemma set_dependOnBindings:
  "set (foldl dependOnBinding found bs) = set found \<union> {d. \<exists>b \<in> set bs. \<exists>output. nodeOutput b = Some output \<and> noNode output = d}"
  by (induction bs arbitrary: found) (auto simp: set_dependOnBinding)

lemma set_dependOnPreconditions: "set (foldl dependOnPrecondition found cs) = set found \<union>
    {d. \<exists>c \<in> set cs. (\<exists>s. c = NODE_STATUS d s) \<or> (\<exists>b output. boundValue c = Some b \<and> nodeOutput b = Some output \<and> noNode output = d)}"
  by (induction cs arbitrary: found) (auto simp: set_dependOnPrecondition)

lemma dependenciesForNode_needs: "d \<in> set (dependenciesForNode n) \<longleftrightarrow> needs n d"
  unfolding dependenciesForNode_def needs_def set_dependOnBindings set_dependOnPreconditions by simp

definition executionOrder :: "plan_node list \<Rightarrow> plan_node list \<Rightarrow> bool" where
  "executionOrder nodes ordered \<longleftrightarrow> mset ordered = mset nodes \<and>
     (\<forall>k < length ordered. \<forall>d. needs (ordered ! k) d \<longrightarrow> (\<exists>j < k. pnId (ordered ! j) = d))"

definition dependenciesFirst :: "plan_node list \<Rightarrow> bool" where
  "dependenciesFirst ordered \<longleftrightarrow>
     (\<forall>k < length ordered. set (dependenciesForNode (ordered ! k)) \<subseteq> pnId ` set (take k ordered))"

lemma dependenciesFirst_snoc:
  "dependenciesFirst (ordered @ [n]) \<longleftrightarrow> dependenciesFirst ordered \<and> set (dependenciesForNode n) \<subseteq> pnId ` set ordered"
  unfolding dependenciesFirst_def by (auto simp: less_Suc_eq nth_append all_conj_distrib)

text \<open>What is still awaited once the nodes in \<open>finished\<close> are ordered.\<close>

definition awaitedOf :: "plan_node list \<Rightarrow> js_string list \<Rightarrow> dependency_table" where
  "awaitedOf nodes finished = map (\<lambda>n. (pnId n, filter (\<lambda>d. d \<notin> set finished) (dependenciesForNode n)))
     (filter (\<lambda>n. pnId n \<notin> set finished) nodes)"

lemma nodeMap_known: "distinct (map pnId nodes) \<Longrightarrow> nodeMap nodes i = Some n \<longleftrightarrow> n \<in> set nodes \<and> pnId n = i"
  unfolding nodeMap_def rev_map [symmetric] by (subst map_of_eq_Some_iff) (auto simp: comp_def rev_map [symmetric])

lemma releaseNode_run:
  assumes "distinct (map pnId nodes)" and "n \<in> set nodes"
  shows "releaseNode (nodeMap nodes) (ordered, awaitedOf nodes (map pnId ordered)) (pnId n) =
    Inr (ordered @ [n], awaitedOf nodes (map pnId (ordered @ [n])))"
proof -
  have "nodeMap nodes (pnId n) = Some n" using assms by (simp add: nodeMap_known)
  then show ?thesis
    by (auto simp: releaseNode_def awaitedOf_def filter_map comp_def removeAll_filter_not_eq intro!: map_cong filter_cong)
qed

lemma releaseNodes_run:
  assumes "distinct (map pnId nodes)" and "distinct ids" and "dependenciesFirst ordered"
    and "\<And>i. i \<in> set ids \<Longrightarrow> \<exists>n \<in> set nodes. pnId n = i \<and> i \<notin> pnId ` set ordered \<and>
      set (dependenciesForNode n) \<subseteq> pnId ` set ordered"
  shows "\<exists>ns. map pnId ns = ids \<and> set ns \<subseteq> set nodes \<and> dependenciesFirst (ordered @ ns) \<and>
    foldR (releaseNode (nodeMap nodes)) (ordered, awaitedOf nodes (map pnId ordered)) ids =
      Inr (ordered @ ns, awaitedOf nodes (map pnId (ordered @ ns)))"
  using assms(2-)
proof (induction ids arbitrary: ordered)
  case Nil
  then show ?case by (intro exI [of _ "[]"]) simp
next
  case (Cons i ids)
  obtain n where n: "n \<in> set nodes" "pnId n = i" "set (dependenciesForNode n) \<subseteq> pnId ` set ordered"
    using Cons.prems(3) [of i] by auto
  have first: "dependenciesFirst (ordered @ [n])" using Cons.prems(2) n(3) by (simp add: dependenciesFirst_snoc)
  have later: "\<exists>m \<in> set nodes. pnId m = j \<and> j \<notin> pnId ` set (ordered @ [n]) \<and>
      set (dependenciesForNode m) \<subseteq> pnId ` set (ordered @ [n])" if "j \<in> set ids" for j
    using Cons.prems(3) [of j] that Cons.prems(1) n(2) by fastforce
  obtain ns where ns: "map pnId ns = ids" "set ns \<subseteq> set nodes" "dependenciesFirst ((ordered @ [n]) @ ns)"
    "foldR (releaseNode (nodeMap nodes)) (ordered @ [n], awaitedOf nodes (map pnId (ordered @ [n]))) ids =
      Inr ((ordered @ [n]) @ ns, awaitedOf nodes (map pnId ((ordered @ [n]) @ ns)))"
    using Cons.IH [OF _ first later] Cons.prems(1) by auto
  then show ?case using n releaseNode_run [OF assms(1) n(1), of ordered]
    by (intro exI [of _ "n # ns"]) simp
qed

lemma awaitedOf_keys: "fst ` set (awaitedOf nodes finished) = pnId ` set nodes - set finished"
  by (auto simp: awaitedOf_def image_image)

lemma map_of_awaited:
  assumes "distinct (map pnId nodes)" and "n \<in> set nodes" and "pnId n \<notin> set finished"
  shows "map_of (awaitedOf nodes finished) (pnId n) = Some (filter (\<lambda>d. d \<notin> set finished) (dependenciesForNode n))"
proof -
  have "distinct (map fst (awaitedOf nodes finished))"
    using assms(1) by (simp add: awaitedOf_def comp_def distinct_map_filter)
  then show ?thesis using assms(2,3) by (auto simp: map_of_eq_Some_iff awaitedOf_def)
qed

lemma readyNodes_set:
  assumes "distinct (map pnId nodes)"
  shows "i \<in> set (readyNodes nodes (awaitedOf nodes finished)) \<longleftrightarrow>
    (\<exists>n \<in> set nodes. pnId n = i \<and> i \<notin> set finished \<and> set (dependenciesForNode n) \<subseteq> set finished)"
proof -
  have "map_of (awaitedOf nodes finished) (pnId n) = Some [] \<longleftrightarrow> pnId n \<notin> set finished \<and> set (dependenciesForNode n) \<subseteq> set finished"
    if "n \<in> set nodes" for n
  proof (cases "pnId n \<in> set finished")
    case True
    then have "map_of (awaitedOf nodes finished) (pnId n) = None" unfolding map_of_eq_None_iff awaitedOf_keys by simp
    then show ?thesis using True by simp
  next
    case False
    then show ?thesis using map_of_awaited [OF assms that False] by (auto simp: filter_empty_conv)
  qed
  then show ?thesis by (auto simp: readyNodes_def)
qed

lemma needs_dependsOn:
  assumes "distinct (map pnId nodes)" and "n \<in> set nodes" and "needs n d" and "d \<in> pnId ` set nodes"
  shows "(d, pnId n) \<in> dependsOn nodes"
proof -
  have "dependencyMap nodes (pnId n) = Some (nodeDependencies n)"
    unfolding dependencyMap_def rev_map [symmetric]
    by (subst map_of_eq_Some_iff) (use assms(1,2) in \<open>auto simp: comp_def rev_map [symmetric]\<close>)
  then show ?thesis using assms(3,4) nodeMap_None [of nodes d] by (auto simp: dependsOn_def nodeDependencies_needs)
qed

text \<open>While something is awaited, something is ready: a node below which nothing is awaited.\<close>

lemma some_ready:
  assumes "distinct (map pnId nodes)" and "acyclic (dependsOn nodes)"
    and known: "\<And>n d. n \<in> set nodes \<Longrightarrow> needs n d \<Longrightarrow> d \<in> pnId ` set nodes"
    and "awaitedOf nodes finished \<noteq> []"
  shows "readyNodes nodes (awaitedOf nodes finished) \<noteq> []"
proof -
  let ?open = "pnId ` set nodes - set finished"
  have "dependsOn nodes \<subseteq> pnId ` set nodes \<times> pnId ` set nodes" using dependsOn_nodes by auto
  then have "wf (dependsOn nodes)" using assms(2) by (intro finite_acyclic_wf finite_subset [of "dependsOn nodes"]) auto
  moreover have "?open \<noteq> {}" unfolding awaitedOf_keys [symmetric] using assms(4) by simp
  then obtain i where "i \<in> ?open" by blast
  ultimately obtain x where x: "x \<in> ?open" "\<And>y. (y, x) \<in> dependsOn nodes \<Longrightarrow> y \<notin> ?open"
    by (rule wfE_min) blast
  then obtain n where n: "n \<in> set nodes" "pnId n = x" by auto
  have "d \<in> set finished" if "d \<in> set (dependenciesForNode n)" for d
  proof -
    have needed: "needs n d" using that by (simp add: dependenciesForNode_needs)
    then have "(d, x) \<in> dependsOn nodes" using known [OF n(1) needed] n assms(1) needs_dependsOn by blast
    then show ?thesis using x(2) known [OF n(1) needed] by blast
  qed
  then have "x \<in> set (readyNodes nodes (awaitedOf nodes finished))"
    using readyNodes_set [OF assms(1)] n x(1) by blast
  then show ?thesis by force
qed

text \<open>So the rounds end with every node ordered, after those it needs.\<close>

lemma topologicalLoop_orders:
  assumes "distinct (map pnId nodes)" and "acyclic (dependsOn nodes)"
    and "\<And>n d. n \<in> set nodes \<Longrightarrow> needs n d \<Longrightarrow> d \<in> pnId ` set nodes"
    and "set ordered \<subseteq> set nodes" and "distinct (map pnId ordered)" and "dependenciesFirst ordered"
  shows "\<exists>result. topologicalLoop nodes ordered (awaitedOf nodes (map pnId ordered)) = Inr result \<and>
    mset result = mset nodes \<and> dependenciesFirst result"
  using assms(4-)
proof (induction "card (set nodes - set ordered)" arbitrary: ordered rule: less_induct)
  case less
  let ?awaited = "awaitedOf nodes (map pnId ordered)"
  show ?case
  proof (cases "?awaited = []")
    case True
    then have "pnId ` set nodes \<subseteq> pnId ` set ordered" using awaitedOf_keys [of nodes "map pnId ordered"] by simp
    then have "set nodes \<subseteq> set ordered"
      using less.prems(1) assms(1) by (auto simp: distinct_map dest: inj_onD)
    then have "mset ordered = mset nodes" using less.prems(1,2) assms(1)
      by (intro set_eq_iff_mset_eq_distinct [THEN iffD1]) (auto simp: distinct_map)
    then show ?thesis using True less.prems(3) by (subst topologicalLoop.simps) simp
  next
    case False
    let ?ready = "readyNodes nodes ?awaited"
    have some: "?ready \<noteq> []" by (rule some_ready [OF assms(1-3) False])
    have ready: "\<exists>n \<in> set nodes. pnId n = i \<and> i \<notin> pnId ` set ordered \<and> set (dependenciesForNode n) \<subseteq> pnId ` set ordered"
      if "i \<in> set ?ready" for i
      using that readyNodes_set [OF assms(1)] by auto
    have dist: "distinct ?ready" using assms(1) by (simp add: readyNodes_def)
    obtain ns where ns: "map pnId ns = ?ready" "set ns \<subseteq> set nodes" "dependenciesFirst (ordered @ ns)"
      "foldR (releaseNode (nodeMap nodes)) (ordered, ?awaited) ?ready =
        Inr (ordered @ ns, awaitedOf nodes (map pnId (ordered @ ns)))"
      using releaseNodes_run [OF assms(1) dist less.prems(3) ready] by blast
    have fresh: "pnId ` set ns \<inter> pnId ` set ordered = {}"
      using ready ns(1) by (metis (no_types, lifting) disjoint_iff set_map)
    obtain n where n: "n \<in> set ns" using some ns(1) by (cases ns) auto
    have "card (set nodes - set (ordered @ ns)) < card (set nodes - set ordered)"
      by (rule psubset_card_mono) (use n ns(2) fresh in auto)
    moreover have "distinct (map pnId (ordered @ ns))" using less.prems(2) dist [folded ns(1)] fresh by auto
    ultimately obtain result where "topologicalLoop nodes (ordered @ ns) (awaitedOf nodes (map pnId (ordered @ ns))) = Inr result"
      "mset result = mset nodes" "dependenciesFirst result"
      using less.hyps [of "ordered @ ns"] less.prems(1) ns(2,3) by auto
    then show ?thesis using False some ns(4) by (subst topologicalLoop.simps) (simp add: Let_def)
  qed
qed

lemma topologicalOrder_orders:
  assumes "distinct (map pnId nodes)" and "acyclic (dependsOn nodes)"
    and "\<And>n d. n \<in> set nodes \<Longrightarrow> needs n d \<Longrightarrow> d \<in> pnId ` set nodes"
  shows "\<exists>ordered. topologicalOrder nodes (map (\<lambda>n. (pnId n, dependenciesForNode n)) nodes) = Inr ordered \<and>
    executionOrder nodes ordered"
proof -
  have "awaitedOf nodes (map pnId []) = map (\<lambda>n. (pnId n, dependenciesForNode n)) nodes"
    by (simp add: awaitedOf_def)
  then obtain ordered where "topologicalOrder nodes (map (\<lambda>n. (pnId n, dependenciesForNode n)) nodes) = Inr ordered"
    "mset ordered = mset nodes" "dependenciesFirst ordered"
    using topologicalLoop_orders [of nodes "[]"] assms by (auto simp: topologicalOrder_def dependenciesFirst_def)
  moreover have "\<exists>j < k. pnId (ordered ! j) = d" if "k < length ordered" "needs (ordered ! k) d" for k d
  proof -
    have "d \<in> pnId ` set (take k ordered)"
      using calculation(3) that dependenciesForNode_needs [of d "ordered ! k"] unfolding dependenciesFirst_def by blast
    then show ?thesis using that(1) by (force simp: in_set_conv_nth)
  qed
  ultimately show ?thesis by (auto simp: executionOrder_def)
qed

section \<open>What every node and output of a validated plan satisfies\<close>

text \<open>The controlled port a binding to a node's output names, with the route of that node.\<close>

definition controlledPort :: "(js_string \<rightharpoonup> capability_route) \<Rightarrow> node_output \<Rightarrow> capability_route \<Rightarrow> capability_port \<Rightarrow> bool" where
  "controlledPort routes b route port \<longleftrightarrow>
     routes (noNode b) = Some route \<and> port \<in> set (cdOutputs (rtDescriptor route)) \<and>
     cpName port = noPort b \<and> cpPath port = noPath b \<and> spUri port = spUri (pbPort b) \<and> spHash port = spHash (pbPort b) \<and>
     spKind port = spKind (pbPort b) \<and> spUnit port = spUnit (pbPort b)"

definition semanticsFit :: "descriptor \<Rightarrow> descriptor \<Rightarrow> value_kind \<Rightarrow> bool" where
  "semanticsFit producer consumer kind \<longleftrightarrow>
     (\<forall>s t. cdSemantics producer = Some s \<longrightarrow> cdSemantics consumer = Some t \<longrightarrow>
       (kind = REFERENCE_KEY_VALUE \<longrightarrow> set (semProduced s) \<inter> set (semAccepted t) \<noteq> {}) \<and>
       (semSpatial s = CANDIDATE \<longrightarrow> semSpatial t = EXACT \<longrightarrow> kind \<notin> {H3_CELL_SET, GEOMETRY}))"

definition withinLimit :: "int \<Rightarrow> int option \<Rightarrow> bool" where
  "withinLimit requested limit \<longleftrightarrow> (\<forall>allowed. limit = Some allowed \<longrightarrow> requested \<le> allowed)"

definition operationAgrees :: "plan_node \<Rightarrow> gateway_principal \<Rightarrow> descriptor \<Rightarrow> bool" where
  "operationAgrees n p d \<longleftrightarrow>
     orInputHash (pnOperation n) = cdInputHash d \<and> orOutputHash (pnOperation n) = cdOutputHash d \<and> length (cdInputs d) = 1 \<and>
     (cdScope d = DATA_SCOPE_REQUIRED \<longrightarrow> (\<exists>c. gpDataScope p = Some c \<and> \<not> isBlank c)) \<and>
     (cdScope d = DATASET_SCOPE_REQUIRED \<longrightarrow> (\<exists>c. gpDatasetScope p = Some c \<and> \<not> isBlank c)) \<and>
     (worldBound d \<longrightarrow> cdDataSnapshot d \<noteq> SNAPSHOT_NONE) \<and>
     withinLimit (nbRows (pnBudget n)) (cdMaximumRows d) \<and> withinLimit (nbCandidates (pnBudget n)) (cdMaximumCandidates d) \<and>
     withinLimit (nbBytes (pnBudget n)) (cdMaximumBytes d) \<and> nbMs (pnBudget n) \<le> cdMaximumTimeout d"

definition bindingsFit :: "(js_string \<rightharpoonup> capability_route) \<Rightarrow> plan_node \<Rightarrow> descriptor \<Rightarrow> bool" where
  "bindingsFit routes n d \<longleftrightarrow>
     (\<forall>input \<in> set (pnInputs n). \<forall>b. nodeOutput (snd input) = Some b \<longrightarrow>
        (\<exists>route port. controlledPort routes b route port \<and> semanticsFit (rtDescriptor route) d (spKind port))) \<and>
     (\<forall>c \<in> set (pnPreconditions n). \<forall>v b. boundValue c = Some v \<longrightarrow> nodeOutput v = Some b \<longrightarrow>
        (\<exists>route port. controlledPort routes b route port))"

text \<open>The routes known so far are those the registry gives; the final ones are all of them.\<close>

definition nodeRoutes :: "plan_validator \<Rightarrow> gateway_principal \<Rightarrow> plan_node list \<Rightarrow> js_string \<rightharpoonup> capability_route" where
  "nodeRoutes v p nodes i = (case nodeMap nodes i of None \<Rightarrow> None
     | Some n \<Rightarrow> (case resolveNode v p n of Inl failure \<Rightarrow> None | Inr route \<Rightarrow> Some route))"

lemma nodeRoutes_Some:
  "nodeRoutes v p nodes i = Some route \<longleftrightarrow> (\<exists>n. nodeMap nodes i = Some n \<and> resolveNode v p n = Inr route)"
  by (auto simp: nodeRoutes_def split: option.splits sum.splits)

lemma sourceRoute_known:
  assumes "routes \<subseteq>\<^sub>m nodeRoutes v p nodes" and "nodeMap nodes i = Some n" and "sourceRoute v p routes n i = Inr route"
  shows "nodeRoutes v p nodes i = Some route"
proof (cases "routes i")
  case None
  then show ?thesis using assms(2,3) by (simp add: sourceRoute_def nodeRoutes_Some)
next
  case (Some r)
  then have "nodeRoutes v p nodes i = Some r" using assms(1) by (auto simp: map_le_def dom_def)
  then show ?thesis using assms(3) Some by (simp add: sourceRoute_def)
qed

lemma controlledOutput_port:
  assumes "routes \<subseteq>\<^sub>m nodeRoutes v p nodes" and "assertControlledOutputBinding v p (nodeMap nodes) routes b = Inr port"
  obtains n route where "nodeMap nodes (noNode b) = Some n" and "sourceRoute v p routes n (noNode b) = Inr route"
    and "controlledPort (nodeRoutes v p nodes) b route port"
proof -
  obtain n route where n: "nodeMap nodes (noNode b) = Some n" "sourceRoute v p routes n (noNode b) = Inr route"
    and found: "find (\<lambda>port. cpName port = noPort b) (cdOutputs (rtDescriptor route)) = Some port"
    and agrees: "noPath b = cpPath port" "assertPortEqual (pbPort b) port = Inr ()"
    using assms(2) by (auto simp: assertControlledOutputBinding_def bindR_eq_Inr split: option.splits)
  have "controlledPort (nodeRoutes v p nodes) b route port"
    using sourceRoute_known [OF assms(1) n] found agrees
    by (auto simp: controlledPort_def find_Some_iff assertPortEqual_def dest: nth_mem)
  then show thesis using that n by blast
qed

lemma assertSourceSemantics_fit: "assertSourceSemantics producer consumer port = Inr u \<Longrightarrow> semanticsFit producer consumer (spKind port)"
  by (auto simp: assertSourceSemantics_def semanticsFit_def bindR_eq_Inr list_ex_iff)

lemma assertInput_fit:
  assumes follow: "routes \<subseteq>\<^sub>m nodeRoutes v p nodes"
    and "assertInput v p (nodeMap nodes) routes d whole input = Inr u" and "nodeOutput (snd input) = Some b"
  shows "\<exists>route port. controlledPort (nodeRoutes v p nodes) b route port \<and> semanticsFit (rtDescriptor route) d (spKind port)"
proof -
  obtain port route where port: "assertControlledOutputBinding v p (nodeMap nodes) routes b = Inr port"
    and route: "sourceRoute v p routes (the (nodeMap nodes (noNode b))) (noNode b) = Inr route"
    and fit: "assertSourceSemantics (rtDescriptor route) d port = Inr ()"
    using assms(2,3) by (auto simp: assertInput_def Let_def bindR_eq_Inr split: prod.splits)
  show ?thesis
    by (rule controlledOutput_port [OF follow port]) (use route assertSourceSemantics_fit [OF fit] in auto)
qed

lemma assertPrecondition_fit:
  assumes "routes \<subseteq>\<^sub>m nodeRoutes v p nodes" and "assertPrecondition v p (nodeMap nodes) routes c = Inr u"
    and "boundValue c = Some bound" and "nodeOutput bound = Some b"
  shows "\<exists>route port. controlledPort (nodeRoutes v p nodes) b route port"
proof -
  obtain port where "assertControlledOutputBinding v p (nodeMap nodes) routes b = Inr port"
    using assms(2-) by (auto simp: assertPrecondition_def Let_def bindR_eq_Inr)
  from controlledOutput_port [OF assms(1) this] show ?thesis by blast
qed

lemma mapR_each: "mapR f xs = Inr ys \<Longrightarrow> x \<in> set xs \<Longrightarrow> \<exists>y. f x = Inr y"
  by (auto simp: mapR_Inr_iff list_all2_conv_all_nth in_set_conv_nth)

lemma update_fresh: "k \<notin> fst ` set table \<Longrightarrow> AList.update k entry table = table @ [(k, entry)]"
  by (induction table) auto

lemma validateNode_run:
  assumes follow: "routes \<subseteq>\<^sub>m nodeRoutes v p nodes" and n: "nodeMap nodes (pnId n) = Some n"
    and "pnId n \<notin> fst ` set dependencies" and run: "validateNode v p nodes (routes, dependencies) n = Inr (routes', dependencies')"
  obtains route where "nodeRoutes v p nodes (pnId n) = Some route" and "routes' = routes(pnId n \<mapsto> route)"
    and "dependencies' = dependencies @ [(pnId n, dependenciesForNode n)]"
    and "operationAgrees n p (rtDescriptor route)" and "bindingsFit (nodeRoutes v p nodes) n (rtDescriptor route)"
proof -
  obtain route where route: "resolveNode v p n = Inr route" and lock: "assertOperationLock v n (rtDescriptor route) = Inr ()"
    and scope: "assertScope (rtDescriptor route) p = Inr ()" and snapshot: "assertSnapshotSupport (rtDescriptor route) = Inr ()"
    and budget: "assertNodeBudget n (rtDescriptor route) = Inr ()"
    and ports: "assertInputPorts v p (nodeMap nodes) routes n (rtDescriptor route) = Inr ()"
    and "\<exists>us. mapR (assertPrecondition v p (nodeMap nodes) routes) (pnPreconditions n) = Inr us"
    and tables: "routes' = routes(pnId n \<mapsto> route)" "dependencies' = AList.update (pnId n) (dependenciesForNode n) dependencies"
    using run by (auto simp: validateNode_def Let_def bindR_eq_Inr)
  then obtain us where preconditions: "mapR (assertPrecondition v p (nodeMap nodes) routes) (pnPreconditions n) = Inr us" by blast
  let ?d = "rtDescriptor route" and ?whole = "wholeRequestBinding n (rtDescriptor route)"
  obtain ws where inputs: "mapR (assertInput v p (nodeMap nodes) routes ?d ?whole) (pnInputs n) = Inr ws"
    and single: "?whole \<or> length (cdInputs ?d) = 1"
    using ports by (auto simp: assertInputPorts_def Let_def bindR_eq_Inr)
  have "length (map cpName (cdInputs ?d)) = 1" if ?whole using that by (simp add: wholeRequestBinding_def)
  then have "length (cdInputs ?d) = 1" using single by auto
  then have "operationAgrees n p ?d" using lock scope snapshot budget
    by (auto simp: operationAgrees_def assertOperationLock_def assertScope_def assertSnapshotSupport_def assertNodeBudget_def
        withinLimit_def bindR_eq_Inr split: option.splits)
  moreover have "bindingsFit (nodeRoutes v p nodes) n ?d"
    using mapR_each [OF inputs] assertInput_fit [OF follow] mapR_each [OF preconditions] assertPrecondition_fit [OF follow]
    unfolding bindingsFit_def by (meson)
  moreover have "nodeRoutes v p nodes (pnId n) = Some route" using n route by (simp add: nodeRoutes_Some)
  ultimately show thesis using that tables update_fresh [OF assms(3)] by simp
qed

lemma validateNodes_run:
  assumes "distinct (map pnId nodes)" and "foldR (validateNode v p nodes) (routes, dependencies) ns = Inr (routes', dependencies')"
    and "routes \<subseteq>\<^sub>m nodeRoutes v p nodes" and "set ns \<subseteq> set nodes" and "distinct (map fst dependencies @ map pnId ns)"
  shows "routes' \<subseteq>\<^sub>m nodeRoutes v p nodes \<and> dom routes' = dom routes \<union> pnId ` set ns \<and>
    dependencies' = dependencies @ map (\<lambda>n. (pnId n, dependenciesForNode n)) ns \<and>
    (\<forall>n \<in> set ns. \<exists>route. nodeRoutes v p nodes (pnId n) = Some route \<and>
       operationAgrees n p (rtDescriptor route) \<and> bindingsFit (nodeRoutes v p nodes) n (rtDescriptor route))"
  using assms(2-)
proof (induction ns arbitrary: routes dependencies)
  case (Cons n ns)
  obtain r1 d1 where first: "validateNode v p nodes (routes, dependencies) n = Inr (r1, d1)"
    and rest: "foldR (validateNode v p nodes) (r1, d1) ns = Inr (routes', dependencies')"
    using Cons.prems(1) by (auto simp: bindR_eq_Inr)
  have known: "nodeMap nodes (pnId n) = Some n" using Cons.prems(3) nodeMap_known [OF assms(1)] by simp
  have fresh: "pnId n \<notin> fst ` set dependencies" using Cons.prems(4) by auto
  obtain route where route: "nodeRoutes v p nodes (pnId n) = Some route" "r1 = routes(pnId n \<mapsto> route)"
    "d1 = dependencies @ [(pnId n, dependenciesForNode n)]" "operationAgrees n p (rtDescriptor route)"
    "bindingsFit (nodeRoutes v p nodes) n (rtDescriptor route)"
    by (rule validateNode_run [OF Cons.prems(2) known fresh first])
  have follow: "r1 \<subseteq>\<^sub>m nodeRoutes v p nodes" using Cons.prems(2) route(1,2) by (auto simp: map_le_def)
  have apart: "distinct (map fst d1 @ map pnId ns)" using Cons.prems(4) by (auto simp: route(3))
  have part: "set ns \<subseteq> set nodes" using Cons.prems(3) by simp
  have dom_r1: "dom r1 = insert (pnId n) (dom routes)" by (simp add: route(2))
  show ?case using Cons.IH [OF rest follow part apart] route(1,4,5) unfolding dom_r1 route(3) by simp
qed simp

text \<open>The keys of a document, at any depth.\<close>

fun keysOf :: "int json \<Rightarrow> js_string list" where
  "keysOf (JArr items) = concat (map keysOf items)"
| "keysOf (JObj entries) = concat (map (\<lambda>(key, child). key # keysOf child) entries)"
| "keysOf v = []"

lemma hasSecurityClaim_keys: "hasSecurityClaim v \<longleftrightarrow> (\<exists>key \<in> set (keysOf v). lowerCase key \<in> set RESERVED_SECURITY_KEYS)"
proof (induction v rule: hasSecurityClaim.induct)
  case (1 items)
  then show ?case by (auto simp: list_ex_iff)
next
  case (2 entries)
  then show ?case by (fastforce simp: list_ex_iff isReservedKey_def)
qed simp_all

definition controlledNode ::
  "(manifest \<Rightarrow> bool) \<Rightarrow> registry_profile \<Rightarrow> registry \<Rightarrow> gateway_principal \<Rightarrow> (js_string \<rightharpoonup> capability_route) \<Rightarrow> plan_node \<Rightarrow> bool" where
  "controlledNode validManifest profile reg p routes n \<longleftrightarrow> (\<exists>route b d. routes (pnId n) = Some route \<and>
     (mfProvider (bnManifest b), b) \<in> set (rgBindings reg) \<and> acceptedBinding validManifest profile b \<and>
     d \<in> set (mfCapabilities (bnManifest b)) \<and> route = bindingRoute b d \<and>
     operationNamed d (orId (pnOperation n)) (orVersion (pnOperation n)) \<and>
     isExecutable (cdMaturity d) (gpAllowExperimental p = Some True) \<and> operationAgrees n p d \<and> bindingsFit routes n d)"

definition executablePlan ::
  "(manifest \<Rightarrow> bool) \<Rightarrow> registry_profile \<Rightarrow> plan_validator \<Rightarrow> query_submission \<Rightarrow> gateway_principal \<Rightarrow> validated_plan \<Rightarrow> bool" where
  "executablePlan validManifest profile v s p validated \<longleftrightarrow> (let plan = sbPlan s; nodes = qpNodes plan in
     vpSubmission validated = s \<and> wellFormedPlan plan \<and> executionOrder nodes (vpOrdered validated) \<and>
     dom (vpRoutes validated) = pnId ` set nodes \<and>
     (\<forall>n \<in> set nodes. controlledNode validManifest profile (pvRegistry v) p (vpRoutes validated) n) \<and>
     (\<forall>output \<in> set (qpOutputs plan). \<exists>route port. controlledPort (vpRoutes validated) (snd output) route port) \<and>
     (\<forall>n \<in> set nodes. \<exists>ids. map_of (vpDependencies validated) (pnId n) = Some ids \<and> (\<forall>d. d \<in> set ids \<longleftrightarrow> needs n d)) \<and>
     qbNodes (qpBudgets plan) \<le> qbNodes (pvPolicy v) \<and> qbDepth (qpBudgets plan) \<le> qbDepth (pvPolicy v) \<and>
     (\<forall>b. budgetOf b (qpBudgets plan) \<le> budgetOf b (pvPolicy v)) \<and>
     (\<forall>key \<in> set (keysOf (sbParameters s)). lowerCase key \<notin> set RESERVED_SECURITY_KEYS))"

lemma resolveNode_controlled:
  assumes "registered validManifest profile (pvRegistry v)" and "nodeRoutes v p nodes (pnId n) = Some route"
    and "nodeMap nodes (pnId n) = Some n"
    and "operationAgrees n p (rtDescriptor route)" and "bindingsFit (nodeRoutes v p nodes) n (rtDescriptor route)"
  shows "controlledNode validManifest profile (pvRegistry v) p (nodeRoutes v p nodes) n"
proof -
  have "resolve (pvRegistry v) (orId (pnOperation n)) (orVersion (pnOperation n)) (gpAllowExperimental p = Some True) = Inr route"
    using assms(2,3) by (auto simp: nodeRoutes_Some resolveNode_def map_sum_def split: sum.splits)
  from resolve_controlled [OF assms(1) this] show ?thesis using assms(2,4,5) unfolding controlledNode_def by blast
qed

lemma wellFormed_order:
  assumes "wellFormedPlan plan"
  shows "\<exists>ordered. topologicalOrder (qpNodes plan) (map (\<lambda>n. (pnId n, dependenciesForNode n)) (qpNodes plan)) = Inr ordered \<and>
    executionOrder (qpNodes plan) ordered"
  by (rule topologicalOrder_orders) (use assms in \<open>auto simp: wellFormedPlan_def soundNode_def\<close>)

text \<open>The tables a run over all nodes leaves.\<close>

lemma validateTables:
  assumes "wellFormedPlan plan" and "foldR (validateNode v p (qpNodes plan)) (Map.empty, []) (qpNodes plan) = Inr (routes, dependencies)"
  shows "routes = nodeRoutes v p (qpNodes plan)" and "dom routes = pnId ` set (qpNodes plan)"
    and "dependencies = map (\<lambda>n. (pnId n, dependenciesForNode n)) (qpNodes plan)"
    and "\<And>n. n \<in> set (qpNodes plan) \<Longrightarrow> \<exists>route. routes (pnId n) = Some route \<and> operationAgrees n p (rtDescriptor route) \<and>
      bindingsFit routes n (rtDescriptor route)"
proof -
  let ?nodes = "qpNodes plan"
  have dist: "distinct (map pnId ?nodes)" using assms(1) by (simp add: wellFormedPlan_def)
  note ran = validateNodes_run [OF dist assms(2)]
  have dom_routes: "dom routes = pnId ` set ?nodes" using ran dist by simp
  moreover have "dom (nodeRoutes v p ?nodes) \<subseteq> pnId ` set ?nodes" by (auto simp: nodeRoutes_Some nodeMap_known [OF dist])
  moreover have "routes \<subseteq>\<^sub>m nodeRoutes v p ?nodes" using ran dist by simp
  ultimately show routes: "routes = nodeRoutes v p ?nodes" by (intro map_le_antisym) (auto simp: map_le_def dom_def)
  show "dom routes = pnId ` set ?nodes" by (rule dom_routes)
  show "dependencies = map (\<lambda>n. (pnId n, dependenciesForNode n)) ?nodes" using ran dist by simp
  show "\<exists>route. routes (pnId n) = Some route \<and> operationAgrees n p (rtDescriptor route) \<and> bindingsFit routes n (rtDescriptor route)"
    if "n \<in> set ?nodes" for n
    using ran dist that unfolding routes by simp
qed

lemma validate_executable:
  assumes "registered validManifest profile (pvRegistry v)" and "validate v s p = Inr validated"
  shows "executablePlan validManifest profile v s p validated"
proof -
  let ?plan = "sbPlan s" and ?nodes = "qpNodes (sbPlan s)"
  obtain routes dependencies us where wf: "wellFormedPlan ?plan" and claims: "assertNoSecurityClaims (sbParameters s) = Inr ()"
    and budgets: "assertSystemBudgets v s = Inr ()"
    and tables: "foldR (validateNode v p ?nodes) (Map.empty, []) ?nodes = Inr (routes, dependencies)"
    and outputs: "mapR (validateOutput v p ?nodes routes) (qpOutputs ?plan) = Inr us"
    and order: "topologicalOrder ?nodes dependencies = Inr (vpOrdered validated)"
    and result: "vpSubmission validated = s" "vpRoutes validated = routes" "vpDependencies validated = dependencies"
    using assms(2) by (auto simp: validate_def Let_def bindR_eq_Inr planIssues_none)
  note t = validateTables [OF wf tables]
  have dist: "distinct (map pnId ?nodes)" using wf by (simp add: wellFormedPlan_def)
  have "executionOrder ?nodes (vpOrdered validated)" using wellFormed_order [OF wf] order by (auto simp: t(3))
  moreover have "controlledNode validManifest profile (pvRegistry v) p routes n" if n: "n \<in> set ?nodes" for n
    using t(4) [OF n] resolveNode_controlled [OF assms(1), of p ?nodes n] n nodeMap_known [OF dist] unfolding t(1) by blast
  moreover have "\<exists>route port. controlledPort routes (snd out) route port" if named: "out \<in> set (qpOutputs ?plan)" for out
  proof -
    obtain port where "assertControlledOutputBinding v p (nodeMap ?nodes) routes (snd out) = Inr port"
      using mapR_each [OF outputs named] by (auto simp: validateOutput_def Let_def bindR_eq_Inr)
    from controlledOutput_port [OF map_le_refl this [unfolded t(1)]] show ?thesis unfolding t(1) by blast
  qed
  moreover have "\<exists>ids. map_of dependencies (pnId n) = Some ids \<and> (\<forall>d. d \<in> set ids \<longleftrightarrow> needs n d)" if "n \<in> set ?nodes" for n
    using that dist by (intro exI [of _ "dependenciesForNode n"])
      (auto simp: t(3) dependenciesForNode_needs map_of_eq_Some_iff comp_def)
  moreover have "budgetOf b (qpBudgets ?plan) \<le> budgetOf b (pvPolicy v)" for b
    using budgets all_budgets by (auto simp: assertSystemBudgets_def Let_def list_ex_iff not_less)
  ultimately show ?thesis
    using wf claims budgets t(2) unfolding executablePlan_def Let_def result
    by (auto simp: assertNoSecurityClaims_def hasSecurityClaim_keys assertSystemBudgets_def Let_def)
qed

text \<open>The checks of nodes and outputs never speak of cycles or of the semantics of the plan.\<close>

fun structuralFailure :: "plan_failure \<Rightarrow> bool" where
  "structuralFailure NodeLost = True"
| "structuralFailure (PlanCycle keys) = True"
| "structuralFailure (SemanticsInvalid issues) = True"
| "structuralFailure _ = False"

named_theorems local_checks

lemma assertCanonicalSchema_local [local_checks]: "assertCanonicalSchema v uri hash = Inl e \<Longrightarrow> \<not> structuralFailure e"
  by (auto simp: assertCanonicalSchema_def split: option.splits)

lemma resolveNode_local [local_checks]: "resolveNode v p n = Inl e \<Longrightarrow> \<not> structuralFailure e"
  by (auto simp: resolveNode_def map_sum_def split: sum.splits)

lemma assertPortEqual_local [local_checks]: "assertPortEqual a b = Inl e \<Longrightarrow> \<not> structuralFailure e"
  by (auto simp: assertPortEqual_def)

lemma sourceRoute_local [local_checks]: "sourceRoute v p routes n i = Inl e \<Longrightarrow> \<not> structuralFailure e"
  by (auto simp: sourceRoute_def split: option.splits dest!: local_checks)

lemma assertControlledOutputBinding_local [local_checks]:
  "assertControlledOutputBinding v p nodes routes b = Inl e \<Longrightarrow> \<not> structuralFailure e"
  by (auto simp: assertControlledOutputBinding_def bindR_eq_Inl split: option.splits dest!: local_checks)

lemma assertSourceSemantics_local [local_checks]: "assertSourceSemantics a b port = Inl e \<Longrightarrow> \<not> structuralFailure e"
  by (auto simp: assertSourceSemantics_def bindR_eq_Inl split: option.splits)

lemma assertOperationLock_local [local_checks]: "assertOperationLock v n d = Inl e \<Longrightarrow> \<not> structuralFailure e"
  by (auto simp: assertOperationLock_def bindR_eq_Inl dest!: local_checks)

lemma nodeChecks_local [local_checks]:
  "assertScope d p = Inl e \<Longrightarrow> \<not> structuralFailure e"
  "assertSnapshotSupport d = Inl e \<Longrightarrow> \<not> structuralFailure e"
  "assertNodeBudget n d = Inl e \<Longrightarrow> \<not> structuralFailure e"
  by (auto simp: assertScope_def assertSnapshotSupport_def assertNodeBudget_def bindR_eq_Inl)

lemma checkedTarget_local [local_checks]: "checkedTarget input = Inl e \<Longrightarrow> \<not> structuralFailure e"
  by (auto simp: checkedTarget_def targetPathSegments_def Let_def bindR_eq_Inl split: list.splits if_splits)

lemma assertTargetPaths_local [local_checks]: "assertTargetPaths entries whole = Inl e \<Longrightarrow> \<not> structuralFailure e"
  by (auto simp: assertTargetPaths_def bindR_eq_Inl split: if_splits dest!: mapR_Inl local_checks)

lemma assertInput_local [local_checks]: "assertInput v p nodes routes d whole input = Inl e \<Longrightarrow> \<not> structuralFailure e"
  by (auto simp: assertInput_def Let_def bindR_eq_Inl split: prod.splits if_splits option.splits dest!: local_checks)

lemma assertInputPorts_local [local_checks]: "assertInputPorts v p nodes routes n d = Inl e \<Longrightarrow> \<not> structuralFailure e"
  by (auto simp: assertInputPorts_def Let_def bindR_eq_Inl dest!: mapR_Inl local_checks)

lemma assertPrecondition_local [local_checks]: "assertPrecondition v p nodes routes c = Inl e \<Longrightarrow> \<not> structuralFailure e"
  by (auto simp: assertPrecondition_def Let_def bindR_eq_Inl split: option.splits dest!: local_checks)

lemma validateNode_local [local_checks]: "validateNode v p nodes tables n = Inl e \<Longrightarrow> \<not> structuralFailure e"
  by (auto simp: validateNode_def Let_def bindR_eq_Inl split: prod.splits dest!: mapR_Inl local_checks)

lemma validateOutput_local [local_checks]: "validateOutput v p nodes routes named = Inl e \<Longrightarrow> \<not> structuralFailure e"
  by (auto simp: validateOutput_def Let_def bindR_eq_Inl dest!: local_checks)

lemma submissionChecks_local [local_checks]:
  "assertPrincipal v p = Inl e \<Longrightarrow> \<not> structuralFailure e"
  "assertNoSecurityClaims w = Inl e \<Longrightarrow> \<not> structuralFailure e"
  "assertSystemBudgets v s = Inl e \<Longrightarrow> \<not> structuralFailure e"
  by (auto simp: assertPrincipal_def assertNoSecurityClaims_def assertSystemBudgets_def Let_def)

lemma foldR_Inl: "foldR f s xs = Inl e \<Longrightarrow> \<exists>t x. f t x = Inl e"
  by (induction xs arbitrary: s) (auto simp: bindR_eq_Inl)

text \<open>So only a plan that is not well formed is refused for its structure.\<close>

lemma validate_refuses:
  assumes "validate v s p = Inl failure" and "structuralFailure failure"
  shows "\<not> wellFormedPlan (sbPlan s) \<and> failure = SemanticsInvalid (validateWorldQueryPlanSemantics (sbPlan s))"
proof (cases "wellFormedPlan (sbPlan s)")
  case True
  let ?nodes = "qpNodes (sbPlan s)"
  obtain ordered where "topologicalOrder ?nodes (map (\<lambda>n. (pnId n, dependenciesForNode n)) ?nodes) = Inr ordered"
    using wellFormed_order [OF True] by blast
  then have order: "topologicalOrder ?nodes dependencies \<noteq> Inl e"
    if "foldR (validateNode v p ?nodes) (Map.empty, []) ?nodes = Inr (routes, dependencies)" for routes dependencies e
    using validateTables(3) [OF True that] by simp
  show ?thesis
    using assms True order
    by (auto simp: validate_def Let_def bindR_eq_Inl bindR_eq_Inr planIssues_none dest!: foldR_Inl mapR_Inl local_checks)
next
  case False
  then show ?thesis using assms planIssues_none [of "sbPlan s"]
    by (auto simp: validate_def Let_def bindR_eq_Inl bindR_eq_Inr)
qed

text \<open>
  C40.  Let the registry of the gateway have been built by registrations.  When \<open>validate\<close> accepts a submission, its
  plan is well formed (unique names, safe and disjoint target paths, every need a node of the plan, no cycle, every
  chain and sum within the plan's budgets) and within the policy; the nodes are handed to the runner in an order that
  is a permutation of the plan's and puts each after those it needs; every node has a route whose binding was approved
  and checked, whose operation is the one it names, with its schema hashes, one input, the scope claims of the
  principal, a snapshot where it reads the world and the provider's limits kept; and every binding to a node's output
  names a port of that node's controlled descriptor, with its selector and type and, for an input, with semantics that
  fit.  When it refuses, it is never because ordering failed, and for the semantics of the plan only if that is not well
  formed.
\<close>

theorem validated_plan_executable:
  assumes "registered validManifest profile (pvRegistry v)"
  shows "case validate v s p of
      Inr validated \<Rightarrow> executablePlan validManifest profile v s p validated
    | Inl failure \<Rightarrow> failure \<noteq> NodeLost \<and> (\<forall>keys. failure \<noteq> PlanCycle keys) \<and>
        (\<forall>issues. failure = SemanticsInvalid issues \<longrightarrow> \<not> wellFormedPlan (sbPlan s))"
  using validate_executable [OF assms, of s p] validate_refuses [of v s p] by (auto split: sum.splits)

definition samplePort :: schema_port where
  "samplePort = \<lparr>spUri = js ''u'', spHash = js ''h'', spKind = GEOMETRY, spUnit = UNSPECIFIED\<rparr>"

definition sampleDescriptor :: descriptor where
  "sampleDescriptor = \<lparr>cdId = js ''op'', cdVersion = js ''1'', cdInputUri = js ''u'', cdInputHash = js ''h'',
     cdOutputUri = js ''u'', cdOutputHash = js ''h'', cdBinding = WORLD_INDEPENDENT, cdScope = IDENTITY_ONLY,
     cdMaturity = STABLE, cdDeprecation = None, cdDefaultTimeout = 10, cdMaximumTimeout = 20, cdMaximumRows = Some 100,
     cdMaximumCandidates = None, cdMaximumBytes = None,
     cdInputs = [schema_port.extend samplePort \<lparr>cpName = js ''request'', cpPath = None\<rparr>],
     cdOutputs = [schema_port.extend samplePort \<lparr>cpName = js ''result'', cpPath = None\<rparr>],
     cdDataSnapshot = SNAPSHOT_NONE, cdResolution = None, cdSemantics = None\<rparr>"

definition sampleProvider :: provider_binding where
  "sampleProvider = \<lparr>bnApprovalId = js ''x'', bnApproved = True,
     bnEndpoint = \<lparr>urProtocol = js ''https:'', urUsername = [], urPassword = [], urHash = [], urSearch = [],
       urPathname = js ''/'', urHostname = js ''p''\<rparr>,
     bnPlaintext = None, bnClient = js ''p'',
     bnManifest = \<lparr>mfProvider = js ''p'', mfVersion = js ''1'', mfSchemaVersion = None, mfCapabilities = [sampleDescriptor]\<rparr>\<rparr>"

definition sampleRegistry :: registry where
  "sampleRegistry = (case register (\<lambda>_. True) LEGACY emptyRegistry sampleProvider of Inl _ \<Rightarrow> emptyRegistry | Inr reg \<Rightarrow> reg)"

definition sampleValidator :: plan_validator where
  "sampleValidator = \<lparr>pvRegistry = sampleRegistry, pvPolicy = DEFAULT_QUERY_PLAN_POLICY, pvSchemaLock = (\<lambda>_. Some (js ''h'')),
     pvBundle = \<lparr>cbAliases = (\<lambda>_. []), cbHashes = (\<lambda>_. None)\<rparr>, pvContract = (\<lambda>_. True), pvParseDate = (\<lambda>_. Some 0)\<rparr>"

definition samplePlanNode :: "string \<Rightarrow> input_binding \<Rightarrow> plan_node" where
  "samplePlanNode i b = \<lparr>pnId = js i,
     pnOperation = \<lparr>orId = js ''op'', orVersion = js ''1'', orInputHash = js ''h'', orOutputHash = js ''h''\<rparr>,
     pnInputs = [(js ''request'', b)], pnPreconditions = [], pnPolicy = FAIL_FAST,
     pnBudget = \<lparr>nbRows = 10, nbCandidates = 10, nbBytes = 10, nbMs = 10\<rparr>\<rparr>"

definition sampleOutputOf :: "string \<Rightarrow> node_output" where
  "sampleOutputOf i = \<lparr>pbPort = samplePort, pbTarget = None, noNode = js i, noPort = js ''result'', noPath = None\<rparr>"

text \<open>The second node is listed first.\<close>

definition sampleSubmission :: query_submission where
  "sampleSubmission = \<lparr>sbRequestId = js ''r'', sbIdempotencyKey = js ''k'', sbParameterHash = js ''p'', sbParameters = JObj [],
     sbPlan = \<lparr>qpId = js ''q'',
       qpNodes = [samplePlanNode ''b'' (NODE_OUTPUT (sampleOutputOf ''a'')),
         samplePlanNode ''a'' (LITERAL \<lparr>pbPort = samplePort, pbTarget = None\<rparr> JNull)],
       qpOutputs = [(js ''out'', sampleOutputOf ''b'')],
       qpBudgets = \<lparr>nbRows = 20, nbCandidates = 20, nbBytes = 20, nbMs = 20, qbNodes = 2, qbDepth = 2\<rparr>\<rparr>\<rparr>"

definition samplePrincipal :: gateway_principal where
  "samplePrincipal = \<lparr>gpRef = js ''me'', gpMethod = js ''token'', gpAuthenticatedAt = js ''now'', gpDataScope = None,
     gpDatasetScope = None, gpAllowExperimental = None\<rparr>"

definition sampleValidated :: "js_string list option" where
  "sampleValidated = (case validate sampleValidator sampleSubmission samplePrincipal of
     Inl _ \<Rightarrow> None | Inr validated \<Rightarrow> Some (map pnId (vpOrdered validated)))"

lemma sampleRegistry_registered: "registered (\<lambda>_. True) LEGACY sampleRegistry"
proof -
  have "isl (register (\<lambda>_. True) LEGACY emptyRegistry sampleProvider) = False" by code_simp
  then obtain reg where "register (\<lambda>_. True) LEGACY emptyRegistry sampleProvider = Inr reg"
    by (cases "register (\<lambda>_. True) LEGACY emptyRegistry sampleProvider") auto
  then show ?thesis using registered.step [OF registered.start] by (simp add: sampleRegistry_def)
qed

lemma sampleValidated_order: "sampleValidated = Some [js ''a'', js ''b'']"
  by code_simp

theorem validated_plan_executable_witness:
  "\<exists>validated. validate sampleValidator sampleSubmission samplePrincipal = Inr validated \<and>
     map pnId (vpOrdered validated) = [js ''a'', js ''b''] \<and>
     executablePlan (\<lambda>_. True) LEGACY sampleValidator sampleSubmission samplePrincipal validated"
proof -
  have "registered (\<lambda>_. True) LEGACY (pvRegistry sampleValidator)"
    using sampleRegistry_registered by (simp add: sampleValidator_def)
  from validated_plan_executable [OF this, of sampleSubmission samplePrincipal] sampleValidated_order
  show ?thesis by (auto simp: sampleValidated_def split: sum.splits)
qed

end
