(* ===== verification/Spec2Isabelle.thy ===== *)
theory Spec2Isabelle
  imports IntervalReconstruct SourceSelection StrictVerified RoadSelection EndpointResolution RouteAlternatives NetworkTurns NetworkQuery NetworkCosts PlanOrder
begin

text \<open>
  Verification of the geospatial operational world model.

  The repository keeps a model of roads and of what vehicles did on them.  Four of its parts decide
  things and are modelled here, each from the TypeScript under \<open>src/packages\<close> and \<open>src/services\<close>; the rest
  moves data between them, PostgreSQL and HTTP.

  \<^bold>\<open>Historical traces\<close> (\<open>historical-trace-model\<close>, \<open>historical-trace-core\<close>).  Events of a task are ordered
  and validated, a state machine turns them into executions with phases, the executions are hashed
  and compared with the stored revisions; a request for a trajectory selects one authoritative source,
  is cut down to the active phases and to the gaps of the source, and gets a completeness verdict.

    \<^item> \<open>TraceModel\<close>: the types of \<open>references.ts\<close>, \<open>interval.ts\<close>, \<open>trajectory.ts\<close>, \<open>outcome.ts\<close>.
    \<^item> \<open>TimePeriods\<close>: \<open>trajectory-completeness.ts\<close>.  Lists of periods are judged by the set of milliseconds
      they cover: normalisation, intersection, request domain, slice plan, completeness.
    \<^item> \<open>IntervalMachine\<close>: \<open>interval-state-machine.ts\<close>.  The record \<open>machine\<close> holds the executions so far, the
      current one and the orphans; one function per event type and state.  Events are conserved, timelines
      are gapless, only the last execution is open, and the two throws of the code are unreachable.
    \<^item> \<open>IntervalReconstruct\<close>: \<open>interval-reconstruction.ts\<close>.  The order of arrival never shows; plans follow
      the latest revision; planning twice reuses everything.
    \<^item> \<open>CanonicalJson\<close>: \<open>canonical-hash.ts\<close>.  The printed form identifies values up to the order of keys.
    \<^item> \<open>SourceSelection\<close>: \<open>source-selection.ts\<close>, every branch, its soundness and its independence of order.

  \<^bold>\<open>Road networks\<close> (\<open>network-foundation\<close>, \<open>network-query-core\<close>).  A topology of directed arcs is given turn
  rules; path queries search it between directed positions.

    \<^item> \<open>NetworkGraph\<close>, \<open>NetworkTurns\<close>: \<open>turn-restrictions.ts\<close> with \<open>canonical.ts\<close>, \<open>identity.ts\<close> and \<open>types.ts\<close>.
      Restrictions between road features become rules between arcs or diagnostics, none is lost; the
      automaton over the prefixes of the rules recognises exactly the rules that end at the arc driven.
    \<^item> \<open>NetworkQuery\<close>: \<open>engine.ts\<close>.  The frontier is the queue of labels and the best cost of every pair of a node
      and the last arcs; \<open>searchOk\<close> is its invariant.  Answers are exact, and every query ends.
    \<^item> \<open>NetworkCosts\<close>: \<open>profile-cost-condition.ts\<close>.  Travel profiles, cost profiles, condition snapshots, and the
      cost of an arc in fixed point, with the 32-bit access masks of the code.

  \<^bold>\<open>Road coverage\<close> (\<open>road-coverage-planning-core\<close>, \<open>road-coverage-verifier-core\<close>,
  \<open>road-coverage-alternatives-core\<close>).  A selection of road stretches becomes a set of service obligations
  and a problem with an identity; endpoints are resolved on the network; one of four solvers finds a
  route; an independent verifier replays it; verified routes compete for the places of a result set.

    \<^item> \<open>CoverageModel\<close>: the contract types of \<open>types.ts\<close>, \<open>errors.ts\<close> and \<open>generated/contracts.ts\<close>, the digest
      JSON of \<open>contract-runtime\<close>, and the fixed-point metrics of a slice of an arc.
    \<^item> \<open>RoadSelection\<close>: \<open>selection.ts\<close>; \<open>KeyedLists\<close>: its deduplication by key.
    \<^item> \<open>ObligationLedger\<close>: \<open>canonical.ts\<close>, \<open>problem.ts\<close>; \<open>EndpointResolution\<close>: \<open>endpoint.ts\<close>.
    \<^item> \<open>ShortestPath\<close>, \<open>DcppNetwork\<close>, \<open>EulerTrail\<close>, \<open>ClosedDcpp\<close>: \<open>closed-dcpp.ts\<close> in the order of the code:
      connector search, validation and balance and transportation, Hierholzer's walk, materialisation.
      \<open>DcppSoundness\<close> shows what the closed solver returns.
    \<^item> \<open>TravelSteps\<close>, \<open>FixedRpp\<close>: \<open>fixed-rpp.ts\<close>, the rural postman over atomic steps.
    \<^item> \<open>TravelRules\<close>, \<open>StrictRouting\<close>: \<open>strict-routing.ts\<close>, the solver under turn rules, policy and conditions,
      with its search over nodes and truncated turn histories and its beam over tasks.
    \<^item> \<open>CoverageVerifier\<close>: \<open>verification.ts\<close>; \<open>VerifierSoundness\<close>: what a VALID report means, stated without
      the verifier's own data structures.
    \<^item> \<open>NetworkPlaces\<close>, \<open>RouteAcceptance\<close>, \<open>StepRoutes\<close>: the conditions under which the verifier reports VALID;
      \<open>DcppVerified\<close>, \<open>RppVerified\<close>, \<open>StrictVerified\<close>: every route of every solver meets them.
    \<^item> \<open>RouteAlternatives\<close>: \<open>alternatives.ts\<close>, the choice and publication of alternatives.

  \<^bold>\<open>World queries\<close> (\<open>contract-runtime\<close>, \<open>world-capability-gateway\<close>).  Providers register the operations
  they offer; a query is a graph of operations that is checked against the registry and put into an order
  before it runs.

    \<^item> \<open>QueryPlan\<close>: \<open>semantic-validation.ts\<close>, the checks of a plan.  The search that finds cycles and depth is
      judged by the relation of dependence; no issue is reported exactly for well-formed plans.
    \<^item> \<open>CapabilityRegistry\<close>: the checks of descriptors and manifests, and \<open>registry.ts\<close>.  The states of a registry
      are the rules of \<open>registered\<close>; \<open>registryOk\<close> is their invariant: every route comes from one approved binding.
    \<^item> \<open>PlanValidator\<close>, \<open>PlanOrder\<close>: \<open>query-plan-validation.ts\<close>, from the principal to the order of execution.

  \<^bold>\<open>Conventions\<close> (\<open>GowmPrelude\<close>).  A throw is \<open>Inl\<close> of the component's error type and \<open>bindR\<close> is the sequence
  of statements; strings are lists of UTF-16 code units; a \<open>Map\<close> that is iterated is an association list
  in insertion order, one that is only looked up is a map; \<open>sort\<close> is a stable sort by the code's
  comparator, which is an interpretation of the locale \<open>js_order\<close>.  Numbers are mathematical integers with
  the code's own safe-integer checks written out; sums that it makes of doubles without such a check
  (the penalties of \<open>advanceSequenceAutomaton\<close>, lengths and budgets) are exact here and agree with it below two to
  the power 53; where the code divides \<open>bigint\<close>s the quotient is the
  truncating one.  Names follow the code; record fields carry a prefix of their record.

  \<^bold>\<open>Clocks.\<close>  Deadlines are the only reason a search of the code may stop early.  A solver takes a natural
  number, the count of deadline checks that still pass, and raises the code's time-limit error when it is
  used up; so every loop of the model ends, and results never depend on fuel otherwise.  Clocks that suffice
  are given for the Euler walk (twice its traversals, \<open>eulerTrail_exact\<close>), the connector search (one check per
  node, \<open>connector_search_answers\<close>) and the path query (a power of the number of arcs, \<open>path_query_ends\<close>).  The
  walk back along predecessors, which the code does not bound, is shown to end.

  \<^bold>\<open>Parameters.\<close>  The digest (\<open>sha\<close>), the text of a number, \<open>Date.parse\<close> of conditions, repositories, the digest of a geometry, the JSON-schema
  validation of submissions and manifests and the generated bundle of schema hashes are arguments.  Only the identity theorems of \<open>CanonicalJson\<close> assume something of them: that number texts are
  JSON numbers which differ for different numbers (\<open>number_format\<close>, interpreted for integers).

  \<^bold>\<open>Hypotheses on data.\<close>  The postman solvers ignore conditions and policy, so their agreement with the
  verifier is stated for arcs that carry neither (\<open>plainArc\<close>).  The strict solver, the automaton of the
  network foundation and the path query join keys with separators; their theorems ask for keys free of
  them; derived keys never hold NUL, the separator of the automaton (\<open>derived_key_clean\<close>).  The validation of a
  query asks that its registry was filled by registrations.  Every theorem with a hypothesis has a witness on concrete data.

  \<^bold>\<open>Not modelled.\<close>  SQL repositories, workers and services, whose behaviour is the database's or the
  network's; HTTP and MQTT glue; generated contract bundles; the topology builder and the OpenDRIVE
  compiler, which compute road geometry in floating point; H3 wrappers; the JSON-schema validator, an
  interpreter over unknown values; the run of a query, which calls providers; diagnostics of solvers that are constants or echo their input.
\<close>

end
